(* ===== verification/Prelude.thy ===== *)
theory Prelude
  imports Main "HOL-Library.Word" "HOL-Library.Product_Lexorder"
begin

unbundle bit_operations_syntax

text \<open>
  Shared vocabulary of the development: the machine types of the Go code, the errors its
  functions return, the byte layout of fixed-width integers, and the generic facts on words
  and lists that every component uses.

  \<^item> \<open>uint8\<close>, \<open>uint32\<close>, \<open>uint64\<close> are words of that width; \<open>common.Hash\<close> (32 bytes) is a
    256-bit word and \<open>common.Address\<close> (20 bytes) a 160-bit word, read big-endian.
  \<^item> An \<open>error\<close> is the sentinel that \<open>errors.Is\<close> finds in it. Wrapping with \<open>%w\<close> keeps the
    sentinel and only adds text, so wrapping is the identity here; an error without a
    sentinel is \<open>ErrMsg\<close> with the fixed part of its message. A run-time panic is \<open>ErrPanic\<close>.
  \<^item> A Go result \<open>(v, err)\<close> is a sum: \<open>Inl err\<close> or \<open>Inr v\<close>. An operation that returns only
    an error returns \<open>None\<close> for success.
\<close>

section \<open>Types\<close>

type_synonym u8 = "8 word"
type_synonym u32 = "32 word"
type_synonym u64 = "64 word"
type_synonym hash = "256 word"
type_synonym address = "160 word"
type_synonym bytes = "u8 list"

text \<open>
  Keccak-256 comes from external packages; every definition that hashes takes it as an
  argument. Hashing the concatenation of its inputs is what the variadic calls of
  \<open>crypto.Keccak256Hash\<close>, \<open>keccak256.Hash\<close> and repeated \<open>hasher.Write\<close> do.
\<close>

type_synonym keccak = "bytes \<Rightarrow> hash"

datatype error =
    ErrNotFound
  | ErrInconsistentState
  | ErrBlockNotProcessed
  | ErrNoBlock0
  | ErrUniqueConstraint
  | ErrConstraint
  | ErrSQL
  | ErrTxDone
  | ErrPanic
  | ErrMsg string

section \<open>Automation\<close>

named_theorems bytes_simps \<open>big-endian encodings and their lengths\<close>
named_theorems level_simps \<open>positions in a binary tree, level by level\<close>

section \<open>Big-endian byte strings\<close>

text \<open>
  \<open>be_bytes n w\<close>: the \<open>n\<close> low-order bytes of \<open>w\<close>, most significant first
  (\<open>binary.BigEndian.PutUint32\<close>, \<open>PutUint64\<close>, \<open>Hash.Bytes\<close>, \<open>Address.Bytes\<close>).
\<close>

fun be_bytes :: "nat \<Rightarrow> 'a::len word \<Rightarrow> bytes" where
  "be_bytes 0 w = []"
| "be_bytes (Suc n) w = ucast (drop_bit (8 * n) w) # be_bytes n w"

text \<open>The value of a big-endian byte string: \<open>new(big.Int).SetBytes\<close>.\<close>

definition be_value :: "bytes \<Rightarrow> nat" where
  "be_value bs = foldl (\<lambda>acc b. acc * 256 + unat b) 0 bs"

abbreviation hash_bytes :: "hash \<Rightarrow> bytes" where
  "hash_bytes \<equiv> be_bytes 32"

abbreviation addr_bytes :: "address \<Rightarrow> bytes" where
  "addr_bytes \<equiv> be_bytes 20"

lemma length_be_bytes [simp, bytes_simps]: "length (be_bytes n w) = n"
  by (induction n) auto

lemma unat_less: "unat (w :: 'a::len word) < 2 ^ LENGTH('a)"
  by (rule unsigned_less)

lemma foldl_be_value:
  "foldl (\<lambda>acc b. acc * 256 + unat (b :: u8)) a bs = a * 256 ^ length bs + be_value bs"
proof (induction bs arbitrary: a)
  case Nil
  then show ?case by (simp add: be_value_def)
next
  case (Cons b bs)
  have "be_value (b # bs) = unat b * 256 ^ length bs + be_value bs"
    using Cons.IH [of "unat b"] by (simp add: be_value_def)
  then show ?case
    using Cons.IH [of "a * 256 + unat b"] by (simp add: distrib_right)
qed

lemma be_value_Nil [simp]: "be_value [] = 0"
  by (simp add: be_value_def)

lemma be_value_Cons: "be_value (b # bs) = unat b * 256 ^ length bs + be_value bs"
proof -
  have "be_value (b # bs) = foldl (\<lambda>acc b. acc * 256 + unat b) (unat b) bs"
    by (simp add: be_value_def)
  then show ?thesis by (simp only: foldl_be_value)
qed

lemma be_value_append: "be_value (xs @ ys) = be_value xs * 256 ^ length ys + be_value ys"
  by (induction xs) (simp_all add: be_value_Cons power_add algebra_simps)

lemma be_value_bound: "be_value bs < 256 ^ length bs"
proof (induction bs)
  case Nil
  then show ?case by simp
next
  case (Cons b bs)
  have "unat b \<le> 255"
    using unat_less [of b] by simp
  then have "unat b * 256 ^ length bs \<le> 255 * 256 ^ length bs"
    by (rule mult_le_mono1)
  with Cons.IH have "unat b * 256 ^ length bs + be_value bs < 256 * 256 ^ length bs"
    by linarith
  then show ?case by (simp add: be_value_Cons)
qed

lemma unat_ucast_drop_bit:
  "unat (ucast (drop_bit n (w :: 'a::len word)) :: u8) = unat w div 2 ^ n mod 256"
  by (simp only: unsigned_ucast_eq unat_drop_bit_eq)
     (simp add: drop_bit_eq_div take_bit_eq_mod)

lemma be_value_be_bytes: "be_value (be_bytes n (w :: 'a::len word)) = unat w mod 256 ^ n"
proof (induction n)
  case 0
  then show ?case by simp
next
  case (Suc n)
  have pow: "(2 :: nat) ^ (8 * n) = 256 ^ n"
    by (simp add: power_mult)
  have "unat w mod (256 ^ n * 256) = 256 ^ n * (unat w div 256 ^ n mod 256) + unat w mod 256 ^ n"
    by (rule mod_mult2_eq)
  then show ?case
    by (simp only: be_bytes.simps be_value_Cons length_be_bytes Suc.IH unat_ucast_drop_bit pow
        power_Suc2 mult.commute [of "unat w div 256 ^ n mod 256"])
qed

lemma be_bytes_inj:
  assumes "be_bytes n (v :: 'a::len word) = be_bytes n w" and "LENGTH('a) \<le> 8 * n"
  shows "v = w"
proof -
  have "(2 :: nat) ^ LENGTH('a) \<le> 2 ^ (8 * n)"
    using assms(2) by (rule power_increasing) simp
  then have small: "unat u < 256 ^ n" for u :: "'a word"
    using unat_less [of u] by (simp add: power_mult del: unsigned_less)
  from assms(1) have "unat v mod 256 ^ n = unat w mod 256 ^ n"
    by (metis be_value_be_bytes)
  then show ?thesis by (simp add: small word_unat_eq_iff)
qed

lemma hash_bytes_inj [simp]: "hash_bytes v = hash_bytes w \<longleftrightarrow> v = w"
  using be_bytes_inj [of 32 v w] by auto

lemma of_nat_unat_id: "of_nat (unat w) = (w :: 'a::len word)"
  by simp

lemma unat_eq_of_nat: "unat w = n \<Longrightarrow> (w :: 'a::len word) = of_nat n"
  by (auto simp: of_nat_unat_id simp del: of_nat_unat)

text \<open>\<open>big.Int.Bytes\<close>: the shortest big-endian representation, empty for zero.\<close>

function nat_bytes :: "nat \<Rightarrow> bytes" where
  "nat_bytes n = (if n = 0 then [] else nat_bytes (n div 256) @ [of_nat (n mod 256)])"
  by pat_completeness auto
termination by (relation "measure id") auto

declare nat_bytes.simps [simp del]

lemma be_value_nat_bytes [simp]: "be_value (nat_bytes n) = n"
proof (induction n rule: nat_bytes.induct)
  case (1 n)
  then show ?case
    by (subst nat_bytes.simps) (simp add: be_value_append be_value_Cons unsigned_of_nat take_bit_eq_mod)
qed

lemma length_nat_bytes: "length (nat_bytes n) \<le> k \<longleftrightarrow> n < 256 ^ k"
proof (induction n arbitrary: k rule: nat_bytes.induct)
  case (1 n)
  show ?case
  proof (cases "n = 0")
    case True
    then show ?thesis by (simp add: nat_bytes.simps)
  next
    case False
    show ?thesis
    proof (cases k)
      case 0
      with False show ?thesis by (subst nat_bytes.simps) simp
    next
      case (Suc m)
      have "n div 256 < 256 ^ m \<longleftrightarrow> n < 256 ^ Suc m"
        by (simp add: div_less_iff_less_mult mult.commute)
      with 1 [OF False, of m] False Suc show ?thesis by (subst nat_bytes.simps) simp
    qed
  qed
qed

text \<open>Cutting a byte string \<open>k\<close> bytes before its end divides its value.\<close>

lemma be_value_split:
  assumes "be_value bs = n"
  shows "be_value (take (length bs - k) bs) = n div 256 ^ k"
    and "be_value (drop (length bs - k) bs) = n mod 256 ^ k"
proof -
  let ?a = "take (length bs - k) bs" and ?b = "drop (length bs - k) bs"
  have "n = be_value ?a * 256 ^ length ?b + be_value ?b"
    using assms by (metis append_take_drop_id be_value_append)
  moreover have "be_value ?b < 256 ^ length ?b" by (rule be_value_bound)
  ultimately have "be_value ?a = n div 256 ^ k \<and> be_value ?b = n mod 256 ^ k"
  proof (cases "length ?b = k")
    case True
    with \<open>n = _\<close> \<open>be_value ?b < _\<close> show ?thesis by (simp add: div_mult_self3)
  next
    case False
    then have "?a = []" and "length bs \<le> k" by auto
    then have "(256 :: nat) ^ length bs \<le> 256 ^ k" by (simp add: power_increasing)
    then have "n < 256 ^ k" using assms be_value_bound [of bs] by linarith
    with \<open>?a = []\<close> assms \<open>length bs \<le> k\<close> show ?thesis by simp
  qed
  then show "be_value ?a = n div 256 ^ k" and "be_value ?b = n mod 256 ^ k" by simp_all
qed

section \<open>Bits of an index\<close>

text \<open>\<open>index&(1<<h) > 0\<close> tests bit \<open>h\<close> of a leaf index.\<close>

lemma and_push_bit_gt_0 [simp]: "(w AND push_bit h 1 > 0) \<longleftrightarrow> bit (w :: 'a::len word) h"
proof -
  have "w AND push_bit h 1 = of_bool (bit w h) * push_bit h 1"
    by (rule bit_eqI) (auto simp: bit_simps)
  moreover have "bit w h \<Longrightarrow> push_bit h (1 :: 'a word) \<noteq> 0"
    by (metis bit_imp_le_length bit_push_bit_iff bit_0_eq bit_1_0 bot_apply bot_bool_def
        cancel_comm_monoid_add_class.diff_cancel impossible_bit order_refl linorder_not_le
        possible_bit_word)
  ultimately show ?thesis by (simp add: word_gt_0)
qed

lemma and_exp_gt_0 [simp]: "(w AND 2 ^ h > 0) \<longleftrightarrow> bit (w :: 'a::len word) h"
  using and_push_bit_gt_0 [of w h] by (simp only: push_bit_of_1)

lemma bit_odd_div: "bit (w :: 'a::len word) h \<longleftrightarrow> odd (unat w div 2 ^ h)"
  by (simp add: bit_iff_odd [of "unat w" h, symmetric] bit_unsigned_iff)

text \<open>The child of a tree node on the way to leaf \<open>i\<close>.\<close>

lemma div_pow_Suc [level_simps]: "(i :: nat) div 2 ^ Suc h = i div 2 ^ h div 2"
  by (simp only: power_Suc2 div_mult2_eq)

lemma double_div_pow [level_simps]:
  "2 * (i div 2 ^ Suc h) = (i :: nat) div 2 ^ h - i div 2 ^ h mod 2"
  by (simp only: div_pow_Suc minus_mod_eq_mult_div)

section \<open>Lists\<close>

lemma foldl_upt_Suc: "foldl f s [0..<Suc n] = f (foldl f s [0..<n]) n"
  by simp

lemma find_append:
  "find P (xs @ ys) = (case find P xs of None \<Rightarrow> find P ys | Some x \<Rightarrow> Some x)"
  by (induction xs) auto

lemma find_Some_mem: "find P xs = Some x \<Longrightarrow> x \<in> set xs \<and> P x"
  by (induction xs) (auto split: if_splits)

lemma find_None_iff_all: "find P xs = None \<longleftrightarrow> (\<forall>x\<in>set xs. \<not> P x)"
  by (induction xs) auto

text \<open>A filter that keeps a prefix of a projection keeps the same prefix of the rows.\<close>

lemma filter_take_map:
  "filter P (map f xs) = take k (map f xs) \<Longrightarrow> filter (P \<circ> f) xs = take k xs"
proof (induction xs arbitrary: k)
  case (Cons x xs)
  show ?case
  proof (cases k)
    case 0
    with Cons.prems show ?thesis by (auto simp: filter_empty_conv split: if_splits)
  next
    case (Suc j)
    show ?thesis
    proof (cases "P (f x)")
      case True
      with Cons Suc show ?thesis by simp
    next
      case False
      with Cons.prems Suc have "f x \<in> set (filter P (map f xs))" by simp
      with False show ?thesis by simp
    qed
  qed
qed simp

text \<open>Byte strings of the same length are determined by their value.\<close>

lemma be_value_inj: "length xs = length ys \<Longrightarrow> be_value xs = be_value ys \<Longrightarrow> xs = ys"
proof (induction xs ys rule: list_induct2)
  case (Cons x xs y ys)
  let ?b = "256 ^ length xs :: nat"
  have v: "unat x * ?b + be_value xs = unat y * ?b + be_value ys"
    using Cons.prems Cons.hyps by (simp add: be_value_Cons)
  have lt: "be_value xs < ?b" "be_value ys < ?b"
    using be_value_bound [of xs] be_value_bound [of ys] Cons.hyps by simp_all
  have "(unat x * ?b + be_value xs) div ?b = unat x" "(unat y * ?b + be_value ys) div ?b = unat y"
    using lt by simp_all
  then have "unat x = unat y" using v by simp
  moreover then have "be_value xs = be_value ys" using v by simp
  ultimately show ?case using Cons.IH by (simp add: word_unat_eq_iff)
qed simp

lemma map_sum_Inr_conv: "map_sum f h x = Inr y \<longleftrightarrow> (\<exists>z. x = Inr z \<and> y = h z)"
  by (cases x) auto

end
