(* ===== verification/MerkleSpec.thy ===== *)
theory MerkleSpec
  imports Prelude
begin

text \<open>
  The abstract specification the Merkle tree components are measured against. A tree of
  height \<open>h\<close> is a function from leaf positions to leaf hashes, with the zero hash where no
  leaf was added; \<open>subtree K h k f\<close> is the hash of the \<open>k\<close>-th node of level \<open>h\<close> (level 0 are
  the leaves). The proof of a leaf is the list of the siblings on its way to the root, leaf
  side first, and \<open>path_root\<close> recomputes the root from it.
\<close>

section \<open>Node hashes and whole trees\<close>

definition node_hash :: "keccak \<Rightarrow> hash \<Rightarrow> hash \<Rightarrow> hash" where
  "node_hash K l r = K (hash_bytes l @ hash_bytes r)"

fun zero_hash :: "keccak \<Rightarrow> nat \<Rightarrow> hash" where
  "zero_hash K 0 = 0"
| "zero_hash K (Suc h) = node_hash K (zero_hash K h) (zero_hash K h)"

fun subtree :: "keccak \<Rightarrow> nat \<Rightarrow> nat \<Rightarrow> (nat \<Rightarrow> hash) \<Rightarrow> hash" where
  "subtree K 0 k f = f k"
| "subtree K (Suc h) k f = node_hash K (subtree K h (2 * k) f) (subtree K h (2 * k + 1) f)"

definition merkle_root :: "keccak \<Rightarrow> nat \<Rightarrow> (nat \<Rightarrow> hash) \<Rightarrow> hash" where
  "merkle_root K h f = subtree K h 0 f"

definition leaves_fun :: "hash list \<Rightarrow> nat \<Rightarrow> hash" where
  "leaves_fun xs i = (if i < length xs then xs ! i else 0)"

text \<open>The positions below node \<open>k\<close> of level \<open>h\<close>.\<close>

definition below :: "nat \<Rightarrow> nat \<Rightarrow> nat set" where
  "below h k = {i. i div 2 ^ h = k}"

lemma below_0 [simp]: "below 0 k = {k}"
  by (auto simp: below_def)

lemma below_Suc: "below (Suc h) k = below h (2 * k) \<union> below h (2 * k + 1)"
proof -
  have "(q :: nat) div 2 = k \<longleftrightarrow> q = 2 * k \<or> q = 2 * k + 1" for q
    by presburger
  then show ?thesis
    by (auto simp: below_def div_pow_Suc simp del: power_Suc)
qed

lemma subtree_cong: "(\<And>i. i \<in> below h k \<Longrightarrow> f i = g i) \<Longrightarrow> subtree K h k f = subtree K h k g"
proof (induction h arbitrary: k)
  case 0
  then show ?case by simp
next
  case (Suc h)
  then have "subtree K h (2 * k) f = subtree K h (2 * k) g"
    and "subtree K h (2 * k + 1) f = subtree K h (2 * k + 1) g"
    by (simp_all add: below_Suc)
  then show ?case by simp
qed

lemma subtree_zero: "(\<And>i. i \<in> below h k \<Longrightarrow> f i = 0) \<Longrightarrow> subtree K h k f = zero_hash K h"
proof (induction h arbitrary: k)
  case 0
  then show ?case by simp
next
  case (Suc h)
  then have "subtree K h (2 * k) f = zero_hash K h"
    and "subtree K h (2 * k + 1) f = zero_hash K h"
    by (simp_all add: below_Suc)
  then show ?case by simp
qed

lemma subtree_upd_other: "i div 2 ^ h \<noteq> k \<Longrightarrow> subtree K h k (f(i := x)) = subtree K h k f"
  by (rule subtree_cong) (auto simp: below_def)

section \<open>Paths\<close>

text \<open>The position next to the one the path of leaf \<open>i\<close> has on level \<open>h\<close>.\<close>

definition sibling_pos :: "nat \<Rightarrow> nat \<Rightarrow> nat" where
  "sibling_pos i h = (if odd (i div 2 ^ h) then i div 2 ^ h - 1 else i div 2 ^ h + 1)"

definition sibling :: "keccak \<Rightarrow> (nat \<Rightarrow> hash) \<Rightarrow> nat \<Rightarrow> nat \<Rightarrow> hash" where
  "sibling K f i h = subtree K h (sibling_pos i h) f"

definition siblings :: "keccak \<Rightarrow> nat \<Rightarrow> (nat \<Rightarrow> hash) \<Rightarrow> nat \<Rightarrow> hash list" where
  "siblings K n f i = map (sibling K f i) [0..<n]"

text \<open>One step up: join the current hash with its sibling on the right side.\<close>

definition join_step :: "keccak \<Rightarrow> bool \<Rightarrow> hash \<Rightarrow> hash \<Rightarrow> hash" where
  "join_step K b sib cur = (if b then node_hash K sib cur else node_hash K cur sib)"

fun path_root :: "keccak \<Rightarrow> nat \<Rightarrow> hash list \<Rightarrow> nat \<Rightarrow> hash \<Rightarrow> hash" where
  "path_root K i sibs 0 leaf = leaf"
| "path_root K i sibs (Suc h) leaf =
     join_step K (odd (i div 2 ^ h)) (sibs ! h) (path_root K i sibs h leaf)"

lemma length_siblings [simp]: "length (siblings K n f i) = n"
  by (simp add: siblings_def)

lemma nth_siblings [simp]: "h < n \<Longrightarrow> siblings K n f i ! h = sibling K f i h"
  by (simp add: siblings_def)

text \<open>The hashes on the path of leaf \<open>i\<close> are those of the tree, level by level.\<close>

lemma join_sibling:
  "join_step K (odd (i div 2 ^ h)) (sibling K f i h) (subtree K h (i div 2 ^ h) f) =
   subtree K (Suc h) (i div 2 ^ Suc h) f"
proof (cases "odd (i div 2 ^ h)")
  case True
  then obtain q where "i div 2 ^ h = 2 * q + 1" by (rule oddE)
  then show ?thesis
    by (simp add: join_step_def sibling_def sibling_pos_def div_pow_Suc del: power_Suc)
next
  case False
  then have "even (i div 2 ^ h)" by simp
  then obtain q where "i div 2 ^ h = 2 * q" by (rule evenE)
  then show ?thesis
    by (simp add: join_step_def sibling_def sibling_pos_def div_pow_Suc del: power_Suc)
qed

lemma path_root_subtree:
  "h \<le> n \<Longrightarrow> path_root K i (siblings K n f i) h (f i) = subtree K h (i div 2 ^ h) f"
proof (induction h)
  case 0
  then show ?case by simp
next
  case (Suc h)
  then show ?case by (simp add: join_sibling [symmetric] del: subtree.simps power_Suc)
qed

lemma path_root_siblings:
  "i < 2 ^ n \<Longrightarrow> path_root K i (siblings K n f i) n (f i) = merkle_root K n f"
  by (simp add: path_root_subtree merkle_root_def)

text \<open>Changing leaf \<open>i\<close> changes none of its siblings.\<close>

lemma sibling_upd [simp]: "sibling K (f(i := x)) i h = sibling K f i h"
proof -
  have "i div 2 ^ h \<noteq> sibling_pos i h"
    by (auto simp: sibling_pos_def elim!: oddE)
  then show ?thesis by (simp add: sibling_def subtree_upd_other)
qed

lemma siblings_upd [simp]: "siblings K n (f(i := x)) i = siblings K n f i"
  by (simp add: siblings_def)

lemma path_root_upd:
  "h \<le> n \<Longrightarrow> path_root K i (siblings K n f i) h x = subtree K h (i div 2 ^ h) (f(i := x))"
  using path_root_subtree [of h n K i "f(i := x)"] by simp

section \<open>Leaf lists\<close>

lemma leaves_fun_Nil [simp]: "leaves_fun [] = (\<lambda>_. 0)"
  by (rule ext) (simp add: leaves_fun_def)

lemma leaves_fun_snoc: "leaves_fun (xs @ [x]) = (leaves_fun xs)(length xs := x)"
  by (rule ext) (auto simp: leaves_fun_def nth_append)

lemma leaves_fun_beyond: "length xs \<le> i \<Longrightarrow> leaves_fun xs i = 0"
  by (simp add: leaves_fun_def)

text \<open>To the right of the path of the last position there are only zero leaves.\<close>

lemma right_of_last_zero:
  assumes "length xs \<le> Suc i" and "even (i div 2 ^ h)"
  shows "sibling K (leaves_fun xs) i h = zero_hash K h"
  unfolding sibling_def
proof (rule subtree_zero)
  fix j
  assume "j \<in> below h (sibling_pos i h)"
  with assms(2) have "i div 2 ^ h < j div 2 ^ h"
    by (simp add: below_def sibling_pos_def)
  then have "i < j"
    by (meson div_le_mono leD leI)
  with assms(1) show "leaves_fun xs j = 0"
    by (simp add: leaves_fun_def)
qed

section \<open>Collisions\<close>

text \<open>
  \<open>collision_free K S\<close>: no two of the child pairs in \<open>S\<close> hash to the same node. Keccak is
  not injective, so every use names the finite set of pairs that matter to it.
\<close>

definition collision_free :: "keccak \<Rightarrow> (hash \<times> hash) set \<Rightarrow> bool" where
  "collision_free K S \<longleftrightarrow>
     (\<forall>p\<in>S. \<forall>q\<in>S. node_hash K (fst p) (snd p) = node_hash K (fst q) (snd q) \<longrightarrow> p = q)"

definition zero_pairs :: "keccak \<Rightarrow> nat \<Rightarrow> (hash \<times> hash) set" where
  "zero_pairs K n = (\<lambda>h. (zero_hash K h, zero_hash K h)) ` {..<n}"

fun path_pairs :: "keccak \<Rightarrow> nat \<Rightarrow> hash list \<Rightarrow> nat \<Rightarrow> hash \<Rightarrow> (hash \<times> hash) set" where
  "path_pairs K i sibs 0 leaf = {}"
| "path_pairs K i sibs (Suc h) leaf =
     insert (if odd (i div 2 ^ h) then (sibs ! h, path_root K i sibs h leaf)
             else (path_root K i sibs h leaf, sibs ! h))
       (path_pairs K i sibs h leaf)"

lemma collision_freeD:
  "collision_free K S \<Longrightarrow> (a, b) \<in> S \<Longrightarrow> (c, d) \<in> S \<Longrightarrow>
   node_hash K a b = node_hash K c d \<Longrightarrow> a = c \<and> b = d"
  by (fastforce simp: collision_free_def)

lemma collision_free_mono: "collision_free K S \<Longrightarrow> T \<subseteq> S \<Longrightarrow> collision_free K T"
  by (auto simp: collision_free_def)

text \<open>Binding: a root determines the leaf at a position and its siblings.\<close>

lemma path_root_inj:
  assumes "collision_free K (path_pairs K i s n x \<union> path_pairs K i t n y)"
    and "path_root K i s n x = path_root K i t n y"
  shows "x = y \<and> (\<forall>h<n. s ! h = t ! h)"
  using assms
proof (induction n)
  case 0
  then show ?case by simp
next
  case (Suc n)
  have step: "path_root K i s n x = path_root K i t n y \<and> s ! n = t ! n"
  proof (cases "odd (i div 2 ^ n)")
    case True
    with Suc.prems(2) have
      "node_hash K (s ! n) (path_root K i s n x) = node_hash K (t ! n) (path_root K i t n y)"
      by (simp add: join_step_def)
    from collision_freeD [OF Suc.prems(1) _ _ this] True show ?thesis by simp
  next
    case False
    with Suc.prems(2) have
      "node_hash K (path_root K i s n x) (s ! n) = node_hash K (path_root K i t n y) (t ! n)"
      by (simp add: join_step_def)
    from collision_freeD [OF Suc.prems(1) _ _ this] False show ?thesis by simp
  qed
  have "collision_free K (path_pairs K i s n x \<union> path_pairs K i t n y)"
    by (rule collision_free_mono [OF Suc.prems(1)]) auto
  with step Suc.IH show ?case by (auto simp: less_Suc_eq)
qed

end
