(* ===== verification/Database.thy ===== *)
theory Database
  imports Prelude
begin

text \<open>
  The persistence layer (\<open>src/db\<close>). A SQL table is the list of its rows in insertion order;
  a statement is the list operation its text describes, with the primary keys, unique
  columns and cascades of the migration files.

  The engine itself (SQLite, \<open>database/sql\<close>, meddler) is not part of the repository: whether
  it executes a statement or fails for a reason of its own is the argument \<open>io\<close> of every
  operation that touches the database, so that the error branch of every statement is a
  branch of the model. \<open>ORDER BY \<dots> LIMIT 1\<close> takes the first inserted row among equals.
\<close>

section \<open>Statements and engine faults\<close>

datatype sql =
    SqlBegin
  | SqlCommit
  | SqlRollback
  | SqlSelect string "nat list"
  | SqlInsert string "nat list"
  | SqlUpdate string "nat list"
  | SqlDelete string "nat list"

text \<open>\<open>io s\<close>: the engine fails on statement \<open>s\<close>.\<close>

type_synonym io = "sql \<Rightarrow> bool"

definition no_faults :: "io \<Rightarrow> bool" where
  "no_faults io \<longleftrightarrow> (\<forall>s. \<not> io s)"

lemma no_faultsD [dest]: "no_faults io \<Longrightarrow> \<not> io s"
  by (simp add: no_faults_def)

lemma no_faults_False [simp]: "no_faults (\<lambda>_. False)"
  by (simp add: no_faults_def)

section \<open>Queries\<close>

text \<open>\<open>ORDER BY key DESC LIMIT 1\<close> and \<open>ORDER BY key ASC LIMIT 1\<close>.\<close>

fun first_desc :: "('a \<Rightarrow> 'k::linorder) \<Rightarrow> 'a list \<Rightarrow> 'a option" where
  "first_desc key [] = None"
| "first_desc key (x # xs) =
     (case first_desc key xs of
        None \<Rightarrow> Some x
      | Some y \<Rightarrow> if key y \<le> key x then Some x else Some y)"

fun first_asc :: "('a \<Rightarrow> 'k::linorder) \<Rightarrow> 'a list \<Rightarrow> 'a option" where
  "first_asc key [] = None"
| "first_asc key (x # xs) =
     (case first_asc key xs of
        None \<Rightarrow> Some x
      | Some y \<Rightarrow> if key x \<le> key y then Some x else Some y)"

lemma first_desc_None [simp]: "first_desc key xs = None \<longleftrightarrow> xs = []"
  by (cases xs) (auto split: option.splits)

lemma first_asc_None [simp]: "first_asc key xs = None \<longleftrightarrow> xs = []"
  by (cases xs) (auto split: option.splits)

lemma first_desc_Some:
  "first_desc key xs = Some x \<Longrightarrow> x \<in> set xs \<and> (\<forall>y\<in>set xs. key y \<le> key x)"
proof (induction xs arbitrary: x)
  case Nil
  then show ?case by simp
next
  case (Cons a xs)
  show ?case
  proof (cases "first_desc key xs")
    case None
    with Cons.prems show ?thesis by auto
  next
    case (Some y)
    from Cons.IH [OF Some] Cons.prems Some show ?thesis
      by (fastforce split: if_splits)
  qed
qed

lemma first_asc_Some:
  "first_asc key xs = Some x \<Longrightarrow> x \<in> set xs \<and> (\<forall>y\<in>set xs. key x \<le> key y)"
proof (induction xs arbitrary: x)
  case Nil
  then show ?case by simp
next
  case (Cons a xs)
  show ?case
  proof (cases "first_asc key xs")
    case None
    with Cons.prems show ?thesis by auto
  next
    case (Some y)
    from Cons.IH [OF Some] Cons.prems Some show ?thesis
      by (fastforce split: if_splits)
  qed
qed

text \<open>A row appended with a strictly greater key is the one \<open>DESC LIMIT 1\<close> finds.\<close>

lemma first_desc_append_greatest:
  "(\<And>y. y \<in> set xs \<Longrightarrow> key y < key x) \<Longrightarrow> first_desc key (xs @ [x]) = Some x"
  by (induction xs) (auto dest: leD)

section \<open>Transactions (\<open>src/db/tx.go\<close>)\<close>

text \<open>
  A transaction works on its own copy \<open>tx_db\<close> of the database it began on and collects
  callbacks. \<open>Tx_Commit\<close> returns the database to keep and the callbacks to run, or the
  error of the engine; \<open>Tx_Rollback\<close> returns the callbacks to run. After a failed commit
  \<open>database/sql\<close> has closed the transaction, so a later rollback returns \<open>ErrTxDone\<close>.
\<close>

record ('db, 'cb) Tx =
  tx_base :: 'db
  tx_db :: 'db
  rollbackCallbacks :: "'cb list"
  commitCallbacks :: "'cb list"
  tx_done :: bool

definition NewTx :: "io \<Rightarrow> 'db \<Rightarrow> error + ('db, 'cb) Tx" where
  "NewTx io db =
     (if io SqlBegin then Inl ErrSQL
      else Inr \<lparr>tx_base = db, tx_db = db, rollbackCallbacks = [], commitCallbacks = [],
                tx_done = False\<rparr>)"

definition AddRollbackCallback :: "'cb \<Rightarrow> ('db, 'cb) Tx \<Rightarrow> ('db, 'cb) Tx" where
  "AddRollbackCallback cb tx = tx\<lparr>rollbackCallbacks := rollbackCallbacks tx @ [cb]\<rparr>"

definition AddCommitCallback :: "'cb \<Rightarrow> ('db, 'cb) Tx \<Rightarrow> ('db, 'cb) Tx" where
  "AddCommitCallback cb tx = tx\<lparr>commitCallbacks := commitCallbacks tx @ [cb]\<rparr>"

definition Tx_Commit :: "io \<Rightarrow> ('db, 'cb) Tx \<Rightarrow> ('db, 'cb) Tx \<times> (error + 'cb list)" where
  "Tx_Commit io tx =
     (if tx_done tx then (tx, Inl ErrTxDone)
      else if io SqlCommit then (tx\<lparr>tx_db := tx_base tx, tx_done := True\<rparr>, Inl ErrSQL)
      else (tx\<lparr>tx_base := tx_db tx, tx_done := True\<rparr>, Inr (commitCallbacks tx)))"

definition Tx_Rollback :: "io \<Rightarrow> ('db, 'cb) Tx \<Rightarrow> ('db, 'cb) Tx \<times> (error + 'cb list)" where
  "Tx_Rollback io tx =
     (if tx_done tx then (tx, Inl ErrTxDone)
      else if io SqlRollback then (tx\<lparr>tx_db := tx_base tx, tx_done := True\<rparr>, Inl ErrSQL)
      else (tx\<lparr>tx_db := tx_base tx, tx_done := True\<rparr>, Inr (rollbackCallbacks tx)))"

text \<open>\<open>ReturnErrNotFound\<close>: a query without rows (\<open>None\<close>) is \<open>ErrNotFound\<close>.\<close>

definition query_row :: "io \<Rightarrow> sql \<Rightarrow> 'a option \<Rightarrow> error + 'a" where
  "query_row io s r =
     (if io s then Inl ErrSQL else case r of None \<Rightarrow> Inl ErrNotFound | Some x \<Rightarrow> Inr x)"

text \<open>
  \<open>INSERT\<close> into a table whose primary key (or unique column) is \<open>key\<close>; \<open>pk_insert\<close> fails
  with the code that \<open>src/db/sqlite.go\<close> names \<open>UniqueConstrain\<close>.
\<close>

definition pk_insert :: "io \<Rightarrow> sql \<Rightarrow> ('a \<Rightarrow> 'k) \<Rightarrow> 'a \<Rightarrow> 'a list \<Rightarrow> error + 'a list" where
  "pk_insert io s key row rows =
     (if io s then Inl ErrSQL
      else if key row \<in> key ` set rows then Inl ErrUniqueConstraint
      else Inr (rows @ [row]))"

text \<open>
  \<open>INSERT\<close> into a table with a primary key and a foreign key whose target exists iff \<open>ref\<close>.
  Only a primary-key conflict has the code \<open>UniqueConstrain\<close>.
\<close>

definition fk_insert ::
  "io \<Rightarrow> sql \<Rightarrow> ('a \<Rightarrow> 'k) \<Rightarrow> bool \<Rightarrow> 'a \<Rightarrow> 'a list \<Rightarrow> error + 'a list"
where
  "fk_insert io s key ref row rows =
     (if io s then Inl ErrSQL
      else if key row \<in> key ` set rows then Inl ErrUniqueConstraint
      else if \<not> ref then Inl ErrConstraint
      else Inr (rows @ [row]))"

lemma fk_insert_Inr:
  "fk_insert io s key ref row rows = Inr rows' \<longleftrightarrow>
     \<not> io s \<and> key row \<notin> key ` set rows \<and> ref \<and> rows' = rows @ [row]"
  by (auto simp: fk_insert_def)

lemma query_row_Inr [simp]: "query_row io s r = Inr x \<longleftrightarrow> \<not> io s \<and> r = Some x"
  by (auto simp: query_row_def split: option.splits)

lemma query_row_Inl:
  "query_row io s r = Inl e \<longleftrightarrow> (io s \<and> e = ErrSQL) \<or> (\<not> io s \<and> r = None \<and> e = ErrNotFound)"
  by (auto simp: query_row_def split: option.splits)

lemma pk_insert_Inr:
  "pk_insert io s key row rows = Inr rows' \<longleftrightarrow>
     \<not> io s \<and> key row \<notin> key ` set rows \<and> rows' = rows @ [row]"
  by (auto simp: pk_insert_def)

lemma pk_insert_distinct:
  "pk_insert io s key row rows = Inr rows' \<Longrightarrow> distinct (map key rows) \<Longrightarrow>
   distinct (map key rows')"
  by (auto simp: pk_insert_Inr)

end
