(* ===== verification/MerkleTree.thy ===== *)
theory MerkleTree
  imports MerkleSpec Database
begin

text \<open>
  The persistent Merkle tree shared by the append-only and the updatable tree
  (\<open>src/tree/tree.go\<close>, \<open>src/tree/types/types.go\<close>). The tables of one tree are \<open>tree_db\<close>: the
  reverse hash table \<open>rht\<close> (node hash to its two children, primary key \<open>hash\<close>) and the
  \<open>root\<close> table (primary key \<open>hash\<close>). The predicate \<open>repr\<close> says which tree a stored root
  stands for, with missing nodes read as empty subtrees; the lemmas about \<open>getSiblings\<close>,
  \<open>GetLeaf\<close> and \<open>CalculateRoot\<close> are stated over it.
\<close>

section \<open>Data\<close>

definition DefaultHeight :: nat where
  "DefaultHeight = 32"

record Leaf =
  l_Index :: u32
  l_Hash :: hash

record Root =
  r_Hash :: hash
  r_Index :: u32
  r_BlockNum :: u64
  r_BlockPosition :: u64

record TreeNode =
  n_Hash :: hash
  n_Left :: hash
  n_Right :: hash

type_synonym Proof = "hash list"

record tree_db =
  rht_rows :: "TreeNode list"
  root_rows :: "Root list"

record Tree =
  zeroHashes :: "hash list"
  rhtTable :: string
  rootTable :: string

definition empty_tree_db :: tree_db where
  "empty_tree_db = \<lparr>rht_rows = [], root_rows = []\<rparr>"

definition EmptyProof :: Proof where
  "EmptyProof = replicate DefaultHeight 0"

section \<open>Operations\<close>

definition newTreeNode :: "keccak \<Rightarrow> hash \<Rightarrow> hash \<Rightarrow> TreeNode" where
  "newTreeNode K left right =
     \<lparr>n_Hash = K (hash_bytes left @ hash_bytes right), n_Left = left, n_Right = right\<rparr>"

definition generateZeroHashes :: "keccak \<Rightarrow> nat \<Rightarrow> hash list" where
  "generateZeroHashes K height =
     foldl (\<lambda>zs i. zs @ [K (hash_bytes (zs ! (i - 1)) @ hash_bytes (zs ! (i - 1)))]) [0]
       [1..<Suc height]"

definition newTree :: "keccak \<Rightarrow> string \<Rightarrow> Tree" where
  "newTree K tablePrefix =
     \<lparr>zeroHashes = generateZeroHashes K DefaultHeight,
      rhtTable = tablePrefix @ ''rht'', rootTable = tablePrefix @ ''root''\<rparr>"

definition rht_lookup :: "TreeNode list \<Rightarrow> hash \<Rightarrow> TreeNode option" where
  "rht_lookup rows h = find (\<lambda>n. n_Hash n = h) rows"

definition getRHTNode :: "io \<Rightarrow> Tree \<Rightarrow> tree_db \<Rightarrow> hash \<Rightarrow> error + TreeNode" where
  "getRHTNode io t db nodeHash =
     query_row io (SqlSelect (rhtTable t) [unat nodeHash]) (rht_lookup (rht_rows db) nodeHash)"

fun getSiblings_loop ::
  "io \<Rightarrow> Tree \<Rightarrow> tree_db \<Rightarrow> u32 \<Rightarrow> nat \<Rightarrow> hash \<Rightarrow> Proof \<Rightarrow> bool \<Rightarrow> error + Proof \<times> bool"
where
  "getSiblings_loop io t db index 0 currentNodeHash sibs hasUsedZeroHashes =
     Inr (sibs, hasUsedZeroHashes)"
| "getSiblings_loop io t db index (Suc h) currentNodeHash sibs hasUsedZeroHashes =
     (case getRHTNode io t db currentNodeHash of
        Inl e \<Rightarrow>
          if e = ErrNotFound
          then getSiblings_loop io t db index h currentNodeHash (sibs[h := zeroHashes t ! h]) True
          else Inl e
      | Inr currentNode \<Rightarrow>
          if index AND push_bit h 1 > 0
          then getSiblings_loop io t db index h (n_Right currentNode)
                 (sibs[h := n_Left currentNode]) hasUsedZeroHashes
          else getSiblings_loop io t db index h (n_Left currentNode)
                 (sibs[h := n_Right currentNode]) hasUsedZeroHashes)"

definition getSiblings :: "io \<Rightarrow> Tree \<Rightarrow> tree_db \<Rightarrow> u32 \<Rightarrow> hash \<Rightarrow> error + Proof \<times> bool" where
  "getSiblings io t db index root =
     getSiblings_loop io t db index DefaultHeight root (replicate DefaultHeight 0) False"

definition GetProof :: "io \<Rightarrow> Tree \<Rightarrow> tree_db \<Rightarrow> u32 \<Rightarrow> hash \<Rightarrow> error + Proof" where
  "GetProof io t db index root =
     (case getSiblings io t db index root of
        Inl e \<Rightarrow> Inl e
      | Inr (sibs, isErrNotFound) \<Rightarrow> Inr sibs)"

fun storeNodes ::
  "io \<Rightarrow> Tree \<Rightarrow> tree_db \<Rightarrow> TreeNode list \<Rightarrow> tree_db \<times> error option"
where
  "storeNodes io t db [] = (db, None)"
| "storeNodes io t db (n # nodes) =
     (case pk_insert io (SqlInsert (rhtTable t) [unat (n_Hash n)]) n_Hash n (rht_rows db) of
        Inl e \<Rightarrow> if e = ErrUniqueConstraint then storeNodes io t db nodes else (db, Some e)
      | Inr rows \<Rightarrow> storeNodes io t (db\<lparr>rht_rows := rows\<rparr>) nodes)"

definition storeRoot :: "io \<Rightarrow> Tree \<Rightarrow> tree_db \<Rightarrow> Root \<Rightarrow> tree_db \<times> error option" where
  "storeRoot io t db root =
     (case pk_insert io (SqlInsert (rootTable t) [unat (r_Hash root)]) r_Hash root (root_rows db) of
        Inl e \<Rightarrow> (db, Some e)
      | Inr rows \<Rightarrow> (db\<lparr>root_rows := rows\<rparr>, None))"

definition root_key :: "Root \<Rightarrow> u64 \<times> u64" where
  "root_key r = (r_BlockNum r, r_BlockPosition r)"

definition getLastRootWithTx :: "io \<Rightarrow> Tree \<Rightarrow> tree_db \<Rightarrow> error + Root" where
  "getLastRootWithTx io t db =
     query_row io (SqlSelect (rootTable t) []) (first_desc root_key (root_rows db))"

text \<open>\<open>GetLastRoot\<close> falls back to the database handle \<open>db\<close> when it gets a nil transaction.\<close>

definition GetLastRoot :: "io \<Rightarrow> Tree \<Rightarrow> tree_db \<Rightarrow> tree_db option \<Rightarrow> error + Root" where
  "GetLastRoot io t db tx = getLastRootWithTx io t (case tx of None \<Rightarrow> db | Some d \<Rightarrow> d)"

definition GetRootByIndex :: "io \<Rightarrow> Tree \<Rightarrow> tree_db \<Rightarrow> u32 \<Rightarrow> error + Root" where
  "GetRootByIndex io t db index =
     query_row io (SqlSelect (rootTable t) [unat index])
       (find (\<lambda>r. r_Index r = index) (root_rows db))"

text \<open>
  The row is scanned into \<open>root\<close>, a nil pointer of type \<open>*types.Root\<close> that the function never
  assigns: the pointer it returns, \<open>None\<close> for nil, is nil on every path. What meddler does
  with a nil destination when there is a row is the argument \<open>scan_nil\<close>: an error or none.
\<close>

definition GetRootByHash ::
  "io \<Rightarrow> error option \<Rightarrow> Tree \<Rightarrow> tree_db \<Rightarrow> hash \<Rightarrow> error + Root option"
where
  "GetRootByHash io scan_nil t db hash =
     (let root = None in
      case query_row io (SqlSelect (rootTable t) [0, unat hash])
             (find (\<lambda>r. r_Hash r = hash) (root_rows db)) of
        Inl e \<Rightarrow> Inl e
      | Inr _ \<Rightarrow> (case scan_nil of Some e \<Rightarrow> Inl e | None \<Rightarrow> Inr root))"

text \<open>\<open>GetLeaf\<close> uses the querier it is given; a nil querier panics on its first use.\<close>

fun GetLeaf_loop :: "io \<Rightarrow> Tree \<Rightarrow> tree_db option \<Rightarrow> u32 \<Rightarrow> nat \<Rightarrow> hash \<Rightarrow> error + hash" where
  "GetLeaf_loop io t tx index 0 currentNodeHash = Inr currentNodeHash"
| "GetLeaf_loop io t tx index (Suc h) currentNodeHash =
     (case tx of
        None \<Rightarrow> Inl ErrPanic
      | Some db \<Rightarrow>
          (case getRHTNode io t db currentNodeHash of
             Inl e \<Rightarrow> Inl e
           | Inr currentNode \<Rightarrow>
               GetLeaf_loop io t tx index h
                 (if index AND push_bit h 1 > 0 then n_Right currentNode else n_Left currentNode)))"

definition GetLeaf :: "io \<Rightarrow> Tree \<Rightarrow> tree_db option \<Rightarrow> u32 \<Rightarrow> hash \<Rightarrow> error + hash" where
  "GetLeaf io t tx index root = GetLeaf_loop io t tx index DefaultHeight root"

definition Tree_Reorg :: "io \<Rightarrow> Tree \<Rightarrow> tree_db \<Rightarrow> u64 \<Rightarrow> tree_db \<times> error option" where
  "Tree_Reorg io t db firstReorgedBlock =
     (if io (SqlDelete (rootTable t) [unat firstReorgedBlock]) then (db, Some ErrSQL)
      else (db\<lparr>root_rows := filter (\<lambda>r. \<not> r_BlockNum r \<ge> firstReorgedBlock) (root_rows db)\<rparr>,
            None))"

definition CalculateRoot :: "keccak \<Rightarrow> hash \<Rightarrow> Proof \<Rightarrow> u32 \<Rightarrow> hash" where
  "CalculateRoot K leafHash proof index =
     foldl (\<lambda>node height.
         if drop_bit height index AND 1 = 1
         then K (hash_bytes (proof ! height) @ hash_bytes node)
         else K (hash_bytes node @ hash_bytes (proof ! height)))
       leafHash [0..<DefaultHeight]"


section \<open>Zero hashes and root computation\<close>

lemma newTreeNode_sel [simp]:
  "n_Hash (newTreeNode K l r) = node_hash K l r"
  "n_Left (newTreeNode K l r) = l" "n_Right (newTreeNode K l r) = r"
  by (simp_all add: newTreeNode_def node_hash_def)

lemma generateZeroHashes_eq: "generateZeroHashes K n = map (zero_hash K) [0..<Suc n]"
proof (induction n)
  case 0
  then show ?case by (simp add: generateZeroHashes_def)
next
  case (Suc n)
  have "generateZeroHashes K (Suc n) =
    (let zs = generateZeroHashes K n in zs @ [K (hash_bytes (zs ! n) @ hash_bytes (zs ! n))])"
    by (simp add: generateZeroHashes_def Let_def)
  also have "\<dots> = map (zero_hash K) [0..<Suc n] @ [node_hash K (zero_hash K n) (zero_hash K n)]"
    unfolding Suc.IH by (simp add: Let_def nth_append node_hash_def)
  finally show ?case by simp
qed

definition tree_ok :: "keccak \<Rightarrow> Tree \<Rightarrow> bool" where
  "tree_ok K t \<longleftrightarrow> zeroHashes t = generateZeroHashes K DefaultHeight"

lemma tree_ok_newTree [simp]: "tree_ok K (newTree K prefix)"
  by (simp add: tree_ok_def newTree_def)

lemma zeroHashes_nth: "tree_ok K t \<Longrightarrow> h \<le> DefaultHeight \<Longrightarrow> zeroHashes t ! h = zero_hash K h"
  by (simp add: tree_ok_def generateZeroHashes_eq nth_append del: upt_Suc)

lemma drop_bit_and_1: "(drop_bit h (w :: 'a::len word) AND 1 = 1) \<longleftrightarrow> bit w h"
  by (auto simp: and_one_eq mod_2_eq_odd bit_iff_odd_drop_bit)

lemma CalculateRoot_path_root:
  "CalculateRoot K leaf proof index = path_root K (unat index) proof DefaultHeight leaf"
proof -
  have "foldl (\<lambda>node height.
          if drop_bit height index AND 1 = 1
          then K (hash_bytes (proof ! height) @ hash_bytes node)
          else K (hash_bytes node @ hash_bytes (proof ! height))) leaf [0..<n] =
        path_root K (unat index) proof n leaf" for n
    by (induction n) (simp_all add: drop_bit_and_1 bit_odd_div join_step_def node_hash_def)
  then show ?thesis by (simp add: CalculateRoot_def)
qed

section \<open>What the stored nodes stand for\<close>

definition rht_wf :: "keccak \<Rightarrow> TreeNode list \<Rightarrow> bool" where
  "rht_wf K rows \<longleftrightarrow> (\<forall>n\<in>set rows. n_Hash n = node_hash K (n_Left n) (n_Right n))"

definition node_pairs :: "TreeNode list \<Rightarrow> (hash \<times> hash) set" where
  "node_pairs rows = (\<lambda>n. (n_Left n, n_Right n)) ` set rows"

fun repr :: "keccak \<Rightarrow> TreeNode list \<Rightarrow> nat \<Rightarrow> hash \<Rightarrow> nat \<Rightarrow> (nat \<Rightarrow> hash) \<Rightarrow> bool" where
  "repr K rows 0 r k f \<longleftrightarrow> r = f k"
| "repr K rows (Suc h) r k f \<longleftrightarrow>
     (case rht_lookup rows r of
        None \<Rightarrow> r = zero_hash K (Suc h) \<and> (\<forall>i\<in>below (Suc h) k. f i = 0)
      | Some n \<Rightarrow> repr K rows h (n_Left n) (2 * k) f \<and> repr K rows h (n_Right n) (2 * k + 1) f)"

text \<open>Every node on the way to leaf \<open>i\<close> is stored.\<close>

fun has_path :: "TreeNode list \<Rightarrow> nat \<Rightarrow> nat \<Rightarrow> hash \<Rightarrow> bool" where
  "has_path rows i 0 r \<longleftrightarrow> True"
| "has_path rows i (Suc h) r \<longleftrightarrow>
     (case rht_lookup rows r of
        None \<Rightarrow> False
      | Some n \<Rightarrow> has_path rows i h (if odd (i div 2 ^ h) then n_Right n else n_Left n))"

lemma rht_lookup_Some: "rht_lookup rows h = Some n \<Longrightarrow> n \<in> set rows \<and> n_Hash n = h"
  unfolding rht_lookup_def by (rule find_Some_mem)

lemma rht_wf_lookup:
  "rht_wf K rows \<Longrightarrow> rht_lookup rows h = Some n \<Longrightarrow> h = node_hash K (n_Left n) (n_Right n)"
  by (auto simp: rht_wf_def dest: rht_lookup_Some)

lemma lookup_pair_in: "rht_lookup rows h = Some n \<Longrightarrow> (n_Left n, n_Right n) \<in> node_pairs rows"
  by (auto simp: node_pairs_def dest: rht_lookup_Some)

lemma repr_hash: "rht_wf K rows \<Longrightarrow> repr K rows h r k f \<Longrightarrow> r = subtree K h k f"
proof (induction h arbitrary: r k)
  case 0
  then show ?case by simp
next
  case (Suc h)
  show ?case
  proof (cases "rht_lookup rows r")
    case None
    with Suc.prems(2) have "r = zero_hash K (Suc h)" and "\<forall>i\<in>below (Suc h) k. f i = 0"
      by auto
    then show ?thesis using subtree_zero [of "Suc h" k f K] by simp
  next
    case (Some n)
    with Suc.prems(2) have "n_Left n = subtree K h (2 * k) f"
      and "n_Right n = subtree K h (2 * k + 1) f"
      using Suc.IH [OF Suc.prems(1)] by auto
    with rht_wf_lookup [OF Suc.prems(1) Some] show ?thesis by simp
  qed
qed

lemma repr_cong:
  "(\<And>i. i \<in> below h k \<Longrightarrow> f i = g i) \<Longrightarrow> repr K rows h r k f \<longleftrightarrow> repr K rows h r k g"
proof (induction h arbitrary: r k)
  case 0
  then show ?case by simp
next
  case (Suc h)
  have "repr K rows h l (2 * k) f \<longleftrightarrow> repr K rows h l (2 * k) g" for l
    by (rule Suc.IH) (simp add: Suc.prems below_Suc)
  moreover have "repr K rows h l (2 * k + 1) f \<longleftrightarrow> repr K rows h l (2 * k + 1) g" for l
    by (rule Suc.IH) (simp add: Suc.prems below_Suc)
  ultimately show ?case using Suc.prems by (auto split: option.split)
qed

text \<open>The empty subtree is represented in any table without collisions.\<close>

lemma repr_zero:
  assumes "rht_wf K rows" and "collision_free K (node_pairs rows \<union> zero_pairs K DefaultHeight)"
  shows "h \<le> DefaultHeight \<Longrightarrow> (\<forall>i\<in>below h k. f i = 0) \<Longrightarrow> repr K rows h (zero_hash K h) k f"
proof (induction h arbitrary: k)
  case 0
  then show ?case by simp
next
  case (Suc h)
  show ?case
  proof (cases "rht_lookup rows (zero_hash K (Suc h))")
    case None
    with Suc.prems show ?thesis by auto
  next
    case (Some n)
    have "(zero_hash K h, zero_hash K h) \<in> zero_pairs K DefaultHeight"
      using Suc.prems(1) by (auto simp: zero_pairs_def)
    with rht_wf_lookup [OF assms(1) Some] lookup_pair_in [OF Some]
    have "n_Left n = zero_hash K h \<and> n_Right n = zero_hash K h"
      using collision_freeD [OF assms(2), of "n_Left n" "n_Right n" "zero_hash K h" "zero_hash K h"]
      by simp
    moreover have "repr K rows h (zero_hash K h) (2 * k) f"
      and "repr K rows h (zero_hash K h) (2 * k + 1) f"
      using Suc by (simp_all add: below_Suc)
    ultimately show ?thesis using Some by simp
  qed
qed

text \<open>Every node below a represented root is represented.\<close>

lemma repr_sub:
  assumes "rht_wf K rows" and "collision_free K (node_pairs rows \<union> zero_pairs K DefaultHeight)"
  shows "n \<le> DefaultHeight \<Longrightarrow> repr K rows n r k f \<Longrightarrow> h \<le> n \<Longrightarrow> m div 2 ^ (n - h) = k \<Longrightarrow>
    repr K rows h (subtree K h m f) m f"
proof (induction n arbitrary: r k)
  case 0
  then show ?case by simp
next
  case (Suc n)
  show ?case
  proof (cases "h = Suc n")
    case True
    with Suc.prems repr_hash [OF assms(1) Suc.prems(2)] show ?thesis by simp
  next
    case False
    with Suc.prems have le: "h \<le> n" and q: "m div 2 ^ (n - h) div 2 = k"
      by (simp_all add: Suc_diff_le div_pow_Suc del: power_Suc)
    show ?thesis
    proof (cases "rht_lookup rows r")
      case None
      with Suc.prems(2) have z: "\<forall>i\<in>below (Suc n) k. f i = 0" by auto
      have "\<forall>i\<in>below h m. f i = 0"
      proof
        fix i assume "i \<in> below h m"
        then have "i div 2 ^ (h + (Suc n - h)) = k"
          using Suc.prems(4) by (simp only: below_def power_add div_mult2_eq mem_Collect_eq)
        with le z show "f i = 0" by (simp add: below_def)
      qed
      with le Suc.prems(1) repr_zero [OF assms, of h m f] subtree_zero [of h m f K]
      show ?thesis by simp
    next
      case (Some nd)
      consider "m div 2 ^ (n - h) = 2 * k" | "m div 2 ^ (n - h) = 2 * k + 1"
        using q by linarith
      then show ?thesis
        using Suc.IH [OF _ _ le] Suc.prems(1,2) Some by cases auto
    qed
  qed
qed

section \<open>Reading siblings and leaves\<close>

lemma getRHTNode_cases:
  obtains (fault) "getRHTNode io t db r = Inl ErrSQL" and "\<not> no_faults io"
  | (missing) "getRHTNode io t db r = Inl ErrNotFound" and "rht_lookup (rht_rows db) r = None"
  | (found) n where "getRHTNode io t db r = Inr n" and "rht_lookup (rht_rows db) r = Some n"
  by (cases "io (SqlSelect (rhtTable t) [unat r])"; cases "rht_lookup (rht_rows db) r")
     (auto simp: getRHTNode_def query_row_def)

lemma upd_drop: "h < length xs \<Longrightarrow> drop h (xs[h := x]) = x # drop (Suc h) xs"
  by (simp add: Cons_nth_drop_Suc [symmetric])

text \<open>Once a node is missing, the rest of the proof is made of zero hashes.\<close>

lemma getSiblings_loop_missing:
  assumes "tree_ok K t" and "rht_lookup (rht_rows db) r = None"
  shows "h \<le> DefaultHeight \<Longrightarrow> length sibs = DefaultHeight \<Longrightarrow>
    (case getSiblings_loop io t db index h r sibs used of
       Inl e \<Rightarrow> e = ErrSQL \<and> \<not> no_faults io
     | Inr (s, u) \<Rightarrow> s = map (zero_hash K) [0..<h] @ drop h sibs)"
proof (induction h arbitrary: sibs used)
  case 0
  then show ?case by simp
next
  case (Suc h)
  show ?case
  proof (cases rule: getRHTNode_cases [of io t db r])
    case missing
    with Suc.IH [of "sibs[h := zeroHashes t ! h]" True] Suc.prems
    show ?thesis
      by (auto simp: zeroHashes_nth [OF assms(1)] upd_drop split: sum.splits)
  qed (use assms(2) in auto)
qed

lemma sibling_of_zero:
  assumes z: "\<forall>x\<in>below n (i div 2 ^ n). f x = 0" and "j < n"
  shows "sibling K f i j = zero_hash K j"
  unfolding sibling_def
proof (rule subtree_zero)
  fix x assume "x \<in> below j (sibling_pos i j)"
  then have "x div 2 ^ j div 2 = i div 2 ^ j div 2"
    by (auto simp: below_def sibling_pos_def elim!: oddE)
  then have "x div 2 ^ (Suc j + (n - Suc j)) = i div 2 ^ (Suc j + (n - Suc j))"
    by (simp only: div_pow_Suc power_add div_mult2_eq)
  with assms show "f x = 0" by (auto simp: below_def)
qed

lemma getSiblings_loop_repr:
  assumes "tree_ok K t" and "rht_wf K (rht_rows db)" and "i = unat index"
  shows "h \<le> DefaultHeight \<Longrightarrow> length sibs = DefaultHeight \<Longrightarrow>
    repr K (rht_rows db) h r (i div 2 ^ h) f \<Longrightarrow>
    (case getSiblings_loop io t db index h r sibs used of
       Inl e \<Rightarrow> e = ErrSQL \<and> \<not> no_faults io
     | Inr (s, u) \<Rightarrow> s = map (sibling K f i) [0..<h] @ drop h sibs)"
proof (induction h arbitrary: r sibs used)
  case 0
  then show ?case by simp
next
  case (Suc h)
  show ?case
  proof (cases rule: getRHTNode_cases [of io t db r])
    case fault
    then show ?thesis by simp
  next
    case missing
    with Suc.prems(3) have "\<forall>x\<in>below (Suc h) (i div 2 ^ Suc h). f x = 0" by auto
    then have "x < Suc h \<Longrightarrow> sibling K f i x = zero_hash K x" for x
      by (rule sibling_of_zero)
    then have zs: "map (sibling K f i) [0..<Suc h] = map (zero_hash K) [0..<Suc h]"
      by (auto simp: less_Suc_eq)
    show ?thesis
      using getSiblings_loop_missing [OF assms(1) missing(2) Suc.prems(1,2), of io index used]
      unfolding zs .
  next
    case (found n)
    let ?q = "i div 2 ^ Suc h"
    from found Suc.prems(3) have kids: "repr K (rht_rows db) h (n_Left n) (2 * ?q) f"
      "repr K (rht_rows db) h (n_Right n) (2 * ?q + 1) f"
      by (simp_all del: power_Suc)
    show ?thesis
    proof (cases "bit index h")
      case True
      then have "odd (i div 2 ^ h)" by (simp add: bit_odd_div assms(3))
      then have q: "i div 2 ^ h = 2 * ?q + 1" by (simp add: div_pow_Suc del: power_Suc)
      have "sibling K f i h = n_Left n"
        using repr_hash [OF assms(2) kids(1)] q by (simp add: sibling_def sibling_pos_def)
      with Suc.IH [of "sibs[h := n_Left n]" "n_Right n" used] kids(2) q True found Suc.prems(1,2)
      show ?thesis by (auto simp: upd_drop split: sum.splits)
    next
      case False
      then have "even (i div 2 ^ h)" by (simp add: bit_odd_div assms(3))
      then have q: "i div 2 ^ h = 2 * ?q" by (simp add: div_pow_Suc del: power_Suc)
      have "sibling K f i h = n_Right n"
        using repr_hash [OF assms(2) kids(2)] q by (simp add: sibling_def sibling_pos_def)
      with Suc.IH [of "sibs[h := n_Right n]" "n_Left n" used] kids(1) q False found Suc.prems(1,2)
      show ?thesis by (auto simp: upd_drop split: sum.splits)
    qed
  qed
qed

lemma unat_div_height [simp]: "unat (index :: u32) div 2 ^ DefaultHeight = 0"
  using unat_less [of index] by (simp add: DefaultHeight_def)

lemma getSiblings_repr:
  assumes "tree_ok K t" and "rht_wf K (rht_rows db)"
    and "repr K (rht_rows db) DefaultHeight r 0 f"
  shows "case getSiblings io t db index r of
      Inl e \<Rightarrow> e = ErrSQL \<and> \<not> no_faults io
    | Inr (s, u) \<Rightarrow> s = siblings K DefaultHeight f (unat index)"
  using getSiblings_loop_repr [OF assms(1,2) refl, of DefaultHeight "replicate DefaultHeight 0" r
      index f io False] assms(3)
  by (auto simp: getSiblings_def siblings_def split: sum.splits)

lemma GetProof_repr:
  assumes "tree_ok K t" and "rht_wf K (rht_rows db)"
    and "repr K (rht_rows db) DefaultHeight r 0 f"
  shows "GetProof io t db index r = Inr (siblings K DefaultHeight f (unat index)) \<or>
    GetProof io t db index r = Inl ErrSQL \<and> \<not> no_faults io"
  using getSiblings_repr [OF assms, of io index]
  by (auto simp: GetProof_def split: sum.splits prod.splits)

lemma GetLeaf_loop_repr:
  assumes "rht_wf K (rht_rows db)" and "i = unat index"
  shows "repr K (rht_rows db) h r (i div 2 ^ h) f \<Longrightarrow>
    (case GetLeaf_loop io t (Some db) index h r of
       Inl e \<Rightarrow> e = ErrSQL \<and> \<not> no_faults io \<or> e = ErrNotFound \<and> \<not> has_path (rht_rows db) i h r
     | Inr x \<Rightarrow> x = f i \<and> has_path (rht_rows db) i h r)"
proof (induction h arbitrary: r)
  case 0
  then show ?case by simp
next
  case (Suc h)
  show ?case
  proof (cases rule: getRHTNode_cases [of io t db r])
    case (found n)
    let ?q = "i div 2 ^ Suc h"
    let ?c = "if odd (i div 2 ^ h) then n_Right n else n_Left n"
    have "i div 2 ^ h = (if odd (i div 2 ^ h) then 2 * ?q + 1 else 2 * ?q)"
      by (simp add: div_pow_Suc del: power_Suc)
    with found Suc.prems have "repr K (rht_rows db) h ?c (i div 2 ^ h) f"
      by (auto simp del: power_Suc split: if_splits)
    from Suc.IH [OF this] found show ?thesis
      by (auto simp: bit_odd_div assms(2) split: sum.splits)
  qed auto
qed

lemma GetLeaf_repr:
  assumes "rht_wf K (rht_rows db)" and "repr K (rht_rows db) DefaultHeight r 0 f"
  shows "case GetLeaf io t (Some db) index r of
      Inl e \<Rightarrow> e = ErrSQL \<and> \<not> no_faults io \<or>
        e = ErrNotFound \<and> \<not> has_path (rht_rows db) (unat index) DefaultHeight r
    | Inr x \<Rightarrow> x = f (unat index) \<and> has_path (rht_rows db) (unat index) DefaultHeight r"
  using GetLeaf_loop_repr [OF assms(1) refl, of DefaultHeight r index f io t] assms(2)
  by (simp add: GetLeaf_def)

section \<open>Storing a path\<close>

text \<open>The node that joins level \<open>h\<close> of the path of leaf \<open>i\<close> with its sibling.\<close>

definition path_node :: "keccak \<Rightarrow> nat \<Rightarrow> hash list \<Rightarrow> hash \<Rightarrow> nat \<Rightarrow> TreeNode" where
  "path_node K i sibs leaf h =
     (if odd (i div 2 ^ h) then newTreeNode K (sibs ! h) (path_root K i sibs h leaf)
      else newTreeNode K (path_root K i sibs h leaf) (sibs ! h))"

definition path_nodes :: "keccak \<Rightarrow> nat \<Rightarrow> hash list \<Rightarrow> hash \<Rightarrow> nat \<Rightarrow> TreeNode list" where
  "path_nodes K i sibs leaf n = map (path_node K i sibs leaf) [0..<n]"

lemma path_node_hash [simp]: "n_Hash (path_node K i sibs leaf h) = path_root K i sibs (Suc h) leaf"
  by (simp add: path_node_def join_step_def)

lemma path_nodes_Suc: "path_nodes K i sibs leaf (Suc n) =
    path_nodes K i sibs leaf n @ [path_node K i sibs leaf n]"
  by (simp add: path_nodes_def)

lemma rht_wf_path_nodes: "rht_wf K (path_nodes K i sibs leaf n)"
  by (auto simp: rht_wf_def path_nodes_def path_node_def join_step_def)

lemma rht_wf_append: "rht_wf K (xs @ ys) \<longleftrightarrow> rht_wf K xs \<and> rht_wf K ys"
  by (auto simp: rht_wf_def)

lemma rht_wf_subset: "rht_wf K ys \<Longrightarrow> set xs \<subseteq> set ys \<Longrightarrow> rht_wf K xs"
  by (auto simp: rht_wf_def)

text \<open>
  \<open>extends rows nodes rows'\<close>: \<open>rows'\<close> is \<open>rows\<close> with those of \<open>nodes\<close> appended whose hash was
  not stored, which is what a successful \<open>storeNodes\<close> does.
\<close>

definition extends :: "TreeNode list \<Rightarrow> TreeNode list \<Rightarrow> TreeNode list \<Rightarrow> bool" where
  "extends rows nodes rows' \<longleftrightarrow>
     set rows' \<subseteq> set rows \<union> set nodes \<and>
     (\<forall>h n. rht_lookup rows h = Some n \<longrightarrow> rht_lookup rows' h = Some n) \<and>
     (\<forall>n\<in>set nodes. rht_lookup rows' (n_Hash n) \<noteq> None)"

lemma rht_lookup_None: "rht_lookup rows h = None \<longleftrightarrow> h \<notin> n_Hash ` set rows"
  by (auto simp: rht_lookup_def find_None_iff_all)

lemma rht_lookup_append:
  "rht_lookup (xs @ ys) h = (case rht_lookup xs h of None \<Rightarrow> rht_lookup ys h | Some n \<Rightarrow> Some n)"
  by (simp add: rht_lookup_def find_append split: option.split)

lemma storeNodes_ok:
  "storeNodes io t db nodes = (db', None) \<Longrightarrow>
   extends (rht_rows db) nodes (rht_rows db') \<and> root_rows db' = root_rows db"
proof (induction nodes arbitrary: db)
  case Nil
  then show ?case by (simp add: extends_def)
next
  case (Cons n nodes)
  let ?ins = "pk_insert io (SqlInsert (rhtTable t) [unat (n_Hash n)]) n_Hash n (rht_rows db)"
  show ?case
  proof (cases ?ins)
    case (Inl e)
    with Cons.prems have e: "e = ErrUniqueConstraint" and rest: "storeNodes io t db nodes = (db', None)"
      by (auto split: if_splits)
    from Inl e have "n_Hash n \<in> n_Hash ` set (rht_rows db)"
      by (auto simp: pk_insert_def split: if_splits)
    then obtain m where "rht_lookup (rht_rows db) (n_Hash n) = Some m"
      using rht_lookup_None by fastforce
    with Cons.IH [OF rest] show ?thesis by (auto simp: extends_def)
  next
    case (Inr rows)
    then have new: "n_Hash n \<notin> n_Hash ` set (rht_rows db)" and rows: "rows = rht_rows db @ [n]"
      by (simp_all add: pk_insert_Inr)
    from Inr Cons.prems have "storeNodes io t (db\<lparr>rht_rows := rows\<rparr>) nodes = (db', None)" by simp
    from Cons.IH [OF this] have ext: "extends rows nodes (rht_rows db')"
      and "root_rows db' = root_rows db" by simp_all
    moreover have "rht_lookup rows (n_Hash n) = Some n"
      using new by (simp add: rows rht_lookup_append rht_lookup_None [symmetric])
        (simp add: rht_lookup_def)
    ultimately show ?thesis
      by (auto simp: extends_def rows rht_lookup_append)
  qed
qed

lemma storeNodes_progress: "no_faults io \<Longrightarrow> \<exists>db'. storeNodes io t db nodes = (db', None)"
proof (induction nodes arbitrary: db)
  case Nil
  then show ?case by simp
next
  case (Cons n nodes)
  then show ?case by (auto simp: pk_insert_def no_faults_def)
qed

lemma storeNodes_error: "storeNodes io t db nodes = (db', Some e) \<Longrightarrow> e = ErrSQL \<and> \<not> no_faults io"
  by (induction nodes arbitrary: db)
     (auto simp: pk_insert_def no_faults_def split: if_splits)

lemma storeNodes_frame: "storeNodes io t db nodes = (db', r) \<Longrightarrow> root_rows db' = root_rows db"
  by (induction nodes arbitrary: db) (fastforce split: sum.splits if_splits)+

lemma extends_wf: "rht_wf K rows \<Longrightarrow> rht_wf K nodes \<Longrightarrow> extends rows nodes rows' \<Longrightarrow> rht_wf K rows'"
  by (auto simp: rht_wf_def extends_def)

lemma extends_pairs: "extends rows nodes rows' \<Longrightarrow> node_pairs rows' \<subseteq> node_pairs rows \<union> node_pairs nodes"
  by (auto simp: extends_def node_pairs_def)

definition safe_insert :: "keccak \<Rightarrow> TreeNode list \<Rightarrow> TreeNode list \<Rightarrow> bool" where
  "safe_insert K rows nodes \<longleftrightarrow>
     collision_free K (node_pairs rows \<union> node_pairs nodes \<union> zero_pairs K DefaultHeight)"

lemma safe_insert_rows:
  "safe_insert K rows nodes \<Longrightarrow> collision_free K (node_pairs rows \<union> zero_pairs K DefaultHeight)"
  unfolding safe_insert_def by (erule collision_free_mono) auto

lemma safe_insert_extends:
  "safe_insert K rows nodes \<Longrightarrow> extends rows nodes rows' \<Longrightarrow>
   collision_free K (node_pairs rows' \<union> zero_pairs K DefaultHeight)"
  unfolding safe_insert_def
  by (erule collision_free_mono) (auto dest: extends_pairs)

text \<open>A stored node is found with its own children.\<close>

lemma extends_lookup_node:
  assumes "rht_wf K rows" and "rht_wf K nodes" and "extends rows nodes rows'"
    and "safe_insert K rows nodes" and "n \<in> set nodes"
  shows "\<exists>m. rht_lookup rows' (n_Hash n) = Some m \<and> n_Left m = n_Left n \<and> n_Right m = n_Right n"
proof -
  from assms(3,5) obtain m where m: "rht_lookup rows' (n_Hash n) = Some m"
    by (auto simp: extends_def)
  have "(n_Left m, n_Right m) \<in> node_pairs rows \<union> node_pairs nodes"
    using lookup_pair_in [OF m] extends_pairs [OF assms(3)] by auto
  moreover have "(n_Left n, n_Right n) \<in> node_pairs nodes"
    using assms(5) by (auto simp: node_pairs_def)
  moreover have "node_hash K (n_Left m) (n_Right m) = node_hash K (n_Left n) (n_Right n)"
    using rht_wf_lookup [OF extends_wf [OF assms(1-3)] m] assms(2,5) by (auto simp: rht_wf_def)
  ultimately have "n_Left m = n_Left n \<and> n_Right m = n_Right n"
    using collision_freeD [OF assms(4) [unfolded safe_insert_def],
        of "n_Left m" "n_Right m" "n_Left n" "n_Right n"] by auto
  with m show ?thesis by blast
qed

text \<open>Roots stored before keep standing for the same tree.\<close>

lemma repr_extends:
  assumes "rht_wf K rows" and "rht_wf K nodes" and "extends rows nodes rows'"
    and "safe_insert K rows nodes"
  shows "h \<le> DefaultHeight \<Longrightarrow> repr K rows h r k f \<Longrightarrow> repr K rows' h r k f"
proof (induction h arbitrary: r k)
  case 0
  then show ?case by simp
next
  case (Suc h)
  show ?case
  proof (cases "rht_lookup rows r")
    case None
    with Suc.prems have "r = zero_hash K (Suc h)" and "\<forall>i\<in>below (Suc h) k. f i = 0" by auto
    then show ?thesis
      using repr_zero [OF extends_wf [OF assms(1-3)] safe_insert_extends [OF assms(4,3)] Suc.prems(1)]
      by blast
  next
    case (Some n)
    then have "rht_lookup rows' r = Some n" using assms(3) by (auto simp: extends_def)
    with Some Suc show ?thesis by simp
  qed
qed

lemma has_path_extends: "extends rows nodes rows' \<Longrightarrow> has_path rows i h r \<Longrightarrow> has_path rows' i h r"
  by (induction h arbitrary: r) (auto simp: extends_def split: option.splits)

text \<open>
  Storing the path of leaf \<open>i\<close> over the siblings of a represented tree: the new root stands
  for the tree with that leaf replaced, and all its leaves that could be reached still can.
\<close>

definition path_stored ::
  "keccak \<Rightarrow> TreeNode list \<Rightarrow> hash \<Rightarrow> (nat \<Rightarrow> hash) \<Rightarrow> nat \<Rightarrow> hash \<Rightarrow> TreeNode list \<Rightarrow> bool"
where
  "path_stored K rows r f i leaf rows' \<longleftrightarrow>
     rht_wf K rows \<and> repr K rows DefaultHeight r 0 f \<and> i < 2 ^ DefaultHeight \<and>
     extends rows (path_nodes K i (siblings K DefaultHeight f i) leaf DefaultHeight) rows' \<and>
     safe_insert K rows (path_nodes K i (siblings K DefaultHeight f i) leaf DefaultHeight)"

lemma path_stored_wf: "path_stored K rows r f i leaf rows' \<Longrightarrow> rht_wf K rows'"
  unfolding path_stored_def by (blast intro: extends_wf rht_wf_path_nodes)

lemma path_stored_old:
  "path_stored K rows r f i leaf rows' \<Longrightarrow> repr K rows DefaultHeight q 0 g \<Longrightarrow>
   repr K rows' DefaultHeight q 0 g"
  unfolding path_stored_def by (blast intro: repr_extends rht_wf_path_nodes)

lemma path_stored_node:
  assumes "path_stored K rows r f i leaf rows'" and "h < DefaultHeight"
  shows "\<exists>m. rht_lookup rows' (subtree K (Suc h) (i div 2 ^ Suc h) (f(i := leaf))) = Some m \<and>
    n_Left m = subtree K h (2 * (i div 2 ^ Suc h)) (f(i := leaf)) \<and>
    n_Right m = subtree K h (2 * (i div 2 ^ Suc h) + 1) (f(i := leaf))"
proof -
  let ?sibs = "siblings K DefaultHeight f i"
  let ?n = "path_node K i ?sibs leaf h"
  have up: "path_root K i ?sibs g leaf = subtree K g (i div 2 ^ g) (f(i := leaf))"
    if "g \<le> DefaultHeight" for g
    by (rule path_root_upd [OF that])
  have "?n \<in> set (path_nodes K i ?sibs leaf DefaultHeight)"
    using assms(2) by (auto simp: path_nodes_def)
  with assms(1) obtain m where "rht_lookup rows' (n_Hash ?n) = Some m"
    and m: "n_Left m = n_Left ?n" "n_Right m = n_Right ?n"
    unfolding path_stored_def
    using extends_lookup_node rht_wf_path_nodes by metis
  moreover have "n_Hash ?n = subtree K (Suc h) (i div 2 ^ Suc h) (f(i := leaf))"
    using up [of "Suc h"] assms(2) by (simp del: subtree.simps power_Suc path_root.simps)
  moreover have "n_Left ?n = subtree K h (2 * (i div 2 ^ Suc h)) (f(i := leaf)) \<and>
      n_Right ?n = subtree K h (2 * (i div 2 ^ Suc h) + 1) (f(i := leaf))"
  proof (cases "odd (i div 2 ^ h)")
    case True
    then have q: "i div 2 ^ h = 2 * (i div 2 ^ Suc h) + 1"
      by (simp add: div_pow_Suc del: power_Suc)
    have "?sibs ! h = subtree K h (i div 2 ^ h - 1) (f(i := leaf))"
      using True assms(2) sibling_upd [of K f i leaf h] by (simp add: sibling_def sibling_pos_def)
    with True q up [of h] assms(2) show ?thesis
      by (simp add: path_node_def del: power_Suc)
  next
    case False
    then have q: "i div 2 ^ h = 2 * (i div 2 ^ Suc h)"
      by (simp add: div_pow_Suc del: power_Suc)
    have "?sibs ! h = subtree K h (i div 2 ^ h + 1) (f(i := leaf))"
      using False assms(2) sibling_upd [of K f i leaf h] by (simp add: sibling_def sibling_pos_def)
    with False q up [of h] assms(2) show ?thesis
      by (simp add: path_node_def del: power_Suc)
  qed
  ultimately show ?thesis by auto
qed

text \<open>Nodes off the path are represented as before.\<close>

lemma path_stored_off:
  assumes "path_stored K rows r f i leaf rows'" and "h \<le> DefaultHeight"
    and "m < 2 ^ (DefaultHeight - h)" and "i div 2 ^ h \<noteq> m"
  shows "repr K rows' h (subtree K h m (f(i := leaf))) m (f(i := leaf))"
proof -
  have "repr K rows h (subtree K h m f) m f"
    using assms(1-3) unfolding path_stored_def
    by (intro repr_sub [OF _ _ order_refl]) (auto intro: safe_insert_rows)
  then have "repr K rows' h (subtree K h m f) m f"
    using assms(1,2) unfolding path_stored_def by (blast intro: repr_extends rht_wf_path_nodes)
  moreover have "repr K rows' h q m (f(i := leaf)) = repr K rows' h q m f" for q
    by (rule repr_cong) (use assms(4) in \<open>auto simp: below_def\<close>)
  ultimately show ?thesis by (simp add: subtree_upd_other [OF assms(4)])
qed

lemma div_pow_less: "(i :: nat) < 2 ^ n \<Longrightarrow> h \<le> n \<Longrightarrow> i div 2 ^ h < 2 ^ (n - h)"
  by (simp add: less_mult_imp_div_less power_add [symmetric])

lemma path_stored_repr:
  assumes ps: "path_stored K rows r f i leaf rows'"
  shows "h \<le> DefaultHeight \<Longrightarrow>
    repr K rows' h (subtree K h (i div 2 ^ h) (f(i := leaf))) (i div 2 ^ h) (f(i := leaf))"
proof (induction h)
  case 0
  then show ?case by simp
next
  case (Suc h)
  let ?q = "i div 2 ^ Suc h"
  let ?g = "f(i := leaf)"
  have "x = 2 * (x div 2) \<or> x = 2 * (x div 2) + 1" for x :: nat by presburger
  then have q: "i div 2 ^ h = 2 * ?q \<or> i div 2 ^ h = 2 * ?q + 1"
    unfolding div_pow_Suc .
  have "i < 2 ^ DefaultHeight" using ps by (simp add: path_stored_def)
  then have "?q < 2 ^ (DefaultHeight - Suc h)" using Suc.prems by (rule div_pow_less)
  then have "2 * ?q + 1 < 2 ^ (DefaultHeight - h)"
    using Suc.prems by (simp add: Suc_diff_Suc [symmetric] del: power_Suc) simp
  then have small: "2 * ?q < 2 ^ (DefaultHeight - h)" "2 * ?q + 1 < 2 ^ (DefaultHeight - h)"
    by linarith+
  have kid: "repr K rows' h (subtree K h m ?g) m ?g" if "m = 2 * ?q \<or> m = 2 * ?q + 1" for m
  proof (cases "i div 2 ^ h = m")
    case True
    then show ?thesis using Suc by (auto simp del: fun_upd_apply)
  next
    case False
    with Suc.prems that small show ?thesis by (intro path_stored_off [OF ps]) auto
  qed
  obtain m where "rht_lookup rows' (subtree K (Suc h) ?q ?g) = Some m"
    and "n_Left m = subtree K h (2 * ?q) ?g" and "n_Right m = subtree K h (2 * ?q + 1) ?g"
    using path_stored_node [OF ps, of h] Suc.prems by auto
  then show ?case using kid by (simp del: subtree.simps power_Suc fun_upd_apply)
qed

lemma path_stored_root:
  assumes "path_stored K rows r f i leaf rows'"
  shows "repr K rows' DefaultHeight (merkle_root K DefaultHeight (f(i := leaf))) 0 (f(i := leaf))"
proof -
  have "i div 2 ^ DefaultHeight = 0" using assms by (simp add: path_stored_def)
  with path_stored_repr [OF assms order_refl] show ?thesis by (simp add: merkle_root_def)
qed

lemma path_stored_has_path:
  assumes ps: "path_stored K rows r f i leaf rows'"
  shows "h \<le> DefaultHeight \<Longrightarrow>
    j = i \<or> has_path rows j h (subtree K h (j div 2 ^ h) f) \<and> j < 2 ^ DefaultHeight \<Longrightarrow>
    has_path rows' j h (subtree K h (j div 2 ^ h) (f(i := leaf)))"
proof (induction h)
  case 0
  then show ?case by simp
next
  case (Suc h)
  let ?q = "j div 2 ^ Suc h"
  show ?case
  proof (cases "i div 2 ^ Suc h = ?q")
    case True
    have "j = i \<or> has_path rows j h (subtree K h (j div 2 ^ h) f) \<and> j < 2 ^ DefaultHeight"
    proof (cases "j = i")
      case False
      with Suc.prems have hp: "has_path rows j (Suc h) (subtree K (Suc h) ?q f)"
        and j: "j < 2 ^ DefaultHeight" by auto
      then obtain n where n: "rht_lookup rows (subtree K (Suc h) ?q f) = Some n"
        and kid: "has_path rows j h (if odd (j div 2 ^ h) then n_Right n else n_Left n)"
        by (auto split: option.splits simp del: subtree.simps power_Suc)
      have "repr K rows (Suc h) (subtree K (Suc h) ?q f) ?q f"
        using ps Suc.prems(1) div_pow_less [OF j Suc.prems(1)] unfolding path_stored_def
        by (intro repr_sub [OF _ _ order_refl]) (auto intro: safe_insert_rows simp del: power_Suc)
      with n have kids: "repr K rows h (n_Left n) (2 * ?q) f" "repr K rows h (n_Right n) (2 * ?q + 1) f"
        by (simp_all del: subtree.simps power_Suc)
      have wf: "rht_wf K rows" using ps by (simp add: path_stored_def)
      have "j div 2 ^ h = (if odd (j div 2 ^ h) then 2 * ?q + 1 else 2 * ?q)"
        by (simp add: div_pow_Suc del: power_Suc)
      with kid kids [THEN repr_hash [OF wf]] j show ?thesis by (auto split: if_splits)
    qed simp
    then have IH: "has_path rows' j h (subtree K h (j div 2 ^ h) (f(i := leaf)))"
      by (rule Suc.IH [rotated]) (use Suc.prems(1) in simp)
    obtain m where "rht_lookup rows' (subtree K (Suc h) ?q (f(i := leaf))) = Some m"
      and "n_Left m = subtree K h (2 * ?q) (f(i := leaf))"
      and "n_Right m = subtree K h (2 * ?q + 1) (f(i := leaf))"
      using path_stored_node [OF ps, of h] Suc.prems True by auto
    moreover have "j div 2 ^ h = (if odd (j div 2 ^ h) then 2 * ?q + 1 else 2 * ?q)"
      by (simp add: div_pow_Suc del: power_Suc)
    ultimately show ?thesis using IH by (auto simp del: subtree.simps power_Suc fun_upd_apply split: if_splits)
  next
    case False
    then have "has_path rows j (Suc h) (subtree K (Suc h) ?q f)" using Suc.prems(2)
      by (auto simp del: has_path.simps subtree.simps power_Suc)
    then have "has_path rows' j (Suc h) (subtree K (Suc h) ?q f)"
      using ps unfolding path_stored_def by (blast intro: has_path_extends)
    then show ?thesis by (simp only: subtree_upd_other [OF False])
  qed
qed

section \<open>The interface of a stored tree\<close>

text \<open>
  Both kinds of tree promise the same to their readers: \<open>holds db f\<close> says that the tables hold
  the tree with the leaves \<open>f\<close>, and the last root stands for it. What a reader gets from the
  last root is proved here once.
\<close>

locale merkle_store =
  fixes K :: keccak and holds :: "tree_db \<Rightarrow> (nat \<Rightarrow> hash) \<Rightarrow> bool"
  assumes holds_wf: "holds db f \<Longrightarrow> rht_wf K (rht_rows db)"
    and holds_last: "holds db f \<Longrightarrow>
      (case first_desc root_key (root_rows db) of
         None \<Rightarrow> f = (\<lambda>_. 0)
       | Some r \<Rightarrow> repr K (rht_rows db) DefaultHeight (r_Hash r) 0 f)"
begin

lemma last_root_repr:
  assumes "holds db f" and "getLastRootWithTx io t db = Inr r"
  shows "repr K (rht_rows db) DefaultHeight (r_Hash r) 0 f"
  using holds_last [OF assms(1)] assms(2) by (simp add: getLastRootWithTx_def)

lemma last_root_hash_eq:
  assumes "holds db f" and "getLastRootWithTx io t db = Inr r"
  shows "r_Hash r = merkle_root K DefaultHeight f"
  using repr_hash [OF holds_wf [OF assms(1)] last_root_repr [OF assms]] by (simp add: merkle_root_def)

lemma last_root_missing:
  "holds db f \<Longrightarrow> getLastRootWithTx io t db = Inl ErrNotFound \<Longrightarrow> f = (\<lambda>_. 0)"
  by (drule holds_last) (auto simp: getLastRootWithTx_def query_row_Inl)

lemma last_root_proof:
  assumes "holds db f" and "tree_ok K t" and "no_faults io" and "getLastRootWithTx io t db = Inr r"
  shows "\<exists>p. GetProof io t db index (r_Hash r) = Inr p \<and> length p = DefaultHeight \<and>
    CalculateRoot K (f (unat index)) p index = r_Hash r"
proof -
  note rep = last_root_repr [OF assms(1,4)] and wf = holds_wf [OF assms(1)]
  have small: "unat index < 2 ^ DefaultHeight"
    using unat_less [of index] by (simp add: DefaultHeight_def)
  have "GetProof io t db index (r_Hash r) = Inr (siblings K DefaultHeight f (unat index))"
    using GetProof_repr [OF assms(2) wf rep, where io = io and index = index] assms(3) by simp
  then show ?thesis
    using path_root_siblings [OF small, of K f] last_root_hash_eq [OF assms(1,4)]
    by (simp add: CalculateRoot_path_root)
qed

end

section \<open>Leaves and proofs read the same nodes\<close>

lemma getSiblings_loop_frame:
  "getSiblings_loop io t db index h r sibs u = Inr (s, u') \<Longrightarrow>
   length s = length sibs \<and> (\<forall>j\<ge>h. s ! j = sibs ! j)"
proof (induction h arbitrary: r sibs u)
  case 0
  then show ?case by simp
next
  case (Suc h)
  show ?case
    by (cases rule: getRHTNode_cases [of io t db r])
      (use Suc in \<open>fastforce split: if_splits\<close>)+
qed

lemma path_root_cong: "(\<And>j. j < h \<Longrightarrow> s ! j = s' ! j) \<Longrightarrow> path_root K i s h x = path_root K i s' h x"
  by (induction h) simp_all

lemma GetLeaf_loop_siblings:
  assumes "rht_wf K (rht_rows db)"
  shows "GetLeaf_loop io t (Some db) index h r = Inr x \<Longrightarrow> h \<le> length sibs \<Longrightarrow>
    \<exists>s. getSiblings_loop io t db index h r sibs u = Inr (s, u) \<and> path_root K (unat index) s h x = r"
proof (induction h arbitrary: r sibs u)
  case 0
  then show ?case by simp
next
  case (Suc h)
  show ?case
  proof (cases rule: getRHTNode_cases [of io t db r])
    case (found n)
    let ?c = "if bit index h then n_Right n else n_Left n"
    let ?o = "if bit index h then n_Left n else n_Right n"
    have "GetLeaf_loop io t (Some db) index h ?c = Inr x" using Suc.prems(1) found by simp
    with Suc.IH [of ?c "sibs[h := ?o]" u] Suc.prems(2) obtain s where
      s: "getSiblings_loop io t db index h ?c (sibs[h := ?o]) u = Inr (s, u)"
        "path_root K (unat index) s h x = ?c" by auto
    have "s ! h = ?o" using getSiblings_loop_frame [OF s(1)] Suc.prems(2) by simp
    moreover have "r = node_hash K (n_Left n) (n_Right n)" by (rule rht_wf_lookup [OF assms found(2)])
    ultimately have "path_root K (unat index) s (Suc h) x = r"
      using s(2) by (simp add: join_step_def bit_odd_div)
    with s(1) found show ?thesis by (cases "bit index h") auto
  qed (use Suc.prems in auto)
qed

end
