(* ===== verification/SampleHash.thy ===== *)
theory SampleHash
  imports MerkleTree
begin

text \<open>
  A concrete hash function for the examples of this development. It is affine in the two
  children, so that the hashes of the empty tree and of a tree with a single small odd leaf
  have a closed form, and it has no collision among the nodes those two trees need. It is only an
  instance of the parameter \<open>keccak\<close>, not a model of Keccak-256.
\<close>

definition sample_keccak :: keccak where
  "sample_keccak bs = of_nat (3 * be_value (take 32 bs) + 5 * be_value (drop 32 bs) + 1)"

lemma sample_node [simp]: "node_hash sample_keccak l r = 3 * l + 5 * r + 1"
proof -
  have "unat (w :: hash) < 256 ^ 32" for w
    using unat_less [of w] by simp
  then have "unat (w :: hash) mod 256 ^ 32 = unat w" for w
    by (rule mod_less)
  then have "be_value (hash_bytes w) = unat w" for w :: hash
    by (simp only: be_value_be_bytes)
  then show ?thesis by (simp add: node_hash_def sample_keccak_def)
qed

fun sample_z :: "nat \<Rightarrow> nat" where
  "sample_z 0 = 0"
| "sample_z (Suc h) = 8 * sample_z h + 1"

lemma sample_zero_hash: "zero_hash sample_keccak h = of_nat (sample_z h)"
  by (induction h) simp_all

text \<open>The path of a leaf \<open>x\<close> at position 0 in the otherwise empty tree.\<close>

lemma sample_sibling: "sibling sample_keccak (\<lambda>_. 0) i h = of_nat (sample_z h)"
  by (simp add: sibling_def subtree_zero sample_zero_hash)

lemma sample_path:
  "h \<le> n \<Longrightarrow> path_root sample_keccak 0 (siblings sample_keccak n (\<lambda>_. 0) 0) h (of_nat x) =
     of_nat (sample_z h + x * 3 ^ h)"
  by (induction h) (simp_all add: join_step_def sample_sibling algebra_simps)

lemma sample_z_mono: "h < g \<Longrightarrow> sample_z h < sample_z g"
  by (rule lift_Suc_mono_less [of sample_z]) simp_all

lemma sample_z_bound: "sample_z h < 8 ^ h"
  by (induction h) auto

lemma sample_small:
  assumes "h \<le> 33" and "x \<le> 1000"
  shows "sample_z h + x * 3 ^ h < 2 ^ 256"
proof -
  have "(3 :: nat) ^ h \<le> 8 ^ h" by (rule power_mono) simp_all
  with assms(2) have "x * 3 ^ h \<le> 1000 * 8 ^ h" by (rule mult_le_mono)
  then have "sample_z h + x * 3 ^ h < 1001 * 8 ^ h"
    using sample_z_bound [of h] by linarith
  also have "\<dots> \<le> 1001 * (8 :: nat) ^ 33"
    using power_increasing [OF assms(1), of "8 :: nat"] by simp
  finally show ?thesis by simp
qed

lemma sample_of_nat_eq:
  "a < 2 ^ 256 \<Longrightarrow> b < 2 ^ 256 \<Longrightarrow> (of_nat a :: hash) = of_nat b \<longleftrightarrow> a = b"
  by (auto simp: word_unat_eq_iff unsigned_of_nat take_bit_eq_mod)

text \<open>The nodes of the two trees, as pairs of children, with \<open>a = 0\<close> for the empty tree.\<close>

definition sample_pair :: "nat \<Rightarrow> nat \<Rightarrow> hash \<times> hash" where
  "sample_pair a h = (of_nat (sample_z h + a * 3 ^ h), of_nat (sample_z h))"

definition sample_leaf_ok :: "nat \<Rightarrow> bool" where
  "sample_leaf_ok x \<longleftrightarrow> odd x \<and> x \<le> 1000"

lemma sample_pair_hash:
  "node_hash sample_keccak (fst (sample_pair a h)) (snd (sample_pair a h)) =
     of_nat (sample_z (Suc h) + a * 3 ^ Suc h)"
  by (simp add: sample_pair_def algebra_simps)

lemma sample_sum_inj:
  assumes "sample_z (Suc h) + a * 3 ^ Suc h = sample_z (Suc g) + b * 3 ^ Suc g"
    and "a = 0 \<or> a = x" and "b = 0 \<or> b = x" and "odd x"
  shows "a = b \<and> h = g"
proof -
  have "even (sample_z (Suc h) + a * 3 ^ Suc h) \<longleftrightarrow> odd a" and
    "even (sample_z (Suc g) + b * 3 ^ Suc g) \<longleftrightarrow> odd b"
    by simp_all
  with assms have ab: "a = b" by auto
  have "h < g \<Longrightarrow> sample_z (Suc h) + a * 3 ^ Suc h < sample_z (Suc g) + a * 3 ^ Suc g" for h g
    using sample_z_mono [of h g] power_increasing [of h g "3 :: nat"]
    by (simp add: add_less_le_mono mult_le_mono)
  with assms(1) ab show ?thesis by (metis linorder_neqE_nat less_irrefl)
qed

lemma sample_pair_inj:
  assumes "h < DefaultHeight" and "g < DefaultHeight" and "a = 0 \<or> a = x" and "b = 0 \<or> b = x"
    and "sample_leaf_ok x"
    and "node_hash sample_keccak (fst (sample_pair a h)) (snd (sample_pair a h)) =
      node_hash sample_keccak (fst (sample_pair b g)) (snd (sample_pair b g))"
  shows "sample_pair a h = sample_pair b g"
proof -
  have small: "sample_z (Suc k) + c * 3 ^ Suc k < 2 ^ 256" if "k < DefaultHeight" "c = 0 \<or> c = x" for k c
    by (rule sample_small) (use that assms(5) in \<open>auto simp: DefaultHeight_def sample_leaf_ok_def\<close>)
  from assms(6) have "sample_z (Suc h) + a * 3 ^ Suc h = sample_z (Suc g) + b * 3 ^ Suc g"
    unfolding sample_pair_hash using sample_of_nat_eq small assms(1-4) by blast
  with sample_sum_inj assms(3-5) show ?thesis unfolding sample_leaf_ok_def by blast
qed

lemma sample_collision_free:
  assumes "S \<subseteq> (\<Union>a\<in>{0, x}. sample_pair a ` {..<DefaultHeight})" and "sample_leaf_ok x"
  shows "collision_free sample_keccak S"
  unfolding collision_free_def
proof (intro ballI impI)
  have form: "\<exists>a h. p = sample_pair a h \<and> (a = 0 \<or> a = x) \<and> h < DefaultHeight" if "p \<in> S" for p
  proof -
    from assms(1) that obtain a h where "a \<in> {0, x}" and "h \<in> {..<DefaultHeight}"
      and "p = sample_pair a h" by blast
    then show ?thesis by blast
  qed
  fix p q
  assume "p \<in> S" "q \<in> S"
    and eq: "node_hash sample_keccak (fst p) (snd p) = node_hash sample_keccak (fst q) (snd q)"
  from form [OF \<open>p \<in> S\<close>] obtain a h where p: "p = sample_pair a h" "a = 0 \<or> a = x" "h < DefaultHeight"
    by blast
  from form [OF \<open>q \<in> S\<close>] obtain b g where q: "q = sample_pair b g" "b = 0 \<or> b = x" "g < DefaultHeight"
    by blast
  show "p = q" unfolding p(1) q(1)
    by (rule sample_pair_inj [OF p(3) q(3) p(2) q(2) assms(2) eq [unfolded p(1) q(1)]])
qed

lemma sample_zero_pairs:
  "zero_pairs sample_keccak n = sample_pair 0 ` {..<n}"
  by (auto simp: zero_pairs_def sample_pair_def sample_zero_hash)

lemma sample_path_pairs:
  "node_pairs (path_nodes sample_keccak 0 (siblings sample_keccak DefaultHeight (\<lambda>_. 0) 0) (of_nat x) n) =
     sample_pair x ` {..<n}" if "n \<le> DefaultHeight"
proof -
  have "(n_Left (path_node sample_keccak 0 (siblings sample_keccak DefaultHeight (\<lambda>_. 0) 0) (of_nat x) h),
         n_Right (path_node sample_keccak 0 (siblings sample_keccak DefaultHeight (\<lambda>_. 0) 0) (of_nat x) h)) =
        sample_pair x h" if "h < DefaultHeight" for h
    using that by (simp add: path_node_def sample_pair_def sample_path sample_sibling)
  with \<open>n \<le> DefaultHeight\<close> show ?thesis
    by (auto simp: node_pairs_def path_nodes_def image_image)
qed

lemma sample_safe:
  assumes "sample_leaf_ok x"
  shows "safe_insert sample_keccak []
     (path_nodes sample_keccak 0 (siblings sample_keccak DefaultHeight (\<lambda>_. 0) 0) (of_nat x) DefaultHeight)"
  unfolding safe_insert_def
  by (rule sample_collision_free [OF _ assms])
    (auto simp: sample_zero_pairs sample_path_pairs, simp add: node_pairs_def)

end
