(* ===== verification/AppendOnlyTree.thy ===== *)
theory AppendOnlyTree
  imports SampleHash
begin

text \<open>
  The append-only tree (\<open>src/tree/appendonlytree.go\<close>): a Merkle tree whose leaves are added
  in index order, with the left siblings of the next leaf kept in memory. The in-memory part
  is \<open>AppendOnlyTree\<close>; the tables are a \<open>tree_db\<close>. The specification is a list of leaf hashes:
  \<open>append_inv\<close> relates the tables to it and \<open>cache_ok\<close> the cache.
\<close>

section \<open>Data and operations\<close>

record AppendOnlyTree =
  aot_Tree :: Tree
  lastLeftCache :: "hash list"
  lastIndex :: int

text \<open>The closure \<open>func() { t.lastIndex-- }\<close> that \<open>AddLeaf\<close> registers for a rollback.\<close>

datatype tree_callback = DecrementLastIndex

definition run_tree_callback :: "tree_callback \<Rightarrow> AppendOnlyTree \<Rightarrow> AppendOnlyTree" where
  "run_tree_callback cb t = (case cb of DecrementLastIndex \<Rightarrow> t\<lparr>lastIndex := lastIndex t - 1\<rparr>)"

definition NewAppendOnlyTree :: "keccak \<Rightarrow> string \<Rightarrow> AppendOnlyTree" where
  "NewAppendOnlyTree K dbPrefix =
     \<lparr>aot_Tree = newTree K dbPrefix, lastLeftCache = replicate DefaultHeight 0, lastIndex = -2\<rparr>"

fun initCache_loop ::
  "io \<Rightarrow> Tree \<Rightarrow> tree_db \<Rightarrow> int \<Rightarrow> nat \<Rightarrow> hash \<Rightarrow> hash list \<Rightarrow> error + hash list"
where
  "initCache_loop io t db index 0 currentNodeHash sibs = Inr sibs"
| "initCache_loop io t db index (Suc h) currentNodeHash sibs =
     (case getRHTNode io t db currentNodeHash of
        Inl e \<Rightarrow> Inl e
      | Inr currentNode \<Rightarrow>
          initCache_loop io t db index h
            (if index AND push_bit h 1 > 0 then n_Right currentNode else n_Left currentNode)
            (sibs[h := n_Left currentNode]))"

text \<open>
  The loop that announces to reverse the siblings runs while \<open>i == j\<close>, starting from 0 and 31:
  it never runs, and the siblings stay indexed by their height.
\<close>

definition initCache :: "io \<Rightarrow> AppendOnlyTree \<Rightarrow> tree_db \<Rightarrow> AppendOnlyTree \<times> error option" where
  "initCache io t db =
     (let sibs = replicate DefaultHeight 0 in
      case getLastRootWithTx io (aot_Tree t) db of
        Inl e \<Rightarrow>
          if e = ErrNotFound then (t\<lparr>lastIndex := -1, lastLeftCache := sibs\<rparr>, None)
          else (t, Some e)
      | Inr lastRoot \<Rightarrow>
          let t1 = t\<lparr>lastIndex := int (unat (r_Index lastRoot))\<rparr> in
          case initCache_loop io (aot_Tree t) db (lastIndex t1) DefaultHeight
                 (r_Hash lastRoot) sibs of
            Inl e \<Rightarrow> (t1, Some e)
          | Inr sibs' \<Rightarrow> (t1\<lparr>lastLeftCache := sibs'\<rparr>, None))"

definition addLeaf_level ::
  "keccak \<Rightarrow> Tree \<Rightarrow> u32 \<Rightarrow> hash \<times> hash list \<times> TreeNode list \<Rightarrow> nat \<Rightarrow>
   hash \<times> hash list \<times> TreeNode list"
where
  "addLeaf_level K t index s h =
     (case s of (currentChildHash, cache, newNodes) \<Rightarrow>
        if index AND push_bit h 1 > 0
        then let parent = newTreeNode K (cache ! h) currentChildHash
             in (n_Hash parent, cache, newNodes @ [parent])
        else let parent = newTreeNode K currentChildHash (zeroHashes t ! h)
             in (n_Hash parent, cache[h := currentChildHash], newNodes @ [parent]))"

definition mismatched_index :: error where
  "mismatched_index = ErrMsg ''mismatched index''"

text \<open>The part of \<open>AddLeaf\<close> that runs once the index is the expected one.\<close>

definition AddLeaf_body ::
  "keccak \<Rightarrow> io \<Rightarrow> AppendOnlyTree \<Rightarrow> tree_db \<Rightarrow> u64 \<Rightarrow> u64 \<Rightarrow> Leaf \<Rightarrow>
   (AppendOnlyTree \<times> tree_db \<times> tree_callback list) \<times> error option"
where
  "AddLeaf_body K io t db blockNum blockPosition leaf =
     (case foldl (addLeaf_level K (aot_Tree t) (l_Index leaf))
             (l_Hash leaf, lastLeftCache t, []) [0..<DefaultHeight] of
        (currentChildHash, cache, newNodes) \<Rightarrow>
          let t1 = t\<lparr>lastLeftCache := cache\<rparr> in
          case storeRoot io (aot_Tree t) db
                 \<lparr>r_Hash = currentChildHash, r_Index = l_Index leaf,
                  r_BlockNum = blockNum, r_BlockPosition = blockPosition\<rparr> of
            (db1, Some e) \<Rightarrow> ((t1, db1, []), Some e)
          | (db1, None) \<Rightarrow>
              (case storeNodes io (aot_Tree t) db1 newNodes of
                 (db2, Some e) \<Rightarrow> ((t1, db2, []), Some e)
               | (db2, None) \<Rightarrow>
                   ((t1\<lparr>lastIndex := lastIndex t1 + 1\<rparr>, db2, [DecrementLastIndex]), None)))"

definition AddLeaf ::
  "keccak \<Rightarrow> io \<Rightarrow> AppendOnlyTree \<Rightarrow> tree_db \<Rightarrow> u64 \<Rightarrow> u64 \<Rightarrow> Leaf \<Rightarrow>
   (AppendOnlyTree \<times> tree_db \<times> tree_callback list) \<times> error option"
where
  "AddLeaf K io t db blockNum blockPosition leaf =
     (if int (unat (l_Index leaf)) \<noteq> lastIndex t + 1
      then case initCache io t db of
             (t1, Some e) \<Rightarrow> ((t1, db, []), Some e)
           | (t1, None) \<Rightarrow>
               if int (unat (l_Index leaf)) \<noteq> lastIndex t1 + 1
               then ((t1, db, []), Some mismatched_index)
               else AddLeaf_body K io t1 db blockNum blockPosition leaf
      else AddLeaf_body K io t db blockNum blockPosition leaf)"

section \<open>The specification: a list of leaves\<close>

definition leaves_root :: "keccak \<Rightarrow> hash list \<Rightarrow> hash" where
  "leaves_root K xs = merkle_root K DefaultHeight (leaves_fun xs)"

text \<open>
  \<open>cache_ok K c xs\<close>: the entries of the cache that the next leaf of \<open>xs\<close> reads are the left
  siblings on its path. \<open>synced\<close>: the tree object either has such a cache or an index that
  makes the next \<open>AddLeaf\<close> rebuild it, as after a start or a reorg.
\<close>

definition cache_ok :: "keccak \<Rightarrow> hash list \<Rightarrow> hash list \<Rightarrow> bool" where
  "cache_ok K c xs \<longleftrightarrow> length c = DefaultHeight \<and>
     (\<forall>j<DefaultHeight. odd (length xs div 2 ^ j) \<longrightarrow>
        c ! j = subtree K j (length xs div 2 ^ j - 1) (leaves_fun xs))"

definition synced :: "keccak \<Rightarrow> AppendOnlyTree \<Rightarrow> hash list \<Rightarrow> bool" where
  "synced K t xs \<longleftrightarrow> tree_ok K (aot_Tree t) \<and> length (lastLeftCache t) = DefaultHeight \<and>
     (lastIndex t < -1 \<or> int (length xs) \<le> lastIndex t + 1) \<and>
     (lastIndex t + 1 = int (length xs) \<longrightarrow> cache_ok K (lastLeftCache t) xs)"

definition root_ok :: "keccak \<Rightarrow> TreeNode list \<Rightarrow> hash list \<Rightarrow> Root \<Rightarrow> nat \<Rightarrow> bool" where
  "root_ok K rows xs r i \<longleftrightarrow>
     r_Index r = of_nat i \<and> r_Hash r = leaves_root K (take (Suc i) xs) \<and>
     repr K rows DefaultHeight (r_Hash r) 0 (leaves_fun (take (Suc i) xs)) \<and>
     (\<forall>j\<le>i. has_path rows j DefaultHeight (r_Hash r))"

definition append_inv :: "keccak \<Rightarrow> tree_db \<Rightarrow> hash list \<Rightarrow> bool" where
  "append_inv K db xs \<longleftrightarrow>
     length xs \<le> 2 ^ DefaultHeight \<and> rht_wf K (rht_rows db) \<and>
     length (root_rows db) = length xs \<and>
     (\<forall>i<length xs. root_ok K (rht_rows db) xs (root_rows db ! i) i) \<and>
     sorted_wrt (<) (map root_key (root_rows db))"

text \<open>The path of the next leaf, and that storing it causes no hash collision.\<close>

definition append_nodes :: "keccak \<Rightarrow> hash list \<Rightarrow> hash \<Rightarrow> TreeNode list" where
  "append_nodes K xs leaf =
     path_nodes K (length xs) (siblings K DefaultHeight (leaves_fun xs) (length xs)) leaf
       DefaultHeight"

definition append_safe :: "keccak \<Rightarrow> tree_db \<Rightarrow> hash list \<Rightarrow> hash \<Rightarrow> bool" where
  "append_safe K db xs leaf \<longleftrightarrow> safe_insert K (rht_rows db) (append_nodes K xs leaf)"

section \<open>The loop over the levels\<close>

lemma cache_ok_sibling:
  "cache_ok K c xs \<Longrightarrow> j < DefaultHeight \<Longrightarrow> odd (length xs div 2 ^ j) \<Longrightarrow>
   c ! j = sibling K (leaves_fun xs) (length xs) j"
  by (simp add: cache_ok_def sibling_def sibling_pos_def)

text \<open>The cache after the levels below \<open>h\<close> have been processed.\<close>

definition new_cache :: "keccak \<Rightarrow> hash list \<Rightarrow> hash \<Rightarrow> hash list \<Rightarrow> nat \<Rightarrow> hash list" where
  "new_cache K xs leaf c h =
     map (\<lambda>j. if j < h \<and> even (length xs div 2 ^ j)
              then path_root K (length xs) (siblings K DefaultHeight (leaves_fun xs) (length xs)) j leaf
              else c ! j) [0..<length c]"

lemma length_new_cache [simp]: "length (new_cache K xs leaf c h) = length c"
  by (simp add: new_cache_def)

lemma nth_new_cache:
  "j < length c \<Longrightarrow> new_cache K xs leaf c h ! j =
     (if j < h \<and> even (length xs div 2 ^ j)
      then path_root K (length xs) (siblings K DefaultHeight (leaves_fun xs) (length xs)) j leaf
      else c ! j)"
  by (simp add: new_cache_def)

lemma new_cache_Suc:
  "h < length c \<Longrightarrow> new_cache K xs leaf c (Suc h) =
     (if even (length xs div 2 ^ h)
      then (new_cache K xs leaf c h)[h :=
             path_root K (length xs) (siblings K DefaultHeight (leaves_fun xs) (length xs)) h leaf]
      else new_cache K xs leaf c h)"
  by (rule nth_equalityI) (auto simp: nth_new_cache nth_list_update less_Suc_eq)

lemma addLeaf_loop:
  assumes ok: "tree_ok K t" "cache_ok K c xs" "unat index = length xs"
  shows "h \<le> DefaultHeight \<Longrightarrow>
    foldl (addLeaf_level K t index) (leaf, c, []) [0..<h] =
      (path_root K (length xs) (siblings K DefaultHeight (leaves_fun xs) (length xs)) h leaf,
       new_cache K xs leaf c h,
       path_nodes K (length xs) (siblings K DefaultHeight (leaves_fun xs) (length xs)) leaf h)"
proof (induction h)
  case 0
  have "length c = DefaultHeight" using ok(2) by (simp add: cache_ok_def)
  then have "new_cache K xs leaf c 0 = c" by (intro nth_equalityI) (auto simp: nth_new_cache)
  then show ?case by (simp add: path_nodes_def)
next
  case (Suc h)
  then have h: "h < DefaultHeight" and len: "length c = DefaultHeight"
    using ok(2) by (simp_all add: cache_ok_def)
  have lvl: "bit index h \<longleftrightarrow> odd (length xs div 2 ^ h)"
    by (simp add: bit_odd_div ok(3))
  show ?case
  proof (cases "odd (length xs div 2 ^ h)")
    case True
    with h len ok(2) have "new_cache K xs leaf c h ! h = sibling K (leaves_fun xs) (length xs) h"
      by (simp add: nth_new_cache cache_ok_sibling)
    with True Suc h len lvl show ?thesis
      by (simp add: addLeaf_level_def path_nodes_Suc path_node_def join_step_def new_cache_Suc)
  next
    case False
    with right_of_last_zero [of xs "length xs" h K] h zeroHashes_nth [OF ok(1), of h]
    have "zeroHashes t ! h = sibling K (leaves_fun xs) (length xs) h" by simp
    with False Suc h len lvl show ?thesis
      by (simp add: addLeaf_level_def path_nodes_Suc path_node_def join_step_def new_cache_Suc)
  qed
qed

lemma Suc_div_pow_cases:
  obtains "Suc n div 2 ^ j = n div 2 ^ j" | "Suc n div 2 ^ j = Suc (n div 2 ^ j)"
  by (metis div_Suc)

lemma new_cache_ok:
  assumes "cache_ok K c xs"
  shows "cache_ok K (new_cache K xs leaf c DefaultHeight) (xs @ [leaf])"
  unfolding cache_ok_def
proof (intro conjI allI impI)
  show "length (new_cache K xs leaf c DefaultHeight) = DefaultHeight"
    using assms by (simp add: cache_ok_def)
next
  fix j
  let ?n = "length xs"
  assume j: "j < DefaultHeight" and odd: "odd (length (xs @ [leaf]) div 2 ^ j)"
  have len: "length c = DefaultHeight" using assms by (simp add: cache_ok_def)
  show "new_cache K xs leaf c DefaultHeight ! j =
    subtree K j (length (xs @ [leaf]) div 2 ^ j - 1) (leaves_fun (xs @ [leaf]))"
  proof (cases rule: Suc_div_pow_cases [of ?n j])
    case 1
    with odd have o: "odd (?n div 2 ^ j)" by simp
    then have "?n div 2 ^ j \<noteq> ?n div 2 ^ j - 1" by (auto elim: oddE)
    then have "subtree K j (?n div 2 ^ j - 1) (leaves_fun (xs @ [leaf])) =
        subtree K j (?n div 2 ^ j - 1) (leaves_fun xs)"
      unfolding leaves_fun_snoc by (rule subtree_upd_other)
    with 1 o j len assms show ?thesis by (simp add: nth_new_cache cache_ok_def)
  next
    case 2
    with odd have "even (?n div 2 ^ j)" by simp
    with 2 j len show ?thesis
      by (simp add: nth_new_cache path_root_upd leaves_fun_snoc del: fun_upd_apply)
  qed
qed

text \<open>A cache that has run ahead by one leaf still serves the shorter list.\<close>

lemma new_cache_old_ok: "cache_ok K c xs \<Longrightarrow> cache_ok K (new_cache K xs leaf c h) xs"
  by (auto simp: cache_ok_def nth_new_cache)

section \<open>Restoring the cache\<close>

lemma int_bit_odd_div: "(int n AND push_bit h 1 > 0) \<longleftrightarrow> odd (n div 2 ^ h)"
proof -
  have "int n AND push_bit h 1 = of_bool (bit n h) * push_bit h 1"
    by (rule bit_eqI) (auto simp: bit_simps)
  then show ?thesis by (simp add: bit_iff_odd push_bit_eq_mult)
qed

lemma int_and_exp_gt_0 [simp]: "(int n AND 2 ^ h > 0) \<longleftrightarrow> odd (n div 2 ^ h)"
  using int_bit_odd_div [of n h] by (simp only: push_bit_of_1)

lemma initCache_loop_repr:
  assumes wf: "rht_wf K (rht_rows db)"
  shows "h \<le> DefaultHeight \<Longrightarrow> length sibs = DefaultHeight \<Longrightarrow>
    repr K (rht_rows db) h r (i div 2 ^ h) f \<Longrightarrow> has_path (rht_rows db) i h r \<Longrightarrow>
    (case initCache_loop io t db (int i) h r sibs of
       Inl e \<Rightarrow> e = ErrSQL \<and> \<not> no_faults io
     | Inr s \<Rightarrow> s = map (\<lambda>j. subtree K j (2 * (i div 2 ^ Suc j)) f) [0..<h] @ drop h sibs)"
proof (induction h arbitrary: r sibs)
  case 0
  then show ?case by simp
next
  case (Suc h)
  show ?case
  proof (cases rule: getRHTNode_cases [of io t db r])
    case (found n)
    let ?q = "i div 2 ^ Suc h"
    let ?c = "if odd (i div 2 ^ h) then n_Right n else n_Left n"
    have q: "i div 2 ^ h = (if odd (i div 2 ^ h) then 2 * ?q + 1 else 2 * ?q)"
      by (simp add: div_pow_Suc del: power_Suc)
    from found Suc.prems(3) have left: "repr K (rht_rows db) h (n_Left n) (2 * ?q) f"
      and right: "repr K (rht_rows db) h (n_Right n) (2 * ?q + 1) f"
      by (simp_all del: power_Suc)
    then have "repr K (rht_rows db) h ?c (i div 2 ^ h) f"
      by (subst q) simp
    moreover have "has_path (rht_rows db) i h ?c"
      using Suc.prems(4) found by simp
    ultimately show ?thesis
      using Suc.IH [of "sibs[h := n_Left n]" ?c] found Suc.prems(1,2) repr_hash [OF wf left]
      by (cases "odd (i div 2 ^ h)")
        (auto simp: upd_drop split: sum.splits simp del: power_Suc)
  qed (use Suc.prems in auto)
qed

lemma last_root_row:
  assumes "append_inv K db xs" and "xs \<noteq> []"
  shows "first_desc root_key (root_rows db) = Some (root_rows db ! (length xs - 1))"
proof -
  have len: "length (root_rows db) = length xs" and srt: "sorted_wrt (<) (map root_key (root_rows db))"
    using assms(1) by (simp_all add: append_inv_def)
  then obtain rs r where rs: "root_rows db = rs @ [r]"
    using assms(2) by (cases "root_rows db" rule: rev_cases) auto
  with srt have "first_desc root_key (rs @ [r]) = Some r"
    by (intro first_desc_append_greatest) (auto simp: sorted_wrt_append)
  with len rs show ?thesis by (simp add: nth_append)
qed

lemma unat_of_nat_index: "i < 2 ^ DefaultHeight \<Longrightarrow> unat (of_nat i :: u32) = i"
  by (simp add: DefaultHeight_def unsigned_of_nat take_bit_eq_mod)

text \<open>What the walk to the last leaf collects is the cache for the next one.\<close>

lemma left_children_cache:
  assumes "xs \<noteq> []"
  shows "cache_ok K (map (\<lambda>j. subtree K j (2 * ((length xs - 1) div 2 ^ Suc j)) (leaves_fun xs))
    [0..<DefaultHeight]) xs"
  unfolding cache_ok_def
proof (intro conjI allI impI)
  fix j
  let ?i = "length xs - 1"
  assume "j < DefaultHeight" and odd: "odd (length xs div 2 ^ j)"
  have S: "length xs = Suc ?i" using assms by simp
  have "2 * (?i div 2 ^ Suc j) = length xs div 2 ^ j - 1"
  proof (cases rule: Suc_div_pow_cases [of ?i j])
    case 1
    with odd S have "odd (?i div 2 ^ j)" by simp
    with 1 S show ?thesis by (simp add: double_div_pow odd_iff_mod_2_eq_one del: power_Suc)
  next
    case 2
    with odd S have "even (?i div 2 ^ j)" by (metis even_Suc)
    with 2 S show ?thesis by (simp add: double_div_pow del: power_Suc)
  qed
  with \<open>j < DefaultHeight\<close> show "map (\<lambda>j. subtree K j (2 * (?i div 2 ^ Suc j)) (leaves_fun xs))
      [0..<DefaultHeight] ! j = subtree K j (length xs div 2 ^ j - 1) (leaves_fun xs)"
    by (simp del: power_Suc)
qed simp

lemma cache_ok_Nil: "length c = DefaultHeight \<Longrightarrow> cache_ok K c []"
  by (simp add: cache_ok_def)

lemma initCache_ok:
  assumes inv: "append_inv K db xs" and "tree_ok K (aot_Tree t)"
    and "length (lastLeftCache t) = DefaultHeight"
  shows "case initCache io t db of
      (t', None) \<Rightarrow> synced K t' xs \<and> lastIndex t' + 1 = int (length xs) \<and> aot_Tree t' = aot_Tree t
    | (t', Some e) \<Rightarrow> e = ErrSQL \<and> \<not> no_faults io \<and> lastLeftCache t' = lastLeftCache t \<and>
        aot_Tree t' = aot_Tree t"
proof (cases "getLastRootWithTx io (aot_Tree t) db")
  case (Inl e)
  then have "e = ErrSQL \<and> \<not> no_faults io \<or> e = ErrNotFound \<and> root_rows db = []"
    by (auto simp: getLastRootWithTx_def query_row_Inl no_faults_def)
  moreover have "root_rows db = [] \<longrightarrow> xs = []" using inv by (auto simp: append_inv_def)
  ultimately show ?thesis
    using Inl assms(2) by (auto simp: initCache_def synced_def cache_ok_def)
next
  case (Inr r)
  let ?i = "length xs - 1"
  from Inr have fd: "first_desc root_key (root_rows db) = Some r"
    by (simp add: getLastRootWithTx_def)
  then have ne: "xs \<noteq> []" using inv by (cases "root_rows db") (auto simp: append_inv_def)
  with last_root_row [OF inv ne] fd have r: "r = root_rows db ! ?i" by simp
  have len: "length xs \<le> 2 ^ DefaultHeight" and wf: "rht_wf K (rht_rows db)"
    using inv by (simp_all add: append_inv_def)
  have "root_ok K (rht_rows db) xs r ?i" using inv ne r by (simp add: append_inv_def)
  then have idx: "r_Index r = of_nat ?i"
    and rep: "repr K (rht_rows db) DefaultHeight (r_Hash r) 0 (leaves_fun xs)"
    and hp: "has_path (rht_rows db) ?i DefaultHeight (r_Hash r)"
    using ne by (auto simp: root_ok_def)
  have small: "?i < 2 ^ DefaultHeight" using len ne
    by (metis One_nat_def diff_less length_greater_0_conv lessI less_le_trans)
  then have idx': "int (unat (r_Index r)) = int ?i" and zero: "?i div 2 ^ DefaultHeight = 0"
    using idx by (simp_all add: unat_of_nat_index del: of_nat_diff)
  have "int ?i + 1 = int (length xs)" using ne by (cases xs) simp_all
  with initCache_loop_repr [OF wf, of DefaultHeight "replicate DefaultHeight 0" "r_Hash r" ?i
      "leaves_fun xs" io "aot_Tree t"] zero rep hp Inr idx' assms(2) left_children_cache [OF ne, of K]
  show ?thesis
    by (auto simp: initCache_def synced_def Let_def split: sum.splits simp del: of_nat_diff power_Suc)
qed

section \<open>Adding a leaf\<close>

lemma aot_store:
  assumes inv: "append_inv K db xs" and len: "length xs < 2 ^ DefaultHeight"
    and key: "\<forall>r\<in>set (root_rows db). root_key r < (bn, bp)"
    and safe: "append_safe K db xs leaf"
    and st: "storeNodes io t db1 (append_nodes K xs leaf) = (db2, None)"
    and db1: "db1 = db\<lparr>root_rows := root_rows db @
      [\<lparr>r_Hash = leaves_root K (xs @ [leaf]), r_Index = of_nat (length xs),
        r_BlockNum = bn, r_BlockPosition = bp\<rparr>]\<rparr>"
  shows "append_inv K db2 (xs @ [leaf])"
proof -
  let ?n = "length xs"
  let ?f = "leaves_fun xs"
  let ?rows = "rht_rows db" and ?rows' = "rht_rows db2"
  from storeNodes_ok [OF st] have ext: "extends ?rows (append_nodes K xs leaf) ?rows'"
    and roots: "root_rows db2 = root_rows db1" by (simp_all add: db1)
  from inv have wf: "rht_wf K ?rows" and lenr: "length (root_rows db) = ?n"
    and rok: "\<And>i. i < ?n \<Longrightarrow> root_ok K ?rows xs (root_rows db ! i) i"
    and srt: "sorted_wrt (<) (map root_key (root_rows db))"
    by (auto simp: append_inv_def)
  obtain r where rep: "repr K ?rows DefaultHeight r 0 ?f"
  proof (cases "xs = []")
    case True
    then show ?thesis
      using that repr_zero [OF wf safe_insert_rows [OF safe [unfolded append_safe_def]] order_refl,
          of 0 ?f] by simp
  next
    case False
    then show ?thesis using that rok [of "?n - 1"] by (auto simp: root_ok_def)
  qed
  with wf len ext safe have ps: "path_stored K ?rows r ?f ?n leaf ?rows'"
    by (simp add: path_stored_def append_nodes_def append_safe_def)
  have new: "repr K ?rows' DefaultHeight (leaves_root K (xs @ [leaf])) 0 (leaves_fun (xs @ [leaf]))"
    using path_stored_root [OF ps] by (simp add: leaves_root_def leaves_fun_snoc del: fun_upd_apply)
  have hp: "has_path ?rows' j DefaultHeight (leaves_root K (xs @ [leaf]))" if "j \<le> ?n" for j
  proof -
    from that len have j: "j < 2 ^ DefaultHeight" by simp
    have "j = ?n \<or> has_path ?rows j DefaultHeight (subtree K DefaultHeight 0 ?f)"
    proof (cases "j = ?n")
      case False
      with that have "j \<le> ?n - 1" and "xs \<noteq> []" by auto
      with rok [of "?n - 1"] have "has_path ?rows j DefaultHeight (leaves_root K xs)"
        by (auto simp: root_ok_def)
      then show ?thesis by (simp add: leaves_root_def merkle_root_def)
    qed simp
    with path_stored_has_path [OF ps order_refl, of j] j show ?thesis
      by (simp add: leaves_root_def merkle_root_def leaves_fun_snoc del: fun_upd_apply)
  qed
  have old: "root_ok K ?rows' (xs @ [leaf]) (root_rows db ! i) i" if "i < ?n" for i
    using rok [OF that] that path_stored_old [OF ps] has_path_extends [OF ext]
    by (auto simp: root_ok_def)
  show ?thesis
    unfolding append_inv_def
  proof (intro conjI allI impI)
    fix i assume "i < length (xs @ [leaf])"
    then show "root_ok K ?rows' (xs @ [leaf]) (root_rows db2 ! i) i"
      using old [of i] new hp
      by (cases "i < ?n") (simp_all add: roots db1 nth_append lenr less_Suc_eq, simp add: root_ok_def)
  next
    show "sorted_wrt (<) (map root_key (root_rows db2))"
      using srt key by (auto simp: roots db1 sorted_wrt_append root_key_def)
  qed (use len path_stored_wf [OF ps] lenr in \<open>simp_all add: roots db1\<close>)
qed

lemma AddLeaf_body_eq:
  assumes "synced K t xs" and "lastIndex t + 1 = int (length xs)"
    and "unat (l_Index leaf) = length xs" and "length xs < 2 ^ DefaultHeight"
  shows "AddLeaf_body K io t db bn bp leaf =
    (let t1 = t\<lparr>lastLeftCache := new_cache K xs (l_Hash leaf) (lastLeftCache t) DefaultHeight\<rparr> in
     case storeRoot io (aot_Tree t) db
            \<lparr>r_Hash = leaves_root K (xs @ [l_Hash leaf]), r_Index = of_nat (length xs),
             r_BlockNum = bn, r_BlockPosition = bp\<rparr> of
       (db1, Some e) \<Rightarrow> ((t1, db1, []), Some e)
     | (db1, None) \<Rightarrow>
         (case storeNodes io (aot_Tree t) db1 (append_nodes K xs (l_Hash leaf)) of
            (db2, Some e) \<Rightarrow> ((t1, db2, []), Some e)
          | (db2, None) \<Rightarrow>
              ((t1\<lparr>lastIndex := lastIndex t1 + 1\<rparr>, db2, [DecrementLastIndex]), None)))"
proof -
  have "length xs div 2 ^ DefaultHeight = 0" using assms(4) by simp
  then have "path_root K (length xs) (siblings K DefaultHeight (leaves_fun xs) (length xs))
      DefaultHeight (l_Hash leaf) = leaves_root K (xs @ [l_Hash leaf])"
    using path_root_upd [of DefaultHeight DefaultHeight K "length xs" "leaves_fun xs" "l_Hash leaf"]
    by (simp add: leaves_root_def merkle_root_def leaves_fun_snoc del: fun_upd_apply)
  moreover have "l_Index leaf = of_nat (length xs)"
    using assms(3) by (metis unat_of_nat_index assms(4) word_unat_eq_iff)
  ultimately show ?thesis
    using addLeaf_loop [of K "aot_Tree t" "lastLeftCache t" xs "l_Index leaf" DefaultHeight "l_Hash leaf"]
      assms(1-3)
    by (simp add: AddLeaf_body_def append_nodes_def synced_def Let_def)
qed

text \<open>
  What a call on the expected index does, in the model's terms: it stores the root of the
  longer list, or fails without a new root.
\<close>

definition new_key :: "tree_db \<Rightarrow> u64 \<Rightarrow> u64 \<Rightarrow> bool" where
  "new_key db bn bp \<longleftrightarrow> (\<forall>r\<in>set (root_rows db). root_key r < (bn, bp))"

lemma synced_new_cache:
  "synced K t xs \<Longrightarrow> lastIndex t + 1 = int (length xs) \<Longrightarrow>
   synced K (t\<lparr>lastLeftCache := new_cache K xs x (lastLeftCache t) h\<rparr>) xs"
  by (auto simp: synced_def new_cache_old_ok)

lemma synced_append:
  "synced K t xs \<Longrightarrow> lastIndex t + 1 = int (length xs) \<Longrightarrow>
   synced K (t\<lparr>lastLeftCache := new_cache K xs x (lastLeftCache t) DefaultHeight,
     lastIndex := lastIndex t + 1\<rparr>) (xs @ [x])"
  by (auto simp: synced_def new_cache_ok)

lemma AddLeaf_body_ok:
  assumes "append_inv K db xs" and "synced K t xs" and "lastIndex t + 1 = int (length xs)"
    and "unat (l_Index leaf) = length xs" and "length xs < 2 ^ DefaultHeight"
    and "new_key db bn bp" and "append_safe K db xs (l_Hash leaf)"
  shows "case AddLeaf_body K io t db bn bp leaf of
      ((t', db', cbs), None) \<Rightarrow> append_inv K db' (xs @ [l_Hash leaf]) \<and>
        synced K t' (xs @ [l_Hash leaf]) \<and> lastIndex t' = int (length xs) \<and>
        cbs = [DecrementLastIndex] \<and> synced K (t'\<lparr>lastIndex := lastIndex t' - 1\<rparr>) xs
    | ((t', db', cbs), Some e) \<Rightarrow> synced K t' xs \<and> cbs = [] \<and>
        (e = ErrSQL \<and> \<not> no_faults io \<or>
         e = ErrUniqueConstraint \<and> leaves_root K (xs @ [l_Hash leaf]) \<in> r_Hash ` set (root_rows db))"
proof -
  let ?root = "\<lparr>r_Hash = leaves_root K (xs @ [l_Hash leaf]), r_Index = of_nat (length xs),
      r_BlockNum = bn, r_BlockPosition = bp\<rparr>"
  note eq = AddLeaf_body_eq [OF assms(2-5), of io db bn bp]
  show ?thesis
  proof (cases "storeRoot io (aot_Tree t) db ?root")
    case (Pair db1 r)
    show ?thesis
    proof (cases r)
      case (Some e)
      with Pair have "e = ErrSQL \<and> \<not> no_faults io \<or>
          e = ErrUniqueConstraint \<and> leaves_root K (xs @ [l_Hash leaf]) \<in> r_Hash ` set (root_rows db)"
        by (auto simp: storeRoot_def pk_insert_def no_faults_def split: if_splits)
      with Pair Some synced_new_cache [OF assms(2,3)] show ?thesis by (simp add: eq Let_def)
    next
      case None
      with Pair have db1: "db1 = db\<lparr>root_rows := root_rows db @ [?root]\<rparr>"
        by (auto simp: storeRoot_def pk_insert_def split: if_splits)
      show ?thesis
      proof (cases "storeNodes io (aot_Tree t) db1 (append_nodes K xs (l_Hash leaf))")
        case st: (Pair db2 r2)
        show ?thesis
        proof (cases r2)
          case (Some e)
          with Pair None st storeNodes_error [of io _ db1 _ db2 e] synced_new_cache [OF assms(2,3)]
          show ?thesis by (simp add: eq Let_def)
        next
          case n2: None
          have "append_inv K db2 (xs @ [l_Hash leaf])"
            using aot_store [OF assms(1,5) assms(6) [unfolded new_key_def] assms(7)
                st [unfolded n2] db1] .
          moreover have "synced K (t\<lparr>lastLeftCache :=
              new_cache K xs (l_Hash leaf) (lastLeftCache t) DefaultHeight,
              lastIndex := int (length xs) - 1\<rparr>) xs"
            using synced_new_cache [OF assms(2,3)] assms(3) by (auto simp: synced_def)
          ultimately show ?thesis
            using Pair None st n2 synced_append [OF assms(2,3)] assms(3) by (simp add: eq Let_def)
        qed
      qed
    qed
  qed
qed

lemma AddLeaf_init:
  assumes "append_inv K db xs" and "synced K t xs"
  obtains (body) t1 where "synced K t1 xs" and "lastIndex t1 + 1 = int (length xs)"
      and "AddLeaf K io t db bn bp leaf =
        (if unat (l_Index leaf) = length xs then AddLeaf_body K io t1 db bn bp leaf
         else ((t1, db, []), Some mismatched_index))"
    | (stale) "unat (l_Index leaf) \<noteq> length xs" and "int (unat (l_Index leaf)) = lastIndex t + 1"
    | (fault) t1 where "\<not> no_faults io" and "AddLeaf K io t db bn bp leaf = ((t1, db, []), Some ErrSQL)"
      and "lastLeftCache t1 = lastLeftCache t" and "aot_Tree t1 = aot_Tree t"
proof (cases "int (unat (l_Index leaf)) = lastIndex t + 1")
  case True
  show thesis
  proof (cases "unat (l_Index leaf) = length xs")
    case len: True
    with True assms(2) show ?thesis by (intro body [of t]) (simp_all add: AddLeaf_def)
  next
    case False
    with True show ?thesis by (rule stale [rotated])
  qed
next
  case False
  have t: "tree_ok K (aot_Tree t)" "length (lastLeftCache t) = DefaultHeight"
    using assms(2) by (simp_all add: synced_def)
  show thesis
  proof (cases "initCache io t db")
    case (Pair t1 r)
    show ?thesis
    proof (cases r)
      case None
      with Pair initCache_ok [OF assms(1) t, of io] have
        "synced K t1 xs" and l: "lastIndex t1 + 1 = int (length xs)" by auto
      have "int (unat (l_Index leaf)) = lastIndex t1 + 1 \<longleftrightarrow> unat (l_Index leaf) = length xs"
        unfolding l by (rule of_nat_eq_iff)
      with False Pair None \<open>synced K t1 xs\<close> l show ?thesis
        by (intro body [of t1]) (auto simp: AddLeaf_def simp del: of_nat_unat)
    next
      case (Some e)
      with Pair initCache_ok [OF assms(1) t, of io] False show ?thesis
        by (intro fault [of t1]) (auto simp: AddLeaf_def)
    qed
  qed
qed

section \<open>Reorgs\<close>

lemma filter_sorted_take:
  assumes "sorted_wrt (<) (map root_key rows)"
  shows "filter (\<lambda>r. \<not> b \<le> r_BlockNum r) rows =
    take (length (filter (\<lambda>r. \<not> b \<le> r_BlockNum r) rows)) rows"
  using assms
proof (induction rows)
  case Nil
  then show ?case by simp
next
  case (Cons r rows)
  show ?case
  proof (cases "b \<le> r_BlockNum r")
    case True
    have "b \<le> r_BlockNum q" if "q \<in> set rows" for q
      using Cons.prems that True by (auto simp: root_key_def)
    then have "filter (\<lambda>r. \<not> b \<le> r_BlockNum r) rows = []" by (simp add: filter_empty_conv)
    with True show ?thesis by simp
  next
    case False
    with Cons show ?thesis by simp
  qed
qed

lemma root_ok_take: "i < m \<Longrightarrow> root_ok K rows (take m xs) r i = root_ok K rows xs r i"
  by (simp add: root_ok_def min_absorb1 Suc_leI)

lemma append_inv_take:
  assumes "append_inv K db xs"
  shows "append_inv K (db\<lparr>root_rows := take m (root_rows db)\<rparr>) (take m xs)"
  unfolding append_inv_def
proof (intro conjI allI impI)
  fix i assume i: "i < length (take m xs)"
  then have "root_ok K (rht_rows db) xs (root_rows db ! i) i"
    using assms by (simp add: append_inv_def)
  with i show "root_ok K (rht_rows (db\<lparr>root_rows := take m (root_rows db)\<rparr>)) (take m xs)
      (root_rows (db\<lparr>root_rows := take m (root_rows db)\<rparr>) ! i) i"
    by (simp add: root_ok_take)
next
  show "sorted_wrt (<) (map root_key (root_rows (db\<lparr>root_rows := take m (root_rows db)\<rparr>)))"
    using assms by (simp add: append_inv_def take_map [symmetric] sorted_wrt_take)
qed (use assms in \<open>auto simp: append_inv_def min_def\<close>)

lemma synced_take: "synced K t xs \<Longrightarrow> synced K t (take m xs)"
  by (cases "length xs \<le> m") (auto simp: synced_def)

lemma Tree_Reorg_ok:
  assumes "append_inv K db xs" and "Tree_Reorg io t db b = (db', None)"
  shows "append_inv K db' (take (length (root_rows db')) xs)"
    and "root_rows db' = take (length (root_rows db')) (root_rows db)"
    and "\<forall>r\<in>set (root_rows db'). r_BlockNum r < b"
proof -
  have db': "db' = db\<lparr>root_rows := filter (\<lambda>r. \<not> b \<le> r_BlockNum r) (root_rows db)\<rparr>"
    using assms(2) by (auto simp: Tree_Reorg_def split: if_splits)
  have "sorted_wrt (<) (map root_key (root_rows db))" using assms(1) by (simp add: append_inv_def)
  note eq = filter_sorted_take [OF this, of b]
  show rows: "root_rows db' = take (length (root_rows db')) (root_rows db)"
    unfolding db' by simp (rule eq)
  have "db' = db\<lparr>root_rows := take (length (root_rows db')) (root_rows db)\<rparr>"
    using rows unfolding db' by simp
  then show "append_inv K db' (take (length (root_rows db')) xs)"
    using append_inv_take [OF assms(1)] by metis
  show "\<forall>r\<in>set (root_rows db'). r_BlockNum r < b"
    unfolding db' by auto
qed

section \<open>Roots, leaves and proofs by index\<close>

lemma find_nth:
  "i < length rows \<Longrightarrow> P (rows ! i) \<Longrightarrow> (\<And>j. j < i \<Longrightarrow> \<not> P (rows ! j)) \<Longrightarrow> find P rows = Some (rows ! i)"
  by (simp add: find_Some_iff) blast

lemma GetRootByIndex_inv:
  assumes inv: "append_inv K db xs" and i: "i < length xs" and "no_faults io"
  shows "GetRootByIndex io t db (of_nat i) = Inr (root_rows db ! i)"
proof -
  have idx: "r_Index (root_rows db ! j) = of_nat j" if "j < length xs" for j
    using inv that by (simp add: append_inv_def root_ok_def)
  have "length xs \<le> 2 ^ DefaultHeight" using inv by (simp add: append_inv_def)
  then have inj: "(of_nat j :: u32) \<noteq> of_nat i" if "j < i" for j
    using that i unat_of_nat_index [of j] unat_of_nat_index [of i] by force
  have "find (\<lambda>r. r_Index r = of_nat i) (root_rows db) = Some (root_rows db ! i)"
    using inv i idx inj by (intro find_nth) (auto simp: append_inv_def)
  then show ?thesis using assms(3) by (simp add: GetRootByIndex_def no_faults_def)
qed

section \<open>A call with the next index\<close>

lemma length_index: "unat (l_Index leaf) = length xs \<Longrightarrow> length xs < 2 ^ DefaultHeight"
  using unat_less [of "l_Index leaf"] by (simp add: DefaultHeight_def)

lemma AddLeaf_ok:
  assumes "append_inv K db xs" and "synced K t xs" and "unat (l_Index leaf) = length xs"
    and "new_key db bn bp" and "append_safe K db xs (l_Hash leaf)" and "no_faults io"
    and "leaves_root K (xs @ [l_Hash leaf]) \<notin> r_Hash ` set (root_rows db)"
  shows "\<exists>t' db'. AddLeaf K io t db bn bp leaf = ((t', db', [DecrementLastIndex]), None) \<and>
    append_inv K db' (xs @ [l_Hash leaf]) \<and> synced K t' (xs @ [l_Hash leaf]) \<and>
    lastIndex t' = int (length xs) \<and> synced K (run_tree_callback DecrementLastIndex t') xs"
  using assms(1,2)
proof (cases rule: AddLeaf_init [where io = io and bn = bn and bp = bp and leaf = leaf])
  case (body t1)
  obtain t' db' cbs r where res: "AddLeaf K io t db bn bp leaf = ((t', db', cbs), r)"
    by (metis surj_pair)
  with body(3) assms(3) have b: "AddLeaf_body K io t1 db bn bp leaf = ((t', db', cbs), r)" by simp
  note ok = AddLeaf_body_ok [OF assms(1) body(1,2) assms(3) length_index [OF assms(3)] assms(4,5),
      of io]
  have "r = None" using ok b assms(6,7) by (cases r) auto
  with ok b res show ?thesis by (auto simp: run_tree_callback_def)
qed (use assms(3,6) in auto)

lemma AddLeaf_success:
  assumes "append_inv K db xs" and "synced K t xs" and "unat (l_Index leaf) = length xs"
    and "new_key db bn bp" and "append_safe K db xs (l_Hash leaf)"
    and "AddLeaf K io t db bn bp leaf = ((t', db', cbs), None)"
  shows "append_inv K db' (xs @ [l_Hash leaf]) \<and> synced K t' (xs @ [l_Hash leaf]) \<and>
    root_rows db' = root_rows db @ [\<lparr>r_Hash = leaves_root K (xs @ [l_Hash leaf]),
      r_Index = of_nat (length xs), r_BlockNum = bn, r_BlockPosition = bp\<rparr>]"
  using assms(1,2)
proof (cases rule: AddLeaf_init [where io = io and bn = bn and bp = bp and leaf = leaf])
  case (body t1)
  then have b: "AddLeaf_body K io t1 db bn bp leaf = ((t', db', cbs), None)" using assms(3,6) by simp
  note ok = AddLeaf_body_ok [OF assms(1) body(1,2) assms(3) length_index [OF assms(3)] assms(4,5), of io]
  have "root_rows db' = root_rows db @ [\<lparr>r_Hash = leaves_root K (xs @ [l_Hash leaf]),
      r_Index = of_nat (length xs), r_BlockNum = bn, r_BlockPosition = bp\<rparr>]"
    using b AddLeaf_body_eq [OF body(1,2) assms(3) length_index [OF assms(3)], of io db bn bp]
    by (auto simp: Let_def storeRoot_def pk_insert_Inr split: prod.splits option.splits sum.splits
        dest!: storeNodes_frame)
  with ok b show ?thesis by simp
qed (use assms(3,6) in auto)

lemma last_root_hash:
  assumes "append_inv K db xs" and "xs \<noteq> []" and "no_faults io"
  shows "map_sum id r_Hash (getLastRootWithTx io t db) = Inr (leaves_root K xs)"
proof -
  have "root_ok K (rht_rows db) xs (root_rows db ! (length xs - 1)) (length xs - 1)"
    using assms(1,2) by (simp add: append_inv_def)
  then show ?thesis
    using last_root_row [OF assms(1,2)] assms(2,3)
    by (simp add: getLastRootWithTx_def query_row_def no_faults_def root_ok_def)
qed

text \<open>
  The in-memory part alone decides which root is computed: whatever the tables hold, a tree
  object that is in step with \<open>xs\<close> stores the root of \<open>xs\<close> and the leaf.
\<close>

lemma AddLeaf_match:
  assumes "lastIndex t + 1 = int (length xs)" and "unat (l_Index leaf) = length xs"
  shows "AddLeaf K io t db bn bp leaf = AddLeaf_body K io t db bn bp leaf"
  unfolding AddLeaf_def assms by simp

lemma AddLeaf_direct:
  assumes "synced K t xs" and "lastIndex t + 1 = int (length xs)" and "unat (l_Index leaf) = length xs"
    and "AddLeaf K io t db bn bp leaf = ((t', db', cbs), None)"
  shows "r_Hash (last (root_rows db')) = leaves_root K (xs @ [l_Hash leaf])"
    and "synced K t' (xs @ [l_Hash leaf])" and "lastIndex t' = lastIndex t + 1"
    and "cbs = [DecrementLastIndex]"
    and "lastLeftCache t' = new_cache K xs (l_Hash leaf) (lastLeftCache t) DefaultHeight"
proof -
  note eq = AddLeaf_match [OF assms(2,3), of K io db bn bp, unfolded AddLeaf_body_eq [OF assms(1-3) length_index [OF assms(3)], of io db bn bp]]
  show "synced K t' (xs @ [l_Hash leaf])" and "lastIndex t' = lastIndex t + 1"
    and "cbs = [DecrementLastIndex]"
    and "lastLeftCache t' = new_cache K xs (l_Hash leaf) (lastLeftCache t) DefaultHeight"
    using eq assms(4) synced_append [OF assms(1,2)]
    by (auto simp: Let_def split: prod.splits option.splits)
  show "r_Hash (last (root_rows db')) = leaves_root K (xs @ [l_Hash leaf])"
    using eq assms(4)
    by (auto simp: Let_def storeRoot_def pk_insert_Inr split: prod.splits option.splits sum.splits
        dest!: storeNodes_frame)
qed

lemma AddLeaf_fresh:
  assumes "synced K t xs" and "lastIndex t + 1 = int (length xs)" and "unat (l_Index leaf) = length xs"
    and "no_faults io" and "leaves_root K (xs @ [l_Hash leaf]) \<notin> r_Hash ` set (root_rows db)"
  shows "\<exists>t' db'. AddLeaf K io t db bn bp leaf = ((t', db', [DecrementLastIndex]), None) \<and>
    r_Hash ` set (root_rows db') = insert (leaves_root K (xs @ [l_Hash leaf])) (r_Hash ` set (root_rows db))"
proof -
  let ?db1 = "db\<lparr>root_rows := root_rows db @ [\<lparr>r_Hash = leaves_root K (xs @ [l_Hash leaf]),
      r_Index = of_nat (length xs), r_BlockNum = bn, r_BlockPosition = bp\<rparr>]\<rparr>"
  obtain db' where st: "storeNodes io (aot_Tree t) ?db1 (append_nodes K xs (l_Hash leaf)) = (db', None)"
    using storeNodes_progress [OF assms(4)] by blast
  note eq = AddLeaf_match [OF assms(2,3), of K io db bn bp, unfolded AddLeaf_body_eq [OF assms(1-3) length_index [OF assms(3)], of io db bn bp]]
  show ?thesis
    using eq st assms(4,5) storeNodes_frame [OF st]
    by (auto simp: Let_def storeRoot_def pk_insert_def no_faults_def)
qed

text \<open>A fresh tree object fits any stored list, and empty tables hold the empty list.\<close>

lemma synced_new: "synced K (NewAppendOnlyTree K prefix) xs"
  by (simp add: synced_def NewAppendOnlyTree_def)

lemma append_inv_empty: "append_inv K empty_tree_db []"
  by (simp add: append_inv_def empty_tree_db_def rht_wf_def)

interpretation append_store: merkle_store K "\<lambda>db f. \<exists>xs. append_inv K db xs \<and> f = leaves_fun xs"
  for K
proof
  fix db f
  assume "\<exists>xs. append_inv K db xs \<and> f = leaves_fun xs"
  then obtain xs where inv: "append_inv K db xs" and f: "f = leaves_fun xs" by blast
  show "rht_wf K (rht_rows db)" using inv by (simp add: append_inv_def)
  show "case first_desc root_key (root_rows db) of None \<Rightarrow> f = (\<lambda>_. 0)
    | Some r \<Rightarrow> repr K (rht_rows db) DefaultHeight (r_Hash r) 0 f"
  proof (cases "xs = []")
    case True
    then show ?thesis using inv f by (simp add: append_inv_def)
  next
    case False
    then have "root_ok K (rht_rows db) xs (root_rows db ! (length xs - 1)) (length xs - 1)"
      using inv by (simp add: append_inv_def)
    with False show ?thesis using last_root_row [OF inv False] f by (auto simp: root_ok_def)
  qed
qed

text \<open>Every stored root proves each of its leaves.\<close>

lemma append_proofs_ok:
  assumes "append_inv K db xs" and "tree_ok K t" and "no_faults io" and "j \<le> i" and "i < length xs"
  shows "\<exists>r p. GetRootByIndex io t db (of_nat i) = Inr r \<and> r_Hash r = leaves_root K (take (Suc i) xs) \<and>
    GetLeaf io t (Some db) (of_nat j) (r_Hash r) = Inr (xs ! j) \<and>
    GetProof io t db (of_nat j) (r_Hash r) = Inr p \<and>
    CalculateRoot K (xs ! j) p (of_nat j) = r_Hash r"
proof -
  let ?r = "root_rows db ! i"
  let ?f = "leaves_fun (take (Suc i) xs)"
  have wf: "rht_wf K (rht_rows db)" and ok: "root_ok K (rht_rows db) xs ?r i"
    and len: "length xs \<le> 2 ^ DefaultHeight"
    using assms(1,5) by (simp_all add: append_inv_def)
  then have rep: "repr K (rht_rows db) DefaultHeight (r_Hash ?r) 0 ?f"
    and hp: "has_path (rht_rows db) j DefaultHeight (r_Hash ?r)"
    using assms(4) by (auto simp: root_ok_def)
  have j: "unat (of_nat j :: u32) = j" and small: "j < 2 ^ DefaultHeight"
    using assms(4,5) len by (simp_all add: unat_of_nat_index)
  have leaf: "?f j = xs ! j" using assms(4,5) by (simp add: leaves_fun_def)
  have "GetLeaf io t (Some db) (of_nat j) (r_Hash ?r) = Inr (xs ! j)"
    using GetLeaf_repr [OF wf rep, where io = io and t = t and index = "of_nat j"] assms(3) hp leaf
    by (auto simp: j split: sum.splits)
  moreover have "GetProof io t db (of_nat j) (r_Hash ?r) = Inr (siblings K DefaultHeight ?f j)"
    using GetProof_repr [OF assms(2) wf rep, where io = io and index = "of_nat j"] assms(3)
    by (simp add: j)
  moreover have "CalculateRoot K (xs ! j) (siblings K DefaultHeight ?f j) (of_nat j) = r_Hash ?r"
    using path_root_siblings [OF small, of K ?f] leaf ok
    by (simp add: CalculateRoot_path_root j root_ok_def leaves_root_def)
  ultimately show ?thesis
    using GetRootByIndex_inv [OF assms(1,5,3)] ok by (auto simp: root_ok_def)
qed

section \<open>A sample tree with one leaf\<close>

definition sample_leaf :: Leaf where
  "sample_leaf = \<lparr>l_Index = 0, l_Hash = 1\<rparr>"

definition sample_added :: "(AppendOnlyTree \<times> tree_db \<times> tree_callback list) \<times> error option" where
  "sample_added = AddLeaf sample_keccak (\<lambda>_. False) (NewAppendOnlyTree sample_keccak ''t_'')
     empty_tree_db 1 0 sample_leaf"

definition sample_tree :: AppendOnlyTree where
  "sample_tree = fst (fst sample_added)"

definition sample_db :: tree_db where
  "sample_db = fst (snd (fst sample_added))"

lemma sample_append_safe:
  "sample_leaf_ok x \<Longrightarrow> append_safe sample_keccak empty_tree_db [] (of_nat x)"
  using sample_safe by (simp add: append_safe_def append_nodes_def empty_tree_db_def)

lemma sample_append_safe_1: "append_safe sample_keccak empty_tree_db [] 1"
  using sample_append_safe [of 1] by (simp add: sample_leaf_ok_def)

lemma sample_hyps:
  "new_key empty_tree_db 1 0"
  "leaves_root K ([] @ [x]) \<notin> r_Hash ` set (root_rows empty_tree_db)"
  by (simp_all add: new_key_def empty_tree_db_def)

lemma sample_added_ok:
  "sample_added = ((sample_tree, sample_db, [DecrementLastIndex]), None) \<and>
   append_inv sample_keccak sample_db [1] \<and> synced sample_keccak sample_tree [1] \<and>
   lastIndex sample_tree = 0"
  using AddLeaf_ok [OF append_inv_empty synced_new, of sample_leaf 1 0 sample_keccak "\<lambda>_. False" "''t_''"]
    sample_append_safe_1 sample_hyps
  by (auto simp: sample_added_def sample_tree_def sample_db_def sample_leaf_def)

text \<open>The sample roots of up to four leaves, in closed form.\<close>

lemma sample_subtree:
  assumes "\<And>i. 4 \<le> i \<Longrightarrow> f i = 0"
  shows "subtree sample_keccak (d + 2) 0 f =
    of_nat (sample_z (d + 2)) + 3 ^ d * (9 * f 0 + 15 * f 1 + 15 * f 2 + 25 * f 3)"
proof (induction d)
  case 0
  then show ?case by (simp add: numeral_2_eq_2 algebra_simps) (simp add: numeral_3_eq_3)
next
  case (Suc d)
  have "subtree sample_keccak (d + 2) 1 f = zero_hash sample_keccak (d + 2)"
  proof (rule subtree_zero)
    fix i assume "i \<in> below (d + 2) 1"
    then have "\<not> i < 2 ^ (d + 2)" by (auto simp: below_def)
    moreover have "(4 :: nat) \<le> 2 ^ (d + 2)" by (simp add: power_add)
    ultimately have "4 \<le> i" by linarith
    then show "f i = 0" by (rule assms)
  qed
  then have "subtree sample_keccak (Suc d + 2) 0 f =
      3 * subtree sample_keccak (d + 2) 0 f + 5 * of_nat (sample_z (d + 2)) + 1"
    by (simp add: sample_zero_hash)
  then show ?case by (simp only: Suc.IH) (simp add: algebra_simps)
qed

lemma sample_leaves_root:
  "length xs \<le> 4 \<Longrightarrow> leaves_root sample_keccak xs = of_nat (sample_z 32) +
     3 ^ 30 * (9 * leaves_fun xs 0 + 15 * leaves_fun xs 1 + 15 * leaves_fun xs 2 + 25 * leaves_fun xs 3)"
  using sample_subtree [of "leaves_fun xs" 30]
  by (simp add: leaves_root_def merkle_root_def DefaultHeight_def leaves_fun_beyond)

lemma sample_db_roots: "r_Hash ` set (root_rows sample_db) = {leaves_root sample_keccak [1]}"
proof -
  have "length (root_rows sample_db) = 1" "r_Hash (root_rows sample_db ! 0) = leaves_root sample_keccak [1]"
    using sample_added_ok by (auto simp: append_inv_def root_ok_def)
  then show ?thesis by (cases "root_rows sample_db") auto
qed

section \<open>Properties\<close>

text \<open>C1. Appending a leaf refines appending to the list of leaves: on tables that hold the
  leaves \<open>xs\<close>, with the in-memory cache in step (or marked for a rebuild), \<open>AddLeaf\<close> with the
  next index succeeds, the tables then hold \<open>xs\<close> with the leaf appended (the new last root is
  the Merkle root of that list) and the cache is in step again.\<close>

theorem AddLeaf_appends:
  assumes "append_inv K db xs" and "synced K t xs" and "unat (l_Index leaf) = length xs"
    and "new_key db bn bp" and "append_safe K db xs (l_Hash leaf)" and "no_faults io"
    and "leaves_root K (xs @ [l_Hash leaf]) \<notin> r_Hash ` set (root_rows db)"
  shows "\<exists>t' db'. AddLeaf K io t db bn bp leaf = ((t', db', [DecrementLastIndex]), None) \<and>
    append_inv K db' (xs @ [l_Hash leaf]) \<and> synced K t' (xs @ [l_Hash leaf]) \<and>
    map_sum id r_Hash (getLastRootWithTx io (aot_Tree t') db') =
      Inr (leaves_root K (xs @ [l_Hash leaf]))"
  using AddLeaf_ok [OF assms] last_root_hash [OF _ _ assms(6), of K _ "xs @ [l_Hash leaf]"] by blast

theorem AddLeaf_appends_witness:
  "\<exists>t' db'. AddLeaf sample_keccak (\<lambda>_. False) (NewAppendOnlyTree sample_keccak ''t_'')
       empty_tree_db 1 0 sample_leaf = ((t', db', [DecrementLastIndex]), None) \<and>
     append_inv sample_keccak db' [1] \<and> synced sample_keccak t' [1] \<and>
     map_sum id r_Hash (getLastRootWithTx (\<lambda>_. False) (aot_Tree t') db') =
       Inr (leaves_root sample_keccak [1])"
  using AddLeaf_appends [OF append_inv_empty synced_new, of sample_leaf 1 0 sample_keccak
      "\<lambda>_. False" "''t_''"] sample_append_safe_1 sample_hyps
  by (simp add: sample_leaf_def)

text \<open>A leaf whose index is not the next one is refused: unless the index happens to match
  a stale in-memory counter, \<open>AddLeaf\<close> rebuilds its cache from the tables, reports the
  mismatch, leaves the tables alone and registers no callback.\<close>

theorem AddLeaf_rejects_mismatch:
  assumes "append_inv K db xs" and "synced K t xs" and "no_faults io"
    and "unat (l_Index leaf) \<noteq> length xs" and "int (unat (l_Index leaf)) \<noteq> lastIndex t + 1"
  shows "\<exists>t'. AddLeaf K io t db bn bp leaf = ((t', db, []), Some mismatched_index) \<and>
    synced K t' xs \<and> lastIndex t' + 1 = int (length xs)"
  using assms(1,2)
proof (cases rule: AddLeaf_init [where io = io and bn = bn and bp = bp and leaf = leaf])
  case (body t1)
  with assms(4) show ?thesis by simp
qed (use assms in auto)

theorem AddLeaf_rejects_mismatch_witness:
  "\<exists>t'. AddLeaf sample_keccak (\<lambda>_. False) sample_tree sample_db 2 0 \<lparr>l_Index = 5, l_Hash = 7\<rparr> =
     ((t', sample_db, []), Some mismatched_index) \<and>
   synced sample_keccak t' [1] \<and> lastIndex t' + 1 = int (length [1 :: hash])"
proof (rule AddLeaf_rejects_mismatch)
  show "append_inv sample_keccak sample_db [1]" and "synced sample_keccak sample_tree [1]"
    using sample_added_ok by simp_all
  show "int (unat (l_Index \<lparr>l_Index = 5, l_Hash = 7\<rparr>)) \<noteq> lastIndex sample_tree + 1"
    using sample_added_ok by simp
qed simp_all

text \<open>C10. Every root ever stored keeps proving its leaves: the root found by index \<open>i\<close> is the
  Merkle root of the first \<open>i + 1\<close> leaves, and for each of those leaves \<open>GetLeaf\<close> returns it and
  \<open>GetProof\<close> returns a proof that \<open>CalculateRoot\<close> accepts, also after later leaves.\<close>

theorem append_tree_proofs:
  assumes "append_inv K db xs" and "tree_ok K t" and "no_faults io" and "j \<le> i" and "i < length xs"
  shows "\<exists>r p. GetRootByIndex io t db (of_nat i) = Inr r \<and> r_Hash r = leaves_root K (take (Suc i) xs) \<and>
    GetLeaf io t (Some db) (of_nat j) (r_Hash r) = Inr (xs ! j) \<and>
    GetProof io t db (of_nat j) (r_Hash r) = Inr p \<and>
    CalculateRoot K (xs ! j) p (of_nat j) = r_Hash r"
  by (rule append_proofs_ok [OF assms])

theorem append_tree_proofs_witness:
  "\<exists>r p. GetRootByIndex (\<lambda>_. False) (newTree sample_keccak ''t_'') sample_db (of_nat 0) = Inr r \<and>
     r_Hash r = leaves_root sample_keccak (take (Suc 0) [1]) \<and>
     GetLeaf (\<lambda>_. False) (newTree sample_keccak ''t_'') (Some sample_db) (of_nat 0) (r_Hash r) =
       Inr ([1] ! 0) \<and>
     GetProof (\<lambda>_. False) (newTree sample_keccak ''t_'') sample_db (of_nat 0) (r_Hash r) = Inr p \<and>
     CalculateRoot sample_keccak ([1] ! 0) p (of_nat 0) = r_Hash r"
  by (rule append_tree_proofs) (use sample_added_ok in simp_all)

text \<open>C29. A reorg cuts the tree back: after \<open>Reorg\<close> with block \<open>b\<close> the tables hold a prefix of the
  leaves, exactly the roots of blocks before \<open>b\<close> remain, and the untouched tree object stays
  in step, because its counter no longer matches and forces a rebuild.\<close>

theorem Tree_Reorg_prefix:
  assumes "append_inv K db xs" and "synced K t xs" and "no_faults io"
  shows "\<exists>db' n. Tree_Reorg io (aot_Tree t) db b = (db', None) \<and>
    root_rows db' = take n (root_rows db) \<and>
    set (root_rows db') = {r \<in> set (root_rows db). r_BlockNum r < b} \<and>
    append_inv K db' (take n xs) \<and> synced K t (take n xs)"
proof -
  obtain db' where r: "Tree_Reorg io (aot_Tree t) db b = (db', None)"
    using assms(3) by (auto simp: Tree_Reorg_def no_faults_def)
  then have "set (root_rows db') = {r \<in> set (root_rows db). r_BlockNum r < b}"
    by (auto simp: Tree_Reorg_def split: if_splits)
  with r Tree_Reorg_ok(1,2) [OF assms(1) r] synced_take [OF assms(2)] show ?thesis by blast
qed

theorem Tree_Reorg_prefix_witness:
  "\<exists>db' n. Tree_Reorg (\<lambda>_. False) (aot_Tree sample_tree) sample_db 1 = (db', None) \<and>
     root_rows db' = take n (root_rows sample_db) \<and>
     set (root_rows db') = {r \<in> set (root_rows sample_db). r_BlockNum r < 1} \<and>
     append_inv sample_keccak db' (take n [1]) \<and> synced sample_keccak sample_tree (take n [1])"
  by (rule Tree_Reorg_prefix) (use sample_added_ok in simp_all)

text \<open>A transaction that added one leaf and is rolled back is harmless: with the tables back
  to what they were, running the registered callback puts the tree object in step with the
  shorter list again, although the cache itself is not restored.\<close>

theorem AddLeaf_rollback_one:
  assumes "append_inv K db xs" and "synced K t xs" and "unat (l_Index leaf) = length xs"
    and "new_key db bn bp" and "append_safe K db xs (l_Hash leaf)"
    and "AddLeaf K io t db bn bp leaf = ((t', db', cbs), None)"
  shows "synced K (fold run_tree_callback cbs t') xs"
  using assms(1,2)
proof (cases rule: AddLeaf_init [where io = io and bn = bn and bp = bp and leaf = leaf])
  case (body t1)
  with AddLeaf_body_ok [OF assms(1) body(1,2) assms(3) length_index [OF assms(3)] assms(4,5), of io]
    assms(3,6)
  show ?thesis by (auto simp: run_tree_callback_def)
qed (use assms(3,6) in auto)

theorem AddLeaf_rollback_one_witness:
  "synced sample_keccak (fold run_tree_callback [DecrementLastIndex] sample_tree) []"
proof (rule AddLeaf_rollback_one [where leaf = sample_leaf])
  show "append_inv sample_keccak empty_tree_db []" by (rule append_inv_empty)
  show "synced sample_keccak (NewAppendOnlyTree sample_keccak ''t_'') []" by (rule synced_new)
  show "AddLeaf sample_keccak (\<lambda>_. False) (NewAppendOnlyTree sample_keccak ''t_'') empty_tree_db 1 0
      sample_leaf = ((sample_tree, sample_db, [DecrementLastIndex]), None)"
    using sample_added_ok by (simp add: sample_added_def)
qed (use sample_append_safe_1 sample_hyps in \<open>simp_all add: sample_leaf_def\<close>)

lemma odd_one_div: "odd (Suc 0 div 2 ^ j) \<Longrightarrow> j = 0"
  using one_less_power [of "2 :: nat" j] by (cases "j = 0") simp_all

lemma cache_ok_single: "length c = DefaultHeight \<Longrightarrow> c ! 0 = x \<Longrightarrow> cache_ok K c [x]"
  by (auto simp: cache_ok_def leaves_fun_def dest!: odd_one_div)

text \<open>A transaction that added two leaves and is rolled back leaves a tree object that computes
  wrong roots. With one committed leaf \<open>x0\<close>, two leaves \<open>x1\<close>, \<open>x2\<close> added and rolled back (the
  callbacks only decrement the counter), the next leaf \<open>y\<close> at index 1 is stored under the
  root of the leaves \<open>x2, y\<close>: the cached left sibling is that of the rolled back leaf.\<close>

theorem rollback_two_leaves_wrong_root:
  assumes "synced K t [x0]" and "lastIndex t = 0"
    and "AddLeaf K io t db b1 p1 \<lparr>l_Index = 1, l_Hash = x1\<rparr> = ((t1, db1, cbs1), None)"
    and "AddLeaf K io t1 db1 b2 p2 \<lparr>l_Index = 2, l_Hash = x2\<rparr> = ((t2, db2, cbs2), None)"
    and "AddLeaf K io (fold run_tree_callback (cbs1 @ cbs2) t2) db b3 p3 \<lparr>l_Index = 1, l_Hash = y\<rparr> =
      ((t3, db3, cbs3), None)"
  shows "r_Hash (last (root_rows db3)) = leaves_root K [x2, y]"
proof -
  let ?t = "fold run_tree_callback (cbs1 @ cbs2) t2"
  have i1: "lastIndex t + 1 = int (length [x0])"
      "unat (l_Index \<lparr>l_Index = 1, l_Hash = x1\<rparr>) = length [x0]"
    using assms(2) by simp_all
  note s1 = AddLeaf_direct [OF assms(1) i1 assms(3)]
  have t1: "synced K t1 [x0, x1]" "lastIndex t1 = 1" "cbs1 = [DecrementLastIndex]"
    using s1(2-4) assms(2) by simp_all
  have i2: "lastIndex t1 + 1 = int (length [x0, x1])"
      "unat (l_Index \<lparr>l_Index = 2, l_Hash = x2\<rparr>) = length [x0, x1]"
    using t1(2) by simp_all
  note s2 = AddLeaf_direct [OF t1(1) i2 assms(4)]
  have t2: "synced K t2 [x0, x1, x2]" "lastIndex t2 = 2" "cbs2 = [DecrementLastIndex]"
    and c2: "lastLeftCache t2 = new_cache K [x0, x1] x2 (lastLeftCache t1) DefaultHeight"
    using s2(2-5) t1(2) by simp_all
  have "lastLeftCache t2 ! 0 = x2"
    using t1(1) by (simp add: c2 nth_new_cache synced_def DefaultHeight_def)
  then have "cache_ok K (lastLeftCache t2) [x2]"
    using t2(1) by (intro cache_ok_single) (simp_all add: synced_def)
  moreover have t: "?t = t2\<lparr>lastIndex := 0\<rparr>"
    by (simp add: t1(3) t2(2,3) run_tree_callback_def)
  ultimately have "synced K ?t [x2]" and "lastIndex ?t = 0"
    using t2(1) by (simp_all add: synced_def)
  then have "lastIndex ?t + 1 = int (length [x2])"
      "unat (l_Index \<lparr>l_Index = 1, l_Hash = y\<rparr>) = length [x2]" by simp_all
  from AddLeaf_direct(1) [OF \<open>synced K ?t [x2]\<close> this assms(5)] show ?thesis by simp
qed

text \<open>At the sample tree, with the leaf 1 committed: the leaves 2 and 3 are rolled back, then 2 is
  added again, and the stored root is that of the leaves 3, 2 and not of 1, 2.\<close>

theorem rollback_two_leaves_wrong_root_witness:
  "\<exists>t1 db1 t2 db2 t3 db3.
     AddLeaf sample_keccak (\<lambda>_. False) sample_tree sample_db 2 0 \<lparr>l_Index = 1, l_Hash = 2\<rparr> =
       ((t1, db1, [DecrementLastIndex]), None) \<and>
     AddLeaf sample_keccak (\<lambda>_. False) t1 db1 2 1 \<lparr>l_Index = 2, l_Hash = 3\<rparr> =
       ((t2, db2, [DecrementLastIndex]), None) \<and>
     AddLeaf sample_keccak (\<lambda>_. False)
         (fold run_tree_callback ([DecrementLastIndex] @ [DecrementLastIndex]) t2) sample_db 2 0
         \<lparr>l_Index = 1, l_Hash = 2\<rparr> = ((t3, db3, [DecrementLastIndex]), None) \<and>
     r_Hash (last (root_rows db3)) = leaves_root sample_keccak [3, 2] \<and>
     leaves_root sample_keccak [3, 2] \<noteq> leaves_root sample_keccak [1, 2]"
proof -
  let ?io = "\<lambda>_. False" and ?K = sample_keccak
  note lf = sample_leaves_root leaves_fun_def
  have s: "synced ?K sample_tree [1]" "lastIndex sample_tree = 0" using sample_added_ok by simp_all
  obtain t1 db1 where a1: "AddLeaf ?K ?io sample_tree sample_db 2 0 \<lparr>l_Index = 1, l_Hash = 2\<rparr> =
      ((t1, db1, [DecrementLastIndex]), None)"
    and r1: "r_Hash ` set (root_rows db1) = {leaves_root ?K [1, 2], leaves_root ?K [1]}"
    using AddLeaf_fresh [OF s(1), of "\<lparr>l_Index = 1, l_Hash = 2\<rparr>" ?io sample_db 2 0] s(2)
    by (auto simp: sample_db_roots lf)
  have d1: "synced ?K t1 [1, 2]" "lastIndex t1 = 1"
    using AddLeaf_direct(2,3) [OF s(1) _ _ a1] s(2) by simp_all
  obtain t2 db2 where a2: "AddLeaf ?K ?io t1 db1 2 1 \<lparr>l_Index = 2, l_Hash = 3\<rparr> =
      ((t2, db2, [DecrementLastIndex]), None)"
    using AddLeaf_fresh [OF d1(1), of "\<lparr>l_Index = 2, l_Hash = 3\<rparr>" ?io db1 2 1] d1(2)
    by (auto simp: r1 lf)
  have d2: "synced ?K t2 [1, 2, 3]" "lastIndex t2 = 2"
    and c2: "lastLeftCache t2 = new_cache ?K [1, 2] 3 (lastLeftCache t1) DefaultHeight"
    using AddLeaf_direct(2,3,5) [OF d1(1) _ _ a2] d1(2) by simp_all
  let ?t = "fold run_tree_callback ([DecrementLastIndex] @ [DecrementLastIndex]) t2"
  have "lastLeftCache t2 ! 0 = 3"
    using d1(1) by (simp add: c2 nth_new_cache synced_def DefaultHeight_def)
  then have t: "synced ?K ?t [3]" "lastIndex ?t = 0"
    using d2 cache_ok_single [of "lastLeftCache t2" 3 ?K] by (simp_all add: run_tree_callback_def synced_def)
  obtain t3 db3 where a3: "AddLeaf ?K ?io ?t sample_db 2 0 \<lparr>l_Index = 1, l_Hash = 2\<rparr> =
      ((t3, db3, [DecrementLastIndex]), None)"
    using AddLeaf_fresh [OF t(1), of "\<lparr>l_Index = 1, l_Hash = 2\<rparr>" ?io sample_db 2 0] t(2)
    by (auto simp: sample_db_roots lf)
  from rollback_two_leaves_wrong_root [OF s a1 a2 a3]
  have "r_Hash (last (root_rows db3)) = leaves_root ?K [3, 2]" .
  moreover have "leaves_root ?K [3, 2] \<noteq> leaves_root ?K [1, 2]" by (simp add: lf)
  ultimately show ?thesis using a1 a2 a3 by blast
qed

end
