(* ===== verification/UpdatableTree.thy ===== *)
theory UpdatableTree
  imports AppendOnlyTree
begin

text \<open>
  The updatable tree (\<open>src/tree/updatabletree.go\<close>), which holds the local exit roots of the
  rollups: leaves are set at any index. The specification is a function from positions to
  leaf hashes and \<open>UpsertLeaf\<close> is its update at one position.
\<close>

section \<open>Operations\<close>

record UpdatableTree =
  ut_Tree :: Tree

definition NewUpdatableTree :: "keccak \<Rightarrow> string \<Rightarrow> UpdatableTree" where
  "NewUpdatableTree K dbPrefix = \<lparr>ut_Tree = newTree K dbPrefix\<rparr>"

definition upsertLeaf_level ::
  "keccak \<Rightarrow> Proof \<Rightarrow> u32 \<Rightarrow> hash \<times> TreeNode list \<Rightarrow> nat \<Rightarrow> hash \<times> TreeNode list"
where
  "upsertLeaf_level K sibs index s h =
     (case s of (currentChildHash, newNodes) \<Rightarrow>
        let parent = (if index AND push_bit h 1 > 0
                      then newTreeNode K (sibs ! h) currentChildHash
                      else newTreeNode K currentChildHash (sibs ! h))
        in (n_Hash parent, newNodes @ [parent]))"

definition UpsertLeaf ::
  "keccak \<Rightarrow> io \<Rightarrow> UpdatableTree \<Rightarrow> tree_db \<Rightarrow> u64 \<Rightarrow> u64 \<Rightarrow> Leaf \<Rightarrow> tree_db \<times> (error + hash)"
where
  "UpsertLeaf K io t db blockNum blockPosition leaf =
     (let rootHash =
        (case getLastRootWithTx io (ut_Tree t) db of
           Inl e \<Rightarrow> if e = ErrNotFound then Inr (zeroHashes (ut_Tree t) ! DefaultHeight) else Inl e
         | Inr root \<Rightarrow> Inr (r_Hash root)) in
      case rootHash of
        Inl e \<Rightarrow> (db, Inl e)
      | Inr rh \<Rightarrow>
          (case getSiblings io (ut_Tree t) db (l_Index leaf) rh of
             Inl e \<Rightarrow> (db, Inl e)
           | Inr (sibs, _) \<Rightarrow>
               (case foldl (upsertLeaf_level K sibs (l_Index leaf)) (l_Hash leaf, [])
                       [0..<DefaultHeight] of
                  (currentChildHash, newNodes) \<Rightarrow>
                    (case storeRoot io (ut_Tree t) db
                            \<lparr>r_Hash = currentChildHash, r_Index = l_Index leaf,
                             r_BlockNum = blockNum, r_BlockPosition = blockPosition\<rparr> of
                       (db1, Some e) \<Rightarrow> (db1, Inl e)
                     | (db1, None) \<Rightarrow>
                         (case storeNodes io (ut_Tree t) db1 newNodes of
                            (db2, Some e) \<Rightarrow> (db2, Inl e)
                          | (db2, None) \<Rightarrow> (db2, Inr currentChildHash))))))"

section \<open>The specification: a function of positions\<close>

definition upd_inv :: "keccak \<Rightarrow> tree_db \<Rightarrow> (nat \<Rightarrow> hash) \<Rightarrow> bool" where
  "upd_inv K db f \<longleftrightarrow> rht_wf K (rht_rows db) \<and>
     (case first_desc root_key (root_rows db) of
        None \<Rightarrow> f = (\<lambda>_. 0)
      | Some r \<Rightarrow> repr K (rht_rows db) DefaultHeight (r_Hash r) 0 f)"

interpretation upd_store: merkle_store K "upd_inv K" for K
  by unfold_locales (simp_all add: upd_inv_def)

definition upsert_nodes :: "keccak \<Rightarrow> (nat \<Rightarrow> hash) \<Rightarrow> Leaf \<Rightarrow> TreeNode list" where
  "upsert_nodes K f leaf = path_nodes K (unat (l_Index leaf))
     (siblings K DefaultHeight f (unat (l_Index leaf))) (l_Hash leaf) DefaultHeight"

definition upsert_safe :: "keccak \<Rightarrow> tree_db \<Rightarrow> (nat \<Rightarrow> hash) \<Rightarrow> Leaf \<Rightarrow> bool" where
  "upsert_safe K db f leaf \<longleftrightarrow> safe_insert K (rht_rows db) (upsert_nodes K f leaf)"

lemma upsertLeaf_loop:
  "foldl (upsertLeaf_level K sibs index) (leaf, []) [0..<h] =
     (path_root K (unat index) sibs h leaf, path_nodes K (unat index) sibs leaf h)"
  by (induction h)
     (simp_all add: upsertLeaf_level_def path_nodes_Suc path_node_def bit_odd_div join_step_def,
      simp add: path_nodes_def)

lemma upd_inv_root:
  assumes "upd_inv K db f" and "tree_ok K (ut_Tree t)" and "no_faults io"
    and "collision_free K (node_pairs (rht_rows db) \<union> zero_pairs K DefaultHeight)"
  shows "\<exists>rh. (case getLastRootWithTx io (ut_Tree t) db of
           Inl e \<Rightarrow> if e = ErrNotFound then Inr (zeroHashes (ut_Tree t) ! DefaultHeight) else Inl e
         | Inr root \<Rightarrow> Inr (r_Hash root)) = Inr rh \<and> repr K (rht_rows db) DefaultHeight rh 0 f"
proof (cases "first_desc root_key (root_rows db)")
  case None
  with assms(1) have f: "f = (\<lambda>_. 0)" and wf: "rht_wf K (rht_rows db)" by (simp_all add: upd_inv_def)
  have "repr K (rht_rows db) DefaultHeight (zero_hash K DefaultHeight) 0 f"
    by (rule repr_zero [OF wf assms(4)]) (simp_all add: f)
  with None assms(2,3) show ?thesis
    by (simp add: getLastRootWithTx_def query_row_def no_faults_def zeroHashes_nth)
next
  case (Some r)
  with assms(1,3) show ?thesis
    by (auto simp: getLastRootWithTx_def query_row_def no_faults_def upd_inv_def)
qed

lemma UpsertLeaf_ok:
  assumes inv: "upd_inv K db f" and t: "tree_ok K (ut_Tree t)" and io: "no_faults io"
    and key: "new_key db bn bp" and safe: "upsert_safe K db f leaf"
    and new: "merkle_root K DefaultHeight (f(unat (l_Index leaf) := l_Hash leaf)) \<notin>
      r_Hash ` set (root_rows db)"
  shows "\<exists>db'. UpsertLeaf K io t db bn bp leaf =
      (db', Inr (merkle_root K DefaultHeight (f(unat (l_Index leaf) := l_Hash leaf)))) \<and>
    upd_inv K db' (f(unat (l_Index leaf) := l_Hash leaf)) \<and>
    set (rht_rows db') \<subseteq> set (rht_rows db) \<union> set (upsert_nodes K f leaf) \<and>
    r_Hash (last (root_rows db')) =
      merkle_root K DefaultHeight (f(unat (l_Index leaf) := l_Hash leaf)) \<and> root_rows db' \<noteq> []"
proof -
  let ?i = "unat (l_Index leaf)"
  let ?g = "f(?i := l_Hash leaf)"
  let ?root = "\<lparr>r_Hash = merkle_root K DefaultHeight ?g, r_Index = l_Index leaf,
    r_BlockNum = bn, r_BlockPosition = bp\<rparr>"
  let ?db1 = "db\<lparr>root_rows := root_rows db @ [?root]\<rparr>"
  have small: "?i < 2 ^ DefaultHeight"
    using unat_less [of "l_Index leaf"] by (simp add: DefaultHeight_def)
  have wf: "rht_wf K (rht_rows db)" using inv by (simp add: upd_inv_def)
  obtain rh where rh: "(case getLastRootWithTx io (ut_Tree t) db of
           Inl e \<Rightarrow> if e = ErrNotFound then Inr (zeroHashes (ut_Tree t) ! DefaultHeight) else Inl e
         | Inr root \<Rightarrow> Inr (r_Hash root)) = Inr rh" and rep: "repr K (rht_rows db) DefaultHeight rh 0 f"
    using upd_inv_root [OF inv t io safe_insert_rows [OF safe [unfolded upsert_safe_def]]] by blast
  obtain u where sibs: "getSiblings io (ut_Tree t) db (l_Index leaf) rh =
      Inr (siblings K DefaultHeight f ?i, u)"
    using getSiblings_repr [OF t wf rep, where io = io and index = "l_Index leaf"] io
    by (auto split: sum.splits)
  have pr: "path_root K ?i (siblings K DefaultHeight f ?i) DefaultHeight (l_Hash leaf) =
      merkle_root K DefaultHeight ?g"
    using path_root_upd [of DefaultHeight DefaultHeight K ?i f "l_Hash leaf"]
    by (simp add: merkle_root_def del: fun_upd_apply)
  obtain db' where st: "storeNodes io (ut_Tree t) ?db1 (upsert_nodes K f leaf) = (db', None)"
    using storeNodes_progress [OF io] by blast
  have ext: "extends (rht_rows db) (upsert_nodes K f leaf) (rht_rows db')"
    and roots: "root_rows db' = root_rows db @ [?root]"
    using storeNodes_ok [OF st] by simp_all
  have ps: "path_stored K (rht_rows db) rh f ?i (l_Hash leaf) (rht_rows db')"
    using wf rep small ext safe by (simp add: path_stored_def upsert_nodes_def upsert_safe_def)
  have "first_desc root_key (root_rows db') = Some ?root"
    using key unfolding roots by (intro first_desc_append_greatest) (auto simp: new_key_def root_key_def)
  then have "upd_inv K db' ?g"
    using path_stored_wf [OF ps] path_stored_root [OF ps] by (simp add: upd_inv_def del: fun_upd_apply)
  moreover have "UpsertLeaf K io t db bn bp leaf = (db', Inr (merkle_root K DefaultHeight ?g))"
    using rh sibs st new io
    by (simp add: UpsertLeaf_def upsertLeaf_loop pr upsert_nodes_def [symmetric] storeRoot_def
        pk_insert_def no_faults_def del: fun_upd_apply)
  ultimately show ?thesis using ext roots by (auto simp: extends_def simp del: fun_upd_apply)
qed

lemma UpsertLeaf_repeated:
  assumes inv: "upd_inv K db f" and t: "tree_ok K (ut_Tree t)" and io: "no_faults io"
    and safe: "upsert_safe K db f leaf"
    and old: "merkle_root K DefaultHeight (f(unat (l_Index leaf) := l_Hash leaf)) \<in>
      r_Hash ` set (root_rows db)"
  shows "UpsertLeaf K io t db bn bp leaf = (db, Inl ErrUniqueConstraint)"
proof -
  let ?i = "unat (l_Index leaf)"
  have wf: "rht_wf K (rht_rows db)" using inv by (simp add: upd_inv_def)
  obtain rh where rh: "(case getLastRootWithTx io (ut_Tree t) db of
           Inl e \<Rightarrow> if e = ErrNotFound then Inr (zeroHashes (ut_Tree t) ! DefaultHeight) else Inl e
         | Inr root \<Rightarrow> Inr (r_Hash root)) = Inr rh" and rep: "repr K (rht_rows db) DefaultHeight rh 0 f"
    using upd_inv_root [OF inv t io safe_insert_rows [OF safe [unfolded upsert_safe_def]]] by blast
  obtain u where sibs: "getSiblings io (ut_Tree t) db (l_Index leaf) rh =
      Inr (siblings K DefaultHeight f ?i, u)"
    using getSiblings_repr [OF t wf rep, where io = io and index = "l_Index leaf"] io
    by (auto split: sum.splits)
  have pr: "path_root K ?i (siblings K DefaultHeight f ?i) DefaultHeight (l_Hash leaf) =
      merkle_root K DefaultHeight (f(?i := l_Hash leaf))"
    using path_root_upd [of DefaultHeight DefaultHeight K ?i f "l_Hash leaf"]
    by (simp add: merkle_root_def del: fun_upd_apply)
  show ?thesis
    using rh sibs old io
    by (simp add: UpsertLeaf_def upsertLeaf_loop pr storeRoot_def pk_insert_def no_faults_def
        del: fun_upd_apply)
qed

section \<open>A sample tree with one leaf set\<close>

definition sample_rollups :: tree_db where
  "sample_rollups = fst (UpsertLeaf sample_keccak (\<lambda>_. False) (NewUpdatableTree sample_keccak ''r_'')
     empty_tree_db 1 0 sample_leaf)"

lemma sample_new_ok: "tree_ok K (ut_Tree (NewUpdatableTree K p))"
  by (simp add: NewUpdatableTree_def)

lemma upd_inv_empty: "upd_inv K empty_tree_db (\<lambda>_. 0)"
  by (simp add: upd_inv_def empty_tree_db_def rht_wf_def)

lemma sample_upsert_safe: "upsert_safe sample_keccak empty_tree_db (\<lambda>_. 0) sample_leaf"
  using sample_safe [of 1]
  by (simp add: upsert_safe_def upsert_nodes_def empty_tree_db_def sample_leaf_def sample_leaf_ok_def)

lemma sample_rollups_ok:
  "UpsertLeaf sample_keccak (\<lambda>_. False) (NewUpdatableTree sample_keccak ''r_'') empty_tree_db 1 0
     sample_leaf =
     (sample_rollups, Inr (merkle_root sample_keccak DefaultHeight ((\<lambda>_. 0)(0 := 1)))) \<and>
   upd_inv sample_keccak sample_rollups ((\<lambda>_. 0)(0 := 1)) \<and>
   set (rht_rows sample_rollups) \<subseteq> set (upsert_nodes sample_keccak (\<lambda>_. 0) sample_leaf) \<and>
   r_Hash (last (root_rows sample_rollups)) =
     merkle_root sample_keccak DefaultHeight ((\<lambda>_. 0)(0 := 1)) \<and> root_rows sample_rollups \<noteq> []"
  using UpsertLeaf_ok [OF upd_inv_empty sample_new_ok, of "\<lambda>_. False" 1 0 sample_keccak sample_leaf
      "''r_''"] sample_upsert_safe sample_hyps(1)
  by (auto simp: sample_rollups_def sample_leaf_def empty_tree_db_def simp del: fun_upd_apply)

section \<open>Properties\<close>

text \<open>C28. Setting a leaf refines updating a function: on tables that hold the leaves \<open>f\<close>,
  \<open>UpsertLeaf\<close> returns the Merkle root of \<open>f\<close> changed at the leaf's index, and the tables then
  hold the changed function.\<close>

theorem UpsertLeaf_updates:
  assumes "upd_inv K db f" and "tree_ok K (ut_Tree t)" and "no_faults io" and "new_key db bn bp"
    and "upsert_safe K db f leaf"
    and "merkle_root K DefaultHeight (f(unat (l_Index leaf) := l_Hash leaf)) \<notin>
      r_Hash ` set (root_rows db)"
  shows "\<exists>db'. UpsertLeaf K io t db bn bp leaf =
      (db', Inr (merkle_root K DefaultHeight (f(unat (l_Index leaf) := l_Hash leaf)))) \<and>
    upd_inv K db' (f(unat (l_Index leaf) := l_Hash leaf))"
  using UpsertLeaf_ok [OF assms] by blast

theorem UpsertLeaf_updates_witness:
  "\<exists>db'. UpsertLeaf sample_keccak (\<lambda>_. False) (NewUpdatableTree sample_keccak ''r_'') empty_tree_db
       1 0 sample_leaf =
     (db', Inr (merkle_root sample_keccak DefaultHeight
       ((\<lambda>_. 0)(unat (l_Index sample_leaf) := l_Hash sample_leaf)))) \<and>
   upd_inv sample_keccak db' ((\<lambda>_. 0)(unat (l_Index sample_leaf) := l_Hash sample_leaf))"
  by (rule UpsertLeaf_updates)
    (simp_all add: upd_inv_empty sample_new_ok sample_upsert_safe sample_hyps(1) del: fun_upd_apply,
     simp add: empty_tree_db_def)

text \<open>A tree cannot return to a root it had before: when the resulting root hash is already
  stored, for instance when a leaf is set to the value it has, \<open>UpsertLeaf\<close> fails on the
  primary key of the root table and the tables are unchanged.\<close>

theorem UpsertLeaf_known_root_fails:
  assumes "upd_inv K db f" and "tree_ok K (ut_Tree t)" and "no_faults io"
    and "upsert_safe K db f leaf"
    and "merkle_root K DefaultHeight (f(unat (l_Index leaf) := l_Hash leaf)) \<in>
      r_Hash ` set (root_rows db)"
  shows "UpsertLeaf K io t db bn bp leaf = (db, Inl ErrUniqueConstraint)"
  by (rule UpsertLeaf_repeated [OF assms])

theorem UpsertLeaf_known_root_fails_witness:
  "UpsertLeaf sample_keccak (\<lambda>_. False) (NewUpdatableTree sample_keccak ''r_'') sample_rollups 2 0
     sample_leaf = (sample_rollups, Inl ErrUniqueConstraint)"
proof (rule UpsertLeaf_known_root_fails)
  let ?f = "(\<lambda>_. 0)(0 := 1) :: nat \<Rightarrow> hash"
  show "upd_inv sample_keccak sample_rollups ?f" using sample_rollups_ok by blast
  have nodes: "upsert_nodes sample_keccak ?f sample_leaf = upsert_nodes sample_keccak (\<lambda>_. 0) sample_leaf"
    by (simp add: upsert_nodes_def sample_leaf_def del: fun_upd_apply)
  let ?n = "upsert_nodes sample_keccak (\<lambda>_. 0) sample_leaf"
  have pairs: "node_pairs ?n = sample_pair 1 ` {..<DefaultHeight}"
    using sample_path_pairs [of DefaultHeight 1] by (simp add: upsert_nodes_def sample_leaf_def)
  have rows: "set (rht_rows sample_rollups) \<subseteq> set ?n \<and>
      merkle_root sample_keccak DefaultHeight ?f \<in> r_Hash ` set (root_rows sample_rollups)"
    using sample_rollups_ok by (auto simp: image_iff simp del: fun_upd_apply intro: bexI [OF _ last_in_set])
  show "upsert_safe sample_keccak sample_rollups ?f sample_leaf"
    unfolding upsert_safe_def safe_insert_def nodes
  proof (rule sample_collision_free)
    have "node_pairs (rht_rows sample_rollups) \<subseteq> node_pairs ?n"
      using rows by (auto simp: node_pairs_def)
    show "sample_leaf_ok 1" by (simp add: sample_leaf_ok_def)
    from \<open>node_pairs (rht_rows sample_rollups) \<subseteq> node_pairs ?n\<close>
    show "node_pairs (rht_rows sample_rollups) \<union> node_pairs ?n \<union>
        zero_pairs sample_keccak DefaultHeight \<subseteq> (\<Union>a\<in>{0, 1}. sample_pair a ` {..<DefaultHeight})"
      unfolding pairs sample_zero_pairs by auto
  qed
  show "merkle_root sample_keccak DefaultHeight
      (?f(unat (l_Index sample_leaf) := l_Hash sample_leaf)) \<in> r_Hash ` set (root_rows sample_rollups)"
    using rows by (simp add: sample_leaf_def del: fun_upd_apply) 
qed (simp_all add: sample_new_ok)

text \<open>The rollup exit tree proves every leaf of its current root: for every index, present or
  not, the proof read from the last root recomputes it from the leaf the tables hold.\<close>

theorem upd_last_root_proof:
  assumes "upd_inv K db f" and "tree_ok K t" and "no_faults io" and "getLastRootWithTx io t db = Inr r"
  shows "r_Hash r = merkle_root K DefaultHeight f \<and>
    (\<exists>p. GetProof io t db index (r_Hash r) = Inr p \<and> length p = DefaultHeight \<and>
       CalculateRoot K (f (unat index)) p index = r_Hash r)"
  using upd_store.last_root_proof [OF assms] upd_store.last_root_hash_eq [OF assms(1,4)] by blast

theorem upd_last_root_proof_witness:
  "\<exists>r. getLastRootWithTx (\<lambda>_. False) (newTree sample_keccak ''r_'') sample_rollups = Inr r \<and>
     r_Hash r = merkle_root sample_keccak DefaultHeight ((\<lambda>_. 0)(0 := 1)) \<and>
     (\<exists>p. GetProof (\<lambda>_. False) (newTree sample_keccak ''r_'') sample_rollups 0 (r_Hash r) = Inr p \<and>
        length p = DefaultHeight \<and> CalculateRoot sample_keccak (((\<lambda>_. 0)(0 := 1)) (unat (0 :: u32))) p 0 = r_Hash r)"
proof -
  have inv: "upd_inv sample_keccak sample_rollups ((\<lambda>_. 0)(0 := 1))" and "root_rows sample_rollups \<noteq> []"
    using sample_rollups_ok by simp_all
  then obtain r where "first_desc root_key (root_rows sample_rollups) = Some r"
    by (metis first_desc_None option.exhaust)
  then have r: "getLastRootWithTx (\<lambda>_. False) (newTree sample_keccak ''r_'') sample_rollups = Inr r"
    by (simp add: getLastRootWithTx_def)
  with upd_last_root_proof [OF inv tree_ok_newTree no_faults_False r, of 0] show ?thesis by blast
qed

end
