(* ===== verification/L1InfoTree.thy ===== *)
theory L1InfoTree
  imports AppendOnlyTree
begin

text \<open>
  The in-memory L1 info tree of the aggregator (\<open>src/l1infotree\<close>): the root and the proofs are
  rebuilt from the list of leaves, and \<open>AddLeaf\<close> advances the root incrementally from the
  siblings of the next leaf. The specification is the same \<open>merkle_root\<close> that the persistent
  trees are measured against, so that the two implementations can be compared.
\<close>

section \<open>Data and operations\<close>

record L1InfoTree =
  mt_height :: u8
  mt_zeroHashes :: "hash list"
  mt_count :: u32
  mt_siblings :: "hash list"
  mt_currentRoot :: hash

definition Hash :: "keccak \<Rightarrow> hash list \<Rightarrow> hash" where
  "Hash K data = K (concat (map hash_bytes data))"

definition l1_generateZeroHashes :: "keccak \<Rightarrow> u8 \<Rightarrow> hash list" where
  "l1_generateZeroHashes K height =
     foldl (\<lambda>zs i. zs @ [Hash K [zs ! (i - 1), zs ! (i - 1)]]) [0] [1..<Suc (unat height)]"

definition HashLeafData :: "keccak \<Rightarrow> hash \<Rightarrow> hash \<Rightarrow> u64 \<Rightarrow> hash" where
  "HashLeafData K ger prevBlockHash minTimestamp =
     K (hash_bytes ger @ hash_bytes prevBlockHash @ be_bytes 8 minTimestamp)"

text \<open>A node is its hash and its two children; an odd number of leaves is out of range.\<close>

fun buildIntermediate :: "keccak \<Rightarrow> hash list \<Rightarrow> error + (hash \<times> hash \<times> hash) list \<times> hash list" where
  "buildIntermediate K [] = Inr ([], [])"
| "buildIntermediate K [l] = Inl ErrPanic"
| "buildIntermediate K (l # r # leaves) =
     (case buildIntermediate K leaves of
        Inl e \<Rightarrow> Inl e
      | Inr (nodes, hashes) \<Rightarrow>
          let hash = Hash K [l, r] in Inr ((hash, l, r) # nodes, hash # hashes))"

definition pad_level :: "L1InfoTree \<Rightarrow> nat \<Rightarrow> hash list \<Rightarrow> hash list" where
  "pad_level mt h leaves =
     (if length leaves mod 2 = 1 then leaves @ [mt_zeroHashes mt ! h] else leaves)"

text \<open>The loops run \<open>n\<close> more levels, starting at level \<open>h\<close>.\<close>

fun BuildL1InfoRoot_loop ::
  "keccak \<Rightarrow> L1InfoTree \<Rightarrow> nat \<Rightarrow> nat \<Rightarrow> hash list \<Rightarrow> (hash \<times> hash \<times> hash) list \<Rightarrow>
   error + (hash \<times> hash \<times> hash) list"
where
  "BuildL1InfoRoot_loop K mt h 0 leaves ns = Inr ns"
| "BuildL1InfoRoot_loop K mt h (Suc n) leaves ns =
     (case buildIntermediate K (pad_level mt h leaves) of
        Inl e \<Rightarrow> Inl e
      | Inr (ns', leaves') \<Rightarrow> BuildL1InfoRoot_loop K mt (Suc h) n leaves' ns')"

definition more_than_one_root :: error where
  "more_than_one_root = ErrMsg ''error: more than one root detected''"

definition BuildL1InfoRoot :: "keccak \<Rightarrow> L1InfoTree \<Rightarrow> hash list \<Rightarrow> error + hash" where
  "BuildL1InfoRoot K mt leaves =
     (let leaves' = (if leaves = [] then [mt_zeroHashes mt ! 0] else leaves) in
      case BuildL1InfoRoot_loop K mt 0 (unat (mt_height mt)) leaves' [] of
        Inl e \<Rightarrow> Inl e
      | Inr ns \<Rightarrow> if length ns \<noteq> 1 then Inl more_than_one_root else Inr (fst (ns ! 0)))"

fun ComputeMerkleProof_loop ::
  "keccak \<Rightarrow> L1InfoTree \<Rightarrow> nat \<Rightarrow> nat \<Rightarrow> u32 \<Rightarrow> hash list \<Rightarrow> hash list \<Rightarrow>
   (hash \<times> hash \<times> hash) list \<Rightarrow> error + hash list \<times> (hash \<times> hash \<times> hash) list"
where
  "ComputeMerkleProof_loop K mt h 0 index leaves sibs ns = Inr (sibs, ns)"
| "ComputeMerkleProof_loop K mt h (Suc n) index leaves sibs ns =
     (let leaves' = pad_level mt h leaves;
          sib = (if index \<ge> of_nat (length leaves') then mt_zeroHashes mt ! h
                 else if index mod 2 = 1 then leaves' ! unat (index - 1)
                 else leaves' ! unat (index + 1))
      in case buildIntermediate K leaves' of
           Inl e \<Rightarrow> Inl e
         | Inr (nsi, hashes) \<Rightarrow>
             ComputeMerkleProof_loop K mt (Suc h) n (index div 2) hashes (sibs @ [sib]) nsi)"

definition ComputeMerkleProof ::
  "keccak \<Rightarrow> L1InfoTree \<Rightarrow> u32 \<Rightarrow> hash list \<Rightarrow> error + hash list \<times> hash"
where
  "ComputeMerkleProof K mt gerIndex leaves =
     (let leaves' = (if leaves = [] then [mt_zeroHashes mt ! 0] else leaves) in
      case ComputeMerkleProof_loop K mt 0 (unat (mt_height mt)) gerIndex leaves' [] [] of
        Inl e \<Rightarrow> Inl e
      | Inr (sibs, ns) \<Rightarrow>
          if length ns \<noteq> 1 then Inl more_than_one_root else Inr (sibs, fst (ns ! 0)))"

definition initSiblings :: "keccak \<Rightarrow> L1InfoTree \<Rightarrow> hash list \<Rightarrow> error + hash list \<times> hash" where
  "initSiblings K mt initialLeaves =
     (if mt_count mt \<noteq> of_nat (length initialLeaves)
      then Inl (ErrMsg ''error: mt.count and initialLeaves length mismatch'')
      else if mt_count mt = 0
      then let sibs = map (\<lambda>h. mt_zeroHashes mt ! h) [0..<unat (mt_height mt)] in
           (case BuildL1InfoRoot K mt initialLeaves of
              Inl e \<Rightarrow> Inl e
            | Inr root \<Rightarrow> Inr (sibs, root))
      else ComputeMerkleProof K mt (mt_count mt) initialLeaves)"

definition NewL1InfoTree :: "keccak \<Rightarrow> u8 \<Rightarrow> hash list \<Rightarrow> error + L1InfoTree" where
  "NewL1InfoTree K height initialLeaves =
     (let mt = \<lparr>mt_height = height, mt_zeroHashes = l1_generateZeroHashes K height,
                mt_count = of_nat (length initialLeaves), mt_siblings = [], mt_currentRoot = 0\<rparr> in
      case initSiblings K mt initialLeaves of
        Inl e \<Rightarrow> Inl e
      | Inr (sibs, root) \<Rightarrow> Inr (mt\<lparr>mt_siblings := sibs, mt_currentRoot := root\<rparr>))"

definition ResetL1InfoTree :: "keccak \<Rightarrow> L1InfoTree \<Rightarrow> hash list \<Rightarrow> error + L1InfoTree" where
  "ResetL1InfoTree K mt initialLeaves =
     (let newMT = \<lparr>mt_height = 32, mt_zeroHashes = l1_generateZeroHashes K 32,
                   mt_count = of_nat (length initialLeaves), mt_siblings = [], mt_currentRoot = 0\<rparr> in
      case initSiblings K newMT initialLeaves of
        Inl e \<Rightarrow> Inl e
      | Inr (sibs, root) \<Rightarrow> Inr (newMT\<lparr>mt_siblings := sibs, mt_currentRoot := root\<rparr>))"

definition l1_addLeaf_level ::
  "keccak \<Rightarrow> L1InfoTree \<Rightarrow> u32 \<Rightarrow> hash \<times> hash list \<times> bool \<Rightarrow> nat \<Rightarrow> hash \<times> hash list \<times> bool"
where
  "l1_addLeaf_level K mt index s h =
     (case s of (cur, sibs, isFilledSubTree) \<Rightarrow>
        if index AND push_bit h 1 > 0
        then (Hash K [sibs ! h, cur], sibs, isFilledSubTree)
        else (Hash K [cur, mt_zeroHashes mt ! h],
              if isFilledSubTree then sibs[h := cur] else sibs, False))"

definition l1_AddLeaf :: "keccak \<Rightarrow> L1InfoTree \<Rightarrow> u32 \<Rightarrow> hash \<Rightarrow> L1InfoTree \<times> (error + hash)" where
  "l1_AddLeaf K mt index leaf =
     (if index \<noteq> mt_count mt then (mt, Inl (ErrMsg ''mismatched leaf count''))
      else case foldl (l1_addLeaf_level K mt index) (leaf, mt_siblings mt, True)
                  [0..<unat (mt_height mt)] of
             (cur, sibs, _) \<Rightarrow>
               (mt\<lparr>mt_siblings := sibs, mt_currentRoot := cur, mt_count := mt_count mt + 1\<rparr>, Inr cur))"

definition GetCurrentRootCountAndSiblings :: "L1InfoTree \<Rightarrow> hash \<times> u32 \<times> hash list" where
  "GetCurrentRootCountAndSiblings mt = (mt_currentRoot mt, mt_count mt, mt_siblings mt)"

section \<open>Levels of the tree as lists\<close>

lemma Hash_pair [simp]: "Hash K [l, r] = node_hash K l r"
  by (simp add: Hash_def node_hash_def)

lemma l1_generateZeroHashes_eq: "l1_generateZeroHashes K height = map (zero_hash K) [0..<Suc (unat height)]"
  using generateZeroHashes_eq [of K "unat height"]
  by (simp add: l1_generateZeroHashes_def generateZeroHashes_def node_hash_def)

definition mt_ok :: "keccak \<Rightarrow> L1InfoTree \<Rightarrow> bool" where
  "mt_ok K mt \<longleftrightarrow> mt_zeroHashes mt = map (zero_hash K) [0..<Suc (unat (mt_height mt))]"

lemma mt_zeroHashes_nth: "mt_ok K mt \<Longrightarrow> h \<le> unat (mt_height mt) \<Longrightarrow> mt_zeroHashes mt ! h = zero_hash K h"
  by (simp add: mt_ok_def del: upt_Suc)

definition level_ok :: "keccak \<Rightarrow> nat \<Rightarrow> hash list \<Rightarrow> (nat \<Rightarrow> hash) \<Rightarrow> bool" where
  "level_ok K h ls f \<longleftrightarrow> ls \<noteq> [] \<and> (\<forall>i<length ls. ls ! i = subtree K h i f) \<and>
     (\<forall>i\<ge>length ls. subtree K h i f = zero_hash K h)"

lemma level_ok_leaves: "level_ok K 0 (if xs = [] then [0] else xs) (leaves_fun xs)"
  by (auto simp: level_ok_def leaves_fun_def)

lemma level_ok_pad:
  assumes "level_ok K h ls f" and "mt_ok K mt" and "h \<le> unat (mt_height mt)"
  shows "level_ok K h (pad_level mt h ls) f"
  using assms mt_zeroHashes_nth [OF assms(2,3)]
  by (auto simp: level_ok_def pad_level_def nth_append less_Suc_eq)

lemma even_pad_level: "even (length (pad_level mt h ls))"
  by (auto simp: pad_level_def)

lemma buildIntermediate_even:
  "even (length ls) \<Longrightarrow> \<exists>ns. buildIntermediate K ls =
     Inr (ns, map (\<lambda>i. node_hash K (ls ! (2 * i)) (ls ! (2 * i + 1))) [0..<length ls div 2]) \<and>
     map fst ns = map (\<lambda>i. node_hash K (ls ! (2 * i)) (ls ! (2 * i + 1))) [0..<length ls div 2]"
proof (induction K ls rule: buildIntermediate.induct)
  case (3 K l r ls)
  then obtain ns where ns: "buildIntermediate K ls =
     Inr (ns, map (\<lambda>i. node_hash K (ls ! (2 * i)) (ls ! (2 * i + 1))) [0..<length ls div 2])"
     "map fst ns = map (\<lambda>i. node_hash K (ls ! (2 * i)) (ls ! (2 * i + 1))) [0..<length ls div 2]"
    by auto
  have "map (\<lambda>i. node_hash K ((l # r # ls) ! (2 * i)) ((l # r # ls) ! (2 * i + 1)))
      [0..<length (l # r # ls) div 2] =
    node_hash K l r # map (\<lambda>i. node_hash K (ls ! (2 * i)) (ls ! (2 * i + 1))) [0..<length ls div 2]"
    by (simp add: upt_conv_Cons map_Suc_upt [symmetric] del: upt_Suc)
  with ns show ?case by (intro exI [of _ "(node_hash K l r, l, r) # ns"]) (simp add: Let_def)
qed simp_all

lemma level_ok_up:
  assumes "level_ok K h ls f" and "even (length ls)"
  shows "level_ok K (Suc h) (map (\<lambda>i. node_hash K (ls ! (2 * i)) (ls ! (2 * i + 1))) [0..<length ls div 2]) f"
proof -
  obtain m where m: "length ls = 2 * m" using assms(2) by (rule evenE)
  moreover have "0 < m" using assms(1) m by (cases m) (auto simp: level_ok_def)
  ultimately show ?thesis using assms(1) by (auto simp: level_ok_def)
qed

text \<open>One level up: the padded level is even, and its pairs are the nodes of the next level.\<close>

lemma pad_up:
  assumes "level_ok K h ls f" and "mt_ok K mt" and "h < unat (mt_height mt)" and "length ls \<le> 2 ^ Suc n"
  obtains ns hs where "buildIntermediate K (pad_level mt h ls) = Inr (ns, hs)" and "map fst ns = hs"
    and "level_ok K (Suc h) hs f" and "length hs \<le> 2 ^ n"
    and "level_ok K h (pad_level mt h ls) f" and "even (length (pad_level mt h ls))"
proof -
  have lp: "level_ok K h (pad_level mt h ls) f"
    using level_ok_pad [OF assms(1,2)] assms(3) by simp
  have "length (pad_level mt h ls) \<le> 2 * 2 ^ n"
    using assms(4) by (auto simp: pad_level_def) presburger
  moreover obtain ns where "buildIntermediate K (pad_level mt h ls) = Inr (ns,
      map (\<lambda>i. node_hash K (pad_level mt h ls ! (2 * i)) (pad_level mt h ls ! (2 * i + 1)))
        [0..<length (pad_level mt h ls) div 2])"
    and "map fst ns = map (\<lambda>i. node_hash K (pad_level mt h ls ! (2 * i)) (pad_level mt h ls ! (2 * i + 1)))
        [0..<length (pad_level mt h ls) div 2]"
    using buildIntermediate_even [OF even_pad_level] by blast
  ultimately show thesis
    using level_ok_up [OF lp even_pad_level] lp even_pad_level by (intro that) auto
qed

lemma BuildL1InfoRoot_loop_ok:
  assumes "mt_ok K mt"
  shows "h + n = unat (mt_height mt) \<Longrightarrow> level_ok K h ls f \<Longrightarrow> length ls \<le> 2 ^ n \<Longrightarrow>
    n = 0 \<longrightarrow> map fst ns = ls \<Longrightarrow>
    \<exists>ns'. BuildL1InfoRoot_loop K mt h n ls ns = Inr ns' \<and> map fst ns' = [subtree K (h + n) 0 f]"
proof (induction n arbitrary: h ls ns)
  case 0
  then have "length ls = 1" by (cases ls) (auto simp: level_ok_def)
  with 0 show ?case by (cases ls) (auto simp: level_ok_def)
next
  case (Suc n)
  have "h < unat (mt_height mt)" using Suc.prems(1) by simp
  from Suc.prems(2) assms this Suc.prems(3) obtain ns' hs where
    bi: "buildIntermediate K (pad_level mt h ls) = Inr (ns', hs)" and "map fst ns' = hs"
    "level_ok K (Suc h) hs f" "length hs \<le> 2 ^ n" by (rule pad_up)
  with Suc.IH [of "Suc h" hs ns'] Suc.prems(1) obtain ns'' where
    "BuildL1InfoRoot_loop K mt (Suc h) n hs ns' = Inr ns''"
    "map fst ns'' = [subtree K (Suc h + n) 0 f]" by auto
  with bi show ?case by simp
qed

lemma BuildL1InfoRoot_ok:
  assumes "mt_ok K mt" and "0 < mt_height mt" and "length xs \<le> 2 ^ unat (mt_height mt)"
  shows "BuildL1InfoRoot K mt xs = Inr (merkle_root K (unat (mt_height mt)) (leaves_fun xs))"
proof -
  let ?ls = "if xs = [] then [mt_zeroHashes mt ! 0] else xs"
  have "level_ok K 0 ?ls (leaves_fun xs)"
    using level_ok_leaves [of K xs] mt_zeroHashes_nth [OF assms(1), of 0] by (cases xs) simp_all
  moreover have "length ?ls \<le> 2 ^ unat (mt_height mt)" using assms(3) by simp
  moreover have "unat (mt_height mt) \<noteq> 0" using assms(2) by (simp add: unat_eq_0 word_gt_0)
  ultimately obtain ns where "BuildL1InfoRoot_loop K mt 0 (unat (mt_height mt)) ?ls [] = Inr ns"
    and "map fst ns = [subtree K (unat (mt_height mt)) 0 (leaves_fun xs)]"
    using BuildL1InfoRoot_loop_ok [OF assms(1), of 0 "unat (mt_height mt)" ?ls "leaves_fun xs" "[]"] by auto
  then show ?thesis
    by (cases ns) (auto simp: BuildL1InfoRoot_def Let_def merkle_root_def)
qed

section \<open>Proofs\<close>

text \<open>The sibling that one round of \<open>ComputeMerkleProof\<close> picks.\<close>

lemma even_le_odd: "even (l :: nat) \<Longrightarrow> odd q \<Longrightarrow> l \<le> q \<Longrightarrow> l \<le> q - Suc 0"
  by presburger

lemma even_less_even: "even (l :: nat) \<Longrightarrow> even q \<Longrightarrow> \<not> l \<le> q \<Longrightarrow> Suc q < l"
  by presburger

lemma level_sibling:
  assumes "level_ok K h ls f" and "even (length ls)" and "length ls < 2 ^ 32"
    and "index = of_nat (i div 2 ^ h)" and "i < 2 ^ 32"
  shows "(if index \<ge> of_nat (length ls) then zero_hash K h
          else if index mod 2 = 1 then ls ! unat (index - 1) else ls ! unat (index + 1 :: u32)) =
    sibling K f i h"
proof -
  let ?q = "i div 2 ^ h"
  have q: "?q < 2 ^ 32" using assms(5) by (meson div_le_dividend le_less_trans)
  then have uq: "unat index = ?q" using assms(4) by (simp add: unsigned_of_nat take_bit_eq_mod)
  have ul: "unat (of_nat (length ls) :: u32) = length ls"
    using assms(3) by (simp add: unsigned_of_nat take_bit_eq_mod)
  have odd: "index mod 2 = 1 \<longleftrightarrow> odd ?q"
    using uq by (simp add: word_unat_eq_iff unat_mod_distrib odd_iff_mod_2_eq_one)
  show ?thesis
  proof (cases "length ls \<le> ?q")
    case True
    then have "of_nat (length ls) \<le> index" by (simp add: word_le_nat_alt uq ul)
    moreover have "length ls \<le> sibling_pos i h"
      using True assms(2) even_le_odd by (auto simp: sibling_pos_def)
    ultimately show ?thesis using assms(1) by (simp add: sibling_def level_ok_def)
  next
    case False
    then have lt: "\<not> of_nat (length ls) \<le> index" by (simp add: word_le_nat_alt uq ul)
    show ?thesis
    proof (cases "odd ?q")
      case True
      then have "index \<noteq> 0" using uq by auto
      then have "unat (index - 1) = ?q - 1" by (simp add: unat_minus_one uq)
      with True False lt odd assms(1) show ?thesis
        by (simp add: sibling_def sibling_pos_def level_ok_def)
    next
      case ev: False
      with False assms(2) even_less_even have "?q + 1 < length ls" by auto
      then have "unat (index + 1) = ?q + 1"
        using assms(3) uq by (simp add: unat_word_ariths)
      with ev lt odd assms(1) \<open>?q + 1 < length ls\<close> show ?thesis
        by (simp add: sibling_def sibling_pos_def level_ok_def)
    qed
  qed
qed

lemma index_half: "i < 2 ^ 32 \<Longrightarrow> (of_nat (i div 2 ^ h) :: u32) div 2 = of_nat (i div 2 ^ Suc h)"
proof -
  assume "i < 2 ^ 32"
  then have "i div 2 ^ h < 2 ^ 32" by (meson div_le_dividend le_less_trans)
  then show ?thesis
    by (simp add: word_unat_eq_iff unat_div_distrib unsigned_of_nat take_bit_eq_mod div_pow_Suc
        del: power_Suc)
qed

lemma ComputeMerkleProof_loop_ok:
  assumes "mt_ok K mt" and "i < 2 ^ 32"
  shows "h + n = unat (mt_height mt) \<Longrightarrow> level_ok K h ls f \<Longrightarrow> length ls \<le> 2 ^ n \<Longrightarrow>
    length ls + 1 < 2 ^ 32 \<Longrightarrow> n = 0 \<longrightarrow> map fst ns = ls \<Longrightarrow> index = of_nat (i div 2 ^ h) \<Longrightarrow>
    \<exists>ns'. ComputeMerkleProof_loop K mt h n index ls sibs ns =
        Inr (sibs @ map (sibling K f i) [h..<h + n], ns') \<and>
      map fst ns' = [subtree K (h + n) 0 f]"
proof (induction n arbitrary: h ls ns index sibs)
  case 0
  then have "length ls = 1" by (cases ls) (auto simp: level_ok_def)
  with 0 show ?case by (cases ls) (auto simp: level_ok_def)
next
  case (Suc n)
  let ?ls = "pad_level mt h ls"
  have h: "h < unat (mt_height mt)" using Suc.prems(1) by simp
  from Suc.prems(2) assms(1) this Suc.prems(3) obtain ns' hs where
    bi: "buildIntermediate K ?ls = Inr (ns', hs)" and hs: "map fst ns' = hs"
    "level_ok K (Suc h) hs f" "length hs \<le> 2 ^ n" "level_ok K h ?ls f" "even (length ?ls)"
    by (rule pad_up)
  have len: "length ?ls < 2 ^ 32" using Suc.prems(4) by (auto simp: pad_level_def)
  have "length hs = length ?ls div 2"
    using buildIntermediate_even [OF hs(5), of K] bi by auto
  with len have "length hs + 1 < 2 ^ 32" by simp
  with Suc.IH [of "Suc h" hs ns' "index div 2" "sibs @ [sibling K f i h]"] Suc.prems(1,6) hs
    index_half [OF assms(2), of h]
  obtain ns'' where
    "ComputeMerkleProof_loop K mt (Suc h) n (index div 2) hs (sibs @ [sibling K f i h]) ns' =
       Inr ((sibs @ [sibling K f i h]) @ map (sibling K f i) [Suc h..<Suc h + n], ns'')"
    "map fst ns'' = [subtree K (Suc h + n) 0 f]" by auto
  moreover have "[h..<h + Suc n] = h # [Suc h..<Suc h + n]" by (simp add: upt_conv_Cons)
  moreover have "ComputeMerkleProof_loop K mt h (Suc n) index ls sibs ns =
      ComputeMerkleProof_loop K mt (Suc h) n (index div 2) hs (sibs @ [sibling K f i h]) ns'"
    by (simp only: ComputeMerkleProof_loop.simps Let_def bi sum.case prod.case
        mt_zeroHashes_nth [OF assms(1) less_imp_le [OF h]]
        level_sibling [OF hs(4,5) len Suc.prems(6) assms(2)])
  ultimately show ?case by (simp del: upt_Suc)
qed

lemma ComputeMerkleProof_ok:
  assumes "mt_ok K mt" and "0 < mt_height mt" and "length xs \<le> 2 ^ unat (mt_height mt)"
    and "length xs + 1 < 2 ^ 32"
  shows "ComputeMerkleProof K mt index xs =
    Inr (siblings K (unat (mt_height mt)) (leaves_fun xs) (unat index),
         merkle_root K (unat (mt_height mt)) (leaves_fun xs))"
proof -
  let ?ls = "if xs = [] then [mt_zeroHashes mt ! 0] else xs"
  have "level_ok K 0 ?ls (leaves_fun xs)"
    using level_ok_leaves [of K xs] mt_zeroHashes_nth [OF assms(1), of 0] by (cases xs) simp_all
  moreover have "length ?ls \<le> 2 ^ unat (mt_height mt)" "length ?ls + 1 < 2 ^ 32"
    using assms(3,4) by simp_all
  moreover have "unat (mt_height mt) \<noteq> 0" using assms(2) by (simp add: unat_eq_0 word_gt_0)
  moreover have "unat index < 2 ^ 32" using unat_less [of index] by simp
  ultimately obtain ns where
    "ComputeMerkleProof_loop K mt 0 (unat (mt_height mt)) index ?ls [] [] =
       Inr (siblings K (unat (mt_height mt)) (leaves_fun xs) (unat index), ns)"
    and "map fst ns = [subtree K (unat (mt_height mt)) 0 (leaves_fun xs)]"
    using ComputeMerkleProof_loop_ok [OF assms(1), of "unat index" 0 "unat (mt_height mt)" ?ls
        "leaves_fun xs" "[]" index "[]"] by (auto simp: siblings_def)
  then show ?thesis
    by (cases ns) (auto simp: ComputeMerkleProof_def Let_def merkle_root_def)
qed

section \<open>Incremental leaves\<close>

definition siblings_ok :: "keccak \<Rightarrow> nat \<Rightarrow> hash list \<Rightarrow> hash list \<Rightarrow> bool" where
  "siblings_ok K H c xs \<longleftrightarrow> length c = H \<and>
     (\<forall>j<H. odd (length xs div 2 ^ j) \<longrightarrow> c ! j = sibling K (leaves_fun xs) (length xs) j)"

definition l1_inv :: "keccak \<Rightarrow> L1InfoTree \<Rightarrow> hash list \<Rightarrow> bool" where
  "l1_inv K mt xs \<longleftrightarrow> mt_ok K mt \<and> 0 < mt_height mt \<and> mt_count mt = of_nat (length xs) \<and>
     length xs \<le> 2 ^ unat (mt_height mt) \<and>
     siblings_ok K (unat (mt_height mt)) (mt_siblings mt) xs \<and>
     mt_currentRoot mt = merkle_root K (unat (mt_height mt)) (leaves_fun xs)"

lemma filled_Suc: "2 ^ Suc h dvd Suc n \<longleftrightarrow> 2 ^ h dvd Suc n \<and> odd (n div 2 ^ h)"
proof (cases "2 ^ h dvd Suc n")
  case True
  then have "Suc n div 2 ^ h = Suc (n div 2 ^ h)" by (simp add: div_Suc mod_eq_0_iff_dvd)
  moreover have "2 ^ Suc h dvd Suc n \<longleftrightarrow> 2 dvd Suc n div 2 ^ h"
    using True by (metis dvd_div_iff_mult dvd_mult_div_cancel power_Suc power_not_zero zero_neq_numeral
        mult.commute nat_mult_dvd_cancel_disj)
  ultimately show ?thesis using True by simp
next
  case False
  then show ?thesis by (metis power_Suc dvd_mult_right)
qed

lemma l1_addLeaf_loop:
  assumes ok: "mt_ok K mt" "siblings_ok K (unat (mt_height mt)) c xs" "unat index = length xs"
  shows "h \<le> unat (mt_height mt) \<Longrightarrow> \<exists>c'.
    foldl (l1_addLeaf_level K mt index) (leaf, c, True) [0..<h] =
      (path_root K (length xs) (siblings K (unat (mt_height mt)) (leaves_fun xs) (length xs)) h leaf,
       c', 2 ^ h dvd Suc (length xs)) \<and>
    length c' = length c \<and>
    (\<forall>j<length c. odd (length xs div 2 ^ j) \<or> h \<le> j \<longrightarrow> c' ! j = c ! j) \<and>
    (\<forall>j<h. even (length xs div 2 ^ j) \<and> 2 ^ j dvd Suc (length xs) \<longrightarrow> c' ! j =
       path_root K (length xs) (siblings K (unat (mt_height mt)) (leaves_fun xs) (length xs)) j leaf)"
proof (induction h)
  case 0
  then show ?case by simp
next
  case (Suc h)
  let ?n = "length xs"
  let ?sibs = "siblings K (unat (mt_height mt)) (leaves_fun xs) ?n"
  have h: "h < unat (mt_height mt)" and len: "length c = unat (mt_height mt)"
    using Suc.prems ok(2) by (simp_all add: siblings_ok_def)
  obtain c' where c': "foldl (l1_addLeaf_level K mt index) (leaf, c, True) [0..<h] =
      (path_root K ?n ?sibs h leaf, c', 2 ^ h dvd Suc ?n)" "length c' = length c"
    "\<forall>j<length c. odd (?n div 2 ^ j) \<or> h \<le> j \<longrightarrow> c' ! j = c ! j"
    "\<forall>j<h. even (?n div 2 ^ j) \<and> 2 ^ j dvd Suc ?n \<longrightarrow> c' ! j = path_root K ?n ?sibs j leaf"
    using Suc by auto
  have lvl: "bit index h \<longleftrightarrow> odd (?n div 2 ^ h)" by (simp add: bit_odd_div ok(3))
  have step: "foldl (l1_addLeaf_level K mt index) (leaf, c, True) [0..<Suc h] =
      l1_addLeaf_level K mt index (path_root K ?n ?sibs h leaf, c', 2 ^ h dvd Suc ?n) h"
    by (simp add: c'(1))
  show ?case
  proof (cases "odd (?n div 2 ^ h)")
    case True
    have "c' ! h = sibling K (leaves_fun xs) ?n h"
      using c'(3) True h len ok(2) by (simp add: siblings_ok_def)
    with True c'(2-4) h lvl show ?thesis
      unfolding step by (intro exI [of _ c'])
        (auto simp: l1_addLeaf_level_def join_step_def less_Suc_eq filled_Suc simp del: power_Suc)
  next
    case False
    have "mt_zeroHashes mt ! h = sibling K (leaves_fun xs) ?n h"
      using right_of_last_zero [of xs ?n h K] False h mt_zeroHashes_nth [OF ok(1), of h] by simp
    with False c'(2-4) h len lvl show ?thesis
      unfolding step
      by (intro exI [of _ "if 2 ^ h dvd Suc ?n then c'[h := path_root K ?n ?sibs h leaf] else c'"])
        (auto simp: l1_addLeaf_level_def join_step_def less_Suc_eq filled_Suc nth_list_update
          simp del: power_Suc)
  qed
qed

lemma l1_AddLeaf_ok:
  assumes inv: "l1_inv K mt xs" and idx: "unat index = length xs"
    and len: "length xs < 2 ^ unat (mt_height mt)"
  shows "\<exists>mt'. l1_AddLeaf K mt index leaf =
      (mt', Inr (merkle_root K (unat (mt_height mt)) (leaves_fun (xs @ [leaf])))) \<and>
    l1_inv K mt' (xs @ [leaf]) \<and> mt_height mt' = mt_height mt"
proof -
  let ?H = "unat (mt_height mt)" and ?n = "length xs"
  let ?sibs = "siblings K ?H (leaves_fun xs) ?n"
  have ok: "mt_ok K mt" "siblings_ok K ?H (mt_siblings mt) xs" "mt_count mt = of_nat ?n"
    using inv by (simp_all add: l1_inv_def)
  then have lenc: "length (mt_siblings mt) = ?H" by (simp add: siblings_ok_def)
  obtain c' where c': "foldl (l1_addLeaf_level K mt index) (leaf, mt_siblings mt, True) [0..<?H] =
      (path_root K ?n ?sibs ?H leaf, c', 2 ^ ?H dvd Suc ?n)" "length c' = ?H"
    "\<forall>j<?H. odd (?n div 2 ^ j) \<longrightarrow> c' ! j = mt_siblings mt ! j"
    "\<forall>j<?H. even (?n div 2 ^ j) \<and> 2 ^ j dvd Suc ?n \<longrightarrow> c' ! j = path_root K ?n ?sibs j leaf"
    using l1_addLeaf_loop [OF ok(1,2) idx order_refl, of leaf] lenc by auto
  have root: "path_root K ?n ?sibs ?H leaf = merkle_root K ?H (leaves_fun (xs @ [leaf]))"
    using path_root_upd [of ?H ?H K ?n "leaves_fun xs" leaf] len
    by (simp add: merkle_root_def leaves_fun_snoc del: fun_upd_apply)
  have "siblings_ok K ?H c' (xs @ [leaf])"
    unfolding siblings_ok_def
  proof (intro conjI allI impI)
    fix j assume j: "j < ?H" and odd: "odd (length (xs @ [leaf]) div 2 ^ j)"
    have pos: "sibling_pos (Suc ?n) j = Suc ?n div 2 ^ j - 1" using odd by (simp add: sibling_pos_def)
    show "c' ! j = sibling K (leaves_fun (xs @ [leaf])) (length (xs @ [leaf])) j"
    proof (cases "2 ^ j dvd Suc ?n")
      case True
      then have d: "Suc ?n div 2 ^ j = Suc (?n div 2 ^ j)" by (simp add: div_Suc mod_eq_0_iff_dvd)
      with odd True j c'(4) have "c' ! j = path_root K ?n ?sibs j leaf" by simp
      also have "\<dots> = subtree K j (?n div 2 ^ j) (leaves_fun (xs @ [leaf]))"
        using path_root_upd [of j ?H K ?n "leaves_fun xs" leaf] j
        by (simp add: leaves_fun_snoc del: fun_upd_apply)
      finally show ?thesis using pos d by (simp add: sibling_def)
    next
      case False
      then have d: "Suc ?n div 2 ^ j = ?n div 2 ^ j" by (simp add: div_Suc mod_eq_0_iff_dvd)
      with odd have o: "odd (?n div 2 ^ j)" by simp
      then have "?n div 2 ^ j \<noteq> ?n div 2 ^ j - 1" by (auto elim: oddE)
      from subtree_upd_other [OF this, of K "leaves_fun xs" leaf] show ?thesis
        using c'(3) ok(2) j o pos d
        by (simp add: siblings_ok_def sibling_def sibling_pos_def leaves_fun_snoc del: fun_upd_apply)
    qed
  qed (rule c'(2))
  moreover have "index = mt_count mt" using unat_eq_of_nat [OF idx] ok(3) by simp
  ultimately show ?thesis
    using inv c'(1) root len by (auto simp: l1_AddLeaf_def l1_inv_def mt_ok_def)
qed

lemma initSiblings_ok:
  assumes "mt_ok K mt" and "0 < mt_height mt" and "mt_count mt = of_nat (length xs)"
    and "length xs \<le> 2 ^ unat (mt_height mt)" and "length xs + 1 < 2 ^ 32"
  shows "\<exists>c. initSiblings K mt xs = Inr (c, merkle_root K (unat (mt_height mt)) (leaves_fun xs)) \<and>
    siblings_ok K (unat (mt_height mt)) c xs"
proof -
  have n: "unat (mt_count mt) = length xs"
    using assms(3,5) by (simp add: unsigned_of_nat take_bit_eq_mod)
  then have z: "mt_count mt = 0 \<longleftrightarrow> xs = []" by (metis length_0_conv unat_eq_zero)
  show ?thesis
  proof (cases "xs = []")
    case True
    then show ?thesis
      using z assms BuildL1InfoRoot_ok [OF assms(1,2,4)] by (simp add: initSiblings_def siblings_ok_def)
  next
    case False
    then show ?thesis
      using z n assms ComputeMerkleProof_ok [OF assms(1,2,4,5), of "mt_count mt"]
      by (simp add: initSiblings_def siblings_ok_def)
  qed
qed

lemma NewL1InfoTree_ok:
  assumes "0 < height" and "length xs \<le> 2 ^ unat height" and "length xs + 1 < 2 ^ 32"
  shows "\<exists>mt. NewL1InfoTree K height xs = Inr mt \<and> l1_inv K mt xs \<and> mt_height mt = height"
proof -
  let ?mt = "\<lparr>mt_height = height, mt_zeroHashes = l1_generateZeroHashes K height,
                mt_count = of_nat (length xs), mt_siblings = [], mt_currentRoot = 0\<rparr>"
  have ok: "mt_ok K ?mt" by (simp add: mt_ok_def l1_generateZeroHashes_eq)
  with initSiblings_ok [of K ?mt xs] assms show ?thesis
    by (auto simp: NewL1InfoTree_def l1_inv_def mt_ok_def)
qed

section \<open>Properties\<close>

text \<open>Rebuilding is right: from any list of leaves that fits the height, \<open>NewL1InfoTree\<close> builds
  a tree whose root is the Merkle root of the list padded with zero leaves and whose
  siblings are ready for the next leaf.\<close>

theorem NewL1InfoTree_root:
  assumes "0 < height" and "length xs \<le> 2 ^ unat height" and "length xs + 1 < 2 ^ 32"
  shows "\<exists>mt. NewL1InfoTree K height xs = Inr mt \<and> l1_inv K mt xs \<and>
    GetCurrentRootCountAndSiblings mt =
      (merkle_root K (unat height) (leaves_fun xs), of_nat (length xs), mt_siblings mt) \<and>
    BuildL1InfoRoot K mt xs = Inr (mt_currentRoot mt)"
proof -
  obtain mt where "NewL1InfoTree K height xs = Inr mt" and inv: "l1_inv K mt xs"
    and h: "mt_height mt = height" using NewL1InfoTree_ok [OF assms] by blast
  with BuildL1InfoRoot_ok [of K mt xs] assms show ?thesis
    by (simp add: l1_inv_def GetCurrentRootCountAndSiblings_def)
qed

theorem NewL1InfoTree_root_witness:
  "\<exists>mt. NewL1InfoTree sample_keccak 32 [4, 5, 6] = Inr mt \<and> l1_inv sample_keccak mt [4, 5, 6] \<and>
    GetCurrentRootCountAndSiblings mt =
      (merkle_root sample_keccak (unat (32 :: u8)) (leaves_fun [4, 5, 6]), of_nat (length [4 :: hash, 5, 6]),
       mt_siblings mt) \<and>
    BuildL1InfoRoot sample_keccak mt [4, 5, 6] = Inr (mt_currentRoot mt)"
  by (rule NewL1InfoTree_root) simp_all

text \<open>Incremental equals rebuilt: \<open>AddLeaf\<close> with the next index returns the root that
  \<open>BuildL1InfoRoot\<close> computes from all leaves, keeps the tree ready for the next one, and any
  other index is refused without a change.\<close>

theorem l1_AddLeaf_incremental:
  assumes "l1_inv K mt xs" and "length xs < 2 ^ unat (mt_height mt)" and "length xs < 2 ^ 32"
  shows "\<exists>mt'. l1_AddLeaf K mt (of_nat (length xs)) leaf = (mt', BuildL1InfoRoot K mt (xs @ [leaf])) \<and>
    BuildL1InfoRoot K mt (xs @ [leaf]) =
      Inr (merkle_root K (unat (mt_height mt)) (leaves_fun (xs @ [leaf]))) \<and>
    l1_inv K mt' (xs @ [leaf]) \<and>
    (\<forall>index. index \<noteq> of_nat (length xs) \<longrightarrow> fst (l1_AddLeaf K mt index leaf) = mt)"
proof -
  have idx: "unat (of_nat (length xs) :: u32) = length xs"
    using assms(3) by (simp add: unsigned_of_nat take_bit_eq_mod)
  have "mt_ok K mt" "0 < mt_height mt" "mt_count mt = of_nat (length xs)"
    using assms(1) by (simp_all add: l1_inv_def)
  with l1_AddLeaf_ok [OF assms(1) idx assms(2), of leaf] BuildL1InfoRoot_ok [of K mt "xs @ [leaf]"] assms(2)
  show ?thesis by (auto simp: l1_AddLeaf_def)
qed

theorem l1_AddLeaf_incremental_witness:
  "\<exists>mt mt'. NewL1InfoTree sample_keccak 32 [4, 5, 6] = Inr mt \<and>
     l1_AddLeaf sample_keccak mt (of_nat (length [4 :: hash, 5, 6])) 7 =
       (mt', BuildL1InfoRoot sample_keccak mt ([4, 5, 6] @ [7])) \<and>
     l1_inv sample_keccak mt' ([4, 5, 6] @ [7])"
proof -
  obtain mt where "NewL1InfoTree sample_keccak 32 [4, 5, 6] = Inr mt" "l1_inv sample_keccak mt [4, 5, 6]"
    "mt_height mt = 32" using NewL1InfoTree_ok [of 32 "[4, 5, 6]" sample_keccak] by auto
  with l1_AddLeaf_incremental [of sample_keccak mt "[4, 5, 6]" 7] show ?thesis by auto
qed

text \<open>Proofs of the in-memory tree verify: for every index, \<open>ComputeMerkleProof\<close> returns the
  Merkle root and siblings from which \<open>CalculateRoot\<close> of the persistent tree recomputes it,
  with the zero leaf at positions beyond the list.\<close>

theorem ComputeMerkleProof_verifies:
  assumes "l1_inv K mt ys" and "mt_height mt = 32" and "length xs + 1 < 2 ^ 32"
  shows "\<exists>p. ComputeMerkleProof K mt index xs = Inr (p, leaves_root K xs) \<and> length p = DefaultHeight \<and>
    CalculateRoot K (leaves_fun xs (unat index)) p index = leaves_root K xs"
proof -
  have "mt_ok K mt" "0 < mt_height mt" using assms(1,2) by (simp_all add: l1_inv_def)
  with ComputeMerkleProof_ok [of K mt xs index] assms(2,3)
  have "ComputeMerkleProof K mt index xs =
      Inr (siblings K DefaultHeight (leaves_fun xs) (unat index), leaves_root K xs)"
    by (simp add: DefaultHeight_def leaves_root_def)
  moreover have "unat index < 2 ^ DefaultHeight"
    using unat_less [of index] by (simp add: DefaultHeight_def)
  ultimately show ?thesis
    using path_root_siblings [of "unat index" DefaultHeight K "leaves_fun xs"]
    by (simp add: CalculateRoot_path_root leaves_root_def)
qed

theorem ComputeMerkleProof_verifies_witness:
  "\<exists>mt p. NewL1InfoTree sample_keccak 32 [] = Inr mt \<and>
     ComputeMerkleProof sample_keccak mt 1 [4, 5, 6] = Inr (p, leaves_root sample_keccak [4, 5, 6]) \<and>
     length p = DefaultHeight \<and>
     CalculateRoot sample_keccak (leaves_fun [4, 5, 6] (unat (1 :: u32))) p 1 =
       leaves_root sample_keccak [4, 5, 6]"
proof -
  obtain mt where "NewL1InfoTree sample_keccak 32 [] = Inr mt" "l1_inv sample_keccak mt []"
    "mt_height mt = 32" using NewL1InfoTree_ok [of 32 "[]" sample_keccak] by auto
  with ComputeMerkleProof_verifies [of sample_keccak mt "[]" "[4, 5, 6]" 1] show ?thesis by auto
qed

end
