(* ===== verification/TreeProofs.thy ===== *)
theory TreeProofs
  imports AppendOnlyTree
begin

text \<open>
  What a reader of the tree tables can rely on without knowing how they were filled: leaves
  and proofs are consistent with each other on any table whose nodes hash to their keys, a
  root commits to its leaves, and \<open>GetRootByHash\<close> never yields a root.
\<close>

text \<open>Leaf and proof agree: whenever \<open>GetLeaf\<close> finds a leaf below some root, \<open>GetProof\<close> for
  the same index and root succeeds and \<open>CalculateRoot\<close> takes the leaf and the proof back to
  that root, whatever else the tables contain and however the engine behaves.\<close>

theorem GetLeaf_GetProof_agree:
  assumes "rht_wf K (rht_rows db)" and "GetLeaf io t (Some db) index root = Inr x"
  shows "\<exists>p. GetProof io t db index root = Inr p \<and> CalculateRoot K x p index = root"
proof -
  obtain s where s: "getSiblings_loop io t db index DefaultHeight root (replicate DefaultHeight 0) False =
      Inr (s, False)" and "path_root K (unat index) s DefaultHeight x = root"
    using GetLeaf_loop_siblings [OF assms(1), of io t index DefaultHeight root x
        "replicate DefaultHeight 0" False] assms(2) by (auto simp: GetLeaf_def)
  then show ?thesis by (simp add: GetProof_def getSiblings_def CalculateRoot_path_root)
qed

theorem GetLeaf_GetProof_agree_witness:
  "\<exists>p. GetProof (\<lambda>_. False) (newTree sample_keccak ''t_'') sample_db 0
         (leaves_root sample_keccak [1]) = Inr p \<and>
       CalculateRoot sample_keccak 1 p 0 = leaves_root sample_keccak [1]"
proof (rule GetLeaf_GetProof_agree)
  have inv: "append_inv sample_keccak sample_db [1]" using sample_added_ok by blast
  then show wf: "rht_wf sample_keccak (rht_rows sample_db)" by (simp add: append_inv_def)
  have "root_ok sample_keccak (rht_rows sample_db) [1] (root_rows sample_db ! 0) 0"
    using inv by (simp add: append_inv_def)
  then have rep: "repr sample_keccak (rht_rows sample_db) DefaultHeight (leaves_root sample_keccak [1]) 0
      (leaves_fun [1])"
    and hp: "has_path (rht_rows sample_db) 0 DefaultHeight (leaves_root sample_keccak [1])"
    by (auto simp: root_ok_def)
  show "GetLeaf (\<lambda>_. False) (newTree sample_keccak ''t_'') (Some sample_db) 0
      (leaves_root sample_keccak [1]) = Inr 1"
    using GetLeaf_repr [OF wf rep, where io = "\<lambda>_. False" and t = "newTree sample_keccak ''t_''" and index = 0]
      hp by (auto simp: leaves_fun_def split: sum.splits)
qed

text \<open>A root commits to its leaves: if two proofs for the same index lead to the same root
  and no two of the nodes they pass collide, they prove the same leaf with the same siblings.\<close>

theorem CalculateRoot_binding:
  assumes "CalculateRoot K x p index = CalculateRoot K y q index"
    and "length p = DefaultHeight" and "length q = DefaultHeight"
    and "collision_free K (path_pairs K (unat index) p DefaultHeight x \<union>
           path_pairs K (unat index) q DefaultHeight y)"
  shows "x = y \<and> p = q"
  using path_root_inj [OF assms(4)] assms(1-3)
  by (auto simp: CalculateRoot_path_root intro: nth_equalityI)

lemma sample_path_pairs_free:
  "collision_free sample_keccak
     (path_pairs sample_keccak 0 (siblings sample_keccak DefaultHeight (\<lambda>_. 0) 0) DefaultHeight 1)"
proof (rule sample_collision_free)
  show "sample_leaf_ok 1" by (simp add: sample_leaf_ok_def)
  have "path_pairs sample_keccak 0 (siblings sample_keccak DefaultHeight (\<lambda>_. 0) 0) n 1 \<subseteq>
      sample_pair 1 ` {..<DefaultHeight}" if "n \<le> DefaultHeight" for n
    using that sample_path [of _ DefaultHeight 1]
    by (induction n) (auto simp: sample_sibling sample_pair_def)
  from this [OF order_refl] show "path_pairs sample_keccak 0
      (siblings sample_keccak DefaultHeight (\<lambda>_. 0) 0) DefaultHeight 1 \<subseteq>
      (\<Union>a\<in>{0, 1}. sample_pair a ` {..<DefaultHeight})" by blast
qed

theorem CalculateRoot_binding_witness:
  "(1 :: hash) = 1 \<and> siblings sample_keccak DefaultHeight (\<lambda>_. 0) 0 =
     map (\<lambda>h. of_nat (sample_z h)) [0..<DefaultHeight]"
proof (rule CalculateRoot_binding [of sample_keccak 1 _ 0])
  have eq: "siblings sample_keccak DefaultHeight (\<lambda>_. 0) 0 =
      map (\<lambda>h. of_nat (sample_z h)) [0..<DefaultHeight]"
    by (simp add: siblings_def sample_sibling)
  show "collision_free sample_keccak
      (path_pairs sample_keccak (unat (0 :: u32)) (siblings sample_keccak DefaultHeight (\<lambda>_. 0) 0)
         DefaultHeight 1 \<union>
       path_pairs sample_keccak (unat (0 :: u32)) (map (\<lambda>h. of_nat (sample_z h)) [0..<DefaultHeight])
         DefaultHeight 1)"
    using sample_path_pairs_free by (simp add: eq [symmetric])
  show "CalculateRoot sample_keccak 1 (siblings sample_keccak DefaultHeight (\<lambda>_. 0) 0) 0 =
      CalculateRoot sample_keccak 1 (map (\<lambda>h. of_nat (sample_z h)) [0..<DefaultHeight]) 0"
    by (simp only: eq)
qed simp_all

text \<open>\<open>GetRootByHash\<close> never returns a root: the pointer it returns is nil also when the row
  exists, because the row is scanned into a nil pointer.\<close>

theorem GetRootByHash_never_root: "GetRootByHash io scan_nil t db hash \<noteq> Inr (Some root)"
  by (auto simp: GetRootByHash_def split: sum.splits option.splits)

end
