(* ===== verification/EvmSync.thy ===== *)
theory EvmSync
  imports Database
begin

text \<open>
  The syncer shared by the bridge, L1 info tree and GER syncers (\<open>src/sync\<close>): the driver that
  moves downloaded blocks into a processor (\<open>evmdriver.go\<close>), its retry policy (\<open>common.go\<close>)
  and the downloader that cuts the chain into chunks (\<open>evmdownloader.go\<close>).

  A processor is a record of its three operations, so that the driver is defined once for all
  of them. The environment is explicit: every attempt of a retried call is an element of a
  list, either the cancelled context or the outcome of the call; running out of elements
  means the call is still being retried (\<open>Pending\<close>), and \<open>FatalExit\<close> is \<open>log.Fatalf\<close>.
\<close>

section \<open>Data\<close>

record EVMBlockHeader =
  h_Num :: u64
  h_Hash :: hash
  h_ParentHash :: hash
  h_Timestamp :: u64

record 'e EVMBlock =
  eb_Header :: EVMBlockHeader
  eb_Events :: "'e list"

record 'e Block =
  bk_Num :: u64
  bk_Events :: "'e list"

record ('p, 'e) processorInterface =
  pi_GetLastProcessedBlock :: "io \<Rightarrow> 'p \<Rightarrow> error + u64"
  pi_ProcessBlock :: "io \<Rightarrow> 'p \<Rightarrow> 'e Block \<Rightarrow> 'p \<times> error option"
  pi_Reorg :: "io \<Rightarrow> 'p \<Rightarrow> u64 \<Rightarrow> 'p \<times> error option"

record RetryHandler =
  MaxRetryAttemptsAfterError :: int

datatype 'a attempt = CtxCanceled | Try 'a

datatype outcome = Succeeded | Canceled | Inconsistent | FatalExit | Pending

section \<open>Retries and the driver's handlers\<close>

text \<open>\<open>RetryHandler_Handle rh attempts\<close>: the process exits.\<close>

definition RetryHandler_Handle :: "RetryHandler \<Rightarrow> int \<Rightarrow> bool" where
  "RetryHandler_Handle h attempts \<longleftrightarrow>
     MaxRetryAttemptsAfterError h > -1 \<and> attempts \<ge> MaxRetryAttemptsAfterError h"

fun track_loop :: "RetryHandler \<Rightarrow> error option attempt list \<Rightarrow> int \<Rightarrow> outcome" where
  "track_loop rh [] attempts = Pending"
| "track_loop rh (CtxCanceled # env) attempts = Canceled"
| "track_loop rh (Try None # env) attempts = Succeeded"
| "track_loop rh (Try (Some e) # env) attempts =
     (if RetryHandler_Handle rh (attempts + 1) then FatalExit else track_loop rh env (attempts + 1))"

fun process_loop ::
  "('p, 'e) processorInterface \<Rightarrow> RetryHandler \<Rightarrow> io attempt list \<Rightarrow> 'p \<Rightarrow> 'e Block \<Rightarrow> int \<Rightarrow> 'p \<times> outcome"
where
  "process_loop P rh [] p b attempts = (p, Pending)"
| "process_loop P rh (CtxCanceled # env) p b attempts = (p, Canceled)"
| "process_loop P rh (Try io # env) p b attempts =
     (case pi_ProcessBlock P io p b of
        (p', None) \<Rightarrow> (p', Succeeded)
      | (p', Some e) \<Rightarrow>
          if e = ErrInconsistentState then (p', Inconsistent)
          else if RetryHandler_Handle rh (attempts + 1) then (p', FatalExit)
          else process_loop P rh env p' b (attempts + 1))"

definition handleNewBlock ::
  "('p, 'e) processorInterface \<Rightarrow> RetryHandler \<Rightarrow> error option attempt list \<Rightarrow> io attempt list \<Rightarrow>
   'p \<Rightarrow> 'e EVMBlock \<Rightarrow> 'p \<times> outcome \<times> (u64 \<times> hash) list"
where
  "handleNewBlock P rh tracks procs p b =
     (case track_loop rh tracks 0 of
        Succeeded \<Rightarrow>
          let blockToProcess = \<lparr>bk_Num = h_Num (eb_Header b), bk_Events = eb_Events b\<rparr> in
          (case process_loop P rh procs p blockToProcess 0 of
             (p', res) \<Rightarrow> (p', res, [(h_Num (eb_Header b), h_Hash (eb_Header b))]))
      | res \<Rightarrow> (p, res, []))"

fun handleReorg ::
  "('p, 'e) processorInterface \<Rightarrow> RetryHandler \<Rightarrow> io list \<Rightarrow> 'p \<Rightarrow> u64 \<Rightarrow> int \<Rightarrow> 'p \<times> outcome"
where
  "handleReorg P rh [] p firstReorgedBlock attempts = (p, Pending)"
| "handleReorg P rh (io # env) p firstReorgedBlock attempts =
     (case pi_Reorg P io p firstReorgedBlock of
        (p', None) \<Rightarrow> (p', Succeeded)
      | (p', Some e) \<Rightarrow>
          if RetryHandler_Handle rh (attempts + 1) then (p', FatalExit)
          else handleReorg P rh env p' firstReorgedBlock (attempts + 1))"

fun getLast_loop ::
  "('p, 'e) processorInterface \<Rightarrow> RetryHandler \<Rightarrow> io list \<Rightarrow> 'p \<Rightarrow> int \<Rightarrow> outcome \<times> u64"
where
  "getLast_loop P rh [] p attempts = (Pending, 0)"
| "getLast_loop P rh (io # env) p attempts =
     (case pi_GetLastProcessedBlock P io p of
        Inr n \<Rightarrow> (Succeeded, n)
      | Inl e \<Rightarrow>
          if RetryHandler_Handle rh (attempts + 1) then (FatalExit, 0)
          else getLast_loop P rh env p (attempts + 1))"

section \<open>The driver as a state machine\<close>

text \<open>
  The driver's loop and the downloader goroutine share the channel \<open>downloadCh\<close>: a buffer
  and whether the downloader has closed it, which it does when it sees the cancelled context.
  Receiving from a closed and empty channel yields the zero block, as in Go.
\<close>

record ('p, 'e) driver =
  d_processor :: 'p
  d_tracked :: "(u64 \<times> hash) list"
  d_channel :: "'e EVMBlock list"
  d_closed :: bool
  d_canceled :: bool
  d_from :: u64
  d_running :: bool

definition zero_block :: "'e EVMBlock" where
  "zero_block = \<lparr>eb_Header = \<lparr>h_Num = 0, h_Hash = 0, h_ParentHash = 0, h_Timestamp = 0\<rparr>, eb_Events = []\<rparr>"

definition receive :: "('p, 'e) driver \<Rightarrow> ('e EVMBlock \<times> ('p, 'e) driver) option" where
  "receive s =
     (case d_channel s of
        b # bs \<Rightarrow> Some (b, s\<lparr>d_channel := bs\<rparr>)
      | [] \<Rightarrow> if d_closed s then Some (zero_block, s) else None)"

definition start_download :: "'p \<Rightarrow> (u64 \<times> hash) list \<Rightarrow> u64 \<Rightarrow> ('p, 'e) driver" where
  "start_download p tracked lastProcessedBlock =
     \<lparr>d_processor = p, d_tracked = tracked, d_channel = [], d_closed = False, d_canceled = False,
      d_from = lastProcessedBlock + 1, d_running = True\<rparr>"

definition after_block :: "('p, 'e) driver \<Rightarrow> 'p \<times> outcome \<times> (u64 \<times> hash) list \<Rightarrow> ('p, 'e) driver" where
  "after_block s r =
     (case r of (p, res, tracked) \<Rightarrow>
        s\<lparr>d_processor := p, d_tracked := d_tracked s @ tracked,
          d_canceled := d_canceled s \<or> res = Inconsistent,
          d_running := (res = Succeeded \<or> res = Inconsistent)\<rparr>)"

inductive driver_step ::
  "('p, 'e) processorInterface \<Rightarrow> RetryHandler \<Rightarrow> ('p, 'e) driver \<Rightarrow> ('p, 'e) driver \<Rightarrow> bool"
  for P :: "('p, 'e) processorInterface" and rh :: RetryHandler
where
  Download: "d_running s \<Longrightarrow> \<not> d_closed s \<Longrightarrow>
    driver_step P rh s (s\<lparr>d_channel := d_channel s @ [b]\<rparr>)"
| Close: "d_running s \<Longrightarrow> d_canceled s \<Longrightarrow> driver_step P rh s (s\<lparr>d_closed := True\<rparr>)"
| NewBlock: "d_running s \<Longrightarrow> receive s = Some (b, s1) \<Longrightarrow>
    driver_step P rh s (after_block s1 (handleNewBlock P rh tracks procs (d_processor s1) b))"
| Reorg: "d_running s \<Longrightarrow> handleReorg P rh reorgs (d_processor s) n 0 = (p, Succeeded) \<Longrightarrow>
    getLast_loop P rh lasts p 0 = (Succeeded, lpb) \<Longrightarrow>
    driver_step P rh s (start_download p (d_tracked s) lpb)"

abbreviation driver_reach ::
  "('p, 'e) processorInterface \<Rightarrow> RetryHandler \<Rightarrow> ('p, 'e) driver \<Rightarrow> ('p, 'e) driver \<Rightarrow> bool"
where
  "driver_reach P rh \<equiv> (driver_step P rh)\<^sup>*\<^sup>*"

section \<open>The downloader\<close>

text \<open>
  A log as the client returns it: its block, its first topic and its payload. One attempt of
  \<open>GetEventsByBlockRange\<close> sees the logs of the range (already without the errors of the
  client, which \<open>GetLogs\<close> retries) and the block headers; the header's hash may have changed
  between the two calls, which restarts the query with the next attempt.
\<close>

record 'l Log =
  log_BlockNumber :: u64
  log_BlockHash :: hash
  log_Topic :: hash
  log_Data :: 'l

definition filter_topics :: "hash list \<Rightarrow> 'l Log list \<Rightarrow> 'l Log list" where
  "filter_topics topicsToQuery unfilteredLogs = filter (\<lambda>l. log_Topic l \<in> set topicsToQuery) unfilteredLogs"

text \<open>
  The calls to the client, each retried over its list of attempts: \<open>CtxCanceled\<close> stands for
  the cancelled context, in \<open>GetLogs\<close> and \<open>GetBlockHeader\<close> as the error of the call.
\<close>

fun WaitForNewBlocks :: "RetryHandler \<Rightarrow> (error + u64) attempt list \<Rightarrow> u64 \<Rightarrow> int \<Rightarrow> outcome \<times> u64" where
  "WaitForNewBlocks rh [] lastBlockSeen attempts = (Pending, 0)"
| "WaitForNewBlocks rh (CtxCanceled # env) lastBlockSeen attempts = (Canceled, lastBlockSeen)"
| "WaitForNewBlocks rh (Try (Inl e) # env) lastBlockSeen attempts =
     (if RetryHandler_Handle rh (attempts + 1) then (FatalExit, 0)
      else WaitForNewBlocks rh env lastBlockSeen (attempts + 1))"
| "WaitForNewBlocks rh (Try (Inr number) # env) lastBlockSeen attempts =
     (if number > lastBlockSeen then (Succeeded, number)
      else WaitForNewBlocks rh env lastBlockSeen attempts)"

fun GetLogs ::
  "RetryHandler \<Rightarrow> hash list \<Rightarrow> (error + 'l Log list) attempt list \<Rightarrow> int \<Rightarrow> outcome \<times> 'l Log list"
where
  "GetLogs rh topics [] attempts = (Pending, [])"
| "GetLogs rh topics (CtxCanceled # env) attempts = (Canceled, [])"
| "GetLogs rh topics (Try (Inl e) # env) attempts =
     (if RetryHandler_Handle rh (attempts + 1) then (FatalExit, []) else GetLogs rh topics env (attempts + 1))"
| "GetLogs rh topics (Try (Inr unfilteredLogs) # env) attempts = (Succeeded, filter_topics topics unfilteredLogs)"

fun GetBlockHeader ::
  "RetryHandler \<Rightarrow> (error + EVMBlockHeader) attempt list \<Rightarrow> int \<Rightarrow> outcome \<times> EVMBlockHeader option"
where
  "GetBlockHeader rh [] attempts = (Pending, None)"
| "GetBlockHeader rh (CtxCanceled # env) attempts = (Canceled, None)"
| "GetBlockHeader rh (Try (Inl e) # env) attempts =
     (if RetryHandler_Handle rh (attempts + 1) then (FatalExit, None) else GetBlockHeader rh env (attempts + 1))"
| "GetBlockHeader rh (Try (Inr header) # env) attempts = (Succeeded, Some header)"

text \<open>
  The loop around an appender. Its attempt counter is declared inside the loop, so that every
  failure is the first one.
\<close>

fun appender_loop :: "RetryHandler \<Rightarrow> (error + 'e EVMBlock) list \<Rightarrow> outcome \<times> 'e EVMBlock option" where
  "appender_loop rh [] = (Pending, None)"
| "appender_loop rh (Inl e # env) = (if RetryHandler_Handle rh 1 then (FatalExit, None) else appender_loop rh env)"
| "appender_loop rh (Inr b # env) = (Succeeded, Some b)"

text \<open>
  \<open>append_event ev\<close> is what a successful appender does: it parses a log into an event, with \<open>ev\<close>
  the event of a log in a block with that header, and adds it to the block. The model of
  \<open>GetEventsByBlockRange\<close> starts from calls that ended with \<open>Succeeded\<close>.
\<close>

definition append_event :: "(EVMBlockHeader \<Rightarrow> 'l Log \<Rightarrow> 'e) \<Rightarrow> 'e EVMBlock \<Rightarrow> 'l Log \<Rightarrow> 'e EVMBlock" where
  "append_event ev b l = b\<lparr>eb_Events := eb_Events b @ [ev (eb_Header b) l]\<rparr>"

fun append_logs ::
  "(u64 \<Rightarrow> EVMBlockHeader) \<Rightarrow> (EVMBlockHeader \<Rightarrow> 'l Log \<Rightarrow> 'e) \<Rightarrow> 'l Log list \<Rightarrow> 'e EVMBlock list \<Rightarrow>
   'e EVMBlock list option"
where
  "append_logs header ev [] blocks = Some blocks"
| "append_logs header ev (l # logs) blocks =
     (if blocks = [] \<or> h_Num (eb_Header (last blocks)) < log_BlockNumber l
      then let b = header (log_BlockNumber l) in
           if h_Hash b \<noteq> log_BlockHash l then None
           else append_logs header ev logs
                  (blocks @ [append_event ev
                     \<lparr>eb_Header = \<lparr>h_Num = log_BlockNumber l, h_Hash = log_BlockHash l,
                                   h_ParentHash = h_ParentHash b, h_Timestamp = h_Timestamp b\<rparr>,
                      eb_Events = []\<rparr> l])
      else append_logs header ev logs (butlast blocks @ [append_event ev (last blocks) l]))"

fun GetEventsByBlockRange ::
  "hash list \<Rightarrow> (EVMBlockHeader \<Rightarrow> 'l Log \<Rightarrow> 'e) \<Rightarrow>
   (u64 \<Rightarrow> u64 \<Rightarrow> 'l Log list \<times> (u64 \<Rightarrow> EVMBlockHeader)) list \<Rightarrow> u64 \<Rightarrow> u64 \<Rightarrow> 'e EVMBlock list option"
where
  "GetEventsByBlockRange topics ev [] fromBlock toBlock = None"
| "GetEventsByBlockRange topics ev (query # env) fromBlock toBlock =
     (case query fromBlock toBlock of
        (logs, header) \<Rightarrow>
          (case append_logs header ev (filter_topics topics logs) [] of
             Some blocks \<Rightarrow> Some blocks
           | None \<Rightarrow> GetEventsByBlockRange topics ev env fromBlock toBlock))"

text \<open>
  One round of the loop of \<open>Download\<close>, with the events of the range, the header of a block and
  the next finalised block as the client reports them.
\<close>

definition Download_round ::
  "u64 \<Rightarrow> (u64 \<Rightarrow> u64 \<Rightarrow> 'e EVMBlock list) \<Rightarrow> (u64 \<Rightarrow> EVMBlockHeader) \<Rightarrow> (u64 \<Rightarrow> u64) \<Rightarrow> u64 \<times> u64 \<Rightarrow>
   (u64 \<times> u64) \<times> 'e EVMBlock list"
where
  "Download_round syncBlockChunkSize events header waitForNewBlocks s =
     (case s of (fromBlock, lastBlock) \<Rightarrow>
        let toBlock = (if fromBlock + syncBlockChunkSize > lastBlock then lastBlock
                       else fromBlock + syncBlockChunkSize) in
        if fromBlock > toBlock then ((fromBlock, waitForNewBlocks (fromBlock - 1)), [])
        else let blocks = events fromBlock toBlock;
                 sent = (if blocks = [] \<or> h_Num (eb_Header (last blocks)) < toBlock
                         then blocks @ [\<lparr>eb_Header = header toBlock, eb_Events = []\<rparr>] else blocks)
             in ((toBlock + 1, lastBlock), sent))"

fun Download ::
  "u64 \<Rightarrow> (u64 \<Rightarrow> u64 \<Rightarrow> 'e EVMBlock list) \<Rightarrow> (u64 \<Rightarrow> EVMBlockHeader) \<Rightarrow> (u64 \<Rightarrow> u64) \<Rightarrow> nat \<Rightarrow> u64 \<times> u64 \<Rightarrow>
   (u64 \<times> u64) \<times> 'e EVMBlock list"
where
  "Download c events header wait 0 s = (s, [])"
| "Download c events header wait (Suc n) s =
     (case Download_round c events header wait s of
        (s1, sent) \<Rightarrow> (case Download c events header wait n s1 of (s2, sent') \<Rightarrow> (s2, sent @ sent')))"

section \<open>The retry loops of the client calls\<close>

text \<open>A new last block is really new, however often the client failed before.\<close>

lemma WaitForNewBlocks_new: "WaitForNewBlocks rh env seen a = (Succeeded, n) \<Longrightarrow> seen < n"
  by (induction rh env seen a rule: WaitForNewBlocks.induct) (auto split: if_splits)

lemma GetLogs_topics: "GetLogs rh topics env a = (Succeeded, logs) \<Longrightarrow> \<forall>l\<in>set logs. log_Topic l \<in> set topics"
  by (induction rh topics env a rule: GetLogs.induct) (auto simp: filter_topics_def split: if_splits)

text \<open>
  A limit of \<open>k\<close> attempts ends the header query at the \<open>k\<close>-th failure, but a limit above one never
  ends the loop around an appender that keeps failing.
\<close>

lemma GetBlockHeader_limited:
  "0 \<le> a \<Longrightarrow> a < MaxRetryAttemptsAfterError rh \<Longrightarrow>
   GetBlockHeader rh (map (\<lambda>e. Try (Inl e)) es) a =
     (if int (length es) \<ge> MaxRetryAttemptsAfterError rh - a then (FatalExit, None) else (Pending, None))"
  by (induction es arbitrary: a) (auto simp: RetryHandler_Handle_def)

lemma appender_retries_forever:
  "1 < MaxRetryAttemptsAfterError rh \<Longrightarrow> appender_loop rh (map Inl es) = (Pending, None)"
  by (induction es) (auto simp: RetryHandler_Handle_def)

section \<open>Grouping logs into blocks\<close>

text \<open>
  The specification of \<open>GetEventsByBlockRange\<close>: one block per distinct block number, with
  the header the client reports and the events of exactly the logs of that block, in order.
\<close>

definition group_block ::
  "(u64 \<Rightarrow> EVMBlockHeader) \<Rightarrow> (EVMBlockHeader \<Rightarrow> 'l Log \<Rightarrow> 'e) \<Rightarrow> 'l Log list \<Rightarrow> u64 \<Rightarrow> 'e EVMBlock"
where
  "group_block header ev logs n =
     (let h = (header n)\<lparr>h_Num := n\<rparr> in
      \<lparr>eb_Header = h, eb_Events = map (ev h) (filter (\<lambda>l. log_BlockNumber l = n) logs)\<rparr>)"

definition group_logs ::
  "(u64 \<Rightarrow> EVMBlockHeader) \<Rightarrow> (EVMBlockHeader \<Rightarrow> 'l Log \<Rightarrow> 'e) \<Rightarrow> 'l Log list \<Rightarrow> 'e EVMBlock list"
where
  "group_logs header ev logs =
     map (group_block header ev logs) (remdups_adj (map log_BlockNumber logs))"

lemma last_group:
  "logs \<noteq> [] \<Longrightarrow> last (group_logs header ev logs) =
     group_block header ev logs (log_BlockNumber (last logs))"
  by (simp add: group_logs_def last_map)

lemma group_block_other: "log_BlockNumber l \<noteq> n \<Longrightarrow>
    group_block header ev (logs @ [l]) n = group_block header ev logs n"
  by (simp add: group_block_def)

lemma group_block_same: "log_BlockNumber l = n \<Longrightarrow>
    group_block header ev (logs @ [l]) n = append_event ev (group_block header ev logs n) l"
  by (simp add: group_block_def append_event_def Let_def)

lemma group_snoc_new:
  assumes "sorted (map log_BlockNumber (logs @ [l]))"
    and "logs = [] \<or> log_BlockNumber (last logs) < log_BlockNumber l"
  shows "group_logs header ev (logs @ [l]) =
    group_logs header ev logs @ [group_block header ev [l] (log_BlockNumber l)]"
proof -
  have less: "\<forall>k\<in>set logs. log_BlockNumber k < log_BlockNumber l"
  proof (cases logs rule: rev_cases)
    case (snoc ys y)
    with assms show ?thesis by (auto simp: sorted_append)
  qed simp
  then have "filter (\<lambda>k. log_BlockNumber k = log_BlockNumber l) logs = []"
    by (auto simp: filter_empty_conv)
  then have "group_block header ev (logs @ [l]) (log_BlockNumber l) =
      group_block header ev [l] (log_BlockNumber l)"
    by (simp add: group_block_def)
  moreover have "remdups_adj (map log_BlockNumber logs @ [log_BlockNumber l]) =
      remdups_adj (map log_BlockNumber logs) @ [log_BlockNumber l]"
    using assms(2) by (cases logs rule: rev_cases) (auto simp: remdups_adj_append_two)
  moreover have "group_block header ev (logs @ [l]) n = group_block header ev logs n"
    if "n \<in> log_BlockNumber ` set logs" for n
    using that less by (intro group_block_other) auto
  ultimately show ?thesis by (auto simp: group_logs_def)
qed

lemma strict_remdups_adj: "sorted (xs :: 'a::linorder list) \<Longrightarrow> sorted_wrt (<) (remdups_adj xs)"
  by (induction xs rule: remdups_adj.induct) (auto simp: less_le)

lemma group_snoc_same:
  assumes "sorted (map log_BlockNumber (logs @ [l]))" and "logs \<noteq> []"
    and "log_BlockNumber (last logs) = log_BlockNumber l"
  shows "group_logs header ev (logs @ [l]) = butlast (group_logs header ev logs) @
    [append_event ev (last (group_logs header ev logs)) l]"
proof -
  let ?ns = "remdups_adj (map log_BlockNumber logs)"
  obtain ys y where ys: "logs = ys @ [y]" using assms(2) by (cases logs rule: rev_cases) auto
  then have same: "remdups_adj (map log_BlockNumber logs @ [log_BlockNumber l]) = ?ns"
    using assms(3) by (simp add: remdups_adj_append_two)
  have l: "last ?ns = log_BlockNumber l" using assms(2,3) by (simp add: last_map)
  have ne: "?ns \<noteq> []" using assms(2) by simp
  have "sorted_wrt (<) ?ns"
    using assms(1) by (intro strict_remdups_adj) (simp add: sorted_append)
  then have "n \<noteq> log_BlockNumber l" if "n \<in> set (butlast ?ns)" for n
    using that ne l by (metis append_butlast_last_id in_set_conv_decomp less_irrefl list.set_intros(1)
        sorted_wrt_append)
  then have "map (group_block header ev (logs @ [l])) (butlast ?ns) =
      map (group_block header ev logs) (butlast ?ns)"
    by (auto intro!: group_block_other)
  moreover have "?ns = butlast ?ns @ [log_BlockNumber l]" using ne l by (metis append_butlast_last_id)
  then have "map f ?ns = map f (butlast ?ns) @ [f (log_BlockNumber l)]" for f :: "u64 \<Rightarrow> 'b EVMBlock"
    by (metis list.simps(8,9) map_append)
  ultimately show ?thesis
    using same by (simp add: group_logs_def group_block_same)
qed

lemma header_renum:
  "h\<lparr>h_Num := n\<rparr> = \<lparr>h_Num = n, h_Hash = h_Hash h, h_ParentHash = h_ParentHash h, h_Timestamp = h_Timestamp h\<rparr>"
  by (cases h) simp

lemma append_logs_group:
  "sorted (map log_BlockNumber (done @ logs)) \<Longrightarrow>
   append_logs header ev logs (group_logs header ev done) = Some bs \<Longrightarrow>
   bs = group_logs header ev (done @ logs)"
proof (induction logs arbitrary: "done")
  case Nil
  then show ?case by simp
next
  case (Cons l logs)
  let ?g = "group_logs header ev done"
  have srt: "sorted (map log_BlockNumber (done @ [l]))"
    using Cons.prems(1) by (auto simp: sorted_append)
  have empty: "?g = [] \<longleftrightarrow> done = []" by (simp add: group_logs_def)
  have lst: "done \<noteq> [] \<Longrightarrow> h_Num (eb_Header (last ?g)) = log_BlockNumber (last done)"
    by (simp add: last_group group_block_def Let_def)
  have IH: "append_logs header ev logs (group_logs header ev (done @ [l])) = Some bs \<Longrightarrow> ?case"
    using Cons.IH [of "done @ [l]"] Cons.prems(1) by simp
  show ?case
  proof (cases "done = [] \<or> log_BlockNumber (last done) < log_BlockNumber l")
    case True
    have "append_event ev \<lparr>eb_Header = \<lparr>h_Num = log_BlockNumber l, h_Hash = log_BlockHash l,
        h_ParentHash = h_ParentHash (header (log_BlockNumber l)),
        h_Timestamp = h_Timestamp (header (log_BlockNumber l))\<rparr>, eb_Events = []\<rparr> l =
      group_block header ev [l] (log_BlockNumber l)"
      if "h_Hash (header (log_BlockNumber l)) = log_BlockHash l"
      using that [symmetric] by (simp add: append_event_def group_block_def Let_def header_renum)
    then show ?thesis
      using IH Cons.prems(2) True lst group_snoc_new [OF srt True, of header ev]
      by (auto simp: Let_def empty split: if_splits)
  next
    case False
    then have "log_BlockNumber (last done) = log_BlockNumber l"
      using srt by (cases "done" rule: rev_cases) (auto simp: sorted_append)
    from group_snoc_same [OF srt _ this, of header ev] False IH Cons.prems(2) lst
    show ?thesis by (auto simp: empty)
  qed
qed

lemma append_logs_spec:
  "sorted (map log_BlockNumber logs) \<Longrightarrow> append_logs header ev logs [] = Some bs \<Longrightarrow>
   bs = group_logs header ev logs"
  using append_logs_group [of "[]" logs header ev bs] by (simp add: group_logs_def)

text \<open>When the headers and the logs agree on the hashes, the first attempt succeeds.\<close>

lemma append_logs_total:
  "(\<And>l. l \<in> set logs \<Longrightarrow> h_Hash (header (log_BlockNumber l)) = log_BlockHash l) \<Longrightarrow>
   \<exists>bs'. append_logs header ev logs bs = Some bs'"
  by (induction logs arbitrary: bs) (simp_all add: Let_def)

lemma group_logs_nums: "map (\<lambda>b. h_Num (eb_Header b)) (group_logs header ev logs) =
    remdups_adj (map log_BlockNumber logs)"
  by (simp add: group_logs_def group_block_def Let_def comp_def)

section \<open>The chunks of the downloader\<close>

text \<open>
  What a reader of the chain promises: the events of a range come in blocks of that range, in
  increasing order, one for each block of the set \<open>E\<close> of blocks with events.
\<close>

definition chain_reader ::
  "u64 set \<Rightarrow> (u64 \<Rightarrow> u64 \<Rightarrow> 'e EVMBlock list) \<Rightarrow> (u64 \<Rightarrow> EVMBlockHeader) \<Rightarrow> bool"
where
  "chain_reader E events header \<longleftrightarrow>
     (\<forall>f t. sorted_wrt (<) (map (\<lambda>b. h_Num (eb_Header b)) (events f t)) \<and>
        (\<lambda>b. h_Num (eb_Header b)) ` set (events f t) = E \<inter> {f..t}) \<and>
     (\<forall>n. h_Num (header n) = n)"

text \<open>\<open>covers E f f' sent\<close>: the blocks sent are those of \<open>E\<close> in \<open>[f, f')\<close> and the last of the range.\<close>

definition covers :: "u64 set \<Rightarrow> u64 \<Rightarrow> u64 \<Rightarrow> 'e EVMBlock list \<Rightarrow> bool" where
  "covers E f f' sent \<longleftrightarrow>
     sorted_wrt (<) (map (\<lambda>b. h_Num (eb_Header b)) sent) \<and>
     E \<inter> {f..<f'} \<subseteq> (\<lambda>b. h_Num (eb_Header b)) ` set sent \<and>
     (\<lambda>b. h_Num (eb_Header b)) ` set sent \<subseteq> {f..<f'} \<and>
     (f < f' \<longrightarrow> sent \<noteq> [] \<and> h_Num (eb_Header (last sent)) + 1 = f') \<and> f \<le> f'"

lemma covers_refl [simp]: "covers E f f []"
  by (simp add: covers_def)

lemma covers_append:
  assumes "covers E f g xs" and "covers E g h ys"
  shows "covers E f h (xs @ ys)"
proof -
  let ?n = "\<lambda>b. h_Num (eb_Header b)"
  from assms have xs: "sorted_wrt (<) (map ?n xs)" "E \<inter> {f..<g} \<subseteq> ?n ` set xs" "?n ` set xs \<subseteq> {f..<g}"
      "f < g \<longrightarrow> xs \<noteq> [] \<and> ?n (last xs) + 1 = g" "f \<le> g"
    and ys: "sorted_wrt (<) (map ?n ys)" "E \<inter> {g..<h} \<subseteq> ?n ` set ys" "?n ` set ys \<subseteq> {g..<h}"
      "g < h \<longrightarrow> ys \<noteq> [] \<and> ?n (last ys) + 1 = h" "g \<le> h"
    unfolding covers_def by blast+
  have "?n x < ?n y" if "x \<in> set xs" "y \<in> set ys" for x y
    using that xs(3) ys(3) by (meson atLeastLessThan_iff image_subset_iff less_le_trans)
  then have "sorted_wrt (<) (map ?n (xs @ ys))"
    using xs(1) ys(1) by (auto simp: sorted_wrt_append)
  moreover have "E \<inter> {f..<h} \<subseteq> ?n ` set (xs @ ys)"
  proof
    fix m assume m: "m \<in> E \<inter> {f..<h}"
    show "m \<in> ?n ` set (xs @ ys)"
    proof (cases "m < g")
      case True
      with m have "m \<in> E \<inter> {f..<g}" by simp
      with xs(2) show ?thesis by auto
    next
      case False
      with m have "m \<in> E \<inter> {g..<h}" by simp
      with ys(2) show ?thesis by auto
    qed
  qed
  moreover have "?n ` set (xs @ ys) \<subseteq> {f..<h}"
    using xs(3,5) ys(3,5) by (auto simp: image_subset_iff)
  moreover have "f < h \<longrightarrow> xs @ ys \<noteq> [] \<and> ?n (last (xs @ ys)) + 1 = h"
  proof (cases "g < h")
    case True
    with ys(4) show ?thesis by simp
  next
    case False
    with ys(3,5) have "ys = []" "g = h" by auto
    with xs(4) show ?thesis by simp
  qed
  ultimately show ?thesis using xs(5) ys(5) by (simp add: covers_def)
qed

lemma less_plus_one: "t + 1 \<noteq> (0 :: u64) \<Longrightarrow> m < t + 1 \<longleftrightarrow> m \<le> t"
proof -
  assume "t + 1 \<noteq> (0 :: u64)"
  then have "unat (t + 1) = Suc (unat t)" by (simp add: unatSuc add.commute)
  then show ?thesis by (simp add: word_less_nat_alt word_le_nat_alt less_Suc_eq_le)
qed

lemma covers_chunk:
  assumes rd: "chain_reader E events header" and "f \<le> t" and t: "t + 1 \<noteq> 0"
    and sent: "sent = (if events f t = [] \<or> h_Num (eb_Header (last (events f t))) < t
      then events f t @ [\<lparr>eb_Header = header t, eb_Events = []\<rparr>] else events f t)"
  shows "covers E f (t + 1) sent"
proof -
  let ?n = "\<lambda>b. h_Num (eb_Header b)"
  let ?b = "events f t"
  have srt: "sorted_wrt (<) (map ?n ?b)" and img: "?n ` set ?b = E \<inter> {f..t}" and hd: "h_Num (header t) = t"
    using rd by (simp_all add: chain_reader_def)
  have ivl: "{f..<t + 1} = {f..t}" by (auto simp: less_plus_one [OF t])
  have flt: "f < t + 1" using assms(2) by (simp add: less_plus_one [OF t])
  show ?thesis
  proof (cases "?b = [] \<or> ?n (last ?b) < t")
    case True
    have "?n b < t" if "b \<in> set ?b" for b
    proof -
      have "?b \<noteq> []" using that by auto
      then obtain ys y where ys: "?b = ys @ [y]" by (metis rev_exhaust)
      with True have "?n y < t" by auto
      with srt ys that show ?thesis by (auto simp: sorted_wrt_append)
    qed
    then have "sorted_wrt (<) (map ?n sent)" using srt True hd by (auto simp: sent sorted_wrt_append)
    moreover have "?n ` set sent = insert t (E \<inter> {f..t})" using True hd img by (auto simp: sent)
    ultimately show ?thesis
      using True hd flt assms(2) unfolding covers_def ivl by (auto simp: sent last_map)
  next
    case False
    then have "last ?b \<in> set ?b" by simp
    with img have "?n (last ?b) \<le> t" by auto
    with False have "?n (last ?b) = t" by simp
    with False img srt flt show ?thesis unfolding covers_def ivl by (auto simp: sent last_map)
  qed
qed

text \<open>No block number up to \<open>M\<close> makes the chunk arithmetic wrap around.\<close>

definition chunk_bound :: "u64 \<Rightarrow> (u64 \<Rightarrow> u64) \<Rightarrow> u64 \<Rightarrow> u64 \<times> u64 \<Rightarrow> bool" where
  "chunk_bound c wait M s \<longleftrightarrow> unat M + 1 + unat c < 2 ^ 64 \<and> (\<forall>n. wait n \<le> M) \<and>
     snd s \<le> M \<and> fst s \<le> M + 1"

lemma Download_round_ok:
  assumes "chain_reader E events header" and "chunk_bound c wait M (f, l)"
    and "Download_round c events header wait (f, l) = ((f', l'), sent)"
  shows "covers E f f' sent \<and> chunk_bound c wait M (f', l') \<and> (f \<le> l \<longrightarrow> f < f')"
proof -
  define t where "t = (if f + c > l then l else f + c)"
  have M: "unat M + 1 + unat c < 2 ^ 64" "l \<le> M" "f \<le> M + 1" "\<forall>n. wait n \<le> M"
    using assms(2) by (auto simp: chunk_bound_def)
  have M1: "unat (M + 1) = unat M + 1" using M(1) by (simp add: unat_word_ariths)
  then have "unat f \<le> unat M + 1" using M(3) by (simp add: word_le_nat_alt)
  then have "unat f + unat c < 2 ^ 64" using M(1) by linarith
  then have fc: "unat (f + c) = unat f + unat c" by (simp add: unat_word_ariths)
  have tM: "t \<le> M" using M(2) by (auto simp: t_def intro: order_trans)
  then have "unat t \<le> unat M" by (simp add: word_le_nat_alt)
  then have t1: "unat (t + 1) = unat t + 1" using M(1) by (simp add: unat_word_ariths)
  then have tne: "t + 1 \<noteq> 0" by (metis Suc_eq_plus1 nat.distinct(1) unat_0)
  define blocks where "blocks = (if events f t = [] \<or> h_Num (eb_Header (last (events f t))) < t
      then events f t @ [\<lparr>eb_Header = header t, eb_Events = []\<rparr>] else events f t)"
  have round: "Download_round c events header wait (f, l) =
      (if f > t then ((f, wait (f - 1)), []) else ((t + 1, l), blocks))"
    by (simp add: Download_round_def t_def blocks_def Let_def)
  show ?thesis
  proof (cases "f > t")
    case True
    have "\<not> f \<le> l"
    proof
      assume "f \<le> l"
      with True have "f + c < f" by (auto simp: t_def split: if_splits)
      then show False using fc by (simp add: word_less_nat_alt)
    qed
    with True round assms(3) M show ?thesis by (simp add: chunk_bound_def)
  next
    case False
    then have ft: "f \<le> t" by simp
    have "covers E f (t + 1) blocks" by (rule covers_chunk [OF assms(1) ft tne blocks_def])
    moreover have "t + 1 \<le> M + 1" using tM by (simp add: word_le_nat_alt t1 M1)
    moreover have "f < t + 1" using ft less_plus_one [OF tne] by blast
    ultimately show ?thesis using False round assms(3) M by (simp add: chunk_bound_def)
  qed
qed

lemma Download_covers_rounds:
  assumes "chain_reader E events header"
  shows "chunk_bound c wait M s \<Longrightarrow> Download c events header wait n s = (s', sent) \<Longrightarrow>
    covers E (fst s) (fst s') sent \<and> chunk_bound c wait M s'"
proof (induction n arbitrary: s s' sent)
  case 0
  then show ?case by simp
next
  case (Suc n)
  obtain f1 l1 sent1 where r: "Download_round c events header wait s = ((f1, l1), sent1)"
    by (metis surj_pair)
  obtain s2 sent2 where d: "Download c events header wait n (f1, l1) = (s2, sent2)" by (metis surj_pair)
  have "covers E (fst s) f1 sent1" and b: "chunk_bound c wait M (f1, l1)"
    using Download_round_ok [OF assms, of c wait M "fst s" "snd s"] Suc.prems(1) r by simp_all
  moreover have "covers E f1 (fst s2) sent2 \<and> chunk_bound c wait M s2"
    using Suc.IH [OF b d] by simp
  moreover have "s' = s2" "sent = sent1 @ sent2" using Suc.prems(2) r d by simp_all
  ultimately show ?case using covers_append by auto
qed

section \<open>The interface of a processor\<close>

text \<open>
  What the driver relies on. \<open>store p\<close> is the durable part of a processor and \<open>blocks d\<close> the
  numbers of the blocks it has recorded: a failed call changes nothing durable, a processed
  block is recorded once, a reorg drops the blocks from a number on, and the last processed
  block is the greatest recorded one, or 0.
\<close>

locale sync_processor =
  fixes P :: "('p, 'e) processorInterface" and store :: "'p \<Rightarrow> 'd" and blocks :: "'d \<Rightarrow> u64 set"
  assumes process_error: "pi_ProcessBlock P io p b = (p', Some e) \<Longrightarrow> store p' = store p"
    and process_ok: "pi_ProcessBlock P io p b = (p', None) \<Longrightarrow>
      bk_Num b \<notin> blocks (store p) \<and> blocks (store p') = insert (bk_Num b) (blocks (store p))"
    and reorg_error: "pi_Reorg P io p n = (p', Some e) \<Longrightarrow> store p' = store p"
    and reorg_ok: "pi_Reorg P io p n = (p', None) \<Longrightarrow>
      blocks (store p') = {m \<in> blocks (store p). m < n}"
    and last_ok: "pi_GetLastProcessedBlock P io p = Inr m \<Longrightarrow>
      blocks (store p) = {} \<and> m = 0 \<or> m \<in> blocks (store p) \<and> (\<forall>k\<in>blocks (store p). k \<le> m)"
begin

lemma process_loop_store:
  "process_loop P rh env p b a = (p', res) \<Longrightarrow>
   (res = Succeeded \<longrightarrow> bk_Num b \<notin> blocks (store p) \<and>
      blocks (store p') = insert (bk_Num b) (blocks (store p))) \<and>
   (res \<noteq> Succeeded \<longrightarrow> store p' = store p)"
proof (induction env arbitrary: p a)
  case Nil
  then show ?case by auto
next
  case (Cons x env)
  show ?case
  proof (cases x)
    case CtxCanceled
    with Cons.prems show ?thesis by auto
  next
    case (Try io)
    obtain p1 r where pb: "pi_ProcessBlock P io p b = (p1, r)" by (metis surj_pair)
    show ?thesis
    proof (cases r)
      case None
      with Cons.prems Try pb process_ok [of io p b p1] show ?thesis by auto
    next
      case (Some e)
      with pb have "store p1 = store p" by (auto dest: process_error)
      with Some Cons.prems Try pb Cons.IH [of p1 "a + 1"] show ?thesis by (auto split: if_splits)
    qed
  qed
qed

lemma handleReorg_store:
  "handleReorg P rh env p n a = (p', res) \<Longrightarrow>
   (res = Succeeded \<longrightarrow> blocks (store p') = {m \<in> blocks (store p). m < n}) \<and>
   (res \<noteq> Succeeded \<longrightarrow> store p' = store p)"
proof (induction env arbitrary: p a)
  case Nil
  then show ?case by auto
next
  case (Cons io env)
  obtain p1 r where pr: "pi_Reorg P io p n = (p1, r)" by (metis surj_pair)
  show ?case
  proof (cases r)
    case None
    with Cons.prems pr reorg_ok [of io p n p1] show ?thesis by auto
  next
    case (Some e)
    with pr have "store p1 = store p" by (auto dest: reorg_error)
    with Some Cons.prems pr Cons.IH [of p1 "a + 1"] show ?thesis by (auto split: if_splits)
  qed
qed

lemma getLast_loop_ok:
  "getLast_loop P rh env p a = (Succeeded, m) \<Longrightarrow>
   blocks (store p) = {} \<and> m = 0 \<or> m \<in> blocks (store p) \<and> (\<forall>k\<in>blocks (store p). k \<le> m)"
  by (induction env arbitrary: a) (auto split: sum.splits if_splits dest: last_ok)

text \<open>A block is recorded only after it was handed to the reorg detector.\<close>

lemma handleNewBlock_tracked:
  assumes "handleNewBlock P rh tracks procs p b = (p', res, tr)"
  shows "blocks (store p') \<subseteq> blocks (store p) \<union> fst ` set tr"
proof (cases "track_loop rh tracks 0")
  case Succeeded
  let ?b = "\<lparr>bk_Num = h_Num (eb_Header b), bk_Events = eb_Events b\<rparr>"
  obtain p1 r where pl: "process_loop P rh procs p ?b 0 = (p1, r)" by (metis surj_pair)
  with Succeeded assms have "p' = p1" "tr = [(h_Num (eb_Header b), h_Hash (eb_Header b))]"
    by (auto simp: handleNewBlock_def)
  with process_loop_store [OF pl] show ?thesis by (cases "r = Succeeded") auto
qed (use assms in \<open>auto simp: handleNewBlock_def\<close>)

lemma driver_step_tracked:
  assumes "driver_step P rh s s'"
    and "blocks (store (d_processor s)) \<subseteq> B \<union> fst ` set (d_tracked s)"
  shows "blocks (store (d_processor s')) \<subseteq> B \<union> fst ` set (d_tracked s')"
  using assms(1)
proof (cases rule: driver_step.cases)
  case (NewBlock b s1 tracks procs)
  have s1: "d_processor s1 = d_processor s" "d_tracked s1 = d_tracked s"
    using NewBlock(3) by (auto simp: receive_def split: list.splits if_splits)
  obtain p' res tr where h: "handleNewBlock P rh tracks procs (d_processor s1) b = (p', res, tr)"
    by (metis surj_pair)
  with NewBlock(1) handleNewBlock_tracked [OF h] assms(2) s1 show ?thesis
    by (auto simp: after_block_def)
next
  case (Reorg reorgs n p lasts lpb)
  with handleReorg_store [of rh reorgs "d_processor s" n 0 p Succeeded] assms(2) show ?thesis
    by (auto simp: start_download_def)
qed (use assms(2) in auto)

lemma driver_reach_tracked:
  "driver_reach P rh s s' \<Longrightarrow> blocks (store (d_processor s)) \<subseteq> B \<union> fst ` set (d_tracked s) \<Longrightarrow>
   blocks (store (d_processor s')) \<subseteq> B \<union> fst ` set (d_tracked s')"
  by (induction rule: rtranclp_induct) (blast dest: driver_step_tracked)+

text \<open>After a reorg the download restarts at or before the first reorged block.\<close>

lemma reorg_restart:
  assumes "handleReorg P rh reorgs p n 0 = (p', Succeeded)"
    and "getLast_loop P rh lasts p' 0 = (Succeeded, lpb)" and "0 < n"
  shows "lpb < n \<and> d_from (start_download p' tr lpb) \<le> n"
proof -
  have "lpb < n"
    using getLast_loop_ok [OF assms(2)] handleReorg_store [OF assms(1)] assms(3) by (auto simp: word_gt_0)
  then show ?thesis by (simp add: start_download_def inc_le)
qed

end

section \<open>Properties\<close>

text \<open>C34. The downloader misses nothing: after any number of rounds, started at block \<open>f\<close>, the
  blocks sent to the driver have strictly increasing numbers, contain every block with
  events from \<open>f\<close> to the next block to download, and end with the block before it.\<close>

theorem Download_covers:
  assumes "chain_reader E events header" and "chunk_bound c wait M (f, l)"
    and "Download c events header wait n (f, l) = ((f', l'), sent)"
  shows "covers E f f' sent"
  using Download_covers_rounds [OF assms(1,2,3)] by simp

definition sample_event_block :: "unit EVMBlock" where
  "sample_event_block = \<lparr>eb_Header = \<lparr>h_Num = 5, h_Hash = 50, h_ParentHash = 40, h_Timestamp = 1\<rparr>, eb_Events = [()]\<rparr>"

definition sample_header :: "u64 \<Rightarrow> EVMBlockHeader" where
  "sample_header n = \<lparr>h_Num = n, h_Hash = ucast n * 10, h_ParentHash = 0, h_Timestamp = 1\<rparr>"

theorem Download_covers_witness:
  "covers {5} 1 13 [sample_event_block, \<lparr>eb_Header = sample_header 8, eb_Events = []\<rparr>,
     \<lparr>eb_Header = sample_header 12, eb_Events = []\<rparr>]"
proof (rule Download_covers)
  let ?events = "\<lambda>f t. if f \<le> 5 \<and> 5 \<le> t then [sample_event_block] else []"
  show "chain_reader {5} ?events sample_header"
    by (simp add: chain_reader_def sample_event_block_def sample_header_def)
  show "chunk_bound 7 (\<lambda>_. 12) 12 (1, 12)" by (simp add: chunk_bound_def)
  show "Download 7 ?events sample_header (\<lambda>_. 12) (Suc (Suc 0)) (1, 12) = ((13, 12), [sample_event_block,
     \<lparr>eb_Header = sample_header 8, eb_Events = []\<rparr>, \<lparr>eb_Header = sample_header 12, eb_Events = []\<rparr>])"
    by (simp add: Download_round_def sample_event_block_def Let_def)
qed

text \<open>Logs become blocks: when the client returns the logs of a range ordered by block and
  the headers have the same hashes, \<open>GetEventsByBlockRange\<close> returns one block per distinct
  block number, in order, holding the events of exactly the wanted logs of that block.\<close>

theorem GetEventsByBlockRange_groups:
  assumes "query f t = (logs, header)" and "sorted (map log_BlockNumber logs)"
    and "\<forall>l\<in>set logs. h_Hash (header (log_BlockNumber l)) = log_BlockHash l"
  shows "\<exists>bs. GetEventsByBlockRange topics ev (query # env) f t = Some bs \<and>
    sorted_wrt (<) (map (\<lambda>b. h_Num (eb_Header b)) bs) \<and>
    (\<lambda>b. h_Num (eb_Header b)) ` set bs = log_BlockNumber ` {l \<in> set logs. log_Topic l \<in> set topics} \<and>
    (\<forall>b\<in>set bs. eb_Events b = map (ev (eb_Header b))
       (filter (\<lambda>l. log_Topic l \<in> set topics \<and> log_BlockNumber l = h_Num (eb_Header b)) logs))"
proof -
  let ?logs = "filter_topics topics logs"
  have srt: "sorted (map log_BlockNumber ?logs)"
    using assms(2) by (simp add: filter_topics_def sorted_filter)
  obtain bs where ap: "append_logs header ev ?logs [] = Some bs"
    using append_logs_total [of ?logs header ev "[]"] assms(3) by (auto simp: filter_topics_def)
  have bs: "bs = group_logs header ev ?logs" by (rule append_logs_spec [OF srt ap])
  have "map (\<lambda>b. h_Num (eb_Header b)) bs = remdups_adj (map log_BlockNumber ?logs)"
    unfolding bs by (rule group_logs_nums)
  moreover from this have "(\<lambda>b. h_Num (eb_Header b)) ` set bs =
      log_BlockNumber ` {l \<in> set logs. log_Topic l \<in> set topics}"
    by (metis (no_types) filter_topics_def list.set_map remdups_adj_set set_filter)
  moreover have "eb_Events b = map (ev (eb_Header b))
       (filter (\<lambda>l. log_Topic l \<in> set topics \<and> log_BlockNumber l = h_Num (eb_Header b)) logs)"
    if "b \<in> set bs" for b
    using that by (auto simp: bs group_logs_def group_block_def Let_def filter_topics_def conj_commute)
  ultimately show ?thesis using ap assms(1) strict_remdups_adj [OF srt] by simp
qed

theorem GetEventsByBlockRange_groups_witness:
  "\<exists>bs. GetEventsByBlockRange [7] (\<lambda>h l. log_Data l)
       [\<lambda>f t. ([\<lparr>log_BlockNumber = 3, log_BlockHash = 30, log_Topic = 7, log_Data = ''a''\<rparr>,
                \<lparr>log_BlockNumber = 3, log_BlockHash = 30, log_Topic = 8, log_Data = ''b''\<rparr>,
                \<lparr>log_BlockNumber = 4, log_BlockHash = 40, log_Topic = 7, log_Data = ''c''\<rparr>], sample_header)] 1 5 =
      Some bs \<and> map (\<lambda>b. (h_Num (eb_Header b), eb_Events b)) bs = [(3, [''a'']), (4, [''c''])]"
  using GetEventsByBlockRange_groups [of
      "\<lambda>f t. ([\<lparr>log_BlockNumber = 3, log_BlockHash = 30, log_Topic = 7, log_Data = ''a''\<rparr>,
                \<lparr>log_BlockNumber = 3, log_BlockHash = 30, log_Topic = 8, log_Data = ''b''\<rparr>,
                \<lparr>log_BlockNumber = 4, log_BlockHash = 40, log_Topic = 7, log_Data = ''c''\<rparr>], sample_header)"
      1 5 "[\<lparr>log_BlockNumber = 3, log_BlockHash = 30, log_Topic = 7, log_Data = ''a''\<rparr>,
                \<lparr>log_BlockNumber = 3, log_BlockHash = 30, log_Topic = 8, log_Data = ''b''\<rparr>,
                \<lparr>log_BlockNumber = 4, log_BlockHash = 40, log_Topic = 7, log_Data = ''c''\<rparr>]"
      sample_header "[7]" "\<lambda>h l. log_Data l" "[]"]
  by (simp add: sample_header_def filter_topics_def Let_def append_event_def)

text \<open>Retries are bounded by the configuration: a block whose processing keeps failing ends the
  process after exactly the configured number of attempts, and with a negative limit it is
  retried for ever.\<close>

theorem process_loop_retries:
  assumes "\<forall>io p. \<exists>p' e. pi_ProcessBlock P io p b = (p', Some e) \<and> e \<noteq> ErrInconsistentState"
  shows "snd (process_loop P rh (map Try ios) p b 0) =
    (if MaxRetryAttemptsAfterError rh > -1 \<and> ios \<noteq> [] \<and> MaxRetryAttemptsAfterError rh \<le> int (length ios)
     then FatalExit else Pending)"
proof -
  have "snd (process_loop P rh (map Try ios) p b a) =
      (if MaxRetryAttemptsAfterError rh > -1 \<and> ios \<noteq> [] \<and>
          MaxRetryAttemptsAfterError rh \<le> a + int (length ios) then FatalExit else Pending)"
    for a
  proof (induction ios arbitrary: p a)
    case Nil
    then show ?case by simp
  next
    case (Cons io ios)
    obtain p' e where "pi_ProcessBlock P io p b = (p', Some e)" "e \<noteq> ErrInconsistentState"
      using assms by blast
    with Cons.IH [of p' "a + 1"] show ?case
      by (auto simp: RetryHandler_Handle_def)
  qed
  from this [of 0] show ?thesis by simp
qed

definition sample_failing :: "error \<Rightarrow> (unit, unit) processorInterface" where
  "sample_failing e = \<lparr>pi_GetLastProcessedBlock = \<lambda>_ _. Inr 0, pi_ProcessBlock = \<lambda>_ p _. (p, Some e),
     pi_Reorg = \<lambda>_ p _. (p, None)\<rparr>"

theorem process_loop_retries_witness:
  "snd (process_loop (sample_failing ErrSQL) \<lparr>MaxRetryAttemptsAfterError = 3\<rparr>
     (map Try [\<lambda>_. False, \<lambda>_. False, \<lambda>_. False]) () \<lparr>bk_Num = 1, bk_Events = []\<rparr> 0) = FatalExit"
  by (subst process_loop_retries) (simp_all add: sample_failing_def)

text \<open>A driver that stopped because of an inconsistent state does not stay idle: the cancelled
  downloader closes the channel, and from then on the driver can receive the zero block,
  which it hands to the reorg detector as block 0 with hash 0.\<close>

theorem inconsistent_driver_tracks_zero_block:
  assumes "d_running s" and "d_channel s = [b]"
    and "handleNewBlock P rh tracks procs (d_processor s) b = (p', Inconsistent, tr)"
  shows "\<exists>s'. driver_reach P rh s s' \<and> (0, 0) \<in> set (d_tracked s')"
proof -
  let ?s1 = "s\<lparr>d_channel := []\<rparr>"
  let ?s2 = "after_block ?s1 (p', Inconsistent, tr)"
  let ?s3 = "?s2\<lparr>d_closed := True\<rparr>"
  have "receive s = Some (b, ?s1)" using assms(2) by (simp add: receive_def)
  from driver_step.NewBlock [OF assms(1) this, of P rh tracks procs]
  have 1: "driver_step P rh s ?s2" using assms(3) by simp
  have 2: "driver_step P rh ?s2 ?s3"
    by (rule driver_step.Close) (simp_all add: after_block_def)
  have "receive ?s3 = Some (zero_block, ?s3)" and "d_running ?s3"
    by (simp_all add: receive_def after_block_def)
  then have 3: "driver_step P rh ?s3 (after_block ?s3 (handleNewBlock P rh [Try None] [] (d_processor ?s3) zero_block))"
    by (intro driver_step.NewBlock)
  moreover have "(0, 0) \<in> set (d_tracked (after_block ?s3
      (handleNewBlock P rh [Try None] [] (d_processor ?s3) zero_block)))"
    by (simp add: handleNewBlock_def after_block_def zero_block_def)
  ultimately show ?thesis using 1 2 by (meson rtranclp.rtrancl_into_rtrancl rtranclp.rtrancl_refl)
qed

theorem inconsistent_driver_tracks_zero_block_witness:
  "\<exists>s'. driver_reach (sample_failing ErrInconsistentState) \<lparr>MaxRetryAttemptsAfterError = 3\<rparr>
     ((start_download () [] 4)\<lparr>d_channel := [sample_event_block]\<rparr>) s' \<and> (0, 0) \<in> set (d_tracked s')"
  by (rule inconsistent_driver_tracks_zero_block [where tracks = "[Try None]" and procs = "[Try (\<lambda>_. False)]"
        and b = sample_event_block])
    (simp_all add: start_download_def handleNewBlock_def sample_failing_def)

end
