(* ===== verification/BridgeSync.thy ===== *)
theory BridgeSync
  imports EvmSync AppendOnlyTree
begin

text \<open>
  The bridge syncer (\<open>src/bridgesync/processor.go\<close>, \<open>bridgesync.go\<close>): the tables \<open>block\<close>,
  \<open>bridge\<close> and \<open>claim\<close>, the exit tree built from the bridge events, and the global index
  codec. Its processor implements the interface the sync driver relies on.
\<close>

section \<open>Data\<close>

record Bridge =
  br_BlockNum :: u64
  br_BlockPos :: u64
  br_LeafType :: u8
  br_OriginNetwork :: u32
  br_OriginAddress :: address
  br_DestinationNetwork :: u32
  br_DestinationAddress :: address
  br_Amount :: "int option"
  br_Metadata :: bytes
  br_DepositCount :: u32

record Claim =
  cl_BlockNum :: u64
  cl_BlockPos :: u64
  cl_GlobalIndex :: "int option"
  cl_OriginNetwork :: u32
  cl_OriginAddress :: address
  cl_DestinationAddress :: address
  cl_Amount :: "int option"
  cl_ProofLocalExitRoot :: Proof
  cl_ProofRollupExitRoot :: Proof
  cl_MainnetExitRoot :: hash
  cl_RollupExitRoot :: hash
  cl_GlobalExitRoot :: hash
  cl_DestinationNetwork :: u32
  cl_Metadata :: bytes
  cl_IsMessage :: bool

record Event =
  ev_Pos :: u64
  ev_Bridge :: "Bridge option"
  ev_Claim :: "Claim option"

text \<open>An element of \<open>sync.Block.Events\<close>: an \<open>Event\<close>, or a value the type assertion rejects.\<close>

datatype bridge_item = BridgeItem Event | OtherItem

record bridge_db =
  blk_rows :: "u64 list"
  bridge_rows :: "Bridge list"
  claim_rows :: "Claim list"
  exit_tree :: tree_db

record bridge_processor =
  bp_db :: bridge_db
  bp_exitTree :: AppendOnlyTree

text \<open>\<open>FillBytes\<close> of a 32-byte buffer: the absolute value, or a panic when it does not fit.\<close>

definition FillBytes32 :: "int \<Rightarrow> bytes option" where
  "FillBytes32 x = (if \<bar>x\<bar> < 2 ^ 256 then Some (be_bytes 32 (of_int \<bar>x\<bar> :: hash)) else None)"

text \<open>\<open>Hash\<close> sets a missing amount to zero and then hashes the packed fields.\<close>

definition Bridge_with_amount :: "Bridge \<Rightarrow> Bridge" where
  "Bridge_with_amount b = (case br_Amount b of None \<Rightarrow> b\<lparr>br_Amount := Some 0\<rparr> | Some _ \<Rightarrow> b)"

definition Bridge_Hash :: "keccak \<Rightarrow> Bridge \<Rightarrow> error + hash" where
  "Bridge_Hash K b =
     (case FillBytes32 (case br_Amount b of None \<Rightarrow> 0 | Some a \<Rightarrow> a) of
        None \<Rightarrow> Inl ErrPanic
      | Some buf \<Rightarrow>
          Inr (K ([br_LeafType b] @ be_bytes 4 (br_OriginNetwork b) @ addr_bytes (br_OriginAddress b) @
                  be_bytes 4 (br_DestinationNetwork b) @ addr_bytes (br_DestinationAddress b) @ buf @
                  hash_bytes (K (br_Metadata b)))))"

section \<open>Operations of the processor\<close>

definition getLastProcessedBlockWithTx :: "io \<Rightarrow> u64 list \<Rightarrow> error + u64" where
  "getLastProcessedBlockWithTx io blocks =
     (case query_row io (SqlSelect ''block'' []) (first_desc id blocks) of
        Inl e \<Rightarrow> if e = ErrNotFound then Inr 0 else Inl e
      | Inr n \<Rightarrow> Inr n)"

definition bridge_GetLastProcessedBlock :: "io \<Rightarrow> bridge_processor \<Rightarrow> error + u64" where
  "bridge_GetLastProcessedBlock io p = getLastProcessedBlockWithTx io (blk_rows (bp_db p))"

definition isBlockProcessed :: "io \<Rightarrow> bridge_db \<Rightarrow> u64 \<Rightarrow> error option" where
  "isBlockProcessed io db blockNum =
     (case getLastProcessedBlockWithTx io (blk_rows db) of
        Inl e \<Rightarrow> Some e
      | Inr lpb \<Rightarrow> if lpb < blockNum then Some (ErrMsg ''block not processed'') else None)"

definition queryBlockRange ::
  "io \<Rightarrow> bridge_db \<Rightarrow> u64 \<Rightarrow> u64 \<Rightarrow> string \<Rightarrow> ('a \<Rightarrow> u64) \<Rightarrow> 'a list \<Rightarrow> error + 'a list"
where
  "queryBlockRange io db fromBlock toBlock table num rows =
     (case isBlockProcessed io db toBlock of
        Some e \<Rightarrow> Inl e
      | None \<Rightarrow>
          if io (SqlSelect table [unat fromBlock, unat toBlock]) then Inl ErrSQL
          else Inr (filter (\<lambda>r. num r \<ge> fromBlock \<and> num r \<le> toBlock) rows))"

definition GetBridges :: "io \<Rightarrow> bridge_processor \<Rightarrow> u64 \<Rightarrow> u64 \<Rightarrow> error + Bridge list" where
  "GetBridges io p fromBlock toBlock =
     (if io SqlBegin then Inl ErrSQL
      else queryBlockRange io (bp_db p) fromBlock toBlock ''bridge'' br_BlockNum (bridge_rows (bp_db p)))"

definition GetBridgesPublished :: "io \<Rightarrow> bridge_processor \<Rightarrow> u64 \<Rightarrow> u64 \<Rightarrow> error + Bridge list" where
  "GetBridgesPublished io p fromBlock toBlock = GetBridges io p fromBlock toBlock"

definition GetClaims :: "io \<Rightarrow> bridge_processor \<Rightarrow> u64 \<Rightarrow> u64 \<Rightarrow> error + Claim list" where
  "GetClaims io p fromBlock toBlock =
     (if io SqlBegin then Inl ErrSQL
      else queryBlockRange io (bp_db p) fromBlock toBlock ''claim'' cl_BlockNum (claim_rows (bp_db p)))"

text \<open>\<open>DELETE FROM block\<close> with the cascades of the foreign keys.\<close>

definition bridge_delete_blocks :: "u64 \<Rightarrow> bridge_db \<Rightarrow> bridge_db" where
  "bridge_delete_blocks n db =
     db\<lparr>blk_rows := filter (\<lambda>m. \<not> m \<ge> n) (blk_rows db),
        bridge_rows := filter (\<lambda>b. \<not> br_BlockNum b \<ge> n) (bridge_rows db),
        claim_rows := filter (\<lambda>c. \<not> cl_BlockNum c \<ge> n) (claim_rows db)\<rparr>"

text \<open>The deferred rollback: with it the database is what it was, and the callbacks run.\<close>

definition rollback_tree ::
  "io \<Rightarrow> ('db, tree_callback) Tx \<Rightarrow> AppendOnlyTree \<Rightarrow> AppendOnlyTree"
where
  "rollback_tree io tx t =
     (case snd (Tx_Rollback io tx) of Inl e \<Rightarrow> t | Inr cbs \<Rightarrow> fold run_tree_callback cbs t)"

definition bridge_Reorg :: "io \<Rightarrow> bridge_processor \<Rightarrow> u64 \<Rightarrow> bridge_processor \<times> error option" where
  "bridge_Reorg io p firstReorgedBlock =
     (case NewTx io (bp_db p) of
        Inl e \<Rightarrow> (p, Some e)
      | Inr tx \<Rightarrow>
          if io (SqlDelete ''block'' [unat firstReorgedBlock])
          then (p\<lparr>bp_exitTree := rollback_tree io tx (bp_exitTree p)\<rparr>, Some ErrSQL)
          else let db1 = bridge_delete_blocks firstReorgedBlock (tx_db tx) in
               (case Tree_Reorg io (aot_Tree (bp_exitTree p)) (exit_tree db1) firstReorgedBlock of
                  (tdb, Some e) \<Rightarrow>
                    (p\<lparr>bp_exitTree := rollback_tree io tx (bp_exitTree p)\<rparr>, Some e)
                | (tdb, None) \<Rightarrow>
                    (case Tx_Commit io (tx\<lparr>tx_db := db1\<lparr>exit_tree := tdb\<rparr>\<rparr>) of
                       (tx', Inl e) \<Rightarrow> (p, Some e)
                     | (tx', Inr cbs) \<Rightarrow> (p\<lparr>bp_db := tx_base tx'\<rparr>, None))))"

definition insert_block :: "io \<Rightarrow> u64 \<Rightarrow> u64 list \<Rightarrow> error + u64 list" where
  "insert_block io num rows = pk_insert io (SqlInsert ''block'' [unat num]) id num rows"

definition insert_bridge :: "io \<Rightarrow> Bridge \<Rightarrow> bridge_db \<Rightarrow> error + bridge_db" where
  "insert_bridge io b db =
     map_sum id (\<lambda>rows. db\<lparr>bridge_rows := rows\<rparr>)
       (fk_insert io (SqlInsert ''bridge'' [unat (br_BlockNum b), unat (br_BlockPos b)])
          (\<lambda>r. (br_BlockNum r, br_BlockPos r)) (br_BlockNum b \<in> set (blk_rows db)) b (bridge_rows db))"

definition insert_claim :: "io \<Rightarrow> Claim \<Rightarrow> bridge_db \<Rightarrow> error + bridge_db" where
  "insert_claim io c db =
     map_sum id (\<lambda>rows. db\<lparr>claim_rows := rows\<rparr>)
       (fk_insert io (SqlInsert ''claim'' [unat (cl_BlockNum c), unat (cl_BlockPos c)])
          (\<lambda>r. (cl_BlockNum r, cl_BlockPos r)) (cl_BlockNum c \<in> set (blk_rows db)) c (claim_rows db))"

text \<open>The bridge of one event: the leaf is added to the exit tree, then the row is stored.\<close>

definition process_bridge ::
  "keccak \<Rightarrow> io \<Rightarrow> u64 \<Rightarrow> u64 \<Rightarrow> Bridge \<Rightarrow> AppendOnlyTree \<Rightarrow> (bridge_db, tree_callback) Tx \<Rightarrow>
   (AppendOnlyTree \<times> (bridge_db, tree_callback) Tx) \<times> error option"
where
  "process_bridge K io blockNum pos b t tx =
     (case Bridge_Hash K b of
        Inl e \<Rightarrow> ((t, tx), Some e)
      | Inr h \<Rightarrow>
          (case AddLeaf K io t (exit_tree (tx_db tx)) blockNum pos
                  \<lparr>l_Index = br_DepositCount b, l_Hash = h\<rparr> of
             ((t1, tdb, cbs), r) \<Rightarrow>
               let tx1 = fold AddRollbackCallback cbs (tx\<lparr>tx_db := (tx_db tx)\<lparr>exit_tree := tdb\<rparr>\<rparr>) in
               (case r of
                  Some e \<Rightarrow> ((t1, tx1), Some e)
                | None \<Rightarrow>
                    (case insert_bridge io (Bridge_with_amount b) (tx_db tx1) of
                       Inl e \<Rightarrow> ((t1, tx1), Some e)
                     | Inr db2 \<Rightarrow> ((t1, tx1\<lparr>tx_db := db2\<rparr>), None)))))"

definition process_claim ::
  "io \<Rightarrow> Claim \<Rightarrow> (bridge_db, tree_callback) Tx \<Rightarrow> (bridge_db, tree_callback) Tx \<times> error option"
where
  "process_claim io c tx =
     (case insert_claim io c (tx_db tx) of
        Inl e \<Rightarrow> (tx, Some e)
      | Inr db \<Rightarrow> (tx\<lparr>tx_db := db\<rparr>, None))"

fun process_events ::
  "keccak \<Rightarrow> io \<Rightarrow> u64 \<Rightarrow> bridge_item list \<Rightarrow> AppendOnlyTree \<Rightarrow> (bridge_db, tree_callback) Tx \<Rightarrow>
   (AppendOnlyTree \<times> (bridge_db, tree_callback) Tx) \<times> error option"
where
  "process_events K io blockNum [] t tx = ((t, tx), None)"
| "process_events K io blockNum (OtherItem # es) t tx =
     ((t, tx), Some (ErrMsg ''failed to convert sync.Block.Event to Event''))"
| "process_events K io blockNum (BridgeItem e # es) t tx =
     (case (case ev_Bridge e of
              None \<Rightarrow> ((t, tx), None)
            | Some b \<Rightarrow> process_bridge K io blockNum (ev_Pos e) b t tx) of
        (s, Some err) \<Rightarrow> (s, Some err)
      | ((t1, tx1), None) \<Rightarrow>
          (case (case ev_Claim e of None \<Rightarrow> (tx1, None) | Some c \<Rightarrow> process_claim io c tx1) of
             (tx2, Some err) \<Rightarrow> ((t1, tx2), Some err)
           | (tx2, None) \<Rightarrow> process_events K io blockNum es t1 tx2))"

definition bridge_ProcessBlock ::
  "keccak \<Rightarrow> io \<Rightarrow> bridge_processor \<Rightarrow> bridge_item Block \<Rightarrow> bridge_processor \<times> error option"
where
  "bridge_ProcessBlock K io p block =
     (case NewTx io (bp_db p) of
        Inl e \<Rightarrow> (p, Some e)
      | Inr tx \<Rightarrow>
          (case insert_block io (bk_Num block) (blk_rows (tx_db tx)) of
             Inl e \<Rightarrow> (p\<lparr>bp_exitTree := rollback_tree io tx (bp_exitTree p)\<rparr>, Some e)
           | Inr rows \<Rightarrow>
               (case process_events K io (bk_Num block) (bk_Events block) (bp_exitTree p)
                       (tx\<lparr>tx_db := (tx_db tx)\<lparr>blk_rows := rows\<rparr>\<rparr>) of
                  ((t, tx1), Some e) \<Rightarrow> (p\<lparr>bp_exitTree := rollback_tree io tx1 t\<rparr>, Some e)
                | ((t, tx1), None) \<Rightarrow>
                    (case Tx_Commit io tx1 of
                       (tx2, Inl e) \<Rightarrow> (p\<lparr>bp_exitTree := rollback_tree io tx2 t\<rparr>, Some e)
                     | (tx2, Inr cbs) \<Rightarrow> (p\<lparr>bp_db := tx_base tx2, bp_exitTree := t\<rparr>, None)))))"

definition bridge_interface :: "keccak \<Rightarrow> (bridge_processor, bridge_item) processorInterface" where
  "bridge_interface K =
     \<lparr>pi_GetLastProcessedBlock = bridge_GetLastProcessedBlock,
      pi_ProcessBlock = bridge_ProcessBlock K, pi_Reorg = bridge_Reorg\<rparr>"

section \<open>Queries of the syncer\<close>

definition bridge_newProcessor :: "keccak \<Rightarrow> bridge_db \<Rightarrow> bridge_processor" where
  "bridge_newProcessor K db = \<lparr>bp_db = db, bp_exitTree = NewAppendOnlyTree K []\<rparr>"

text \<open>\<open>newBridgeSync\<close>: an empty block is recorded when nothing up to \<open>initialBlock\<close> is.\<close>

definition newBridgeSync :: "keccak \<Rightarrow> io \<Rightarrow> bridge_db \<Rightarrow> u64 \<Rightarrow> error + bridge_processor" where
  "newBridgeSync K io db initialBlock =
     (let p = bridge_newProcessor K db in
      case bridge_GetLastProcessedBlock io p of
        Inl e \<Rightarrow> Inl e
      | Inr lastProcessedBlock \<Rightarrow>
          if lastProcessedBlock < initialBlock
          then (case bridge_ProcessBlock K io p \<lparr>bk_Num = initialBlock, bk_Events = []\<rparr> of
                  (p', Some e) \<Rightarrow> Inl e
                | (p', None) \<Rightarrow> Inr p')
          else Inr p)"

definition bridge_GetProof :: "io \<Rightarrow> bridge_processor \<Rightarrow> u32 \<Rightarrow> hash \<Rightarrow> error + Proof" where
  "bridge_GetProof io p depositCount localExitRoot =
     GetProof io (aot_Tree (bp_exitTree p)) (exit_tree (bp_db p)) depositCount localExitRoot"

definition GetRootByLER :: "io \<Rightarrow> error option \<Rightarrow> bridge_processor \<Rightarrow> hash \<Rightarrow> error + Root option" where
  "GetRootByLER io scan_nil p ler =
     GetRootByHash io scan_nil (aot_Tree (bp_exitTree p)) (exit_tree (bp_db p)) ler"

text \<open>\<open>GetBlockByLER\<close> reads a field of the returned pointer.\<close>

definition GetBlockByLER :: "io \<Rightarrow> error option \<Rightarrow> bridge_processor \<Rightarrow> hash \<Rightarrow> error + u64" where
  "GetBlockByLER io scan_nil p ler =
     (case GetRootByHash io scan_nil (aot_Tree (bp_exitTree p)) (exit_tree (bp_db p)) ler of
        Inl e \<Rightarrow> Inl e
      | Inr None \<Rightarrow> Inl ErrPanic
      | Inr (Some root) \<Rightarrow> Inr (r_BlockNum root))"

definition GetExitRootByIndex :: "io \<Rightarrow> bridge_processor \<Rightarrow> u32 \<Rightarrow> error + Root" where
  "GetExitRootByIndex io p index =
     GetRootByIndex io (aot_Tree (bp_exitTree p)) (exit_tree (bp_db p)) index"

section \<open>Frame of the transaction\<close>

lemma fold_callbacks [simp]:
  "tx_db (fold AddRollbackCallback cbs tx) = tx_db tx"
  "tx_base (fold AddRollbackCallback cbs tx) = tx_base tx"
  "tx_done (fold AddRollbackCallback cbs tx) = tx_done tx"
  "rollbackCallbacks (fold AddRollbackCallback cbs tx) = rollbackCallbacks tx @ cbs"
  by (induction cbs arbitrary: tx) (simp_all add: AddRollbackCallback_def)

definition tx_frame :: "(bridge_db, tree_callback) Tx \<Rightarrow> (bridge_db, tree_callback) Tx \<Rightarrow> bool" where
  "tx_frame tx tx' \<longleftrightarrow> blk_rows (tx_db tx') = blk_rows (tx_db tx) \<and> tx_base tx' = tx_base tx \<and>
     tx_done tx' = tx_done tx"

lemma tx_frame_trans: "tx_frame a b \<Longrightarrow> tx_frame b c \<Longrightarrow> tx_frame a c"
  by (simp add: tx_frame_def)

lemma insert_bridge_Inr:
  "insert_bridge io b db = Inr db' \<Longrightarrow> db' = db\<lparr>bridge_rows := bridge_rows db @ [b]\<rparr> \<and>
     br_BlockNum b \<in> set (blk_rows db)"
  by (auto simp: insert_bridge_def fk_insert_def split: if_splits)

lemma insert_claim_Inr:
  "insert_claim io c db = Inr db' \<Longrightarrow> db' = db\<lparr>claim_rows := claim_rows db @ [c]\<rparr>"
  by (auto simp: insert_claim_def fk_insert_def split: if_splits)

lemma process_bridge_frame: "process_bridge K io n pos b t tx = ((t', tx'), r) \<Longrightarrow> tx_frame tx tx'"
  by (auto simp: process_bridge_def tx_frame_def Let_def
      split: sum.splits prod.splits option.splits dest!: insert_bridge_Inr)

lemma process_claim_frame: "process_claim io c tx = (tx', r) \<Longrightarrow> tx_frame tx tx'"
  by (auto simp: process_claim_def tx_frame_def split: sum.splits dest!: insert_claim_Inr)

lemma process_events_frame: "process_events K io n es t tx = ((t', tx'), r) \<Longrightarrow> tx_frame tx tx'"
proof (induction K io n es t tx arbitrary: t' tx' r rule: process_events.induct)
  case (1 K io n t tx)
  then show ?case by (simp add: tx_frame_def)
next
  case (2 K io n es t tx)
  then show ?case by (simp add: tx_frame_def)
next
  case (3 K io n e es t tx)
  obtain t1 tx1 r1 where b: "(case ev_Bridge e of None \<Rightarrow> ((t, tx), None)
      | Some b \<Rightarrow> process_bridge K io n (ev_Pos e) b t tx) = ((t1, tx1), r1)"
    by (metis surj_pair)
  then have f1: "tx_frame tx tx1"
    by (auto split: option.splits dest: process_bridge_frame simp: tx_frame_def)
  show ?case
  proof (cases r1)
    case (Some err)
    with b f1 "3.prems" show ?thesis by simp
  next
    case None
    obtain tx2 r2 where c: "(case ev_Claim e of None \<Rightarrow> (tx1, None)
        | Some c \<Rightarrow> process_claim io c tx1) = (tx2, r2)" by (metis surj_pair)
    then have f2: "tx_frame tx1 tx2"
      by (auto split: option.splits dest: process_claim_frame simp: tx_frame_def)
    show ?thesis
    proof (cases r2)
      case (Some err)
      with b c None f1 f2 "3.prems" show ?thesis by (auto intro: tx_frame_trans)
    next
      case n2: None
      with b c None "3.prems" have "process_events K io n es t1 tx2 = ((t', tx'), r)" by simp
      from "3.IH" [OF b [symmetric] refl None c [symmetric] n2 this] f1 f2 show ?thesis
        by (blast intro: tx_frame_trans)
    qed
  qed
qed

lemma NewTx_Inr:
  "NewTx io db = Inr tx \<longleftrightarrow> \<not> io SqlBegin \<and>
     tx = \<lparr>tx_base = db, tx_db = db, rollbackCallbacks = [], commitCallbacks = [], tx_done = False\<rparr>"
  by (auto simp: NewTx_def)

lemma bridge_ProcessBlock_error:
  "bridge_ProcessBlock K io p b = (p', Some e) \<Longrightarrow> bp_db p' = bp_db p"
  by (auto simp: bridge_ProcessBlock_def split: sum.splits prod.splits option.splits)

text \<open>A successful call: the transaction that was committed.\<close>

lemma bridge_ProcessBlock_ok:
  assumes "bridge_ProcessBlock K io p b = (p', None)"
  obtains t tx where "bk_Num b \<notin> set (blk_rows (bp_db p))"
    and "process_events K io (bk_Num b) (bk_Events b) (bp_exitTree p)
      \<lparr>tx_base = bp_db p, tx_db = (bp_db p)\<lparr>blk_rows := blk_rows (bp_db p) @ [bk_Num b]\<rparr>,
       rollbackCallbacks = [], commitCallbacks = [], tx_done = False\<rparr> = ((t, tx), None)"
    and "p' = p\<lparr>bp_db := tx_db tx, bp_exitTree := t\<rparr>"
    and "blk_rows (tx_db tx) = blk_rows (bp_db p) @ [bk_Num b]"
proof -
  obtain tx0 where tx0: "NewTx io (bp_db p) = Inr (tx0 :: (bridge_db, tree_callback) Tx)"
    using assms by (cases "NewTx io (bp_db p) :: error + (bridge_db, tree_callback) Tx")
      (simp_all add: bridge_ProcessBlock_def)
  obtain rows where rows: "insert_block io (bk_Num b) (blk_rows (bp_db p)) = Inr rows"
    using assms tx0 by (cases "insert_block io (bk_Num b) (blk_rows (bp_db p))")
      (simp_all add: bridge_ProcessBlock_def NewTx_Inr)
  then have fresh: "bk_Num b \<notin> set (blk_rows (bp_db p))" "rows = blk_rows (bp_db p) @ [bk_Num b]"
    by (auto simp: insert_block_def pk_insert_Inr)
  let ?tx = "\<lparr>tx_base = bp_db p, tx_db = (bp_db p)\<lparr>blk_rows := blk_rows (bp_db p) @ [bk_Num b]\<rparr>,
       rollbackCallbacks = [], commitCallbacks = [], tx_done = False\<rparr>"
  obtain t tx r where pe: "process_events K io (bk_Num b) (bk_Events b) (bp_exitTree p) ?tx = ((t, tx), r)"
    by (metis surj_pair)
  then have fr: "tx_frame ?tx tx" by (rule process_events_frame)
  have r: "r = None"
    using assms tx0 rows fresh pe
    by (cases r) (auto simp: bridge_ProcessBlock_def NewTx_Inr split: sum.splits prod.splits)
  have "p' = p\<lparr>bp_db := tx_db tx, bp_exitTree := t\<rparr>"
    using assms tx0 rows fresh pe r fr
    by (auto simp: bridge_ProcessBlock_def NewTx_Inr Tx_Commit_def tx_frame_def split: if_splits)
  moreover have "blk_rows (tx_db tx) = blk_rows (bp_db p) @ [bk_Num b]" using fr by (simp add: tx_frame_def)
  ultimately show thesis using fresh(1) pe r by (intro that) simp_all
qed

lemma bridge_Reorg_error: "bridge_Reorg io p n = (p', Some e) \<Longrightarrow> bp_db p' = bp_db p"
  by (auto simp: bridge_Reorg_def Let_def split: sum.splits prod.splits option.splits if_splits)

lemma bridge_Reorg_ok:
  assumes "bridge_Reorg io p n = (p', None)"
  shows "Tree_Reorg io (aot_Tree (bp_exitTree p)) (exit_tree (bp_db p)) n = (exit_tree (bp_db p'), None)"
    and "p' = p\<lparr>bp_db := (bridge_delete_blocks n (bp_db p))\<lparr>exit_tree := exit_tree (bp_db p')\<rparr>\<rparr>"
  using assms
  by (auto simp: bridge_Reorg_def NewTx_def Tx_Commit_def Let_def bridge_delete_blocks_def
      split: sum.splits prod.splits option.splits if_splits)

lemma last_processed_ok:
  "getLastProcessedBlockWithTx io rows = Inr m \<Longrightarrow>
   set rows = {} \<and> m = 0 \<or> m \<in> set rows \<and> (\<forall>k\<in>set rows. k \<le> m)"
  by (auto simp: getLastProcessedBlockWithTx_def query_row_def split: if_splits option.splits
      dest: first_desc_Some)

interpretation bridge: sync_processor "bridge_interface K" bp_db "\<lambda>d. set (blk_rows d)"
  for K
proof (unfold_locales, unfold bridge_interface_def processorInterface.simps)
  show "bridge_ProcessBlock K io p b = (p', Some e) \<Longrightarrow> bp_db p' = bp_db p" for io p b p' e
    by (rule bridge_ProcessBlock_error)
  show "bk_Num b \<notin> set (blk_rows (bp_db p)) \<and>
      set (blk_rows (bp_db p')) = insert (bk_Num b) (set (blk_rows (bp_db p)))"
    if "bridge_ProcessBlock K io p b = (p', None)" for io p b p'
    using that by (rule bridge_ProcessBlock_ok) auto
  show "bridge_Reorg io p n = (p', Some e) \<Longrightarrow> bp_db p' = bp_db p" for io p n p' e
    by (rule bridge_Reorg_error)
  show "set (blk_rows (bp_db p')) = {m \<in> set (blk_rows (bp_db p)). m < n}"
    if "bridge_Reorg io p n = (p', None)" for io p n p'
    by (subst bridge_Reorg_ok(2) [OF that]) (auto simp: bridge_delete_blocks_def)
  show "set (blk_rows (bp_db p)) = {} \<and> m = 0 \<or>
      m \<in> set (blk_rows (bp_db p)) \<and> (\<forall>k\<in>set (blk_rows (bp_db p)). k \<le> m)"
    if "bridge_GetLastProcessedBlock io p = Inr m" for io p m
    using that unfolding bridge_GetLastProcessedBlock_def by (rule last_processed_ok)
qed

section \<open>The exit tree is the tree of the stored bridges\<close>

definition bridge_leaf :: "keccak \<Rightarrow> Bridge \<Rightarrow> hash" where
  "bridge_leaf K b = (case Bridge_Hash K b of Inl e \<Rightarrow> 0 | Inr h \<Rightarrow> h)"

definition bridge_db_inv :: "keccak \<Rightarrow> bridge_db \<Rightarrow> bool" where
  "bridge_db_inv K db \<longleftrightarrow>
     append_inv K (exit_tree db) (map (bridge_leaf K) (bridge_rows db)) \<and>
     map r_BlockNum (root_rows (exit_tree db)) = map br_BlockNum (bridge_rows db) \<and>
     map (unat \<circ> br_DepositCount) (bridge_rows db) = [0..<length (bridge_rows db)]"

definition bridge_inv :: "keccak \<Rightarrow> bridge_processor \<Rightarrow> bool" where
  "bridge_inv K p \<longleftrightarrow> bridge_db_inv K (bp_db p) \<and>
     synced K (bp_exitTree p) (map (bridge_leaf K) (bridge_rows (bp_db p)))"

text \<open>
  What the events of a block have to satisfy, followed along their processing: a bridge
  carries its block number and the next deposit count, its position in the block increases,
  and storing its path causes no hash collision.
\<close>

definition bridge_fits :: "keccak \<Rightarrow> u64 \<Rightarrow> u64 \<Rightarrow> Bridge \<Rightarrow> bridge_db \<Rightarrow> bool" where
  "bridge_fits K n pos b db \<longleftrightarrow> br_BlockNum b = n \<and>
     unat (br_DepositCount b) = length (bridge_rows db) \<and> new_key (exit_tree db) n pos \<and>
     append_safe K (exit_tree db) (map (bridge_leaf K) (bridge_rows db)) (bridge_leaf K b)"

fun events_fit ::
  "keccak \<Rightarrow> io \<Rightarrow> u64 \<Rightarrow> bridge_item list \<Rightarrow> AppendOnlyTree \<Rightarrow> (bridge_db, tree_callback) Tx \<Rightarrow> bool"
where
  "events_fit K io n [] t tx \<longleftrightarrow> True"
| "events_fit K io n (OtherItem # es) t tx \<longleftrightarrow> True"
| "events_fit K io n (BridgeItem e # es) t tx \<longleftrightarrow>
     (case ev_Bridge e of None \<Rightarrow> True | Some b \<Rightarrow> bridge_fits K n (ev_Pos e) b (tx_db tx)) \<and>
     (case (case ev_Bridge e of
              None \<Rightarrow> ((t, tx), None)
            | Some b \<Rightarrow> process_bridge K io n (ev_Pos e) b t tx) of
        (s, Some err) \<Rightarrow> True
      | ((t1, tx1), None) \<Rightarrow>
          (case (case ev_Claim e of None \<Rightarrow> (tx1, None) | Some c \<Rightarrow> process_claim io c tx1) of
             (tx2, Some err) \<Rightarrow> True
           | (tx2, None) \<Rightarrow> events_fit K io n es t1 tx2))"

definition block_bridges :: "bridge_item list \<Rightarrow> Bridge list" where
  "block_bridges es = concat (map (\<lambda>i. case i of OtherItem \<Rightarrow> []
     | BridgeItem e \<Rightarrow> (case ev_Bridge e of None \<Rightarrow> [] | Some b \<Rightarrow> [Bridge_with_amount b])) es)"

definition block_claims :: "bridge_item list \<Rightarrow> Claim list" where
  "block_claims es = concat (map (\<lambda>i. case i of OtherItem \<Rightarrow> []
     | BridgeItem e \<Rightarrow> (case ev_Claim e of None \<Rightarrow> [] | Some c \<Rightarrow> [c])) es)"

lemma Bridge_with_amount_simps [simp]:
  "br_BlockNum (Bridge_with_amount b) = br_BlockNum b"
  "br_DepositCount (Bridge_with_amount b) = br_DepositCount b"
  "Bridge_Hash K (Bridge_with_amount b) = Bridge_Hash K b"
  "bridge_leaf K (Bridge_with_amount b) = bridge_leaf K b"
  by (auto simp: Bridge_with_amount_def Bridge_Hash_def bridge_leaf_def split: option.splits)

lemma process_bridge_inv:
  assumes "bridge_db_inv K (tx_db tx)" and "synced K t (map (bridge_leaf K) (bridge_rows (tx_db tx)))"
    and "bridge_fits K n pos b (tx_db tx)" and "process_bridge K io n pos b t tx = ((t', tx'), None)"
  shows "bridge_db_inv K (tx_db tx')"
    and "synced K t' (map (bridge_leaf K) (bridge_rows (tx_db tx')))"
    and "bridge_rows (tx_db tx') = bridge_rows (tx_db tx) @ [Bridge_with_amount b]"
    and "claim_rows (tx_db tx') = claim_rows (tx_db tx)"
proof -
  let ?db = "tx_db tx"
  obtain h where h: "Bridge_Hash K b = Inr h"
    using assms(4) by (cases "Bridge_Hash K b") (simp_all add: process_bridge_def)
  then have leaf: "bridge_leaf K b = h" by (simp add: bridge_leaf_def)
  obtain t1 tdb cbs where al: "AddLeaf K io t (exit_tree ?db) n pos
      \<lparr>l_Index = br_DepositCount b, l_Hash = h\<rparr> = ((t1, tdb, cbs), None)"
    and t': "t' = t1"
    and ib: "insert_bridge io (Bridge_with_amount b) (?db\<lparr>exit_tree := tdb\<rparr>) = Inr (tx_db tx')"
    using assms(4) h
    by (auto simp: process_bridge_def Let_def split: prod.splits option.splits sum.splits)
  from insert_bridge_Inr [OF ib]
  have db': "tx_db tx' = ?db\<lparr>exit_tree := tdb, bridge_rows := bridge_rows ?db @ [Bridge_with_amount b]\<rparr>"
    by simp
  have "append_inv K tdb (map (bridge_leaf K) (bridge_rows ?db) @ [h]) \<and>
      synced K t1 (map (bridge_leaf K) (bridge_rows ?db) @ [h]) \<and>
      map r_BlockNum (root_rows tdb) = map r_BlockNum (root_rows (exit_tree ?db)) @ [n]"
    using AddLeaf_success [OF _ assms(2) _ _ _ al] assms(1,3) leaf
    by (simp add: bridge_db_inv_def bridge_fits_def)
  then show "bridge_db_inv K (tx_db tx')" "synced K t' (map (bridge_leaf K) (bridge_rows (tx_db tx')))"
    using assms(1,3) leaf t' by (simp_all add: db' bridge_db_inv_def bridge_fits_def)
  show "bridge_rows (tx_db tx') = bridge_rows ?db @ [Bridge_with_amount b]"
    and "claim_rows (tx_db tx') = claim_rows ?db" by (simp_all add: db')
qed

lemma process_claim_inv:
  "process_claim io c tx = (tx', None) \<Longrightarrow>
   tx_db tx' = (tx_db tx)\<lparr>claim_rows := claim_rows (tx_db tx) @ [c]\<rparr>"
  by (auto simp: process_claim_def split: sum.splits dest: insert_claim_Inr)

lemma process_events_inv:
  "process_events K io n es t tx = ((t', tx'), None) \<Longrightarrow> events_fit K io n es t tx \<Longrightarrow>
   bridge_db_inv K (tx_db tx) \<Longrightarrow> synced K t (map (bridge_leaf K) (bridge_rows (tx_db tx))) \<Longrightarrow>
   bridge_db_inv K (tx_db tx') \<and> synced K t' (map (bridge_leaf K) (bridge_rows (tx_db tx'))) \<and>
   bridge_rows (tx_db tx') = bridge_rows (tx_db tx) @ block_bridges es \<and>
   claim_rows (tx_db tx') = claim_rows (tx_db tx) @ block_claims es"
proof (induction K io n es t tx arbitrary: t' tx' rule: process_events.induct)
  case (1 K io n t tx)
  then show ?case by (simp add: block_bridges_def block_claims_def)
next
  case (2 K io n es t tx)
  then show ?case by simp
next
  case (3 K io n e es t tx)
  obtain t1 tx1 where b: "(case ev_Bridge e of None \<Rightarrow> ((t, tx), None)
      | Some b \<Rightarrow> process_bridge K io n (ev_Pos e) b t tx) = ((t1, tx1), None)"
    using "3.prems"(1) by (auto split: prod.splits option.splits)
  obtain tx2 where c: "(case ev_Claim e of None \<Rightarrow> (tx1, None)
      | Some c \<Rightarrow> process_claim io c tx1) = (tx2, None)"
    and rest: "process_events K io n es t1 tx2 = ((t', tx'), None)"
    using "3.prems"(1) b by (auto split: prod.splits option.splits)
  have fit: "events_fit K io n es t1 tx2" using "3.prems"(2) b c by simp
  have bi: "bridge_db_inv K (tx_db tx1) \<and> synced K t1 (map (bridge_leaf K) (bridge_rows (tx_db tx1))) \<and>
      bridge_rows (tx_db tx1) = bridge_rows (tx_db tx) @ block_bridges [BridgeItem e] \<and>
      claim_rows (tx_db tx1) = claim_rows (tx_db tx)"
  proof (cases "ev_Bridge e")
    case None
    with b "3.prems"(3,4) show ?thesis by (simp add: block_bridges_def)
  next
    case (Some x)
    with b have pb: "process_bridge K io n (ev_Pos e) x t tx = ((t1, tx1), None)" by simp
    have "bridge_fits K n (ev_Pos e) x (tx_db tx)" using "3.prems"(2) Some by simp
    from process_bridge_inv [OF "3.prems"(3,4) this pb] Some show ?thesis by (simp add: block_bridges_def)
  qed
  have ci: "tx_db tx2 = (tx_db tx1)\<lparr>claim_rows := claim_rows (tx_db tx1) @ block_claims [BridgeItem e]\<rparr>"
    using c by (auto simp: block_claims_def split: option.splits dest: process_claim_inv)
  have "bridge_db_inv K (tx_db tx2)" and "synced K t1 (map (bridge_leaf K) (bridge_rows (tx_db tx2)))"
    using bi unfolding ci bridge_db_inv_def by auto
  note IH = "3.IH" [OF b [symmetric] refl refl c [symmetric] refl rest fit this]
  have "block_bridges (BridgeItem e # es) = block_bridges [BridgeItem e] @ block_bridges es"
    "block_claims (BridgeItem e # es) = block_claims [BridgeItem e] @ block_claims es"
    by (simp_all add: block_bridges_def block_claims_def)
  with IH bi ci show ?case by auto
qed

section \<open>The global index\<close>

definition GenerateGlobalIndex :: "bool \<Rightarrow> u32 \<Rightarrow> u32 \<Rightarrow> nat" where
  "GenerateGlobalIndex mainnetFlag rollupIndex localExitRootIndex =
     be_value ((if mainnetFlag then [1] @ be_bytes 4 (0 :: u32) else be_bytes 4 rollupIndex) @
               be_bytes 4 localExitRootIndex)"

definition convertBytesToUint32 :: "bytes \<Rightarrow> u32" where
  "convertBytesToUint32 bs = ucast (of_nat (be_value bs) :: u64)"

definition DecodeGlobalIndex :: "nat \<Rightarrow> error + bool \<times> u32 \<times> u32" where
  "DecodeGlobalIndex globalIndex =
     (let globalIndexBytes = nat_bytes globalIndex; l = length globalIndexBytes in
      if l > 9 then Inl (ErrMsg ''invalid global index length'')
      else if l = 0 then Inr (False, 0, 0)
      else let localExitRootFromIdx = l - 4;
               rollupIndexFromIdx = localExitRootFromIdx - 4
           in Inr (l = 9,
                   convertBytesToUint32
                     (drop rollupIndexFromIdx (take localExitRootFromIdx globalIndexBytes)),
                   convertBytesToUint32 (drop localExitRootFromIdx globalIndexBytes)))"

lemma convertBytesToUint32_eq:
  assumes "be_value bs < 2 ^ 64"
  shows "convertBytesToUint32 bs = of_nat (be_value bs)"
proof -
  have "unat (ucast (of_nat (be_value bs) :: u64) :: u32) = unat (of_nat (be_value bs) :: u32)"
    using assms by (simp add: unsigned_ucast_eq unsigned_of_nat take_bit_eq_mod)
  then show ?thesis by (simp add: convertBytesToUint32_def word_unat_eq_iff)
qed

lemma DecodeGlobalIndex_parts:
  "DecodeGlobalIndex n =
     (if n < 2 ^ 72 then Inr (2 ^ 64 \<le> n, of_nat (n div 2 ^ 32 mod 2 ^ 32), of_nat (n mod 2 ^ 32))
      else Inl (ErrMsg ''invalid global index length''))"
proof -
  let ?bs = "nat_bytes n" and ?l = "length (nat_bytes n)"
  have len: "?l \<le> 9 \<longleftrightarrow> n < 2 ^ 72" "?l \<le> 8 \<longleftrightarrow> n < 2 ^ 64" "?l = 0 \<longleftrightarrow> n = 0"
    using length_nat_bytes [of n 0] by (simp_all add: length_nat_bytes)
  have hi: "be_value (take (?l - 4) ?bs) = n div 2 ^ 32" and lo: "be_value (drop (?l - 4) ?bs) = n mod 2 ^ 32"
    using be_value_split [OF be_value_nat_bytes [of n], of 4] by simp_all
  have mid: "be_value (drop (?l - 4 - 4) (take (?l - 4) ?bs)) = n div 2 ^ 32 mod 2 ^ 32"
    using be_value_split(2) [OF hi, of 4] by (simp add: min.absorb2)
  have small: "n div 2 ^ 32 mod 2 ^ 32 < 2 ^ 64" "n mod 2 ^ 32 < 2 ^ 64"
    by (rule less_trans [OF mod_less_divisor]; simp)+
  show ?thesis
  proof (cases "?l = 0 \<or> 9 < ?l")
    case True
    with len show ?thesis by (auto simp: DecodeGlobalIndex_def)
  next
    case False
    moreover have "?l = 9 \<longleftrightarrow> 2 ^ 64 \<le> n" using False len(2) by linarith
    ultimately show ?thesis
      using len convertBytesToUint32_eq [of "drop (?l - 4 - 4) (take (?l - 4) ?bs)"]
        convertBytesToUint32_eq [of "drop (?l - 4) ?bs"] mid lo small
      by (simp add: DecodeGlobalIndex_def Let_def)
  qed
qed

lemma GenerateGlobalIndex_value:
  "GenerateGlobalIndex m r l = (if m then 2 ^ 64 else unat r * 2 ^ 32) + unat l"
proof -
  have "unat (w :: u32) mod 256 ^ 4 = unat w" for w
    using unat_less [of w] by simp
  then have "be_value (be_bytes 4 w) = unat w" for w :: u32 by (simp only: be_value_be_bytes)
  then show ?thesis by (simp add: GenerateGlobalIndex_def be_value_append be_value_Cons)
qed

section \<open>A sample block\<close>

definition sample_bridge :: Bridge where
  "sample_bridge = \<lparr>br_BlockNum = 7, br_BlockPos = 0, br_LeafType = 0, br_OriginNetwork = 0,
     br_OriginAddress = 0, br_DestinationNetwork = 0, br_DestinationAddress = 0, br_Amount = Some 0,
     br_Metadata = [1], br_DepositCount = 0\<rparr>"

definition sample_block :: "bridge_item Block" where
  "sample_block = \<lparr>bk_Num = 7, bk_Events =
     [BridgeItem \<lparr>ev_Pos = 0, ev_Bridge = Some sample_bridge, ev_Claim = None\<rparr>]\<rparr>"

definition sample_processor :: bridge_processor where
  "sample_processor = bridge_newProcessor sample_keccak
     \<lparr>blk_rows = [], bridge_rows = [], claim_rows = [], exit_tree = empty_tree_db\<rparr>"

lemma be_value_zeros [simp]: "be_value (replicate n 0 @ bs) = be_value bs"
  by (induction n) (simp_all add: be_value_Cons)

lemma be_bytes_0: "be_bytes n (0 :: 'a::len word) = replicate n 0"
  by (induction n) simp_all

lemma sample_bridge_hash: "Bridge_Hash sample_keccak sample_bridge = Inr 21"
proof -
  have "sample_keccak [1] = 4"
    by (simp add: sample_keccak_def be_value_Cons)
  moreover have "sample_keccak (replicate 81 0 @ hash_bytes 4) = 21"
  proof -
    have "replicate 81 (0 :: u8) = replicate 32 0 @ replicate 49 0"
      by (simp add: replicate_add [symmetric])
    then have d: "drop 32 (replicate 81 0 @ hash_bytes 4) = replicate 49 0 @ hash_bytes 4"
      and t: "take 32 (replicate 81 0 @ hash_bytes 4) = replicate 32 (0 :: u8) @ []"
      by simp_all
    have "be_value (hash_bytes 4) = 4"
      using be_value_be_bytes [of 32 "4 :: hash"] by simp
    with d t show ?thesis by (simp only: sample_keccak_def be_value_zeros be_value_Nil) simp
  qed
  moreover have "[0] @ replicate 4 (0 :: u8) @ replicate 20 0 @ replicate 4 0 @ replicate 20 0 @
      replicate 32 0 @ hash_bytes 4 = replicate 81 0 @ hash_bytes 4"
  proof -
    have "[0 :: u8] = replicate 1 0" by simp
    then show ?thesis by (simp only: append_assoc [symmetric] replicate_add [symmetric]) simp
  qed
  moreover have "Bridge_Hash sample_keccak sample_bridge = Inr (sample_keccak ([0] @ replicate 4 0 @
      replicate 20 0 @ replicate 4 0 @ replicate 20 0 @ replicate 32 0 @ hash_bytes (sample_keccak [1])))"
    by (simp add: Bridge_Hash_def sample_bridge_def FillBytes32_def be_bytes_0)
  ultimately show ?thesis by (simp only:)
qed

lemma sample_bridge_inv: "bridge_inv K (bridge_newProcessor K
    \<lparr>blk_rows = [], bridge_rows = [], claim_rows = [], exit_tree = empty_tree_db\<rparr>)"
  using append_inv_empty [of K] synced_new [of K "[]" "[]"]
  by (simp add: bridge_inv_def bridge_db_inv_def bridge_newProcessor_def empty_tree_db_def)

lemma sample_events_fit:
  "events_fit sample_keccak (\<lambda>_. False) 7 (bk_Events sample_block) (bp_exitTree sample_processor)
     \<lparr>tx_base = bp_db sample_processor,
      tx_db = (bp_db sample_processor)\<lparr>blk_rows := blk_rows (bp_db sample_processor) @ [7]\<rparr>,
      rollbackCallbacks = [], commitCallbacks = [], tx_done = False\<rparr>"
proof -
  have "bridge_leaf sample_keccak sample_bridge = of_nat 21"
    by (simp add: bridge_leaf_def sample_bridge_hash)
  then show ?thesis
    using sample_append_safe [of 21] sample_hyps
    by (auto simp: sample_block_def sample_processor_def bridge_newProcessor_def bridge_fits_def
        sample_leaf_ok_def sample_bridge_def new_key_def empty_tree_db_def split: prod.splits option.splits)
qed

lemma sample_process_ok:
  "\<exists>p'. bridge_ProcessBlock sample_keccak (\<lambda>_. False) sample_processor sample_block = (p', None)"
proof -
  have "\<exists>t' db'. AddLeaf sample_keccak (\<lambda>_. False) (NewAppendOnlyTree sample_keccak []) empty_tree_db 7 0
      \<lparr>l_Index = 0, l_Hash = 21\<rparr> = ((t', db', [DecrementLastIndex]), None)"
    using AddLeaf_ok [OF append_inv_empty synced_new, of "\<lparr>l_Index = 0, l_Hash = 21\<rparr>" 7 0 sample_keccak
        "\<lambda>_. False" "[]"] sample_append_safe [of 21] sample_hyps
    by (auto simp: sample_leaf_ok_def new_key_def empty_tree_db_def)
  then obtain t' db' where al: "AddLeaf sample_keccak (\<lambda>_. False) (NewAppendOnlyTree sample_keccak [])
      empty_tree_db 7 0 \<lparr>l_Index = 0, l_Hash = 21\<rparr> = ((t', db', [DecrementLastIndex]), None)" by blast
  have "br_DepositCount sample_bridge = 0" "Bridge_with_amount sample_bridge = sample_bridge"
    "br_BlockNum sample_bridge = 7" by (simp_all add: sample_bridge_def Bridge_with_amount_def)
  with al sample_bridge_hash show ?thesis
    by (simp add: bridge_ProcessBlock_def NewTx_def sample_processor_def bridge_newProcessor_def
        insert_block_def pk_insert_def sample_block_def process_bridge_def insert_bridge_def
        fk_insert_def Tx_Commit_def AddRollbackCallback_def Let_def)
qed

lemma bridge_block_inv:
  assumes "bridge_inv K p" and "bridge_ProcessBlock K io p b = (p', None)"
    and "events_fit K io (bk_Num b) (bk_Events b) (bp_exitTree p)
      \<lparr>tx_base = bp_db p, tx_db = (bp_db p)\<lparr>blk_rows := blk_rows (bp_db p) @ [bk_Num b]\<rparr>,
       rollbackCallbacks = [], commitCallbacks = [], tx_done = False\<rparr>"
  shows "bridge_inv K p' \<and> blk_rows (bp_db p') = blk_rows (bp_db p) @ [bk_Num b] \<and>
    bridge_rows (bp_db p') = bridge_rows (bp_db p) @ block_bridges (bk_Events b) \<and>
    claim_rows (bp_db p') = claim_rows (bp_db p) @ block_claims (bk_Events b)"
proof -
  let ?tx = "\<lparr>tx_base = bp_db p, tx_db = (bp_db p)\<lparr>blk_rows := blk_rows (bp_db p) @ [bk_Num b]\<rparr>,
       rollbackCallbacks = [], commitCallbacks = [], tx_done = False\<rparr>"
  from assms(2) obtain t tx where
    pe: "process_events K io (bk_Num b) (bk_Events b) (bp_exitTree p) ?tx = ((t, tx), None)"
    and p': "p' = p\<lparr>bp_db := tx_db tx, bp_exitTree := t\<rparr>"
    and blk: "blk_rows (tx_db tx) = blk_rows (bp_db p) @ [bk_Num b]"
    by (rule bridge_ProcessBlock_ok)
  have "bridge_db_inv K (tx_db ?tx)" "synced K (bp_exitTree p) (map (bridge_leaf K) (bridge_rows (tx_db ?tx)))"
    using assms(1) by (simp_all add: bridge_inv_def bridge_db_inv_def)
  from process_events_inv [OF pe assms(3) this] p' blk show ?thesis by (auto simp: bridge_inv_def)
qed

lemma sample_processed:
  obtains p' where "bridge_ProcessBlock sample_keccak (\<lambda>_. False) sample_processor sample_block = (p', None)"
    and "bridge_inv sample_keccak p'" and "bridge_rows (bp_db p') = [sample_bridge]"
    and "blk_rows (bp_db p') = [7]" and "claim_rows (bp_db p') = []"
proof -
  obtain p' where p': "bridge_ProcessBlock sample_keccak (\<lambda>_. False) sample_processor sample_block = (p', None)"
    using sample_process_ok by blast
  have "bridge_inv sample_keccak sample_processor"
    unfolding sample_processor_def by (rule sample_bridge_inv)
  from bridge_block_inv [OF this p'] sample_events_fit p' that [OF p']
  show ?thesis by (auto simp: sample_block_def sample_processor_def bridge_newProcessor_def
      block_bridges_def block_claims_def sample_bridge_def Bridge_with_amount_def)
qed

section \<open>Properties\<close>

text \<open>C7. The exit tree is the tree of the stored bridges: processing a block whose bridge events
  continue the deposit count appends exactly the bridges and claims of the block to the
  tables, in order, and the exit tree then holds the hashes of all stored bridges.\<close>

theorem bridge_ProcessBlock_refines:
  assumes "bridge_inv K p" and "bridge_ProcessBlock K io p b = (p', None)"
    and "events_fit K io (bk_Num b) (bk_Events b) (bp_exitTree p)
      \<lparr>tx_base = bp_db p, tx_db = (bp_db p)\<lparr>blk_rows := blk_rows (bp_db p) @ [bk_Num b]\<rparr>,
       rollbackCallbacks = [], commitCallbacks = [], tx_done = False\<rparr>"
  shows "bridge_inv K p' \<and> blk_rows (bp_db p') = blk_rows (bp_db p) @ [bk_Num b] \<and>
    bridge_rows (bp_db p') = bridge_rows (bp_db p) @ block_bridges (bk_Events b) \<and>
    claim_rows (bp_db p') = claim_rows (bp_db p) @ block_claims (bk_Events b)"
  by (rule bridge_block_inv [OF assms])

theorem bridge_ProcessBlock_refines_witness:
  "\<exists>p'. bridge_ProcessBlock sample_keccak (\<lambda>_. False) sample_processor sample_block = (p', None) \<and>
     bridge_inv sample_keccak p' \<and> bridge_rows (bp_db p') = [sample_bridge]"
proof -
  obtain p' where p': "bridge_ProcessBlock sample_keccak (\<lambda>_. False) sample_processor sample_block = (p', None)"
    using sample_process_ok by blast
  have "bridge_inv sample_keccak sample_processor"
    unfolding sample_processor_def by (rule sample_bridge_inv)
  from bridge_ProcessBlock_refines [OF this p'] sample_events_fit p'
  show ?thesis by (auto simp: sample_block_def sample_processor_def bridge_newProcessor_def
      block_bridges_def sample_bridge_def Bridge_with_amount_def)
qed

text \<open>C32. A reorg of the bridge syncer leaves a consistent earlier state: the blocks, bridges and
  claims from the first reorged block on are gone, all others remain in order, and the exit
  tree is again the tree of the stored bridges, in step with its tree object.\<close>

theorem bridge_Reorg_consistent:
  assumes "bridge_inv K p" and "bridge_Reorg io p n = (p', None)"
  shows "bridge_inv K p' \<and> blk_rows (bp_db p') = filter (\<lambda>m. m < n) (blk_rows (bp_db p)) \<and>
    bridge_rows (bp_db p') = filter (\<lambda>b. br_BlockNum b < n) (bridge_rows (bp_db p)) \<and>
    claim_rows (bp_db p') = filter (\<lambda>c. cl_BlockNum c < n) (claim_rows (bp_db p))"
proof -
  let ?db = "bp_db p" and ?tdb = "exit_tree (bp_db p')"
  let ?xs = "map (bridge_leaf K) (bridge_rows ?db)"
  have inv: "append_inv K (exit_tree ?db) ?xs"
    and nums: "map r_BlockNum (root_rows (exit_tree ?db)) = map br_BlockNum (bridge_rows ?db)"
    and cnt: "map (unat \<circ> br_DepositCount) (bridge_rows ?db) = [0..<length (bridge_rows ?db)]"
    and syn: "synced K (bp_exitTree p) ?xs"
    using assms(1) by (simp_all add: bridge_inv_def bridge_db_inv_def)
  note re = bridge_Reorg_ok [OF assms(2)]
  let ?k = "length (root_rows ?tdb)"
  have "(exit_tree ?db)\<lparr>root_rows := filter (\<lambda>r. \<not> r_BlockNum r \<ge> n) (root_rows (exit_tree ?db))\<rparr> = ?tdb"
    using re(1) by (auto simp: Tree_Reorg_def split: if_splits)
  then have "root_rows ?tdb = filter (\<lambda>r. \<not> r_BlockNum r \<ge> n) (root_rows (exit_tree ?db))"
    by (metis tree_db.select_convs(2) tree_db.surjective tree_db.update_convs(2))
  then have roots: "map r_BlockNum (root_rows ?tdb) = filter (\<lambda>m. m < n) (map r_BlockNum (root_rows (exit_tree ?db)))"
    by (simp add: filter_map comp_def not_le)
  have tk: "root_rows ?tdb = take ?k (root_rows (exit_tree ?db))"
    by (rule Tree_Reorg_ok(2) [OF inv re(1)])
  have rows: "bridge_rows (bp_db p') = filter (\<lambda>b. br_BlockNum b < n) (bridge_rows ?db)"
    by (subst re(2)) (simp add: bridge_delete_blocks_def not_le)
  have take: "bridge_rows (bp_db p') = take ?k (bridge_rows ?db)"
    unfolding rows
  proof (rule filter_take_map [of "\<lambda>m. m < n" br_BlockNum, unfolded comp_def])
    show "filter (\<lambda>m. m < n) (map br_BlockNum (bridge_rows ?db)) = take ?k (map br_BlockNum (bridge_rows ?db))"
      using roots tk nums by (metis take_map)
  qed
  have "append_inv K ?tdb (map (bridge_leaf K) (bridge_rows (bp_db p')))"
    using Tree_Reorg_ok(1) [OF inv re(1)] by (simp add: take take_map)
  moreover have "map r_BlockNum (root_rows ?tdb) = map br_BlockNum (bridge_rows (bp_db p'))"
    using tk nums by (metis take take_map)
  moreover have "map (unat \<circ> br_DepositCount) (bridge_rows (bp_db p')) = [0..<length (bridge_rows (bp_db p'))]"
    unfolding take take_map [symmetric] cnt by (simp add: min_def)
  moreover have "synced K (bp_exitTree p) (map (bridge_leaf K) (bridge_rows (bp_db p')))"
    using synced_take [OF syn] by (simp add: take take_map)
  moreover have "bp_exitTree p' = bp_exitTree p" by (subst re(2)) simp
  moreover have "blk_rows (bp_db p') = filter (\<lambda>m. m < n) (blk_rows ?db)"
    and "claim_rows (bp_db p') = filter (\<lambda>c. cl_BlockNum c < n) (claim_rows ?db)"
    by (subst re(2), simp add: bridge_delete_blocks_def not_le)+
  ultimately show ?thesis using rows by (simp add: bridge_inv_def bridge_db_inv_def)
qed

theorem bridge_Reorg_consistent_witness:
  "\<exists>p'. bridge_Reorg (\<lambda>_. False) sample_processor 3 = (p', None) \<and> bridge_inv sample_keccak p'"
proof -
  have "\<exists>p'. bridge_Reorg (\<lambda>_. False) sample_processor 3 = (p', None)"
    by (simp add: bridge_Reorg_def NewTx_def Tree_Reorg_def Tx_Commit_def Let_def)
  moreover have "bridge_inv sample_keccak sample_processor"
    unfolding sample_processor_def by (rule sample_bridge_inv)
  ultimately show ?thesis using bridge_Reorg_consistent by blast
qed

text \<open>Every bridge can be claimed: for each stored bridge the root of its deposit is found by
  index, and the proof for its deposit count takes the bridge's hash to that root.\<close>

theorem bridge_deposit_provable:
  assumes "bridge_inv K p" and "no_faults io" and "i < length (bridge_rows (bp_db p))"
  shows "\<exists>r proof. GetExitRootByIndex io p (of_nat i) = Inr r \<and>
    bridge_GetProof io p (of_nat i) (r_Hash r) = Inr proof \<and>
    CalculateRoot K (bridge_leaf K (bridge_rows (bp_db p) ! i)) proof (of_nat i) = r_Hash r"
proof -
  have "append_inv K (exit_tree (bp_db p)) (map (bridge_leaf K) (bridge_rows (bp_db p)))"
    and "tree_ok K (aot_Tree (bp_exitTree p))"
    using assms(1) by (simp_all add: bridge_inv_def bridge_db_inv_def synced_def)
  from append_proofs_ok [OF this assms(2) order_refl, of i] assms(3)
  show ?thesis by (auto simp: GetExitRootByIndex_def bridge_GetProof_def)
qed

theorem bridge_deposit_provable_witness:
  "\<exists>p' r proof. bridge_ProcessBlock sample_keccak (\<lambda>_. False) sample_processor sample_block = (p', None) \<and>
     GetExitRootByIndex (\<lambda>_. False) p' (of_nat 0) = Inr r \<and>
     bridge_GetProof (\<lambda>_. False) p' (of_nat 0) (r_Hash r) = Inr proof \<and>
     CalculateRoot sample_keccak (bridge_leaf sample_keccak (bridge_rows (bp_db p') ! 0)) proof (of_nat 0) =
       r_Hash r"
proof -
  obtain p' where "bridge_ProcessBlock sample_keccak (\<lambda>_. False) sample_processor sample_block = (p', None)"
    and "bridge_inv sample_keccak p'" and "bridge_rows (bp_db p') = [sample_bridge]" by (rule sample_processed)
  with bridge_deposit_provable [of sample_keccak p' "\<lambda>_. False" 0] show ?thesis by auto
qed

text \<open>C33. No block without reorg tracking: whatever the driver of a bridge syncer does, every
  block its database records, apart from those it started with, was handed to the reorg
  detector before.\<close>

theorem bridge_driver_tracks:
  assumes "driver_reach (bridge_interface K) rh s s'"
  shows "set (blk_rows (bp_db (d_processor s'))) \<subseteq>
    set (blk_rows (bp_db (d_processor s))) \<union> fst ` set (d_tracked s')"
  by (rule bridge.driver_reach_tracked [OF assms]) blast

theorem bridge_driver_tracks_witness:
  "\<exists>s'. driver_reach (bridge_interface sample_keccak) \<lparr>MaxRetryAttemptsAfterError = 3\<rparr>
       (start_download sample_processor [] 0) s' \<and> d_channel s' = [zero_block] \<and>
     set (blk_rows (bp_db (d_processor s'))) \<subseteq> {} \<union> fst ` set (d_tracked s')"
proof -
  let ?s = "start_download sample_processor [] 0 :: (bridge_processor, bridge_item) driver"
  have "driver_step (bridge_interface sample_keccak) \<lparr>MaxRetryAttemptsAfterError = 3\<rparr> ?s
      (?s\<lparr>d_channel := d_channel ?s @ [zero_block]\<rparr>)"
    by (rule driver_step.Download) (simp_all add: start_download_def)
  then have "driver_reach (bridge_interface sample_keccak) \<lparr>MaxRetryAttemptsAfterError = 3\<rparr> ?s
      (?s\<lparr>d_channel := d_channel ?s @ [zero_block]\<rparr>)" by (rule r_into_rtranclp)
  from this bridge_driver_tracks [OF this] show ?thesis
    by (intro exI conjI) (auto simp: start_download_def sample_processor_def bridge_newProcessor_def)
qed

text \<open>Global index codec: the bytes above 64 bits are the mainnet flag, the middle and low 32
  bits the rollup and leaf index; decoding an encoded index gives back its parts, with
  rollup index 0 on mainnet, and more than nine bytes are refused.\<close>

theorem GlobalIndex_codec:
  "DecodeGlobalIndex (GenerateGlobalIndex m r l) = Inr (m, if m then 0 else r, l) \<and>
   DecodeGlobalIndex n =
     (if n < 2 ^ 72 then Inr (2 ^ 64 \<le> n, of_nat (n div 2 ^ 32 mod 2 ^ 32), of_nat (n mod 2 ^ 32))
      else Inl (ErrMsg ''invalid global index length''))"
proof (rule conjI [OF _ DecodeGlobalIndex_parts])
  have r: "unat r < 2 ^ 32" and l: "unat l < 2 ^ 32" using unat_less [of r] unat_less [of l] by simp_all
  show "DecodeGlobalIndex (GenerateGlobalIndex m r l) = Inr (m, if m then 0 else r, l)"
  proof (cases m)
    case True
    have "(2 ^ 64 + unat l) div 2 ^ 32 = 2 ^ 32" by (rule div_nat_eqI) (use l in simp_all)
    moreover have "(2 ^ 64 + unat l) mod 2 ^ 32 = unat l"
      by (subst mod_add_left_eq [symmetric]) (use l in simp)
    ultimately show ?thesis
      using True l by (simp add: DecodeGlobalIndex_parts GenerateGlobalIndex_value)
  next
    case False
    have "unat r * 2 ^ 32 + unat l < 2 ^ 64" using r l by simp
    moreover have "(unat r * 2 ^ 32 + unat l) div 2 ^ 32 = unat r" using l by simp
    ultimately show ?thesis
      using False l r by (simp add: DecodeGlobalIndex_parts GenerateGlobalIndex_value)
  qed
qed

text \<open>\<open>GetBlockByLER\<close> never returns a block number: for every root it either fails or reads a
  field of a nil pointer.\<close>

theorem GetBlockByLER_never_succeeds: "\<exists>e. GetBlockByLER io scan_nil p ler = Inl e"
  by (auto simp: GetBlockByLER_def GetRootByHash_def split: sum.splits option.splits)

end
