(* ===== verification/L1InfoTreeSync.thy ===== *)
theory L1InfoTreeSync
  imports BridgeSync UpdatableTree L1InfoTree
begin

text \<open>
  The L1 info tree syncer (\<open>src/l1infotreesync\<close>): the tables of leaves, verified batches and
  the initial root, the append-only L1 info tree, the updatable rollup exit tree, the sanity
  check against the contract's root that halts the processor, and the queries.
\<close>

section \<open>Data\<close>

record UpdateL1InfoTree =
  u_BlockPosition :: u64
  u_MainnetExitRoot :: hash
  u_RollupExitRoot :: hash
  u_ParentHash :: hash
  u_Timestamp :: u64

record UpdateL1InfoTreeV2 =
  u2_CurrentL1InfoRoot :: hash
  u2_LeafCount :: u32
  u2_Blockhash :: hash
  u2_MinTimestamp :: u64

record VerifyBatches =
  vb_BlockNumber :: u64
  vb_BlockPosition :: u64
  vb_RollupID :: u32
  vb_NumBatch :: u64
  vb_StateRoot :: hash
  vb_ExitRoot :: hash
  vb_Aggregator :: address
  vb_RollupExitRoot :: hash

record InitL1InfoRootMap =
  i_LeafCount :: u32
  i_CurrentL1InfoRoot :: hash

record l1_Event =
  le_UpdateL1InfoTree :: "UpdateL1InfoTree option"
  le_UpdateL1InfoTreeV2 :: "UpdateL1InfoTreeV2 option"
  le_VerifyBatches :: "VerifyBatches option"
  le_InitL1InfoRootMap :: "InitL1InfoRootMap option"

datatype l1_item = L1Item l1_Event | NotL1Event

record L1InfoTreeLeaf =
  lf_BlockNumber :: u64
  lf_BlockPosition :: u64
  lf_L1InfoTreeIndex :: u32
  lf_PreviousBlockHash :: hash
  lf_Timestamp :: u64
  lf_MainnetExitRoot :: hash
  lf_RollupExitRoot :: hash
  lf_GlobalExitRoot :: hash
  lf_Hash :: hash

record L1InfoTreeInitial =
  in_BlockNumber :: u64
  in_LeafCount :: u32
  in_L1InfoRoot :: hash

record l1_db =
  l1_blk_rows :: "u64 list"
  leaf_rows :: "L1InfoTreeLeaf list"
  vb_rows :: "VerifyBatches list"
  initial_rows :: "L1InfoTreeInitial list"
  l1_tree :: tree_db
  rollup_tree :: tree_db

record l1_processor =
  lp_db :: l1_db
  lp_l1InfoTree :: AppendOnlyTree
  lp_rollupExitTree :: UpdatableTree
  lp_halted :: bool
  lp_haltedReason :: string

definition globalExitRoot :: "keccak \<Rightarrow> L1InfoTreeLeaf \<Rightarrow> hash" where
  "globalExitRoot K l = K (hash_bytes (lf_MainnetExitRoot l) @ hash_bytes (lf_RollupExitRoot l))"

definition leaf_hash :: "keccak \<Rightarrow> L1InfoTreeLeaf \<Rightarrow> hash" where
  "leaf_hash K l =
     K (hash_bytes (globalExitRoot K l) @ hash_bytes (lf_PreviousBlockHash l) @ be_bytes 8 (lf_Timestamp l))"

definition l1_newProcessor :: "keccak \<Rightarrow> l1_db \<Rightarrow> l1_processor" where
  "l1_newProcessor K db =
     \<lparr>lp_db = db, lp_l1InfoTree = NewAppendOnlyTree K ''l1_info_'',
      lp_rollupExitTree = NewUpdatableTree K ''rollup_exit_'', lp_halted = False, lp_haltedReason = []\<rparr>"

section \<open>Queries\<close>

definition leaf_key :: "L1InfoTreeLeaf \<Rightarrow> u64 \<times> u64" where
  "leaf_key l = (lf_BlockNumber l, lf_BlockPosition l)"

definition vb_key :: "VerifyBatches \<Rightarrow> u64 \<times> u64" where
  "vb_key v = (vb_BlockNumber v, vb_BlockPosition v)"

text \<open>\<open>sql.ErrNoRows\<close> where the code does not translate it.\<close>

definition ErrNoRows :: error where
  "ErrNoRows = ErrMsg ''sql: no rows in result set''"

definition getLastIndex :: "io \<Rightarrow> l1_db \<Rightarrow> error + u32" where
  "getLastIndex io db =
     map_sum id lf_L1InfoTreeIndex
       (query_row io (SqlSelect ''l1info_leaf'' []) (first_desc leaf_key (leaf_rows db)))"

definition l1_GetLastProcessedBlock :: "io \<Rightarrow> l1_processor \<Rightarrow> error + u64" where
  "l1_GetLastProcessedBlock io p = getLastProcessedBlockWithTx io (l1_blk_rows (lp_db p))"

definition GetL1InfoTreeMerkleProof :: "io \<Rightarrow> l1_processor \<Rightarrow> u32 \<Rightarrow> error + Proof \<times> Root" where
  "GetL1InfoTreeMerkleProof io p index =
     (case GetRootByIndex io (aot_Tree (lp_l1InfoTree p)) (l1_tree (lp_db p)) index of
        Inl e \<Rightarrow> Inl e
      | Inr root \<Rightarrow>
          map_sum id (\<lambda>proof. (proof, root))
            (GetProof io (aot_Tree (lp_l1InfoTree p)) (l1_tree (lp_db p)) (r_Index root) (r_Hash root)))"

text \<open>The query has no condition on the block number.\<close>

definition GetLatestInfoUntilBlock :: "io \<Rightarrow> l1_processor \<Rightarrow> u64 \<Rightarrow> error + L1InfoTreeLeaf" where
  "GetLatestInfoUntilBlock io p blockNum =
     (if blockNum = 0 then Inl ErrNoBlock0
      else if io SqlBegin then Inl ErrSQL
      else case getLastProcessedBlockWithTx io (l1_blk_rows (lp_db p)) of
             Inl e \<Rightarrow> Inl e
           | Inr lpb \<Rightarrow>
               if lpb < blockNum then Inl ErrBlockNotProcessed
               else query_row io (SqlSelect ''l1info_leaf'' [1]) (first_desc leaf_key (leaf_rows (lp_db p))))"

definition l1_GetInfoByIndex :: "io \<Rightarrow> l1_processor \<Rightarrow> u32 \<Rightarrow> error + L1InfoTreeLeaf" where
  "l1_GetInfoByIndex io p index =
     (case query_row io (SqlSelect ''l1info_leaf'' [2, unat index])
             (find (\<lambda>l. lf_L1InfoTreeIndex l = index) (leaf_rows (lp_db p))) of
        Inl e \<Rightarrow> Inl (if e = ErrNotFound then ErrNoRows else e)
      | Inr l \<Rightarrow> Inr l)"

definition GetFirstL1InfoWithRollupExitRoot :: "io \<Rightarrow> l1_processor \<Rightarrow> hash \<Rightarrow> error + L1InfoTreeLeaf" where
  "GetFirstL1InfoWithRollupExitRoot io p rollupExitRoot =
     query_row io (SqlSelect ''l1info_leaf'' [3, unat rollupExitRoot])
       (first_asc leaf_key (filter (\<lambda>l. lf_RollupExitRoot l = rollupExitRoot) (leaf_rows (lp_db p))))"

definition GetLastInfo :: "io \<Rightarrow> l1_processor \<Rightarrow> error + L1InfoTreeLeaf" where
  "GetLastInfo io p =
     query_row io (SqlSelect ''l1info_leaf'' [4]) (first_desc leaf_key (leaf_rows (lp_db p)))"

definition GetFirstInfo :: "io \<Rightarrow> l1_processor \<Rightarrow> error + L1InfoTreeLeaf" where
  "GetFirstInfo io p =
     query_row io (SqlSelect ''l1info_leaf'' [5]) (first_asc leaf_key (leaf_rows (lp_db p)))"

definition GetFirstInfoAfterBlock :: "io \<Rightarrow> l1_processor \<Rightarrow> u64 \<Rightarrow> error + L1InfoTreeLeaf" where
  "GetFirstInfoAfterBlock io p blockNum =
     query_row io (SqlSelect ''l1info_leaf'' [6, unat blockNum])
       (first_asc leaf_key (filter (\<lambda>l. lf_BlockNumber l \<ge> blockNum) (leaf_rows (lp_db p))))"

definition GetInfoByGlobalExitRoot :: "io \<Rightarrow> l1_processor \<Rightarrow> hash \<Rightarrow> error + L1InfoTreeLeaf" where
  "GetInfoByGlobalExitRoot io p ger =
     query_row io (SqlSelect ''l1info_leaf'' [7, unat ger])
       (find (\<lambda>l. lf_GlobalExitRoot l = ger) (leaf_rows (lp_db p)))"

definition GetLastVerifiedBatches :: "io \<Rightarrow> l1_processor \<Rightarrow> u32 \<Rightarrow> error + VerifyBatches" where
  "GetLastVerifiedBatches io p rollupID =
     query_row io (SqlSelect ''verify_batches'' [0, unat rollupID])
       (first_desc vb_key (filter (\<lambda>v. vb_RollupID v = rollupID) (vb_rows (lp_db p))))"

definition GetFirstVerifiedBatches :: "io \<Rightarrow> l1_processor \<Rightarrow> u32 \<Rightarrow> error + VerifyBatches" where
  "GetFirstVerifiedBatches io p rollupID =
     query_row io (SqlSelect ''verify_batches'' [1, unat rollupID])
       (first_asc vb_key (filter (\<lambda>v. vb_RollupID v = rollupID) (vb_rows (lp_db p))))"

definition GetFirstVerifiedBatchesAfterBlock ::
  "io \<Rightarrow> l1_processor \<Rightarrow> u32 \<Rightarrow> u64 \<Rightarrow> error + VerifyBatches"
where
  "GetFirstVerifiedBatchesAfterBlock io p rollupID blockNum =
     query_row io (SqlSelect ''verify_batches'' [2, unat rollupID, unat blockNum])
       (first_asc vb_key
          (filter (\<lambda>v. vb_RollupID v = rollupID \<and> vb_BlockNumber v \<ge> blockNum) (vb_rows (lp_db p))))"

definition l1_GetInitL1InfoRootMap :: "io \<Rightarrow> l1_processor \<Rightarrow> error + L1InfoTreeInitial option" where
  "l1_GetInitL1InfoRootMap io p =
     (case query_row io (SqlSelect ''l1info_initial'' []) (List.find (\<lambda>_. True) (initial_rows (lp_db p))) of
        Inl e \<Rightarrow> if e = ErrNotFound then Inr None else Inl e
      | Inr i \<Rightarrow> Inr (Some i))"

section \<open>Processing a block\<close>

definition insert_leaf :: "io \<Rightarrow> L1InfoTreeLeaf \<Rightarrow> l1_db \<Rightarrow> error + l1_db" where
  "insert_leaf io l db =
     (if io (SqlInsert ''l1info_leaf'' [unat (lf_L1InfoTreeIndex l)]) then Inl ErrSQL
      else if leaf_key l \<in> leaf_key ` set (leaf_rows db) then Inl ErrUniqueConstraint
      else if lf_GlobalExitRoot l \<in> lf_GlobalExitRoot ` set (leaf_rows db) then Inl ErrConstraint
      else if lf_BlockNumber l \<notin> set (l1_blk_rows db) then Inl ErrConstraint
      else Inr (db\<lparr>leaf_rows := leaf_rows db @ [l]\<rparr>))"

definition insert_verify_batches :: "io \<Rightarrow> VerifyBatches \<Rightarrow> l1_db \<Rightarrow> error + l1_db" where
  "insert_verify_batches io v db =
     map_sum id (\<lambda>rows. db\<lparr>vb_rows := rows\<rparr>)
       (fk_insert io (SqlInsert ''verify_batches'' [unat (vb_BlockNumber v), unat (vb_BlockPosition v)])
          vb_key (vb_BlockNumber v \<in> set (l1_blk_rows db)) v (vb_rows db))"

text \<open>The table holds at most one row.\<close>

definition processEventInitL1InfoRootMap ::
  "io \<Rightarrow> u64 \<Rightarrow> InitL1InfoRootMap \<Rightarrow> l1_db \<Rightarrow> error + l1_db"
where
  "processEventInitL1InfoRootMap io blockNumber event db =
     (let info = \<lparr>in_BlockNumber = blockNumber, in_LeafCount = i_LeafCount event,
                  in_L1InfoRoot = i_CurrentL1InfoRoot event\<rparr> in
      map_sum id (\<lambda>rows. db\<lparr>initial_rows := rows\<rparr>)
        (fk_insert io (SqlInsert ''l1info_initial'' []) (\<lambda>_. ()) (blockNumber \<in> set (l1_blk_rows db)) info
           (initial_rows db)))"

definition isNewValueForRollupExitTree ::
  "io \<Rightarrow> UpdatableTree \<Rightarrow> tree_db \<Rightarrow> VerifyBatches \<Rightarrow> error + bool"
where
  "isNewValueForRollupExitTree io t tdb event =
     (case getLastRootWithTx io (ut_Tree t) tdb of
        Inl e \<Rightarrow> if e = ErrNotFound then Inr True else Inl e
      | Inr currentRoot \<Rightarrow>
          (case GetLeaf io (ut_Tree t) (Some tdb) (vb_RollupID event - 1) (r_Hash currentRoot) of
             Inl e \<Rightarrow> if e = ErrNotFound then Inr True else Inl e
           | Inr leaf \<Rightarrow> Inr (leaf \<noteq> vb_ExitRoot event)))"

definition processVerifyBatches ::
  "keccak \<Rightarrow> io \<Rightarrow> UpdatableTree \<Rightarrow> u64 \<Rightarrow> VerifyBatches \<Rightarrow> l1_db \<Rightarrow> l1_db \<times> error option"
where
  "processVerifyBatches K io t blockNumber event db =
     (if vb_ExitRoot event = 0 then (db, None)
      else case isNewValueForRollupExitTree io t (rollup_tree db) event of
             Inl e \<Rightarrow> (db, Some e)
           | Inr isNewLeaf \<Rightarrow>
               if \<not> isNewLeaf then (db, None)
               else case UpsertLeaf K io t (rollup_tree db) blockNumber (vb_BlockPosition event)
                           \<lparr>l_Index = vb_RollupID event - 1, l_Hash = vb_ExitRoot event\<rparr> of
                      (tdb, Inl e) \<Rightarrow> (db\<lparr>rollup_tree := tdb\<rparr>, Some e)
                    | (tdb, Inr newRoot) \<Rightarrow>
                        (case insert_verify_batches io
                                (event\<lparr>vb_BlockNumber := blockNumber, vb_RollupExitRoot := newRoot\<rparr>)
                                (db\<lparr>rollup_tree := tdb\<rparr>) of
                           Inl e \<Rightarrow> (db\<lparr>rollup_tree := tdb\<rparr>, Some e)
                         | Inr db' \<Rightarrow> (db', None)))"

text \<open>
  What one block has changed so far: the tree object, the transaction, the number of leaves
  added and whether the sanity check has halted the processor.
\<close>

record l1_work =
  w_tree :: AppendOnlyTree
  w_tx :: "(l1_db, tree_callback) Tx"
  w_added :: u32
  w_halted :: bool

definition w_db :: "l1_work \<Rightarrow> l1_db" where
  "w_db w = tx_db (w_tx w)"

definition set_w_db :: "l1_db \<Rightarrow> l1_work \<Rightarrow> l1_work" where
  "set_w_db db w = w\<lparr>w_tx := (w_tx w)\<lparr>tx_db := db\<rparr>\<rparr>"

definition new_leaf :: "keccak \<Rightarrow> u64 \<Rightarrow> u32 \<Rightarrow> UpdateL1InfoTree \<Rightarrow> L1InfoTreeLeaf" where
  "new_leaf K blockNum index u =
     (let info = \<lparr>lf_BlockNumber = blockNum, lf_BlockPosition = u_BlockPosition u,
                  lf_L1InfoTreeIndex = index, lf_PreviousBlockHash = u_ParentHash u,
                  lf_Timestamp = u_Timestamp u, lf_MainnetExitRoot = u_MainnetExitRoot u,
                  lf_RollupExitRoot = u_RollupExitRoot u, lf_GlobalExitRoot = 0, lf_Hash = 0\<rparr>;
          info1 = info\<lparr>lf_GlobalExitRoot := globalExitRoot K info\<rparr>
      in info1\<lparr>lf_Hash := leaf_hash K info1\<rparr>)"

definition handle_update ::
  "keccak \<Rightarrow> io \<Rightarrow> u64 \<Rightarrow> u32 \<Rightarrow> UpdateL1InfoTree \<Rightarrow> l1_work \<Rightarrow> l1_work \<times> error option"
where
  "handle_update K io blockNum initialL1InfoIndex u w =
     (let info = new_leaf K blockNum (initialL1InfoIndex + w_added w) u in
      case insert_leaf io info (w_db w) of
        Inl e \<Rightarrow> (w, Some e)
      | Inr db1 \<Rightarrow>
          (case AddLeaf K io (w_tree w) (l1_tree db1) (lf_BlockNumber info) (lf_BlockPosition info)
                  \<lparr>l_Index = lf_L1InfoTreeIndex info, l_Hash = lf_Hash info\<rparr> of
             ((t, tdb, cbs), r) \<Rightarrow>
               let w1 = w\<lparr>w_tree := t, w_tx := fold AddRollbackCallback cbs
                           ((w_tx w)\<lparr>tx_db := db1\<lparr>l1_tree := tdb\<rparr>\<rparr>)\<rparr> in
               (case r of
                  Some e \<Rightarrow> (w1, Some e)
                | None \<Rightarrow> (w1\<lparr>w_added := w_added w + 1\<rparr>, None))))"

definition handle_update_v2 :: "io \<Rightarrow> UpdateL1InfoTreeV2 \<Rightarrow> l1_work \<Rightarrow> l1_work \<times> error option" where
  "handle_update_v2 io u w =
     (case GetLastRoot io (aot_Tree (w_tree w)) (l1_tree (w_db w)) (Some (l1_tree (w_db w))) of
        Inl e \<Rightarrow> (w, Some e)
      | Inr root \<Rightarrow>
          if r_Hash root \<noteq> u2_CurrentL1InfoRoot u \<or> r_Index root + 1 \<noteq> u2_LeafCount u
          then (w\<lparr>w_halted := True\<rparr>, Some ErrInconsistentState)
          else (w, None))"

text \<open>The handlers of one event run in order; the first error ends the block.\<close>

definition and_then ::
  "l1_work \<times> error option \<Rightarrow> (l1_work \<Rightarrow> l1_work \<times> error option) \<Rightarrow> l1_work \<times> error option"
where
  "and_then r f = (case r of (w, Some e) \<Rightarrow> (w, Some e) | (w, None) \<Rightarrow> f w)"

definition l1_process_event ::
  "keccak \<Rightarrow> io \<Rightarrow> UpdatableTree \<Rightarrow> u64 \<Rightarrow> u32 \<Rightarrow> l1_Event \<Rightarrow> l1_work \<Rightarrow> l1_work \<times> error option"
where
  "l1_process_event K io ut blockNum initialL1InfoIndex event w =
     and_then (and_then (and_then
       (case le_UpdateL1InfoTree event of
          None \<Rightarrow> (w, None)
        | Some u \<Rightarrow> handle_update K io blockNum initialL1InfoIndex u w)
       (\<lambda>w. case le_UpdateL1InfoTreeV2 event of
          None \<Rightarrow> (w, None)
        | Some u \<Rightarrow> handle_update_v2 io u w))
       (\<lambda>w. case le_VerifyBatches event of
          None \<Rightarrow> (w, None)
        | Some v \<Rightarrow> (case processVerifyBatches K io ut blockNum v (w_db w) of
                      (db, r) \<Rightarrow> (set_w_db db w, r))))
       (\<lambda>w. case le_InitL1InfoRootMap event of
          None \<Rightarrow> (w, None)
        | Some i \<Rightarrow> (case processEventInitL1InfoRootMap io blockNum i (w_db w) of
                      Inl e \<Rightarrow> (w, Some e)
                    | Inr db \<Rightarrow> (set_w_db db w, None)))"

fun l1_process_events ::
  "keccak \<Rightarrow> io \<Rightarrow> UpdatableTree \<Rightarrow> u64 \<Rightarrow> u32 \<Rightarrow> l1_item list \<Rightarrow> l1_work \<Rightarrow> l1_work \<times> error option"
where
  "l1_process_events K io ut n idx [] w = (w, None)"
| "l1_process_events K io ut n idx (NotL1Event # es) w =
     (w, Some (ErrMsg ''failed to convert from sync.Block.Event into Event''))"
| "l1_process_events K io ut n idx (L1Item e # es) w =
     and_then (l1_process_event K io ut n idx e w) (l1_process_events K io ut n idx es)"

definition haltedReason_text :: string where
  "haltedReason_text = ''failed to check UpdateL1InfoTreeV2''"

definition l1_ProcessBlock ::
  "keccak \<Rightarrow> io \<Rightarrow> l1_processor \<Rightarrow> l1_item Block \<Rightarrow> l1_processor \<times> error option"
where
  "l1_ProcessBlock K io p block =
     (if lp_halted p then (p, Some ErrInconsistentState)
      else case NewTx io (lp_db p) of
        Inl e \<Rightarrow> (p, Some e)
      | Inr tx \<Rightarrow>
          (case insert_block io (bk_Num block) (l1_blk_rows (tx_db tx)) of
             Inl e \<Rightarrow> (p\<lparr>lp_l1InfoTree := rollback_tree io tx (lp_l1InfoTree p)\<rparr>, Some e)
           | Inr rows \<Rightarrow>
               let tx1 = tx\<lparr>tx_db := (tx_db tx)\<lparr>l1_blk_rows := rows\<rparr>\<rparr>;
                   lastIndex = getLastIndex io (tx_db tx1) in
               (case (case lastIndex of
                        Inl e \<Rightarrow> if e = ErrNotFound then Inr 0 else Inl e
                      | Inr i \<Rightarrow> Inr (i + 1)) of
                  Inl e \<Rightarrow> (p\<lparr>lp_l1InfoTree := rollback_tree io tx1 (lp_l1InfoTree p)\<rparr>, Some e)
                | Inr initialL1InfoIndex \<Rightarrow>
                    (case l1_process_events K io (lp_rollupExitTree p) (bk_Num block) initialL1InfoIndex
                            (bk_Events block)
                            \<lparr>w_tree = lp_l1InfoTree p, w_tx = tx1, w_added = 0, w_halted = False\<rparr> of
                       (w, Some e) \<Rightarrow>
                         (p\<lparr>lp_l1InfoTree := rollback_tree io (w_tx w) (w_tree w),
                            lp_halted := w_halted w,
                            lp_haltedReason := (if w_halted w then haltedReason_text else lp_haltedReason p)\<rparr>,
                          Some e)
                     | (w, None) \<Rightarrow>
                         (case Tx_Commit io (w_tx w) of
                            (tx2, Inl e) \<Rightarrow>
                              (p\<lparr>lp_l1InfoTree := rollback_tree io tx2 (w_tree w)\<rparr>, Some e)
                          | (tx2, Inr cbs) \<Rightarrow>
                              (p\<lparr>lp_db := tx_base tx2, lp_l1InfoTree := w_tree w\<rparr>, None))))))"

definition l1_delete_blocks :: "u64 \<Rightarrow> l1_db \<Rightarrow> l1_db" where
  "l1_delete_blocks n db =
     db\<lparr>l1_blk_rows := filter (\<lambda>m. \<not> m \<ge> n) (l1_blk_rows db),
        leaf_rows := filter (\<lambda>l. \<not> lf_BlockNumber l \<ge> n) (leaf_rows db),
        vb_rows := filter (\<lambda>v. \<not> vb_BlockNumber v \<ge> n) (vb_rows db),
        initial_rows := filter (\<lambda>i. \<not> in_BlockNumber i \<ge> n) (initial_rows db)\<rparr>"

definition l1_Reorg :: "io \<Rightarrow> l1_processor \<Rightarrow> u64 \<Rightarrow> l1_processor \<times> error option" where
  "l1_Reorg io p firstReorgedBlock =
     (case NewTx io (lp_db p) of
        Inl e \<Rightarrow> (p, Some e)
      | Inr tx \<Rightarrow>
          let fail = (\<lambda>e. (p\<lparr>lp_l1InfoTree := rollback_tree io tx (lp_l1InfoTree p)\<rparr>, Some e)) in
          if io (SqlDelete ''block'' [unat firstReorgedBlock]) then fail ErrSQL
          else
            let db1 = l1_delete_blocks firstReorgedBlock (tx_db tx);
                rowsAffected = length (l1_blk_rows (tx_db tx)) - length (l1_blk_rows db1) in
            case Tree_Reorg io (aot_Tree (lp_l1InfoTree p)) (l1_tree db1) firstReorgedBlock of
              (tdb1, Some e) \<Rightarrow> fail e
            | (tdb1, None) \<Rightarrow>
                (case Tree_Reorg io (ut_Tree (lp_rollupExitTree p)) (rollup_tree db1) firstReorgedBlock of
                   (tdb2, Some e) \<Rightarrow> fail e
                 | (tdb2, None) \<Rightarrow>
                     (case Tx_Commit io (tx\<lparr>tx_db := db1\<lparr>l1_tree := tdb1, rollup_tree := tdb2\<rparr>\<rparr>) of
                        (tx', Inl e) \<Rightarrow>
                          (p\<lparr>lp_l1InfoTree := rollback_tree io tx' (lp_l1InfoTree p)\<rparr>, Some e)
                      | (tx', Inr cbs) \<Rightarrow>
                          (if rowsAffected > 0
                           then p\<lparr>lp_db := tx_base tx', lp_halted := False, lp_haltedReason := []\<rparr>
                           else p\<lparr>lp_db := tx_base tx'\<rparr>, None))))"

definition l1_interface :: "keccak \<Rightarrow> (l1_processor, l1_item) processorInterface" where
  "l1_interface K =
     \<lparr>pi_GetLastProcessedBlock = l1_GetLastProcessedBlock, pi_ProcessBlock = l1_ProcessBlock K,
      pi_Reorg = l1_Reorg\<rparr>"

section \<open>The syncer's methods\<close>

text \<open>Every method of \<open>L1InfoTreeSync\<close> refuses to answer while the processor is halted.\<close>

definition unless_halted :: "l1_processor \<Rightarrow> error + 'a \<Rightarrow> error + 'a" where
  "unless_halted p r = (if lp_halted p then Inl ErrInconsistentState else r)"

text \<open>The package's own not-found error, which is not \<open>db.ErrNotFound\<close>.\<close>

definition l1_ErrNotFound :: error where
  "l1_ErrNotFound = ErrMsg ''l1infotreesync: not found''"

definition translateError :: "error \<Rightarrow> error" where
  "translateError err = (if err = ErrNotFound then l1_ErrNotFound else err)"

definition s_GetL1InfoTreeMerkleProof :: "io \<Rightarrow> l1_processor \<Rightarrow> u32 \<Rightarrow> error + Proof \<times> Root" where
  "s_GetL1InfoTreeMerkleProof io p index = unless_halted p (GetL1InfoTreeMerkleProof io p index)"

definition GetRollupExitTreeMerkleProof :: "io \<Rightarrow> l1_processor \<Rightarrow> u32 \<Rightarrow> hash \<Rightarrow> error + Proof" where
  "GetRollupExitTreeMerkleProof io p networkID root =
     unless_halted p
       (if networkID = 0 then Inr EmptyProof
        else GetProof io (ut_Tree (lp_rollupExitTree p)) (rollup_tree (lp_db p)) (networkID - 1) root)"

definition s_GetLatestInfoUntilBlock :: "io \<Rightarrow> l1_processor \<Rightarrow> u64 \<Rightarrow> error + L1InfoTreeLeaf" where
  "s_GetLatestInfoUntilBlock io p blockNum =
     unless_halted p (map_sum translateError id (GetLatestInfoUntilBlock io p blockNum))"

definition s_GetInfoByIndex :: "io \<Rightarrow> l1_processor \<Rightarrow> u32 \<Rightarrow> error + L1InfoTreeLeaf" where
  "s_GetInfoByIndex io p index = unless_halted p (l1_GetInfoByIndex io p index)"

definition GetL1InfoTreeRootByIndex :: "io \<Rightarrow> l1_processor \<Rightarrow> u32 \<Rightarrow> error + Root" where
  "GetL1InfoTreeRootByIndex io p index =
     unless_halted p (GetRootByIndex io (aot_Tree (lp_l1InfoTree p)) (l1_tree (lp_db p)) index)"

definition GetLastRollupExitRoot :: "io \<Rightarrow> l1_processor \<Rightarrow> error + Root" where
  "GetLastRollupExitRoot io p =
     unless_halted p (GetLastRoot io (ut_Tree (lp_rollupExitTree p)) (rollup_tree (lp_db p)) None)"

definition GetLastL1InfoTreeRoot :: "io \<Rightarrow> l1_processor \<Rightarrow> error + Root" where
  "GetLastL1InfoTreeRoot io p =
     unless_halted p (GetLastRoot io (aot_Tree (lp_l1InfoTree p)) (l1_tree (lp_db p)) None)"

definition s_GetLastProcessedBlock :: "io \<Rightarrow> l1_processor \<Rightarrow> error + u64" where
  "s_GetLastProcessedBlock io p = unless_halted p (l1_GetLastProcessedBlock io p)"

text \<open>\<open>GetLocalExitRoot\<close> passes a nil querier to \<open>GetLeaf\<close>.\<close>

definition GetLocalExitRoot :: "io \<Rightarrow> l1_processor \<Rightarrow> u32 \<Rightarrow> hash \<Rightarrow> error + hash" where
  "GetLocalExitRoot io p networkID rollupExitRoot =
     unless_halted p
       (if networkID = 0 then Inl (ErrMsg ''network 0 is not a rollup, and it is not part of the rollup exit tree'')
        else GetLeaf io (ut_Tree (lp_rollupExitTree p)) None (networkID - 1) rollupExitRoot)"

definition GetL1InfoTreeMerkleProofFromIndexToRoot :: "io \<Rightarrow> l1_processor \<Rightarrow> u32 \<Rightarrow> hash \<Rightarrow> error + Proof" where
  "GetL1InfoTreeMerkleProofFromIndexToRoot io p index root =
     unless_halted p (GetProof io (aot_Tree (lp_l1InfoTree p)) (l1_tree (lp_db p)) index root)"

definition s_GetLastInfo :: "io \<Rightarrow> l1_processor \<Rightarrow> error + L1InfoTreeLeaf" where
  "s_GetLastInfo io p = unless_halted p (GetLastInfo io p)"

definition s_GetFirstInfo :: "io \<Rightarrow> l1_processor \<Rightarrow> error + L1InfoTreeLeaf" where
  "s_GetFirstInfo io p = unless_halted p (GetFirstInfo io p)"

definition s_GetFirstInfoAfterBlock :: "io \<Rightarrow> l1_processor \<Rightarrow> u64 \<Rightarrow> error + L1InfoTreeLeaf" where
  "s_GetFirstInfoAfterBlock io p blockNum = unless_halted p (GetFirstInfoAfterBlock io p blockNum)"

definition s_GetInfoByGlobalExitRoot :: "io \<Rightarrow> l1_processor \<Rightarrow> hash \<Rightarrow> error + L1InfoTreeLeaf" where
  "s_GetInfoByGlobalExitRoot io p ger = unless_halted p (GetInfoByGlobalExitRoot io p ger)"

definition s_GetFirstL1InfoWithRollupExitRoot :: "io \<Rightarrow> l1_processor \<Rightarrow> hash \<Rightarrow> error + L1InfoTreeLeaf" where
  "s_GetFirstL1InfoWithRollupExitRoot io p rollupExitRoot =
     unless_halted p (GetFirstL1InfoWithRollupExitRoot io p rollupExitRoot)"

definition s_GetLastVerifiedBatches :: "io \<Rightarrow> l1_processor \<Rightarrow> u32 \<Rightarrow> error + VerifyBatches" where
  "s_GetLastVerifiedBatches io p rollupID = unless_halted p (GetLastVerifiedBatches io p rollupID)"

definition s_GetFirstVerifiedBatches :: "io \<Rightarrow> l1_processor \<Rightarrow> u32 \<Rightarrow> error + VerifyBatches" where
  "s_GetFirstVerifiedBatches io p rollupID = unless_halted p (GetFirstVerifiedBatches io p rollupID)"

definition s_GetFirstVerifiedBatchesAfterBlock ::
  "io \<Rightarrow> l1_processor \<Rightarrow> u32 \<Rightarrow> u64 \<Rightarrow> error + VerifyBatches"
where
  "s_GetFirstVerifiedBatchesAfterBlock io p rollupID blockNum =
     unless_halted p (GetFirstVerifiedBatchesAfterBlock io p rollupID blockNum)"

definition s_GetInitL1InfoRootMap :: "io \<Rightarrow> l1_processor \<Rightarrow> error + L1InfoTreeInitial option" where
  "s_GetInitL1InfoRootMap io p = unless_halted p (l1_GetInitL1InfoRootMap io p)"

text \<open>\<open>New\<close>: an empty block before \<open>initialBlock\<close> is recorded when nothing up to it is.\<close>

definition l1_New :: "keccak \<Rightarrow> io \<Rightarrow> l1_db \<Rightarrow> u64 \<Rightarrow> error + l1_processor" where
  "l1_New K io db initialBlock =
     (let p = l1_newProcessor K db in
      case l1_GetLastProcessedBlock io p of
        Inl e \<Rightarrow> Inl e
      | Inr lastProcessedBlock \<Rightarrow>
          if initialBlock > 0 \<and> lastProcessedBlock < initialBlock - 1
          then (case l1_ProcessBlock K io p \<lparr>bk_Num = initialBlock - 1, bk_Events = []\<rparr> of
                  (p', Some e) \<Rightarrow> Inl e
                | (p', None) \<Rightarrow> Inr p')
          else Inr p)"

section \<open>Frame of the transaction\<close>

definition w_frame :: "l1_work \<Rightarrow> l1_work \<Rightarrow> bool" where
  "w_frame w w' \<longleftrightarrow> l1_blk_rows (w_db w') = l1_blk_rows (w_db w) \<and> tx_base (w_tx w') = tx_base (w_tx w) \<and>
     tx_done (w_tx w') = tx_done (w_tx w)"

lemma w_frame_refl [simp]: "w_frame w w"
  by (simp add: w_frame_def)

lemma w_frame_trans: "w_frame a b \<Longrightarrow> w_frame b c \<Longrightarrow> w_frame a c"
  by (simp add: w_frame_def)

lemma and_then_cases:
  assumes "and_then r f = (w', x)"
  obtains (stop) e where "r = (w', Some e)" and "x = Some e"
    | (go) w where "r = (w, None)" and "f w = (w', x)"
  using assms by (cases r; cases "snd r") (auto simp: and_then_def)

lemma and_then_frame:
  "w_frame w (fst r) \<Longrightarrow> (\<And>w1. w_frame w1 (fst (f w1))) \<Longrightarrow> w_frame w (fst (and_then r f))"
  by (cases r; cases "snd r") (auto simp: and_then_def intro: w_frame_trans)

lemma insert_leaf_Inr:
  "insert_leaf io l db = Inr db' \<Longrightarrow> db' = db\<lparr>leaf_rows := leaf_rows db @ [l]\<rparr>"
  by (auto simp: insert_leaf_def split: if_splits)

lemma handle_update_frame: "w_frame w (fst (handle_update K io n i u w))"
  by (auto simp: handle_update_def w_frame_def w_db_def Let_def
      split: sum.splits prod.splits option.splits dest!: insert_leaf_Inr)

lemma handle_update_v2_frame: "w_frame w (fst (handle_update_v2 io u w))"
  by (auto simp: handle_update_v2_def w_frame_def w_db_def split: sum.splits if_splits)

lemma processVerifyBatches_frame:
  "processVerifyBatches K io t n v db = (db', r) \<Longrightarrow>
   l1_blk_rows db' = l1_blk_rows db \<and> leaf_rows db' = leaf_rows db \<and> l1_tree db' = l1_tree db"
  by (auto simp: processVerifyBatches_def insert_verify_batches_def fk_insert_def
      split: if_splits sum.splits prod.splits)

lemma processEventInit_frame:
  "processEventInitL1InfoRootMap io n i db = Inr db' \<Longrightarrow>
   l1_blk_rows db' = l1_blk_rows db \<and> leaf_rows db' = leaf_rows db \<and> l1_tree db' = l1_tree db"
  by (auto simp: processEventInitL1InfoRootMap_def fk_insert_def Let_def split: if_splits)

lemma set_w_db_simps [simp]:
  "w_db (set_w_db db w) = db" "tx_base (w_tx (set_w_db db w)) = tx_base (w_tx w)"
  "tx_done (w_tx (set_w_db db w)) = tx_done (w_tx w)" "w_tree (set_w_db db w) = w_tree w"
  "w_added (set_w_db db w) = w_added w" "w_halted (set_w_db db w) = w_halted w"
  by (simp_all add: set_w_db_def w_db_def)

lemma l1_process_event_frame: "w_frame w (fst (l1_process_event K io ut n i e w))"
  unfolding l1_process_event_def
proof (intro and_then_frame)
  show "w_frame w (fst (case le_UpdateL1InfoTree e of None \<Rightarrow> (w, None) | Some u \<Rightarrow> handle_update K io n i u w))"
    by (simp add: handle_update_frame split: option.split)
next
  fix w
  show "w_frame w (fst (case le_UpdateL1InfoTreeV2 e of None \<Rightarrow> (w, None) | Some u \<Rightarrow> handle_update_v2 io u w))"
    by (simp add: handle_update_v2_frame split: option.split)
next
  fix w
  show "w_frame w (fst (case le_VerifyBatches e of None \<Rightarrow> (w, None)
        | Some v \<Rightarrow> (case processVerifyBatches K io ut n v (w_db w) of (db, r) \<Rightarrow> (set_w_db db w, r))))"
    by (auto simp: w_frame_def split: option.split prod.split dest: processVerifyBatches_frame)
next
  fix w
  show "w_frame w (fst (case le_InitL1InfoRootMap e of None \<Rightarrow> (w, None)
        | Some i \<Rightarrow> (case processEventInitL1InfoRootMap io n i (w_db w) of
                      Inl e \<Rightarrow> (w, Some e) | Inr db \<Rightarrow> (set_w_db db w, None))))"
    by (auto simp: w_frame_def split: option.split sum.split dest: processEventInit_frame)
qed

lemma l1_process_events_frame: "w_frame w (fst (l1_process_events K io ut n i es w))"
proof (induction es arbitrary: w)
  case (Cons e es)
  then show ?case
    by (cases e) (auto intro: and_then_frame l1_process_event_frame)
qed simp

section \<open>What one call does to the database\<close>

definition l1_start :: "l1_processor \<Rightarrow> l1_item Block \<Rightarrow> l1_work" where
  "l1_start p b =
     \<lparr>w_tree = lp_l1InfoTree p,
      w_tx = \<lparr>tx_base = lp_db p, tx_db = (lp_db p)\<lparr>l1_blk_rows := l1_blk_rows (lp_db p) @ [bk_Num b]\<rparr>,
              rollbackCallbacks = [], commitCallbacks = [], tx_done = False\<rparr>,
      w_added = 0, w_halted = False\<rparr>"

lemma l1_ProcessBlock_error:
  "l1_ProcessBlock K io p b = (p', Some e) \<Longrightarrow> lp_db p' = lp_db p"
  by (auto simp: l1_ProcessBlock_def Let_def split: if_splits sum.splits prod.splits option.splits)

text \<open>A successful call: the transaction that was committed.\<close>

lemma l1_ProcessBlock_ok:
  assumes "l1_ProcessBlock K io p b = (p', None)"
  obtains i w where "\<not> lp_halted p"
    and "bk_Num b \<notin> set (l1_blk_rows (lp_db p))"
    and "getLastIndex io (lp_db p) = Inl ErrNotFound \<and> i = 0 \<or> (\<exists>k. getLastIndex io (lp_db p) = Inr k \<and> i = k + 1)"
    and "l1_process_events K io (lp_rollupExitTree p) (bk_Num b) i (bk_Events b) (l1_start p b) = (w, None)"
    and "p' = p\<lparr>lp_db := w_db w, lp_l1InfoTree := w_tree w\<rparr>"
    and "l1_blk_rows (w_db w) = l1_blk_rows (lp_db p) @ [bk_Num b]"
proof -
  have halted: "\<not> lp_halted p" and beg: "\<not> io SqlBegin"
    using assms by (auto simp: l1_ProcessBlock_def NewTx_def split: if_splits)
  obtain rows where rows: "insert_block io (bk_Num b) (l1_blk_rows (lp_db p)) = Inr rows"
    using assms halted beg
    by (cases "insert_block io (bk_Num b) (l1_blk_rows (lp_db p))") (simp_all add: l1_ProcessBlock_def NewTx_def)
  then have rows': "rows = l1_blk_rows (lp_db p) @ [bk_Num b]" "bk_Num b \<notin> set (l1_blk_rows (lp_db p))"
    by (auto simp: insert_block_def pk_insert_Inr)
  have gl: "getLastIndex io ((lp_db p)\<lparr>l1_blk_rows := rows\<rparr>) = getLastIndex io (lp_db p)"
    by (simp add: getLastIndex_def)
  obtain i where i: "(case getLastIndex io (lp_db p) of
        Inl e \<Rightarrow> if e = ErrNotFound then Inr 0 else Inl e | Inr i \<Rightarrow> Inr (i + 1)) = Inr i"
    using assms halted beg rows gl
    by (cases "(case getLastIndex io (lp_db p) of
        Inl e \<Rightarrow> if e = ErrNotFound then Inr 0 else Inl e | Inr i \<Rightarrow> Inr (i + 1))")
      (simp_all add: l1_ProcessBlock_def NewTx_def)
  obtain w r where w: "l1_process_events K io (lp_rollupExitTree p) (bk_Num b) i (bk_Events b) (l1_start p b) = (w, r)"
    by (metis surj_pair)
  have fr: "w_frame (l1_start p b) w"
    using l1_process_events_frame [of "l1_start p b" K io "lp_rollupExitTree p" "bk_Num b" i "bk_Events b"] w by simp
  have "r = None \<and> p' = p\<lparr>lp_db := w_db w, lp_l1InfoTree := w_tree w\<rparr>"
    using assms halted beg rows gl i w fr rows'(1)
    by (auto simp: l1_ProcessBlock_def NewTx_def l1_start_def Tx_Commit_def w_frame_def w_db_def
        split: option.splits if_splits)
  moreover have "l1_blk_rows (w_db w) = l1_blk_rows (lp_db p) @ [bk_Num b]"
    using fr by (simp add: w_frame_def w_db_def l1_start_def)
  ultimately show ?thesis
    using that halted rows' w i by (auto split: sum.splits if_splits)
qed

lemma l1_Reorg_error: "l1_Reorg io p n = (p', Some e) \<Longrightarrow> lp_db p' = lp_db p"
  by (auto simp: l1_Reorg_def Let_def split: sum.splits prod.splits option.splits if_splits)

lemma l1_Reorg_ok:
  assumes "l1_Reorg io p n = (p', None)"
  shows "Tree_Reorg io (aot_Tree (lp_l1InfoTree p)) (l1_tree (lp_db p)) n = (l1_tree (lp_db p'), None)"
    and "Tree_Reorg io (ut_Tree (lp_rollupExitTree p)) (rollup_tree (lp_db p)) n = (rollup_tree (lp_db p'), None)"
    and "lp_db p' = (l1_delete_blocks n (lp_db p))\<lparr>l1_tree := l1_tree (lp_db p'), rollup_tree := rollup_tree (lp_db p')\<rparr>"
    and "lp_l1InfoTree p' = lp_l1InfoTree p" and "lp_rollupExitTree p' = lp_rollupExitTree p"
    and "lp_halted p' \<longleftrightarrow> lp_halted p \<and> (\<forall>m\<in>set (l1_blk_rows (lp_db p)). m < n)"
proof -
  have len: "length (filter (\<lambda>m. \<not> n \<le> m) xs) < length xs \<longleftrightarrow> (\<exists>m\<in>set xs. n \<le> m)" for xs :: "u64 list"
    by (auto intro: length_filter_less simp: filter_id_conv not_le dest: length_filter_less)
      (metis filter_True le_less_linear nat_less_le not_le)
  show "Tree_Reorg io (aot_Tree (lp_l1InfoTree p)) (l1_tree (lp_db p)) n = (l1_tree (lp_db p'), None)"
    and "Tree_Reorg io (ut_Tree (lp_rollupExitTree p)) (rollup_tree (lp_db p)) n = (rollup_tree (lp_db p'), None)"
    and "lp_db p' = (l1_delete_blocks n (lp_db p))\<lparr>l1_tree := l1_tree (lp_db p'), rollup_tree := rollup_tree (lp_db p')\<rparr>"
    and "lp_l1InfoTree p' = lp_l1InfoTree p" and "lp_rollupExitTree p' = lp_rollupExitTree p"
    using assms
    by (auto simp: l1_Reorg_def NewTx_def Tx_Commit_def Let_def l1_delete_blocks_def
        split: sum.splits prod.splits option.splits if_splits)
  have "lp_halted p' \<longleftrightarrow> lp_halted p \<and> \<not> length (filter (\<lambda>m. \<not> n \<le> m) (l1_blk_rows (lp_db p))) < length (l1_blk_rows (lp_db p))"
    using assms
    by (auto simp: l1_Reorg_def NewTx_def Tx_Commit_def Let_def l1_delete_blocks_def
        split: sum.splits prod.splits option.splits if_splits)
  then show "lp_halted p' \<longleftrightarrow> lp_halted p \<and> (\<forall>m\<in>set (l1_blk_rows (lp_db p)). m < n)"
    unfolding len by (auto simp: not_le)
qed

interpretation l1: sync_processor "l1_interface K" lp_db "\<lambda>d. set (l1_blk_rows d)"
  for K
proof (unfold_locales, unfold l1_interface_def processorInterface.simps)
  show "l1_ProcessBlock K io p b = (p', Some e) \<Longrightarrow> lp_db p' = lp_db p" for io p b p' e
    by (rule l1_ProcessBlock_error)
  show "bk_Num b \<notin> set (l1_blk_rows (lp_db p)) \<and>
      set (l1_blk_rows (lp_db p')) = insert (bk_Num b) (set (l1_blk_rows (lp_db p)))"
    if "l1_ProcessBlock K io p b = (p', None)" for io p b p'
    using that by (rule l1_ProcessBlock_ok) auto
  show "l1_Reorg io p n = (p', Some e) \<Longrightarrow> lp_db p' = lp_db p" for io p n p' e
    by (rule l1_Reorg_error)
  show "set (l1_blk_rows (lp_db p')) = {m \<in> set (l1_blk_rows (lp_db p)). m < n}"
    if "l1_Reorg io p n = (p', None)" for io p n p'
    by (subst l1_Reorg_ok(3) [OF that]) (auto simp: l1_delete_blocks_def)
  show "set (l1_blk_rows (lp_db p)) = {} \<and> m = 0 \<or>
      m \<in> set (l1_blk_rows (lp_db p)) \<and> (\<forall>k\<in>set (l1_blk_rows (lp_db p)). k \<le> m)"
    if "l1_GetLastProcessedBlock io p = Inr m" for io p m
    using that unfolding l1_GetLastProcessedBlock_def by (rule last_processed_ok)
qed

section \<open>The L1 info tree is the tree of the stored leaves\<close>

definition l1_db_inv :: "keccak \<Rightarrow> l1_db \<Rightarrow> bool" where
  "l1_db_inv K db \<longleftrightarrow>
     append_inv K (l1_tree db) (map lf_Hash (leaf_rows db)) \<and>
     map root_key (root_rows (l1_tree db)) = map leaf_key (leaf_rows db) \<and>
     map lf_L1InfoTreeIndex (leaf_rows db) = map of_nat [0..<length (leaf_rows db)] \<and>
     (\<forall>l\<in>set (leaf_rows db).
        lf_Hash l = HashLeafData K (lf_GlobalExitRoot l) (lf_PreviousBlockHash l) (lf_Timestamp l))"

definition l1_proc_inv :: "keccak \<Rightarrow> l1_processor \<Rightarrow> bool" where
  "l1_proc_inv K p \<longleftrightarrow> l1_db_inv K (lp_db p) \<and> synced K (lp_l1InfoTree p) (map lf_Hash (leaf_rows (lp_db p)))"

text \<open>
  What an update has to satisfy: it comes after the leaves stored so far in block order, the
  tree is not full, and storing its path causes no hash collision.
\<close>

definition leaf_fits :: "keccak \<Rightarrow> u64 \<Rightarrow> UpdateL1InfoTree \<Rightarrow> l1_db \<Rightarrow> bool" where
  "leaf_fits K n u db \<longleftrightarrow> new_key (l1_tree db) n (u_BlockPosition u) \<and> length (leaf_rows db) < 2 ^ 32 \<and>
     append_safe K (l1_tree db) (map lf_Hash (leaf_rows db))
       (lf_Hash (new_leaf K n (of_nat (length (leaf_rows db))) u))"

fun l1_events_fit ::
  "keccak \<Rightarrow> io \<Rightarrow> UpdatableTree \<Rightarrow> u64 \<Rightarrow> u32 \<Rightarrow> l1_item list \<Rightarrow> l1_work \<Rightarrow> bool"
where
  "l1_events_fit K io ut n i [] w \<longleftrightarrow> True"
| "l1_events_fit K io ut n i (NotL1Event # es) w \<longleftrightarrow> True"
| "l1_events_fit K io ut n i (L1Item e # es) w \<longleftrightarrow>
     (case le_UpdateL1InfoTree e of None \<Rightarrow> True | Some u \<Rightarrow> leaf_fits K n u (w_db w)) \<and>
     (case l1_process_event K io ut n i e w of
        (w1, Some err) \<Rightarrow> True
      | (w1, None) \<Rightarrow> l1_events_fit K io ut n i es w1)"

text \<open>The leaves a block adds, with consecutive indices from \<open>i\<close>.\<close>

fun block_leaves :: "keccak \<Rightarrow> u64 \<Rightarrow> nat \<Rightarrow> l1_item list \<Rightarrow> L1InfoTreeLeaf list" where
  "block_leaves K n i [] = []"
| "block_leaves K n i (NotL1Event # es) = block_leaves K n i es"
| "block_leaves K n i (L1Item e # es) =
     (case le_UpdateL1InfoTree e of
        None \<Rightarrow> block_leaves K n i es
      | Some u \<Rightarrow> new_leaf K n (of_nat i) u # block_leaves K n (Suc i) es)"

definition w_inv :: "keccak \<Rightarrow> u32 \<Rightarrow> l1_work \<Rightarrow> bool" where
  "w_inv K i w \<longleftrightarrow> l1_db_inv K (w_db w) \<and> synced K (w_tree w) (map lf_Hash (leaf_rows (w_db w))) \<and>
     i + w_added w = of_nat (length (leaf_rows (w_db w)))"

lemma new_leaf_simps [simp]:
  "lf_BlockNumber (new_leaf K n i u) = n" "lf_BlockPosition (new_leaf K n i u) = u_BlockPosition u"
  "lf_L1InfoTreeIndex (new_leaf K n i u) = i" "leaf_key (new_leaf K n i u) = (n, u_BlockPosition u)"
  "lf_MainnetExitRoot (new_leaf K n i u) = u_MainnetExitRoot u"
  "lf_RollupExitRoot (new_leaf K n i u) = u_RollupExitRoot u"
  "lf_PreviousBlockHash (new_leaf K n i u) = u_ParentHash u" "lf_Timestamp (new_leaf K n i u) = u_Timestamp u"
  by (simp_all add: new_leaf_def leaf_key_def Let_def)

lemma new_leaf_hash:
  "lf_Hash (new_leaf K n i u) =
     HashLeafData K (lf_GlobalExitRoot (new_leaf K n i u)) (u_ParentHash u) (u_Timestamp u)"
  by (simp add: new_leaf_def Let_def leaf_hash_def globalExitRoot_def HashLeafData_def)

lemma tx_db_fold_callbacks [simp]: "tx_db (fold AddRollbackCallback cbs tx) = tx_db tx"
  by (induction cbs arbitrary: tx) (simp_all add: AddRollbackCallback_def)

lemma handle_update_inv:
  assumes "w_inv K i w" and "leaf_fits K n u (w_db w)" and "handle_update K io n i u w = (w', None)"
  shows "w_inv K i w' \<and>
    leaf_rows (w_db w') = leaf_rows (w_db w) @ [new_leaf K n (of_nat (length (leaf_rows (w_db w)))) u]"
proof -
  let ?db = "w_db w" and ?l = "new_leaf K n (of_nat (length (leaf_rows (w_db w)))) u"
  have inv: "l1_db_inv K ?db" and syn: "synced K (w_tree w) (map lf_Hash (leaf_rows ?db))"
    and idx: "i + w_added w = of_nat (length (leaf_rows ?db))"
    using assms(1) by (simp_all add: w_inv_def)
  obtain db1 where ins: "insert_leaf io ?l ?db = Inr db1"
    using assms(3) idx by (cases "insert_leaf io ?l ?db") (simp_all add: handle_update_def Let_def)
  note db1 = insert_leaf_Inr [OF ins]
  obtain t tdb cbs where al: "AddLeaf K io (w_tree w) (l1_tree ?db) n (u_BlockPosition u)
      \<lparr>l_Index = of_nat (length (leaf_rows ?db)), l_Hash = lf_Hash ?l\<rparr> = ((t, tdb, cbs), None)"
    and w': "w_tree w' = t" "w_db w' = db1\<lparr>l1_tree := tdb\<rparr>" "w_added w' = w_added w + 1"
    using assms(3) ins idx db1
    by (auto simp: handle_update_def Let_def w_db_def split: prod.splits option.splits)
  have "length (leaf_rows ?db) < 2 ^ 32" using assms(2) by (simp add: leaf_fits_def)
  then have "unat (of_nat (length (leaf_rows ?db)) :: u32) = length (leaf_rows ?db)"
    by (rule unat_of_nat_index [unfolded DefaultHeight_def])
  with AddLeaf_success [OF _ syn _ _ _ al] inv assms(2)
  have "append_inv K tdb (map lf_Hash (leaf_rows ?db) @ [lf_Hash ?l])"
    and "synced K t (map lf_Hash (leaf_rows ?db) @ [lf_Hash ?l])"
    and "map root_key (root_rows tdb) = map leaf_key (leaf_rows ?db) @ [(n, u_BlockPosition u)]"
    by (simp_all add: l1_db_inv_def leaf_fits_def root_key_def)
  with inv idx w' db1 show ?thesis
    by (simp add: w_inv_def l1_db_inv_def add.assoc [symmetric] new_leaf_hash [symmetric])
qed

lemma handle_update_v2_inv:
  "handle_update_v2 io u w = (w', None) \<Longrightarrow> w' = w \<and>
     (\<exists>root. GetLastRoot io (aot_Tree (w_tree w)) (l1_tree (w_db w)) (Some (l1_tree (w_db w))) = Inr root \<and>
        r_Hash root = u2_CurrentL1InfoRoot u \<and> r_Index root + 1 = u2_LeafCount u)"
  by (auto simp: handle_update_v2_def split: sum.splits if_splits)

lemma w_inv_set_db:
  "w_inv K i w \<Longrightarrow> leaf_rows db = leaf_rows (w_db w) \<Longrightarrow> l1_tree db = l1_tree (w_db w) \<Longrightarrow> w_inv K i (set_w_db db w)"
  by (simp add: w_inv_def l1_db_inv_def)

lemma and_then_None: "and_then r f = (w', None) \<longleftrightarrow> (\<exists>w. r = (w, None) \<and> f w = (w', None))"
  by (cases r; cases "snd r") (auto simp: and_then_def)

text \<open>A processed event: its update is stored, and after a V2 event the tree has the contract's root.\<close>

lemma l1_process_event_inv:
  assumes "w_inv K i w" and "l1_process_event K io ut n i e w = (w', None)"
    and "case le_UpdateL1InfoTree e of None \<Rightarrow> True | Some u \<Rightarrow> leaf_fits K n u (w_db w)"
  shows "w_inv K i w' \<and>
      leaf_rows (w_db w') = leaf_rows (w_db w) @ block_leaves K n (length (leaf_rows (w_db w))) [L1Item e]"
    and "le_UpdateL1InfoTreeV2 e = Some u2 \<Longrightarrow>
      \<exists>root. getLastRootWithTx io (aot_Tree (w_tree w')) (l1_tree (w_db w')) = Inr root \<and>
        r_Hash root = u2_CurrentL1InfoRoot u2 \<and> r_Index root + 1 = u2_LeafCount u2"
proof -
  from assms(2) obtain w1 w2 w3 where
    s1: "(case le_UpdateL1InfoTree e of None \<Rightarrow> (w, None) | Some u \<Rightarrow> handle_update K io n i u w) = (w1, None)"
    and s2: "(case le_UpdateL1InfoTreeV2 e of None \<Rightarrow> (w1, None) | Some u \<Rightarrow> handle_update_v2 io u w1) = (w2, None)"
    and s3: "(case le_VerifyBatches e of None \<Rightarrow> (w2, None)
        | Some v \<Rightarrow> (case processVerifyBatches K io ut n v (w_db w2) of (db, r) \<Rightarrow> (set_w_db db w2, r))) = (w3, None)"
    and s4: "(case le_InitL1InfoRootMap e of None \<Rightarrow> (w3, None)
        | Some i \<Rightarrow> (case processEventInitL1InfoRootMap io n i (w_db w3) of
                      Inl e \<Rightarrow> (w3, Some e) | Inr db \<Rightarrow> (set_w_db db w3, None))) = (w', None)"
    unfolding l1_process_event_def and_then_None by blast
  have 1: "w_inv K i w1 \<and>
      leaf_rows (w_db w1) = leaf_rows (w_db w) @ block_leaves K n (length (leaf_rows (w_db w))) [L1Item e]"
    using s1 assms(1,3) handle_update_inv by (auto split: option.splits)
  have 2: "w2 = w1" using s2 by (auto split: option.splits dest: handle_update_v2_inv)
  have 3: "w_tree w3 = w_tree w2" "leaf_rows (w_db w3) = leaf_rows (w_db w2)" "l1_tree (w_db w3) = l1_tree (w_db w2)"
      "w_inv K i w3" if "w_inv K i w2"
    using s3 that by (auto split: option.splits prod.splits dest: processVerifyBatches_frame intro: w_inv_set_db)
  have 4: "w_tree w' = w_tree w3" "leaf_rows (w_db w') = leaf_rows (w_db w3)" "l1_tree (w_db w') = l1_tree (w_db w3)"
      "w_inv K i w'" if "w_inv K i w3"
    using s4 that by (auto split: option.splits sum.splits dest: processEventInit_frame intro: w_inv_set_db)
  show "w_inv K i w' \<and>
      leaf_rows (w_db w') = leaf_rows (w_db w) @ block_leaves K n (length (leaf_rows (w_db w))) [L1Item e]"
    using 1 2 3 4 by simp
  show "\<exists>root. getLastRootWithTx io (aot_Tree (w_tree w')) (l1_tree (w_db w')) = Inr root \<and>
        r_Hash root = u2_CurrentL1InfoRoot u2 \<and> r_Index root + 1 = u2_LeafCount u2"
    if "le_UpdateL1InfoTreeV2 e = Some u2"
  proof -
    have "handle_update_v2 io u2 w1 = (w2, None)" using s2 that by simp
    from handle_update_v2_inv [OF this] 1 2 3 4 show ?thesis by (simp add: GetLastRoot_def)
  qed
qed

lemma block_leaves_Cons:
  "block_leaves K n i (L1Item e # es) = block_leaves K n i [L1Item e] @
     block_leaves K n (i + length (block_leaves K n i [L1Item e])) es"
  by (simp split: option.split)

lemma l1_process_events_inv:
  "w_inv K i w \<Longrightarrow> l1_process_events K io ut n i es w = (w', None) \<Longrightarrow> l1_events_fit K io ut n i es w \<Longrightarrow>
   w_inv K i w' \<and>
   leaf_rows (w_db w') = leaf_rows (w_db w) @ block_leaves K n (length (leaf_rows (w_db w))) es \<and>
   (\<forall>e u2. es \<noteq> [] \<longrightarrow> last es = L1Item e \<longrightarrow> le_UpdateL1InfoTreeV2 e = Some u2 \<longrightarrow>
      (\<exists>root. getLastRootWithTx io (aot_Tree (w_tree w')) (l1_tree (w_db w')) = Inr root \<and>
        r_Hash root = u2_CurrentL1InfoRoot u2 \<and> r_Index root + 1 = u2_LeafCount u2))"
proof (induction es arbitrary: w)
  case Nil
  then show ?case by simp
next
  case (Cons x es)
  then obtain e where x: "x = L1Item e" by (cases x) simp_all
  with Cons.prems(2) obtain w1 where w1: "l1_process_event K io ut n i e w = (w1, None)"
    and rest: "l1_process_events K io ut n i es w1 = (w', None)"
    by (auto simp: and_then_None)
  have fit: "case le_UpdateL1InfoTree e of None \<Rightarrow> True | Some u \<Rightarrow> leaf_fits K n u (w_db w)"
    and fits: "l1_events_fit K io ut n i es w1"
    using Cons.prems(3) x w1 by simp_all
  note ev = l1_process_event_inv [OF Cons.prems(1) w1 fit]
  note IH = Cons.IH [OF conjunct1 [OF ev(1)] rest fits]
  have "leaf_rows (w_db w') = leaf_rows (w_db w) @ block_leaves K n (length (leaf_rows (w_db w))) (x # es)"
    using IH ev(1) unfolding x by (subst block_leaves_Cons) simp
  moreover have "es = [] \<Longrightarrow> w' = w1" using rest by simp
  ultimately show ?case using IH ev(2) x by (cases "es = []") simp_all
qed

lemma getLastIndex_inv:
  assumes "l1_db_inv K db"
  shows "getLastIndex io db = Inl ErrNotFound \<Longrightarrow> leaf_rows db = []"
    and "getLastIndex io db = Inr k \<Longrightarrow> k + 1 = of_nat (length (leaf_rows db))"
proof -
  show "getLastIndex io db = Inl ErrNotFound \<Longrightarrow> leaf_rows db = []"
    by (auto simp: getLastIndex_def query_row_def split: if_splits option.splits)
  assume k: "getLastIndex io db = Inr k"
  then obtain ls l where ls: "leaf_rows db = ls @ [l]"
    by (cases "leaf_rows db" rule: rev_cases) (auto simp: getLastIndex_def query_row_def split: if_splits)
  have "sorted_wrt (<) (map leaf_key (leaf_rows db))"
    using assms by (metis l1_db_inv_def append_inv_def)
  then have "first_desc leaf_key (leaf_rows db) = Some l"
    unfolding ls by (intro first_desc_append_greatest) (auto simp: sorted_wrt_append)
  then have "k = lf_L1InfoTreeIndex l"
    using k by (auto simp: getLastIndex_def query_row_def split: if_splits)
  with assms ls show "k + 1 = of_nat (length (leaf_rows db))" by (simp add: l1_db_inv_def)
qed

lemma last_root_Inr:
  assumes "append_inv K db xs" and "getLastRootWithTx io t db = Inr root"
  shows "r_Hash root = leaves_root K xs \<and> r_Index root + 1 = of_nat (length xs)"
proof -
  have ne: "xs \<noteq> []"
    using assms by (auto simp: getLastRootWithTx_def query_row_def append_inv_def split: if_splits option.splits)
  have "root = root_rows db ! (length xs - 1)"
    using assms(2) last_root_row [OF assms(1) ne] by (auto simp: getLastRootWithTx_def query_row_def split: if_splits)
  moreover have "root_ok K (rht_rows db) xs (root_rows db ! (length xs - 1)) (length xs - 1)"
    using assms(1) ne by (simp add: append_inv_def)
  moreover have "(of_nat (length xs - 1) :: u32) + 1 = of_nat (length xs)"
    using ne by (cases xs) (simp_all add: add.commute)
  ultimately show ?thesis using ne by (simp add: root_ok_def)
qed

lemma l1_block_inv:
  assumes "l1_proc_inv K p" and "l1_ProcessBlock K io p b = (p', None)"
    and "l1_events_fit K io (lp_rollupExitTree p) (bk_Num b) (of_nat (length (leaf_rows (lp_db p))))
      (bk_Events b) (l1_start p b)"
  shows "l1_proc_inv K p' \<and>
    leaf_rows (lp_db p') =
      leaf_rows (lp_db p) @ block_leaves K (bk_Num b) (length (leaf_rows (lp_db p))) (bk_Events b) \<and>
    (\<forall>es e u2. bk_Events b = es @ [L1Item e] \<longrightarrow> le_UpdateL1InfoTreeV2 e = Some u2 \<longrightarrow>
      leaves_root K (map lf_Hash (leaf_rows (lp_db p'))) = u2_CurrentL1InfoRoot u2 \<and>
      of_nat (length (leaf_rows (lp_db p'))) = u2_LeafCount u2)"
  using assms(2)
proof (cases rule: l1_ProcessBlock_ok)
  case (1 i w)
  have db: "l1_db_inv K (lp_db p)" using assms(1) by (simp add: l1_proc_inv_def)
  have i: "i = of_nat (length (leaf_rows (lp_db p)))"
    using 1(3) getLastIndex_inv [OF db, of io] by auto
  have "w_inv K i (l1_start p b)"
    using assms(1) i by (simp add: w_inv_def l1_proc_inv_def l1_start_def w_db_def l1_db_inv_def)
  from l1_process_events_inv [OF this 1(4)] assms(3)
  have ev: "w_inv K i w" "leaf_rows (w_db w) = leaf_rows (w_db (l1_start p b)) @
        block_leaves K (bk_Num b) (length (leaf_rows (w_db (l1_start p b)))) (bk_Events b)"
    and v2: "bk_Events b = es @ [L1Item e] \<Longrightarrow> le_UpdateL1InfoTreeV2 e = Some u2 \<Longrightarrow>
      \<exists>root. getLastRootWithTx io (aot_Tree (w_tree w)) (l1_tree (w_db w)) = Inr root \<and>
        r_Hash root = u2_CurrentL1InfoRoot u2 \<and> r_Index root + 1 = u2_LeafCount u2" for es e u2
    by (auto simp: i)
  moreover have "append_inv K (l1_tree (w_db w)) (map lf_Hash (leaf_rows (w_db w)))"
    using ev(1) by (simp add: w_inv_def l1_db_inv_def)
  ultimately show ?thesis
    using 1(5) last_root_Inr [of K "l1_tree (w_db w)" "map lf_Hash (leaf_rows (w_db w))" io]
    by (fastforce simp: w_inv_def l1_proc_inv_def l1_start_def w_db_def)
qed

section \<open>A sample block\<close>

definition sample_update :: UpdateL1InfoTree where
  "sample_update = \<lparr>u_BlockPosition = 0, u_MainnetExitRoot = 0, u_RollupExitRoot = 0, u_ParentHash = 0, u_Timestamp = 1\<rparr>"

definition sample_l1_event :: "UpdateL1InfoTreeV2 option \<Rightarrow> l1_item" where
  "sample_l1_event v2 = L1Item \<lparr>le_UpdateL1InfoTree = Some sample_update, le_UpdateL1InfoTreeV2 = v2,
     le_VerifyBatches = None, le_InitL1InfoRootMap = None\<rparr>"

definition sample_v2 :: "hash \<Rightarrow> UpdateL1InfoTreeV2" where
  "sample_v2 root = \<lparr>u2_CurrentL1InfoRoot = root, u2_LeafCount = 1, u2_Blockhash = 0, u2_MinTimestamp = 1\<rparr>"

definition empty_l1_db :: l1_db where
  "empty_l1_db = \<lparr>l1_blk_rows = [], leaf_rows = [], vb_rows = [], initial_rows = [], l1_tree = empty_tree_db,
     rollup_tree = empty_tree_db\<rparr>"

definition sample_l1 :: l1_processor where
  "sample_l1 = l1_newProcessor sample_keccak empty_l1_db"

definition sample_l1_block :: "hash \<Rightarrow> l1_item Block" where
  "sample_l1_block root = \<lparr>bk_Num = 7, bk_Events = [sample_l1_event (Some (sample_v2 root))]\<rparr>"

lemma be_value_hash_bytes [simp]: "be_value (hash_bytes w) = unat w"
proof -
  have "unat w < 256 ^ 32" using unat_less [of w] by simp
  then show ?thesis by (simp only: be_value_be_bytes mod_less)
qed

lemma sample_leaf_hash: "lf_Hash (new_leaf sample_keccak 7 0 sample_update) = 9"
proof -
  have "be_value (hash_bytes 0 @ be_bytes 8 (1 :: u64)) = 1"
    using be_value_be_bytes [of 8 "1 :: u64"] be_value_zeros [of 32 "be_bytes 8 (1 :: u64)"]
    by (simp add: be_bytes_0 del: be_value_zeros)
  then have "sample_keccak (hash_bytes 1 @ hash_bytes 0 @ be_bytes 8 (1 :: u64)) = 9"
    by (simp add: sample_keccak_def)
  moreover have "sample_keccak (hash_bytes 0 @ hash_bytes 0) = 1"
    by (simp add: sample_keccak_def)
  ultimately show ?thesis
    by (simp add: new_leaf_def Let_def leaf_hash_def globalExitRoot_def sample_update_def)
qed

lemma sample_l1_inv: "l1_proc_inv K (l1_newProcessor K empty_l1_db)"
  using append_inv_empty [of K] synced_new [of K "''l1_info_''" "[]"]
  by (simp add: l1_proc_inv_def l1_db_inv_def l1_newProcessor_def empty_l1_db_def empty_tree_db_def)

lemma sample_l1_add:
  obtains t' db' r where "AddLeaf sample_keccak (\<lambda>_. False) (NewAppendOnlyTree sample_keccak ''l1_info_'') empty_tree_db 7 0
      \<lparr>l_Index = 0, l_Hash = 9\<rparr> = ((t', db', [DecrementLastIndex]), None)"
    and "getLastRootWithTx (\<lambda>_. False) (aot_Tree t') db' = Inr r" and "r_Index r = 0"
    and "r_Hash r = leaves_root sample_keccak [9]"
proof -
  have "append_safe sample_keccak empty_tree_db [] 9"
    using sample_append_safe [of 9] by (simp add: sample_leaf_ok_def)
  then obtain t' db' where al: "AddLeaf sample_keccak (\<lambda>_. False) (NewAppendOnlyTree sample_keccak ''l1_info_'') empty_tree_db 7 0
      \<lparr>l_Index = 0, l_Hash = 9\<rparr> = ((t', db', [DecrementLastIndex]), None)"
    and inv: "append_inv sample_keccak db' [9]"
    and "map_sum id r_Hash (getLastRootWithTx (\<lambda>_. False) (aot_Tree t') db') = Inr (leaves_root sample_keccak [9])"
    using AddLeaf_ok [OF append_inv_empty synced_new, of "\<lparr>l_Index = 0, l_Hash = 9\<rparr>" 7 0 sample_keccak
        "\<lambda>_. False" "''l1_info_''"] sample_hyps last_root_hash [of sample_keccak _ "[9]" "\<lambda>_. False"]
    by (auto simp: new_key_def empty_tree_db_def)
  then obtain r where "getLastRootWithTx (\<lambda>_. False) (aot_Tree t') db' = Inr r"
    by (cases "getLastRootWithTx (\<lambda>_. False) (aot_Tree t') db'") simp_all
  with last_root_Inr [OF inv this] al that show ?thesis by simp
qed

lemma sample_l1_update:
  assumes "AddLeaf sample_keccak (\<lambda>_. False) (NewAppendOnlyTree sample_keccak ''l1_info_'') empty_tree_db 7 0
      \<lparr>l_Index = 0, l_Hash = 9\<rparr> = ((t', db', [DecrementLastIndex]), None)"
  shows "\<exists>w. handle_update sample_keccak (\<lambda>_. False) 7 0 sample_update (l1_start sample_l1 (sample_l1_block root)) = (w, None) \<and>
    w_tree w = t' \<and> l1_tree (w_db w) = db' \<and> tx_done (w_tx w) = False \<and> w_halted w = False"
  using assms
  by (simp add: handle_update_def Let_def l1_start_def sample_l1_def l1_newProcessor_def w_db_def insert_leaf_def
      empty_l1_db_def sample_l1_block_def sample_leaf_hash AddRollbackCallback_def)
    (simp add: sample_update_def AddRollbackCallback_def)

lemma sample_l1_result:
  "\<exists>p'. l1_ProcessBlock sample_keccak (\<lambda>_. False) sample_l1 (sample_l1_block root) =
     (p', if leaves_root sample_keccak [9] = root then None else Some ErrInconsistentState) \<and>
     lp_halted p' = (leaves_root sample_keccak [9] \<noteq> root)"
proof -
  obtain t' db' r where al: "AddLeaf sample_keccak (\<lambda>_. False) (NewAppendOnlyTree sample_keccak ''l1_info_'') empty_tree_db 7 0
      \<lparr>l_Index = 0, l_Hash = 9\<rparr> = ((t', db', [DecrementLastIndex]), None)"
    and r: "getLastRootWithTx (\<lambda>_. False) (aot_Tree t') db' = Inr r" "r_Index r = 0"
      "r_Hash r = leaves_root sample_keccak [9]"
    by (rule sample_l1_add)
  obtain w where w: "handle_update sample_keccak (\<lambda>_. False) 7 0 sample_update (l1_start sample_l1 (sample_l1_block root)) = (w, None)"
    "w_tree w = t'" "l1_tree (w_db w) = db'" "tx_done (w_tx w) = False" "w_halted w = False"
    using sample_l1_update [OF al] by blast
  have ev: "l1_process_events sample_keccak (\<lambda>_. False) (lp_rollupExitTree sample_l1) 7 0 (bk_Events (sample_l1_block root))
      (l1_start sample_l1 (sample_l1_block root)) =
      (if leaves_root sample_keccak [9] = root then (w, None) else (w\<lparr>w_halted := True\<rparr>, Some ErrInconsistentState))"
    using r w by (simp add: sample_l1_block_def sample_l1_event_def l1_process_event_def and_then_def
        handle_update_v2_def GetLastRoot_def sample_v2_def)
  have st: "\<lparr>w_tree = lp_l1InfoTree sample_l1, w_tx = \<lparr>tx_base = lp_db sample_l1,
      tx_db = (lp_db sample_l1)\<lparr>l1_blk_rows := [7]\<rparr>, rollbackCallbacks = [], commitCallbacks = [], tx_done = False\<rparr>,
      w_added = 0, w_halted = False\<rparr> = l1_start sample_l1 (sample_l1_block root)"
    by (simp add: l1_start_def sample_l1_def l1_newProcessor_def empty_l1_db_def sample_l1_block_def)
  have "\<not> lp_halted sample_l1" "l1_blk_rows (lp_db sample_l1) = []" "leaf_rows (lp_db sample_l1) = []"
    "bk_Num (sample_l1_block root) = 7"
    by (simp_all add: sample_l1_def l1_newProcessor_def empty_l1_db_def sample_l1_block_def)
  then show ?thesis
    using w ev st
    by (simp add: l1_ProcessBlock_def NewTx_def insert_block_def pk_insert_def getLastIndex_def query_row_def
        Tx_Commit_def)
qed

lemma sample_l1_fits:
  "l1_events_fit sample_keccak io ut 7 0 (bk_Events (sample_l1_block root)) (l1_start sample_l1 (sample_l1_block root))"
proof -
  have "leaf_fits sample_keccak 7 sample_update (w_db (l1_start sample_l1 (sample_l1_block root)))"
    using sample_append_safe [of 9] sample_leaf_hash
    by (simp add: leaf_fits_def new_key_def l1_start_def sample_l1_def l1_newProcessor_def w_db_def
        empty_l1_db_def empty_tree_db_def sample_leaf_ok_def)
  then show ?thesis by (simp add: sample_l1_block_def sample_l1_event_def split: prod.split option.split)
qed

section \<open>Properties\<close>

text \<open>
  Two queries that cannot do what their names say: \<open>GetLocalExitRoot\<close> has no querier to read from,
  and \<open>GetLatestInfoUntilBlock\<close> answers the newest leaf for every processed block.
\<close>

lemma GetLocalExitRoot_never_answers: "\<exists>e. GetLocalExitRoot io p networkID root = Inl e"
proof -
  have "GetLeaf_loop io t None i h r = Inl ErrPanic" if "0 < h" for t i h r
    using that by (cases h) simp_all
  then have "GetLeaf io t None i r = Inl ErrPanic" for t i r
    by (simp add: GetLeaf_def DefaultHeight_def)
  then show ?thesis by (simp add: GetLocalExitRoot_def unless_halted_def)
qed

lemma GetLatestInfoUntilBlock_ignores_block:
  "GetLatestInfoUntilBlock io p m = Inr l \<Longrightarrow> 0 < n \<Longrightarrow> n \<le> m \<Longrightarrow> GetLatestInfoUntilBlock io p n = Inr l"
  by (auto simp: GetLatestInfoUntilBlock_def split: if_splits sum.splits)

text \<open>C9. The L1 info tree is the tree of the stored leaves: a committed block appends the leaves of
  its update events, in order and with consecutive indices, and the tree then holds the hashes
  of all stored leaves, in step with its tree object.\<close>

theorem l1_ProcessBlock_refines:
  assumes "l1_proc_inv K p" and "l1_ProcessBlock K io p b = (p', None)"
    and "l1_events_fit K io (lp_rollupExitTree p) (bk_Num b) (of_nat (length (leaf_rows (lp_db p))))
      (bk_Events b) (l1_start p b)"
  shows "l1_proc_inv K p' \<and> leaf_rows (lp_db p') =
      leaf_rows (lp_db p) @ block_leaves K (bk_Num b) (length (leaf_rows (lp_db p))) (bk_Events b)"
  using l1_block_inv [OF assms] by blast

theorem l1_ProcessBlock_refines_witness:
  "\<exists>p'. l1_ProcessBlock sample_keccak (\<lambda>_. False) sample_l1 (sample_l1_block (leaves_root sample_keccak [9])) = (p', None) \<and>
     l1_proc_inv sample_keccak p' \<and> leaf_rows (lp_db p') = [new_leaf sample_keccak 7 0 sample_update]"
proof -
  let ?b = "sample_l1_block (leaves_root sample_keccak [9])"
  obtain p' where p': "l1_ProcessBlock sample_keccak (\<lambda>_. False) sample_l1 ?b = (p', None)"
    using sample_l1_result [of "leaves_root sample_keccak [9]"] by auto
  have "l1_proc_inv sample_keccak sample_l1" unfolding sample_l1_def by (rule sample_l1_inv)
  from l1_ProcessBlock_refines [OF this p'] sample_l1_fits p' show ?thesis
    by (auto simp: sample_l1_block_def sample_l1_event_def sample_l1_def l1_newProcessor_def empty_l1_db_def)
qed

text \<open>C2. A committed block agrees with the contract: when the last event of a block carries the
  contract's root and leaf count, the block is stored only if the Merkle root of all stored
  leaves is that root and their number is that count.\<close>

theorem l1_committed_root_is_contract_root:
  assumes "l1_proc_inv K p" and "l1_ProcessBlock K io p b = (p', None)"
    and "l1_events_fit K io (lp_rollupExitTree p) (bk_Num b) (of_nat (length (leaf_rows (lp_db p))))
      (bk_Events b) (l1_start p b)"
    and "bk_Events b = es @ [L1Item e]" and "le_UpdateL1InfoTreeV2 e = Some u2"
  shows "leaves_root K (map lf_Hash (leaf_rows (lp_db p'))) = u2_CurrentL1InfoRoot u2 \<and>
    of_nat (length (leaf_rows (lp_db p'))) = u2_LeafCount u2"
  using l1_block_inv [OF assms(1-3)] assms(4,5) by blast

theorem l1_committed_root_is_contract_root_witness:
  "\<exists>p'. l1_ProcessBlock sample_keccak (\<lambda>_. False) sample_l1 (sample_l1_block (leaves_root sample_keccak [9])) = (p', None) \<and>
     leaves_root sample_keccak (map lf_Hash (leaf_rows (lp_db p'))) = leaves_root sample_keccak [9] \<and>
     (of_nat (length (leaf_rows (lp_db p'))) :: u32) = 1"
proof -
  let ?b = "sample_l1_block (leaves_root sample_keccak [9])"
  obtain p' where p': "l1_ProcessBlock sample_keccak (\<lambda>_. False) sample_l1 ?b = (p', None)"
    using sample_l1_result [of "leaves_root sample_keccak [9]"] by auto
  have "l1_proc_inv sample_keccak sample_l1" unfolding sample_l1_def by (rule sample_l1_inv)
  moreover have "l1_events_fit sample_keccak (\<lambda>_. False) (lp_rollupExitTree sample_l1) (bk_Num ?b)
      (of_nat (length (leaf_rows (lp_db sample_l1)))) (bk_Events ?b) (l1_start sample_l1 ?b)"
    using sample_l1_fits [of "\<lambda>_. False" "lp_rollupExitTree sample_l1" "leaves_root sample_keccak [9]"]
    by (simp add: sample_l1_def l1_newProcessor_def empty_l1_db_def sample_l1_block_def)
  moreover obtain e where "bk_Events ?b = [] @ [L1Item e]"
    and "le_UpdateL1InfoTreeV2 e = Some (sample_v2 (leaves_root sample_keccak [9]))"
    by (simp add: sample_l1_block_def sample_l1_event_def)
  ultimately show ?thesis
    using l1_committed_root_is_contract_root [OF _ p'] p' by (fastforce simp: sample_v2_def)
qed

text \<open>A halted processor stays halted and answers nothing: it refuses every block without a
  change, every query fails with the inconsistent state error, and a reorg ends the halt
  exactly when it deletes a stored block.\<close>

theorem l1_halted_refuses:
  assumes "lp_halted p"
  shows "l1_ProcessBlock K io p b = (p, Some ErrInconsistentState) \<and>
    s_GetL1InfoTreeMerkleProof io p i = Inl ErrInconsistentState \<and>
    GetRollupExitTreeMerkleProof io p i h = Inl ErrInconsistentState \<and>
    s_GetLatestInfoUntilBlock io p n = Inl ErrInconsistentState \<and>
    s_GetInfoByIndex io p i = Inl ErrInconsistentState \<and>
    s_GetLastProcessedBlock io p = Inl ErrInconsistentState \<and>
    (l1_Reorg io p n = (p', None) \<longrightarrow> lp_halted p' = (\<forall>m\<in>set (l1_blk_rows (lp_db p)). m < n))"
  using assms l1_Reorg_ok(6) [of io p n p']
  by (simp add: l1_ProcessBlock_def unless_halted_def s_GetL1InfoTreeMerkleProof_def
      GetRollupExitTreeMerkleProof_def s_GetLatestInfoUntilBlock_def s_GetInfoByIndex_def
      s_GetLastProcessedBlock_def)

theorem l1_halted_refuses_witness:
  "\<exists>p. lp_halted p \<and> l1_ProcessBlock sample_keccak (\<lambda>_. False) p (sample_l1_block 0) = (p, Some ErrInconsistentState)"
proof -
  have "lp_halted (sample_l1\<lparr>lp_halted := True\<rparr>)" by simp
  with l1_halted_refuses [OF this] show ?thesis by blast
qed

text \<open>The reorg of the halting block does not end the halt: when the sanity check fails on the
  newest block, that block is not stored, so that a reorg starting at it deletes no row and the
  processor keeps refusing blocks, also the correct one of the new chain.\<close>

theorem l1_reorg_of_halting_block_stays_halted:
  assumes "\<forall>m\<in>set (l1_blk_rows (lp_db p)). m < bk_Num b"
    and "l1_ProcessBlock K io p b = (p1, Some e)" and "lp_halted p1"
    and "l1_Reorg io' p1 (bk_Num b) = (p2, None)"
  shows "lp_halted p2 \<and> l1_ProcessBlock K io'' p2 b' = (p2, Some ErrInconsistentState)"
proof -
  have "lp_db p1 = lp_db p" by (rule l1_ProcessBlock_error [OF assms(2)])
  with l1_Reorg_ok(6) [OF assms(4)] assms(1,3) have "lp_halted p2" by simp
  then show ?thesis by (simp add: l1_ProcessBlock_def)
qed

theorem l1_reorg_of_halting_block_stays_halted_witness:
  "\<exists>p1 p2. l1_ProcessBlock sample_keccak (\<lambda>_. False) sample_l1 (sample_l1_block (leaves_root sample_keccak [9] + 1)) =
       (p1, Some ErrInconsistentState) \<and>
     l1_Reorg (\<lambda>_. False) p1 7 = (p2, None) \<and>
     l1_ProcessBlock sample_keccak (\<lambda>_. False) p2 (sample_l1_block (leaves_root sample_keccak [9])) =
       (p2, Some ErrInconsistentState)"
proof -
  let ?b = "sample_l1_block (leaves_root sample_keccak [9] + 1)"
  have ne: "leaves_root sample_keccak [9] \<noteq> leaves_root sample_keccak [9] + 1" by simp
  then obtain p1 where p1: "l1_ProcessBlock sample_keccak (\<lambda>_. False) sample_l1 ?b = (p1, Some ErrInconsistentState)"
    "lp_halted p1"
    using sample_l1_result [of "leaves_root sample_keccak [9] + 1"] by auto
  obtain p2 where p2: "l1_Reorg (\<lambda>_. False) p1 (bk_Num ?b) = (p2, None)"
    by (simp add: l1_Reorg_def NewTx_def Tree_Reorg_def Tx_Commit_def Let_def)
  have "\<forall>m\<in>set (l1_blk_rows (lp_db sample_l1)). m < bk_Num ?b"
    by (simp add: sample_l1_def l1_newProcessor_def empty_l1_db_def)
  note stuck = l1_reorg_of_halting_block_stays_halted [OF this p1 p2, of "\<lambda>_. False"
      "sample_l1_block (leaves_root sample_keccak [9])"]
  have "bk_Num ?b = 7" by (simp add: sample_l1_block_def)
  with stuck p1 p2 show ?thesis by auto
qed

end
