(* ===== verification/ReorgDetector.thy ===== *)
theory ReorgDetector
  imports Database "HOL-Library.AList" "HOL-Library.List_Lexorder" "HOL-Library.Char_ord"
begin

text \<open>
  The reorg detector (\<open>src/reorgdetector\<close>): the tracked headers of every subscriber in memory
  and in the table \<open>tracked_block\<close>, the check of the tracked hashes against the chain, and the
  reload after a restart. A Go map is an association list with distinct keys; the order in
  which the code ranges over it never matters, because it sorts before use.
\<close>

section \<open>Header lists (\<open>types.go\<close>)\<close>

record header =
  hd_Num :: u64
  hd_Hash :: hash

record headerWithSubscriberID =
  hs_SubscriberID :: string
  hs_Num :: u64
  hs_Hash :: hash

definition newHeader :: "u64 \<Rightarrow> hash \<Rightarrow> header" where
  "newHeader num hash = \<lparr>hd_Num = num, hd_Hash = hash\<rparr>"

type_synonym headersList = "(u64 \<times> header) list"

definition hl_add :: "header \<Rightarrow> headersList \<Rightarrow> headersList" where
  "hl_add h hl = AList.update (hd_Num h) h hl"

definition newHeadersList :: "header list \<Rightarrow> headersList" where
  "newHeadersList headers = foldl (\<lambda>m b. hl_add b m) [] headers"

definition hl_len :: "headersList \<Rightarrow> nat" where
  "hl_len hl = length hl"

definition hl_isEmpty :: "headersList \<Rightarrow> bool" where
  "hl_isEmpty hl \<longleftrightarrow> hl_len hl = 0"

definition hl_get :: "u64 \<Rightarrow> headersList \<Rightarrow> header option" where
  "hl_get num hl = map_of hl num"

definition getSorted :: "headersList \<Rightarrow> header list" where
  "getSorted hl = sort_key hd_Num (map snd hl)"

text \<open>
  The loop of \<open>removeRange\<close> counts a \<open>uint64\<close> up to \<open>to\<close>, inclusive: it does not end when \<open>to\<close> is
  the largest one.
\<close>

partial_function (option) removeRange_loop :: "u64 \<Rightarrow> u64 \<Rightarrow> headersList \<Rightarrow> headersList option" where
  "removeRange_loop i to hl =
     (if i \<le> to then removeRange_loop (i + 1) to (AList.delete i hl) else Some hl)"

definition removeRange :: "u64 \<Rightarrow> u64 \<Rightarrow> headersList \<Rightarrow> headersList option" where
  "removeRange from to hl = removeRange_loop from to hl"

section \<open>The table (\<open>reorgdetector_db.go\<close>)\<close>

record ReorgDetector =
  rd_rows :: "headerWithSubscriberID list"
  rd_trackedBlocks :: "(string \<times> headersList) list"
  rd_subscriptions :: "string list"

text \<open>
  The rows in the order of \<open>ORDER BY subscriber_id\<close>, taken by the loop of \<open>getTrackedBlocks\<close>:
  \<open>currentID\<close>, \<open>currentHeaders\<close> and the map built so far.
\<close>

fun getTrackedBlocks_loop ::
  "headerWithSubscriberID list \<Rightarrow> string \<Rightarrow> header list \<Rightarrow> (string \<times> headersList) list \<Rightarrow> (string \<times> headersList) list"
where
  "getTrackedBlocks_loop [] currentID currentHeaders trackedBlocks = trackedBlocks"
| "getTrackedBlocks_loop [r] currentID currentHeaders trackedBlocks =
     AList.update currentID (newHeadersList (currentHeaders @ [newHeader (hs_Num r) (hs_Hash r)])) trackedBlocks"
| "getTrackedBlocks_loop (r # rs) currentID currentHeaders trackedBlocks =
     (if hs_SubscriberID r \<noteq> currentID
      then getTrackedBlocks_loop rs (hs_SubscriberID r) [newHeader (hs_Num r) (hs_Hash r)]
             (AList.update currentID (newHeadersList currentHeaders) trackedBlocks)
      else getTrackedBlocks_loop rs currentID (currentHeaders @ [newHeader (hs_Num r) (hs_Hash r)]) trackedBlocks)"

definition getTrackedBlocks ::
  "io \<Rightarrow> headerWithSubscriberID list \<Rightarrow> error + (string \<times> headersList) list"
where
  "getTrackedBlocks io rows =
     (if io (SqlSelect ''tracked_block'' []) then Inl ErrSQL
      else case sort_key hs_SubscriberID rows of
             [] \<Rightarrow> Inr []
           | r # rs \<Rightarrow> Inr (getTrackedBlocks_loop (r # rs) (hs_SubscriberID r) [] []))"

definition saveTrackedBlock :: "io \<Rightarrow> string \<Rightarrow> header \<Rightarrow> ReorgDetector \<Rightarrow> ReorgDetector \<times> error option" where
  "saveTrackedBlock io sid b rd =
     (let hdrs = (case map_of (rd_trackedBlocks rd) sid of
                    None \<Rightarrow> newHeadersList [b]
                  | Some hl \<Rightarrow> if hl_isEmpty hl then newHeadersList [b] else hl_add b hl);
          rd1 = rd\<lparr>rd_trackedBlocks := AList.update sid hdrs (rd_trackedBlocks rd)\<rparr>
      in if io (SqlInsert ''tracked_block'' [unat (hd_Num b)]) then (rd1, Some ErrSQL)
         else (rd1\<lparr>rd_rows := rd_rows rd1 @
                 [\<lparr>hs_SubscriberID = sid, hs_Num = hd_Num b, hs_Hash = hd_Hash b\<rparr>]\<rparr>, None))"

text \<open>
  The statement compares \<open>num\<close> with \<open>$1\<close> and the literal 2, and \<open>subscriber_id\<close> with \<open>$3\<close>. Which of
  its three arguments the driver of the database binds to \<open>$3\<close>, the only other placeholder, is the
  argument \<open>bind\<close>.
\<close>

definition removeTrackedBlockRange ::
  "io \<Rightarrow> (u64 \<Rightarrow> string \<Rightarrow> string) \<Rightarrow> string \<Rightarrow> u64 \<Rightarrow> u64 \<Rightarrow> headerWithSubscriberID list \<Rightarrow>
   error + headerWithSubscriberID list"
where
  "removeTrackedBlockRange io bind sid fromBlock toBlock rows =
     (if io (SqlDelete ''tracked_block'' [unat fromBlock, unat toBlock]) then Inl ErrSQL
      else Inr (filter (\<lambda>r. \<not> (hs_Num r \<ge> fromBlock \<and> hs_Num r \<le> 2 \<and> hs_SubscriberID r = bind toBlock sid)) rows))"

section \<open>Subscriptions and tracking\<close>

definition Subscribe :: "string \<Rightarrow> ReorgDetector \<Rightarrow> ReorgDetector" where
  "Subscribe sid rd =
     (if sid \<in> set (rd_subscriptions rd) then rd
      else rd\<lparr>rd_subscriptions := rd_subscriptions rd @ [sid],
              rd_trackedBlocks := AList.update sid (newHeadersList []) (rd_trackedBlocks rd)\<rparr>)"

definition AddBlockToTrack ::
  "io \<Rightarrow> string \<Rightarrow> u64 \<Rightarrow> hash \<Rightarrow> ReorgDetector \<Rightarrow> ReorgDetector \<times> error option"
where
  "AddBlockToTrack io sid num hash rd =
     (case map_of (rd_trackedBlocks rd) sid of
        None \<Rightarrow> (rd, Some (ErrMsg ''subscriber is not subscribed''))
      | Some trackedBlocks \<Rightarrow>
          (case hl_get num trackedBlocks of
             Some existingHeader \<Rightarrow>
               if hd_Hash existingHeader = hash then (rd, None)
               else saveTrackedBlock io sid (newHeader num hash) rd
           | None \<Rightarrow> saveTrackedBlock io sid (newHeader num hash) rd))"

definition loadTrackedHeaders :: "io \<Rightarrow> ReorgDetector \<Rightarrow> ReorgDetector \<times> error option" where
  "loadTrackedHeaders io rd =
     (case getTrackedBlocks io (rd_rows rd) of
        Inl e \<Rightarrow> (rd\<lparr>rd_trackedBlocks := []\<rparr>, Some e)
      | Inr tb \<Rightarrow>
          (rd\<lparr>rd_trackedBlocks := tb,
              rd_subscriptions := rd_subscriptions rd @
                filter (\<lambda>sid. sid \<notin> set (rd_subscriptions rd)) (map fst tb)\<rparr>, None))"

section \<open>Detection\<close>

text \<open>
  The check of one subscriber. \<open>chain\<close> is what the client returns for a block number during this
  check (the code caches it), \<open>fin\<close> the number of the last finalised block. The scan ends with
  the first header whose hash the chain does not have.
\<close>

datatype scan_result = Matched | Mismatch header | ScanError error

fun scan_headers ::
  "io \<Rightarrow> (u64 \<Rightarrow> string \<Rightarrow> string) \<Rightarrow> (u64 \<Rightarrow> error + hash) \<Rightarrow> u64 \<Rightarrow> string \<Rightarrow> header list \<Rightarrow>
   headersList \<Rightarrow> headerWithSubscriberID list \<Rightarrow> (headersList \<times> headerWithSubscriberID list \<times> scan_result) option"
where
  "scan_headers io bind chain fin sid [] hdrs rows = Some (hdrs, rows, Matched)"
| "scan_headers io bind chain fin sid (hdr # headers) hdrs rows =
     (case chain (hd_Num hdr) of
        Inl e \<Rightarrow> Some (hdrs, rows, ScanError e)
      | Inr currentHash \<Rightarrow>
          if hd_Hash hdr = currentHash
          then (case (if hd_Num hdr \<le> fin then removeRange (hd_Num hdr) (hd_Num hdr) hdrs else Some hdrs) of
                  None \<Rightarrow> None
                | Some hdrs1 \<Rightarrow>
                    (case removeTrackedBlockRange io bind sid (hd_Num hdr) (hd_Num hdr) rows of
                       Inl e \<Rightarrow> Some (hdrs1, rows, ScanError e)
                     | Inr rows1 \<Rightarrow> scan_headers io bind chain fin sid headers hdrs1 rows1))
          else Some (hdrs, rows, Mismatch hdr))"

text \<open>After the subscriber has processed the reorg: the removal up to the last header of the scan.\<close>

definition finish_reorg ::
  "io \<Rightarrow> (u64 \<Rightarrow> string \<Rightarrow> string) \<Rightarrow> string \<Rightarrow> u64 \<Rightarrow> u64 \<Rightarrow> headersList \<Rightarrow> headerWithSubscriberID list \<Rightarrow>
   (headersList \<times> headerWithSubscriberID list \<times> error option) option"
where
  "finish_reorg io bind sid fromBlock toBlock hdrs rows =
     (case removeTrackedBlockRange io bind sid fromBlock toBlock rows of
        Inl e \<Rightarrow> Some (hdrs, rows, Some e)
      | Inr rows1 \<Rightarrow>
          (case removeRange fromBlock toBlock hdrs of
             None \<Rightarrow> None
           | Some hdrs1 \<Rightarrow> Some (hdrs1, rows1, None)))"

text \<open>
  The whole check of a subscriber when nothing interleaves: the new header list and table, the
  block it was notified of, and the error.
\<close>

definition detect_subscriber ::
  "io \<Rightarrow> (u64 \<Rightarrow> string \<Rightarrow> string) \<Rightarrow> (u64 \<Rightarrow> error + hash) \<Rightarrow> u64 \<Rightarrow> string \<Rightarrow>
   headersList \<Rightarrow> headerWithSubscriberID list \<Rightarrow>
   (headersList \<times> headerWithSubscriberID list \<times> u64 option \<times> error option) option"
where
  "detect_subscriber io bind chain fin sid hdrs rows =
     (let headers = getSorted hdrs in
      case scan_headers io bind chain fin sid headers hdrs rows of
        None \<Rightarrow> None
      | Some (hdrs1, rows1, Matched) \<Rightarrow> Some (hdrs1, rows1, None, None)
      | Some (hdrs1, rows1, ScanError e) \<Rightarrow> Some (hdrs1, rows1, None, Some e)
      | Some (hdrs1, rows1, Mismatch hdr) \<Rightarrow>
          map_option (\<lambda>(hdrs2, rows2, e). (hdrs2, rows2, Some (hd_Num hdr), e))
            (finish_reorg io bind sid (hd_Num hdr) (hd_Num (last headers)) hdrs1 rows1))"

text \<open>
  All subscribers, in the order in which their goroutines are served; the result is the list of
  notifications and the first error.
\<close>

fun detect_all ::
  "io \<Rightarrow> (u64 \<Rightarrow> string \<Rightarrow> string) \<Rightarrow> (u64 \<Rightarrow> error + hash) \<Rightarrow> u64 \<Rightarrow> string list \<Rightarrow> ReorgDetector \<Rightarrow>
   (ReorgDetector \<times> (string \<times> u64) list \<times> error option) option"
where
  "detect_all io bind chain fin [] rd = Some (rd, [], None)"
| "detect_all io bind chain fin (sid # ids) rd =
     (case map_of (rd_trackedBlocks rd) sid of
        None \<Rightarrow> detect_all io bind chain fin ids rd
      | Some hdrs \<Rightarrow>
          (case detect_subscriber io bind chain fin sid hdrs (rd_rows rd) of
             None \<Rightarrow> None
           | Some (hdrs1, rows1, n, e) \<Rightarrow>
               (case detect_all io bind chain fin ids
                       (rd\<lparr>rd_trackedBlocks := AList.update sid hdrs1 (rd_trackedBlocks rd), rd_rows := rows1\<rparr>) of
                  None \<Rightarrow> None
                | Some (rd2, ns, e2) \<Rightarrow>
                    Some (rd2, (case n of None \<Rightarrow> [] | Some k \<Rightarrow> [(sid, k)]) @ ns,
                          case e of None \<Rightarrow> e2 | Some _ \<Rightarrow> e))))"

definition detectReorgInTrackedList ::
  "io \<Rightarrow> (u64 \<Rightarrow> string \<Rightarrow> string) \<Rightarrow> error + (u64 \<times> hash) \<Rightarrow> (u64 \<Rightarrow> error + hash) \<Rightarrow> ReorgDetector \<Rightarrow>
   (ReorgDetector \<times> (string \<times> u64) list \<times> error option) option"
where
  "detectReorgInTrackedList io bind lastFinalisedBlock chain rd =
     (case lastFinalisedBlock of
        Inl e \<Rightarrow> Some (rd, [], Some e)
      | Inr (fin, finHash) \<Rightarrow>
          detect_all io bind (\<lambda>n. if n = fin then Inr finHash else chain n) fin (rd_subscriptions rd) rd)"

section \<open>Header lists\<close>

lemma delete_eq_filter: "AList.delete k xs = filter (\<lambda>p. fst p \<noteq> k) xs"
  by (auto simp: AList.delete_eq intro: filter_cong)

lemma removeRange_filter:
  assumes "to \<noteq> - 1"
  shows "removeRange from to hl = Some (filter (\<lambda>p. \<not> (from \<le> fst p \<and> fst p \<le> to)) hl)"
  unfolding removeRange_def
proof (induction "unat to + 1 - unat from" arbitrary: "from" hl)
  case 0
  then have "to < from" by (simp add: word_less_nat_alt)
  then have "filter (\<lambda>p. \<not> (from \<le> fst p \<and> fst p \<le> to)) hl = hl" by (auto simp: filter_id_conv)
  with \<open>to < from\<close> show ?case by (subst removeRange_loop.simps) (simp add: not_le [symmetric])
next
  case (Suc d)
  then have le: "from \<le> to" by (simp add: word_le_nat_alt)
  have "from \<noteq> - 1" using le assms by (metis antisym word_order.extremum)
  then have ne: "1 + from \<noteq> 0" by (metis add.commute add_eq_0_iff)
  then have u: "unat (from + 1) = Suc (unat from)" by (metis add.commute unatSuc)
  have "k \<noteq> from \<and> \<not> (from + 1 \<le> k \<and> k \<le> to) \<longleftrightarrow> \<not> (from \<le> k \<and> k \<le> to)" for k :: u64
    using le u by (auto simp: word_le_nat_alt word_unat_eq_iff)
  then have "filter (\<lambda>p. \<not> (from + 1 \<le> fst p \<and> fst p \<le> to)) (AList.delete from hl) =
      filter (\<lambda>p. \<not> (from \<le> fst p \<and> fst p \<le> to)) hl"
    by (auto simp: delete_eq_filter intro!: filter_cong)
  with Suc u le show ?case by (subst removeRange_loop.simps) simp
qed

text \<open>With the largest block number as its end the loop never returns.\<close>

lemma removeRange_max: "removeRange from (- 1) hl = None"
proof -
  have "to \<noteq> - 1" if "removeRange_loop i to hl = Some y" for i to hl y
    by (rule removeRange_loop.raw_induct [where P = "\<lambda>i to hl y. to \<noteq> - 1", OF _ that])
      (auto split: if_splits)
  then show ?thesis unfolding removeRange_def by (metis not_None_eq)
qed

definition hl_ok :: "headersList \<Rightarrow> bool" where
  "hl_ok hl \<longleftrightarrow> distinct (map fst hl) \<and> (\<forall>(k, h)\<in>set hl. hd_Num h = k \<and> k \<noteq> - 1)"

lemma hl_ok_add: "hl_ok hl \<Longrightarrow> hd_Num h \<noteq> - 1 \<Longrightarrow> hl_ok (hl_add h hl)"
proof -
  assume ok: "hl_ok hl" and n: "hd_Num h \<noteq> - 1"
  have "x \<in> set (AList.update k v xs) \<Longrightarrow> x = (k, v) \<or> x \<in> set xs" for x k v and xs :: headersList
    by (induction xs) (auto split: if_splits)
  with ok n show ?thesis by (fastforce simp: hl_ok_def hl_add_def distinct_update)
qed

lemma hl_ok_filter: "hl_ok hl \<Longrightarrow> hl_ok (filter P hl)"
  by (auto simp: hl_ok_def distinct_map_filter)

section \<open>What a check does\<close>

definition on_chain :: "(u64 \<Rightarrow> hash) \<Rightarrow> header \<Rightarrow> bool" where
  "on_chain c h \<longleftrightarrow> hd_Hash h = c (hd_Num h)"

text \<open>The rows a removal may lose: only those with a number up to 2.\<close>

definition keeps_rows :: "headerWithSubscriberID list \<Rightarrow> headerWithSubscriberID list \<Rightarrow> bool" where
  "keeps_rows rows rows' \<longleftrightarrow> set rows' \<subseteq> set rows \<and> (\<forall>r\<in>set rows. 2 < hs_Num r \<longrightarrow> r \<in> set rows')"

lemma removeTrackedBlockRange_keeps:
  "removeTrackedBlockRange io bind sid a b rows = Inr rows' \<Longrightarrow> keeps_rows rows rows'"
  by (auto simp: removeTrackedBlockRange_def keeps_rows_def split: if_splits)

lemma keeps_rows_trans: "keeps_rows a b \<Longrightarrow> keeps_rows b c \<Longrightarrow> keeps_rows a c"
  by (auto simp: keeps_rows_def)

lemma scan_headers_spec:
  assumes "no_faults io"
  shows "\<forall>h\<in>set headers. hd_Num h \<noteq> - 1 \<Longrightarrow>
    \<exists>rows'. scan_headers io bind (\<lambda>n. Inr (c n)) fin sid headers hdrs rows =
      Some (filter (\<lambda>p. \<not> (fst p \<le> fin \<and> fst p \<in> hd_Num ` set (takeWhile (on_chain c) headers))) hdrs, rows',
        case dropWhile (on_chain c) headers of [] \<Rightarrow> Matched | h # _ \<Rightarrow> Mismatch h) \<and> keeps_rows rows rows'"
proof (induction headers arbitrary: hdrs rows)
  case Nil
  then show ?case by (simp add: keeps_rows_def)
next
  case (Cons h hs)
  show ?case
  proof (cases "on_chain c h")
    case True
    obtain rows1 where r1: "removeTrackedBlockRange io bind sid (hd_Num h) (hd_Num h) rows = Inr rows1"
      using assms by (simp add: removeTrackedBlockRange_def no_faults_def)
    let ?hl = "filter (\<lambda>p. \<not> (fst p \<le> fin \<and> fst p = hd_Num h)) hdrs"
    have rm: "(if hd_Num h \<le> fin then removeRange (hd_Num h) (hd_Num h) hdrs else Some hdrs) = Some ?hl"
    proof (cases "hd_Num h \<le> fin")
      case True
      then have "(\<lambda>p :: u64 \<times> header. \<not> (hd_Num h \<le> fst p \<and> fst p \<le> hd_Num h)) = (\<lambda>p. \<not> (fst p \<le> fin \<and> fst p = hd_Num h))"
        by (auto simp: fun_eq_iff)
      with True Cons.prems show ?thesis by (simp add: removeRange_filter)
    next
      case False
      then have "?hl = hdrs" by (auto simp: filter_id_conv)
      with False show ?thesis by simp
    qed
    have "\<forall>h\<in>set hs. hd_Num h \<noteq> - 1" using Cons.prems by simp
    from Cons.IH [OF this, of ?hl rows1] obtain rows' where rest: "scan_headers io bind (\<lambda>n. Inr (c n)) fin sid hs ?hl rows1 =
      Some (filter (\<lambda>p. \<not> (fst p \<le> fin \<and> fst p \<in> hd_Num ` set (takeWhile (on_chain c) hs))) ?hl, rows',
        case dropWhile (on_chain c) hs of [] \<Rightarrow> Matched | h # _ \<Rightarrow> Mismatch h)" "keeps_rows rows1 rows'"
      by blast
    have eq: "filter (\<lambda>p. \<not> (fst p \<le> fin \<and> fst p \<in> hd_Num ` set (takeWhile (on_chain c) hs))) ?hl =
        filter (\<lambda>p. \<not> (fst p \<le> fin \<and> fst p \<in> hd_Num ` set (takeWhile (on_chain c) (h # hs)))) hdrs"
      unfolding filter_filter by (rule filter_cong) (use True in \<open>simp_all, blast\<close>)
    have hash: "hd_Hash h = c (hd_Num h)" using True by (simp add: on_chain_def)
    have "scan_headers io bind (\<lambda>n. Inr (c n)) fin sid (h # hs) hdrs rows =
        scan_headers io bind (\<lambda>n. Inr (c n)) fin sid hs ?hl rows1"
      unfolding scan_headers.simps sum.case rm r1 option.case using hash by simp
    moreover have "dropWhile (on_chain c) (h # hs) = dropWhile (on_chain c) hs" using True by simp
    ultimately show ?thesis
      using rest(1) keeps_rows_trans [OF removeTrackedBlockRange_keeps [OF r1] rest(2)] unfolding eq by (intro exI conjI) simp_all
  next
    case False
    then show ?thesis by (simp add: on_chain_def keeps_rows_def)
  qed
qed

lemma getSorted_props:
  assumes "hl_ok hl"
  shows "set (getSorted hl) = snd ` set hl" and "sorted_wrt (\<lambda>a b. hd_Num a < hd_Num b) (getSorted hl)"
proof -
  show "set (getSorted hl) = snd ` set hl" by (simp add: getSorted_def)
  have "map hd_Num (map snd hl) = map fst hl"
    using assms by (auto simp: hl_ok_def)
  then have "distinct (map hd_Num (map snd hl))" using assms by (metis hl_ok_def)
  then have "distinct (map hd_Num (getSorted hl))"
    unfolding getSorted_def by (simp only: distinct_map distinct_sort set_sort)
  moreover have "sorted (map hd_Num (getSorted hl))" by (simp add: getSorted_def)
  ultimately have "sorted_wrt (<) (map hd_Num (getSorted hl))" by (rule strict_sorted_iff [THEN iffD2, OF conjI, rotated])
  then show "sorted_wrt (\<lambda>a b. hd_Num a < hd_Num b) (getSorted hl)" by (simp add: sorted_wrt_map)
qed

text \<open>The headers of a sorted list before the first one off the chain are those with a smaller number.\<close>

lemma before_first_mismatch:
  assumes "sorted_wrt (\<lambda>a b. hd_Num a < hd_Num b) hs" and "dropWhile (on_chain c) hs = h # rest"
  shows "\<not> on_chain c h" and "h \<in> set hs"
    and "set (takeWhile (on_chain c) hs) = {g \<in> set hs. hd_Num g < hd_Num h}"
    and "hd_Num h \<le> hd_Num (last hs)" and "\<forall>g\<in>set hs. hd_Num g \<le> hd_Num (last hs)"
proof -
  have hs: "hs = takeWhile (on_chain c) hs @ h # rest"
    using takeWhile_dropWhile_id [of "on_chain c" hs] assms(2) by simp
  show "\<not> on_chain c h" using assms(2) by (metis dropWhile_eq_Cons_conv)
  show "h \<in> set hs" by (subst hs) simp
  have srt: "sorted_wrt (\<lambda>a b. hd_Num a < hd_Num b) (takeWhile (on_chain c) hs @ h # rest)"
    using assms(1) hs by simp
  then show "set (takeWhile (on_chain c) hs) = {g \<in> set hs. hd_Num g < hd_Num h}"
    by (subst (2) hs) (auto simp: sorted_wrt_append dest: less_asym)
  have le: "\<forall>g\<in>set hs. hd_Num g \<le> hd_Num (last hs)"
    using assms(1) by (induction hs rule: rev_induct) (auto simp: sorted_wrt_append)
  then show "\<forall>g\<in>set hs. hd_Num g \<le> hd_Num (last hs)" .
  then show "hd_Num h \<le> hd_Num (last hs)" using \<open>h \<in> set hs\<close> by blast
qed

lemma detect_subscriber_spec:
  assumes "hl_ok hdrs" and "no_faults io"
  shows "\<exists>hdrs' rows' r. detect_subscriber io bind (\<lambda>n. Inr (c n)) fin sid hdrs rows = Some (hdrs', rows', r, None) \<and>
    keeps_rows rows rows' \<and>
    (case r of
       None \<Rightarrow> (\<forall>h\<in>snd ` set hdrs. on_chain c h) \<and> hdrs' = filter (\<lambda>p. fin < fst p) hdrs
     | Some n \<Rightarrow> (\<exists>h\<in>snd ` set hdrs. hd_Num h = n \<and> \<not> on_chain c h) \<and>
         (\<forall>h\<in>snd ` set hdrs. hd_Num h < n \<longrightarrow> on_chain c h) \<and>
         hdrs' = filter (\<lambda>p. fin < fst p \<and> fst p < n) hdrs)"
proof -
  let ?hs = "getSorted hdrs" and ?g = "on_chain c"
  note gs = getSorted_props [OF assms(1)]
  have num: "hd_Num (snd p) = fst p \<and> fst p \<noteq> - 1" if "p \<in> set hdrs" for p
    using assms(1) that by (auto simp: hl_ok_def)
  then have nums: "\<forall>h\<in>set ?hs. hd_Num h \<noteq> - 1" by (auto simp: gs(1))
  from scan_headers_spec [OF assms(2) nums] obtain rows1 where
    scan: "scan_headers io bind (\<lambda>n. Inr (c n)) fin sid ?hs hdrs rows =
      Some (filter (\<lambda>p. \<not> (fst p \<le> fin \<and> fst p \<in> hd_Num ` set (takeWhile ?g ?hs))) hdrs, rows1,
        case dropWhile ?g ?hs of [] \<Rightarrow> Matched | h # _ \<Rightarrow> Mismatch h)" and rows1: "keeps_rows rows rows1"
    by blast
  show ?thesis
  proof (cases "dropWhile ?g ?hs")
    case Nil
    then have all: "\<forall>h\<in>snd ` set hdrs. ?g h" by (simp add: dropWhile_eq_Nil_conv gs(1))
    then have tw: "takeWhile ?g ?hs = ?hs" by (simp add: takeWhile_eq_all_conv gs(1))
    have "fst p \<in> hd_Num ` set ?hs" if "p \<in> set hdrs" for p
      using that num by (metis gs(1) imageI)
    then have "filter (\<lambda>p. \<not> (fst p \<le> fin \<and> fst p \<in> hd_Num ` set (takeWhile ?g ?hs))) hdrs = filter (\<lambda>p. fin < fst p) hdrs"
      unfolding tw by (intro filter_cong) (auto simp: not_le)
    with scan Nil all rows1 show ?thesis by (simp add: detect_subscriber_def)
  next
    case (Cons h rest)
    note bm = before_first_mismatch [OF gs(2) Cons]
    obtain rows2 where r2: "removeTrackedBlockRange io bind sid (hd_Num h) (hd_Num (last ?hs)) rows1 = Inr rows2"
      using assms(2) by (simp add: removeTrackedBlockRange_def no_faults_def)
    have last: "hd_Num (last ?hs) \<noteq> - 1" using nums bm(2) by (metis last_in_set list.set_cases list.distinct(1))
    have mem: "snd p \<in> set ?hs" if "p \<in> set hdrs" for p using that by (simp add: gs(1))
    have "fst p \<in> hd_Num ` set (takeWhile ?g ?hs) \<longleftrightarrow> fst p < hd_Num h" if "p \<in> set hdrs" for p
      unfolding bm(3) using num [OF that] mem [OF that] by (auto intro!: image_eqI [where x = "snd p"])
    moreover have "fst p \<le> hd_Num (last ?hs)" if "p \<in> set hdrs" for p
      using that num mem bm(5) by metis
    ultimately have "filter (\<lambda>p. \<not> (hd_Num h \<le> fst p \<and> fst p \<le> hd_Num (last ?hs)))
        (filter (\<lambda>p. \<not> (fst p \<le> fin \<and> fst p \<in> hd_Num ` set (takeWhile ?g ?hs))) hdrs) =
        filter (\<lambda>p. fin < fst p \<and> fst p < hd_Num h) hdrs"
      unfolding filter_filter by (intro filter_cong) (auto simp: not_le)
    then have "detect_subscriber io bind (\<lambda>n. Inr (c n)) fin sid hdrs rows =
        Some (filter (\<lambda>p. fin < fst p \<and> fst p < hd_Num h) hdrs, rows2, Some (hd_Num h), None)"
      using scan Cons r2 last by (simp add: detect_subscriber_def finish_reorg_def removeRange_filter)
    moreover have "\<forall>g\<in>snd ` set hdrs. hd_Num g < hd_Num h \<longrightarrow> ?g g"
      using bm(3) gs(1) by (auto dest: set_takeWhileD)
    moreover have "keeps_rows rows rows2"
      by (rule keeps_rows_trans [OF rows1 removeTrackedBlockRange_keeps [OF r2]])
    ultimately show ?thesis using bm(1,2) gs(1) by auto
  qed
qed

section \<open>Tracking and reloading\<close>

lemma saveTrackedBlock_memory:
  assumes "map_of (rd_trackedBlocks rd) sid = Some hl"
  shows "map_of (rd_trackedBlocks (fst (saveTrackedBlock io sid b rd))) sid = Some (hl_add b hl)"
  using assms by (auto simp: saveTrackedBlock_def Let_def AList.update_conv' hl_isEmpty_def hl_len_def
      newHeadersList_def)

lemma AddBlockToTrack_memory:
  assumes "map_of (rd_trackedBlocks rd) sid = Some hl" and "AddBlockToTrack io sid num h rd = (rd', None)"
    and "hl_ok hl"
  shows "\<exists>hl'. map_of (rd_trackedBlocks rd') sid = Some hl' \<and>
    map_of hl' = (map_of hl)(num \<mapsto> newHeader num h)"
proof (cases "\<exists>e. hl_get num hl = Some e \<and> hd_Hash e = h")
  case True
  then obtain e where e: "map_of hl num = Some e" "hd_Hash e = h" by (auto simp: hl_get_def)
  then have "hd_Num e = num" using assms(3) by (auto simp: hl_ok_def dest!: map_of_SomeD)
  with e have "e = newHeader num h" by (simp add: newHeader_def)
  with e assms(1,2) show ?thesis
    by (auto simp: AddBlockToTrack_def hl_get_def fun_upd_idem)
next
  case False
  then have "AddBlockToTrack io sid num h rd = saveTrackedBlock io sid (newHeader num h) rd"
    using assms(1) by (auto simp: AddBlockToTrack_def split: option.splits)
  with assms(2) saveTrackedBlock_memory [OF assms(1), of io "newHeader num h"]
  show ?thesis by (auto simp: hl_add_def AList.update_conv' newHeader_def)
qed

text \<open>
  The rows of a subscriber whose row sorts last are reloaded under another one's name when it has
  only this row.
\<close>

lemma getTrackedBlocks_last_row_misplaced:
  assumes "a < b"
  shows "getTrackedBlocks (\<lambda>_. False)
      [\<lparr>hs_SubscriberID = a, hs_Num = m, hs_Hash = h\<rparr>, \<lparr>hs_SubscriberID = b, hs_Num = n, hs_Hash = k\<rparr>] =
    Inr [(a, newHeadersList [newHeader m h, newHeader n k])]"
  using assms by (simp add: getTrackedBlocks_def less_imp_le)

section \<open>Interleaving of checks and tracking\<close>

text \<open>
  A check holds no lock while its subscriber processes the reorg: the subscriber acknowledges,
  restarts its download and tracks blocks of the new chain while the check still has its removal
  to do. \<open>run_pending\<close> holds the removals due.
\<close>

record rd_run =
  run_rd :: ReorgDetector
  run_pending :: "(string \<times> u64 \<times> u64) list"

inductive rd_step :: "(u64 \<Rightarrow> string \<Rightarrow> string) \<Rightarrow> (u64 \<Rightarrow> hash) \<Rightarrow> u64 \<Rightarrow> rd_run \<Rightarrow> rd_run \<Rightarrow> bool"
  for bind :: "u64 \<Rightarrow> string \<Rightarrow> string" and c :: "u64 \<Rightarrow> hash" and fin :: u64
where
  Track: "AddBlockToTrack io sid num h (run_rd s) = (rd', None) \<Longrightarrow>
    rd_step bind c fin s (s\<lparr>run_rd := rd'\<rparr>)"
| Check: "map_of (rd_trackedBlocks (run_rd s)) sid = Some hdrs \<Longrightarrow>
    scan_headers io bind (\<lambda>n. Inr (c n)) fin sid (getSorted hdrs) hdrs (rd_rows (run_rd s)) = Some (hdrs1, rows1, Matched) \<Longrightarrow>
    rd_step bind c fin s (s\<lparr>run_rd := (run_rd s)\<lparr>rd_trackedBlocks := AList.update sid hdrs1 (rd_trackedBlocks (run_rd s)),
      rd_rows := rows1\<rparr>\<rparr>)"
| Notify: "map_of (rd_trackedBlocks (run_rd s)) sid = Some hdrs \<Longrightarrow>
    scan_headers io bind (\<lambda>n. Inr (c n)) fin sid (getSorted hdrs) hdrs (rd_rows (run_rd s)) = Some (hdrs1, rows1, Mismatch hdr) \<Longrightarrow>
    rd_step bind c fin s (s\<lparr>run_rd := (run_rd s)\<lparr>rd_trackedBlocks := AList.update sid hdrs1 (rd_trackedBlocks (run_rd s)),
      rd_rows := rows1\<rparr>, run_pending := (sid, hd_Num hdr, hd_Num (last (getSorted hdrs))) # run_pending s\<rparr>)"
| Remove: "run_pending s = (sid, a, b) # rest \<Longrightarrow> map_of (rd_trackedBlocks (run_rd s)) sid = Some hdrs \<Longrightarrow>
    finish_reorg io bind sid a b hdrs (rd_rows (run_rd s)) = Some (hdrs1, rows1, None) \<Longrightarrow>
    rd_step bind c fin s (s\<lparr>run_rd := (run_rd s)\<lparr>rd_trackedBlocks := AList.update sid hdrs1 (rd_trackedBlocks (run_rd s)),
      rd_rows := rows1\<rparr>, run_pending := rest\<rparr>)"

inductive_cases rd_step_cases: "rd_step bind c fin s s'"

definition fresh_rd :: ReorgDetector where
  "fresh_rd = Subscribe ''s'' \<lparr>rd_rows = [], rd_trackedBlocks = [], rd_subscriptions = []\<rparr>"

lemma run_track:
  assumes "map_of (rd_trackedBlocks rd) sid = Some hl" and "map_of hl num = None \<or> map_of hl num = Some k \<and> hd_Hash k \<noteq> h"
  shows "AddBlockToTrack (\<lambda>_. False) sid num h rd =
    (rd\<lparr>rd_trackedBlocks := AList.update sid (hl_add (newHeader num h) hl) (rd_trackedBlocks rd),
        rd_rows := rd_rows rd @ [\<lparr>hs_SubscriberID = sid, hs_Num = num, hs_Hash = h\<rparr>]\<rparr>, None)"
  using assms by (auto simp: AddBlockToTrack_def hl_get_def saveTrackedBlock_def Let_def hl_isEmpty_def hl_len_def
      newHeadersList_def newHeader_def split: option.splits)

section \<open>Properties\<close>

text \<open>The first reorged block of a list: the smallest tracked number whose hash is not the chain's; and what stays tracked after a round.\<close>

definition first_reorg :: "(u64 \<Rightarrow> hash) \<Rightarrow> headersList \<Rightarrow> u64 \<Rightarrow> bool" where
  "first_reorg c hdrs n \<longleftrightarrow> (\<exists>h\<in>snd ` set hdrs. hd_Num h = n \<and> hd_Hash h \<noteq> c n) \<and>
     (\<forall>h\<in>snd ` set hdrs. hd_Num h < n \<longrightarrow> hd_Hash h = c (hd_Num h))"

definition still_tracked :: "(u64 \<Rightarrow> hash) \<Rightarrow> u64 \<Rightarrow> headersList \<Rightarrow> headersList" where
  "still_tracked c fin hdrs = filter (\<lambda>p. fin < fst p \<and> (\<forall>n. first_reorg c hdrs n \<longrightarrow> fst p < n)) hdrs"

lemma first_reorg_unique: "first_reorg c hdrs n \<Longrightarrow> first_reorg c hdrs m \<Longrightarrow> n = m"
  unfolding first_reorg_def by (metis antisym not_le)

lemma detect_subscriber_round:
  assumes "hl_ok hdrs" and "no_faults io"
  shows "\<exists>rows' r. detect_subscriber io bind (\<lambda>n. Inr (c n)) fin sid hdrs rows = Some (still_tracked c fin hdrs, rows', r, None) \<and>
    (\<forall>n. r = Some n \<longleftrightarrow> first_reorg c hdrs n)"
proof -
  from detect_subscriber_spec [OF assms, of bind c fin sid rows] obtain hdrs' rows' r where
    d: "detect_subscriber io bind (\<lambda>n. Inr (c n)) fin sid hdrs rows = Some (hdrs', rows', r, None)"
    and r: "case r of None \<Rightarrow> (\<forall>h\<in>snd ` set hdrs. on_chain c h) \<and> hdrs' = filter (\<lambda>p. fin < fst p) hdrs
     | Some n \<Rightarrow> (\<exists>h\<in>snd ` set hdrs. hd_Num h = n \<and> \<not> on_chain c h) \<and>
         (\<forall>h\<in>snd ` set hdrs. hd_Num h < n \<longrightarrow> on_chain c h) \<and>
         hdrs' = filter (\<lambda>p. fin < fst p \<and> fst p < n) hdrs" by blast
  show ?thesis
  proof (cases r)
    case None
    then have no: "\<not> first_reorg c hdrs n" for n using r by (auto simp: first_reorg_def on_chain_def)
    with d r None show ?thesis by (auto simp: still_tracked_def)
  next
    case (Some n)
    then have n: "first_reorg c hdrs n" using r by (auto simp: first_reorg_def on_chain_def)
    then have all: "(\<forall>m. first_reorg c hdrs m \<longrightarrow> x < m) \<longleftrightarrow> x < n" for x using first_reorg_unique by blast
    have "hdrs' = still_tracked c fin hdrs" using r Some by (simp add: still_tracked_def all)
    with d n Some show ?thesis using first_reorg_unique by blast
  qed
qed

lemma detect_all_round:
  assumes "distinct ids" and "no_faults io" and "\<forall>sid\<in>set ids. \<forall>hdrs. map_of (rd_trackedBlocks rd) sid = Some hdrs \<longrightarrow> hl_ok hdrs"
  shows "\<exists>rd' ns. detect_all io bind (\<lambda>n. Inr (c n)) fin ids rd = Some (rd', ns, None) \<and> distinct (map fst ns) \<and>
    (\<forall>sid n. (sid, n) \<in> set ns \<longleftrightarrow>
       sid \<in> set ids \<and> (\<exists>hdrs. map_of (rd_trackedBlocks rd) sid = Some hdrs \<and> first_reorg c hdrs n)) \<and>
    (\<forall>sid. map_of (rd_trackedBlocks rd') sid =
       (if sid \<in> set ids then map_option (still_tracked c fin) (map_of (rd_trackedBlocks rd) sid) else map_of (rd_trackedBlocks rd) sid))"
  using assms(1,3)
proof (induction ids arbitrary: rd)
  case (Cons sid ids)
  show ?case
  proof (cases "map_of (rd_trackedBlocks rd) sid")
    case None
    with Cons.IH [of rd] Cons.prems show ?thesis by auto
  next
    case (Some hdrs)
    with Cons.prems have "hl_ok hdrs" by simp
    from detect_subscriber_round [OF this assms(2), of bind c fin sid "rd_rows rd"] obtain rows1 r where
      d: "detect_subscriber io bind (\<lambda>n. Inr (c n)) fin sid hdrs (rd_rows rd) = Some (still_tracked c fin hdrs, rows1, r, None)"
      and r: "\<And>n. r = Some n \<longleftrightarrow> first_reorg c hdrs n" by blast
    let ?rd = "rd\<lparr>rd_trackedBlocks := AList.update sid (still_tracked c fin hdrs) (rd_trackedBlocks rd), rd_rows := rows1\<rparr>"
    have look: "map_of (rd_trackedBlocks ?rd) x = (if x = sid then Some (still_tracked c fin hdrs) else map_of (rd_trackedBlocks rd) x)" for x
      by (simp add: update_conv')
    have "\<forall>x\<in>set ids. \<forall>hdrs. map_of (rd_trackedBlocks ?rd) x = Some hdrs \<longrightarrow> hl_ok hdrs"
      using Cons.prems look by auto
    from Cons.IH [OF _ this] Cons.prems(1) obtain rd' ns where
      a: "detect_all io bind (\<lambda>n. Inr (c n)) fin ids ?rd = Some (rd', ns, None)" "distinct (map fst ns)"
      and ns: "\<And>x n. (x, n) \<in> set ns \<longleftrightarrow> x \<in> set ids \<and> (\<exists>hdrs. map_of (rd_trackedBlocks ?rd) x = Some hdrs \<and> first_reorg c hdrs n)"
      and tr: "\<And>x. map_of (rd_trackedBlocks rd') x =
        (if x \<in> set ids then map_option (still_tracked c fin) (map_of (rd_trackedBlocks ?rd) x) else map_of (rd_trackedBlocks ?rd) x)"
      by auto
    let ?ns = "(case r of None \<Rightarrow> [] | Some k \<Rightarrow> [(sid, k)]) @ ns"
    have sid: "sid \<notin> set ids" using Cons.prems(1) by simp
    then have new: "sid \<notin> fst ` set ns" using ns by force
    have "detect_all io bind (\<lambda>n. Inr (c n)) fin (sid # ids) rd = Some (rd', ?ns, None)" using Some d a(1) by simp
    moreover have "distinct (map fst ?ns)" using a(2) new by (cases r) auto
    moreover have "(x, n) \<in> set ?ns \<longleftrightarrow>
       x \<in> set (sid # ids) \<and> (\<exists>hdrs. map_of (rd_trackedBlocks rd) x = Some hdrs \<and> first_reorg c hdrs n)" for x n
      using ns [of x n] r [of n] look [of x] sid Some by (cases r) auto
    moreover have "map_of (rd_trackedBlocks rd') x = (if x \<in> set (sid # ids)
        then map_option (still_tracked c fin) (map_of (rd_trackedBlocks rd) x) else map_of (rd_trackedBlocks rd) x)" for x
      using tr [of x] look [of x] sid Some by auto
    ultimately show ?thesis by blast
  qed
qed simp

text \<open>C30. Detection: a round over all subscribers returns, and it notifies exactly the subscribers of which a tracked hash is not the chain's,
  each once and of the smallest such block. Afterwards every subscriber's list has exactly the blocks after the last finalised one
  and before the reorg, if there is one; lists of others are unchanged. (Headers can be read and the table written; nothing
  is added between the notification and the removal.)\<close>

theorem detect_reports_first_reorg:
  assumes "distinct (rd_subscriptions rd)" and "no_faults io"
    and "\<forall>sid\<in>set (rd_subscriptions rd). \<forall>hdrs. map_of (rd_trackedBlocks rd) sid = Some hdrs \<longrightarrow> hl_ok hdrs"
  shows "\<exists>rd' ns. detectReorgInTrackedList io bind (Inr (fin, c fin)) (\<lambda>n. Inr (c n)) rd = Some (rd', ns, None) \<and> distinct (map fst ns) \<and>
    (\<forall>sid n. (sid, n) \<in> set ns \<longleftrightarrow>
       sid \<in> set (rd_subscriptions rd) \<and> (\<exists>hdrs. map_of (rd_trackedBlocks rd) sid = Some hdrs \<and> first_reorg c hdrs n)) \<and>
    (\<forall>sid. map_of (rd_trackedBlocks rd') sid =
       (if sid \<in> set (rd_subscriptions rd) then map_option (still_tracked c fin) (map_of (rd_trackedBlocks rd) sid)
        else map_of (rd_trackedBlocks rd) sid))"
proof -
  have "(\<lambda>n. if n = fin then Inr (c fin) else Inr (c n)) = (\<lambda>n. Inr (c n) :: error + hash)" by auto
  then show ?thesis
    using detect_all_round [OF assms, of bind c fin] by (simp add: detectReorgInTrackedList_def)
qed

definition two_subscribers :: ReorgDetector where
  "two_subscribers = fresh_rd\<lparr>rd_subscriptions := [''a'', ''b''],
     rd_trackedBlocks := [(''a'', [(5, newHeader 5 5)]), (''b'', [(3, newHeader 3 3), (7, newHeader 7 1), (5, newHeader 5 5)])]\<rparr>"

abbreviation second_list :: headersList where
  "second_list \<equiv> [(3, newHeader 3 3), (7, newHeader 7 1), (5, newHeader 5 5)]"

lemma sample_reorgs:
  "first_reorg ucast [(5, newHeader 5 5)] n \<longleftrightarrow> False"
  "first_reorg ucast second_list n \<longleftrightarrow> n = 7"
proof -
  show "first_reorg ucast [(5, newHeader 5 5)] n \<longleftrightarrow> False" by (auto simp: first_reorg_def newHeader_def)
  have "first_reorg ucast second_list 7" by (simp add: first_reorg_def newHeader_def)
  then show "first_reorg ucast second_list n \<longleftrightarrow> n = 7" using first_reorg_unique by blast
qed

theorem detect_reports_first_reorg_witness:
  "\<exists>rd' ns. detectReorgInTrackedList (\<lambda>_. False) (\<lambda>_ i. i) (Inr (3, 3)) (\<lambda>n. Inr (ucast n)) two_subscribers = Some (rd', ns, None) \<and>
     set ns = {(''b'', 7)} \<and> map_of (rd_trackedBlocks rd') ''b'' = Some [(5, newHeader 5 5)]"
proof -
  have subs: "rd_subscriptions two_subscribers = [''a'', ''b'']"
    and ta: "map_of (rd_trackedBlocks two_subscribers) ''a'' = Some [(5, newHeader 5 5)]"
    and tb: "map_of (rd_trackedBlocks two_subscribers) ''b'' = Some second_list" by (simp_all add: two_subscribers_def)
  have "hl_ok [(5, newHeader 5 5)]" "hl_ok second_list" by (simp_all add: hl_ok_def newHeader_def)
  with subs ta tb have ok: "\<forall>sid\<in>set (rd_subscriptions two_subscribers).
      \<forall>hdrs. map_of (rd_trackedBlocks two_subscribers) sid = Some hdrs \<longrightarrow> hl_ok hdrs" by simp
  have dist: "distinct (rd_subscriptions two_subscribers)" by (simp add: subs)
  from detect_reports_first_reorg [OF dist no_faults_False ok, of "\<lambda>_ i. i" 3 ucast] obtain rd' ns where
    d: "detectReorgInTrackedList (\<lambda>_. False) (\<lambda>_ i. i) (Inr (3, ucast (3 :: u64))) (\<lambda>n. Inr (ucast n)) two_subscribers = Some (rd', ns, None)"
    and ns: "\<And>sid n. (sid, n) \<in> set ns \<longleftrightarrow> sid \<in> set (rd_subscriptions two_subscribers) \<and>
      (\<exists>hdrs. map_of (rd_trackedBlocks two_subscribers) sid = Some hdrs \<and> first_reorg ucast hdrs n)"
    and tr: "\<And>sid. map_of (rd_trackedBlocks rd') sid = (if sid \<in> set (rd_subscriptions two_subscribers)
      then map_option (still_tracked ucast 3) (map_of (rd_trackedBlocks two_subscribers) sid)
      else map_of (rd_trackedBlocks two_subscribers) sid)" by blast
  have n: "(sid, n) \<in> set ns \<longleftrightarrow> sid = ''b'' \<and> n = 7" for sid n
    unfolding ns [of sid n] subs using ta tb by (cases "sid = ''a''"; cases "sid = ''b''") (simp_all add: sample_reorgs)
  have "set ns = {(''b'', 7)}" using n by auto
  moreover have "map_of (rd_trackedBlocks rd') ''b'' = Some [(5, newHeader 5 5)]"
    unfolding tr subs using tb by (simp add: still_tracked_def sample_reorgs)
  ultimately show ?thesis using d by auto
qed

text \<open>The table keeps what a reorg removed from memory: whatever the driver binds to its
  placeholders, the statement that should delete the reorged blocks deletes no row with a number
  above 2, so that a reload tracks the stale hash again.\<close>

theorem handled_reorg_rows_stay:
  assumes "hl_ok hdrs" and "no_faults io"
    and "detect_subscriber io bind (\<lambda>n. Inr (c n)) fin sid hdrs rows = Some (hdrs', rows', Some n, None)"
    and "r \<in> set rows" and "hs_Num r = n" and "2 < n"
  shows "r \<in> set rows' \<and> map_of hdrs' n = None"
proof -
  from detect_subscriber_spec [OF assms(1,2), of bind c fin sid rows] assms(3)
  have "keeps_rows rows rows'" and "hdrs' = filter (\<lambda>p. fin < fst p \<and> fst p < n) hdrs" by auto
  with assms(4-6) show ?thesis by (auto simp: keeps_rows_def map_of_eq_None_iff)
qed

theorem handled_reorg_rows_stay_witness:
  "\<exists>hdrs' rows'. detect_subscriber (\<lambda>_. False) (\<lambda>_ i. i) (\<lambda>n. Inr 2) 0 ''s'' [(5, newHeader 5 1)]
     [\<lparr>hs_SubscriberID = ''s'', hs_Num = 5, hs_Hash = 1\<rparr>] = Some (hdrs', rows', Some 5, None) \<and>
   \<lparr>hs_SubscriberID = ''s'', hs_Num = 5, hs_Hash = 1\<rparr> \<in> set rows' \<and> map_of hdrs' 5 = None"
proof -
  have ok: "hl_ok [(5, newHeader 5 1)]" by (simp add: hl_ok_def newHeader_def)
  have d: "detect_subscriber (\<lambda>_. False) (\<lambda>_ i. i) (\<lambda>n. Inr 2) 0 ''s'' [(5, newHeader 5 1)]
     [\<lparr>hs_SubscriberID = ''s'', hs_Num = 5, hs_Hash = 1\<rparr>] =
     Some ([], [\<lparr>hs_SubscriberID = ''s'', hs_Num = 5, hs_Hash = 1\<rparr>], Some 5, None)"
    by (simp add: detect_subscriber_def getSorted_def newHeader_def finish_reorg_def removeTrackedBlockRange_def
        removeRange_filter)
  from handled_reorg_rows_stay [OF ok no_faults_False d, of "\<lparr>hs_SubscriberID = ''s'', hs_Num = 5, hs_Hash = 1\<rparr>"] d
  show ?thesis by auto
qed

text \<open>Tracking can be lost: a block of the new chain that the subscriber tracks after it has
  processed the reorg, but before the check does its removal, is removed with the reorged ones and
  is tracked no longer, although it is on the chain and not finalised.\<close>

theorem new_chain_block_untracked:
  "\<exists>s1 s2 s3 s4 io. rd_step bind (\<lambda>_. 2) 0 \<lparr>run_rd = fresh_rd, run_pending = []\<rparr> s1 \<and>
     rd_step bind (\<lambda>_. 2) 0 s1 s2 \<and> run_pending s2 = [(''s'', 5, 5)] \<and>
     rd_step bind (\<lambda>_. 2) 0 s2 s3 \<and> AddBlockToTrack io ''s'' 5 2 (run_rd s2) = (run_rd s3, None) \<and>
     rd_step bind (\<lambda>_. 2) 0 s3 s4 \<and> run_pending s4 = [] \<and>
     map_of (rd_trackedBlocks (run_rd s4)) ''s'' = Some []"
proof -
  let ?row = "\<lambda>h. \<lparr>hs_SubscriberID = ''s'', hs_Num = 5, hs_Hash = h\<rparr>"
  let ?rd = "\<lambda>hl rows. \<lparr>rd_rows = rows, rd_trackedBlocks = [(''s'', hl)], rd_subscriptions = [''s'']\<rparr>"
  let ?s0 = "\<lparr>run_rd = fresh_rd, run_pending = []\<rparr>"
  let ?s1 = "\<lparr>run_rd = ?rd [(5, newHeader 5 1)] [?row 1], run_pending = []\<rparr>"
  let ?s2 = "?s1\<lparr>run_pending := [(''s'', 5, 5)]\<rparr>"
  let ?s3 = "\<lparr>run_rd = ?rd [(5, newHeader 5 2)] [?row 1, ?row 2], run_pending = [(''s'', 5, 5)]\<rparr>"
  let ?s4 = "\<lparr>run_rd = ?rd [] [?row 1, ?row 2], run_pending = []\<rparr>"
  have fresh: "fresh_rd = ?rd [] []" by (simp add: fresh_rd_def Subscribe_def newHeadersList_def)
  have a1: "AddBlockToTrack (\<lambda>_. False) ''s'' 5 1 (run_rd ?s0) = (run_rd ?s1, None)"
    unfolding fresh by (subst run_track [of _ _ "[]"]) (simp_all add: hl_add_def newHeader_def)
  have a2: "AddBlockToTrack (\<lambda>_. False) ''s'' 5 2 (run_rd ?s2) = (run_rd ?s3, None)"
    by (subst run_track [of _ _ "[(5, newHeader 5 1)]" _ "newHeader 5 1"]) (simp_all add: hl_add_def newHeader_def)
  have "rd_step bind (\<lambda>_. 2) 0 ?s0 ?s1"
    using rd_step.Track [OF a1, of bind "\<lambda>_. 2" 0] by (simp add: fresh)
  moreover have "rd_step bind (\<lambda>_. 2) 0 ?s1 ?s2"
    using rd_step.Notify [where s = ?s1 and sid = "''s''" and io = "\<lambda>_. False" and bind = bind and c = "\<lambda>_. 2" and fin = 0
        and hdr = "newHeader 5 1" and hdrs = "[(5, newHeader 5 1)]" and ?hdrs1.0 = "[(5, newHeader 5 1)]" and ?rows1.0 = "[?row 1]"]
    by (simp add: getSorted_def newHeader_def)
  moreover have "rd_step bind (\<lambda>_. 2) 0 ?s2 ?s3"
    using rd_step.Track [OF a2, of bind "\<lambda>_. 2" 0] by simp
  moreover have "finish_reorg (\<lambda>_. False) bind ''s'' 5 5 [(5, newHeader 5 2)] [?row 1, ?row 2] =
      Some ([], [?row 1, ?row 2], None)"
    by (simp add: finish_reorg_def removeTrackedBlockRange_def removeRange_filter)
  then have "rd_step bind (\<lambda>_. 2) 0 ?s3 ?s4"
    using rd_step.Remove [where s = ?s3 and bind = bind and c = "\<lambda>_. 2" and fin = 0] by simp
  ultimately show ?thesis using a2
    by (intro exI [of _ ?s1] exI [of _ ?s2] exI [of _ ?s3] exI [of _ ?s4] exI [of _ "\<lambda>_. False"]) simp
qed

end
