(* ===== verification/EpochNotifier.thy ===== *)
theory EpochNotifier
  imports Prelude Complex_Main
begin

text \<open>
  The notifiers of the certificate sender (\<open>src/aggsender\<close>): the epoch notifier
  (\<open>epoch_notifier_per_block.go\<close>), the polling block notifier (\<open>block_notifier_polling.go\<close>) and
  the generic subscriber they publish with.

  The epoch notifier compares quotients in \<open>float64\<close>. The model computes with the IEEE-754
  doubles those expressions have: conversion of an integer and division round to the nearest
  value with 53 significant bits, ties to even. All quotients of the code lie between 0 and 1.
\<close>

section \<open>Doubles between 0 and 1\<close>

definition round_half_even :: "nat \<Rightarrow> nat \<Rightarrow> nat" where
  "round_half_even a b =
     (let q = a div b; r = a mod b in
      if 2 * r < b \<or> 2 * r = b \<and> even q then q else q + 1)"

fun scale_loop :: "nat \<Rightarrow> nat \<Rightarrow> nat \<Rightarrow> nat \<Rightarrow> nat" where
  "scale_loop 0 k a b = k"
| "scale_loop (Suc n) k a b = (if a * 2 ^ k \<ge> b * 2 ^ 52 then k else scale_loop n (Suc k) a b)"

text \<open>The exponent that gives the quotient 53 bits; 64-bit operands need at most 117.\<close>

definition scale :: "nat \<Rightarrow> nat \<Rightarrow> nat" where
  "scale a b = scale_loop 117 0 a b"

fun bit_length :: "nat \<Rightarrow> nat" where
  "bit_length n = (if n = 0 then 0 else Suc (bit_length (n div 2)))"

declare bit_length.simps [simp del]

text \<open>\<open>float64(n)\<close> for a 64-bit \<open>n\<close>, an integer again.\<close>

definition float64 :: "nat \<Rightarrow> nat" where
  "float64 n = (let j = bit_length n - 53 in round_half_even n (2 ^ j) * 2 ^ j)"

text \<open>The double \<open>float64(a) / float64(b)\<close> for \<open>a < b\<close>.\<close>

definition fdiv :: "nat \<Rightarrow> nat \<Rightarrow> rat" where
  "fdiv a b = (if a = 0 then 0 else of_nat (round_half_even (a * 2 ^ scale a b) b) / 2 ^ scale a b)"

section \<open>The epoch notifier\<close>

record ConfigEpochNotifierPerBlock =
  StartingEpochBlock :: u64
  NumBlockPerEpoch :: u64
  EpochNotificationPercentage :: u64

text \<open>\<open>aggLayer\<close> is the client, \<open>None\<close> when nil; its answer carries genesis block and epoch duration.\<close>

definition NewConfigEpochNotifierPerBlock ::
  "(error + u64 \<times> u64) option \<Rightarrow> u64 \<Rightarrow> error + ConfigEpochNotifierPerBlock"
where
  "NewConfigEpochNotifierPerBlock aggLayer epochNotificationPercentage =
     (case aggLayer of
        None \<Rightarrow> Inl (ErrMsg ''newConfigEpochNotifierPerBlock: aggLayerClient is required'')
      | Some (Inl e) \<Rightarrow> Inl e
      | Some (Inr (genesisBlock, epochDuration)) \<Rightarrow>
          Inr \<lparr>StartingEpochBlock = genesisBlock, NumBlockPerEpoch = epochDuration,
               EpochNotificationPercentage = epochNotificationPercentage\<rparr>)"

definition Config_Validate :: "ConfigEpochNotifierPerBlock \<Rightarrow> error option" where
  "Config_Validate c =
     (if NumBlockPerEpoch c = 0 then Some (ErrMsg ''numBlockPerEpoch: num block per epoch is required > 0 '')
      else if EpochNotificationPercentage c \<ge> 100
      then Some (ErrMsg ''epochNotificationPercentage: must be between 0 and 99'')
      else None)"

record ExtraInfoEventEpoch =
  PendingBlocks :: int

record EpochEvent =
  Epoch :: u64
  ExtraInfo :: ExtraInfoEventEpoch

record internalStatus =
  lastBlockSeen :: u64
  waitingForEpoch :: u64

definition epochNumber :: "ConfigEpochNotifierPerBlock \<Rightarrow> u64 \<Rightarrow> u64" where
  "epochNumber c currentBlock =
     (if currentBlock < StartingEpochBlock c then 0
      else 1 + (currentBlock - StartingEpochBlock c) div NumBlockPerEpoch c)"

definition startingBlockEpoch :: "ConfigEpochNotifierPerBlock \<Rightarrow> u64 \<Rightarrow> u64" where
  "startingBlockEpoch c epoch =
     (if epoch = 0 then StartingEpochBlock c - 1
      else StartingEpochBlock c + (epoch - 1) * NumBlockPerEpoch c)"

definition endBlockEpoch :: "ConfigEpochNotifierPerBlock \<Rightarrow> u64 \<Rightarrow> u64" where
  "endBlockEpoch c epoch = startingBlockEpoch c (epoch + 1)"

text \<open>The difference, an unsigned number, is converted to a signed one.\<close>

definition infoEpoch :: "ConfigEpochNotifierPerBlock \<Rightarrow> u64 \<Rightarrow> u64 \<Rightarrow> ExtraInfoEventEpoch" where
  "infoEpoch c currentBlock newEpochNotified =
     \<lparr>PendingBlocks = sint (endBlockEpoch c newEpochNotified - currentBlock)\<rparr>"

definition percentEpoch :: "ConfigEpochNotifierPerBlock \<Rightarrow> u64 \<Rightarrow> rat" where
  "percentEpoch c currentBlock =
     (let epoch = epochNumber c currentBlock;
          startingBlock = startingBlockEpoch c epoch;
          elapsedBlocks = currentBlock - startingBlock
      in fdiv (float64 (unat elapsedBlocks)) (float64 (unat (NumBlockPerEpoch c))))"

definition isNotificationRequired :: "ConfigEpochNotifierPerBlock \<Rightarrow> u64 \<Rightarrow> u64 \<Rightarrow> bool \<times> u64" where
  "isNotificationRequired c currentBlock lastEpochNotified =
     (let thresholdPercent = fdiv (float64 (unat (EpochNotificationPercentage c))) 100;
          maxThresholdPercent = fdiv (float64 (unat (NumBlockPerEpoch c - 1))) (float64 (unat (NumBlockPerEpoch c)));
          threshold = (if thresholdPercent > maxThresholdPercent then maxThresholdPercent else thresholdPercent)
      in if percentEpoch c currentBlock < threshold then (False, epochNumber c currentBlock)
         else let nextEpoch = epochNumber c currentBlock + 1
              in (nextEpoch > lastEpochNotified, epochNumber c currentBlock))"

definition epoch_step ::
  "ConfigEpochNotifierPerBlock \<Rightarrow> internalStatus \<Rightarrow> u64 \<Rightarrow> internalStatus \<times> EpochEvent option"
where
  "epoch_step c status currentBlock =
     (if currentBlock < StartingEpochBlock c then (status, None)
      else if currentBlock \<le> lastBlockSeen status then (status, None)
      else let status1 = status\<lparr>lastBlockSeen := currentBlock\<rparr> in
           case isNotificationRequired c currentBlock (waitingForEpoch status1) of
             (needNotify, closingEpoch) \<Rightarrow>
               if needNotify
               then (status1\<lparr>waitingForEpoch := closingEpoch + 1\<rparr>,
                     Some \<lparr>Epoch = closingEpoch, ExtraInfo = infoEpoch c currentBlock closingEpoch\<rparr>)
               else (status1, None))"

text \<open>\<open>startInternal\<close>: the initial status and the events published for a sequence of new blocks.\<close>

definition initial_status :: "ConfigEpochNotifierPerBlock \<Rightarrow> internalStatus" where
  "initial_status c =
     \<lparr>lastBlockSeen = StartingEpochBlock c, waitingForEpoch = epochNumber c (StartingEpochBlock c)\<rparr>"

fun epoch_run ::
  "ConfigEpochNotifierPerBlock \<Rightarrow> internalStatus \<Rightarrow> u64 list \<Rightarrow> internalStatus \<times> EpochEvent list"
where
  "epoch_run c status [] = (status, [])"
| "epoch_run c status (b # bs) =
     (case epoch_step c status b of
        (status1, e) \<Rightarrow>
          (case epoch_run c status1 bs of
             (status2, es) \<Rightarrow> (status2, (case e of None \<Rightarrow> es | Some x \<Rightarrow> x # es))))"

definition startInternal :: "ConfigEpochNotifierPerBlock \<Rightarrow> u64 list \<Rightarrow> EpochEvent list" where
  "startInternal c blocks = snd (epoch_run c (initial_status c) blocks)"

section \<open>The polling block notifier\<close>

text \<open>
  Times are nanoseconds; a duration has 64 bits, so that \<open>Sub\<close> returns the nearest duration and a product wraps around. \<open>None\<close> stands for a nil status or duration; \<open>clear\<close>, like the code, returns
  the zero status, whose last block is 0.
\<close>

definition saturated :: "int \<Rightarrow> int" where
  "saturated d = max (- (2 ^ 63)) (min (2 ^ 63 - 1) d)"

definition wrapped :: "int \<Rightarrow> int" where
  "wrapped d = (d + 2 ^ 63) mod 2 ^ 64 - 2 ^ 63"

record blockNotifierPollingInternalStatus =
  bn_lastBlockSeen :: u64
  bn_lastBlockTime :: int
  bn_previousBlockTime :: "int option"

definition bn_clear :: blockNotifierPollingInternalStatus where
  "bn_clear = \<lparr>bn_lastBlockSeen = 0, bn_lastBlockTime = 0, bn_previousBlockTime = None\<rparr>"

definition intialBlock :: "int \<Rightarrow> u64 \<Rightarrow> blockNotifierPollingInternalStatus" where
  "intialBlock now block =
     \<lparr>bn_lastBlockSeen = block, bn_lastBlockTime = now, bn_previousBlockTime = None\<rparr>"

definition incommingNewBlock ::
  "int \<Rightarrow> u64 \<Rightarrow> blockNotifierPollingInternalStatus \<Rightarrow> blockNotifierPollingInternalStatus"
where
  "incommingNewBlock now block s =
     \<lparr>bn_lastBlockSeen = block, bn_lastBlockTime = now,
      bn_previousBlockTime = Some (saturated (now - bn_lastBlockTime s))\<rparr>"

definition minBlockInterval :: int where
  "minBlockInterval = 1000000000"

definition maxBlockInterval :: int where
  "maxBlockInterval = 60000000000"

text \<open>Division of durations truncates towards zero.\<close>

definition quot :: "int \<Rightarrow> int \<Rightarrow> int" where
  "quot a b = (if (a \<ge> 0) = (b > 0) then \<bar>a\<bar> div \<bar>b\<bar> else - (\<bar>a\<bar> div \<bar>b\<bar>))"

definition nextBlockRequestDelay ::
  "int \<Rightarrow> int \<Rightarrow> blockNotifierPollingInternalStatus option \<Rightarrow> error option \<Rightarrow> int"
where
  "nextBlockRequestDelay checkNewBlockInterval now status err =
     (if checkNewBlockInterval = 0 then checkNewBlockInterval
      else case status of
             None \<Rightarrow> minBlockInterval
           | Some s \<Rightarrow>
               (case bn_previousBlockTime s of
                  None \<Rightarrow> minBlockInterval
                | Some previousBlockTime \<Rightarrow>
                    if err \<noteq> None then minBlockInterval * 2
                    else let expectedTimeNextBlock = bn_lastBlockTime s + previousBlockTime;
                             distanceToNextBlock = saturated (expectedTimeNextBlock - now);
                             interval = quot (wrapped (distanceToNextBlock * 4)) 5
                         in max minBlockInterval (min maxBlockInterval interval)))"

text \<open>
  One poll: the answer of the client (a nil block is an error), the next delay, the new status and
  the number of the block to announce.
\<close>

definition poll_step ::
  "int \<Rightarrow> int \<Rightarrow> error + u64 \<Rightarrow> blockNotifierPollingInternalStatus option \<Rightarrow>
   int \<times> blockNotifierPollingInternalStatus option \<times> u64 option"
where
  "poll_step interval now currentBlock previousState =
     (case currentBlock of
        Inl err \<Rightarrow> (nextBlockRequestDelay interval now None (Some err), Some bn_clear, None)
      | Inr n \<Rightarrow>
          (case previousState of
             None \<Rightarrow> (nextBlockRequestDelay interval now None None, Some (intialBlock now n), None)
           | Some s \<Rightarrow>
               if n = bn_lastBlockSeen s
               then (nextBlockRequestDelay interval now (Some s) None, Some s, None)
               else if n - bn_lastBlockSeen s \<noteq> 1
               then (nextBlockRequestDelay interval now None None, Some (intialBlock now n), Some n)
               else let newState = incommingNewBlock now n s
                    in (nextBlockRequestDelay interval now (Some newState) None, Some newState, Some n)))"

section \<open>Publishing\<close>

text \<open>A subscriber owns a channel; a publication starts one send per channel.\<close>

record 'a GenericSubscriberImpl =
  gs_subs :: "(nat \<times> string) list"
  gs_sends :: "(nat \<times> 'a) list"

definition gs_Subscribe :: "string \<Rightarrow> 'a GenericSubscriberImpl \<Rightarrow> nat \<times> 'a GenericSubscriberImpl" where
  "gs_Subscribe subscriberName g =
     (let ch = length (gs_subs g) in (ch, g\<lparr>gs_subs := gs_subs g @ [(ch, subscriberName)]\<rparr>))"

definition gs_Publish :: "'a \<Rightarrow> 'a GenericSubscriberImpl \<Rightarrow> 'a GenericSubscriberImpl" where
  "gs_Publish data g = g\<lparr>gs_sends := gs_sends g @ map (\<lambda>(ch, _). (ch, data)) (gs_subs g)\<rparr>"

section \<open>Rounding\<close>

lemma round_half_even_error:
  assumes "0 < b"
  shows "2 * round_half_even a b * b \<le> 2 * a + b" and "2 * a \<le> 2 * round_half_even a b * b + b"
proof -
  obtain q r where qr: "a = q * b + r" "r < b" "a div b = q" "a mod b = r"
    using assms by (metis div_mult_mod_eq mod_less_divisor)
  have "round_half_even a b = q \<and> 2 * r \<le> b \<or> round_half_even a b = q + 1 \<and> b \<le> 2 * r"
    using qr by (auto simp: round_half_even_def Let_def)
  then show "2 * round_half_even a b * b \<le> 2 * a + b" "2 * a \<le> 2 * round_half_even a b * b + b"
    using qr(1,2) by (auto simp: distrib_right)
qed

lemma bit_length_le: "n < 2 ^ k \<Longrightarrow> bit_length n \<le> k"
proof (induction k arbitrary: n)
  case 0
  then show ?case by (simp add: bit_length.simps)
next
  case (Suc k)
  then have "bit_length (n div 2) \<le> k" by (intro Suc.IH) auto
  then show ?case by (subst bit_length.simps) simp
qed

lemma float64_exact: "n < 2 ^ 53 \<Longrightarrow> float64 n = n"
  using bit_length_le [of n 53] by (simp add: float64_def round_half_even_def)

lemma scale_loop_ge:
  "a < b \<Longrightarrow> k \<le> 53 \<Longrightarrow> 53 - k \<le> n \<Longrightarrow> 53 \<le> scale_loop n k a b"
proof (induction n arbitrary: k)
  case (Suc n)
  show ?case
  proof (cases "k = 53")
    case True
    have "53 \<le> scale_loop m k a b" if "53 \<le> k" for m k
      using that by (induction m arbitrary: k) auto
    with True show ?thesis by simp
  next
    case False
    then have "k \<le> 52" using Suc.prems by simp
    then have "a * 2 ^ k \<le> a * 2 ^ 52" by (intro mult_le_mono2 power_increasing) simp_all
    also have "\<dots> < b * 2 ^ 52" using Suc.prems by simp
    finally have "\<not> b * 2 ^ 52 \<le> a * 2 ^ k" by simp
    with Suc False show ?thesis by simp
  qed
qed auto

lemma fdiv_error:
  assumes "a < b"
  shows "\<bar>fdiv a b - of_nat a / of_nat b\<bar> \<le> 1 / 2 ^ 54"
proof (cases "a = 0")
  case True
  then show ?thesis by (simp add: fdiv_def)
next
  case False
  let ?k = "scale a b" and ?b = "rat_of_nat b" and ?r = "rat_of_nat (round_half_even (a * 2 ^ scale a b) b)"
  have k: "53 \<le> ?k" unfolding scale_def using assms by (intro scale_loop_ge) simp_all
  have b: "0 < ?b" using assms by simp
  have "2 * ?r * ?b \<le> 2 * (of_nat a * 2 ^ ?k) + ?b" "2 * (of_nat a * 2 ^ ?k) \<le> 2 * ?r * ?b + ?b"
    using round_half_even_error [of b "a * 2 ^ ?k"] assms
    by (metis (mono_tags, opaque_lifting) gr_implies_not0 neq0_conv of_nat_add of_nat_le_iff of_nat_mult of_nat_numeral of_nat_power)+
  then have "\<bar>2 * ?r - 2 * (of_nat a * 2 ^ ?k) / ?b\<bar> \<le> 1"
    using b by (simp add: abs_le_iff field_simps)
  then have "\<bar>2 * (?r - of_nat a * 2 ^ ?k / ?b)\<bar> \<le> 1" by (simp only: right_diff_distrib times_divide_eq_right)
  then have "\<bar>?r - of_nat a * 2 ^ ?k / ?b\<bar> \<le> 1 / 2" by (simp only: abs_mult) simp
  then have "\<bar>?r - of_nat a * 2 ^ ?k / ?b\<bar> / 2 ^ ?k \<le> 1 / 2 / 2 ^ ?k"
    by (intro divide_right_mono) simp_all
  moreover have "\<bar>?r - of_nat a * 2 ^ ?k / ?b\<bar> / 2 ^ ?k = \<bar>?r / 2 ^ ?k - of_nat a / ?b\<bar>"
  proof -
    have "(?r - of_nat a * 2 ^ ?k / ?b) / 2 ^ ?k = ?r / 2 ^ ?k - of_nat a / ?b"
      using b by (simp add: diff_divide_distrib)
    then show ?thesis by (metis abs_divide abs_of_pos zero_less_numeral zero_less_power)
  qed
  moreover have "(1 :: rat) / 2 / 2 ^ ?k \<le> 1 / 2 ^ 54"
    using power_increasing [of 54 "Suc ?k" "2 :: rat"] k by (simp add: field_simps)
  ultimately have "\<bar>?r / 2 ^ ?k - of_nat a / ?b\<bar> \<le> 1 / 2 ^ 54" by linarith
  with False show ?thesis by (simp only: fdiv_def if_False)
qed

text \<open>The quotient depends only on the ratio.\<close>

lemma round_half_even_scale: "0 < m \<Longrightarrow> round_half_even (m * a) (m * b) = round_half_even a b"
proof -
  assume m: "0 < m"
  then have "(m * a) div (m * b) = a div b" by simp
  moreover have "(m * a) mod (m * b) = m * (a mod b)" by simp
  moreover have "2 * (m * (a mod b)) = m * (2 * (a mod b))" by simp
  ultimately show ?thesis using m by (simp add: round_half_even_def Let_def)
qed

lemma scale_loop_scale: "0 < m \<Longrightarrow> scale_loop n k (m * a) (m * b) = scale_loop n k a b"
  by (induction n arbitrary: k) (simp_all add: mult.assoc)

lemma fdiv_scale: "0 < m \<Longrightarrow> fdiv (m * a) (m * b) = fdiv a b"
  using round_half_even_scale [of m "a * 2 ^ scale a b" b]
  by (simp add: fdiv_def scale_def scale_loop_scale mult.assoc)

lemma fdiv_cong:
  assumes "a * d = c * b" and "0 < b" and "0 < d"
  shows "fdiv a b = fdiv c d"
  using fdiv_scale [OF assms(3), of a b] fdiv_scale [OF assms(2), of c d] assms(1) by (simp add: mult.commute)

text \<open>
  Quotients further apart than \<open>2 ^ -53\<close> compare like their doubles. This covers two quotients with
  the same divisor below \<open>2 ^ 53\<close>, and two with divisors of which the product is below \<open>2 ^ 53\<close>.
\<close>

lemma fdiv_gap:
  assumes "a < b" and "c < d" and "1 / 2 ^ 53 < of_nat c / of_nat d - rat_of_nat a / of_nat b"
  shows "fdiv a b < fdiv c d"
proof -
  have "\<bar>fdiv a b - of_nat a / of_nat b\<bar> \<le> 1 / 2 ^ 54" "\<bar>fdiv c d - of_nat c / of_nat d\<bar> \<le> 1 / 2 ^ 54"
    by (rule fdiv_error; fact)+
  moreover have "(1 :: rat) / 2 ^ 54 + 1 / 2 ^ 54 = 1 / 2 ^ 53" by simp
  ultimately show ?thesis using assms(3) unfolding abs_le_iff by linarith
qed

lemma inverse_gap: "0 < n \<Longrightarrow> n < 2 ^ 53 \<Longrightarrow> 1 / 2 ^ 53 < 1 / rat_of_nat n"
proof -
  assume "0 < n" and "n < 2 ^ 53"
  then have "rat_of_nat n < rat_of_nat (2 ^ 53)" and "0 < rat_of_nat n" by (simp_all only: of_nat_less_iff of_nat_0_less_iff)
  then show ?thesis by (intro divide_strict_left_mono) simp_all
qed

lemma fdiv_gap_product:
  assumes "a < b" and "c < d" and "b * d < 2 ^ 53" and "a * d < c * b"
  shows "fdiv a b < fdiv c d"
proof (rule fdiv_gap [OF assms(1,2)])
  have pos: "0 < rat_of_nat b" "0 < rat_of_nat d" using assms(1,2) by simp_all
  have "rat_of_nat (a * d + 1) \<le> rat_of_nat (c * b)" using assms(4) by (simp only: of_nat_le_iff)
  then have "(1 :: rat) \<le> of_nat c * of_nat b - of_nat a * of_nat d" by simp
  then have "1 / (rat_of_nat b * of_nat d) \<le> (of_nat c * of_nat b - of_nat a * of_nat d) / (of_nat b * of_nat d)"
    using pos by (intro divide_right_mono) simp_all
  also have "\<dots> = of_nat c / of_nat d - rat_of_nat a / of_nat b"
    using pos by (simp add: diff_divide_distrib)
  finally have "1 / (rat_of_nat b * of_nat d) \<le> of_nat c / of_nat d - rat_of_nat a / of_nat b" .
  moreover have "1 / 2 ^ 53 < 1 / (rat_of_nat b * of_nat d)"
    using inverse_gap [OF _ assms(3)] assms(1,2) unfolding of_nat_mult by (metis gr0I less_nat_zero_code mult_eq_0_iff)
  ultimately show "1 / 2 ^ 53 < of_nat c / of_nat d - rat_of_nat a / of_nat b" by linarith
qed

lemma fdiv_less_iff:
  assumes "a < b" and "c < d" and "b * d < 2 ^ 53"
  shows "fdiv a b < fdiv c d \<longleftrightarrow> a * d < c * b"
proof (cases "a * d" "c * b" rule: linorder_cases)
  case less
  then show ?thesis using fdiv_gap_product [OF assms] by simp
next
  case equal
  then show ?thesis using fdiv_cong [of a d c b] assms by simp
next
  case greater
  then have "fdiv c d < fdiv a b" using fdiv_gap_product [OF assms(2,1)] assms(3) by (simp add: mult.commute)
  with greater show ?thesis by simp
qed

lemma fdiv_less_same:
  assumes "a < b" and "c < b" and "b < 2 ^ 53"
  shows "fdiv a b < fdiv c b \<longleftrightarrow> a < c"
proof -
  have "fdiv x b < fdiv y b" if "x < y" "y < b" for x y
  proof (rule fdiv_gap)
    have "rat_of_nat (x + 1) \<le> of_nat y" using that(1) by (simp only: of_nat_le_iff)
    then have "1 / rat_of_nat b \<le> (of_nat y - of_nat x) / of_nat b" by (intro divide_right_mono) simp_all
    moreover have "1 / 2 ^ 53 < 1 / rat_of_nat b" using inverse_gap [OF _ assms(3)] that(2) by blast
    ultimately show "1 / 2 ^ 53 < of_nat y / of_nat b - rat_of_nat x / of_nat b"
      unfolding diff_divide_distrib by linarith
  qed (use that in simp_all)
  with assms show ?thesis by (metis linorder_neqE_nat order_less_asym order_less_irrefl)
qed

section \<open>When an epoch is due\<close>

text \<open>
  A configuration that \<open>Validate\<close> accepts, with epochs short enough for the doubles to compare
  exactly (fewer than \<open>2 ^ 53 / 100\<close> blocks), and the position in its epoch at which a block is due.
\<close>

definition config_ok :: "ConfigEpochNotifierPerBlock \<Rightarrow> bool" where
  "config_ok c \<longleftrightarrow> Config_Validate c = None \<and> unat (NumBlockPerEpoch c) * 100 < 2 ^ 53"

definition due_position :: "ConfigEpochNotifierPerBlock \<Rightarrow> nat" where
  "due_position c =
     min (unat (NumBlockPerEpoch c) - 1)
       ((unat (EpochNotificationPercentage c) * unat (NumBlockPerEpoch c) + 99) div 100)"

definition block_offset :: "ConfigEpochNotifierPerBlock \<Rightarrow> u64 \<Rightarrow> nat" where
  "block_offset c b = unat b - unat (StartingEpochBlock c)"

lemma config_okD:
  assumes "config_ok c"
  shows "0 < unat (NumBlockPerEpoch c)" "unat (EpochNotificationPercentage c) < 100"
    "unat (NumBlockPerEpoch c) < 2 ^ 53" "unat (NumBlockPerEpoch c) * 100 < 2 ^ 53"
  using assms by (auto simp: config_ok_def Config_Validate_def word_le_nat_alt unat_gt_0 split: if_splits)

lemma due_position_less: "config_ok c \<Longrightarrow> due_position c < unat (NumBlockPerEpoch c)"
  using config_okD(1) by (fastforce simp: due_position_def)

lemma due_position_iff:
  assumes "config_ok c" and "t < unat (NumBlockPerEpoch c)"
  shows "due_position c \<le> t \<longleftrightarrow>
    \<not> (100 * t < unat (EpochNotificationPercentage c) * unat (NumBlockPerEpoch c) \<and> t < unat (NumBlockPerEpoch c) - 1)"
  using config_okD(1) [OF assms(1)] assms(2) by (auto simp: due_position_def min_le_iff_disj)

lemma unat_offset:
  assumes "StartingEpochBlock c \<le> b"
  shows "unat (b - StartingEpochBlock c) = block_offset c b"
  using assms by (simp add: block_offset_def unat_sub)

lemma epochNumber_nat:
  assumes "config_ok c" and "StartingEpochBlock c \<le> b" and "b \<noteq> - 1"
  shows "unat (epochNumber c b) = 1 + block_offset c b div unat (NumBlockPerEpoch c)"
proof -
  let ?q = "(b - StartingEpochBlock c) div NumBlockPerEpoch c"
  have q: "unat ?q = block_offset c b div unat (NumBlockPerEpoch c)"
    using unat_offset [OF assms(2)] by (simp add: unat_div)
  have "unat ?q \<le> unat b"
    unfolding q block_offset_def by (meson diff_le_self div_le_dividend le_trans)
  then have "?q \<noteq> - 1" using assms(3) by (metis word_le_nat_alt word_order.extremum_unique)
  then have "1 + ?q \<noteq> 0" by (metis add_eq_0_iff)
  then show ?thesis using assms(2) q by (simp add: epochNumber_def unatSuc not_less [symmetric])
qed

lemma elapsed_nat:
  assumes "config_ok c" and "StartingEpochBlock c \<le> b" and "b \<noteq> - 1"
  shows "unat (b - startingBlockEpoch c (epochNumber c b)) = block_offset c b mod unat (NumBlockPerEpoch c)"
proof -
  have "epochNumber c b \<noteq> 0" using epochNumber_nat [OF assms] by (metis add_is_0 one_neq_zero unat_0)
  then have "b - startingBlockEpoch c (epochNumber c b) =
      (b - StartingEpochBlock c) - (b - StartingEpochBlock c) div NumBlockPerEpoch c * NumBlockPerEpoch c"
    using assms(2) by (simp add: startingBlockEpoch_def epochNumber_def not_less [symmetric])
  also have "\<dots> = (b - StartingEpochBlock c) mod NumBlockPerEpoch c" by (rule minus_div_mult_eq_mod)
  finally show ?thesis using unat_offset [OF assms(2)] by (simp add: unat_mod)
qed

lemma isNotificationRequired_exact:
  assumes "config_ok c" and "StartingEpochBlock c \<le> b" and "unat b + 2 < 2 ^ 64"
  shows "isNotificationRequired c b w =
    (due_position c \<le> block_offset c b mod unat (NumBlockPerEpoch c) \<and> unat w \<le> unat (epochNumber c b),
     epochNumber c b)"
proof -
  let ?N = "unat (NumBlockPerEpoch c)" and ?p = "unat (EpochNotificationPercentage c)"
  let ?t = "block_offset c b mod unat (NumBlockPerEpoch c)"
  note ok = config_okD [OF assms(1)]
  have max: "unat (- 1 :: u64) = 2 ^ 64 - 1" by (simp add: unsigned_minus_1_eq_mask mask_eq_exp_minus_1)
  then have b: "b \<noteq> - 1" using assms(3) by auto
  have t: "?t < ?N" using ok(1) by simp
  have N1: "unat (NumBlockPerEpoch c - 1) = ?N - 1"
    using ok(1) by (metis One_nat_def Suc_leI unat_1 unat_sub word_le_nat_alt)
  have exact: "float64 ?N = ?N" "float64 (?N - 1) = ?N - 1" "float64 ?p = ?p" "float64 ?t = ?t"
    using ok t by (auto intro!: float64_exact)
  have less: "fdiv ?t ?N < (if fdiv ?p 100 > fdiv (?N - 1) ?N then fdiv (?N - 1) ?N else fdiv ?p 100) \<longleftrightarrow>
      100 * ?t < ?p * ?N \<and> ?t < ?N - 1"
    using fdiv_less_iff [OF t ok(2,4)] fdiv_less_same [OF t _ ok(3), of "?N - 1"] ok(1)
    by (auto simp: mult.commute)
  have "unat (epochNumber c b) \<le> unat b + 1"
    unfolding epochNumber_nat [OF assms(1,2) b] block_offset_def
    by (metis add.commute add_le_mono1 diff_le_self div_le_dividend le_trans)
  then have "epochNumber c b \<noteq> - 1" using assms(3) max by auto
  then have "unat (1 + epochNumber c b) = Suc (unat (epochNumber c b))"
    by (intro unatSuc) (metis add_eq_0_iff)
  then have nx: "epochNumber c b + 1 > w \<longleftrightarrow> unat w \<le> unat (epochNumber c b)"
    by (simp add: word_less_nat_alt add.commute less_Suc_eq_le)
  have pe: "percentEpoch c b = fdiv ?t ?N"
    using elapsed_nat [OF assms(1,2) b] exact by (simp add: percentEpoch_def Let_def)
  show ?thesis
    unfolding isNotificationRequired_def Let_def N1 exact pe less nx due_position_iff [OF assms(1) t] by simp
qed

lemma epoch_step_exact:
  assumes "config_ok c" and "unat b + 2 < 2 ^ 64" and "StartingEpochBlock c \<le> lastBlockSeen s"
  shows "epoch_step c s b =
    (if b \<le> lastBlockSeen s then (s, None)
     else if due_position c \<le> block_offset c b mod unat (NumBlockPerEpoch c) \<and>
       unat (waitingForEpoch s) \<le> unat (epochNumber c b)
     then (s\<lparr>lastBlockSeen := b, waitingForEpoch := epochNumber c b + 1\<rparr>,
           Some \<lparr>Epoch = epochNumber c b, ExtraInfo = infoEpoch c b (epochNumber c b)\<rparr>)
     else (s\<lparr>lastBlockSeen := b\<rparr>, None))"
  using assms isNotificationRequired_exact [OF assms(1) _ assms(2)]
  by (auto simp: epoch_step_def Let_def split: if_splits)

lemma epoch_run_snoc:
  "epoch_run c s (bs @ [b]) =
     (case epoch_run c s bs of (s1, es) \<Rightarrow>
        (case epoch_step c s1 b of (s2, e) \<Rightarrow> (s2, es @ (case e of None \<Rightarrow> [] | Some x \<Rightarrow> [x]))))"
  by (induction bs arbitrary: s) (auto split: prod.splits option.splits)

lemma unat_succ_epoch: "unat x < 2 ^ 64 - 1 \<Longrightarrow> unat (x + 1 :: u64) = Suc (unat x)"
proof -
  assume "unat x < 2 ^ 64 - 1"
  then have "x \<noteq> - 1" by (auto simp: unsigned_minus_1_eq_mask mask_eq_exp_minus_1)
  then have "1 + x \<noteq> 0" by (metis add_eq_0_iff)
  then show ?thesis by (metis add.commute unatSuc)
qed

lemma epoch_count: "u \<le> n \<Longrightarrow> t < n \<Longrightarrow> (k * n + t + n - u) div n = k + (if u \<le> t then 1 else 0)" for u n t k :: nat
proof -
  assume un: "u \<le> n" and tn: "t < n"
  have eq: "k * n + t + n - u = (t + n - u) + k * n" using un by linarith
  have "(t + n - u) div n = (if u \<le> t then 1 else 0)"
  proof (cases "u \<le> t")
    case True
    have "n * 1 \<le> t + n - u" "t + n - u < n * Suc 1" using True un tn by auto
    then have "(t + n - u) div n = 1" by (rule div_nat_eqI)
    with True show ?thesis by simp
  next
    case False
    then have "t + n - u < n" using un by linarith
    with False show ?thesis by simp
  qed
  moreover have "((t + n - u) + k * n) div n = k + (t + n - u) div n"
    using tn by (intro div_mult_self1) simp
  ultimately show ?thesis unfolding eq by simp
qed

lemma not_max: "unat x + 2 < 2 ^ 64 \<Longrightarrow> x \<noteq> (- 1 :: u64)"
  by (auto simp: unsigned_minus_1_eq_mask mask_eq_exp_minus_1)

lemma epoch_bound:
  assumes "config_ok c" and "StartingEpochBlock c \<le> b" and "unat b + 2 < 2 ^ 64"
  shows "unat (epochNumber c b) \<le> unat b + 1" and "unat (epochNumber c b + 1) = Suc (unat (epochNumber c b))"
proof -
  have "b \<noteq> - 1" using assms(3) by (auto simp: unsigned_minus_1_eq_mask mask_eq_exp_minus_1)
  then show le: "unat (epochNumber c b) \<le> unat b + 1"
    unfolding epochNumber_nat [OF assms(1,2) \<open>b \<noteq> - 1\<close>] block_offset_def
    by (metis add.commute add_le_mono1 diff_le_self div_le_dividend le_trans)
  show "unat (epochNumber c b + 1) = Suc (unat (epochNumber c b))"
    using le assms(3) by (intro unat_succ_epoch) linarith
qed

text \<open>Epochs are announced at most once, in increasing order, for any sequence of blocks.\<close>

lemma epoch_run_increasing:
  assumes "config_ok c"
  shows "\<forall>b\<in>set bs. unat b + 2 < 2 ^ 64 \<Longrightarrow> StartingEpochBlock c \<le> lastBlockSeen s \<Longrightarrow>
    sorted_wrt (<) (map (\<lambda>e. unat (Epoch e)) (snd (epoch_run c s bs))) \<and>
    (\<forall>e\<in>set (snd (epoch_run c s bs)). unat (waitingForEpoch s) \<le> unat (Epoch e))"
proof (induction bs arbitrary: s)
  case Nil
  then show ?case by simp
next
  case (Cons b bs)
  obtain s1 e where st: "epoch_step c s b = (s1, e)" by (metis surj_pair)
  have b: "unat b + 2 < 2 ^ 64" using Cons.prems by simp
  have s1: "StartingEpochBlock c \<le> lastBlockSeen s1 \<and> unat (waitingForEpoch s) \<le> unat (waitingForEpoch s1) \<and>
      (\<forall>x. e = Some x \<longrightarrow> unat (waitingForEpoch s) \<le> unat (Epoch x) \<and> unat (Epoch x) < unat (waitingForEpoch s1))"
    using st epoch_step_exact [OF assms b Cons.prems(2)] Cons.prems(2) epoch_bound(2) [OF assms _ b]
    by (auto split: if_splits)
  then show ?case
    using Cons.IH [of s1] Cons.prems(1) st
    by (fastforce split: prod.splits option.splits)
qed

text \<open>When no block is skipped, no epoch is.\<close>

lemma epoch_run_complete:
  assumes "config_ok c" and "0 < due_position c" and "unat (StartingEpochBlock c) + m + 2 < 2 ^ 64"
  shows "let N = unat (NumBlockPerEpoch c); n = (m + N - due_position c) div N;
      r = epoch_run c (initial_status c) (map (\<lambda>i. StartingEpochBlock c + of_nat i) [1..<Suc m])
    in map (\<lambda>e. unat (Epoch e)) (snd r) = [1..<Suc n] \<and> unat (waitingForEpoch (fst r)) = Suc n \<and>
       lastBlockSeen (fst r) = StartingEpochBlock c + of_nat m"
  using assms(3)
proof (induction m)
  case 0
  let ?N = "unat (NumBlockPerEpoch c)"
  have "due_position c < ?N" by (rule due_position_less [OF assms(1)])
  then have "(0 + ?N - due_position c) div ?N = 0" using assms(2) by simp
  moreover have "epochNumber c (StartingEpochBlock c) = 1" by (simp add: epochNumber_def)
  ultimately show ?case by (simp add: initial_status_def)
next
  case (Suc m)
  let ?N = "unat (NumBlockPerEpoch c)" and ?T = "due_position c" and ?S = "StartingEpochBlock c"
  let ?b = "?S + of_nat (Suc m) :: u64" and ?bs = "map (\<lambda>i. ?S + of_nat i) [1..<Suc m]"
  let ?k = "Suc m div ?N" and ?t = "Suc m mod ?N"
  obtain s es where r: "epoch_run c (initial_status c) ?bs = (s, es)" by (metis surj_pair)
  from Suc r have IH: "map (\<lambda>e. unat (Epoch e)) es = [1..<Suc ((m + ?N - ?T) div ?N)]"
    "unat (waitingForEpoch s) = Suc ((m + ?N - ?T) div ?N)" "lastBlockSeen s = ?S + of_nat m"
    by (simp_all add: Let_def)
  have add: "unat (?S + of_nat n) = unat ?S + n" if "unat ?S + n < 2 ^ 64" for n
  proof -
    have "unat (of_nat n :: u64) = n" using that by (simp add: unsigned_of_nat take_bit_eq_mod)
    with that show ?thesis by (subst unat_add_lem [THEN iffD1]) simp_all
  qed
  have b: "unat ?b = unat ?S + Suc m" "unat (lastBlockSeen s) = unat ?S + m"
    unfolding IH(3) by (rule add; use Suc.prems in linarith)+
  have T: "?T < ?N" by (rule due_position_less [OF assms(1)])
  have le: "?S \<le> ?b" "?S \<le> lastBlockSeen s" "\<not> ?b \<le> lastBlockSeen s" using b by (simp_all add: word_le_nat_alt)
  have off: "block_offset c ?b = Suc m" using b by (simp add: block_offset_def)
  have b2: "unat ?b + 2 < 2 ^ 64" using b Suc.prems by simp
  have e: "unat (epochNumber c ?b) = Suc ?k"
    unfolding epochNumber_nat [OF assms(1) le(1) not_max [OF b2]] off by simp
  have split: "Suc m = ?k * ?N + ?t" "?t < ?N" using T by simp_all
  have old: "(m + ?N - ?T) div ?N = ?k + (if ?T < ?t then 1 else 0)"
  proof -
    have "m + ?N - ?T = ?k * ?N + ?t + ?N - Suc ?T" using split(1) T by linarith
    then show ?thesis using epoch_count [of "Suc ?T" ?N ?t ?k] T split(2) by (simp only: Suc_le_eq)
  qed
  have new: "(Suc m + ?N - ?T) div ?N = ?k + (if ?T \<le> ?t then 1 else 0)"
    using epoch_count [of ?T ?N ?t ?k] T split by (metis less_imp_le)
  have step: "epoch_step c s ?b =
     (if ?T = ?t then (s\<lparr>lastBlockSeen := ?b, waitingForEpoch := epochNumber c ?b + 1\<rparr>,
           Some \<lparr>Epoch = epochNumber c ?b, ExtraInfo = infoEpoch c ?b (epochNumber c ?b)\<rparr>)
      else (s\<lparr>lastBlockSeen := ?b\<rparr>, None))"
    using epoch_step_exact [OF assms(1) b2 le(2)] le(3) off e IH(2) old by auto
  have run: "epoch_run c (initial_status c) (map (\<lambda>i. ?S + of_nat i) [1..<Suc (Suc m)]) =
      (case epoch_step c s ?b of (s2, e) \<Rightarrow> (s2, es @ (case e of None \<Rightarrow> [] | Some x \<Rightarrow> [x])))"
    using epoch_run_snoc [of c "initial_status c" ?bs ?b] r by simp
  show ?case
    using epoch_bound(2) [OF assms(1) le(1) b2] IH(1,2) e old new unfolding run step Let_def
    by (cases "?T = ?t"; cases "?T < ?t") simp_all
qed

section \<open>The block notifier\<close>

text \<open>Automatic polling waits at least a second and at most a minute.\<close>

lemma nextBlockRequestDelay_bounds:
  "interval \<noteq> 0 \<Longrightarrow> minBlockInterval \<le> nextBlockRequestDelay interval now st err \<and>
   nextBlockRequestDelay interval now st err \<le> maxBlockInterval"
  by (auto simp: nextBlockRequestDelay_def minBlockInterval_def maxBlockInterval_def Let_def
      split: option.split)

text \<open>A configured interval of zero, documented as automatic, polls without any delay.\<close>

lemma nextBlockRequestDelay_automatic: "nextBlockRequestDelay 0 now st err = 0"
  by (simp add: nextBlockRequestDelay_def)

text \<open>A block is announced exactly when the status was known and the number changed.\<close>

lemma poll_step_announces:
  "snd (snd (poll_step interval now (Inr n) st)) =
     (case st of None \<Rightarrow> None | Some s \<Rightarrow> if n = bn_lastBlockSeen s then None else Some n)"
  by (auto simp: poll_step_def Let_def split: option.split)

lemma poll_step_status:
  "\<exists>s. fst (snd (poll_step interval now (Inr n) st)) = Some s \<and> bn_lastBlockSeen s = n"
  by (auto simp: poll_step_def Let_def intialBlock_def incommingNewBlock_def split: option.split)

section \<open>Properties\<close>

text \<open>No epoch is announced twice: for every sequence of blocks the events have strictly
  increasing epoch numbers.\<close>

theorem epoch_events_increasing:
  assumes "config_ok c" and "\<forall>b\<in>set blocks. unat b + 2 < 2 ^ 64"
  shows "sorted_wrt (<) (map (\<lambda>e. unat (Epoch e)) (startInternal c blocks))"
  using epoch_run_increasing [OF assms, of "initial_status c"] by (simp add: startInternal_def initial_status_def)

theorem epoch_events_increasing_witness:
  "sorted_wrt (<) (map (\<lambda>e. unat (Epoch e))
     (startInternal \<lparr>StartingEpochBlock = 10, NumBlockPerEpoch = 4, EpochNotificationPercentage = 50\<rparr> [12, 13, 17, 15]))"
  by (rule epoch_events_increasing) (simp_all add: config_ok_def Config_Validate_def)

text \<open>The blocks that are new when they arrive, and whether a block is at or past the point of notification of its epoch.\<close>

fun new_blocks :: "u64 \<Rightarrow> u64 list \<Rightarrow> u64 list" where
  "new_blocks seen [] = []"
| "new_blocks seen (b # bs) = (if seen < b then b # new_blocks b bs else new_blocks seen bs)"

definition due :: "ConfigEpochNotifierPerBlock \<Rightarrow> u64 \<Rightarrow> bool" where
  "due c b \<longleftrightarrow> due_position c \<le> block_offset c b mod unat (NumBlockPerEpoch c)"

lemma new_blocks_props: "set (new_blocks seen bs) \<subseteq> {b \<in> set bs. seen < b}" "sorted_wrt (<) (new_blocks seen bs)"
proof -
  show *: "set (new_blocks seen bs) \<subseteq> {b \<in> set bs. seen < b}" for seen
    by (induction seen bs rule: new_blocks.induct) (auto intro: less_trans)
  have "set (new_blocks seen bs) \<subseteq> {b. seen < b}" for seen bs
    by (induction seen bs rule: new_blocks.induct) (auto intro: less_trans)
  then show "sorted_wrt (<) (new_blocks seen bs)"
    by (induction seen bs rule: new_blocks.induct) (simp_all add: subset_iff)
qed

lemma epochNumber_mono:
  assumes "config_ok c" and "StartingEpochBlock c \<le> a" and "a \<le> b" and "unat b + 2 < 2 ^ 64"
  shows "epochNumber c a \<le> epochNumber c b"
proof -
  have "unat a \<le> unat b" using assms(3) by (simp add: word_le_nat_alt)
  then have a: "unat a + 2 < 2 ^ 64" and off: "block_offset c a \<le> block_offset c b"
    using assms(4) by (simp_all add: block_offset_def)
  have "StartingEpochBlock c \<le> b" using assms(2,3) by (rule order_trans)
  with off epochNumber_nat [OF assms(1,2) not_max [OF a]] epochNumber_nat [OF assms(1) _ not_max [OF assms(4)]]
  show ?thesis by (simp add: word_le_nat_alt div_le_mono)
qed

lemma remdups_adj_sorted:
  "sorted xs \<Longrightarrow> \<forall>x\<in>set xs. e \<le> x \<Longrightarrow> remdups_adj (e # xs) = e # remdups_adj (filter (\<lambda>x. e < x) xs)"
proof (induction xs)
  case (Cons y ys)
  show ?case
  proof (cases "y = e")
    case True
    with Cons show ?thesis by simp
  next
    case False
    then have "filter (\<lambda>x. e < x) (y # ys) = y # ys" using Cons.prems by (auto simp: filter_id_conv)
    with False show ?thesis by simp
  qed
qed simp

lemma epoch_run_Cons:
  "epoch_step c s b = (s1, r) \<Longrightarrow> snd (epoch_run c s (b # bs)) = (case r of None \<Rightarrow> [] | Some x \<Rightarrow> [x]) @ snd (epoch_run c s1 bs)"
  by (auto split: prod.splits option.splits)

text \<open>A run from any status announces the epochs of the new blocks that are due, from the epoch it waits for on.\<close>

lemma epoch_run_exact:
  assumes "config_ok c"
  shows "\<forall>b\<in>set bs. unat b + 2 < 2 ^ 64 \<Longrightarrow> StartingEpochBlock c \<le> lastBlockSeen s \<Longrightarrow>
    map Epoch (snd (epoch_run c s bs)) =
      remdups_adj (filter (\<lambda>e. waitingForEpoch s \<le> e) (map (epochNumber c) (filter (due c) (new_blocks (lastBlockSeen s) bs))))"
proof (induction bs arbitrary: s)
  case (Cons b bs)
  have b: "unat b + 2 < 2 ^ 64" using Cons.prems by simp
  note step = epoch_step_exact [OF assms b Cons.prems(2), folded due_def word_le_nat_alt]
  show ?case
  proof (cases "b \<le> lastBlockSeen s")
    case True
    then show ?thesis using step Cons.IH [of s] Cons.prems by (simp add: not_less [symmetric])
  next
    case new: False
    then have S: "StartingEpochBlock c \<le> b" using Cons.prems(2) by simp
    let ?rest = "map (epochNumber c) (filter (due c) (new_blocks b bs))" and ?e = "epochNumber c b"
    have nb: "set (new_blocks b bs) \<subseteq> {x \<in> set bs. b < x}" "sorted_wrt (<) (new_blocks b bs)" by (rule new_blocks_props)+
    have ge: "\<forall>x\<in>set ?rest. ?e \<le> x"
      using nb(1) Cons.prems(1) epochNumber_mono [OF assms S] by (auto dest: less_imp_le)
    have "sorted_wrt (\<lambda>x y. epochNumber c x \<le> epochNumber c y) (new_blocks b bs)"
      using nb(1) S Cons.prems(1)
      by (intro sorted_wrt_mono_rel [OF _ nb(2)] epochNumber_mono [OF assms]) (auto intro: order_trans less_imp_le)
    then have srt: "sorted ?rest" unfolding sorted_map by (rule sorted_wrt_filter)
    have succ: "?e + 1 \<le> x \<longleftrightarrow> ?e < x" for x
      using epoch_bound(2) [OF assms S b] by (simp add: word_le_nat_alt word_less_nat_alt Suc_le_eq)
    show ?thesis
    proof (cases "due c b \<and> waitingForEpoch s \<le> ?e")
      case True
      let ?s = "s\<lparr>lastBlockSeen := b, waitingForEpoch := ?e + 1\<rparr>"
      have st: "epoch_step c s b = (?s, Some \<lparr>Epoch = ?e, ExtraInfo = infoEpoch c b ?e\<rparr>)" using step new True by simp
      have "map Epoch (snd (epoch_run c s (b # bs))) = ?e # remdups_adj (filter (\<lambda>x. ?e < x) ?rest)"
        unfolding epoch_run_Cons [OF st] using Cons.IH [of ?s] Cons.prems(1) S by (simp add: succ)
      also have "\<dots> = remdups_adj (?e # ?rest)" by (rule remdups_adj_sorted [OF srt ge, symmetric])
      also have "?rest = filter (\<lambda>e. waitingForEpoch s \<le> e) ?rest"
        by (rule sym, unfold filter_id_conv) (use ge True in \<open>blast intro: order_trans\<close>)
      finally show ?thesis using new True by (simp add: not_le)
    next
      case False
      then have st: "epoch_step c s b = (s\<lparr>lastBlockSeen := b\<rparr>, None)" using step new by simp
      have "map Epoch (snd (epoch_run c s (b # bs))) =
          remdups_adj (filter (\<lambda>e. waitingForEpoch s \<le> e) ?rest)"
        unfolding epoch_run_Cons [OF st] using Cons.IH [of "s\<lparr>lastBlockSeen := b\<rparr>"] Cons.prems(1) S by simp
      with False new show ?thesis by (auto simp: not_le)
    qed
  qed
qed simp

lemma sint_small:
  fixes x :: u64
  assumes "unat x < 2 ^ 63"
  shows "sint x = int (unat x)"
proof -
  from assms have "int (unat x) < int (2 ^ 63)" by (simp only: of_nat_less_iff)
  then have "uint x < 2 ^ 63" by simp
  moreover have "- (2 ^ 63) \<le> uint x" using uint_ge_0 [of x] by (rule order_trans [rotated]) simp
  ultimately have "signed_take_bit 63 (uint x) = uint x" by (rule signed_take_bit_int_eq_self [rotated])
  moreover have "sint x = signed_take_bit 63 (uint x)" by (simp add: sint_uint)
  ultimately show ?thesis by (simp only: uint_nat)
qed

text \<open>An event carries the number of blocks left in its epoch.\<close>

lemma infoEpoch_pending:
  assumes "config_ok c" and "StartingEpochBlock c \<le> b" and "unat b + 2 < 2 ^ 64"
  shows "PendingBlocks (infoEpoch c b (epochNumber c b)) =
    int (unat (NumBlockPerEpoch c) - block_offset c b mod unat (NumBlockPerEpoch c))"
proof -
  let ?e = "epochNumber c b" and ?N = "NumBlockPerEpoch c" and ?t = "block_offset c b mod unat (NumBlockPerEpoch c)"
  let ?x = "b - startingBlockEpoch c ?e"
  note ok = config_okD [OF assms(1)]
  have "0 < unat ?e" unfolding epochNumber_nat [OF assms(1,2) not_max [OF assms(3)]] by simp
  then have "?e \<noteq> 0" by auto
  moreover have "?e + 1 \<noteq> 0" using epoch_bound(2) [OF assms] by (metis nat.distinct(1) unat_0)
  ultimately have "endBlockEpoch c ?e = StartingEpochBlock c + ?e * ?N" "startingBlockEpoch c ?e = StartingEpochBlock c + (?e - 1) * ?N"
    by (simp_all add: endBlockEpoch_def startingBlockEpoch_def)
  moreover have "(?e - 1) * ?N = ?e * ?N - ?N" by (simp add: left_diff_distrib)
  ultimately have eq: "endBlockEpoch c ?e - b = ?N - ?x" by simp
  have x: "unat ?x = ?t" by (rule elapsed_nat [OF assms(1,2) not_max [OF assms(3)]])
  have "?t < unat ?N" using ok(1) by simp
  then have "unat (?N - ?x) = unat ?N - ?t" using x by (subst unat_sub) (simp_all add: word_le_nat_alt)
  moreover from this ok(3) have "unat (?N - ?x) < 2 ^ 63" by simp
  then have "sint (?N - ?x) = int (unat (?N - ?x))" by (rule sint_small)
  ultimately show ?thesis by (simp add: infoEpoch_def eq)
qed

lemma epoch_run_events:
  assumes "config_ok c"
  shows "\<forall>b\<in>set bs. unat b + 2 < 2 ^ 64 \<Longrightarrow> StartingEpochBlock c \<le> lastBlockSeen s \<Longrightarrow> e \<in> set (snd (epoch_run c s bs)) \<Longrightarrow>
    \<exists>b\<in>set (new_blocks (lastBlockSeen s) bs). due c b \<and> e = \<lparr>Epoch = epochNumber c b, ExtraInfo = infoEpoch c b (epochNumber c b)\<rparr>"
proof (induction bs arbitrary: s)
  case (Cons b bs)
  have b: "unat b + 2 < 2 ^ 64" using Cons.prems by simp
  note step = epoch_step_exact [OF assms b Cons.prems(2), folded due_def]
  obtain s1 r where r: "epoch_step c s b = (s1, r)" by (metis surj_pair)
  have s1: "StartingEpochBlock c \<le> lastBlockSeen s1"
    using r step Cons.prems(2) by (auto split: if_splits)
  have sub: "set (new_blocks (lastBlockSeen s1) bs) \<subseteq> set (new_blocks (lastBlockSeen s) (b # bs))"
    using r step by (auto split: if_splits)
  have ev: "b \<in> set (new_blocks (lastBlockSeen s) (b # bs)) \<and> due c b \<and>
      x = \<lparr>Epoch = epochNumber c b, ExtraInfo = infoEpoch c b (epochNumber c b)\<rparr>" if "r = Some x" for x
    using r step that by (auto simp: not_le split: if_splits)
  from Cons.prems(3) r have "e \<in> set (snd (epoch_run c s1 bs)) \<or> r = Some e" by (auto simp: epoch_run_Cons [OF r] simp del: epoch_run.simps split: option.splits)
  then show ?case
  proof
    assume e: "e \<in> set (snd (epoch_run c s1 bs))"
    have "\<forall>b\<in>set bs. unat b + 2 < 2 ^ 64" using Cons.prems(1) by simp
    from Cons.IH [OF this s1 e] sub show ?thesis by blast
  qed (use ev in blast)
qed simp

text \<open>C38. Exactly the epochs that are due are announced: for blocks that arrive in any order, with gaps and repetitions, the events are those of the
  epochs of the new blocks at or past the point of notification of their epoch, in increasing order, each once; a block is new if it is
  greater than the starting block and all blocks before. The rounding of the percentages in floating point makes no difference. Every
  event says how many blocks its epoch has left after such a block.\<close>

theorem epoch_events_complete:
  assumes "config_ok c" and "\<forall>b\<in>set blocks. unat b + 2 < 2 ^ 64"
  shows "map Epoch (startInternal c blocks) =
      remdups_adj (map (epochNumber c) (filter (due c) (new_blocks (StartingEpochBlock c) blocks))) \<and>
    sorted_wrt (<) (map Epoch (startInternal c blocks)) \<and>
    (\<forall>e\<in>set (startInternal c blocks). \<exists>b\<in>set (new_blocks (StartingEpochBlock c) blocks). due c b \<and> Epoch e = epochNumber c b \<and>
       PendingBlocks (ExtraInfo e) = int (unat (NumBlockPerEpoch c) - block_offset c b mod unat (NumBlockPerEpoch c)))"
proof (intro conjI ballI)
  let ?s = "initial_status c"
  have s: "lastBlockSeen ?s = StartingEpochBlock c" "waitingForEpoch ?s = 1" by (simp_all add: initial_status_def epochNumber_def)
  have new: "StartingEpochBlock c \<le> b \<and> unat b + 2 < 2 ^ 64" if "b \<in> set (new_blocks (StartingEpochBlock c) blocks)" for b
    using that new_blocks_props(1) [of "StartingEpochBlock c" blocks] assms(2) by (auto dest: less_imp_le)
  have "1 \<le> epochNumber c b" if "b \<in> set (new_blocks (StartingEpochBlock c) blocks)" for b
    using epochNumber_nat [OF assms(1), of b] new [OF that] not_max [of b] by (simp add: word_le_nat_alt)
  then have "filter (\<lambda>e. 1 \<le> e) (map (epochNumber c) (filter (due c) (new_blocks (StartingEpochBlock c) blocks))) =
      map (epochNumber c) (filter (due c) (new_blocks (StartingEpochBlock c) blocks))" by (simp add: filter_id_conv)
  with epoch_run_exact [OF assms, of ?s] s show "map Epoch (startInternal c blocks) =
      remdups_adj (map (epochNumber c) (filter (due c) (new_blocks (StartingEpochBlock c) blocks)))"
    by (simp add: startInternal_def)
  show "sorted_wrt (<) (map Epoch (startInternal c blocks))"
    using epoch_run_increasing [OF assms, of ?s] s by (simp add: startInternal_def sorted_wrt_map word_less_nat_alt)
  show "\<exists>b\<in>set (new_blocks (StartingEpochBlock c) blocks). due c b \<and> Epoch e = epochNumber c b \<and>
       PendingBlocks (ExtraInfo e) = int (unat (NumBlockPerEpoch c) - block_offset c b mod unat (NumBlockPerEpoch c))"
    if "e \<in> set (startInternal c blocks)" for e
    using epoch_run_events [OF assms, of ?s e] that s new infoEpoch_pending [OF assms(1)] by (fastforce simp: startInternal_def)
qed

theorem epoch_events_complete_witness:
  "map Epoch (startInternal \<lparr>StartingEpochBlock = 10, NumBlockPerEpoch = 4, EpochNotificationPercentage = 50\<rparr> [11, 13, 12, 21, 22, 23]) = [1, 3]"
  using epoch_events_complete [of "\<lparr>StartingEpochBlock = 10, NumBlockPerEpoch = 4, EpochNotificationPercentage = 50\<rparr>" "[11, 13, 12, 21, 22, 23]"]
  by (simp add: config_ok_def Config_Validate_def due_position_def due_def block_offset_def epochNumber_def)

end
