(* ===== verification/AggLayer.thy ===== *)
theory AggLayer
  imports L1InfoTreeSync
begin

text \<open>
  The data the node exchanges with the agglayer (\<open>src/agglayer/types.go\<close>) and the encodings it
  is hashed with (\<open>src/common/common.go\<close>): certificates, bridge exits, imported bridge exits with
  their claims and Merkle proofs. A nil pointer that a hash dereferences is \<open>ErrPanic\<close>.
\<close>

section \<open>Encodings (\<open>common.go\<close>)\<close>

definition Uint64ToBytes :: "u64 \<Rightarrow> bytes" where
  "Uint64ToBytes num = be_bytes 8 num"

definition Uint32ToBytes :: "u32 \<Rightarrow> bytes" where
  "Uint32ToBytes num = be_bytes 4 num"

text \<open>\<open>binary.BigEndian.Uint64\<close> and \<open>Uint32\<close> read the first bytes and panic on a shorter slice.\<close>

definition BytesToUint64 :: "bytes \<Rightarrow> error + u64" where
  "BytesToUint64 bs = (if length bs < 8 then Inl ErrPanic else Inr (of_nat (be_value (take 8 bs))))"

definition BytesToUint32 :: "bytes \<Rightarrow> error + u32" where
  "BytesToUint32 bs = (if length bs < 4 then Inl ErrPanic else Inr (of_nat (be_value (take 4 bs))))"

definition BigIntToLittleEndianBytes :: "int \<Rightarrow> bytes" where
  "BigIntToLittleEndianBytes n =
     (let beBytes = nat_bytes (nat \<bar>n\<bar>) in
      map (\<lambda>i. if i < length beBytes then beBytes ! (length beBytes - 1 - i) else 0) [0..<32])"

text \<open>The loops that prepend zeros until a value has its length.\<close>

definition left_pad :: "nat \<Rightarrow> bytes \<Rightarrow> bytes" where
  "left_pad n bs = replicate (n - length bs) 0 @ bs"

definition CalculateAccInputHash ::
  "keccak \<Rightarrow> hash \<Rightarrow> bytes \<Rightarrow> hash \<Rightarrow> u64 \<Rightarrow> address \<Rightarrow> hash \<Rightarrow> hash"
where
  "CalculateAccInputHash K oldAccInputHash batchData l1InfoRoot timestampLimit sequencerAddr forcedBlockhashL1 =
     (let v1 = left_pad 32 (hash_bytes oldAccInputHash);
          v3 = left_pad 32 (hash_bytes l1InfoRoot);
          v4 = left_pad 8 (nat_bytes (unat timestampLimit));
          v5 = left_pad 20 (addr_bytes sequencerAddr);
          v6 = left_pad 32 (hash_bytes forcedBlockhashL1);
          v2 = hash_bytes (K batchData)
      in K (v1 @ v2 @ v3 @ v4 @ v5 @ v6))"

section \<open>Certificates\<close>

datatype CertificateStatus = CertPending | CertProven | CertCandidate | CertInError | CertSettled

definition CertificateStatus_String :: "CertificateStatus \<Rightarrow> string" where
  "CertificateStatus_String c =
     (case c of CertPending \<Rightarrow> ''Pending'' | CertProven \<Rightarrow> ''Proven'' | CertCandidate \<Rightarrow> ''Candidate''
      | CertInError \<Rightarrow> ''InError'' | CertSettled \<Rightarrow> ''Settled'')"

fun str_contains :: "string \<Rightarrow> string \<Rightarrow> bool" where
  "str_contains [] sub \<longleftrightarrow> sub = []"
| "str_contains (c # cs) sub \<longleftrightarrow> take (length sub) (c # cs) = sub \<or> str_contains cs sub"

definition CertificateStatus_UnmarshalJSON :: "string \<Rightarrow> error + CertificateStatus" where
  "CertificateStatus_UnmarshalJSON dataStr =
     (let status = (if str_contains dataStr ''InError'' then ''InError'' else dataStr) in
      if status = ''Pending'' then Inr CertPending
      else if status = ''InError'' then Inr CertInError
      else if status = ''Proven'' then Inr CertProven
      else if status = ''Candidate'' then Inr CertCandidate
      else if status = ''Settled'' then Inr CertSettled
      else Inl (ErrMsg ''invalid status''))"

record TokenInfo =
  ti_OriginNetwork :: u32
  ti_OriginTokenAddress :: address

record GlobalIndex =
  gi_MainnetFlag :: bool
  gi_RollupIndex :: u32
  gi_LeafIndex :: u32

record BridgeExit =
  be_LeafType :: u8
  be_TokenInfo :: "TokenInfo option"
  be_DestinationNetwork :: u32
  be_DestinationAddress :: address
  be_Amount :: "int option"
  be_Metadata :: bytes

record MerkleProof =
  mp_Root :: hash
  mp_Proof :: Proof

record L1InfoTreeLeafInner =
  in_GlobalExitRoot :: hash
  in_BlockHash :: hash
  in_Timestamp :: u64

record ag_L1InfoTreeLeaf =
  al_L1InfoTreeIndex :: u32
  al_RollupExitRoot :: hash
  al_MainnetExitRoot :: hash
  al_Inner :: L1InfoTreeLeafInner

record ClaimFromMainnnet =
  cm_ProofLeafMER :: MerkleProof
  cm_ProofGERToL1Root :: MerkleProof
  cm_L1Leaf :: ag_L1InfoTreeLeaf

record ClaimFromRollup =
  cr_ProofLeafLER :: MerkleProof
  cr_ProofLERToRER :: MerkleProof
  cr_ProofGERToL1Root :: MerkleProof
  cr_L1Leaf :: ag_L1InfoTreeLeaf

datatype ag_Claim = FromMainnet ClaimFromMainnnet | FromRollup ClaimFromRollup

record ImportedBridgeExit =
  ib_BridgeExit :: BridgeExit
  ib_ClaimData :: "ag_Claim option"
  ib_GlobalIndex :: GlobalIndex

record Certificate =
  ce_NetworkID :: u32
  ce_Height :: u64
  ce_PrevLocalExitRoot :: hash
  ce_NewLocalExitRoot :: hash
  ce_BridgeExits :: "BridgeExit list"
  ce_ImportedBridgeExits :: "ImportedBridgeExit list"
  ce_Metadata :: hash

record Signature =
  sg_R :: hash
  sg_S :: hash
  sg_OddParity :: bool

record SignedCertificate =
  sc_Certificate :: Certificate
  sc_Signature :: "Signature option"

record CertificateHeader =
  ch_Height :: u64
  ch_CertificateID :: hash
  ch_NewLocalExitRoot :: hash
  ch_Status :: CertificateStatus

definition CopyWithDefaulting :: "SignedCertificate \<Rightarrow> SignedCertificate" where
  "CopyWithDefaulting s =
     s\<lparr>sc_Signature := Some (case sc_Signature s of None \<Rightarrow> \<lparr>sg_R = 0, sg_S = 0, sg_OddParity = False\<rparr> | Some g \<Rightarrow> g)\<rparr>"

section \<open>Hashes\<close>

definition GlobalIndex_Hash :: "keccak \<Rightarrow> GlobalIndex \<Rightarrow> hash" where
  "GlobalIndex_Hash K g =
     K (BigIntToLittleEndianBytes (int (GenerateGlobalIndex (gi_MainnetFlag g) (gi_RollupIndex g) (gi_LeafIndex g))))"

definition BridgeExit_Hash :: "keccak \<Rightarrow> BridgeExit \<Rightarrow> error + hash" where
  "BridgeExit_Hash K b =
     (let amount = (case be_Amount b of None \<Rightarrow> 0 | Some a \<Rightarrow> a) in
      case be_TokenInfo b of
        None \<Rightarrow> Inl ErrPanic
      | Some t \<Rightarrow>
          Inr (K ([be_LeafType b] @ Uint32ToBytes (ti_OriginNetwork t) @ addr_bytes (ti_OriginTokenAddress t) @
                  Uint32ToBytes (be_DestinationNetwork b) @ addr_bytes (be_DestinationAddress b) @
                  nat_bytes (nat \<bar>amount\<bar>) @ hash_bytes (K (be_Metadata b)))))"

definition MerkleProof_Hash :: "keccak \<Rightarrow> MerkleProof \<Rightarrow> hash" where
  "MerkleProof_Hash K m = K (hash_bytes (mp_Root m) @ concat (map hash_bytes (mp_Proof m)))"

definition L1InfoTreeLeafInner_Hash :: "keccak \<Rightarrow> L1InfoTreeLeafInner \<Rightarrow> hash" where
  "L1InfoTreeLeafInner_Hash K l =
     K (hash_bytes (in_GlobalExitRoot l) @ hash_bytes (in_BlockHash l) @ Uint64ToBytes (in_Timestamp l))"

definition ag_L1InfoTreeLeaf_Hash :: "keccak \<Rightarrow> ag_L1InfoTreeLeaf \<Rightarrow> hash" where
  "ag_L1InfoTreeLeaf_Hash K l = L1InfoTreeLeafInner_Hash K (al_Inner l)"

definition ClaimFromMainnnet_Hash :: "keccak \<Rightarrow> ClaimFromMainnnet \<Rightarrow> hash" where
  "ClaimFromMainnnet_Hash K c =
     K (hash_bytes (MerkleProof_Hash K (cm_ProofLeafMER c)) @ hash_bytes (MerkleProof_Hash K (cm_ProofGERToL1Root c)) @
        hash_bytes (ag_L1InfoTreeLeaf_Hash K (cm_L1Leaf c)))"

definition ClaimFromRollup_Hash :: "keccak \<Rightarrow> ClaimFromRollup \<Rightarrow> hash" where
  "ClaimFromRollup_Hash K c =
     K (hash_bytes (MerkleProof_Hash K (cr_ProofLeafLER c)) @ hash_bytes (MerkleProof_Hash K (cr_ProofLERToRER c)) @
        hash_bytes (MerkleProof_Hash K (cr_ProofGERToL1Root c)) @ hash_bytes (ag_L1InfoTreeLeaf_Hash K (cr_L1Leaf c)))"

definition ag_Claim_Hash :: "keccak \<Rightarrow> ag_Claim \<Rightarrow> hash" where
  "ag_Claim_Hash K c = (case c of FromMainnet m \<Rightarrow> ClaimFromMainnnet_Hash K m | FromRollup r \<Rightarrow> ClaimFromRollup_Hash K r)"

definition ImportedBridgeExit_Hash :: "keccak \<Rightarrow> ImportedBridgeExit \<Rightarrow> error + hash" where
  "ImportedBridgeExit_Hash K c =
     (case BridgeExit_Hash K (ib_BridgeExit c) of
        Inl e \<Rightarrow> Inl e
      | Inr h \<Rightarrow>
          (case ib_ClaimData c of
             None \<Rightarrow> Inl ErrPanic
           | Some cd \<Rightarrow>
               Inr (K (hash_bytes h @ hash_bytes (ag_Claim_Hash K cd) @
                       hash_bytes (GlobalIndex_Hash K (ib_GlobalIndex c))))))"

fun hash_all :: "('a \<Rightarrow> error + hash) \<Rightarrow> 'a list \<Rightarrow> error + bytes" where
  "hash_all f [] = Inr []"
| "hash_all f (x # xs) =
     (case f x of
        Inl e \<Rightarrow> Inl e
      | Inr h \<Rightarrow> map_sum id (\<lambda>bs. hash_bytes h @ bs) (hash_all f xs))"

definition Certificate_Hash :: "keccak \<Rightarrow> Certificate \<Rightarrow> error + hash" where
  "Certificate_Hash K c =
     (case hash_all (BridgeExit_Hash K) (ce_BridgeExits c) of
        Inl e \<Rightarrow> Inl e
      | Inr bridgeExits \<Rightarrow>
          (case hash_all (ImportedBridgeExit_Hash K) (ce_ImportedBridgeExits c) of
             Inl e \<Rightarrow> Inl e
           | Inr importedBridgeExits \<Rightarrow>
               Inr (K (Uint32ToBytes (ce_NetworkID c) @ Uint64ToBytes (ce_Height c) @
                       hash_bytes (ce_PrevLocalExitRoot c) @ hash_bytes (ce_NewLocalExitRoot c) @
                       hash_bytes (K bridgeExits) @ hash_bytes (K importedBridgeExits)))))"

definition HashToSign :: "keccak \<Rightarrow> Certificate \<Rightarrow> hash" where
  "HashToSign K c =
     K (hash_bytes (ce_NewLocalExitRoot c) @
        hash_bytes (K (concat (map (\<lambda>i. hash_bytes (GlobalIndex_Hash K (ib_GlobalIndex i))) (ce_ImportedBridgeExits c)))))"

section \<open>Facts\<close>

text \<open>The status names are read back, and everything that mentions \<open>InError\<close> is that status.\<close>

lemma CertificateStatus_roundtrip: "CertificateStatus_UnmarshalJSON (CertificateStatus_String c) = Inr c"
  by (cases c) (simp_all add: CertificateStatus_UnmarshalJSON_def CertificateStatus_String_def)

lemma Uint64_roundtrip: "BytesToUint64 (Uint64ToBytes n) = Inr n"
proof -
  have "unat n < 256 ^ 8" using unat_less [of n] by simp
  then have "be_value (be_bytes 8 n) = unat n" by (simp only: be_value_be_bytes mod_less)
  then show ?thesis by (simp add: BytesToUint64_def Uint64ToBytes_def)
qed

lemma Uint32_roundtrip: "BytesToUint32 (Uint32ToBytes n) = Inr n"
proof -
  have "unat n < 256 ^ 4" using unat_less [of n] by simp
  then have "be_value (be_bytes 4 n) = unat n" by (simp only: be_value_be_bytes mod_less)
  then show ?thesis by (simp add: BytesToUint32_def Uint32ToBytes_def)
qed

text \<open>The little-endian form is the reverse of the big-endian one with 32 bytes.\<close>

lemma BigIntToLittleEndianBytes_value:
  assumes "\<bar>n\<bar> < 2 ^ 256"
  shows "be_value (rev (BigIntToLittleEndianBytes n)) = nat \<bar>n\<bar>"
proof -
  let ?bs = "nat_bytes (nat \<bar>n\<bar>)"
  have "nat \<bar>n\<bar> < 256 ^ 32" using assms by (simp add: nat_less_iff)
  then have len: "length ?bs \<le> 32" by (simp only: length_nat_bytes)
  have "map (\<lambda>i. if i < length ?bs then ?bs ! (length ?bs - 1 - i) else 0) [0..<32] =
      rev ?bs @ replicate (32 - length ?bs) 0"
    by (rule nth_equalityI) (use len in \<open>auto simp: nth_append rev_nth\<close>)
  then have "rev (BigIntToLittleEndianBytes n) = replicate (32 - length ?bs) 0 @ ?bs"
    by (simp add: BigIntToLittleEndianBytes_def Let_def)
  then show ?thesis by simp
qed

text \<open>The accumulated input hash packs 156 bytes: the paddings are exact.\<close>

lemma left_pad_id: "length bs = n \<Longrightarrow> left_pad n bs = bs"
  by (simp add: left_pad_def)

lemma left_pad_nat_bytes:
  assumes "n < 256 ^ k"
  shows "length (left_pad k (nat_bytes n)) = k" and "be_value (left_pad k (nat_bytes n)) = n"
  using assms by (simp_all add: left_pad_def length_nat_bytes [symmetric])

lemma left_pad_Uint64: "left_pad 8 (nat_bytes (unat w)) = Uint64ToBytes w" for w :: u64
proof -
  have "unat w < 256 ^ 8" using unat_less [of w] by simp
  note lp = left_pad_nat_bytes [OF this]
  have "be_value (be_bytes 8 w) = unat w" using \<open>unat w < 256 ^ 8\<close> by (simp only: be_value_be_bytes mod_less)
  then show ?thesis using lp be_value_inj [of "left_pad 8 (nat_bytes (unat w))" "be_bytes 8 w"]
    by (simp add: Uint64ToBytes_def)
qed

lemma CalculateAccInputHash_packed:
  "CalculateAccInputHash K old batch root ts seq forced =
     K (hash_bytes old @ hash_bytes (K batch) @ hash_bytes root @ Uint64ToBytes ts @ addr_bytes seq @ hash_bytes forced)"
  by (simp add: CalculateAccInputHash_def left_pad_id left_pad_Uint64)

text \<open>The leaf hashes of the three components are the same function.\<close>

lemma leaf_hashes_agree:
  "L1InfoTreeLeafInner_Hash K \<lparr>in_GlobalExitRoot = g, in_BlockHash = h, in_Timestamp = t\<rparr> = HashLeafData K g h t"
  by (simp add: L1InfoTreeLeafInner_Hash_def HashLeafData_def Uint64ToBytes_def)

end
