(* ===== verification/AggSender.thy ===== *)
theory AggSender
  imports AggLayer
begin

text \<open>
  The certificate sender (\<open>src/aggsender\<close>): its storage of sent certificates
  (\<open>db/aggsender_db_storage.go\<close>) and the work it does when an epoch ends (\<open>aggsender.go\<close>): refresh the
  status of pending certificates, and send a certificate for the blocks after the last one.
\<close>

section \<open>Storage\<close>

record CertificateInfo =
  ci_Height :: u64
  ci_CertificateID :: hash
  ci_NewLocalExitRoot :: hash
  ci_FromBlock :: u64
  ci_ToBlock :: u64
  ci_Status :: CertificateStatus
  ci_CreatedAt :: int
  ci_UpdatedAt :: int
  ci_SignedCertificate :: string

definition zero_info :: CertificateInfo where
  "zero_info = \<lparr>ci_Height = 0, ci_CertificateID = 0, ci_NewLocalExitRoot = 0, ci_FromBlock = 0, ci_ToBlock = 0,
     ci_Status = CertPending, ci_CreatedAt = 0, ci_UpdatedAt = 0, ci_SignedCertificate = []\<rparr>"

definition GetCertificatesByStatus ::
  "io \<Rightarrow> CertificateStatus list \<Rightarrow> CertificateInfo list \<Rightarrow> error + CertificateInfo list"
where
  "GetCertificatesByStatus io statuses rows =
     (if io (SqlSelect ''certificate_info'' [0]) then Inl ErrSQL
      else Inr (sort_key ci_Height
             (if statuses = [] then rows else filter (\<lambda>c. ci_Status c \<in> set statuses) rows)))"

text \<open>No row is no error at height 0, and the zero value is returned with it.\<close>

definition getSelectQueryError :: "u64 \<Rightarrow> error \<Rightarrow> error option" where
  "getSelectQueryError height err =
     (if err = ErrNoRows then (if height = 0 then None else Some ErrNotFound) else Some err)"

definition select_certificate :: "io \<Rightarrow> sql \<Rightarrow> u64 \<Rightarrow> CertificateInfo option \<Rightarrow> error + CertificateInfo" where
  "select_certificate io s height r =
     (case (if io s then Inl ErrSQL else case r of None \<Rightarrow> Inl ErrNoRows | Some c \<Rightarrow> Inr c) of
        Inr c \<Rightarrow> Inr c
      | Inl e \<Rightarrow> (case getSelectQueryError height e of None \<Rightarrow> Inr zero_info | Some e' \<Rightarrow> Inl e'))"

definition getCertificateByHeight :: "io \<Rightarrow> u64 \<Rightarrow> CertificateInfo list \<Rightarrow> error + CertificateInfo" where
  "getCertificateByHeight io height rows =
     select_certificate io (SqlSelect ''certificate_info'' [1, unat height]) height
       (find (\<lambda>c. ci_Height c = height) rows)"

definition GetLastSentCertificate :: "io \<Rightarrow> CertificateInfo list \<Rightarrow> error + CertificateInfo" where
  "GetLastSentCertificate io rows =
     select_certificate io (SqlSelect ''certificate_info'' [2]) 0 (first_desc ci_Height rows)"

definition deleteCertificate :: "io \<Rightarrow> hash \<Rightarrow> CertificateInfo list \<Rightarrow> error + CertificateInfo list" where
  "deleteCertificate io certificateID rows =
     (if io (SqlDelete ''certificate_info'' [unat certificateID]) then Inl ErrSQL
      else Inr (filter (\<lambda>c. ci_CertificateID c \<noteq> certificateID) rows))"

definition SaveLastSentCertificate ::
  "io \<Rightarrow> CertificateInfo \<Rightarrow> CertificateInfo list \<Rightarrow> CertificateInfo list \<times> error option"
where
  "SaveLastSentCertificate io certificate rows =
     (if io SqlBegin then (rows, Some ErrSQL)
      else case getCertificateByHeight io (ci_Height certificate) rows of
        Inl e \<Rightarrow>
          if e \<noteq> ErrNotFound then (rows, Some e)
          else (case pk_insert io (SqlInsert ''certificate_info'' []) ci_CertificateID certificate rows of
                  Inl e' \<Rightarrow> (rows, Some e')
                | Inr rows2 \<Rightarrow> if io SqlCommit then (rows, Some ErrSQL) else (rows2, None))
      | Inr cert \<Rightarrow>
          (case (if ci_CertificateID cert \<noteq> 0 then deleteCertificate io (ci_CertificateID cert) rows else Inr rows) of
             Inl e \<Rightarrow> (rows, Some e)
           | Inr rows1 \<Rightarrow>
               (case pk_insert io (SqlInsert ''certificate_info'' []) ci_CertificateID certificate rows1 of
                  Inl e' \<Rightarrow> (rows, Some e')
                | Inr rows2 \<Rightarrow> if io SqlCommit then (rows, Some ErrSQL) else (rows2, None))))"

text \<open>\<open>DeleteCertificate\<close> opens a transaction but deletes outside of it.\<close>

definition DeleteCertificate ::
  "io \<Rightarrow> hash \<Rightarrow> CertificateInfo list \<Rightarrow> CertificateInfo list \<times> error option"
where
  "DeleteCertificate io certificateID rows =
     (if io SqlBegin then (rows, Some ErrSQL)
      else case deleteCertificate io certificateID rows of
             Inl e \<Rightarrow> (rows, Some e)
           | Inr rows1 \<Rightarrow> (rows1, if io SqlCommit then Some ErrSQL else None))"

definition set_status :: "hash \<Rightarrow> CertificateStatus \<Rightarrow> CertificateInfo list \<Rightarrow> CertificateInfo list" where
  "set_status certificateID status rows =
     map (\<lambda>c. if ci_CertificateID c = certificateID then c\<lparr>ci_Status := status\<rparr> else c) rows"

definition UpdateCertificateStatus ::
  "io \<Rightarrow> CertificateInfo \<Rightarrow> CertificateInfo list \<Rightarrow> CertificateInfo list \<times> error option"
where
  "UpdateCertificateStatus io certificate rows =
     (if io SqlBegin then (rows, Some ErrSQL)
      else if io (SqlUpdate ''certificate_info'' []) then (rows, Some ErrSQL)
      else if io SqlCommit then (rows, Some ErrSQL)
      else (set_status (ci_CertificateID certificate) (ci_Status certificate) rows, None))"

section \<open>The sender\<close>

text \<open>
  The collaborators of the sender: the L2 bridge syncer, the L1 info tree syncer, the agglayer
  client, the signing key and the clock.
\<close>

record AggSender =
  l2_GetLastProcessedBlock :: "error + u64"
  l2_GetBridgesPublished :: "u64 \<Rightarrow> u64 \<Rightarrow> error + Bridge list"
  l2_GetClaims :: "u64 \<Rightarrow> u64 \<Rightarrow> error + Claim list"
  l2_GetExitRootByIndex :: "u32 \<Rightarrow> error + Root"
  l2_OriginNetwork :: u32
  l1_GetInfoByGlobalExitRoot :: "hash \<Rightarrow> error + L1InfoTreeLeaf"
  l1_GetL1InfoTreeRootByIndex :: "u32 \<Rightarrow> error + Root"
  l1_GetProof :: "u32 \<Rightarrow> hash \<Rightarrow> error + Proof"
  agg_SendCertificate :: "SignedCertificate \<Rightarrow> error + hash"
  agg_GetCertificateHeader :: "hash \<Rightarrow> error + CertificateHeader"
  crypto_Sign :: "hash \<Rightarrow> error + bytes"
  json_Marshal :: "SignedCertificate \<Rightarrow> error + string"
  time_Now :: int

definition nonSettledStatuses :: "CertificateStatus list" where
  "nonSettledStatuses = [CertPending, CertCandidate, CertProven]"

definition zeroLER :: hash where
  "zeroLER = 0x27ae5ba08d7291c96c8cbddcc148bf48a6d68c7974b94356f53754ef6171d757"

definition getNextHeightAndPreviousLER :: "CertificateInfo \<Rightarrow> u64 \<times> hash" where
  "getNextHeightAndPreviousLER lastSent =
     (let height = (if ci_Status lastSent = CertInError then ci_Height lastSent else ci_Height lastSent + 1)
      in if ci_NewLocalExitRoot lastSent = 0 then (0, zeroLER) else (height, ci_NewLocalExitRoot lastSent))"

definition bridge_exit_of :: "Bridge \<Rightarrow> BridgeExit" where
  "bridge_exit_of b =
     \<lparr>be_LeafType = br_LeafType b,
      be_TokenInfo = Some \<lparr>ti_OriginNetwork = br_OriginNetwork b, ti_OriginTokenAddress = br_OriginAddress b\<rparr>,
      be_DestinationNetwork = br_DestinationNetwork b, be_DestinationAddress = br_DestinationAddress b,
      be_Amount = br_Amount b, be_Metadata = br_Metadata b\<rparr>"

definition getBridgeExits :: "Bridge list \<Rightarrow> BridgeExit list" where
  "getBridgeExits bridges = map bridge_exit_of bridges"

definition convertClaimToImportedBridgeExit :: "Claim \<Rightarrow> error + ImportedBridgeExit" where
  "convertClaimToImportedBridgeExit claim =
     (let bridgeExit =
            \<lparr>be_LeafType = (if cl_IsMessage claim then 1 else 0),
             be_TokenInfo = Some \<lparr>ti_OriginNetwork = cl_OriginNetwork claim, ti_OriginTokenAddress = cl_OriginAddress claim\<rparr>,
             be_DestinationNetwork = cl_DestinationNetwork claim,
             be_DestinationAddress = cl_DestinationAddress claim,
             be_Amount = cl_Amount claim, be_Metadata = cl_Metadata claim\<rparr>
      in case cl_GlobalIndex claim of
           None \<Rightarrow> Inl ErrPanic
         | Some globalIndex \<Rightarrow>
             (case DecodeGlobalIndex (nat \<bar>globalIndex\<bar>) of
                Inl e \<Rightarrow> Inl e
              | Inr (mainnetFlag, rollupIndex, leafIndex) \<Rightarrow>
                  Inr \<lparr>ib_BridgeExit = bridgeExit, ib_ClaimData = None,
                       ib_GlobalIndex = \<lparr>gi_MainnetFlag = mainnetFlag, gi_RollupIndex = rollupIndex,
                                         gi_LeafIndex = leafIndex\<rparr>\<rparr>))"

text \<open>The first loop of \<open>getImportedBridgeExits\<close>: the leaves of the claims and the greatest index.\<close>

fun claim_infos :: "AggSender \<Rightarrow> Claim list \<Rightarrow> u32 \<Rightarrow> error + L1InfoTreeLeaf list \<times> u32" where
  "claim_infos a [] greatest = Inr ([], greatest)"
| "claim_infos a (claim # claims) greatest =
     (case l1_GetInfoByGlobalExitRoot a (cl_GlobalExitRoot claim) of
        Inl e \<Rightarrow> Inl e
      | Inr info \<Rightarrow>
          map_sum id (\<lambda>(infos, g). (info # infos, g))
            (claim_infos a claims (if lf_L1InfoTreeIndex info > greatest then lf_L1InfoTreeIndex info else greatest)))"

definition claim_l1_leaf :: "Claim \<Rightarrow> L1InfoTreeLeaf \<Rightarrow> ag_L1InfoTreeLeaf" where
  "claim_l1_leaf claim l1Info =
     \<lparr>al_L1InfoTreeIndex = lf_L1InfoTreeIndex l1Info, al_RollupExitRoot = cl_RollupExitRoot claim,
      al_MainnetExitRoot = cl_MainnetExitRoot claim,
      al_Inner = \<lparr>in_GlobalExitRoot = lf_GlobalExitRoot l1Info, in_BlockHash = lf_PreviousBlockHash l1Info,
                  in_Timestamp = lf_Timestamp l1Info\<rparr>\<rparr>"

definition claim_data :: "Claim \<Rightarrow> L1InfoTreeLeaf \<Rightarrow> hash \<Rightarrow> Proof \<Rightarrow> bool \<Rightarrow> ag_Claim" where
  "claim_data claim l1Info rootHash gerToL1Proof mainnetFlag =
     (let ger = \<lparr>mp_Root = rootHash, mp_Proof = gerToL1Proof\<rparr>;
          leaf = \<lparr>mp_Root = cl_MainnetExitRoot claim, mp_Proof = cl_ProofLocalExitRoot claim\<rparr>
      in if mainnetFlag
         then FromMainnet \<lparr>cm_ProofLeafMER = leaf, cm_ProofGERToL1Root = ger, cm_L1Leaf = claim_l1_leaf claim l1Info\<rparr>
         else FromRollup \<lparr>cr_ProofLeafLER = leaf,
                cr_ProofLERToRER = \<lparr>mp_Root = cl_RollupExitRoot claim, mp_Proof = cl_ProofRollupExitRoot claim\<rparr>,
                cr_ProofGERToL1Root = ger, cr_L1Leaf = claim_l1_leaf claim l1Info\<rparr>)"

text \<open>The second loop: conversion and the proof of every leaf to the common root.\<close>

fun imported_exits :: "AggSender \<Rightarrow> hash \<Rightarrow> (Claim \<times> L1InfoTreeLeaf) list \<Rightarrow> error + ImportedBridgeExit list" where
  "imported_exits a rootHash [] = Inr []"
| "imported_exits a rootHash ((claim, l1Info) # rest) =
     (case convertClaimToImportedBridgeExit claim of
        Inl e \<Rightarrow> Inl e
      | Inr ibe \<Rightarrow>
          (case l1_GetProof a (lf_L1InfoTreeIndex l1Info) rootHash of
             Inl e \<Rightarrow> Inl e
           | Inr gerToL1Proof \<Rightarrow>
               map_sum id (\<lambda>ibes. ibe\<lparr>ib_ClaimData := Some (claim_data claim l1Info rootHash gerToL1Proof
                                         (gi_MainnetFlag (ib_GlobalIndex ibe)))\<rparr> # ibes)
                 (imported_exits a rootHash rest)))"

definition getImportedBridgeExits :: "AggSender \<Rightarrow> Claim list \<Rightarrow> error + ImportedBridgeExit list" where
  "getImportedBridgeExits a claims =
     (if claims = [] then Inr []
      else case claim_infos a claims 0 of
             Inl e \<Rightarrow> Inl e
           | Inr (infos, greatest) \<Rightarrow>
               (case l1_GetL1InfoTreeRootByIndex a greatest of
                  Inl e \<Rightarrow> Inl e
                | Inr rootToProve \<Rightarrow> imported_exits a (r_Hash rootToProve) (zip claims infos)))"

definition createCertificateMetadata :: "u64 \<Rightarrow> hash" where
  "createCertificateMetadata toBlock = ucast toBlock"

definition buildCertificate ::
  "AggSender \<Rightarrow> Bridge list \<Rightarrow> Claim list \<Rightarrow> CertificateInfo \<Rightarrow> u64 \<Rightarrow> error + Certificate"
where
  "buildCertificate a bridges claims lastSent toBlock =
     (if bridges = [] \<and> claims = [] then Inl (ErrMsg ''no bridges and claims to build certificate'')
      else case getImportedBridgeExits a claims of
             Inl e \<Rightarrow> Inl e
           | Inr importedBridgeExits \<Rightarrow>
               let depositCount = (if bridges = [] then 0 else br_DepositCount (last bridges)) in
               (case l2_GetExitRootByIndex a depositCount of
                  Inl e \<Rightarrow> Inl e
                | Inr exitRoot \<Rightarrow>
                    (case getNextHeightAndPreviousLER lastSent of
                       (height, previousLER) \<Rightarrow>
                         Inr \<lparr>ce_NetworkID = l2_OriginNetwork a, ce_Height = height,
                              ce_PrevLocalExitRoot = previousLER, ce_NewLocalExitRoot = r_Hash exitRoot,
                              ce_BridgeExits = getBridgeExits bridges,
                              ce_ImportedBridgeExits = importedBridgeExits,
                              ce_Metadata = createCertificateMetadata toBlock\<rparr>)))"

definition extractSignatureData :: "bytes \<Rightarrow> error + hash \<times> hash \<times> bool" where
  "extractSignatureData signature =
     (if length signature \<noteq> 65 then Inl (ErrMsg ''invalid signature size'')
      else Inr (of_nat (be_value (take 32 signature)), of_nat (be_value (take 32 (drop 32 signature))),
                signature ! 64 mod 2 = 1))"

definition signCertificate :: "keccak \<Rightarrow> AggSender \<Rightarrow> Certificate \<Rightarrow> error + SignedCertificate" where
  "signCertificate K a certificate =
     (case crypto_Sign a (HashToSign K certificate) of
        Inl e \<Rightarrow> Inl e
      | Inr sig \<Rightarrow>
          (case extractSignatureData sig of
             Inl e \<Rightarrow> Inl e
           | Inr (r, s, isOddParity) \<Rightarrow>
               Inr \<lparr>sc_Certificate = certificate,
                    sc_Signature = Some \<lparr>sg_R = r, sg_S = s, sg_OddParity = isOddParity\<rparr>\<rparr>))"

definition shouldSendCertificate :: "io \<Rightarrow> CertificateInfo list \<Rightarrow> error + bool" where
  "shouldSendCertificate io rows =
     map_sum id (\<lambda>pending. pending = []) (GetCertificatesByStatus io nonSettledStatuses rows)"

text \<open>The blocks the next certificate covers, or \<open>None\<close> when there is no new one.\<close>

definition next_range :: "CertificateInfo \<Rightarrow> u64 \<Rightarrow> (u64 \<times> u64) option" where
  "next_range lastSent lastL2BlockSynced =
     (let previousToBlock = (if ci_Status lastSent = CertInError then ci_FromBlock lastSent - 1 else ci_ToBlock lastSent)
      in if previousToBlock \<ge> lastL2BlockSynced then None else Some (previousToBlock + 1, lastL2BlockSynced))"

definition send_built ::
  "io \<Rightarrow> AggSender \<Rightarrow> SignedCertificate \<Rightarrow> u64 \<Rightarrow> u64 \<Rightarrow> CertificateInfo list \<Rightarrow>
   CertificateInfo list \<times> (error + SignedCertificate option)"
where
  "send_built io a signedCertificate fromBlock toBlock rows =
     (case agg_SendCertificate a signedCertificate of
        Inl e \<Rightarrow> (rows, Inl e)
      | Inr certificateHash \<Rightarrow>
          (case json_Marshal a signedCertificate of
             Inl e \<Rightarrow> (rows, Inl e)
           | Inr raw \<Rightarrow>
               (case SaveLastSentCertificate io
                       \<lparr>ci_Height = ce_Height (sc_Certificate signedCertificate), ci_CertificateID = certificateHash,
                        ci_NewLocalExitRoot = ce_NewLocalExitRoot (sc_Certificate signedCertificate),
                        ci_FromBlock = fromBlock, ci_ToBlock = toBlock, ci_Status = CertPending,
                        ci_CreatedAt = time_Now a, ci_UpdatedAt = time_Now a, ci_SignedCertificate = raw\<rparr> rows of
                  (rows1, Some e) \<Rightarrow> (rows1, Inl e)
                | (rows1, None) \<Rightarrow> (rows1, Inr (Some signedCertificate)))))"

definition sendCertificate ::
  "keccak \<Rightarrow> io \<Rightarrow> AggSender \<Rightarrow> CertificateInfo list \<Rightarrow> CertificateInfo list \<times> (error + SignedCertificate option)"
where
  "sendCertificate K io a rows =
     (case shouldSendCertificate io rows of
        Inl e \<Rightarrow> (rows, Inl e)
      | Inr shouldSend \<Rightarrow>
          if \<not> shouldSend then (rows, Inr None)
          else case l2_GetLastProcessedBlock a of
            Inl e \<Rightarrow> (rows, Inl e)
          | Inr lasL2BlockSynced \<Rightarrow>
              (case GetLastSentCertificate io rows of
                 Inl e \<Rightarrow> (rows, Inl e)
               | Inr lastSentCertificateInfo \<Rightarrow>
                   (case next_range lastSentCertificateInfo lasL2BlockSynced of
                      None \<Rightarrow> (rows, Inr None)
                    | Some (fromBlock, toBlock) \<Rightarrow>
                        (case l2_GetBridgesPublished a fromBlock toBlock of
                           Inl e \<Rightarrow> (rows, Inl e)
                         | Inr bridges \<Rightarrow>
                             if bridges = [] then (rows, Inr None)
                             else case l2_GetClaims a fromBlock toBlock of
                               Inl e \<Rightarrow> (rows, Inl e)
                             | Inr claims \<Rightarrow>
                                 (case buildCertificate a bridges claims lastSentCertificateInfo toBlock of
                                    Inl e \<Rightarrow> (rows, Inl e)
                                  | Inr certificate \<Rightarrow>
                                      (case signCertificate K a certificate of
                                         Inl e \<Rightarrow> (rows, Inl e)
                                       | Inr signedCertificate \<Rightarrow>
                                           send_built io a signedCertificate fromBlock toBlock rows))))))"

fun check_pending ::
  "io \<Rightarrow> AggSender \<Rightarrow> CertificateInfo list \<Rightarrow> CertificateInfo list \<Rightarrow> bool \<Rightarrow> CertificateInfo list \<times> bool"
where
  "check_pending io a [] rows thereArePendingCerts = (rows, thereArePendingCerts)"
| "check_pending io a (certificate # pending) rows thereArePendingCerts =
     (case agg_GetCertificateHeader a (ci_CertificateID certificate) of
        Inl e \<Rightarrow> (rows, True)
      | Inr header \<Rightarrow>
          (case (if ch_Status header \<noteq> ci_Status certificate
                 then UpdateCertificateStatus io
                        (certificate\<lparr>ci_Status := ch_Status header, ci_UpdatedAt := time_Now a\<rparr>) rows
                 else (rows, None)) of
             (rows1, Some e) \<Rightarrow> (rows1, True)
           | (rows1, None) \<Rightarrow>
               check_pending io a pending rows1
                 (thereArePendingCerts \<or> ch_Status header \<in> set nonSettledStatuses)))"

definition checkPendingCertificatesStatus ::
  "io \<Rightarrow> AggSender \<Rightarrow> CertificateInfo list \<Rightarrow> CertificateInfo list \<times> bool"
where
  "checkPendingCertificatesStatus io a rows =
     (case GetCertificatesByStatus io nonSettledStatuses rows of
        Inl e \<Rightarrow> (rows, True)
      | Inr pendingCertificates \<Rightarrow> check_pending io a pendingCertificates rows False)"

text \<open>One epoch of \<open>sendCertificates\<close>; every epoch sees its own collaborators.\<close>

definition epoch_ended :: "keccak \<Rightarrow> io \<Rightarrow> AggSender \<Rightarrow> CertificateInfo list \<Rightarrow> CertificateInfo list" where
  "epoch_ended K io a rows =
     (case checkPendingCertificatesStatus io a rows of
        (rows1, thereArePendingCerts) \<Rightarrow>
          if thereArePendingCerts then rows1 else fst (sendCertificate K io a rows1))"

definition sendCertificates :: "keccak \<Rightarrow> (io \<times> AggSender) list \<Rightarrow> CertificateInfo list \<Rightarrow> CertificateInfo list" where
  "sendCertificates K epochs rows = foldl (\<lambda>rows (io, a). epoch_ended K io a rows) rows epochs"

section \<open>The chain of certificates\<close>

text \<open>
  What the storage holds after any number of epochs: certificates with heights 0, 1, 2, \<dots>, whose
  block ranges follow each other from block 1 on, all but the last one settled.
\<close>

definition follows :: "CertificateInfo list \<Rightarrow> CertificateInfo \<Rightarrow> bool" where
  "follows rows c \<longleftrightarrow>
     (\<forall>r\<in>set rows. ci_Status r = CertSettled) \<and>
     ci_Height c = of_nat (length rows) \<and> length rows + 1 < 2 ^ 64 \<and>
     ci_FromBlock c = (if rows = [] then 1 else ci_ToBlock (last rows) + 1) \<and>
     (rows \<noteq> [] \<longrightarrow> ci_ToBlock (last rows) < ci_FromBlock c) \<and> ci_FromBlock c \<le> ci_ToBlock c \<and>
     ci_CertificateID c \<noteq> 0 \<and> ci_CertificateID c \<notin> ci_CertificateID ` set rows \<and> ci_NewLocalExitRoot c \<noteq> 0"

inductive cert_chain :: "CertificateInfo list \<Rightarrow> bool" where
  Nil: "cert_chain []"
| Snoc: "cert_chain rows \<Longrightarrow> follows rows c \<Longrightarrow> cert_chain (rows @ [c])"

inductive_cases cert_chain_snocE: "cert_chain (rows @ [c])"

lemma cert_chain_snoc [simp]: "cert_chain (rows @ [c]) \<longleftrightarrow> cert_chain rows \<and> follows rows c"
  by (auto intro: cert_chain.Snoc elim: cert_chain_snocE)

text \<open>Epochs where the collaborators answer as they do in the node: hashes are not zero.\<close>

definition sender_ok :: "AggSender \<Rightarrow> bool" where
  "sender_ok a \<longleftrightarrow> (\<forall>sc h. agg_SendCertificate a sc = Inr h \<longrightarrow> h \<noteq> 0) \<and>
     (\<forall>i r. l2_GetExitRootByIndex a i = Inr r \<longrightarrow> r_Hash r \<noteq> 0)"

lemma unat_of_nat_u64: "n < 2 ^ 64 \<Longrightarrow> unat (of_nat n :: u64) = n"
  by (simp add: unsigned_of_nat take_bit_eq_mod)

lemma cert_chain_heights:
  "cert_chain rows \<Longrightarrow> map ci_Height rows = map of_nat [0..<length rows] \<and> length rows < 2 ^ 64 \<and>
   (\<forall>r\<in>set rows. ci_CertificateID r \<noteq> 0)"
  by (induction rule: cert_chain.induct) (auto simp: follows_def)

lemma cert_chain_height_less:
  assumes "cert_chain rows" and "r \<in> set rows"
  shows "unat (ci_Height r) < length rows"
proof -
  obtain i where i: "i < length rows" "r = rows ! i" using assms(2) by (metis in_set_conv_nth)
  have h: "map ci_Height rows = map of_nat [0..<length rows]" "length rows < 2 ^ 64"
    using cert_chain_heights [OF assms(1)] by simp_all
  have "ci_Height (rows ! i) = of_nat i"
    using i(1) h(1) by (metis add.left_neutral diff_zero length_map nth_map nth_upt)
  with i h(2) show ?thesis by (simp add: unat_of_nat_u64)
qed

lemma first_desc_chain:
  assumes "cert_chain (rows @ [c])"
  shows "first_desc ci_Height (rows @ [c]) = Some c"
proof (rule first_desc_append_greatest)
  fix y
  assume "y \<in> set rows"
  then have "unat (ci_Height y) < length rows" using assms cert_chain_height_less by auto
  moreover have "unat (ci_Height c) = length rows" using assms by (simp add: follows_def unat_of_nat_u64)
  ultimately show "ci_Height y < ci_Height c" by (simp add: word_less_nat_alt)
qed

lemma find_height_chain:
  assumes "cert_chain rows"
  shows "length rows < 2 ^ 64 \<Longrightarrow> find (\<lambda>x. ci_Height x = of_nat (length rows)) rows = None"
    and "follows rows c \<Longrightarrow> find (\<lambda>x. ci_Height x = ci_Height c) (rows @ [c]) = Some c"
proof -
  have less: "ci_Height x \<noteq> of_nat (length rows)" if "x \<in> set rows" "length rows < 2 ^ 64" for x
    using cert_chain_height_less [OF assms that(1)] that(2) by (auto simp: unat_of_nat_u64)
  then show n: "length rows < 2 ^ 64 \<Longrightarrow> find (\<lambda>x. ci_Height x = of_nat (length rows)) rows = None"
    by (auto simp: find_None_iff)
  assume f: "follows rows c"
  then have "ci_Height x \<noteq> ci_Height c" if "x \<in> set rows" for x
    using less [OF that] by (simp add: follows_def)
  then show "find (\<lambda>x. ci_Height x = ci_Height c) (rows @ [c]) = Some c"
    by (induction rows) auto
qed

text \<open>Saving a certificate that follows the settled ones, and saving one in place of the last.\<close>

lemma Save_append:
  assumes "cert_chain rows" and "ci_Height c = of_nat (length rows)"
    and "SaveLastSentCertificate io c rows = (rows', r)" and "length rows + 1 < 2 ^ 64"
  shows "rows' = rows \<or> rows' = rows @ [c] \<and> ci_CertificateID c \<notin> ci_CertificateID ` set rows"
proof -
  have "find (\<lambda>x. ci_Height x = ci_Height c) rows = None"
    using find_height_chain(1) [OF assms(1)] assms(2,4) by simp
  then have g: "getCertificateByHeight io (ci_Height c) rows = Inr zero_info \<or>
      (\<exists>e. getCertificateByHeight io (ci_Height c) rows = Inl e)"
    by (auto simp: getCertificateByHeight_def select_certificate_def getSelectQueryError_def)
  have "ci_CertificateID zero_info = 0" by (simp add: zero_info_def)
  with g assms(3) show ?thesis
    by (auto simp: SaveLastSentCertificate_def pk_insert_Inr split: if_splits sum.splits)
qed

lemma Save_replace:
  assumes "cert_chain (rows @ [old])" and "ci_Height c = ci_Height old"
    and "SaveLastSentCertificate io c (rows @ [old]) = (rows', r)"
  shows "rows' = rows @ [old] \<or> rows' = rows @ [c] \<and> ci_CertificateID c \<notin> ci_CertificateID ` set rows"
proof -
  have f: "find (\<lambda>x. ci_Height x = ci_Height c) (rows @ [old]) = Some old"
    using find_height_chain(2) assms(1,2) by simp
  have id: "ci_CertificateID old \<noteq> 0" "ci_CertificateID old \<notin> ci_CertificateID ` set rows"
    using assms(1) by (simp_all add: follows_def)
  have "filter (\<lambda>x. ci_CertificateID x \<noteq> ci_CertificateID old) rows = rows"
    using id(2) by (metis (mono_tags, lifting) filter_True imageI)
  with f id(1) assms(3) show ?thesis
    by (auto simp: SaveLastSentCertificate_def getCertificateByHeight_def select_certificate_def
        deleteCertificate_def getSelectQueryError_def ErrNoRows_def pk_insert_Inr split: if_splits sum.splits)
qed

lemma no_pending:
  assumes "shouldSendCertificate io rows = Inr True" and "r \<in> set rows"
  shows "ci_Status r = CertSettled \<or> ci_Status r = CertInError"
proof -
  have "filter (\<lambda>c. ci_Status c \<in> set nonSettledStatuses) rows = []"
    using assms(1) arg_cong [where f = length]
    by (fastforce simp: shouldSendCertificate_def GetCertificatesByStatus_def nonSettledStatuses_def split: if_splits)
  with assms(2) have "ci_Status r \<notin> set nonSettledStatuses" by (auto simp: filter_empty_conv)
  then show ?thesis by (cases "ci_Status r") (simp_all add: nonSettledStatuses_def)
qed

text \<open>What a call that reaches the agglayer has read and built.\<close>

lemma sendCertificate_cases:
  assumes "sendCertificate K io a rows = (rows', r)"
  obtains (unchanged) "rows' = rows" and "\<nexists>sc. r = Inr (Some sc)"
    | (sent) lastSent lpb fromBlock toBlock bridges claims certificate sc where
        "shouldSendCertificate io rows = Inr True" and "GetLastSentCertificate io rows = Inr lastSent"
        and "next_range lastSent lpb = Some (fromBlock, toBlock)" and "l2_GetLastProcessedBlock a = Inr lpb"
        and "l2_GetBridgesPublished a fromBlock toBlock = Inr bridges" and "bridges \<noteq> []"
        and "l2_GetClaims a fromBlock toBlock = Inr claims"
        and "buildCertificate a bridges claims lastSent toBlock = Inr certificate"
        and "signCertificate K a certificate = Inr sc"
        and "send_built io a sc fromBlock toBlock rows = (rows', r)"
  using assms
  by (auto simp: sendCertificate_def split: sum.splits if_splits option.splits prod.splits)

lemma buildCertificate_parts:
  assumes "buildCertificate a bridges claims lastSent toBlock = Inr c" and "bridges \<noteq> []"
  shows "(ce_Height c, ce_PrevLocalExitRoot c) = getNextHeightAndPreviousLER lastSent"
    and "\<exists>root. l2_GetExitRootByIndex a (br_DepositCount (last bridges)) = Inr root \<and> ce_NewLocalExitRoot c = r_Hash root"
    and "ce_BridgeExits c = getBridgeExits bridges"
    and "getImportedBridgeExits a claims = Inr (ce_ImportedBridgeExits c)"
    and "ce_Metadata c = createCertificateMetadata toBlock" and "ce_NetworkID c = l2_OriginNetwork a"
  using assms by (auto simp: buildCertificate_def Let_def split: sum.splits prod.splits)

lemma signCertificate_parts: "signCertificate K a c = Inr sc \<Longrightarrow> sc_Certificate sc = c"
  by (auto simp: signCertificate_def split: sum.splits)

lemma last_sent_chain:
  assumes "cert_chain rows" and "GetLastSentCertificate io rows = Inr l"
  shows "l = (if rows = [] then zero_info else last rows)"
proof (cases rows rule: rev_cases)
  case Nil
  with assms(2) show ?thesis
    by (auto simp: GetLastSentCertificate_def select_certificate_def getSelectQueryError_def split: if_splits)
next
  case (snoc ys y)
  with assms first_desc_chain [of ys y] show ?thesis
    by (auto simp: GetLastSentCertificate_def select_certificate_def getSelectQueryError_def ErrNoRows_def split: if_splits)
qed

lemma send_built_cases:
  assumes "send_built io a sc fromBlock toBlock rows = (rows', r)"
  obtains (failed) "rows' = rows"
    | (saved) h c e where "agg_SendCertificate a sc = Inr h" and "SaveLastSentCertificate io c rows = (rows', e)"
        and "ci_Height c = ce_Height (sc_Certificate sc)" and "ci_CertificateID c = h"
        and "ci_NewLocalExitRoot c = ce_NewLocalExitRoot (sc_Certificate sc)"
        and "ci_FromBlock c = fromBlock" and "ci_ToBlock c = toBlock"
proof (cases "agg_SendCertificate a sc")
  case (Inl e)
  with assms have "rows' = rows" by (simp add: send_built_def)
  then show ?thesis by (rule failed)
next
  case (Inr h)
  show ?thesis
  proof (cases "json_Marshal a sc")
    case (Inl e)
    with Inr assms have "rows' = rows" by (simp add: send_built_def)
    then show ?thesis by (rule failed)
  next
    case raw: (Inr raw)
    let ?c = "\<lparr>ci_Height = ce_Height (sc_Certificate sc), ci_CertificateID = h,
      ci_NewLocalExitRoot = ce_NewLocalExitRoot (sc_Certificate sc), ci_FromBlock = fromBlock, ci_ToBlock = toBlock,
      ci_Status = CertPending, ci_CreatedAt = time_Now a, ci_UpdatedAt = time_Now a, ci_SignedCertificate = raw\<rparr>"
    obtain rows1 e where sv: "SaveLastSentCertificate io ?c rows = (rows1, e)" by (metis surj_pair)
    with Inr raw assms have "rows' = rows1" by (cases e) (simp_all add: send_built_def)
    with saved [OF Inr, of ?c e] sv show ?thesis by simp
  qed
qed

lemma less_succ: "x < y \<Longrightarrow> x < x + 1" for x y :: u64
proof -
  assume "x < y"
  then have "x \<noteq> - 1" by (metis not_le word_order.extremum)
  then have "1 + x \<noteq> 0" by (metis add_eq_0_iff)
  then have "unat (x + 1) = Suc (unat x)" by (metis add.commute unatSuc)
  then show ?thesis by (simp add: word_less_nat_alt)
qed

lemma sendCertificate_chain:
  assumes "cert_chain rows" and "sender_ok a" and "length rows + 1 < 2 ^ 64"
    and "sendCertificate K io a rows = (rows', r)"
  shows "cert_chain rows' \<and> length rows' \<le> length rows + 1"
  using assms(4)
proof (cases rule: sendCertificate_cases)
  case unchanged
  with assms(1) show ?thesis by simp
next
  case (sent lastSent lpb fromBlock toBlock bridges claims certificate sc)
  note last = last_sent_chain [OF assms(1) sent(2)]
  note parts = buildCertificate_parts [OF sent(8,6)]
  have sc: "sc_Certificate sc = certificate" by (rule signCertificate_parts [OF sent(9)])
  obtain root where root: "l2_GetExitRootByIndex a (br_DepositCount (last bridges)) = Inr root"
    "ce_NewLocalExitRoot certificate = r_Hash root" using parts(2) by blast
  have ler: "ce_NewLocalExitRoot certificate \<noteq> 0" using assms(2) root by (auto simp: sender_ok_def)
  have save: "rows' = rows \<or> (\<exists>c e. SaveLastSentCertificate io c rows = (rows', e) \<and>
      ci_Height c = ce_Height certificate \<and> ci_FromBlock c = fromBlock \<and> ci_ToBlock c = toBlock \<and>
      ci_CertificateID c \<noteq> 0 \<and> ci_NewLocalExitRoot c \<noteq> 0)"
    using sent(10)
  proof (cases rule: send_built_cases)
    case (saved h c e)
    then have "h \<noteq> 0" using assms(2) by (auto simp: sender_ok_def)
    with saved ler sc show ?thesis by auto
  qed simp
  show ?thesis
  proof (cases "rows' = rows")
    case True
    with assms(1) show ?thesis by simp
  next
    case False
    with save obtain c e where c: "SaveLastSentCertificate io c rows = (rows', e)"
      "ci_Height c = ce_Height certificate" "ci_FromBlock c = fromBlock" "ci_ToBlock c = toBlock"
      "ci_CertificateID c \<noteq> 0" "ci_NewLocalExitRoot c \<noteq> 0" by blast
    note inc = less_succ
    have rng: "fromBlock = p + 1 \<and> p < toBlock"
      if "p = (if ci_Status lastSent = CertInError then ci_FromBlock lastSent - 1 else ci_ToBlock lastSent)" for p
      using sent(3) that by (auto simp: next_range_def Let_def split: if_splits)
    show ?thesis
    proof (cases rows rule: rev_cases)
      case Nil
      then have l: "lastSent = zero_info" using last by simp
      then have "fromBlock = 1" "0 < toBlock" and h: "ci_Height c = 0"
        using rng [of 0] parts(1) c(2) by (simp_all add: zero_info_def getNextHeightAndPreviousLER_def)
      moreover have "rows' = [c]" using Save_append [OF assms(1) _ c(1) assms(3)] Nil h False by simp
      moreover have "follows [] c"
        using calculation c by (simp add: follows_def inc_le) (metis add_0 inc_le)
      ultimately show ?thesis using Nil cert_chain.Snoc [OF cert_chain.Nil, of c] by simp
    next
      case (snoc ys y)
      then have l: "lastSent = y" using last by simp
      have chain: "cert_chain ys" "follows ys y" using assms(1) snoc by simp_all
      then have y: "ci_NewLocalExitRoot y \<noteq> 0" "ci_Height y = of_nat (length ys)" by (simp_all add: follows_def)
      show ?thesis
      proof (cases "ci_Status y = CertInError")
        case True
        then have h: "ci_Height c = ci_Height y" using parts(1) c(2) y l by (simp add: getNextHeightAndPreviousLER_def)
        have fb: "fromBlock = ci_FromBlock y" "ci_FromBlock y - 1 < toBlock" using rng l True by simp_all
        have "rows' = ys @ [c] \<and> ci_CertificateID c \<notin> ci_CertificateID ` set ys"
          using Save_replace [of ys y c io rows' e] assms(1) c(1) h False snoc by simp
        moreover have "ci_FromBlock y \<le> toBlock" using fb(2) by (metis diff_add_cancel inc_le)
        moreover have "follows ys c"
          using chain(2) h fb c calculation unfolding follows_def by metis
        ultimately show ?thesis using chain snoc by simp
      next
        case ne: False
        have settled: "\<forall>r\<in>set rows. ci_Status r = CertSettled"
          using no_pending [OF sent(1)] ne chain(2) snoc by (auto simp: follows_def)
        have h: "ci_Height c = of_nat (length rows)"
          using parts(1) c(2) y l ne snoc by (simp add: getNextHeightAndPreviousLER_def add.commute)
        have fb: "fromBlock = ci_ToBlock y + 1" "ci_ToBlock y < toBlock" using rng l ne by simp_all
        have "rows' = rows @ [c] \<and> ci_CertificateID c \<notin> ci_CertificateID ` set rows"
          using Save_append [OF assms(1) h c(1) assms(3)] False by blast
        moreover have "ci_ToBlock y < fromBlock" "fromBlock \<le> toBlock" using fb inc by (simp_all add: inc_le)
        moreover have "follows rows c"
          using assms(3) settled h c fb(1) calculation snoc by (simp add: follows_def)
        ultimately show ?thesis using cert_chain.Snoc [OF assms(1)] by simp
      qed
    qed
  qed
qed

text \<open>A status update only changes the last certificate, since it is the only one not settled.\<close>

lemma pending_chain:
  assumes "cert_chain (ys @ [y])" and "GetCertificatesByStatus io nonSettledStatuses (ys @ [y]) = Inr cs"
  shows "cs = (if ci_Status y \<in> set nonSettledStatuses then [y] else [])"
proof -
  have "filter (\<lambda>c. ci_Status c \<in> set nonSettledStatuses) ys = []"
    using assms(1) by (auto simp: follows_def filter_empty_conv nonSettledStatuses_def)
  moreover have "nonSettledStatuses \<noteq> []" by (simp add: nonSettledStatuses_def)
  ultimately show ?thesis
    using assms(2) by (auto simp: GetCertificatesByStatus_def split: if_splits)
qed

lemma set_status_last:
  assumes "cert_chain (ys @ [y])"
  shows "set_status (ci_CertificateID y) st (ys @ [y]) = ys @ [y\<lparr>ci_Status := st\<rparr>]"
    and "cert_chain (ys @ [y\<lparr>ci_Status := st\<rparr>])"
proof -
  have "ci_CertificateID y \<notin> ci_CertificateID ` set ys" using assms by (simp add: follows_def)
  then have "map (\<lambda>c. if ci_CertificateID c = ci_CertificateID y then c\<lparr>ci_Status := st\<rparr> else c) ys = ys"
    by (intro map_idI) (metis imageI)
  then show "set_status (ci_CertificateID y) st (ys @ [y]) = ys @ [y\<lparr>ci_Status := st\<rparr>]"
    by (simp add: set_status_def)
  have "follows ys (y\<lparr>ci_Status := st\<rparr>) = follows ys y" by (simp add: follows_def)
  then show "cert_chain (ys @ [y\<lparr>ci_Status := st\<rparr>])" using assms by simp
qed

lemma checkPending_chain:
  assumes "cert_chain rows" and "checkPendingCertificatesStatus io a rows = (rows1, p)"
  shows "cert_chain rows1 \<and> length rows1 = length rows"
proof (cases rows rule: rev_cases)
  case Nil
  with assms show ?thesis
    by (auto simp: checkPendingCertificatesStatus_def GetCertificatesByStatus_def split: if_splits sum.splits)
next
  case (snoc ys y)
  show ?thesis
  proof (cases "GetCertificatesByStatus io nonSettledStatuses rows")
    case (Inl e)
    with assms show ?thesis by (simp add: checkPendingCertificatesStatus_def)
  next
    case (Inr cs)
    note st = set_status_last [OF assms(1) [unfolded snoc]]
    have "cs = (if ci_Status y \<in> set nonSettledStatuses then [y] else [])"
      using pending_chain assms(1) Inr snoc by blast
    with assms Inr snoc st show ?thesis
      by (auto simp: checkPendingCertificatesStatus_def UpdateCertificateStatus_def
          split: if_splits sum.splits prod.splits option.splits)
  qed
qed

lemma epoch_ended_chain:
  assumes "cert_chain rows" and "sender_ok a" and "length rows + 1 < 2 ^ 64"
  shows "cert_chain (epoch_ended K io a rows) \<and> length (epoch_ended K io a rows) \<le> length rows + 1"
proof -
  obtain rows1 p where cp: "checkPendingCertificatesStatus io a rows = (rows1, p)" by (metis surj_pair)
  obtain rows2 r where sc: "sendCertificate K io a rows1 = (rows2, r)" by (metis surj_pair)
  from checkPending_chain [OF assms(1) cp] sendCertificate_chain [OF _ assms(2) _ sc] assms(3) cp sc
  show ?thesis by (auto simp: epoch_ended_def)
qed

lemma sendCertificates_chain:
  "cert_chain rows \<Longrightarrow> \<forall>(io, a)\<in>set epochs. sender_ok a \<Longrightarrow> length rows + length epochs < 2 ^ 64 \<Longrightarrow>
   cert_chain (sendCertificates K epochs rows)"
proof (induction epochs arbitrary: rows)
  case Nil
  then show ?case by (simp add: sendCertificates_def)
next
  case (Cons x epochs)
  obtain io a where x: "x = (io, a)" by fastforce
  have "cert_chain (epoch_ended K io a rows) \<and> length (epoch_ended K io a rows) \<le> length rows + 1"
    using Cons.prems x by (intro epoch_ended_chain) auto
  with Cons.IH [of "epoch_ended K io a rows"] Cons.prems x show ?case by (simp add: sendCertificates_def)
qed

end
