(* ===== verification/Certificates.thy ===== *)
theory Certificates
  imports AggSender
begin

text \<open>
  The certificate sender on the node's own syncers: what the certificates it sends contain when
  the L2 bridge syncer and the L1 info tree syncer of the node answer its queries.
\<close>

section \<open>The sender on the node's own syncers\<close>

definition node_sender :: "io \<Rightarrow> bridge_processor \<Rightarrow> l1_processor \<Rightarrow> AggSender \<Rightarrow> AggSender" where
  "node_sender io bp lp a =
     a\<lparr>l2_GetLastProcessedBlock := bridge_GetLastProcessedBlock io bp,
       l2_GetBridgesPublished := GetBridgesPublished io bp, l2_GetClaims := GetClaims io bp,
       l2_GetExitRootByIndex := GetExitRootByIndex io bp,
       l1_GetInfoByGlobalExitRoot := s_GetInfoByGlobalExitRoot io lp,
       l1_GetL1InfoTreeRootByIndex := GetL1InfoTreeRootByIndex io lp,
       l1_GetProof := GetL1InfoTreeMerkleProofFromIndexToRoot io lp\<rparr>"

definition claim_leaf :: "ag_Claim \<Rightarrow> ag_L1InfoTreeLeaf" where
  "claim_leaf c = (case c of FromMainnet m \<Rightarrow> cm_L1Leaf m | FromRollup r \<Rightarrow> cr_L1Leaf r)"

definition claim_ger_proof :: "ag_Claim \<Rightarrow> MerkleProof" where
  "claim_ger_proof c = (case c of FromMainnet m \<Rightarrow> cm_ProofGERToL1Root m | FromRollup r \<Rightarrow> cr_ProofGERToL1Root r)"

lemma claim_data_parts [simp]:
  "claim_leaf (claim_data claim info root p f) = claim_l1_leaf claim info"
  "claim_ger_proof (claim_data claim info root p f) = \<lparr>mp_Root = root, mp_Proof = p\<rparr>"
  by (simp_all add: claim_leaf_def claim_ger_proof_def claim_data_def Let_def)

lemma claim_infos_ok:
  "claim_infos a claims g = Inr (infos, g') \<Longrightarrow>
   length infos = length claims \<and> g \<le> g' \<and> (g' = g \<or> g' \<in> lf_L1InfoTreeIndex ` set infos) \<and>
   (\<forall>info\<in>set infos. lf_L1InfoTreeIndex info \<le> g' \<and> (\<exists>ger. l1_GetInfoByGlobalExitRoot a ger = Inr info)) \<and>
   list_all2 (\<lambda>claim info. l1_GetInfoByGlobalExitRoot a (cl_GlobalExitRoot claim) = Inr info) claims infos"
proof (induction claims arbitrary: g infos)
  case (Cons claim claims)
  then obtain info infos' where info: "l1_GetInfoByGlobalExitRoot a (cl_GlobalExitRoot claim) = Inr info"
    and rest: "claim_infos a claims (if lf_L1InfoTreeIndex info > g then lf_L1InfoTreeIndex info else g) = Inr (infos', g')"
    and infos: "infos = info # infos'"
    by (auto simp: map_sum_Inr_conv split: sum.splits)
  from Cons.IH [OF rest] info infos show ?case by (auto split: if_splits)
qed simp

lemma imported_exits_ok:
  "imported_exits a root pairs = Inr ibes \<Longrightarrow>
   list_all2 (\<lambda>(claim, info) ibe. \<exists>p f. l1_GetProof a (lf_L1InfoTreeIndex info) root = Inr p \<and>
     ib_ClaimData ibe = Some (claim_data claim info root p f)) pairs ibes"
  by (induction pairs arbitrary: ibes) (auto simp: map_sum_Inr_conv split: sum.splits prod.splits, blast)

lemma l1_leaf_at:
  assumes "l1_proc_inv K lp" and "s_GetInfoByGlobalExitRoot io lp ger = Inr info"
  obtains i where "i < length (leaf_rows (lp_db lp))" and "info = leaf_rows (lp_db lp) ! i"
    and "lf_L1InfoTreeIndex info = of_nat i" and "lf_GlobalExitRoot info = ger"
proof -
  let ?rows = "leaf_rows (lp_db lp)"
  have "find (\<lambda>l. lf_GlobalExitRoot l = ger) ?rows = Some info"
    using assms(2) by (auto simp: s_GetInfoByGlobalExitRoot_def unless_halted_def GetInfoByGlobalExitRoot_def query_row_def
        split: if_splits option.splits)
  then obtain i where i: "i < length ?rows" "info = ?rows ! i" "lf_GlobalExitRoot info = ger" by (auto simp: find_Some_iff)
  have "map lf_L1InfoTreeIndex ?rows = map of_nat [0..<length ?rows]"
    using assms(1) by (simp add: l1_proc_inv_def l1_db_inv_def)
  then have "lf_L1InfoTreeIndex (?rows ! i) = of_nat i"
    using i(1) by (metis add.left_neutral diff_zero length_map length_upt nth_map nth_upt)
  with i that show ?thesis by simp
qed

text \<open>The root a certificate proves to is the root after some stored leaf at least as late as all its claims.\<close>

lemma imported_root:
  assumes "l1_proc_inv K lp" and "claims \<noteq> []" and "claim_infos (node_sender io bp lp a) claims 0 = Inr (infos, g)"
  obtains k where "k < length (leaf_rows (lp_db lp))" and "g = of_nat k"
    and "\<forall>info\<in>set infos. \<exists>i\<le>k. info = leaf_rows (lp_db lp) ! i \<and> lf_L1InfoTreeIndex info = of_nat i"
proof -
  let ?rows = "leaf_rows (lp_db lp)"
  note ci = claim_infos_ok [OF assms(3)]
  have len: "length ?rows \<le> 2 ^ 32"
    using assms(1) by (simp add: l1_proc_inv_def l1_db_inv_def append_inv_def DefaultHeight_def)
  have at: "\<exists>i<length ?rows. info = ?rows ! i \<and> lf_L1InfoTreeIndex info = of_nat i" if "info \<in> set infos" for info
  proof -
    have "\<exists>ger. l1_GetInfoByGlobalExitRoot (node_sender io bp lp a) ger = Inr info" using ci that by blast
    then obtain ger where "s_GetInfoByGlobalExitRoot io lp ger = Inr info" by (auto simp: node_sender_def)
    from l1_leaf_at [OF assms(1) this] show ?thesis by metis
  qed
  have "length infos = length claims" using ci by blast
  then obtain info0 where "info0 \<in> set infos" using assms(2) by (cases infos) auto
  then have rows: "0 < length ?rows" using at by (metis gr_implies_not0 neq0_conv)
  have "\<exists>k<length ?rows. g = of_nat k"
  proof (cases "g = 0")
    case True
    with rows show ?thesis by (intro exI [of _ 0]) simp
  next
    case False
    then obtain info where "info \<in> set infos" "g = lf_L1InfoTreeIndex info" using ci by blast
    with at show ?thesis by metis
  qed
  then obtain k where k: "k < length ?rows" "g = of_nat k" by blast
  have "\<exists>i\<le>k. info = ?rows ! i \<and> lf_L1InfoTreeIndex info = of_nat i" if mem: "info \<in> set infos" for info
  proof -
    obtain i where i: "i < length ?rows" "info = ?rows ! i" "lf_L1InfoTreeIndex info = of_nat i"
      using at [OF mem] by blast
    have "lf_L1InfoTreeIndex info \<le> g" using ci mem by blast
    then have "(of_nat i :: u32) \<le> of_nat k" using i(3) k(2) by simp
    then have "i \<le> k"
      using i(1) k(1) len by (simp add: word_le_nat_alt unsigned_of_nat take_bit_eq_mod)
    with i show ?thesis by blast
  qed
  with k that show ?thesis by blast
qed

text \<open>Block numbers of the stored bridges never decrease, so a block range ends at a prefix of the deposits.\<close>

lemma sorted_fst_lex:
  fixes xs :: "(u64 \<times> u64) list"
  shows "sorted_wrt (<) xs \<Longrightarrow> sorted_wrt (\<le>) (map fst xs)"
  unfolding sorted_wrt_map by (erule sorted_wrt_mono_rel [rotated]) (auto simp: less_prod_def')

lemma bridge_blocks_sorted:
  assumes "bridge_db_inv K db"
  shows "sorted_wrt (\<le>) (map br_BlockNum (bridge_rows db))"
proof -
  have "sorted_wrt (<) (map root_key (root_rows (exit_tree db)))"
    and eq: "map r_BlockNum (root_rows (exit_tree db)) = map br_BlockNum (bridge_rows db)"
    using assms by (simp_all add: bridge_db_inv_def append_inv_def)
  then have "sorted_wrt (\<le>) (map fst (map root_key (root_rows (exit_tree db))))" by (intro sorted_fst_lex)
  moreover have "map fst (map root_key (root_rows (exit_tree db))) = map r_BlockNum (root_rows (exit_tree db))"
    by (simp add: root_key_def)
  ultimately show ?thesis using eq by simp
qed

lemma filter_le_sorted:
  fixes f :: "'a \<Rightarrow> u64"
  assumes "sorted_wrt (\<le>) (map f xs)"
  shows "filter (\<lambda>x. f x \<le> b) xs = takeWhile (\<lambda>x. f x \<le> b) xs"
  using assms
proof (induction xs)
  case (Cons x xs)
  have "filter (\<lambda>y. f y \<le> b) xs = []" if "\<not> f x \<le> b"
    using that Cons.prems by (auto simp: filter_empty_conv)
  with Cons show ?case by auto
qed simp

lemma last_filter_range:
  fixes f :: "'a \<Rightarrow> u64"
  assumes "sorted_wrt (\<le>) (map f xs)" and "filter (\<lambda>x. a \<le> f x \<and> f x \<le> b) xs \<noteq> []"
  shows "last (filter (\<lambda>x. a \<le> f x \<and> f x \<le> b) xs) = last (filter (\<lambda>x. f x \<le> b) xs)"
  using assms
proof (induction xs rule: rev_induct)
  case (snoc x xs)
  have srt: "sorted_wrt (\<le>) (map f xs)" and le: "\<forall>y\<in>set xs. f y \<le> f x"
    using snoc.prems(1) by (auto simp: sorted_wrt_append)
  show ?case
  proof (cases "f x \<le> b")
    case True
    obtain y where "y \<in> set (xs @ [x])" "a \<le> f y"
      using snoc.prems(2) unfolding filter_empty_conv by blast
    then have "a \<le> f x" using le order_trans by auto
    with True show ?thesis by simp
  next
    case False
    with snoc.IH [OF srt] snoc.prems(2) show ?thesis by auto
  qed
qed simp

lemma GetBridgesPublished_rows:
  "GetBridgesPublished io bp f t = Inr bridges \<Longrightarrow>
   bridges = filter (\<lambda>b. f \<le> br_BlockNum b \<and> br_BlockNum b \<le> t) (bridge_rows (bp_db bp))"
  by (auto simp: GetBridgesPublished_def GetBridges_def queryBlockRange_def split: if_splits option.splits)

text \<open>The exit root read for the last bridge of a range is the root of all deposits up to its end.\<close>

lemma exit_root_of_range:
  assumes inv: "bridge_inv K bp" and io: "no_faults io"
    and br: "GetBridgesPublished io bp f t = Inr bridges" and ne: "bridges \<noteq> []"
    and root: "GetExitRootByIndex io bp (br_DepositCount (last bridges)) = Inr r"
  shows "r_Hash r = leaves_root K (map (bridge_leaf K) (filter (\<lambda>b. br_BlockNum b \<le> t) (bridge_rows (bp_db bp))))"
proof -
  let ?rows = "bridge_rows (bp_db bp)" and ?pre = "filter (\<lambda>b. br_BlockNum b \<le> t) (bridge_rows (bp_db bp))"
  have ai: "append_inv K (exit_tree (bp_db bp)) (map (bridge_leaf K) ?rows)" and tr: "tree_ok K (aot_Tree (bp_exitTree bp))"
    and db: "bridge_db_inv K (bp_db bp)" and cnt: "map (unat \<circ> br_DepositCount) ?rows = [0..<length ?rows]"
    using inv by (simp_all add: bridge_inv_def bridge_db_inv_def synced_def)
  note srt = bridge_blocks_sorted [OF db]
  have bs: "bridges = filter (\<lambda>b. f \<le> br_BlockNum b \<and> br_BlockNum b \<le> t) ?rows"
    by (rule GetBridgesPublished_rows [OF br])
  have lastb: "last bridges = last ?pre" using last_filter_range [OF srt, of f t] ne bs by simp
  have "set bridges \<subseteq> set ?pre" using bs by auto
  then have pne: "?pre \<noteq> []" using ne by (metis set_empty subset_empty)
  obtain i where i: "length ?pre = Suc i" using pne by (cases "length ?pre") auto
  have pre: "?pre = take (Suc i) ?rows"
    using filter_le_sorted [OF srt, of t] i by (metis takeWhile_eq_take)
  have lt: "i < length ?rows" using i length_filter_le [of "\<lambda>b. br_BlockNum b \<le> t" ?rows] by simp
  then have "last bridges = ?rows ! i" using lastb pre by (simp add: take_Suc_conv_app_nth)
  moreover have "unat (br_DepositCount (?rows ! i)) = i"
    using arg_cong [OF cnt, of "\<lambda>l. l ! i"] lt by simp
  ultimately have idx: "br_DepositCount (last bridges) = of_nat i" by (metis of_nat_unat ucast_id)
  have "r_Hash r = leaves_root K (take (Suc i) (map (bridge_leaf K) ?rows))"
    using append_proofs_ok [OF ai tr io order_refl, of i] lt root idx by (auto simp: GetExitRootByIndex_def)
  then show ?thesis using pre by (simp add: take_map)
qed

section \<open>Properties\<close>

lemma cert_chain_nth:
  assumes "cert_chain rows"
  shows "i < length rows \<Longrightarrow> ci_Height (rows ! i) = of_nat i \<and>
      ci_FromBlock (rows ! i) = (if i = 0 then 1 else ci_ToBlock (rows ! (i - 1)) + 1) \<and>
      ci_FromBlock (rows ! i) \<le> ci_ToBlock (rows ! i) \<and>
      (Suc i < length rows \<longrightarrow> ci_Status (rows ! i) = CertSettled)"
  using assms
proof (induction arbitrary: i rule: cert_chain.induct)
  case (Snoc rows c)
  show ?case
  proof (cases "i < length rows")
    case True
    then have "ci_Status (rows ! i) = CertSettled" using Snoc.hyps(2) by (simp add: follows_def)
    with Snoc.IH [OF True] True show ?thesis by (auto simp: nth_append)
  next
    case False
    then have "i = length rows" using Snoc.prems by simp
    with Snoc.hyps(2) show ?thesis by (auto simp: follows_def nth_append last_conv_nth)
  qed
qed simp

lemma cert_chain_distinct: "cert_chain rows \<Longrightarrow> distinct (map ci_CertificateID rows)"
  by (induction rule: cert_chain.induct) (auto simp: follows_def)

text \<open>C4. Over any number of epochs, whatever the collaborators answer as long as hashes are not zero, the
  certificates kept in the storage have heights 0, 1, 2, \<dots> without gap, cover the blocks from
  block 1 on in ranges that follow each other without gap or overlap, and all but the last one are
  settled: a certificate is sent only once the one before it is settled.\<close>

theorem certificates_chain:
  assumes "\<forall>(io, a)\<in>set epochs. sender_ok a" and "length epochs < 2 ^ 64"
    and "rows = sendCertificates K epochs []"
  shows "distinct (map ci_CertificateID rows) \<and>
    (\<forall>i<length rows. ci_Height (rows ! i) = of_nat i \<and>
      ci_FromBlock (rows ! i) = (if i = 0 then 1 else ci_ToBlock (rows ! (i - 1)) + 1) \<and>
      ci_FromBlock (rows ! i) \<le> ci_ToBlock (rows ! i) \<and>
      (Suc i < length rows \<longrightarrow> ci_Status (rows ! i) = CertSettled))"
proof -
  have "cert_chain rows" unfolding assms(3)
    using sendCertificates_chain [OF cert_chain.Nil assms(1)] assms(2) by simp
  with cert_chain_nth cert_chain_distinct show ?thesis by blast
qed

text \<open>An L2 with a bridge, an agglayer that accepts every certificate and reports the same status for all.\<close>

definition sample_root :: Root where
  "sample_root = \<lparr>r_Hash = 3, r_Index = 0, r_BlockNum = 1, r_BlockPosition = 0\<rparr>"

definition sample_sender :: "u64 \<Rightarrow> CertificateStatus \<Rightarrow> hash \<Rightarrow> AggSender" where
  "sample_sender lpb st i =
     \<lparr>l2_GetLastProcessedBlock = Inr lpb, l2_GetBridgesPublished = (\<lambda>_ _. Inr [sample_bridge]),
      l2_GetClaims = (\<lambda>_ _. Inr []), l2_GetExitRootByIndex = (\<lambda>_. Inr sample_root), l2_OriginNetwork = 1,
      l1_GetInfoByGlobalExitRoot = (\<lambda>_. Inl ErrNotFound), l1_GetL1InfoTreeRootByIndex = (\<lambda>_. Inl ErrNotFound),
      l1_GetProof = (\<lambda>_ _. Inl ErrNotFound), agg_SendCertificate = (\<lambda>_. Inr i),
      agg_GetCertificateHeader =
        (\<lambda>h. Inr \<lparr>ch_Height = 0, ch_CertificateID = h, ch_NewLocalExitRoot = 3, ch_Status = st\<rparr>),
      crypto_Sign = (\<lambda>_. Inr (replicate 65 0)), json_Marshal = (\<lambda>_. Inr []), time_Now = 0\<rparr>"

definition sample_info :: "hash \<Rightarrow> u64 \<Rightarrow> u64 \<Rightarrow> u64 \<Rightarrow> CertificateStatus \<Rightarrow> CertificateInfo" where
  "sample_info i h f t st = \<lparr>ci_Height = h, ci_CertificateID = i, ci_NewLocalExitRoot = 3, ci_FromBlock = f, ci_ToBlock = t,
     ci_Status = st, ci_CreatedAt = 0, ci_UpdatedAt = 0, ci_SignedCertificate = []\<rparr>"

lemmas sender_defs = sendCertificate_def shouldSendCertificate_def GetCertificatesByStatus_def sample_sender_def
  GetLastSentCertificate_def select_certificate_def getSelectQueryError_def next_range_def buildCertificate_def
  getImportedBridgeExits_def getNextHeightAndPreviousLER_def signCertificate_def extractSignatureData_def
  send_built_def SaveLastSentCertificate_def getCertificateByHeight_def pk_insert_def sample_root_def

lemma sample_sender_ok [simp]: "i \<noteq> 0 \<Longrightarrow> sender_ok (sample_sender lpb st i)"
  by (simp add: sender_ok_def sample_sender_def sample_root_def)

lemma sample_first:
  "sendCertificates K [(\<lambda>_. False, sample_sender 5 CertPending 1)] [] = [sample_info 1 0 1 5 CertPending]"
  by (simp add: sendCertificates_def epoch_ended_def checkPendingCertificatesStatus_def sender_defs zero_info_def
      sample_info_def)

theorem certificates_chain_witness:
  "distinct (map ci_CertificateID [sample_info 1 0 1 5 CertPending]) \<and>
   ci_FromBlock (sendCertificates sample_keccak [(\<lambda>_. False, sample_sender 5 CertPending 1)] [] ! 0) = 1"
  using certificates_chain [of "[(\<lambda>_. False, sample_sender 5 CertPending 1)]" _ sample_keccak]
  by (force simp: sample_first)

text \<open>A certificate sent in place of one that ended in error has the height and the first block of the failed
  one, but its previous local exit root is the new root of the failed certificate, not the root the
  failed one started from.\<close>

theorem resend_after_error:
  assumes "cert_chain (ys @ [y])" and "ci_Status y = CertInError"
    and "sendCertificate K io a (ys @ [y]) = (rows', Inr (Some sc))"
  shows "ce_Height (sc_Certificate sc) = ci_Height y \<and>
    ce_PrevLocalExitRoot (sc_Certificate sc) = ci_NewLocalExitRoot y \<and>
    (\<exists>toBlock bridges. l2_GetLastProcessedBlock a = Inr toBlock \<and>
       l2_GetBridgesPublished a (ci_FromBlock y) toBlock = Inr bridges \<and>
       ce_BridgeExits (sc_Certificate sc) = getBridgeExits bridges)"
  using assms(3)
proof (cases rule: sendCertificate_cases)
  case unchanged
  then show ?thesis by blast
next
  case (sent lastSent lpb fromBlock toBlock bridges claims certificate sc')
  have l: "lastSent = y" using last_sent_chain [OF assms(1) sent(2)] by simp
  note parts = buildCertificate_parts [OF sent(8,6)]
  have "sc = sc'" using sent(10) by (auto simp: send_built_def split: sum.splits prod.splits option.splits)
  then have sc: "sc_Certificate sc = certificate" using signCertificate_parts [OF sent(9)] by simp
  have "ci_NewLocalExitRoot y \<noteq> 0" using assms(1) by (simp add: follows_def)
  then have "ce_Height certificate = ci_Height y \<and> ce_PrevLocalExitRoot certificate = ci_NewLocalExitRoot y"
    using parts(1) l assms(2) by (simp add: getNextHeightAndPreviousLER_def)
  moreover have "fromBlock = ci_FromBlock y \<and> toBlock = lpb"
    using sent(3) l assms(2) by (auto simp: next_range_def Let_def split: if_splits)
  ultimately show ?thesis using sc parts(3) sent(4,5) by auto
qed

theorem resend_after_error_witness:
  "\<exists>rows' sc. sendCertificate sample_keccak (\<lambda>_. False) (sample_sender 8 CertPending 2)
       [sample_info 1 0 1 5 CertInError] = (rows', Inr (Some sc)) \<and>
     ce_Height (sc_Certificate sc) = 0 \<and> ce_PrevLocalExitRoot (sc_Certificate sc) = 3"
proof -
  obtain rows' sc where s: "sendCertificate sample_keccak (\<lambda>_. False) (sample_sender 8 CertPending 2)
      ([] @ [sample_info 1 0 1 5 CertInError]) = (rows', Inr (Some sc))"
    by (simp add: sender_defs nonSettledStatuses_def sample_info_def deleteCertificate_def Let_def)
  have "cert_chain ([] @ [sample_info 1 0 1 5 CertInError])"
    unfolding cert_chain_snoc by (simp add: follows_def sample_info_def cert_chain.Nil)
  from resend_after_error [OF this _ s] s show ?thesis by (auto simp: sample_info_def)
qed

text \<open>C12. On a node whose L1 info tree syncer is in a consistent state, every claim imported by a certificate carries
  a Merkle proof to one root common to all of them: the root of the L1 info tree after the newest leaf among those of the claims. Hashing
  the leaf of a claim, which has the global exit root of the claim, up along its proof from the
  leaf's index gives that root.\<close>

theorem imported_exit_proofs_verify:
  assumes "l1_proc_inv K lp" and "no_faults io" and "claims \<noteq> []"
    and "getImportedBridgeExits (node_sender io bp lp a) claims = Inr ibes"
  shows "\<exists>k<length (leaf_rows (lp_db lp)). length ibes = length claims \<and>
    (\<forall>j<length claims. \<exists>c i. ib_ClaimData (ibes ! j) = Some c \<and> i \<le> k \<and> al_L1InfoTreeIndex (claim_leaf c) = of_nat i \<and>
       in_GlobalExitRoot (al_Inner (claim_leaf c)) = cl_GlobalExitRoot (claims ! j) \<and>
       mp_Root (claim_ger_proof c) = leaves_root K (take (Suc k) (map lf_Hash (leaf_rows (lp_db lp)))) \<and>
       CalculateRoot K (L1InfoTreeLeafInner_Hash K (al_Inner (claim_leaf c))) (mp_Proof (claim_ger_proof c)) (of_nat i) =
         leaves_root K (take (Suc k) (map lf_Hash (leaf_rows (lp_db lp))))) \<and>
    (\<exists>j<length claims. \<exists>c. ib_ClaimData (ibes ! j) = Some c \<and> al_L1InfoTreeIndex (claim_leaf c) = of_nat k)"
proof -
  let ?a = "node_sender io bp lp a" and ?rows = "leaf_rows (lp_db lp)"
  from assms(3,4) obtain infos g root where ci: "claim_infos ?a claims 0 = Inr (infos, g)"
    and root: "l1_GetL1InfoTreeRootByIndex ?a g = Inr root"
    and ie: "imported_exits ?a (r_Hash root) (zip claims infos) = Inr ibes"
    by (auto simp: getImportedBridgeExits_def split: sum.splits prod.splits)
  note cok = claim_infos_ok [OF ci]
  from imported_root [OF assms(1,3) ci] obtain k where k: "k < length ?rows" "g = of_nat k"
    and at: "\<forall>info\<in>set infos. \<exists>i\<le>k. info = ?rows ! i \<and> lf_L1InfoTreeIndex info = of_nat i" by blast
  let ?root = "leaves_root K (take (Suc k) (map lf_Hash ?rows))"
  have ai: "append_inv K (l1_tree (lp_db lp)) (map lf_Hash ?rows)" and tr: "tree_ok K (aot_Tree (lp_l1InfoTree lp))"
    and hs: "\<forall>l\<in>set ?rows. lf_Hash l = HashLeafData K (lf_GlobalExitRoot l) (lf_PreviousBlockHash l) (lf_Timestamp l)"
    using assms(1) by (simp_all add: l1_proc_inv_def l1_db_inv_def synced_def)
  have len: "length infos = length claims" "length ibes = length claims"
    using cok list_all2_lengthD [OF imported_exits_ok [OF ie]] by simp_all
  have exits: "\<exists>p f. l1_GetProof ?a (lf_L1InfoTreeIndex (infos ! j)) (r_Hash root) = Inr p \<and>
      ib_ClaimData (ibes ! j) = Some (claim_data (claims ! j) (infos ! j) (r_Hash root) p f)" if "j < length claims" for j
    using list_all2_nthD [OF imported_exits_ok [OF ie], of j] that len by simp
  have ger: "lf_GlobalExitRoot (infos ! j) = cl_GlobalExitRoot (claims ! j)" if "j < length claims" for j
  proof -
    have "l1_GetInfoByGlobalExitRoot ?a (cl_GlobalExitRoot (claims ! j)) = Inr (infos ! j)"
      using cok that by (auto dest: list_all2_nthD)
    then have "s_GetInfoByGlobalExitRoot io lp (cl_GlobalExitRoot (claims ! j)) = Inr (infos ! j)" by (simp add: node_sender_def)
    then show ?thesis by (rule l1_leaf_at [OF assms(1)])
  qed
  have one: "\<exists>c i. ib_ClaimData (ibes ! j) = Some c \<and> i \<le> k \<and> al_L1InfoTreeIndex (claim_leaf c) = of_nat i \<and>
       in_GlobalExitRoot (al_Inner (claim_leaf c)) = cl_GlobalExitRoot (claims ! j) \<and> mp_Root (claim_ger_proof c) = ?root \<and>
       CalculateRoot K (L1InfoTreeLeafInner_Hash K (al_Inner (claim_leaf c))) (mp_Proof (claim_ger_proof c)) (of_nat i) = ?root"
    if j: "j < length claims" for j
  proof -
    let ?info = "infos ! j"
    from exits [OF j] obtain p f where p: "l1_GetProof ?a (lf_L1InfoTreeIndex ?info) (r_Hash root) = Inr p"
      and c: "ib_ClaimData (ibes ! j) = Some (claim_data (claims ! j) ?info (r_Hash root) p f)" by blast
    obtain i where i: "i \<le> k" "?info = ?rows ! i" "lf_L1InfoTreeIndex ?info = of_nat i"
      using at j len(1) by (metis nth_mem)
    have "?info \<in> set ?rows" using i(1,2) k(1) by simp
    then have lh: "lf_Hash ?info = L1InfoTreeLeafInner_Hash K (al_Inner (claim_l1_leaf (claims ! j) ?info))"
      using hs by (simp add: claim_l1_leaf_def leaf_hashes_agree)
    have "CalculateRoot K (map lf_Hash ?rows ! i) p (of_nat i) = r_Hash root \<and> r_Hash root = ?root"
      using append_proofs_ok [OF ai tr assms(2) i(1)] k p root i(3)
      by (auto simp: node_sender_def GetL1InfoTreeRootByIndex_def GetL1InfoTreeMerkleProofFromIndexToRoot_def
          unless_halted_def split: if_splits)
    moreover have "map lf_Hash ?rows ! i = lf_Hash ?info" using i(1,2) k(1) by simp
    ultimately show ?thesis
      using c lh i(1,3) ger [OF j]
      by (intro exI [of _ "claim_data (claims ! j) ?info (r_Hash root) p f"] exI [of _ i]) (simp add: claim_l1_leaf_def)
  qed
  have "\<exists>j<length claims. lf_L1InfoTreeIndex (infos ! j) = of_nat k"
  proof (cases "g = 0")
    case True
    have "infos ! 0 \<in> set infos" using assms(3) len(1) by simp
    then have "lf_L1InfoTreeIndex (infos ! 0) \<le> g" using cok by blast
    then show ?thesis using True k(2) assms(3) by (intro exI [of _ 0]) simp
  next
    case False
    then have "g \<in> lf_L1InfoTreeIndex ` set infos" using cok by auto
    then show ?thesis using k(2) len(1) by (auto simp: in_set_conv_nth)
  qed
  then obtain j where j: "j < length claims" "lf_L1InfoTreeIndex (infos ! j) = of_nat k" by blast
  moreover obtain p f where "ib_ClaimData (ibes ! j) = Some (claim_data (claims ! j) (infos ! j) (r_Hash root) p f)"
    using exits [OF j(1)] by blast
  ultimately have "\<exists>j<length claims. \<exists>c. ib_ClaimData (ibes ! j) = Some c \<and> al_L1InfoTreeIndex (claim_leaf c) = of_nat k"
    by (auto simp: claim_l1_leaf_def)
  with one k(1) len(2) show ?thesis by blast
qed

definition sample_claim :: Claim where
  "sample_claim = \<lparr>cl_BlockNum = 7, cl_BlockPos = 0, cl_GlobalIndex = Some 0, cl_OriginNetwork = 0, cl_OriginAddress = 0,
     cl_DestinationAddress = 0, cl_Amount = None, cl_ProofLocalExitRoot = [], cl_ProofRollupExitRoot = [],
     cl_MainnetExitRoot = 0, cl_RollupExitRoot = 0,
     cl_GlobalExitRoot = lf_GlobalExitRoot (new_leaf sample_keccak 7 0 sample_update),
     cl_DestinationNetwork = 1, cl_Metadata = [], cl_IsMessage = False\<rparr>"

lemma sample_l1_processed:
  obtains lp where "l1_proc_inv sample_keccak lp" and "\<not> lp_halted lp"
    and "leaf_rows (lp_db lp) = [new_leaf sample_keccak 7 0 sample_update]"
proof -
  let ?b = "sample_l1_block (leaves_root sample_keccak [9])"
  obtain lp where p: "l1_ProcessBlock sample_keccak (\<lambda>_. False) sample_l1 ?b = (lp, None)" "\<not> lp_halted lp"
    using sample_l1_result [of "leaves_root sample_keccak [9]"] by auto
  have "l1_proc_inv sample_keccak sample_l1" unfolding sample_l1_def by (rule sample_l1_inv)
  from l1_block_inv [OF this p(1)] sample_l1_fits p(2) that show ?thesis
    by (auto simp: sample_l1_block_def sample_l1_event_def sample_l1_def l1_newProcessor_def empty_l1_db_def)
qed

theorem imported_exit_proofs_verify_witness:
  "\<exists>lp ibe c. l1_proc_inv sample_keccak lp \<and>
     getImportedBridgeExits (node_sender (\<lambda>_. False) sample_processor lp (sample_sender 7 CertPending 1)) [sample_claim] =
       Inr [ibe] \<and> ib_ClaimData ibe = Some c \<and> al_L1InfoTreeIndex (claim_leaf c) = 0 \<and>
     mp_Root (claim_ger_proof c) = leaves_root sample_keccak [lf_Hash (new_leaf sample_keccak 7 0 sample_update)]"
proof -
  obtain lp where inv: "l1_proc_inv sample_keccak lp" and nh: "\<not> lp_halted lp"
    and rows: "leaf_rows (lp_db lp) = [new_leaf sample_keccak 7 0 sample_update]" by (rule sample_l1_processed)
  have ai: "append_inv sample_keccak (l1_tree (lp_db lp)) (map lf_Hash (leaf_rows (lp_db lp)))"
    and tr: "tree_ok sample_keccak (aot_Tree (lp_l1InfoTree lp))"
    using inv by (simp_all add: l1_proc_inv_def l1_db_inv_def synced_def)
  obtain r p where r: "GetRootByIndex (\<lambda>_. False) (aot_Tree (lp_l1InfoTree lp)) (l1_tree (lp_db lp)) 0 = Inr r"
    and p: "GetProof (\<lambda>_. False) (aot_Tree (lp_l1InfoTree lp)) (l1_tree (lp_db lp)) 0 (r_Hash r) = Inr p"
    using append_proofs_ok [OF ai tr, of "\<lambda>_. False" 0 0] rows by auto
  have "\<exists>ib. convertClaimToImportedBridgeExit sample_claim = Inr ib"
    by (simp add: convertClaimToImportedBridgeExit_def sample_claim_def Let_def DecodeGlobalIndex_def nat_bytes.simps)
  moreover have "lf_L1InfoTreeIndex (new_leaf sample_keccak 7 0 sample_update) = 0" by (simp add: new_leaf_def Let_def)
  ultimately obtain ibe where g: "getImportedBridgeExits
      (node_sender (\<lambda>_. False) sample_processor lp (sample_sender 7 CertPending 1)) [sample_claim] = Inr [ibe]"
    using nh rows r p
    by (auto simp: getImportedBridgeExits_def node_sender_def sample_claim_def s_GetInfoByGlobalExitRoot_def
        unless_halted_def GetInfoByGlobalExitRoot_def query_row_def GetL1InfoTreeRootByIndex_def
        GetL1InfoTreeMerkleProofFromIndexToRoot_def)
  obtain c where "ib_ClaimData ibe = Some c" "al_L1InfoTreeIndex (claim_leaf c) = 0"
    "mp_Root (claim_ger_proof c) = leaves_root sample_keccak [lf_Hash (new_leaf sample_keccak 7 0 sample_update)]"
    using imported_exit_proofs_verify [OF inv _ _ g] rows by auto
  with inv g show ?thesis by blast
qed

text \<open>C11. On a node whose bridge syncer is in a consistent state, the new local exit root of a certificate is the
  root of the tree of all deposits up to the last block the certificate covers, and its bridge
  exits are the deposits of the covered blocks in deposit order. The covered blocks are the range that follows from the
  certificate sent last.\<close>

theorem certificate_root_is_exit_tree_root:
  assumes "bridge_inv K bp" and "no_faults io"
    and "sendCertificate K io (node_sender io bp lp a) rows = (rows', Inr (Some sc))"
  shows "\<exists>lastSent fromBlock toBlock. bridge_GetLastProcessedBlock io bp = Inr toBlock \<and>
    GetLastSentCertificate io rows = Inr lastSent \<and> next_range lastSent toBlock = Some (fromBlock, toBlock) \<and>
    ce_NewLocalExitRoot (sc_Certificate sc) =
      leaves_root K (map (bridge_leaf K) (filter (\<lambda>b. br_BlockNum b \<le> toBlock) (bridge_rows (bp_db bp)))) \<and>
    ce_BridgeExits (sc_Certificate sc) =
      map bridge_exit_of (filter (\<lambda>b. fromBlock \<le> br_BlockNum b \<and> br_BlockNum b \<le> toBlock) (bridge_rows (bp_db bp))) \<and>
    ce_BridgeExits (sc_Certificate sc) \<noteq> []"
  using assms(3)
proof (cases rule: sendCertificate_cases)
  case unchanged
  then show ?thesis by blast
next
  case (sent lastSent lpb fromBlock toBlock bridges claims certificate sc')
  note parts = buildCertificate_parts [OF sent(8,6)]
  have "sc = sc'" using sent(10) by (auto simp: send_built_def split: sum.splits prod.splits option.splits)
  then have sc: "sc_Certificate sc = certificate" using signCertificate_parts [OF sent(9)] by simp
  have br: "GetBridgesPublished io bp fromBlock toBlock = Inr bridges" using sent(5) by (simp add: node_sender_def)
  have "toBlock = lpb" using sent(3) by (auto simp: next_range_def Let_def split: if_splits)
  then have "bridge_GetLastProcessedBlock io bp = Inr toBlock" using sent(4) by (simp add: node_sender_def)
  moreover obtain r where "GetExitRootByIndex io bp (br_DepositCount (last bridges)) = Inr r"
    and "ce_NewLocalExitRoot certificate = r_Hash r" using parts(2) by (auto simp: node_sender_def)
  ultimately show ?thesis
    using exit_root_of_range [OF assms(1,2) br sent(6)] GetBridgesPublished_rows [OF br] sc parts(3) sent(2,3,6) \<open>toBlock = lpb\<close>
    by (auto simp: getBridgeExits_def)
qed

theorem certificate_root_is_exit_tree_root_witness:
  "\<exists>bp rows' sc. bridge_inv sample_keccak bp \<and>
     sendCertificate sample_keccak (\<lambda>_. False) (node_sender (\<lambda>_. False) bp sample_l1 (sample_sender 0 CertPending 1)) [] =
       (rows', Inr (Some sc)) \<and>
     ce_NewLocalExitRoot (sc_Certificate sc) = leaves_root sample_keccak [21]"
proof -
  obtain bp where inv: "bridge_inv sample_keccak bp" and rows: "bridge_rows (bp_db bp) = [sample_bridge]"
    and blk: "blk_rows (bp_db bp) = [7]" "claim_rows (bp_db bp) = []" by (rule sample_processed)
  have ai: "append_inv sample_keccak (exit_tree (bp_db bp)) (map (bridge_leaf sample_keccak) (bridge_rows (bp_db bp)))"
    and tr: "tree_ok sample_keccak (aot_Tree (bp_exitTree bp))"
    using inv by (simp_all add: bridge_inv_def bridge_db_inv_def synced_def)
  obtain r where r: "GetRootByIndex (\<lambda>_. False) (aot_Tree (bp_exitTree bp)) (exit_tree (bp_db bp)) 0 = Inr r"
    using append_proofs_ok [OF ai tr, of "\<lambda>_. False" 0 0] rows by auto
  have sb: "br_BlockNum sample_bridge = 7" "br_DepositCount sample_bridge = 0" by (simp_all add: sample_bridge_def)
  let ?a = "node_sender (\<lambda>_. False) bp sample_l1 (sample_sender 0 CertPending 1)"
  have lpb: "bridge_GetLastProcessedBlock (\<lambda>_. False) bp = Inr 7"
    using blk by (simp add: bridge_GetLastProcessedBlock_def getLastProcessedBlockWithTx_def query_row_def)
  then have "l2_GetLastProcessedBlock ?a = Inr 7" by (simp add: node_sender_def)
  moreover have "l2_GetBridgesPublished ?a 1 7 = Inr [sample_bridge]" "l2_GetClaims ?a 1 7 = Inr []"
    using lpb rows blk sb
    by (simp_all add: node_sender_def GetBridgesPublished_def GetBridges_def GetClaims_def queryBlockRange_def
        isBlockProcessed_def bridge_GetLastProcessedBlock_def)
  moreover have "l2_GetExitRootByIndex ?a 0 = Inr r" using r by (simp add: node_sender_def GetExitRootByIndex_def)
  moreover have "crypto_Sign ?a = crypto_Sign (sample_sender 0 CertPending 1)"
    "json_Marshal ?a = json_Marshal (sample_sender 0 CertPending 1)"
    "agg_SendCertificate ?a = agg_SendCertificate (sample_sender 0 CertPending 1)" by (simp_all add: node_sender_def)
  ultimately obtain rows' sc where s: "sendCertificate sample_keccak (\<lambda>_. False) ?a [] = (rows', Inr (Some sc))"
    using sb by (simp add: sender_defs zero_info_def)
  from certificate_root_is_exit_tree_root [OF inv _ s] lpb rows sb inv s show ?thesis
    by (auto simp: bridge_leaf_def sample_bridge_hash)
qed

end
