(* ===== verification/Hex.thy ===== *)
theory Hex
  imports Prelude
begin

text \<open>
  Hexadecimal text (\<open>src/hex/hex.go\<close>) and the functions of \<open>encoding/hex\<close>, \<open>strconv\<close> and
  \<open>math/big\<close> it is built on. A Go string is the list of its bytes read as characters.
\<close>

section \<open>Digits and numbers of the standard library\<close>

definition hex_char :: "nat \<Rightarrow> char" where
  "hex_char d = ''0123456789abcdef'' ! d"

definition code :: "char \<Rightarrow> nat" where
  "code c = of_char c"

definition ascii :: "string \<Rightarrow> bytes" where
  "ascii s = map of_char s"

definition hex_val :: "char \<Rightarrow> nat option" where
  "hex_val c =
     (if 48 \<le> code c \<and> code c \<le> 57 then Some (code c - 48)
      else if 97 \<le> code c \<and> code c \<le> 102 then Some (code c - 97 + 10)
      else if 65 \<le> code c \<and> code c \<le> 70 then Some (code c - 65 + 10)
      else None)"

text \<open>\<open>encoding/hex\<close>: two lower-case digits per byte; decoding accepts both cases.\<close>

definition byte_hex :: "u8 \<Rightarrow> string" where
  "byte_hex b = [hex_char (unat b div 16), hex_char (unat b mod 16)]"

definition EncodeToString :: "bytes \<Rightarrow> string" where
  "EncodeToString bs = concat (map byte_hex bs)"

fun DecodeString :: "string \<Rightarrow> error + bytes" where
  "DecodeString [] = Inr []"
| "DecodeString [c] =
     (case hex_val c of None \<Rightarrow> Inl (ErrMsg ''invalid byte'') | Some _ \<Rightarrow> Inl (ErrMsg ''odd length hex string''))"
| "DecodeString (c # d # cs) =
     (case (hex_val c, hex_val d) of
        (Some x, Some y) \<Rightarrow> map_sum id (\<lambda>bs. of_nat (16 * x + y) # bs) (DecodeString cs)
      | _ \<Rightarrow> Inl (ErrMsg ''invalid byte''))"

text \<open>The digits of a number, most significant first, and the value of digits.\<close>

function nat_hex :: "nat \<Rightarrow> string" where
  "nat_hex n = (if n < 16 then [hex_char n] else nat_hex (n div 16) @ [hex_char (n mod 16)])"
  by pat_completeness auto
termination by (relation "measure id") auto

declare nat_hex.simps [simp del]

fun hex_value :: "nat \<Rightarrow> string \<Rightarrow> nat option" where
  "hex_value acc [] = Some acc"
| "hex_value acc (c # cs) = (case hex_val c of None \<Rightarrow> None | Some d \<Rightarrow> hex_value (16 * acc + d) cs)"

text \<open>\<open>strconv.ParseUint(s, 16, 64)\<close>.\<close>

definition ParseUint16 :: "string \<Rightarrow> error + u64" where
  "ParseUint16 s =
     (if s = [] then Inl (ErrMsg ''invalid syntax'')
      else case hex_value 0 s of
             None \<Rightarrow> Inl (ErrMsg ''invalid syntax'')
           | Some n \<Rightarrow> if n < 2 ^ 64 then Inr (of_nat n) else Inl (ErrMsg ''value out of range''))"

text \<open>\<open>big.Int.Text(16)\<close> and \<open>big.Int.SetString(s, 16)\<close>; \<open>None\<close> where the text is no number.\<close>

definition big_Text :: "int \<Rightarrow> string" where
  "big_Text n = (if n < 0 then ''-'' else []) @ nat_hex (nat \<bar>n\<bar>)"

definition unsigned_hex :: "string \<Rightarrow> int option" where
  "unsigned_hex s = (if s = [] then None else map_option int (hex_value 0 s))"

definition big_SetString :: "string \<Rightarrow> int option" where
  "big_SetString s =
     (case s of
        [] \<Rightarrow> None
      | c # cs \<Rightarrow> if c = CHR ''-'' then map_option uminus (unsigned_hex cs)
                  else if c = CHR ''+'' then unsigned_hex cs else unsigned_hex s)"

section \<open>The functions of \<open>hex.go\<close>\<close>

text \<open>\<open>strings.TrimPrefix(s, "0x")\<close>.\<close>

fun trim_0x :: "string \<Rightarrow> string" where
  "trim_0x (c # d # cs) = (if c = CHR ''0'' \<and> d = CHR ''x'' then cs else c # d # cs)"
| "trim_0x s = s"

definition EncodeToHex :: "bytes \<Rightarrow> string" where
  "EncodeToHex bs = ''0x'' @ EncodeToString bs"

definition DecodeHex :: "string \<Rightarrow> error + bytes" where
  "DecodeHex s =
     (let str = trim_0x s;
          str1 = (if length str mod 2 \<noteq> 0 then CHR ''0'' # str else str)
      in DecodeString str1)"

definition MustDecodeHex :: "string \<Rightarrow> error + bytes" where
  "MustDecodeHex s = (case DecodeHex s of Inl _ \<Rightarrow> Inl ErrPanic | Inr b \<Rightarrow> Inr b)"

text \<open>
  \<open>DecodeBig\<close> ignores that \<open>SetString\<close> failed; the value it then returns is unspecified, as is
  \<open>Uint64\<close> of a number out of range: both are \<open>None\<close>.
\<close>

definition DecodeBig :: "string \<Rightarrow> int option" where
  "DecodeBig hexNum = big_SetString (trim_0x hexNum)"

definition DecodeUint64 :: "string \<Rightarrow> u64 option" where
  "DecodeUint64 str =
     (case DecodeBig str of
        None \<Rightarrow> None
      | Some i \<Rightarrow> if 0 \<le> i \<and> i < 2 ^ 64 then Some (of_int i) else None)"

definition EncodeUint64 :: "u64 \<Rightarrow> string" where
  "EncodeUint64 i = ''0x'' @ nat_hex (unat i)"

definition BadNibble :: u64 where
  "BadNibble = NOT 0"

definition DecodeNibble :: "u8 \<Rightarrow> u64" where
  "DecodeNibble b =
     (if 48 \<le> b \<and> b \<le> 57 then ucast (b - 48)
      else if 65 \<le> b \<and> b \<le> 70 then ucast (b - 65 + 10)
      else if 97 \<le> b \<and> b \<le> 102 then ucast (b - 97 + 10)
      else BadNibble)"

text \<open>\<open>%#x\<close> writes the sign before the prefix.\<close>

definition EncodeBig :: "int \<Rightarrow> string" where
  "EncodeBig bigint =
     (if bigint = 0 then ''0x0''
      else (if bigint < 0 then ''-'' else []) @ ''0x'' @ nat_hex (nat \<bar>bigint\<bar>))"

definition hex_IsValid :: "string \<Rightarrow> bool" where
  "hex_IsValid s = list_all (\<lambda>c. hex_val c \<noteq> None) (trim_0x s)"

section \<open>Round trips\<close>

lemma hex_val_char [simp]: "d < 16 \<Longrightarrow> hex_val (hex_char d) = Some d"
proof -
  assume "d < 16"
  then have "d \<in> {0, 1, 2, 3, 4, 5, 6, 7, 8, 9, 10, 11, 12, 13, 14, 15}" by (simp, presburger)
  then show ?thesis
    by (elim insertE emptyE; simp add: hex_char_def hex_val_def code_def)
qed

lemma hex_val_sign [simp]: "hex_val CHR ''-'' = None" "hex_val CHR ''+'' = None" "hex_val CHR ''x'' = None"
  by (simp_all add: hex_val_def code_def)

lemma hex_char_sign: "d < 16 \<Longrightarrow> hex_char d \<noteq> CHR ''-'' \<and> hex_char d \<noteq> CHR ''+'' \<and> hex_char d \<noteq> CHR ''x''"
  by (metis hex_val_char hex_val_sign option.distinct(1))

lemma byte_hex_digits: "unat (b :: u8) div 16 < 16" "unat (b :: u8) mod 16 < 16"
  using unat_less [of b] by (simp_all add: div_less_iff_less_mult)

lemma EncodeToString_Cons: "EncodeToString (b # bs) = byte_hex b @ EncodeToString bs"
  by (simp add: EncodeToString_def)

lemma EncodeToString_append: "EncodeToString (xs @ ys) = EncodeToString xs @ EncodeToString ys"
  by (simp add: EncodeToString_def)

lemma length_EncodeToString [simp]: "length (EncodeToString bs) = 2 * length bs"
  by (induction bs) (simp_all add: EncodeToString_def byte_hex_def)

lemma DecodeString_EncodeToString [simp]: "DecodeString (EncodeToString bs) = Inr bs"
proof (induction bs)
  case (Cons b bs)
  have "of_nat (16 * (unat b div 16) + unat b mod 16) = b" by simp
  with Cons show ?case by (simp add: EncodeToString_Cons byte_hex_def byte_hex_digits)
qed (simp add: EncodeToString_def)

lemma hex_value_append:
  "hex_value acc (xs @ ys) = (case hex_value acc xs of None \<Rightarrow> None | Some v \<Rightarrow> hex_value v ys)"
  by (induction xs arbitrary: acc) (auto split: option.splits)

lemma hex_value_EncodeToString: "hex_value acc (EncodeToString bs) = Some (acc * 256 ^ length bs + be_value bs)"
proof (induction bs arbitrary: acc)
  case (Cons b bs)
  have "16 * (16 * acc + unat b div 16) + unat b mod 16 = 256 * acc + unat b" by simp
  with Cons show ?case
    by (simp add: EncodeToString_Cons byte_hex_def byte_hex_digits be_value_Cons algebra_simps)
qed (simp add: EncodeToString_def)

lemma ParseUint16_EncodeToString:
  "ParseUint16 (EncodeToString bs) =
     (if bs = [] then Inl (ErrMsg ''invalid syntax'')
      else if be_value bs < 2 ^ 64 then Inr (of_nat (be_value bs)) else Inl (ErrMsg ''value out of range''))"
proof -
  have "EncodeToString bs = [] \<longleftrightarrow> bs = []" by (metis length_EncodeToString length_0_conv mult_is_0 zero_neq_numeral)
  then show ?thesis using hex_value_EncodeToString [of 0 bs] by (simp add: ParseUint16_def)
qed

lemma hex_value_nat_hex: "hex_value acc (nat_hex n) = Some (acc * 16 ^ length (nat_hex n) + n)"
proof (induction n arbitrary: acc rule: nat_hex.induct)
  case (1 n)
  show ?case
  proof (cases "n < 16")
    case True
    then show ?thesis by (subst (1 2) nat_hex.simps) simp
  next
    case False
    with 1 [OF False, of acc] show ?thesis
      by (subst (1 2) nat_hex.simps) (simp add: hex_value_append algebra_simps)
  qed
qed

lemma nat_hex_Cons: obtains d cs where "nat_hex n = hex_char d # cs" and "d < 16"
proof (induction n rule: nat_hex.induct)
  case (1 n)
  show ?case
  proof (cases "n < 16")
    case True
    with "1.prems" [of n "[]"] show ?thesis by (simp add: nat_hex.simps)
  next
    case False
    from "1.IH" [OF False] "1.prems" [of _ "_ @ [hex_char (n mod 16)]"] False show ?thesis
      by (metis append_Cons nat_hex.simps)
  qed
qed

lemma big_SetString_nat_hex: "big_SetString (nat_hex n) = Some (int n)"
proof -
  obtain d cs where d: "nat_hex n = hex_char d # cs" "d < 16" by (rule nat_hex_Cons)
  have "hex_value 0 (nat_hex n) = Some n" using hex_value_nat_hex [of 0 n] by simp
  with d hex_char_sign [OF d(2)] show ?thesis by (simp add: big_SetString_def unsigned_hex_def)
qed

text \<open>Bytes and 64-bit numbers read back from their hexadecimal text.\<close>

lemma hex_roundtrips:
  "DecodeHex (EncodeToHex bs) = Inr bs" and "DecodeUint64 (EncodeUint64 i) = Some i"
proof -
  show "DecodeHex (EncodeToHex bs) = Inr bs" by (simp add: DecodeHex_def EncodeToHex_def Let_def)
  have "trim_0x (EncodeUint64 i) = nat_hex (unat i)" by (simp add: EncodeUint64_def)
  then have "DecodeBig (EncodeUint64 i) = Some (int (unat i))" by (simp add: DecodeBig_def big_SetString_nat_hex)
  moreover have "uint i < 2 ^ LENGTH(64)" by (rule unsigned_less)
  ultimately show "DecodeUint64 (EncodeUint64 i) = Some i" by (simp add: DecodeUint64_def)
qed

text \<open>A non-negative number reads back from \<open>EncodeBig\<close>; a negative one does not, its sign comes before the prefix.\<close>

lemma DecodeBig_EncodeBig: "DecodeBig (EncodeBig n) = (if 0 \<le> n then Some n else None)"
proof (cases "n < 0")
  case True
  obtain d cs where "nat_hex (nat \<bar>n\<bar>) = hex_char d # cs" "d < 16" by (rule nat_hex_Cons)
  with True show ?thesis
    by (simp add: DecodeBig_def EncodeBig_def big_SetString_def unsigned_hex_def hex_val_def [of "CHR ''0''"] code_def)
next
  case False
  then show ?thesis
    by (auto simp: DecodeBig_def EncodeBig_def big_SetString_nat_hex)
      (simp add: big_SetString_def unsigned_hex_def hex_val_def code_def)
qed

end
