(* ===== verification/BatchCodec.thy ===== *)
theory BatchCodec
  imports Hex
begin

text \<open>
  The codec of L2 batch data (\<open>src/state/encoding_batch_v2.go\<close>, \<open>src/state/helper.go\<close>,
  \<open>src/state/transaction.go\<close>): a batch is a sequence of block headers and RLP-coded transactions.

  RLP itself and the transaction type are those of go-ethereum: \<open>rlp.EncodeToBytes\<close>,
  \<open>rlp.DecodeBytes\<close> and \<open>types.NewTx\<close> are the argument \<open>rlp\<close>. Slices are taken with the bounds check of
  the language (\<open>ErrPanic\<close> when it fails), lengths and positions are 64-bit words where the code
  computes with \<open>uint64\<close>.
\<close>

section \<open>Transactions\<close>

record Transaction =
  tx_Type :: u8
  tx_Nonce :: u64
  tx_GasPrice :: int
  tx_GasTipCap :: int
  tx_GasFeeCap :: int
  tx_Gas :: u64
  tx_To :: "address option"
  tx_Value :: int
  tx_Data :: bytes
  tx_ChainId :: int
  tx_V :: int
  tx_R :: int
  tx_S :: int

record LegacyTx =
  lt_Nonce :: u64
  lt_GasPrice :: int
  lt_Gas :: u64
  lt_To :: "address option"
  lt_Value :: int
  lt_Data :: bytes
  lt_V :: int
  lt_R :: int
  lt_S :: int

datatype rlp_value = RlpUint nat | RlpBig int | RlpAddress "address option" | RlpBytes bytes

record rlp_lib =
  rlp_EncodeToBytes :: "rlp_value list \<Rightarrow> error + bytes"
  rlp_DecodeBytes :: "bytes \<Rightarrow> error + bytes list"
  types_NewTx :: "LegacyTx \<Rightarrow> Transaction"

definition bind_err :: "error + 'a \<Rightarrow> ('a \<Rightarrow> error + 'b) \<Rightarrow> error + 'b" where
  "bind_err r f = (case r of Inl e \<Rightarrow> Inl e | Inr x \<Rightarrow> f x)"

lemma bind_err_simps [simp]: "bind_err (Inl e) f = Inl e" "bind_err (Inr x) f = f x"
  by (simp_all add: bind_err_def)

lemma bind_err_Inr: "bind_err r f = Inr y \<longleftrightarrow> (\<exists>x. r = Inr x \<and> f x = Inr y)"
  by (cases r) auto

text \<open>\<open>big.Int.Uint64\<close>: the low 64 bits.\<close>

definition big_Uint64 :: "int \<Rightarrow> u64" where
  "big_Uint64 n = of_int \<bar>n\<bar>"

definition isPreEIP155Tx :: "Transaction \<Rightarrow> bool" where
  "isPreEIP155Tx tx \<longleftrightarrow> big_Uint64 (tx_ChainId tx) = 0 \<and> (big_Uint64 (tx_V tx) = 27 \<or> big_Uint64 (tx_V tx) = 28)"

definition rlp_fields :: "Transaction \<Rightarrow> rlp_value list" where
  "rlp_fields tx =
     [RlpUint (unat (tx_Nonce tx))] @
     (if tx_Type tx = 2 then [RlpBig (tx_GasTipCap tx), RlpBig (tx_GasFeeCap tx)] else [RlpBig (tx_GasPrice tx)]) @
     [RlpUint (unat (tx_Gas tx)), RlpAddress (tx_To tx), RlpBig (tx_Value tx), RlpBytes (tx_Data tx)] @
     (if \<not> isPreEIP155Tx tx then [RlpBig (tx_ChainId tx), RlpUint 0, RlpUint 0] else [])"

text \<open>\<open>fmt.Sprintf("%064s", s)\<close>: zeros on the left up to the width.\<close>

definition zero_pad :: "nat \<Rightarrow> string \<Rightarrow> string" where
  "zero_pad n s = replicate (n - length s) CHR ''0'' @ s"

definition prepareRLPTxData :: "rlp_lib \<Rightarrow> Transaction \<Rightarrow> error + bytes" where
  "prepareRLPTxData rlp tx =
     (let sign = 1 - (big_Uint64 (tx_V tx) AND 1) in
      bind_err (rlp_EncodeToBytes rlp (rlp_fields tx)) (\<lambda>txCodedRlp.
        let newV = 27 + uint sign;
            newRPadded = zero_pad 64 (big_Text (tx_R tx));
            newSPadded = zero_pad 64 (big_Text (tx_S tx));
            newVPadded = zero_pad 2 (big_Text newV)
        in DecodeString (EncodeToString txCodedRlp @ newRPadded @ newSPadded @ newVPadded)))"

text \<open>\<open>common.BytesToAddress\<close> keeps the last 20 bytes.\<close>

definition BytesToAddress :: "bytes \<Rightarrow> address" where
  "BytesToAddress b = of_nat (be_value b)"

definition RlpFieldsToLegacyTx :: "bytes list \<Rightarrow> bytes \<Rightarrow> bytes \<Rightarrow> bytes \<Rightarrow> error + LegacyTx" where
  "RlpFieldsToLegacyTx flds v r s =
     (if length flds < 6 then Inl (ErrMsg ''transaction type not supported'')
      else Inr \<lparr>lt_Nonce = of_nat (be_value (flds ! 0)), lt_GasPrice = int (be_value (flds ! 1)),
                lt_Gas = of_nat (be_value (flds ! 2)),
                lt_To = (if flds ! 3 \<noteq> [] then Some (BytesToAddress (flds ! 3)) else None),
                lt_Value = int (be_value (flds ! 4)), lt_Data = flds ! 5,
                lt_V = (if length flds \<ge> 7
                        then (int (be_value v) - 27) + (int (be_value (flds ! 6)) * 2 + 35)
                        else int (be_value v)),
                lt_R = int (be_value r), lt_S = int (be_value s)\<rparr>)"

section \<open>Batches\<close>

record ChangeL2BlockHeader =
  DeltaTimestamp :: u32
  IndexL1InfoTree :: u32

record L2TxRaw =
  EfficiencyPercentage :: u8
  TxAlreadyEncoded :: bool
  l2_Tx :: Transaction
  l2_Data :: bytes

record L2BlockRaw =
  BlockNumber :: u64
  bl_Header :: ChangeL2BlockHeader
  bl_Transactions :: "L2TxRaw list"

record BatchRawV2 =
  Blocks :: "L2BlockRaw list"

record ForcedBatchRawV2 =
  fb_Transactions :: "L2TxRaw list"

definition changeL2Block :: u8 where
  "changeL2Block = 0x0b"

definition ErrInvalidBatchV2 :: error where
  "ErrInvalidBatchV2 = ErrMsg ''invalid batch v2''"

definition ErrInvalidRLP :: error where
  "ErrInvalidRLP = ErrMsg ''invalid rlp codification''"

definition ErrInvalidData :: error where
  "ErrInvalidData = ErrMsg ''invalid data''"

definition ErrBatchV2DontStartWithChangeL2Block :: error where
  "ErrBatchV2DontStartWithChangeL2Block = ErrMsg ''batch v2 must start with changeL2Block before Tx''"

definition encodeUint32 :: "u32 \<Rightarrow> bytes" where
  "encodeUint32 value = be_bytes 4 value"

definition ChangeL2BlockHeader_Encode :: "ChangeL2BlockHeader \<Rightarrow> bytes \<Rightarrow> bytes" where
  "ChangeL2BlockHeader_Encode c batchData =
     batchData @ [changeL2Block] @ encodeUint32 (DeltaTimestamp c) @ encodeUint32 (IndexL1InfoTree c)"

definition L2TxRaw_Encode :: "rlp_lib \<Rightarrow> L2TxRaw \<Rightarrow> bytes \<Rightarrow> error + bytes" where
  "L2TxRaw_Encode rlp tx batchData =
     (if TxAlreadyEncoded tx then Inr (batchData @ l2_Data tx @ [EfficiencyPercentage tx])
      else bind_err (prepareRLPTxData rlp (l2_Tx tx)) (\<lambda>rlpTx. Inr (batchData @ rlpTx @ [EfficiencyPercentage tx])))"

text \<open>The builder \<open>BatchV2Encoder\<close> is its buffer.\<close>

definition AddBlockHeader :: "ChangeL2BlockHeader \<Rightarrow> bytes \<Rightarrow> bytes" where
  "AddBlockHeader l2BlockHeader b = ChangeL2BlockHeader_Encode l2BlockHeader b"

definition AddTransaction :: "rlp_lib \<Rightarrow> L2TxRaw \<Rightarrow> bytes \<Rightarrow> error + bytes" where
  "AddTransaction rlp transaction b = L2TxRaw_Encode rlp transaction b"

fun AddTransactions :: "rlp_lib \<Rightarrow> L2TxRaw list \<Rightarrow> bytes \<Rightarrow> error + bytes" where
  "AddTransactions rlp [] b = Inr b"
| "AddTransactions rlp (tx # txs) b = bind_err (AddTransaction rlp tx b) (AddTransactions rlp txs)"

fun encode_blocks :: "rlp_lib \<Rightarrow> L2BlockRaw list \<Rightarrow> bytes \<Rightarrow> error + bytes" where
  "encode_blocks rlp [] b = Inr b"
| "encode_blocks rlp (block # blocks) b =
     bind_err (AddTransactions rlp (bl_Transactions block) (AddBlockHeader (bl_Header block) b))
       (encode_blocks rlp blocks)"

definition EncodeBatchV2 :: "rlp_lib \<Rightarrow> BatchRawV2 option \<Rightarrow> error + bytes" where
  "EncodeBatchV2 rlp batch =
     (case batch of
        None \<Rightarrow> Inl ErrInvalidBatchV2
      | Some b \<Rightarrow> if Blocks b = [] then Inl ErrInvalidBatchV2 else encode_blocks rlp (Blocks b) [])"

section \<open>Decoding\<close>

text \<open>\<open>data[a:b]\<close> and \<open>data[i]\<close>.\<close>

definition slice :: "bytes \<Rightarrow> u64 \<Rightarrow> u64 \<Rightarrow> error + bytes" where
  "slice data a b =
     (if a \<le> b \<and> unat b \<le> length data then Inr (take (unat b - unat a) (drop (unat a) data)) else Inl ErrPanic)"

definition byte_at :: "bytes \<Rightarrow> nat \<Rightarrow> error + u8" where
  "byte_at data i = (if i < length data then Inr (data ! i) else Inl ErrPanic)"

definition decodeUint32 :: "bytes \<Rightarrow> nat \<Rightarrow> error + nat \<times> u32" where
  "decodeUint32 txsData pos =
     (if int (length txsData) - int pos < 4 then Inl ErrInvalidBatchV2
      else Inr (pos + 4, of_nat (be_value (take 4 (drop pos txsData)))))"

definition decodeBlockHeader :: "bytes \<Rightarrow> nat \<Rightarrow> error + nat \<times> L2BlockRaw" where
  "decodeBlockHeader txsData pos =
     bind_err (decodeUint32 txsData pos) (\<lambda>(pos1, deltaTimestamp).
     bind_err (decodeUint32 txsData pos1) (\<lambda>(pos2, indexL1InfoTree).
       Inr (pos2, \<lparr>BlockNumber = 0,
                   bl_Header = \<lparr>DeltaTimestamp = deltaTimestamp, IndexL1InfoTree = indexL1InfoTree\<rparr>,
                   bl_Transactions = []\<rparr>)))"

definition decodeRLPListLengthFromOffset :: "bytes \<Rightarrow> nat \<Rightarrow> error + u64" where
  "decodeRLPListLengthFromOffset txsData offset =
     (let txDataLength = of_nat (length txsData) :: u64 in
      bind_err (byte_at txsData offset) (\<lambda>b.
        let num = ucast b :: u64 in
        if num < 192 then Inl ErrInvalidRLP
        else let len = num - 192 in
          if len > 55
          then let pos64 = of_nat offset; lengthInByteOfSize = num - 247 in
            if pos64 + 1 + lengthInByteOfSize > txDataLength then Inl ErrInvalidRLP
            else bind_err (slice txsData (pos64 + 1) (pos64 + 1 + lengthInByteOfSize)) (\<lambda>sizeBytes.
                 bind_err (ParseUint16 (EncodeToString sizeBytes)) (\<lambda>n.
                   Inr (n + num - 247 + 1)))
          else Inr (len + 1)))"

definition DecodeTxRLP :: "rlp_lib \<Rightarrow> bytes \<Rightarrow> nat \<Rightarrow> error + nat \<times> L2TxRaw" where
  "DecodeTxRLP rlp txsData offset =
     bind_err (decodeRLPListLengthFromOffset txsData offset) (\<lambda>len.
       let endPos = of_nat offset + len + 32 + 32 + 1 + 1 :: u64 in
       if endPos > of_nat (length txsData) then Inl ErrInvalidBatchV2
       else let dataStart = of_nat offset + len in
         bind_err (slice txsData (of_nat offset) endPos) (\<lambda>fullDataTx.
         bind_err (slice txsData (of_nat offset) dataStart) (\<lambda>txInfo.
         bind_err (slice txsData dataStart (dataStart + 32)) (\<lambda>rData.
         bind_err (slice txsData (dataStart + 32) (dataStart + 32 + 32)) (\<lambda>sData.
         bind_err (slice txsData (dataStart + 32 + 32) (dataStart + 32 + 32 + 1)) (\<lambda>vData.
         bind_err (byte_at txsData (unat (dataStart + 32 + 32 + 1))) (\<lambda>efficiencyPercentage.
         bind_err (rlp_DecodeBytes rlp txInfo) (\<lambda>rlpFields.
         bind_err (RlpFieldsToLegacyTx rlpFields vData rData sData) (\<lambda>legacyTx.
           Inr (unat endPos, \<lparr>EfficiencyPercentage = efficiencyPercentage, TxAlreadyEncoded = False,
                              l2_Tx = types_NewTx rlp legacyTx, l2_Data = []\<rparr>))))))))))"

text \<open>
  The loop of \<open>DecodeBatchV2\<close>. Nothing in its text bounds the number of rounds, so it is a partial
  function: \<open>None\<close> is a loop that does not end.
\<close>

definition closed :: "L2BlockRaw option \<Rightarrow> L2BlockRaw list \<Rightarrow> L2BlockRaw list" where
  "closed currentBlock blocks = (case currentBlock of None \<Rightarrow> blocks | Some b \<Rightarrow> blocks @ [b])"

partial_function (option) DecodeBatchV2_loop ::
  "rlp_lib \<Rightarrow> bytes \<Rightarrow> nat \<Rightarrow> L2BlockRaw option \<Rightarrow> L2BlockRaw list \<Rightarrow> (error + L2BlockRaw list) option"
where
  "DecodeBatchV2_loop rlp txsData pos currentBlock blocks =
     (if pos \<ge> length txsData then Some (Inr (closed currentBlock blocks))
      else if txsData ! pos = changeL2Block
      then (case decodeBlockHeader txsData (pos + 1) of
              Inl e \<Rightarrow> Some (Inl e)
            | Inr (pos1, b) \<Rightarrow> DecodeBatchV2_loop rlp txsData pos1 (Some b) (closed currentBlock blocks))
      else (case currentBlock of
              None \<Rightarrow> (case DecodeTxRLP rlp txsData pos of
                         Inr _ \<Rightarrow> Some (Inl ErrBatchV2DontStartWithChangeL2Block)
                       | Inl e \<Rightarrow> Some (Inl (if e = ErrPanic then ErrPanic else ErrInvalidBatchV2)))
            | Some b \<Rightarrow>
                (case DecodeTxRLP rlp txsData pos of
                   Inl e \<Rightarrow> Some (Inl e)
                 | Inr (pos1, tx) \<Rightarrow>
                     DecodeBatchV2_loop rlp txsData pos1
                       (Some (b\<lparr>bl_Transactions := bl_Transactions b @ [tx]\<rparr>)) blocks)))"

definition DecodeBatchV2 :: "rlp_lib \<Rightarrow> bytes \<Rightarrow> (error + BatchRawV2) option" where
  "DecodeBatchV2 rlp txsData =
     map_option (map_sum id (\<lambda>bs. \<lparr>Blocks = bs\<rparr>)) (DecodeBatchV2_loop rlp txsData 0 None [])"

text \<open>
  \<open>DecodeTxs\<close> for batches without block headers. The error variable it returns for a header that is
  cut off is the one of a call that succeeded: the result is then an empty list and no error.
\<close>

definition tx_end :: "u64 \<Rightarrow> u64 \<Rightarrow> u64 \<Rightarrow> u64" where
  "tx_end forkID pos len = pos + len + 32 + 32 + 1 + 1 + (if forkID \<ge> 5 then 1 else 0)"

datatype len_result = Len u64 | Cut | Fail error

definition DecodeTxs_length :: "bytes \<Rightarrow> u64 \<Rightarrow> len_result" where
  "DecodeTxs_length txsData pos =
     (let num = ucast (txsData ! unat pos) :: u64 in
      if num < 192 then Fail ErrInvalidData
      else if num - 192 > 55
      then if pos + 1 + num - 247 > of_nat (length txsData) then Cut
           else (case bind_err (slice txsData (pos + 1) (pos + 1 + num - 247)) (\<lambda>sizeBytes. ParseUint16 (EncodeToString sizeBytes)) of
                   Inl e \<Rightarrow> Fail e
                 | Inr n \<Rightarrow> if n + num < 247 then Fail ErrInvalidData else Len (n + num - 247))
      else Len (num - 192))"

definition DecodeTxs_tx :: "rlp_lib \<Rightarrow> bytes \<Rightarrow> u64 \<Rightarrow> u64 \<Rightarrow> u64 \<Rightarrow> error + u64 \<times> Transaction \<times> u8 list" where
  "DecodeTxs_tx rlp txsData forkID pos len =
     (let endPos = tx_end forkID pos len; dataStart = pos + len + 1 in
      if endPos > of_nat (length txsData) then Inl ErrInvalidData
      else if endPos < pos then Inl ErrInvalidData
      else bind_err (slice txsData pos endPos) (\<lambda>fullDataTx.
           bind_err (slice txsData pos dataStart) (\<lambda>txInfo.
           bind_err (slice txsData dataStart (dataStart + 32)) (\<lambda>rData.
           bind_err (slice txsData (dataStart + 32) (dataStart + 32 + 32)) (\<lambda>sData.
           bind_err (slice txsData (dataStart + 32 + 32) (dataStart + 32 + 32 + 1)) (\<lambda>vData.
           bind_err (if forkID \<ge> 5
                     then bind_err (slice txsData (dataStart + 32 + 32 + 1) endPos) (\<lambda>e.
                          bind_err (byte_at e 0) (\<lambda>b. Inr [b]))
                     else Inr []) (\<lambda>efficiencyPercentage.
           bind_err (case rlp_DecodeBytes rlp txInfo of Inl _ \<Rightarrow> Inl ErrInvalidData | Inr fs \<Rightarrow> Inr fs) (\<lambda>rlpFields.
           bind_err (RlpFieldsToLegacyTx rlpFields vData rData sData) (\<lambda>legacyTx.
             Inr (endPos, types_NewTx rlp legacyTx, efficiencyPercentage))))))))))"

partial_function (option) DecodeTxs_loop ::
  "rlp_lib \<Rightarrow> bytes \<Rightarrow> u64 \<Rightarrow> u64 \<Rightarrow> Transaction list \<Rightarrow> u8 list \<Rightarrow> (error + Transaction list \<times> u8 list) option"
where
  "DecodeTxs_loop rlp txsData forkID pos txs percentages =
     (if pos \<ge> of_nat (length txsData) then Some (Inr (txs, percentages))
      else (case DecodeTxs_length txsData pos of
              Fail e \<Rightarrow> Some (Inl e)
            | Cut \<Rightarrow> Some (Inr ([], []))
            | Len len \<Rightarrow>
                (case DecodeTxs_tx rlp txsData forkID pos len of
                   Inl e \<Rightarrow> Some (Inl e)
                 | Inr (endPos, tx, percentage) \<Rightarrow>
                     DecodeTxs_loop rlp txsData forkID endPos (txs @ [tx]) (percentages @ percentage))))"

definition DecodeTxs :: "rlp_lib \<Rightarrow> bytes \<Rightarrow> u64 \<Rightarrow> (error + Transaction list \<times> u8 list) option" where
  "DecodeTxs rlp txsData forkID =
     (if txsData = [] then Some (Inr ([], [])) else DecodeTxs_loop rlp txsData forkID 0 [] [])"

definition DecodeForcedBatchV2 :: "rlp_lib \<Rightarrow> bytes \<Rightarrow> (error + ForcedBatchRawV2) option" where
  "DecodeForcedBatchV2 rlp txsData =
     map_option (\<lambda>r. bind_err r (\<lambda>(txs, efficiencyPercentages).
       if length efficiencyPercentages \<noteq> length txs then Inl ErrInvalidRLP
       else Inr \<lparr>fb_Transactions =
              map (\<lambda>(tx, p). \<lparr>EfficiencyPercentage = p, TxAlreadyEncoded = False, l2_Tx = tx, l2_Data = []\<rparr>)
                (zip txs efficiencyPercentages)\<rparr>))
       (DecodeTxs rlp txsData 7)"

section \<open>Well-formed transactions\<close>

text \<open>
  What RLP promises: an integer is its shortest big-endian string, a list is a header with the length of its
  payload and the payload, and decoding gives back the strings.
\<close>

definition rlp_bytes :: "rlp_value \<Rightarrow> bytes" where
  "rlp_bytes v = (case v of RlpUint n \<Rightarrow> nat_bytes n | RlpBig n \<Rightarrow> nat_bytes (nat n)
     | RlpAddress a \<Rightarrow> (case a of None \<Rightarrow> [] | Some x \<Rightarrow> addr_bytes x) | RlpBytes b \<Rightarrow> b)"

lemma rlp_bytes_simps [simp]:
  "rlp_bytes (RlpUint n) = nat_bytes n" "rlp_bytes (RlpBig i) = nat_bytes (nat i)" "rlp_bytes (RlpBytes b) = b"
  by (simp_all add: rlp_bytes_def)

definition rlp_list :: "bytes \<Rightarrow> bytes" where
  "rlp_list p =
     (if length p \<le> 55 then of_nat (192 + length p) # p
      else of_nat (247 + length (nat_bytes (length p))) # nat_bytes (length p) @ p)"

definition rlp_law :: "rlp_lib \<Rightarrow> rlp_value list \<Rightarrow> bool" where
  "rlp_law rlp vs \<longleftrightarrow>
     (\<exists>p. rlp_EncodeToBytes rlp vs = Inr (rlp_list p) \<and> rlp_DecodeBytes rlp (rlp_list p) = Inr (map rlp_bytes vs))"

definition legacy_of :: "Transaction \<Rightarrow> LegacyTx" where
  "legacy_of tx = \<lparr>lt_Nonce = tx_Nonce tx, lt_GasPrice = tx_GasPrice tx, lt_Gas = tx_Gas tx, lt_To = tx_To tx,
     lt_Value = tx_Value tx, lt_Data = tx_Data tx, lt_V = tx_V tx, lt_R = tx_R tx, lt_S = tx_S tx\<rparr>"

text \<open>A signed legacy transaction, with or without the chain id in its signature (EIP-155).\<close>

definition signed_legacy :: "rlp_lib \<Rightarrow> Transaction \<Rightarrow> bool" where
  "signed_legacy rlp tx \<longleftrightarrow>
     tx_Type tx \<noteq> 2 \<and> 0 \<le> tx_GasPrice tx \<and> 0 \<le> tx_Value tx \<and>
     0 \<le> tx_R tx \<and> tx_R tx < 2 ^ 256 \<and> 0 \<le> tx_S tx \<and> tx_S tx < 2 ^ 256 \<and>
     (tx_ChainId tx = 0 \<and> tx_V tx \<in> {27, 28} \<or>
      0 \<le> tx_ChainId tx \<and> tx_V tx \<in> {35 + 2 * tx_ChainId tx, 36 + 2 * tx_ChainId tx}) \<and>
     types_NewTx rlp (legacy_of tx) = tx"

section \<open>Hexadecimal text of fixed width\<close>

fun hexw :: "nat \<Rightarrow> nat \<Rightarrow> string" where
  "hexw 0 n = []"
| "hexw (Suc k) n = hexw k (n div 16) @ [hex_char (n mod 16)]"

lemma length_hexw [simp]: "length (hexw k n) = k"
  by (induction k arbitrary: n) auto

lemma hexw_0: "hexw k 0 = replicate k CHR ''0''"
  by (induction k) (simp_all add: hex_char_def replicate_append_same)

lemma zero_pad_nat_hex: "0 < k \<Longrightarrow> n < 16 ^ k \<Longrightarrow> zero_pad k (nat_hex n) = hexw k n"
proof (induction k arbitrary: n)
  case (Suc k)
  show ?case
  proof (cases "n < 16")
    case True
    then show ?thesis by (simp add: nat_hex.simps zero_pad_def hexw_0)
  next
    case False
    then have k: "0 < k" using Suc.prems by (cases k) auto
    have "n div 16 < 16 ^ k" using Suc.prems by (simp add: div_less_iff_less_mult mult.commute)
    from Suc.IH [OF k this] False show ?thesis
      by (subst nat_hex.simps) (simp add: zero_pad_def)
  qed
qed simp

lemma hexw_two: "hexw (Suc (Suc k)) n = hexw k (n div 256) @ [hex_char (n div 16 mod 16), hex_char (n mod 16)]"
  by (simp add: div_mult2_eq [symmetric])

lemma EncodeToString_hexw: "EncodeToString bs = hexw (2 * length bs) (be_value bs)"
proof (induction bs rule: rev_induct)
  case (snoc b bs)
  have v: "be_value (bs @ [b]) = be_value bs * 256 + unat b" by (simp add: be_value_append be_value_Cons)
  have b: "unat b < 256" using unat_less [of b] by simp
  have "2 * length (bs @ [b]) = Suc (Suc (2 * length bs))" by simp
  then have "hexw (2 * length (bs @ [b])) (be_value (bs @ [b])) =
      hexw (2 * length bs) (be_value (bs @ [b]) div 256) @
      [hex_char (be_value (bs @ [b]) div 16 mod 16), hex_char (be_value (bs @ [b]) mod 16)]"
    by (simp only: hexw_two)
  moreover have "be_value (bs @ [b]) div 256 = be_value bs" using v b by simp
  moreover have "be_value (bs @ [b]) div 16 mod 16 = unat b div 16"
  proof -
    have "be_value (bs @ [b]) div 16 = 16 * be_value bs + unat b div 16" using v by simp
    then show ?thesis using byte_hex_digits(1) [of b] by simp
  qed
  moreover have "be_value (bs @ [b]) mod 16 = unat b mod 16"
  proof -
    have "be_value (bs @ [b]) = unat b + 16 * (16 * be_value bs)" using v by simp
    then show ?thesis by (simp only: mod_mult_self2)
  qed
  ultimately show ?case by (simp add: snoc.IH EncodeToString_append EncodeToString_Cons byte_hex_def EncodeToString_def [of "[]"])
qed (simp add: EncodeToString_def)

lemma zero_pad_hash:
  assumes "0 \<le> n" and "n < 2 ^ 256"
  shows "zero_pad 64 (big_Text n) = EncodeToString (hash_bytes (of_int n))"
proof -
  have u: "unat (of_int n :: hash) = nat n" using assms by (simp add: unsigned_of_int take_bit_int_eq_self)
  have "be_value (hash_bytes (of_int n)) = nat n"
    using assms by (simp add: be_value_be_bytes u nat_less_iff)
  then have "EncodeToString (hash_bytes (of_int n)) = hexw 64 (nat n)" by (simp add: EncodeToString_hexw)
  moreover have "nat n < 16 ^ 64" using assms by (simp add: nat_less_iff)
  ultimately show ?thesis using assms by (simp add: big_Text_def zero_pad_nat_hex)
qed

section \<open>Encoding a transaction\<close>

definition sig_v :: "Transaction \<Rightarrow> u8" where
  "sig_v tx = (if odd (tx_V tx) then 27 else 28)"

lemma parity_word: "(of_int n :: u64) AND 1 = (if odd n then 1 else 0)"
proof -
  have "bit (of_int n :: u64) 0 \<longleftrightarrow> bit n 0" by (simp add: bit_word_of_int_iff)
  then have "odd (of_int n :: u64) \<longleftrightarrow> odd n" by (simp only: bit_0)
  then show ?thesis by (simp add: and_one_eq mod_2_eq_odd)
qed

lemma sign_text:
  assumes "0 \<le> tx_V tx"
  shows "zero_pad 2 (big_Text (27 + uint (1 - (big_Uint64 (tx_V tx) AND 1)))) = EncodeToString [sig_v tx]"
proof -
  have "27 + uint (1 - (big_Uint64 (tx_V tx) AND 1)) = int (unat (sig_v tx))"
    using assms by (simp add: big_Uint64_def parity_word sig_v_def)
  then have "zero_pad 2 (big_Text (27 + uint (1 - (big_Uint64 (tx_V tx) AND 1)))) = hexw 2 (unat (sig_v tx))"
    by (simp add: big_Text_def zero_pad_nat_hex unsigned_less [of "sig_v tx", simplified] sig_v_def)
  then show ?thesis by (simp add: EncodeToString_hexw be_value_Cons)
qed

lemma prepareRLPTxData_bytes:
  assumes "signed_legacy rlp tx" and "rlp_EncodeToBytes rlp (rlp_fields tx) = Inr enc"
  shows "prepareRLPTxData rlp tx =
    Inr (enc @ hash_bytes (of_int (tx_R tx)) @ hash_bytes (of_int (tx_S tx)) @ [sig_v tx])"
proof -
  have "0 \<le> tx_V tx" using assms(1) by (auto simp: signed_legacy_def)
  then have "prepareRLPTxData rlp tx =
      DecodeString (EncodeToString (enc @ hash_bytes (of_int (tx_R tx)) @ hash_bytes (of_int (tx_S tx)) @ [sig_v tx]))"
    using assms by (simp add: prepareRLPTxData_def signed_legacy_def zero_pad_hash sign_text EncodeToString_append Let_def)
  then show ?thesis by simp
qed

text \<open>The fields and the signature give back the transaction.\<close>

lemma pre155:
  assumes "signed_legacy rlp tx"
  shows "isPreEIP155Tx tx \<longleftrightarrow> tx_V tx \<in> {27, 28}"
proof -
  have "tx_V tx \<in> {27, 28}" if pre: "isPreEIP155Tx tx" and v: "tx_V tx = 35 + 2 * tx_ChainId tx + s" "s \<in> {0, 1}"
    "0 \<le> tx_ChainId tx" for s
  proof -
    have "(of_int (tx_ChainId tx) :: u64) = 0" using pre v(3) by (simp add: isPreEIP155Tx_def big_Uint64_def)
    then have "(of_int (tx_V tx) :: u64) = 35 + of_int s" using v(1) by simp
    moreover have "(of_int (tx_V tx) :: u64) \<in> {27, 28}" using pre v by (auto simp: isPreEIP155Tx_def big_Uint64_def)
    ultimately show ?thesis using v(2) by auto
  qed
  with assms show ?thesis by (auto simp: signed_legacy_def isPreEIP155Tx_def big_Uint64_def)
qed

lemma legacy_fields:
  assumes "signed_legacy rlp tx"
  shows "RlpFieldsToLegacyTx (map rlp_bytes (rlp_fields tx)) [sig_v tx] (hash_bytes (of_int (tx_R tx)))
      (hash_bytes (of_int (tx_S tx))) = Inr (legacy_of tx)"
proof -
  have rs: "int (be_value (hash_bytes (of_int n))) = n" if "0 \<le> n" "n < 2 ^ 256" for n
    using that by (simp add: be_value_be_bytes unsigned_of_int take_bit_int_eq_self nat_less_iff)
  have to: "(if rlp_bytes (RlpAddress a) \<noteq> [] then Some (BytesToAddress (rlp_bytes (RlpAddress a))) else None) = a" for a
  proof (cases a)
    case (Some x)
    have "be_value (addr_bytes x) = unat x" using unat_less [of x] by (simp add: be_value_be_bytes)
    moreover have "addr_bytes x \<noteq> []" by (metis length_be_bytes list.size(3) zero_neq_numeral)
    ultimately show ?thesis using Some by (simp add: rlp_bytes_def BytesToAddress_def)
  qed (simp add: rlp_bytes_def)
  show ?thesis
  proof (cases "isPreEIP155Tx tx")
    case True
    then have v: "int (be_value [sig_v tx]) = tx_V tx" using pre155 [OF assms] by (auto simp: sig_v_def be_value_Cons)
    have f: "map rlp_bytes (rlp_fields tx) = map rlp_bytes [RlpUint (unat (tx_Nonce tx)), RlpBig (tx_GasPrice tx),
        RlpUint (unat (tx_Gas tx)), RlpAddress (tx_To tx), RlpBig (tx_Value tx), RlpBytes (tx_Data tx)]"
      using assms True by (simp add: rlp_fields_def signed_legacy_def)
    show ?thesis
      unfolding f RlpFieldsToLegacyTx_def legacy_of_def
      using assms to [of "tx_To tx"] v by (simp add: signed_legacy_def rs split: if_splits)
  next
    case False
    then have v: "int (be_value [sig_v tx]) - 27 + (tx_ChainId tx * 2 + 35) = tx_V tx" "0 \<le> tx_ChainId tx"
      using pre155 [OF assms] assms by (auto simp: sig_v_def be_value_Cons signed_legacy_def)
    have f: "map rlp_bytes (rlp_fields tx) = map rlp_bytes [RlpUint (unat (tx_Nonce tx)), RlpBig (tx_GasPrice tx),
        RlpUint (unat (tx_Gas tx)), RlpAddress (tx_To tx), RlpBig (tx_Value tx), RlpBytes (tx_Data tx),
        RlpBig (tx_ChainId tx), RlpUint 0, RlpUint 0]"
      using assms False by (simp add: rlp_fields_def signed_legacy_def)
    show ?thesis
      unfolding f RlpFieldsToLegacyTx_def legacy_of_def
      using assms to [of "tx_To tx"] v by (simp add: signed_legacy_def rs split: if_splits)
  qed
qed

section \<open>Decoding what was encoded\<close>

lemma take_drop_middle: "take (length ys) (drop (length xs) (xs @ ys @ zs)) = ys"
  by simp

lemma slice_middle:
  assumes "length xs + length ys + length zs < 2 ^ 63"
  shows "slice (xs @ ys @ zs) (of_nat (length xs)) (of_nat (length xs) + of_nat (length ys)) = Inr ys"
proof -
  have a: "unat (of_nat (length xs) :: u64) = length xs"
    using assms by (simp add: unsigned_of_nat take_bit_nat_eq_self)
  have "(of_nat (length xs) + of_nat (length ys) :: u64) = of_nat (length xs + length ys)" by simp
  moreover have b: "unat (of_nat (length xs + length ys) :: u64) = length xs + length ys"
    using assms by (simp add: unsigned_of_nat take_bit_nat_eq_self del: of_nat_add)
  ultimately show ?thesis using a by (simp add: slice_def word_le_nat_alt del: of_nat_add)
qed

lemma nat_bytes_Nil [simp]: "nat_bytes n = [] \<longleftrightarrow> n = 0"
  by (subst nat_bytes.simps) simp

lemma rlp_list_Cons:
  assumes "length p < 2 ^ 63"
  obtains b rest where "rlp_list p = b # rest" and "192 \<le> b"
proof (cases "length p \<le> 55")
  case True
  then have "192 \<le> (of_nat (192 + length p) :: u8)"
    by (simp add: word_le_nat_alt unsigned_of_nat take_bit_nat_eq_self del: of_nat_add)
  with True that show ?thesis by (simp add: rlp_list_def)
next
  case False
  have "length (nat_bytes (length p)) \<le> 8" using assms by (subst length_nat_bytes) simp
  then have "192 \<le> (of_nat (247 + length (nat_bytes (length p))) :: u8)"
    by (simp add: word_le_nat_alt unsigned_of_nat take_bit_nat_eq_self del: of_nat_add)
  with False that show ?thesis by (simp add: rlp_list_def)
qed

text \<open>The length read from a list header is the length of the coded list.\<close>

lemma list_length_read:
  assumes "length xs + length (rlp_list p) + length zs < 2 ^ 63"
  shows "decodeRLPListLengthFromOffset (xs @ rlp_list p @ zs) (length xs) = Inr (of_nat (length (rlp_list p)))"
proof (cases "length p \<le> 55")
  case True
  have h: "unat (of_nat (192 + length p) :: u8) = 192 + length p"
    using True by (simp add: unsigned_of_nat take_bit_nat_eq_self del: of_nat_add)
  have u: "(ucast (of_nat (192 + length p) :: u8) :: u64) = of_nat (192 + length p)"
    by (metis h of_nat_unat)
  have n: "unat (of_nat (192 + length p) :: u64) = 192 + length p" "unat (of_nat (length p) :: u64) = length p"
    using True by (simp_all add: unsigned_of_nat take_bit_nat_eq_self del: of_nat_add)
  have "(of_nat (192 + length p) :: u64) - 192 = of_nat (length p)" by simp
  moreover have "\<not> (of_nat (192 + length p) :: u64) < 192" "\<not> 55 < (of_nat (length p) :: u64)"
    using n True by (simp_all add: word_less_nat_alt)
  ultimately show ?thesis
    using True u by (simp add: decodeRLPListLengthFromOffset_def byte_at_def rlp_list_def nth_append Let_def)
next
  case False
  let ?lb = "nat_bytes (length p)"
  have lb: "length ?lb \<le> 8" using assms False by (subst length_nat_bytes) (simp add: rlp_list_def)
  have ne: "?lb \<noteq> []" "0 < length ?lb" using False by auto
  have h: "unat (of_nat (247 + length ?lb) :: u8) = 247 + length ?lb"
    using lb by (simp add: unsigned_of_nat take_bit_nat_eq_self del: of_nat_add)
  have u: "(ucast (of_nat (247 + length ?lb) :: u8) :: u64) = of_nat (247 + length ?lb)"
    by (metis h of_nat_unat)
  have small: "unat (of_nat m :: u64) = m" if "m < 2 ^ 64" for m
    using that by (simp add: unsigned_of_nat take_bit_nat_eq_self)
  have num: "\<not> (of_nat (247 + length ?lb) :: u64) < 192" "55 < (of_nat (247 + length ?lb) - 192 :: u64)"
    "(of_nat (247 + length ?lb) - 247 :: u64) = of_nat (length ?lb)"
  proof -
    show "\<not> (of_nat (247 + length ?lb) :: u64) < 192"
      using lb small [of "247 + length ?lb"] by (simp add: word_less_nat_alt del: of_nat_add)
    have "(of_nat (247 + length ?lb) - 192 :: u64) = of_nat (55 + length ?lb)" by simp
    then show "55 < (of_nat (247 + length ?lb) - 192 :: u64)"
      using lb ne small [of "55 + length ?lb"] by (simp add: word_less_nat_alt del: of_nat_add)
  qed simp
  let ?d = "xs @ rlp_list p @ zs" and ?h = "of_nat (247 + length ?lb) :: u8"
  have d: "?d = (xs @ [?h]) @ ?lb @ p @ zs" using False by (simp add: rlp_list_def)
  have len: "length ?d < 2 ^ 63" using assms by simp
  have sl: "slice ?d (of_nat (length xs) + 1) (of_nat (length xs) + 1 + of_nat (length ?lb)) = Inr ?lb"
    using slice_middle [of "xs @ [?h]" ?lb "p @ zs"] len unfolding d by (simp add: add.commute)
  have "\<not> of_nat (length xs) + 1 + of_nat (length ?lb) > (of_nat (length ?d) :: u64)"
  proof -
    have le: "length xs + 1 + length ?lb \<le> length ?d" unfolding d by simp
    have len64: "length ?d < 2 ^ 64" using len by simp
    have "unat (of_nat (length xs + 1 + length ?lb) :: u64) \<le> unat (of_nat (length ?d) :: u64)"
      by (subst (1 2) small) (use le len64 in linarith)+
    moreover have "(of_nat (length xs) + 1 + of_nat (length ?lb) :: u64) = of_nat (length xs + 1 + length ?lb)" by simp
    ultimately show ?thesis by (simp only: word_less_nat_alt not_less)
  qed
  moreover have "ParseUint16 (EncodeToString ?lb) = Inr (of_nat (length p))"
    using ne assms False by (simp add: ParseUint16_EncodeToString rlp_list_def)
  moreover have "byte_at ?d (length xs) = Inr ?h" by (simp add: byte_at_def d nth_append)
  moreover have "length (rlp_list p) = length p + length ?lb + 1" using False by (simp add: rlp_list_def)
  ultimately show ?thesis
    using u num sl by (simp add: decodeRLPListLengthFromOffset_def Let_def del: of_nat_add append_assoc) simp
qed

definition tx_bytes :: "bytes \<Rightarrow> L2TxRaw \<Rightarrow> bytes" where
  "tx_bytes p tx = rlp_list p @ hash_bytes (of_int (tx_R (l2_Tx tx))) @ hash_bytes (of_int (tx_S (l2_Tx tx))) @
     [sig_v (l2_Tx tx), EfficiencyPercentage tx]"

lemma length_tx_bytes: "length (tx_bytes p tx) = length (rlp_list p) + 66"
  by (simp add: tx_bytes_def)

text \<open>A transaction decodes from the middle of the data.\<close>

lemma DecodeTxRLP_tx_bytes:
  assumes "signed_legacy rlp (l2_Tx tx)" and "rlp_DecodeBytes rlp (rlp_list p) = Inr (map rlp_bytes (rlp_fields (l2_Tx tx)))"
    and "length xs + length (tx_bytes p tx) + length zs < 2 ^ 63"
  shows "DecodeTxRLP rlp (xs @ tx_bytes p tx @ zs) (length xs) =
    Inr (length xs + length (tx_bytes p tx),
         \<lparr>EfficiencyPercentage = EfficiencyPercentage tx, TxAlreadyEncoded = False, l2_Tx = l2_Tx tx, l2_Data = []\<rparr>)"
proof -
  let ?t = "l2_Tx tx" and ?d = "xs @ tx_bytes p tx @ zs"
  let ?R = "hash_bytes (of_int (tx_R ?t))" and ?S = "hash_bytes (of_int (tx_S ?t))" and ?e = "EfficiencyPercentage tx"
  let ?x = "of_nat (length xs) :: u64" and ?l = "of_nat (length (rlp_list p)) :: u64"
  have len: "length ?d < 2 ^ 63" using assms(3) by simp
  have small: "unat (of_nat m :: u64) = m" if "m \<le> length ?d" for m
    using that len by (simp add: unsigned_of_nat take_bit_nat_eq_self)
  have le: "length xs + length (rlp_list p) + 66 \<le> length ?d" by (simp add: length_tx_bytes)
  have hl: "decodeRLPListLengthFromOffset ?d (length xs) = Inr ?l"
    using list_length_read [of xs p "?R @ ?S @ [sig_v ?t, ?e] @ zs"] len by (simp add: tx_bytes_def)
  have ds: "?x + ?l = of_nat (length xs + length (rlp_list p))" by simp
  have ep: "?x + ?l + 32 + 32 + 1 + 1 = of_nat (length xs + length (rlp_list p) + 66)" by simp
  have "unat (of_nat (length xs + length (rlp_list p) + 66) :: u64) \<le> unat (of_nat (length ?d) :: u64)"
    by (subst (1 2) small) (use le in simp_all)
  then have g: "\<not> ?x + ?l + 32 + 32 + 1 + 1 > of_nat (length ?d)"
    unfolding ep by (simp only: word_less_nat_alt not_less)
  have s1: "slice ?d ?x (?x + ?l + 32 + 32 + 1 + 1) = Inr (tx_bytes p tx)"
    using slice_middle [of xs "tx_bytes p tx" zs] len unfolding ep by (simp add: length_tx_bytes add.assoc)
  have s2: "slice ?d ?x (?x + ?l) = Inr (rlp_list p)"
    using slice_middle [of xs "rlp_list p" "?R @ ?S @ [sig_v ?t, ?e] @ zs"] len by (simp add: tx_bytes_def)
  have s3: "slice ?d (?x + ?l) (?x + ?l + 32) = Inr ?R"
    using slice_middle [of "xs @ rlp_list p" ?R "?S @ [sig_v ?t, ?e] @ zs"] len by (simp add: tx_bytes_def)
  have s4: "slice ?d (?x + ?l + 32) (?x + ?l + 32 + 32) = Inr ?S"
    using slice_middle [of "xs @ rlp_list p @ ?R" ?S "[sig_v ?t, ?e] @ zs"] len by (simp add: tx_bytes_def add.assoc)
  have s5: "slice ?d (?x + ?l + 32 + 32) (?x + ?l + 32 + 32 + 1) = Inr [sig_v ?t]"
    using slice_middle [of "xs @ rlp_list p @ ?R @ ?S" "[sig_v ?t]" "?e # zs"] len by (simp add: tx_bytes_def add.assoc)
  have "unat (?x + ?l + 32 + 32 + 1) = length xs + length (rlp_list p) + 65"
    using small [of "length xs + length (rlp_list p) + 65"] le by (simp add: add.assoc)
  moreover have "byte_at ?d (length xs + length (rlp_list p) + 65) = Inr ?e"
    by (simp add: byte_at_def tx_bytes_def nth_append)
  ultimately have s6: "byte_at ?d (unat (?x + ?l + 32 + 32 + 1)) = Inr ?e" by simp
  have u: "unat (?x + ?l + 32 + 32 + 1 + 1) = length xs + length (tx_bytes p tx)"
    unfolding ep using small [of "length xs + length (rlp_list p) + 66"] le by (simp add: length_tx_bytes)
  have nt: "types_NewTx rlp (legacy_of ?t) = ?t" using assms(1) by (simp add: signed_legacy_def)
  show ?thesis
    by (simp only: DecodeTxRLP_def hl g s1 s2 s3 s4 s5 s6 u assms(2) legacy_fields [OF assms(1)] nt bind_err_simps Let_def if_False)
qed

definition tx_ok :: "rlp_lib \<Rightarrow> L2TxRaw \<Rightarrow> bool" where
  "tx_ok rlp tx \<longleftrightarrow> \<not> TxAlreadyEncoded tx \<and> l2_Data tx = [] \<and> signed_legacy rlp (l2_Tx tx) \<and>
     rlp_law rlp (rlp_fields (l2_Tx tx))"

definition block_ok :: "rlp_lib \<Rightarrow> L2BlockRaw \<Rightarrow> bool" where
  "block_ok rlp b \<longleftrightarrow> BlockNumber b = 0 \<and> (\<forall>tx\<in>set (bl_Transactions b). tx_ok rlp tx)"

lemma AddTransaction_bytes:
  assumes "tx_ok rlp tx"
  obtains p where "AddTransaction rlp tx b = Inr (b @ tx_bytes p tx)"
    and "rlp_DecodeBytes rlp (rlp_list p) = Inr (map rlp_bytes (rlp_fields (l2_Tx tx)))"
proof -
  obtain p where "rlp_EncodeToBytes rlp (rlp_fields (l2_Tx tx)) = Inr (rlp_list p)"
    and "rlp_DecodeBytes rlp (rlp_list p) = Inr (map rlp_bytes (rlp_fields (l2_Tx tx)))"
    using assms by (auto simp: tx_ok_def rlp_law_def)
  with prepareRLPTxData_bytes [of rlp "l2_Tx tx" "rlp_list p"] assms that show ?thesis
    by (simp add: AddTransaction_def L2TxRaw_Encode_def tx_ok_def tx_bytes_def)
qed

lemma DecodeBatchV2_loop_tx:
  assumes "tx_ok rlp tx" and "rlp_DecodeBytes rlp (rlp_list p) = Inr (map rlp_bytes (rlp_fields (l2_Tx tx)))"
    and "length (xs @ tx_bytes p tx @ zs) < 2 ^ 63"
  shows "DecodeBatchV2_loop rlp (xs @ tx_bytes p tx @ zs) (length xs) (Some b) blocks =
    DecodeBatchV2_loop rlp (xs @ tx_bytes p tx @ zs) (length (xs @ tx_bytes p tx))
      (Some (b\<lparr>bl_Transactions := bl_Transactions b @ [tx]\<rparr>)) blocks"
proof -
  let ?d = "xs @ tx_bytes p tx @ zs"
  have tx: "\<lparr>EfficiencyPercentage = EfficiencyPercentage tx, TxAlreadyEncoded = False, l2_Tx = l2_Tx tx, l2_Data = []\<rparr> = tx"
    using assms(1) by (simp add: tx_ok_def)
  have d: "DecodeTxRLP rlp ?d (length xs) = Inr (length xs + length (tx_bytes p tx), tx)"
    using DecodeTxRLP_tx_bytes [of rlp tx p xs zs] assms tx by (simp add: tx_ok_def)
  have "length p < 2 ^ 63" using assms(3) by (auto simp: tx_bytes_def rlp_list_def split: if_splits)
  then obtain c rest where c: "rlp_list p = c # rest" "192 \<le> c" by (rule rlp_list_Cons)
  have "c \<noteq> changeL2Block"
  proof
    assume "c = changeL2Block"
    with c(2) have "192 \<le> (11 :: u8)" by (simp add: changeL2Block_def)
    then show False by simp
  qed
  then have "?d ! length xs \<noteq> changeL2Block" using c(1) by (simp add: tx_bytes_def nth_append)
  moreover have "tx_bytes p tx \<noteq> []" by (metis length_tx_bytes add_is_0 list.size(3) zero_neq_numeral)
  ultimately show ?thesis using d by (subst DecodeBatchV2_loop.simps) simp
qed

lemma DecodeBatchV2_loop_txs:
  assumes "\<forall>tx\<in>set txs. tx_ok rlp tx" and "AddTransactions rlp txs b = Inr b'"
  shows "\<exists>ext. b' = b @ ext \<and> (\<forall>zs blk blocks. length (b' @ zs) < 2 ^ 63 \<longrightarrow>
    DecodeBatchV2_loop rlp (b' @ zs) (length b) (Some blk) blocks =
    DecodeBatchV2_loop rlp (b' @ zs) (length b') (Some (blk\<lparr>bl_Transactions := bl_Transactions blk @ txs\<rparr>)) blocks)"
  using assms
proof (induction txs arbitrary: b)
  case (Cons tx txs)
  obtain p where p: "AddTransaction rlp tx b = Inr (b @ tx_bytes p tx)"
    and dec: "rlp_DecodeBytes rlp (rlp_list p) = Inr (map rlp_bytes (rlp_fields (l2_Tx tx)))"
    using Cons.prems(1) AddTransaction_bytes [of rlp tx] by (metis list.set_intros(1))
  have "AddTransactions rlp txs (b @ tx_bytes p tx) = Inr b'" using Cons.prems(2) p by simp
  from Cons.IH [OF _ this] Cons.prems(1) obtain ext where b': "b' = (b @ tx_bytes p tx) @ ext"
    and ih: "\<And>zs blk blocks. length (b' @ zs) < 2 ^ 63 \<Longrightarrow>
      DecodeBatchV2_loop rlp (b' @ zs) (length (b @ tx_bytes p tx)) (Some blk) blocks =
      DecodeBatchV2_loop rlp (b' @ zs) (length b') (Some (blk\<lparr>bl_Transactions := bl_Transactions blk @ txs\<rparr>)) blocks"
    by auto
  have "DecodeBatchV2_loop rlp (b' @ zs) (length b) (Some blk) blocks =
      DecodeBatchV2_loop rlp (b' @ zs) (length b') (Some (blk\<lparr>bl_Transactions := bl_Transactions blk @ tx # txs\<rparr>)) blocks"
    if len: "length (b' @ zs) < 2 ^ 63" for zs blk blocks
  proof -
    have ok: "tx_ok rlp tx" using Cons.prems(1) by simp
    have "DecodeBatchV2_loop rlp (b' @ zs) (length b) (Some blk) blocks =
        DecodeBatchV2_loop rlp (b' @ zs) (length (b @ tx_bytes p tx))
          (Some (blk\<lparr>bl_Transactions := bl_Transactions blk @ [tx]\<rparr>)) blocks"
      using DecodeBatchV2_loop_tx [OF ok dec, of b "ext @ zs"] len b' by simp
    also note ih [OF len]
    finally show ?thesis by simp
  qed
  with b' show ?case by auto
qed simp

lemma decodeUint32_middle:
  "decodeUint32 (xs @ encodeUint32 w @ zs) (length xs) = Inr (length xs + 4, w)"
proof -
  have "unat w < 256 ^ 4" using unat_less [of w] by simp
  then show ?thesis by (simp add: decodeUint32_def encodeUint32_def be_value_be_bytes)
qed

lemma DecodeBatchV2_loop_header:
  assumes "d = AddBlockHeader h xs @ zs"
  shows "DecodeBatchV2_loop rlp d (length xs) cur blocks =
    DecodeBatchV2_loop rlp d (length (AddBlockHeader h xs))
      (Some \<lparr>BlockNumber = 0, bl_Header = h, bl_Transactions = []\<rparr>) (closed cur blocks)"
proof -
  let ?a = "encodeUint32 (DeltaTimestamp h)" and ?b = "encodeUint32 (IndexL1InfoTree h)"
  have d: "d = xs @ [changeL2Block] @ ?a @ ?b @ zs"
    using assms by (simp add: AddBlockHeader_def ChangeL2BlockHeader_Encode_def)
  have l: "length ?a = 4" "length ?b = 4" by (simp_all add: encodeUint32_def)
  have "decodeUint32 d (length xs + 1) = Inr (length xs + 1 + 4, DeltaTimestamp h)"
    using decodeUint32_middle [of "xs @ [changeL2Block]" "DeltaTimestamp h" "?b @ zs"] d by simp
  moreover have "decodeUint32 d (length xs + 1 + 4) = Inr (length xs + 1 + 4 + 4, IndexL1InfoTree h)"
    using decodeUint32_middle [of "xs @ [changeL2Block] @ ?a" "IndexL1InfoTree h" zs] d l by (simp add: add.commute)
  ultimately have "decodeBlockHeader d (length xs + 1) =
      Inr (length xs + 1 + 4 + 4, \<lparr>BlockNumber = 0, bl_Header = h, bl_Transactions = []\<rparr>)"
    by (simp add: decodeBlockHeader_def)
  moreover have "d ! length xs = changeL2Block" "length xs < length d" using d by (simp_all add: nth_append)
  moreover have "length (AddBlockHeader h xs) = length xs + 1 + 4 + 4"
    using l by (simp add: AddBlockHeader_def ChangeL2BlockHeader_Encode_def)
  ultimately show ?thesis by (subst DecodeBatchV2_loop.simps) simp
qed

lemma AddBlockHeader_extends: "\<exists>ext. AddBlockHeader h b = b @ ext"
  by (auto simp: AddBlockHeader_def ChangeL2BlockHeader_Encode_def)

lemma DecodeBatchV2_loop_blocks:
  assumes "\<forall>b\<in>set bs. block_ok rlp b" and "encode_blocks rlp bs b = Inr b'"
  shows "\<exists>ext. b' = b @ ext \<and> (\<forall>zs cur blocks. length (b' @ zs) < 2 ^ 63 \<longrightarrow> (\<exists>cur' blocks'.
    DecodeBatchV2_loop rlp (b' @ zs) (length b) cur blocks = DecodeBatchV2_loop rlp (b' @ zs) (length b') cur' blocks' \<and>
    closed cur' blocks' = closed cur blocks @ bs))"
  using assms
proof (induction bs arbitrary: b)
  case Nil
  then show ?case by (metis append_Nil2 encode_blocks.simps(1) sum.inject(2))
next
  case (Cons blk bs)
  let ?h = "AddBlockHeader (bl_Header blk) b"
  from Cons.prems(2) obtain b1 where b1: "AddTransactions rlp (bl_Transactions blk) ?h = Inr b1"
    and rest: "encode_blocks rlp bs b1 = Inr b'" by (auto simp: bind_err_Inr)
  from Cons.prems(1) have ok: "\<forall>tx\<in>set (bl_Transactions blk). tx_ok rlp tx" and n0: "BlockNumber blk = 0"
    by (simp_all add: block_ok_def)
  from DecodeBatchV2_loop_txs [OF ok b1] obtain e1 where e1: "b1 = ?h @ e1"
    and tx: "\<And>zs blk0 blocks. length (b1 @ zs) < 2 ^ 63 \<Longrightarrow> DecodeBatchV2_loop rlp (b1 @ zs) (length ?h) (Some blk0) blocks =
      DecodeBatchV2_loop rlp (b1 @ zs) (length b1)
        (Some (blk0\<lparr>bl_Transactions := bl_Transactions blk0 @ bl_Transactions blk\<rparr>)) blocks" by auto
  from Cons.IH [OF _ rest] Cons.prems(1) obtain e2 where e2: "b' = b1 @ e2"
    and ih: "\<And>zs cur blocks. length (b' @ zs) < 2 ^ 63 \<Longrightarrow> \<exists>cur' blocks'.
      DecodeBatchV2_loop rlp (b' @ zs) (length b1) cur blocks = DecodeBatchV2_loop rlp (b' @ zs) (length b') cur' blocks' \<and>
      closed cur' blocks' = closed cur blocks @ bs" by auto
  obtain e0 where e0: "?h = b @ e0" using AddBlockHeader_extends by blast
  have "\<exists>cur' blocks'. DecodeBatchV2_loop rlp (b' @ zs) (length b) cur blocks =
      DecodeBatchV2_loop rlp (b' @ zs) (length b') cur' blocks' \<and> closed cur' blocks' = closed cur blocks @ blk # bs"
    if len: "length (b' @ zs) < 2 ^ 63" for zs cur blocks
  proof -
    let ?new = "\<lparr>BlockNumber = 0, bl_Header = bl_Header blk, bl_Transactions = []\<rparr>"
    have blk: "?new\<lparr>bl_Transactions := bl_Transactions ?new @ bl_Transactions blk\<rparr> = blk" using n0 by simp
    have "DecodeBatchV2_loop rlp (b' @ zs) (length b) cur blocks =
        DecodeBatchV2_loop rlp (b' @ zs) (length ?h) (Some ?new) (closed cur blocks)"
      by (rule DecodeBatchV2_loop_header [of _ _ _ "e1 @ e2 @ zs"]) (simp add: e1 e2)
    also have "\<dots> = DecodeBatchV2_loop rlp (b' @ zs) (length b1) (Some blk) (closed cur blocks)"
      using tx [of "e2 @ zs" ?new "closed cur blocks"] len e2 blk by simp
    finally show ?thesis using ih [OF len, of "Some blk" "closed cur blocks"] by (auto simp: closed_def)
  qed
  with e0 e1 e2 show ?case by auto
qed

section \<open>Termination\<close>

lemma slice_Inr: "slice data a b = Inr x \<Longrightarrow> a \<le> b \<and> unat b \<le> length data"
  by (auto simp: slice_def split: if_splits)

lemma unat_succ: "Suc (unat w) < 2 ^ 64 \<Longrightarrow> unat (w + 1) = Suc (unat w)" for w :: u64
proof -
  assume less: "Suc (unat w) < 2 ^ 64"
  have "1 + w \<noteq> 0"
  proof
    assume "1 + w = 0"
    then have "w = - 1" by (simp add: add_eq_0_iff)
    with less show False by (simp add: unsigned_minus_1_eq_mask mask_eq_exp_minus_1)
  qed
  then show ?thesis by (metis add.commute unatSuc)
qed

text \<open>Every decoded transaction moves the position forward, also where the lengths wrap around.\<close>

lemma DecodeTxRLP_progress:
  assumes "DecodeTxRLP rlp txsData pos = Inr (pos', tx)" and "pos < length txsData" and "length txsData < 2 ^ 64"
  shows "pos < pos' \<and> pos' \<le> length txsData"
proof -
  from assms(1) obtain len where
    g: "\<not> of_nat pos + len + 32 + 32 + 1 + 1 > (of_nat (length txsData) :: u64)"
    and b: "\<exists>x. slice txsData (of_nat pos) (of_nat pos + len) = Inr x"
      "\<exists>x. slice txsData (of_nat pos + len) (of_nat pos + len + 32) = Inr x"
      "\<exists>x. slice txsData (of_nat pos + len + 32) (of_nat pos + len + 32 + 32) = Inr x"
      "\<exists>x. slice txsData (of_nat pos + len + 32 + 32) (of_nat pos + len + 32 + 32 + 1) = Inr x"
      "unat (of_nat pos + len + 32 + 32 + 1 :: u64) < length txsData"
    and pos': "pos' = unat (of_nat pos + len + 32 + 32 + 1 + 1 :: u64)"
    by (auto simp: DecodeTxRLP_def bind_err_Inr Let_def byte_at_def split: if_splits)
  have p: "unat (of_nat pos :: u64) = pos" "unat (of_nat (length txsData) :: u64) = length txsData"
    using assms(2,3) by (simp_all add: unsigned_of_nat take_bit_nat_eq_self)
  have "(of_nat pos :: u64) \<le> of_nat pos + len + 32 + 32 + 1" using b(1-4) by (auto dest!: slice_Inr)
  then have "pos \<le> unat (of_nat pos + len + 32 + 32 + 1 :: u64)" using p by (simp add: word_le_nat_alt)
  moreover have "pos' = Suc (unat (of_nat pos + len + 32 + 32 + 1 :: u64))"
    unfolding pos' by (rule unat_succ) (use b(5) assms(3) in simp)
  ultimately show ?thesis using b(5) by simp
qed

lemma decodeBlockHeader_progress: "decodeBlockHeader txsData pos = Inr (pos', b) \<Longrightarrow> pos' = pos + 8"
  by (auto simp: decodeBlockHeader_def decodeUint32_def bind_err_Inr split: if_splits)

lemma DecodeBatchV2_loop_total:
  assumes "length txsData < 2 ^ 64"
  shows "\<exists>r. DecodeBatchV2_loop rlp txsData pos cur blocks = Some r"
proof (induction "length txsData - pos" arbitrary: pos cur blocks rule: less_induct)
  case less
  show ?case
  proof (cases "pos < length txsData")
    case False
    then show ?thesis by (subst DecodeBatchV2_loop.simps) simp
  next
    case lt: True
    have step: "\<exists>r. DecodeBatchV2_loop rlp txsData pos1 cur1 blocks1 = Some r" if "pos < pos1" for pos1 cur1 blocks1
      using less [of pos1] lt that by (simp add: diff_less_mono2)
    show ?thesis
    proof (cases "txsData ! pos = changeL2Block")
      case True
      have "pos < pos1" if "decodeBlockHeader txsData (pos + 1) = Inr (pos1, b)" for pos1 b
        using decodeBlockHeader_progress [OF that] by simp
      with True lt step show ?thesis
        by (subst DecodeBatchV2_loop.simps) (auto split: sum.split)
    next
      case False
      have "pos < pos1" if "DecodeTxRLP rlp txsData pos = Inr (pos1, tx)" for pos1 tx
        using DecodeTxRLP_progress [OF that lt assms] by simp
      with False lt step show ?thesis
        by (subst DecodeBatchV2_loop.simps) (auto split: sum.split option.split)
    qed
  qed
qed

section \<open>Properties\<close>

text \<open>C3. Batch data reads back: for a batch of blocks whose transactions are signed legacy transactions, decoding
  what \<open>EncodeBatchV2\<close> returned gives the batch, blocks, headers, transactions and efficiency
  percentages in order. RLP decodes what it encoded, and its list header is the documented one.\<close>

theorem batch_v2_roundtrip:
  assumes "\<forall>b\<in>set (Blocks batch). block_ok rlp b" and "EncodeBatchV2 rlp (Some batch) = Inr data"
    and "length data < 2 ^ 63"
  shows "DecodeBatchV2 rlp data = Some (Inr batch)"
proof -
  have "encode_blocks rlp (Blocks batch) [] = Inr data"
    using assms(2) by (simp add: EncodeBatchV2_def split: if_splits)
  from DecodeBatchV2_loop_blocks [OF assms(1) this]
  have "length (data @ []) < 2 ^ 63 \<longrightarrow> (\<exists>cur' blocks'.
      DecodeBatchV2_loop rlp (data @ []) (length ([] :: bytes)) None [] = DecodeBatchV2_loop rlp (data @ []) (length data) cur' blocks' \<and>
      closed cur' blocks' = closed None [] @ Blocks batch)" by blast
  then obtain cur' blocks' where
    "DecodeBatchV2_loop rlp data 0 None [] = DecodeBatchV2_loop rlp data (length data) cur' blocks'"
    "closed cur' blocks' = Blocks batch" using assms(3) by (auto simp: closed_def)
  moreover have "DecodeBatchV2_loop rlp data (length data) cur' blocks' = Some (Inr (closed cur' blocks'))"
    by (subst DecodeBatchV2_loop.simps) simp
  ultimately show ?thesis by (simp add: DecodeBatchV2_def)
qed

text \<open>A concrete RLP for strings below 56 bytes in lists below 56 bytes, and a sample batch.\<close>

definition short_string :: "bytes \<Rightarrow> bytes" where
  "short_string b = (case b of [x] \<Rightarrow> if x < 128 then b else 129 # b | _ \<Rightarrow> of_nat (128 + length b) # b)"

fun short_strings :: "nat \<Rightarrow> bytes \<Rightarrow> bytes list" where
  "short_strings 0 b = []"
| "short_strings (Suc n) [] = []"
| "short_strings (Suc n) (x # xs) =
     (if x < 128 then [x] # short_strings n xs
      else take (unat x - 128) xs # short_strings n (drop (unat x - 128) xs))"

definition sample_tx :: Transaction where
  "sample_tx = \<lparr>tx_Type = 0, tx_Nonce = 1, tx_GasPrice = 1000, tx_GasTipCap = 1000, tx_GasFeeCap = 1000, tx_Gas = 21000,
     tx_To = None, tx_Value = 0, tx_Data = [1, 2], tx_ChainId = 1000, tx_V = 2036, tx_R = 5, tx_S = 6\<rparr>"

definition short_rlp :: rlp_lib where
  "short_rlp = \<lparr>rlp_EncodeToBytes = (\<lambda>vs. Inr (rlp_list (concat (map (short_string \<circ> rlp_bytes) vs)))),
     rlp_DecodeBytes = (\<lambda>b. Inr (short_strings (length b) (tl b))),
     types_NewTx = (\<lambda>l. sample_tx\<lparr>tx_Nonce := lt_Nonce l, tx_V := lt_V l, tx_R := lt_R l, tx_S := lt_S l\<rparr>)\<rparr>"

definition sample_batch :: BatchRawV2 where
  "sample_batch = \<lparr>Blocks = [\<lparr>BlockNumber = 0, bl_Header = \<lparr>DeltaTimestamp = 3, IndexL1InfoTree = 1\<rparr>,
     bl_Transactions = [\<lparr>EfficiencyPercentage = 255, TxAlreadyEncoded = False, l2_Tx = sample_tx, l2_Data = []\<rparr>]\<rparr>]\<rparr>"

lemma sample_rlp_fields: "map rlp_bytes (rlp_fields sample_tx) = [[1], [3, 232], [82, 8], [], [], [1, 2], [3, 232], [], []]"
  by (simp add: rlp_fields_def sample_tx_def isPreEIP155Tx_def big_Uint64_def rlp_bytes_def nat_bytes.simps)

lemma sample_batch_ok: "block_ok short_rlp (hd (Blocks sample_batch))"
proof -
  have "signed_legacy short_rlp sample_tx" by (simp add: signed_legacy_def short_rlp_def legacy_of_def sample_tx_def)
  moreover have "rlp_law short_rlp (rlp_fields sample_tx)"
    unfolding rlp_law_def
    by (intro exI [of _ "[1, 130, 3, 232, 130, 82, 8, 128, 128, 130, 1, 2, 130, 3, 232, 128, 128]"])
      (simp add: short_rlp_def sample_rlp_fields map_map [symmetric] short_string_def rlp_list_def del: map_map)
  ultimately show ?thesis by (simp add: block_ok_def tx_ok_def sample_batch_def)
qed

theorem batch_v2_roundtrip_witness:
  "\<exists>data. EncodeBatchV2 short_rlp (Some sample_batch) = Inr data \<and> length data = 93 \<and>
     DecodeBatchV2 short_rlp data = Some (Inr sample_batch)"
proof -
  have ok: "\<forall>b\<in>set (Blocks sample_batch). block_ok short_rlp b"
    using sample_batch_ok by (simp add: sample_batch_def)
  have "signed_legacy short_rlp sample_tx" by (simp add: signed_legacy_def short_rlp_def legacy_of_def sample_tx_def)
  moreover have "rlp_EncodeToBytes short_rlp (rlp_fields sample_tx) =
      Inr [209, 1, 130, 3, 232, 130, 82, 8, 128, 128, 130, 1, 2, 130, 3, 232, 128, 128]"
    by (simp add: short_rlp_def sample_rlp_fields map_map [symmetric] short_string_def rlp_list_def del: map_map)
  ultimately obtain data where "EncodeBatchV2 short_rlp (Some sample_batch) = Inr data" "length data = 93"
    by (simp add: EncodeBatchV2_def sample_batch_def AddTransaction_def L2TxRaw_Encode_def prepareRLPTxData_bytes
        AddBlockHeader_def ChangeL2BlockHeader_Encode_def encodeUint32_def)
  with batch_v2_roundtrip [OF ok] show ?thesis by simp
qed

text \<open>C35. Decoding always ends: whatever the bytes are, \<open>DecodeBatchV2\<close> returns a batch or an error (or panics);
  a declared length that wraps around 64 bits cannot make it loop.\<close>

theorem DecodeBatchV2_terminates:
  assumes "length txsData < 2 ^ 63"
  shows "\<exists>r. DecodeBatchV2 rlp txsData = Some r"
  using DecodeBatchV2_loop_total [of txsData rlp 0 None "[]"] assms by (auto simp: DecodeBatchV2_def)

theorem DecodeBatchV2_terminates_witness:
  "\<exists>r. DecodeBatchV2 \<lparr>rlp_EncodeToBytes = \<lambda>_. Inr [192], rlp_DecodeBytes = \<lambda>_. Inr [], types_NewTx = undefined\<rparr>
     [11, 0, 0, 0, 1, 0, 0, 0, 2, 192] = Some r"
  using DecodeBatchV2_terminates [of "[11, 0, 0, 0, 1, 0, 0, 0, 2, 192]"] by simp

text \<open>Batch data can crash the decoder: a transaction header whose declared length is close to \<open>2^64\<close> passes the
  length check after wrapping around, and the slice taken with it is out of range.\<close>

theorem DecodeBatchV2_panics:
  "DecodeBatchV2 rlp ([11, 0, 0, 0, 0, 0, 0, 0, 0] @ [255] @ replicate 7 255 @ [0xb1]) = Some (Inl ErrPanic)"
proof -
  let ?d = "[11, 0, 0, 0, 0, 0, 0, 0, 0, 255, 255, 255, 255, 255, 255, 255, 255, 0xb1] :: bytes"
  have h: "decodeBlockHeader ?d 1 =
      Inr (9, \<lparr>BlockNumber = 0, bl_Header = \<lparr>DeltaTimestamp = 0, IndexL1InfoTree = 0\<rparr>, bl_Transactions = []\<rparr>)"
    by (simp add: decodeBlockHeader_def decodeUint32_def be_value_def)
  have "decodeRLPListLengthFromOffset ?d 9 = Inr (2 ^ 64 - 70)"
    by (simp add: decodeRLPListLengthFromOffset_def byte_at_def slice_def ParseUint16_EncodeToString be_value_def)
  then have "DecodeTxRLP rlp ?d 9 = Inl ErrPanic" by (simp add: DecodeTxRLP_def slice_def)
  then have "DecodeBatchV2_loop rlp ?d 9 (Some \<lparr>BlockNumber = 0, bl_Header = \<lparr>DeltaTimestamp = 0, IndexL1InfoTree = 0\<rparr>,
      bl_Transactions = []\<rparr>) [] = Some (Inl ErrPanic)"
    by (subst DecodeBatchV2_loop.simps) (simp add: changeL2Block_def)
  then have "DecodeBatchV2_loop rlp ?d 0 None [] = Some (Inl ErrPanic)"
    using h by (subst DecodeBatchV2_loop.simps) (simp add: changeL2Block_def closed_def)
  then show ?thesis by (simp add: DecodeBatchV2_def numeral_eq_Suc)
qed

text \<open>A forced batch whose data ends inside a transaction header decodes to the empty batch, without an error.\<close>

lemma DecodeForcedBatchV2_cut_header: "DecodeForcedBatchV2 rlp [248] = Some (Inr \<lparr>fb_Transactions = []\<rparr>)"
proof -
  have "DecodeTxs_length [248] 0 = Cut" by (simp add: DecodeTxs_length_def)
  then have "DecodeTxs rlp [248] 7 = Some (Inr ([], []))"
    by (simp add: DecodeTxs_def) (subst DecodeTxs_loop.simps, simp)
  then show ?thesis by (simp add: DecodeForcedBatchV2_def)
qed

end
