(* ===== verification/TxBuilder.thy ===== *)
theory TxBuilder
  imports BatchCodec AggLayer
begin

text \<open>
  Sequences of batches and the transactions that post them (\<open>src/sequencesender/txbuilder\<close>,
  \<open>src/etherman/types.go\<close>, \<open>src/rpc/types/rpcbatch.go\<close>): the two kinds of sequences, the four
  builders, and the two conditions that decide when a sequence is worth sending.

  The Go interfaces \<open>Batch\<close> and \<open>Sequence\<close> are datatypes over their implementations. The contracts, the L1
  client and the data availability layer are the arguments of the builders.
\<close>

section \<open>Batches\<close>

record Batch =
  bt_L2Data :: bytes
  bt_LastCoinbase :: address
  bt_ForcedGlobalExitRoot :: hash
  bt_ForcedBlockHashL1 :: hash
  bt_ForcedBatchTimestamp :: u64
  bt_BatchNumber :: u64
  bt_L1InfoTreeIndex :: u32
  bt_LastL2BLockTimestamp :: u64
  bt_GlobalExitRoot :: hash

record RPCBatch =
  rb_batchNumber :: u64
  rb_accInputHash :: hash
  rb_blockHashes :: "string list"
  rb_batchL2Data :: bytes
  rb_globalExitRoot :: hash
  rb_localExitRoot :: hash
  rb_stateRoot :: hash
  rb_coinbase :: address
  rb_closed :: bool
  rb_lastL2BlockTimestamp :: u64
  rb_l1InfoTreeIndex :: u32

definition NewRPCBatch ::
  "u64 \<Rightarrow> hash \<Rightarrow> string list \<Rightarrow> bytes \<Rightarrow> hash \<Rightarrow> hash \<Rightarrow> hash \<Rightarrow> address \<Rightarrow> bool \<Rightarrow> RPCBatch"
where
  "NewRPCBatch batchNumber accInputHash blockHashes batchL2Data ger ler stateRoot coinbase isClosed =
     \<lparr>rb_batchNumber = batchNumber, rb_accInputHash = accInputHash, rb_blockHashes = blockHashes,
      rb_batchL2Data = batchL2Data, rb_globalExitRoot = ger, rb_localExitRoot = ler,
      rb_stateRoot = stateRoot, rb_coinbase = coinbase, rb_closed = isClosed, rb_lastL2BlockTimestamp = 0,
      rb_l1InfoTreeIndex = 0\<rparr>"

definition rpc_DeepCopy :: "RPCBatch \<Rightarrow> RPCBatch" where
  "rpc_DeepCopy b =
     \<lparr>rb_batchNumber = rb_batchNumber b, rb_accInputHash = rb_accInputHash b, rb_blockHashes = rb_blockHashes b,
      rb_batchL2Data = rb_batchL2Data b, rb_globalExitRoot = rb_globalExitRoot b,
      rb_localExitRoot = rb_localExitRoot b, rb_stateRoot = rb_stateRoot b, rb_coinbase = rb_coinbase b,
      rb_closed = rb_closed b, rb_lastL2BlockTimestamp = rb_lastL2BlockTimestamp b,
      rb_l1InfoTreeIndex = rb_l1InfoTreeIndex b\<rparr>"

datatype seq_batch = RpcB RPCBatch | BananaB Batch

text \<open>\<open>toEthermanBatch\<close> reads a batch through its interface; an RPC batch is never a forced one.\<close>

fun toEthermanBatch :: "seq_batch \<Rightarrow> Batch" where
  "toEthermanBatch (BananaB b) = b"
| "toEthermanBatch (RpcB b) =
     \<lparr>bt_L2Data = rb_batchL2Data b, bt_LastCoinbase = rb_coinbase b, bt_ForcedGlobalExitRoot = 0,
      bt_ForcedBlockHashL1 = 0, bt_ForcedBatchTimestamp = 0, bt_BatchNumber = rb_batchNumber b,
      bt_L1InfoTreeIndex = rb_l1InfoTreeIndex b, bt_LastL2BLockTimestamp = rb_lastL2BlockTimestamp b,
      bt_GlobalExitRoot = rb_globalExitRoot b\<rparr>"

definition toEthermanBatches :: "seq_batch list \<Rightarrow> Batch list" where
  "toEthermanBatches batch = map toEthermanBatch batch"

abbreviation sb_BatchNumber :: "seq_batch \<Rightarrow> u64" where
  "sb_BatchNumber b \<equiv> bt_BatchNumber (toEthermanBatch b)"

abbreviation sb_LastCoinbase :: "seq_batch \<Rightarrow> address" where
  "sb_LastCoinbase b \<equiv> bt_LastCoinbase (toEthermanBatch b)"

abbreviation sb_LastL2BLockTimestamp :: "seq_batch \<Rightarrow> u64" where
  "sb_LastL2BLockTimestamp b \<equiv> bt_LastL2BLockTimestamp (toEthermanBatch b)"

section \<open>Sequences\<close>

record SequenceBanana =
  sq_Batches :: "Batch list"
  sq_OldAccInputHash :: hash
  sq_AccInputHash :: hash
  sq_L1InfoRoot :: hash
  sq_MaxSequenceTimestamp :: u64
  sq_CounterL1InfoRoot :: u32
  sq_L2Coinbase :: address
  sq_LastVirtualBatchNumber :: u64

record ElderberrySequence =
  es_l2Coinbase :: address
  es_batches :: "seq_batch list"
  es_lastVirtualBatchNumber :: u64

datatype Sequence = BananaS SequenceBanana | ElderberryS ElderberrySequence

definition NewSequenceBanana :: "Batch list \<Rightarrow> address \<Rightarrow> SequenceBanana" where
  "NewSequenceBanana batches l2Coinbase =
     \<lparr>sq_Batches = batches, sq_OldAccInputHash = 0, sq_AccInputHash = 0, sq_L1InfoRoot = 0,
      sq_MaxSequenceTimestamp =
        foldl (\<lambda>m b. if bt_LastL2BLockTimestamp b > m then bt_LastL2BLockTimestamp b else m) 0 batches,
      sq_CounterL1InfoRoot = foldl (\<lambda>m b. if bt_L1InfoTreeIndex b > m then bt_L1InfoTreeIndex b else m) 0 batches,
      sq_L2Coinbase = l2Coinbase, sq_LastVirtualBatchNumber = 0\<rparr>"

definition NewElderberrySequence :: "seq_batch list \<Rightarrow> address \<Rightarrow> ElderberrySequence" where
  "NewElderberrySequence batches l2Coinbase =
     \<lparr>es_l2Coinbase = l2Coinbase, es_batches = batches, es_lastVirtualBatchNumber = 0\<rparr>"

fun Batches :: "Sequence \<Rightarrow> seq_batch list" where
  "Batches (BananaS s) = map BananaB (sq_Batches s)"
| "Batches (ElderberryS s) = es_batches s"

definition FirstBatch :: "Sequence \<Rightarrow> seq_batch" where
  "FirstBatch s = Batches s ! 0"

definition LastBatch :: "Sequence \<Rightarrow> seq_batch" where
  "LastBatch s = Batches s ! (length (Batches s) - 1)"

fun L2Coinbase :: "Sequence \<Rightarrow> address" where
  "L2Coinbase (BananaS s) = sq_L2Coinbase s"
| "L2Coinbase (ElderberryS s) = es_l2Coinbase s"

fun MaxSequenceTimestamp :: "Sequence \<Rightarrow> u64" where
  "MaxSequenceTimestamp (BananaS s) = sq_MaxSequenceTimestamp s"
| "MaxSequenceTimestamp (ElderberryS s) = sb_LastL2BLockTimestamp (LastBatch (ElderberryS s))"

fun LastVirtualBatchNumber :: "Sequence \<Rightarrow> u64" where
  "LastVirtualBatchNumber (BananaS s) = sq_LastVirtualBatchNumber s"
| "LastVirtualBatchNumber (ElderberryS s) = es_lastVirtualBatchNumber s"

fun SetLastVirtualBatchNumber :: "u64 \<Rightarrow> Sequence \<Rightarrow> Sequence" where
  "SetLastVirtualBatchNumber n (BananaS s) = BananaS (s\<lparr>sq_LastVirtualBatchNumber := n\<rparr>)"
| "SetLastVirtualBatchNumber n (ElderberryS s) = ElderberryS (s\<lparr>es_lastVirtualBatchNumber := n\<rparr>)"

text \<open>The greatest L1 info tree index among the blocks of the batch data.\<close>

definition max_index :: "u32 list \<Rightarrow> u32" where
  "max_index is = foldl (\<lambda>m i. if i > m then i else m) 0 is"

definition calculateMaxL1InfoTreeIndexInsideL2Data :: "rlp_lib \<Rightarrow> bytes \<Rightarrow> (error + u32) option" where
  "calculateMaxL1InfoTreeIndexInsideL2Data rlp l2data =
     map_option (\<lambda>r. bind_err r (\<lambda>batchRawV2. Inr (max_index (map (\<lambda>b. IndexL1InfoTree (bl_Header b)) (Blocks batchRawV2)))))
       (DecodeBatchV2 rlp l2data)"

fun max_in_batches :: "rlp_lib \<Rightarrow> Batch list \<Rightarrow> u32 \<Rightarrow> (error + u32) option" where
  "max_in_batches rlp [] maxIndex = Some (Inr maxIndex)"
| "max_in_batches rlp (batch # batches) maxIndex =
     (case calculateMaxL1InfoTreeIndexInsideL2Data rlp (bt_L2Data batch) of
        None \<Rightarrow> None
      | Some (Inl e) \<Rightarrow> Some (Inl e)
      | Some (Inr index) \<Rightarrow> max_in_batches rlp batches (if index > maxIndex then index else maxIndex))"

definition calculateMaxL1InfoTreeIndexInsideSequence :: "rlp_lib \<Rightarrow> SequenceBanana option \<Rightarrow> (error + u32) option" where
  "calculateMaxL1InfoTreeIndexInsideSequence rlp seq =
     (case seq of
        None \<Rightarrow> Some (Inl (ErrMsg ''calculateMaxL1InfoTreeIndexInsideSequence: seq is nil''))
      | Some s \<Rightarrow> max_in_batches rlp (sq_Batches s) 0)"

section \<open>The Banana builders\<close>

record TxBuilderBananaBase =
  bb_LastAccInputHash :: "error + hash"
  bb_L1InfoRootMap :: "u32 \<Rightarrow> error + hash"
  bb_GetLatestInfoUntilBlock :: "u64 \<Rightarrow> error + L1InfoTreeLeaf"
  bb_GetInitL1InfoRootMap :: "error + L1InfoTreeInitial option"
  bb_HeaderByNumber :: "error + u64"

definition getHighestL1InfoIndex :: "Batch list \<Rightarrow> u32" where
  "getHighestL1InfoIndex batches = foldl (\<lambda>h b. if h < bt_L1InfoTreeIndex b then bt_L1InfoTreeIndex b else h) 0 batches"

definition GetCounterL1InfoRoot :: "TxBuilderBananaBase \<Rightarrow> u32 \<Rightarrow> error + u32" where
  "GetCounterL1InfoRoot t highestL1IndexInBatch =
     bind_err (bb_HeaderByNumber t) (\<lambda>number.
     bind_err (case bb_GetLatestInfoUntilBlock t number of
                 Inr info \<Rightarrow> Inr (lf_L1InfoTreeIndex info + 1)
               | Inl e \<Rightarrow>
                   if e = l1_ErrNotFound
                   then (case bb_GetInitL1InfoRootMap t of
                           Inl e' \<Rightarrow> Inl e'
                         | Inr None \<Rightarrow> Inl (ErrMsg ''error no leaves on L1InfoTree yet and GetInitL1InfoRootMap fails'')
                         | Inr (Some l1infotreeInitial) \<Rightarrow> Inr (in_LeafCount l1infotreeInitial))
                   else Inl e) (\<lambda>resL1InfoCounter.
       if resL1InfoCounter = 0 \<and> highestL1IndexInBatch = 0 then Inr resL1InfoCounter
       else if resL1InfoCounter > highestL1IndexInBatch then Inr resL1InfoCounter
       else Inl (ErrMsg ''sequence contained an L1 Info tree index that is greater than the one synced'')))"

definition CheckL1InfoTreeLeafCounterVsInitL1InfoMap :: "TxBuilderBananaBase \<Rightarrow> u32 \<Rightarrow> error option" where
  "CheckL1InfoTreeLeafCounterVsInitL1InfoMap t leafCounter =
     (case bb_GetInitL1InfoRootMap t of
        Inl e \<Rightarrow> Some e
      | Inr None \<Rightarrow> None
      | Inr (Some l1infotreeInitial) \<Rightarrow>
          if leafCounter < in_LeafCount l1infotreeInitial
          then Some (ErrMsg ''cant use this leafCounter because is previous to first value on contract Map'') else None)"

text \<open>The chain of accumulated input hashes.\<close>

definition next_acc :: "keccak \<Rightarrow> SequenceBanana \<Rightarrow> hash \<Rightarrow> Batch \<Rightarrow> hash" where
  "next_acc K sequence accInputHash batch =
     (if bt_ForcedBatchTimestamp batch > 0
      then CalculateAccInputHash K accInputHash (bt_L2Data batch) (bt_ForcedGlobalExitRoot batch)
             (bt_ForcedBatchTimestamp batch) (bt_LastCoinbase batch) (bt_ForcedBlockHashL1 batch)
      else CalculateAccInputHash K accInputHash (bt_L2Data batch) (sq_L1InfoRoot sequence)
             (sq_MaxSequenceTimestamp sequence) (bt_LastCoinbase batch) 0)"

definition banana_NewSequence :: "keccak \<Rightarrow> TxBuilderBananaBase \<Rightarrow> seq_batch list \<Rightarrow> address \<Rightarrow> error + Sequence" where
  "banana_NewSequence K t batches coinbase =
     (let sequence = NewSequenceBanana (toEthermanBatches batches) coinbase in
      bind_err (GetCounterL1InfoRoot t (getHighestL1InfoIndex (sq_Batches sequence))) (\<lambda>counterL1InfoRoot.
      bind_err (bb_L1InfoRootMap t counterL1InfoRoot) (\<lambda>l1InfoRoot.
      case CheckL1InfoTreeLeafCounterVsInitL1InfoMap t counterL1InfoRoot of
        Some e \<Rightarrow> Inl e
      | None \<Rightarrow>
          let sequence1 = sequence\<lparr>sq_CounterL1InfoRoot := counterL1InfoRoot, sq_L1InfoRoot := l1InfoRoot\<rparr> in
          bind_err (bb_LastAccInputHash t) (\<lambda>accInputHash.
            Inr (BananaS (sequence1\<lparr>sq_OldAccInputHash := accInputHash,
                   sq_AccInputHash := foldl (next_acc K sequence1) accInputHash (sq_Batches sequence1)\<rparr>))))))"

fun convertToSequenceBanana :: "Sequence \<Rightarrow> error + SequenceBanana" where
  "convertToSequenceBanana (ElderberryS s) = Inl (ErrMsg ''sequences is not a BananaSequence'')"
| "convertToSequenceBanana (BananaS s) =
     Inr \<lparr>sq_Batches = map toEthermanBatch (Batches (BananaS s)), sq_OldAccInputHash = sq_OldAccInputHash s,
          sq_AccInputHash = sq_AccInputHash s, sq_L1InfoRoot = sq_L1InfoRoot s,
          sq_MaxSequenceTimestamp = sq_MaxSequenceTimestamp s, sq_CounterL1InfoRoot = sq_CounterL1InfoRoot s,
          sq_L2Coinbase = sq_L2Coinbase s, sq_LastVirtualBatchNumber = 0\<rparr>"

text \<open>The batch data of the contracts; of a transaction its target, data and size are used.\<close>

record rollup_batch =
  ru_Transactions :: bytes
  ru_ForcedGlobalExitRoot :: hash
  ru_ForcedTimestamp :: u64
  ru_ForcedBlockHashL1 :: hash

record validium_batch =
  va_TransactionsHash :: hash
  va_ForcedGlobalExitRoot :: hash
  va_ForcedTimestamp :: u64
  va_ForcedBlockHashL1 :: hash

record l1_tx =
  l1tx_To :: "address option"
  l1tx_Data :: bytes
  l1tx_Size :: u64

definition forced_ger :: "u64 \<Rightarrow> hash \<Rightarrow> hash" where
  "forced_ger timestamp ger = (if timestamp > 0 then ger else 0)"

definition banana_sequenceBatchesRollup ::
  "(rollup_batch list \<Rightarrow> u32 \<Rightarrow> u64 \<Rightarrow> hash \<Rightarrow> address \<Rightarrow> error + l1_tx) \<Rightarrow> SequenceBanana \<Rightarrow> error + l1_tx"
where
  "banana_sequenceBatchesRollup SequenceBatches sequence =
     SequenceBatches
       (map (\<lambda>b. \<lparr>ru_Transactions = bt_L2Data b,
                   ru_ForcedGlobalExitRoot = forced_ger (bt_ForcedBatchTimestamp b) (bt_ForcedGlobalExitRoot b),
                   ru_ForcedTimestamp = bt_ForcedBatchTimestamp b, ru_ForcedBlockHashL1 = bt_ForcedBlockHashL1 b\<rparr>)
         (sq_Batches sequence))
       (sq_CounterL1InfoRoot sequence) (sq_MaxSequenceTimestamp sequence) (sq_AccInputHash sequence)
       (sq_L2Coinbase sequence)"

definition banana_zkevm_BuildSequenceBatchesTx ::
  "(rollup_batch list \<Rightarrow> u32 \<Rightarrow> u64 \<Rightarrow> hash \<Rightarrow> address \<Rightarrow> error + l1_tx) \<Rightarrow> Sequence \<Rightarrow> error + l1_tx"
where
  "banana_zkevm_BuildSequenceBatchesTx SequenceBatches sequences =
     bind_err (convertToSequenceBanana sequences) (banana_sequenceBatchesRollup SequenceBatches)"

definition sequenceBatchesValidium ::
  "keccak \<Rightarrow> (validium_batch list \<Rightarrow> u32 \<Rightarrow> u64 \<Rightarrow> hash \<Rightarrow> address \<Rightarrow> bytes \<Rightarrow> error + l1_tx) \<Rightarrow> SequenceBanana \<Rightarrow> bytes \<Rightarrow> error + l1_tx"
where
  "sequenceBatchesValidium K SequenceBatchesValidium sequence dataAvailabilityMessage =
     SequenceBatchesValidium
       (map (\<lambda>b. \<lparr>va_TransactionsHash = K (bt_L2Data b),
                   va_ForcedGlobalExitRoot = forced_ger (bt_ForcedBatchTimestamp b) (bt_ForcedGlobalExitRoot b),
                   va_ForcedTimestamp = bt_ForcedBatchTimestamp b, va_ForcedBlockHashL1 = bt_ForcedBlockHashL1 b\<rparr>)
         (sq_Batches sequence))
       (sq_CounterL1InfoRoot sequence) (sq_MaxSequenceTimestamp sequence) (sq_AccInputHash sequence)
       (sq_L2Coinbase sequence) dataAvailabilityMessage"

definition banana_validium_BuildSequenceBatchesTx ::
  "keccak \<Rightarrow> (SequenceBanana \<Rightarrow> error + bytes option) \<Rightarrow>
   (validium_batch list \<Rightarrow> u32 \<Rightarrow> u64 \<Rightarrow> hash \<Rightarrow> address \<Rightarrow> bytes \<Rightarrow> error + l1_tx) \<Rightarrow> Sequence \<Rightarrow> error + l1_tx"
where
  "banana_validium_BuildSequenceBatchesTx K PostSequenceBanana SequenceBatchesValidium sequences =
     bind_err (convertToSequenceBanana sequences) (\<lambda>ethseq.
     bind_err (PostSequenceBanana ethseq) (\<lambda>msg.
       case msg of
         None \<Rightarrow> Inl (ErrMsg ''data availability message is nil'')
       | Some dataAvailabilityMessage \<Rightarrow>
           sequenceBatchesValidium K SequenceBatchesValidium ethseq dataAvailabilityMessage))"

section \<open>The Elderberry builders\<close>

definition elderberry_NewSequence :: "seq_batch list \<Rightarrow> address \<Rightarrow> error + Sequence" where
  "elderberry_NewSequence batches coinbase = Inr (ElderberryS (NewElderberrySequence batches coinbase))"

definition getLastSequencedBatchNumber :: "Sequence \<Rightarrow> error + u64" where
  "getLastSequencedBatchNumber sequences =
     (if Batches sequences = [] then Inr 0
      else if sb_BatchNumber (FirstBatch sequences) = 0 then Inl ErrPanic
      else if LastVirtualBatchNumber sequences \<noteq> 0 then Inr (LastVirtualBatchNumber sequences)
      else Inr (sb_BatchNumber (FirstBatch sequences) - 1))"

definition errorsCache :: "string list" where
  "errorsCache =
     [''gas required exceeds allowance'', ''content length too large'', ''timestamp must be inside range'',
      ''insufficient allowance'', ''both gasPrice and (maxFeePerGas or maxPriorityFeePerGas) specified'',
      ''maxFeePerGas or maxPriorityFeePerGas specified but london is not active yet'',
      ''no signer to authorize the transaction with'', ''missing trie node'']"

text \<open>The text of an error is compared with the known ones; the order among several that are contained in it is arbitrary.\<close>

fun TryParseError :: "error \<Rightarrow> error option" where
  "TryParseError (ErrMsg s) =
     (case find (\<lambda>t. t = s) errorsCache of
        Some t \<Rightarrow> Some (ErrMsg t)
      | None \<Rightarrow> map_option ErrMsg (find (\<lambda>t. str_contains s t) errorsCache))"
| "TryParseError e = None"

definition parse_err :: "error + l1_tx \<Rightarrow> error + l1_tx" where
  "parse_err r = map_sum (\<lambda>e. case TryParseError e of Some e' \<Rightarrow> e' | None \<Rightarrow> e) id r"

definition elderberry_zkevm_BuildSequenceBatchesTx ::
  "(rollup_batch list \<Rightarrow> u64 \<Rightarrow> u64 \<Rightarrow> address \<Rightarrow> error + l1_tx) \<Rightarrow> Sequence option \<Rightarrow> error + l1_tx"
where
  "elderberry_zkevm_BuildSequenceBatchesTx SequenceBatches sequences =
     (case sequences of
        None \<Rightarrow> Inl (ErrMsg ''can't sequence an empty sequence'')
      | Some s \<Rightarrow>
          if Batches s = [] then Inl (ErrMsg ''can't sequence an empty sequence'')
          else let batches = map (\<lambda>b. let e = toEthermanBatch b in
                     \<lparr>ru_Transactions = bt_L2Data e,
                      ru_ForcedGlobalExitRoot = forced_ger (bt_ForcedBatchTimestamp e) (bt_GlobalExitRoot e),
                      ru_ForcedTimestamp = bt_ForcedBatchTimestamp e, ru_ForcedBlockHashL1 = bt_ForcedBlockHashL1 e\<rparr>)
                     (Batches s)
               in bind_err (getLastSequencedBatchNumber s) (\<lambda>lastSequencedBatchNumber.
                    parse_err (SequenceBatches batches (MaxSequenceTimestamp s) lastSequencedBatchNumber (L2Coinbase s))))"

definition convertToBatchesData :: "Sequence \<Rightarrow> bytes list" where
  "convertToBatchesData sequences = map (\<lambda>b. bt_L2Data (toEthermanBatch b)) (Batches sequences)"

definition elderberry_validium_BuildSequenceBatchesTx ::
  "keccak \<Rightarrow> (bytes list \<Rightarrow> error + bytes option) \<Rightarrow>
   (validium_batch list \<Rightarrow> u64 \<Rightarrow> u64 \<Rightarrow> address \<Rightarrow> bytes \<Rightarrow> error + l1_tx) \<Rightarrow> Sequence option \<Rightarrow> error + l1_tx"
where
  "elderberry_validium_BuildSequenceBatchesTx K PostSequenceElderberry SequenceBatchesValidium sequences =
     (case sequences of
        None \<Rightarrow> Inl (ErrMsg ''can't sequence an empty sequence'')
      | Some s \<Rightarrow>
          if Batches s = [] then Inl (ErrMsg ''can't sequence an empty sequence'')
          else bind_err (PostSequenceElderberry (convertToBatchesData s)) (\<lambda>msg.
            case msg of
              None \<Rightarrow> Inl (ErrMsg ''data availability message is nil'')
            | Some dataAvailabilityMessage \<Rightarrow>
                let batches = map (\<lambda>b. let e = toEthermanBatch b in
                     \<lparr>va_TransactionsHash = K (bt_L2Data e),
                      va_ForcedGlobalExitRoot = forced_ger (bt_ForcedBatchTimestamp e) (bt_GlobalExitRoot e),
                      va_ForcedTimestamp = bt_ForcedBatchTimestamp e, va_ForcedBlockHashL1 = bt_ForcedBlockHashL1 e\<rparr>)
                     (Batches s)
                in bind_err (getLastSequencedBatchNumber s) (\<lambda>lastSequencedBatchNumber.
                     parse_err (SequenceBatchesValidium batches (MaxSequenceTimestamp s) lastSequencedBatchNumber
                       (L2Coinbase s) dataAvailabilityMessage))))"

section \<open>When a sequence is worth sending\<close>

text \<open>The interface \<open>TxBuilder\<close> and the condition a builder was made with.\<close>

datatype CondNewSequence = MaxSize u64 | NumBatches u64

record TxBuilder =
  tb_NewSequence :: "seq_batch list \<Rightarrow> address \<Rightarrow> error + Sequence"
  tb_BuildSequenceBatchesTx :: "Sequence \<Rightarrow> error + l1_tx"
  tb_condNewSeq :: CondNewSequence

definition SetCondNewSeq :: "CondNewSequence \<Rightarrow> TxBuilder \<Rightarrow> TxBuilder \<times> CondNewSequence" where
  "SetCondNewSeq cond t = (t\<lparr>tb_condNewSeq := cond\<rparr>, tb_condNewSeq t)"

definition ErrInsufficientAllowance :: error where
  "ErrInsufficientAllowance = ErrMsg ''insufficient allowance''"

definition ErrOversizedData :: error where
  "ErrOversizedData = ErrMsg ''oversized data''"

text \<open>\<open>Inr None\<close>: no batch is left to send.\<close>

definition handleEstimateGasSendSequenceErr :: "seq_batch list \<Rightarrow> error \<Rightarrow> error + seq_batch list option" where
  "handleEstimateGasSendSequenceErr sequenceBatches err =
     (if err = ErrInsufficientAllowance then Inl err
      else if length sequenceBatches > 1 then Inr (Some (butlast sequenceBatches)) else Inr None)"

text \<open>
  The condition of the rollup builders. \<open>tx\<close> is nil when building it failed; its size is logged
  after the sequence was reduced.
\<close>

definition max_size_NewSequenceIfWorthToSend ::
  "u64 \<Rightarrow> TxBuilder \<Rightarrow> seq_batch list \<Rightarrow> address \<Rightarrow> error + Sequence option"
where
  "max_size_NewSequenceIfWorthToSend maxTxSizeForL1 txBuilder sequenceBatches l2Coinbase =
     (if maxTxSizeForL1 = 0 then Inr None
      else bind_err (tb_NewSequence txBuilder sequenceBatches l2Coinbase) (\<lambda>sequence.
        let tx = tb_BuildSequenceBatchesTx txBuilder sequence;
            err = (case tx of Inl e \<Rightarrow> Some e
                   | Inr t \<Rightarrow> if l1tx_Size t > maxTxSizeForL1 then Some ErrOversizedData else None)
        in case err of
             None \<Rightarrow> Inr None
           | Some e \<Rightarrow>
               (case handleEstimateGasSendSequenceErr (Batches sequence) e of
                  Inl e' \<Rightarrow> Inl e'
                | Inr None \<Rightarrow> Inr (Some sequence)
                | Inr (Some reduced) \<Rightarrow>
                    bind_err (tb_NewSequence txBuilder reduced l2Coinbase) (\<lambda>sequence1.
                      case (tx, tb_BuildSequenceBatchesTx txBuilder sequence1) of
                        (Inr _, Inr _) \<Rightarrow> Inr (Some sequence1)
                      | _ \<Rightarrow> Inl ErrPanic))))"

definition num_batches_NewSequenceIfWorthToSend ::
  "u64 \<Rightarrow> TxBuilder \<Rightarrow> seq_batch list \<Rightarrow> address \<Rightarrow> error + Sequence option"
where
  "num_batches_NewSequenceIfWorthToSend maxBatchesForL1 txBuilder sequenceBatches l2Coinbase =
     (if maxBatchesForL1 \<noteq> 0 \<and> of_nat (length sequenceBatches) \<ge> maxBatchesForL1
      then map_sum id Some (tb_NewSequence txBuilder sequenceBatches l2Coinbase) else Inr None)"

definition NewSequenceIfWorthToSend :: "TxBuilder \<Rightarrow> seq_batch list \<Rightarrow> address \<Rightarrow> error + Sequence option" where
  "NewSequenceIfWorthToSend t sequenceBatches l2Coinbase =
     (case tb_condNewSeq t of
        MaxSize m \<Rightarrow> max_size_NewSequenceIfWorthToSend m t sequenceBatches l2Coinbase
      | NumBatches m \<Rightarrow> num_batches_NewSequenceIfWorthToSend m t sequenceBatches l2Coinbase)"

definition NewTxBuilderBananaZKEVM ::
  "keccak \<Rightarrow> TxBuilderBananaBase \<Rightarrow> (rollup_batch list \<Rightarrow> u32 \<Rightarrow> u64 \<Rightarrow> hash \<Rightarrow> address \<Rightarrow> error + l1_tx) \<Rightarrow> u64 \<Rightarrow> TxBuilder"
where
  "NewTxBuilderBananaZKEVM K t SequenceBatches maxTxSizeForL1 =
     \<lparr>tb_NewSequence = banana_NewSequence K t,
      tb_BuildSequenceBatchesTx = banana_zkevm_BuildSequenceBatchesTx SequenceBatches,
      tb_condNewSeq = MaxSize maxTxSizeForL1\<rparr>"

definition NewTxBuilderBananaValidium ::
  "keccak \<Rightarrow> TxBuilderBananaBase \<Rightarrow> (SequenceBanana \<Rightarrow> error + bytes option) \<Rightarrow>
   (validium_batch list \<Rightarrow> u32 \<Rightarrow> u64 \<Rightarrow> hash \<Rightarrow> address \<Rightarrow> bytes \<Rightarrow> error + l1_tx) \<Rightarrow> u64 \<Rightarrow> TxBuilder"
where
  "NewTxBuilderBananaValidium K t da SequenceBatchesValidium maxBatchesForL1 =
     \<lparr>tb_NewSequence = banana_NewSequence K t,
      tb_BuildSequenceBatchesTx = banana_validium_BuildSequenceBatchesTx K da SequenceBatchesValidium,
      tb_condNewSeq = NumBatches maxBatchesForL1\<rparr>"

definition NewTxBuilderElderberryZKEVM ::
  "(rollup_batch list \<Rightarrow> u64 \<Rightarrow> u64 \<Rightarrow> address \<Rightarrow> error + l1_tx) \<Rightarrow> u64 \<Rightarrow> TxBuilder"
where
  "NewTxBuilderElderberryZKEVM SequenceBatches maxTxSizeForL1 =
     \<lparr>tb_NewSequence = elderberry_NewSequence,
      tb_BuildSequenceBatchesTx = elderberry_zkevm_BuildSequenceBatchesTx SequenceBatches \<circ> Some,
      tb_condNewSeq = MaxSize maxTxSizeForL1\<rparr>"

definition NewTxBuilderElderberryValidium ::
  "keccak \<Rightarrow> (bytes list \<Rightarrow> error + bytes option) \<Rightarrow>
   (validium_batch list \<Rightarrow> u64 \<Rightarrow> u64 \<Rightarrow> address \<Rightarrow> bytes \<Rightarrow> error + l1_tx) \<Rightarrow> u64 \<Rightarrow> TxBuilder"
where
  "NewTxBuilderElderberryValidium K da SequenceBatchesValidium maxBatchesForL1 =
     \<lparr>tb_NewSequence = elderberry_NewSequence,
      tb_BuildSequenceBatchesTx = elderberry_validium_BuildSequenceBatchesTx K da SequenceBatchesValidium \<circ> Some,
      tb_condNewSeq = NumBatches maxBatchesForL1\<rparr>"

section \<open>The contract of a builder\<close>

text \<open>
  What the sequence sender relies on: a new sequence holds the batches it was made from. It
  follows that a sequence found worth sending holds them too, or all but the last one.
\<close>

definition same_batches :: "Sequence \<Rightarrow> seq_batch list \<Rightarrow> bool" where
  "same_batches s bs \<longleftrightarrow> map toEthermanBatch (Batches s) = map toEthermanBatch bs"

locale tx_builder =
  fixes t :: TxBuilder
  assumes new_batches: "tb_NewSequence t bs coinbase = Inr s \<Longrightarrow> same_batches s bs"
begin

lemma worth_batches:
  assumes "NewSequenceIfWorthToSend t bs coinbase = Inr (Some s)"
  shows "same_batches s bs \<or> length bs > 1 \<and> same_batches s (butlast bs)"
proof (cases "tb_condNewSeq t")
  case (NumBatches m)
  with assms new_batches show ?thesis
    by (auto simp: NewSequenceIfWorthToSend_def num_batches_NewSequenceIfWorthToSend_def map_sum_Inr_conv split: if_splits)
next
  case (MaxSize m)
  with assms have m: "max_size_NewSequenceIfWorthToSend m t bs coinbase = Inr (Some s)" "m \<noteq> 0"
    by (auto simp: NewSequenceIfWorthToSend_def max_size_NewSequenceIfWorthToSend_def)
  then obtain s0 where s0: "tb_NewSequence t bs coinbase = Inr s0"
    by (auto simp: max_size_NewSequenceIfWorthToSend_def bind_err_Inr)
  note b0 = new_batches [OF s0]
  then have len: "length (Batches s0) = length bs" unfolding same_batches_def by (metis length_map)
  have bl: "map toEthermanBatch (butlast (Batches s0)) = map toEthermanBatch (butlast bs)"
    using b0 by (simp add: same_batches_def map_butlast)
  from m s0 have "s = s0 \<or> length (Batches s0) > 1 \<and> tb_NewSequence t (butlast (Batches s0)) coinbase = Inr s"
    by (auto simp: max_size_NewSequenceIfWorthToSend_def handleEstimateGasSendSequenceErr_def Let_def bind_err_Inr
        split: option.splits sum.splits if_splits) (metis sum.exhaust)
  with b0 len bl new_batches show ?thesis by (metis same_batches_def)
qed

end

lemma to_banana [simp]: "map (toEthermanBatch \<circ> BananaB) bs = bs"
  by (simp add: comp_def)

lemma next_acc_cong:
  "sq_L1InfoRoot p = sq_L1InfoRoot q \<Longrightarrow> sq_MaxSequenceTimestamp p = sq_MaxSequenceTimestamp q \<Longrightarrow>
   next_acc K p = next_acc K q"
  by (intro ext) (simp add: next_acc_def)

lemma banana_NewSequence_Inr:
  assumes "banana_NewSequence K t bs coinbase = Inr s"
  obtains q where "s = BananaS q" and "sq_Batches q = map toEthermanBatch bs" and "sq_L2Coinbase q = coinbase"
    and "GetCounterL1InfoRoot t (getHighestL1InfoIndex (sq_Batches q)) = Inr (sq_CounterL1InfoRoot q)"
    and "bb_LastAccInputHash t = Inr (sq_OldAccInputHash q)"
    and "bb_L1InfoRootMap t (sq_CounterL1InfoRoot q) = Inr (sq_L1InfoRoot q)"
    and "sq_MaxSequenceTimestamp q = sq_MaxSequenceTimestamp (NewSequenceBanana (map toEthermanBatch bs) coinbase)"
    and "sq_AccInputHash q = foldl (next_acc K q) (sq_OldAccInputHash q) (sq_Batches q)"
proof -
  let ?n = "NewSequenceBanana (map toEthermanBatch bs) coinbase"
  from assms obtain c r a where c: "GetCounterL1InfoRoot t (getHighestL1InfoIndex (sq_Batches ?n)) = Inr c"
    and r: "bb_L1InfoRootMap t c = Inr r" and a: "bb_LastAccInputHash t = Inr a"
    and s: "s = BananaS (?n\<lparr>sq_CounterL1InfoRoot := c, sq_L1InfoRoot := r, sq_OldAccInputHash := a,
        sq_AccInputHash := foldl (next_acc K (?n\<lparr>sq_CounterL1InfoRoot := c, sq_L1InfoRoot := r\<rparr>)) a (sq_Batches ?n)\<rparr>)"
    by (auto simp: banana_NewSequence_def toEthermanBatches_def bind_err_Inr Let_def split: option.splits)
  define q where "q = ?n\<lparr>sq_CounterL1InfoRoot := c, sq_L1InfoRoot := r, sq_OldAccInputHash := a,
        sq_AccInputHash := foldl (next_acc K (?n\<lparr>sq_CounterL1InfoRoot := c, sq_L1InfoRoot := r\<rparr>)) a (sq_Batches ?n)\<rparr>"
  have "next_acc K (?n\<lparr>sq_CounterL1InfoRoot := c, sq_L1InfoRoot := r\<rparr>) = next_acc K q"
    by (rule next_acc_cong) (simp_all add: q_def)
  then have acc: "sq_AccInputHash q = foldl (next_acc K q) (sq_OldAccInputHash q) (sq_Batches q)"
    by (simp add: q_def)
  have "s = BananaS q" using s by (simp add: q_def)
  then show ?thesis
    by (rule that) (use c r a acc in \<open>simp_all add: q_def NewSequenceBanana_def\<close>)
qed

interpretation banana_zkevm: tx_builder "NewTxBuilderBananaZKEVM K t c m" for K t c m
  by unfold_locales (auto simp: NewTxBuilderBananaZKEVM_def same_batches_def elim!: banana_NewSequence_Inr)

interpretation banana_validium: tx_builder "NewTxBuilderBananaValidium K t da c m" for K t da c m
  by unfold_locales (auto simp: NewTxBuilderBananaValidium_def same_batches_def elim!: banana_NewSequence_Inr)

interpretation elderberry_zkevm: tx_builder "NewTxBuilderElderberryZKEVM c m" for c m
  by unfold_locales
    (auto simp: NewTxBuilderElderberryZKEVM_def same_batches_def elderberry_NewSequence_def NewElderberrySequence_def)

interpretation elderberry_validium: tx_builder "NewTxBuilderElderberryValidium K da c m" for K da c m
  by unfold_locales
    (auto simp: NewTxBuilderElderberryValidium_def same_batches_def elderberry_NewSequence_def NewElderberrySequence_def)

section \<open>Properties\<close>

lemma foldl_max_ge:
  fixes f :: "'a \<Rightarrow> 'b::linorder"
  shows "m \<le> foldl (\<lambda>m b. if m < f b then f b else m) m bs \<and>
    (\<forall>b\<in>set bs. f b \<le> foldl (\<lambda>m b. if m < f b then f b else m) m bs)"
proof (induction bs arbitrary: m)
  case (Cons b bs)
  let ?m = "if m < f b then f b else m"
  have "m \<le> ?m" "f b \<le> ?m" by auto
  with Cons.IH [of ?m] show ?case by auto
qed simp

lemma GetCounterL1InfoRoot_covers:
  "GetCounterL1InfoRoot t h = Inr c \<Longrightarrow> h < c \<or> c = 0 \<and> h = 0"
  by (auto simp: GetCounterL1InfoRoot_def bind_err_Inr split: if_splits)

text \<open>C31. A Banana sequence is consistent with its batches: it holds exactly the given batches, its accumulated input hash is
  the hash chain of the batches from the contract's last one, its L1 info root is the contract's
  root for a leaf count greater than every index the batches declare (or no leaf is used), and
  its maximal timestamp bounds the timestamps of the batches.\<close>

theorem banana_sequence_consistent:
  assumes "banana_NewSequence K t bs coinbase = Inr s"
  shows "\<exists>q. s = BananaS q \<and> sq_Batches q = map toEthermanBatch bs \<and> sq_L2Coinbase q = coinbase \<and>
    bb_LastAccInputHash t = Inr (sq_OldAccInputHash q) \<and>
    sq_AccInputHash q = foldl (next_acc K q) (sq_OldAccInputHash q) (sq_Batches q) \<and>
    bb_L1InfoRootMap t (sq_CounterL1InfoRoot q) = Inr (sq_L1InfoRoot q) \<and>
    (\<forall>b\<in>set (sq_Batches q). (bt_L1InfoTreeIndex b < sq_CounterL1InfoRoot q \<or>
        sq_CounterL1InfoRoot q = 0 \<and> bt_L1InfoTreeIndex b = 0) \<and>
      bt_LastL2BLockTimestamp b \<le> sq_MaxSequenceTimestamp q)"
proof -
  from assms obtain q where q: "s = BananaS q" "sq_Batches q = map toEthermanBatch bs" "sq_L2Coinbase q = coinbase"
    "GetCounterL1InfoRoot t (getHighestL1InfoIndex (sq_Batches q)) = Inr (sq_CounterL1InfoRoot q)"
    "bb_LastAccInputHash t = Inr (sq_OldAccInputHash q)"
    "bb_L1InfoRootMap t (sq_CounterL1InfoRoot q) = Inr (sq_L1InfoRoot q)"
    "sq_MaxSequenceTimestamp q = sq_MaxSequenceTimestamp (NewSequenceBanana (map toEthermanBatch bs) coinbase)"
    "sq_AccInputHash q = foldl (next_acc K q) (sq_OldAccInputHash q) (sq_Batches q)"
    by (rule banana_NewSequence_Inr)
  have idx: "bt_L1InfoTreeIndex b \<le> getHighestL1InfoIndex (sq_Batches q)" if "b \<in> set (sq_Batches q)" for b
    using foldl_max_ge [of 0 bt_L1InfoTreeIndex "sq_Batches q"] that by (simp add: getHighestL1InfoIndex_def)
  have "bt_L1InfoTreeIndex b < sq_CounterL1InfoRoot q \<or> sq_CounterL1InfoRoot q = 0 \<and> bt_L1InfoTreeIndex b = 0"
    if "b \<in> set (sq_Batches q)" for b
    using GetCounterL1InfoRoot_covers [OF q(4)] idx [OF that] by auto
  moreover have "bt_LastL2BLockTimestamp b \<le> sq_MaxSequenceTimestamp q" if "b \<in> set (sq_Batches q)" for b
    using foldl_max_ge [of 0 bt_LastL2BLockTimestamp "sq_Batches q"] that q(2,7) by (auto simp: NewSequenceBanana_def)
  ultimately show ?thesis using q by blast
qed

definition sample_rpc_batch :: "u64 \<Rightarrow> u32 \<Rightarrow> seq_batch" where
  "sample_rpc_batch n i = RpcB ((NewRPCBatch n 0 [] [1] 0 0 0 0 True)\<lparr>rb_l1InfoTreeIndex := i, rb_lastL2BlockTimestamp := 10 + n\<rparr>)"

definition sample_base :: TxBuilderBananaBase where
  "sample_base = \<lparr>bb_LastAccInputHash = Inr 4, bb_L1InfoRootMap = (\<lambda>_. Inr 5),
     bb_GetLatestInfoUntilBlock = (\<lambda>_. Inl l1_ErrNotFound),
     bb_GetInitL1InfoRootMap = Inr (Some \<lparr>in_BlockNumber = 1, in_LeafCount = 3, in_L1InfoRoot = 5\<rparr>), bb_HeaderByNumber = Inr 9\<rparr>"

theorem banana_sequence_consistent_witness:
  "\<exists>q. banana_NewSequence sample_keccak sample_base [sample_rpc_batch 1 2, sample_rpc_batch 2 0] 7 = Inr (BananaS q) \<and>
     sq_CounterL1InfoRoot q = 3 \<and> sq_MaxSequenceTimestamp q = 12 \<and>
     sq_AccInputHash q = foldl (next_acc sample_keccak q) 4 (sq_Batches q) \<and>
     (\<forall>b\<in>set (sq_Batches q). bt_L1InfoTreeIndex b < 3)"
proof -
  let ?bs = "[sample_rpc_batch 1 2, sample_rpc_batch 2 0]"
  obtain q where q: "banana_NewSequence sample_keccak sample_base ?bs 7 = Inr (BananaS q)"
    "sq_CounterL1InfoRoot q = 3" "sq_MaxSequenceTimestamp q = 12" "sq_OldAccInputHash q = 4"
    by (simp add: banana_NewSequence_def toEthermanBatches_def sample_rpc_batch_def sample_base_def NewSequenceBanana_def
        getHighestL1InfoIndex_def NewRPCBatch_def GetCounterL1InfoRoot_def CheckL1InfoTreeLeafCounterVsInitL1InfoMap_def Let_def)
  from banana_sequence_consistent [OF q(1)] q show ?thesis by fastforce
qed

text \<open>A batch that is too big on its own is sent all the same: when the only batch of a sequence exceeds the limit,
  the condition returns the sequence with it, where its comment promises to wait.\<close>

theorem oversized_single_batch_is_sent:
  assumes "0 < m" and "tb_NewSequence t [b] coinbase = Inr s" and "length (Batches s) = 1"
    and "tb_BuildSequenceBatchesTx t s = Inr tx" and "m < l1tx_Size tx"
  shows "max_size_NewSequenceIfWorthToSend m t [b] coinbase = Inr (Some s)"
  using assms by (auto simp: max_size_NewSequenceIfWorthToSend_def handleEstimateGasSendSequenceErr_def
      ErrOversizedData_def ErrInsufficientAllowance_def)

theorem oversized_single_batch_is_sent_witness:
  "\<exists>s. max_size_NewSequenceIfWorthToSend 10
     (NewTxBuilderElderberryZKEVM (\<lambda>_ _ _ _. Inr \<lparr>l1tx_To = None, l1tx_Data = [], l1tx_Size = 11\<rparr>) 10)
     [sample_rpc_batch 1 0] 7 = Inr (Some s)"
  by (rule exI, rule oversized_single_batch_is_sent [where s = "ElderberryS (NewElderberrySequence [sample_rpc_batch 1 0] 7)"
        and tx = "\<lparr>l1tx_To = None, l1tx_Data = [], l1tx_Size = 11\<rparr>"])
    (simp_all add: NewTxBuilderElderberryZKEVM_def elderberry_NewSequence_def NewElderberrySequence_def
      elderberry_zkevm_BuildSequenceBatchesTx_def getLastSequencedBatchNumber_def sample_rpc_batch_def FirstBatch_def
      NewRPCBatch_def parse_err_def Let_def)

text \<open>A failed transaction build crashes the sender: when building the transaction of at least two batches fails with any
  error but an insufficient allowance, the condition reads the size of a nil transaction.\<close>

theorem build_error_panics:
  assumes "0 < m" and "tb_NewSequence t bs coinbase = Inr s" and "length (Batches s) > 1"
    and "tb_BuildSequenceBatchesTx t s = Inl e" and "e \<noteq> ErrInsufficientAllowance"
    and "tb_NewSequence t (butlast (Batches s)) coinbase = Inr s'"
  shows "max_size_NewSequenceIfWorthToSend m t bs coinbase = Inl ErrPanic"
  using assms by (auto simp: max_size_NewSequenceIfWorthToSend_def handleEstimateGasSendSequenceErr_def split: sum.split)

theorem build_error_panics_witness:
  "max_size_NewSequenceIfWorthToSend 10 (NewTxBuilderElderberryZKEVM (\<lambda>_ _ _ _. Inl ErrNotFound) 10)
     [sample_rpc_batch 1 0, sample_rpc_batch 2 0] 7 = Inl ErrPanic"
  by (rule build_error_panics [of _ _ _ _ "ElderberryS (NewElderberrySequence [sample_rpc_batch 1 0, sample_rpc_batch 2 0] 7)"
        ErrNotFound "ElderberryS (NewElderberrySequence [sample_rpc_batch 1 0] 7)"])
    (simp_all add: NewTxBuilderElderberryZKEVM_def elderberry_NewSequence_def NewElderberrySequence_def
      elderberry_zkevm_BuildSequenceBatchesTx_def getLastSequencedBatchNumber_def sample_rpc_batch_def FirstBatch_def
      NewRPCBatch_def parse_err_def Let_def ErrInsufficientAllowance_def)

end
