(* ===== verification/SequenceSender.thy ===== *)
theory SequenceSender
  imports TxBuilder "HOL-Library.AList"
begin

text \<open>
  The sequence sender (\<open>src/sequencesender/sequencesender.go\<close>, \<open>ethtx.go\<close>): it reads closed batches from the
  RPC node, decides which of them form the next sequence, sends it to L1 and follows the
  transactions it sent.

  Each operation returns the new state and an outcome: \<open>Ret\<close>, \<open>Blocked\<close> when the goroutine
  never continues (it waits for a mutex it holds itself, or loops in \<open>logFatalf\<close>), or \<open>Panicked\<close>. The
  mutex \<open>mutexEthTx\<close> is only used by the sending goroutine, so that locking it while it is held
  blocks for ever. Go maps are association lists; ranging over one follows the list, one of the
  orders the language allows.
\<close>

section \<open>State and collaborators\<close>

record ethTxData =
  et_Nonce :: u64
  et_Status :: string
  et_SentL1Timestamp :: int
  et_StatusTimestamp :: int
  et_FromBatch :: u64
  et_ToBatch :: u64
  et_MinedAtBlock :: int
  et_OnMonitor :: bool
  et_To :: address
  et_StateHistory :: "(int \<times> string \<times> string) list"
  et_Txs :: "(hash \<times> int option \<times> string) list"
  et_Gas :: u64

record MonitoredTxResult =
  mr_ID :: hash
  mr_Status :: string
  mr_Nonce :: u64
  mr_To :: "address option"
  mr_MinedAtBlockNumber :: "int option"
  mr_Data :: bytes
  mr_Txs :: "(hash \<times> int option \<times> string) list"

record sequenceData =
  sd_batchClosed :: bool
  sd_batch :: RPCBatch
  sd_batchRaw :: BatchRawV2

record SequenceSender =
  ss_latestVirtualBatchNumber :: u64
  ss_latestVirtualTime :: int
  ss_latestSentToL1Batch :: u64
  ss_sequenceList :: "u64 list"
  ss_sequenceData :: "u64 \<Rightarrow> sequenceData option"
  ss_ethTransactions :: "(hash \<times> ethTxData) list"
  ss_ethTxData :: "hash \<Rightarrow> bytes"
  ss_mutexEthTx :: bool
  ss_seqSendingStopped :: bool

text \<open>Configuration; the status names are those of the transaction manager.\<close>

record ss_Config =
  cf_LastBatchVirtualizationTimeMaxWaitPeriod :: int
  cf_L1BlockTimestampMargin :: int
  cf_L2Coinbase :: address
  cf_ForkUpgradeBatchNumber :: u64
  cf_WaitPeriodPurgeTxFile :: int
  cf_MaxPendingTx :: u64
  cf_SequencesTxFileName :: string
  cf_Failed :: string
  cf_Safe :: string
  cf_Finalized :: string

text \<open>What one round sees of the outside: the \<open>n\<close>-th call of a function that is called more than once gets the argument \<open>n\<close>.\<close>

record ss_env =
  em_GetLatestBatchNumber :: "nat \<Rightarrow> error + u64"
  em_LatestBlockTime :: "nat \<Rightarrow> error + u64"
  em_EstimateGas :: "address option \<Rightarrow> bytes \<Rightarrow> error + u64"
  tm_AddWithGas :: "address option \<Rightarrow> bytes \<Rightarrow> u64 \<Rightarrow> error + hash"
  tm_Result :: "hash \<Rightarrow> error + MonitoredTxResult"
  tm_ResultsByStatus :: "error + MonitoredTxResult list"
  os_Create :: "error option"
  os_Encode :: "(error \<times> nat) option"
  os_Rename :: "error option"
  clock_Unix :: "nat \<Rightarrow> u64"
  clock_Now :: int
  ctx_Done :: "nat \<Rightarrow> bool"

datatype 'a outcome = Ret 'a | Blocked | Panicked

definition IsStopped :: "SequenceSender \<Rightarrow> bool" where
  "IsStopped s = ss_seqSendingStopped s"

section \<open>Reading batches\<close>

definition populateSequenceData ::
  "rlp_lib \<Rightarrow> RPCBatch \<Rightarrow> u64 \<Rightarrow> SequenceSender \<Rightarrow> SequenceSender \<times> error option outcome"
where
  "populateSequenceData rlp rpcBatch batchNumber s =
     (let s1 = s\<lparr>ss_sequenceList := ss_sequenceList s @ [batchNumber]\<rparr> in
      case DecodeBatchV2 rlp (rb_batchL2Data rpcBatch) of
        None \<Rightarrow> (s1, Blocked)
      | Some (Inl e) \<Rightarrow> (s1, if e = ErrPanic then Panicked else Ret (Some e))
      | Some (Inr batchRaw) \<Rightarrow>
          let rpcBatch1 = (if Blocks batchRaw \<noteq> []
                then rpcBatch\<lparr>rb_l1InfoTreeIndex := IndexL1InfoTree (bl_Header (last (Blocks batchRaw)))\<rparr> else rpcBatch)
          in (s1\<lparr>ss_sequenceData := (ss_sequenceData s1)(batchNumber \<mapsto>
                 \<lparr>sd_batchClosed = rb_closed rpcBatch1, sd_batch = rpcBatch1, sd_batchRaw = batchRaw\<rparr>)\<rparr>, Ret None))"

definition purgeSequences :: "SequenceSender \<Rightarrow> SequenceSender" where
  "purgeSequences s =
     (if IsStopped s then s
      else let old = (\<lambda>n. n \<le> ss_latestVirtualBatchNumber s);
               toPurge = filter old (ss_sequenceList s);
               truncateUntil = length (ss_sequenceList s) - length (takeWhile (\<lambda>n. \<not> old n) (rev (ss_sequenceList s)))
           in if toPurge = [] then s
              else s\<lparr>ss_sequenceList := drop truncateUntil (ss_sequenceList s),
                     ss_sequenceData := (\<lambda>n. if n \<in> set toPurge then None else ss_sequenceData s n)\<rparr>)"

section \<open>Following sent transactions\<close>

definition update_tx :: "hash \<Rightarrow> (ethTxData \<Rightarrow> ethTxData) \<Rightarrow> SequenceSender \<Rightarrow> SequenceSender" where
  "update_tx h f s =
     s\<lparr>ss_ethTransactions := map (\<lambda>(k, d). if k = h then (k, f d) else (k, d)) (ss_ethTransactions s)\<rparr>"

definition copyTxData ::
  "hash \<Rightarrow> bytes \<Rightarrow> (hash \<times> int option \<times> string) list \<Rightarrow> SequenceSender \<Rightarrow> SequenceSender \<times> unit outcome"
where
  "copyTxData txHash txData txsResults s =
     (let s1 = s\<lparr>ss_ethTxData := (ss_ethTxData s)(txHash := txData)\<rparr> in
      case map_of (ss_ethTransactions s) txHash of
        None \<Rightarrow> (s1, Panicked)
      | Some _ \<Rightarrow> (update_tx txHash (\<lambda>d. d\<lparr>et_Txs := txsResults\<rparr>) s1, Ret ()))"

definition updateEthTxResult ::
  "ss_Config \<Rightarrow> ss_env \<Rightarrow> hash \<Rightarrow> ethTxData \<Rightarrow> MonitoredTxResult \<Rightarrow> SequenceSender \<Rightarrow> SequenceSender \<times> unit outcome"
where
  "updateEthTxResult cfg env txHash txData txResult s =
     (let changed = (et_Status txData \<noteq> mr_Status txResult);
          s1 = (if changed
                then update_tx txHash (\<lambda>d. d\<lparr>et_StatusTimestamp := clock_Now env, et_Status := mr_Status txResult,
                       et_StateHistory := et_StateHistory d @ [(clock_Now env, et_Status txData, mr_Status txResult)]\<rparr>) s
                else s)
      in if changed \<and> mr_Status txResult = cf_Failed cfg then (s1\<lparr>ss_seqSendingStopped := True\<rparr>, Blocked)
         else let s2 = (if changed \<and> (mr_Status txResult = cf_Safe cfg \<or> mr_Status txResult = cf_Finalized cfg) \<and>
                           et_ToBatch txData \<ge> ss_latestVirtualBatchNumber s1
                        then s1\<lparr>ss_latestVirtualTime := clock_Now env\<rparr> else s1);
                  s3 = update_tx txHash (\<lambda>d. d\<lparr>et_Nonce := mr_Nonce txResult,
                         et_To := (case mr_To txResult of None \<Rightarrow> et_To d | Some a \<Rightarrow> a),
                         et_MinedAtBlock := (case mr_MinedAtBlockNumber txResult of None \<Rightarrow> et_MinedAtBlock d | Some n \<Rightarrow> n)\<rparr>) s2
              in copyTxData (mr_ID txResult) (mr_Data txResult) (mr_Txs txResult) s3)"

text \<open>
  Every caller holds \<open>mutexEthTx\<close>. A transaction the manager does not know is sent again: the nested
  \<open>sendTx\<close> adds it and then waits for the mutex.
\<close>

definition getResultAndUpdateEthTx ::
  "ss_Config \<Rightarrow> ss_env \<Rightarrow> hash \<Rightarrow> SequenceSender \<Rightarrow> SequenceSender \<times> error option outcome"
where
  "getResultAndUpdateEthTx cfg env txHash s =
     (case map_of (ss_ethTransactions s) txHash of
        None \<Rightarrow> (s, Ret (Some (ErrMsg ''transaction not found in memory structure'')))
      | Some txData \<Rightarrow>
          (case tm_Result env txHash of
             Inl e \<Rightarrow>
               if e = ErrNotFound
               then let s1 = update_tx txHash (\<lambda>d. d\<lparr>et_OnMonitor := False\<rparr>) s in
                    (case tm_AddWithGas env (Some (et_To txData)) (ss_ethTxData s txHash) (et_Gas txData) of
                       Inl _ \<Rightarrow> (s1, Ret None)
                     | Inr _ \<Rightarrow> (s1, Blocked))
               else (s, Ret (Some e))
           | Inr txResult \<Rightarrow>
               (case updateEthTxResult cfg env txHash txData txResult s of
                  (s1, Ret _) \<Rightarrow> (s1, Ret None)
                | (s1, Blocked) \<Rightarrow> (s1, Blocked)
                | (s1, Panicked) \<Rightarrow> (s1, Panicked))))"

definition purge_tx :: "ss_Config \<Rightarrow> ss_env \<Rightarrow> ethTxData \<Rightarrow> bool" where
  "purge_tx cfg env d \<longleftrightarrow> et_StatusTimestamp d < clock_Now env - cf_WaitPeriodPurgeTxFile cfg \<and>
     (\<not> et_OnMonitor d \<or> et_Status d = cf_Finalized cfg)"

definition purgeEthTx :: "ss_Config \<Rightarrow> ss_env \<Rightarrow> SequenceSender \<Rightarrow> SequenceSender \<times> unit outcome" where
  "purgeEthTx cfg env s =
     (if IsStopped s then (s, Ret ())
      else if ss_mutexEthTx s then (s, Blocked)
      else let toPurge = map fst (filter (\<lambda>(h, d). purge_tx cfg env d) (ss_ethTransactions s)) in
           (s\<lparr>ss_ethTransactions := filter (\<lambda>(h, d). h \<notin> set toPurge) (ss_ethTransactions s),
              ss_ethTxData := (\<lambda>h. if h \<in> set toPurge then [] else ss_ethTxData s h)\<rparr>, Ret ()))"

text \<open>
  The name of the temporary file ends at the first dot, and slicing a name without one panics. Writing the file locks the mutex again. What
  this does to the files is in \<open>SequenceStart\<close>; a failed write gives the error and the bytes written before it.
\<close>

definition saveSentSequencesTransactions ::
  "ss_Config \<Rightarrow> ss_env \<Rightarrow> SequenceSender \<Rightarrow> SequenceSender \<times> error option outcome"
where
  "saveSentSequencesTransactions cfg env s =
     (case purgeEthTx cfg env s of
        (s1, Ret _) \<Rightarrow>
          if CHR ''.'' \<notin> set (cf_SequencesTxFileName cfg) then (s1, Panicked)
          else (case os_Create env of
                  Some e \<Rightarrow> (s1, Ret (Some e))
                | None \<Rightarrow>
                    if ss_mutexEthTx s1 then (s1, Blocked)
                    else (case os_Encode env of
                            Some (e, _) \<Rightarrow> (s1, Ret (Some e))
                          | None \<Rightarrow> (s1, Ret (os_Rename env))))
      | (s1, Blocked) \<Rightarrow> (s1, Blocked)
      | (s1, Panicked) \<Rightarrow> (s1, Panicked))"

fun sync_results ::
  "ss_Config \<Rightarrow> ss_env \<Rightarrow> hash list \<Rightarrow> SequenceSender \<Rightarrow> nat \<Rightarrow> SequenceSender \<times> (error + nat) outcome"
where
  "sync_results cfg env [] s txPending = (s, Ret (Inr txPending))"
| "sync_results cfg env (h # hs) s txPending =
     (case map_of (ss_ethTransactions s) h of
        None \<Rightarrow> sync_results cfg env hs s txPending
      | Some tx \<Rightarrow>
          if et_Status tx = cf_Finalized cfg then sync_results cfg env hs s txPending
          else (case getResultAndUpdateEthTx cfg env h s of
                  (s1, Blocked) \<Rightarrow> (s1, Blocked)
                | (s1, Panicked) \<Rightarrow> (s1, Panicked)
                | (s1, Ret (Some e)) \<Rightarrow> (s1, Ret (Inl e))
                | (s1, Ret None) \<Rightarrow>
                    (case map_of (ss_ethTransactions s1) h of
                       None \<Rightarrow> sync_results cfg env hs s1 txPending
                     | Some tx1 \<Rightarrow>
                         sync_results cfg env hs s1
                           (if et_OnMonitor tx1 \<and> et_Status tx1 \<noteq> cf_Failed cfg \<and> et_Status tx1 \<noteq> cf_Safe cfg \<and>
                               et_Status tx1 \<noteq> cf_Finalized cfg
                            then txPending + 1 else txPending))))"

text \<open>An error of a single result returns without unlocking.\<close>

definition syncEthTxResults :: "ss_Config \<Rightarrow> ss_env \<Rightarrow> SequenceSender \<Rightarrow> SequenceSender \<times> (error + nat) outcome" where
  "syncEthTxResults cfg env s =
     (if ss_mutexEthTx s then (s, Blocked)
      else case sync_results cfg env (map fst (ss_ethTransactions s)) (s\<lparr>ss_mutexEthTx := True\<rparr>) 0 of
             (s1, Blocked) \<Rightarrow> (s1, Blocked)
           | (s1, Panicked) \<Rightarrow> (s1, Panicked)
           | (s1, Ret (Inl e)) \<Rightarrow> (s1, Ret (Inl e))
           | (s1, Ret (Inr txPending)) \<Rightarrow>
               (case saveSentSequencesTransactions cfg env (s1\<lparr>ss_mutexEthTx := False\<rparr>) of
                  (s2, Blocked) \<Rightarrow> (s2, Blocked)
                | (s2, Panicked) \<Rightarrow> (s2, Panicked)
                | (s2, Ret (Some e)) \<Rightarrow> (s2, Ret (Inl e))
                | (s2, Ret None) \<Rightarrow> (s2, Ret (Inr txPending))))"

fun sync_all :: "ss_Config \<Rightarrow> ss_env \<Rightarrow> MonitoredTxResult list \<Rightarrow> SequenceSender \<Rightarrow> SequenceSender \<times> unit outcome" where
  "sync_all cfg env [] s = (s, Ret ())"
| "sync_all cfg env (result # results) s =
     (let missing = \<lparr>et_Nonce = 0, et_Status = ''*missing'', et_SentL1Timestamp = 0, et_StatusTimestamp = clock_Now env,
            et_FromBatch = 0, et_ToBatch = 0, et_MinedAtBlock = 0, et_OnMonitor = True, et_To = 0,
            et_StateHistory = [], et_Txs = [], et_Gas = 0\<rparr>;
          s1 = (case map_of (ss_ethTransactions s) (mr_ID result) of
                  None \<Rightarrow> s\<lparr>ss_ethTransactions := AList.update (mr_ID result) missing (ss_ethTransactions s)\<rparr>
                | Some _ \<Rightarrow> s);
          txSequence = (case map_of (ss_ethTransactions s) (mr_ID result) of None \<Rightarrow> missing | Some d \<Rightarrow> d)
      in case updateEthTxResult cfg env (mr_ID result) txSequence result s1 of
           (s2, Ret _) \<Rightarrow> sync_all cfg env results s2
         | (s2, Blocked) \<Rightarrow> (s2, Blocked)
         | (s2, Panicked) \<Rightarrow> (s2, Panicked))"

definition syncAllEthTxResults :: "ss_Config \<Rightarrow> ss_env \<Rightarrow> SequenceSender \<Rightarrow> SequenceSender \<times> error option outcome" where
  "syncAllEthTxResults cfg env s =
     (case tm_ResultsByStatus env of
        Inl e \<Rightarrow> (s, Ret (Some e))
      | Inr results \<Rightarrow>
          if ss_mutexEthTx s then (s, Blocked)
          else (case sync_all cfg env results (s\<lparr>ss_mutexEthTx := True\<rparr>) of
                  (s1, Blocked) \<Rightarrow> (s1, Blocked)
                | (s1, Panicked) \<Rightarrow> (s1, Panicked)
                | (s1, Ret _) \<Rightarrow>
                    (case saveSentSequencesTransactions cfg env (s1\<lparr>ss_mutexEthTx := False\<rparr>) of
                       (s2, Ret _) \<Rightarrow> (s2, Ret None)
                     | r \<Rightarrow> r)))"

section \<open>Sending\<close>

definition sendTx ::
  "ss_Config \<Rightarrow> ss_env \<Rightarrow> address option \<Rightarrow> u64 \<Rightarrow> u64 \<Rightarrow> bytes \<Rightarrow> u64 \<Rightarrow> SequenceSender \<Rightarrow> SequenceSender \<times> error option outcome"
where
  "sendTx cfg env paramTo fromBatch toBatch paramData gas s =
     (case tm_AddWithGas env paramTo paramData gas of
        Inl e \<Rightarrow> (s, Ret (Some e))
      | Inr txHash \<Rightarrow>
          if ss_mutexEthTx s then (s, Blocked)
          else let txData = \<lparr>et_Nonce = 0, et_Status = ''*new'', et_SentL1Timestamp = clock_Now env,
                     et_StatusTimestamp = clock_Now env, et_FromBatch = fromBatch, et_ToBatch = toBatch,
                     et_MinedAtBlock = 0, et_OnMonitor = True, et_To = (case paramTo of None \<Rightarrow> 0 | Some a \<Rightarrow> a),
                     et_StateHistory = [], et_Txs = [], et_Gas = gas\<rparr>;
                   s1 = s\<lparr>ss_mutexEthTx := True, ss_ethTransactions := AList.update txHash txData (ss_ethTransactions s)\<rparr>;
                   s2 = fst (copyTxData txHash paramData [] s1)
               in (case getResultAndUpdateEthTx cfg env txHash s2 of
                     (s3, Blocked) \<Rightarrow> (s3, Blocked)
                   | (s3, Panicked) \<Rightarrow> (s3, Panicked)
                   | (s3, Ret _) \<Rightarrow>
                       (case saveSentSequencesTransactions cfg env
                               (s3\<lparr>ss_latestSentToL1Batch := toBatch, ss_mutexEthTx := False\<rparr>) of
                          (s4, Ret _) \<Rightarrow> (s4, Ret None)
                        | r \<Rightarrow> r)))"

definition updateLatestVirtualBatch :: "error + u64 \<Rightarrow> SequenceSender \<Rightarrow> SequenceSender \<times> error option" where
  "updateLatestVirtualBatch r s =
     (case r of
        Inl _ \<Rightarrow> (s, Some (ErrMsg ''fail to get latest virtual batch''))
      | Inr n \<Rightarrow> (s\<lparr>ss_latestVirtualBatchNumber := n\<rparr>, None))"

text \<open>\<open>int64\<close> arithmetic: conversions keep the bits, differences wrap around, comparisons are signed.\<close>

definition marginTimeElapsed :: "u64 \<Rightarrow> u64 \<Rightarrow> u64 \<Rightarrow> bool \<times> u64" where
  "marginTimeElapsed l2BlockTimestamp currentTime timeMargin =
     (if sint (l2BlockTimestamp - timeMargin) > sint currentTime then (True, 0)
      else let timeDiff = currentTime - l2BlockTimestamp in
           if sint timeDiff < sint timeMargin then (False, timeMargin - timeDiff) else (True, 0))"

text \<open>The ticks of \<open>waitForMargin\<close>: \<open>None\<close> when it never returns.\<close>

partial_function (option) waitForMargin_loop ::
  "(nat \<Rightarrow> error + u64) \<Rightarrow> (nat \<Rightarrow> bool) \<Rightarrow> u64 \<Rightarrow> u64 \<Rightarrow> nat \<Rightarrow> error option option"
where
  "waitForMargin_loop getTime cancelled lastL2BlockTimestamp timeMargin i =
     (if cancelled i then Some (Some (ErrMsg ''context canceled''))
      else case getTime i of
             Inl e \<Rightarrow> Some (Some e)
           | Inr referentTime \<Rightarrow>
               if fst (marginTimeElapsed lastL2BlockTimestamp referentTime timeMargin) then Some None
               else waitForMargin_loop getTime cancelled lastL2BlockTimestamp timeMargin (i + 1))"

definition waitForMargin ::
  "(nat \<Rightarrow> error + u64) \<Rightarrow> (nat \<Rightarrow> bool) \<Rightarrow> seq_batch \<Rightarrow> u64 \<Rightarrow> error option option"
where
  "waitForMargin getTime cancelled lastBatch timeMargin =
     (case getTime 0 of
        Inl e \<Rightarrow> Some (Some e)
      | Inr referentTime \<Rightarrow>
          if fst (marginTimeElapsed (sb_LastL2BLockTimestamp lastBatch) referentTime timeMargin) then Some None
          else waitForMargin_loop getTime cancelled (sb_LastL2BLockTimestamp lastBatch) timeMargin 1)"

text \<open>The loop of \<open>getSequencesToSend\<close>; \<open>Inr None\<close> from the loop: the last batch was reached.\<close>

fun collect ::
  "ss_Config \<Rightarrow> TxBuilder \<Rightarrow> SequenceSender \<Rightarrow> u64 list \<Rightarrow> address \<Rightarrow> seq_batch list \<Rightarrow>
   (error + Sequence option) + seq_batch list"
where
  "collect cfg t s [] prevCoinbase sequenceBatches = Inr sequenceBatches"
| "collect cfg t s (batchNumber # rest) prevCoinbase sequenceBatches =
     (if batchNumber \<le> ss_latestVirtualBatchNumber s \<or> batchNumber \<le> ss_latestSentToL1Batch s
      then collect cfg t s rest prevCoinbase sequenceBatches
      else if cf_ForkUpgradeBatchNumber cfg \<noteq> 0 \<and> batchNumber = cf_ForkUpgradeBatchNumber cfg + 1
      then Inl (Inl (ErrMsg ''aborting sequencing process as we reached the batch where a new forkid is applied''))
      else case ss_sequenceData s batchNumber of
             None \<Rightarrow> Inl (Inl ErrPanic)
           | Some d \<Rightarrow>
               let batch = RpcB (rpc_DeepCopy (sd_batch d)) in
               if sequenceBatches \<noteq> [] \<and> sb_LastCoinbase batch \<noteq> prevCoinbase
               then Inl (map_sum id Some (tb_NewSequence t sequenceBatches (cf_L2Coinbase cfg)))
               else let bs = sequenceBatches @ [batch] in
                    (case NewSequenceIfWorthToSend t bs (cf_L2Coinbase cfg) of
                       Inl e \<Rightarrow> Inl (Inl e)
                     | Inr (Some newSeq) \<Rightarrow> Inl (Inr (Some newSeq))
                     | Inr None \<Rightarrow>
                         if cf_ForkUpgradeBatchNumber cfg \<noteq> 0 \<and> batchNumber = cf_ForkUpgradeBatchNumber cfg
                         then Inl (map_sum id Some (tb_NewSequence t bs (cf_L2Coinbase cfg)))
                         else collect cfg t s rest (sb_LastCoinbase batch) bs))"

definition getSequencesToSend :: "ss_Config \<Rightarrow> TxBuilder \<Rightarrow> int \<Rightarrow> SequenceSender \<Rightarrow> error + Sequence option" where
  "getSequencesToSend cfg t now s =
     (case collect cfg t s (ss_sequenceList s) 0 [] of
        Inl r \<Rightarrow> r
      | Inr sequenceBatches \<Rightarrow>
          if sequenceBatches = [] then Inr None
          else if ss_latestVirtualTime s < now - cf_LastBatchVirtualizationTimeMaxWaitPeriod cfg
          then map_sum id Some (tb_NewSequence t sequenceBatches (cf_L2Coinbase cfg))
          else Inr None)"

text \<open>Building, estimating and sending the chosen sequence. \<open>Fatalf\<close> ends the process.\<close>

definition send_sequence :: "ss_Config \<Rightarrow> TxBuilder \<Rightarrow> ss_env \<Rightarrow> Sequence \<Rightarrow> SequenceSender \<Rightarrow> SequenceSender \<times> unit outcome" where
  "send_sequence cfg t env sequence s =
     (case tb_BuildSequenceBatchesTx t sequence of
        Inl e \<Rightarrow> (s, if e = ErrPanic then Panicked else Ret ())
      | Inr tx \<Rightarrow>
          (case updateLatestVirtualBatch (em_GetLatestBatchNumber env 1) s of
             (s1, Some _) \<Rightarrow> (s1, Panicked)
           | (s1, None) \<Rightarrow>
               (case em_EstimateGas env (l1tx_To tx) (l1tx_Data tx) of
                  Inl _ \<Rightarrow> (s1, Ret ())
                | Inr gas \<Rightarrow>
                    (case sendTx cfg env (l1tx_To tx) (sb_BatchNumber (FirstBatch sequence))
                            (sb_BatchNumber (LastBatch sequence)) (l1tx_Data tx) gas s1 of
                       (s2, Ret None) \<Rightarrow> (purgeSequences s2, Ret ())
                     | (s2, Ret (Some _)) \<Rightarrow> (s2, Ret ())
                     | (s2, Blocked) \<Rightarrow> (s2, Blocked)
                     | (s2, Panicked) \<Rightarrow> (s2, Panicked)))))"

definition tryToSendSequence :: "ss_Config \<Rightarrow> TxBuilder \<Rightarrow> ss_env \<Rightarrow> SequenceSender \<Rightarrow> SequenceSender \<times> unit outcome" where
  "tryToSendSequence cfg t env s =
     (case updateLatestVirtualBatch (em_GetLatestBatchNumber env 0) s of
        (s1, Some _) \<Rightarrow> (s1, Ret ())
      | (s1, None) \<Rightarrow>
          if IsStopped s1 then (s1, Ret ())
          else case syncEthTxResults cfg env s1 of
            (s2, Blocked) \<Rightarrow> (s2, Blocked)
          | (s2, Panicked) \<Rightarrow> (s2, Panicked)
          | (s2, Ret (Inl _)) \<Rightarrow> (s2, Ret ())
          | (s2, Ret (Inr pendingTxsCount)) \<Rightarrow>
              if of_nat pendingTxsCount \<ge> cf_MaxPendingTx cfg then (s2, Ret ())
              else (case getSequencesToSend cfg t (clock_Now env) s2 of
                 Inl e \<Rightarrow> (s2, if e = ErrPanic then Panicked else Ret ())
               | Inr None \<Rightarrow> (s2, Ret ())
               | Inr (Some sequence) \<Rightarrow>
                   if Batches sequence = [] then (s2, Ret ())
                   else let timeMargin = of_int (cf_L1BlockTimestampMargin cfg) in
                     (case waitForMargin (em_LatestBlockTime env) (ctx_Done env) (LastBatch sequence) timeMargin of
                        None \<Rightarrow> (s2, Blocked)
                      | Some (Some _) \<Rightarrow> (s2, Ret ())
                      | Some None \<Rightarrow>
                          (case waitForMargin (\<lambda>i. Inr (clock_Unix env i)) (ctx_Done env) (LastBatch sequence) timeMargin of
                             None \<Rightarrow> (s2, Blocked)
                           | Some (Some _) \<Rightarrow> (s2, Ret ())
                           | Some None \<Rightarrow> send_sequence cfg t env sequence s2))))"

text \<open>One turn of \<open>batchRetrieval\<close>; \<open>None\<close> as the next batch number when the goroutine has ended in \<open>logFatalf\<close>.\<close>

definition retrieve_batch ::
  "rlp_lib \<Rightarrow> error + RPCBatch \<Rightarrow> u64 \<Rightarrow> SequenceSender \<Rightarrow> u64 option \<times> SequenceSender"
where
  "retrieve_batch rlp rpcBatch currentBatchNumber s =
     (case rpcBatch of
        Inl _ \<Rightarrow> (Some currentBatchNumber, s)
      | Inr b \<Rightarrow>
          if \<not> rb_closed b then (Some currentBatchNumber, s)
          else (case populateSequenceData rlp b currentBatchNumber s of
                  (s1, Ret None) \<Rightarrow> (Some (currentBatchNumber + 1), s1)
                | (s1, _) \<Rightarrow> (None, s1\<lparr>ss_seqSendingStopped := True\<rparr>)))"

definition ss_Start :: "ss_Config \<Rightarrow> ss_env \<Rightarrow> SequenceSender \<Rightarrow> SequenceSender \<times> u64 outcome" where
  "ss_Start cfg env s =
     (case updateLatestVirtualBatch (em_GetLatestBatchNumber env 0) s of
        (s1, Some _) \<Rightarrow> (s1, Panicked)
      | (s1, None) \<Rightarrow>
          (case syncAllEthTxResults cfg env s1 of
             (s2, Ret None) \<Rightarrow>
               (s2\<lparr>ss_latestSentToL1Batch := ss_latestVirtualBatchNumber s2\<rparr>, Ret (ss_latestVirtualBatchNumber s2 + 1))
           | (s2, Blocked) \<Rightarrow> (s2, Blocked)
           | (s2, _) \<Rightarrow> (s2, Panicked)))"

text \<open>The two goroutines: retrieval of the next batch, and a round of the sender. Batch numbers stay below \<open>2^64 - 1\<close>.\<close>

inductive ss_step :: "rlp_lib \<Rightarrow> ss_Config \<Rightarrow> TxBuilder \<Rightarrow> u64 option \<times> SequenceSender \<Rightarrow> u64 option \<times> SequenceSender \<Rightarrow> bool"
  for rlp cfg t where
  Retrieve: "retrieve_batch rlp rpcBatch c s = (c', s') \<Longrightarrow> (\<forall>b. rpcBatch = Inr b \<longrightarrow> rb_batchNumber b = c) \<Longrightarrow> c < - 1 \<Longrightarrow>
    ss_step rlp cfg t (Some c, s) (c', s')"
| Round: "tryToSendSequence cfg t env s = (s', r) \<Longrightarrow> ss_step rlp cfg t (c, s) (c, s')"

abbreviation ss_reach where
  "ss_reach rlp cfg t \<equiv> (ss_step rlp cfg t)\<^sup>*\<^sup>*"

section \<open>The list of batches\<close>

text \<open>The batches in memory are consecutive, end before the next one to retrieve, and their data is there.\<close>

definition from_batch :: "u64 \<Rightarrow> nat \<Rightarrow> u64 list" where
  "from_batch a n = map (\<lambda>i. a + of_nat i) [0..<n]"

definition data_ok :: "SequenceSender \<Rightarrow> u64 \<Rightarrow> bool" where
  "data_ok s n \<longleftrightarrow> (\<exists>d. ss_sequenceData s n = Some d \<and> rb_batchNumber (sd_batch d) = n)"

definition list_ok :: "u64 \<Rightarrow> SequenceSender \<Rightarrow> bool" where
  "list_ok c s \<longleftrightarrow> (\<exists>a n. unat a + n = unat c \<and> ss_sequenceList s = from_batch a n) \<and>
     (\<forall>n\<in>set (ss_sequenceList s). data_ok s n)"

definition ss_inv :: "u64 option \<times> SequenceSender \<Rightarrow> bool" where
  "ss_inv cs \<longleftrightarrow> (case fst cs of None \<Rightarrow> ss_seqSendingStopped (snd cs) | Some c \<Rightarrow> list_ok c (snd cs))"

lemma unat_from_batch: "i < n \<Longrightarrow> unat a + n \<le> 2 ^ 64 \<Longrightarrow> unat (a + of_nat i :: u64) = unat a + i"
  by (subst unat_add_lem [THEN iffD1]) (simp_all add: unsigned_of_nat take_bit_nat_eq_self)

lemma map_unat_from_batch: "unat a + n \<le> 2 ^ 64 \<Longrightarrow> map unat (from_batch a n) = [unat a..<unat a + n]"
  by (auto intro: nth_equalityI simp: from_batch_def unat_from_batch)

lemma from_batch_Suc: "from_batch a (Suc n) = from_batch a n @ [a + of_nat n]"
  by (simp add: from_batch_def)

lemma drop_from_batch: "k \<le> n \<Longrightarrow> drop k (from_batch a n) = from_batch (a + of_nat k) (n - k)"
  by (rule nth_equalityI) (auto simp: from_batch_def)

text \<open>Following transactions does not touch the batches, and a stopped sender stays stopped.\<close>

definition keeps :: "SequenceSender \<Rightarrow> SequenceSender \<Rightarrow> bool" where
  "keeps s s' \<longleftrightarrow> ss_sequenceList s' = ss_sequenceList s \<and> ss_sequenceData s' = ss_sequenceData s \<and>
     ss_latestSentToL1Batch s' = ss_latestSentToL1Batch s \<and>
     ss_latestVirtualBatchNumber s' = ss_latestVirtualBatchNumber s \<and>
     (ss_seqSendingStopped s \<longrightarrow> ss_seqSendingStopped s')"

lemma keeps_refl [simp]: "keeps s s"
  by (simp add: keeps_def)

lemma keeps_trans: "keeps s s1 \<Longrightarrow> keeps s1 s2 \<Longrightarrow> keeps s s2"
  by (simp add: keeps_def)

lemma keeps_update_tx [simp]: "keeps s (update_tx h f s1) \<longleftrightarrow> keeps s s1"
  by (simp add: keeps_def update_tx_def)

lemma keeps_fields [simp]:
  "keeps s (s1\<lparr>ss_mutexEthTx := b\<rparr>) \<longleftrightarrow> keeps s s1"
  "keeps s (s1\<lparr>ss_ethTransactions := ts\<rparr>) \<longleftrightarrow> keeps s s1"
  "keeps s (s1\<lparr>ss_ethTxData := ds\<rparr>) \<longleftrightarrow> keeps s s1"
  "keeps s (s1\<lparr>ss_latestVirtualTime := n\<rparr>) \<longleftrightarrow> keeps s s1"
  by (simp_all add: keeps_def)

lemma copyTxData_keeps: "copyTxData h d r s = (s', x) \<Longrightarrow> keeps s s'"
  by (auto simp: copyTxData_def Let_def split: option.splits)

lemma updateEthTxResult_keeps:
  assumes "updateEthTxResult cfg env h d r s = (s', x)"
  shows "keeps s s'"
proof -
  have k: "keeps s s'" if "copyTxData i b q s1 = (s', x)" "keeps s s1" for i b q s1
    using copyTxData_keeps [OF that(1)] that(2) keeps_trans by blast
  have st: "keeps s (s1\<lparr>ss_seqSendingStopped := True\<rparr>)" if "keeps s s1" for s1
    using that by (simp add: keeps_def)
  from assms show ?thesis
    by (auto simp: updateEthTxResult_def Let_def split: if_splits intro: st elim!: k)
qed

lemma getResult_keeps:
  assumes "getResultAndUpdateEthTx cfg env h s = (s', x)"
  shows "keeps s s'"
proof (cases "map_of (ss_ethTransactions s) h")
  case None
  with assms show ?thesis by (simp add: getResultAndUpdateEthTx_def)
next
  case (Some d)
  show ?thesis
  proof (cases "tm_Result env h")
    case (Inl e)
    with Some assms show ?thesis
      by (simp add: getResultAndUpdateEthTx_def Let_def split: if_splits sum.splits) auto
  next
    case (Inr r)
    obtain s1 y where u: "updateEthTxResult cfg env h d r s = (s1, y)" by (metis surj_pair)
    with Some Inr assms have "s' = s1" by (simp add: getResultAndUpdateEthTx_def split: outcome.splits)
    with updateEthTxResult_keeps [OF u] show ?thesis by simp
  qed
qed

lemma purgeEthTx_keeps: "purgeEthTx cfg env s = (s', x) \<Longrightarrow> keeps s s'"
  by (auto simp: purgeEthTx_def Let_def split: if_splits)

lemma save_keeps:
  assumes "saveSentSequencesTransactions cfg env s = (s', x)"
  shows "keeps s s'"
proof -
  obtain s1 y where p: "purgeEthTx cfg env s = (s1, y)" by (metis surj_pair)
  with assms have "s' = s1" by (simp add: saveSentSequencesTransactions_def split: outcome.splits if_splits option.splits prod.splits)
  with purgeEthTx_keeps [OF p] show ?thesis by simp
qed

lemma sync_results_keeps: "sync_results cfg env hs s n = (s', x) \<Longrightarrow> keeps s s'"
proof (induction hs arbitrary: s n)
  case (Cons h hs)
  obtain s1 y where g: "getResultAndUpdateEthTx cfg env h s = (s1, y)" by (metis surj_pair)
  note k = getResult_keeps [OF g]
  from Cons.prems g show ?case
    by (auto split: option.splits if_splits outcome.splits dest!: Cons.IH intro: k keeps_trans [OF k])
qed simp

lemma syncEthTxResults_keeps: "syncEthTxResults cfg env s = (s', x) \<Longrightarrow> keeps s s'"
proof -
  assume a: "syncEthTxResults cfg env s = (s', x)"
  obtain s1 y where r: "sync_results cfg env (map fst (ss_ethTransactions s)) (s\<lparr>ss_mutexEthTx := True\<rparr>) 0 = (s1, y)"
    by (metis surj_pair)
  obtain s2 z where v: "saveSentSequencesTransactions cfg env (s1\<lparr>ss_mutexEthTx := False\<rparr>) = (s2, z)" by (metis surj_pair)
  have k1: "keeps s s1" using sync_results_keeps [OF r] by (simp add: keeps_def)
  have k2: "keeps s s2" using save_keeps [OF v] k1 by (simp add: keeps_def)
  from a r v k1 k2 show ?thesis
    by (auto simp: syncEthTxResults_def split: if_splits outcome.splits sum.splits option.splits)
qed

lemma sendTx_sent:
  assumes "sendTx cfg env paramTo f b d g s = (s', x)"
  shows "ss_sequenceList s' = ss_sequenceList s \<and> ss_sequenceData s' = ss_sequenceData s \<and>
    ss_latestVirtualBatchNumber s' = ss_latestVirtualBatchNumber s \<and>
    (ss_seqSendingStopped s \<longrightarrow> ss_seqSendingStopped s') \<and>
    (ss_latestSentToL1Batch s' = ss_latestSentToL1Batch s \<or> ss_latestSentToL1Batch s' = b)"
proof (cases "tm_AddWithGas env paramTo d g")
  case (Inl e)
  with assms show ?thesis by (simp add: sendTx_def)
next
  case (Inr h)
  show ?thesis
  proof (cases "ss_mutexEthTx s")
    case True
    with Inr assms show ?thesis by (simp add: sendTx_def)
  next
    case False
    let ?tx = "\<lparr>et_Nonce = 0, et_Status = ''*new'', et_SentL1Timestamp = clock_Now env,
      et_StatusTimestamp = clock_Now env, et_FromBatch = f, et_ToBatch = b, et_MinedAtBlock = 0, et_OnMonitor = True,
      et_To = (case paramTo of None \<Rightarrow> 0 | Some a \<Rightarrow> a), et_StateHistory = [], et_Txs = [], et_Gas = g\<rparr>"
    let ?s1 = "s\<lparr>ss_mutexEthTx := True, ss_ethTransactions := AList.update h ?tx (ss_ethTransactions s)\<rparr>"
    obtain s2 u where c: "copyTxData h d [] ?s1 = (s2, u)" by (metis surj_pair)
    obtain s3 y where r: "getResultAndUpdateEthTx cfg env h s2 = (s3, y)" by (metis surj_pair)
    obtain s4 z where v: "saveSentSequencesTransactions cfg env (s3\<lparr>ss_latestSentToL1Batch := b, ss_mutexEthTx := False\<rparr>) = (s4, z)"
      by (metis surj_pair)
    have k: "keeps s s3" using copyTxData_keeps [OF c] getResult_keeps [OF r] by (simp add: keeps_def)
    have k4: "keeps (s3\<lparr>ss_latestSentToL1Batch := b, ss_mutexEthTx := False\<rparr>) s4" by (rule save_keeps [OF v])
    from assms Inr False c r v have "s' = s3 \<or> s' = s4"
      by (auto simp: sendTx_def Let_def split: outcome.splits)
    with k k4 show ?thesis by (auto simp: keeps_def)
  qed
qed

section \<open>The batches of a sequence\<close>

definition todo :: "SequenceSender \<Rightarrow> u64 list \<Rightarrow> u64 list" where
  "todo s xs = filter (\<lambda>n. \<not> (n \<le> ss_latestVirtualBatchNumber s \<or> n \<le> ss_latestSentToL1Batch s)) xs"

lemma same_batches_numbers: "same_batches q bs \<Longrightarrow> map sb_BatchNumber (Batches q) = map sb_BatchNumber bs"
  unfolding same_batches_def by (metis (no_types, lifting) map_map map_eq_conv comp_apply)

definition starts :: "Sequence \<Rightarrow> u64 list \<Rightarrow> bool" where
  "starts q ns \<longleftrightarrow> (\<exists>k\<ge>1. k \<le> length ns \<and> map sb_BatchNumber (Batches q) = take k ns)"

lemma starts_append: "starts q ns \<Longrightarrow> starts q (ns @ ms)"
  by (auto simp: starts_def)

lemma new_starts:
  assumes "tx_builder t" and "map_sum id Some (tb_NewSequence t bs c) = Inr (Some q)" and "bs \<noteq> []"
  shows "starts q (map sb_BatchNumber bs)"
proof -
  have "map sb_BatchNumber (Batches q) = map sb_BatchNumber bs"
    using assms(1,2) tx_builder.new_batches same_batches_numbers by (fastforce simp: map_sum_Inr_conv)
  moreover have "1 \<le> length bs" using assms(3) by (cases bs) auto
  ultimately show ?thesis by (intro starts_def [THEN iffD2] exI [of _ "length bs"]) simp
qed

lemma worth_starts:
  assumes "tx_builder t" and "NewSequenceIfWorthToSend t bs c = Inr (Some q)" and "bs \<noteq> []"
  shows "starts q (map sb_BatchNumber bs)"
proof -
  have len: "1 \<le> length bs" using assms(3) by (cases bs) auto
  from tx_builder.worth_batches [OF assms(1,2)] consider "same_batches q bs"
    | "length bs > 1" "same_batches q (butlast bs)" by blast
  then show ?thesis
  proof cases
    case 1
    with len same_batches_numbers show ?thesis unfolding starts_def by (intro exI [of _ "length bs"]) simp
  next
    case 2
    then have "map sb_BatchNumber (Batches q) = take (length bs - 1) (map sb_BatchNumber bs)"
      by (simp add: same_batches_numbers butlast_conv_take take_map)
    with 2(1) show ?thesis unfolding starts_def by (intro exI [of _ "length bs - 1"]) simp
  qed
qed

lemma collect_Cons_new:
  assumes "\<not> (n \<le> ss_latestVirtualBatchNumber s \<or> n \<le> ss_latestSentToL1Batch s)" and "ss_sequenceData s n = Some d"
    and "b = RpcB (rpc_DeepCopy (sd_batch d))"
  obtains (ends) "\<And>q. collect cfg t s (n # xs) prev bs \<noteq> Inl (Inr (Some q))" and "\<And>ys. collect cfg t s (n # xs) prev bs \<noteq> Inr ys"
    | (coinbase) "bs \<noteq> []" and "collect cfg t s (n # xs) prev bs = Inl (map_sum id Some (tb_NewSequence t bs (cf_L2Coinbase cfg)))"
    | (worth) q where "NewSequenceIfWorthToSend t (bs @ [b]) (cf_L2Coinbase cfg) = Inr (Some q)"
        and "collect cfg t s (n # xs) prev bs = Inl (Inr (Some q))"
    | (fork) "collect cfg t s (n # xs) prev bs = Inl (map_sum id Some (tb_NewSequence t (bs @ [b]) (cf_L2Coinbase cfg)))"
    | (more) "collect cfg t s (n # xs) prev bs = collect cfg t s xs (sb_LastCoinbase b) (bs @ [b])"
proof -
  let ?A = "cf_ForkUpgradeBatchNumber cfg \<noteq> 0 \<and> n = cf_ForkUpgradeBatchNumber cfg + 1"
  let ?B = "bs \<noteq> [] \<and> sb_LastCoinbase b \<noteq> prev"
  let ?W = "NewSequenceIfWorthToSend t (bs @ [b]) (cf_L2Coinbase cfg)"
  have eq: "\<not> ?A \<Longrightarrow> \<not> ?B \<Longrightarrow> collect cfg t s (n # xs) prev bs =
      (case ?W of Inl e \<Rightarrow> Inl (Inl e) | Inr (Some q) \<Rightarrow> Inl (Inr (Some q))
       | Inr None \<Rightarrow> if cf_ForkUpgradeBatchNumber cfg \<noteq> 0 \<and> n = cf_ForkUpgradeBatchNumber cfg
                    then Inl (map_sum id Some (tb_NewSequence t (bs @ [b]) (cf_L2Coinbase cfg)))
                    else collect cfg t s xs (sb_LastCoinbase b) (bs @ [b]))"
    unfolding assms(3) by (simp only: collect.simps assms(1,2) Let_def option.case if_False)
  consider "?A" | "\<not> ?A" "?B" | "\<not> ?A" "\<not> ?B" by blast
  then show ?thesis
  proof cases
    case 1
    then show ?thesis using assms by (intro ends) simp_all
  next
    case 2
    then have "collect cfg t s (n # xs) prev bs = Inl (map_sum id Some (tb_NewSequence t bs (cf_L2Coinbase cfg)))"
      unfolding assms(3) by (simp only: collect.simps assms(1,2) Let_def option.case if_False if_True simp_thms)
    with 2 show ?thesis by (intro coinbase) simp_all
  next
    case 3
    note eq = eq [OF this]
    show ?thesis
    proof (cases ?W)
      case (Inl e)
      then show ?thesis using eq by (intro ends) simp_all
    next
      case (Inr r)
      then show ?thesis using eq worth fork more by (cases r) (simp_all split: if_splits)
    qed
  qed
qed

lemma collect_starts:
  assumes "tx_builder t"
  shows "\<forall>n\<in>set xs. data_ok s n \<Longrightarrow> collect cfg t s xs prev bs = Inl (Inr (Some q)) \<Longrightarrow>
      starts q (map sb_BatchNumber bs @ todo s xs)"
    and "\<forall>n\<in>set xs. data_ok s n \<Longrightarrow> collect cfg t s xs prev bs = Inr bs' \<Longrightarrow>
      map sb_BatchNumber bs' = map sb_BatchNumber bs @ todo s xs"
proof (induction xs arbitrary: prev bs)
  case (Cons n xs)
  obtain d where d: "ss_sequenceData s n = Some d" "rb_batchNumber (sd_batch d) = n"
    if "\<forall>n\<in>set (n # xs). data_ok s n" by (auto simp: data_ok_def)
  define b where "b = RpcB (rpc_DeepCopy (sd_batch d))"
  have bn: "sb_BatchNumber b = n" if "\<forall>n\<in>set (n # xs). data_ok s n" using d(2) [OF that] by (simp add: b_def rpc_DeepCopy_def)
  {
    case 1
    note dd = d [OF 1(1)]
    show ?case
    proof (cases "n \<le> ss_latestVirtualBatchNumber s \<or> n \<le> ss_latestSentToL1Batch s")
      case True
      then have "todo s (n # xs) = todo s xs" by (simp add: todo_def)
      with True 1 Cons.IH(1) show ?thesis by simp
    next
      case False
      then have td: "todo s (n # xs) = n # todo s xs" by (simp add: todo_def)
      from False dd(1) b_def show ?thesis
      proof (cases rule: collect_Cons_new [where cfg = cfg and t = t and xs = xs and prev = prev and bs = bs])
        case ends
        with 1(2) show ?thesis by blast
      next
        case coinbase
        with 1 new_starts [OF assms, of bs] show ?thesis by (simp add: starts_append)
      next
        case (worth q')
        with 1 worth_starts [OF assms, of "bs @ [b]"] bn [OF 1(1)] td starts_append [of q "map sb_BatchNumber (bs @ [b])" "todo s xs"]
        show ?thesis by auto
      next
        case fork
        with 1 new_starts [OF assms, of "bs @ [b]"] bn [OF 1(1)] td starts_append [of q "map sb_BatchNumber (bs @ [b])" "todo s xs"]
        show ?thesis by auto
      next
        case more
        with 1 Cons.IH(1) [of "sb_LastCoinbase b" "bs @ [b]"] bn [OF 1(1)] td show ?thesis by simp
      qed
    qed
  next
    case 2
    note dd = d [OF 2(1)]
    show ?case
    proof (cases "n \<le> ss_latestVirtualBatchNumber s \<or> n \<le> ss_latestSentToL1Batch s")
      case True
      then have "todo s (n # xs) = todo s xs" by (simp add: todo_def)
      with True 2 Cons.IH(2) show ?thesis by simp
    next
      case False
      then have td: "todo s (n # xs) = n # todo s xs" by (simp add: todo_def)
      from False dd(1) b_def show ?thesis
        by (cases rule: collect_Cons_new [where cfg = cfg and t = t and xs = xs and prev = prev and bs = bs])
          (use 2 Cons.IH(2) [of "sb_LastCoinbase b" "bs @ [b]"] bn [OF 2(1)] td in auto)
    qed
  }
qed (simp_all add: todo_def)

lemma getSequencesToSend_starts:
  assumes "tx_builder t" and "\<forall>n\<in>set (ss_sequenceList s). data_ok s n" and "getSequencesToSend cfg t now s = Inr (Some q)"
  shows "starts q (todo s (ss_sequenceList s))"
proof (cases "collect cfg t s (ss_sequenceList s) 0 []")
  case (Inl r)
  with assms collect_starts(1) [OF assms(1,2), of cfg 0 "[]" q] show ?thesis by (auto simp: getSequencesToSend_def)
next
  case (Inr bs)
  then have n: "bs \<noteq> []" "map_sum id Some (tb_NewSequence t bs (cf_L2Coinbase cfg)) = Inr (Some q)"
    using assms(3) by (auto simp: getSequencesToSend_def split: if_splits)
  from collect_starts(2) [OF assms(1,2), of cfg 0 "[]" bs] Inr new_starts [OF assms(1) n(2,1)] show ?thesis by simp
qed

text \<open>With consecutive batches in memory, the batches still to send are a consecutive block.\<close>

lemma filter_greater_upt: "filter (\<lambda>x. m < x) [p..<q] = [max p (Suc m)..<q]"
proof (induction q)
  case (Suc q)
  then show ?case by (cases "p \<le> q"; cases "m < q") (auto simp: max_def)
qed simp

lemma todo_numbers:
  assumes "ss_sequenceList s = from_batch a n" and "unat a + n \<le> 2 ^ 64"
  shows "map unat (todo s (ss_sequenceList s)) =
    [max (unat a) (Suc (max (unat (ss_latestVirtualBatchNumber s)) (unat (ss_latestSentToL1Batch s))))..<unat a + n]"
proof -
  let ?m = "max (unat (ss_latestVirtualBatchNumber s)) (unat (ss_latestSentToL1Batch s))"
  have "todo s (ss_sequenceList s) = filter ((\<lambda>x. ?m < x) \<circ> unat) (ss_sequenceList s)"
    unfolding todo_def by (rule filter_cong) (auto simp: word_le_nat_alt)
  then have "map unat (todo s (ss_sequenceList s)) = filter (\<lambda>x. ?m < x) (map unat (ss_sequenceList s))"
    by (simp add: filter_map)
  then show ?thesis unfolding assms(1) map_unat_from_batch [OF assms(2)] filter_greater_upt .
qed

text \<open>Purging keeps the list consecutive and the data of what remains.\<close>

lemma purge_list_ok:
  assumes "list_ok c s"
  shows "list_ok c (purgeSequences s)"
proof -
  let ?old = "\<lambda>n. n \<le> ss_latestVirtualBatchNumber s" and ?xs = "ss_sequenceList s"
  let ?w = "takeWhile (\<lambda>n. \<not> ?old n) (rev ?xs)"
  define k where "k = length ?xs - length ?w"
  obtain a n where a: "unat a + n = unat c" "?xs = from_batch a n" and d: "\<forall>n\<in>set ?xs. data_ok s n"
    using assms by (auto simp: list_ok_def)
  have bound: "unat a + n < 2 ^ 64" using a(1) unat_less [of c] by simp
  have k: "k \<le> n" using a(2) by (simp add: from_batch_def k_def)
  have len: "length ?w \<le> length ?xs" by (metis length_rev length_takeWhile_le)
  have "take (length ?w) (rev ?xs) = ?w" by (metis takeWhile_eq_take)
  then have dr: "drop k ?xs = rev ?w" using len unfolding k_def by (metis rev_take rev_rev_ident length_rev)
  have rest: "\<not> ?old x" if "x \<in> set (drop k ?xs)" for x
    using that unfolding dr by (auto dest: set_takeWhileD)
  show ?thesis
  proof (cases "IsStopped s \<or> filter ?old ?xs = []")
    case True
    then have "purgeSequences s = s" by (auto simp: purgeSequences_def Let_def)
    with assms show ?thesis by simp
  next
    case False
    then have p: "purgeSequences s = s\<lparr>ss_sequenceList := drop k ?xs,
        ss_sequenceData := (\<lambda>n. if n \<in> set (filter ?old ?xs) then None else ss_sequenceData s n)\<rparr>"
      unfolding purgeSequences_def Let_def k_def by simp
    have "unat (a + of_nat k) = unat a + k" using unat_from_batch [of k "Suc n" a] k bound by simp
    then have e: "unat (a + of_nat k) + (n - k) = unat c" "drop k ?xs = from_batch (a + of_nat k) (n - k)"
      using a k by (simp_all add: drop_from_batch)
    have dk: "data_ok (purgeSequences s) x" if "x \<in> set (drop k ?xs)" for x
      using rest [OF that] d in_set_dropD [OF that] unfolding p data_ok_def by simp
    have l: "ss_sequenceList (purgeSequences s) = drop k ?xs" unfolding p by simp
    show ?thesis unfolding list_ok_def l using e dk by blast
  qed
qed

lemma purge_other [simp]:
  "ss_latestSentToL1Batch (purgeSequences s) = ss_latestSentToL1Batch s"
  "ss_seqSendingStopped (purgeSequences s) = ss_seqSendingStopped s"
  by (simp_all add: purgeSequences_def Let_def)

lemma list_ok_cong:
  "ss_sequenceList s' = ss_sequenceList s \<Longrightarrow> ss_sequenceData s' = ss_sequenceData s \<Longrightarrow> list_ok c s' = list_ok c s"
  by (simp add: list_ok_def data_ok_def)

lemma list_ok_virtual [simp]:
  "list_ok c (s\<lparr>ss_latestVirtualBatchNumber := v\<rparr>) = list_ok c s" "list_ok c (s\<lparr>ss_seqSendingStopped := b\<rparr>) = list_ok c s"
  by (rule list_ok_cong; simp)+

text \<open>A round: the batches stay in order, and what it sent.\<close>

lemma send_sequence_sent:
  assumes "send_sequence cfg t env q s = (s', x)"
  shows "(list_ok c s \<longrightarrow> list_ok c s') \<and> (ss_seqSendingStopped s \<longrightarrow> ss_seqSendingStopped s') \<and>
    (ss_latestSentToL1Batch s' = ss_latestSentToL1Batch s \<or> ss_latestSentToL1Batch s' = sb_BatchNumber (LastBatch q))"
proof (cases "tb_BuildSequenceBatchesTx t q")
  case (Inl e)
  with assms show ?thesis by (simp add: send_sequence_def)
next
  case (Inr tx)
  obtain s1 e where u: "updateLatestVirtualBatch (em_GetLatestBatchNumber env 1) s = (s1, e)" by (metis surj_pair)
  then have k1: "list_ok c s1 = list_ok c s" "ss_latestSentToL1Batch s1 = ss_latestSentToL1Batch s"
    "ss_seqSendingStopped s1 = ss_seqSendingStopped s"
    by (auto simp: updateLatestVirtualBatch_def split: sum.splits)
  show ?thesis
  proof (cases "e = None \<and> (\<exists>gas. em_EstimateGas env (l1tx_To tx) (l1tx_Data tx) = Inr gas)")
    case False
    with Inr u assms have "s' = s1" by (auto simp: send_sequence_def split: option.splits sum.splits)
    with k1 show ?thesis by simp
  next
    case True
    then obtain gas where gas: "em_EstimateGas env (l1tx_To tx) (l1tx_Data tx) = Inr gas" by blast
    obtain s2 y where tx: "sendTx cfg env (l1tx_To tx) (sb_BatchNumber (FirstBatch q)) (sb_BatchNumber (LastBatch q))
        (l1tx_Data tx) gas s1 = (s2, y)" by (metis surj_pair)
    note k2 = sendTx_sent [OF tx]
    have "s' = s2 \<or> s' = purgeSequences s2"
      using assms Inr u True gas tx by (auto simp: send_sequence_def split: outcome.splits option.splits)
    moreover have "list_ok c s2 = list_ok c s1" using k2 by (intro list_ok_cong) simp_all
    ultimately show ?thesis using k1 k2 purge_list_ok [of c s2] by auto
  qed
qed

lemma tryToSend_cases:
  assumes "tryToSendSequence cfg t env s = (s', x)"
  obtains (quiet) s1 where "keeps s1 s'" and "s1 = s \<or> (\<exists>v. s1 = s\<lparr>ss_latestVirtualBatchNumber := v\<rparr>)"
    | (sending) v s2 q where "em_GetLatestBatchNumber env 0 = Inr v" and "\<not> ss_seqSendingStopped s"
        and "keeps (s\<lparr>ss_latestVirtualBatchNumber := v\<rparr>) s2"
        and "getSequencesToSend cfg t (clock_Now env) s2 = Inr (Some q)" and "Batches q \<noteq> []"
        and "send_sequence cfg t env q s2 = (s', x)"
proof (cases "em_GetLatestBatchNumber env 0")
  case (Inl e)
  with assms quiet [of s] show ?thesis by (simp add: tryToSendSequence_def updateLatestVirtualBatch_def)
next
  case (Inr v)
  let ?s1 = "s\<lparr>ss_latestVirtualBatchNumber := v\<rparr>"
  obtain s2 y where sy: "syncEthTxResults cfg env ?s1 = (s2, y)" by (metis surj_pair)
  note k = syncEthTxResults_keeps [OF sy]
  have quiet': thesis if "s' = s2 \<or> s' = ?s1" using that
  proof
    assume "s' = s2"
    with k quiet [of ?s1] show thesis by blast
  next
    assume "s' = ?s1"
    then show thesis by (intro quiet [of ?s1]) auto
  qed
  have r: "tryToSendSequence cfg t env s = (s', x)" by (rule assms)
  consider "ss_seqSendingStopped s" | "\<not> ss_seqSendingStopped s" "\<nexists>p. y = Ret (Inr p) \<and> \<not> cf_MaxPendingTx cfg \<le> of_nat p"
    | p where "\<not> ss_seqSendingStopped s" "y = Ret (Inr p)" "\<not> cf_MaxPendingTx cfg \<le> of_nat p" by blast
  then show ?thesis
  proof cases
    case 1
    with Inr r show ?thesis by (intro quiet') (simp add: tryToSendSequence_def updateLatestVirtualBatch_def IsStopped_def)
  next
    case 2
    with Inr r sy have "s' = s2"
      by (auto simp: tryToSendSequence_def updateLatestVirtualBatch_def IsStopped_def split: outcome.splits sum.splits if_splits)
    then show ?thesis by (intro quiet') simp
  next
    case (3 p)
    show ?thesis
    proof (cases "\<exists>q. getSequencesToSend cfg t (clock_Now env) s2 = Inr (Some q) \<and> Batches q \<noteq> [] \<and> send_sequence cfg t env q s2 = (s', x)")
      case True
      with sending Inr 3 k show ?thesis by blast
    next
      case False
      with Inr r sy 3 have "s' = s2"
        by (auto simp: tryToSendSequence_def updateLatestVirtualBatch_def IsStopped_def Let_def
            split: sum.splits option.splits if_splits)
      then show ?thesis by (intro quiet') simp
    qed
  qed
qed

lemma populate_list_ok:
  assumes "populateSequenceData rlp b c s = (s', Ret None)" and "list_ok c s" and "rb_batchNumber b = c" and "c < - 1"
  shows "list_ok (c + 1) s'"
proof -
  obtain a n where a: "unat a + n = unat c" "ss_sequenceList s = from_batch a n"
    and d: "\<forall>m\<in>set (ss_sequenceList s). data_ok s m" using assms(2) by (auto simp: list_ok_def)
  obtain sd where b1: "rb_batchNumber (sd_batch sd) = rb_batchNumber b"
    and s': "s' = s\<lparr>ss_sequenceList := ss_sequenceList s @ [c], ss_sequenceData := (ss_sequenceData s)(c \<mapsto> sd)\<rparr>"
  proof -
    from assms(1) obtain raw where "DecodeBatchV2 rlp (rb_batchL2Data b) = Some (Inr raw)"
      by (auto simp: populateSequenceData_def Let_def split: option.splits sum.splits if_splits)
    moreover define b1 where "b1 = (if Blocks raw \<noteq> []
      then b\<lparr>rb_l1InfoTreeIndex := IndexL1InfoTree (bl_Header (last (Blocks raw)))\<rparr> else b)"
    ultimately have "s' = s\<lparr>ss_sequenceList := ss_sequenceList s @ [c], ss_sequenceData := (ss_sequenceData s)(c \<mapsto>
        \<lparr>sd_batchClosed = rb_closed b1, sd_batch = b1, sd_batchRaw = raw\<rparr>)\<rparr>"
      using assms(1) by (simp add: populateSequenceData_def Let_def)
    then show ?thesis by (rule that [rotated]) (simp add: b1_def)
  qed
  have "unat c < 2 ^ 64 - 1"
    using assms(4) by (simp add: word_less_nat_alt unsigned_minus_1_eq_mask mask_eq_exp_minus_1)
  then have "unat (c + 1) = unat a + Suc n" using a(1) unat_succ [of c] by simp
  moreover have "c = a + of_nat n"
    using a(1) by (metis of_nat_add of_nat_unat ucast_id)
  then have "ss_sequenceList s' = from_batch a (Suc n)" using a(2) s' by (simp add: from_batch_Suc)
  moreover have "\<forall>m\<in>set (ss_sequenceList s'). data_ok s' m"
    using d b1 assms(3) unfolding s' by (auto simp: data_ok_def)
  ultimately show ?thesis unfolding list_ok_def by (metis)
qed

lemma ss_step_inv:
  assumes "ss_step rlp cfg t cs cs'" and "ss_inv cs"
  shows "ss_inv cs'"
  using assms
proof cases
  case (Retrieve rpcBatch c s c' s')
  then have ok: "list_ok c s" using assms(2) by (simp add: ss_inv_def)
  show ?thesis
  proof (cases "c' = Some c \<and> s' = s")
    case True
    with Retrieve ok show ?thesis by (simp add: ss_inv_def)
  next
    case False
    then obtain b where b0: "rpcBatch = Inr b" using Retrieve(3) by (cases rpcBatch) (auto simp: retrieve_batch_def)
    obtain s1 r where "populateSequenceData rlp b c s = (s1, r)" by (metis surj_pair)
    note b = b0 this
    with Retrieve(3) False consider "r = Ret None" "c' = Some (c + 1)" "s' = s1"
      | "c' = None" "s' = s1\<lparr>ss_seqSendingStopped := True\<rparr>"
      by (auto simp: retrieve_batch_def split: if_splits outcome.splits option.splits)
    then show ?thesis
      by cases (use Retrieve b ok populate_list_ok [of rlp b c s s1] in \<open>simp_all add: ss_inv_def\<close>)
  qed
next
  case (Round env s s' r c)
  from Round(3) have "(list_ok n s \<longrightarrow> list_ok n s') \<and> (ss_seqSendingStopped s \<longrightarrow> ss_seqSendingStopped s')" for n
  proof (cases rule: tryToSend_cases)
    case (quiet s1)
    then have "list_ok n s' = list_ok n s1" by (intro list_ok_cong) (simp_all add: keeps_def)
    with quiet show ?thesis by (auto simp: keeps_def)
  next
    case (sending v s2 q)
    then have "list_ok n s2 = list_ok n (s\<lparr>ss_latestVirtualBatchNumber := v\<rparr>)" by (intro list_ok_cong) (simp_all add: keeps_def)
    with sending send_sequence_sent [OF sending(6), of n] show ?thesis by (simp add: keeps_def)
  qed
  with Round assms(2) show ?thesis by (auto simp: ss_inv_def split: option.splits)
qed

lemma ss_reach_inv: "ss_reach rlp cfg t cs cs' \<Longrightarrow> ss_inv cs \<Longrightarrow> ss_inv cs'"
  by (induction rule: rtranclp_induct) (auto intro: ss_step_inv)

lemma send_sequence_added:
  assumes "send_sequence cfg t env q s = (s', x)" and "ss_latestSentToL1Batch s' \<noteq> ss_latestSentToL1Batch s"
  shows "\<exists>tx gas h. tb_BuildSequenceBatchesTx t q = Inr tx \<and> em_EstimateGas env (l1tx_To tx) (l1tx_Data tx) = Inr gas \<and>
    tm_AddWithGas env (l1tx_To tx) (l1tx_Data tx) gas = Inr h"
proof -
  have u: "ss_latestSentToL1Batch (fst (updateLatestVirtualBatch r s)) = ss_latestSentToL1Batch s" for r
    by (simp add: updateLatestVirtualBatch_def split: sum.splits)
  obtain s1 e where s1: "updateLatestVirtualBatch (em_GetLatestBatchNumber env 1) s = (s1, e)" by (metis surj_pair)
  with u have k: "ss_latestSentToL1Batch s1 = ss_latestSentToL1Batch s" by (metis fst_conv)
  have a: "sendTx cfg env p f b d g s1 = (s1, Ret (Some e'))" if "tm_AddWithGas env p d g = Inl e'" for p f b d g e'
    using that by (simp add: sendTx_def)
  show ?thesis
    using assms s1 k a
    by (cases "tb_BuildSequenceBatchesTx t q"; cases e;
        cases "em_EstimateGas env (l1tx_To (projr (tb_BuildSequenceBatchesTx t q))) (l1tx_Data (projr (tb_BuildSequenceBatchesTx t q)))";
        cases "tm_AddWithGas env (l1tx_To (projr (tb_BuildSequenceBatchesTx t q))) (l1tx_Data (projr (tb_BuildSequenceBatchesTx t q)))
          (projr (em_EstimateGas env (l1tx_To (projr (tb_BuildSequenceBatchesTx t q))) (l1tx_Data (projr (tb_BuildSequenceBatchesTx t q)))))")
      (auto simp: send_sequence_def)
qed

text \<open>An outstanding lock and the arithmetic of the time margin.\<close>

lemma getResult_mutex: "getResultAndUpdateEthTx cfg env h s = (s', x) \<Longrightarrow> ss_mutexEthTx s' = ss_mutexEthTx s"
  by (auto simp: getResultAndUpdateEthTx_def updateEthTxResult_def copyTxData_def update_tx_def Let_def
      split: option.splits sum.splits if_splits)

lemma sync_results_mutex: "sync_results cfg env hs s n = (s', x) \<Longrightarrow> ss_mutexEthTx s' = ss_mutexEthTx s"
proof (induction hs arbitrary: s n)
  case (Cons h hs)
  obtain s1 y where g: "getResultAndUpdateEthTx cfg env h s = (s1, y)" by (metis surj_pair)
  from Cons.prems g getResult_mutex [OF g] show ?case
    by (auto split: option.splits if_splits outcome.splits dest!: Cons.IH)
qed simp

lemma sint_diff:
  fixes a b :: u64
  assumes "unat a < 2 ^ 62" and "unat b < 2 ^ 62"
  shows "sint (a - b) = int (unat a) - int (unat b)"
proof -
  have s: "sint x = signed_take_bit 63 (uint x)" for x :: u64 by (simp add: sint_uint)
  have p: "(2::int) ^ 63 = 2 * 2 ^ 62" by simp
  have u: "0 \<le> uint x \<and> uint x < 2 ^ 62" if "unat x < 2 ^ 62" for x :: u64
  proof -
    from that have "int (unat x) < int (2 ^ 62)" by (simp only: of_nat_less_iff)
    then show ?thesis by simp
  qed
  have "sint (a - b) = signed_take_bit 63 (uint a - uint b)"
    unfolding s uint_word_ariths by (subst take_bit_eq_mod [symmetric]) (simp add: signed_take_bit_take_bit)
  also have "\<dots> = uint a - uint b" using u [OF assms(1), THEN conjunct2] u [OF assms(2), THEN conjunct2]
      uint_ge_0 [of a] uint_ge_0 [of b] p by (intro signed_take_bit_int_eq_self) linarith+
  finally show "sint (a - b) = int (unat a) - int (unat b)" by simp
qed

section \<open>Properties\<close>

text \<open>C8. Batches are sequenced in order and without gaps: in every state the retrieval and the sender can reach, when a round sends
  a sequence, the transaction built from it was accepted by the transaction manager, its batches are consecutive, start with the first batch in memory that is neither
  virtualized nor sent, and the last one becomes the last batch sent.\<close>

theorem sent_batches_consecutive:
  assumes "tx_builder t" and "ss_reach rlp cfg t (Some c0, s0) (Some c, s)" and "ss_sequenceList s0 = []"
    and "tryToSendSequence cfg t env s = (s', Ret ())" and "ss_latestSentToL1Batch s' \<noteq> ss_latestSentToL1Batch s"
  shows "\<exists>v q tx gas h m k. em_GetLatestBatchNumber env 0 = Inr v \<and> tb_BuildSequenceBatchesTx t q = Inr tx \<and>
    em_EstimateGas env (l1tx_To tx) (l1tx_Data tx) = Inr gas \<and>
    tm_AddWithGas env (l1tx_To tx) (l1tx_Data tx) gas = Inr h \<and> 1 \<le> k \<and>
    map (unat \<circ> sb_BatchNumber) (Batches q) = [m..<m + k] \<and>
    unat v < m \<and> unat (ss_latestSentToL1Batch s) < m \<and>
    (\<forall>n\<in>set (ss_sequenceList s). v < n \<and> ss_latestSentToL1Batch s < n \<longrightarrow> m \<le> unat n) \<and>
    unat (ss_latestSentToL1Batch s') = m + k - 1"
proof -
  have "list_ok c0 s0" using assms(3) by (auto simp: list_ok_def from_batch_def intro: exI [of _ c0] exI [of _ 0])
  then have ok: "list_ok c s" using ss_reach_inv [OF assms(2)] by (simp add: ss_inv_def)
  from assms(4) show ?thesis
  proof (cases rule: tryToSend_cases)
    case (quiet s1)
    with assms(5) show ?thesis by (auto simp: keeps_def)
  next
    case (sending v s2 q)
    have eq: "ss_sequenceList s2 = ss_sequenceList s" "ss_sequenceData s2 = ss_sequenceData s"
      "ss_latestSentToL1Batch s2 = ss_latestSentToL1Batch s" "ss_latestVirtualBatchNumber s2 = v"
      using sending(3) by (simp_all add: keeps_def)
    then have ok2: "list_ok c s2" using ok list_ok_cong by blast
    then obtain a n where a: "unat a + n = unat c" "ss_sequenceList s2 = from_batch a n"
      and d: "\<forall>m\<in>set (ss_sequenceList s2). data_ok s2 m" by (auto simp: list_ok_def)
    define m where "m = max (unat a) (Suc (max (unat v) (unat (ss_latestSentToL1Batch s))))"
    have bound: "unat a + n \<le> 2 ^ 64" using a(1) unat_less [of c] by simp
    have td: "map unat (todo s2 (ss_sequenceList s2)) = [m..<unat a + n]"
      using todo_numbers [OF a(2) bound] eq(3,4) by (simp add: m_def)
    obtain k where k: "k \<ge> 1" "k \<le> length (todo s2 (ss_sequenceList s2))"
      "map sb_BatchNumber (Batches q) = take k (todo s2 (ss_sequenceList s2))"
      using getSequencesToSend_starts [OF assms(1) d sending(4)] by (auto simp: starts_def)
    have "length (todo s2 (ss_sequenceList s2)) = unat a + n - m" by (metis td length_map length_upt)
    then have km: "m + k \<le> unat a + n" using k(1,2) by simp
    have "map (unat \<circ> sb_BatchNumber) (Batches q) = take k [m..<unat a + n]"
      using k(3) td by (metis map_map take_map)
    then have nums: "map (unat \<circ> sb_BatchNumber) (Batches q) = [m..<m + k]" using km by (simp add: take_upt)
    then have len: "length (Batches q) = k" by (metis length_map length_upt add_diff_cancel_left')
    then have "unat (sb_BatchNumber (LastBatch q)) = map (unat \<circ> sb_BatchNumber) (Batches q) ! (k - 1)"
      using k(1) by (simp add: LastBatch_def)
    then have "unat (sb_BatchNumber (LastBatch q)) = m + k - 1" unfolding nums using k(1) by simp
    moreover have "ss_latestSentToL1Batch s' = sb_BatchNumber (LastBatch q)"
      using send_sequence_sent [OF sending(6)] eq(3) assms(5) by auto
    moreover have "m \<le> unat x" if "x \<in> set (ss_sequenceList s)" "v < x" "ss_latestSentToL1Batch s < x" for x
    proof -
      have "unat x \<in> set (map unat (from_batch a n))" using that(1) a(2) eq(1) by simp
      then have "unat a \<le> unat x" unfolding map_unat_from_batch [OF bound] by simp
      with that(2,3) show ?thesis by (simp add: m_def word_less_nat_alt)
    qed
    moreover have "unat v < m" "unat (ss_latestSentToL1Batch s) < m" by (simp_all add: m_def)
    moreover have "ss_latestSentToL1Batch s' \<noteq> ss_latestSentToL1Batch s2" using eq(3) assms(5) by simp
    note send_sequence_added [OF sending(6) this]
    ultimately show ?thesis using sending(1) nums k(1) by metis
  qed
qed

text \<open>A sender whose only batch is 5, and a transaction manager that accepts every transaction.\<close>

definition sample_sender :: SequenceSender where
  "sample_sender = \<lparr>ss_latestVirtualBatchNumber = 4, ss_latestVirtualTime = 0, ss_latestSentToL1Batch = 4, ss_sequenceList = [],
     ss_sequenceData = Map.empty, ss_ethTransactions = [], ss_ethTxData = (\<lambda>_. []), ss_mutexEthTx = False,
     ss_seqSendingStopped = False\<rparr>"

definition sample_config :: ss_Config where
  "sample_config = \<lparr>cf_LastBatchVirtualizationTimeMaxWaitPeriod = 5, cf_L1BlockTimestampMargin = 3, cf_L2Coinbase = 7,
     cf_ForkUpgradeBatchNumber = 0, cf_WaitPeriodPurgeTxFile = 100, cf_MaxPendingTx = 1, cf_SequencesTxFileName = ''tx.json'',
     cf_Failed = ''failed'', cf_Safe = ''safe'', cf_Finalized = ''finalized''\<rparr>"

definition sample_env :: "(hash \<Rightarrow> error + MonitoredTxResult) \<Rightarrow> ss_env" where
  "sample_env res = \<lparr>em_GetLatestBatchNumber = (\<lambda>_. Inr 4), em_LatestBlockTime = (\<lambda>_. Inr 50), em_EstimateGas = (\<lambda>_ _. Inr 21000),
     tm_AddWithGas = (\<lambda>_ _ _. Inr 99), tm_Result = res, tm_ResultsByStatus = Inr [], os_Create = None, os_Encode = None, os_Rename = None,
     clock_Unix = (\<lambda>_. 50), clock_Now = 50, ctx_Done = (\<lambda>_. False)\<rparr>"

definition sample_builder :: TxBuilder where
  "sample_builder = NewTxBuilderElderberryZKEVM (\<lambda>_ _ _ _. Inr \<lparr>l1tx_To = Some 1, l1tx_Data = [1, 2], l1tx_Size = 2\<rparr>) 100"

definition sample_rpc5 :: RPCBatch where
  "sample_rpc5 = NewRPCBatch 5 0 [] [] 0 0 0 7 True"

definition sample_retrieved :: SequenceSender where
  "sample_retrieved = sample_sender\<lparr>ss_sequenceList := [5],
     ss_sequenceData := [5 \<mapsto> \<lparr>sd_batchClosed = True, sd_batch = sample_rpc5, sd_batchRaw = \<lparr>Blocks = []\<rparr>\<rparr>]\<rparr>"

lemma sample_retrieve: "ss_reach rlp cfg t (Some 5, sample_sender) (Some 6, sample_retrieved)"
  by (rule r_into_rtranclp, rule ss_step.Retrieve [of _ "Inr sample_rpc5"])
    (simp_all add: retrieve_batch_def populateSequenceData_def sample_rpc5_def NewRPCBatch_def DecodeBatchV2_def
      DecodeBatchV2_loop.simps sample_sender_def sample_retrieved_def closed_def)

lemma sample_round:
  "ss_latestSentToL1Batch (fst (tryToSendSequence sample_config sample_builder (sample_env (\<lambda>_. Inl (ErrMsg ''down''))) sample_retrieved)) = 5"
  "snd (tryToSendSequence sample_config sample_builder (sample_env (\<lambda>_. Inl (ErrMsg ''down''))) sample_retrieved) = Ret ()"
  by code_simp+

theorem sent_batches_consecutive_witness:
  "\<exists>q tx m k. tb_BuildSequenceBatchesTx sample_builder q = Inr tx \<and> map (unat \<circ> sb_BatchNumber) (Batches q) = [m..<m + k] \<and> 1 \<le> k \<and> 4 < m \<and> 5 = m + k - 1"
proof -
  let ?e = "sample_env (\<lambda>_. Inl (ErrMsg ''down''))"
  let ?r = "tryToSendSequence sample_config sample_builder ?e sample_retrieved"
  have b: "tx_builder sample_builder" unfolding sample_builder_def by (rule elderberry_zkevm.tx_builder_axioms)
  have r: "?r = (fst ?r, Ret ())" using sample_round(2) by (metis prod.collapse)
  have n: "ss_latestSentToL1Batch (fst ?r) \<noteq> ss_latestSentToL1Batch sample_retrieved"
    unfolding sample_round(1) by (simp add: sample_retrieved_def sample_sender_def)
  show ?thesis
    using sent_batches_consecutive [OF b sample_retrieve [of undefined] _ r n]
    by (auto simp: sample_env_def sample_sender_def sample_round(1) [unfolded sample_env_def])
qed

text \<open>One failed poll stops the sender for good: when asking for the result of a transaction fails, the mutex stays locked,
  so the next round that gets past the virtual batch number blocks for ever.\<close>

theorem failed_poll_blocks_sender:
  assumes "\<not> ss_mutexEthTx s" and "syncEthTxResults cfg env s = (s', Ret (Inl e))"
    and "os_Create env = None \<and> os_Encode env = None \<and> os_Rename env = None"
    and "\<not> ss_seqSendingStopped s'" and "em_GetLatestBatchNumber env' 0 = Inr v"
  shows "tryToSendSequence cfg t env' s' = (s'\<lparr>ss_latestVirtualBatchNumber := v\<rparr>, Blocked)"
proof -
  obtain s1 y where r: "sync_results cfg env (map fst (ss_ethTransactions s)) (s\<lparr>ss_mutexEthTx := True\<rparr>) 0 = (s1, y)"
    by (metis surj_pair)
  have "s' = s1"
    using assms(1-3) r
    by (auto simp: syncEthTxResults_def saveSentSequencesTransactions_def split: outcome.splits sum.splits option.splits if_splits prod.splits)
  then have "ss_mutexEthTx s'" using sync_results_mutex [OF r] by simp
  with assms(4,5) show ?thesis
    by (simp add: tryToSendSequence_def updateLatestVirtualBatch_def IsStopped_def syncEthTxResults_def)
qed

definition sample_pending :: SequenceSender where
  "sample_pending = fst (tryToSendSequence sample_config sample_builder (sample_env (\<lambda>_. Inl (ErrMsg ''down''))) sample_retrieved)"

theorem failed_poll_blocks_sender_witness:
  "snd (tryToSendSequence sample_config sample_builder (sample_env (\<lambda>_. Inl (ErrMsg ''down'')))
     (fst (syncEthTxResults sample_config (sample_env (\<lambda>_. Inl (ErrMsg ''down''))) sample_pending))) = Blocked"
proof -
  let ?e = "sample_env (\<lambda>_. Inl (ErrMsg ''down''))"
  let ?r = "syncEthTxResults sample_config ?e sample_pending"
  have "snd ?r = Ret (Inl (ErrMsg ''down''))" unfolding sample_pending_def by code_simp
  then have r: "?r = (fst ?r, Ret (Inl (ErrMsg ''down'')))" by (metis prod.collapse)
  have "\<not> ss_mutexEthTx sample_pending" "\<not> ss_seqSendingStopped (fst ?r)" unfolding sample_pending_def by code_simp+
  from failed_poll_blocks_sender [OF this(1) r _ this(2), of ?e] show ?thesis by (simp add: sample_env_def)
qed



end
