(* ===== verification/LastGerSync.thy ===== *)
theory LastGerSync
  imports L1InfoTreeSync
begin

text \<open>
  The syncer of injected global exit roots (\<open>src/lastgersync\<close>): a processor with one imported root per
  L2 block, a downloader that compares the L1 info tree with the contract on L2, and the queries. The driver is
  the one of \<open>EvmSync\<close>.
\<close>

section \<open>The processor\<close>

record ger_Event =
  ev_GlobalExitRoot :: hash
  ev_L1InfoTreeIndex :: u32

record eventWithBlockNum =
  ew_GlobalExitRoot :: hash
  ew_L1InfoTreeIndex :: u32
  ew_BlockNum :: u64

text \<open>An event of a block: the type assertion to \<open>Event\<close> fails for anything else.\<close>

datatype ger_item = GerItem ger_Event | OtherItem

record ger_db =
  ger_blk_rows :: "u64 list"
  imported_rows :: "eventWithBlockNum list"

definition ger_GetLastProcessedBlock :: "io \<Rightarrow> ger_db \<Rightarrow> error + u64" where
  "ger_GetLastProcessedBlock io db = getLastProcessedBlockWithTx io (ger_blk_rows db)"

definition ger_getLastIndex :: "io \<Rightarrow> ger_db \<Rightarrow> error + u32" where
  "ger_getLastIndex io db =
     (case query_row io (SqlSelect ''imported_global_exit_root'' []) (first_desc ew_L1InfoTreeIndex (imported_rows db)) of
        Inl e \<Rightarrow> if e = ErrNotFound then Inr 0 else Inl e
      | Inr r \<Rightarrow> Inr (ew_L1InfoTreeIndex r))"

fun insert_events :: "io \<Rightarrow> u64 \<Rightarrow> ger_item list \<Rightarrow> ger_db \<Rightarrow> error + ger_db" where
  "insert_events io num [] db = Inr db"
| "insert_events io num (OtherItem # es) db = Inl (ErrMsg ''failed to convert sync.Block.Event to Event'')"
| "insert_events io num (GerItem e # es) db =
     (case fk_insert io (SqlInsert ''imported_global_exit_root'' [unat num]) ew_BlockNum (num \<in> set (ger_blk_rows db))
             \<lparr>ew_GlobalExitRoot = ev_GlobalExitRoot e, ew_L1InfoTreeIndex = ev_L1InfoTreeIndex e, ew_BlockNum = num\<rparr>
             (imported_rows db) of
        Inl err \<Rightarrow> Inl err
      | Inr rows \<Rightarrow> insert_events io num es (db\<lparr>imported_rows := rows\<rparr>))"

definition ger_ProcessBlock :: "io \<Rightarrow> ger_db \<Rightarrow> ger_item Block \<Rightarrow> ger_db \<times> error option" where
  "ger_ProcessBlock io db block =
     (if io SqlBegin then (db, Some ErrSQL)
      else case insert_block io (bk_Num block) (ger_blk_rows db) of
             Inl e \<Rightarrow> (db, Some e)
           | Inr blks \<Rightarrow>
               (case insert_events io (bk_Num block) (bk_Events block) (db\<lparr>ger_blk_rows := blks\<rparr>) of
                  Inl e \<Rightarrow> (db, Some e)
                | Inr db1 \<Rightarrow> if io SqlCommit then (db, Some ErrSQL) else (db1, None)))"

text \<open>The rows of the deleted blocks go with them.\<close>

definition ger_delete_blocks :: "u64 \<Rightarrow> ger_db \<Rightarrow> ger_db" where
  "ger_delete_blocks n db =
     db\<lparr>ger_blk_rows := filter (\<lambda>m. \<not> m \<ge> n) (ger_blk_rows db),
        imported_rows := filter (\<lambda>r. \<not> ew_BlockNum r \<ge> n) (imported_rows db)\<rparr>"

definition ger_Reorg :: "io \<Rightarrow> ger_db \<Rightarrow> u64 \<Rightarrow> ger_db \<times> error option" where
  "ger_Reorg io db firstReorgedBlock =
     (if io (SqlDelete ''block'' [unat firstReorgedBlock]) then (db, Some ErrSQL)
      else (ger_delete_blocks firstReorgedBlock db, None))"

definition GetFirstGERAfterL1InfoTreeIndex :: "io \<Rightarrow> ger_db \<Rightarrow> u32 \<Rightarrow> error + ger_Event" where
  "GetFirstGERAfterL1InfoTreeIndex io db l1InfoTreeIndex =
     map_sum id (\<lambda>r. \<lparr>ev_GlobalExitRoot = ew_GlobalExitRoot r, ev_L1InfoTreeIndex = ew_L1InfoTreeIndex r\<rparr>)
       (query_row io (SqlSelect ''imported_global_exit_root'' [unat l1InfoTreeIndex])
          (first_asc ew_L1InfoTreeIndex (filter (\<lambda>r. ew_L1InfoTreeIndex r \<ge> l1InfoTreeIndex) (imported_rows db))))"

definition ger_interface :: "(ger_db, ger_item) processorInterface" where
  "ger_interface =
     \<lparr>pi_GetLastProcessedBlock = ger_GetLastProcessedBlock, pi_ProcessBlock = ger_ProcessBlock, pi_Reorg = ger_Reorg\<rparr>"

section \<open>The downloader\<close>

text \<open>The index to begin with, over the attempts of \<open>getLastIndex\<close>.\<close>

fun ger_start_index :: "RetryHandler \<Rightarrow> io list \<Rightarrow> ger_db \<Rightarrow> int \<Rightarrow> outcome \<times> u32" where
  "ger_start_index rh [] db attempts = (Pending, 0)"
| "ger_start_index rh (io # env) db attempts =
     (case ger_getLastIndex io db of
        Inr idx \<Rightarrow> (Succeeded, if idx > 0 then idx + 1 else 0)
      | Inl e \<Rightarrow>
          if e = ErrNotFound then (Succeeded, 0)
          else if RetryHandler_Handle rh (attempts + 1) then (FatalExit, 0)
          else ger_start_index rh env db (attempts + 1))"

text \<open>\<open>None\<close>: the loop over the indices never ends.\<close>

partial_function (option) gers_loop ::
  "io \<Rightarrow> l1_processor \<Rightarrow> u32 \<Rightarrow> u32 \<Rightarrow> ger_Event list \<Rightarrow> (error + ger_Event list) option"
where
  "gers_loop io p idx i gers =
     (if \<not> i \<le> idx then Some (Inr gers)
      else case s_GetInfoByIndex io p i of
             Inl e \<Rightarrow> Some (Inl e)
           | Inr info \<Rightarrow>
               gers_loop io p idx (i + 1)
                 (gers @ [\<lparr>ev_GlobalExitRoot = lf_GlobalExitRoot info, ev_L1InfoTreeIndex = i\<rparr>]))"

definition getGERsFromIndex :: "io \<Rightarrow> l1_processor \<Rightarrow> u32 \<Rightarrow> (error + ger_Event list) option" where
  "getGERsFromIndex io p fromL1InfoTreeIndex =
     (case GetLastL1InfoTreeRoot io p of
        Inl e \<Rightarrow> Some (if e = ErrNotFound then Inr [] else Inl e)
      | Inr lastRoot \<Rightarrow> gers_loop io p (r_Index lastRoot) fromL1InfoTreeIndex [])"

text \<open>\<open>getGERsFromIndex\<close> with its retries; every attempt sees the L1 syncer as it is then.\<close>

fun gers_retry :: "RetryHandler \<Rightarrow> (io \<times> l1_processor) list \<Rightarrow> u32 \<Rightarrow> int \<Rightarrow> outcome \<times> ger_Event list" where
  "gers_retry rh [] i attempts = (Pending, [])"
| "gers_retry rh ((io, p) # env) i attempts =
     (case getGERsFromIndex io p i of
        None \<Rightarrow> (Pending, [])
      | Some (Inr gers) \<Rightarrow> (Succeeded, gers)
      | Some (Inl e) \<Rightarrow>
          if RetryHandler_Handle rh (attempts + 1) then (FatalExit, []) else gers_retry rh env i (attempts + 1))"

text \<open>The timestamp the L2 contract has for a root, over the attempts of the call; 0: not injected.\<close>

fun injected_retry :: "RetryHandler \<Rightarrow> (error + nat) list \<Rightarrow> int \<Rightarrow> outcome \<times> nat" where
  "injected_retry rh [] attempts = (Pending, 0)"
| "injected_retry rh (Inr timestamp # env) attempts = (Succeeded, timestamp)"
| "injected_retry rh (Inl e # env) attempts =
     (if RetryHandler_Handle rh (attempts + 1) then (FatalExit, 0) else injected_retry rh env (attempts + 1))"

fun setGreatestGERInjectedFromList ::
  "RetryHandler \<Rightarrow> (hash \<Rightarrow> (error + nat) list) \<Rightarrow> ger_Event list \<Rightarrow> ger_item list \<Rightarrow> outcome \<times> ger_item list"
where
  "setGreatestGERInjectedFromList rh contract [] events = (Succeeded, events)"
| "setGreatestGERInjectedFromList rh contract (e # es) events =
     (case injected_retry rh (contract (ev_GlobalExitRoot e)) 0 of
        (Succeeded, timestamp) \<Rightarrow>
          setGreatestGERInjectedFromList rh contract es (if timestamp > 0 then [GerItem e] else events)
      | (res, _) \<Rightarrow> (res, events))"

text \<open>
  One turn of \<open>Download\<close>: what it waits for, asks the L1 syncer, the client and the contract. It returns the
  block sent to the driver and where to go on; a cancelled wait goes on with the block it had.
\<close>

record ger_env =
  ge_wait :: "(error + u64) attempt list"
  ge_gers :: "(io \<times> l1_processor) list"
  ge_header :: "(error + EVMBlockHeader) attempt list"
  ge_contract :: "hash \<Rightarrow> (error + nat) list"

definition next_index :: "u32 \<Rightarrow> ger_item list \<Rightarrow> u32" where
  "next_index nextIndex events =
     (case events of
        GerItem e # _ \<Rightarrow> ev_L1InfoTreeIndex e + 1
      | OtherItem # _ \<Rightarrow> 1
      | [] \<Rightarrow> nextIndex)"

definition ger_Download_round ::
  "RetryHandler \<Rightarrow> ger_env \<Rightarrow> u64 \<Rightarrow> u32 \<Rightarrow> outcome \<times> (ger_item EVMBlock \<times> u64 \<times> u32) option"
where
  "ger_Download_round rh env fromBlock nextIndex =
     (case WaitForNewBlocks rh (ge_wait env) fromBlock 0 of (w, fromBlock1) \<Rightarrow>
        if w \<noteq> Succeeded \<and> w \<noteq> Canceled then (w, None)
        else case gers_retry rh (ge_gers env) nextIndex 0 of (g, gers) \<Rightarrow>
          if g \<noteq> Succeeded then (g, None)
          else case GetBlockHeader rh (ge_header env) 0 of
                 (Succeeded, Some header) \<Rightarrow>
                   (case setGreatestGERInjectedFromList rh (ge_contract env) gers [] of
                      (Succeeded, events) \<Rightarrow>
                        (Succeeded, Some (\<lparr>eb_Header = header, eb_Events = events\<rparr>, fromBlock1, next_index nextIndex events))
                    | (res, _) \<Rightarrow> (res, None))
               | (res, _) \<Rightarrow> (res, None))"

text \<open>
  The syncer: a downloaded block is processed, and after a reorg the download starts again.
\<close>

inductive ger_step :: "RetryHandler \<Rightarrow> u64 \<times> u32 \<times> ger_db \<Rightarrow> u64 \<times> u32 \<times> ger_db \<Rightarrow> bool" for rh where
  Round: "ger_Download_round rh env f i = (Succeeded, Some (b, f', i')) \<Longrightarrow>
    ger_ProcessBlock io db \<lparr>bk_Num = h_Num (eb_Header b), bk_Events = eb_Events b\<rparr> = (db', None) \<Longrightarrow>
    ger_step rh (f, i, db) (f', i', db')"
| Restart: "ger_Reorg io db n = (db', None) \<Longrightarrow> ger_GetLastProcessedBlock io' db' = Inr lpb \<Longrightarrow>
    ger_start_index rh ios db' 0 = (Succeeded, i') \<Longrightarrow> ger_step rh (f, i, db) (lpb + 1, i', db')"

abbreviation ger_reach :: "RetryHandler \<Rightarrow> u64 \<times> u32 \<times> ger_db \<Rightarrow> u64 \<times> u32 \<times> ger_db \<Rightarrow> bool" where
  "ger_reach rh \<equiv> (ger_step rh)\<^sup>*\<^sup>*"

section \<open>The processor's contract\<close>

lemma insert_events_blocks: "insert_events io num es db = Inr db' \<Longrightarrow> ger_blk_rows db' = ger_blk_rows db"
  by (induction io num es db rule: insert_events.induct) (auto split: sum.splits)

lemma ger_ProcessBlock_ok:
  "ger_ProcessBlock io db b = (db', None) \<Longrightarrow>
   bk_Num b \<notin> set (ger_blk_rows db) \<and> ger_blk_rows db' = ger_blk_rows db @ [bk_Num b] \<and>
   insert_events io (bk_Num b) (bk_Events b) (db\<lparr>ger_blk_rows := ger_blk_rows db @ [bk_Num b]\<rparr>) = Inr db'"
  by (auto simp: ger_ProcessBlock_def insert_block_def pk_insert_Inr split: if_splits sum.splits dest: insert_events_blocks)

interpretation ger: sync_processor ger_interface id "\<lambda>db. set (ger_blk_rows db)"
proof (unfold_locales, unfold ger_interface_def processorInterface.simps id_apply)
  show "db' = db" if "ger_ProcessBlock io db b = (db', Some e)" for io db b db' e
    using that by (auto simp: ger_ProcessBlock_def split: if_splits sum.splits)
  show "bk_Num b \<notin> set (ger_blk_rows db) \<and> set (ger_blk_rows db') = insert (bk_Num b) (set (ger_blk_rows db))"
    if "ger_ProcessBlock io db b = (db', None)" for io db b db'
    using ger_ProcessBlock_ok [OF that] by auto
  show "db' = db" if "ger_Reorg io db n = (db', Some e)" for io db n db' e
    using that by (auto simp: ger_Reorg_def split: if_splits)
  show "set (ger_blk_rows db') = {m \<in> set (ger_blk_rows db). m < n}" if "ger_Reorg io db n = (db', None)" for io db n db'
    using that by (auto simp: ger_Reorg_def ger_delete_blocks_def split: if_splits)
  show "set (ger_blk_rows db) = {} \<and> m = 0 \<or> m \<in> set (ger_blk_rows db) \<and> (\<forall>k\<in>set (ger_blk_rows db). k \<le> m)"
    if "ger_GetLastProcessedBlock io db = Inr m" for io db m
    using that unfolding ger_GetLastProcessedBlock_def by (rule last_processed_ok)
qed

section \<open>What a round finds\<close>

text \<open>The roots of the L1 info tree from an index on, in order; the loop ends only below the last \<open>uint32\<close>.\<close>

definition gers_from :: "io \<Rightarrow> l1_processor \<Rightarrow> u32 \<Rightarrow> u32 \<Rightarrow> ger_Event list \<Rightarrow> bool" where
  "gers_from io p idx i es \<longleftrightarrow> map (unat \<circ> ev_L1InfoTreeIndex) es = [unat i..<Suc (unat idx)] \<and>
     (i \<le> idx \<longrightarrow> idx \<noteq> - 1) \<and>
     (\<forall>e\<in>set es. \<exists>info. s_GetInfoByIndex io p (ev_L1InfoTreeIndex e) = Inr info \<and> lf_GlobalExitRoot info = ev_GlobalExitRoot e)"

lemma gers_loop_ok:
  assumes "gers_loop io p idx i acc = Some (Inr gers)"
  shows "\<exists>es. gers = acc @ es \<and> gers_from io p idx i es"
proof -
  have "\<forall>gers. r = Inr gers \<longrightarrow> (\<exists>es. gers = acc @ es \<and> gers_from io p idx i es)"
    if "gers_loop io p idx i acc = Some r" for r
  proof (rule gers_loop.raw_induct [where P = "\<lambda>io p idx i acc r.
      \<forall>gers. r = Inr gers \<longrightarrow> (\<exists>es. gers = acc @ es \<and> gers_from io p idx i es)", OF _ that], goal_cases)
    case (1 loop io p idx i acc r)
    show ?case
    proof (cases "i \<le> idx \<and> (\<exists>info. s_GetInfoByIndex io p i = Inr info)")
      case False
      with 1(2) show ?thesis by (auto simp: gers_from_def word_le_nat_alt split: if_splits sum.splits)
    next
      case True
      then obtain info where i: "i \<le> idx" "s_GetInfoByIndex io p i = Inr info" by blast
      let ?e = "\<lparr>ev_GlobalExitRoot = lf_GlobalExitRoot info, ev_L1InfoTreeIndex = i\<rparr>"
      have "loop io p idx (i + 1) (acc @ [?e]) = Some r" using 1(2) i by simp
      from 1(1) [OF this] have IH: "r = Inr gers \<Longrightarrow> \<exists>es. gers = acc @ ?e # es \<and> gers_from io p idx (i + 1) es" for gers
        by fastforce
      show ?thesis
      proof (intro allI impI)
        fix gers assume "r = Inr gers"
        from IH [OF this] obtain es where es: "gers = acc @ ?e # es" "gers_from io p idx (i + 1) es" by blast
        have n: "idx \<noteq> - 1"
        proof
          assume m: "idx = - 1"
          then have "i + 1 \<le> idx" by simp
          with es(2) m show False by (simp add: gers_from_def)
        qed
        have "i \<noteq> - 1" using i(1) n by (auto simp: word_order.extremum_unique)
        then have "unat (i + 1) = Suc (unat i)" by (simp add: add.commute add_eq_0_iff unatSuc)
        moreover have "unat i \<le> unat idx" using i(1) by (simp add: word_le_nat_alt)
        ultimately have "gers_from io p idx i (?e # es)"
          using es(2) i n by (auto simp: gers_from_def upt_conv_Cons)
        with es(1) show "\<exists>es. gers = acc @ es \<and> gers_from io p idx i es" by blast
      qed
    qed
  qed
  with assms show ?thesis by blast
qed

lemma getGERsFromIndex_ok:
  assumes "getGERsFromIndex io p i = Some (Inr gers)"
  shows "gers = [] \<or> (\<exists>root. GetLastL1InfoTreeRoot io p = Inr root \<and> gers_from io p (r_Index root) i gers)"
  using assms gers_loop_ok [of io p _ i "[]" gers]
  by (auto simp: getGERsFromIndex_def split: sum.splits if_splits)

lemma gers_retry_ok:
  "gers_retry rh env i a = (Succeeded, gers) \<Longrightarrow> \<exists>(io, p)\<in>set env. getGERsFromIndex io p i = Some (Inr gers)"
proof (induction env arbitrary: a)
  case (Cons x env)
  obtain io p where x: "x = (io, p)" by (cases x)
  show ?case
  proof (cases "\<exists>g. getGERsFromIndex io p i = Some (Inr g)")
    case True
    with Cons.prems x show ?thesis by auto
  next
    case False
    with Cons.prems x have "gers_retry rh env i (a + 1) = (Succeeded, gers)"
      by (auto split: option.splits sum.splits if_splits)
    from Cons.IH [OF this] show ?thesis by auto
  qed
qed simp

definition is_injected :: "RetryHandler \<Rightarrow> (hash \<Rightarrow> (error + nat) list) \<Rightarrow> ger_Event \<Rightarrow> bool" where
  "is_injected rh contract e \<longleftrightarrow> snd (injected_retry rh (contract (ev_GlobalExitRoot e)) 0) > 0"

lemma setGreatest_ok:
  "setGreatestGERInjectedFromList rh contract es acc = (Succeeded, events) \<Longrightarrow>
   events = (if filter (is_injected rh contract) es = [] then acc else [GerItem (last (filter (is_injected rh contract) es))])"
proof (induction es arbitrary: acc)
  case (Cons e es)
  obtain res t where r: "injected_retry rh (contract (ev_GlobalExitRoot e)) 0 = (res, t)" by (metis surj_pair)
  with Cons.prems have "res = Succeeded" by (cases res) simp_all
  moreover have "is_injected rh contract e \<longleftrightarrow> t > 0" using r by (simp add: is_injected_def)
  ultimately show ?case using Cons r by (cases "filter (is_injected rh contract) es = []") auto
qed simp

lemma ger_round_cases:
  assumes "ger_Download_round rh env f i = (Succeeded, Some (b, f', i'))"
  obtains io p gers where "(io, p) \<in> set (ge_gers env)" and "getGERsFromIndex io p i = Some (Inr gers)"
    and "setGreatestGERInjectedFromList rh (ge_contract env) gers [] = (Succeeded, eb_Events b)"
    and "i' = next_index i (eb_Events b)"
proof -
  obtain w f1 where w: "WaitForNewBlocks rh (ge_wait env) f 0 = (w, f1)" by (metis surj_pair)
  obtain g gers where g: "gers_retry rh (ge_gers env) i 0 = (g, gers)" by (metis surj_pair)
  obtain hr ho where h: "GetBlockHeader rh (ge_header env) 0 = (hr, ho)" by (metis surj_pair)
  obtain r evs where r: "setGreatestGERInjectedFromList rh (ge_contract env) gers [] = (r, evs)" by (metis surj_pair)
  from assms w have wc: "w = Succeeded \<or> w = Canceled"
    by (auto simp: ger_Download_round_def split: if_splits)
  with assms w g have gs: "g = Succeeded" by (auto simp: ger_Download_round_def split: if_splits)
  with assms w g h wc obtain hdr where ho: "hr = Succeeded" "ho = Some hdr"
    by (cases hr; cases ho) (auto simp: ger_Download_round_def)
  with assms w g h r wc gs have "r = Succeeded" by (cases r) (auto simp: ger_Download_round_def)
  with assms w g h r wc gs ho have "eb_Events b = evs" "i' = next_index i evs" by (auto simp: ger_Download_round_def)
  with gers_retry_ok [of rh _ i 0 gers] g gs r \<open>r = Succeeded\<close> that show ?thesis by fastforce
qed

lemma ger_round_event:
  assumes "ger_Download_round rh env f i = (Succeeded, Some (b, f', i'))"
  obtains (none) "eb_Events b = []" and "i' = i"
    | (one) e where "eb_Events b = [GerItem e]" and "i \<le> ev_L1InfoTreeIndex e" and "ev_L1InfoTreeIndex e \<noteq> - 1"
        and "i' = ev_L1InfoTreeIndex e + 1"
proof -
  from assms obtain io p gers where r: "getGERsFromIndex io p i = Some (Inr gers)"
    "setGreatestGERInjectedFromList rh (ge_contract env) gers [] = (Succeeded, eb_Events b)" "i' = next_index i (eb_Events b)"
    by (rule ger_round_cases)
  let ?f = "filter (is_injected rh (ge_contract env)) gers"
  show ?thesis
  proof (cases "?f = []")
    case True
    with setGreatest_ok [OF r(2)] r(3) show ?thesis by (intro none) (simp_all add: next_index_def)
  next
    case False
    then have "last ?f \<in> set ?f" by (rule last_in_set)
    then have e: "last ?f \<in> set gers" by simp
    with getGERsFromIndex_ok [OF r(1)] obtain idx where g: "gers_from io p idx i gers" by fastforce
    have "unat (ev_L1InfoTreeIndex (last ?f)) \<in> set (map (unat \<circ> ev_L1InfoTreeIndex) gers)" using e by auto
    then have m: "unat i \<le> unat (ev_L1InfoTreeIndex (last ?f))" "unat (ev_L1InfoTreeIndex (last ?f)) \<le> unat idx"
      using g by (auto simp: gers_from_def simp del: set_map)
    then have "i \<le> idx" "ev_L1InfoTreeIndex (last ?f) \<le> idx" by (simp_all add: word_le_nat_alt)
    with g have "ev_L1InfoTreeIndex (last ?f) \<noteq> - 1" by (auto simp: gers_from_def word_order.extremum_unique)
    with False m(1) setGreatest_ok [OF r(2)] r(3) show ?thesis
      by (intro one [of "last ?f"]) (simp_all add: next_index_def word_le_nat_alt)
  qed
qed

section \<open>The imported roots\<close>

definition ger_before :: "eventWithBlockNum \<Rightarrow> eventWithBlockNum \<Rightarrow> bool" where
  "ger_before a b \<longleftrightarrow> ew_L1InfoTreeIndex a < ew_L1InfoTreeIndex b \<or> ew_L1InfoTreeIndex a = 0 \<and> ew_L1InfoTreeIndex b = 0"

definition ger_inv :: "u64 \<times> u32 \<times> ger_db \<Rightarrow> bool" where
  "ger_inv s = (case s of (f, i, db) \<Rightarrow>
     sorted_wrt ger_before (imported_rows db) \<and> distinct (map ew_BlockNum (imported_rows db)) \<and>
     (\<forall>r\<in>set (imported_rows db). ew_L1InfoTreeIndex r \<noteq> - 1 \<and>
        (ew_L1InfoTreeIndex r < i \<or> ew_L1InfoTreeIndex r = 0 \<and> i = 0)))"

lemma sorted_wrt_filter': "sorted_wrt P xs \<Longrightarrow> sorted_wrt P (filter Q xs)"
  by (induction xs) auto

lemma succ_greater: "x \<noteq> - 1 \<Longrightarrow> x < x + 1" for x :: u32
  by (simp add: word_less_nat_alt add.commute add_eq_0_iff unatSuc)

lemma ger_getLastIndex_ok:
  "ger_getLastIndex io db = Inr l \<Longrightarrow> r \<in> set (imported_rows db) \<Longrightarrow>
   ew_L1InfoTreeIndex r \<le> l \<and> (\<exists>r'\<in>set (imported_rows db). ew_L1InfoTreeIndex r' = l)"
  by (auto simp: ger_getLastIndex_def query_row_def split: if_splits option.splits dest!: first_desc_Some)

lemma ger_start_index_ok:
  assumes "ger_start_index rh ios db a = (Succeeded, i')" and "\<forall>r\<in>set (imported_rows db). ew_L1InfoTreeIndex r \<noteq> - 1"
  shows "\<forall>r\<in>set (imported_rows db). ew_L1InfoTreeIndex r < i' \<or> ew_L1InfoTreeIndex r = 0 \<and> i' = 0"
  using assms(1)
proof (induction ios arbitrary: a)
  case (Cons io ios)
  show ?case
  proof (cases "ger_getLastIndex io db")
    case (Inl e)
    then have "e \<noteq> ErrNotFound" by (auto simp: ger_getLastIndex_def query_row_def split: if_splits option.splits)
    with Inl Cons show ?thesis by (auto split: if_splits)
  next
    case (Inr l)
    with Cons.prems have i': "i' = (if l > 0 then l + 1 else 0)" by simp
    show ?thesis
    proof
      fix r assume r: "r \<in> set (imported_rows db)"
      from ger_getLastIndex_ok [OF Inr r] assms(2) have "ew_L1InfoTreeIndex r \<le> l" "l \<noteq> - 1" by auto
      with succ_greater [of l] i' show "ew_L1InfoTreeIndex r < i' \<or> ew_L1InfoTreeIndex r = 0 \<and> i' = 0"
        by (auto simp: word_gt_0)
    qed
  qed
qed simp

lemma ger_step_inv:
  assumes "ger_step rh s s'" and "ger_inv s"
  shows "ger_inv s'"
  using assms(1)
proof cases
  case (Round env f i b f' i' io db db')
  note p = ger_ProcessBlock_ok [OF Round(4)]
  from Round(3) show ?thesis
  proof (cases rule: ger_round_event)
    case none
    with p have "imported_rows db' = imported_rows db" by auto
    with none Round assms(2) show ?thesis by (simp add: ger_inv_def)
  next
    case (one e)
    let ?r = "\<lparr>ew_GlobalExitRoot = ev_GlobalExitRoot e, ew_L1InfoTreeIndex = ev_L1InfoTreeIndex e,
      ew_BlockNum = h_Num (eb_Header b)\<rparr>"
    have rows: "imported_rows db' = imported_rows db @ [?r]" "ew_BlockNum ?r \<notin> ew_BlockNum ` set (imported_rows db)"
      using p one(1) by (auto simp: fk_insert_Inr split: sum.splits)
    have lt: "ev_L1InfoTreeIndex e < i'" using one(3,4) succ_greater by simp
    have inv: "\<forall>r\<in>set (imported_rows db). ew_L1InfoTreeIndex r \<noteq> - 1 \<and> (ew_L1InfoTreeIndex r < i \<or> ew_L1InfoTreeIndex r = 0 \<and> i = 0)"
      "sorted_wrt ger_before (imported_rows db)" "distinct (map ew_BlockNum (imported_rows db))"
      using assms(2) Round(1) by (auto simp: ger_inv_def)
    have "ger_before r ?r \<and> ew_L1InfoTreeIndex r < i'" if "r \<in> set (imported_rows db)" for r
    proof -
      from inv(1) that have "ew_L1InfoTreeIndex r < i \<or> ew_L1InfoTreeIndex r = 0 \<and> i = 0" by blast
      then have "ew_L1InfoTreeIndex r < ev_L1InfoTreeIndex e \<or> ew_L1InfoTreeIndex r = 0 \<and> ev_L1InfoTreeIndex e = 0"
        using one(2) by (auto simp: word_gt_0)
      with lt show ?thesis by (auto simp: ger_before_def)
    qed
    with rows inv one(3) lt Round(2) show ?thesis by (auto simp: ger_inv_def sorted_wrt_append)
  qed
next
  case (Restart io db n db' io' lpb ios i' f i)
  then have rows: "imported_rows db' = filter (\<lambda>r. \<not> ew_BlockNum r \<ge> n) (imported_rows db)"
    by (auto simp: ger_Reorg_def ger_delete_blocks_def split: if_splits)
  have "\<forall>r\<in>set (imported_rows db'). ew_L1InfoTreeIndex r \<noteq> - 1"
    using assms(2) Restart(1) rows by (auto simp: ger_inv_def)
  note start = ger_start_index_ok [OF Restart(5) this]
  from start Restart(1,2) assms(2) rows show ?thesis
    by (auto simp: ger_inv_def sorted_wrt_filter' distinct_map_filter)
qed

lemma ger_reach_inv: "ger_reach rh s s' \<Longrightarrow> ger_inv s \<Longrightarrow> ger_inv s'"
  by (induction rule: rtranclp_induct) (auto intro: ger_step_inv)

lemma GetFirstGER_least:
  assumes "GetFirstGERAfterL1InfoTreeIndex io db i = Inr e"
  shows "\<exists>r\<in>set (imported_rows db). ev_GlobalExitRoot e = ew_GlobalExitRoot r \<and> ev_L1InfoTreeIndex e = ew_L1InfoTreeIndex r \<and>
    i \<le> ev_L1InfoTreeIndex e \<and> (\<forall>r'\<in>set (imported_rows db). i \<le> ew_L1InfoTreeIndex r' \<longrightarrow> ev_L1InfoTreeIndex e \<le> ew_L1InfoTreeIndex r')"
  using assms by (auto simp: GetFirstGERAfterL1InfoTreeIndex_def map_sum_Inr_conv dest!: first_asc_Some)

section \<open>Properties\<close>

text \<open>A round reports the greatest injected root: the block it sends has the event of the injected root with the greatest
  L1 info tree index at or after the index it looks from, and none if no such root is injected; the
  root is the one of that leaf of the L1 info tree.\<close>

theorem ger_round_finds_greatest:
  assumes "ger_Download_round rh env f i = (Succeeded, Some (b, f', i'))"
  shows "\<exists>(io, p)\<in>set (ge_gers env). \<exists>gers. getGERsFromIndex io p i = Some (Inr gers) \<and>
    (eb_Events b = [] \<and> (\<forall>e\<in>set gers. \<not> is_injected rh (ge_contract env) e) \<or>
     (\<exists>e\<in>set gers. eb_Events b = [GerItem e] \<and> is_injected rh (ge_contract env) e \<and> i \<le> ev_L1InfoTreeIndex e \<and>
        (\<exists>info. s_GetInfoByIndex io p (ev_L1InfoTreeIndex e) = Inr info \<and> lf_GlobalExitRoot info = ev_GlobalExitRoot e) \<and>
        (\<forall>e'\<in>set gers. is_injected rh (ge_contract env) e' \<longrightarrow> ev_L1InfoTreeIndex e' \<le> ev_L1InfoTreeIndex e)))"
proof -
  from assms obtain io p gers where r: "(io, p) \<in> set (ge_gers env)" "getGERsFromIndex io p i = Some (Inr gers)"
    "setGreatestGERInjectedFromList rh (ge_contract env) gers [] = (Succeeded, eb_Events b)" by (rule ger_round_cases)
  let ?f = "filter (is_injected rh (ge_contract env)) gers"
  have "eb_Events b = [] \<and> (\<forall>e\<in>set gers. \<not> is_injected rh (ge_contract env) e) \<or>
     (\<exists>e\<in>set gers. eb_Events b = [GerItem e] \<and> is_injected rh (ge_contract env) e \<and> i \<le> ev_L1InfoTreeIndex e \<and>
        (\<exists>info. s_GetInfoByIndex io p (ev_L1InfoTreeIndex e) = Inr info \<and> lf_GlobalExitRoot info = ev_GlobalExitRoot e) \<and>
        (\<forall>e'\<in>set gers. is_injected rh (ge_contract env) e' \<longrightarrow> ev_L1InfoTreeIndex e' \<le> ev_L1InfoTreeIndex e))"
  proof (cases "?f = []")
    case True
    with setGreatest_ok [OF r(3)] show ?thesis by (auto simp: filter_empty_conv)
  next
    case False
    then have e: "last ?f \<in> set ?f" by (rule last_in_set)
    with getGERsFromIndex_ok [OF r(2)] obtain idx where g: "gers_from io p idx i gers" by fastforce
    have "unat (ev_L1InfoTreeIndex (last ?f)) \<in> set (map (unat \<circ> ev_L1InfoTreeIndex) gers)" using e by auto
    with g have ge: "i \<le> ev_L1InfoTreeIndex (last ?f)" by (auto simp: gers_from_def word_le_nat_alt simp del: set_map)
    have "sorted (map (unat \<circ> ev_L1InfoTreeIndex) gers)" using g by (simp add: gers_from_def del: upt_Suc)
    then have "sorted (map (unat \<circ> ev_L1InfoTreeIndex) ?f)" by (simp add: sorted_filter)
    moreover have "?f = butlast ?f @ [last ?f]" using False by simp
    ultimately have "sorted (map (unat \<circ> ev_L1InfoTreeIndex) (butlast ?f @ [last ?f]))" by simp
    then have "\<forall>x\<in>set (butlast ?f). unat (ev_L1InfoTreeIndex x) \<le> unat (ev_L1InfoTreeIndex (last ?f))"
      by (auto simp: sorted_append)
    moreover have "set ?f = insert (last ?f) (set (butlast ?f))"
      using \<open>?f = butlast ?f @ [last ?f]\<close> by (metis insert_is_Un list.set(1,2) set_append sup_commute)
    ultimately have max: "\<forall>x\<in>set ?f. ev_L1InfoTreeIndex x \<le> ev_L1InfoTreeIndex (last ?f)"
      by (auto simp: word_le_nat_alt)
    show ?thesis
      using False e g ge max setGreatest_ok [OF r(3)] by (intro disjI2 bexI [of _ "last ?f"]) (auto simp: gers_from_def)
  qed
  with r(1,2) show ?thesis by blast
qed

text \<open>C36. Imported roots come in the order of the L1 info tree: however rounds, reorgs and restarts follow each other, the rows of
  the table have increasing L1 info tree indices, at most one per block; only index 0 can repeat, because a
  restart takes a last index of 0 for an empty table.\<close>

theorem imported_gers_increasing:
  assumes "ger_reach rh (f, 0, \<lparr>ger_blk_rows = [], imported_rows = []\<rparr>) (f', i, db)"
  shows "distinct (map ew_BlockNum (imported_rows db)) \<and>
    sorted_wrt (\<lambda>a b. ew_L1InfoTreeIndex a < ew_L1InfoTreeIndex b \<or> ew_L1InfoTreeIndex a = 0 \<and> ew_L1InfoTreeIndex b = 0)
      (imported_rows db)"
proof -
  have "ger_inv (f, 0, \<lparr>ger_blk_rows = [], imported_rows = []\<rparr>)" by (simp add: ger_inv_def)
  from ger_reach_inv [OF assms this] show ?thesis by (simp add: ger_inv_def ger_before_def [abs_def])
qed

text \<open>An L1 syncer with one leaf, whose root 5 is injected.\<close>

definition sample_ger_l1 :: l1_processor where
  "sample_ger_l1 = sample_l1\<lparr>lp_db := empty_l1_db\<lparr>
     leaf_rows := [\<lparr>lf_BlockNumber = 3, lf_BlockPosition = 0, lf_L1InfoTreeIndex = 0, lf_PreviousBlockHash = 0,
       lf_Timestamp = 1, lf_MainnetExitRoot = 0, lf_RollupExitRoot = 0, lf_GlobalExitRoot = 5, lf_Hash = 9\<rparr>],
     l1_tree := empty_tree_db\<lparr>root_rows := [\<lparr>r_Hash = 1, r_Index = 0, r_BlockNum = 3, r_BlockPosition = 0\<rparr>]\<rparr>\<rparr>\<rparr>"

definition sample_ger_env :: ger_env where
  "sample_ger_env = \<lparr>ge_wait = [Try (Inr 20)], ge_gers = [(\<lambda>_. False, sample_ger_l1)],
     ge_header = [Try (Inr \<lparr>h_Num = 20, h_Hash = 77, h_ParentHash = 76, h_Timestamp = 100\<rparr>)],
     ge_contract = (\<lambda>_. [Inl ErrSQL, Inr 42])\<rparr>"

lemma sample_gers:
  "GetLastL1InfoTreeRoot (\<lambda>_. False) sample_ger_l1 = Inr \<lparr>r_Hash = 1, r_Index = 0, r_BlockNum = 3, r_BlockPosition = 0\<rparr>"
  "getGERsFromIndex (\<lambda>_. False) sample_ger_l1 0 = Some (Inr [\<lparr>ev_GlobalExitRoot = 5, ev_L1InfoTreeIndex = 0\<rparr>])"
proof -
  show r: "GetLastL1InfoTreeRoot (\<lambda>_. False) sample_ger_l1 = Inr \<lparr>r_Hash = 1, r_Index = 0, r_BlockNum = 3, r_BlockPosition = 0\<rparr>"
    by (simp add: GetLastL1InfoTreeRoot_def sample_ger_l1_def unless_halted_def sample_l1_def l1_newProcessor_def GetLastRoot_def
        getLastRootWithTx_def query_row_def)
  have "s_GetInfoByIndex (\<lambda>_. False) sample_ger_l1 0 = Inr (hd (leaf_rows (lp_db sample_ger_l1)))"
    by (simp add: s_GetInfoByIndex_def l1_GetInfoByIndex_def sample_ger_l1_def unless_halted_def sample_l1_def l1_newProcessor_def
        query_row_def)
  then show "getGERsFromIndex (\<lambda>_. False) sample_ger_l1 0 = Some (Inr [\<lparr>ev_GlobalExitRoot = 5, ev_L1InfoTreeIndex = 0\<rparr>])"
    by (simp add: getGERsFromIndex_def r gers_loop.simps) (simp add: sample_ger_l1_def)
qed

lemma sample_ger_round:
  "ger_Download_round \<lparr>MaxRetryAttemptsAfterError = 3\<rparr> sample_ger_env 1 0 =
     (Succeeded, Some (\<lparr>eb_Header = \<lparr>h_Num = 20, h_Hash = 77, h_ParentHash = 76, h_Timestamp = 100\<rparr>,
        eb_Events = [GerItem \<lparr>ev_GlobalExitRoot = 5, ev_L1InfoTreeIndex = 0\<rparr>]\<rparr>, 20, 1))"
  by (simp add: ger_Download_round_def sample_ger_env_def sample_gers RetryHandler_Handle_def next_index_def)

theorem ger_round_finds_greatest_witness:
  "\<exists>gers. getGERsFromIndex (\<lambda>_. False) sample_ger_l1 0 = Some (Inr gers) \<and>
     (\<exists>e\<in>set gers. ev_GlobalExitRoot e = 5 \<and> is_injected \<lparr>MaxRetryAttemptsAfterError = 3\<rparr> (ge_contract sample_ger_env) e)"
proof -
  have "ge_gers sample_ger_env = [(\<lambda>_. False, sample_ger_l1)]" by (simp add: sample_ger_env_def)
  with ger_round_finds_greatest [OF sample_ger_round] sample_gers(2) show ?thesis by simp
qed

definition sample_ger_db :: ger_db where
  "sample_ger_db = \<lparr>ger_blk_rows = [20],
     imported_rows = [\<lparr>ew_GlobalExitRoot = 5, ew_L1InfoTreeIndex = 0, ew_BlockNum = 20\<rparr>]\<rparr>"

theorem imported_gers_increasing_witness:
  "\<exists>f i. ger_reach \<lparr>MaxRetryAttemptsAfterError = 3\<rparr> (1, 0, \<lparr>ger_blk_rows = [], imported_rows = []\<rparr>) (f, i, sample_ger_db) \<and>
     distinct (map ew_BlockNum (imported_rows sample_ger_db))"
proof -
  have "ger_step \<lparr>MaxRetryAttemptsAfterError = 3\<rparr> (1, 0, \<lparr>ger_blk_rows = [], imported_rows = []\<rparr>) (20, 1, sample_ger_db)"
    by (rule ger_step.Round [OF sample_ger_round, of "\<lambda>_. False"])
      (simp add: ger_ProcessBlock_def insert_block_def pk_insert_def fk_insert_def sample_ger_db_def)
  then have r: "ger_reach \<lparr>MaxRetryAttemptsAfterError = 3\<rparr> (1, 0, \<lparr>ger_blk_rows = [], imported_rows = []\<rparr>) (20, 1, sample_ger_db)"
    by (rule r_into_rtranclp)
  from r imported_gers_increasing [OF r] show ?thesis by blast
qed

text \<open>Index 0 is imported again after a restart.\<close>

lemma ger_index_0_again: "ger_start_index rh ((\<lambda>_. False) # ios) sample_ger_db a = (Succeeded, 0)"
  by (simp add: ger_getLastIndex_def query_row_def sample_ger_db_def)

end
