(* ===== verification/AggOracle.thy ===== *)
theory AggOracle
  imports L1InfoTreeSync
begin

text \<open>
  The oracle (\<open>src/aggoracle/oracle.go\<close>) and its sender to an EVM chain (\<open>chaingersender/evm.go\<close>): on every tick it asks the
  L1 info tree syncer for a global exit root of a finalised block and injects it into L2. The transaction manager
  and the contract on L2 are parameters.
\<close>

section \<open>The sender\<close>

datatype MonitoredTxStatus = TxCreated | TxSent | TxFailed | TxMined | TxSafe | TxFinalized | TxUnknown

text \<open>The chain: the contract's timestamp of a root, and the answers of the transaction manager; the \<open>n\<close>-th poll
  of a result gets the argument \<open>n\<close>, and a failed poll leaves the zero status, which is unknown.\<close>

record EVMChainGERSender =
  gs_GlobalExitRootMap :: "hash \<Rightarrow> error + nat"
  gs_Pack :: "hash \<Rightarrow> error + bytes"
  gs_Add :: "bytes \<Rightarrow> error + hash"
  gs_Result :: "hash \<Rightarrow> nat \<Rightarrow> error + MonitoredTxStatus"

definition IsGERAlreadyInjected :: "EVMChainGERSender \<Rightarrow> hash \<Rightarrow> error + bool" where
  "IsGERAlreadyInjected c ger = map_sum id (\<lambda>timestamp. timestamp \<noteq> 0) (gs_GlobalExitRootMap c ger)"

text \<open>\<open>None\<close>: the loop never ends.\<close>

partial_function (option) wait_mined :: "EVMChainGERSender \<Rightarrow> hash \<Rightarrow> nat \<Rightarrow> error option option" where
  "wait_mined c txid n =
     (case (case gs_Result c txid n of Inl e \<Rightarrow> TxUnknown | Inr st \<Rightarrow> st) of
        TxFailed \<Rightarrow> Some (Some (ErrMsg ''tx failed''))
      | TxMined \<Rightarrow> Some None
      | TxSafe \<Rightarrow> Some None
      | TxFinalized \<Rightarrow> Some None
      | _ \<Rightarrow> wait_mined c txid (n + 1))"

definition UpdateGERWaitUntilMined :: "EVMChainGERSender \<Rightarrow> hash \<Rightarrow> error option option" where
  "UpdateGERWaitUntilMined c ger =
     (case gs_Pack c ger of
        Inl e \<Rightarrow> Some (Some e)
      | Inr data \<Rightarrow> (case gs_Add c data of Inl e \<Rightarrow> Some (Some e) | Inr txid \<Rightarrow> wait_mined c txid 0))"

section \<open>The oracle\<close>

text \<open>\<open>header\<close>: the number of the last block with the configured finality.\<close>

definition getLastFinalisedGER ::
  "error + u64 \<Rightarrow> io \<Rightarrow> l1_processor \<Rightarrow> u64 \<Rightarrow> u64 \<times> (error + hash)"
where
  "getLastFinalisedGER header io p blockNumToFetch =
     (let query = (\<lambda>n. case s_GetLatestInfoUntilBlock io p n of
                         Inl e \<Rightarrow> (n, Inl e)
                       | Inr info \<Rightarrow> (0, Inr (lf_GlobalExitRoot info)))
      in if blockNumToFetch = 0
         then (case header of Inl e \<Rightarrow> (0, Inl e) | Inr n \<Rightarrow> query n)
         else query blockNumToFetch)"

text \<open>What a tick of \<open>Start\<close> did; \<open>Waiting\<close>: it never returns from the sender.\<close>

datatype tick = Skipped error | AlreadyInjected hash | Injected hash | InjectFailed hash error | Waiting hash

definition oracle_tick ::
  "error + u64 \<Rightarrow> io \<Rightarrow> l1_processor \<Rightarrow> EVMChainGERSender \<Rightarrow> u64 \<Rightarrow> u64 \<times> tick"
where
  "oracle_tick header io p c blockNumToFetch =
     (case getLastFinalisedGER header io p blockNumToFetch of
        (n, Inl e) \<Rightarrow> (if e = ErrBlockNotProcessed then n else if e = ErrNotFound then 0 else n, Skipped e)
      | (n, Inr ger) \<Rightarrow>
          (n, case IsGERAlreadyInjected c ger of
                Inl e \<Rightarrow> Skipped e
              | Inr True \<Rightarrow> AlreadyInjected ger
              | Inr False \<Rightarrow>
                  (case UpdateGERWaitUntilMined c ger of
                     None \<Rightarrow> Waiting ger
                   | Some None \<Rightarrow> Injected ger
                   | Some (Some e) \<Rightarrow> InjectFailed ger e)))"

section \<open>Lemmas\<close>

text \<open>The wait ends with the first poll that sees a final status.\<close>

definition final_status :: "error + MonitoredTxStatus \<Rightarrow> bool" where
  "final_status r \<longleftrightarrow> r \<in> Inr ` {TxFailed, TxMined, TxSafe, TxFinalized}"

lemma wait_mined_step:
  "wait_mined c txid n =
     (if final_status (gs_Result c txid n)
      then Some (if gs_Result c txid n = Inr TxFailed then Some (ErrMsg ''tx failed'') else None)
      else wait_mined c txid (n + 1))"
  by (subst wait_mined.simps) (auto simp: final_status_def split: sum.splits MonitoredTxStatus.splits)

lemma wait_mined_first:
  assumes "final_status (gs_Result c txid m)" and "\<forall>k<m. \<not> final_status (gs_Result c txid k)" and "n \<le> m"
  shows "wait_mined c txid n = Some (if gs_Result c txid m = Inr TxFailed then Some (ErrMsg ''tx failed'') else None)"
  using assms(3)
proof (induction rule: inc_induct)
  case base
  with assms(1) wait_mined_step [of c txid m] show ?case by simp
next
  case (step n)
  with assms(2) wait_mined_step [of c txid n] show ?case by simp
qed

lemma wait_mined_never:
  assumes "\<forall>k. \<not> final_status (gs_Result c txid k)"
  shows "wait_mined c txid n = None"
proof -
  have "False" if "wait_mined c txid n = Some r" for r
  proof (rule wait_mined.raw_induct [where P = "\<lambda>c txid n r. \<exists>k. final_status (gs_Result c txid k)", OF _ that, THEN exE], goal_cases)
    case (1 loop c txid n r)
    then show ?case
      by (cases "gs_Result c txid n"; cases "projr (gs_Result c txid n)") (auto simp: final_status_def intro: exI [of _ n])
  next
    case (2 k)
    with assms show ?case by blast
  qed
  then show ?thesis by (cases "wait_mined c txid n") auto
qed

text \<open>What an injection says: the newest leaf the syncer has, whatever its block.\<close>

lemma tick_injects:
  assumes "oracle_tick header io p c n = (n', Injected ger)"
  shows "\<exists>m leaf. (if n = 0 then header = Inr m else m = n) \<and> n' = 0 \<and> gs_GlobalExitRootMap c ger = Inr 0 \<and>
    UpdateGERWaitUntilMined c ger = Some None \<and> first_desc leaf_key (leaf_rows (lp_db p)) = Some leaf \<and>
    lf_GlobalExitRoot leaf = ger \<and> (\<exists>lpb. l1_GetLastProcessedBlock io p = Inr lpb \<and> m \<le> lpb)"
proof -
  from assms obtain m where m: "if n = 0 then header = Inr m else m = n"
      "(case s_GetLatestInfoUntilBlock io p m of Inl e \<Rightarrow> (m, Inl e) | Inr info \<Rightarrow> (0, Inr (lf_GlobalExitRoot info))) = (n', Inr ger)"
    and c: "IsGERAlreadyInjected c ger = Inr False" "UpdateGERWaitUntilMined c ger = Some None"
    by (auto simp: oracle_tick_def getLastFinalisedGER_def Let_def split: if_splits sum.splits prod.splits bool.splits option.splits)
  from m(2) obtain leaf where l: "s_GetLatestInfoUntilBlock io p m = Inr leaf" "n' = 0" "lf_GlobalExitRoot leaf = ger"
    by (auto split: sum.splits)
  then have "first_desc leaf_key (leaf_rows (lp_db p)) = Some leaf" "\<exists>lpb. l1_GetLastProcessedBlock io p = Inr lpb \<and> m \<le> lpb"
    by (auto simp: s_GetLatestInfoUntilBlock_def unless_halted_def map_sum_Inr_conv GetLatestInfoUntilBlock_def
        l1_GetLastProcessedBlock_def split: if_splits sum.splits)
  moreover have "gs_GlobalExitRootMap c ger = Inr 0" using c by (auto simp: IsGERAlreadyInjected_def map_sum_Inr_conv)
  ultimately show ?thesis using m(1) l c(2) by blast
qed

section \<open>Properties\<close>

text \<open>An injection waits exactly for the transaction: the sender returns if and only if some poll sees a final status, and
  then with an error just when the first final status is a failure. A manager that only answers with
  errors keeps the oracle waiting for ever.\<close>

theorem injection_returns_iff_final:
  assumes "gs_Pack c ger = Inr d" and "gs_Add c d = Inr i"
  shows "(UpdateGERWaitUntilMined c ger \<noteq> None \<longleftrightarrow> (\<exists>k. final_status (gs_Result c i k))) \<and>
    (\<forall>m. final_status (gs_Result c i m) \<and> (\<forall>k<m. \<not> final_status (gs_Result c i k)) \<longrightarrow>
       UpdateGERWaitUntilMined c ger = Some (if gs_Result c i m = Inr TxFailed then Some (ErrMsg ''tx failed'') else None))"
proof -
  have u: "UpdateGERWaitUntilMined c ger = wait_mined c i 0" using assms by (simp add: UpdateGERWaitUntilMined_def)
  have first: "wait_mined c i 0 = Some (if gs_Result c i m = Inr TxFailed then Some (ErrMsg ''tx failed'') else None)"
    if "final_status (gs_Result c i m)" "\<forall>k<m. \<not> final_status (gs_Result c i k)" for m
    using wait_mined_first [OF that, of 0] by simp
  have "wait_mined c i 0 \<noteq> None" if "final_status (gs_Result c i k)" for k
  proof -
    obtain m where "final_status (gs_Result c i m)" "\<forall>k<m. \<not> final_status (gs_Result c i k)"
      using exists_least_iff [of "\<lambda>m. final_status (gs_Result c i m)"] \<open>final_status (gs_Result c i k)\<close> by blast
    from first [OF this] show ?thesis by (rule ssubst) (rule option.distinct(2))
  qed
  moreover have "wait_mined c i 0 = None" if "\<nexists>k. final_status (gs_Result c i k)"
    using that wait_mined_never by blast
  ultimately have "wait_mined c i 0 \<noteq> None \<longleftrightarrow> (\<exists>k. final_status (gs_Result c i k))" by metis
  then show ?thesis unfolding u using first by simp
qed

definition sample_chain :: EVMChainGERSender where
  "sample_chain = \<lparr>gs_GlobalExitRootMap = (\<lambda>_. Inr 0), gs_Pack = (\<lambda>ger. Inr (hash_bytes ger)), gs_Add = (\<lambda>_. Inr 8),
     gs_Result = (\<lambda>_ n. if n = 0 then Inl ErrSQL else if n = 1 then Inr TxSent else Inr TxMined)\<rparr>"

theorem injection_returns_iff_final_witness: "UpdateGERWaitUntilMined sample_chain 5 = Some None"
proof -
  have "\<forall>k<2::nat. \<not> final_status (gs_Result sample_chain 8 k)"
    by (auto simp: sample_chain_def final_status_def)
  moreover have "final_status (gs_Result sample_chain 8 2)" "gs_Result sample_chain 8 2 \<noteq> Inr TxFailed"
    by (simp_all add: sample_chain_def final_status_def)
  moreover have "gs_Pack sample_chain 5 = Inr (hash_bytes 5)" "gs_Add sample_chain (hash_bytes 5) = Inr 8"
    by (simp_all add: sample_chain_def)
  note injection_returns_iff_final [OF this, THEN conjunct2, rule_format, of 2]
  ultimately show ?thesis by simp
qed

text \<open>C37. The oracle injects the newest finalised root: when the syncer has not stored leaves of blocks after the finalised block that is asked
  for, a root is injected only if it is the one of the newest leaf at or before that block, the syncer has processed that block, the root
  was not injected before, and the transaction that injects it was mined. (With leaves of later blocks, the newest of those
  is injected, see below.)\<close>

theorem oracle_injects_newest_ger:
  assumes "oracle_tick header io p c n = (n', Injected ger)" and "if n = 0 then header = Inr m else m = n"
    and "\<forall>l\<in>set (leaf_rows (lp_db p)). lf_BlockNumber l \<le> m"
  shows "n' = 0 \<and> gs_GlobalExitRootMap c ger = Inr 0 \<and> UpdateGERWaitUntilMined c ger = Some None \<and>
    (\<exists>lpb. l1_GetLastProcessedBlock io p = Inr lpb \<and> m \<le> lpb) \<and>
    (\<exists>leaf\<in>set (leaf_rows (lp_db p)). lf_GlobalExitRoot leaf = ger \<and> lf_BlockNumber leaf \<le> m \<and>
       (\<forall>l\<in>set (leaf_rows (lp_db p)). lf_BlockNumber l \<le> m \<longrightarrow> leaf_key l \<le> leaf_key leaf))"
proof -
  from tick_injects [OF assms(1)] obtain m' leaf where "if n = 0 then header = Inr m' else m' = n"
    and leaf: "n' = 0" "gs_GlobalExitRootMap c ger = Inr 0" "UpdateGERWaitUntilMined c ger = Some None"
      "first_desc leaf_key (leaf_rows (lp_db p)) = Some leaf" "lf_GlobalExitRoot leaf = ger"
      "\<exists>lpb. l1_GetLastProcessedBlock io p = Inr lpb \<and> m' \<le> lpb" by blast
  then have "m' = m" using assms(2) by (simp split: if_splits)
  with leaf first_desc_Some [OF leaf(4)] assms(3) show ?thesis by blast
qed

text \<open>The newest leaf is of block 10, the finalised block is 12.\<close>

definition oracle_leaf :: "u64 \<Rightarrow> hash \<Rightarrow> L1InfoTreeLeaf" where
  "oracle_leaf n ger = \<lparr>lf_BlockNumber = n, lf_BlockPosition = 0, lf_L1InfoTreeIndex = 0, lf_PreviousBlockHash = 0,
     lf_Timestamp = 1, lf_MainnetExitRoot = 0, lf_RollupExitRoot = 0, lf_GlobalExitRoot = ger, lf_Hash = 9\<rparr>"

definition sample_oracle_l1 :: l1_processor where
  "sample_oracle_l1 = sample_l1\<lparr>lp_db := empty_l1_db\<lparr>l1_blk_rows := [8, 10, 30], leaf_rows := [oracle_leaf 8 4, oracle_leaf 10 5]\<rparr>\<rparr>"

lemma sample_oracle_tick: "oracle_tick (Inr 12) (\<lambda>_. False) sample_oracle_l1 sample_chain 0 = (0, Injected 5)"
proof -
  have "s_GetLatestInfoUntilBlock (\<lambda>_. False) sample_oracle_l1 12 = Inr (oracle_leaf 10 5)"
    by (simp add: s_GetLatestInfoUntilBlock_def unless_halted_def GetLatestInfoUntilBlock_def sample_oracle_l1_def sample_l1_def
        l1_newProcessor_def getLastProcessedBlockWithTx_def query_row_def oracle_leaf_def leaf_key_def)
  moreover have "UpdateGERWaitUntilMined sample_chain 5 = Some None"
    by (simp add: UpdateGERWaitUntilMined_def sample_chain_def wait_mined.simps)
  moreover have "lf_GlobalExitRoot (oracle_leaf 10 5) = 5" by (simp add: oracle_leaf_def)
  ultimately show ?thesis
    by (simp add: oracle_tick_def getLastFinalisedGER_def Let_def IsGERAlreadyInjected_def) (simp add: sample_chain_def)
qed

theorem oracle_injects_newest_ger_witness:
  "\<exists>leaf\<in>set (leaf_rows (lp_db sample_oracle_l1)). lf_GlobalExitRoot leaf = 5 \<and> lf_BlockNumber leaf \<le> 12 \<and> leaf_key (oracle_leaf 8 4) \<le> leaf_key leaf"
proof -
  have rows: "set (leaf_rows (lp_db sample_oracle_l1)) = {oracle_leaf 8 4, oracle_leaf 10 5}" by (simp add: sample_oracle_l1_def)
  have blk: "lf_BlockNumber (oracle_leaf 8 4) \<le> 12" "lf_BlockNumber (oracle_leaf 10 5) \<le> 12" by (simp_all add: oracle_leaf_def)
  then have all: "\<forall>l\<in>set (leaf_rows (lp_db sample_oracle_l1)). lf_BlockNumber l \<le> 12" by (simp add: rows)
  have "if (0 :: u64) = 0 then (Inr 12 :: error + u64) = Inr 12 else 12 = (0 :: u64)" by simp
  from oracle_injects_newest_ger [OF sample_oracle_tick this all] obtain leaf where
    leaf: "leaf \<in> set (leaf_rows (lp_db sample_oracle_l1))" "lf_GlobalExitRoot leaf = 5" "lf_BlockNumber leaf \<le> 12"
      "\<forall>l\<in>set (leaf_rows (lp_db sample_oracle_l1)). lf_BlockNumber l \<le> 12 \<longrightarrow> leaf_key l \<le> leaf_key leaf" by blast
  moreover have "leaf_key (oracle_leaf 8 4) \<le> leaf_key leaf" using leaf(4) blk(1) unfolding rows by blast
  ultimately show ?thesis by blast
qed

text \<open>As soon as the syncer has a leaf of a block after the one that is asked for, the root returned is the one of such a leaf.\<close>

lemma oracle_takes_unfinalised_ger:
  assumes "getLastFinalisedGER header io p n = (n', Inr ger)" and "late \<in> set (leaf_rows (lp_db p))" and "m < lf_BlockNumber late"
  shows "\<exists>leaf\<in>set (leaf_rows (lp_db p)). m < lf_BlockNumber leaf \<and> lf_GlobalExitRoot leaf = ger"
proof -
  from assms(1) obtain k leaf where l: "s_GetLatestInfoUntilBlock io p k = Inr leaf" "lf_GlobalExitRoot leaf = ger"
    by (auto simp: getLastFinalisedGER_def Let_def split: if_splits sum.splits)
  from l(1) have "first_desc leaf_key (leaf_rows (lp_db p)) = Some leaf"
    by (auto simp: s_GetLatestInfoUntilBlock_def unless_halted_def map_sum_Inr_conv GetLatestInfoUntilBlock_def split: if_splits sum.splits)
  from first_desc_Some [OF this] have m: "leaf \<in> set (leaf_rows (lp_db p))" "leaf_key late \<le> leaf_key leaf" using assms(2) by blast+
  then have "lf_BlockNumber late \<le> lf_BlockNumber leaf" by (auto simp: leaf_key_def)
  with assms(3) have "m < lf_BlockNumber leaf" by (rule order.strict_trans2)
  with m(1) l(2) show ?thesis by blast
qed

text \<open>An empty syncer answers with its own not-found error, so that the block number is kept and asked for again.\<close>

lemma oracle_keeps_block:
  assumes "leaf_rows (lp_db p) = []" and "\<not> lp_halted p" and "no_faults io" and "0 < n"
    and "l1_GetLastProcessedBlock io p = Inr lpb" and "n \<le> lpb"
  shows "oracle_tick header io p c n = (n, Skipped l1_ErrNotFound)"
  using assms
  by (auto simp: oracle_tick_def getLastFinalisedGER_def Let_def s_GetLatestInfoUntilBlock_def unless_halted_def no_faults_def
      GetLatestInfoUntilBlock_def l1_GetLastProcessedBlock_def query_row_def translateError_def l1_ErrNotFound_def)

end
