(* ===== verification/ClaimSponsor.thy ===== *)
theory ClaimSponsor
  imports EvmSync MerkleTree
begin

text \<open>
  The claim sponsor (\<open>src/claimsponsor\<close>): a queue of claims in SQLite and a loop that sends the first pending claim to the bridge
  contract of L2 and waits for its transaction. The table is the list of its rows in the order of \<open>rowid\<close>; it has no
  key. The bridge ABI, the transaction manager and the textual form of hashes are parameters.
\<close>

section \<open>Data\<close>

datatype ClaimStatus = PendingClaimStatus | WIPClaimStatus | SuccessClaimStatus | FailedClaimStatus

record cs_Claim =
  cs_LeafType :: u8
  cs_ProofLocalExitRoot :: Proof
  cs_ProofRollupExitRoot :: Proof
  cs_GlobalIndex :: int
  cs_MainnetExitRoot :: hash
  cs_RollupExitRoot :: hash
  cs_OriginNetwork :: u32
  cs_OriginTokenAddress :: address
  cs_DestinationNetwork :: u32
  cs_DestinationAddress :: address
  cs_Amount :: int
  cs_Metadata :: bytes
  cs_Status :: ClaimStatus
  cs_TxID :: string

definition ErrClaimDoesntExist :: error where
  "ErrClaimDoesntExist = ErrMsg ''the claim requested to be updated does not exist''"

text \<open>The \<open>n\<close>-th poll of a status gets the argument \<open>n\<close>.\<close>

record ClaimSender =
  sd_checkClaim :: "cs_Claim \<Rightarrow> error option"
  sd_sendClaim :: "cs_Claim \<Rightarrow> error + string"
  sd_claimStatus :: "string \<Rightarrow> nat \<Rightarrow> error + ClaimStatus"

section \<open>The queue\<close>

definition getWIPClaim :: "io \<Rightarrow> cs_Claim list \<Rightarrow> error + cs_Claim" where
  "getWIPClaim io rows = query_row io (SqlSelect ''claim'' [0]) (find (\<lambda>c. cs_Status c = WIPClaimStatus) rows)"

definition getFirstPendingClaim :: "io \<Rightarrow> cs_Claim list \<Rightarrow> error + cs_Claim" where
  "getFirstPendingClaim io rows = query_row io (SqlSelect ''claim'' [1]) (find (\<lambda>c. cs_Status c = PendingClaimStatus) rows)"

definition update_claims :: "int \<Rightarrow> (cs_Claim \<Rightarrow> cs_Claim) \<Rightarrow> cs_Claim list \<Rightarrow> cs_Claim list" where
  "update_claims globalIndex f rows = map (\<lambda>c. if cs_GlobalIndex c = globalIndex then f c else c) rows"

definition updateClaimTxID :: "io \<Rightarrow> int \<Rightarrow> string \<Rightarrow> cs_Claim list \<Rightarrow> cs_Claim list \<times> error option" where
  "updateClaimTxID io globalIndex txID rows =
     (if io (SqlUpdate ''claim'' [0]) then (rows, Some ErrSQL)
      else (update_claims globalIndex (\<lambda>c. c\<lparr>cs_TxID := txID\<rparr>) rows,
            if globalIndex \<in> cs_GlobalIndex ` set rows then None else Some ErrClaimDoesntExist))"

definition updateClaimStatus :: "io \<Rightarrow> int \<Rightarrow> ClaimStatus \<Rightarrow> cs_Claim list \<Rightarrow> cs_Claim list \<times> error option" where
  "updateClaimStatus io globalIndex status rows =
     (if io (SqlUpdate ''claim'' [1]) then (rows, Some ErrSQL)
      else (update_claims globalIndex (\<lambda>c. c\<lparr>cs_Status := status\<rparr>) rows,
            if globalIndex \<in> cs_GlobalIndex ` set rows then None else Some ErrClaimDoesntExist))"

definition AddClaimToQueue :: "io \<Rightarrow> cs_Claim \<Rightarrow> cs_Claim list \<Rightarrow> cs_Claim list \<times> error option" where
  "AddClaimToQueue io claim rows =
     (if io (SqlInsert ''claim'' []) then (rows, Some ErrSQL) else (rows @ [claim\<lparr>cs_Status := PendingClaimStatus\<rparr>], None))"

definition GetClaim :: "io \<Rightarrow> int \<Rightarrow> cs_Claim list \<Rightarrow> error + cs_Claim" where
  "GetClaim io globalIndex rows = query_row io (SqlSelect ''claim'' [2]) (find (\<lambda>c. cs_GlobalIndex c = globalIndex) rows)"

section \<open>The loop\<close>

text \<open>\<open>None\<close>: the loop never ends; the context can be cancelled before any poll.\<close>

partial_function (option) waitTxToBeSuccessOrFail ::
  "ClaimSender \<Rightarrow> (nat \<Rightarrow> bool) \<Rightarrow> string \<Rightarrow> nat \<Rightarrow> (error + ClaimStatus) option"
where
  "waitTxToBeSuccessOrFail s cancelled txID n =
     (if cancelled n then Some (Inl (ErrMsg ''context cancelled''))
      else case sd_claimStatus s txID n of
             Inl e \<Rightarrow> Some (Inl e)
           | Inr status \<Rightarrow>
               if status = FailedClaimStatus \<or> status = SuccessClaimStatus then Some (Inr status)
               else waitTxToBeSuccessOrFail s cancelled txID (n + 1))"

text \<open>The claim waited for is the row as it was read: its \<open>TxID\<close> is the one stored before this attempt.\<close>

definition wait_and_update ::
  "io \<Rightarrow> ClaimSender \<Rightarrow> (nat \<Rightarrow> bool) \<Rightarrow> cs_Claim \<Rightarrow> cs_Claim list \<Rightarrow> cs_Claim list \<times> error option option"
where
  "wait_and_update io s cancelled claim rows =
     (case waitTxToBeSuccessOrFail s cancelled (cs_TxID claim) 0 of
        None \<Rightarrow> (rows, None)
      | Some (Inl e) \<Rightarrow> (rows, Some (Some e))
      | Some (Inr status) \<Rightarrow>
          (case updateClaimStatus io (cs_GlobalIndex claim) status rows of (rows1, e) \<Rightarrow> (rows1, Some e)))"

definition claim :: "io \<Rightarrow> ClaimSender \<Rightarrow> (nat \<Rightarrow> bool) \<Rightarrow> cs_Claim list \<Rightarrow> cs_Claim list \<times> error option option" where
  "claim io s cancelled rows =
     (case getWIPClaim io rows of
        Inr c \<Rightarrow> wait_and_update io s cancelled c rows
      | Inl e \<Rightarrow>
          if e \<noteq> ErrNotFound then (rows, Some (Some e))
          else (case getFirstPendingClaim io rows of
                  Inl e' \<Rightarrow> (rows, Some (if e' = ErrNotFound then None else Some e'))
                | Inr c \<Rightarrow>
                    (case sd_sendClaim s c of
                       Inl e' \<Rightarrow> (rows, Some (Some e'))
                     | Inr txID \<Rightarrow>
                         (case updateClaimTxID io (cs_GlobalIndex c) txID rows of
                            (rows1, Some e') \<Rightarrow> (rows1, Some (Some e'))
                          | (rows1, None) \<Rightarrow> wait_and_update io s cancelled c rows1))))"

text \<open>\<open>Start\<close> over the rounds of the environment.\<close>

fun cs_Start ::
  "RetryHandler \<Rightarrow> (io \<times> ClaimSender \<times> (nat \<Rightarrow> bool)) list \<Rightarrow> cs_Claim list \<Rightarrow> int \<Rightarrow> cs_Claim list \<times> outcome"
where
  "cs_Start rh [] rows attempts = (rows, Pending)"
| "cs_Start rh ((io, s, cancelled) # env) rows attempts =
     (case claim io s cancelled rows of
        (rows1, None) \<Rightarrow> (rows1, Pending)
      | (rows1, Some None) \<Rightarrow> cs_Start rh env rows1 0
      | (rows1, Some (Some e)) \<Rightarrow>
          if RetryHandler_Handle rh (attempts + 1) then (rows1, FatalExit) else cs_Start rh env rows1 (attempts + 1))"

section \<open>The sender to an EVM chain\<close>

datatype cs_TxStatus = CsCreated | CsSent | CsFailed | CsMined | CsSafe | CsFinalized | CsOther string

record EVMClaimSponsor =
  ec_Pack :: "string \<Rightarrow> cs_Claim \<Rightarrow> error + bytes"
  ec_EstimateGas :: "bytes \<Rightarrow> error + u64"
  ec_maxGas :: u64
  ec_Add :: "bytes \<Rightarrow> error + hash"
  ec_Result :: "hash \<Rightarrow> nat \<Rightarrow> error + cs_TxStatus"
  ec_Hex :: "hash \<Rightarrow> string"
  ec_HexToHash :: "string \<Rightarrow> hash"

definition buildClaimTxData :: "EVMClaimSponsor \<Rightarrow> cs_Claim \<Rightarrow> error + bytes" where
  "buildClaimTxData c cl =
     (if cs_LeafType cl = 0 then ec_Pack c ''claimAsset'' cl
      else if cs_LeafType cl = 1 then ec_Pack c ''claimMessage'' cl
      else Inl (ErrMsg ''unexpected leaf type''))"

definition checkClaim :: "EVMClaimSponsor \<Rightarrow> cs_Claim \<Rightarrow> error option" where
  "checkClaim c cl =
     (case buildClaimTxData c cl of
        Inl e \<Rightarrow> Some e
      | Inr data \<Rightarrow>
          (case ec_EstimateGas c data of
             Inl e \<Rightarrow> Some e
           | Inr gas \<Rightarrow>
               if gas > ec_maxGas c
               then Some (ErrMsg ''Claim tx estimated to consume more gas than the maximum allowed by the service'')
               else None))"

definition sendClaim :: "EVMClaimSponsor \<Rightarrow> cs_Claim \<Rightarrow> error + string" where
  "sendClaim c cl =
     (case buildClaimTxData c cl of Inl e \<Rightarrow> Inl e | Inr data \<Rightarrow> map_sum id (ec_Hex c) (ec_Add c data))"

definition claimStatus :: "EVMClaimSponsor \<Rightarrow> string \<Rightarrow> nat \<Rightarrow> error + ClaimStatus" where
  "claimStatus c txID n =
     (case ec_Result c (ec_HexToHash c txID) n of
        Inl e \<Rightarrow> Inl e
      | Inr status \<Rightarrow>
          (case status of
             CsCreated \<Rightarrow> Inr WIPClaimStatus
           | CsSent \<Rightarrow> Inr WIPClaimStatus
           | CsFailed \<Rightarrow> Inr FailedClaimStatus
           | CsMined \<Rightarrow> Inr SuccessClaimStatus
           | CsSafe \<Rightarrow> Inr SuccessClaimStatus
           | CsFinalized \<Rightarrow> Inr SuccessClaimStatus
           | CsOther _ \<Rightarrow> Inl (ErrMsg ''unexpected tx status'')))"

definition NewEVMClaimSponsor :: "EVMClaimSponsor \<Rightarrow> ClaimSender" where
  "NewEVMClaimSponsor c = \<lparr>sd_checkClaim = checkClaim c, sd_sendClaim = sendClaim c, sd_claimStatus = claimStatus c\<rparr>"

text \<open>The queue between the loop and the callers of \<open>AddClaimToQueue\<close>, who add a claim once.\<close>

inductive cs_step :: "cs_Claim list \<Rightarrow> cs_Claim list \<Rightarrow> bool" where
  Round: "claim io s cancelled rows = (rows', r) \<Longrightarrow> cs_step rows rows'"
| Enqueue: "AddClaimToQueue io c rows = (rows', r) \<Longrightarrow> cs_GlobalIndex c \<notin> cs_GlobalIndex ` set rows \<Longrightarrow> cs_step rows rows'"

abbreviation cs_reach :: "cs_Claim list \<Rightarrow> cs_Claim list \<Rightarrow> bool" where
  "cs_reach \<equiv> cs_step\<^sup>*\<^sup>*"

definition concluded :: "cs_Claim \<Rightarrow> bool" where
  "concluded c \<longleftrightarrow> cs_Status c = SuccessClaimStatus \<or> cs_Status c = FailedClaimStatus"

section \<open>Lemmas\<close>

lemma indices_update_claims [simp]:
  "(\<And>c. cs_GlobalIndex (f c) = cs_GlobalIndex c) \<Longrightarrow> map cs_GlobalIndex (update_claims g f rows) = map cs_GlobalIndex rows"
  by (simp add: update_claims_def)

lemma update_claims_other: "c \<in> set rows \<Longrightarrow> cs_GlobalIndex c \<noteq> g \<Longrightarrow> c \<in> set (update_claims g f rows)"
  by (force simp: update_claims_def)

text \<open>What a round does to the rows: they keep their order, and only rows with the index of the chosen claim change.\<close>

definition changes_only :: "int \<Rightarrow> cs_Claim list \<Rightarrow> cs_Claim list \<Rightarrow> bool" where
  "changes_only g rows rows' \<longleftrightarrow> map cs_GlobalIndex rows' = map cs_GlobalIndex rows \<and>
     (\<forall>c\<in>set rows. cs_GlobalIndex c \<noteq> g \<longrightarrow> c \<in> set rows')"

lemma changes_only_refl [simp]: "changes_only g rows rows"
  by (simp add: changes_only_def)

lemma changes_only_trans: "changes_only g r1 r2 \<Longrightarrow> changes_only g r2 r3 \<Longrightarrow> changes_only g r1 r3"
  by (auto simp: changes_only_def)

lemma changes_only_TxID: "updateClaimTxID io g i rows = (rows', e) \<Longrightarrow> changes_only g rows rows'"
  by (auto simp: updateClaimTxID_def changes_only_def update_claims_other split: if_splits)

lemma changes_only_wait:
  assumes "wait_and_update io s cancelled c rows = (rows', r)"
  shows "changes_only (cs_GlobalIndex c) rows rows'"
proof -
  have "changes_only (cs_GlobalIndex c) rows (fst (updateClaimStatus io (cs_GlobalIndex c) st rows))" for st
    by (auto simp: updateClaimStatus_def changes_only_def update_claims_other)
  with assms show ?thesis
    by (auto simp: wait_and_update_def split: option.splits sum.splits prod.splits) (metis fst_conv)
qed

lemma claim_cases:
  assumes "claim io s cancelled rows = (rows', r)"
  obtains (same) "rows' = rows"
    | (chosen) c where "c \<in> set rows" and "\<not> concluded c" and "changes_only (cs_GlobalIndex c) rows rows'"
proof (cases "getWIPClaim io rows")
  case (Inr c)
  then have "c \<in> set rows" "\<not> concluded c" by (auto simp: getWIPClaim_def concluded_def find_Some_iff)
  moreover have "changes_only (cs_GlobalIndex c) rows rows'" using assms Inr by (auto simp: claim_def intro: changes_only_wait)
  ultimately show ?thesis by (rule chosen)
next
  case (Inl e)
  show ?thesis
  proof (cases "e = ErrNotFound \<and> (\<exists>c. getFirstPendingClaim io rows = Inr c \<and> (\<exists>i. sd_sendClaim s c = Inr i))")
    case False
    with Inl assms show ?thesis by (intro same) (auto simp: claim_def split: if_splits sum.splits)
  next
    case True
    then obtain c i where c: "getFirstPendingClaim io rows = Inr c" "sd_sendClaim s c = Inr i" by blast
    then have in_rows: "c \<in> set rows" "\<not> concluded c" by (auto simp: getFirstPendingClaim_def concluded_def find_Some_iff)
    obtain rows1 e1 where u: "updateClaimTxID io (cs_GlobalIndex c) i rows = (rows1, e1)" by (metis surj_pair)
    note k = changes_only_TxID [OF u]
    have "changes_only (cs_GlobalIndex c) rows rows'"
    proof (cases e1)
      case None
      then have "wait_and_update io s cancelled c rows1 = (rows', r)" using assms Inl True c u by (simp add: claim_def)
      from changes_only_trans [OF k changes_only_wait [OF this]] show ?thesis .
    next
      case (Some e2)
      then have "rows' = rows1" using assms Inl True c u by (simp add: claim_def)
      with k show ?thesis by simp
    qed
    with in_rows show ?thesis by (rule chosen)
  qed
qed

lemma cs_step_concluded:
  assumes "cs_step rows rows'" and "distinct (map cs_GlobalIndex rows)"
  shows "distinct (map cs_GlobalIndex rows') \<and> (\<exists>xs. map cs_GlobalIndex rows' = map cs_GlobalIndex rows @ xs) \<and>
    (\<forall>c\<in>set rows. concluded c \<longrightarrow> c \<in> set rows')"
  using assms(1)
proof cases
  case (Round io s cancelled r)
  then show ?thesis
  proof (cases rule: claim_cases)
    case same
    with assms(2) show ?thesis by auto
  next
    case (chosen c)
    have "cs_GlobalIndex d \<noteq> cs_GlobalIndex c" if "d \<in> set rows" "concluded d" for d
      using that chosen(1,2) assms(2) by (metis distinct_map inj_onD)
    with chosen(3) assms(2) show ?thesis by (auto simp: changes_only_def)
  qed
next
  case (Enqueue io c r)
  with assms(2) show ?thesis by (auto simp: AddClaimToQueue_def split: if_splits)
qed

lemma cs_reach_concluded:
  "cs_reach rows rows' \<Longrightarrow> distinct (map cs_GlobalIndex rows) \<Longrightarrow>
   distinct (map cs_GlobalIndex rows') \<and> (\<exists>xs. map cs_GlobalIndex rows' = map cs_GlobalIndex rows @ xs) \<and>
    (\<forall>c\<in>set rows. concluded c \<longrightarrow> c \<in> set rows')"
proof (induction rule: rtranclp_induct)
  case (step r1 r2)
  from cs_step_concluded [OF step(2)] step(3,4) show ?case by fastforce
qed simp

section \<open>Properties\<close>

text \<open>Concluded claims are final and the queue is first in, first out: whatever rounds and additions of new claims follow, a claim
  that succeeded or failed stays as it is, and the claims keep their places, new ones coming behind.\<close>

theorem concluded_claims_final:
  assumes "cs_reach rows rows'" and "distinct (map cs_GlobalIndex rows)"
  shows "(\<forall>c\<in>set rows. concluded c \<longrightarrow> c \<in> set rows') \<and> (\<exists>xs. map cs_GlobalIndex rows' = map cs_GlobalIndex rows @ xs)"
  using cs_reach_concluded [OF assms] by blast

definition sample_claim :: "int \<Rightarrow> ClaimStatus \<Rightarrow> cs_Claim" where
  "sample_claim g st = \<lparr>cs_LeafType = 0, cs_ProofLocalExitRoot = [], cs_ProofRollupExitRoot = [], cs_GlobalIndex = g,
     cs_MainnetExitRoot = 0, cs_RollupExitRoot = 0, cs_OriginNetwork = 0, cs_OriginTokenAddress = 0, cs_DestinationNetwork = 1,
     cs_DestinationAddress = 2, cs_Amount = 100, cs_Metadata = [], cs_Status = st, cs_TxID = []\<rparr>"

theorem concluded_claims_final_witness:
  "\<exists>rows'. cs_reach [sample_claim 1 SuccessClaimStatus] rows' \<and> sample_claim 1 SuccessClaimStatus \<in> set rows' \<and> length rows' = 2"
proof -
  have "cs_step [sample_claim 1 SuccessClaimStatus] [sample_claim 1 SuccessClaimStatus, sample_claim 2 PendingClaimStatus]"
    by (rule cs_step.Enqueue [of "\<lambda>_. False" "sample_claim 2 SuccessClaimStatus"]) (simp_all add: AddClaimToQueue_def sample_claim_def)
  then have r: "cs_reach [sample_claim 1 SuccessClaimStatus] [sample_claim 1 SuccessClaimStatus, sample_claim 2 PendingClaimStatus]"
    by (rule r_into_rtranclp)
  from concluded_claims_final [OF r] have "sample_claim 1 SuccessClaimStatus \<in>
      set [sample_claim 1 SuccessClaimStatus, sample_claim 2 PendingClaimStatus]" by (simp add: concluded_def sample_claim_def)
  moreover have "length [sample_claim 1 SuccessClaimStatus, sample_claim 2 PendingClaimStatus] = 2" by simp
  ultimately show ?thesis using r by blast
qed

text \<open>A new claim is sent twice: the round that sends it waits for the empty identifier it read from the table, which the
  transaction manager does not know, and fails; the next round sends the claim a second time and then concludes it
  with the status of the first transaction.\<close>

theorem new_claim_sent_twice:
  assumes "no_faults io" and "find (\<lambda>c. cs_Status c = WIPClaimStatus) rows = None"
    and "find (\<lambda>c. cs_Status c = PendingClaimStatus) rows = Some c" and "cs_TxID c = []"
    and "sendClaim e1 c = Inr id1" and "ec_Result e1 (ec_HexToHash e1 []) 0 = Inl ErrNotFound"
    and "sendClaim e2 (c\<lparr>cs_TxID := id1\<rparr>) = Inr id2" and "claimStatus e2 id1 0 = Inr st"
    and "st = SuccessClaimStatus \<or> st = FailedClaimStatus" and "\<not> RetryHandler_Handle rh 1"
  shows "cs_Start rh [(io, NewEVMClaimSponsor e1, \<lambda>_. False), (io, NewEVMClaimSponsor e2, \<lambda>_. False)] rows 0 =
    (update_claims (cs_GlobalIndex c) (\<lambda>d. d\<lparr>cs_TxID := id2, cs_Status := st\<rparr>) rows, Pending)"
proof -
  let ?r1 = "update_claims (cs_GlobalIndex c) (\<lambda>d. d\<lparr>cs_TxID := id1\<rparr>) rows"
  let ?c1 = "c\<lparr>cs_TxID := id1\<rparr>"
  have in_rows: "c \<in> set rows" using assms(3) by (auto simp: find_Some_iff)
  have "claimStatus e1 [] 0 = Inl ErrNotFound" using assms(6) by (simp add: claimStatus_def)
  then have first: "claim io (NewEVMClaimSponsor e1) (\<lambda>_. False) rows = (?r1, Some (Some ErrNotFound))"
    using assms(1-5) in_rows
    by (simp add: claim_def getWIPClaim_def getFirstPendingClaim_def query_row_def no_faults_def NewEVMClaimSponsor_def
        updateClaimTxID_def wait_and_update_def waitTxToBeSuccessOrFail.simps)
  have find_map: "find P (map f xs) = map_option f (find P xs)" if "\<And>x. P (f x) = P x" for P and f :: "cs_Claim \<Rightarrow> cs_Claim" and xs
    using that by (induction xs) auto
  have "find (\<lambda>c. cs_Status c = st) ?r1 = map_option (\<lambda>d. if cs_GlobalIndex d = cs_GlobalIndex c then d\<lparr>cs_TxID := id1\<rparr> else d)
      (find (\<lambda>c. cs_Status c = st) rows)" for st
    unfolding update_claims_def by (rule find_map) simp
  then have next_claim: "find (\<lambda>c. cs_Status c = WIPClaimStatus) ?r1 = None" "find (\<lambda>c. cs_Status c = PendingClaimStatus) ?r1 = Some ?c1"
    using assms(2,3) by simp_all
  have idx: "cs_GlobalIndex c \<in> cs_GlobalIndex ` set (update_claims g f rows)" if "\<And>c. cs_GlobalIndex (f c) = cs_GlobalIndex c" for g f
    using in_rows indices_update_claims [OF that] by (metis imageI list.set_map)
  have up: "update_claims g f2 (update_claims g f1 rows) = update_claims g (f2 \<circ> f1) rows"
    if "\<And>c. cs_GlobalIndex (f1 c) = cs_GlobalIndex c" for g f1 f2
    using that by (simp add: update_claims_def)
  have wait: "waitTxToBeSuccessOrFail (NewEVMClaimSponsor e2) (\<lambda>_. False) id1 0 = Some (Inr st)"
    using assms(8,9) by (subst waitTxToBeSuccessOrFail.simps) (auto simp: NewEVMClaimSponsor_def)
  have sd: "sd_sendClaim (NewEVMClaimSponsor e2) ?c1 = Inr id2" using assms(7) by (simp add: NewEVMClaimSponsor_def)
  have tx: "updateClaimTxID io (cs_GlobalIndex c) id2 ?r1 = (update_claims (cs_GlobalIndex c) (\<lambda>d. d\<lparr>cs_TxID := id2\<rparr>) rows, None)"
    using assms(1) idx by (simp add: updateClaimTxID_def no_faults_def up comp_def)
  have "updateClaimStatus io (cs_GlobalIndex c) st (update_claims (cs_GlobalIndex c) (\<lambda>d. d\<lparr>cs_TxID := id2\<rparr>) rows) =
      (update_claims (cs_GlobalIndex c) (\<lambda>d. d\<lparr>cs_TxID := id2, cs_Status := st\<rparr>) rows, None)"
    using assms(1) idx by (simp add: updateClaimStatus_def no_faults_def up comp_def)
  then have "claim io (NewEVMClaimSponsor e2) (\<lambda>_. False) ?r1 =
      (update_claims (cs_GlobalIndex c) (\<lambda>d. d\<lparr>cs_TxID := id2, cs_Status := st\<rparr>) rows, Some None)"
    using assms(1) next_claim wait sd tx
    by (simp add: claim_def getWIPClaim_def getFirstPendingClaim_def query_row_def no_faults_def wait_and_update_def)
  with first assms(10) show ?thesis by simp
qed

definition sample_evm :: EVMClaimSponsor where
  "sample_evm = \<lparr>ec_Pack = (\<lambda>_ _. Inr [1]), ec_EstimateGas = (\<lambda>_. Inr 10), ec_maxGas = 5, ec_Add = (\<lambda>_. Inr 7),
     ec_Result = (\<lambda>h _. if h = 7 then Inr CsMined else Inl ErrNotFound), ec_Hex = (\<lambda>h. if h = 0 then [] else ''id''),
     ec_HexToHash = (\<lambda>s. if s = [] then 0 else 7)\<rparr>"

theorem new_claim_sent_twice_witness:
  "cs_Start \<lparr>MaxRetryAttemptsAfterError = 3\<rparr> [(\<lambda>_. False, NewEVMClaimSponsor sample_evm, \<lambda>_. False),
       (\<lambda>_. False, NewEVMClaimSponsor sample_evm, \<lambda>_. False)] [sample_claim 1 PendingClaimStatus] 0 =
     ([(sample_claim 1 SuccessClaimStatus)\<lparr>cs_TxID := ''id''\<rparr>], Pending)"
  by (subst new_claim_sent_twice [of _ _ "sample_claim 1 PendingClaimStatus" sample_evm "''id''" sample_evm "''id''" SuccessClaimStatus])
    (simp_all add: sample_claim_def sample_evm_def sendClaim_def buildClaimTxData_def claimStatus_def RetryHandler_Handle_def
      update_claims_def)

text \<open>The gas limit is checked by \<open>checkClaim\<close> alone, which no round calls: a claim above the limit is sent.\<close>

lemma gas_limit_unused:
  "checkClaim sample_evm (sample_claim 1 PendingClaimStatus) \<noteq> None \<and>
   sendClaim sample_evm (sample_claim 1 PendingClaimStatus) = Inr ''id''"
  by (simp add: checkClaim_def sendClaim_def buildClaimTxData_def sample_evm_def sample_claim_def)

end
