(* ===== verification/Meddler.thy ===== *)
theory Meddler
  imports Hex MerkleTree
begin

text \<open>
  The column codecs of the databases (\<open>src/db/meddler.go\<close>): big integers, hashes, addresses and Merkle proofs are stored as text.
  An interface value is one of the dynamic types the codecs test for. The textual form of hashes and addresses is that
  of the Ethereum library, a parameter.
\<close>

section \<open>Values\<close>

text \<open>\<open>StringPtr None\<close>: the nil pointer.\<close>

datatype iface =
    StringPtr "string option"
  | BigIntPtr int
  | BigIntPtrPtr
  | ProofVal Proof
  | ProofPtr
  | HashVal hash
  | HashPtr
  | AddressVal address
  | AddressPtr
  | OtherVal

record hex_lib =
  Hash_Hex :: "hash \<Rightarrow> string"
  HexToHash :: "string \<Rightarrow> hash"
  Address_Hex :: "address \<Rightarrow> string"
  HexToAddress :: "string \<Rightarrow> address"

definition hex_law :: "hex_lib \<Rightarrow> bool" where
  "hex_law L \<longleftrightarrow> (\<forall>h. HexToHash L (Hash_Hex L h) = h \<and> CHR '','' \<notin> set (Hash_Hex L h)) \<and>
     (\<forall>a. HexToAddress L (Address_Hex L a) = a)"

section \<open>Decimal text of the standard library\<close>

function nat_dec :: "nat \<Rightarrow> string" where
  "nat_dec n = (if n < 10 then [hex_char n] else nat_dec (n div 10) @ [hex_char (n mod 10)])"
  by pat_completeness auto
termination by (relation "measure id") auto

declare nat_dec.simps [simp del]

definition dec_val :: "char \<Rightarrow> nat option" where
  "dec_val c = (case hex_val c of None \<Rightarrow> None | Some d \<Rightarrow> if d < 10 then Some d else None)"

fun dec_value :: "nat \<Rightarrow> string \<Rightarrow> nat option" where
  "dec_value acc [] = Some acc"
| "dec_value acc (c # cs) = (case dec_val c of None \<Rightarrow> None | Some d \<Rightarrow> dec_value (10 * acc + d) cs)"

definition unsigned_dec :: "string \<Rightarrow> int option" where
  "unsigned_dec s = (if s = [] then None else map_option int (dec_value 0 s))"

definition big_String :: "int \<Rightarrow> string" where
  "big_String n = (if n < 0 then ''-'' else []) @ nat_dec (nat \<bar>n\<bar>)"

definition big_SetString10 :: "string \<Rightarrow> int option" where
  "big_SetString10 s =
     (case s of
        [] \<Rightarrow> None
      | c # cs \<Rightarrow> if c = CHR ''-'' then map_option uminus (unsigned_dec cs)
                  else if c = CHR ''+'' then unsigned_dec cs else unsigned_dec s)"

text \<open>\<open>strings.Split(s, ",")\<close> and \<open>strings.TrimSuffix(s, ",")\<close>.\<close>

fun split_comma :: "string \<Rightarrow> string list" where
  "split_comma [] = [[]]"
| "split_comma (c # cs) = (if c = CHR '','' then [] # split_comma cs
     else (case split_comma cs of s # ss \<Rightarrow> (c # s) # ss | [] \<Rightarrow> [[c]]))"

definition trim_comma :: "string \<Rightarrow> string" where
  "trim_comma s = (if s \<noteq> [] \<and> last s = CHR '','' then butlast s else s)"

section \<open>The codecs\<close>

text \<open>\<open>PreRead\<close> of every codec gives a pointer to an empty string.\<close>

definition PreRead :: "iface \<Rightarrow> error + iface" where
  "PreRead fieldAddr = Inr (StringPtr (Some []))"

definition scan_text :: "string \<Rightarrow> iface \<Rightarrow> error + string" where
  "scan_text nil_msg scanTarget =
     (case scanTarget of
        StringPtr (Some s) \<Rightarrow> Inr s
      | StringPtr None \<Rightarrow> Inl (ErrMsg nil_msg)
      | _ \<Rightarrow> Inl (ErrMsg ''scanTarget is not *string''))"

definition BigIntMeddler_PostRead :: "iface \<Rightarrow> iface \<Rightarrow> error + int" where
  "BigIntMeddler_PostRead fieldPtr scanTarget =
     (case scan_text ''BigIntMeddler.PostRead: nil pointer'' scanTarget of
        Inl e \<Rightarrow> Inl e
      | Inr s \<Rightarrow>
          if fieldPtr \<noteq> BigIntPtrPtr then Inl (ErrMsg ''fieldPtr is not *big.Int'')
          else (case big_SetString10 s of None \<Rightarrow> Inl (ErrMsg ''big.Int.SetString failed'') | Some n \<Rightarrow> Inr n))"

definition BigIntMeddler_PreWrite :: "iface \<Rightarrow> error + string" where
  "BigIntMeddler_PreWrite fieldPtr =
     (case fieldPtr of BigIntPtr n \<Rightarrow> Inr (big_String n) | _ \<Rightarrow> Inl (ErrMsg ''fieldPtr is not *big.Int''))"

definition MerkleProofMeddler_PostRead :: "hex_lib \<Rightarrow> iface \<Rightarrow> iface \<Rightarrow> error + Proof" where
  "MerkleProofMeddler_PostRead L fieldPtr scanTarget =
     (case scan_text ''ProofMeddler.PostRead: nil pointer'' scanTarget of
        Inl e \<Rightarrow> Inl e
      | Inr s \<Rightarrow>
          if fieldPtr \<noteq> ProofPtr then Inl (ErrMsg ''fieldPtr is not tree.Proof'')
          else let strHashes = split_comma s in
               if length strHashes \<noteq> DefaultHeight then Inl (ErrMsg ''unexpected len of hashes'')
               else Inr (map (HexToHash L) strHashes))"

definition MerkleProofMeddler_PreWrite :: "hex_lib \<Rightarrow> iface \<Rightarrow> error + string" where
  "MerkleProofMeddler_PreWrite L fieldPtr =
     (case fieldPtr of
        ProofVal p \<Rightarrow> Inr (trim_comma (foldl (\<lambda>s f. s @ Hash_Hex L f @ '','') [] p))
      | _ \<Rightarrow> Inl (ErrMsg ''fieldPtr is not tree.Proof''))"

definition HashMeddler_PostRead :: "hex_lib \<Rightarrow> iface \<Rightarrow> iface \<Rightarrow> error + hash" where
  "HashMeddler_PostRead L fieldPtr scanTarget =
     (case scan_text ''HashMeddler.PostRead: nil pointer'' scanTarget of
        Inl e \<Rightarrow> Inl e
      | Inr s \<Rightarrow> if fieldPtr \<noteq> HashPtr then Inl (ErrMsg ''fieldPtr is not common.Hash'') else Inr (HexToHash L s))"

definition HashMeddler_PreWrite :: "hex_lib \<Rightarrow> iface \<Rightarrow> error + string" where
  "HashMeddler_PreWrite L fieldPtr =
     (case fieldPtr of HashVal h \<Rightarrow> Inr (Hash_Hex L h) | _ \<Rightarrow> Inl (ErrMsg ''fieldPtr is not common.Hash''))"

definition AddressMeddler_PostRead :: "hex_lib \<Rightarrow> iface \<Rightarrow> iface \<Rightarrow> error + address" where
  "AddressMeddler_PostRead L fieldPtr scanTarget =
     (case scan_text ''AddressMeddler.PostRead: nil pointer'' scanTarget of
        Inl e \<Rightarrow> Inl e
      | Inr s \<Rightarrow> if fieldPtr \<noteq> AddressPtr then Inl (ErrMsg ''fieldPtr is not common.Address'') else Inr (HexToAddress L s))"

definition AddressMeddler_PreWrite :: "hex_lib \<Rightarrow> iface \<Rightarrow> error + string" where
  "AddressMeddler_PreWrite L fieldPtr =
     (case fieldPtr of AddressVal a \<Rightarrow> Inr (Address_Hex L a) | _ \<Rightarrow> Inl (ErrMsg ''fieldPtr is not common.Address''))"

section \<open>Round trips\<close>

text \<open>What a codec writes, it reads back.\<close>

locale column_codec =
  fixes enc :: "'a \<Rightarrow> error + string" and dec :: "iface \<Rightarrow> error + 'a" and ok :: "'a \<Rightarrow> bool"
  assumes writes: "ok x \<Longrightarrow> \<exists>s. enc x = Inr s"
    and reads: "ok x \<Longrightarrow> enc x = Inr s \<Longrightarrow> dec (StringPtr (Some s)) = Inr x"
begin

lemma enc_injective: "ok x \<Longrightarrow> ok y \<Longrightarrow> enc x = enc y \<Longrightarrow> x = y"
  using writes [of x] reads [of x] reads [of y] by auto

lemma equal_text: "ok x \<Longrightarrow> ok y \<Longrightarrow> enc x = Inr s \<Longrightarrow> enc y = Inr s' \<Longrightarrow> s = s' \<longleftrightarrow> x = y"
  using enc_injective [of x y] by auto

end

lemma dec_val_char [simp]: "d < 10 \<Longrightarrow> dec_val (hex_char d) = Some d"
  by (simp add: dec_val_def)

lemma dec_value_append:
  "dec_value acc (xs @ ys) = (case dec_value acc xs of None \<Rightarrow> None | Some n \<Rightarrow> dec_value n ys)"
  by (induction xs arbitrary: acc) (auto split: option.splits)

lemma dec_value_nat_dec: "dec_value 0 (nat_dec n) = Some n"
proof (induction n rule: nat_dec.induct)
  case (1 n)
  show ?case
  proof (cases "n < 10")
    case True
    then show ?thesis by (simp add: nat_dec.simps [of n])
  next
    case False
    with 1 show ?thesis by (subst nat_dec.simps) (simp add: dec_value_append)
  qed
qed

lemma nat_dec_Cons: "\<exists>d cs. nat_dec n = hex_char d # cs \<and> d < 10"
proof (induction n rule: nat_dec.induct)
  case (1 n)
  show ?case
  proof (cases "n < 10")
    case True
    then show ?thesis by (subst nat_dec.simps) auto
  next
    case False
    with 1 obtain d cs where "nat_dec (n div 10) = hex_char d # cs" "d < 10" by blast
    with False show ?thesis by (subst nat_dec.simps) auto
  qed
qed

lemma unsigned_dec_nat_dec: "unsigned_dec (nat_dec n) = Some (int n)"
  using nat_dec_Cons [of n] by (auto simp: unsigned_dec_def dec_value_nat_dec)

lemma big_SetString10_nat: "big_SetString10 (nat_dec n) = Some (int n)"
proof -
  obtain d cs where d: "nat_dec n = hex_char d # cs" "d < 10" using nat_dec_Cons by blast
  then have "hex_char d \<noteq> CHR ''-''" "hex_char d \<noteq> CHR ''+''" using hex_char_sign [of d] by simp_all
  then have "big_SetString10 (nat_dec n) = unsigned_dec (nat_dec n)" by (simp add: big_SetString10_def d(1))
  then show ?thesis by (simp only: unsigned_dec_nat_dec)
qed

lemma big_SetString10_String [simp]: "big_SetString10 (big_String n) = Some n"
proof (cases "n < 0")
  case True
  then show ?thesis by (simp add: big_SetString10_def big_String_def unsigned_dec_nat_dec)
next
  case False
  then show ?thesis by (simp add: big_String_def big_SetString10_nat)
qed

lemma split_comma_plain: "CHR '','' \<notin> set s \<Longrightarrow> split_comma s = [s]"
  by (induction s) auto

lemma split_comma_append: "CHR '','' \<notin> set s \<Longrightarrow> split_comma (s @ CHR '','' # t) = s # split_comma t"
  by (induction s) auto

definition joined :: "string list \<Rightarrow> string" where
  "joined ss = concat (map (\<lambda>s. s @ '','') ss)"

lemma split_joined:
  "ss \<noteq> [] \<Longrightarrow> \<forall>s\<in>set ss. CHR '','' \<notin> set s \<Longrightarrow> split_comma (trim_comma (joined ss)) = ss"
proof -
  have "split_comma (joined ss @ s) = ss @ [s]" if "\<forall>s\<in>set ss. CHR '','' \<notin> set s" "CHR '','' \<notin> set s" for ss s
    using that by (induction ss) (simp_all add: joined_def split_comma_plain split_comma_append)
  note j = this
  assume "ss \<noteq> []" and ok: "\<forall>s\<in>set ss. CHR '','' \<notin> set s"
  then obtain xs x where ss: "ss = xs @ [x]" by (metis append_butlast_last_id)
  then have "trim_comma (joined ss) = joined xs @ x" by (simp add: trim_comma_def joined_def butlast_append)
  with j [of xs x] ok ss show ?thesis by simp
qed

lemma foldl_joined: "foldl (\<lambda>s f. s @ Hash_Hex L f @ '','') acc p = acc @ joined (map (Hash_Hex L) p)"
  by (induction p arbitrary: acc) (simp_all add: joined_def)

interpretation bigint_column: column_codec "BigIntMeddler_PreWrite \<circ> BigIntPtr" "BigIntMeddler_PostRead BigIntPtrPtr" "\<lambda>_. True"
  by unfold_locales (auto simp: BigIntMeddler_PreWrite_def BigIntMeddler_PostRead_def scan_text_def)

text \<open>A library that satisfies the law: the hexadecimal encoding of this repository.\<close>

definition plain_hex :: hex_lib where
  "plain_hex = \<lparr>Hash_Hex = (\<lambda>h. EncodeToHex (hash_bytes h)),
     HexToHash = (\<lambda>s. case DecodeHex s of Inl _ \<Rightarrow> 0 | Inr bs \<Rightarrow> of_nat (be_value bs)),
     Address_Hex = (\<lambda>a. EncodeToHex (addr_bytes a)),
     HexToAddress = (\<lambda>s. case DecodeHex s of Inl _ \<Rightarrow> 0 | Inr bs \<Rightarrow> of_nat (be_value bs))\<rparr>"

lemma plain_hex_law: "hex_law plain_hex"
proof -
  have "CHR '','' \<notin> set (byte_hex b)" for b
    using byte_hex_digits [of b] hex_val_char
    by (auto simp: byte_hex_def dest!: arg_cong [where f = hex_val]) (simp_all add: hex_val_def code_def)
  then have c: "CHR '','' \<notin> set (EncodeToHex bs)" for bs by (auto simp: EncodeToHex_def EncodeToString_def)
  have "unat h < 256 ^ 32" for h :: hash using unat_less [of h] by simp
  then have h: "of_nat (be_value (hash_bytes h)) = h" for h by (simp only: be_value_be_bytes mod_less) simp
  have "unat a < 256 ^ 20" for a :: address using unat_less [of a] by simp
  then have a: "of_nat (be_value (addr_bytes a)) = a" for a by (simp only: be_value_be_bytes mod_less) simp
  show ?thesis using c h a by (simp add: hex_law_def plain_hex_def hex_roundtrips)
qed

section \<open>Properties\<close>

text \<open>Columns read back what was written: for a hash library whose text form is invertible and has no comma, every
  codec returns the integer, hash, address or proof of 32 hashes it stored.\<close>

theorem column_codecs_roundtrip:
  assumes "hex_law L" and "length p = DefaultHeight"
  shows "(\<exists>s. BigIntMeddler_PreWrite (BigIntPtr n) = Inr s \<and> BigIntMeddler_PostRead BigIntPtrPtr (StringPtr (Some s)) = Inr n) \<and>
    (\<exists>s. HashMeddler_PreWrite L (HashVal h) = Inr s \<and> HashMeddler_PostRead L HashPtr (StringPtr (Some s)) = Inr h) \<and>
    (\<exists>s. AddressMeddler_PreWrite L (AddressVal a) = Inr s \<and> AddressMeddler_PostRead L AddressPtr (StringPtr (Some s)) = Inr a) \<and>
    (\<exists>s. MerkleProofMeddler_PreWrite L (ProofVal p) = Inr s \<and> MerkleProofMeddler_PostRead L ProofPtr (StringPtr (Some s)) = Inr p)"
proof (intro conjI)
  show "\<exists>s. BigIntMeddler_PreWrite (BigIntPtr n) = Inr s \<and> BigIntMeddler_PostRead BigIntPtrPtr (StringPtr (Some s)) = Inr n"
    using bigint_column.writes [of n] bigint_column.reads [of n] by auto
  show "\<exists>s. HashMeddler_PreWrite L (HashVal h) = Inr s \<and> HashMeddler_PostRead L HashPtr (StringPtr (Some s)) = Inr h"
    using assms(1) by (simp add: HashMeddler_PreWrite_def HashMeddler_PostRead_def scan_text_def hex_law_def)
  show "\<exists>s. AddressMeddler_PreWrite L (AddressVal a) = Inr s \<and> AddressMeddler_PostRead L AddressPtr (StringPtr (Some s)) = Inr a"
    using assms(1) by (simp add: AddressMeddler_PreWrite_def AddressMeddler_PostRead_def scan_text_def hex_law_def)
  have "split_comma (trim_comma (joined (map (Hash_Hex L) p))) = map (Hash_Hex L) p"
    using assms by (intro split_joined) (auto simp: hex_law_def DefaultHeight_def)
  then show "\<exists>s. MerkleProofMeddler_PreWrite L (ProofVal p) = Inr s \<and> MerkleProofMeddler_PostRead L ProofPtr (StringPtr (Some s)) = Inr p"
    using assms
    by (simp add: MerkleProofMeddler_PreWrite_def MerkleProofMeddler_PostRead_def scan_text_def foldl_joined hex_law_def comp_def)
qed

theorem column_codecs_roundtrip_witness:
  "\<exists>s. MerkleProofMeddler_PreWrite plain_hex (ProofVal (replicate 32 7)) = Inr s \<and>
     MerkleProofMeddler_PostRead plain_hex ProofPtr (StringPtr (Some s)) = Inr (replicate 32 7)"
  using column_codecs_roundtrip [OF plain_hex_law, of "replicate 32 7"] by (simp add: DefaultHeight_def)

end
