(* ===== verification/Prover.thy ===== *)
theory Prover
  imports Meddler SequenceSender "HOL-Library.Sublist"
begin

text \<open>
  The client of a prover (\<open>src/aggregator/prover/prover.go\<close>): requests and answers over a stream, polling until a proof is
  ready, and the two hashes read from the public inputs inside a recursive proof.

  The message types are those of the generated protobuf file. The stream is a parameter: \<open>sm_Recv s n req\<close> is what
  is received after the \<open>n\<close>-th message \<open>req\<close> was sent. The JSON decoder and \<open>common.HexToHash\<close> are parameters too.
  A loop that never ends is \<open>None\<close>; a crash of the process (\<open>logger.Fatal\<close>, index out of range) is \<open>Panicked\<close>.
\<close>

section \<open>Messages\<close>

record L1Data =
  ld_GlobalExitRoot :: bytes
  ld_BlockhashL1 :: bytes
  ld_MinTimestamp :: u32
  ld_SmtProof :: "bytes list"

record StatelessInputProver =
  ip_Witness :: bytes
  ip_OldAccInputHash :: bytes
  ip_OldBatchNum :: u64
  ip_ChainId :: u64
  ip_ForkId :: u64
  ip_BatchL2Data :: bytes
  ip_L1InfoRoot :: bytes
  ip_TimestampLimit :: u64
  ip_SequencerAddr :: string
  ip_AggregatorAddr :: string
  ip_L1InfoTreeData :: "(u32 \<times> L1Data) list"
  ip_ForcedBlockhashL1 :: bytes

datatype AggregatorMessage =
    GetStatusRequest
  | GenStatelessBatchProofRequest StatelessInputProver
  | GenAggregatedProofRequest string string
  | GenFinalProofRequest string string
  | CancelRequest string
  | GetProofRequest string

datatype pv_Result = RESULT_UNSPECIFIED | RESULT_OK | RESULT_ERROR | RESULT_INTERNAL_ERROR | RESULT_other int

datatype GetProofResult =
    GP_UNSPECIFIED | GP_COMPLETED_OK | GP_ERROR | GP_COMPLETED_ERROR | GP_PENDING | GP_INTERNAL_ERROR | GP_CANCEL | GP_other int

record PublicInputsExtended =
  px_NewStateRoot :: bytes
  px_NewLocalExitRoot :: bytes

record FinalProof =
  fp_Proof :: string
  fp_Public :: "PublicInputsExtended option"

datatype pv_Proof = FinalProofOf FinalProof | RecursiveProofOf string | NoProof

record GetStatusResponse =
  gs_idle :: bool
  gs_ProverName :: string
  gs_ProverId :: string
  gs_ForkId :: u64

datatype ProverMessage =
    StatusResponse GetStatusResponse
  | GenBatchProofResponse pv_Result string
  | GenAggregatedProofResponse pv_Result string
  | GenFinalProofResponse pv_Result string
  | CancelResponse pv_Result
  | ProofResponse GetProofResult pv_Proof

record pv_stream =
  sm_Send :: "nat \<Rightarrow> AggregatorMessage \<Rightarrow> error option"
  sm_Recv :: "nat \<Rightarrow> AggregatorMessage \<Rightarrow> error + ProverMessage"

definition ErrBadProverResponse :: error where
  "ErrBadProverResponse = ErrMsg ''prover returned wrong type for response''"

definition ErrProverInternalError :: error where
  "ErrProverInternalError = ErrMsg ''prover returned INTERNAL_ERROR response''"

definition ErrProverCompletedError :: error where
  "ErrProverCompletedError = ErrMsg ''prover returned COMPLETED_ERROR response''"

definition ErrBadRequest :: error where
  "ErrBadRequest = ErrMsg ''prover returned ERROR for a bad request''"

definition ErrUnspecified :: error where
  "ErrUnspecified = ErrMsg ''prover returned an UNSPECIFIED response''"

definition ErrUnknown :: error where
  "ErrUnknown = ErrMsg ''prover returned an unknown response''"

definition ErrProofCanceled :: error where
  "ErrProofCanceled = ErrMsg ''proof has been canceled''"

definition ErrCanceled :: error where
  "ErrCanceled = ErrMsg ''context canceled''"

section \<open>Requests\<close>

definition pv_call :: "pv_stream \<Rightarrow> nat \<Rightarrow> AggregatorMessage \<Rightarrow> error + ProverMessage" where
  "pv_call s n req = (case sm_Send s n req of Some e \<Rightarrow> Inl e | None \<Rightarrow> sm_Recv s n req)"

definition pv_Status :: "pv_stream \<Rightarrow> nat \<Rightarrow> error + GetStatusResponse" where
  "pv_Status s n =
     (case pv_call s n GetStatusRequest of
        Inl e \<Rightarrow> Inl e
      | Inr (StatusResponse st) \<Rightarrow> Inr st
      | Inr _ \<Rightarrow> Inl ErrBadProverResponse)"

definition pv_New :: "pv_stream \<Rightarrow> nat \<Rightarrow> error + string \<times> string" where
  "pv_New s n = (case pv_Status s n of Inl e \<Rightarrow> Inl e | Inr st \<Rightarrow> Inr (gs_ProverName st, gs_ProverId st))"

definition pv_IsIdle :: "pv_stream \<Rightarrow> nat \<Rightarrow> error + bool" where
  "pv_IsIdle s n = (case pv_Status s n of Inl e \<Rightarrow> Inl e | Inr st \<Rightarrow> Inr (gs_idle st))"

definition pv_SupportsForkID :: "pv_stream \<Rightarrow> nat \<Rightarrow> u64 \<Rightarrow> bool" where
  "pv_SupportsForkID s n forkID = (case pv_Status s n of Inl e \<Rightarrow> False | Inr st \<Rightarrow> gs_ForkId st = forkID)"

text \<open>The common answer to a request: an identifier, or the error of its result code.\<close>

fun result_error :: "pv_Result \<Rightarrow> 'a \<Rightarrow> error + 'a" where
  "result_error RESULT_UNSPECIFIED x = Inl ErrUnspecified"
| "result_error RESULT_OK x = Inr x"
| "result_error RESULT_ERROR x = Inl ErrBadRequest"
| "result_error RESULT_INTERNAL_ERROR x = Inl ErrProverInternalError"
| "result_error (RESULT_other _) x = Inl ErrUnknown"

definition pv_BatchProof :: "pv_stream \<Rightarrow> nat \<Rightarrow> StatelessInputProver \<Rightarrow> error + string" where
  "pv_BatchProof s n input =
     (case pv_call s n (GenStatelessBatchProofRequest input) of
        Inl e \<Rightarrow> Inl e
      | Inr (GenBatchProofResponse r i) \<Rightarrow> result_error r i
      | Inr _ \<Rightarrow> Inl ErrBadProverResponse)"

definition pv_AggregatedProof :: "pv_stream \<Rightarrow> nat \<Rightarrow> string \<Rightarrow> string \<Rightarrow> error + string" where
  "pv_AggregatedProof s n inputProof1 inputProof2 =
     (case pv_call s n (GenAggregatedProofRequest inputProof1 inputProof2) of
        Inl e \<Rightarrow> Inl e
      | Inr (GenAggregatedProofResponse r i) \<Rightarrow> result_error r i
      | Inr _ \<Rightarrow> Inl ErrBadProverResponse)"

definition pv_FinalProof :: "pv_stream \<Rightarrow> nat \<Rightarrow> string \<Rightarrow> string \<Rightarrow> error + string" where
  "pv_FinalProof s n inputProof aggregatorAddr =
     (case pv_call s n (GenFinalProofRequest inputProof aggregatorAddr) of
        Inl e \<Rightarrow> Inl e
      | Inr (GenFinalProofResponse r i) \<Rightarrow> result_error r i
      | Inr _ \<Rightarrow> Inl ErrBadProverResponse)"

definition pv_CancelProofRequest :: "pv_stream \<Rightarrow> nat \<Rightarrow> string \<Rightarrow> error option" where
  "pv_CancelProofRequest s n proofID =
     (case pv_call s n (CancelRequest proofID) of
        Inl e \<Rightarrow> Some e
      | Inr (CancelResponse r) \<Rightarrow> (case result_error r () of Inl e \<Rightarrow> Some e | Inr _ \<Rightarrow> None)
      | Inr _ \<Rightarrow> Some ErrBadProverResponse)"

section \<open>Waiting for a proof\<close>

text \<open>\<open>stop n\<close>: the context is done before the \<open>n\<close>-th message.\<close>

partial_function (option) waitProof ::
  "pv_stream \<Rightarrow> (nat \<Rightarrow> bool) \<Rightarrow> string \<Rightarrow> nat \<Rightarrow> (error + pv_Proof) option"
where
  "waitProof s stop proofID n =
     (if stop n then Some (Inl ErrCanceled)
      else case pv_call s n (GetProofRequest proofID) of
        Inl e \<Rightarrow> Some (Inl e)
      | Inr (ProofResponse r p) \<Rightarrow>
          (case r of
             GP_PENDING \<Rightarrow> waitProof s stop proofID (n + 1)
           | GP_UNSPECIFIED \<Rightarrow> Some (Inl ErrUnspecified)
           | GP_COMPLETED_OK \<Rightarrow> Some (Inr p)
           | GP_ERROR \<Rightarrow> Some (Inl ErrBadRequest)
           | GP_COMPLETED_ERROR \<Rightarrow> Some (Inl ErrProverCompletedError)
           | GP_INTERNAL_ERROR \<Rightarrow> Some (Inl ErrProverInternalError)
           | GP_CANCEL \<Rightarrow> Some (Inl ErrProofCanceled)
           | GP_other _ \<Rightarrow> Some (Inl ErrUnknown))
      | Inr _ \<Rightarrow> Some (Inl ErrBadProverResponse))"

definition pv_WaitFinalProof ::
  "pv_stream \<Rightarrow> (nat \<Rightarrow> bool) \<Rightarrow> nat \<Rightarrow> string \<Rightarrow> (error + FinalProof) option"
where
  "pv_WaitFinalProof s stop n proofID =
     (case waitProof s stop proofID n of
        None \<Rightarrow> None
      | Some (Inl e) \<Rightarrow> Some (Inl e)
      | Some (Inr (FinalProofOf p)) \<Rightarrow> Some (Inr p)
      | Some (Inr _) \<Rightarrow> Some (Inl ErrBadProverResponse))"

section \<open>The public inputs of a recursive proof\<close>

definition fea2scalar :: "u64 list \<Rightarrow> nat" where
  "fea2scalar v =
     (if length v \<noteq> 8 then 0
      else unat (v ! 0) + unat (v ! 1) * 2 ^ 32 + unat (v ! 2) * 2 ^ 64 + unat (v ! 3) * 2 ^ 96 +
           unat (v ! 4) * 2 ^ 128 + unat (v ! 5) * 2 ^ 160 + unat (v ! 6) * 2 ^ 192 + unat (v ! 7) * 2 ^ 224)"

text \<open>\<open>strconv.ParseInt(s, 10, 64)\<close>.\<close>

definition ParseInt64 :: "string \<Rightarrow> int option" where
  "ParseInt64 s =
     (case big_SetString10 s of
        None \<Rightarrow> None
      | Some n \<Rightarrow> if - (2 ^ 63) \<le> n \<and> n < 2 ^ 63 then Some n else None)"

fun read_limbs :: "string list \<Rightarrow> nat \<Rightarrow> nat \<Rightarrow> u64 list outcome" where
  "read_limbs publics i 0 = Ret []"
| "read_limbs publics i (Suc k) =
     (if \<not> i < length publics then Panicked
      else case ParseInt64 (publics ! i) of
             None \<Rightarrow> Panicked
           | Some v \<Rightarrow>
               (case read_limbs publics (i + 1) k of
                  Ret vs \<Rightarrow> Ret (of_int v # vs)
                | Blocked \<Rightarrow> Blocked
                | Panicked \<Rightarrow> Panicked))"

definition even_hex :: "nat \<Rightarrow> string" where
  "even_hex n = (let h = nat_hex n in if length h mod 2 \<noteq> 0 then ''0'' @ h else h)"

text \<open>What the code uses of the libraries: the JSON field \<open>publics\<close>, and \<open>common.HexToHash\<close>.\<close>

record proof_lib =
  json_publics :: "string \<Rightarrow> error + string list"
  pl_HexToHash :: "string \<Rightarrow> hash"

definition GetSanityCheckHashFromProof ::
  "proof_lib \<Rightarrow> string \<Rightarrow> nat \<Rightarrow> nat \<Rightarrow> (hash \<times> error option) outcome"
where
  "GetSanityCheckHashFromProof L prf startIndex endIndex =
     (if \<not> sublist ''publics'' prf then Ret (0, None)
      else case json_publics L prf of
             Inl e \<Rightarrow> Ret (0, Some e)
           | Inr publics \<Rightarrow>
               (case read_limbs publics startIndex (endIndex - startIndex) of
                  Ret v \<Rightarrow> Ret (pl_HexToHash L (even_hex (fea2scalar v)), None)
                | Blocked \<Rightarrow> Blocked
                | Panicked \<Rightarrow> Panicked))"

definition stateRootStartIndex :: nat where "stateRootStartIndex = 19"
definition stateRootFinalIndex :: nat where "stateRootFinalIndex = stateRootStartIndex + 8"
definition accInputHashStartIndex :: nat where "accInputHashStartIndex = 27"
definition accInputHashFinalIndex :: nat where "accInputHashFinalIndex = accInputHashStartIndex + 8"

text \<open>An error of the JSON decoder is dropped: its hash is zero, and it is only logged for a hash that is not.\<close>

definition pv_WaitRecursiveProof ::
  "proof_lib \<Rightarrow> pv_stream \<Rightarrow> (nat \<Rightarrow> bool) \<Rightarrow> nat \<Rightarrow> string \<Rightarrow> (error + string \<times> hash \<times> hash) outcome"
where
  "pv_WaitRecursiveProof L s stop n proofID =
     (case waitProof s stop proofID n of
        None \<Rightarrow> Blocked
      | Some (Inl e) \<Rightarrow> Ret (Inl e)
      | Some (Inr (RecursiveProofOf prf)) \<Rightarrow>
          (case GetSanityCheckHashFromProof L prf stateRootStartIndex stateRootFinalIndex of
             Blocked \<Rightarrow> Blocked
           | Panicked \<Rightarrow> Panicked
           | Ret (sr, _) \<Rightarrow>
               (case GetSanityCheckHashFromProof L prf accInputHashStartIndex accInputHashFinalIndex of
                  Blocked \<Rightarrow> Blocked
                | Panicked \<Rightarrow> Panicked
                | Ret (accInputHash, _) \<Rightarrow> Ret (Inr (prf, sr, accInputHash))))
      | Some (Inr _) \<Rightarrow> Ret (Inl ErrBadProverResponse))"

section \<open>Polling ends with the first answer that is not pending\<close>

definition poll_ends :: "pv_stream \<Rightarrow> (nat \<Rightarrow> bool) \<Rightarrow> string \<Rightarrow> nat \<Rightarrow> bool" where
  "poll_ends s stop i n \<longleftrightarrow> stop n \<or> (\<forall>p. pv_call s n (GetProofRequest i) \<noteq> Inr (ProofResponse GP_PENDING p))"

lemma waitProof_pending: "\<not> poll_ends s stop i n \<Longrightarrow> waitProof s stop i n = waitProof s stop i (n + 1)"
  by (subst waitProof.simps) (auto simp: poll_ends_def)

lemma waitProof_answer: "poll_ends s stop i n \<Longrightarrow> waitProof s stop i n \<noteq> None"
  by (subst waitProof.simps)
    (auto simp: poll_ends_def split: sum.splits ProverMessage.splits GetProofResult.splits)

lemma waitProof_first:
  assumes "\<forall>k. n \<le> k \<and> k < m \<longrightarrow> \<not> poll_ends s stop i k" and "n \<le> m"
  shows "waitProof s stop i n = waitProof s stop i m"
  using assms(2,1)
proof (induction rule: inc_induct)
  case (step n)
  then show ?case using waitProof_pending [of s stop i n] by simp
qed simp

lemma waitProof_never: "\<forall>k\<ge>n. \<not> poll_ends s stop i k \<Longrightarrow> waitProof s stop i n = None"
proof -
  have "\<exists>k\<ge>n. poll_ends s stop i k" if "waitProof s stop i n = Some r" for r
  proof (rule waitProof.raw_induct [where P = "\<lambda>s stop i n r. \<exists>k\<ge>n. poll_ends s stop i k", OF _ that], goal_cases)
    case (1 loop s stop i n r)
    show ?case
    proof (cases "poll_ends s stop i n")
      case True
      then show ?thesis by blast
    next
      case False
      then have "loop s stop i (n + 1) = Some r" using 1(2) by (auto simp: poll_ends_def)
      with 1(1) obtain k where "n + 1 \<le> k" "poll_ends s stop i k" by blast
      then show ?thesis by (intro exI [of _ k]) simp
    qed
  qed
  then show "\<forall>k\<ge>n. \<not> poll_ends s stop i k \<Longrightarrow> waitProof s stop i n = None"
    by (cases "waitProof s stop i n") auto
qed

lemma waitProof_returns_iff: "waitProof s stop i n \<noteq> None \<longleftrightarrow> (\<exists>k\<ge>n. poll_ends s stop i k)"
proof
  show "\<exists>k\<ge>n. poll_ends s stop i k" if "waitProof s stop i n \<noteq> None" 
  proof (rule ccontr)
    assume "\<not> (\<exists>k\<ge>n. poll_ends s stop i k)"
    then have "\<forall>k\<ge>n. \<not> poll_ends s stop i k" by simp
    with waitProof_never that show False by simp
  qed
next
  assume "\<exists>k\<ge>n. poll_ends s stop i k"
  then obtain m where m: "n \<le> m" "poll_ends s stop i m" "\<forall>k<m. \<not> (n \<le> k \<and> poll_ends s stop i k)"
    using exists_least_iff [of "\<lambda>k. n \<le> k \<and> poll_ends s stop i k"] by auto
  then have "waitProof s stop i n = waitProof s stop i m" by (intro waitProof_first) auto
  with waitProof_answer [OF m(2)] show "waitProof s stop i n \<noteq> None" by simp
qed

section \<open>Reading back a hash from its limbs\<close>

definition limb :: "nat \<Rightarrow> nat \<Rightarrow> nat" where
  "limb n i = n div 2 ^ (32 * i) mod 2 ^ 32"

lemma limb_sum: "n mod 2 ^ (32 * Suc k) = n mod 2 ^ (32 * k) + limb n k * 2 ^ (32 * k)"
proof -
  have "(2 :: nat) ^ (32 * Suc k) = 2 ^ (32 * k) * 2 ^ 32" by (simp add: power_add)
  then show ?thesis unfolding limb_def by (simp only: mod_mult2_eq) (simp add: mult.commute)
qed

lemma unat_limb: "unat (of_nat (limb n i) :: u64) = limb n i"
proof -
  have "limb n i < 2 ^ 64" unfolding limb_def by (rule less_trans [of _ "2 ^ 32"]) simp_all
  then show ?thesis by (simp add: unsigned_of_nat take_bit_eq_mod)
qed

lemma limbs_sum: "n mod 2 ^ (32 * k) = (\<Sum>i<k. limb n i * 2 ^ (32 * i))"
  by (induction k) (simp, simp only: limb_sum sum.lessThan_Suc)

lemma fea2scalar_limbs: "fea2scalar (map (\<lambda>i. of_nat (limb n i)) [0..<8]) = n mod 2 ^ 256"
proof -
  have "fea2scalar (map (\<lambda>i. of_nat (limb n i)) [0..<8]) =
      limb n 0 * 2 ^ 0 + limb n 1 * 2 ^ 32 + limb n 2 * 2 ^ 64 + limb n 3 * 2 ^ 96 +
      limb n 4 * 2 ^ 128 + limb n 5 * 2 ^ 160 + limb n 6 * 2 ^ 192 + limb n 7 * 2 ^ 224"
    by (simp add: fea2scalar_def unat_limb del: upt_Suc) (simp add: numeral_2_eq_2)
  also have "\<dots> = (\<Sum>i<8. limb n i * 2 ^ (32 * i))"
    by (simp add: lessThan_nat_numeral lessThan_Suc)
  also have "\<dots> = n mod 2 ^ (32 * 8)" by (simp only: limbs_sum)
  finally show ?thesis by simp
qed

definition hex_hash_law :: "(string \<Rightarrow> hash) \<Rightarrow> bool" where
  "hex_hash_law H \<longleftrightarrow> (\<forall>s n. s \<noteq> [] \<and> even (length s) \<and> hex_value 0 s = Some n \<longrightarrow> H s = of_nat n)"

lemma even_hex_value: "even_hex n \<noteq> []" "even (length (even_hex n))" "hex_value 0 (even_hex n) = Some n"
proof -
  have z: "hex_val CHR ''0'' = Some 0" by (simp add: hex_val_def code_def)
  have "hex_value 0 (nat_hex n) = Some n" using hex_value_nat_hex [of 0 n] by simp
  then show "hex_value 0 (even_hex n) = Some n" by (simp add: even_hex_def Let_def z)
  show "even (length (even_hex n))" by (auto simp: even_hex_def Let_def odd_iff_mod_2_eq_one)
  obtain d cs where "nat_hex n = hex_char d # cs" by (rule nat_hex_Cons)
  then show "even_hex n \<noteq> []" by (simp add: even_hex_def Let_def)
qed

lemma ParseInt64_limb: "ParseInt64 (nat_dec (limb n i)) = Some (int (limb n i))"
proof -
  have "limb n i < 2 ^ 63" unfolding limb_def by (rule less_trans [of _ "2 ^ 32"]) simp_all
  then have "int (limb n i) < 2 ^ 63" by simp
  then show ?thesis by (simp add: ParseInt64_def big_SetString10_nat)
qed

lemma read_limbs_at:
  assumes "\<forall>j<k. i + j < length publics \<and> publics ! (i + j) = nat_dec (limb n (m + j))"
  shows "read_limbs publics i k = Ret (map (\<lambda>j. of_nat (limb n j)) [m..<m + k])"
  using assms
proof (induction k arbitrary: i m)
  case (Suc k)
  have "read_limbs publics (i + 1) k = Ret (map (\<lambda>j. of_nat (limb n j)) [m + 1..<m + 1 + k])"
  proof (rule Suc.IH, intro allI impI)
    fix j
    assume "j < k"
    with Suc.prems [rule_format, of "Suc j"]
    show "i + 1 + j < length publics \<and> publics ! (i + 1 + j) = nat_dec (limb n (m + 1 + j))" by simp
  qed
  moreover have "i < length publics" "publics ! i = nat_dec (limb n m)"
    using Suc.prems [rule_format, of 0] by simp_all
  ultimately show ?case by (simp add: ParseInt64_limb upt_rec [of m])
qed simp

lemma sanity_hash_of_limbs:
  assumes "hex_hash_law (pl_HexToHash L)" and "sublist ''publics'' prf" and "json_publics L prf = Inr publics"
    and "\<forall>j<8. i + j < length publics \<and> publics ! (i + j) = nat_dec (limb (unat (h :: hash)) j)"
  shows "GetSanityCheckHashFromProof L prf i (i + 8) = Ret (h, None)"
proof -
  have "read_limbs publics i 8 = Ret (map (\<lambda>j. of_nat (limb (unat h) j)) [0..<0 + 8])"
    by (rule read_limbs_at) (use assms(4) in simp)
  moreover have "unat h mod 2 ^ 256 = unat h" using unat_less [of h] by simp
  ultimately have "read_limbs publics i (i + 8 - i) = Ret (map (\<lambda>j. of_nat (limb (unat h) j)) [0..<8])"
    and f: "fea2scalar (map (\<lambda>j. of_nat (limb (unat h) j)) [0..<8]) = unat h"
    using fea2scalar_limbs [of "unat h"] by simp_all
  moreover have "pl_HexToHash L (even_hex (unat h)) = h"
    using assms(1) even_hex_value [of "unat h"] unfolding hex_hash_law_def by simp
  ultimately show ?thesis using assms(2,3) by (simp add: GetSanityCheckHashFromProof_def)
qed

section \<open>Properties\<close>

text \<open>The publics of a proof carry a hash: the eight limbs from index \<open>i\<close> on, lowest first, in decimal.\<close>

definition carries_hash :: "string list \<Rightarrow> nat \<Rightarrow> hash \<Rightarrow> bool" where
  "carries_hash publics i h \<longleftrightarrow>
     (\<forall>j<8. i + j < length publics \<and> publics ! (i + j) = nat_dec (limb (unat h) j))"

text \<open>A recursive proof arrives with the hashes it carries: when the prover answers some polls with \<open>pending\<close> and then delivers a
  recursive proof whose public inputs hold a state root and an accumulated input hash, waiting for it returns, with the
  text of the proof and exactly these two hashes. (The polls are the messages from \<open>n\<close> on, and the context
  is not done before the proof is there.)\<close>

theorem recursive_proof_carries_hashes:
  assumes "hex_hash_law (pl_HexToHash L)"
    and "\<forall>k. n \<le> k \<and> k < m \<longrightarrow> (\<exists>p. pv_call s k (GetProofRequest i) = Inr (ProofResponse GP_PENDING p))"
    and "n \<le> m" and "\<forall>k. n \<le> k \<and> k \<le> m \<longrightarrow> \<not> stop k"
    and "pv_call s m (GetProofRequest i) = Inr (ProofResponse GP_COMPLETED_OK (RecursiveProofOf prf))"
    and "sublist ''publics'' prf" and "json_publics L prf = Inr publics"
    and "carries_hash publics 19 stateRoot" and "carries_hash publics 27 accInputHash"
  shows "pv_WaitRecursiveProof L s stop n i = Ret (Inr (prf, stateRoot, accInputHash))"
proof -
  have "\<forall>k. n \<le> k \<and> k < m \<longrightarrow> \<not> poll_ends s stop i k"
    using assms(2,4) by (force simp: poll_ends_def)
  then have "waitProof s stop i n = waitProof s stop i m" using assms(3) by (rule waitProof_first)
  also have "\<dots> = Some (Inr (RecursiveProofOf prf))"
    using assms(3-5) by (subst waitProof.simps) simp
  finally have w: "waitProof s stop i n = Some (Inr (RecursiveProofOf prf))" .
  note h = sanity_hash_of_limbs [OF assms(1,6,7)]
  have "GetSanityCheckHashFromProof L prf stateRootStartIndex stateRootFinalIndex = Ret (stateRoot, None)"
    using h [of 19 stateRoot] assms(8)
    by (simp add: carries_hash_def stateRootStartIndex_def stateRootFinalIndex_def)
  moreover have "GetSanityCheckHashFromProof L prf accInputHashStartIndex accInputHashFinalIndex =
      Ret (accInputHash, None)"
    using h [of 27 accInputHash] assms(9)
    by (simp add: carries_hash_def accInputHashStartIndex_def accInputHashFinalIndex_def)
  ultimately show ?thesis by (simp add: pv_WaitRecursiveProof_def w)
qed

definition sample_publics :: "string list" where
  "sample_publics = replicate 19 ''7'' @ map (\<lambda>i. nat_dec (limb 5 i)) [0..<8] @ map (\<lambda>i. nat_dec (limb 6 i)) [0..<8]"

definition sample_proof_lib :: proof_lib where
  "sample_proof_lib = \<lparr>json_publics = (\<lambda>_. Inr sample_publics),
     pl_HexToHash = (\<lambda>s. case hex_value 0 s of None \<Rightarrow> 0 | Some n \<Rightarrow> of_nat n)\<rparr>"

definition sample_prover_stream :: pv_stream where
  "sample_prover_stream = \<lparr>sm_Send = (\<lambda>_ _. None),
     sm_Recv = (\<lambda>n _. Inr (if n < 3 then ProofResponse GP_PENDING NoProof
                         else ProofResponse GP_COMPLETED_OK (RecursiveProofOf ''publics'')))\<rparr>"

lemma sample_carries: "carries_hash sample_publics 19 5" "carries_hash sample_publics 27 6"
  by (auto simp: carries_hash_def sample_publics_def nth_append)

theorem recursive_proof_carries_hashes_witness:
  "pv_WaitRecursiveProof sample_proof_lib sample_prover_stream (\<lambda>_. False) 1 ''id'' = Ret (Inr (''publics'', 5, 6))"
proof (rule recursive_proof_carries_hashes [where m = 3 and publics = sample_publics])
  show "hex_hash_law (pl_HexToHash sample_proof_lib)" by (simp add: hex_hash_law_def sample_proof_lib_def)
qed (auto simp: sample_prover_stream_def sample_proof_lib_def pv_call_def sample_carries)

text \<open>A proof whose text does not decode gives two zero hashes and no error: the checks against them are skipped.\<close>

lemma undecodable_proof_has_zero_hashes:
  assumes "waitProof s stop i n = Some (Inr (RecursiveProofOf prf))" and "json_publics L prf = Inl e"
  shows "pv_WaitRecursiveProof L s stop n i = Ret (Inr (prf, 0, 0))"
  using assms by (simp add: pv_WaitRecursiveProof_def GetSanityCheckHashFromProof_def)

end
