(* ===== verification/ProofStore.thy ===== *)
theory ProofStore
  imports Database
begin

text \<open>
  The tables of the aggregator (\<open>src/state/pgstatestorage/proof.go\<close>, \<open>sequence.go\<close>, with the types of
  \<open>src/state/types.go\<close>): recursive proofs for ranges of batches and the sequences of batches on L1.

  The columns are \<open>BIGINT\<close>; the driver refuses a \<open>uint64\<close> argument from \<open>2^63\<close> on before the statement is
  sent. A proof is \<^emph>\<open>locked\<close> while \<open>generating_since\<close> is set. Times are microseconds. What PostgreSQL reads from the
  text of an interval is the argument \<open>pg_interval\<close>.

  The locale \<open>range_store\<close> is the contract the aggregator relies on: how its statements change the list of
  ranges. Inside it, replacing two adjacent ranges by their union keeps the ranges disjoint and covers the same
  batches.
\<close>

section \<open>Rows\<close>

record sproof =
  pr_BatchNumber :: u64
  pr_BatchNumberFinal :: u64
  pr_Proof :: string
  pr_InputProver :: string
  pr_ProofID :: "string option"
  pr_Prover :: "string option"
  pr_ProverID :: "string option"
  pr_GeneratingSince :: "int option"
  pr_CreatedAt :: int
  pr_UpdatedAt :: int

record st_Sequence =
  st_FromBatchNumber :: u64
  st_ToBatchNumber :: u64

record agg_db =
  proof_rows :: "sproof list"
  sequence_rows :: "st_Sequence list"

definition pg_bigint :: "u64 \<Rightarrow> bool" where
  "pg_bigint n \<longleftrightarrow> unat n < 2 ^ 63"

definition pg_exec :: "io \<Rightarrow> sql \<Rightarrow> u64 list \<Rightarrow> 'a \<Rightarrow> error + 'a" where
  "pg_exec io s args r =
     (if \<not> list_all pg_bigint args then Inl (ErrMsg ''is greater than maximum value for Int8'')
      else if io s then Inl ErrSQL else Inr r)"

definition pr_key :: "sproof \<Rightarrow> u64 \<times> u64" where
  "pr_key p = (pr_BatchNumber p, pr_BatchNumberFinal p)"

section \<open>Queries\<close>

definition CheckProofExistsForBatch :: "io \<Rightarrow> u64 \<Rightarrow> agg_db \<Rightarrow> error + bool" where
  "CheckProofExistsForBatch io batchNumber db =
     pg_exec io (SqlSelect ''proof'' [unat batchNumber]) [batchNumber]
       (\<exists>p\<in>set (proof_rows db). pr_BatchNumber p \<le> batchNumber \<and> batchNumber \<le> pr_BatchNumberFinal p)"

definition seq_from :: "agg_db \<Rightarrow> u64 \<Rightarrow> bool" where
  "seq_from db n \<longleftrightarrow> (\<exists>s\<in>set (sequence_rows db). st_FromBatchNumber s = n)"

definition seq_to :: "agg_db \<Rightarrow> u64 \<Rightarrow> bool" where
  "seq_to db n \<longleftrightarrow> (\<exists>s\<in>set (sequence_rows db). st_ToBatchNumber s = n)"

definition CheckProofContainsCompleteSequences :: "io \<Rightarrow> sproof \<Rightarrow> agg_db \<Rightarrow> error + bool" where
  "CheckProofContainsCompleteSequences io p db =
     pg_exec io (SqlSelect ''sequence'' [unat (pr_BatchNumber p), unat (pr_BatchNumberFinal p)])
       [pr_BatchNumber p, pr_BatchNumberFinal p]
       (seq_from db (pr_BatchNumber p) \<and> seq_to db (pr_BatchNumberFinal p))"

definition GetProofReadyToVerify :: "io \<Rightarrow> u64 \<Rightarrow> agg_db \<Rightarrow> error + sproof" where
  "GetProofReadyToVerify io lastVerfiedBatchNumber db =
     (case pg_exec io (SqlSelect ''ready'' [unat (lastVerfiedBatchNumber + 1)]) [lastVerfiedBatchNumber + 1]
        (find (\<lambda>p. pr_BatchNumber p = lastVerfiedBatchNumber + 1 \<and> pr_GeneratingSince p = None \<and>
            seq_from db (pr_BatchNumber p) \<and> seq_to db (pr_BatchNumberFinal p)) (proof_rows db)) of
        Inl e \<Rightarrow> Inl e
      | Inr None \<Rightarrow> Inl ErrNotFound
      | Inr (Some p) \<Rightarrow> Inr p)"

text \<open>
  The condition of \<open>GetProofsToAggregate\<close>; \<open>batch_num - 1\<close> is signed arithmetic. The column \<open>proof\<close> is always written
  from a Go string, so that \<open>proof IS NOT NULL\<close> holds of every row.
\<close>

definition in_sequence :: "st_Sequence \<Rightarrow> u64 \<Rightarrow> bool" where
  "in_sequence s n \<longleftrightarrow> n \<ge> st_FromBatchNumber s \<and> n \<le> st_ToBatchNumber s"

definition can_aggregate :: "agg_db \<Rightarrow> sproof \<Rightarrow> sproof \<Rightarrow> bool" where
  "can_aggregate db p1 p2 \<longleftrightarrow>
     int (unat (pr_BatchNumberFinal p1)) = int (unat (pr_BatchNumber p2)) - 1 \<and>
     pr_GeneratingSince p1 = None \<and> pr_GeneratingSince p2 = None \<and>
     ((\<exists>s\<in>set (sequence_rows db). in_sequence s (pr_BatchNumber p1) \<and> in_sequence s (pr_BatchNumberFinal p1) \<and>
         in_sequence s (pr_BatchNumber p2) \<and> in_sequence s (pr_BatchNumberFinal p2)) \<or>
      (seq_from db (pr_BatchNumber p1) \<and> seq_to db (pr_BatchNumberFinal p1) \<and>
       seq_from db (pr_BatchNumber p2) \<and> seq_to db (pr_BatchNumberFinal p2)))"

definition GetProofsToAggregate :: "io \<Rightarrow> agg_db \<Rightarrow> error + sproof \<times> sproof" where
  "GetProofsToAggregate io db =
     (case pg_exec io (SqlSelect ''aggregate'' []) []
        (first_asc (\<lambda>(p1, p2). pr_BatchNumber p1)
          (filter (\<lambda>(p1, p2). can_aggregate db p1 p2) (List.product (proof_rows db) (proof_rows db)))) of
        Inl e \<Rightarrow> Inl e
      | Inr None \<Rightarrow> Inl ErrNotFound
      | Inr (Some r) \<Rightarrow> Inr r)"

section \<open>Statements\<close>

definition AddGeneratedProof :: "io \<Rightarrow> int \<Rightarrow> sproof \<Rightarrow> agg_db \<Rightarrow> error + agg_db" where
  "AddGeneratedProof io now p db =
     (case pg_exec io (SqlInsert ''proof'' [unat (pr_BatchNumber p), unat (pr_BatchNumberFinal p)])
        [pr_BatchNumber p, pr_BatchNumberFinal p] () of
        Inl e \<Rightarrow> Inl e
      | Inr _ \<Rightarrow>
          if pr_key p \<in> pr_key ` set (proof_rows db) then Inl ErrUniqueConstraint
          else Inr (db\<lparr>proof_rows := proof_rows db @ [p\<lparr>pr_CreatedAt := now, pr_UpdatedAt := now\<rparr>]\<rparr>))"

definition UpdateGeneratedProof :: "io \<Rightarrow> int \<Rightarrow> sproof \<Rightarrow> agg_db \<Rightarrow> error + agg_db" where
  "UpdateGeneratedProof io now p db =
     pg_exec io (SqlUpdate ''proof'' [unat (pr_BatchNumber p), unat (pr_BatchNumberFinal p)])
       [pr_BatchNumber p, pr_BatchNumberFinal p]
       (db\<lparr>proof_rows := map (\<lambda>r. if pr_key r = pr_key p
              then p\<lparr>pr_CreatedAt := pr_CreatedAt r, pr_UpdatedAt := now\<rparr> else r) (proof_rows db)\<rparr>)"

definition DeleteGeneratedProofs :: "io \<Rightarrow> u64 \<Rightarrow> u64 \<Rightarrow> agg_db \<Rightarrow> error + agg_db" where
  "DeleteGeneratedProofs io batchNumber batchNumberFinal db =
     pg_exec io (SqlDelete ''proof'' [unat batchNumber, unat batchNumberFinal]) [batchNumber, batchNumberFinal]
       (db\<lparr>proof_rows := filter (\<lambda>p. \<not> (pr_BatchNumber p \<ge> batchNumber \<and> pr_BatchNumberFinal p \<le> batchNumberFinal))
              (proof_rows db)\<rparr>)"

definition CleanupGeneratedProofs :: "io \<Rightarrow> u64 \<Rightarrow> agg_db \<Rightarrow> error + agg_db" where
  "CleanupGeneratedProofs io batchNumber db =
     pg_exec io (SqlDelete ''proof'' [unat batchNumber]) [batchNumber]
       (db\<lparr>proof_rows := filter (\<lambda>p. \<not> pr_BatchNumberFinal p \<le> batchNumber) (proof_rows db)\<rparr>)"

definition ErrUnsupportedDuration :: error where
  "ErrUnsupportedDuration = ErrMsg ''unsupported time duration''"

definition toPostgresInterval :: "string \<Rightarrow> error + string" where
  "toPostgresInterval duration =
     (if duration = [] then Inl ErrPanic
      else
        let unit = last duration;
            named = (if unit = CHR ''s'' then Some ''second'' else if unit = CHR ''m'' then Some ''minute''
                     else if unit = CHR ''h'' then Some ''hour'' else None);
            isMoreThanOne = (hd duration \<noteq> CHR ''1'' \<or> length duration > 2)
        in case named of
             None \<Rightarrow> Inl ErrUnsupportedDuration
           | Some pgUnit \<Rightarrow>
               Inr (butlast duration @ '' '' @ pgUnit @ (if isMoreThanOne then ''s'' else [])))"

definition stale :: "int \<Rightarrow> int \<Rightarrow> sproof \<Rightarrow> bool" where
  "stale now interval p = (case pr_GeneratingSince p of None \<Rightarrow> False | Some t \<Rightarrow> t < now - interval)"

definition CleanupLockedProofs ::
  "io \<Rightarrow> (string \<Rightarrow> int option) \<Rightarrow> int \<Rightarrow> string \<Rightarrow> agg_db \<Rightarrow> error + agg_db \<times> nat"
where
  "CleanupLockedProofs io pg_interval now duration db =
     (case toPostgresInterval duration of
        Inl e \<Rightarrow> Inl e
      | Inr interval \<Rightarrow>
          if io (SqlDelete ''locked'' []) then Inl ErrSQL
          else case pg_interval interval of
                 None \<Rightarrow> Inl ErrSQL
               | Some i \<Rightarrow>
                   Inr (db\<lparr>proof_rows := filter (\<lambda>p. \<not> stale now i p) (proof_rows db)\<rparr>,
                        length (filter (stale now i) (proof_rows db))))"

definition DeleteUngeneratedProofs :: "io \<Rightarrow> agg_db \<Rightarrow> error + agg_db" where
  "DeleteUngeneratedProofs io db =
     pg_exec io (SqlDelete ''ungenerated'' []) []
       (db\<lparr>proof_rows := filter (\<lambda>p. pr_GeneratingSince p = None) (proof_rows db)\<rparr>)"

definition AddSequence :: "io \<Rightarrow> st_Sequence \<Rightarrow> agg_db \<Rightarrow> error + agg_db" where
  "AddSequence io s db =
     pg_exec io (SqlInsert ''sequence'' [unat (st_FromBatchNumber s)]) [st_FromBatchNumber s, st_ToBatchNumber s]
       (db\<lparr>sequence_rows :=
          (if seq_from db (st_FromBatchNumber s)
           then map (\<lambda>r. if st_FromBatchNumber r = st_FromBatchNumber s
                       then r\<lparr>st_ToBatchNumber := st_ToBatchNumber s\<rparr> else r) (sequence_rows db)
           else sequence_rows db @ [s])\<rparr>)"

section \<open>Ranges\<close>

text \<open>
  The ranges of the stored proofs: not empty, within \<open>BIGINT\<close>, and disjoint. A batch is covered when a
  stored proof contains it.
\<close>

definition inside :: "u64 \<Rightarrow> u64 \<Rightarrow> u64 \<times> u64 \<Rightarrow> bool" where
  "inside b f r \<longleftrightarrow> b \<le> fst r \<and> snd r \<le> f"

definition overlap :: "u64 \<times> u64 \<Rightarrow> u64 \<times> u64 \<Rightarrow> bool" where
  "overlap r s \<longleftrightarrow> fst r \<le> snd s \<and> fst s \<le> snd r"

definition ranges_ok :: "(u64 \<times> u64) list \<Rightarrow> bool" where
  "ranges_ok rs \<longleftrightarrow> distinct rs \<and> (\<forall>r\<in>set rs. fst r \<le> snd r) \<and> (\<forall>r\<in>set rs. \<forall>s\<in>set rs. overlap r s \<longrightarrow> r = s)"

definition covered :: "(u64 \<times> u64) list \<Rightarrow> u64 set" where
  "covered rs = {n. \<exists>r\<in>set rs. fst r \<le> n \<and> n \<le> snd r}"

definition proof_ranges :: "agg_db \<Rightarrow> (u64 \<times> u64) list" where
  "proof_ranges db = map pr_key (proof_rows db)"

lemma ranges_okD: "ranges_ok rs \<Longrightarrow> r \<in> set rs \<Longrightarrow> s \<in> set rs \<Longrightarrow> overlap r s \<Longrightarrow> r = s"
  by (simp add: ranges_ok_def)

lemma ranges_ok_filter: "ranges_ok rs \<Longrightarrow> ranges_ok (filter P rs)"
  by (auto simp: ranges_ok_def)

lemma ranges_ok_snoc:
  assumes "ranges_ok rs" and "b \<le> f" and "\<And>r. r \<in> set rs \<Longrightarrow> \<not> overlap r (b, f)"
  shows "ranges_ok (rs @ [(b, f)])"
proof -
  have "overlap (b, f) (b, f)" using assms(2) by (simp add: overlap_def)
  with assms(3) have "(b, f) \<notin> set rs" by blast
  moreover have "\<And>r. r \<in> set rs \<Longrightarrow> \<not> overlap (b, f) r" using assms(3) by (auto simp: overlap_def)
  ultimately show ?thesis using assms by (auto simp: ranges_ok_def)
qed

lemma overlap_single: "overlap r (n, n) \<longleftrightarrow> fst r \<le> n \<and> n \<le> snd r"
  by (auto simp: overlap_def)

text \<open>Two adjacent ranges replaced by their union.\<close>

lemma adjacent_split: "unat b2 = Suc (unat f1) \<Longrightarrow> n \<le> f1 \<or> b2 \<le> n" for n :: u64
  by (cases "n \<le> f1") (auto simp: word_le_nat_alt)

lemma adjacent_less: "unat b2 = Suc (unat f1) \<Longrightarrow> f1 < b2" for b2 :: u64
  by (simp add: word_less_nat_alt)

lemma within_union:
  assumes ok: "ranges_ok rs" and r1: "(b1, f1) \<in> set rs" and r2: "(b2, f2) \<in> set rs"
    and adj: "unat b2 = Suc (unat f1)" and r: "r \<in> set rs" and ov: "overlap r (b1, f2)"
  shows "r = (b1, f1) \<or> r = (b2, f2)"
proof -
  have le: "b1 \<le> f1" "b2 \<le> f2" "fst r \<le> snd r" using ok r1 r2 r by (auto simp: ranges_ok_def)
  then have "overlap r (b1, f1) \<or> overlap r (b2, f2)"
    using ov adjacent_split [OF adj, of "fst r"] adjacent_split [OF adj, of "snd r"] adjacent_less [OF adj]
    by (auto simp: overlap_def)
  then show ?thesis using ranges_okD [OF ok r] r1 r2 by blast
qed

lemma union_inside:
  assumes ok: "ranges_ok rs" and r1: "(b1, f1) \<in> set rs" and r2: "(b2, f2) \<in> set rs"
    and adj: "unat b2 = Suc (unat f1)"
  shows "inside b1 f2 (b1, f1)" "inside b1 f2 (b2, f2)" "b1 \<le> f2"
proof -
  have "b1 \<le> f1" "b2 \<le> f2" using ok r1 r2 by (auto simp: ranges_ok_def)
  with adjacent_less [OF adj] have "f1 \<le> f2" "b1 \<le> b2" "b1 \<le> f2" by auto
  then show "inside b1 f2 (b1, f1)" "inside b1 f2 (b2, f2)" "b1 \<le> f2" by (simp_all add: inside_def)
qed

lemma ranges_ok_union:
  assumes ok: "ranges_ok rs" and r1: "(b1, f1) \<in> set rs" and r2: "(b2, f2) \<in> set rs"
    and adj: "unat b2 = Suc (unat f1)"
  shows "ranges_ok (filter (\<lambda>r. \<not> inside b1 f2 r) rs @ [(b1, f2)])"
    and "covered (filter (\<lambda>r. \<not> inside b1 f2 r) rs @ [(b1, f2)]) = covered rs"
proof -
  note u = union_inside [OF assms]
  have no: "\<not> overlap r (b1, f2)" if "r \<in> set rs" "\<not> inside b1 f2 r" for r
    using within_union [OF assms that(1)] that(2) u by blast
  show "ranges_ok (filter (\<lambda>r. \<not> inside b1 f2 r) rs @ [(b1, f2)])"
    by (rule ranges_ok_snoc [OF ranges_ok_filter [OF ok] u(3)]) (simp add: no)
  show "covered (filter (\<lambda>r. \<not> inside b1 f2 r) rs @ [(b1, f2)]) = covered rs" (is "?l = ?r")
  proof (rule set_eqI)
    fix n
    have "n \<in> ?r" if "b1 \<le> n" "n \<le> f2"
    proof (cases "n \<le> f1")
      case True
      with that r1 show ?thesis by (force simp: covered_def)
    next
      case False
      with adjacent_split [OF adj, of n] that r2 show ?thesis by (force simp: covered_def)
    qed
    moreover have "n \<in> ?l" if "r \<in> set rs" "fst r \<le> n" "n \<le> snd r" for r
    proof (cases "inside b1 f2 r")
      case True
      with that have "b1 \<le> n" "n \<le> f2" by (auto simp: inside_def)
      then show ?thesis by (simp add: covered_def)
    next
      case False
      with that(1) have "r \<in> set (filter (\<lambda>r. \<not> inside b1 f2 r) rs @ [(b1, f2)])" by simp
      with that(2,3) show ?thesis unfolding covered_def by blast
    qed
    moreover have "n \<in> ?r" if "n \<in> ?l" 
    proof -
      from that consider r where "r \<in> set rs" "fst r \<le> n" "n \<le> snd r" | "b1 \<le> n" "n \<le> f2"
        by (auto simp: covered_def)
      then show ?thesis
      proof cases
        case 1
        then show ?thesis unfolding covered_def by blast
      next
        case 2
        then show ?thesis by (rule calculation(1))
      qed
    qed
    moreover have "\<exists>r\<in>set rs. fst r \<le> n \<and> n \<le> snd r" if "n \<in> ?r" using that by (simp add: covered_def)
    ultimately show "n \<in> ?l \<longleftrightarrow> n \<in> ?r" by blast
  qed
qed

section \<open>The contract of the store\<close>

locale range_store =
  fixes ranges :: "'db \<Rightarrow> (u64 \<times> u64) list"
    and key :: "'row \<Rightarrow> u64 \<times> u64"
    and add :: "'row \<Rightarrow> 'db \<Rightarrow> error + 'db"
    and upd :: "'row \<Rightarrow> 'db \<Rightarrow> error + 'db"
    and del :: "u64 \<Rightarrow> u64 \<Rightarrow> 'db \<Rightarrow> error + 'db"
    and ex :: "u64 \<Rightarrow> 'db \<Rightarrow> error + bool"
  assumes add_ranges: "add p db = Inr db' \<Longrightarrow> ranges db' = ranges db @ [key p]"
    and upd_ranges: "upd p db = Inr db' \<Longrightarrow> ranges db' = ranges db"
    and del_ranges: "del b f db = Inr db' \<Longrightarrow> ranges db' = filter (\<lambda>r. \<not> inside b f r) (ranges db)"
    and ex_covered: "ex n db = Inr x \<Longrightarrow> x \<longleftrightarrow> n \<in> covered (ranges db)"
begin

lemma del_ok: "del b f db = Inr db' \<Longrightarrow> ranges_ok (ranges db) \<Longrightarrow> ranges_ok (ranges db')"
  by (simp add: del_ranges ranges_ok_filter)

lemma add_uncovered:
  assumes "add p db = Inr db'" and "ranges_ok (ranges db)" and "key p = (n, n)" and "n \<notin> covered (ranges db)"
  shows "ranges_ok (ranges db')" and "covered (ranges db') = insert n (covered (ranges db))"
proof -
  have "\<And>r. r \<in> set (ranges db) \<Longrightarrow> \<not> overlap r (n, n)"
    using assms(4) by (auto simp: covered_def overlap_single)
  with ranges_ok_snoc [OF assms(2), of n n] show "ranges_ok (ranges db')"
    using add_ranges [OF assms(1)] assms(3) by simp
  show "covered (ranges db') = insert n (covered (ranges db))"
    using add_ranges [OF assms(1)] assms(3) by (auto simp: covered_def)
qed

lemma replace_adjacent:
  assumes "del b1 f2 db = Inr db1" and "add p db1 = Inr db2" and "key p = (b1, f2)"
    and "ranges_ok (ranges db)" and "(b1, f1) \<in> set (ranges db)" and "(b2, f2) \<in> set (ranges db)"
    and "unat b2 = Suc (unat f1)"
  shows "ranges_ok (ranges db2)" and "covered (ranges db2) = covered (ranges db)"
    and "(b1, f2) \<in> set (ranges db2)"
  using ranges_ok_union [OF assms(4-7)] del_ranges [OF assms(1)] add_ranges [OF assms(2)] assms(3) by simp_all

end

lemma pg_exec_Inr: "pg_exec io s args r = Inr x \<longleftrightarrow> list_all pg_bigint args \<and> \<not> io s \<and> x = r"
  by (auto simp: pg_exec_def)

lemma AddGeneratedProof_Inr:
  "AddGeneratedProof io now p db = Inr db' \<longleftrightarrow>
     pg_bigint (pr_BatchNumber p) \<and> pg_bigint (pr_BatchNumberFinal p) \<and>
     \<not> io (SqlInsert ''proof'' [unat (pr_BatchNumber p), unat (pr_BatchNumberFinal p)]) \<and>
     pr_key p \<notin> set (proof_ranges db) \<and>
     db' = db\<lparr>proof_rows := proof_rows db @ [p\<lparr>pr_CreatedAt := now, pr_UpdatedAt := now\<rparr>]\<rparr>"
  by (auto simp: AddGeneratedProof_def pg_exec_def proof_ranges_def)

lemma pr_key_times [simp]: "pr_key (p\<lparr>pr_CreatedAt := a, pr_UpdatedAt := b\<rparr>) = pr_key p"
  by (simp add: pr_key_def)

lemma proof_ranges_update:
  "UpdateGeneratedProof io now p db = Inr db' \<Longrightarrow> proof_ranges db' = proof_ranges db"
  by (auto simp: UpdateGeneratedProof_def pg_exec_Inr proof_ranges_def)

interpretation ps: range_store proof_ranges pr_key "AddGeneratedProof io now" "UpdateGeneratedProof io now"
  "DeleteGeneratedProofs io" "CheckProofExistsForBatch io" for io now
proof unfold_locales
  show "proof_ranges db' = proof_ranges db @ [pr_key p]" if "AddGeneratedProof io now p db = Inr db'" for p db db'
    using that by (simp add: AddGeneratedProof_Inr proof_ranges_def)
  show "proof_ranges db' = proof_ranges db" if "UpdateGeneratedProof io now p db = Inr db'" for p db db'
    using that by (rule proof_ranges_update)
  show "proof_ranges db' = filter (\<lambda>r. \<not> inside b f r) (proof_ranges db)"
    if "DeleteGeneratedProofs io b f db = Inr db'" for b f db db'
    using that by (auto simp: DeleteGeneratedProofs_def pg_exec_Inr proof_ranges_def inside_def pr_key_def
        filter_map comp_def)
  show "x \<longleftrightarrow> n \<in> covered (proof_ranges db)" if "CheckProofExistsForBatch io n db = Inr x" for n db x
    using that by (auto simp: CheckProofExistsForBatch_def pg_exec_Inr proof_ranges_def covered_def pr_key_def)
qed

section \<open>What the queries return\<close>

lemma GetProofReadyToVerify_Inr:
  assumes "GetProofReadyToVerify io lst db = Inr p"
  shows "p \<in> set (proof_rows db)" and "pr_BatchNumber p = lst + 1" and "pr_GeneratingSince p = None"
    and "seq_from db (pr_BatchNumber p)" and "seq_to db (pr_BatchNumberFinal p)"
  using assms by (auto simp: GetProofReadyToVerify_def pg_exec_def dest: find_Some_mem split: if_splits option.splits)

lemma GetProofsToAggregate_Inr:
  assumes "GetProofsToAggregate io db = Inr (p1, p2)"
  shows "p1 \<in> set (proof_rows db)" and "p2 \<in> set (proof_rows db)" and "can_aggregate db p1 p2"
    and "\<And>q1 q2. q1 \<in> set (proof_rows db) \<Longrightarrow> q2 \<in> set (proof_rows db) \<Longrightarrow> can_aggregate db q1 q2 \<Longrightarrow>
      pr_BatchNumber p1 \<le> pr_BatchNumber q1"
proof -
  let ?c = "filter (\<lambda>(p1, p2). can_aggregate db p1 p2) (List.product (proof_rows db) (proof_rows db))"
  have "first_asc (\<lambda>(p1, p2). pr_BatchNumber p1) ?c = Some (p1, p2)"
    using assms by (auto simp: GetProofsToAggregate_def pg_exec_def split: if_splits option.splits)
  note f = first_asc_Some [OF this]
  then show "p1 \<in> set (proof_rows db)" "p2 \<in> set (proof_rows db)" "can_aggregate db p1 p2" by auto
  show "pr_BatchNumber p1 \<le> pr_BatchNumber q1"
    if "q1 \<in> set (proof_rows db)" "q2 \<in> set (proof_rows db)" "can_aggregate db q1 q2" for q1 q2
    using f that by (auto dest!: bspec [of _ _ "(q1, q2)"])
qed

lemma can_aggregate_adjacent:
  "can_aggregate db p1 p2 \<Longrightarrow> unat (pr_BatchNumber p2) = Suc (unat (pr_BatchNumberFinal p1))"
  unfolding can_aggregate_def by linarith

lemma proof_ranges_mem: "p \<in> set (proof_rows db) \<Longrightarrow> pr_key p \<in> set (proof_ranges db)"
  by (simp add: proof_ranges_def)

lemma ranges_filter_rows:
  "ranges_ok (proof_ranges db) \<Longrightarrow> ranges_ok (map pr_key (filter P (proof_rows db)))"
proof -
  assume ok: "ranges_ok (proof_ranges db)"
  then have "distinct (map pr_key (filter P (proof_rows db)))"
    by (auto simp: ranges_ok_def proof_ranges_def distinct_map_filter)
  with ok show ?thesis by (auto simp: ranges_ok_def proof_ranges_def)
qed

text \<open>The sequences: the last range stored for a first batch is the one that is read back.\<close>

lemma AddSequence_reads_back:
  assumes "AddSequence io s db = Inr db'" and "distinct (map st_FromBatchNumber (sequence_rows db))"
  shows "find (\<lambda>r. st_FromBatchNumber r = st_FromBatchNumber s) (sequence_rows db') = Some s"
    and "distinct (map st_FromBatchNumber (sequence_rows db'))"
proof -
  have db': "db' = db\<lparr>sequence_rows := (if seq_from db (st_FromBatchNumber s)
      then map (\<lambda>r. if st_FromBatchNumber r = st_FromBatchNumber s
                  then r\<lparr>st_ToBatchNumber := st_ToBatchNumber s\<rparr> else r) (sequence_rows db)
      else sequence_rows db @ [s])\<rparr>"
    using assms(1) by (simp add: AddSequence_def pg_exec_Inr)
  have keys: "map st_FromBatchNumber (map (\<lambda>r. if st_FromBatchNumber r = st_FromBatchNumber s
      then r\<lparr>st_ToBatchNumber := st_ToBatchNumber s\<rparr> else r) rows) = map st_FromBatchNumber rows" for rows
    by simp
  show "distinct (map st_FromBatchNumber (sequence_rows db'))"
    using assms(2) by (auto simp: db' keys seq_from_def simp del: map_map)
  have hit: "find (\<lambda>r. st_FromBatchNumber r = st_FromBatchNumber s)
      (map (\<lambda>r. if st_FromBatchNumber r = st_FromBatchNumber s
                then r\<lparr>st_ToBatchNumber := st_ToBatchNumber s\<rparr> else r) rows) = Some s"
    if "\<exists>r\<in>set rows. st_FromBatchNumber r = st_FromBatchNumber s" for rows
    using that by (induction rows) auto
  have miss: "find (\<lambda>r. st_FromBatchNumber r = st_FromBatchNumber s) (rows @ [s]) = Some s"
    if "\<not> (\<exists>r\<in>set rows. st_FromBatchNumber r = st_FromBatchNumber s)" for rows
    using that by (induction rows) auto
  show "find (\<lambda>r. st_FromBatchNumber r = st_FromBatchNumber s) (sequence_rows db') = Some s"
    using hit miss by (simp add: db' seq_from_def)
qed

end
