(* ===== verification/Aggregator.thy ===== *)
theory Aggregator
  imports Prover ProofStore L1InfoTree
begin

text \<open>
  The aggregator (\<open>src/aggregator/aggregator.go\<close>, \<open>profitabilitychecker.go\<close>): it has provers generate a proof for every batch on L1,
  aggregates proofs of adjacent ranges, builds a final proof when whole sequences are covered, and settles
  it on L1 or with the agglayer.

  One goroutine per prover runs \<open>Channel\<close>; others settle final proofs, clean up locked rows and handle
  reorgs. They share the tables and the fields of \<open>Aggregator\<close>. While one of them waits (for a prover, for the
  reader of the channel, for a block to be final), the others go on: \<open>ax_meanwhile e held\<close> is what they do to the
  state, \<open>held\<close> being the ranges whose rows the waiting goroutine has locked. \<open>ag_clock\<close> counts the waits, and
  every collaborator is a function of it, so that an answer may change with each wait.

  An operation returns the new state and an \<open>outcome\<close>. A handler that mutates the proof it was given returns it. The
  mutex \<open>stateDBMutex\<close> is only held across a wait by a goroutine that never continues; locking it then blocks.
  A map entry of \<open>accInputHashes\<close> that is absent reads as the zero hash.
\<close>

section \<open>State and collaborators\<close>

record finalProofMsg =
  fm_proverName :: string
  fm_proverID :: string
  fm_recursiveProof :: sproof
  fm_finalProof :: FinalProof

record Aggregator =
  ag_db :: agg_db
  ag_accInputHashes :: "u64 \<Rightarrow> hash"
  ag_timeSendFinalProof :: int
  ag_verifyingProof :: bool
  ag_halted :: bool
  ag_finalProof :: "finalProofMsg list"
  ag_stateDBMutex :: bool
  ag_clock :: nat

datatype checker = ProfitabilityBase int | ProfitabilityAcceptAll

record agg_Config =
  ac_SenderAddress :: string
  ac_ChainID :: u64
  ac_ForkId :: u64
  ac_BatchProofSanityCheckEnabled :: bool
  ac_VerifyProofInterval :: int
  ac_GeneratingProofCleanupThreshold :: string
  ac_AggLayerBackend :: bool
  ac_UseFullWitness :: bool
  ac_SyncModeOnlyEnabled :: bool
  ac_checker :: checker
  ac_StatusFailed :: string

record VirtualBatch =
  vb_BatchNumber :: u64
  vb_BatchL2Data :: bytes
  vb_L1InfoRoot :: "hash option"
  vb_BlockNumber :: u64

record SequencedBatches =
  sb_FromBatchNumber :: u64
  sb_ToBatchNumber :: u64
  sb_Timestamp :: int

record L1Leaf =
  ll_GlobalExitRoot :: hash
  ll_PreviousBlockHash :: hash
  ll_Timestamp :: int

record st_Batch =
  ba_BatchNumber :: u64
  ba_Coinbase :: address
  ba_BatchL2Data :: bytes
  ba_StateRoot :: hash
  ba_LocalExitRoot :: hash
  ba_AccInputHash :: hash
  ba_L1InfoTreeIndex :: u32
  ba_L1InfoRoot :: hash
  ba_Timestamp :: int
  ba_GlobalExitRoot :: hash
  ba_ForcedBatchNum :: "u64 option"
  ba_ChainID :: u64
  ba_ForkID :: u64

record FinalProofInputs =
  fi_FinalProof :: FinalProof
  fi_NewLocalExitRoot :: bytes
  fi_NewStateRoot :: bytes

record agl_Tx =
  at_RollupID :: u32
  at_LastVerifiedBatch :: u64
  at_NewVerifiedBatch :: u64
  at_NewStateRoot :: hash
  at_NewLocalExitRoot :: hash
  at_Proof :: bytes

record ProverInterface =
  pi_Name :: string
  pi_ID :: string
  pi_IsIdle :: "nat \<Rightarrow> error + bool"
  pi_BatchProof :: "nat \<Rightarrow> StatelessInputProver \<Rightarrow> error + string"
  pi_AggregatedProof :: "nat \<Rightarrow> string \<Rightarrow> string \<Rightarrow> error + string"
  pi_FinalProof :: "nat \<Rightarrow> string \<Rightarrow> string \<Rightarrow> error + string"
  pi_WaitRecursiveProof :: "nat \<Rightarrow> string \<Rightarrow> (error + string \<times> hash \<times> hash) outcome"
  pi_WaitFinalProof :: "nat \<Rightarrow> string \<Rightarrow> (error + FinalProof) option"

text \<open>The client of \<open>Prover\<close> as such an interface; a request is the first message of its stream, the polls follow.\<close>

definition prover_client ::
  "proof_lib \<Rightarrow> (nat \<Rightarrow> pv_stream) \<Rightarrow> (nat \<Rightarrow> nat \<Rightarrow> bool) \<Rightarrow> string \<Rightarrow> string \<Rightarrow> ProverInterface"
where
  "prover_client L s stop name i =
     \<lparr>pi_Name = name, pi_ID = i, pi_IsIdle = (\<lambda>t. pv_IsIdle (s t) 0),
      pi_BatchProof = (\<lambda>t. pv_BatchProof (s t) 0), pi_AggregatedProof = (\<lambda>t. pv_AggregatedProof (s t) 0),
      pi_FinalProof = (\<lambda>t. pv_FinalProof (s t) 0),
      pi_WaitRecursiveProof = (\<lambda>t. pv_WaitRecursiveProof L (s t) (stop t) 1),
      pi_WaitFinalProof = (\<lambda>t. pv_WaitFinalProof (s t) (stop t) 1)\<rparr>"

record agg_env =
  ax_io :: "nat \<Rightarrow> io"
  ax_Now :: "nat \<Rightarrow> int"
  ax_ctxDone :: "nat \<Rightarrow> bool"
  ax_meanwhile :: "(u64 \<times> u64) list \<Rightarrow> Aggregator \<Rightarrow> Aggregator"
  ax_GetLatestVerifiedBatchNum :: "nat \<Rightarrow> error + u64"
  ax_GetBatchAccInputHash :: "nat \<Rightarrow> u64 \<Rightarrow> error + hash"
  ax_FinalizedBlockNumber :: "nat \<Rightarrow> nat \<Rightarrow> error + u64"
  ax_BuildTrustedVerifyBatchesTxData :: "u64 \<Rightarrow> u64 \<Rightarrow> FinalProofInputs \<Rightarrow> string \<Rightarrow> error + address \<times> bytes"
  ax_RollupId :: u32
  ax_Sign :: "agl_Tx \<Rightarrow> error + bytes"
  ax_SendTx :: "nat \<Rightarrow> agl_Tx \<Rightarrow> bytes \<Rightarrow> error + hash"
  ax_WaitTxToBeMined :: "nat \<Rightarrow> hash \<Rightarrow> error option"
  ax_TxAdd :: "nat \<Rightarrow> address \<Rightarrow> bytes \<Rightarrow> error + hash"
  ax_PendingResults :: "nat \<Rightarrow> MonitoredTxResult list"
  ax_GetLastestVirtualBatchNumber :: "nat \<Rightarrow> error + u64"
  ax_GetSequenceByBatchNumber :: "nat \<Rightarrow> u64 \<Rightarrow> error + SequencedBatches option"
  ax_GetVirtualBatchByBatchNumber :: "nat \<Rightarrow> u64 \<Rightarrow> error + VirtualBatch"
  ax_L1BlockParentHash :: "nat \<Rightarrow> u64 \<Rightarrow> error + hash"
  ax_GetLeafsByL1InfoRoot :: "nat \<Rightarrow> hash \<Rightarrow> error + L1Leaf list"
  ax_GetL1InfoTreeLeaves :: "nat \<Rightarrow> u32 \<Rightarrow> error + (u32 \<Rightarrow> L1Leaf option)"
  ax_GetBatch :: "nat \<Rightarrow> u64 \<Rightarrow> error + RPCBatch"
  ax_GetWitness :: "nat \<Rightarrow> u64 \<Rightarrow> bool \<Rightarrow> error + bytes"
  ax_Marshal :: "string \<Rightarrow> string \<Rightarrow> error + string"
  ax_AddrString :: "address \<Rightarrow> string"
  ax_rlp :: rlp_lib

text \<open>The not-found error of the L1 synchronizer (an external package) is not the one of \<open>state/\<close>.\<close>

definition entities_ErrNotFound :: error where
  "entities_ErrNotFound = ErrMsg ''entities: object not found''"

definition maxDBBigIntValue :: u64 where
  "maxDBBigIntValue = 9223372036854775807"

section \<open>Waiting and locking\<close>

definition ag_wait :: "agg_env \<Rightarrow> (u64 \<times> u64) list \<Rightarrow> Aggregator \<Rightarrow> Aggregator" where
  "ag_wait e held a = (let a' = ax_meanwhile e held a in a'\<lparr>ag_clock := ag_clock a' + 1\<rparr>)"

definition bind_out :: "'s \<times> 'a outcome \<Rightarrow> ('s \<Rightarrow> 'a \<Rightarrow> 's \<times> 'b outcome) \<Rightarrow> 's \<times> 'b outcome" where
  "bind_out r f = (case r of (s, Ret x) \<Rightarrow> f s x | (s, Blocked) \<Rightarrow> (s, Blocked) | (s, Panicked) \<Rightarrow> (s, Panicked))"

text \<open>\<open>stateDBMutex.Lock()\<close> with a deferred unlock, which also runs on a panic.\<close>

definition with_stateDBMutex ::
  "(Aggregator \<Rightarrow> Aggregator \<times> 'a outcome) \<Rightarrow> Aggregator \<Rightarrow> Aggregator \<times> 'a outcome"
where
  "with_stateDBMutex f a =
     (if ag_stateDBMutex a then (a, Blocked)
      else case f (a\<lparr>ag_stateDBMutex := True\<rparr>) of
             (a', Ret x) \<Rightarrow> (a'\<lparr>ag_stateDBMutex := False\<rparr>, Ret x)
           | (a', Blocked) \<Rightarrow> (a', Blocked)
           | (a', Panicked) \<Rightarrow> (a'\<lparr>ag_stateDBMutex := False\<rparr>, Panicked))"

abbreviation ag_io :: "agg_env \<Rightarrow> Aggregator \<Rightarrow> io" where
  "ag_io e a \<equiv> ax_io e (ag_clock a)"

abbreviation ag_now :: "agg_env \<Rightarrow> Aggregator \<Rightarrow> int" where
  "ag_now e a \<equiv> ax_Now e (ag_clock a)"

text \<open>A statement outside a transaction: its effect on the tables, or its error.\<close>

definition exec_db :: "error + agg_db \<Rightarrow> Aggregator \<Rightarrow> Aggregator \<times> error option" where
  "exec_db r a = (case r of Inl x \<Rightarrow> (a, Some x) | Inr db \<Rightarrow> (a\<lparr>ag_db := db\<rparr>, None))"

section \<open>Accumulated input hashes\<close>

definition getAccInputHash :: "Aggregator \<Rightarrow> u64 \<Rightarrow> hash" where
  "getAccInputHash a batchNumber = ag_accInputHashes a batchNumber"

definition setAccInputHash :: "u64 \<Rightarrow> hash \<Rightarrow> Aggregator \<Rightarrow> Aggregator" where
  "setAccInputHash batchNumber accInputHash a =
     a\<lparr>ag_accInputHashes := (ag_accInputHashes a)(batchNumber := accInputHash)\<rparr>"

partial_function (option) remove_loop :: "u64 \<Rightarrow> u64 \<Rightarrow> (u64 \<Rightarrow> hash) \<Rightarrow> (u64 \<Rightarrow> hash) option" where
  "remove_loop i lastBatch m =
     (if i \<le> lastBatch then remove_loop (i + 1) lastBatch (m(i := 0)) else Some m)"

definition removeAccInputHashes :: "u64 \<Rightarrow> u64 \<Rightarrow> Aggregator \<Rightarrow> Aggregator \<times> unit outcome" where
  "removeAccInputHashes firstBatch lastBatch a =
     (case remove_loop firstBatch lastBatch (ag_accInputHashes a) of
        None \<Rightarrow> (a, Blocked)
      | Some m \<Rightarrow> (a\<lparr>ag_accInputHashes := m\<rparr>, Ret ()))"

definition getVerifiedBatchAccInputHash :: "agg_env \<Rightarrow> Aggregator \<Rightarrow> u64 \<Rightarrow> error + hash" where
  "getVerifiedBatchAccInputHash e a batchNumber = ax_GetBatchAccInputHash e (ag_clock a) batchNumber"

section \<open>Reorgs, rollbacks and start\<close>

text \<open>After a reorg the handler never returns.\<close>

definition handleReorg :: "agg_env \<Rightarrow> Aggregator \<Rightarrow> Aggregator \<times> unit outcome" where
  "handleReorg e a =
     (let a1 =
        (case ax_GetLastestVirtualBatchNumber e (ag_clock a) of
           Inl _ \<Rightarrow> a
         | Inr lastVBatchNumber \<Rightarrow>
             let a2 = fst (exec_db (DeleteUngeneratedProofs (ag_io e a) (ag_db a)) a)
             in fst (exec_db (DeleteGeneratedProofs (ag_io e a) (lastVBatchNumber + 1) maxDBBigIntValue (ag_db a2)) a2))
      in (a1\<lparr>ag_halted := True\<rparr>, Blocked))"

definition handleRollbackBatches :: "agg_env \<Rightarrow> u64 \<Rightarrow> Aggregator \<Rightarrow> Aggregator \<times> unit outcome" where
  "handleRollbackBatches e LastBatchNumber a =
     (let halt = (\<lambda>a. (a\<lparr>ag_halted := True\<rparr>, Blocked)) in
      case ax_GetLatestVerifiedBatchNum e (ag_clock a) of
        Inl _ \<Rightarrow> halt a
      | Inr lastVerifiedBatchNumber \<Rightarrow>
          if lastVerifiedBatchNumber > LastBatchNumber then halt a
          else case getVerifiedBatchAccInputHash e a lastVerifiedBatchNumber of
            Inl _ \<Rightarrow> halt a
          | Inr accInputHash \<Rightarrow>
              let a1 = setAccInputHash lastVerifiedBatchNumber accInputHash (a\<lparr>ag_accInputHashes := (\<lambda>_. 0)\<rparr>)
              in case exec_db (DeleteUngeneratedProofs (ag_io e a) (ag_db a1)) a1 of
                   (a2, Some _) \<Rightarrow> halt a2
                 | (a2, None) \<Rightarrow>
                     (case exec_db (DeleteGeneratedProofs (ag_io e a) (LastBatchNumber + 1) maxDBBigIntValue (ag_db a2)) a2 of
                        (a3, Some _) \<Rightarrow> halt a3
                      | (a3, None) \<Rightarrow> (a3, Ret ())))"

definition resetVerifyProofTime :: "agg_env \<Rightarrow> agg_Config \<Rightarrow> Aggregator \<Rightarrow> Aggregator" where
  "resetVerifyProofTime e cfg a = a\<lparr>ag_timeSendFinalProof := ag_now e a + ac_VerifyProofInterval cfg\<rparr>"

text \<open>\<open>Start\<close>, after the initial synchronization and the server set-up.\<close>

definition agg_Start :: "agg_env \<Rightarrow> agg_Config \<Rightarrow> Aggregator \<Rightarrow> Aggregator \<times> error option" where
  "agg_Start e cfg a =
     (if ac_SyncModeOnlyEnabled cfg then (a, None)
      else case ax_GetLatestVerifiedBatchNum e (ag_clock a) of
        Inl x \<Rightarrow> (a, Some x)
      | Inr lastVerifiedBatchNumber \<Rightarrow>
          (case getVerifiedBatchAccInputHash e a lastVerifiedBatchNumber of
             Inl x \<Rightarrow> (a, Some x)
           | Inr accInputHash \<Rightarrow>
               let a1 = setAccInputHash lastVerifiedBatchNumber accInputHash a
               in case exec_db (DeleteGeneratedProofs (ag_io e a) lastVerifiedBatchNumber maxDBBigIntValue (ag_db a1)) a1 of
                    (a2, Some x) \<Rightarrow> (a2, Some x)
                  | (a2, None) \<Rightarrow> (resetVerifyProofTime e cfg a2, None)))"

section \<open>When to verify\<close>

definition canVerifyProof :: "agg_env \<Rightarrow> Aggregator \<Rightarrow> bool" where
  "canVerifyProof e a \<longleftrightarrow> ag_timeSendFinalProof a < ag_now e a \<and> \<not> ag_verifyingProof a"

definition startProofVerification :: "Aggregator \<Rightarrow> Aggregator" where
  "startProofVerification a = a\<lparr>ag_verifyingProof := True\<rparr>"

definition endProofVerification :: "Aggregator \<Rightarrow> Aggregator" where
  "endProofVerification a = a\<lparr>ag_verifyingProof := False\<rparr>"

section \<open>Building a final proof\<close>

definition getAndLockProofReadyToVerify ::
  "agg_env \<Rightarrow> u64 \<Rightarrow> Aggregator \<Rightarrow> Aggregator \<times> (error + sproof) outcome"
where
  "getAndLockProofReadyToVerify e lastVerifiedBatchNum = with_stateDBMutex (\<lambda>a.
     case GetProofReadyToVerify (ag_io e a) lastVerifiedBatchNum (ag_db a) of
       Inl x \<Rightarrow> (a, Ret (Inl x))
     | Inr p \<Rightarrow>
         let p1 = p\<lparr>pr_GeneratingSince := Some (ag_now e a)\<rparr>
         in case exec_db (UpdateGeneratedProof (ag_io e a) (ag_now e a) p1 (ag_db a)) a of
              (a1, Some x) \<Rightarrow> (a1, Ret (Inl x))
            | (a1, None) \<Rightarrow> (a1, Ret (Inr p1)))"

definition mockedStateRoot :: string where
  "mockedStateRoot = ''0x090bcaf734c4f06c93954a827b45a6e8c67b8e0fd1e0a35a1c5982d6961828f9''"

definition mockedLocalExitRoot :: string where
  "mockedLocalExitRoot = ''0x17c04c3760510b48c6012742c540a81aba4bca2f78b9d14bfd2f123e2e53ea3e''"

text \<open>A final proof with the roots of the mock prover gets those of the RPC node.\<close>

definition unmock ::
  "agg_env \<Rightarrow> Aggregator \<Rightarrow> u64 \<Rightarrow> FinalProof \<Rightarrow> (error + FinalProof) outcome"
where
  "unmock e a batchNumberFinal finalProof =
     (case fp_Public finalProof of
        None \<Rightarrow> Panicked
      | Some pub \<Rightarrow>
          if px_NewStateRoot pub = ascii mockedStateRoot \<and> px_NewLocalExitRoot pub = ascii mockedLocalExitRoot
          then (case ax_GetBatch e (ag_clock a) batchNumberFinal of
                  Inl x \<Rightarrow> Ret (Inl x)
                | Inr rpcFinalBatch \<Rightarrow>
                    Ret (Inr (finalProof\<lparr>fp_Public := Some (pub\<lparr>px_NewStateRoot := hash_bytes (rb_stateRoot rpcFinalBatch),
                       px_NewLocalExitRoot := hash_bytes (rb_localExitRoot rpcFinalBatch)\<rparr>)\<rparr>)))
          else Ret (Inr finalProof))"

text \<open>The proof is returned too, since its identifier becomes the one of the final proof.\<close>

definition buildFinalProof ::
  "agg_env \<Rightarrow> agg_Config \<Rightarrow> ProverInterface \<Rightarrow> sproof \<Rightarrow> Aggregator \<Rightarrow> Aggregator \<times> (sproof \<times> (error + FinalProof)) outcome"
where
  "buildFinalProof e cfg pv p a =
     (if pr_ProofID p = None then (a, Panicked)
      else case pi_FinalProof pv (ag_clock a) (pr_Proof p) (ac_SenderAddress cfg) of
        Inl x \<Rightarrow> (a, Ret (p, Inl x))
      | Inr finalProofID \<Rightarrow>
          let p1 = p\<lparr>pr_ProofID := Some finalProofID\<rparr>; a1 = ag_wait e [pr_key p] a
          in case pi_WaitFinalProof pv (ag_clock a) finalProofID of
               None \<Rightarrow> (a1, Blocked)
             | Some (Inl x) \<Rightarrow> (a1, Ret (p1, Inl x))
             | Some (Inr finalProof) \<Rightarrow>
                 bind_out (a1, unmock e a1 (pr_BatchNumberFinal p) finalProof) (\<lambda>a2 r. (a2, Ret (p1, r))))"

definition validateEligibleFinalProof ::
  "agg_env \<Rightarrow> sproof \<Rightarrow> u64 \<Rightarrow> Aggregator \<Rightarrow> Aggregator \<times> (error + bool)"
where
  "validateEligibleFinalProof e p lastVerifiedBatchNum a =
     (let batchNumberToVerify = lastVerifiedBatchNum + 1;
          complete = (a, CheckProofContainsCompleteSequences (ag_io e a) p (ag_db a))
      in if pr_BatchNumber p \<noteq> batchNumberToVerify then
           if pr_BatchNumber p < batchNumberToVerify \<and> pr_BatchNumberFinal p \<ge> batchNumberToVerify then complete
           else if pr_BatchNumberFinal p < batchNumberToVerify then
             (case exec_db (DeleteGeneratedProofs (ag_io e a) (pr_BatchNumber p) (pr_BatchNumberFinal p) (ag_db a)) a of
                (a1, Some x) \<Rightarrow> (a1, Inl x)
              | (a1, None) \<Rightarrow> (a1, Inr False))
           else (a, Inr False)
         else complete)"

text \<open>From an eligible proof to the channel; the wait is for the goroutine that reads it.\<close>

definition build_and_send ::
  "agg_env \<Rightarrow> agg_Config \<Rightarrow> ProverInterface \<Rightarrow> sproof \<Rightarrow> Aggregator \<Rightarrow>
   Aggregator \<times> (sproof \<times> bool \<times> error option \<times> bool) outcome"
where
  "build_and_send e cfg pv p a =
     (if pr_ProofID p = None then (a, Panicked)
      else bind_out (buildFinalProof e cfg pv p a) (\<lambda>a1 (p1, r).
        case r of
          Inl x \<Rightarrow> (a1, Ret (p1, False, Some x, True))
        | Inr finalProof \<Rightarrow>
            let msg = \<lparr>fm_proverName = pi_Name pv, fm_proverID = pi_ID pv, fm_recursiveProof = p1,
                       fm_finalProof = finalProof\<rparr>;
                a2 = ag_wait e [pr_key p] a1
            in if ax_ctxDone e (ag_clock a1) then (a2, Ret (p1, False, Some ErrCanceled, False))
               else (a2\<lparr>ag_finalProof := ag_finalProof a2 @ [msg]\<rparr>, Ret (p1, True, None, False))))"

text \<open>
  Without a proof, the one ready to verify is locked and, when building fails, unlocked by the deferred
  function. It does not run the unlock when the context is done, because that error is returned without being assigned.
  The result is the proof (when there is one), whether the final proof was built, and the error.
\<close>

definition tryBuildFinalProof ::
  "agg_env \<Rightarrow> agg_Config \<Rightarrow> ProverInterface \<Rightarrow> sproof option \<Rightarrow> Aggregator \<Rightarrow>
   Aggregator \<times> (sproof option \<times> bool \<times> error option) outcome"
where
  "tryBuildFinalProof e cfg pv proof_opt a =
     (if \<not> canVerifyProof e a then (a, Ret (proof_opt, False, None))
      else case ax_GetLatestVerifiedBatchNum e (ag_clock a) of
        Inl x \<Rightarrow> (a, Ret (proof_opt, False, Some x))
      | Inr lastVerifiedBatchNumber \<Rightarrow>
          (case proof_opt of
             None \<Rightarrow>
               bind_out (getAndLockProofReadyToVerify e lastVerifiedBatchNumber a) (\<lambda>a1 r.
                 case r of
                   Inl x \<Rightarrow> (a1, Ret (None, False, if x = ErrNotFound then None else Some x))
                 | Inr p \<Rightarrow>
                     bind_out (build_and_send e cfg pv p a1) (\<lambda>a2 (p1, built, err, assigned).
                       if assigned
                       then let p2 = p1\<lparr>pr_GeneratingSince := None\<rparr>
                            in (fst (exec_db (UpdateGeneratedProof (ag_io e a2) (ag_now e a2) p2 (ag_db a2)) a2),
                                Ret (Some p2, built, err))
                       else (a2, Ret (Some p1, built, err))))
           | Some p \<Rightarrow>
               (case validateEligibleFinalProof e p lastVerifiedBatchNumber a of
                  (a1, Inl x) \<Rightarrow> (a1, Ret (Some p, False, Some x))
                | (a1, Inr False) \<Rightarrow> (a1, Ret (Some p, False, None))
                | (a1, Inr True) \<Rightarrow>
                    bind_out (build_and_send e cfg pv p a1) (\<lambda>a2 (p1, built, err, _). (a2, Ret (Some p1, built, err))))))"

section \<open>Aggregating two proofs\<close>

text \<open>Two updates in one transaction; on an error nothing is kept.\<close>

definition update_both :: "io \<Rightarrow> int \<Rightarrow> sproof \<Rightarrow> sproof \<Rightarrow> agg_db \<Rightarrow> error + agg_db" where
  "update_both io now p1 p2 db =
     (if io SqlBegin then Inl ErrSQL
      else case UpdateGeneratedProof io now p1 db of
        Inl x \<Rightarrow> Inl (if io SqlRollback then ErrSQL else x)
      | Inr db1 \<Rightarrow>
          (case UpdateGeneratedProof io now p2 db1 of
             Inl x \<Rightarrow> Inl (if io SqlRollback then ErrSQL else x)
           | Inr db2 \<Rightarrow> if io SqlCommit then Inl ErrSQL else Inr db2))"

definition unlockProofsToAggregate :: "agg_env \<Rightarrow> sproof \<Rightarrow> sproof \<Rightarrow> Aggregator \<Rightarrow> Aggregator \<times> error option" where
  "unlockProofsToAggregate e p1 p2 a =
     exec_db (update_both (ag_io e a) (ag_now e a) (p1\<lparr>pr_GeneratingSince := None\<rparr>)
       (p2\<lparr>pr_GeneratingSince := None\<rparr>) (ag_db a)) a"

definition getAndLockProofsToAggregate ::
  "agg_env \<Rightarrow> Aggregator \<Rightarrow> Aggregator \<times> (error + sproof \<times> sproof) outcome"
where
  "getAndLockProofsToAggregate e = with_stateDBMutex (\<lambda>a.
     case GetProofsToAggregate (ag_io e a) (ag_db a) of
       Inl x \<Rightarrow> (a, Ret (Inl x))
     | Inr (p1, p2) \<Rightarrow>
         let q1 = p1\<lparr>pr_GeneratingSince := Some (ag_now e a)\<rparr>; q2 = p2\<lparr>pr_GeneratingSince := Some (ag_now e a)\<rparr>
         in case exec_db (update_both (ag_io e a) (ag_now e a) q1 q2 (ag_db a)) a of
              (a1, Some x) \<Rightarrow> (a1, Ret (Inl x))
            | (a1, None) \<Rightarrow> (a1, Ret (Inr (q1, q2))))"

text \<open>The two proofs are replaced by the aggregated one in a transaction.\<close>

definition replace_proofs :: "io \<Rightarrow> int \<Rightarrow> sproof \<Rightarrow> agg_db \<Rightarrow> error + agg_db" where
  "replace_proofs io now p db =
     (if io SqlBegin then Inl ErrSQL
      else case DeleteGeneratedProofs io (pr_BatchNumber p) (pr_BatchNumberFinal p) db of
        Inl x \<Rightarrow> Inl (if io SqlRollback then ErrSQL else x)
      | Inr db1 \<Rightarrow>
          (case AddGeneratedProof io now p db1 of
             Inl x \<Rightarrow> Inl (if io SqlRollback then ErrSQL else x)
           | Inr db2 \<Rightarrow> if io SqlCommit then Inl ErrSQL else Inr db2))"

text \<open>What \<open>tryAggregateProofs\<close> and \<open>tryGenerateBatchProof\<close> do with a proof they have just stored.\<close>

definition finish_proof ::
  "agg_env \<Rightarrow> agg_Config \<Rightarrow> ProverInterface \<Rightarrow> sproof \<Rightarrow> Aggregator \<Rightarrow> Aggregator \<times> (bool \<times> error option) outcome"
where
  "finish_proof e cfg pv p a =
     bind_out (tryBuildFinalProof e cfg pv (Some p) a) (\<lambda>a1 (p_opt, finalProofBuilt, _).
       if finalProofBuilt then (a1, Ret (True, None))
       else
         let p1 = (case p_opt of None \<Rightarrow> p | Some q \<Rightarrow> q)\<lparr>pr_GeneratingSince := None\<rparr>
         in case exec_db (UpdateGeneratedProof (ag_io e a1) (ag_now e a1) p1 (ag_db a1)) a1 of
              (a2, Some x) \<Rightarrow> (a2, Ret (False, Some x))
            | (a2, None) \<Rightarrow> (a2, Ret (True, None)))"

definition tryAggregateProofs ::
  "agg_env \<Rightarrow> agg_Config \<Rightarrow> ProverInterface \<Rightarrow> Aggregator \<Rightarrow> Aggregator \<times> (bool \<times> error option) outcome"
where
  "tryAggregateProofs e cfg pv a =
     bind_out (getAndLockProofsToAggregate e a) (\<lambda>a1 r.
       case r of
         Inl x \<Rightarrow> (a1, Ret (False, if x = ErrNotFound then None else Some x))
       | Inr (p1, p2) \<Rightarrow>
           let fail = (\<lambda>a x. (fst (unlockProofsToAggregate e p1 p2 a), Ret (False, Some x))) in
           case ax_Marshal e (pr_Proof p1) (pr_Proof p2) of
             Inl x \<Rightarrow> fail a1 x
           | Inr inputProver \<Rightarrow>
               (case pi_AggregatedProof pv (ag_clock a1) (pr_Proof p1) (pr_Proof p2) of
                  Inl x \<Rightarrow> fail a1 x
                | Inr aggrProofID \<Rightarrow>
                    bind_out (ag_wait e [pr_key p1, pr_key p2] a1, pi_WaitRecursiveProof pv (ag_clock a1) aggrProofID) (\<lambda>a2 w.
                      case w of
                        Inl x \<Rightarrow> fail a2 x
                      | Inr (recursiveProof, _, _) \<Rightarrow>
                          let p = \<lparr>pr_BatchNumber = pr_BatchNumber p1, pr_BatchNumberFinal = pr_BatchNumberFinal p2,
                                   pr_Proof = recursiveProof, pr_InputProver = inputProver,
                                   pr_ProofID = Some aggrProofID, pr_Prover = Some (pi_Name pv),
                                   pr_ProverID = Some (pi_ID pv), pr_GeneratingSince = Some (ag_now e a2),
                                   pr_CreatedAt = 0, pr_UpdatedAt = 0\<rparr>
                          in case exec_db (replace_proofs (ag_io e a2) (ag_now e a2) p (ag_db a2)) a2 of
                               (a3, Some x) \<Rightarrow> fail a3 x
                             | (a3, None) \<Rightarrow> finish_proof e cfg pv p a3)))"

section \<open>Choosing a batch to prove\<close>

text \<open>
  The search for the first batch after \<open>n\<close> without a proof. It ends early, with \<open>True\<close>, at a batch that has a proof
  while the hash of the batch before is not in memory. It always ends, since the driver refuses numbers from \<open>2^63\<close> on.
\<close>

lemma CheckProofExists_bigint: "CheckProofExistsForBatch io n db = Inr x \<Longrightarrow> unat n < 2 ^ 63"
  by (auto simp: CheckProofExistsForBatch_def pg_exec_Inr pg_bigint_def)

function find_batch :: "io \<Rightarrow> Aggregator \<Rightarrow> u64 \<Rightarrow> error + u64 \<times> bool" where
  "find_batch io a n =
     (case CheckProofExistsForBatch io (n + 1) (ag_db a) of
        Inl x \<Rightarrow> Inl x
      | Inr proofExists \<Rightarrow>
          if \<not> proofExists then Inr (n + 1, False)
          else if getAccInputHash a (n + 1 - 1) = 0 \<and> n + 1 > 1 then Inr (n + 1, True)
          else find_batch io a (n + 1))"
  by pat_completeness auto
termination
proof (relation "measure (\<lambda>(io, a, n). if n = - 1 then 2 ^ 63 + 1 else 2 ^ 63 - unat n)")
  fix io a n x
  assume "CheckProofExistsForBatch io (n + 1) (ag_db a) = Inr x"
  then have lt: "unat (n + 1) < 2 ^ 63" by (rule CheckProofExists_bigint)
  then have "n + 1 \<noteq> - 1"
  proof -
    have "\<not> unat (- 1 :: u64) < 2 ^ 63" by (simp add: unsigned_minus_1_eq_mask mask_eq_exp_minus_1)
    with lt show ?thesis by metis
  qed
  moreover have "unat (n + 1) = unat n + 1" if "n \<noteq> - 1" using that by (metis unatSuc add.commute eq_neg_iff_add_eq_0 Suc_eq_plus1)
  ultimately show "((io, a, n + 1), io, a, n) \<in> measure (\<lambda>(io, a, n). if n = - 1 then 2 ^ 63 + 1 else 2 ^ 63 - unat n)"
    using lt by auto
qed simp

declare find_batch.simps [simp del]

definition IsProfitable :: "checker \<Rightarrow> int \<Rightarrow> bool" where
  "IsProfitable c polCollateral =
     (case c of ProfitabilityBase minReward \<Rightarrow> polCollateral \<ge> minReward | ProfitabilityAcceptAll \<Rightarrow> True)"

text \<open>Everything that is read for batch \<open>n\<close>, up to the accumulated input hash. A missing L1 info root is made a
  pointer to the variable \<open>l1InfoRoot\<close>, which the first batch then overwrites.\<close>

definition batch_data ::
  "keccak \<Rightarrow> agg_env \<Rightarrow> agg_Config \<Rightarrow> u64 \<Rightarrow> Aggregator \<Rightarrow> error + st_Sequence \<times> VirtualBatch \<times> st_Batch"
where
  "batch_data K e cfg n a =
     (let t = ag_clock a in
      case ax_GetSequenceByBatchNumber e t n of
        Inl x \<Rightarrow> Inl (if x = entities_ErrNotFound then ErrNotFound else x)
      | Inr None \<Rightarrow> Inl ErrNotFound
      | Inr (Some sequence) \<Rightarrow>
          (case ax_GetVirtualBatchByBatchNumber e t n of
             Inl x \<Rightarrow> Inl (if x = entities_ErrNotFound then ErrNotFound else x)
           | Inr virtualBatch \<Rightarrow>
               (case ax_GetBatch e t n of
                  Inl x \<Rightarrow> Inl x
                | Inr rpcBatch \<Rightarrow>
                    let virtualRoot = (case vb_L1InfoRoot virtualBatch of None \<Rightarrow> 0 | Some r \<Rightarrow> r);
                        oldAccInputHash = getAccInputHash a (n - 1)
                    in if oldAccInputHash = 0 \<and> n > 1 then Inl ErrNotFound
                       else bind_err (if n = 1
                              then (case ax_L1BlockParentHash e t (vb_BlockNumber virtualBatch) of
                                      Inl x \<Rightarrow> Inl x
                                    | Inr parentHash \<Rightarrow> Inr (parentHash, rb_globalExitRoot rpcBatch))
                              else Inr (0, virtualRoot))
                         (\<lambda>(forcedBlockHashL1, l1InfoRoot).
                            let accInputHash = CalculateAccInputHash K oldAccInputHash (vb_BatchL2Data virtualBatch)
                                  l1InfoRoot (of_int (sb_Timestamp sequence)) (rb_coinbase rpcBatch) forcedBlockHashL1
                            in Inr (\<lparr>st_FromBatchNumber = sb_FromBatchNumber sequence,
                                     st_ToBatchNumber = sb_ToBatchNumber sequence\<rparr>, virtualBatch,
                                 \<lparr>ba_BatchNumber = rb_batchNumber rpcBatch, ba_Coinbase = rb_coinbase rpcBatch,
                                  ba_BatchL2Data = vb_BatchL2Data virtualBatch, ba_StateRoot = rb_stateRoot rpcBatch,
                                  ba_LocalExitRoot = rb_localExitRoot rpcBatch, ba_AccInputHash = accInputHash,
                                  ba_L1InfoTreeIndex = rb_l1InfoTreeIndex rpcBatch,
                                  ba_L1InfoRoot = (if vb_L1InfoRoot virtualBatch = None then l1InfoRoot else virtualRoot),
                                  ba_Timestamp = sb_Timestamp sequence, ba_GlobalExitRoot = rb_globalExitRoot rpcBatch,
                                  ba_ForcedBatchNum = None, ba_ChainID = ac_ChainID cfg, ba_ForkID = ac_ForkId cfg\<rparr>)))))"

text \<open>
  The search and, when it ended early, the removal of all proofs: the number of the batch to prove.
\<close>

definition choose_batch :: "agg_env \<Rightarrow> Aggregator \<Rightarrow> Aggregator \<times> (error + u64)" where
  "choose_batch e a =
     (case ax_GetLatestVerifiedBatchNum e (ag_clock a) of
        Inl x \<Rightarrow> (a, Inl x)
      | Inr lastVerifiedBatchNumber \<Rightarrow>
          (case find_batch (ag_io e a) a lastVerifiedBatchNumber of
             Inl x \<Rightarrow> (a, Inl x)
           | Inr (n, False) \<Rightarrow> (a, Inr n)
           | Inr (n, True) \<Rightarrow>
               (case exec_db (CleanupGeneratedProofs (ag_io e a) maxDBBigIntValue (ag_db a)) a of
                  (a1, Some x) \<Rightarrow> (a1, Inl x)
                | (a1, None) \<Rightarrow> (a1, Inr (n - 1)))))"

text \<open>
  The witness is requested once: with an error the loop around it never ends, and the mutex stays locked.
  A batch that is not profitable is returned as three nil pointers without an error, here \<open>Inr None\<close>.
\<close>

definition lock_batch ::
  "agg_env \<Rightarrow> agg_Config \<Rightarrow> ProverInterface \<Rightarrow> u64 \<Rightarrow> st_Sequence \<times> VirtualBatch \<times> st_Batch \<Rightarrow> Aggregator \<Rightarrow>
   Aggregator \<times> (error + (st_Batch \<times> bytes \<times> sproof) option) outcome"
where
  "lock_batch e cfg pv n d a =
     (let (stateSequence, virtualBatch, stateBatch) = d in
      case ax_GetWitness e (ag_clock a) n (ac_UseFullWitness cfg) of
        Inl x \<Rightarrow> (a, Blocked)
      | Inr witness \<Rightarrow>
          (case exec_db (AddSequence (ag_io e a) stateSequence (ag_db a)) a of
             (a1, Some x) \<Rightarrow> (a1, Ret (Inl x))
           | (a1, None) \<Rightarrow>
               if \<not> IsProfitable (ac_checker cfg) 0 then (a1, Ret (Inr None))
               else
                 let p = \<lparr>pr_BatchNumber = vb_BatchNumber virtualBatch, pr_BatchNumberFinal = vb_BatchNumber virtualBatch,
                          pr_Proof = [], pr_InputProver = [], pr_ProofID = None, pr_Prover = Some (pi_Name pv),
                          pr_ProverID = Some (pi_ID pv), pr_GeneratingSince = Some (ag_now e a1),
                          pr_CreatedAt = 0, pr_UpdatedAt = 0\<rparr>
                 in case exec_db (AddGeneratedProof (ag_io e a1) (ag_now e a1) p (ag_db a1)) a1 of
                      (a2, Some x) \<Rightarrow> (a2, Ret (Inl x))
                    | (a2, None) \<Rightarrow> (a2, Ret (Inr (Some (stateBatch, witness, p))))))"

definition getAndLockBatchToProve ::
  "keccak \<Rightarrow> agg_env \<Rightarrow> agg_Config \<Rightarrow> ProverInterface \<Rightarrow> Aggregator \<Rightarrow>
   Aggregator \<times> (error + (st_Batch \<times> bytes \<times> sproof) option) outcome"
where
  "getAndLockBatchToProve K e cfg pv = with_stateDBMutex (\<lambda>a.
     case choose_batch e a of
       (a1, Inl x) \<Rightarrow> (a1, Ret (Inl x))
     | (a1, Inr n) \<Rightarrow>
         (case batch_data K e cfg n a1 of
            Inl x \<Rightarrow> (a1, Ret (Inl x))
          | Inr (s, v, b) \<Rightarrow> lock_batch e cfg pv n (s, v, b) (setAccInputHash n (ba_AccInputHash b) a1)))"

section \<open>The input of the prover\<close>

definition zero_leaf :: L1Leaf where
  "zero_leaf = \<lparr>ll_GlobalExitRoot = 0, ll_PreviousBlockHash = 0, ll_Timestamp = - 62135596800\<rparr>"

definition l1info_mismatch :: error where
  "l1info_mismatch = ErrMsg ''error: l1InfoRoot mismatch''"

fun l1_data_loop ::
  "keccak \<Rightarrow> (u32 \<Rightarrow> error + (u32 \<Rightarrow> L1Leaf option)) \<Rightarrow> L1InfoTree \<Rightarrow> hash \<Rightarrow> hash list \<Rightarrow> L2BlockRaw list \<Rightarrow>
   (u32 \<times> L1Data) list \<Rightarrow> error + (u32 \<times> L1Data) list"
where
  "l1_data_loop K get tree root aLeaves [] acc = Inr acc"
| "l1_data_loop K get tree root aLeaves (l2blockRaw # bs) acc =
     (let i = IndexL1InfoTree (bl_Header l2blockRaw) in
      if map_of acc i = None \<and> i \<noteq> 0
      then (case get i of
              Inl x \<Rightarrow> Inl x
            | Inr leaves \<Rightarrow>
                let l1InfoTreeLeaf = (case leaves i of None \<Rightarrow> zero_leaf | Some l \<Rightarrow> l) in
                case ComputeMerkleProof K tree i aLeaves of
                  Inl x \<Rightarrow> Inl x
                | Inr (smtProof, calculatedL1InfoRoot) \<Rightarrow>
                    if root \<noteq> calculatedL1InfoRoot then Inl l1info_mismatch
                    else l1_data_loop K get tree root aLeaves bs
                           (acc @ [(i, \<lparr>ld_GlobalExitRoot = hash_bytes (ll_GlobalExitRoot l1InfoTreeLeaf),
                                        ld_BlockhashL1 = hash_bytes (ll_PreviousBlockHash l1InfoTreeLeaf),
                                        ld_MinTimestamp = of_int (ll_Timestamp l1InfoTreeLeaf),
                                        ld_SmtProof = map hash_bytes smtProof\<rparr>)]))
      else l1_data_loop K get tree root aLeaves bs acc)"

definition leaf_hash :: "keccak \<Rightarrow> L1Leaf \<Rightarrow> hash" where
  "leaf_hash K l = HashLeafData K (ll_GlobalExitRoot l) (ll_PreviousBlockHash l) (of_int (ll_Timestamp l))"

text \<open>The L1 data of a regular batch, and the root and block hash of the first one.\<close>

definition l1_data :: "keccak \<Rightarrow> agg_env \<Rightarrow> Aggregator \<Rightarrow> st_Batch \<Rightarrow> (error + (u32 \<times> L1Data) list) outcome" where
  "l1_data K e a b =
     (case DecodeBatchV2 (ax_rlp e) (ba_BatchL2Data b) of
        None \<Rightarrow> Blocked
      | Some (Inl x) \<Rightarrow> if x = ErrPanic then Panicked else Ret (Inl x)
      | Some (Inr batchRawData) \<Rightarrow>
          (case NewL1InfoTree K 32 [] of
             Inl x \<Rightarrow> Ret (Inl x)
           | Inr tree \<Rightarrow>
               (case ax_GetLeafsByL1InfoRoot e (ag_clock a) (ba_L1InfoRoot b) of
                  Inl x \<Rightarrow>
                    if x \<noteq> entities_ErrNotFound then Ret (Inl x)
                    else Ret (l1_data_loop K (ax_GetL1InfoTreeLeaves e (ag_clock a)) tree (ba_L1InfoRoot b) []
                                (Blocks batchRawData) [])
                | Inr leaves \<Rightarrow>
                    Ret (l1_data_loop K (ax_GetL1InfoTreeLeaves e (ag_clock a)) tree (ba_L1InfoRoot b)
                           (map (leaf_hash K) leaves) (Blocks batchRawData) []))))"

definition first_batch_data :: "agg_env \<Rightarrow> Aggregator \<Rightarrow> st_Batch \<Rightarrow> error + hash \<times> hash" where
  "first_batch_data e a b =
     (if ba_BatchNumber b = 1
      then (case ax_GetVirtualBatchByBatchNumber e (ag_clock a) (ba_BatchNumber b) of
              Inl x \<Rightarrow> Inl x
            | Inr virtualBatch \<Rightarrow>
                (case ax_L1BlockParentHash e (ag_clock a) (vb_BlockNumber virtualBatch) of
                   Inl x \<Rightarrow> Inl x
                 | Inr parentHash \<Rightarrow> Inr (parentHash, ba_GlobalExitRoot b)))
      else Inr (0, ba_L1InfoRoot b))"

definition missing_acc :: error where
  "missing_acc = ErrMsg ''acc input hash for previous batch is not in memory''"

definition input_prover ::
  "agg_env \<Rightarrow> agg_Config \<Rightarrow> Aggregator \<Rightarrow> st_Batch \<Rightarrow> bytes \<Rightarrow> (u32 \<times> L1Data) list \<Rightarrow> hash \<times> hash \<Rightarrow>
   error + StatelessInputProver"
where
  "input_prover e cfg a b witness l1InfoTreeData r =
     (let (forcedBlockhashL1, l1InfoRoot) = r; oldAccInputHash = getAccInputHash a (ba_BatchNumber b - 1) in
      if oldAccInputHash = 0 \<and> ba_BatchNumber b > 1 then Inl missing_acc
      else Inr \<lparr>ip_Witness = witness, ip_OldAccInputHash = hash_bytes oldAccInputHash,
                ip_OldBatchNum = ba_BatchNumber b - 1, ip_ChainId = ba_ChainID b, ip_ForkId = ba_ForkID b,
                ip_BatchL2Data = ba_BatchL2Data b, ip_L1InfoRoot = hash_bytes l1InfoRoot,
                ip_TimestampLimit = of_int (ba_Timestamp b), ip_SequencerAddr = ax_AddrString e (ba_Coinbase b),
                ip_AggregatorAddr = ac_SenderAddress cfg, ip_L1InfoTreeData = l1InfoTreeData,
                ip_ForcedBlockhashL1 = hash_bytes forcedBlockhashL1\<rparr>)"

definition buildInputProver ::
  "keccak \<Rightarrow> agg_env \<Rightarrow> agg_Config \<Rightarrow> Aggregator \<Rightarrow> st_Batch \<Rightarrow> bytes \<Rightarrow> (error + StatelessInputProver) outcome"
where
  "buildInputProver K e cfg a b witness =
     (if ba_BatchNumber b = 1 \<or> ba_ForcedBatchNum b \<noteq> None
      then (case first_batch_data e a b of
              Inl x \<Rightarrow> Ret (Inl x)
            | Inr r \<Rightarrow> Ret (input_prover e cfg a b witness [] r))
      else (case l1_data K e a b of
              Ret (Inl x) \<Rightarrow> Ret (Inl x)
            | Ret (Inr l1InfoTreeData) \<Rightarrow> Ret (input_prover e cfg a b witness l1InfoTreeData (0, ba_L1InfoRoot b))
            | Blocked \<Rightarrow> Blocked
            | Panicked \<Rightarrow> Panicked))"

section \<open>Generating the proof of a batch\<close>

definition sanity_fails :: "agg_Config \<Rightarrow> hash \<Rightarrow> hash \<Rightarrow> bool" where
  "sanity_fails cfg fromProof expected \<longleftrightarrow>
     ac_BatchProofSanityCheckEnabled cfg \<and> fromProof \<noteq> 0 \<and> fromProof \<noteq> expected"

definition tryGenerateBatchProof ::
  "keccak \<Rightarrow> agg_env \<Rightarrow> agg_Config \<Rightarrow> ProverInterface \<Rightarrow> Aggregator \<Rightarrow> Aggregator \<times> (bool \<times> error option) outcome"
where
  "tryGenerateBatchProof K e cfg pv a =
     bind_out (getAndLockBatchToProve K e cfg pv a) (\<lambda>a1 r.
       case r of
         Inl x \<Rightarrow> (a1, Ret (False, if x = ErrNotFound \<or> x = entities_ErrNotFound then None else Some x))
       | Inr None \<Rightarrow> (a1, Panicked)
       | Inr (Some (batchToProve, witness, p)) \<Rightarrow>
           let fail = (\<lambda>a x. (fst (exec_db (DeleteGeneratedProofs (ag_io e a) (pr_BatchNumber p) (pr_BatchNumberFinal p) (ag_db a)) a),
                              Ret (False, Some x)))
           in bind_out (a1, buildInputProver K e cfg a1 batchToProve witness) (\<lambda>a1 i.
             case i of
               Inl x \<Rightarrow> fail a1 x
             | Inr inputProver \<Rightarrow>
                 (case pi_BatchProof pv (ag_clock a1) inputProver of
                    Inl x \<Rightarrow> fail a1 x
                  | Inr genProofID \<Rightarrow>
                      bind_out (ag_wait e [pr_key p] a1, pi_WaitRecursiveProof pv (ag_clock a1) genProofID) (\<lambda>a2 w.
                        case w of
                          Inl x \<Rightarrow> fail a2 x
                        | Inr (resGetProof, stateRoot, accInputHash) \<Rightarrow>
                            if sanity_fails cfg stateRoot (ba_StateRoot batchToProve) then (a2, Blocked)
                            else if sanity_fails cfg accInputHash (ba_AccInputHash batchToProve) then (a2, Blocked)
                            else finish_proof e cfg pv
                                   (p\<lparr>pr_ProofID := Some genProofID, pr_Proof := resGetProof\<rparr>) a2))))"

section \<open>Settlement\<close>

definition handleFailureToAddVerifyBatchToBeMonitored :: "agg_env \<Rightarrow> sproof \<Rightarrow> Aggregator \<Rightarrow> Aggregator" where
  "handleFailureToAddVerifyBatchToBeMonitored e p a =
     (let p1 = p\<lparr>pr_GeneratingSince := None\<rparr>
      in endProofVerification (fst (exec_db (UpdateGeneratedProof (ag_io e a) (ag_now e a) p1 (ag_db a)) a)))"

text \<open>\<open>common.Hex2Bytes\<close> keeps what decodes; its prefix \<open>0x\<close> is cut before.\<close>

definition settlement_tx :: "agg_env \<Rightarrow> sproof \<Rightarrow> FinalProofInputs \<Rightarrow> (string \<Rightarrow> bytes) \<Rightarrow> agl_Tx" where
  "settlement_tx e p inputs Hex2Bytes =
     \<lparr>at_RollupID = ax_RollupId e, at_LastVerifiedBatch = pr_BatchNumber p - 1,
      at_NewVerifiedBatch = pr_BatchNumberFinal p,
      at_NewStateRoot = of_nat (be_value (fi_NewStateRoot inputs)),
      at_NewLocalExitRoot = of_nat (be_value (fi_NewLocalExitRoot inputs)),
      at_Proof = Hex2Bytes (trim_0x (fp_Proof (fi_FinalProof inputs)))\<rparr>"

definition settleWithAggLayer ::
  "(string \<Rightarrow> bytes) \<Rightarrow> agg_env \<Rightarrow> sproof \<Rightarrow> FinalProofInputs \<Rightarrow> Aggregator \<Rightarrow> Aggregator \<times> bool"
where
  "settleWithAggLayer Hex2Bytes e p inputs a =
     (let tx = settlement_tx e p inputs Hex2Bytes;
          fail = (\<lambda>a. (handleFailureToAddVerifyBatchToBeMonitored e p a, False))
      in case ax_Sign e tx of
           Inl _ \<Rightarrow> fail a
         | Inr signature \<Rightarrow>
             (case ax_SendTx e (ag_clock a) tx signature of
                Inl _ \<Rightarrow> fail a
              | Inr txHash \<Rightarrow>
                  let a1 = ag_wait e [pr_key p] a
                  in case ax_WaitTxToBeMined e (ag_clock a) txHash of
                       Some _ \<Rightarrow> fail a1
                     | None \<Rightarrow> (a1, True)))"

text \<open>
  Waiting until block \<open>mined\<close> is final: \<open>Some True\<close> when it is, \<open>Some False\<close> when the context is done. A failed query reads as
  block \<open>0\<close>.
\<close>

partial_function (option) wait_final ::
  "(nat \<Rightarrow> error + u64) \<Rightarrow> (nat \<Rightarrow> bool) \<Rightarrow> u64 \<Rightarrow> nat \<Rightarrow> bool option"
where
  "wait_final final stop mined k =
     (if \<not> mined > (case final k of Inl _ \<Rightarrow> 0 | Inr n \<Rightarrow> n) then Some True
      else if stop k then Some False
      else wait_final final stop mined (k + 1))"

definition handleMonitoredTxResult ::
  "agg_env \<Rightarrow> agg_Config \<Rightarrow> (nat \<Rightarrow> bool) \<Rightarrow> u64 \<Rightarrow> u64 \<Rightarrow> MonitoredTxResult \<Rightarrow> Aggregator \<Rightarrow> Aggregator \<times> unit outcome"
where
  "handleMonitoredTxResult e cfg stop firstBatch lastBatch result a =
     (if mr_Status result = ac_StatusFailed cfg then (a, Panicked)
      else case mr_MinedAtBlockNumber result of
        None \<Rightarrow> (a, Panicked)
      | Some mined \<Rightarrow>
          let a1 = ag_wait e [(firstBatch, lastBatch)] a
          in case wait_final (ax_FinalizedBlockNumber e (ag_clock a)) stop (big_Uint64 mined) 0 of
               None \<Rightarrow> (a1, Blocked)
             | Some False \<Rightarrow> (a1, Ret ())
             | Some True \<Rightarrow>
                 let a2 = fst (exec_db (DeleteGeneratedProofs (ag_io e a1) firstBatch lastBatch (ag_db a1)) a1)
                 in removeAccInputHashes firstBatch (lastBatch - 1) a2)"

fun handle_results ::
  "agg_env \<Rightarrow> agg_Config \<Rightarrow> (nat \<Rightarrow> bool) \<Rightarrow> sproof \<Rightarrow> MonitoredTxResult list \<Rightarrow> Aggregator \<Rightarrow> Aggregator \<times> unit outcome"
where
  "handle_results e cfg stop p [] a = (a, Ret ())"
| "handle_results e cfg stop p (r # rs) a =
     bind_out (handleMonitoredTxResult e cfg stop (pr_BatchNumber p) (pr_BatchNumberFinal p) r a)
       (\<lambda>a1 _. handle_results e cfg stop p rs a1)"

definition settleDirect ::
  "agg_env \<Rightarrow> agg_Config \<Rightarrow> (nat \<Rightarrow> bool) \<Rightarrow> sproof \<Rightarrow> FinalProofInputs \<Rightarrow> Aggregator \<Rightarrow> Aggregator \<times> bool outcome"
where
  "settleDirect e cfg stop p inputs a =
     (let fail = (handleFailureToAddVerifyBatchToBeMonitored e p a, Ret False) in
      case ax_BuildTrustedVerifyBatchesTxData e (pr_BatchNumber p - 1) (pr_BatchNumberFinal p) inputs (ac_SenderAddress cfg) of
        Inl _ \<Rightarrow> fail
      | Inr (to_addr, txdata) \<Rightarrow>
          (case ax_TxAdd e (ag_clock a) to_addr txdata of
             Inl _ \<Rightarrow> fail
           | Inr _ \<Rightarrow>
               bind_out (handle_results e cfg stop p (ax_PendingResults e (ag_clock a)) a) (\<lambda>a1 _. (a1, Ret True))))"

text \<open>
  One message of the channel. When the RPC node does not return the final batch, the message is dropped and its
  proof stays locked.
\<close>

definition sendFinalProof_step ::
  "(string \<Rightarrow> bytes) \<Rightarrow> agg_env \<Rightarrow> agg_Config \<Rightarrow> (nat \<Rightarrow> bool) \<Rightarrow> Aggregator \<Rightarrow> Aggregator \<times> unit outcome"
where
  "sendFinalProof_step Hex2Bytes e cfg stop a =
     (case ag_finalProof a of
        [] \<Rightarrow> (a, Ret ())
      | msg # rest \<Rightarrow>
          let p = fm_recursiveProof msg; a1 = startProofVerification (a\<lparr>ag_finalProof := rest\<rparr>) in
          case ax_GetBatch e (ag_clock a1) (pr_BatchNumberFinal p) of
            Inl _ \<Rightarrow> (endProofVerification a1, Ret ())
          | Inr rpcFinalBatch \<Rightarrow>
              let inputs = \<lparr>fi_FinalProof = fm_finalProof msg,
                            fi_NewLocalExitRoot = hash_bytes (rb_localExitRoot rpcFinalBatch),
                            fi_NewStateRoot = hash_bytes (rb_stateRoot rpcFinalBatch)\<rparr>
              in bind_out (if ac_AggLayerBackend cfg
                           then (case settleWithAggLayer Hex2Bytes e p inputs a1 of (a2, ok) \<Rightarrow> (a2, Ret ok))
                           else settleDirect e cfg stop p inputs a1)
                   (\<lambda>a2 success.
                      if \<not> success then (a2, Ret ())
                      else (endProofVerification (resetVerifyProofTime e cfg a2), Ret ())))"

section \<open>The loops\<close>

text \<open>One round of \<open>Channel\<close> for an idle prover; errors are logged. Between the attempts other goroutines run.\<close>

definition channel_round ::
  "keccak \<Rightarrow> agg_env \<Rightarrow> agg_Config \<Rightarrow> ProverInterface \<Rightarrow> Aggregator \<Rightarrow> Aggregator \<times> unit outcome"
where
  "channel_round K e cfg pv a =
     (if ag_halted a then (a, Ret ())
      else case pi_IsIdle pv (ag_clock a) of
        Inl _ \<Rightarrow> (a, Ret ())
      | Inr False \<Rightarrow> (a, Ret ())
      | Inr True \<Rightarrow>
          bind_out (tryBuildFinalProof e cfg pv None a) (\<lambda>a1 _.
            bind_out (tryAggregateProofs e cfg pv (ag_wait e [] a1)) (\<lambda>a2 (proofGenerated, _).
              if proofGenerated then (a2, Ret ())
              else bind_out (tryGenerateBatchProof K e cfg pv (ag_wait e [] a2)) (\<lambda>a3 _. (a3, Ret ())))))"

text \<open>\<open>Channel\<close> refuses a prover for another fork.\<close>

definition Channel_accepts :: "agg_Config \<Rightarrow> pv_stream \<Rightarrow> error + string \<times> string" where
  "Channel_accepts cfg s =
     (case pv_New s 0 of
        Inl x \<Rightarrow> Inl x
      | Inr r \<Rightarrow>
          if \<not> pv_SupportsForkID s 1 (ac_ForkId cfg)
          then Inl (ErrMsg ''prover does not support required fork ID'') else Inr r)"

definition cleanupLockedProofs :: "(string \<Rightarrow> int option) \<Rightarrow> agg_env \<Rightarrow> agg_Config \<Rightarrow> Aggregator \<Rightarrow> Aggregator" where
  "cleanupLockedProofs pg_interval e cfg a =
     (case CleanupLockedProofs (ag_io e a) pg_interval (ag_now e a) (ac_GeneratingProofCleanupThreshold cfg) (ag_db a) of
        Inl _ \<Rightarrow> a
      | Inr (db, _) \<Rightarrow> a\<lparr>ag_db := db\<rparr>)"

text \<open>The actions of the goroutines; \<open>agg_run\<close> performs one, whatever its outcome.\<close>

datatype agg_action =
    ProverRound ProverInterface
  | SendFinalProof "nat \<Rightarrow> bool"
  | CleanupLocked
  | Reorged
  | RolledBack u64

record agg_params =
  gp_K :: keccak
  gp_Hex2Bytes :: "string \<Rightarrow> bytes"
  gp_interval :: "string \<Rightarrow> int option"
  gp_cfg :: agg_Config

fun agg_act :: "agg_params \<Rightarrow> agg_env \<Rightarrow> agg_action \<Rightarrow> Aggregator \<Rightarrow> Aggregator \<times> unit outcome" where
  "agg_act P e (ProverRound pv) a = channel_round (gp_K P) e (gp_cfg P) pv a"
| "agg_act P e (SendFinalProof stop) a = sendFinalProof_step (gp_Hex2Bytes P) e (gp_cfg P) stop a"
| "agg_act P e CleanupLocked a = (cleanupLockedProofs (gp_interval P) e (gp_cfg P) a, Ret ())"
| "agg_act P e Reorged a = handleReorg e a"
| "agg_act P e (RolledBack n) a = handleRollbackBatches e n a"

end
