(* ===== verification/AggregatorProofs.thy ===== *)
theory AggregatorProofs
  imports Aggregator
begin

text \<open>
  What the aggregator keeps true of its tables and hashes while several provers work at the same time.
\<close>

section \<open>Owned rows\<close>

definition locked_keys :: "agg_db \<Rightarrow> (u64 \<times> u64) set" where
  "locked_keys db = pr_key ` {p \<in> set (proof_rows db). pr_GeneratingSince p \<noteq> None}"

definition store_ok :: "agg_db \<Rightarrow> bool" where
  "store_ok db \<longleftrightarrow> ranges_ok (proof_ranges db) \<and> (\<forall>r\<in>set (proof_ranges db). pg_bigint (snd r))"

text \<open>
  The accumulated input hash before every proved batch is in memory: the search for the next batch to prove goes past
  the stored proofs and does not remove them.
\<close>

definition remembers :: "Aggregator \<Rightarrow> bool" where
  "remembers a \<longleftrightarrow> (\<forall>n\<in>covered (proof_ranges (ag_db a)). n > 1 \<longrightarrow> getAccInputHash a (n - 1) \<noteq> 0)"

text \<open>
  \<open>owns rm X a\<close>: the tables are in order and the ranges \<open>X\<close> have locked rows; with \<open>rm\<close>, the hashes are in memory.
\<close>

definition owns :: "bool \<Rightarrow> (u64 \<times> u64) set \<Rightarrow> Aggregator \<Rightarrow> bool" where
  "owns rm X a \<longleftrightarrow> store_ok (ag_db a) \<and> X \<subseteq> locked_keys (ag_db a) \<and> (rm \<longrightarrow> remembers a)"

text \<open>
  What a goroutine relies on while it waits: the others keep the tables in order, and they keep the rows it has
  locked as well as those of \<open>X\<close>, which somebody else has locked.
\<close>

definition rely :: "bool \<Rightarrow> (u64 \<times> u64) set \<Rightarrow> agg_env \<Rightarrow> bool" where
  "rely rm X e \<longleftrightarrow> (\<forall>held a Y. Y \<subseteq> X \<union> set held \<and> owns rm Y a \<longrightarrow> owns rm Y (ax_meanwhile e held a))"

lemma locked_subset: "locked_keys db \<subseteq> set (proof_ranges db)"
  by (auto simp: locked_keys_def proof_ranges_def)

lemma covered_mono: "set rs \<subseteq> set rs' \<Longrightarrow> covered rs \<subseteq> covered rs'"
  by (auto simp: covered_def)

lemma remembers_mono:
  assumes "remembers a" and "covered (proof_ranges (ag_db a')) \<subseteq> covered (proof_ranges (ag_db a))"
    and "\<And>n. getAccInputHash a n \<noteq> 0 \<Longrightarrow> getAccInputHash a' n \<noteq> 0"
  shows "remembers a'"
  using assms by (fastforce simp: remembers_def)

lemma remembers_rows:
  assumes "remembers a" and "covered (proof_ranges db) \<subseteq> covered (proof_ranges (ag_db a))"
  shows "remembers (a\<lparr>ag_db := db\<rparr>)"
  by (rule remembers_mono [OF assms(1)]) (use assms(2) in \<open>simp_all add: getAccInputHash_def\<close>)

lemma remembers_simps [simp]:
  "remembers (a\<lparr>ag_stateDBMutex := b\<rparr>) = remembers a"
  "remembers (a\<lparr>ag_finalProof := q\<rparr>) = remembers a"
  "remembers (a\<lparr>ag_halted := b\<rparr>) = remembers a"
  "remembers (a\<lparr>ag_verifyingProof := b\<rparr>) = remembers a"
  "remembers (a\<lparr>ag_timeSendFinalProof := t\<rparr>) = remembers a"
  "remembers (a\<lparr>ag_clock := c\<rparr>) = remembers a"
  by (simp_all add: remembers_def getAccInputHash_def)

lemma remembers_set:
  assumes "remembers a" and "h \<noteq> 0"
  shows "remembers (setAccInputHash n h a)"
  by (rule remembers_mono [OF assms(1)]) (use assms(2) in \<open>simp_all add: setAccInputHash_def getAccInputHash_def\<close>)

lemma owns_rows:
  assumes "owns rm X a" and "store_ok db" and "Z \<subseteq> locked_keys db"
    and "covered (proof_ranges db) \<subseteq> covered (proof_ranges (ag_db a))"
  shows "owns rm Z (a\<lparr>ag_db := db\<rparr>)"
  using assms remembers_rows by (auto simp: owns_def)

lemma owns_simps [simp]:
  "owns rm X (a\<lparr>ag_stateDBMutex := b\<rparr>) = owns rm X a"
  "owns rm X (a\<lparr>ag_finalProof := q\<rparr>) = owns rm X a"
  "owns rm X (a\<lparr>ag_halted := b\<rparr>) = owns rm X a"
  "owns rm X (a\<lparr>ag_verifyingProof := b\<rparr>) = owns rm X a"
  "owns rm X (a\<lparr>ag_clock := c\<rparr>) = owns rm X a"
  "owns False X (a\<lparr>ag_accInputHashes := m\<rparr>) = owns False X a"
  "owns rm X (a\<lparr>ag_timeSendFinalProof := t\<rparr>) = owns rm X a"
  "owns rm X (a\<lparr>ag_stateDBMutex := b, ag_db := d\<rparr>) = owns rm X (a\<lparr>ag_db := d\<rparr>)"
  by (simp_all add: owns_def remembers_def getAccInputHash_def)

lemma owns_mono: "owns rm X a \<Longrightarrow> Y \<subseteq> X \<Longrightarrow> owns rm Y a"
  by (auto simp: owns_def)

lemma owns_wait_part:
  assumes "rely rm X e" and "owns rm Y a" and "Y \<subseteq> X \<union> set held"
  shows "owns rm Y (ag_wait e held a)"
proof -
  have "owns rm Y (ax_meanwhile e held a)" using assms by (auto simp: rely_def)
  then show ?thesis by (simp add: ag_wait_def Let_def)
qed

lemmas owns_wait = owns_wait_part [OF _ _ order_refl]

lemma owns_bind:
  assumes "owns rm Y (fst r)" and "\<And>s x. r = (s, Ret x) \<Longrightarrow> owns rm Y s \<Longrightarrow> owns rm X (fst (f s x))" and "X \<subseteq> Y"
  shows "owns rm X (fst (bind_out r f))"
proof -
  obtain s ox where r: "r = (s, ox)" by (cases r)
  then have "owns rm X s" using assms(1,3) by (auto intro: owns_mono)
  with assms show ?thesis by (cases ox) (auto simp: bind_out_def r)
qed

text \<open>A unique row per range.\<close>

lemma store_ok_unique:
  assumes "store_ok db" and "p \<in> set (proof_rows db)" and "q \<in> set (proof_rows db)" and "pr_key p = pr_key q"
  shows "p = q"
proof -
  have "distinct (map pr_key (proof_rows db))" using assms(1) by (simp add: store_ok_def ranges_ok_def proof_ranges_def)
  with assms(2-4) show ?thesis by (auto simp: distinct_map inj_on_def)
qed

lemma unlocked_not_owned:
  assumes "owns rm X a" and "p \<in> set (proof_rows (ag_db a))" and "pr_GeneratingSince p = None"
  shows "pr_key p \<notin> X"
proof
  assume "pr_key p \<in> X"
  then obtain q where q: "q \<in> set (proof_rows (ag_db a))" "pr_GeneratingSince q \<noteq> None" "pr_key q = pr_key p"
    using assms(1) by (auto simp: owns_def locked_keys_def)
  with store_ok_unique [OF _ q(1) assms(2)] assms(1,3) show False by (auto simp: owns_def)
qed

section \<open>Single statements\<close>

lemma update_store_ok: "UpdateGeneratedProof io now p db = Inr db' \<Longrightarrow> store_ok db \<Longrightarrow> store_ok db'"
  by (simp add: store_ok_def proof_ranges_update)

lemma update_locked:
  assumes "UpdateGeneratedProof io now p db = Inr db'"
  shows "locked_keys db - {pr_key p} \<subseteq> locked_keys db'"
    and "pr_GeneratingSince p \<noteq> None \<Longrightarrow> pr_key p \<in> set (proof_ranges db) \<Longrightarrow> pr_key p \<in> locked_keys db'"
proof -
  let ?f = "\<lambda>r. if pr_key r = pr_key p then p\<lparr>pr_CreatedAt := pr_CreatedAt r, pr_UpdatedAt := now\<rparr> else r"
  have rows: "proof_rows db' = map ?f (proof_rows db)"
    using assms by (simp add: UpdateGeneratedProof_def pg_exec_Inr)
  show "locked_keys db - {pr_key p} \<subseteq> locked_keys db'"
  proof
    fix k
    assume "k \<in> locked_keys db - {pr_key p}"
    then obtain r where r: "r \<in> set (proof_rows db)" "pr_GeneratingSince r \<noteq> None" "pr_key r = k" "k \<noteq> pr_key p"
      by (auto simp: locked_keys_def)
    have "?f r \<in> set (proof_rows db')" unfolding rows set_map using r(1) by (rule imageI)
    then have "r \<in> set (proof_rows db')" using r(3,4) by simp
    with r(2,3) show "k \<in> locked_keys db'" by (auto simp: locked_keys_def)
  qed
  show "pr_key p \<in> locked_keys db'" if g: "pr_GeneratingSince p \<noteq> None" and m: "pr_key p \<in> set (proof_ranges db)"
  proof -
    obtain r where r: "r \<in> set (proof_rows db)" "pr_key r = pr_key p" using m by (auto simp: proof_ranges_def)
    let ?q = "p\<lparr>pr_CreatedAt := pr_CreatedAt r, pr_UpdatedAt := now\<rparr>"
    have "?f r \<in> set (proof_rows db')" unfolding rows set_map using r(1) by (rule imageI)
    then have "?q \<in> set (proof_rows db')" using r(2) by simp
    moreover have "pr_GeneratingSince ?q \<noteq> None" using g by simp
    ultimately have "pr_key ?q \<in> locked_keys db'" unfolding locked_keys_def by blast
    then show ?thesis by simp
  qed
qed

lemma owns_lock:
  assumes "UpdateGeneratedProof io now p (ag_db a) = Inr db'" and "owns rm X a"
    and "pr_GeneratingSince p \<noteq> None" and "pr_key p \<in> set (proof_ranges (ag_db a))"
  shows "owns rm (insert (pr_key p) X) (a\<lparr>ag_db := db'\<rparr>)"
  using assms update_store_ok [OF assms(1)] update_locked [OF assms(1)] proof_ranges_update [OF assms(1)]
  by (intro owns_rows [OF assms(2)]) (auto simp: owns_def)

lemma owns_release:
  assumes "owns rm X a" and "pr_key p \<notin> X"
  shows "owns rm X (fst (exec_db (UpdateGeneratedProof io now p (ag_db a)) a))"
proof (cases "UpdateGeneratedProof io now p (ag_db a)")
  case (Inr db')
  have "owns rm X (a\<lparr>ag_db := db'\<rparr>)"
    using assms update_store_ok [OF Inr] update_locked(1) [OF Inr] proof_ranges_update [OF Inr]
    by (intro owns_rows [OF assms(1)]) (auto simp: owns_def)
  then show ?thesis by (simp add: exec_db_def Inr)
qed (use assms in \<open>simp add: exec_db_def\<close>)

text \<open>Deleting inside the range of a row that exists deletes only that row.\<close>

lemma own_inside:
  assumes "ranges_ok rs" and "(b, f) \<in> set rs" and "r \<in> set rs" and "inside b f r"
  shows "r = (b, f)"
proof -
  have "fst r \<le> snd r" "b \<le> f" using assms(1-3) by (auto simp: ranges_ok_def)
  with assms(4) have "overlap r (b, f)" by (auto simp: inside_def overlap_def)
  with ranges_okD [OF assms(1,3,2)] show ?thesis by simp
qed

lemma delete_locked:
  assumes "DeleteGeneratedProofs io b f db = Inr db'"
  shows "{k \<in> locked_keys db. \<not> inside b f k} \<subseteq> locked_keys db'"
  using assms by (auto simp: DeleteGeneratedProofs_def pg_exec_Inr locked_keys_def inside_def pr_key_def)

lemma delete_store_ok: "DeleteGeneratedProofs io b f db = Inr db' \<Longrightarrow> store_ok db \<Longrightarrow> store_ok db'"
  using ps.del_ok [of io b f db db'] by (auto simp: store_ok_def ps.del_ranges)

lemma owns_delete:
  assumes "owns rm (insert (b, f) X) a" and "(b, f) \<notin> X"
  shows "owns rm X (fst (exec_db (DeleteGeneratedProofs io b f (ag_db a)) a))"
proof (cases "DeleteGeneratedProofs io b f (ag_db a)")
  case (Inr db')
  have ok: "ranges_ok (proof_ranges (ag_db a))" and mem: "(b, f) \<in> set (proof_ranges (ag_db a))"
    using assms(1) locked_subset by (auto simp: owns_def store_ok_def)
  have "\<not> inside b f k" if "k \<in> X" for k
  proof
    assume "inside b f k"
    moreover have "k \<in> set (proof_ranges (ag_db a))" using that assms(1) locked_subset by (auto simp: owns_def)
    ultimately show False using own_inside [OF ok mem] assms(2) that by blast
  qed
  with assms(1) delete_locked [OF Inr] delete_store_ok [OF Inr] ps.del_ranges [OF Inr]
  have "owns rm X (a\<lparr>ag_db := db'\<rparr>)"
    by (intro owns_rows [OF assms(1)] covered_mono) (auto simp: owns_def)
  then show ?thesis by (simp add: exec_db_def Inr)
qed (use assms in \<open>auto simp: exec_db_def intro: owns_mono\<close>)

section \<open>Handlers keep what others own\<close>

lemma fst_with_mutex:
  assumes "owns rm X a" and "\<And>a. owns rm X a \<Longrightarrow> owns rm X (fst (f a))"
  shows "owns rm X (fst (with_stateDBMutex f a))"
proof -
  obtain a1 ox where f: "f (a\<lparr>ag_stateDBMutex := True\<rparr>) = (a1, ox)" by fastforce
  with assms(2) [of "a\<lparr>ag_stateDBMutex := True\<rparr>"] assms(1) have "owns rm X a1" by simp
  with f assms(1) show ?thesis by (cases ox) (simp_all add: with_stateDBMutex_def)
qed

lemma with_mutex_Ret:
  "with_stateDBMutex f a = (a', Ret x) \<longleftrightarrow>
     \<not> ag_stateDBMutex a \<and> (\<exists>a1. f (a\<lparr>ag_stateDBMutex := True\<rparr>) = (a1, Ret x) \<and> a' = a1\<lparr>ag_stateDBMutex := False\<rparr>)"
  by (auto simp: with_stateDBMutex_def split: prod.splits outcome.splits)

lemma lock_ready_Ret:
  assumes "getAndLockProofReadyToVerify e lst a = (a', Ret (Inr p))" and "owns rm X a"
  shows "owns rm (insert (pr_key p) X) a'" and "pr_key p \<notin> X"
    and "pr_BatchNumber p = lst + 1" and "seq_from (ag_db a) (pr_BatchNumber p)" and "seq_to (ag_db a) (pr_BatchNumberFinal p)"
proof -
  let ?a = "a\<lparr>ag_stateDBMutex := True\<rparr>"
  obtain q db' where q: "GetProofReadyToVerify (ag_io e a) lst (ag_db a) = Inr q"
    and p: "p = q\<lparr>pr_GeneratingSince := Some (ag_now e a)\<rparr>"
    and u: "UpdateGeneratedProof (ag_io e a) (ag_now e a) p (ag_db a) = Inr db'"
    and a': "a' = a\<lparr>ag_stateDBMutex := True, ag_db := db', ag_stateDBMutex := False\<rparr>"
    using assms(1)
    by (auto simp: getAndLockProofReadyToVerify_def with_mutex_Ret exec_db_def Let_def split: sum.splits)
  note g = GetProofReadyToVerify_Inr [OF q]
  have k: "pr_key p = pr_key q" by (simp add: p pr_key_def)
  show "pr_key p \<notin> X" using unlocked_not_owned [OF assms(2) g(1,3)] k by simp
  have "pr_key p \<in> set (proof_ranges (ag_db ?a))" using proof_ranges_mem [OF g(1)] k by simp
  with owns_lock [of "ag_io e a" "ag_now e a" p ?a db' rm X] u assms(2) p
  have "owns rm (insert (pr_key p) X) (?a\<lparr>ag_db := db'\<rparr>)" by simp
  then show "owns rm (insert (pr_key p) X) a'" by (simp add: a')
  show "pr_BatchNumber p = lst + 1" "seq_from (ag_db a) (pr_BatchNumber p)" "seq_to (ag_db a) (pr_BatchNumberFinal p)"
    using g(2,4,5) by (simp_all add: p)
qed

lemma lock_ready_owns:
  assumes "owns rm X a"
  shows "owns rm X (fst (getAndLockProofReadyToVerify e lst a))"
  unfolding getAndLockProofReadyToVerify_def
proof (rule fst_with_mutex [OF assms])
  fix a
  assume o: "owns rm X a"
  show "owns rm X (fst (case GetProofReadyToVerify (ag_io e a) lst (ag_db a) of
       Inl x \<Rightarrow> (a, Ret (Inl x))
     | Inr p \<Rightarrow>
         let p1 = p\<lparr>pr_GeneratingSince := Some (ag_now e a)\<rparr>
         in case exec_db (UpdateGeneratedProof (ag_io e a) (ag_now e a) p1 (ag_db a)) a of
              (a1, Some x) \<Rightarrow> (a1, Ret (Inl x))
            | (a1, None) \<Rightarrow> (a1, Ret (Inr p1))))"
  proof (cases "GetProofReadyToVerify (ag_io e a) lst (ag_db a)")
    case (Inr p)
    note g = GetProofReadyToVerify_Inr [OF Inr]
    have "pr_key (p\<lparr>pr_GeneratingSince := Some (ag_now e a)\<rparr>) \<notin> X"
      using unlocked_not_owned [OF o g(1,3)] by (simp add: pr_key_def)
    from owns_release [OF o this, of "ag_io e a" "ag_now e a"] show ?thesis
      by (auto simp: Inr Let_def split: prod.splits option.splits)
  qed (simp add: o)
qed

lemma build_final_owns:
  assumes "rely rm X e" and "owns rm (insert (pr_key p) X) a"
  shows "owns rm (insert (pr_key p) X) (fst (buildFinalProof e cfg pv p a))"
proof -
  have w: "owns rm (insert (pr_key p) X) (ag_wait e [pr_key p] a)" using owns_wait [of rm X e "[pr_key p]" a] assms by simp
  show ?thesis
    using assms(2) w
    by (auto simp: buildFinalProof_def Let_def bind_out_def split: sum.splits option.splits outcome.splits)
qed

lemma build_final_key: "buildFinalProof e cfg pv p a = (a', Ret (p', r)) \<Longrightarrow> pr_key p' = pr_key p"
  by (auto simp: buildFinalProof_def Let_def bind_out_def pr_key_def
      split: if_splits sum.splits option.splits outcome.splits)

lemma build_and_send_owns:
  assumes "rely rm X e" and "owns rm (insert (pr_key p) X) a"
  shows "owns rm (insert (pr_key p) X) (fst (build_and_send e cfg pv p a))"
proof -
  have w: "owns rm (insert (pr_key p) X) (ag_wait e [pr_key p] a1)" if "owns rm (insert (pr_key p) X) a1" for a1
    using owns_wait [of rm X e "[pr_key p]" a1] assms(1) that by simp
  show ?thesis
    unfolding build_and_send_def using assms(2)
    by (auto intro!: owns_bind [OF build_final_owns [OF assms]] simp: Let_def w split: sum.splits)
qed

lemma build_and_send_key:
  "build_and_send e cfg pv p a = (a', Ret (p', built, err, assigned)) \<Longrightarrow> pr_key p' = pr_key p"
  by (auto simp: build_and_send_def bind_out_def Let_def
      split: if_splits sum.splits outcome.splits prod.splits dest!: build_final_key)

lemma owns_complete:
  assumes "owns rm (insert (pr_key p) X) a" and "pr_key p \<notin> X"
  shows "owns rm X (fst (validateEligibleFinalProof e p lst a))"
    and "validateEligibleFinalProof e p lst a = (a', Inr True) \<Longrightarrow> owns rm (insert (pr_key p) X) a'"
proof -
  have d: "owns rm X (fst (exec_db (DeleteGeneratedProofs (ag_io e a) (pr_BatchNumber p) (pr_BatchNumberFinal p) (ag_db a)) a))"
    using assms by (intro owns_delete) (simp_all add: pr_key_def)
  have "owns rm X a" using assms(1) by (rule owns_mono) auto
  with d show "owns rm X (fst (validateEligibleFinalProof e p lst a))"
    by (auto simp: validateEligibleFinalProof_def Let_def split: prod.splits option.splits)
  show "owns rm (insert (pr_key p) X) a'" if "validateEligibleFinalProof e p lst a = (a', Inr True)"
    using that assms(1)
    by (auto simp: validateEligibleFinalProof_def Let_def split: if_splits prod.splits option.splits)
qed

text \<open>Looking for a proof to verify, and verifying a given one.\<close>

lemma try_final_none_owns:
  assumes "rely rm X e" and "owns rm X a"
  shows "owns rm X (fst (tryBuildFinalProof e cfg pv None a))"
proof -
  have step: "owns rm X (fst (bind_out (build_and_send e cfg pv p a1) (\<lambda>a2 (p1, built, err, assigned).
       if assigned
       then let p2 = p1\<lparr>pr_GeneratingSince := None\<rparr>
            in (fst (exec_db (UpdateGeneratedProof (ag_io e a2) (ag_now e a2) p2 (ag_db a2)) a2), Ret (Some p2, built, err))
       else (a2, Ret (Some p1, built, err)))))"
    if p: "getAndLockProofReadyToVerify e lst a = (a1, Ret (Inr p))" for lst a1 p
  proof (rule owns_bind [OF build_and_send_owns [OF assms(1) lock_ready_Ret(1) [OF p assms(2)]]])
    fix a2 r
    assume r: "build_and_send e cfg pv p a1 = (a2, Ret r)" "owns rm (insert (pr_key p) X) a2"
    obtain p1 built err assigned where rr: "r = (p1, built, err, assigned)" by (cases r)
    then have "pr_key (p1\<lparr>pr_GeneratingSince := None\<rparr>) = pr_key p"
      using build_and_send_key r(1) by (simp add: pr_key_def)
    then have "pr_key (p1\<lparr>pr_GeneratingSince := None\<rparr>) \<notin> X" using lock_ready_Ret(2) [OF p assms(2)] by simp
    moreover have "owns rm X a2" using r(2) by (rule owns_mono) auto
    ultimately show "owns rm X (fst (case r of (p1, built, err, assigned) \<Rightarrow>
        if assigned
        then let p2 = p1\<lparr>pr_GeneratingSince := None\<rparr>
             in (fst (exec_db (UpdateGeneratedProof (ag_io e a2) (ag_now e a2) p2 (ag_db a2)) a2), Ret (Some p2, built, err))
        else (a2, Ret (Some p1, built, err))))"
      by (simp add: rr Let_def owns_release)
  qed auto
  show ?thesis
    unfolding tryBuildFinalProof_def using assms(2)
    by (auto intro!: owns_bind [OF lock_ready_owns [OF assms(2)]] step split: sum.splits option.splits)
qed

lemma try_final_some:
  assumes "rely rm X e" and "owns rm (insert (pr_key p) X) a" and "pr_key p \<notin> X"
  shows "owns rm X (fst (tryBuildFinalProof e cfg pv (Some p) a))"
    and "tryBuildFinalProof e cfg pv (Some p) a = (a', Ret (q, built, err)) \<Longrightarrow> \<exists>p'. q = Some p' \<and> pr_key p' = pr_key p"
proof -
  have X: "owns rm X a" using assms(2) by (rule owns_mono) auto
  have v: "owns rm X (fst (validateEligibleFinalProof e p lst a))" for lst
    using owns_complete(1) [OF assms(2,3)] .
  have b: "owns rm X (fst (bind_out (build_and_send e cfg pv p a1) (\<lambda>a2 (p1, built, err, _). (a2, Ret (Some p1, built, err)))))"
    if "validateEligibleFinalProof e p lst a = (a1, Inr True)" for lst a1
    by (rule owns_bind [OF build_and_send_owns [OF assms(1) owns_complete(2) [OF assms(2,3) that]]])
      (auto split: prod.splits intro: owns_mono)
  show "owns rm X (fst (tryBuildFinalProof e cfg pv (Some p) a))"
    unfolding tryBuildFinalProof_def using X v b
    by (auto split: sum.splits prod.splits bool.splits) (metis fst_conv)+
  show "\<exists>p'. q = Some p' \<and> pr_key p' = pr_key p"
    if "tryBuildFinalProof e cfg pv (Some p) a = (a', Ret (q, built, err))"
    using that
    by (auto simp: tryBuildFinalProof_def bind_out_def
        split: if_splits sum.splits prod.splits bool.splits outcome.splits dest: build_and_send_key)
qed

lemma finish_proof_owns:
  assumes "rely rm X e" and "owns rm (insert (pr_key p) X) a" and "pr_key p \<notin> X"
  shows "owns rm X (fst (finish_proof e cfg pv p a))"
  unfolding finish_proof_def
proof (rule owns_bind [OF try_final_some(1) [OF assms]])
  fix a1 r
  assume r: "tryBuildFinalProof e cfg pv (Some p) a = (a1, Ret r)" "owns rm X a1"
  obtain q built err where rr: "r = (q, built, err)" by (cases r)
  with try_final_some(2) [OF assms] r(1) obtain p' where p': "q = Some p'" "pr_key p' = pr_key p" by blast
  then have "pr_key (p'\<lparr>pr_GeneratingSince := None\<rparr>) \<notin> X" using assms(3) by (simp add: pr_key_def)
  from owns_release [OF r(2) this, of "ag_io e a1" "ag_now e a1"] r(2)
  show "owns rm X (fst (case r of (p_opt, finalProofBuilt, _) \<Rightarrow>
       if finalProofBuilt then (a1, Ret (True, None))
       else
         let p1 = (case p_opt of None \<Rightarrow> p | Some q \<Rightarrow> q)\<lparr>pr_GeneratingSince := None\<rparr>
         in case exec_db (UpdateGeneratedProof (ag_io e a1) (ag_now e a1) p1 (ag_db a1)) a1 of
              (a2, Some x) \<Rightarrow> (a2, Ret (False, Some x))
            | (a2, None) \<Rightarrow> (a2, Ret (True, None))))"
    by (auto simp: rr p' Let_def split: prod.splits option.splits)
qed simp

section \<open>Aggregation\<close>

lemma update_both_Inr:
  "update_both io now p1 p2 db = Inr db2 \<longleftrightarrow>
     \<not> io SqlBegin \<and> \<not> io SqlCommit \<and>
     (\<exists>db1. UpdateGeneratedProof io now p1 db = Inr db1 \<and> UpdateGeneratedProof io now p2 db1 = Inr db2)"
  by (auto simp: update_both_def split: sum.splits)

lemma update_both_owns:
  assumes "owns rm X a" and "pr_key p1 \<notin> X" and "pr_key p2 \<notin> X"
  shows "owns rm X (fst (exec_db (update_both io now p1 p2 (ag_db a)) a))"
proof (cases "update_both io now p1 p2 (ag_db a)")
  case (Inr db2)
  then obtain db1 where u: "UpdateGeneratedProof io now p1 (ag_db a) = Inr db1" "UpdateGeneratedProof io now p2 db1 = Inr db2"
    by (auto simp: update_both_Inr)
  have "owns rm X (a\<lparr>ag_db := db1\<rparr>)" using owns_release [OF assms(1,2), of io now] u(1) by (simp add: exec_db_def)
  from owns_release [OF this assms(3), of io now] u(2) show ?thesis by (simp add: exec_db_def Inr)
qed (use assms in \<open>simp add: exec_db_def\<close>)

lemma unlock_both_owns:
  assumes "owns rm X a" and "pr_key p1 \<notin> X" and "pr_key p2 \<notin> X"
  shows "owns rm X (fst (unlockProofsToAggregate e p1 p2 a))"
  unfolding unlockProofsToAggregate_def using assms by (intro update_both_owns) (simp_all add: pr_key_def)

text \<open>\<open>pair_locked rm X p1 p2 a\<close>: the rows of two adjacent ranges are locked, and they are not among \<open>X\<close>.\<close>

definition pair_locked :: "bool \<Rightarrow> (u64 \<times> u64) set \<Rightarrow> sproof \<Rightarrow> sproof \<Rightarrow> Aggregator \<Rightarrow> bool" where
  "pair_locked rm X p1 p2 a \<longleftrightarrow> owns rm (insert (pr_key p1) (insert (pr_key p2) X)) a \<and> pr_key p1 \<notin> X \<and> pr_key p2 \<notin> X \<and>
     unat (pr_BatchNumber p2) = Suc (unat (pr_BatchNumberFinal p1))"

lemma lock_pair_Ret:
  assumes "getAndLockProofsToAggregate e a = (a', Ret (Inr (q1, q2)))" and "owns rm X a"
  shows "pair_locked rm X q1 q2 a'"
proof -
  let ?a = "a\<lparr>ag_stateDBMutex := True\<rparr>" and ?t = "Some (ag_now e a)"
  obtain p1 p2 db2 where g: "GetProofsToAggregate (ag_io e a) (ag_db a) = Inr (p1, p2)"
    and q: "q1 = p1\<lparr>pr_GeneratingSince := ?t\<rparr>" "q2 = p2\<lparr>pr_GeneratingSince := ?t\<rparr>"
    and u: "update_both (ag_io e a) (ag_now e a) q1 q2 (ag_db a) = Inr db2"
    and a': "a' = a\<lparr>ag_stateDBMutex := True, ag_db := db2, ag_stateDBMutex := False\<rparr>"
    using assms(1)
    by (auto simp: getAndLockProofsToAggregate_def with_mutex_Ret exec_db_def Let_def split: sum.splits)
  note gp = GetProofsToAggregate_Inr [OF g]
  have k: "pr_key q1 = pr_key p1" "pr_key q2 = pr_key p2" by (simp_all add: q pr_key_def)
  have un: "pr_key p1 \<notin> X" "pr_key p2 \<notin> X"
    using unlocked_not_owned [OF assms(2)] gp(1-3) by (auto simp: can_aggregate_def)
  obtain db1 where d: "UpdateGeneratedProof (ag_io e a) (ag_now e a) q1 (ag_db ?a) = Inr db1"
    "UpdateGeneratedProof (ag_io e a) (ag_now e a) q2 (ag_db (?a\<lparr>ag_db := db1\<rparr>)) = Inr db2"
    using u by (auto simp: update_both_Inr)
  have m: "pr_key q1 \<in> set (proof_ranges (ag_db ?a))" "pr_key q2 \<in> set (proof_ranges (ag_db (?a\<lparr>ag_db := db1\<rparr>)))"
    using proof_ranges_mem gp(1,2) k proof_ranges_update [OF d(1)] by auto
  have "owns rm (insert (pr_key q1) X) (?a\<lparr>ag_db := db1\<rparr>)"
    by (rule owns_lock [OF d(1)]) (use assms(2) m q in simp_all)
  from owns_lock [OF d(2) this _ m(2)] q
  have "owns rm (insert (pr_key q2) (insert (pr_key q1) X)) (?a\<lparr>ag_db := db1, ag_db := db2\<rparr>)" by simp
  then have "owns rm (insert (pr_key q1) (insert (pr_key q2) X)) a'" by (simp add: a' insert_commute)
  moreover have "unat (pr_BatchNumber q2) = Suc (unat (pr_BatchNumberFinal q1))"
    using can_aggregate_adjacent [OF gp(3)] by (simp add: q)
  ultimately show ?thesis using un k by (simp add: pair_locked_def)
qed

lemma lock_pair_owns:
  assumes "owns rm X a"
  shows "owns rm X (fst (getAndLockProofsToAggregate e a))"
  unfolding getAndLockProofsToAggregate_def
proof (rule fst_with_mutex [OF assms], goal_cases)
  case (1 a)
  show ?case
  proof (cases "GetProofsToAggregate (ag_io e a) (ag_db a)")
    case (Inr r)
    obtain p1 p2 where r: "r = (p1, p2)" by (cases r)
    note gp = GetProofsToAggregate_Inr [OF Inr [unfolded r]]
    have "pr_key p1 \<notin> X" "pr_key p2 \<notin> X"
      using unlocked_not_owned [OF 1] gp(1-3) by (auto simp: can_aggregate_def)
    then have "pr_key (p1\<lparr>pr_GeneratingSince := Some (ag_now e a)\<rparr>) \<notin> X"
      "pr_key (p2\<lparr>pr_GeneratingSince := Some (ag_now e a)\<rparr>) \<notin> X" by (simp_all add: pr_key_def)
    from update_both_owns [OF 1 this, of "ag_io e a" "ag_now e a"] show ?thesis
      by (auto simp: Inr r Let_def split: prod.splits option.splits)
  qed (simp add: 1)
qed

lemma replace_proofs_Inr:
  "replace_proofs io now p db = Inr db2 \<longleftrightarrow>
     \<not> io SqlBegin \<and> \<not> io SqlCommit \<and>
     (\<exists>db1. DeleteGeneratedProofs io (pr_BatchNumber p) (pr_BatchNumberFinal p) db = Inr db1 \<and>
            AddGeneratedProof io now p db1 = Inr db2)"
  by (auto simp: replace_proofs_def split: sum.splits)

lemma add_locked:
  assumes "AddGeneratedProof io now p db = Inr db'" and "pr_GeneratingSince p \<noteq> None"
  shows "locked_keys db' = insert (pr_key p) (locked_keys db)"
proof -
  let ?p = "p\<lparr>pr_CreatedAt := now, pr_UpdatedAt := now\<rparr>"
  have "set (proof_rows db') = insert ?p (set (proof_rows db))" using assms(1) by (simp add: AddGeneratedProof_Inr)
  moreover have "pr_GeneratingSince ?p \<noteq> None" "pr_key ?p = pr_key p" using assms(2) by simp_all
  moreover have "{q \<in> insert ?p S. pr_GeneratingSince q \<noteq> None} = insert ?p {q \<in> S. pr_GeneratingSince q \<noteq> None}" for S
    using assms(2) by auto
  ultimately show ?thesis by (simp only: locked_keys_def image_insert)
qed

lemma replace_owns:
  assumes pl: "pair_locked rm X p1 p2 a" and key: "pr_key p = (pr_BatchNumber p1, pr_BatchNumberFinal p2)"
    and g: "pr_GeneratingSince p \<noteq> None" and r: "replace_proofs io now p (ag_db a) = Inr db2"
  shows "owns rm (insert (pr_key p) X) (a\<lparr>ag_db := db2\<rparr>)" and "pr_key p \<notin> X"
    and "covered (proof_ranges db2) = covered (proof_ranges (ag_db a))"
proof -
  let ?rs = "proof_ranges (ag_db a)"
  let ?b1 = "pr_BatchNumber p1" and ?f1 = "pr_BatchNumberFinal p1" and ?b2 = "pr_BatchNumber p2" and ?f2 = "pr_BatchNumberFinal p2"
  have ok: "ranges_ok ?rs" and mem: "(?b1, ?f1) \<in> set ?rs" "(?b2, ?f2) \<in> set ?rs" and X: "X \<subseteq> set ?rs"
    and adj: "unat ?b2 = Suc (unat ?f1)" and st: "store_ok (ag_db a)" and XL: "X \<subseteq> locked_keys (ag_db a)"
    using pl locked_subset [of "ag_db a"] by (auto simp: pair_locked_def owns_def store_ok_def pr_key_def)
  obtain db1 where d: "DeleteGeneratedProofs io ?b1 ?f2 (ag_db a) = Inr db1" "AddGeneratedProof io now p db1 = Inr db2"
    using r key by (auto simp: replace_proofs_Inr pr_key_def)
  note rep = ps.replace_adjacent [OF d key ok mem adj]
  show "covered (proof_ranges db2) = covered ?rs" by (rule rep(2))
  have out: "\<not> inside ?b1 ?f2 k" if "k \<in> X" for k
  proof
    assume "inside ?b1 ?f2 k"
    moreover have "fst k \<le> snd k" using that X ok by (auto simp: ranges_ok_def)
    ultimately have "overlap k (?b1, ?f2)" by (auto simp: inside_def overlap_def)
    then have "k = (?b1, ?f1) \<or> k = (?b2, ?f2)" using within_union [OF ok mem adj, of k] that X by blast
    with that pl show False by (auto simp: pair_locked_def pr_key_def)
  qed
  show "pr_key p \<notin> X" using out [of "pr_key p"] key by (auto simp: inside_def)
  have "pg_bigint (snd k)" if "k \<in> set (proof_ranges db2)" for k
    using that ps.add_ranges [OF d(2)] ps.del_ranges [OF d(1)] st mem(2) key by (auto simp: store_ok_def)
  then have "store_ok db2" using rep(1) by (simp add: store_ok_def)
  moreover have "insert (pr_key p) X \<subseteq> locked_keys db2"
    using add_locked [OF d(2) g] delete_locked [OF d(1)] XL out by auto
  moreover have "owns rm X a" using pl by (auto simp: pair_locked_def intro: owns_mono)
  ultimately show "owns rm (insert (pr_key p) X) (a\<lparr>ag_db := db2\<rparr>)" using rep(2) by (intro owns_rows) simp_all
qed

lemma pair_wait:
  assumes "rely rm X e" and "pair_locked rm X p1 p2 a"
  shows "pair_locked rm X p1 p2 (ag_wait e [pr_key p1, pr_key p2] a)"
  using owns_wait [of rm X e "[pr_key p1, pr_key p2]" a] assms by (simp add: pair_locked_def)

lemma pair_owns: "pair_locked rm X p1 p2 a \<Longrightarrow> owns rm X a"
  by (auto simp: pair_locked_def intro: owns_mono)

lemma pair_unlock: "pair_locked rm X p1 p2 a \<Longrightarrow> owns rm X (fst (unlockProofsToAggregate e p1 p2 a))"
  by (rule unlock_both_owns) (auto simp: pair_locked_def intro: owns_mono)

lemma owns_bind_pair:
  assumes "pair_locked rm X p1 p2 s" and "\<And>x. ox = Ret x \<Longrightarrow> owns rm X (fst (f s x))"
  shows "owns rm X (fst (bind_out (s, ox) f))"
  using assms pair_owns by (cases ox) (auto simp: bind_out_def)

lemma aggregate_owns:
  assumes "rely rm X e" and "owns rm X a"
  shows "owns rm X (fst (tryAggregateProofs e cfg pv a))"
  unfolding tryAggregateProofs_def
proof (rule owns_bind [OF lock_pair_owns [OF assms(2)]], goal_cases)
  case (1 a1 r)
  show ?case
  proof (cases r)
    case (Inl x)
    with 1 show ?thesis by simp
  next
    case (Inr q)
    obtain p1 p2 where q: "q = (p1, p2)" by (cases q)
    have pl: "pair_locked rm X p1 p2 a1" using lock_pair_Ret [OF _ assms(2)] 1(1) Inr q by blast
    note pw = pair_wait [OF assms(1) pl]
    have fin: "owns rm X (fst (finish_proof e cfg pv p (ag_wait e [pr_key p1, pr_key p2] a1\<lparr>ag_db := db2\<rparr>)))"
      if "replace_proofs io now p (ag_db (ag_wait e [pr_key p1, pr_key p2] a1)) = Inr db2"
        "pr_BatchNumber p = pr_BatchNumber p1" "pr_BatchNumberFinal p = pr_BatchNumberFinal p2"
        "pr_GeneratingSince p \<noteq> None" for io now p db2
    proof -
      have "pr_key p = (pr_BatchNumber p1, pr_BatchNumberFinal p2)" using that by (simp add: pr_key_def)
      note ro = replace_owns [OF pw this that(4,1)]
      show ?thesis by (rule finish_proof_owns [OF assms(1) ro(1,2)])
    qed
    show ?thesis
      using pair_unlock [OF pl, of e] pair_unlock [OF pw, of e]
      by (auto simp: Inr q Let_def exec_db_def intro!: owns_bind_pair [OF pw] fin split: sum.splits)
  qed
qed simp

section \<open>Proofs of batches\<close>

lemma find_batch_step:
  "CheckProofExistsForBatch io (n + 1) (ag_db a) = Inl x \<Longrightarrow> find_batch io a n = Inl x"
  "CheckProofExistsForBatch io (n + 1) (ag_db a) = Inr False \<Longrightarrow> find_batch io a n = Inr (n + 1, False)"
  "CheckProofExistsForBatch io (n + 1) (ag_db a) = Inr True \<Longrightarrow>
     find_batch io a n = (if getAccInputHash a n = 0 \<and> n + 1 > 1 then Inr (n + 1, True) else find_batch io a (n + 1))"
  by (simp_all add: find_batch.simps [of io a n])

lemma find_batch_cases [consumes 1, case_names uncovered stop]:
  assumes "find_batch io a n = Inr (m, s)"
  obtains "s = False" and "m \<notin> covered (proof_ranges (ag_db a))" | "s = True" and "m > 1" and "getAccInputHash a (m - 1) = 0" and "m \<in> covered (proof_ranges (ag_db a))"
  using assms
proof (induction io a n arbitrary: thesis rule: find_batch.induct)
  case (1 io a n)
  show ?case
  proof (cases "CheckProofExistsForBatch io (n + 1) (ag_db a)")
    case (Inl x)
    with 1(4) show ?thesis by (simp add: find_batch_step(1))
  next
    case (Inr ex)
    show ?thesis
    proof (cases ex)
      case False
      then show ?thesis
        using 1(2) 1(4) Inr find_batch_step(2) [of io n a] ps.ex_covered [OF Inr] by simp
    next
      case True
      show ?thesis
      proof (cases "getAccInputHash a n = 0 \<and> n + 1 > 1")
        case stop: True
        then have "m = n + 1" "s = True" using find_batch_step(3) [of io n a] Inr True 1(4) by simp_all
        then show ?thesis using stop ps.ex_covered [OF Inr] True by (intro 1(3)) simp_all
      next
        case False
        with find_batch_step(3) [of io n a] Inr True 1(4) have "find_batch io a (n + 1) = Inr (m, s)" by simp
        moreover have "\<not> (getAccInputHash a (n + 1 - 1) = 0 \<and> 1 < n + 1)" using False by simp
        ultimately show ?thesis using 1(1) [OF Inr _ _ 1(2,3)] True by blast
      qed
    qed
  qed
qed

lemma find_batch_remembers: "find_batch io a n = Inr (m, s) \<Longrightarrow> remembers a \<Longrightarrow> s = False"
  by (erule find_batch_cases) (auto simp: remembers_def)

lemma cleanup_all:
  assumes "CleanupGeneratedProofs io maxDBBigIntValue db = Inr db'" and "store_ok db"
  shows "proof_rows db' = []"
proof -
  have "pr_BatchNumberFinal p \<le> maxDBBigIntValue" if "p \<in> set (proof_rows db)" for p
  proof -
    have "pg_bigint (snd (pr_key p))" using assms(2) proof_ranges_mem [OF that] by (auto simp: store_ok_def)
    then show ?thesis by (simp add: pg_bigint_def maxDBBigIntValue_def word_le_nat_alt pr_key_def)
  qed
  then show ?thesis using assms(1) by (auto simp: CleanupGeneratedProofs_def pg_exec_Inr filter_empty_conv)
qed

lemma choose_owns:
  assumes "owns rm X a" and "rm \<or> X = {}"
  shows "owns rm X (fst (choose_batch e a))"
    and "choose_batch e a = (a1, Inr n) \<Longrightarrow> n \<notin> covered (proof_ranges (ag_db a1))"
    and "ag_accInputHashes (fst (choose_batch e a)) = ag_accInputHashes a"
    and "ag_clock (fst (choose_batch e a)) = ag_clock a"
proof -
  have cl: "owns rm X (a\<lparr>ag_db := db'\<rparr>)" "n \<notin> covered (proof_ranges db')"
    if "CleanupGeneratedProofs io maxDBBigIntValue (ag_db a) = Inr db'" "X = {}" for db' n io
    using cleanup_all [OF that(1)] assms(1) that(2)
    by (auto simp: owns_def store_ok_def proof_ranges_def ranges_ok_def covered_def remembers_def)
  have c: "X = {}" if "find_batch (ag_io e a) a lst = Inr (m, True)" for lst m
    using find_batch_remembers [OF that] assms by (auto simp: owns_def)
  show "owns rm X (fst (choose_batch e a))"
    using assms(1) c cl(1)
    by (auto simp: choose_batch_def exec_db_def split: sum.splits bool.splits)
  show "n \<notin> covered (proof_ranges (ag_db a1))" if "choose_batch e a = (a1, Inr n)"
    using that cl(2) c
    by (auto simp: choose_batch_def exec_db_def split: sum.splits bool.splits elim: find_batch_cases)
  show "ag_accInputHashes (fst (choose_batch e a)) = ag_accInputHashes a"
    "ag_clock (fst (choose_batch e a)) = ag_clock a"
    by (auto simp: choose_batch_def exec_db_def split: sum.splits bool.splits)
qed

lemma AddSequence_rows: "AddSequence io s db = Inr db' \<Longrightarrow> proof_rows db' = proof_rows db"
  by (simp add: AddSequence_def pg_exec_Inr)

lemma rows_owns: "proof_rows db' = proof_rows (ag_db a) \<Longrightarrow> owns rm X (a\<lparr>ag_db := db'\<rparr>) = owns rm X a"
  by (simp add: owns_def store_ok_def locked_keys_def proof_ranges_def remembers_def getAccInputHash_def)

lemma add_owns:
  assumes "AddGeneratedProof io now p (ag_db a) = Inr db'" and "owns rm X a" and "pr_key p = (n, n)"
    and "n \<notin> covered (proof_ranges (ag_db a))" and "pr_GeneratingSince p \<noteq> None"
    and "n > 1 \<Longrightarrow> getAccInputHash a (n - 1) \<noteq> 0"
  shows "owns rm (insert (pr_key p) X) (a\<lparr>ag_db := db'\<rparr>)" and "pr_key p \<notin> X"
proof -
  have ok: "ranges_ok (proof_ranges (ag_db a))" using assms(2) by (simp add: owns_def store_ok_def)
  have "pg_bigint n" using assms(1,3) by (simp add: AddGeneratedProof_Inr pr_key_def)
  then have "store_ok db'"
    using ps.add_uncovered(1) [OF assms(1) ok assms(3,4)] ps.add_ranges [OF assms(1)] assms(2,3)
    by (auto simp: owns_def store_ok_def)
  then show "owns rm (insert (pr_key p) X) (a\<lparr>ag_db := db'\<rparr>)"
    using add_locked [OF assms(1,5)] assms(2,6) ps.add_uncovered(2) [OF assms(1) ok assms(3,4)]
    by (auto simp: owns_def remembers_def getAccInputHash_def)
  show "pr_key p \<notin> X"
    using assms(1,2) locked_subset by (auto simp: AddGeneratedProof_Inr owns_def)
qed

lemma lock_batch_owns:
  assumes "owns rm X a" and "vb_BatchNumber v \<notin> covered (proof_ranges (ag_db a))"
    and "vb_BatchNumber v > 1 \<Longrightarrow> getAccInputHash a (vb_BatchNumber v - 1) \<noteq> 0"
  shows "owns rm X (fst (lock_batch e cfg pv n (s, v, b) a))"
    and "lock_batch e cfg pv n (s, v, b) a = (a', Ret (Inr (Some (b', w, p)))) \<Longrightarrow>
      owns rm (insert (pr_key p) X) a' \<and> pr_key p \<notin> X \<and> b' = b \<and> pr_key p = (vb_BatchNumber v, vb_BatchNumber v) \<and>
      ag_accInputHashes a' = ag_accInputHashes a"
proof -
  let ?p = "\<lambda>a1. \<lparr>pr_BatchNumber = vb_BatchNumber v, pr_BatchNumberFinal = vb_BatchNumber v,
      pr_Proof = [], pr_InputProver = [], pr_ProofID = None, pr_Prover = Some (pi_Name pv),
      pr_ProverID = Some (pi_ID pv), pr_GeneratingSince = Some (ag_now e a1), pr_CreatedAt = 0, pr_UpdatedAt = 0\<rparr>"
  have key: "pr_key (?p a1) = (vb_BatchNumber v, vb_BatchNumber v)" for a1 by (simp add: pr_key_def)
  have sq: "owns rm X (a\<lparr>ag_db := db1\<rparr>)" "vb_BatchNumber v \<notin> covered (proof_ranges db1)"
    if "AddSequence (ag_io e a) s (ag_db a) = Inr db1" for db1
    using AddSequence_rows [OF that] assms rows_owns [of db1 a rm X] by (simp_all add: proof_ranges_def)
  have ad: "owns rm (insert (pr_key (?p a)) X) (a\<lparr>ag_db := db2\<rparr>) \<and> pr_key (?p a) \<notin> X"
    if "AddSequence (ag_io e a) s (ag_db a) = Inr db1" "AddGeneratedProof (ag_io e a) (ag_now e a) (?p a) db1 = Inr db2" for db1 db2
    using add_owns [of "ag_io e a" "ag_now e a" "?p a" "a\<lparr>ag_db := db1\<rparr>" db2 rm X] that(2) sq [OF that(1)] key assms(3)
    by (simp add: getAccInputHash_def)
  show "owns rm X (fst (lock_batch e cfg pv n (s, v, b) a))"
    using assms(1) sq(1) ad
    by (auto simp: lock_batch_def Let_def exec_db_def split: sum.splits intro: owns_mono)
  show "owns rm (insert (pr_key p) X) a' \<and> pr_key p \<notin> X \<and> b' = b \<and> pr_key p = (vb_BatchNumber v, vb_BatchNumber v) \<and>
      ag_accInputHashes a' = ag_accInputHashes a"
    if "lock_batch e cfg pv n (s, v, b) a = (a', Ret (Inr (Some (b', w, p))))"
    using that ad key by (auto simp: lock_batch_def Let_def exec_db_def split: sum.splits if_splits)
qed

text \<open>What the synchronizer returns for a batch is that batch.\<close>

definition virtual_law :: "agg_env \<Rightarrow> bool" where
  "virtual_law e \<longleftrightarrow> (\<forall>t n v. ax_GetVirtualBatchByBatchNumber e t n = Inr v \<longrightarrow> vb_BatchNumber v = n)"

lemma batch_data_virtual:
  "batch_data K e cfg n a = Inr (s, v, b) \<Longrightarrow> virtual_law e \<Longrightarrow> vb_BatchNumber v = n"
  by (auto simp: batch_data_def Let_def virtual_law_def bind_err_def split: sum.splits option.splits if_splits)

lemma batch_data_hashes:
  assumes "batch_data K e cfg n a = Inr (s, v, b)" and "\<forall>x. K x \<noteq> 0"
  shows "n > 1 \<Longrightarrow> getAccInputHash a (n - 1) \<noteq> 0" and "ba_AccInputHash b \<noteq> 0"
  using assms
  by (auto simp: batch_data_def Let_def bind_err_def CalculateAccInputHash_def split: sum.splits option.splits if_splits)

lemma to_prove_owns:
  assumes "owns rm X a" and "rm \<or> X = {}" and "virtual_law e" and "\<forall>x. K x \<noteq> 0"
  shows "owns rm X (fst (getAndLockBatchToProve K e cfg pv a))"
    and "getAndLockBatchToProve K e cfg pv a = (a', Ret (Inr (Some (b, w, p)))) \<Longrightarrow>
      owns rm (insert (pr_key p) X) a' \<and> pr_key p \<notin> X"
proof -
  let ?a = "a\<lparr>ag_stateDBMutex := True\<rparr>"
  let ?f = "\<lambda>a. case choose_batch e a of
       (a1, Inl x) \<Rightarrow> (a1, Ret (Inl x))
     | (a1, Inr n) \<Rightarrow>
         (case batch_data K e cfg n a1 of
            Inl x \<Rightarrow> (a1, Ret (Inl x))
          | Inr (s, v, b) \<Rightarrow> lock_batch e cfg pv n (s, v, b) (setAccInputHash n (ba_AccInputHash b) a1))"
  have pre: "owns rm X ?a" "rm \<or> X = {}" using assms(1,2) by simp_all
  have lb: "owns rm X (fst (lock_batch e cfg pv n (s, v, b) (setAccInputHash n (ba_AccInputHash b) a1)))"
    "lock_batch e cfg pv n (s, v, b) (setAccInputHash n (ba_AccInputHash b) a1) = (a2, Ret (Inr (Some (b', w, p)))) \<Longrightarrow>
      owns rm (insert (pr_key p) X) a2 \<and> pr_key p \<notin> X"
    if "choose_batch e ?a = (a1, Inr n)" "batch_data K e cfg n a1 = Inr (s, v, b)" for a1 n s v b a2 b' w p
  proof -
    let ?a2 = "setAccInputHash n (ba_AccInputHash b) a1"
    note bd = batch_data_hashes [OF that(2) assms(4)] batch_data_virtual [OF that(2) assms(3)]
    have "owns rm X a1" using choose_owns(1) [OF pre] that(1) by (metis fst_conv)
    then have "owns rm X ?a2" using remembers_set [OF _ bd(2)] by (simp add: owns_def) (simp add: setAccInputHash_def)
    moreover have "vb_BatchNumber v \<notin> covered (proof_ranges (ag_db ?a2))"
      using choose_owns(2) [OF pre that(1)] bd(3) by (simp add: setAccInputHash_def)
    moreover have "getAccInputHash ?a2 (vb_BatchNumber v - 1) \<noteq> 0" if "vb_BatchNumber v > 1"
      using that bd(1,2,3) by (simp add: setAccInputHash_def getAccInputHash_def)
    note lock_batch_owns [OF calculation this]
    then show "owns rm X (fst (lock_batch e cfg pv n (s, v, b) ?a2))"
      "lock_batch e cfg pv n (s, v, b) ?a2 = (a2, Ret (Inr (Some (b', w, p)))) \<Longrightarrow>
        owns rm (insert (pr_key p) X) a2 \<and> pr_key p \<notin> X" by blast+
  qed
  have f: "owns rm X (fst (?f ?a))"
    using choose_owns(1) [OF pre, of e] lb(1) by (auto split: prod.splits sum.splits)
  show "owns rm X (fst (getAndLockBatchToProve K e cfg pv a))"
  proof -
    obtain a1 ox where fa: "?f ?a = (a1, ox)" by fastforce
    with f have "owns rm X a1" by simp
    with fa assms(1) show ?thesis
      by (cases ox) (simp_all add: getAndLockBatchToProve_def with_stateDBMutex_def)
  qed
  show "owns rm (insert (pr_key p) X) a' \<and> pr_key p \<notin> X"
    if "getAndLockBatchToProve K e cfg pv a = (a', Ret (Inr (Some (b, w, p))))"
    using that lb(2)
    by (auto simp: getAndLockBatchToProve_def with_mutex_Ret split: prod.splits sum.splits)
qed

lemma generate_owns:
  assumes "rely rm X e" and "owns rm X a" and "rm \<or> X = {}" and "virtual_law e" and "\<forall>x. K x \<noteq> 0"
  shows "owns rm X (fst (tryGenerateBatchProof K e cfg pv a))"
  unfolding tryGenerateBatchProof_def
proof (rule owns_bind [OF to_prove_owns(1) [OF assms(2-5)]], goal_cases)
  case (1 a1 r)
  show ?case
  proof (cases "\<exists>b w p. r = Inr (Some (b, w, p))")
    case False
    with 1 show ?thesis by (auto split: sum.splits option.splits)
  next
    case True
    then obtain b w p where r: "r = Inr (Some (b, w, p))" by blast
    with to_prove_owns(2) [OF assms(2-5)] 1(1) have o: "owns rm (insert (pr_key p) X) a1" "pr_key p \<notin> X" by blast+
    have ow: "owns rm (insert (pr_key p) X) (ag_wait e [pr_key p] a1)"
      using owns_wait [of rm X e "[pr_key p]" a1] assms(1) o(1) by simp
    have X1: "owns rm X a1" and Xw: "owns rm X (ag_wait e [pr_key p] a1)" using o(1) ow by (auto intro: owns_mono)
    have fail: "owns rm X (fst (exec_db (DeleteGeneratedProofs io (pr_BatchNumber p) (pr_BatchNumberFinal p) (ag_db a2)) a2))"
      if "owns rm (insert (pr_key p) X) a2" for a2 io
      using that o(2) by (intro owns_delete) (simp_all add: pr_key_def)
    have fin: "owns rm X (fst (finish_proof e cfg pv (p\<lparr>pr_ProofID := i, pr_Proof := t\<rparr>) (ag_wait e [pr_key p] a1)))" for i t
      using finish_proof_owns [OF assms(1), of "p\<lparr>pr_ProofID := i, pr_Proof := t\<rparr>"] ow o(2) by (simp add: pr_key_def)
    have "owns rm X (fst (bind_out (a1, ox) f))" if "\<And>x. owns rm X (fst (f a1 x))" for ox :: "'x outcome" and f :: "Aggregator \<Rightarrow> 'x \<Rightarrow> Aggregator \<times> 'y outcome"
      using that X1 by (cases ox) (simp_all add: bind_out_def)
    then show ?thesis
      using fail [OF o(1)] fail [OF ow] fin X1 Xw
      by (auto simp: r Let_def bind_out_def split: sum.splits outcome.splits)
  qed
qed simp

section \<open>All actions\<close>

lemma filter_owns: "owns rm {} a \<Longrightarrow> owns rm {} (a\<lparr>ag_db := (ag_db a)\<lparr>proof_rows := filter P (proof_rows (ag_db a))\<rparr>\<rparr>)"
  using ranges_filter_rows [of "ag_db a" P]
  by (intro owns_rows covered_mono) (auto simp: owns_def store_ok_def proof_ranges_def)

lemma delete_any_owns: "owns rm {} a \<Longrightarrow> owns rm {} (fst (exec_db (DeleteGeneratedProofs io b f (ag_db a)) a))"
  using filter_owns by (auto simp: exec_db_def DeleteGeneratedProofs_def pg_exec_def)

lemma delete_ungenerated_owns: "owns rm {} a \<Longrightarrow> owns rm {} (fst (exec_db (DeleteUngeneratedProofs io (ag_db a)) a))"
  using filter_owns by (auto simp: exec_db_def DeleteUngeneratedProofs_def pg_exec_def)

lemma any_update_owns: "owns rm {} a \<Longrightarrow> owns rm {} (fst (exec_db (UpdateGeneratedProof io now p (ag_db a)) a))"
  by (rule owns_release) simp_all

lemma reorg_owns: "owns rm {} a \<Longrightarrow> owns rm {} (fst (handleReorg e a))"
  by (auto simp: handleReorg_def Let_def intro!: delete_any_owns delete_ungenerated_owns split: sum.splits)

lemma rollback_owns:
  assumes "owns False {} a"
  shows "owns False {} (fst (handleRollbackBatches e n a))"
proof -
  have s: "owns False {} (setAccInputHash l h (a\<lparr>ag_accInputHashes := m\<rparr>))" for l h m
    using assms by (simp add: setAccInputHash_def)
  note d1 = delete_ungenerated_owns [OF s] and d2 = delete_any_owns [OF delete_ungenerated_owns [OF s]]
  show ?thesis
    using assms d1 d2
    by (auto simp: handleRollbackBatches_def Let_def split: sum.splits prod.splits option.splits) (metis fst_conv)+
qed

lemma cleanup_owns: "owns rm {} a \<Longrightarrow> owns rm {} (cleanupLockedProofs i e cfg a)"
  using filter_owns by (auto simp: cleanupLockedProofs_def CleanupLockedProofs_def split: sum.splits option.splits if_splits)

lemma failure_owns: "owns rm {} a \<Longrightarrow> owns rm {} (handleFailureToAddVerifyBatchToBeMonitored e p a)"
  by (simp add: handleFailureToAddVerifyBatchToBeMonitored_def Let_def endProofVerification_def any_update_owns)

lemma wait_any: "rely rm X e \<Longrightarrow> owns rm {} a \<Longrightarrow> owns rm {} (ag_wait e held a)"
  by (rule owns_wait_part) simp_all

lemma agglayer_owns: "rely rm X e \<Longrightarrow> owns rm {} a \<Longrightarrow> owns rm {} (fst (settleWithAggLayer h e p i a))"
  by (auto simp: settleWithAggLayer_def Let_def failure_owns wait_any split: sum.splits option.splits)

lemma monitored_owns:
  assumes "rely False X e" and "owns False {} a"
  shows "owns False {} (fst (handleMonitoredTxResult e cfg stop b f r a))"
proof -
  note w = wait_any [OF assms, of "[(b, f)]"]
  note d = delete_any_owns [OF w, of "ax_io e (ag_clock (ag_wait e [(b, f)] a))" b f]
  show ?thesis
    using assms(2) w d
    by (auto simp: handleMonitoredTxResult_def removeAccInputHashes_def Let_def split: option.splits bool.splits)
qed

lemma results_owns: "rely False X e \<Longrightarrow> owns False {} a \<Longrightarrow> owns False {} (fst (handle_results e cfg stop p rs a))"
  by (induction rs arbitrary: a) (auto intro!: owns_bind [OF monitored_owns])

lemma direct_owns: "rely False X e \<Longrightarrow> owns False {} a \<Longrightarrow> owns False {} (fst (settleDirect e cfg stop p i a))"
  by (auto simp: settleDirect_def Let_def failure_owns intro!: owns_bind [OF results_owns] split: sum.splits)

lemma send_owns:
  assumes "rely rm X e" and "owns rm {} a" and "rm \<Longrightarrow> ac_AggLayerBackend cfg"
  shows "owns rm {} (fst (sendFinalProof_step h e cfg stop a))"
proof (cases "ag_finalProof a")
  case (Cons msg rest)
  let ?a = "startProofVerification (a\<lparr>ag_finalProof := rest\<rparr>)"
  have s: "owns rm {} ?a" using assms(2) by (simp add: startProofVerification_def)
  have settle: "owns rm {} (fst (if ac_AggLayerBackend cfg
      then (case settleWithAggLayer h e p i ?a of (a2, ok) \<Rightarrow> (a2, Ret ok)) else settleDirect e cfg stop p i ?a))" for p i
    using agglayer_owns [OF assms(1) s, of h p i] direct_owns [of X e ?a] assms(1,3) s
    by (cases rm) (auto split: prod.splits)
  show ?thesis
    using s settle
    by (auto simp: sendFinalProof_step_def Cons Let_def endProofVerification_def resetVerifyProofTime_def
        intro!: owns_bind [where Y = "{}"] split: sum.splits)
qed (use assms in \<open>simp add: sendFinalProof_step_def\<close>)

lemma round_owns:
  assumes "rely rm {} e" and "virtual_law e" and "owns rm {} a" and "\<forall>x. K x \<noteq> 0"
  shows "owns rm {} (fst (channel_round K e cfg pv a))"
proof -
  have agg: "owns rm {} (fst (tryAggregateProofs e cfg pv (ag_wait e [] a1)))" if "owns rm {} a1" for a1
    by (rule aggregate_owns [OF assms(1) wait_any [OF assms(1) that]])
  have gen: "owns rm {} (fst (tryGenerateBatchProof K e cfg pv (ag_wait e [] a2)))" if "owns rm {} a2" for a2
    by (rule generate_owns [OF assms(1) wait_any [OF assms(1) that] _ assms(2,4)]) simp
  show ?thesis
    unfolding channel_round_def using assms(3)
    by (auto intro!: owns_bind [OF try_final_none_owns [OF assms(1,3)]] owns_bind [OF agg] owns_bind [OF gen]
        split: sum.splits bool.splits)
qed

text \<open>
  Every action keeps the tables in order. The hashes stay in memory except for a rollback, which resets them, and a settlement by
  a transaction of its own, which removes those of the settled batches.
\<close>

fun keeps_memory :: "agg_Config \<Rightarrow> agg_action \<Rightarrow> bool" where
  "keeps_memory cfg (SendFinalProof _) = ac_AggLayerBackend cfg"
| "keeps_memory cfg (RolledBack _) = False"
| "keeps_memory cfg _ = True"

lemma act_owns:
  assumes "rely rm {} e" and "virtual_law e" and "owns rm {} a" and "\<forall>x. gp_K P x \<noteq> 0"
    and "rm \<Longrightarrow> keeps_memory (gp_cfg P) act"
  shows "owns rm {} (fst (agg_act P e act a))"
proof (cases act)
  case (SendFinalProof stop)
  then show ?thesis using send_owns [OF assms(1,3)] assms(5) by simp
next
  case (RolledBack n)
  then have "\<not> rm" using assms(5) by auto
  then show ?thesis using RolledBack rollback_owns assms(3) by simp
qed (use assms in \<open>simp_all add: round_owns cleanup_owns reorg_owns\<close>)

text \<open>A run of the aggregator: actions one after the other, each with the environment it meets.\<close>

fun agg_run :: "agg_params \<Rightarrow> (agg_env \<times> agg_action) list \<Rightarrow> Aggregator \<Rightarrow> Aggregator" where
  "agg_run P [] a = a"
| "agg_run P ((e, act) # steps) a = agg_run P steps (fst (agg_act P e act a))"

lemma run_owns:
  assumes "\<forall>(e, act)\<in>set steps. rely rm {} e \<and> virtual_law e \<and> (rm \<longrightarrow> keeps_memory (gp_cfg P) act)"
    and "owns rm {} a" and "\<forall>x. gp_K P x \<noteq> 0"
  shows "owns rm {} (agg_run P steps a)"
  using assms by (induction P steps a rule: agg_run.induct) (auto simp: act_owns)

section \<open>Provers guarantee what they rely on\<close>

text \<open>
  What other provers may do during a wait: nothing, an attempt of one of them (with its own waits), or one thing
  after the other.
\<close>

inductive others :: "keccak \<Rightarrow> (Aggregator \<Rightarrow> Aggregator) \<Rightarrow> bool" for K where
  quiet: "others K (\<lambda>a. a)"
| build: "others K g \<Longrightarrow> ax_meanwhile e = (\<lambda>_. g) \<Longrightarrow> others K (\<lambda>a. fst (tryBuildFinalProof e cfg pv None a))"
| aggregate: "others K g \<Longrightarrow> ax_meanwhile e = (\<lambda>_. g) \<Longrightarrow> others K (\<lambda>a. fst (tryAggregateProofs e cfg pv a))"
| generate: "others K g \<Longrightarrow> ax_meanwhile e = (\<lambda>_. g) \<Longrightarrow> virtual_law e \<Longrightarrow>
    others K (\<lambda>a. fst (tryGenerateBatchProof K e cfg pv a))"
| and_then: "others K f \<Longrightarrow> others K g \<Longrightarrow> others K (\<lambda>a. g (f a))"

lemma others_keep:
  assumes "others K g" and "\<forall>x. K x \<noteq> 0" and "owns True Y a"
  shows "owns True Y (g a)"
  using assms
proof (induction g arbitrary: Y a rule: others.induct)
  case (build g e cfg pv)
  then have "rely True Y e" by (auto simp: rely_def)
  with build.prems show ?case by (simp add: try_final_none_owns)
next
  case (aggregate g e cfg pv)
  then have "rely True Y e" by (auto simp: rely_def)
  with aggregate.prems show ?case by (simp add: aggregate_owns)
next
  case (generate g e cfg pv)
  then have "rely True Y e" by (auto simp: rely_def)
  with generate.prems generate.hyps show ?case by (auto intro: generate_owns)
qed auto

lemma others_rely: "others K g \<Longrightarrow> \<forall>x. K x \<noteq> 0 \<Longrightarrow> ax_meanwhile e = (\<lambda>_. g) \<Longrightarrow> rely True X e"
  by (auto simp: rely_def others_keep)

lemma quiet_rely: "ax_meanwhile e = (\<lambda>_ a. a) \<Longrightarrow> rely rm X e"
  by (simp add: rely_def)

section \<open>Properties\<close>

definition disjoint_rows :: "agg_db \<Rightarrow> bool" where
  "disjoint_rows db \<longleftrightarrow>
     (\<forall>p\<in>set (proof_rows db). \<forall>q\<in>set (proof_rows db). \<forall>n.
        pr_BatchNumber p \<le> n \<and> n \<le> pr_BatchNumberFinal p \<and> pr_BatchNumber q \<le> n \<and> n \<le> pr_BatchNumberFinal q \<longrightarrow> p = q)"

lemma store_ok_disjoint:
  assumes "store_ok db"
  shows "disjoint_rows db"
  unfolding disjoint_rows_def
proof (intro ballI allI impI)
  fix p q n
  assume m: "p \<in> set (proof_rows db)" "q \<in> set (proof_rows db)"
    and n: "pr_BatchNumber p \<le> n \<and> n \<le> pr_BatchNumberFinal p \<and> pr_BatchNumber q \<le> n \<and> n \<le> pr_BatchNumberFinal q"
  then have "overlap (pr_key p) (pr_key q)" by (auto simp: overlap_def pr_key_def)
  then have "pr_key p = pr_key q"
    using assms ranges_okD [OF _ proof_ranges_mem [OF m(1)] proof_ranges_mem [OF m(2)]] by (simp add: store_ok_def)
  with store_ok_unique [OF assms m] show "p = q" .
qed

text \<open>C5. No batch is proved twice: two stored proofs whose ranges share a batch are the same row, after any sequence of rounds of
  provers, settlements, clean-ups, reorgs and rollbacks whose calls are not interleaved; and, when every wait for a prover, the RPC node
  or the chain lets other provers make any attempts, after any sequence of rounds, settlements through the AggLayer,
  clean-ups and reorgs, provided that the accumulated input hashes before the batches proved at the start are in memory (as
  they are when no proof is stored).
  The hash function never returns zero, and the synchronizer returns the batch it was asked for.\<close>

theorem stored_proofs_disjoint:
  assumes "\<forall>x. gp_K P x \<noteq> 0" and "\<forall>(e, act)\<in>set steps. virtual_law e" and "store_ok (ag_db a)"
    and "(\<forall>(e, act)\<in>set steps. ax_meanwhile e = (\<lambda>_ a. a)) \<or>
      remembers a \<and> (\<forall>(e, act)\<in>set steps. (\<exists>g. others (gp_K P) g \<and> ax_meanwhile e = (\<lambda>_. g)) \<and> keeps_memory (gp_cfg P) act)"
  shows "disjoint_rows (ag_db (agg_run P steps a))"
proof -
  have "\<exists>rm. owns rm {} (agg_run P steps a)"
    using assms(4)
  proof
    assume "\<forall>(e, act)\<in>set steps. ax_meanwhile e = (\<lambda>_ a. a)"
    then have "owns False {} (agg_run P steps a)"
      using assms(1-3) quiet_rely by (intro run_owns) (fastforce simp: owns_def)+
    then show ?thesis by blast
  next
    assume i: "remembers a \<and> (\<forall>(e, act)\<in>set steps. (\<exists>g. others (gp_K P) g \<and> ax_meanwhile e = (\<lambda>_. g)) \<and> keeps_memory (gp_cfg P) act)"
    then have "owns True {} (agg_run P steps a)"
      using assms(1-3) others_rely by (intro run_owns) (fastforce simp: owns_def)+
    then show ?thesis by blast
  qed
  then show ?thesis using store_ok_disjoint by (auto simp: owns_def)
qed

definition sample_agg_env :: agg_env where
  "sample_agg_env = \<lparr>ax_io = (\<lambda>_ _. False), ax_Now = (\<lambda>_. 100), ax_ctxDone = (\<lambda>_. False), ax_meanwhile = (\<lambda>_ a. a),
     ax_GetLatestVerifiedBatchNum = (\<lambda>_. Inr 4), ax_GetBatchAccInputHash = (\<lambda>_ _. Inr 9),
     ax_FinalizedBlockNumber = (\<lambda>_ _. Inr 50), ax_BuildTrustedVerifyBatchesTxData = (\<lambda>_ _ _ _. Inr (1, [])),
     ax_RollupId = 1, ax_Sign = (\<lambda>_. Inr []), ax_SendTx = (\<lambda>_ _ _. Inr 3), ax_WaitTxToBeMined = (\<lambda>_ _. None),
     ax_TxAdd = (\<lambda>_ _ _. Inr 8), ax_PendingResults = (\<lambda>_. []), ax_GetLastestVirtualBatchNumber = (\<lambda>_. Inr 7),
     ax_GetSequenceByBatchNumber = (\<lambda>_ _. Inr (Some \<lparr>sb_FromBatchNumber = 5, sb_ToBatchNumber = 7, sb_Timestamp = 1000\<rparr>)),
     ax_GetVirtualBatchByBatchNumber = (\<lambda>_ n. Inr \<lparr>vb_BatchNumber = n, vb_BatchL2Data = [], vb_L1InfoRoot = Some 0, vb_BlockNumber = 20\<rparr>),
     ax_L1BlockParentHash = (\<lambda>_ _. Inr 0), ax_GetLeafsByL1InfoRoot = (\<lambda>_ _. Inr []),
     ax_GetL1InfoTreeLeaves = (\<lambda>_ _. Inr (\<lambda>_. None)),
     ax_GetBatch = (\<lambda>_ n. Inr (NewRPCBatch n 0 [] [] 0 2 3 6 True)), ax_GetWitness = (\<lambda>_ _ _. Inr [1]),
     ax_Marshal = (\<lambda>_ _. Inr ''{}''), ax_AddrString = (\<lambda>_. ''0x06''), ax_rlp = short_rlp\<rparr>"

definition sample_prover :: ProverInterface where
  "sample_prover = \<lparr>pi_Name = ''p'', pi_ID = ''1'', pi_IsIdle = (\<lambda>_. Inr True), pi_BatchProof = (\<lambda>_ _. Inr ''b''),
     pi_AggregatedProof = (\<lambda>_ _ _. Inr ''a''), pi_FinalProof = (\<lambda>_ _ _. Inr ''f''),
     pi_WaitRecursiveProof = (\<lambda>_ _. Ret (Inr (''r'', 0, 0))),
     pi_WaitFinalProof = (\<lambda>_ _. Some (Inr \<lparr>fp_Proof = ''0x'', fp_Public = Some \<lparr>px_NewStateRoot = [], px_NewLocalExitRoot = []\<rparr>\<rparr>))\<rparr>"

definition sample_row :: "u64 \<Rightarrow> u64 \<Rightarrow> int option \<Rightarrow> sproof" where
  "sample_row b f g = \<lparr>pr_BatchNumber = b, pr_BatchNumberFinal = f, pr_Proof = ''x'', pr_InputProver = [], pr_ProofID = Some ''i'',
     pr_Prover = None, pr_ProverID = None, pr_GeneratingSince = g, pr_CreatedAt = 0, pr_UpdatedAt = 0\<rparr>"

definition sample_aggregator :: "sproof list \<Rightarrow> Aggregator" where
  "sample_aggregator rows = \<lparr>ag_db = \<lparr>proof_rows = rows, sequence_rows = [\<lparr>st_FromBatchNumber = 5, st_ToBatchNumber = 7\<rparr>]\<rparr>,
     ag_accInputHashes = (\<lambda>n. if n = 4 then 9 else 0), ag_timeSendFinalProof = 0, ag_verifyingProof = False,
     ag_halted = False, ag_finalProof = [], ag_stateDBMutex = False, ag_clock = 0\<rparr>"

lemma sample_env_ok: "virtual_law sample_agg_env"
  by (simp add: virtual_law_def sample_agg_env_def)


definition sample_agg_params :: agg_params where
  "sample_agg_params = \<lparr>gp_K = (\<lambda>_. 1), gp_Hex2Bytes = (\<lambda>_. []), gp_interval = (\<lambda>_. Some 10),
     gp_cfg = \<lparr>ac_SenderAddress = ''s'', ac_ChainID = 1, ac_ForkId = 12, ac_BatchProofSanityCheckEnabled = True,
       ac_VerifyProofInterval = 5, ac_GeneratingProofCleanupThreshold = ''1h'', ac_AggLayerBackend = False,
       ac_UseFullWitness = False, ac_SyncModeOnlyEnabled = False, ac_checker = ProfitabilityAcceptAll, ac_StatusFailed = ''failed''\<rparr>\<rparr>"

lemmas sample_agg_defs = sample_agg_env_def sample_prover_def sample_row_def sample_aggregator_def sample_agg_params_def

lemmas store_defs = pg_exec_def pg_bigint_def GetProofReadyToVerify_def GetProofsToAggregate_def can_aggregate_def
  in_sequence_def seq_from_def seq_to_def UpdateGeneratedProof_def AddGeneratedProof_def DeleteGeneratedProofs_def
  CheckProofContainsCompleteSequences_def pr_key_def

text \<open>
  Two provers while a final proof is being settled: whenever one waits, the other one aggregates two stored proofs, so that the
  first one meets the proof of batches 5 and 6 when it looks for proofs to aggregate.
\<close>

definition sample_memory :: "sproof list \<Rightarrow> Aggregator" where
  "sample_memory rows = (sample_aggregator rows)\<lparr>ag_accInputHashes := (\<lambda>_. 9), ag_verifyingProof := True\<rparr>"

definition sample_busy_env :: agg_env where
  "sample_busy_env = sample_agg_env\<lparr>ax_meanwhile := (\<lambda>_ a. fst (tryAggregateProofs sample_agg_env
     (gp_cfg sample_agg_params) sample_prover a))\<rparr>"

lemma sample_busy_others:
  "others (gp_K sample_agg_params) (\<lambda>a. fst (tryAggregateProofs sample_agg_env (gp_cfg sample_agg_params) sample_prover a))"
  "ax_meanwhile sample_busy_env = (\<lambda>_ a. fst (tryAggregateProofs sample_agg_env (gp_cfg sample_agg_params) sample_prover a))"
  by (rule others.aggregate [OF others.quiet], simp add: sample_agg_env_def) (simp add: sample_busy_env_def)

lemma sample_memory_ok:
  "remembers (sample_memory rows)"
  "store_ok (ag_db (sample_memory [sample_row 5 5 None, sample_row 6 6 None, sample_row 7 7 g]))"
  by (auto simp: remembers_def getAccInputHash_def store_ok_def ranges_ok_def proof_ranges_def sample_memory_def sample_agg_defs
      pr_key_def pg_bigint_def overlap_def)

lemmas sample_round_defs = channel_round_def tryBuildFinalProof_def canVerifyProof_def getAndLockProofReadyToVerify_def
  with_stateDBMutex_def bind_out_def tryAggregateProofs_def getAndLockProofsToAggregate_def exec_db_def Let_def
  update_both_def ag_wait_def replace_proofs_def finish_proof_def validateEligibleFinalProof_def sample_agg_defs store_defs
  sample_memory_def sample_busy_env_def

lemma sample_round_rows:
  "map pr_key (proof_rows (ag_db (agg_run sample_agg_params [(sample_busy_env, ProverRound sample_prover)]
     (sample_memory [sample_row 5 5 None, sample_row 6 6 None, sample_row 7 7 None])))) = [(5, 7)]"
  by (simp add: sample_round_defs)

theorem stored_proofs_disjoint_witness:
  "map pr_key (proof_rows (ag_db (agg_run sample_agg_params [(sample_busy_env, ProverRound sample_prover)]
     (sample_memory [sample_row 5 5 None, sample_row 6 6 None, sample_row 7 7 None])))) = [(5, 7)] \<and>
   disjoint_rows (ag_db (agg_run sample_agg_params [(sample_busy_env, ProverRound sample_prover)]
     (sample_memory [sample_row 5 5 None, sample_row 6 6 None, sample_row 7 7 None])))"
proof -
  have "virtual_law sample_busy_env" by (simp add: virtual_law_def sample_busy_env_def sample_agg_env_def)
  then show ?thesis
    using stored_proofs_disjoint [of sample_agg_params "[(sample_busy_env, ProverRound sample_prover)]"]
      sample_busy_others sample_round_rows sample_memory_ok by (auto simp: sample_agg_params_def)
qed

text \<open>C16. Provers respect each other's locks: whatever attempts other provers make (building a final proof, aggregating, generating
  the proof of a batch, with waits in which still others make attempts), a row that is locked stays in the
  table and stays locked, the tables stay in order, and so does the memory: the accumulated input hash before every proved batch is there,
  if it was there at the start. (An attempt to generate a proof that misses such a hash removes all proofs,
  the locked ones too.)\<close>

theorem provers_keep_locked_rows:
  assumes "others K g" and "\<forall>x. K x \<noteq> 0" and "store_ok (ag_db a)" and "remembers a" and "k \<in> locked_keys (ag_db a)"
  shows "store_ok (ag_db (g a)) \<and> remembers (g a) \<and> k \<in> locked_keys (ag_db (g a))"
  using others_keep [OF assms(1,2), of "{k}" a] assms(3-5) by (simp add: owns_def)

theorem provers_keep_locked_rows_witness:
  "proof_ranges (ag_db (fst (tryAggregateProofs sample_agg_env (gp_cfg sample_agg_params) sample_prover
     (sample_memory [sample_row 5 5 None, sample_row 6 6 None, sample_row 7 7 (Some 50)])))) = [(7, 7), (5, 6)] \<and>
   (7, 7) \<in> locked_keys (ag_db (fst (tryAggregateProofs sample_agg_env (gp_cfg sample_agg_params) sample_prover
     (sample_memory [sample_row 5 5 None, sample_row 6 6 None, sample_row 7 7 (Some 50)]))))"
proof -
  let ?a = "sample_memory [sample_row 5 5 None, sample_row 6 6 None, sample_row 7 7 (Some 50)]"
  have "(7, 7) \<in> locked_keys (ag_db ?a)"
    unfolding locked_keys_def
    by (rule image_eqI [of _ _ "sample_row 7 7 (Some 50)"]) (simp_all add: sample_memory_def sample_agg_defs pr_key_def)
  moreover have "\<forall>x. gp_K sample_agg_params x \<noteq> 0" by (simp add: sample_agg_params_def)
  ultimately have "(7, 7) \<in> locked_keys (ag_db (fst (tryAggregateProofs sample_agg_env (gp_cfg sample_agg_params) sample_prover ?a)))"
    using provers_keep_locked_rows [OF sample_busy_others(1) _ sample_memory_ok(2,1)] by blast
  moreover have "proof_ranges (ag_db (fst (tryAggregateProofs sample_agg_env (gp_cfg sample_agg_params) sample_prover ?a))) = [(7, 7), (5, 6)]"
    by (simp add: sample_round_defs proof_ranges_def)
  ultimately show ?thesis by blast
qed

lemma build_and_send_True:
  assumes "build_and_send e cfg pv p a = (a', Ret (p', True, err, assigned))"
  shows "err = None" "\<not> assigned" "fm_recursiveProof (last (ag_finalProof a')) = p'"
  using assms
  by (auto simp: build_and_send_def bind_out_def Let_def split: if_splits sum.splits outcome.splits prod.splits)

lemma eligible_True:
  assumes "validateEligibleFinalProof e p lst a = (a', Inr True)" and "pr_BatchNumber p \<le> pr_BatchNumberFinal p"
  shows "pr_BatchNumber p \<le> lst + 1" "lst + 1 \<le> pr_BatchNumberFinal p"
    "seq_from (ag_db a) (pr_BatchNumber p)" "seq_to (ag_db a) (pr_BatchNumberFinal p)"
  using assms
  by (auto simp: validateEligibleFinalProof_def CheckProofContainsCompleteSequences_def pg_exec_Inr Let_def exec_db_def
      split: if_splits sum.splits)

text \<open>C15. A final proof continues the chain: when a final proof is handed to the settling goroutine, no other verification was in
  progress and its time had come, the recursive proof contains the first batch that is not verified yet, and
  it starts with the first batch of a sequence and ends with the last batch of one. One that was looked up, rather than just
  generated, starts exactly with that batch.\<close>

theorem final_proof_contains_next_batch:
  assumes "tryBuildFinalProof e cfg pv q a = (a', Ret (Some p, True, err))"
    and "ax_GetLatestVerifiedBatchNum e (ag_clock a) = Inr lst"
    and "store_ok (ag_db a)" and "\<forall>r. q = Some r \<longrightarrow> pr_BatchNumber r \<le> pr_BatchNumberFinal r"
  shows "err = None \<and> ag_timeSendFinalProof a < ag_now e a \<and> \<not> ag_verifyingProof a \<and>
    pr_BatchNumber p \<le> lst + 1 \<and> lst + 1 \<le> pr_BatchNumberFinal p \<and> (q = None \<longrightarrow> pr_BatchNumber p = lst + 1) \<and>
    seq_from (ag_db a) (pr_BatchNumber p) \<and> seq_to (ag_db a) (pr_BatchNumberFinal p) \<and>
    fm_recursiveProof (last (ag_finalProof a')) = p"
proof (cases q)
  case None
  obtain r a1 a2 asg where l: "getAndLockProofReadyToVerify e lst a = (a1, Ret (Inr r))"
    and b: "build_and_send e cfg pv r a1 = (a2, Ret (p, True, err, asg))" "a' = a2" and cv: "canVerifyProof e a"
    using assms(1,2) None
    by (auto simp: tryBuildFinalProof_def bind_out_def Let_def dest: build_and_send_True(2)
        split: if_splits outcome.splits prod.splits sum.splits)
  have o: "owns False {} a" using assms(3) by (simp add: owns_def)
  note lr = lock_ready_Ret [OF l o]
  have key: "pr_BatchNumber p = pr_BatchNumber r" "pr_BatchNumberFinal p = pr_BatchNumberFinal r"
    using build_and_send_key [OF b(1)] by (simp_all add: pr_key_def)
  have "pr_key r \<in> set (proof_ranges (ag_db a1))" "store_ok (ag_db a1)" using lr(1) locked_subset by (auto simp: owns_def)
  then have "pr_BatchNumber r \<le> pr_BatchNumberFinal r" by (auto simp: store_ok_def ranges_ok_def pr_key_def)
  with lr key build_and_send_True [OF b(1)] b(2) cv None show ?thesis by (auto simp: canVerifyProof_def)
next
  case (Some r)
  obtain a1 asg where v: "validateEligibleFinalProof e r lst a = (a1, Inr True)"
    and b: "build_and_send e cfg pv r a1 = (a', Ret (p, True, err, asg))" and cv: "canVerifyProof e a"
    using assms(1,2) Some
    by (auto simp: tryBuildFinalProof_def bind_out_def split: if_splits outcome.splits prod.splits sum.splits bool.splits)
  have key: "pr_BatchNumber p = pr_BatchNumber r" "pr_BatchNumberFinal p = pr_BatchNumberFinal r"
    using build_and_send_key [OF b] by (simp_all add: pr_key_def)
  with eligible_True [OF v] assms(4) Some build_and_send_True [OF b] cv show ?thesis by (auto simp: canVerifyProof_def)
qed

theorem final_proof_contains_next_batch_witness:
  "\<exists>a' p. tryBuildFinalProof sample_agg_env (gp_cfg sample_agg_params) sample_prover None (sample_aggregator [sample_row 5 7 None]) =
       (a', Ret (Some p, True, None)) \<and> pr_key p = (5, 7) \<and> fm_recursiveProof (last (ag_finalProof a')) = p"
proof -
  let ?a = "sample_aggregator [sample_row 5 7 None]"
  obtain a' p where t: "tryBuildFinalProof sample_agg_env (gp_cfg sample_agg_params) sample_prover None ?a =
      (a', Ret (Some p, True, None))" and f: "pr_BatchNumberFinal p = 7"
    by (simp add: tryBuildFinalProof_def canVerifyProof_def getAndLockProofReadyToVerify_def with_stateDBMutex_def
        bind_out_def exec_db_def Let_def ag_wait_def build_and_send_def buildFinalProof_def unmock_def ascii_def
        mockedStateRoot_def sample_agg_defs store_defs)
  have "store_ok (ag_db ?a)"
    by (auto simp: store_ok_def ranges_ok_def proof_ranges_def sample_agg_defs pr_key_def pg_bigint_def overlap_def)
  from final_proof_contains_next_batch [OF t _ this, of 4] f
  have "pr_BatchNumber p = 5" "fm_recursiveProof (last (ag_finalProof a')) = p" by (simp_all add: sample_agg_env_def)
  with t f show ?thesis by (auto simp: pr_key_def)
qed

text \<open>One failed witness request stops every prover: when the batch to prove is known but the request for its witness fails, the
  attempt never returns and keeps the mutex, so that from then on no prover can lock a batch, a pair of proofs or
  a proof to verify, whatever the RPC node answers later.\<close>

theorem failed_witness_blocks_provers:
  assumes "\<not> ag_stateDBMutex a" and "choose_batch e (a\<lparr>ag_stateDBMutex := True\<rparr>) = (a1, Inr n)"
    and "batch_data K e cfg n a1 = Inr d" and "ax_GetWitness e (ag_clock a1) n (ac_UseFullWitness cfg) = Inl x"
  shows "\<exists>a'. tryGenerateBatchProof K e cfg pv a = (a', Blocked) \<and>
    (\<forall>K' e' cfg' pv'. tryGenerateBatchProof K' e' cfg' pv' a' = (a', Blocked) \<and>
       tryAggregateProofs e' cfg' pv' a' = (a', Blocked) \<and>
       (\<forall>lst. canVerifyProof e' a' \<and> ax_GetLatestVerifiedBatchNum e' (ag_clock a') = Inr lst \<longrightarrow>
          tryBuildFinalProof e' cfg' pv' None a' = (a', Blocked)))"
proof -
  obtain s v b where d: "d = (s, v, b)" by (cases d)
  let ?a = "setAccInputHash n (ba_AccInputHash b) a1"
  have m: "ag_stateDBMutex ?a"
    using assms(2)
    by (auto simp: choose_batch_def exec_db_def setAccInputHash_def split: sum.splits bool.splits)
  have "lock_batch e cfg pv n d ?a = (?a, Blocked)"
    using assms(4) by (simp add: lock_batch_def d setAccInputHash_def)
  then have "tryGenerateBatchProof K e cfg pv a = (?a, Blocked)"
    using assms(1-3) d
    by (simp add: tryGenerateBatchProof_def getAndLockBatchToProve_def with_stateDBMutex_def bind_out_def)
  moreover have "tryGenerateBatchProof K' e' cfg' pv' ?a = (?a, Blocked)" "tryAggregateProofs e' cfg' pv' ?a = (?a, Blocked)"
    "canVerifyProof e' ?a \<and> ax_GetLatestVerifiedBatchNum e' (ag_clock ?a) = Inr lst \<Longrightarrow>
       tryBuildFinalProof e' cfg' pv' None ?a = (?a, Blocked)" for K' e' cfg' pv' lst
    using m
    by (simp_all add: tryGenerateBatchProof_def getAndLockBatchToProve_def with_stateDBMutex_def bind_out_def
        tryAggregateProofs_def getAndLockProofsToAggregate_def tryBuildFinalProof_def getAndLockProofReadyToVerify_def)
  ultimately show ?thesis by blast
qed

lemma sample_choose:
  "choose_batch (sample_agg_env\<lparr>ax_GetWitness := w\<rparr>) (sample_aggregator []\<lparr>ag_stateDBMutex := True\<rparr>) =
     (sample_aggregator []\<lparr>ag_stateDBMutex := True\<rparr>, Inr 5)"
  by (simp add: choose_batch_def sample_agg_defs find_batch.simps CheckProofExistsForBatch_def pg_exec_def pg_bigint_def)

theorem failed_witness_blocks_provers_witness:
  "\<exists>a'. tryGenerateBatchProof (\<lambda>_. 1) (sample_agg_env\<lparr>ax_GetWitness := (\<lambda>_ _ _. Inl ErrSQL)\<rparr>) (gp_cfg sample_agg_params)
      sample_prover (sample_aggregator []) = (a', Blocked) \<and>
    tryAggregateProofs sample_agg_env (gp_cfg sample_agg_params) sample_prover a' = (a', Blocked)"
proof -
  let ?e = "sample_agg_env\<lparr>ax_GetWitness := (\<lambda>_ _ _. Inl ErrSQL)\<rparr>" and ?a = "sample_aggregator []\<lparr>ag_stateDBMutex := True\<rparr>"
  obtain d where "batch_data (\<lambda>_. 1) ?e (gp_cfg sample_agg_params) 5 ?a = Inr d"
    by (simp add: batch_data_def Let_def sample_agg_defs getAccInputHash_def bind_err_def)
  from failed_witness_blocks_provers [OF _ sample_choose this, of "ErrSQL" sample_prover] show ?thesis
    by (auto simp: sample_agg_defs)
qed

text \<open>An unprofitable batch comes back as nil pointers without an error, and using them crashes the process.\<close>

lemma unprofitable_batch_panics:
  assumes "\<not> ag_stateDBMutex a" and "choose_batch e (a\<lparr>ag_stateDBMutex := True\<rparr>) = (a1, Inr n)"
    and "batch_data K e cfg n a1 = Inr (s, v, b)" and "ax_GetWitness e (ag_clock a1) n (ac_UseFullWitness cfg) = Inr w"
    and "AddSequence (ax_io e (ag_clock a1)) s (ag_db a1) = Inr db" and "ac_checker cfg = ProfitabilityBase m" and "0 < m"
  shows "snd (tryGenerateBatchProof K e cfg pv a) = Panicked"
  using assms
  by (simp add: tryGenerateBatchProof_def getAndLockBatchToProve_def with_stateDBMutex_def bind_out_def lock_batch_def
      setAccInputHash_def exec_db_def IsProfitable_def)

text \<open>When the RPC node does not return the final batch, the message is lost while its row stays locked.\<close>

lemma lost_message_stays_locked:
  assumes "ag_finalProof a = msg # rest" and "ax_GetBatch e (ag_clock a) (pr_BatchNumberFinal (fm_recursiveProof msg)) = Inl x"
  shows "sendFinalProof_step h e cfg stop a =
    (a\<lparr>ag_finalProof := rest, ag_verifyingProof := False\<rparr>, Ret ())"
  using assms by (simp add: sendFinalProof_step_def Let_def startProofVerification_def endProofVerification_def)

end
