(* ===== verification/AggregatorInputs.thy ===== *)
theory AggregatorInputs
  imports AggregatorProofs
begin

text \<open>
  The input the aggregator gives to a prover: the accumulated input hashes in memory are those of the contract, the
  old hash of an input continues that chain, and the L1 data of an input verifies against its L1 info root.
\<close>

section \<open>The chain of accumulated input hashes\<close>

text \<open>
  \<open>chain\<close> is the accumulated input hash the contract has after each batch. What the code reads of batch \<open>n\<close> on L1 and
  from the RPC node is what the contract hashed, with the special data of the first batch.
\<close>

definition chain_law :: "keccak \<Rightarrow> agg_env \<Rightarrow> (u64 \<Rightarrow> hash) \<Rightarrow> bool" where
  "chain_law K e chain \<longleftrightarrow>
     chain 0 = 0 \<and> (\<forall>t n h. ax_GetBatchAccInputHash e t n = Inr h \<longrightarrow> h = chain n) \<and>
     (\<forall>t lst. ax_GetLatestVerifiedBatchNum e t = Inr lst \<longrightarrow> pg_bigint lst) \<and>
     (\<forall>t n s v r. n \<noteq> 0 \<and> ax_GetSequenceByBatchNumber e t n = Inr (Some s) \<and> ax_GetVirtualBatchByBatchNumber e t n = Inr v \<and>
        ax_GetBatch e t n = Inr r \<longrightarrow>
        rb_batchNumber r = n \<and>
        (n \<noteq> 1 \<longrightarrow> chain n = CalculateAccInputHash K (chain (n - 1)) (vb_BatchL2Data v)
           (case vb_L1InfoRoot v of None \<Rightarrow> 0 | Some root \<Rightarrow> root) (of_int (sb_Timestamp s)) (rb_coinbase r) 0) \<and>
        (\<forall>parent. n = 1 \<and> ax_L1BlockParentHash e t (vb_BlockNumber v) = Inr parent \<longrightarrow>
           chain n = CalculateAccInputHash K (chain (n - 1)) (vb_BatchL2Data v) (rb_globalExitRoot r)
             (of_int (sb_Timestamp s)) (rb_coinbase r) parent))"

definition acc_ok :: "(u64 \<Rightarrow> hash) \<Rightarrow> Aggregator \<Rightarrow> bool" where
  "acc_ok chain a \<longleftrightarrow> (\<forall>n. ag_accInputHashes a n = 0 \<or> ag_accInputHashes a n = chain n)"

definition acc_rely :: "(u64 \<Rightarrow> hash) \<Rightarrow> agg_env \<Rightarrow> bool" where
  "acc_rely chain e \<longleftrightarrow> (\<forall>held a. acc_ok chain a \<longrightarrow> acc_ok chain (ax_meanwhile e held a))"

lemma acc_simps [simp]:
  "acc_ok c (a\<lparr>ag_db := db\<rparr>) = acc_ok c a" "acc_ok c (a\<lparr>ag_stateDBMutex := b\<rparr>) = acc_ok c a"
  "acc_ok c (a\<lparr>ag_finalProof := q\<rparr>) = acc_ok c a" "acc_ok c (a\<lparr>ag_halted := b\<rparr>) = acc_ok c a"
  "acc_ok c (a\<lparr>ag_verifyingProof := b\<rparr>) = acc_ok c a" "acc_ok c (a\<lparr>ag_timeSendFinalProof := t\<rparr>) = acc_ok c a"
  "acc_ok c (fst (exec_db r a)) = acc_ok c a"
  by (simp_all add: acc_ok_def exec_db_def split: sum.splits)

lemma acc_exec: "exec_db r a = (a', x) \<Longrightarrow> acc_ok c a' = acc_ok c a"
  by (auto simp: exec_db_def split: sum.splits)

lemma acc_wait [simp]: "acc_rely c e \<Longrightarrow> acc_ok c a \<Longrightarrow> acc_ok c (ag_wait e held a)"
  by (auto simp: acc_rely_def ag_wait_def Let_def acc_ok_def)

lemma acc_bind:
  assumes "acc_ok c (fst r)" and "\<And>s x. acc_ok c s \<Longrightarrow> acc_ok c (fst (f s x))"
  shows "acc_ok c (fst (bind_out r f))"
  using assms by (cases r; cases "snd r") (auto simp: bind_out_def)

lemma acc_set: "acc_ok c a \<Longrightarrow> h = c n \<Longrightarrow> acc_ok c (setAccInputHash n h a)"
  by (simp add: acc_ok_def setAccInputHash_def)

lemma acc_mutex:
  assumes "acc_ok c a" and "\<And>a. acc_ok c a \<Longrightarrow> acc_ok c (fst (f a))"
  shows "acc_ok c (fst (with_stateDBMutex f a))"
proof -
  obtain a1 ox where f: "f (a\<lparr>ag_stateDBMutex := True\<rparr>) = (a1, ox)" by fastforce
  with assms(2) [of "a\<lparr>ag_stateDBMutex := True\<rparr>"] assms(1) have "acc_ok c a1" by simp
  with f assms(1) show ?thesis by (cases ox) (simp_all add: with_stateDBMutex_def)
qed

subsection \<open>Handlers\<close>

lemma acc_lock_ready: "acc_ok c a \<Longrightarrow> acc_ok c (fst (getAndLockProofReadyToVerify e lst a))"
  unfolding getAndLockProofReadyToVerify_def
  by (rule acc_mutex) (auto simp: Let_def acc_exec split: sum.splits prod.splits option.splits)

lemma acc_build: "acc_rely c e \<Longrightarrow> acc_ok c a \<Longrightarrow> acc_ok c (fst (buildFinalProof e cfg pv p a))"
  by (auto simp: buildFinalProof_def Let_def bind_out_def split: sum.splits option.splits outcome.splits)

lemma acc_build_and_send: "acc_rely c e \<Longrightarrow> acc_ok c a \<Longrightarrow> acc_ok c (fst (build_and_send e cfg pv p a))"
  by (auto simp: build_and_send_def Let_def intro!: acc_bind acc_build split: sum.splits)

lemma acc_validate: "acc_ok c a \<Longrightarrow> acc_ok c (fst (validateEligibleFinalProof e p lst a))"
  by (auto simp: validateEligibleFinalProof_def Let_def acc_exec split: prod.splits option.splits)

lemma acc_try_final: "acc_rely c e \<Longrightarrow> acc_ok c a \<Longrightarrow> acc_ok c (fst (tryBuildFinalProof e cfg pv q a))"
  using acc_validate [of c a e]
  by (auto simp: tryBuildFinalProof_def Let_def
      intro!: acc_bind acc_lock_ready acc_build_and_send split: sum.splits option.splits prod.splits bool.splits)
     (metis fst_conv)+

lemma acc_finish: "acc_rely c e \<Longrightarrow> acc_ok c a \<Longrightarrow> acc_ok c (fst (finish_proof e cfg pv p a))"
  by (auto simp: finish_proof_def Let_def acc_exec intro!: acc_bind acc_try_final split: prod.splits option.splits)

lemma acc_lock_pair: "acc_ok c a \<Longrightarrow> acc_ok c (fst (getAndLockProofsToAggregate e a))"
  unfolding getAndLockProofsToAggregate_def
  by (rule acc_mutex) (auto simp: Let_def acc_exec split: sum.splits prod.splits option.splits)

lemma acc_aggregate: "acc_rely c e \<Longrightarrow> acc_ok c a \<Longrightarrow> acc_ok c (fst (tryAggregateProofs e cfg pv a))"
  by (auto simp: tryAggregateProofs_def Let_def unlockProofsToAggregate_def acc_exec
      intro!: acc_bind acc_lock_pair acc_finish split: sum.splits prod.splits option.splits)

subsection \<open>Removing hashes\<close>

lemma remove_loop_subset: "remove_loop i l m = Some m' \<Longrightarrow> m' n = 0 \<or> m' n = m n"
proof (rule remove_loop.raw_induct [where P = "\<lambda>i l m m'. m' n = 0 \<or> m' n = m n"], goal_cases)
  case (1 loop i l m m')
  show ?case
  proof (cases "i \<le> l")
    case True
    with 1(2) [of "i + 1" l "m(i := 0)" m'] 1(3) have "m' n = 0 \<or> m' n = (m(i := 0)) n" by simp
    then show ?thesis by (auto split: if_splits)
  qed (use 1(3) in simp)
qed

text \<open>The removal ends for every range but one that ends with the greatest number, and removes just the range.\<close>

lemma remove_loop_range:
  assumes "l \<noteq> - 1"
  shows "remove_loop i l m = Some (\<lambda>n. if i \<le> n \<and> n \<le> l then 0 else m n)"
proof (induction "unat l + 1 - unat i" arbitrary: i m rule: less_induct)
  case less
  show ?case
  proof (cases "i \<le> l")
    case True
    have "i \<noteq> - 1"
    proof
      assume "i = - 1"
      with True have "l = - 1" by (simp add: order.antisym [OF word_n1_ge])
      with assms show False by simp
    qed
    then have s: "unat (i + 1) = unat i + 1" by (metis unatSuc add.commute eq_neg_iff_add_eq_0 Suc_eq_plus1)
    have "remove_loop (i + 1) l (m(i := 0)) = Some (\<lambda>n. if i + 1 \<le> n \<and> n \<le> l then 0 else (m(i := 0)) n)"
    proof (rule less)
      show "unat l + 1 - unat (i + 1) < unat l + 1 - unat i" using True unfolding word_le_nat_alt s by linarith
    qed
    moreover have "(\<lambda>n. if i + 1 \<le> n \<and> n \<le> l then 0 else (m(i := 0)) n) = (\<lambda>n. if i \<le> n \<and> n \<le> l then 0 else m n)"
    proof (rule ext)
      fix n
      have "i + 1 \<le> n \<longleftrightarrow> i < n" using s by (simp only: word_le_nat_alt word_less_nat_alt) linarith
      then show "(if i + 1 \<le> n \<and> n \<le> l then 0 else (m(i := 0)) n) = (if i \<le> n \<and> n \<le> l then 0 else m n)"
        using True by (cases "n = i") (simp_all add: order.strict_iff_order)
    qed
    ultimately have "remove_loop (i + 1) l (m(i := 0)) = Some (\<lambda>n. if i \<le> n \<and> n \<le> l then 0 else m n)" by (simp only:)
    with True show ?thesis by (simp add: remove_loop.simps [of i])
  next
    case False
    then have "(\<lambda>n. if i \<le> n \<and> n \<le> l then 0 else m n) = m" by (auto simp: fun_eq_iff)
    with False show ?thesis by (simp add: remove_loop.simps [of i])
  qed
qed

lemma acc_remove: "acc_ok c a \<Longrightarrow> acc_ok c (fst (removeAccInputHashes b f a))"
  using remove_loop_subset by (fastforce simp: removeAccInputHashes_def acc_ok_def split: option.splits)

subsection \<open>The batch to prove\<close>

lemma find_batch_pos:
  assumes "find_batch io a n = Inr (m, s)" and "pg_bigint n"
  shows "m \<noteq> 0"
  using assms
proof (induction io a n rule: find_batch.induct)
  case (1 io a n)
  have nz: "n + 1 \<noteq> 0"
  proof
    assume "n + 1 = 0"
    then have "n = - 1" by (simp add: eq_neg_iff_add_eq_0)
    with 1(3) show False by (simp add: pg_bigint_def unsigned_minus_1_eq_mask mask_eq_exp_minus_1)
  qed
  show ?case
  proof (cases "CheckProofExistsForBatch io (n + 1) (ag_db a)")
    case (Inl x)
    with 1(2) show ?thesis by (simp add: find_batch_step(1))
  next
    case (Inr ex)
    show ?thesis
    proof (cases "ex \<and> \<not> (getAccInputHash a n = 0 \<and> n + 1 > 1)")
      case True
      then have "find_batch io a (n + 1) = Inr (m, s)" using 1(2) Inr find_batch_step(3) [of io n a] by (auto split: if_splits)
      moreover have "pg_bigint (n + 1)" using CheckProofExists_bigint [OF Inr] by (simp add: pg_bigint_def)
      ultimately show ?thesis using 1(1) [OF Inr] True by simp
    next
      case False
      with 1(2) Inr nz show ?thesis
        by (cases ex) (auto simp: find_batch_step(2,3) split: if_splits)
    qed
  qed
qed

lemma choose_batch_pos:
  assumes "choose_batch e a = (a1, Inr n)" and "chain_law K e c"
  shows "n \<noteq> 0"
proof -
  obtain lst m s where l: "ax_GetLatestVerifiedBatchNum e (ag_clock a) = Inr lst" "find_batch (ag_io e a) a lst = Inr (m, s)"
    and n: "n = (if s then m - 1 else m)"
    using assms(1) by (auto simp: choose_batch_def exec_db_def split: sum.splits bool.splits)
  have "pg_bigint lst" using assms(2) l(1) by (auto simp: chain_law_def)
  then have "m \<noteq> 0" by (rule find_batch_pos [OF l(2)])
  moreover have "m - 1 \<noteq> 0" if s using l(2) that by (cases rule: find_batch_cases) auto
  ultimately show ?thesis using n by simp
qed

lemma acc_choose: "acc_ok c a \<Longrightarrow> acc_ok c (fst (choose_batch e a))"
  by (auto simp: choose_batch_def acc_exec split: sum.splits bool.splits prod.splits option.splits)

lemma batch_data_chain:
  assumes "batch_data K e cfg n a = Inr (s, v, b)" and "chain_law K e c" and "acc_ok c a" and "n \<noteq> 0"
  shows "ba_AccInputHash b = c n" and "ba_BatchNumber b = n" and "ba_ForcedBatchNum b = None"
    and "getAccInputHash a (n - 1) = c (n - 1)"
proof -
  obtain sq r where d: "ax_GetSequenceByBatchNumber e (ag_clock a) n = Inr (Some sq)"
    "ax_GetVirtualBatchByBatchNumber e (ag_clock a) n = Inr v" "ax_GetBatch e (ag_clock a) n = Inr r"
    using assms(1) by (auto simp: batch_data_def Let_def bind_err_def split: sum.splits option.splits if_splits)
  have old: "getAccInputHash a (n - 1) = c (n - 1)"
  proof (cases "n = 1")
    case True
    then show ?thesis using assms(2,3) by (auto simp: acc_ok_def chain_law_def getAccInputHash_def)
  next
    case False
    have "unat n \<noteq> 0" "unat n \<noteq> 1" using assms(4) False by (simp_all add: word_unat_eq_iff)
    then have "n > 1" by (simp add: word_less_nat_alt)
    then have "getAccInputHash a (n - 1) \<noteq> 0"
      using assms(1) d by (auto simp: batch_data_def Let_def split: sum.splits if_splits)
    then show ?thesis using assms(3) by (auto simp: acc_ok_def getAccInputHash_def)
  qed
  then show "getAccInputHash a (n - 1) = c (n - 1)" .
  note law = assms(2) [unfolded chain_law_def, THEN conjunct2, THEN conjunct2, THEN conjunct2, rule_format,
      of n "ag_clock a" sq v r]
  show "ba_AccInputHash b = c n" "ba_BatchNumber b = n" "ba_ForcedBatchNum b = None"
    using assms(1,4) d old law
    by (auto simp: batch_data_def Let_def bind_err_def split: sum.splits option.splits if_splits)
qed

lemma acc_lock_batch: "acc_ok c a \<Longrightarrow> acc_ok c (fst (lock_batch e cfg pv n d a))"
  by (auto simp: lock_batch_def Let_def acc_exec split: prod.splits sum.splits option.splits)

lemma acc_to_prove:
  assumes "acc_ok c a" and "chain_law K e c"
  shows "acc_ok c (fst (getAndLockBatchToProve K e cfg pv a))"
  unfolding getAndLockBatchToProve_def
proof (rule acc_mutex [OF assms(1)], goal_cases)
  case (1 a)
  have "acc_ok c (fst (lock_batch e cfg pv n (s, v, b) (setAccInputHash n (ba_AccInputHash b) a1)))"
    if ch: "choose_batch e a = (a1, Inr n)" and bd: "batch_data K e cfg n a1 = Inr (s, v, b)" for a1 n s v b
  proof -
    have "acc_ok c a1" using acc_choose [OF 1, of e] ch by simp
    moreover have "ba_AccInputHash b = c n"
      using batch_data_chain(1) [OF bd assms(2) _ choose_batch_pos [OF ch assms(2)]] calculation by simp
    ultimately show ?thesis by (intro acc_lock_batch acc_set)
  qed
  then show ?case using acc_choose [OF 1, of e] by (auto split: prod.splits sum.splits)
qed

lemma acc_generate:
  assumes "acc_ok c a" and "chain_law K e c" and "acc_rely c e"
  shows "acc_ok c (fst (tryGenerateBatchProof K e cfg pv a))"
  unfolding tryGenerateBatchProof_def
  by (auto simp: Let_def assms acc_exec
      intro!: acc_bind [OF acc_to_prove [OF assms(1,2)]] acc_bind acc_finish split: sum.splits option.splits prod.splits)

lemma acc_rollback:
  assumes "acc_ok c a" and "chain_law K e c"
  shows "acc_ok c (fst (handleRollbackBatches e n a))"
proof -
  have "acc_ok c (setAccInputHash l h (a\<lparr>ag_accInputHashes := (\<lambda>_. 0)\<rparr>))"
    if "getVerifiedBatchAccInputHash e a l = Inr h" for l h
    using assms(2) that by (intro acc_set) (auto simp: acc_ok_def chain_law_def getVerifiedBatchAccInputHash_def)
  then show ?thesis
    using assms(1)
    by (auto simp: handleRollbackBatches_def Let_def acc_exec split: sum.splits prod.splits option.splits)
qed

lemma acc_start:
  assumes "acc_ok c a" and "chain_law K e c"
  shows "acc_ok c (fst (agg_Start e cfg a))"
proof -
  have "acc_ok c (setAccInputHash l h a)" if "getVerifiedBatchAccInputHash e a l = Inr h" for l h
    using assms that by (intro acc_set) (auto simp: chain_law_def getVerifiedBatchAccInputHash_def)
  then show ?thesis
    using assms(1)
    by (auto simp: agg_Start_def Let_def resetVerifyProofTime_def acc_exec split: sum.splits prod.splits option.splits)
qed

lemma acc_failure: "acc_ok c a \<Longrightarrow> acc_ok c (handleFailureToAddVerifyBatchToBeMonitored e p a)"
  by (simp add: handleFailureToAddVerifyBatchToBeMonitored_def Let_def endProofVerification_def)

lemma acc_agglayer: "acc_rely c e \<Longrightarrow> acc_ok c a \<Longrightarrow> acc_ok c (fst (settleWithAggLayer h e p i a))"
  by (auto simp: settleWithAggLayer_def Let_def acc_failure split: sum.splits option.splits)

lemma acc_monitored:
  "acc_rely c e \<Longrightarrow> acc_ok c a \<Longrightarrow> acc_ok c (fst (handleMonitoredTxResult e cfg stop b f r a))"
  by (auto simp: handleMonitoredTxResult_def Let_def intro!: acc_remove split: option.splits bool.splits)

lemma acc_results: "acc_rely c e \<Longrightarrow> acc_ok c a \<Longrightarrow> acc_ok c (fst (handle_results e cfg stop p rs a))"
  by (induction rs arbitrary: a) (auto intro!: acc_bind acc_monitored)

lemma acc_direct: "acc_rely c e \<Longrightarrow> acc_ok c a \<Longrightarrow> acc_ok c (fst (settleDirect e cfg stop p i a))"
  by (auto simp: settleDirect_def Let_def acc_failure intro!: acc_bind acc_results split: sum.splits)

lemma acc_send:
  assumes "acc_rely c e" and "acc_ok c a"
  shows "acc_ok c (fst (sendFinalProof_step h e cfg stop a))"
proof (cases "ag_finalProof a")
  case (Cons msg rest)
  let ?a = "startProofVerification (a\<lparr>ag_finalProof := rest\<rparr>)"
  have s: "acc_ok c ?a" using assms(2) by (simp add: startProofVerification_def)
  have settle: "acc_ok c (fst (if ac_AggLayerBackend cfg
      then (case settleWithAggLayer h e p i ?a of (a2, ok) \<Rightarrow> (a2, Ret ok)) else settleDirect e cfg stop p i ?a))" for p i
    using acc_agglayer [OF assms(1) s] acc_direct [OF assms(1) s] by (simp split: prod.splits) (metis fst_conv)
  show ?thesis
    using s settle
    by (auto simp: sendFinalProof_step_def Cons Let_def endProofVerification_def resetVerifyProofTime_def
        intro!: acc_bind split: sum.splits)
qed (use assms in \<open>simp add: sendFinalProof_step_def\<close>)

lemma acc_round:
  assumes "acc_ok c a" and "chain_law K e c" and "acc_rely c e"
  shows "acc_ok c (fst (channel_round K e cfg pv a))"
  unfolding channel_round_def
  by (auto simp: assms intro!: acc_bind acc_try_final acc_aggregate acc_generate [OF _ assms(2,3)] acc_wait
      split: sum.splits bool.splits prod.splits)

lemma acc_act:
  assumes "acc_ok c a" and "chain_law (gp_K P) e c" and "acc_rely c e"
  shows "acc_ok c (fst (agg_act P e act a))"
proof (cases act)
  case Reorged
  then show ?thesis using assms(1) by (auto simp: handleReorg_def Let_def split: sum.splits)
next
  case CleanupLocked
  then show ?thesis using assms(1) by (auto simp: cleanupLockedProofs_def split: sum.splits)
qed (use assms in \<open>simp_all add: acc_round acc_send acc_rollback\<close>)

lemma acc_run:
  assumes "\<forall>(e, act)\<in>set steps. chain_law (gp_K P) e c \<and> acc_rely c e" and "acc_ok c a"
  shows "acc_ok c (agg_run P steps a)"
  using assms by (induction P steps a rule: agg_run.induct) (auto simp: acc_act)

section \<open>What a prover is asked to prove\<close>

lemma input_prover_old:
  assumes "buildInputProver K e cfg a b w = Ret (Inr i)"
  shows "ip_OldAccInputHash i = hash_bytes (getAccInputHash a (ba_BatchNumber b - 1))"
    and "ip_OldBatchNum i = ba_BatchNumber b - 1" and "ip_BatchL2Data i = ba_BatchL2Data b"
  using assms
  by (auto simp: buildInputProver_def input_prover_def Let_def split: if_splits sum.splits outcome.splits)

lemma to_prove_Ret:
  assumes "getAndLockBatchToProve K e cfg pv a = (a', Ret (Inr (Some (b, w, p))))" and "acc_ok c a" and "chain_law K e c"
  obtains n where "n \<noteq> 0" and "ba_BatchNumber b = n" and "ba_AccInputHash b = c n"
    and "getAccInputHash a' (n - 1) = c (n - 1)" and "getAccInputHash a' n = c n" and "ba_ForcedBatchNum b = None"
proof -
  obtain a1 n s v b0 a2 where ch: "choose_batch e (a\<lparr>ag_stateDBMutex := True\<rparr>) = (a1, Inr n)"
    and bd: "batch_data K e cfg n a1 = Inr (s, v, b0)"
    and lb: "lock_batch e cfg pv n (s, v, b0) (setAccInputHash n (ba_AccInputHash b0) a1) = (a2, Ret (Inr (Some (b, w, p))))"
    and a': "a' = a2\<lparr>ag_stateDBMutex := False\<rparr>"
    using assms(1)
    by (auto simp: getAndLockBatchToProve_def with_mutex_Ret split: prod.splits sum.splits)
  have n: "n \<noteq> 0" by (rule choose_batch_pos [OF ch assms(3)])
  have "acc_ok c a1" using acc_choose [of c "a\<lparr>ag_stateDBMutex := True\<rparr>" e] ch assms(2) by simp
  note bc = batch_data_chain [OF bd assms(3) this n]
  have b0: "b0 = b" and m: "ag_accInputHashes a2 = ag_accInputHashes (setAccInputHash n (ba_AccInputHash b0) a1)"
    using lb by (auto simp: lock_batch_def Let_def exec_db_def split: sum.splits if_splits)
  have "getAccInputHash a' (n - 1) = c (n - 1)" "getAccInputHash a' n = c n"
    using bc(1,4) by (simp_all add: a' getAccInputHash_def m setAccInputHash_def)
  with that [OF n] bc b0 show thesis by simp
qed

text \<open>C6. Provers continue the chain of the contract: after any run, the batch an idle prover is given carries the accumulated input
  hash the contract has after that batch, and the input built for it starts from the hash the contract has after the batch
  before. Hashes come from the contract only for the last verified batch; all others were computed here.\<close>

theorem prover_inputs_continue_chain:
  assumes "\<forall>(e, act)\<in>set steps. chain_law (gp_K P) e chain \<and> acc_rely chain e" and "acc_ok chain a0"
    and "getAndLockBatchToProve (gp_K P) e cfg pv (agg_run P steps a0) = (a, Ret (Inr (Some (b, w, p))))"
    and "chain_law (gp_K P) e chain" and "buildInputProver (gp_K P) e cfg a b w = Ret (Inr i)"
  shows "ba_AccInputHash b = chain (ba_BatchNumber b) \<and> ip_OldAccInputHash i = hash_bytes (chain (ip_OldBatchNum i)) \<and>
    ip_OldBatchNum i = ba_BatchNumber b - 1 \<and> ip_BatchL2Data i = ba_BatchL2Data b"
proof -
  have "acc_ok chain (agg_run P steps a0)" by (rule acc_run [OF assms(1,2)])
  from to_prove_Ret [OF assms(3) this assms(4)] obtain n where
    "ba_BatchNumber b = n" "ba_AccInputHash b = chain n" "getAccInputHash a (n - 1) = chain (n - 1)" by metis
  with input_prover_old [OF assms(5)] show ?thesis by simp
qed

definition sample_chain_env :: agg_env where
  "sample_chain_env = sample_agg_env\<lparr>ax_GetBatchAccInputHash := (\<lambda>_ n. Inr (if n = 0 then 0 else 1))\<rparr>"

definition sample_chain_agg :: Aggregator where
  "sample_chain_agg = sample_aggregator []\<lparr>ag_accInputHashes := (\<lambda>n. if n = 4 then 1 else 0)\<rparr>"

lemma sample_chain_law: "chain_law (\<lambda>_. 1) sample_chain_env (\<lambda>n. if n = 0 then 0 else 1)"
  by (auto simp: chain_law_def sample_chain_env_def sample_agg_env_def pg_bigint_def NewRPCBatch_def CalculateAccInputHash_def Let_def)

lemma sample_to_prove:
  "\<exists>a b w p. getAndLockBatchToProve (gp_K sample_agg_params) sample_chain_env (gp_cfg sample_agg_params) sample_prover sample_chain_agg =
     (a, Ret (Inr (Some (b, w, p)))) \<and> ba_BatchNumber b = 5 \<and> ba_BatchL2Data b = [] \<and> ba_ForcedBatchNum b = None \<and>
     getAccInputHash a 4 = 1"
  by (simp add: getAndLockBatchToProve_def with_stateDBMutex_def choose_batch_def find_batch.simps CheckProofExistsForBatch_def
      store_defs batch_data_def Let_def bind_err_def getAccInputHash_def setAccInputHash_def lock_batch_def exec_db_def AddSequence_def
      IsProfitable_def sample_agg_defs sample_chain_env_def sample_chain_agg_def NewRPCBatch_def)

lemma sample_input:
  assumes "ba_BatchNumber b = 5" and "ba_BatchL2Data b = []" and "ba_ForcedBatchNum b = None" and "getAccInputHash a 4 = 1"
  shows "\<exists>i. buildInputProver (gp_K sample_agg_params) sample_chain_env (gp_cfg sample_agg_params) a b w = Ret (Inr i)"
proof -
  obtain mt where "NewL1InfoTree (gp_K sample_agg_params) 32 [] = Inr mt"
    using NewL1InfoTree_ok [of 32 "[]" "gp_K sample_agg_params"] by auto
  moreover have "DecodeBatchV2 short_rlp [] = Some (Inr \<lparr>Blocks = []\<rparr>)"
    by (simp add: DecodeBatchV2_def DecodeBatchV2_loop.simps closed_def)
  ultimately show ?thesis
    using assms
    by (simp add: buildInputProver_def l1_data_def input_prover_def Let_def sample_chain_env_def sample_agg_env_def)
qed

theorem prover_inputs_continue_chain_witness:
  "\<exists>a b w p i. getAndLockBatchToProve (gp_K sample_agg_params) sample_chain_env (gp_cfg sample_agg_params) sample_prover sample_chain_agg =
       (a, Ret (Inr (Some (b, w, p)))) \<and>
     buildInputProver (gp_K sample_agg_params) sample_chain_env (gp_cfg sample_agg_params) a b w = Ret (Inr i) \<and>
     ba_AccInputHash b = 1 \<and> ip_OldBatchNum i = 4 \<and> ip_OldAccInputHash i = hash_bytes 1"
proof -
  obtain a b w p where g: "getAndLockBatchToProve (gp_K sample_agg_params) sample_chain_env (gp_cfg sample_agg_params) sample_prover
      sample_chain_agg = (a, Ret (Inr (Some (b, w, p))))" and b: "ba_BatchNumber b = 5" "ba_BatchL2Data b = []"
    "ba_ForcedBatchNum b = None" "getAccInputHash a 4 = 1" using sample_to_prove by blast
  obtain i where i: "buildInputProver (gp_K sample_agg_params) sample_chain_env (gp_cfg sample_agg_params) a b w = Ret (Inr i)"
    using sample_input [OF b] by blast
  have K: "gp_K sample_agg_params = (\<lambda>_. 1)" by (simp add: sample_agg_params_def)
  have "acc_ok (\<lambda>n. if n = 0 then 0 else 1) sample_chain_agg" by (simp add: acc_ok_def sample_chain_agg_def)
  from prover_inputs_continue_chain [of "[]" sample_agg_params "\<lambda>n. if n = 0 then 0 else 1" sample_chain_agg, OF _ this _ _ i, of sample_prover p]
    g sample_chain_law b(1) K
  have "ba_AccInputHash b = 1" "ip_OldBatchNum i = 4" "ip_OldAccInputHash i = hash_bytes 1" by auto
  with g i show ?thesis by blast
qed

section \<open>L1 data of an input\<close>

definition l1_entry :: "L1Leaf \<Rightarrow> hash list \<Rightarrow> L1Data" where
  "l1_entry l smt = \<lparr>ld_GlobalExitRoot = hash_bytes (ll_GlobalExitRoot l), ld_BlockhashL1 = hash_bytes (ll_PreviousBlockHash l),
     ld_MinTimestamp = of_int (ll_Timestamp l), ld_SmtProof = map hash_bytes smt\<rparr>"

definition block_index :: "L2BlockRaw \<Rightarrow> u32" where
  "block_index b = IndexL1InfoTree (bl_Header b)"

definition entry_ok ::
  "keccak \<Rightarrow> (u32 \<Rightarrow> error + (u32 \<Rightarrow> L1Leaf option)) \<Rightarrow> L1InfoTree \<Rightarrow> hash \<Rightarrow> hash list \<Rightarrow> u32 \<times> L1Data \<Rightarrow> bool"
where
  "entry_ok K get tree root aLeaves x \<longleftrightarrow>
     (\<exists>m smt. get (fst x) = Inr m \<and> ComputeMerkleProof K tree (fst x) aLeaves = Inr (smt, root) \<and>
        snd x = l1_entry (case m (fst x) of None \<Rightarrow> zero_leaf | Some l \<Rightarrow> l) smt)"

definition data_ok ::
  "keccak \<Rightarrow> (u32 \<Rightarrow> error + (u32 \<Rightarrow> L1Leaf option)) \<Rightarrow> L1InfoTree \<Rightarrow> hash \<Rightarrow> hash list \<Rightarrow> (u32 \<times> L1Data) list \<Rightarrow> bool"
where
  "data_ok K get tree root aLeaves acc \<longleftrightarrow> (\<forall>x\<in>set acc. entry_ok K get tree root aLeaves x) \<and> distinct (map fst acc)"

lemma l1_data_loop_step:
  assumes "l1_data_loop K get tree root aLeaves (b # bs) acc = Inr res" and "data_ok K get tree root aLeaves acc"
  obtains acc' where "l1_data_loop K get tree root aLeaves bs acc' = Inr res" and "data_ok K get tree root aLeaves acc'"
    and "fst ` set acc' = fst ` set acc \<union> ({block_index b} - {0})"
proof (cases "map_of acc (block_index b) = None \<and> block_index b \<noteq> 0")
  case True
  let ?i = "block_index b"
  from True obtain m smt where ms: "get ?i = Inr m" "ComputeMerkleProof K tree ?i aLeaves = Inr (smt, root)"
    and loop: "l1_data_loop K get tree root aLeaves bs (acc @ [(?i, l1_entry (case m ?i of None \<Rightarrow> zero_leaf | Some l \<Rightarrow> l) smt)]) = Inr res"
    using assms(1) by (auto simp: Let_def block_index_def l1_entry_def split: sum.splits if_splits)
  show thesis
    by (rule that [OF loop]) (use True assms(2) ms in \<open>auto simp: data_ok_def entry_ok_def map_of_eq_None_iff\<close>)
next
  case False
  from False have loop: "l1_data_loop K get tree root aLeaves bs acc = Inr res"
    using assms(1) by (auto simp: Let_def block_index_def)
  from False have "block_index b = 0 \<or> block_index b \<in> fst ` set acc" by (auto simp add: map_of_eq_None_iff simp del: image_iff)
  then show thesis by (intro that [OF loop assms(2)]) auto
qed

lemma l1_data_loop_spec:
  assumes "l1_data_loop K get tree root aLeaves bs acc = Inr res" and "data_ok K get tree root aLeaves acc"
  shows "data_ok K get tree root aLeaves res \<and> fst ` set res = fst ` set acc \<union> (block_index ` set bs - {0})"
  using assms
proof (induction bs arbitrary: acc)
  case (Cons b bs)
  from l1_data_loop_step [OF Cons.prems] obtain acc' where
    "l1_data_loop K get tree root aLeaves bs acc' = Inr res" "data_ok K get tree root aLeaves acc'"
    and f: "fst ` set acc' = fst ` set acc \<union> ({block_index b} - {0})" .
  from Cons.IH [OF this(1,2)] f show ?case by auto
qed simp

lemma buildInputProver_l1_data:
  assumes "buildInputProver K e cfg a b w = Ret (Inr i)" and "ba_BatchNumber b \<noteq> 1" and "ba_ForcedBatchNum b = None"
  shows "l1_data K e a b = Ret (Inr (ip_L1InfoTreeData i))" and "ip_L1InfoRoot i = hash_bytes (ba_L1InfoRoot b)"
  using assms by (auto simp: buildInputProver_def input_prover_def Let_def split: outcome.splits sum.splits if_splits)

lemma l1_data_ok:
  assumes "l1_data K e a b = Ret (Inr d)" and "ax_GetLeafsByL1InfoRoot e (ag_clock a) (ba_L1InfoRoot b) = Inr ls"
  obtains raw mt where "DecodeBatchV2 (ax_rlp e) (ba_BatchL2Data b) = Some (Inr raw)" and "NewL1InfoTree K 32 [] = Inr mt"
    and "data_ok K (ax_GetL1InfoTreeLeaves e (ag_clock a)) mt (ba_L1InfoRoot b) (map (leaf_hash K) ls) d"
    and "fst ` set d = block_index ` set (Blocks raw) - {0}"
proof -
  from assms obtain raw mt where r: "DecodeBatchV2 (ax_rlp e) (ba_BatchL2Data b) = Some (Inr raw)" "NewL1InfoTree K 32 [] = Inr mt"
    and "l1_data_loop K (ax_GetL1InfoTreeLeaves e (ag_clock a)) mt (ba_L1InfoRoot b) (map (leaf_hash K) ls) (Blocks raw) [] = Inr d"
    by (auto simp: l1_data_def split: option.splits sum.splits if_splits)
  from l1_data_loop_spec [OF this(3)] that [OF r] show thesis by (auto simp: data_ok_def)
qed

text \<open>C14. The L1 data of a prover input proves itself. For a batch that is neither the first nor forced, the input carries
  exactly one entry for every nonzero L1 info tree index that a block of the decoded batch refers to. Given the leaves of
  the batch's L1 info root and a client that returns leaf \<open>i\<close> when asked for index \<open>i\<close>, the
  entry of a known leaf holds that leaf's exit root, parent hash and timestamp, with a path of 32 siblings by which the
  hash of the leaf verifies against the L1 info root given to the prover.\<close>

theorem prover_l1_data_verifies:
  assumes "buildInputProver K e cfg a b w = Ret (Inr i)" and "ba_BatchNumber b \<noteq> 1" and "ba_ForcedBatchNum b = None"
    and "ax_GetLeafsByL1InfoRoot e (ag_clock a) (ba_L1InfoRoot b) = Inr leaves" and "length leaves + 1 < 2 ^ 32"
    and "\<forall>idx m. ax_GetL1InfoTreeLeaves e (ag_clock a) idx = Inr m \<and> unat idx < length leaves \<longrightarrow> m idx = Some (leaves ! unat idx)"
  shows "\<exists>raw. DecodeBatchV2 (ax_rlp e) (ba_BatchL2Data b) = Some (Inr raw) \<and> distinct (map fst (ip_L1InfoTreeData i)) \<and>
     fst ` set (ip_L1InfoTreeData i) = block_index ` set (Blocks raw) - {0} \<and> ip_L1InfoRoot i = hash_bytes (ba_L1InfoRoot b) \<and>
     (\<forall>(idx, d) \<in> set (ip_L1InfoTreeData i). unat idx < length leaves \<longrightarrow>
        (\<exists>smt. d = l1_entry (leaves ! unat idx) smt \<and> length smt = DefaultHeight \<and>
           CalculateRoot K (leaf_hash K (leaves ! unat idx)) smt idx = ba_L1InfoRoot b))"
proof -
  note i = buildInputProver_l1_data [OF assms(1-3)]
  from l1_data_ok [OF i(1) assms(4)] obtain raw mt where raw: "DecodeBatchV2 (ax_rlp e) (ba_BatchL2Data b) = Some (Inr raw)"
    and mt: "NewL1InfoTree K 32 [] = Inr mt"
    and ok: "data_ok K (ax_GetL1InfoTreeLeaves e (ag_clock a)) mt (ba_L1InfoRoot b) (map (leaf_hash K) leaves) (ip_L1InfoTreeData i)"
    and idx: "fst ` set (ip_L1InfoTreeData i) = block_index ` set (Blocks raw) - {0}" .
  from mt NewL1InfoTree_ok [of 32 "[]" K] have inv: "l1_inv K mt []" "mt_height mt = 32" by auto
  have "\<exists>smt. d = l1_entry (leaves ! unat idx) smt \<and> length smt = DefaultHeight \<and>
      CalculateRoot K (leaf_hash K (leaves ! unat idx)) smt idx = ba_L1InfoRoot b"
    if "(idx, d) \<in> set (ip_L1InfoTreeData i)" and l: "unat idx < length leaves" for idx d
  proof -
    from ok that(1) obtain m smt where "ax_GetL1InfoTreeLeaves e (ag_clock a) idx = Inr m"
      and p: "ComputeMerkleProof K mt idx (map (leaf_hash K) leaves) = Inr (smt, ba_L1InfoRoot b)"
      and "d = l1_entry (case m idx of None \<Rightarrow> zero_leaf | Some l \<Rightarrow> l) smt"
      by (force simp: data_ok_def entry_ok_def)
    moreover from this(1) l assms(6) have "m idx = Some (leaves ! unat idx)" by blast
    moreover from ComputeMerkleProof_verifies [OF inv, of "map (leaf_hash K) leaves" idx] p l assms(5)
    have "length smt = DefaultHeight \<and> CalculateRoot K (leaf_hash K (leaves ! unat idx)) smt idx = ba_L1InfoRoot b"
      by (auto simp: leaves_fun_def)
    ultimately show ?thesis by auto
  qed
  with raw idx ok i(2) show ?thesis by (auto simp: data_ok_def)
qed

definition sample_leaves :: "L1Leaf list" where
  "sample_leaves = [\<lparr>ll_GlobalExitRoot = 7, ll_PreviousBlockHash = 8, ll_Timestamp = 90\<rparr>,
                    \<lparr>ll_GlobalExitRoot = 17, ll_PreviousBlockHash = 18, ll_Timestamp = 91\<rparr>]"

definition sample_leaf_env :: agg_env where
  "sample_leaf_env = sample_agg_env\<lparr>ax_GetLeafsByL1InfoRoot := (\<lambda>_ _. Inr sample_leaves),
     ax_GetL1InfoTreeLeaves := (\<lambda>_ i. Inr (\<lambda>j. if j = 0 then Some (sample_leaves ! 0) else if j = 1 then Some (sample_leaves ! 1) else None))\<rparr>"

definition sample_to_input :: st_Batch where
  "sample_to_input = \<lparr>ba_BatchNumber = 5, ba_Coinbase = 6, ba_BatchL2Data = [11, 0, 0, 0, 5, 0, 0, 0, 1], ba_StateRoot = 2,
     ba_LocalExitRoot = 3, ba_AccInputHash = 4, ba_L1InfoTreeIndex = 0, ba_L1InfoRoot = 1, ba_Timestamp = 1000,
     ba_GlobalExitRoot = 0, ba_ForcedBatchNum = None, ba_ChainID = 1, ba_ForkID = 12\<rparr>"

lemma sample_l1_loop:
  assumes "NewL1InfoTree (\<lambda>_. 1) 32 [] = Inr mt" and "IndexL1InfoTree (bl_Header b) = 1"
  shows "\<exists>d. l1_data_loop (\<lambda>_. 1) (ax_GetL1InfoTreeLeaves sample_leaf_env c) mt 1 (map (leaf_hash (\<lambda>_. 1)) sample_leaves) [b] [] = Inr [(1, d)]"
proof -
  from assms(1) NewL1InfoTree_ok [of 32 "[]" "\<lambda>_. 1"] have "l1_inv (\<lambda>_. 1) mt []" "mt_height mt = 32" by auto
  from ComputeMerkleProof_verifies [OF this, of "map (leaf_hash (\<lambda>_. 1)) sample_leaves" 1]
  obtain p where "ComputeMerkleProof (\<lambda>_. 1) mt 1 (map (leaf_hash (\<lambda>_. 1)) sample_leaves) =
      Inr (p, leaves_root (\<lambda>_. 1) (map (leaf_hash (\<lambda>_. 1)) sample_leaves))" by (auto simp: sample_leaves_def)
  moreover have "subtree (\<lambda>_. 1) (Suc 31) 0 (leaves_fun xs) = 1" for xs by (simp only: subtree.simps node_hash_def)
  then have "leaves_root (\<lambda>_. 1) xs = 1" for xs by (simp add: leaves_root_def DefaultHeight_def merkle_root_def)
  ultimately show ?thesis using assms(2) by (simp add: Let_def sample_leaf_env_def)
qed

theorem prover_l1_data_verifies_witness:
  "\<exists>i d smt. buildInputProver (\<lambda>_. 1) sample_leaf_env (gp_cfg sample_agg_params) sample_chain_agg sample_to_input [] = Ret (Inr i) \<and>
     ip_L1InfoTreeData i = [(1, d)] \<and> d = l1_entry (sample_leaves ! 1) smt \<and>
     CalculateRoot (\<lambda>_. 1) (leaf_hash (\<lambda>_. 1) (sample_leaves ! 1)) smt 1 = 1"
proof -
  let ?b = "\<lparr>BlockNumber = 0, bl_Header = \<lparr>DeltaTimestamp = 5, IndexL1InfoTree = 1\<rparr>, bl_Transactions = []\<rparr>"
  obtain mt where mt: "NewL1InfoTree (\<lambda>_. 1) 32 [] = Inr mt" using NewL1InfoTree_ok [of 32 "[]" "\<lambda>_. 1"] by auto
  from sample_l1_loop [OF this, of ?b 0] obtain d where loop: "l1_data_loop (\<lambda>_. 1) (ax_GetL1InfoTreeLeaves sample_leaf_env 0) mt 1
      (map (leaf_hash (\<lambda>_. 1)) sample_leaves) [?b] [] = Inr [(1, d)]" by auto
  have "DecodeBatchV2 short_rlp [11, 0, 0, 0, 5, 0, 0, 0, 1] = Some (Inr \<lparr>Blocks = [?b]\<rparr>)"
    by (simp add: DecodeBatchV2_def DecodeBatchV2_loop.simps closed_def decodeBlockHeader_def decodeUint32_def be_value_def changeL2Block_def)
  with mt loop obtain i where i: "buildInputProver (\<lambda>_. 1) sample_leaf_env (gp_cfg sample_agg_params) sample_chain_agg sample_to_input [] =
      Ret (Inr i)" and d: "ip_L1InfoTreeData i = [(1, d)]"
    by (simp add: buildInputProver_def l1_data_def input_prover_def Let_def sample_to_input_def sample_leaf_env_def sample_agg_env_def
        sample_chain_agg_def sample_aggregator_def getAccInputHash_def)
  have two: "k = 0 \<or> k = 1" if "unat (k :: u32) < Suc (Suc 0)" for k
    using less_2_cases [of "unat k"] that word_unat_eq_iff [of k 0] word_unat_eq_iff [of k 1] by simp
  have law: "\<forall>idx m. ax_GetL1InfoTreeLeaves sample_leaf_env (ag_clock sample_chain_agg) idx = Inr m \<and> unat idx < length sample_leaves \<longrightarrow>
      m idx = Some (sample_leaves ! unat idx)" using two by (auto simp: sample_leaf_env_def sample_leaves_def)
  have ls: "ax_GetLeafsByL1InfoRoot sample_leaf_env (ag_clock sample_chain_agg) (ba_L1InfoRoot sample_to_input) = Inr sample_leaves"
    by (simp add: sample_leaf_env_def)
  have "ba_BatchNumber sample_to_input \<noteq> 1" "ba_ForcedBatchNum sample_to_input = None" "length sample_leaves + 1 < 2 ^ 32"
    by (simp_all add: sample_to_input_def sample_leaves_def)
  from prover_l1_data_verifies [OF i this(1,2) ls this(3) law]
  have "\<forall>(idx, d) \<in> set (ip_L1InfoTreeData i). unat idx < length sample_leaves \<longrightarrow>
      (\<exists>smt. d = l1_entry (sample_leaves ! unat idx) smt \<and> length smt = DefaultHeight \<and>
         CalculateRoot (\<lambda>_. 1) (leaf_hash (\<lambda>_. 1) (sample_leaves ! unat idx)) smt idx = ba_L1InfoRoot sample_to_input)" by blast
  with d have "\<exists>smt. d = l1_entry (sample_leaves ! 1) smt \<and> CalculateRoot (\<lambda>_. 1) (leaf_hash (\<lambda>_. 1) (sample_leaves ! 1)) smt 1 = 1"
    by (force simp: sample_leaves_def sample_to_input_def)
  with i d show ?thesis by blast
qed

end
