(* ===== verification/DataCommittee.thy ===== *)
theory DataCommittee
  imports SequenceSender "HOL-Library.Multiset" "HOL-Library.Sublist"
begin

text \<open>
  The data availability layer (\<open>src/dataavailability/datacommittee/datacommittee.go\<close>): the members of the committee as the
  contract has them, the signatures collected for a sequence, and the retrieval of batch data from a member.

  The contract, the clients of the members, the signing of sequences, the random number and the order in which the
  answers of the members arrive are arguments. Every member is asked by a goroutine of its own that sends at
  most one message; \<open>dx_order\<close> is the order in which the channel delivers them.
\<close>

section \<open>Data\<close>

record DataCommitteeMember =
  dm_Addr :: address
  dm_URL :: string

record DataCommittee =
  dc_AddressesHash :: hash
  dc_Members :: "DataCommitteeMember list"
  dc_RequiredSignatures :: u64

record Backend =
  bk_committeeMembers :: "DataCommitteeMember list"
  bk_selectedCommitteeMember :: int

record dac_contract =
  ct_CommitteeHash :: "error + hash"
  ct_RequiredAmountOfSignatures :: "error + int"
  ct_GetAmountOfMembers :: "error + int"
  ct_Members :: "nat \<Rightarrow> error + address \<times> string"
  ct_Translate :: "(string \<Rightarrow> string) option"

record signatureMsg =
  sm_addr :: address
  sm_signature :: bytes
  sm_err :: "error option"

record da_Batch =
  db_L2Data :: bytes
  db_ForcedGER :: hash
  db_ForcedTimestamp :: u64
  db_Coinbase :: address
  db_ForcedBlockHashL1 :: hash

record da_SequenceBanana =
  dq_Batches :: "da_Batch list"
  dq_OldAccInputHash :: hash
  dq_L1InfoRoot :: hash
  dq_MaxSequenceTimestamp :: u64

section \<open>The committee\<close>

text \<open>\<open>Int64()\<close> of a big integer takes the low 64 bits; a negative capacity panics.\<close>

definition big_Int64 :: "int \<Rightarrow> int" where
  "big_Int64 n = sint (of_int n :: u64)"

fun members_loop :: "dac_contract \<Rightarrow> nat \<Rightarrow> nat \<Rightarrow> error + DataCommitteeMember list" where
  "members_loop c i 0 = Inr []"
| "members_loop c i (Suc k) =
     (case ct_Members c i of
        Inl x \<Rightarrow> Inl x
      | Inr (addr, url) \<Rightarrow>
          let url' = (case ct_Translate c of None \<Rightarrow> url | Some f \<Rightarrow> f url)
          in map_sum id (\<lambda>ms. \<lparr>dm_Addr = addr, dm_URL = url'\<rparr> # ms) (members_loop c (Suc i) k))"

definition getCurrentDataCommitteeMembers :: "dac_contract \<Rightarrow> error + DataCommitteeMember list" where
  "getCurrentDataCommitteeMembers c =
     (case ct_GetAmountOfMembers c of
        Inl x \<Rightarrow> Inl x
      | Inr nMembers \<Rightarrow>
          if big_Int64 nMembers < 0 then Inl ErrPanic else members_loop c 0 (nat (big_Int64 nMembers)))"

definition getCurrentDataCommittee :: "dac_contract \<Rightarrow> error + DataCommittee" where
  "getCurrentDataCommittee c =
     (case ct_CommitteeHash c of
        Inl x \<Rightarrow> Inl x
      | Inr addrsHash \<Rightarrow>
          (case ct_RequiredAmountOfSignatures c of
             Inl x \<Rightarrow> Inl x
           | Inr reqSign \<Rightarrow>
               map_sum id (\<lambda>members. \<lparr>dc_AddressesHash = addrsHash, dc_Members = members,
                                      dc_RequiredSignatures = of_int reqSign\<rparr>)
                 (getCurrentDataCommitteeMembers c)))"

definition bk_Init :: "dac_contract \<Rightarrow> (int \<Rightarrow> error + int) \<Rightarrow> Backend \<Rightarrow> Backend \<times> error option" where
  "bk_Init c rand_Int d =
     (case getCurrentDataCommittee c of
        Inl x \<Rightarrow> (d, Some x)
      | Inr committee \<Rightarrow>
          let d1 = d\<lparr>bk_committeeMembers := dc_Members committee\<rparr> in
          if dc_Members committee = [] then (d1\<lparr>bk_selectedCommitteeMember := - 1\<rparr>, None)
          else (case rand_Int (int (length (dc_Members committee))) of
                  Inl x \<Rightarrow> (d1, Some x)
                | Inr n \<Rightarrow> (d1\<lparr>bk_selectedCommitteeMember := n\<rparr>, None)))"

section \<open>Retrieving data\<close>

definition next_member :: "Backend \<Rightarrow> Backend" where
  "next_member d =
     d\<lparr>bk_selectedCommitteeMember := (bk_selectedCommitteeMember d + 1) mod int (length (bk_committeeMembers d))\<rparr>"

text \<open>The data of the answer for each hash. The \<open>break\<close> and \<open>continue\<close> of a mismatch belong to this loop.\<close>

fun check_data ::
  "keccak \<Rightarrow> int \<Rightarrow> (hash \<Rightarrow> bytes option) \<Rightarrow> hash list \<Rightarrow> Backend \<Rightarrow> bytes list \<Rightarrow> Backend \<times> bytes list"
where
  "check_data K initialMember dataMap [] d batchData = (d, batchData)"
| "check_data K initialMember dataMap (hash # hashes) d batchData =
     (let entry = (case dataMap hash of None \<Rightarrow> [] | Some b \<Rightarrow> b) in
      if K entry \<noteq> hash then
        let d1 = next_member d in
        if bk_selectedCommitteeMember d1 = initialMember then (d1, batchData)
        else check_data K initialMember dataMap hashes d1 batchData
      else check_data K initialMember dataMap hashes d (batchData @ [entry]))"

fun retrieve ::
  "keccak \<Rightarrow> (string \<Rightarrow> hash list \<Rightarrow> error + (hash \<Rightarrow> bytes option)) \<Rightarrow> int \<Rightarrow> hash list \<Rightarrow> nat \<Rightarrow> Backend \<Rightarrow>
   Backend \<times> bytes list option outcome"
where
  "retrieve K ListOffChainData initialMember hashes 0 d = (d, Ret None)"
| "retrieve K ListOffChainData initialMember hashes (Suc retries) d =
     (let sel = bk_selectedCommitteeMember d; members = bk_committeeMembers d in
      if sel < 0 \<or> int (length members) \<le> sel then (d, Panicked)
      else case ListOffChainData (dm_URL (members ! nat sel)) hashes of
        Inl _ \<Rightarrow>
          let d1 = next_member d in
          if bk_selectedCommitteeMember d1 = initialMember then (d1, Ret None)
          else retrieve K ListOffChainData initialMember hashes retries d1
      | Inr dataMap \<Rightarrow>
          (case check_data K initialMember dataMap hashes d [] of (d1, batchData) \<Rightarrow> (d1, Ret (Some batchData))))"

definition reload :: "dac_contract \<Rightarrow> (int \<Rightarrow> error + int) \<Rightarrow> Backend \<Rightarrow> Backend \<times> (error + bytes list) outcome" where
  "reload c rand_Int d =
     (case bk_Init c rand_Int d of
        (d1, Some x) \<Rightarrow> (d1, if x = ErrPanic then Panicked else Ret (Inl x))
      | (d1, None) \<Rightarrow> (d1, Ret (Inl (ErrMsg ''couldn't get the data from any committee member''))))"

definition GetSequence ::
  "keccak \<Rightarrow> dac_contract \<Rightarrow> (int \<Rightarrow> error + int) \<Rightarrow> (string \<Rightarrow> hash list \<Rightarrow> error + (hash \<Rightarrow> bytes option)) \<Rightarrow>
   hash list \<Rightarrow> Backend \<Rightarrow> Backend \<times> (error + bytes list) outcome"
where
  "GetSequence K c rand_Int ListOffChainData hashes d =
     (case retrieve K ListOffChainData (bk_selectedCommitteeMember d) hashes (length (bk_committeeMembers d)) d of
        (d1, Ret (Some batchData)) \<Rightarrow> (d1, Ret (Inr batchData))
      | (d1, Ret None) \<Rightarrow> reload c rand_Int d1
      | (d1, Blocked) \<Rightarrow> (d1, Blocked)
      | (d1, Panicked) \<Rightarrow> (d1, Panicked))"

section \<open>Collecting signatures\<close>

text \<open>\<open>strings.ToUpper\<close> on ASCII and the comparison of strings, byte by byte.\<close>

definition ToUpper :: "string \<Rightarrow> string" where
  "ToUpper s = map (\<lambda>c. if 97 \<le> code c \<and> code c \<le> 122 then char_of (code c - 32) else c) s"

fun str_less :: "string \<Rightarrow> string \<Rightarrow> bool" where
  "str_less _ [] = False"
| "str_less [] (d # ds) = True"
| "str_less (c # cs) (d # ds) = (code c < code d \<or> code c = code d \<and> str_less cs ds)"

definition Less :: "(address \<Rightarrow> string) \<Rightarrow> signatureMsg \<Rightarrow> signatureMsg \<Rightarrow> bool" where
  "Less addr_Hex m n = str_less (ToUpper (addr_Hex (sm_addr m))) (ToUpper (addr_Hex (sm_addr n)))"

text \<open>\<open>sort.Sort\<close>; elements with different addresses are in one order only.\<close>

fun insert_by :: "('a \<Rightarrow> 'a \<Rightarrow> bool) \<Rightarrow> 'a \<Rightarrow> 'a list \<Rightarrow> 'a list" where
  "insert_by lt x [] = [x]"
| "insert_by lt x (y # ys) = (if lt y x then y # insert_by lt x ys else x # y # ys)"

definition sort_Sort :: "('a \<Rightarrow> 'a \<Rightarrow> bool) \<Rightarrow> 'a list \<Rightarrow> 'a list" where
  "sort_Sort lt xs = foldr (insert_by lt) xs []"

definition buildSignaturesAndAddrs ::
  "(address \<Rightarrow> string) \<Rightarrow> signatureMsg list \<Rightarrow> DataCommitteeMember list \<Rightarrow> bytes"
where
  "buildSignaturesAndAddrs addr_Hex sigs members =
     concat (map sm_signature (sort_Sort (Less addr_Hex) sigs)) @ concat (map (\<lambda>m. addr_bytes (dm_Addr m)) members)"

text \<open>A goroutine that sees its context done returns without a message.\<close>

definition requestSignatureFromMember ::
  "bool \<Rightarrow> (string \<Rightarrow> error + bytes) \<Rightarrow> (bytes \<Rightarrow> error + address) \<Rightarrow> DataCommitteeMember \<Rightarrow> signatureMsg option"
where
  "requestSignatureFromMember ctxDone funcSign Signer member =
     (let failed = (\<lambda>x. Some \<lparr>sm_addr = dm_Addr member, sm_signature = [], sm_err = Some x\<rparr>) in
      if ctxDone then None
      else case funcSign (dm_URL member) of
        Inl x \<Rightarrow> failed x
      | Inr signature \<Rightarrow>
          (case Signer signature of
             Inl x \<Rightarrow> failed x
           | Inr signer \<Rightarrow>
               if signer \<noteq> dm_Addr member then failed (ErrMsg ''invalid signer'')
               else Some \<lparr>sm_addr = dm_Addr member, sm_signature = signature, sm_err = None\<rparr>))"

definition too_many_failed :: error where
  "too_many_failed = ErrMsg ''too many members failed to send their signature''"

text \<open>The loop over the channel; when it holds no message and no goroutine is left, receiving blocks.\<close>

fun collect_msgs ::
  "DataCommittee \<Rightarrow> u64 \<Rightarrow> u64 \<Rightarrow> signatureMsg list \<Rightarrow> signatureMsg list \<Rightarrow> (error + signatureMsg list) outcome"
where
  "collect_msgs committee collected failed msgs ch =
     (if \<not> collected < dc_RequiredSignatures committee then Ret (Inr msgs)
      else case ch of
        [] \<Rightarrow> Blocked
      | msg # ch' \<Rightarrow>
          if sm_err msg \<noteq> None
          then if int (length (dc_Members committee)) - sint (failed + 1) < sint (dc_RequiredSignatures committee)
               then Ret (Inl too_many_failed)
               else collect_msgs committee collected (failed + 1) (msgs @ [msg]) ch'
          else collect_msgs committee (collected + 1) failed (msgs @ [msg]) ch')"

declare collect_msgs.simps [simp del]

definition collectSignatures ::
  "(address \<Rightarrow> string) \<Rightarrow> DataCommittee \<Rightarrow> signatureMsg list \<Rightarrow> (error + bytes) outcome"
where
  "collectSignatures addr_Hex committee ch =
     (case collect_msgs committee 0 0 [] ch of
        Ret (Inr msgs) \<Rightarrow> Ret (Inr (buildSignaturesAndAddrs addr_Hex msgs (dc_Members committee)))
      | Ret (Inl x) \<Rightarrow> Ret (Inl x)
      | Blocked \<Rightarrow> Blocked
      | Panicked \<Rightarrow> Panicked)"

record dac_env =
  dx_done :: "DataCommitteeMember \<Rightarrow> bool"
  dx_order :: "signatureMsg list \<Rightarrow> signatureMsg list"
  dx_addr_Hex :: "address \<Rightarrow> string"
  dx_Sign :: "bytes list \<Rightarrow> error + bytes"
  dx_SignSequence :: "string \<Rightarrow> bytes list \<Rightarrow> bytes \<Rightarrow> error + bytes"
  dx_Signer :: "bytes list \<Rightarrow> bytes \<Rightarrow> error + address"
  dx_HashToSign :: "da_SequenceBanana \<Rightarrow> hash"
  dx_SignBanana :: "da_SequenceBanana \<Rightarrow> error + bytes"
  dx_SignSequenceBanana :: "string \<Rightarrow> da_SequenceBanana \<Rightarrow> bytes \<Rightarrow> error + bytes"
  dx_SignerBanana :: "da_SequenceBanana \<Rightarrow> bytes \<Rightarrow> error + address"

definition request_all ::
  "dac_env \<Rightarrow> DataCommittee \<Rightarrow> (string \<Rightarrow> error + bytes) \<Rightarrow> (bytes \<Rightarrow> error + address) \<Rightarrow> signatureMsg list"
where
  "request_all e committee funcSign Signer =
     dx_order e (List.map_filter (\<lambda>m. requestSignatureFromMember (dx_done e m) funcSign Signer m) (dc_Members committee))"

definition PostSequenceElderberry :: "dac_env \<Rightarrow> dac_contract \<Rightarrow> bytes list \<Rightarrow> (error + bytes) outcome" where
  "PostSequenceElderberry e c batchesData =
     (case getCurrentDataCommittee c of
        Inl x \<Rightarrow> if x = ErrPanic then Panicked else Ret (Inl x)
      | Inr committee \<Rightarrow>
          (case dx_Sign e batchesData of
             Inl x \<Rightarrow> Ret (Inl x)
           | Inr signature \<Rightarrow>
               collectSignatures (dx_addr_Hex e) committee
                 (request_all e committee (\<lambda>url. dx_SignSequence e url batchesData signature) (dx_Signer e batchesData))))"

definition to_da_Batch :: "Batch \<Rightarrow> da_Batch" where
  "to_da_Batch b =
     \<lparr>db_L2Data = bt_L2Data b, db_ForcedGER = bt_ForcedGlobalExitRoot b, db_ForcedTimestamp = bt_ForcedBatchTimestamp b,
      db_Coinbase = bt_LastCoinbase b, db_ForcedBlockHashL1 = bt_ForcedBlockHashL1 b\<rparr>"

definition to_da_Sequence :: "SequenceBanana \<Rightarrow> da_SequenceBanana" where
  "to_da_Sequence s =
     \<lparr>dq_Batches = map to_da_Batch (sq_Batches s), dq_OldAccInputHash = sq_OldAccInputHash s,
      dq_L1InfoRoot = sq_L1InfoRoot s, dq_MaxSequenceTimestamp = sq_MaxSequenceTimestamp s\<rparr>"

definition PostSequenceBanana :: "dac_env \<Rightarrow> dac_contract \<Rightarrow> SequenceBanana \<Rightarrow> (error + bytes) outcome" where
  "PostSequenceBanana e c sequence =
     (case getCurrentDataCommittee c of
        Inl x \<Rightarrow> if x = ErrPanic then Panicked else Ret (Inl x)
      | Inr committee \<Rightarrow>
          let sequenceBanana = to_da_Sequence sequence in
          if dx_HashToSign e sequenceBanana \<noteq> sq_AccInputHash sequence
          then Ret (Inl (ErrMsg ''calculated accInputHash diverges''))
          else case dx_SignBanana e sequenceBanana of
            Inl x \<Rightarrow> Ret (Inl x)
          | Inr signature \<Rightarrow>
              collectSignatures (dx_addr_Hex e) committee
                (request_all e committee (\<lambda>url. dx_SignSequenceBanana e url sequenceBanana signature)
                   (dx_SignerBanana e sequenceBanana)))"

section \<open>The order of the signatures\<close>

text \<open>\<open>Address.Hex\<close> is a hexadecimal number whose upper-case letters are a checksum.\<close>

definition eip55 :: "(address \<Rightarrow> string) \<Rightarrow> bool" where
  "eip55 addr_Hex \<longleftrightarrow> (\<forall>a. ToUpper (addr_Hex a) = ''0X'' @ ToUpper (EncodeToString (addr_bytes a)))"

lemma ToUpper_append [simp]: "ToUpper (s @ t) = ToUpper s @ ToUpper t"
  by (simp add: ToUpper_def)

lemma upper_digit:
  assumes "d < 16"
  shows "\<exists>c. ToUpper [hex_char d] = [c] \<and> code c = (if d < 10 then 48 + d else 55 + d)"
proof -
  from assms have "d \<in> {0, 1, 2, 3, 4, 5, 6, 7, 8, 9, 10, 11, 12, 13, 14, 15}" by (simp, presburger)
  then show ?thesis by (elim insertE emptyE; simp add: ToUpper_def hex_char_def code_def)
qed

lemma str_less_digit:
  assumes "d < 16" and "d' < 16"
  shows "str_less (ToUpper (hex_char d # s)) (ToUpper (hex_char d' # t)) \<longleftrightarrow>
    d < d' \<or> d = d' \<and> str_less (ToUpper s) (ToUpper t)"
proof -
  obtain c c' where "ToUpper [hex_char d] = [c]" "code c = (if d < 10 then 48 + d else 55 + d)"
    "ToUpper [hex_char d'] = [c']" "code c' = (if d' < 10 then 48 + d' else 55 + d')"
    using upper_digit assms by metis
  then show ?thesis
    using ToUpper_append [of "[hex_char d]" s] ToUpper_append [of "[hex_char d']" t] by auto
qed

lemma lex_step:
  fixes a b v w m :: nat
  assumes "v < m" and "w < m"
  shows "a * m + v < b * m + w \<longleftrightarrow> a < b \<or> a = b \<and> v < w"
proof (cases a b rule: linorder_cases)
  case less
  then have "Suc a * m \<le> b * m" by (intro mult_le_mono1) simp
  with less assms show ?thesis by simp
next
  case greater
  then have "Suc b * m \<le> a * m" by (intro mult_le_mono1) simp
  with greater assms show ?thesis by simp
qed simp

lemma byte_digits_less:
  "unat (b :: u8) < unat c \<longleftrightarrow> unat b div 16 < unat c div 16 \<or> unat b div 16 = unat c div 16 \<and> unat b mod 16 < unat c mod 16"
  using lex_step [of "unat b mod 16" 16 "unat c mod 16" "unat b div 16" "unat c div 16"] by simp

lemma str_less_hex:
  assumes "length bs = length cs"
  shows "str_less (ToUpper (EncodeToString bs)) (ToUpper (EncodeToString cs)) \<longleftrightarrow> be_value bs < be_value cs"
  using assms
proof (induction bs cs rule: list_induct2)
  case Nil
  then show ?case by (simp add: EncodeToString_def ToUpper_def)
next
  case (Cons b bs c cs)
  let ?r = "str_less (ToUpper (EncodeToString bs)) (ToUpper (EncodeToString cs))"
  have "str_less (ToUpper (EncodeToString (b # bs))) (ToUpper (EncodeToString (c # cs))) \<longleftrightarrow>
      unat b div 16 < unat c div 16 \<or> unat b div 16 = unat c div 16 \<and>
        (unat b mod 16 < unat c mod 16 \<or> unat b mod 16 = unat c mod 16 \<and> ?r)"
    by (simp add: EncodeToString_Cons byte_hex_def str_less_digit byte_hex_digits)
  also have "\<dots> \<longleftrightarrow> unat b < unat c \<or> unat b = unat c \<and> ?r"
    using byte_digits_less [of b c] div_mult_mod_eq [of "unat b" 16] div_mult_mod_eq [of "unat c" 16] by metis
  also have "\<dots> \<longleftrightarrow> be_value (b # bs) < be_value (c # cs)"
    using Cons lex_step [of "be_value bs" "256 ^ length bs" "be_value cs" "unat b" "unat c"] be_value_bound [of bs] be_value_bound [of cs]
    by (simp add: be_value_Cons)
  finally show ?case .
qed

lemma Less_addr:
  assumes "eip55 addr_Hex"
  shows "Less addr_Hex m n \<longleftrightarrow> sm_addr m < sm_addr n"
proof -
  have v: "be_value (addr_bytes a) = unat a" for a :: address
    using unat_less [of a] by (simp add: be_value_be_bytes)
  have "Less addr_Hex m n \<longleftrightarrow>
      str_less (ToUpper (EncodeToString (addr_bytes (sm_addr m)))) (ToUpper (EncodeToString (addr_bytes (sm_addr n))))"
    using assms by (simp add: Less_def eip55_def)
  also have "\<dots> \<longleftrightarrow> sm_addr m < sm_addr n"
    using str_less_hex [of "addr_bytes (sm_addr m)" "addr_bytes (sm_addr n)"] by (simp add: v word_less_nat_alt)
  finally show ?thesis .
qed

lemma insert_by_insort:
  assumes "\<And>x y. lt x y \<longleftrightarrow> key x < (key y :: 'b::linorder)"
  shows "insert_by lt x xs = insort_key key x xs"
  by (induction xs) (auto simp: assms)

lemma sort_Sort_key:
  assumes "eip55 addr_Hex"
  shows "sort_Sort (Less addr_Hex) xs = sort_key sm_addr xs"
proof -
  have "insert_by (Less addr_Hex) = insort_key sm_addr"
    by (intro ext insert_by_insort) (rule Less_addr [OF assms])
  then show ?thesis by (simp add: sort_Sort_def sort_key_def)
qed

section \<open>Collecting\<close>

lemma unat_suc: "unat (w :: u64) + 1 < 2 ^ 64 \<Longrightarrow> unat (w + 1) = unat w + 1"
  by (simp add: unat_word_ariths)

abbreviation good :: "signatureMsg \<Rightarrow> bool" where
  "good m \<equiv> sm_err m = None"

text \<open>A successful collection stops with the message that completes the number.\<close>

lemma collect_msgs_Inr:
  assumes "collect_msgs C c f msgs ch = Ret (Inr res)" and "c \<le> dc_RequiredSignatures C"
  shows "\<exists>pre suf. ch = pre @ suf \<and> res = msgs @ pre \<and>
    unat c + length (filter good pre) = unat (dc_RequiredSignatures C)"
  using assms
proof (induction ch arbitrary: c f msgs)
  case Nil
  then show ?case by (auto simp: collect_msgs.simps split: if_splits)
next
  case (Cons m ch)
  show ?case
  proof (cases "c < dc_RequiredSignatures C")
    case False
    with Cons.prems show ?thesis by (auto simp: collect_msgs.simps)
  next
    case True
    from True have c: "c + 1 \<le> dc_RequiredSignatures C" "unat (c + 1) = unat c + 1"
      using unat_suc [of c] unat_less [of "dc_RequiredSignatures C"] by (auto simp: inc_le word_less_nat_alt)
    have "\<exists>c' f'. collect_msgs C c' f' (msgs @ [m]) ch = Ret (Inr res) \<and> c' \<le> dc_RequiredSignatures C \<and>
        unat c' = unat c + (if good m then 1 else 0)"
      using Cons.prems True c by (subst (asm) collect_msgs.simps) (auto split: if_splits)
    then obtain c' f' where "collect_msgs C c' f' (msgs @ [m]) ch = Ret (Inr res)" "c' \<le> dc_RequiredSignatures C"
      and c': "unat c' = unat c + (if good m then 1 else 0)" by blast
    from Cons.IH [OF this(1,2)] obtain pre suf where "ch = pre @ suf" "res = (msgs @ [m]) @ pre"
      "unat c' + length (filter good pre) = unat (dc_RequiredSignatures C)" by blast
    then show ?thesis using c' by (intro exI [of _ "m # pre"] exI [of _ suf]) auto
  qed
qed

text \<open>With one message of every member the collection ends, and the number of good ones decides how.\<close>

lemma collect_msgs_decides:
  assumes "unat c + unat f + length ch = length (dc_Members C)" and "length (dc_Members C) < 2 ^ 62"
    and "unat f + unat (dc_RequiredSignatures C) \<le> length (dc_Members C)"
  shows "if unat (dc_RequiredSignatures C) \<le> unat c + length (filter good ch)
    then \<exists>res. collect_msgs C c f msgs ch = Ret (Inr res) else collect_msgs C c f msgs ch = Ret (Inl too_many_failed)"
  using assms
proof (induction ch arbitrary: c f msgs)
  case Nil
  then show ?case by (auto simp: collect_msgs.simps word_less_nat_alt)
next
  case (Cons m ch)
  let ?R = "dc_RequiredSignatures C" and ?N = "length (dc_Members C)"
  show ?case
  proof (cases "c < ?R")
    case False
    then show ?thesis by (auto simp: collect_msgs.simps word_less_nat_alt)
  next
    case True
    have R: "sint ?R = int (unat ?R)" using Cons.prems(2,3) sint_diff [of ?R 0] by (simp del: of_nat_unat)
    have s: "unat (c + 1) = unat c + 1" "unat (f + 1) = unat f + 1"
      using Cons.prems(1,2) by (simp_all add: unat_suc)
    then have F: "sint (f + 1) = int (unat f) + 1" using Cons.prems(1,2) sint_diff [of "f + 1" 0] by (simp del: of_nat_unat)
    show ?thesis
    proof (cases "good m")
      case g: True
      have "collect_msgs C c f msgs (m # ch) = collect_msgs C (c + 1) f (msgs @ [m]) ch"
        using True g by (subst collect_msgs.simps) simp
      with Cons.IH [of "c + 1" f "msgs @ [m]"] Cons.prems s g show ?thesis by simp
    next
      case g: False
      show ?thesis
      proof (cases "int ?N - sint (f + 1) < sint ?R")
        case t: True
        have "collect_msgs C c f msgs (m # ch) = Ret (Inl too_many_failed)"
          using True g t by (subst collect_msgs.simps) simp
        moreover have "\<not> unat ?R \<le> unat c + length (filter good ch)"
          using t Cons.prems(1) R F length_filter_le [of good ch] unfolding R F list.size by linarith
        ultimately show ?thesis using g by auto
      next
        case t: False
        have "collect_msgs C c f msgs (m # ch) = collect_msgs C c (f + 1) (msgs @ [m]) ch"
          using True g t by (subst collect_msgs.simps) simp
        moreover have "unat (f + 1) + unat ?R \<le> ?N" using t s R F by (simp del: of_nat_unat)
        ultimately show ?thesis using Cons.IH [of c "f + 1" "msgs @ [m]"] Cons.prems(1,2) s g by auto
      qed
    qed
  qed
qed

lemma mset_request_all:
  assumes "mset (dx_order e ms) = mset ms"
    and "ms = List.map_filter (\<lambda>m. requestSignatureFromMember (dx_done e m) fs sg m) (dc_Members C)"
  shows "mset (request_all e C fs sg) = mset ms"
  using assms by (simp add: request_all_def)

lemma request_cases:
  assumes "requestSignatureFromMember b fs sg m = Some x"
  shows "sm_addr x = dm_Addr m" and "good x \<Longrightarrow> sg (sm_signature x) = Inr (dm_Addr m)"
    and "\<not> good x \<Longrightarrow> sm_signature x = []"
    and "good x \<longleftrightarrow> (\<exists>s. fs (dm_URL m) = Inr s \<and> sg s = Inr (dm_Addr m))"
  using assms by (auto simp: requestSignatureFromMember_def Let_def split: if_splits sum.splits)

lemma map_filter_keys:
  assumes "\<And>m x. g m = Some x \<Longrightarrow> sm_addr x = dm_Addr m" and "distinct (map dm_Addr ms)"
  shows "distinct (map sm_addr (List.map_filter g ms))" and "sm_addr ` set (List.map_filter g ms) \<subseteq> dm_Addr ` set ms"
proof -
  show *: "sm_addr ` set (List.map_filter g ms) \<subseteq> dm_Addr ` set ms" for ms
    using assms(1) by (force simp: List.map_filter_def)
  show "distinct (map sm_addr (List.map_filter g ms))"
    using assms(2)
  proof (induction ms)
    case (Cons m ms)
    with * [of ms] assms(1) show ?case by (auto simp: List.map_filter_simps split: option.splits)
  qed (simp add: List.map_filter_simps)
qed

text \<open>
  What a message promises to the contract: the given number of signatures by different members, in the order of
  their addresses, and then the addresses of the whole committee.
\<close>

definition signed_message :: "(bytes \<Rightarrow> error + address) \<Rightarrow> DataCommitteeMember list \<Rightarrow> nat \<Rightarrow> bytes \<Rightarrow> bool" where
  "signed_message Signer members n msg \<longleftrightarrow>
     (\<exists>sgs. length sgs = n \<and> sorted_wrt (<) (map fst sgs) \<and> fst ` set sgs \<subseteq> dm_Addr ` set members \<and>
        (\<forall>(a, s) \<in> set sgs. Signer s = Inr a) \<and>
        msg = concat (map snd sgs) @ concat (map (\<lambda>m. addr_bytes (dm_Addr m)) members))"

lemma concat_filter_good:
  assumes "\<forall>m\<in>set ms. \<not> good m \<longrightarrow> sm_signature m = []"
  shows "concat (map sm_signature ms) = concat (map sm_signature (filter good ms))"
  using assms by (induction ms) auto

lemma strict_sorted_filter:
  assumes "distinct (map sm_addr ms)"
  shows "sorted_wrt (<) (map sm_addr (filter good (sort_key sm_addr ms)))"
proof -
  have "distinct (map sm_addr (sort_key sm_addr ms))" using assms by (simp add: distinct_map)
  then have "sorted_wrt (<) (map sm_addr (sort_key sm_addr ms))" by (simp add: strict_sorted_iff)
  then show ?thesis by (simp add: sorted_wrt_map sorted_wrt_filter)
qed

lemma collect_signed:
  assumes "eip55 (dx_addr_Hex e)" and "\<forall>ms. mset (dx_order e ms) = mset ms" and "distinct (map dm_Addr (dc_Members C))"
    and "collectSignatures (dx_addr_Hex e) C (request_all e C fs sg) = Ret (Inr msg)"
  shows "signed_message sg (dc_Members C) (unat (dc_RequiredSignatures C)) msg"
proof -
  let ?g = "\<lambda>m. requestSignatureFromMember (dx_done e m) fs sg m"
  let ?ms = "List.map_filter ?g (dc_Members C)"
  have ch: "mset (request_all e C fs sg) = mset ?ms" using assms(2) by (simp add: request_all_def)
  from assms(4) obtain res where r: "collect_msgs C 0 0 [] (request_all e C fs sg) = Ret (Inr res)"
    and msg: "msg = buildSignaturesAndAddrs (dx_addr_Hex e) res (dc_Members C)"
    by (auto simp: collectSignatures_def split: outcome.splits sum.splits)
  from collect_msgs_Inr [OF r] obtain suf where pre: "request_all e C fs sg = res @ suf"
    and n: "length (filter good res) = unat (dc_RequiredSignatures C)" by auto
  have sub: "set res \<subseteq> set ?ms" using mset_eq_setD [OF ch] by (auto simp: pre)
  have mem: "\<exists>m\<in>set (dc_Members C). ?g m = Some x" if "x \<in> set res" for x
    using sub that by (force simp: List.map_filter_def)
  have "distinct (map sm_addr ?ms)" by (rule map_filter_keys) (use assms(3) request_cases(1) in auto)
  then have "distinct (map sm_addr (request_all e C fs sg))"
    using mset_eq_imp_distinct_iff [of "map sm_addr (request_all e C fs sg)" "map sm_addr ?ms"] by (simp add: ch)
  then have d: "distinct (map sm_addr res)" by (simp add: pre)
  let ?sgs = "map (\<lambda>m. (sm_addr m, sm_signature m)) (filter good (sort_key sm_addr res))"
  have "length ?sgs = unat (dc_RequiredSignatures C)" using n by (simp add: filter_sort)
  moreover have "sorted_wrt (<) (map fst ?sgs)" using strict_sorted_filter [OF d] by (simp add: comp_def)
  moreover have "fst ` set ?sgs \<subseteq> dm_Addr ` set (dc_Members C)" using mem request_cases(1) by fastforce
  moreover have "\<forall>(a, s) \<in> set ?sgs. sg s = Inr a" using mem request_cases(1,2) by fastforce
  moreover have "msg = concat (map snd ?sgs) @ concat (map (\<lambda>m. addr_bytes (dm_Addr m)) (dc_Members C))"
  proof -
    have "\<forall>m\<in>set (sort_key sm_addr res). \<not> good m \<longrightarrow> sm_signature m = []" using mem request_cases(3) by fastforce
    from concat_filter_good [OF this] show ?thesis
      by (simp add: msg buildSignaturesAndAddrs_def sort_Sort_key [OF assms(1)] comp_def)
  qed
  ultimately show ?thesis unfolding signed_message_def by blast
qed

text \<open>C17. A data availability message is what the contract asks for: when posting a sequence succeeds, its accumulated input hash is the
  one that the members signed, and the message has exactly the required number of signatures, of different members and in
  ascending order of their addresses, each by its member, followed by the addresses of the whole committee, in whatever order the
  members answered.\<close>

theorem committee_message_signed:
  assumes "eip55 (dx_addr_Hex e)" and "\<forall>ms. mset (dx_order e ms) = mset ms"
    and "getCurrentDataCommittee c = Inr committee" and "distinct (map dm_Addr (dc_Members committee))"
    and "PostSequenceBanana e c sequence = Ret (Inr msg)"
  shows "signed_message (dx_SignerBanana e (to_da_Sequence sequence)) (dc_Members committee)
      (unat (dc_RequiredSignatures committee)) msg \<and>
    dx_HashToSign e (to_da_Sequence sequence) = sq_AccInputHash sequence"
  using assms(3,5) collect_signed [OF assms(1,2,4)]
  by (auto simp: PostSequenceBanana_def Let_def split: if_splits sum.splits)

lemma committee_message_signed_elderberry:
  assumes "eip55 (dx_addr_Hex e)" and "\<forall>ms. mset (dx_order e ms) = mset ms"
    and "getCurrentDataCommittee c = Inr committee" and "distinct (map dm_Addr (dc_Members committee))"
    and "PostSequenceElderberry e c batchesData = Ret (Inr msg)"
  shows "signed_message (dx_Signer e batchesData) (dc_Members committee) (unat (dc_RequiredSignatures committee)) msg"
  using assms(3,5) collect_signed [OF assms(1,2,4)]
  by (auto simp: PostSequenceElderberry_def split: sum.splits)

definition sample_contract :: "nat \<Rightarrow> dac_contract" where
  "sample_contract n =
     \<lparr>ct_CommitteeHash = Inr 5, ct_RequiredAmountOfSignatures = Inr (int n), ct_GetAmountOfMembers = Inr 2,
      ct_Members = (\<lambda>i. Inr (if i = 0 then (3, ''a'') else (9, ''b''))), ct_Translate = None\<rparr>"

definition sample_hex :: "address \<Rightarrow> string" where
  "sample_hex a = ''0X'' @ ToUpper (EncodeToString (addr_bytes a))"

definition sample_dac_env :: dac_env where
  "sample_dac_env =
     \<lparr>dx_done = (\<lambda>_. False), dx_order = rev, dx_addr_Hex = sample_hex, dx_Sign = (\<lambda>_. Inr [1]),
      dx_SignSequence = (\<lambda>u _ _. Inr (map (\<lambda>c. of_nat (code c)) u)), dx_Signer = (\<lambda>_ s. Inr (if s = [97] then 3 else 9)),
      dx_HashToSign = (\<lambda>_. 4), dx_SignBanana = (\<lambda>_. Inr [1]),
      dx_SignSequenceBanana = (\<lambda>u _ _. Inr (map (\<lambda>c. of_nat (code c)) u)),
      dx_SignerBanana = (\<lambda>_ s. Inr (if s = [97] then 3 else 9))\<rparr>"

definition sample_da_sequence :: SequenceBanana where
  "sample_da_sequence = (NewSequenceBanana [] 7)\<lparr>sq_AccInputHash := 4\<rparr>"

lemma ToUpper_idem: "ToUpper (ToUpper s) = ToUpper s"
  by (auto simp: ToUpper_def code_def)

lemma sample_hex_eip55: "eip55 sample_hex"
proof -
  have "ToUpper ''0X'' = ''0X''" by (simp add: ToUpper_def code_def)
  then show ?thesis unfolding eip55_def sample_hex_def ToUpper_append ToUpper_idem by simp
qed

lemma sample_committee:
  assumes "n < 100"
  shows "getCurrentDataCommittee (sample_contract n) =
    Inr \<lparr>dc_AddressesHash = 5, dc_Members = [\<lparr>dm_Addr = 3, dm_URL = ''a''\<rparr>, \<lparr>dm_Addr = 9, dm_URL = ''b''\<rparr>],
         dc_RequiredSignatures = of_nat n\<rparr>"
  by (simp add: getCurrentDataCommittee_def getCurrentDataCommitteeMembers_def sample_contract_def big_Int64_def numeral_2_eq_2)

theorem committee_message_signed_witness:
  "\<exists>msg. PostSequenceBanana sample_dac_env (sample_contract 2) sample_da_sequence = Ret (Inr msg) \<and>
     signed_message (dx_SignerBanana sample_dac_env (to_da_Sequence sample_da_sequence))
       [\<lparr>dm_Addr = 3, dm_URL = ''a''\<rparr>, \<lparr>dm_Addr = 9, dm_URL = ''b''\<rparr>] 2 msg"
proof -
  note c = sample_committee [of 2, simplified]
  obtain msg where p: "PostSequenceBanana sample_dac_env (sample_contract 2) sample_da_sequence = Ret (Inr msg)"
    by (simp add: PostSequenceBanana_def c Let_def sample_dac_env_def sample_da_sequence_def collectSignatures_def request_all_def
        List.map_filter_simps requestSignatureFromMember_def collect_msgs.simps code_def)
  from committee_message_signed [OF _ _ c _ this] sample_hex_eip55
  have "signed_message (dx_SignerBanana sample_dac_env (to_da_Sequence sample_da_sequence))
       [\<lparr>dm_Addr = 3, dm_URL = ''a''\<rparr>, \<lparr>dm_Addr = 9, dm_URL = ''b''\<rparr>] 2 msg" by (simp add: sample_dac_env_def)
  with p show ?thesis by blast
qed

definition signs :: "(string \<Rightarrow> error + bytes) \<Rightarrow> (bytes \<Rightarrow> error + address) \<Rightarrow> DataCommitteeMember \<Rightarrow> bool" where
  "signs funcSign Signer m \<longleftrightarrow> (\<exists>s. funcSign (dm_URL m) = Inr s \<and> Signer s = Inr (dm_Addr m))"

lemma requests_answered:
  assumes "\<forall>m\<in>set ms. \<not> done m"
  shows "length (List.map_filter (\<lambda>m. requestSignatureFromMember (done m) fs sg m) ms) = length ms"
    and "length (filter good (List.map_filter (\<lambda>m. requestSignatureFromMember (done m) fs sg m) ms)) = length (filter (signs fs sg) ms)"
proof -
  have r: "\<exists>x. requestSignatureFromMember False fs sg m = Some x \<and> (good x \<longleftrightarrow> signs fs sg m)" for m
    using request_cases(4) [of False fs sg m]
    by (auto simp: requestSignatureFromMember_def Let_def signs_def split: sum.splits)
  show "length (List.map_filter (\<lambda>m. requestSignatureFromMember (done m) fs sg m) ms) = length ms"
    "length (filter good (List.map_filter (\<lambda>m. requestSignatureFromMember (done m) fs sg m) ms)) = length (filter (signs fs sg) ms)"
    using assms
  proof (induction ms)
    case (Cons m ms)
    { case 1 with Cons.IH(1) r [of m] show ?case by (auto simp: List.map_filter_simps) }
    { case 2 with Cons.IH(2) r [of m] show ?case by (auto simp: List.map_filter_simps) }
  qed (simp_all add: List.map_filter_simps)
qed

lemma mset_filter_length: "mset xs = mset ys \<Longrightarrow> length (filter P xs) = length (filter P ys)"
  by (metis mset_filter size_mset)

text \<open>C18. Collecting signatures ends: with a committee that is not smaller than the required number of signatures and a context that
  is not cancelled, posting a sequence whose hash matches returns, with a message if at least the required number of members return their own
  signature, and otherwise with the error that too many members failed.\<close>

theorem committee_round_decides:
  assumes "\<forall>ms. mset (dx_order e ms) = mset ms" and "getCurrentDataCommittee c = Inr committee"
    and "length (dc_Members committee) < 2 ^ 62" and "unat (dc_RequiredSignatures committee) \<le> length (dc_Members committee)"
    and "\<forall>m\<in>set (dc_Members committee). \<not> dx_done e m"
    and "dx_HashToSign e (to_da_Sequence s) = sq_AccInputHash s" and "dx_SignBanana e (to_da_Sequence s) = Inr sig"
  shows "if unat (dc_RequiredSignatures committee) \<le>
      length (filter (signs (\<lambda>url. dx_SignSequenceBanana e url (to_da_Sequence s) sig) (dx_SignerBanana e (to_da_Sequence s)))
        (dc_Members committee))
    then \<exists>msg. PostSequenceBanana e c s = Ret (Inr msg) else PostSequenceBanana e c s = Ret (Inl too_many_failed)"
proof -
  let ?fs = "\<lambda>url. dx_SignSequenceBanana e url (to_da_Sequence s) sig" and ?sg = "dx_SignerBanana e (to_da_Sequence s)"
  let ?ch = "request_all e committee ?fs ?sg"
  let ?ms = "List.map_filter (\<lambda>m. requestSignatureFromMember (dx_done e m) ?fs ?sg m) (dc_Members committee)"
  have ch: "mset ?ch = mset ?ms" using assms(1) by (simp add: request_all_def)
  have p: "PostSequenceBanana e c s = collectSignatures (dx_addr_Hex e) committee ?ch"
    using assms(2,6,7) by (simp add: PostSequenceBanana_def Let_def)
  have "length ?ch = length (dc_Members committee)"
    using requests_answered(1) [OF assms(5), of ?fs ?sg] mset_eq_length [OF ch] by simp
  moreover have "length (filter good ?ch) = length (filter (signs ?fs ?sg) (dc_Members committee))"
    using requests_answered(2) [OF assms(5), of ?fs ?sg] mset_filter_length [OF ch, of good] by simp
  ultimately show ?thesis
    using collect_msgs_decides [of 0 0 ?ch committee "[]"] assms(3,4) unfolding p collectSignatures_def by auto
qed

theorem committee_round_decides_witness:
  "PostSequenceBanana (sample_dac_env\<lparr>dx_SignerBanana := (\<lambda>_ _. Inr 3)\<rparr>) (sample_contract 2) sample_da_sequence =
     Ret (Inl too_many_failed)"
  using committee_round_decides [of "sample_dac_env\<lparr>dx_SignerBanana := (\<lambda>_ _. Inr 3)\<rparr>" "sample_contract 2" _ sample_da_sequence "[1]",
      OF _ sample_committee [of 2]]
  by (simp add: sample_dac_env_def sample_da_sequence_def signs_def)

text \<open>A context that is cancelled before the goroutines start leaves the channel empty: posting never returns.\<close>

lemma cancelled_post_blocks:
  assumes "\<forall>ms. mset (dx_order e ms) = mset ms" and "getCurrentDataCommittee c = Inr committee"
    and "\<forall>m\<in>set (dc_Members committee). dx_done e m" and "dc_RequiredSignatures committee \<noteq> 0"
    and "dx_Sign e batchesData = Inr sig"
  shows "PostSequenceElderberry e c batchesData = Blocked"
proof -
  have "List.map_filter (\<lambda>m. requestSignatureFromMember (dx_done e m) fs sg m) ms = []" if "\<forall>m\<in>set ms. dx_done e m" for fs sg ms
    using that by (induction ms) (simp_all add: List.map_filter_simps requestSignatureFromMember_def)
  moreover have "dx_order e [] = []" using assms(1) [rule_format, of "[]"] by simp
  ultimately have "request_all e committee fs sg = []" for fs sg using assms(3) by (simp add: request_all_def)
  then show ?thesis
    using assms(2,4,5) by (simp add: PostSequenceElderberry_def collectSignatures_def collect_msgs.simps word_gt_0)
qed

section \<open>Retrieval\<close>

definition backend_ok :: "Backend \<Rightarrow> bool" where
  "backend_ok d \<longleftrightarrow> bk_committeeMembers d = [] \<or>
     0 \<le> bk_selectedCommitteeMember d \<and> bk_selectedCommitteeMember d < int (length (bk_committeeMembers d))"

definition rand_law :: "(int \<Rightarrow> error + int) \<Rightarrow> bool" where
  "rand_law rand_Int \<longleftrightarrow> (\<forall>n > 0. \<exists>r. rand_Int n = Inr r \<and> 0 \<le> r \<and> r < n)"

abbreviation preimage :: "(hash \<Rightarrow> bytes option) \<Rightarrow> hash \<Rightarrow> bytes" where
  "preimage dataMap h \<equiv> (case dataMap h of None \<Rightarrow> [] | Some b \<Rightarrow> b)"

lemma next_member_simps [simp]:
  "bk_committeeMembers (next_member d) = bk_committeeMembers d"
  "backend_ok (next_member d)"
  by (cases "bk_committeeMembers d"; simp add: next_member_def backend_ok_def)+

lemma bk_Init_ok:
  assumes "rand_law rand_Int" and "backend_ok d"
  shows "backend_ok (fst (bk_Init c rand_Int d))"
proof (cases "getCurrentDataCommittee c")
  case (Inr committee)
  then show ?thesis
    using assms(1) [unfolded rand_law_def, rule_format, of "int (length (dc_Members committee))"]
    by (auto simp: bk_Init_def Let_def backend_ok_def split: sum.splits)
qed (use assms in \<open>simp add: bk_Init_def\<close>)

lemma bk_Init_no_panic:
  assumes "rand_law rand_Int" and "getCurrentDataCommittee c \<noteq> Inl ErrPanic"
  shows "snd (bk_Init c rand_Int d) \<noteq> Some ErrPanic"
proof (cases "getCurrentDataCommittee c")
  case (Inr committee)
  then show ?thesis
    using assms(1) [unfolded rand_law_def, rule_format, of "int (length (dc_Members committee))"]
    by (auto simp: bk_Init_def Let_def split: sum.splits)
qed (use assms(2) in \<open>auto simp: bk_Init_def\<close>)

lemma reload_ok:
  assumes "backend_ok d" and "rand_law rand_Int" and "getCurrentDataCommittee c \<noteq> Inl ErrPanic"
  shows "\<exists>d' x. reload c rand_Int d = (d', Ret (Inl x)) \<and> backend_ok d'"
  using bk_Init_ok [OF assms(2,1), of c] bk_Init_no_panic [OF assms(2,3), of d]
  by (cases "bk_Init c rand_Int d") (auto simp: reload_def split: option.splits)

lemma check_data_spec:
  assumes "check_data K init dataMap hashes d acc = (d', data)" and "backend_ok d"
  shows "\<exists>ds. data = acc @ ds \<and> subseq (map K ds) hashes \<and> backend_ok d' \<and> set ds \<subseteq> preimage dataMap ` set hashes \<and>
    ((\<forall>h\<in>set hashes. K (preimage dataMap h) = h) \<longrightarrow> map K ds = hashes) \<and>
    ((\<exists>h\<in>set hashes. K (preimage dataMap h) \<noteq> h) \<longrightarrow> length ds < length hashes)"
  using assms
proof (induction hashes arbitrary: d acc)
  case (Cons h hashes)
  show ?case
  proof (cases "K (preimage dataMap h) = h")
    case True
    with Cons.prems have "check_data K init dataMap hashes d (acc @ [preimage dataMap h]) = (d', data)" by simp
    from Cons.IH [OF this Cons.prems(2)] obtain ds where
      "data = (acc @ [preimage dataMap h]) @ ds" and ds: "subseq (map K ds) hashes" "backend_ok d'" "set ds \<subseteq> preimage dataMap ` set hashes"
      "(\<forall>h\<in>set hashes. K (preimage dataMap h) = h) \<longrightarrow> map K ds = hashes"
      "(\<exists>h\<in>set hashes. K (preimage dataMap h) \<noteq> h) \<longrightarrow> length ds < length hashes" by blast
    then show ?thesis using True by (intro exI [of _ "preimage dataMap h # ds"]) auto
  next
    case False
    show ?thesis
    proof (cases "bk_selectedCommitteeMember (next_member d) = init")
      case True
      with Cons.prems False show ?thesis by (auto simp: Let_def)
    next
      case n: False
      with False Cons.prems have "check_data K init dataMap hashes (next_member d) acc = (d', data)" by (simp add: Let_def)
      from Cons.IH [OF this] obtain ds where "data = acc @ ds" "subseq (map K ds) hashes" "backend_ok d'"
        "set ds \<subseteq> preimage dataMap ` set hashes" by auto
      then show ?thesis
        using False list_emb_length [of "(=)" "map K ds" hashes] by (intro exI [of _ ds]) auto
    qed
  qed
qed simp

text \<open>The members are asked in cyclic order, and the first that answers decides.\<close>

abbreviation member_url :: "Backend \<Rightarrow> nat \<Rightarrow> string" where
  "member_url d i \<equiv> dm_URL (bk_committeeMembers d ! (i mod length (bk_committeeMembers d)))"

lemma next_wraps:
  assumes "(I :: nat) < n" and "i < n"
  shows "(I + Suc i) mod n = I \<longleftrightarrow> Suc i = n"
proof
  assume I: "(I + Suc i) mod n = I"
  show "Suc i = n"
  proof (rule ccontr)
    assume "Suc i \<noteq> n"
    with assms(2) have "Suc i < n" by simp
    with I have "\<not> I + Suc i < n" by auto
    then have "(I + Suc i) mod n = I + Suc i - n" using le_mod_geq [of n "I + Suc i"] assms(1) \<open>Suc i < n\<close> by simp
    with I \<open>\<not> I + Suc i < n\<close> \<open>Suc i < n\<close> show False by linarith
  qed
qed (use assms(1) in simp)

definition silent :: "(string \<Rightarrow> hash list \<Rightarrow> error + (hash \<Rightarrow> bytes option)) \<Rightarrow> hash list \<Rightarrow> Backend \<Rightarrow> nat \<Rightarrow> bool" where
  "silent L hashes d i \<longleftrightarrow> (\<exists>x. L (member_url d i) hashes = Inl x)"

definition retrieved ::
  "keccak \<Rightarrow> (string \<Rightarrow> hash list \<Rightarrow> error + (hash \<Rightarrow> bytes option)) \<Rightarrow> hash list \<Rightarrow> nat \<Rightarrow> Backend \<Rightarrow> nat \<Rightarrow> Backend \<Rightarrow>
   bytes list option \<Rightarrow> bool"
where
  "retrieved K L hashes I d i d' r \<longleftrightarrow> backend_ok d' \<and>
     (r = None \<longrightarrow> (\<forall>j. i \<le> j \<and> j < length (bk_committeeMembers d) \<longrightarrow> silent L hashes d (I + j))) \<and>
     (\<forall>data. r = Some data \<longrightarrow> (\<exists>j dm d0. i \<le> j \<and> j < length (bk_committeeMembers d) \<and>
        (\<forall>k. i \<le> k \<and> k < j \<longrightarrow> silent L hashes d (I + k)) \<and>
        L (member_url d (I + j)) hashes = Inr dm \<and> backend_ok d0 \<and> check_data K (int I) dm hashes d0 [] = (d', data)))"

lemma retrieved_Suc:
  assumes "retrieved K L hashes I (next_member d) (Suc i) d' r" and "silent L hashes d (I + i)"
  shows "retrieved K L hashes I d i d' r"
proof -
  have nx: "silent L hashes (next_member d) k \<longleftrightarrow> silent L hashes d k" for k by (simp add: silent_def)
  have all: "(\<forall>k. i \<le> k \<and> k < j \<longrightarrow> silent L hashes d (I + k))" if "\<forall>k. Suc i \<le> k \<and> k < j \<longrightarrow> silent L hashes d (I + k)" for j
    using that assms(2) le_neq_implies_less Suc_leI by blast
  show ?thesis
    unfolding retrieved_def
  proof (intro conjI allI impI)
    show "backend_ok d'" using assms(1) by (simp add: retrieved_def)
    show "silent L hashes d (I + j)" if "r = None" "i \<le> j \<and> j < length (bk_committeeMembers d)" for j
      using assms that by (cases "j = i") (simp_all add: retrieved_def nx)
    show "\<exists>j dm d0. i \<le> j \<and> j < length (bk_committeeMembers d) \<and> (\<forall>k. i \<le> k \<and> k < j \<longrightarrow> silent L hashes d (I + k)) \<and>
        L (member_url d (I + j)) hashes = Inr dm \<and> backend_ok d0 \<and> check_data K (int I) dm hashes d0 [] = (d', data)"
      if "r = Some data" for data
    proof -
      from assms(1) that obtain j dm d0 where j: "Suc i \<le> j" "j < length (bk_committeeMembers d)"
        "\<forall>k. Suc i \<le> k \<and> k < j \<longrightarrow> silent L hashes d (I + k)" "L (member_url d (I + j)) hashes = Inr dm" "backend_ok d0"
        "check_data K (int I) dm hashes d0 [] = (d', data)"
        by (auto simp: retrieved_def nx)
      with all [OF j(3)] show ?thesis by (intro exI [of _ j] exI [of _ dm] exI [of _ d0]) simp
    qed
  qed
qed

lemma retrieve_spec:
  assumes "bk_selectedCommitteeMember d = int ((I + i) mod length (bk_committeeMembers d))"
    and "i + k = length (bk_committeeMembers d)" and "I < length (bk_committeeMembers d)"
  shows "\<exists>d' r. retrieve K L (int I) hashes k d = (d', Ret r) \<and> retrieved K L hashes I d i d' r"
  using assms
proof (induction k arbitrary: d i)
  case 0
  then have "backend_ok d" using mod_less_divisor [of "length (bk_committeeMembers d)" "I + i"] by (simp add: backend_ok_def)
  with 0 show ?case by (auto simp: retrieved_def)
next
  case (Suc k)
  let ?n = "length (bk_committeeMembers d)"
  have pos: "0 < ?n" "i < ?n" using Suc.prems by linarith+
  then have ok: "backend_ok d" using Suc.prems(1) by (simp add: backend_ok_def)
  have sel: "\<not> bk_selectedCommitteeMember d < 0" "\<not> int ?n \<le> bk_selectedCommitteeMember d"
    "nat (bk_selectedCommitteeMember d) = (I + i) mod ?n"
    using Suc.prems(1) pos mod_less_divisor [OF pos(1), of "I + i"] by linarith+
  show ?case
  proof (cases "L (member_url d (I + i)) hashes")
    case (Inr dm)
    obtain d' data where c: "check_data K (int I) dm hashes d [] = (d', data)" by fastforce
    moreover have "retrieve K L (int I) hashes (Suc k) d = (d', Ret (Some data))" using Inr sel c by (simp add: Let_def)
    moreover have "backend_ok d'" using check_data_spec [OF c ok] by blast
    ultimately show ?thesis
      using Inr pos(2) ok unfolding retrieved_def
      by (intro exI [of _ d'] exI [of _ "Some data"]) (auto intro!: exI [of _ i])
  next
    case (Inl x)
    have nx: "bk_selectedCommitteeMember (next_member d) = int ((I + Suc i) mod ?n)"
      using Suc.prems(1) by (simp add: next_member_def zmod_int mod_simps) (simp add: add.commute)
    then have eq: "bk_selectedCommitteeMember (next_member d) = int I \<longleftrightarrow> Suc i = ?n"
      using next_wraps [OF Suc.prems(3) pos(2)] by simp
    from Inl have s: "silent L hashes d (I + i)" by (simp add: silent_def)
    show ?thesis
    proof (cases "Suc i = ?n")
      case True
      with eq Inl sel have "retrieve K L (int I) hashes (Suc k) d = (next_member d, Ret None)" by (simp add: Let_def)
      moreover have "j = i" if "i \<le> j" "j < ?n" for j using that True by simp
      ultimately show ?thesis using s by (auto simp: retrieved_def)
    next
      case False
      with eq Inl sel have "retrieve K L (int I) hashes (Suc k) d = retrieve K L (int I) hashes k (next_member d)"
        by (simp add: Let_def)
      with Suc.IH [of "next_member d" "Suc i"] nx Suc.prems(2,3) retrieved_Suc [OF _ s] show ?thesis by auto
    qed
  qed
qed

definition answers :: "(string \<Rightarrow> hash list \<Rightarrow> error + (hash \<Rightarrow> bytes option)) \<Rightarrow> hash list \<Rightarrow> DataCommitteeMember \<Rightarrow> bool" where
  "answers L hashes m \<longleftrightarrow> (\<exists>dm. L (dm_URL m) hashes = Inr dm)"

definition honest ::
  "keccak \<Rightarrow> (string \<Rightarrow> hash list \<Rightarrow> error + (hash \<Rightarrow> bytes option)) \<Rightarrow> hash list \<Rightarrow> DataCommitteeMember \<Rightarrow> bool"
where
  "honest K L hashes m \<longleftrightarrow> (\<forall>dm. L (dm_URL m) hashes = Inr dm \<longrightarrow> (\<forall>h\<in>set hashes. K (preimage dm h) = h))"

lemma cyclic_member:
  assumes "m \<in> set (bk_committeeMembers d)" and "I < length (bk_committeeMembers d)"
  shows "\<exists>j < length (bk_committeeMembers d). bk_committeeMembers d ! ((I + j) mod length (bk_committeeMembers d)) = m"
proof -
  let ?n = "length (bk_committeeMembers d)"
  obtain k where k: "k < ?n" "bk_committeeMembers d ! k = m" using assms(1) by (auto simp: in_set_conv_nth)
  show ?thesis
  proof (cases "I \<le> k")
    case True
    with k show ?thesis by (intro exI [of _ "k - I"]) simp
  next
    case False
    then have "(I + (?n - I + k)) mod ?n = k" using k(1) assms(2) by (simp add: mod_add_self1)
    with k False assms(2) show ?thesis by (intro exI [of _ "?n - I + k"]) simp
  qed
qed

text \<open>The members in the order in which they are asked.\<close>

definition asked :: "Backend \<Rightarrow> nat \<Rightarrow> DataCommitteeMember" where
  "asked d i = bk_committeeMembers d ! ((nat (bk_selectedCommitteeMember d) + i) mod length (bk_committeeMembers d))"

text \<open>The whole retrieval, for a backend that has selected one of its members.\<close>

lemma retrieve_from_start:
  assumes "backend_ok d" and "bk_committeeMembers d \<noteq> []"
  obtains d' r where "retrieve K L (bk_selectedCommitteeMember d) hashes (length (bk_committeeMembers d)) d = (d', Ret r)"
    and "backend_ok d'" and "r = None \<Longrightarrow> \<forall>m\<in>set (bk_committeeMembers d). \<not> answers L hashes m"
    and "\<And>data. r = Some data \<Longrightarrow> \<exists>i<length (bk_committeeMembers d). \<exists>dm. L (dm_URL (asked d i)) hashes = Inr dm \<and>
           (\<forall>j<i. \<not> answers L hashes (asked d j)) \<and> set data \<subseteq> preimage dm ` set hashes \<and> subseq (map K data) hashes \<and>
           (honest K L hashes (asked d i) \<longrightarrow> map K data = hashes) \<and>
           (\<not> honest K L hashes (asked d i) \<longrightarrow> length data < length hashes)"
proof -
  let ?n = "length (bk_committeeMembers d)"
  define I where "I = nat (bk_selectedCommitteeMember d)"
  have I: "bk_selectedCommitteeMember d = int I" "I < ?n" using assms by (auto simp: backend_ok_def I_def)
  obtain d' r where "retrieve K L (int I) hashes ?n d = (d', Ret r)" and c: "retrieved K L hashes I d 0 d' r"
    using retrieve_spec [of d I 0 ?n K L hashes] I by auto
  then have r: "retrieve K L (bk_selectedCommitteeMember d) hashes ?n d = (d', Ret r)" "backend_ok d'"
    by (simp_all add: I(1) retrieved_def)
  have none: "\<forall>j < ?n. \<exists>x. L (member_url d (I + j)) hashes = Inl x" if "r = None"
    using c that by (simp add: retrieved_def silent_def)
  have some: "\<exists>j dm d0. j < ?n \<and> (\<forall>k<j. \<not> answers L hashes (asked d k)) \<and> L (member_url d (I + j)) hashes = Inr dm \<and> backend_ok d0 \<and>
        check_data K (int I) dm hashes d0 [] = (d', data)" if "r = Some data" for data
  proof -
    have sil: "silent L hashes d (I + k) \<Longrightarrow> \<not> answers L hashes (asked d k)" for k
      by (auto simp: silent_def answers_def asked_def I_def)
    from c that obtain j dm d0 where "j < ?n" "\<forall>k<j. silent L hashes d (I + k)" "L (member_url d (I + j)) hashes = Inr dm"
      "backend_ok d0" "check_data K (int I) dm hashes d0 [] = (d', data)" by (auto simp: retrieved_def)
    with sil show ?thesis by blast
  qed
  show thesis
  proof (rule that [OF r])
    assume "r = None"
    with none cyclic_member [OF _ I(2)] show "\<forall>m\<in>set (bk_committeeMembers d). \<not> answers L hashes m"
      by (force simp: answers_def)
  next
    fix data assume "r = Some data"
    from some [OF this] obtain j dm d0 where j: "j < ?n" "\<forall>k<j. \<not> answers L hashes (asked d k)"
      "L (member_url d (I + j)) hashes = Inr dm" "backend_ok d0" "check_data K (int I) dm hashes d0 [] = (d', data)" by metis
    from check_data_spec [OF j(5,4)] have data: "subseq (map K data) hashes" "set data \<subseteq> preimage dm ` set hashes"
      "(\<forall>h\<in>set hashes. K (preimage dm h) = h) \<longrightarrow> map K data = hashes"
      "(\<exists>h\<in>set hashes. K (preimage dm h) \<noteq> h) \<longrightarrow> length data < length hashes" by auto
    have m: "L (dm_URL (asked d j)) hashes = Inr dm" using j(3) by (simp add: asked_def I_def)
    with data j(1,2) show "\<exists>i<?n. \<exists>dm. L (dm_URL (asked d i)) hashes = Inr dm \<and>
        (\<forall>j<i. \<not> answers L hashes (asked d j)) \<and> set data \<subseteq> preimage dm ` set hashes \<and> subseq (map K data) hashes \<and>
        (honest K L hashes (asked d i) \<longrightarrow> map K data = hashes) \<and> (\<not> honest K L hashes (asked d i) \<longrightarrow> length data < length hashes)"
      by (intro exI [of _ j] exI [of _ dm]) (auto simp: honest_def)
  qed
qed

text \<open>C24. Data retrieved from the committee is authentic: the retrieval never indexes outside the members and always returns, with an error
  only if no member answers. Otherwise the first member that answers, in cyclic order from the selected one, decides: all items returned
  come from its answer and hash to a subsequence of the requested hashes, to all of them if the member's answer is right. When
  an item of that answer is wrong, no other member is asked: fewer items than requested are returned, without an error.\<close>

theorem GetSequence_authentic:
  assumes "backend_ok d" and "rand_law rand_Int" and "getCurrentDataCommittee c \<noteq> Inl ErrPanic"
  shows "\<exists>d' r. GetSequence K c rand_Int L hashes d = (d', Ret r) \<and> backend_ok d' \<and>
    (isl r \<longleftrightarrow> (\<forall>m\<in>set (bk_committeeMembers d). \<not> answers L hashes m)) \<and>
    (\<forall>data. r = Inr data \<longrightarrow> (\<exists>i<length (bk_committeeMembers d). \<exists>dm. L (dm_URL (asked d i)) hashes = Inr dm \<and>
       (\<forall>j<i. \<not> answers L hashes (asked d j)) \<and> set data \<subseteq> preimage dm ` set hashes \<and> subseq (map K data) hashes \<and>
       (honest K L hashes (asked d i) \<longrightarrow> map K data = hashes) \<and>
       (\<not> honest K L hashes (asked d i) \<longrightarrow> length data < length hashes)))"
proof (cases "bk_committeeMembers d = []")
  case True
  obtain d' x where "reload c rand_Int d = (d', Ret (Inl x))" "backend_ok d'" using reload_ok [OF assms] by blast
  with True show ?thesis by (auto simp: GetSequence_def)
next
  case False
  obtain d' r where r: "retrieve K L (bk_selectedCommitteeMember d) hashes (length (bk_committeeMembers d)) d = (d', Ret r)"
    "backend_ok d'" and none: "r = None \<Longrightarrow> \<forall>m\<in>set (bk_committeeMembers d). \<not> answers L hashes m"
    and some: "\<And>data. r = Some data \<Longrightarrow> \<exists>i<length (bk_committeeMembers d). \<exists>dm. L (dm_URL (asked d i)) hashes = Inr dm \<and>
         (\<forall>j<i. \<not> answers L hashes (asked d j)) \<and> set data \<subseteq> preimage dm ` set hashes \<and> subseq (map K data) hashes \<and>
         (honest K L hashes (asked d i) \<longrightarrow> map K data = hashes) \<and>
         (\<not> honest K L hashes (asked d i) \<longrightarrow> length data < length hashes)"
    using retrieve_from_start [OF assms(1) False, of K L hashes] by blast
  show ?thesis
  proof (cases r)
    case None
    obtain d2 x where "reload c rand_Int d' = (d2, Ret (Inl x))" "backend_ok d2" using reload_ok [OF r(2) assms(2,3)] by blast
    with None r(1) none [OF None] show ?thesis by (auto simp: GetSequence_def)
  next
    case (Some data)
    with r have g: "GetSequence K c rand_Int L hashes d = (d', Ret (Inr data))" by (simp add: GetSequence_def)
    from some [OF Some] obtain i dm where i: "i < length (bk_committeeMembers d)" "L (dm_URL (asked d i)) hashes = Inr dm"
      by blast
    have "asked d i \<in> set (bk_committeeMembers d)" using i(1) unfolding asked_def by (intro nth_mem mod_less_divisor) linarith
    with i(2) have "\<not> (\<forall>m\<in>set (bk_committeeMembers d). \<not> answers L hashes m)" by (auto simp: answers_def)
    with g some [OF Some] r(2) show ?thesis by simp
  qed
qed

definition sample_backend :: Backend where
  "sample_backend = \<lparr>bk_committeeMembers = [\<lparr>dm_Addr = 3, dm_URL = ''a''\<rparr>, \<lparr>dm_Addr = 9, dm_URL = ''b''\<rparr>],
     bk_selectedCommitteeMember = 1\<rparr>"

text \<open>The selected member does not answer; the other one knows only the first of two items.\<close>

definition sample_offchain :: "string \<Rightarrow> hash list \<Rightarrow> error + (hash \<Rightarrow> bytes option)" where
  "sample_offchain url hashes = (if url = ''b'' then Inl ErrNotFound else Inr (\<lambda>h. if h = 2 then Some [0, 0] else None))"

theorem GetSequence_authentic_witness:
  "\<exists>d' data. GetSequence (\<lambda>bs. of_nat (length bs)) (sample_contract 2) (\<lambda>_. Inr 0) sample_offchain [2, 5] sample_backend =
     (d', Ret (Inr data)) \<and> length data < length [2 :: hash, 5] \<and> backend_ok d'"
proof -
  let ?K = "\<lambda>bs :: bytes. of_nat (length bs) :: hash"
  have "backend_ok sample_backend" "rand_law (\<lambda>_. Inr 0)" "getCurrentDataCommittee (sample_contract 2) \<noteq> Inl ErrPanic"
    using sample_committee [of 2] by (auto simp: backend_ok_def sample_backend_def rand_law_def)
  from GetSequence_authentic [OF this, of ?K sample_offchain "[2, 5]"] obtain d' r where
    g: "GetSequence ?K (sample_contract 2) (\<lambda>_. Inr 0) sample_offchain [2, 5] sample_backend = (d', Ret r)" "backend_ok d'"
    and isl: "isl r \<longleftrightarrow> (\<forall>m\<in>set (bk_committeeMembers sample_backend). \<not> answers sample_offchain [2, 5] m)"
    and l: "\<forall>data. r = Inr data \<longrightarrow> (\<exists>i dm. sample_offchain (dm_URL (asked sample_backend i)) [2, 5] = Inr dm \<and>
        (\<not> honest ?K sample_offchain [2, 5] (asked sample_backend i) \<longrightarrow> length data < length [2 :: hash, 5]))" by blast
  obtain data where data: "r = Inr data" using isl by (cases r) (auto simp: answers_def sample_offchain_def sample_backend_def)
  with l obtain i dm where i: "sample_offchain (dm_URL (asked sample_backend i)) [2, 5] = Inr dm"
    "\<not> honest ?K sample_offchain [2, 5] (asked sample_backend i) \<longrightarrow> length data < length [2 :: hash, 5]" by blast
  from i(1) have "\<not> honest ?K sample_offchain [2, 5] (asked sample_backend i)"
    by (auto simp: honest_def sample_offchain_def split: if_splits)
  with i(2) g data show ?thesis by blast
qed

end
