(* ===== verification/EventParsers.thy ===== *)
theory EventParsers
  imports L1InfoTreeSync Hex
begin

text \<open>
  The log parsers of the two syncers (\<open>src/bridgesync/downloader.go\<close>, \<open>src/l1infotreesync/downloader.go\<close>): one appender per event
  signature, and for claims the search of the transaction's trace for the call that made the claim.

  The generated contract bindings parse a log into the fields of its event, the ABI library unpacks the input
  of a call, and the node returns the trace of a transaction; all of them are arguments.
\<close>

section \<open>Claims in a trace\<close>

datatype call =
  Call (call_To: address) (call_Value: "int option") (call_Err: "string option") (call_Input: bytes) (call_Calls: "call list")

text \<open>The unpacked arguments of a method, by their dynamic type.\<close>

datatype abi_value =
    AbiBig int
  | AbiUint32 u32
  | AbiAddress address
  | AbiHash hash
  | AbiHashes "hash list"
  | AbiBytes bytes

definition methodIDClaimAsset :: bytes where
  "methodIDClaimAsset = [0xcc, 0xaa, 0x2d, 0x11]"

definition methodIDClaimMessage :: bytes where
  "methodIDClaimMessage = [0xf5, 0xef, 0xcd, 0x79]"

definition unexpected_type :: "string \<Rightarrow> error" where
  "unexpected_type s = ErrMsg (''unexpected type for '' @ s)"

text \<open>An argument with its type assertion; indexing behind the last one panics.\<close>

definition arg :: "abi_value list \<Rightarrow> nat \<Rightarrow> string \<Rightarrow> (abi_value \<Rightarrow> 'a option) \<Rightarrow> error + 'a" where
  "arg data i name conv =
     (if i < length data
      then (case conv (data ! i) of None \<Rightarrow> Inl (unexpected_type name) | Some x \<Rightarrow> Inr x) else Inl ErrPanic)"

fun as_Big :: "abi_value \<Rightarrow> int option" where "as_Big (AbiBig n) = Some n" | "as_Big _ = None"
fun as_Uint32 :: "abi_value \<Rightarrow> u32 option" where "as_Uint32 (AbiUint32 n) = Some n" | "as_Uint32 _ = None"
fun as_Hash :: "abi_value \<Rightarrow> hash option" where "as_Hash (AbiHash h) = Some h" | "as_Hash _ = None"
fun as_Bytes :: "abi_value \<Rightarrow> bytes option" where "as_Bytes (AbiBytes b) = Some b" | "as_Bytes _ = None"
fun as_Hashes :: "abi_value \<Rightarrow> hash list option" where
  "as_Hashes (AbiHashes hs) = (if length hs = DefaultHeight then Some hs else None)" | "as_Hashes _ = None"

text \<open>The claim is filled field by field, so that an error leaves the fields set so far.\<close>

definition decodeClaimCallDataAndSetIfFound :: "keccak \<Rightarrow> abi_value list \<Rightarrow> Claim \<Rightarrow> (error + bool) \<times> Claim" where
  "decodeClaimCallDataAndSetIfFound K data claim =
     (case arg data 2 ''actualGlobalIndex'' as_Big of
        Inl x \<Rightarrow> (Inl x, claim)
      | Inr actualGlobalIndex \<Rightarrow>
          (case cl_GlobalIndex claim of
             None \<Rightarrow> (Inl ErrPanic, claim)
           | Some globalIndex \<Rightarrow>
               if actualGlobalIndex \<noteq> globalIndex then (Inr False, claim)
               else case arg data 0 ''proofLERBytes'' as_Hashes of
                 Inl x \<Rightarrow> (Inl x, claim)
               | Inr proofLER \<Rightarrow>
                   (case arg data 1 ''proofRERBytes'' as_Hashes of
                      Inl x \<Rightarrow> (Inl x, claim)
                    | Inr proofRER \<Rightarrow>
                        let claim1 = claim\<lparr>cl_ProofLocalExitRoot := proofLER, cl_ProofRollupExitRoot := proofRER\<rparr> in
                        case arg data 3 ''MainnetExitRoot'' as_Hash of
                          Inl x \<Rightarrow> (Inl x, if x = ErrPanic then claim1 else claim1\<lparr>cl_MainnetExitRoot := 0\<rparr>)
                        | Inr mainnet \<Rightarrow>
                            let claim2 = claim1\<lparr>cl_MainnetExitRoot := mainnet\<rparr> in
                            case arg data 4 ''RollupExitRoot'' as_Hash of
                              Inl x \<Rightarrow> (Inl x, if x = ErrPanic then claim2 else claim2\<lparr>cl_RollupExitRoot := 0\<rparr>)
                            | Inr rollup \<Rightarrow>
                                let claim3 = claim2\<lparr>cl_RollupExitRoot := rollup\<rparr> in
                                case arg data 7 ''DestinationNetwork'' as_Uint32 of
                                  Inl x \<Rightarrow> (Inl x, if x = ErrPanic then claim3 else claim3\<lparr>cl_DestinationNetwork := 0\<rparr>)
                                | Inr network \<Rightarrow>
                                    let claim4 = claim3\<lparr>cl_DestinationNetwork := network\<rparr> in
                                    case arg data 10 ''claim Metadata'' as_Bytes of
                                      Inl x \<Rightarrow> (Inl x, if x = ErrPanic then claim4 else claim4\<lparr>cl_Metadata := []\<rparr>)
                                    | Inr metadata \<Rightarrow>
                                        (Inr True, claim4\<lparr>cl_Metadata := metadata,
                                           cl_GlobalExitRoot := K (hash_bytes mainnet @ hash_bytes rollup)\<rparr>))))"

text \<open>The ABI: the argument decoder of a method, by the four bytes of its identifier.\<close>

type_synonym abi_lib = "error + (bytes \<Rightarrow> error + (bytes \<Rightarrow> error + abi_value list))"

definition setClaimIfFoundOnInput :: "keccak \<Rightarrow> abi_lib \<Rightarrow> bytes \<Rightarrow> Claim \<Rightarrow> (error + bool) \<times> Claim" where
  "setClaimIfFoundOnInput K abi input claim =
     (case abi of
        Inl x \<Rightarrow> (Inl x, claim)
      | Inr MethodById \<Rightarrow>
          if length input < 4 then (Inl ErrPanic, claim)
          else
            let methodID = take 4 input in
            case MethodById methodID of
              Inl x \<Rightarrow> (Inl x, claim)
            | Inr Unpack \<Rightarrow>
                (case Unpack (drop 4 input) of
                   Inl x \<Rightarrow> (Inl x, claim)
                 | Inr data \<Rightarrow>
                     if methodID = methodIDClaimAsset \<or> methodID = methodIDClaimMessage
                     then (case decodeClaimCallDataAndSetIfFound K data claim of
                             (Inr True, claim1) \<Rightarrow>
                               (Inr True, if methodID = methodIDClaimMessage then claim1\<lparr>cl_IsMessage := True\<rparr> else claim1)
                           | r \<Rightarrow> r)
                     else (Inr False, claim)))"

lemma children_smaller: "sum_list (map size (rev (call_Calls c))) < size c"
  by (cases c) (simp add: size_list_conv_sum_list flip: rev_map)

text \<open>The search with a stack: the calls made by a call are pushed in order, so that the last is visited first.\<close>

function find_claim :: "keccak \<Rightarrow> abi_lib \<Rightarrow> address \<Rightarrow> call list \<Rightarrow> Claim \<Rightarrow> error option \<times> Claim" where
  "find_claim K abi bridge [] claim = (Some ErrNotFound, claim)"
| "find_claim K abi bridge (currentCall # callStack) claim =
     (if call_To currentCall = bridge
      then (case setClaimIfFoundOnInput K abi (call_Input currentCall) claim of
              (Inl x, claim1) \<Rightarrow> (Some x, claim1)
            | (Inr True, claim1) \<Rightarrow> (None, claim1)
            | (Inr False, claim1) \<Rightarrow> find_claim K abi bridge (rev (call_Calls currentCall) @ callStack) claim1)
      else find_claim K abi bridge (rev (call_Calls currentCall) @ callStack) claim)"
  by pat_completeness auto
termination
  by (relation "measure (\<lambda>(K, abi, bridge, st, claim). sum_list (map size st))") (auto simp: children_smaller)

definition setClaimCalldata ::
  "keccak \<Rightarrow> abi_lib \<Rightarrow> (hash \<Rightarrow> error + call) \<Rightarrow> address \<Rightarrow> hash \<Rightarrow> Claim \<Rightarrow> error option \<times> Claim"
where
  "setClaimCalldata K abi traceTransaction bridge txHash claim =
     (case traceTransaction txHash of
        Inl x \<Rightarrow> (Some x, claim)
      | Inr c \<Rightarrow> find_claim K abi bridge [c] claim)"

section \<open>Appenders of the bridge syncer\<close>

record log_payload =
  lg_Index :: u64
  lg_TxHash :: hash
  lg_Words :: bytes

record BridgeEvent =
  bg_LeafType :: u8
  bg_OriginNetwork :: u32
  bg_OriginAddress :: address
  bg_DestinationNetwork :: u32
  bg_DestinationAddress :: address
  bg_Amount :: int
  bg_Metadata :: bytes
  bg_DepositCount :: u32

record ClaimEvent =
  ce_GlobalIndex :: int
  ce_OriginNetwork :: u32
  ce_OriginAddress :: address
  ce_DestinationAddress :: address
  ce_Amount :: int

record ClaimEventV1 =
  cv_Index :: u32
  cv_OriginNetwork :: u32
  cv_OriginAddress :: address
  cv_DestinationAddress :: address
  cv_Amount :: int

record bridge_parsers =
  bx_ParseBridgeEvent :: "log_payload Log \<Rightarrow> error + BridgeEvent"
  bx_ParseClaimEvent :: "log_payload Log \<Rightarrow> error + ClaimEvent"
  bx_ParseClaimEventV1 :: "log_payload Log \<Rightarrow> error + ClaimEventV1"
  bx_abi :: abi_lib
  bx_traceTransaction :: "hash \<Rightarrow> error + call"

type_synonym 'e appender = "'e EVMBlock \<Rightarrow> log_payload Log \<Rightarrow> error + 'e EVMBlock"

definition add_event :: "'e \<Rightarrow> 'e EVMBlock \<Rightarrow> 'e EVMBlock" where
  "add_event e b = b\<lparr>eb_Events := eb_Events b @ [e]\<rparr>"

definition append_bridge :: "bridge_parsers \<Rightarrow> bridge_item appender" where
  "append_bridge X b l =
     (case bx_ParseBridgeEvent X l of
        Inl x \<Rightarrow> Inl x
      | Inr e \<Rightarrow>
          Inr (add_event (BridgeItem \<lparr>ev_Pos = 0,
            ev_Bridge = Some \<lparr>br_BlockNum = h_Num (eb_Header b), br_BlockPos = lg_Index (log_Data l), br_LeafType = bg_LeafType e,
              br_OriginNetwork = bg_OriginNetwork e, br_OriginAddress = bg_OriginAddress e,
              br_DestinationNetwork = bg_DestinationNetwork e, br_DestinationAddress = bg_DestinationAddress e,
              br_Amount = Some (bg_Amount e), br_Metadata = bg_Metadata e, br_DepositCount = bg_DepositCount e\<rparr>,
            ev_Claim = None\<rparr>) b))"

text \<open>A claim as its event describes it; the other fields have their zero values.\<close>

definition event_claim :: "u64 \<Rightarrow> u64 \<Rightarrow> int \<Rightarrow> u32 \<Rightarrow> address \<Rightarrow> address \<Rightarrow> int \<Rightarrow> Claim" where
  "event_claim num pos globalIndex net orig dest amount =
     \<lparr>cl_BlockNum = num, cl_BlockPos = pos, cl_GlobalIndex = Some globalIndex, cl_OriginNetwork = net,
      cl_OriginAddress = orig, cl_DestinationAddress = dest, cl_Amount = Some amount,
      cl_ProofLocalExitRoot = EmptyProof, cl_ProofRollupExitRoot = EmptyProof, cl_MainnetExitRoot = 0, cl_RollupExitRoot = 0,
      cl_GlobalExitRoot = 0, cl_DestinationNetwork = 0, cl_Metadata = [], cl_IsMessage = False\<rparr>"

definition finish_claim ::
  "keccak \<Rightarrow> bridge_parsers \<Rightarrow> address \<Rightarrow> bool \<Rightarrow> Claim \<Rightarrow> bridge_item appender"
where
  "finish_claim K X bridge syncFullClaims claim b l =
     (if syncFullClaims
      then (case setClaimCalldata K (bx_abi X) (bx_traceTransaction X) bridge (lg_TxHash (log_Data l)) claim of
              (Some x, _) \<Rightarrow> Inl x
            | (None, claim1) \<Rightarrow> Inr (add_event (BridgeItem \<lparr>ev_Pos = 0, ev_Bridge = None, ev_Claim = Some claim1\<rparr>) b))
      else Inr (add_event (BridgeItem \<lparr>ev_Pos = 0, ev_Bridge = None, ev_Claim = Some claim\<rparr>) b))"

definition append_claim :: "keccak \<Rightarrow> bridge_parsers \<Rightarrow> address \<Rightarrow> bool \<Rightarrow> bridge_item appender" where
  "append_claim K X bridge syncFullClaims b l =
     (case bx_ParseClaimEvent X l of
        Inl x \<Rightarrow> Inl x
      | Inr e \<Rightarrow>
          finish_claim K X bridge syncFullClaims
            (event_claim (h_Num (eb_Header b)) (lg_Index (log_Data l)) (ce_GlobalIndex e) (ce_OriginNetwork e)
               (ce_OriginAddress e) (ce_DestinationAddress e) (ce_Amount e)) b l)"

definition append_claim_pre_etrog :: "keccak \<Rightarrow> bridge_parsers \<Rightarrow> address \<Rightarrow> bool \<Rightarrow> bridge_item appender" where
  "append_claim_pre_etrog K X bridge syncFullClaims b l =
     (case bx_ParseClaimEventV1 X l of
        Inl x \<Rightarrow> Inl x
      | Inr e \<Rightarrow>
          finish_claim K X bridge syncFullClaims
            (event_claim (h_Num (eb_Header b)) (lg_Index (log_Data l)) (uint (cv_Index e)) (cv_OriginNetwork e)
               (cv_OriginAddress e) (cv_DestinationAddress e) (cv_Amount e)) b l)"

definition bridgeEventSignature :: "keccak \<Rightarrow> hash" where
  "bridgeEventSignature K = K (ascii ''BridgeEvent(uint8,uint32,address,uint32,address,uint256,bytes,uint32)'')"

definition claimEventSignature :: "keccak \<Rightarrow> hash" where
  "claimEventSignature K = K (ascii ''ClaimEvent(uint256,uint32,address,address,uint256)'')"

definition claimEventSignaturePreEtrog :: "keccak \<Rightarrow> hash" where
  "claimEventSignaturePreEtrog K = K (ascii ''ClaimEvent(uint32,uint32,address,address,uint256)'')"

text \<open>The map of appenders; a later assignment to the same signature replaces an earlier one.\<close>

definition bridge_appender :: "keccak \<Rightarrow> bridge_parsers \<Rightarrow> address \<Rightarrow> bool \<Rightarrow> hash \<Rightarrow> bridge_item appender option" where
  "bridge_appender K X bridge syncFullClaims =
     (\<lambda>_. None)(bridgeEventSignature K := Some (append_bridge X),
       claimEventSignature K := Some (append_claim K X bridge syncFullClaims),
       claimEventSignaturePreEtrog K := Some (append_claim_pre_etrog K X bridge syncFullClaims))"

section \<open>Appenders of the L1 info tree syncer\<close>

record l1_parsers =
  lx_BridgeAddress :: "error + address"
  lx_DepositCount :: "error + int"
  lx_ParseInitL1InfoRootMap :: "log_payload Log \<Rightarrow> error + InitL1InfoRootMap"
  lx_ParseUpdateL1InfoTree :: "log_payload Log \<Rightarrow> error + hash \<times> hash"
  lx_ParseUpdateL1InfoTreeV2 :: "log_payload Log \<Rightarrow> error + hash \<times> u32 \<times> int \<times> u64"
  lx_ParseVerifyBatches :: "log_payload Log \<Rightarrow> error + u32 \<times> u64 \<times> hash \<times> hash \<times> address"
  lx_ParseVerifyBatchesTrustedAggregator :: "log_payload Log \<Rightarrow> error + u32 \<times> u64 \<times> hash \<times> hash \<times> address"

definition checkSMCIsRollupManager :: "l1_parsers \<Rightarrow> error option" where
  "checkSMCIsRollupManager X = (case lx_BridgeAddress X of Inl x \<Rightarrow> Some x | Inr _ \<Rightarrow> None)"

definition checkSMCIsGlobalExitRoot :: "l1_parsers \<Rightarrow> error option" where
  "checkSMCIsGlobalExitRoot X = (case lx_DepositCount X of Inl x \<Rightarrow> Some x | Inr _ \<Rightarrow> None)"

definition sanity_error :: error where
  "sanity_error = ErrMsg ''sanityCheckContracts: fails sanity check contracts''"

definition sanityCheckContracts :: "l1_parsers \<Rightarrow> error option" where
  "sanityCheckContracts X =
     (if checkSMCIsGlobalExitRoot X \<noteq> None \<or> checkSMCIsRollupManager X \<noteq> None then Some sanity_error else None)"

abbreviation no_l1_event :: l1_Event where
  "no_l1_event \<equiv> \<lparr>le_UpdateL1InfoTree = None, le_UpdateL1InfoTreeV2 = None, le_VerifyBatches = None, le_InitL1InfoRootMap = None\<rparr>"

definition append_init :: "l1_parsers \<Rightarrow> l1_item appender" where
  "append_init X b l =
     map_sum id (\<lambda>i. add_event (L1Item (no_l1_event\<lparr>le_InitL1InfoRootMap := Some i\<rparr>)) b) (lx_ParseInitL1InfoRootMap X l)"

definition append_update :: "l1_parsers \<Rightarrow> l1_item appender" where
  "append_update X b l =
     map_sum id (\<lambda>(mainnet, rollup). add_event (L1Item (no_l1_event\<lparr>le_UpdateL1InfoTree :=
         Some \<lparr>u_BlockPosition = lg_Index (log_Data l), u_MainnetExitRoot = mainnet, u_RollupExitRoot = rollup,
               u_ParentHash = h_ParentHash (eb_Header b), u_Timestamp = h_Timestamp (eb_Header b)\<rparr>\<rparr>)) b)
       (lx_ParseUpdateL1InfoTree X l)"

text \<open>\<open>common.BytesToHash(Blockhash.Bytes())\<close> keeps the low 256 bits of the number.\<close>

definition append_update_v2 :: "l1_parsers \<Rightarrow> l1_item appender" where
  "append_update_v2 X b l =
     map_sum id (\<lambda>(root, leafCount, blockhash, minTimestamp). add_event (L1Item (no_l1_event\<lparr>le_UpdateL1InfoTreeV2 :=
         Some \<lparr>u2_CurrentL1InfoRoot = root, u2_LeafCount = leafCount, u2_Blockhash = of_int \<bar>blockhash\<bar>,
               u2_MinTimestamp = minTimestamp\<rparr>\<rparr>)) b)
       (lx_ParseUpdateL1InfoTreeV2 X l)"

definition append_verify ::
  "(log_payload Log \<Rightarrow> error + u32 \<times> u64 \<times> hash \<times> hash \<times> address) \<Rightarrow> l1_item appender"
where
  "append_verify parse b l =
     map_sum id (\<lambda>(rollupID, numBatch, stateRoot, exitRoot, agg). add_event (L1Item (no_l1_event\<lparr>le_VerifyBatches :=
         Some \<lparr>vb_BlockNumber = 0, vb_BlockPosition = lg_Index (log_Data l), vb_RollupID = rollupID, vb_NumBatch = numBatch,
               vb_StateRoot = stateRoot, vb_ExitRoot = exitRoot, vb_Aggregator = agg, vb_RollupExitRoot = 0\<rparr>\<rparr>)) b)
       (parse l)"

definition l1_signature :: "keccak \<Rightarrow> string \<Rightarrow> hash" where
  "l1_signature K s = K (ascii s)"

definition FlagAllowWrongContractsAddrs :: u64 where
  "FlagAllowWrongContractsAddrs = 8"

definition l1_buildAppender :: "keccak \<Rightarrow> l1_parsers \<Rightarrow> u64 \<Rightarrow> error + (hash \<Rightarrow> l1_item appender option)" where
  "l1_buildAppender K X flags =
     (if sanityCheckContracts X \<noteq> None \<and> and flags FlagAllowWrongContractsAddrs = 0 then Inl sanity_error
      else Inr ((\<lambda>_. None)(
        l1_signature K ''InitL1InfoRootMap(uint32,bytes32)'' := Some (append_init X),
        l1_signature K ''UpdateL1InfoTree(bytes32,bytes32)'' := Some (append_update X),
        l1_signature K ''UpdateL1InfoTreeV2(bytes32,uint32,uint256,uint64)'' := Some (append_update_v2 X),
        l1_signature K ''VerifyBatches(uint32,uint64,bytes32,bytes32,address)'' := Some (append_verify (lx_ParseVerifyBatches X)),
        l1_signature K ''VerifyBatchesTrustedAggregator(uint32,uint64,bytes32,bytes32,address)'' :=
          Some (append_verify (lx_ParseVerifyBatchesTrustedAggregator X)))))"

section \<open>The claim that is found\<close>

text \<open>The calls of a trace in the order of the search.\<close>

fun visited :: "call \<Rightarrow> call list" where
  "visited (Call to v e i cs) = Call to v e i cs # concat (rev (map visited cs))"

lemma visited_eq: "visited c = c # concat (map visited (rev (call_Calls c)))"
  by (cases c) (simp add: rev_map)

lemma decode_not_found: "decodeClaimCallDataAndSetIfFound K data claim = (Inr False, claim1) \<Longrightarrow> claim1 = claim"
  by (auto simp: decodeClaimCallDataAndSetIfFound_def Let_def split: sum.splits option.splits if_splits)

lemma input_not_found: "setClaimIfFoundOnInput K abi inp claim = (Inr False, claim1) \<Longrightarrow> claim1 = claim"
  by (auto simp: setClaimIfFoundOnInput_def Let_def dest: decode_not_found split: sum.splits option.splits if_splits prod.splits bool.splits)

text \<open>A call decides the search unless it is not to the bridge or belongs to another claim.\<close>

definition decides :: "keccak \<Rightarrow> abi_lib \<Rightarrow> address \<Rightarrow> Claim \<Rightarrow> call \<Rightarrow> bool" where
  "decides K abi bridge claim c \<longleftrightarrow>
     call_To c = bridge \<and> fst (setClaimIfFoundOnInput K abi (call_Input c) claim) \<noteq> Inr False"

definition outcome_of :: "(error + bool) \<times> Claim \<Rightarrow> error option \<times> Claim" where
  "outcome_of r = (case r of (Inl x, claim) \<Rightarrow> (Some x, claim) | (Inr _, claim) \<Rightarrow> (None, claim))"

text \<open>The loop over the stack is a search of the visited calls for the first that decides.\<close>

lemma find_claim_search:
  "find_claim K abi bridge st claim =
     (case find (decides K abi bridge claim) (concat (map visited st)) of
        None \<Rightarrow> (Some ErrNotFound, claim)
      | Some c \<Rightarrow> outcome_of (setClaimIfFoundOnInput K abi (call_Input c) claim))"
proof (induction K abi bridge st claim rule: find_claim.induct)
  case (2 K abi bridge c st claim)
  have v: "concat (map visited (c # st)) = c # concat (map visited (rev (call_Calls c) @ st))"
    by (subst list.map) (simp add: visited_eq [of c])
  show ?case
  proof (cases "decides K abi bridge claim c")
    case True
    then show ?thesis unfolding v by (auto simp: decides_def outcome_of_def split: prod.splits sum.splits bool.splits)
  next
    case False
    let ?rest = "find_claim K abi bridge (rev (call_Calls c) @ st) claim"
    from False have nf: "setClaimIfFoundOnInput K abi (call_Input c) claim = (Inr False, claim)" if "call_To c = bridge"
      using that input_not_found by (metis decides_def prod.collapse)
    then have "find_claim K abi bridge (c # st) claim = ?rest" by simp
    moreover have "?rest = (case find (decides K abi bridge claim) (concat (map visited (rev (call_Calls c) @ st))) of
        None \<Rightarrow> (Some ErrNotFound, claim)
      | Some c \<Rightarrow> outcome_of (setClaimIfFoundOnInput K abi (call_Input c) claim))"
    proof (cases "call_To c = bridge")
      case True
      from 2(1) [OF True nf [OF True, symmetric]] show ?thesis by blast
    next
      case False
      from 2(2) [OF False] show ?thesis .
    qed
    ultimately show ?thesis unfolding v using False by simp
  qed
qed simp

text \<open>What the calldata of a claim contributes to the stored claim.\<close>

definition claim_with_calldata :: "keccak \<Rightarrow> bytes \<Rightarrow> abi_value list \<Rightarrow> Claim \<Rightarrow> Claim \<Rightarrow> bool" where
  "claim_with_calldata K methodID data claim claim1 \<longleftrightarrow>
     (\<exists>n proofLER proofRER mainnet rollup network metadata. cl_GlobalIndex claim = Some n \<and> 10 < length data \<and>
        data ! 0 = AbiHashes proofLER \<and> length proofLER = DefaultHeight \<and>
        data ! 1 = AbiHashes proofRER \<and> length proofRER = DefaultHeight \<and> data ! 2 = AbiBig n \<and>
        data ! 3 = AbiHash mainnet \<and> data ! 4 = AbiHash rollup \<and> data ! 7 = AbiUint32 network \<and> data ! 10 = AbiBytes metadata \<and>
        claim1 = claim\<lparr>cl_ProofLocalExitRoot := proofLER, cl_ProofRollupExitRoot := proofRER, cl_MainnetExitRoot := mainnet,
          cl_RollupExitRoot := rollup, cl_DestinationNetwork := network, cl_Metadata := metadata,
          cl_GlobalExitRoot := K (hash_bytes mainnet @ hash_bytes rollup),
          cl_IsMessage := (cl_IsMessage claim \<or> methodID = methodIDClaimMessage)\<rparr>)"

lemma as_Some:
  "as_Big v = Some n \<Longrightarrow> v = AbiBig n" "as_Uint32 v = Some w \<Longrightarrow> v = AbiUint32 w" "as_Hash v = Some h \<Longrightarrow> v = AbiHash h"
  "as_Bytes v = Some b \<Longrightarrow> v = AbiBytes b" "as_Hashes v = Some hs \<Longrightarrow> v = AbiHashes hs \<and> length hs = DefaultHeight"
  by (cases v; simp split: if_splits)+

lemma arg_Inr: "arg data i nm conv = Inr x \<longleftrightarrow> i < length data \<and> conv (data ! i) = Some x"
  by (auto simp: arg_def split: option.splits)

lemma decode_found:
  assumes "decodeClaimCallDataAndSetIfFound K data claim = (Inr True, claim1)"
  shows "claim_with_calldata K [] data claim claim1"
  using assms
  by (auto simp: decodeClaimCallDataAndSetIfFound_def claim_with_calldata_def Let_def arg_Inr methodIDClaimMessage_def
      dest!: as_Some split: sum.splits option.splits if_splits)

lemma input_found:
  assumes "setClaimIfFoundOnInput K abi inp claim = (Inr True, claim1)"
  shows "\<exists>meth unpack data. abi = Inr meth \<and> 4 \<le> length inp \<and> meth (take 4 inp) = Inr unpack \<and> unpack (drop 4 inp) = Inr data \<and>
    (take 4 inp = methodIDClaimAsset \<or> take 4 inp = methodIDClaimMessage) \<and> claim_with_calldata K (take 4 inp) data claim claim1"
proof -
  from assms obtain meth unpack data where m: "abi = Inr meth" "4 \<le> length inp" "meth (take 4 inp) = Inr unpack"
    "unpack (drop 4 inp) = Inr data" "take 4 inp = methodIDClaimAsset \<or> take 4 inp = methodIDClaimMessage"
    by (auto simp: setClaimIfFoundOnInput_def Let_def not_less split: sum.splits if_splits)
  with assms obtain claim0 where d: "decodeClaimCallDataAndSetIfFound K data claim = (Inr True, claim0)"
    and c: "claim1 = (if take 4 inp = methodIDClaimMessage then claim0\<lparr>cl_IsMessage := True\<rparr> else claim0)"
    by (auto simp: setClaimIfFoundOnInput_def Let_def split: prod.splits sum.splits bool.splits)
  from decode_found [OF d] have "claim_with_calldata K (take 4 inp) data claim claim1"
    unfolding claim_with_calldata_def by (elim exE) (simp add: c methodIDClaimMessage_def)
  with m show ?thesis by blast
qed

text \<open>The arguments the ABI finds in the input of a call.\<close>

definition call_data :: "abi_lib \<Rightarrow> bytes \<Rightarrow> abi_value list option" where
  "call_data abi inp =
     (case abi of
        Inl _ \<Rightarrow> None
      | Inr meth \<Rightarrow>
          if length inp < 4 then None
          else (case meth (take 4 inp) of
                  Inl _ \<Rightarrow> None
                | Inr unpack \<Rightarrow> (case unpack (drop 4 inp) of Inl _ \<Rightarrow> None | Inr data \<Rightarrow> Some data)))"

definition claim_method :: "bytes \<Rightarrow> bool" where
  "claim_method inp \<longleftrightarrow> take 4 inp = methodIDClaimAsset \<or> take 4 inp = methodIDClaimMessage"

text \<open>
  \<open>makes_claim c\<close>: the call is to the bridge, to one of the two claim methods, with the global index of the event, whether or not it succeeded.
\<close>

definition makes_claim :: "keccak \<Rightarrow> abi_lib \<Rightarrow> address \<Rightarrow> Claim \<Rightarrow> call \<Rightarrow> Claim \<Rightarrow> bool" where
  "makes_claim K abi bridge claim c claim1 \<longleftrightarrow>
     call_To c = bridge \<and> claim_method (call_Input c) \<and>
     (\<exists>data. call_data abi (call_Input c) = Some data \<and> claim_with_calldata K (take 4 (call_Input c)) data claim claim1)"

text \<open>A call can be decoded: the ABI knows the method and finds its arguments, those of a claim with the types of a claim.\<close>

definition claim_arguments :: "abi_value list \<Rightarrow> bool" where
  "claim_arguments data \<longleftrightarrow> 10 < length data \<and>
     (\<exists>proofLER proofRER n mainnet rollup network metadata.
        data ! 0 = AbiHashes proofLER \<and> length proofLER = DefaultHeight \<and> data ! 1 = AbiHashes proofRER \<and> length proofRER = DefaultHeight \<and>
        data ! 2 = AbiBig n \<and> data ! 3 = AbiHash mainnet \<and> data ! 4 = AbiHash rollup \<and> data ! 7 = AbiUint32 network \<and>
        data ! 10 = AbiBytes metadata)"

definition decodable :: "abi_lib \<Rightarrow> bytes \<Rightarrow> bool" where
  "decodable abi inp \<longleftrightarrow> (\<exists>data. call_data abi inp = Some data \<and> (claim_method inp \<longrightarrow> claim_arguments data))"

lemma call_data_Some:
  "call_data abi inp = Some data \<longleftrightarrow>
     (\<exists>meth unpack. abi = Inr meth \<and> 4 \<le> length inp \<and> meth (take 4 inp) = Inr unpack \<and> unpack (drop 4 inp) = Inr data)"
  by (auto simp: call_data_def not_less split: sum.splits if_splits)

lemma decode_claim:
  "claim_with_calldata K m data claim claim1 \<Longrightarrow>
   decodeClaimCallDataAndSetIfFound K data claim = (Inr True, claim1\<lparr>cl_IsMessage := cl_IsMessage claim\<rparr>)"
  by (auto simp: decodeClaimCallDataAndSetIfFound_def claim_with_calldata_def arg_def)

lemma decode_total:
  assumes "claim_arguments data" and "cl_GlobalIndex claim = Some n"
  obtains b claim1 where "decodeClaimCallDataAndSetIfFound K data claim = (Inr b, claim1)"
  using assms by (fastforce simp: decodeClaimCallDataAndSetIfFound_def claim_arguments_def arg_def)

lemma input_makes_claim:
  "call_To c = bridge \<and> setClaimIfFoundOnInput K abi (call_Input c) claim = (Inr True, claim1) \<longleftrightarrow>
   makes_claim K abi bridge claim c claim1"
proof
  assume "makes_claim K abi bridge claim c claim1"
  then obtain data where to: "call_To c = bridge" and m: "claim_method (call_Input c)" and d: "call_data abi (call_Input c) = Some data"
    and w: "claim_with_calldata K (take 4 (call_Input c)) data claim claim1" by (auto simp: makes_claim_def)
  have "claim1 = claim1\<lparr>cl_IsMessage := (cl_IsMessage claim \<or> take 4 (call_Input c) = methodIDClaimMessage)\<rparr>"
    using w by (auto simp: claim_with_calldata_def)
  with to m d decode_claim [OF w]
  show "call_To c = bridge \<and> setClaimIfFoundOnInput K abi (call_Input c) claim = (Inr True, claim1)"
    by (auto simp: setClaimIfFoundOnInput_def call_data_Some claim_method_def Let_def)
qed (auto simp: makes_claim_def claim_method_def call_data_Some dest!: input_found)

lemma input_decodable:
  assumes "decodable abi inp" and "cl_GlobalIndex claim = Some n"
  obtains b claim1 where "setClaimIfFoundOnInput K abi inp claim = (Inr b, claim1)"
proof -
  from assms(1) obtain data where d: "call_data abi inp = Some data" "claim_method inp \<longrightarrow> claim_arguments data"
    by (auto simp: decodable_def)
  show ?thesis
  proof (cases "claim_method inp")
    case True
    then obtain b claim1 where "decodeClaimCallDataAndSetIfFound K data claim = (Inr b, claim1)"
      using decode_total [OF _ assms(2)] d(2) by blast
    with d(1) True that show ?thesis
      by (cases b) (auto simp: setClaimIfFoundOnInput_def call_data_Some claim_method_def Let_def)
  next
    case False
    with d(1) that show ?thesis by (auto simp: setClaimIfFoundOnInput_def call_data_Some claim_method_def Let_def)
  qed
qed

text \<open>C23. The calldata of a claim is found: in a trace in which every call to the bridge can be decoded, the search succeeds exactly if some
  call makes the claim of the event: a call to the bridge, to \<open>claimAsset\<close> or \<open>claimMessage\<close>, with the global index of the event. The
  stored claim is then the one of the event, with the proofs, exit roots, destination network and metadata of the calldata of the
  first such call in the order of the search, the global exit root hashed from the two exit roots, and the
  mark of a message for \<open>claimMessage\<close>.\<close>

theorem claim_calldata_found:
  assumes "trace txHash = Inr root" and "cl_GlobalIndex claim = Some n"
    and "\<forall>c\<in>set (visited root). call_To c = bridge \<longrightarrow> decodable abi (call_Input c)"
  shows "case setClaimCalldata K abi trace bridge txHash claim of
      (None, claim1) \<Rightarrow> \<exists>i<length (visited root). makes_claim K abi bridge claim (visited root ! i) claim1 \<and>
        (\<forall>j<i. \<forall>claim'. \<not> makes_claim K abi bridge claim (visited root ! j) claim')
    | (Some x, claim1) \<Rightarrow> x = ErrNotFound \<and> claim1 = claim \<and> (\<forall>c\<in>set (visited root). \<forall>claim'. \<not> makes_claim K abi bridge claim c claim')"
proof -
  have no: "\<not> makes_claim K abi bridge claim c claim'" if "\<not> decides K abi bridge claim c" for c claim'
    using that by (auto simp: decides_def simp flip: input_makes_claim)
  show ?thesis
  proof (cases "find (decides K abi bridge claim) (visited root)")
    case None
    then have "\<forall>c\<in>set (visited root). \<not> decides K abi bridge claim c" by (simp add: find_None_iff)
    with None no assms(1) show ?thesis by (simp add: setClaimCalldata_def find_claim_search)
  next
    case (Some c)
    then obtain i where i: "i < length (visited root)" "c = visited root ! i" "decides K abi bridge claim c"
      "\<forall>j<i. \<not> decides K abi bridge claim (visited root ! j)" by (auto simp: find_Some_iff)
    then have "decodable abi (call_Input c)" using assms(3) by (auto simp: decides_def)
    then obtain b claim1 where "setClaimIfFoundOnInput K abi (call_Input c) claim = (Inr b, claim1)"
      by (rule input_decodable [OF _ assms(2)])
    with i(3) have f: "setClaimIfFoundOnInput K abi (call_Input c) claim = (Inr True, claim1)" by (auto simp: decides_def)
    have "setClaimCalldata K abi trace bridge txHash claim = (None, claim1)"
      using assms(1) Some f by (simp add: setClaimCalldata_def find_claim_search outcome_of_def)
    moreover have "makes_claim K abi bridge claim c claim1" using f i(3) by (auto simp: decides_def simp flip: input_makes_claim)
    ultimately show ?thesis using i no by auto
  qed
qed

definition sample_claim_data :: "abi_value list" where
  "sample_claim_data = [AbiHashes (replicate 32 1), AbiHashes (replicate 32 2), AbiBig 7, AbiHash 3, AbiHash 4, AbiUint32 0,
     AbiAddress 5, AbiUint32 6, AbiAddress 8, AbiBig 9, AbiBytes [1, 2]]"

definition sample_abi :: abi_lib where
  "sample_abi = Inr (\<lambda>i. if i = methodIDClaimAsset then Inr (\<lambda>_. Inr sample_claim_data) else Inl (ErrMsg ''no method with id''))"

definition sample_trace :: call where
  "sample_trace = Call 50 None None [] [Call 40 None None [0xcc, 0xaa, 0x2d, 0x11] [], Call 60 None None [] []]"

lemma sample_input_found:
  "\<exists>claim1. setClaimIfFoundOnInput K sample_abi [0xcc, 0xaa, 0x2d, 0x11] (event_claim 1 2 7 0 5 8 9) = (Inr True, claim1) \<and>
     cl_MainnetExitRoot claim1 = 3 \<and> cl_GlobalIndex claim1 = Some 7"
  by (simp add: setClaimIfFoundOnInput_def sample_abi_def methodIDClaimAsset_def methodIDClaimMessage_def Let_def
      decodeClaimCallDataAndSetIfFound_def sample_claim_data_def arg_def event_claim_def DefaultHeight_def)

theorem claim_calldata_found_witness:
  "\<exists>claim1. setClaimCalldata (\<lambda>_. 1) sample_abi (\<lambda>_. Inr sample_trace) 40 0 (event_claim 1 2 7 0 5 8 9) = (None, claim1) \<and>
     (\<exists>c\<in>set (visited sample_trace). makes_claim (\<lambda>_. 1) sample_abi 40 (event_claim 1 2 7 0 5 8 9) c claim1)"
proof -
  let ?c = "event_claim 1 2 7 0 5 8 9" and ?call = "Call 40 None None [0xcc, 0xaa, 0x2d, 0x11] []"
  have m: "\<exists>claim1. makes_claim (\<lambda>_. 1) sample_abi 40 ?c ?call claim1"
    using sample_input_found by (auto simp flip: input_makes_claim)
  have v: "visited sample_trace = [sample_trace, Call 60 None None [] [], ?call]" by (simp add: sample_trace_def)
  have "decodable sample_abi (call_Input ?call)"
    by (simp add: decodable_def call_data_Some sample_abi_def methodIDClaimAsset_def claim_arguments_def sample_claim_data_def DefaultHeight_def)
  then have "\<forall>c\<in>set (visited sample_trace). call_To c = 40 \<longrightarrow> decodable sample_abi (call_Input c)"
    unfolding v by (auto simp: sample_trace_def)
  note found = claim_calldata_found [where trace = "\<lambda>_. Inr sample_trace" and txHash = 0 and claim = ?c and n = 7, OF refl _ this, of "\<lambda>_. 1"]
  obtain r claim1 where e: "setClaimCalldata (\<lambda>_. 1) sample_abi (\<lambda>_. Inr sample_trace) 40 0 ?c = (r, claim1)" by force
  show ?thesis
  proof (cases r)
    case None
    with found e have "\<exists>i<length (visited sample_trace). makes_claim (\<lambda>_. 1) sample_abi 40 ?c (visited sample_trace ! i) claim1"
      by (auto simp: event_claim_def)
    then show ?thesis using e None nth_mem by blast
  next
    case (Some x)
    with found e have "\<forall>c\<in>set (visited sample_trace). \<forall>claim'. \<not> makes_claim (\<lambda>_. 1) sample_abi 40 ?c c claim'"
      by (simp add: event_claim_def)
    with m show ?thesis unfolding v by auto
  qed
qed

text \<open>A reverted call is taken for the claim: when the last call a transaction makes is to the bridge with the global index of the event,
  its calldata is stored, although the trace says that it failed and an earlier call made the claim with other data.\<close>

theorem reverted_call_is_stored:
  assumes "trace txHash = Inr (Call to v e inp (cs @ [final]))" and "to \<noteq> bridge" and "call_Err final = Some revert"
    and "makes_claim K abi bridge claim final claim1"
  shows "setClaimCalldata K abi trace bridge txHash claim = (None, claim1)"
proof -
  have "visited final = final # concat (map visited (rev (call_Calls final)))" by (rule visited_eq)
  then show ?thesis
    using assms by (auto simp: setClaimCalldata_def simp flip: input_makes_claim)
qed

theorem reverted_call_is_stored_witness:
  "\<exists>claim1. setClaimCalldata (\<lambda>_. 1) sample_abi
     (\<lambda>_. Inr (Call 50 None None [] ([Call 40 None None [0xcc, 0xaa, 0x2d, 0x11, 1] []] @
        [Call 40 None (Some ''execution reverted'') [0xcc, 0xaa, 0x2d, 0x11] []]))) 40 0 (event_claim 1 2 7 0 5 8 9) = (None, claim1)"
proof -
  obtain claim1 where "setClaimIfFoundOnInput (\<lambda>_. 1) sample_abi [0xcc, 0xaa, 0x2d, 0x11] (event_claim 1 2 7 0 5 8 9) = (Inr True, claim1)"
    using sample_input_found by blast
  then have "makes_claim (\<lambda>_. 1) sample_abi 40 (event_claim 1 2 7 0 5 8 9)
      (Call 40 None (Some ''execution reverted'') [0xcc, 0xaa, 0x2d, 0x11] []) claim1" by (simp flip: input_makes_claim)
  from reverted_call_is_stored [where trace = "\<lambda>_. Inr (Call 50 None None [] ([Call 40 None None [0xcc, 0xaa, 0x2d, 0x11, 1] []] @
        [Call 40 None (Some ''execution reverted'') [0xcc, 0xaa, 0x2d, 0x11] []]))" and txHash = 0, OF refl _ _ this]
  show ?thesis by auto
qed

text \<open>A call to the bridge that the ABI does not know ends the search, and the appender is repeated for ever.\<close>

lemma unknown_call_stops_syncer:
  assumes "bx_traceTransaction X (lg_TxHash (log_Data l)) = Inr (Call to v e inp (cs @ [final]))" and "to \<noteq> bridge"
    and "call_To final = bridge" and "4 \<le> length (call_Input final)" and "bx_abi X = Inr meth"
    and "meth (take 4 (call_Input final)) = Inl x" and "bx_ParseClaimEvent X l = Inr ev" and "1 < MaxRetryAttemptsAfterError rh"
  shows "appender_loop rh (replicate n (append_claim K X bridge True b l)) = (Pending, None)"
proof -
  have "append_claim K X bridge True b l = Inl x"
    using assms(1-7)
    by (simp add: append_claim_def finish_claim_def setClaimCalldata_def setClaimIfFoundOnInput_def Let_def)
  then have "replicate n (append_claim K X bridge True b l) = map Inl (replicate n x)" by simp
  then show ?thesis using appender_retries_forever [OF assms(8)] by metis
qed

section \<open>Events of a block\<close>

text \<open>
  The loop over the logs of one block, with one attempt per log; a signature without an appender is a nil function. An attempt that fails is the
  result here, while the code repeats it (\<open>appender_loop\<close> of \<open>EvmSync\<close>): what a block finally holds is the result of attempts that all succeeded.
\<close>

fun append_all :: "(hash \<Rightarrow> 'e appender option) \<Rightarrow> 'e EVMBlock \<Rightarrow> log_payload Log list \<Rightarrow> error + 'e EVMBlock" where
  "append_all ap b [] = Inr b"
| "append_all ap b (l # ls) =
     (case ap (log_Topic l) of
        None \<Rightarrow> Inl ErrPanic
      | Some f \<Rightarrow> (case f b l of Inl x \<Rightarrow> Inl x | Inr b1 \<Rightarrow> append_all ap b1 ls))"

fun bridge_key :: "bridge_item \<Rightarrow> (u64 \<times> u64) option" where
  "bridge_key (BridgeItem ev) =
     (case (ev_Bridge ev, ev_Claim ev) of
        (Some br, None) \<Rightarrow> Some (br_BlockNum br, br_BlockPos br)
      | (None, Some cl) \<Rightarrow> Some (cl_BlockNum cl, cl_BlockPos cl)
      | _ \<Rightarrow> None)"
| "bridge_key OtherItem = None"

lemma calldata_keeps_key:
  assumes "setClaimCalldata K abi trace bridge tx claim = (None, claim1)"
  shows "cl_BlockNum claim1 = cl_BlockNum claim \<and> cl_BlockPos claim1 = cl_BlockPos claim"
proof -
  from assms obtain root c where "setClaimIfFoundOnInput K abi (call_Input c) claim = (Inr True, claim1)"
    by (auto simp: setClaimCalldata_def find_claim_search outcome_of_def decides_def find_Some_iff
        split: sum.splits option.splits prod.splits bool.splits)
  then show ?thesis by (auto dest!: input_found simp: claim_with_calldata_def)
qed

lemma bridge_appender_key:
  assumes "bridge_appender K X bridge full (log_Topic l) = Some f" and "f b l = Inr b1"
  shows "\<exists>e. b1 = add_event e b \<and> bridge_key e = Some (h_Num (eb_Header b), lg_Index (log_Data l))"
proof -
  have fin: "\<exists>e. b1 = add_event e b \<and> bridge_key e = Some (h_Num (eb_Header b), lg_Index (log_Data l))"
    if "finish_claim K X bridge full (event_claim (h_Num (eb_Header b)) (lg_Index (log_Data l)) n net ori de am) b l = Inr b1" for n net ori de am
    using that by (auto simp: finish_claim_def event_claim_def dest!: calldata_keeps_key split: if_splits prod.splits option.splits)
  from assms(1) consider "f = append_bridge X" | "f = append_claim K X bridge full" | "f = append_claim_pre_etrog K X bridge full"
    by (auto simp: bridge_appender_def split: if_splits)
  then show ?thesis
    using assms(2)
    by cases (auto simp: append_bridge_def append_claim_def append_claim_pre_etrog_def intro: fin split: sum.splits)
qed

text \<open>C26. Parsed events are well formed: parsing the logs of a block adds one event per log, in the order of the logs; each is a bridge or a claim
  and not both, and carries the number of its block and the index of its log, the key of its row in the database. So
  logs with different indices give rows with different keys.\<close>

theorem parsed_events_well_formed:
  assumes "append_all (bridge_appender K X bridge syncFullClaims) b logs = Inr b'" and "eb_Events b = []"
  shows "eb_Header b' = eb_Header b \<and>
    map bridge_key (eb_Events b') = map (\<lambda>l. Some (h_Num (eb_Header b), lg_Index (log_Data l))) logs"
proof -
  have "eb_Header b' = eb_Header b \<and> map bridge_key (eb_Events b') =
      map bridge_key (eb_Events b) @ map (\<lambda>l. Some (h_Num (eb_Header b), lg_Index (log_Data l))) logs"
    using assms(1)
  proof (induction logs arbitrary: b)
    case (Cons l ls)
    then obtain f b1 where f: "bridge_appender K X bridge syncFullClaims (log_Topic l) = Some f" "f b l = Inr b1"
      and r: "append_all (bridge_appender K X bridge syncFullClaims) b1 ls = Inr b'" by (auto split: option.splits sum.splits)
    from bridge_appender_key [OF f] Cons.IH [OF r] show ?case by (auto simp: add_event_def)
  qed simp
  then show ?thesis using assms(2) by simp
qed

definition sample_parsers :: bridge_parsers where
  "sample_parsers = \<lparr>bx_ParseBridgeEvent = (\<lambda>l. Inr \<lparr>bg_LeafType = 0, bg_OriginNetwork = 1, bg_OriginAddress = 2,
       bg_DestinationNetwork = 3, bg_DestinationAddress = 4, bg_Amount = 5, bg_Metadata = [], bg_DepositCount = 6\<rparr>),
     bx_ParseClaimEvent = (\<lambda>_. Inl ErrSQL), bx_ParseClaimEventV1 = (\<lambda>_. Inl ErrSQL), bx_abi = sample_abi,
     bx_traceTransaction = (\<lambda>_. Inr sample_trace)\<rparr>"

definition sample_log :: "u64 \<Rightarrow> log_payload Log" where
  "sample_log i = \<lparr>log_BlockNumber = 8, log_BlockHash = 9, log_Topic = bridgeEventSignature (\<lambda>bs. of_nat (length bs)),
     log_Data = \<lparr>lg_Index = i, lg_TxHash = 0, lg_Words = []\<rparr>\<rparr>"

theorem parsed_events_well_formed_witness:
  "\<exists>b'. append_all (bridge_appender (\<lambda>bs. of_nat (length bs)) sample_parsers 40 True)
       \<lparr>eb_Header = \<lparr>h_Num = 8, h_Hash = 9, h_ParentHash = 7, h_Timestamp = 6\<rparr>, eb_Events = []\<rparr> [sample_log 3, sample_log 4] = Inr b' \<and>
     map bridge_key (eb_Events b') = [Some (8, 3), Some (8, 4)]"
proof -
  let ?b = "\<lparr>eb_Header = \<lparr>h_Num = 8, h_Hash = 9, h_ParentHash = 7, h_Timestamp = 6\<rparr>, eb_Events = []\<rparr>"
  let ?ap = "bridge_appender (\<lambda>bs. of_nat (length bs)) sample_parsers 40 True"
  have "?ap (log_Topic (sample_log i)) = Some (append_bridge sample_parsers)" for i
    by (simp add: bridge_appender_def sample_log_def bridgeEventSignature_def claimEventSignature_def
        claimEventSignaturePreEtrog_def ascii_def)
  then obtain b' where a: "append_all ?ap ?b [sample_log 3, sample_log 4] = Inr b'"
    by (simp add: append_bridge_def sample_parsers_def)
  from parsed_events_well_formed [OF this] a show ?thesis by (simp add: sample_log_def)
qed

end
