(* ===== verification/AgglayerErrors.thy ===== *)
theory AgglayerErrors
  imports AggLayer BatchCodec
begin

text \<open>
  The errors of a rejected certificate (\<open>src/agglayer/proof_generation_error.go\<close>, \<open>type_conversion_error.go\<close>,
  \<open>proof_verification_error.go\<close>) and their decoding from the status of a certificate header (\<open>types.go\<close>).

  A value of Go's \<open>interface{}\<close> after decoding JSON is a \<open>json\<close>; a map is the list of its entries in the order in which a
  loop over it visits them. The type of numbers, their conversion to 32 bits and the parsing of hexadecimal
  hashes and addresses are arguments. The texts of the errors are not modelled.
\<close>

section \<open>Decoded values\<close>

datatype 'f json =
    JNull
  | JBool bool
  | JNum 'f
  | JStr string
  | JArr "'f json list"
  | JMap "(string \<times> 'f json) list"

record 'f conv =
  cv_uint32 :: "'f \<Rightarrow> u32"
  cv_HexToHash :: "string \<Rightarrow> hash"
  cv_HexToAddress :: "string \<Rightarrow> address"

definition errNotMap :: error where
  "errNotMap = ErrMsg ''inner error is not a map''"

definition wrong_type :: "string \<Rightarrow> error" where
  "wrong_type key = ErrMsg (''value of key has the wrong type: '' @ key)"

text \<open>\<open>convertMapValue\<close> at its four types; only numbers are converted.\<close>

definition convertMapValue :: "('f json \<Rightarrow> 'a option) \<Rightarrow> (string \<times> 'f json) list \<Rightarrow> string \<Rightarrow> error + 'a" where
  "convertMapValue as data key =
     (case map_of data key of
        None \<Rightarrow> Inl (ErrMsg (''key not found in map: '' @ key))
      | Some v \<Rightarrow> (case as v of None \<Rightarrow> Inl (wrong_type key) | Some x \<Rightarrow> Inr x))"

fun as_str :: "'f json \<Rightarrow> string option" where "as_str (JStr s) = Some s" | "as_str _ = None"
fun as_map :: "'f json \<Rightarrow> (string \<times> 'f json) list option" where "as_map (JMap m) = Some m" | "as_map _ = None"
fun as_bool :: "'f json \<Rightarrow> bool option" where "as_bool (JBool b) = Some b" | "as_bool _ = None"
fun as_uint32 :: "'f conv \<Rightarrow> 'f json \<Rightarrow> u32 option" where "as_uint32 C (JNum x) = Some (cv_uint32 C x)" | "as_uint32 C _ = None"

definition the_map :: "'f json \<Rightarrow> error + (string \<times> 'f json) list" where
  "the_map v = (case as_map v of None \<Rightarrow> Inl errNotMap | Some m \<Rightarrow> Inr m)"

text \<open>The value of a missing key is nil.\<close>

definition entry :: "(string \<times> 'f json) list \<Rightarrow> string \<Rightarrow> 'f json" where
  "entry m key = (case map_of m key of None \<Rightarrow> JNull | Some v \<Rightarrow> v)"

section \<open>Errors\<close>

datatype PPError =
    InvalidSignerError address address
  | InvalidPreviousLocalExitRoot hash hash
  | InvalidPreviousBalanceRoot hash hash
  | InvalidPreviousNullifierRoot hash hash
  | InvalidNewLocalExitRoot hash hash
  | InvalidNewBalanceRoot hash hash
  | InvalidNewNullifierRoot hash hash
  | InvalidImportedExitsRoot hash hash
  | MismatchImportedExitsRoot
  | InvalidNullifierPath
  | InvalidBalancePath
  | BalanceOverflowInBridgeExit
  | BalanceUnderflowInBridgeExit
  | CannotExitToSameNetwork
  | InvalidMessageOriginNetwork
  | InvalidL1TokenInfo TokenInfo
  | MissingTokenBalanceProof TokenInfo
  | DuplicateTokenBalanceProof TokenInfo
  | InvalidSignature
  | InvalidImportedBridgeExit GlobalIndex string
  | UnknownError
  | MultipleL1InfoRoot
  | MismatchNewLocalExitRoot hash hash
  | BalanceOverflow TokenInfo
  | BalanceUnderflow TokenInfo
  | BalanceProofGenerationFailed TokenInfo string
  | NullifierPathGenerationFailed GlobalIndex string
  | L1InfoRootIncorrect hash hash u32
  | VersionMismatch string
  | Core string
  | Recursion string
  | Plank string
  | Groth16 string
  | InvalidPublicValues
  | ProofGenerationError string "PPError list"
  | TypeConversionError "PPError list"
  | ProofVerificationError "PPError list"

definition InvalidSignerError_Unmarshal :: "'f conv \<Rightarrow> 'f json \<Rightarrow> error + PPError" where
  "InvalidSignerError_Unmarshal C v =
     bind_err (the_map v) (\<lambda>m.
     bind_err (convertMapValue as_str m ''declared'') (\<lambda>declared.
     bind_err (convertMapValue as_str m ''recovered'') (\<lambda>recovered.
       Inr (InvalidSignerError (cv_HexToAddress C declared) (cv_HexToAddress C recovered)))))"

definition DeclaredComputedError_Unmarshal :: "'f conv \<Rightarrow> (hash \<Rightarrow> hash \<Rightarrow> PPError) \<Rightarrow> 'f json \<Rightarrow> error + PPError" where
  "DeclaredComputedError_Unmarshal C mk v =
     bind_err (the_map v) (\<lambda>m.
     bind_err (convertMapValue as_str m ''declared'') (\<lambda>declared.
     bind_err (convertMapValue as_str m ''computed'') (\<lambda>computed.
       Inr (mk (cv_HexToHash C declared) (cv_HexToHash C computed)))))"

definition TokenInfoError_Unmarshal :: "'f conv \<Rightarrow> bool \<Rightarrow> 'f json \<Rightarrow> error + TokenInfo" where
  "TokenInfoError_Unmarshal C isNested v =
     bind_err (the_map v) (\<lambda>m.
     bind_err (if isNested then convertMapValue as_map m ''TokenInfo'' else Inr m) (\<lambda>tokenInfoMap.
     bind_err (convertMapValue (as_uint32 C) tokenInfoMap ''origin_network'') (\<lambda>originNetwork.
     bind_err (convertMapValue as_str tokenInfoMap ''origin_token_address'') (\<lambda>originAddress.
       Inr \<lparr>ti_OriginNetwork = originNetwork, ti_OriginTokenAddress = cv_HexToAddress C originAddress\<rparr>))))"

definition GlobalIndex_UnmarshalFromMap :: "'f conv \<Rightarrow> (string \<times> 'f json) list \<Rightarrow> error + GlobalIndex" where
  "GlobalIndex_UnmarshalFromMap C m =
     bind_err (convertMapValue (as_uint32 C) m ''rollup_index'') (\<lambda>rollupIndex.
     bind_err (convertMapValue (as_uint32 C) m ''leaf_index'') (\<lambda>leafIndex.
     bind_err (convertMapValue as_bool m ''mainnet_flag'') (\<lambda>mainnetFlag.
       Inr \<lparr>gi_MainnetFlag = mainnetFlag, gi_RollupIndex = rollupIndex, gi_LeafIndex = leafIndex\<rparr>)))"

definition InvalidImportedBridgeExit_Unmarshal :: "'f conv \<Rightarrow> 'f json \<Rightarrow> error + PPError" where
  "InvalidImportedBridgeExit_Unmarshal C v =
     bind_err (the_map v) (\<lambda>m.
     bind_err (convertMapValue as_str m ''source'') (\<lambda>sourceErr.
     bind_err (convertMapValue as_map m ''global_index'') (\<lambda>globalIndexMap.
     bind_err (GlobalIndex_UnmarshalFromMap C globalIndexMap) (\<lambda>g.
       Inr (InvalidImportedBridgeExit g sourceErr)))))"

definition SmtError_Unmarshal :: "'f json \<Rightarrow> error + string" where
  "SmtError_Unmarshal v =
     (case as_str v of
        None \<Rightarrow> Inl (ErrMsg ''error code is not a string'')
      | Some errCode \<Rightarrow>
          if errCode \<in> {''KeyAlreadyPresent'', ''KeyNotPresent'', ''KeyPresent'', ''DepthOutOfBounds''} then Inr errCode
          else Inl (ErrMsg ''unknown SMT error code''))"

definition BalanceProofGenerationFailed_Unmarshal :: "'f conv \<Rightarrow> 'f json \<Rightarrow> error + PPError" where
  "BalanceProofGenerationFailed_Unmarshal C v =
     bind_err (the_map v) (\<lambda>m.
     bind_err (TokenInfoError_Unmarshal C False (entry m ''token'')) (\<lambda>t.
     bind_err (SmtError_Unmarshal (entry m ''source'')) (\<lambda>s.
       Inr (BalanceProofGenerationFailed t s))))"

definition NullifierPathGenerationFailed_Unmarshal :: "'f conv \<Rightarrow> 'f json \<Rightarrow> error + PPError" where
  "NullifierPathGenerationFailed_Unmarshal C v =
     bind_err (the_map v) (\<lambda>m.
     bind_err (SmtError_Unmarshal (entry m ''source'')) (\<lambda>s.
     bind_err (convertMapValue as_map m ''global_index'') (\<lambda>globalIndexMap.
     bind_err (GlobalIndex_UnmarshalFromMap C globalIndexMap) (\<lambda>g.
       Inr (NullifierPathGenerationFailed g s)))))"

definition L1InfoRootIncorrect_Unmarshal :: "'f conv \<Rightarrow> 'f json \<Rightarrow> error + PPError" where
  "L1InfoRootIncorrect_Unmarshal C v =
     bind_err (the_map v) (\<lambda>m.
     bind_err (convertMapValue as_str m ''declared'') (\<lambda>declared.
     bind_err (convertMapValue as_str m ''retrieved'') (\<lambda>retrieved.
     bind_err (convertMapValue (as_uint32 C) m ''leaf_count'') (\<lambda>leafCount.
       Inr (L1InfoRootIncorrect (cv_HexToHash C declared) (cv_HexToHash C retrieved) leafCount)))))"

definition StringError_Unmarshal :: "(string \<Rightarrow> PPError) \<Rightarrow> 'f json \<Rightarrow> error + PPError" where
  "StringError_Unmarshal mk v =
     (case as_str v of None \<Rightarrow> Inl (ErrMsg ''expected string for StringError'') | Some s \<Rightarrow> Inr (mk s))"

section \<open>The three kinds of errors\<close>

text \<open>
  The error of a key. The Go closure either returns it or appends it itself; both end as one more inner error.
\<close>

definition generation_inner :: "'f conv \<Rightarrow> string \<Rightarrow> 'f json \<Rightarrow> error + PPError" where
  "generation_inner C key v =
     (if key = ''InvalidSigner'' then InvalidSignerError_Unmarshal C v
      else if key = ''InvalidPreviousLocalExitRoot'' then DeclaredComputedError_Unmarshal C InvalidPreviousLocalExitRoot v
      else if key = ''InvalidPreviousBalanceRoot'' then DeclaredComputedError_Unmarshal C InvalidPreviousBalanceRoot v
      else if key = ''InvalidPreviousNullifierRoot'' then DeclaredComputedError_Unmarshal C InvalidPreviousNullifierRoot v
      else if key = ''InvalidNewLocalExitRoot'' then DeclaredComputedError_Unmarshal C InvalidNewLocalExitRoot v
      else if key = ''InvalidNewBalanceRoot'' then DeclaredComputedError_Unmarshal C InvalidNewBalanceRoot v
      else if key = ''InvalidNewNullifierRoot'' then DeclaredComputedError_Unmarshal C InvalidNewNullifierRoot v
      else if key = ''InvalidImportedExitsRoot'' then DeclaredComputedError_Unmarshal C InvalidImportedExitsRoot v
      else if key = ''MismatchImportedExitsRoot'' then Inr MismatchImportedExitsRoot
      else if key = ''InvalidNullifierPath'' then Inr InvalidNullifierPath
      else if key = ''InvalidBalancePath'' then Inr InvalidBalancePath
      else if key = ''BalanceOverflowInBridgeExit'' then Inr BalanceOverflowInBridgeExit
      else if key = ''BalanceUnderflowInBridgeExit'' then Inr BalanceUnderflowInBridgeExit
      else if key = ''CannotExitToSameNetwork'' then Inr CannotExitToSameNetwork
      else if key = ''InvalidMessageOriginNetwork'' then Inr InvalidMessageOriginNetwork
      else if key = ''InvalidL1TokenInfo'' then map_sum id InvalidL1TokenInfo (TokenInfoError_Unmarshal C True v)
      else if key = ''MissingTokenBalanceProof'' then map_sum id MissingTokenBalanceProof (TokenInfoError_Unmarshal C True v)
      else if key = ''DuplicateTokenBalanceProof'' then map_sum id DuplicateTokenBalanceProof (TokenInfoError_Unmarshal C True v)
      else if key = ''InvalidSignature'' then Inr InvalidSignature
      else if key = ''InvalidImportedBridgeExit'' then InvalidImportedBridgeExit_Unmarshal C v
      else if key = ''UnknownError'' then Inr UnknownError
      else Inl (ErrMsg ''unknown proof generation error type''))"

definition conversion_inner :: "'f conv \<Rightarrow> string \<Rightarrow> 'f json \<Rightarrow> error + PPError" where
  "conversion_inner C key v =
     (if key = ''MultipleL1InfoRoot'' then Inr MultipleL1InfoRoot
      else if key = ''MismatchNewLocalExitRoot'' then Inr (MismatchNewLocalExitRoot 0 0)
      else if key = ''BalanceOverflow'' then map_sum id BalanceOverflow (TokenInfoError_Unmarshal C False v)
      else if key = ''BalanceUnderflow'' then map_sum id BalanceUnderflow (TokenInfoError_Unmarshal C False v)
      else if key = ''BalanceProofGenerationFailed'' then BalanceProofGenerationFailed_Unmarshal C v
      else if key = ''NullifierPathGenerationFailed'' then NullifierPathGenerationFailed_Unmarshal C v
      else if key = ''L1InfoRootIncorrect'' then L1InfoRootIncorrect_Unmarshal C v
      else Inl (ErrMsg ''unknown type conversion error type''))"

definition verification_inner :: "string \<Rightarrow> 'f json \<Rightarrow> error + PPError" where
  "verification_inner key v =
     (if key = ''VersionMismatch'' then StringError_Unmarshal VersionMismatch v
      else if key = ''Core'' then StringError_Unmarshal Core v
      else if key = ''Recursion'' then StringError_Unmarshal Recursion v
      else if key = ''Plank'' then StringError_Unmarshal Plank v
      else if key = ''Groth16'' then StringError_Unmarshal Groth16 v
      else if key = ''InvalidPublicValues'' then Inr InvalidPublicValues
      else Inl (ErrMsg ''unknown proof verification error type''))"

text \<open>The loop over a source map, up to its first error.\<close>

fun inner_errors :: "(string \<Rightarrow> 'f json \<Rightarrow> error + PPError) \<Rightarrow> (string \<times> 'f json) list \<Rightarrow> error + PPError list" where
  "inner_errors f [] = Inr []"
| "inner_errors f ((key, v) # m) = bind_err (f key v) (\<lambda>e. map_sum id ((#) e) (inner_errors f m))"

definition ProofGenerationError_Unmarshal :: "'f conv \<Rightarrow> 'f json \<Rightarrow> error + PPError" where
  "ProofGenerationError_Unmarshal C v =
     bind_err (the_map v) (\<lambda>m.
     bind_err (convertMapValue as_str m ''generation_type'') (\<lambda>generationType.
       map_sum id (ProofGenerationError generationType)
         (case convertMapValue as_map m ''source'' of
            Inr errorSourceMap \<Rightarrow> inner_errors (generation_inner C) errorSourceMap
          | Inl _ \<Rightarrow>
              bind_err (convertMapValue as_str m ''source'') (\<lambda>s. map_sum id (\<lambda>e. [e]) (generation_inner C s JNull)))))"

text \<open>The other two assert that a source that is not a map is a string, which panics otherwise.\<close>

definition source_errors :: "(string \<Rightarrow> 'f json \<Rightarrow> error + PPError) \<Rightarrow> 'f json \<Rightarrow> error + PPError list" where
  "source_errors f v =
     (case v of
        JMap m \<Rightarrow> inner_errors f m
      | JStr s \<Rightarrow> map_sum id (\<lambda>e. [e]) (f s JNull)
      | _ \<Rightarrow> Inl ErrPanic)"

definition TypeConversionError_Unmarshal :: "'f conv \<Rightarrow> 'f json \<Rightarrow> error + PPError" where
  "TypeConversionError_Unmarshal C v = map_sum id TypeConversionError (source_errors (conversion_inner C) v)"

definition ProofVerificationError_Unmarshal :: "'f json \<Rightarrow> error + PPError" where
  "ProofVerificationError_Unmarshal v = map_sum id ProofVerificationError (source_errors verification_inner v)"

section \<open>The status of a certificate header\<close>

definition header_error :: "'f conv \<Rightarrow> string \<Rightarrow> 'f json \<Rightarrow> error + PPError" where
  "header_error C key v =
     (if key = ''ProofGenerationError'' then ProofGenerationError_Unmarshal C v
      else if key = ''TypeConversionError'' then TypeConversionError_Unmarshal C v
      else if key = ''ProofVerificationError'' then ProofVerificationError_Unmarshal v
      else Inl (ErrMsg ''invalid error type''))"

fun header_errors :: "'f conv \<Rightarrow> (string \<times> 'f json) list \<Rightarrow> PPError option \<Rightarrow> error + PPError option" where
  "header_errors C [] ppError = Inr ppError"
| "header_errors C ((key, v) # m) ppError = bind_err (header_error C key v) (\<lambda>e. header_errors C m (Some e))"

definition status_UnmarshalJSON :: "'f conv \<Rightarrow> 'f json \<Rightarrow> error + CertificateStatus \<times> PPError option" where
  "status_UnmarshalJSON C status =
     (case status of
        JStr s \<Rightarrow> map_sum id (\<lambda>st. (st, None)) (CertificateStatus_UnmarshalJSON s)
      | JMap m \<Rightarrow>
          bind_err (convertMapValue as_map m ''InError'') (\<lambda>inErrMap.
          bind_err (convertMapValue as_map inErrMap ''error'') (\<lambda>inErrDataMap.
            map_sum id (\<lambda>e. (CertInError, e)) (header_errors C inErrDataMap None)))
      | _ \<Rightarrow> Inl (ErrMsg ''invalid status type''))"

section \<open>The wire format\<close>

text \<open>The errors as the agglayer sends them: the name, and the data of those that have some.\<close>

record 'f printer =
  pt_num :: "u32 \<Rightarrow> 'f"
  pt_hash :: "hash \<Rightarrow> string"
  pt_addr :: "address \<Rightarrow> string"

definition conv_law :: "'f conv \<Rightarrow> 'f printer \<Rightarrow> bool" where
  "conv_law C P \<longleftrightarrow> (\<forall>n. cv_uint32 C (pt_num P n) = n) \<and> (\<forall>h. cv_HexToHash C (pt_hash P h) = h) \<and>
     (\<forall>a. cv_HexToAddress C (pt_addr P a) = a)"

definition two_hashes :: "'f printer \<Rightarrow> string \<Rightarrow> hash \<Rightarrow> hash \<Rightarrow> 'f json" where
  "two_hashes P nm a b = JMap [(''declared'', JStr (pt_hash P a)), (nm, JStr (pt_hash P b))]"

definition token_json :: "'f printer \<Rightarrow> TokenInfo \<Rightarrow> 'f json" where
  "token_json P t = JMap [(''origin_network'', JNum (pt_num P (ti_OriginNetwork t))),
     (''origin_token_address'', JStr (pt_addr P (ti_OriginTokenAddress t)))]"

definition index_json :: "'f printer \<Rightarrow> GlobalIndex \<Rightarrow> 'f json" where
  "index_json P g = JMap [(''mainnet_flag'', JBool (gi_MainnetFlag g)), (''rollup_index'', JNum (pt_num P (gi_RollupIndex g))),
     (''leaf_index'', JNum (pt_num P (gi_LeafIndex g)))]"

fun wire :: "'f printer \<Rightarrow> PPError \<Rightarrow> string \<times> 'f json option" where
  "wire P (InvalidSignerError a b) =
     (''InvalidSigner'', Some (JMap [(''declared'', JStr (pt_addr P a)), (''recovered'', JStr (pt_addr P b))]))"
| "wire P (InvalidPreviousLocalExitRoot a b) = (''InvalidPreviousLocalExitRoot'', Some (two_hashes P ''computed'' a b))"
| "wire P (InvalidPreviousBalanceRoot a b) = (''InvalidPreviousBalanceRoot'', Some (two_hashes P ''computed'' a b))"
| "wire P (InvalidPreviousNullifierRoot a b) = (''InvalidPreviousNullifierRoot'', Some (two_hashes P ''computed'' a b))"
| "wire P (InvalidNewLocalExitRoot a b) = (''InvalidNewLocalExitRoot'', Some (two_hashes P ''computed'' a b))"
| "wire P (InvalidNewBalanceRoot a b) = (''InvalidNewBalanceRoot'', Some (two_hashes P ''computed'' a b))"
| "wire P (InvalidNewNullifierRoot a b) = (''InvalidNewNullifierRoot'', Some (two_hashes P ''computed'' a b))"
| "wire P (InvalidImportedExitsRoot a b) = (''InvalidImportedExitsRoot'', Some (two_hashes P ''computed'' a b))"
| "wire P MismatchImportedExitsRoot = (''MismatchImportedExitsRoot'', None)"
| "wire P InvalidNullifierPath = (''InvalidNullifierPath'', None)"
| "wire P InvalidBalancePath = (''InvalidBalancePath'', None)"
| "wire P BalanceOverflowInBridgeExit = (''BalanceOverflowInBridgeExit'', None)"
| "wire P BalanceUnderflowInBridgeExit = (''BalanceUnderflowInBridgeExit'', None)"
| "wire P CannotExitToSameNetwork = (''CannotExitToSameNetwork'', None)"
| "wire P InvalidMessageOriginNetwork = (''InvalidMessageOriginNetwork'', None)"
| "wire P (InvalidL1TokenInfo t) = (''InvalidL1TokenInfo'', Some (JMap [(''TokenInfo'', token_json P t)]))"
| "wire P (MissingTokenBalanceProof t) = (''MissingTokenBalanceProof'', Some (JMap [(''TokenInfo'', token_json P t)]))"
| "wire P (DuplicateTokenBalanceProof t) = (''DuplicateTokenBalanceProof'', Some (JMap [(''TokenInfo'', token_json P t)]))"
| "wire P InvalidSignature = (''InvalidSignature'', None)"
| "wire P (InvalidImportedBridgeExit g s) =
     (''InvalidImportedBridgeExit'', Some (JMap [(''source'', JStr s), (''global_index'', index_json P g)]))"
| "wire P UnknownError = (''UnknownError'', None)"
| "wire P MultipleL1InfoRoot = (''MultipleL1InfoRoot'', None)"
| "wire P (MismatchNewLocalExitRoot a b) = (''MismatchNewLocalExitRoot'', Some (two_hashes P ''computed'' a b))"
| "wire P (BalanceOverflow t) = (''BalanceOverflow'', Some (token_json P t))"
| "wire P (BalanceUnderflow t) = (''BalanceUnderflow'', Some (token_json P t))"
| "wire P (BalanceProofGenerationFailed t s) =
     (''BalanceProofGenerationFailed'', Some (JMap [(''source'', JStr s), (''token'', token_json P t)]))"
| "wire P (NullifierPathGenerationFailed g s) =
     (''NullifierPathGenerationFailed'', Some (JMap [(''source'', JStr s), (''global_index'', index_json P g)]))"
| "wire P (L1InfoRootIncorrect a b n) =
     (''L1InfoRootIncorrect'', Some (JMap [(''leaf_count'', JNum (pt_num P n)), (''declared'', JStr (pt_hash P a)),
        (''retrieved'', JStr (pt_hash P b))]))"
| "wire P (VersionMismatch s) = (''VersionMismatch'', Some (JStr s))"
| "wire P (Core s) = (''Core'', Some (JStr s))"
| "wire P (Recursion s) = (''Recursion'', Some (JStr s))"
| "wire P (Plank s) = (''Plank'', Some (JStr s))"
| "wire P (Groth16 s) = (''Groth16'', Some (JStr s))"
| "wire P InvalidPublicValues = (''InvalidPublicValues'', None)"
| "wire P (ProofGenerationError g es) = ([], None)"
| "wire P (TypeConversionError es) = ([], None)"
| "wire P (ProofVerificationError es) = ([], None)"

definition source_json :: "'f printer \<Rightarrow> PPError \<Rightarrow> 'f json" where
  "source_json P e = (case wire P e of (k, None) \<Rightarrow> JStr k | (k, Some v) \<Rightarrow> JMap [(k, v)])"

definition in_error :: "string \<Rightarrow> 'f json \<Rightarrow> 'f json" where
  "in_error key v = JMap [(''InError'', JMap [(''error'', JMap [(key, v)])])]"

fun generation_kind :: "PPError \<Rightarrow> bool" where
  "generation_kind (InvalidSignerError a b) = True"
| "generation_kind (InvalidPreviousLocalExitRoot a b) = True"
| "generation_kind (InvalidPreviousBalanceRoot a b) = True"
| "generation_kind (InvalidPreviousNullifierRoot a b) = True"
| "generation_kind (InvalidNewLocalExitRoot a b) = True"
| "generation_kind (InvalidNewBalanceRoot a b) = True"
| "generation_kind (InvalidNewNullifierRoot a b) = True"
| "generation_kind (InvalidImportedExitsRoot a b) = True"
| "generation_kind (InvalidL1TokenInfo t) = True"
| "generation_kind (MissingTokenBalanceProof t) = True"
| "generation_kind (DuplicateTokenBalanceProof t) = True"
| "generation_kind (InvalidImportedBridgeExit g s) = True"
| "generation_kind e \<longleftrightarrow> e \<in> {MismatchImportedExitsRoot, InvalidNullifierPath, InvalidBalancePath, BalanceOverflowInBridgeExit,
     BalanceUnderflowInBridgeExit, CannotExitToSameNetwork, InvalidMessageOriginNetwork, InvalidSignature, UnknownError}"

definition smt_code :: "string \<Rightarrow> bool" where
  "smt_code s \<longleftrightarrow> s \<in> {''KeyAlreadyPresent'', ''KeyNotPresent'', ''KeyPresent'', ''DepthOutOfBounds''}"

fun conversion_kind :: "PPError \<Rightarrow> bool" where
  "conversion_kind MultipleL1InfoRoot = True"
| "conversion_kind (BalanceOverflow t) = True"
| "conversion_kind (BalanceUnderflow t) = True"
| "conversion_kind (BalanceProofGenerationFailed t s) = smt_code s"
| "conversion_kind (NullifierPathGenerationFailed g s) = smt_code s"
| "conversion_kind (L1InfoRootIncorrect a b n) = True"
| "conversion_kind e = False"

fun verification_kind :: "PPError \<Rightarrow> bool" where
  "verification_kind (VersionMismatch s) = True"
| "verification_kind (Core s) = True"
| "verification_kind (Recursion s) = True"
| "verification_kind (Plank s) = True"
| "verification_kind (Groth16 s) = True"
| "verification_kind InvalidPublicValues = True"
| "verification_kind e = False"

lemma convertMapValue_Cons [simp]:
  "convertMapValue as ((k, v) # m) key =
     (if k = key then (case as v of None \<Rightarrow> Inl (wrong_type key) | Some x \<Rightarrow> Inr x) else convertMapValue as m key)"
  by (auto simp: convertMapValue_def)

lemma the_map_JMap [simp]: "the_map (JMap m) = Inr m"
  by (simp add: the_map_def)

lemma bind_err_ok [simp]: "bind_err (Inr x) f = f x"
  by (simp add: bind_err_def)

lemma source_errors_json:
  assumes "f (fst (wire P e)) (case snd (wire P e) of None \<Rightarrow> JNull | Some v \<Rightarrow> v) = Inr e'"
  shows "source_errors f (source_json P e) = Inr [e']"
  using assms by (cases "wire P e") (auto simp: source_errors_def source_json_def split: option.splits)

lemma TokenInfo_roundtrip:
  assumes "conv_law C P"
  shows "TokenInfoError_Unmarshal C False (token_json P t) = Inr t" "TokenInfoError_Unmarshal C True (JMap [(''TokenInfo'', token_json P t)]) = Inr t"
  using assms by (simp_all add: TokenInfoError_Unmarshal_def token_json_def conv_law_def)

lemma GlobalIndex_roundtrip:
  assumes "conv_law C P"
  shows "\<exists>m. index_json P g = JMap m \<and> GlobalIndex_UnmarshalFromMap C m = Inr g"
  using assms by (simp add: GlobalIndex_UnmarshalFromMap_def index_json_def conv_law_def)

lemma two_hashes_roundtrip:
  assumes "conv_law C P"
  shows "DeclaredComputedError_Unmarshal C mk (two_hashes P ''computed'' a b) = Inr (mk a b)"
  using assms by (simp add: DeclaredComputedError_Unmarshal_def two_hashes_def conv_law_def)

lemma generation_inner_roundtrip:
  assumes "conv_law C P" and "generation_kind e"
  shows "generation_inner C (fst (wire P e)) (case snd (wire P e) of None \<Rightarrow> JNull | Some v \<Rightarrow> v) = Inr e"
proof -
  obtain m where "\<And>g. index_json P g = JMap (m g)" "\<And>g. GlobalIndex_UnmarshalFromMap C (m g) = Inr g"
    using GlobalIndex_roundtrip [OF assms(1)] by metis
  with assms show ?thesis
    by (cases e) (simp_all add: generation_inner_def two_hashes_roundtrip [OF assms(1)] TokenInfo_roundtrip [OF assms(1)]
        InvalidSignerError_Unmarshal_def InvalidImportedBridgeExit_Unmarshal_def conv_law_def)
qed

lemma conversion_inner_roundtrip:
  assumes "conv_law C P" and "conversion_kind e"
  shows "conversion_inner C (fst (wire P e)) (case snd (wire P e) of None \<Rightarrow> JNull | Some v \<Rightarrow> v) = Inr e"
proof -
  obtain m where "\<And>g. index_json P g = JMap (m g)" "\<And>g. GlobalIndex_UnmarshalFromMap C (m g) = Inr g"
    using GlobalIndex_roundtrip [OF assms(1)] by metis
  with assms show ?thesis
    by (cases e) (simp_all add: conversion_inner_def TokenInfo_roundtrip [OF assms(1)] entry_def SmtError_Unmarshal_def smt_code_def
        BalanceProofGenerationFailed_Unmarshal_def NullifierPathGenerationFailed_Unmarshal_def L1InfoRootIncorrect_Unmarshal_def conv_law_def)
qed

lemma verification_inner_roundtrip:
  assumes "verification_kind e"
  shows "verification_inner (fst (wire P e)) (case snd (wire P e) of None \<Rightarrow> JNull | Some v \<Rightarrow> v) = Inr e"
  using assms by (cases e) (simp_all add: verification_inner_def StringError_Unmarshal_def)

lemma generation_roundtrip:
  assumes "conv_law C P" and "generation_kind e"
  shows "ProofGenerationError_Unmarshal C (JMap [(''generation_type'', JStr g), (''source'', source_json P e)]) = Inr (ProofGenerationError g [e])"
  using generation_inner_roundtrip [OF assms]
  by (cases "wire P e") (auto simp: ProofGenerationError_Unmarshal_def source_json_def split: option.splits)

text \<open>C25. Rejections are decoded as they were sent: for every error of a certificate that the agglayer sends, of the proof generation, the type
  conversion or the verification, the status of the header becomes \<open>InError\<close> and its error the same one, with its hashes, token,
  index and text. The exception is \<open>MismatchNewLocalExitRoot\<close>, whose two hashes are lost.\<close>

theorem certificate_errors_roundtrip:
  assumes "conv_law C P"
  shows "(generation_kind e \<longrightarrow>
      status_UnmarshalJSON C (in_error ''ProofGenerationError'' (JMap [(''generation_type'', JStr g), (''source'', source_json P e)])) =
      Inr (CertInError, Some (ProofGenerationError g [e]))) \<and>
    (conversion_kind e \<longrightarrow>
      status_UnmarshalJSON C (in_error ''TypeConversionError'' (source_json P e)) = Inr (CertInError, Some (TypeConversionError [e]))) \<and>
    (verification_kind e \<longrightarrow>
      status_UnmarshalJSON C (in_error ''ProofVerificationError'' (source_json P e)) = Inr (CertInError, Some (ProofVerificationError [e]))) \<and>
    status_UnmarshalJSON C (in_error ''TypeConversionError'' (source_json P (MismatchNewLocalExitRoot a b))) =
      Inr (CertInError, Some (TypeConversionError [MismatchNewLocalExitRoot 0 0]))"
proof -
  have s: "status_UnmarshalJSON C (in_error key v) = map_sum id (\<lambda>e. (CertInError, Some e)) (header_error C key v)" for key v
    by (auto simp: status_UnmarshalJSON_def in_error_def bind_err_def split: sum.splits)
  show ?thesis
    using generation_roundtrip [OF assms] source_errors_json [of "conversion_inner C" P e e, OF conversion_inner_roundtrip [OF assms]]
      source_errors_json [of verification_inner P e e, OF verification_inner_roundtrip]
    by (auto simp: s header_error_def TypeConversionError_Unmarshal_def ProofVerificationError_Unmarshal_def
        source_errors_def source_json_def conversion_inner_def)
qed

definition sample_conv :: "u32 conv" where
  "sample_conv = \<lparr>cv_uint32 = id, cv_HexToHash = (\<lambda>s. of_nat (case hex_value 0 s of None \<Rightarrow> 0 | Some n \<Rightarrow> n)),
     cv_HexToAddress = (\<lambda>s. of_nat (case hex_value 0 s of None \<Rightarrow> 0 | Some n \<Rightarrow> n))\<rparr>"

definition sample_printer :: "u32 printer" where
  "sample_printer = \<lparr>pt_num = id, pt_hash = (\<lambda>h. nat_hex (unat h)), pt_addr = (\<lambda>a. nat_hex (unat a))\<rparr>"

lemma sample_conv_law: "conv_law sample_conv sample_printer"
  by (simp add: conv_law_def sample_conv_def sample_printer_def hex_value_nat_hex)

theorem certificate_errors_roundtrip_witness:
  "status_UnmarshalJSON sample_conv (in_error ''TypeConversionError'' (source_json sample_printer (L1InfoRootIncorrect 1 2 3))) =
     Inr (CertInError, Some (TypeConversionError [L1InfoRootIncorrect 1 2 3]))"
  using certificate_errors_roundtrip [OF sample_conv_law, of "L1InfoRootIncorrect 1 2 3"] by simp

end
