(* ===== verification/AgglayerClient.thy ===== *)
theory AgglayerClient
  imports Aggregator
begin

text \<open>
  Transactions of verified batches (\<open>src/agglayer/tx.go\<close>) and the client of the agglayer (\<open>src/agglayer/client.go\<close>). The JSON-RPC
  call, the decoding of its results, the textual forms of numbers and bytes and the signatures are arguments.
\<close>

section \<open>Transactions\<close>

record SignedTx =
  sx_Tx :: agl_Tx
  sx_Signature :: bytes

text \<open>\<open>ArgUint64.Hex\<close> and \<open>ArgBytes.Hex\<close> print \<open>0x\<close> and the digits.\<close>

record arg_hex =
  ah_Uint64 :: "u64 \<Rightarrow> string"
  ah_Bytes :: "bytes \<Rightarrow> string"

definition tx_data :: "arg_hex \<Rightarrow> agl_Tx \<Rightarrow> bytes" where
  "tx_data A t = ascii (ah_Uint64 A (at_LastVerifiedBatch t)) @ ascii (ah_Uint64 A (at_NewVerifiedBatch t)) @
     hash_bytes (at_NewStateRoot t) @ hash_bytes (at_NewLocalExitRoot t) @ ascii (ah_Bytes A (at_Proof t))"

definition Tx_Hash :: "keccak \<Rightarrow> arg_hex \<Rightarrow> agl_Tx \<Rightarrow> hash" where
  "Tx_Hash K A t = K (tx_data A t)"

definition Tx_Sign :: "keccak \<Rightarrow> arg_hex \<Rightarrow> (hash \<Rightarrow> error + bytes) \<Rightarrow> agl_Tx \<Rightarrow> error + SignedTx" where
  "Tx_Sign K A crypto_Sign t =
     (case crypto_Sign (Tx_Hash K A t) of Inl x \<Rightarrow> Inl x | Inr sig \<Rightarrow> Inr \<lparr>sx_Tx = t, sx_Signature = sig\<rparr>)"

definition SignedTx_Signer :: "keccak \<Rightarrow> arg_hex \<Rightarrow> (hash \<Rightarrow> bytes \<Rightarrow> error + address) \<Rightarrow> SignedTx \<Rightarrow> error + address" where
  "SignedTx_Signer K A recover s = recover (Tx_Hash K A (sx_Tx s)) (sx_Signature s)"

section \<open>The client\<close>

record rpc_response =
  rs_Result :: bytes
  rs_Error :: "(int \<times> string) option"

definition ErrAgglayerRateLimitExceeded :: error where
  "ErrAgglayerRateLimitExceeded = ErrMsg ''agglayer rate limit exceeded''"

definition rpc_error :: "int \<times> string \<Rightarrow> error" where
  "rpc_error e = ErrMsg (snd e)"

text \<open>What all calls do with a response: the error of the call, the error in the response, or the decoded result.\<close>

definition call_result :: "(bytes \<Rightarrow> error + 'a) \<Rightarrow> error + rpc_response \<Rightarrow> error + 'a" where
  "call_result unmarshal r =
     (case r of
        Inl x \<Rightarrow> Inl x
      | Inr response \<Rightarrow>
          (case rs_Error response of Some e \<Rightarrow> Inl (rpc_error e) | None \<Rightarrow> unmarshal (rs_Result response)))"

definition agl_SendTx :: "(SignedTx \<Rightarrow> error + rpc_response) \<Rightarrow> (bytes \<Rightarrow> error + hash) \<Rightarrow> SignedTx \<Rightarrow> error + hash" where
  "agl_SendTx call_sendTx unmarshal signedTx =
     (case call_sendTx signedTx of
        Inr response \<Rightarrow>
          if \<exists>m. rs_Error response = Some (- 10007, m) then Inl ErrAgglayerRateLimitExceeded
          else call_result unmarshal (Inr response)
      | Inl x \<Rightarrow> Inl x)"

definition agl_SendCertificate ::
  "(SignedCertificate \<Rightarrow> error + rpc_response) \<Rightarrow> (bytes \<Rightarrow> error + hash) \<Rightarrow> SignedCertificate \<Rightarrow> error + hash"
where
  "agl_SendCertificate call_sendCertificate unmarshal certificate =
     call_result unmarshal (call_sendCertificate (CopyWithDefaulting certificate))"

text \<open>The results of the next two are pointers: a result \<open>null\<close> is \<open>None\<close>, without an error.\<close>

definition agl_GetCertificateHeader ::
  "(hash \<Rightarrow> error + rpc_response) \<Rightarrow> (bytes \<Rightarrow> error + CertificateHeader option) \<Rightarrow> hash \<Rightarrow> error + CertificateHeader option"
where
  "agl_GetCertificateHeader call_header unmarshal certificateHash = call_result unmarshal (call_header certificateHash)"

record ClockConfiguration =
  ck_EpochDuration :: u64
  ck_GenesisBlock :: u64

definition agl_GetEpochConfiguration ::
  "(error + rpc_response) \<Rightarrow> (bytes \<Rightarrow> error + ClockConfiguration option) \<Rightarrow> error + ClockConfiguration option"
where
  "agl_GetEpochConfiguration response unmarshal = call_result unmarshal response"

definition ToLower :: "string \<Rightarrow> string" where
  "ToLower s = map (\<lambda>c. if 65 \<le> code c \<and> code c \<le> 90 then char_of (code c + 32) else c) s"

text \<open>
  The loop of \<open>WaitTxToBeMined\<close>: \<open>tick n\<close> is what its \<open>n\<close>-th selection yields, \<open>None\<close> for the context that is done.
  It returns \<open>Some None\<close> when the transaction is mined.
\<close>

partial_function (option) wait_tx :: "(bytes \<Rightarrow> error + string) \<Rightarrow> (nat \<Rightarrow> (error + rpc_response) option) \<Rightarrow> nat \<Rightarrow> error option option" where
  "wait_tx unmarshal tick n =
     (case tick n of
        None \<Rightarrow> Some (Some (ErrMsg ''context finished before tx was mined''))
      | Some r \<Rightarrow>
          (case call_result unmarshal r of
             Inl x \<Rightarrow> Some (Some x)
           | Inr result \<Rightarrow> if ToLower result = ''done'' then Some None else wait_tx unmarshal tick (Suc n)))"

declare wait_tx.simps [code]

definition agl_WaitTxToBeMined :: "(bytes \<Rightarrow> error + string) \<Rightarrow> (nat \<Rightarrow> (error + rpc_response) option) \<Rightarrow> error option option" where
  "agl_WaitTxToBeMined unmarshal tick = wait_tx unmarshal tick 0"

section \<open>The identity of a transaction\<close>

definition arg_hex_law :: "arg_hex \<Rightarrow> bool" where
  "arg_hex_law A \<longleftrightarrow> (\<forall>n. ah_Uint64 A n = ''0x'' @ nat_hex (unat n)) \<and> (\<forall>b. ah_Bytes A b = ''0x'' @ EncodeToString b)"

lemma hex_char_not_x: "d < 16 \<Longrightarrow> hex_char d \<noteq> CHR ''x''"
  using hex_char_sign by blast

lemma no_x_nat_hex: "CHR ''x'' \<notin> set (nat_hex n)"
proof (induction n rule: nat_hex.induct)
  case (1 n)
  then show ?case using hex_char_not_x [of n] hex_char_not_x [of "n mod 16"] by (subst nat_hex.simps) auto
qed

lemma no_x_EncodeToString: "CHR ''x'' \<notin> set (EncodeToString bs)"
proof (induction bs)
  case (Cons b bs)
  then show ?case
    using hex_char_not_x [OF byte_hex_digits(1), of b] hex_char_not_x [OF byte_hex_digits(2), of b]
    by (auto simp: EncodeToString_Cons byte_hex_def)
qed (simp add: EncodeToString_def)

lemma nat_hex_inj: "nat_hex m = nat_hex n \<longleftrightarrow> m = n"
  by (metis hex_value_nat_hex add_0 mult_zero_left option.inject)

lemma EncodeToString_inj: "EncodeToString xs = EncodeToString ys \<longleftrightarrow> xs = ys"
  by (metis DecodeString_EncodeToString sum.inject(2))

lemma char_of_ascii: "char_of (unat (of_char c :: u8)) = c"
proof -
  have "of_nat (horner_sum of_bool 2 bs) = (horner_sum of_bool 2 bs :: u8)" for bs :: "bool list"
    by (induction bs) simp_all
  then have "(of_char c :: u8) = of_nat (of_char c)" by (cases c) (simp only: of_char_Char)
  then have "unat (of_char c :: u8) = of_char c" by (simp only: unsigned_of_nat take_bit_eq_mod) simp
  then show ?thesis by simp
qed

lemma ascii_inj: "ascii s = ascii t \<longleftrightarrow> s = t"
proof
  assume "ascii s = ascii t"
  moreover have "map (\<lambda>b. char_of (unat b)) (ascii s) = s" for s by (simp add: ascii_def comp_def char_of_ascii)
  ultimately show "s = t" by metis
qed simp

lemma not_in_ascii: "c \<notin> set s \<Longrightarrow> of_char c \<notin> set (ascii s)"
  using char_of_ascii by (auto simp: ascii_def) metis

lemma ascii_append: "ascii (s @ t) = ascii s @ ascii t"
  by (simp add: ascii_def)

lemma first_split:
  assumes "x \<notin> set xs" and "x \<notin> set xs'"
  shows "xs @ x # ys = xs' @ x # ys' \<longleftrightarrow> xs = xs' \<and> ys = ys'"
  using assms
proof (induction xs arbitrary: xs')
  case Nil
  then show ?case by (cases xs') auto
next
  case (Cons a xs)
  then show ?case by (cases xs') auto
qed

lemma last_split:
  assumes "x \<notin> set ys" and "x \<notin> set ys'"
  shows "xs @ x # ys = xs' @ x # ys' \<longleftrightarrow> xs = xs' \<and> ys = ys'"
proof -
  have "xs @ x # ys = xs' @ x # ys' \<longleftrightarrow> rev ys @ x # rev xs = rev ys' @ x # rev xs'"
    by (metis append_assoc append_Cons append_Nil rev.simps(2) rev_append rev_rev_ident)
  with first_split [of x "rev ys" "rev ys'"] assms show ?thesis by auto
qed

lemma tx_data_pieces:
  assumes "arg_hex_law A"
  shows "tx_data A t = ascii ''0x'' @ (ascii (nat_hex (unat (at_LastVerifiedBatch t)) @ ''0'')) @ of_char CHR ''x'' #
    ((ascii (nat_hex (unat (at_NewVerifiedBatch t))) @ hash_bytes (at_NewStateRoot t) @ hash_bytes (at_NewLocalExitRoot t) @ ascii ''0'') @
      of_char CHR ''x'' # ascii (EncodeToString (at_Proof t)))"
  using assms by (simp add: tx_data_def arg_hex_law_def ascii_def)

lemma tx_data_inj:
  assumes "arg_hex_law A" and "tx_data A t = tx_data A t'"
  shows "t' = t\<lparr>at_RollupID := at_RollupID t'\<rparr>"
proof -
  let ?x = "of_char CHR ''x'' :: u8"
  let ?d = "\<lambda>n. ascii (nat_hex (unat (n :: u64)))"
  have x: "?x \<notin> set (ascii (nat_hex n @ ''0''))" "?x \<notin> set (ascii (EncodeToString bs))" for n bs
    by (rule not_in_ascii; simp add: no_x_nat_hex no_x_EncodeToString)+
  from assms(2) have "ascii (nat_hex (unat (at_LastVerifiedBatch t)) @ ''0'') = ascii (nat_hex (unat (at_LastVerifiedBatch t')) @ ''0'')"
    and r: "(?d (at_NewVerifiedBatch t) @ hash_bytes (at_NewStateRoot t) @ hash_bytes (at_NewLocalExitRoot t) @ ascii ''0'') @ ?x # ascii (EncodeToString (at_Proof t)) =
      (?d (at_NewVerifiedBatch t') @ hash_bytes (at_NewStateRoot t') @ hash_bytes (at_NewLocalExitRoot t') @ ascii ''0'') @ ?x # ascii (EncodeToString (at_Proof t'))"
    unfolding tx_data_pieces [OF assms(1)] same_append_eq first_split [OF x(1) x(1)] by blast+
  then have l: "at_LastVerifiedBatch t = at_LastVerifiedBatch t'" by (simp add: ascii_inj nat_hex_inj word_unat_eq_iff)
  from r have "?d (at_NewVerifiedBatch t) @ hash_bytes (at_NewStateRoot t) @ hash_bytes (at_NewLocalExitRoot t) @ ascii ''0'' =
      ?d (at_NewVerifiedBatch t') @ hash_bytes (at_NewStateRoot t') @ hash_bytes (at_NewLocalExitRoot t') @ ascii ''0''"
    and p: "at_Proof t = at_Proof t'" unfolding last_split [OF x(2) x(2)] by (simp_all add: ascii_inj EncodeToString_inj)
  then have "?d (at_NewVerifiedBatch t) = ?d (at_NewVerifiedBatch t')" "at_NewStateRoot t = at_NewStateRoot t'"
    "at_NewLocalExitRoot t = at_NewLocalExitRoot t'" by (simp_all add: append_eq_append_conv hash_bytes_inj)
  then show ?thesis using l p by (simp add: ascii_inj nat_hex_inj word_unat_eq_iff)
qed

text \<open>The hash of a transaction identifies its batches, roots and proof, and nothing else: two transactions with the same hash differ in at
  most the rollup, unless keccak collides, although numbers and bytes are concatenated in variable length; and changing the rollup
  never changes the hash, so that a signature for one rollup is a signature for every other.\<close>

theorem Tx_Hash_identifies:
  assumes "arg_hex_law A" and "Tx_Hash K A t = Tx_Hash K A t'"
  shows "(t' = t\<lparr>at_RollupID := at_RollupID t'\<rparr> \<or> (\<exists>x y. x \<noteq> y \<and> K x = K y)) \<and>
    (\<forall>rollup recover sig. SignedTx_Signer K A recover \<lparr>sx_Tx = t\<lparr>at_RollupID := rollup\<rparr>, sx_Signature = sig\<rparr> =
       SignedTx_Signer K A recover \<lparr>sx_Tx = t, sx_Signature = sig\<rparr>)"
  using tx_data_inj [OF assms(1)] assms(2) by (auto simp: Tx_Hash_def SignedTx_Signer_def tx_data_def)

definition sample_arg_hex :: arg_hex where
  "sample_arg_hex = \<lparr>ah_Uint64 = (\<lambda>n. ''0x'' @ nat_hex (unat n)), ah_Bytes = (\<lambda>b. ''0x'' @ EncodeToString b)\<rparr>"

definition sample_agl_tx :: "u32 \<Rightarrow> agl_Tx" where
  "sample_agl_tx r = \<lparr>at_RollupID = r, at_LastVerifiedBatch = 4, at_NewVerifiedBatch = 18, at_NewStateRoot = 5,
     at_NewLocalExitRoot = 6, at_Proof = [1, 2]\<rparr>"

theorem Tx_Hash_identifies_witness:
  "SignedTx_Signer (\<lambda>bs. of_nat (length bs)) sample_arg_hex (\<lambda>h _. Inr (ucast h)) \<lparr>sx_Tx = sample_agl_tx 2, sx_Signature = []\<rparr> =
   SignedTx_Signer (\<lambda>bs. of_nat (length bs)) sample_arg_hex (\<lambda>h _. Inr (ucast h)) \<lparr>sx_Tx = sample_agl_tx 1, sx_Signature = []\<rparr>"
proof -
  let ?K = "\<lambda>bs. of_nat (length bs)"
  have A: "arg_hex_law sample_arg_hex" by (simp add: arg_hex_law_def sample_arg_hex_def)
  have "Tx_Hash ?K sample_arg_hex (sample_agl_tx 1) = Tx_Hash ?K sample_arg_hex (sample_agl_tx 2)"
    by (simp add: Tx_Hash_def tx_data_def sample_agl_tx_def)
  from Tx_Hash_identifies [OF A this] have "SignedTx_Signer ?K sample_arg_hex (\<lambda>h _. Inr (ucast h))
      \<lparr>sx_Tx = (sample_agl_tx 1)\<lparr>at_RollupID := 2\<rparr>, sx_Signature = []\<rparr> =
      SignedTx_Signer ?K sample_arg_hex (\<lambda>h _. Inr (ucast h)) \<lparr>sx_Tx = sample_agl_tx 1, sx_Signature = []\<rparr>" by blast
  then show ?thesis by (simp add: sample_agl_tx_def)
qed

text \<open>Waiting returns exactly if some selection is decisive: the context is done, the call fails, or the transaction is mined.\<close>

definition decisive :: "(bytes \<Rightarrow> error + string) \<Rightarrow> (error + rpc_response) option \<Rightarrow> bool" where
  "decisive unmarshal r \<longleftrightarrow>
     (case r of None \<Rightarrow> True | Some c \<Rightarrow> (case call_result unmarshal c of Inl _ \<Rightarrow> True | Inr s \<Rightarrow> ToLower s = ''done''))"

lemma wait_tx_first:
  assumes "decisive unmarshal (tick m)" and "\<forall>i. n \<le> i \<and> i < m \<longrightarrow> \<not> decisive unmarshal (tick i)" and "n \<le> m"
  shows "wait_tx unmarshal tick n = wait_tx unmarshal tick m \<and> wait_tx unmarshal tick m \<noteq> None"
  using assms
proof (induction "m - n" arbitrary: n)
  case 0
  then have "n = m" by simp
  moreover have "wait_tx unmarshal tick m \<noteq> None"
    using "0.prems"(1) by (subst wait_tx.simps) (auto simp: decisive_def split: option.splits sum.splits)
  ultimately show ?case by simp
next
  case (Suc k)
  then have nd: "\<not> decisive unmarshal (tick n)" by simp
  then have "wait_tx unmarshal tick n = wait_tx unmarshal tick (Suc n)"
    by (subst wait_tx.simps) (auto simp: decisive_def split: option.splits sum.splits)
  with Suc.hyps(1) [of "Suc n"] Suc.hyps(2) Suc.prems show ?case by simp
qed

end
