(* ===== verification/BridgeRpc.thy ===== *)
theory BridgeRpc
  imports Certificates LastGerSync ClaimSponsor
begin

text \<open>
  The endpoints of the bridge service (\<open>src/rpc/bridge.go\<close>) over the interfaces of \<open>src/rpc/bridge_interfaces.go\<close>. An interface is a
  record of functions; \<open>syncer_l1InfoTree\<close>, \<open>syncer_bridge\<close> and \<open>syncer_GERs\<close> are the syncers that \<open>src/cmd/run.go\<close> passes for them. A
  request sees one state of the tables. The counters of OpenTelemetry are left out.
\<close>

section \<open>The endpoints\<close>

record Bridger =
  bgr_GetProof :: "u32 \<Rightarrow> hash \<Rightarrow> error + Proof"
  bgr_GetRootByLER :: "hash \<Rightarrow> error + Root option"

record L1InfoTreer =
  it_GetInfoByIndex :: "u32 \<Rightarrow> error + L1InfoTreeLeaf"
  it_GetRollupExitTreeMerkleProof :: "u32 \<Rightarrow> hash \<Rightarrow> error + Proof"
  it_GetLocalExitRoot :: "u32 \<Rightarrow> hash \<Rightarrow> error + hash"
  it_GetLastInfo :: "error + L1InfoTreeLeaf"
  it_GetFirstInfo :: "error + L1InfoTreeLeaf"
  it_GetFirstInfoAfterBlock :: "u64 \<Rightarrow> error + L1InfoTreeLeaf"
  it_GetLastVerifiedBatches :: "u32 \<Rightarrow> error + VerifyBatches"
  it_GetFirstVerifiedBatches :: "u32 \<Rightarrow> error + VerifyBatches"
  it_GetFirstVerifiedBatchesAfterBlock :: "u32 \<Rightarrow> u64 \<Rightarrow> error + VerifyBatches"
  it_GetFirstL1InfoWithRollupExitRoot :: "hash \<Rightarrow> error + L1InfoTreeLeaf"

text \<open>\<open>ep_sponsor\<close>: the interface value of the sponsor is not nil; what it points to is an argument of the two endpoints that use it.\<close>

record BridgeEndpoints =
  ep_networkID :: u32
  ep_sponsor :: bool
  ep_l1InfoTree :: L1InfoTreer
  ep_injectedGERs :: "u32 \<Rightarrow> error + ger_Event"
  ep_bridgeL1 :: Bridger
  ep_bridgeL2 :: Bridger

record ClaimProof =
  cp_ProofLocalExitRoot :: Proof
  cp_ProofRollupExitRoot :: Proof
  cp_L1InfoTreeLeaf :: L1InfoTreeLeaf

text \<open>\<open>rpc.NewRPCError\<close> with the default code: the fixed part of the text and the error in it.\<close>

datatype RPCError = RPCError string "error option"

definition ErrNotOnL1Info :: error where
  "ErrNotOnL1Info = ErrMsg ''this bridge has not been included on the L1 Info Tree yet''"

text \<open>A nil root without an error is dereferenced.\<close>

definition root_index :: "Bridger \<Rightarrow> hash \<Rightarrow> error + u32" where
  "root_index bridge ler =
     (case bgr_GetRootByLER bridge ler of
        Inl e \<Rightarrow> Inl e
      | Inr None \<Rightarrow> Inl ErrPanic
      | Inr (Some root) \<Rightarrow> Inr (r_Index root))"

text \<open>
  The binary search over blocks that the next two functions write out: \<open>after\<close> returns the first entry at or after a block, \<open>idx\<close> the
  index of the root an entry carries. \<open>None\<close>: the loop never ends.
\<close>

partial_function (option) block_search ::
  "(u64 \<Rightarrow> error + 'a) \<Rightarrow> ('a \<Rightarrow> error + u32) \<Rightarrow> u32 \<Rightarrow> u64 \<Rightarrow> u64 \<Rightarrow> 'a \<Rightarrow> (error + 'a) option"
where
  "block_search after idx depositCount lowerLimit upperLimit bestResult =
     (if lowerLimit \<le> upperLimit
      then let targetBlock = lowerLimit + (upperLimit - lowerLimit) div 2 in
        (case after targetBlock of
           Inl e \<Rightarrow> Some (Inl e)
         | Inr target \<Rightarrow>
             (case idx target of
                Inl e \<Rightarrow> Some (Inl e)
              | Inr index \<Rightarrow>
                  if index < depositCount
                  then block_search after idx depositCount (targetBlock + 1) upperLimit bestResult
                  else if index = depositCount then Some (Inr target)
                  else block_search after idx depositCount lowerLimit (targetBlock - 1) target))
      else Some (Inr bestResult))"

definition getFirstL1InfoTreeIndexForL1Bridge :: "BridgeEndpoints \<Rightarrow> u32 \<Rightarrow> (error + u32) option" where
  "getFirstL1InfoTreeIndexForL1Bridge b depositCount =
     (case it_GetLastInfo (ep_l1InfoTree b) of
        Inl e \<Rightarrow> Some (Inl e)
      | Inr lastInfo \<Rightarrow>
     (case root_index (ep_bridgeL1 b) (lf_MainnetExitRoot lastInfo) of
        Inl e \<Rightarrow> Some (Inl e)
      | Inr index \<Rightarrow>
          if index < depositCount then Some (Inl ErrNotOnL1Info)
          else case it_GetFirstInfo (ep_l1InfoTree b) of
            Inl e \<Rightarrow> Some (Inl e)
          | Inr firstInfo \<Rightarrow>
              map_option (map_sum id lf_L1InfoTreeIndex)
                (block_search (it_GetFirstInfoAfterBlock (ep_l1InfoTree b))
                   (\<lambda>targetInfo. root_index (ep_bridgeL1 b) (lf_MainnetExitRoot targetInfo)) depositCount
                   (lf_BlockNumber firstInfo) (lf_BlockNumber lastInfo) lastInfo)))"

definition getFirstL1InfoTreeIndexForL2Bridge :: "BridgeEndpoints \<Rightarrow> u32 \<Rightarrow> (error + u32) option" where
  "getFirstL1InfoTreeIndexForL2Bridge b depositCount =
     (case it_GetLastVerifiedBatches (ep_l1InfoTree b) (ep_networkID b - 1) of
        Inl e \<Rightarrow> Some (Inl e)
      | Inr lastVerified \<Rightarrow>
     (case root_index (ep_bridgeL2 b) (vb_ExitRoot lastVerified) of
        Inl e \<Rightarrow> Some (Inl e)
      | Inr index \<Rightarrow>
          if index < depositCount then Some (Inl ErrNotOnL1Info)
          else case it_GetFirstVerifiedBatches (ep_l1InfoTree b) (ep_networkID b - 1) of
            Inl e \<Rightarrow> Some (Inl e)
          | Inr firstVerified \<Rightarrow>
              map_option
                (\<lambda>r. case r of
                   Inl e \<Rightarrow> Inl e
                 | Inr bestResult \<Rightarrow>
                     map_sum id lf_L1InfoTreeIndex
                       (it_GetFirstL1InfoWithRollupExitRoot (ep_l1InfoTree b) (vb_RollupExitRoot bestResult)))
                (block_search (it_GetFirstVerifiedBatchesAfterBlock (ep_l1InfoTree b) (ep_networkID b - 1))
                   (\<lambda>targetVerified. root_index (ep_bridgeL2 b) (vb_ExitRoot targetVerified)) depositCount
                   (vb_BlockNumber firstVerified) (vb_BlockNumber lastVerified) lastVerified)))"

definition index_result :: "(error + u32) option \<Rightarrow> (RPCError + u32) option" where
  "index_result r = map_option (map_sum (\<lambda>e. RPCError ''failed to get l1InfoTreeIndex'' (Some e)) id) r"

definition unsupported_network :: RPCError where
  "unsupported_network = RPCError ''this client does not support network'' None"

definition L1InfoTreeIndexForBridge :: "BridgeEndpoints \<Rightarrow> u32 \<Rightarrow> u32 \<Rightarrow> (RPCError + u32) option" where
  "L1InfoTreeIndexForBridge b networkID depositCount =
     (if networkID = 0 then index_result (getFirstL1InfoTreeIndexForL1Bridge b depositCount)
      else if networkID = ep_networkID b then index_result (getFirstL1InfoTreeIndexForL2Bridge b depositCount)
      else Some (Inl unsupported_network))"

definition rpc_result :: "string \<Rightarrow> error + 'a \<Rightarrow> RPCError + 'a" where
  "rpc_result text r = map_sum (\<lambda>e. RPCError text (Some e)) id r"

definition InjectedInfoAfterIndex :: "BridgeEndpoints \<Rightarrow> u32 \<Rightarrow> u32 \<Rightarrow> RPCError + L1InfoTreeLeaf" where
  "InjectedInfoAfterIndex b networkID l1InfoTreeIndex =
     (if networkID = 0
      then rpc_result ''failed to get global exit root'' (it_GetInfoByIndex (ep_l1InfoTree b) l1InfoTreeIndex)
      else if networkID = ep_networkID b
      then rpc_result ''failed to get global exit root''
             (case ep_injectedGERs b l1InfoTreeIndex of
                Inl e \<Rightarrow> Inl e
              | Inr e \<Rightarrow> it_GetInfoByIndex (ep_l1InfoTree b) (ev_L1InfoTreeIndex e))
      else Inl unsupported_network)"

text \<open>The rollup exit proof is asked for with the global exit root of the leaf.\<close>

definition rpc_GetProof :: "BridgeEndpoints \<Rightarrow> u32 \<Rightarrow> u32 \<Rightarrow> u32 \<Rightarrow> RPCError + ClaimProof" where
  "rpc_GetProof b networkID depositCount l1InfoTreeIndex =
     (case it_GetInfoByIndex (ep_l1InfoTree b) l1InfoTreeIndex of
        Inl e \<Rightarrow> Inl (RPCError ''failed to get info from the tree'' (Some e))
      | Inr info \<Rightarrow>
     (case it_GetRollupExitTreeMerkleProof (ep_l1InfoTree b) networkID (lf_GlobalExitRoot info) of
        Inl e \<Rightarrow> Inl (RPCError ''failed to get rollup exit proof'' (Some e))
      | Inr proofRollupExitRoot \<Rightarrow>
          let claim_proof = (\<lambda>proofLocalExitRoot.
                \<lparr>cp_ProofLocalExitRoot = proofLocalExitRoot, cp_ProofRollupExitRoot = proofRollupExitRoot,
                 cp_L1InfoTreeLeaf = info\<rparr>)
          in
          if networkID = 0
          then rpc_result ''failed to get local exit proof''
                 (map_sum id claim_proof (bgr_GetProof (ep_bridgeL1 b) depositCount (lf_MainnetExitRoot info)))
          else if networkID = ep_networkID b
          then (case it_GetLocalExitRoot (ep_l1InfoTree b) networkID (lf_RollupExitRoot info) of
                  Inl e \<Rightarrow> Inl (RPCError ''failed to get local exit root from rollup exit tree'' (Some e))
                | Inr localExitRoot \<Rightarrow>
                    rpc_result ''failed to get local exit proof''
                      (map_sum id claim_proof (bgr_GetProof (ep_bridgeL2 b) depositCount localExitRoot)))
          else Inl unsupported_network))"

definition no_sponsor :: RPCError where
  "no_sponsor = RPCError ''this client does not support claim sponsoring'' None"

text \<open>The queue of the sponsor; \<open>None\<close>: the pointer in the interface is nil, and the method panics.\<close>

definition SponsorClaim ::
  "io \<Rightarrow> BridgeEndpoints \<Rightarrow> cs_Claim \<Rightarrow> cs_Claim list option \<Rightarrow> cs_Claim list option \<times> RPCError option"
where
  "SponsorClaim io b c sponsor =
     (if \<not> ep_sponsor b then (sponsor, Some no_sponsor)
      else if cs_DestinationNetwork c \<noteq> ep_networkID b
      then (sponsor, Some (RPCError ''this client only sponsors claims for network'' None))
      else case sponsor of
             None \<Rightarrow> (sponsor, Some (RPCError [] (Some ErrPanic)))
           | Some queue \<Rightarrow>
               (case AddClaimToQueue io c queue of
                  (queue', Some e) \<Rightarrow> (Some queue', Some (RPCError ''error adding claim to the queue'' (Some e)))
                | (queue', None) \<Rightarrow> (Some queue', None)))"

definition GetSponsoredClaimStatus ::
  "io \<Rightarrow> BridgeEndpoints \<Rightarrow> int \<Rightarrow> cs_Claim list option \<Rightarrow> RPCError + ClaimStatus"
where
  "GetSponsoredClaimStatus io b globalIndex sponsor =
     (if \<not> ep_sponsor b then Inl no_sponsor
      else case sponsor of
             None \<Rightarrow> Inl (RPCError [] (Some ErrPanic))
           | Some queue \<Rightarrow> rpc_result ''failed to get claim status'' (map_sum id cs_Status (GetClaim io globalIndex queue)))"

section \<open>The syncers behind the interfaces\<close>

definition syncer_l1InfoTree :: "io \<Rightarrow> l1_processor \<Rightarrow> L1InfoTreer" where
  "syncer_l1InfoTree io p =
     \<lparr>it_GetInfoByIndex = s_GetInfoByIndex io p,
      it_GetRollupExitTreeMerkleProof = GetRollupExitTreeMerkleProof io p,
      it_GetLocalExitRoot = GetLocalExitRoot io p,
      it_GetLastInfo = s_GetLastInfo io p,
      it_GetFirstInfo = s_GetFirstInfo io p,
      it_GetFirstInfoAfterBlock = s_GetFirstInfoAfterBlock io p,
      it_GetLastVerifiedBatches = s_GetLastVerifiedBatches io p,
      it_GetFirstVerifiedBatches = s_GetFirstVerifiedBatches io p,
      it_GetFirstVerifiedBatchesAfterBlock = s_GetFirstVerifiedBatchesAfterBlock io p,
      it_GetFirstL1InfoWithRollupExitRoot = s_GetFirstL1InfoWithRollupExitRoot io p\<rparr>"

definition syncer_bridge :: "io \<Rightarrow> error option \<Rightarrow> bridge_processor \<Rightarrow> Bridger" where
  "syncer_bridge io scan_nil p =
     \<lparr>bgr_GetProof = bridge_GetProof io p, bgr_GetRootByLER = GetRootByLER io scan_nil p\<rparr>"

definition syncer_GERs :: "io \<Rightarrow> ger_db \<Rightarrow> u32 \<Rightarrow> error + ger_Event" where
  "syncer_GERs io db = GetFirstGERAfterL1InfoTreeIndex io db"

text \<open>
  \<open>createRPC\<close> passes the pointer of the sponsor, which is nil when the node has none, as an interface: the interface value is not nil.
\<close>

definition NewBridgeEndpoints ::
  "u32 \<Rightarrow> bool \<Rightarrow> L1InfoTreer \<Rightarrow> (u32 \<Rightarrow> error + ger_Event) \<Rightarrow> Bridger \<Rightarrow> Bridger \<Rightarrow> BridgeEndpoints"
where
  "NewBridgeEndpoints networkID sponsor l1InfoTree injectedGERs bridgeL1 bridgeL2 =
     \<lparr>ep_networkID = networkID, ep_sponsor = sponsor, ep_l1InfoTree = l1InfoTree, ep_injectedGERs = injectedGERs,
      ep_bridgeL1 = bridgeL1, ep_bridgeL2 = bridgeL2\<rparr>"

definition createRPC ::
  "io \<Rightarrow> error option \<Rightarrow> u32 \<Rightarrow> l1_processor \<Rightarrow> ger_db \<Rightarrow> bridge_processor \<Rightarrow> bridge_processor \<Rightarrow> BridgeEndpoints"
where
  "createRPC io scan_nil cdkNetworkID l1InfoTree injectedGERs bridgeL1 bridgeL2 =
     NewBridgeEndpoints cdkNetworkID True (syncer_l1InfoTree io l1InfoTree) (syncer_GERs io injectedGERs)
       (syncer_bridge io scan_nil bridgeL1) (syncer_bridge io scan_nil bridgeL2)"

section \<open>Binary search over blocks\<close>

lemma target_block:
  fixes lower upper :: u64
  assumes "lower \<le> upper"
  shows "lower \<le> lower + (upper - lower) div 2" and "lower + (upper - lower) div 2 \<le> upper"
proof -
  have le: "unat lower \<le> unat upper" using assms by (simp add: word_le_nat_alt)
  have "unat ((upper - lower) div 2) = (unat upper - unat lower) div 2"
    using assms by (simp add: unat_div_distrib unat_sub)
  moreover have "unat lower + (unat upper - unat lower) div 2 < 2 ^ 64"
    using le unsigned_less [where 'a = nat and w = upper] by simp
  ultimately have u: "unat (lower + (upper - lower) div 2) = unat lower + (unat upper - unat lower) div 2"
    by (simp add: unat_word_ariths)
  show "lower \<le> lower + (upper - lower) div 2" "lower + (upper - lower) div 2 \<le> upper"
    using le by (simp_all add: word_le_nat_alt u)
qed

lemma unat_minus_one_u64: "unat (- 1 :: u64) = 2 ^ 64 - 1"
  by (simp add: unsigned_minus_1_eq_mask mask_eq_exp_minus_1)

lemma unat_Suc_u64: "unat t < 2 ^ 64 - 1 \<Longrightarrow> unat (t + 1) = unat t + 1" for t :: u64
  by (simp add: unat_word_ariths)

lemma unat_pred_u64: "0 < unat t \<Longrightarrow> unat (t - 1) = unat t - 1" for t :: u64
  by unat_arith

lemma below_next: "x < t + 1 \<Longrightarrow> x \<le> t" for x t :: u64
  by unat_arith

lemma above_previous: "t - 1 < x \<Longrightarrow> t \<le> x" for x t :: u64
  by unat_arith

text \<open>The entries are ordered by block and position in the block. An entry opens its block if no entry of the block is before it.\<close>

definition opens_block :: "'a set \<Rightarrow> ('a \<Rightarrow> u64 \<times> u64) \<Rightarrow> 'a \<Rightarrow> bool" where
  "opens_block rows key y \<longleftrightarrow> (\<forall>z\<in>rows. fst (key z) = fst (key y) \<longrightarrow> key y \<le> key z)"

text \<open>Exit trees only grow: a later entry has a root with at least the same index.\<close>

definition grows :: "'a set \<Rightarrow> ('a \<Rightarrow> u64 \<times> u64) \<Rightarrow> ('a \<Rightarrow> error + u32) \<Rightarrow> bool" where
  "grows rows key idx \<longleftrightarrow>
     (\<forall>y\<in>rows. \<forall>z\<in>rows. \<forall>i j. key y \<le> key z \<longrightarrow> idx y = Inr i \<longrightarrow> idx z = Inr j \<longrightarrow> i \<le> j)"

text \<open>\<open>x\<close> contains the deposit \<open>d\<close>; unless the deposit is its last one, no entry that opens an earlier block contains it.\<close>

definition found :: "'a set \<Rightarrow> ('a \<Rightarrow> u64 \<times> u64) \<Rightarrow> ('a \<Rightarrow> error + u32) \<Rightarrow> u32 \<Rightarrow> 'a \<Rightarrow> bool" where
  "found rows key idx d x \<longleftrightarrow> x \<in> rows \<and> (\<exists>i. idx x = Inr i \<and> d \<le> i \<and>
     (i = d \<or> (\<forall>y\<in>rows. \<forall>j. opens_block rows key y \<longrightarrow> key y < key x \<longrightarrow> idx y = Inr j \<longrightarrow> j < d)))"

text \<open>
  What the search relies on: \<open>after\<close> returns the least entry at or
  after a block; it fails on a fault, \<open>stuck\<close>, or when there is no such entry.
\<close>

locale block_index =
  fixes rows :: "'a set" and key :: "'a \<Rightarrow> u64 \<times> u64" and after :: "u64 \<Rightarrow> error + 'a" and stuck :: "u64 \<Rightarrow> bool"
  assumes after_row: "after b = Inr x \<Longrightarrow> x \<in> rows \<and> b \<le> fst (key x)"
    and after_least: "after b = Inr x \<Longrightarrow> y \<in> rows \<Longrightarrow> b \<le> fst (key y) \<Longrightarrow> key x \<le> key y"
    and after_fails: "after b = Inl e \<Longrightarrow> \<not> stuck b \<Longrightarrow> y \<in> rows \<Longrightarrow> fst (key y) < b"
begin

definition search_inv :: "('a \<Rightarrow> error + u32) \<Rightarrow> u32 \<Rightarrow> u64 \<Rightarrow> u64 \<Rightarrow> 'a \<Rightarrow> bool" where
  "search_inv idx d lower upper best \<longleftrightarrow>
     best \<in> rows \<and> (\<exists>i. idx best = Inr i \<and> d \<le> i) \<and>
     (\<forall>y\<in>rows. \<forall>j. opens_block rows key y \<longrightarrow> fst (key y) < lower \<longrightarrow> idx y = Inr j \<longrightarrow> j < d) \<and>
     (\<forall>y\<in>rows. upper < fst (key y) \<longrightarrow> key best \<le> key y)"

lemma opens_block_le:
  assumes "after b = Inr x" and "y \<in> rows" and "opens_block rows key y" and "fst (key y) \<le> b"
  shows "key y \<le> key x"
  using assms after_row [OF assms(1)] by (fastforce simp: opens_block_def less_eq_prod_def)

lemma search_inv_up:
  assumes "search_inv idx d lower upper best" and "grows rows key idx" and "after t = Inr x" and "idx x = Inr i" and "i < d"
  shows "search_inv idx d (t + 1) upper best"
proof -
  have "j < d" if "y \<in> rows" "opens_block rows key y" "fst (key y) < t + 1" "idx y = Inr j" for y j
  proof -
    have "key y \<le> key x" using opens_block_le [OF assms(3) that(1,2)] below_next that(3) by blast
    then have "j \<le> i" using assms(2,4) that(1,4) after_row [OF assms(3)] by (auto simp: grows_def)
    with assms(5) show ?thesis by simp
  qed
  with assms(1) show ?thesis by (auto simp: search_inv_def)
qed

lemma search_inv_down:
  assumes "search_inv idx d lower upper best" and "after t = Inr x" and "idx x = Inr i" and "d \<le> i"
  shows "search_inv idx d lower (t - 1) x"
  using assms after_row [OF assms(2)] after_least [OF assms(2)] above_previous by (auto simp: search_inv_def)

lemma search_inv_end:
  assumes "search_inv idx d lower upper best" and "upper < lower"
  shows "found rows key idx d best"
proof -
  have "fst (key y) < lower" if "y \<in> rows" "key y < key best" for y
  proof -
    have "\<not> upper < fst (key y)" using assms(1) that by (auto simp: search_inv_def)
    with assms(2) show ?thesis by simp
  qed
  with assms(1) show ?thesis by (auto simp: search_inv_def found_def)
qed

lemma search_found:
  assumes "block_search after idx d lower upper best = Some (Inr x)" and gr: "grows rows key idx"
    and "search_inv idx d lower upper best"
  shows "found rows key idx d x"
proof -
  let ?P = "\<lambda>af ix dc lo up be r. af = after \<longrightarrow> ix = idx \<longrightarrow> dc = d \<longrightarrow> search_inv idx d lo up be \<longrightarrow> r = (Inr x :: error + 'a) \<longrightarrow> found rows key idx d x"
  have "?P after idx d lower upper best (Inr x)"
  proof (rule block_search.raw_induct [where P = ?P, OF _ assms(1)], goal_cases)
    case (1 bs af ix dc lo up be r)
    show ?case
    proof (intro impI)
      assume eq: "af = after" "ix = idx" "dc = d" and inv: "search_inv idx d lo up be" and r: "r = Inr x"
      let ?t = "lo + (up - lo) div 2"
      note body = 1(2) [unfolded eq r]
      show "found rows key idx d x"
      proof (cases "lo \<le> up")
        case False
        then show ?thesis using body search_inv_end [OF inv] by simp
      next
        case True
        with body obtain z i where z: "after ?t = Inr z" and i: "idx z = Inr i"
          by (auto simp: Let_def split: sum.splits)
        consider (lt) "i < d" | (eq) "i = d" | (gt) "d < i" by (meson linorder_less_linear)
        then show ?thesis
        proof cases
          case lt
          then have "bs after idx d (?t + 1) up be = Some (Inr x)" using True z i body by (simp add: Let_def)
          from 1(1) [OF this] search_inv_up [OF inv gr z i lt] show ?thesis by simp
        next
          case eq
          then show ?thesis using True z i body after_row [OF z] by (auto simp: Let_def found_def)
        next
          case gt
          then have "bs after idx d lo (?t - 1) z = Some (Inr x)" using True z i body by (auto simp: Let_def split: if_splits)
          from 1(1) [OF this] search_inv_down [OF inv z i] gt show ?thesis by simp
        qed
      qed
    qed
  qed
  with assms(3) show ?thesis by simp
qed

lemma search_total:
  assumes "0 < lower" and "upper < - 1" and "\<And>b. \<not> stuck b" and "z \<in> rows" and "upper \<le> fst (key z)"
    and "\<And>y. y \<in> rows \<Longrightarrow> \<exists>i. idx y = Inr i"
  shows "\<exists>x. block_search after idx d lower upper best = Some (Inr x)"
  using assms(1,2,5)
proof (induction "unat upper + 1 - unat lower" arbitrary: lower upper best rule: less_induct)
  case less
  let ?t = "lower + (upper - lower) div 2"
  show ?case
  proof (cases "lower \<le> upper")
    case False
    then show ?thesis by (subst block_search.simps) simp
  next
    case True
    note t = target_block [OF True]
    obtain x where x: "after ?t = Inr x"
      using after_fails [OF _ assms(3) assms(4)] t(2) less.prems(3) by (cases "after ?t") fastforce+
    obtain i where i: "idx x = Inr i" using after_row [OF x] assms(6) by blast
    have n: "unat lower \<le> unat ?t" "unat ?t \<le> unat upper" "unat lower \<le> unat upper" "0 < unat lower"
      using t True less.prems(1) by (simp_all add: word_le_nat_alt word_less_nat_alt)
    have m: "unat upper < 2 ^ 64 - 1" using less.prems(2) by (simp add: word_less_nat_alt unat_minus_one_u64)
    then have up: "unat (?t + 1) = unat ?t + 1" using n(2) by (subst unat_Suc_u64) simp_all
    then have up': "0 < ?t + 1" by (simp add: word_less_nat_alt)
    have dn: "unat (?t - 1) = unat ?t - 1" using n(1,4) by (subst unat_pred_u64) simp_all
    then have dn': "?t - 1 \<le> upper" "?t - 1 < - 1"
      using n(2) m by (simp_all add: word_le_nat_alt word_less_nat_alt unat_minus_one_u64)
    have "\<exists>x. block_search after idx d (?t + 1) upper best = Some (Inr x)"
      using less.hyps [of upper "?t + 1"] n up up' less.prems(2,3) by simp
    moreover have "\<exists>y. block_search after idx d lower (?t - 1) x = Some (Inr y)"
      using less.hyps [of "?t - 1" lower] n dn dn' less.prems(1,3) by auto
    ultimately show ?thesis using True x i by (subst block_search.simps) (auto simp: Let_def)
  qed
qed

end

text \<open>The leaves of the L1 info tree, and the verifications of a rollup.\<close>

lemma fst_keys [simp]: "fst (leaf_key l) = lf_BlockNumber l" "fst (vb_key v) = vb_BlockNumber v"
  by (simp_all add: leaf_key_def vb_key_def)

interpretation info: block_index "set (leaf_rows (lp_db p))" leaf_key "s_GetFirstInfoAfterBlock io p"
    "\<lambda>b. lp_halted p \<or> io (SqlSelect ''l1info_leaf'' [6, unat b])" for io p
  by unfold_locales
    (auto simp: s_GetFirstInfoAfterBlock_def unless_halted_def GetFirstInfoAfterBlock_def query_row_Inl
      filter_empty_conv not_le split: if_splits dest!: first_asc_Some)

interpretation verified: block_index "{v \<in> set (vb_rows (lp_db p)). vb_RollupID v = rollupID}" vb_key
    "s_GetFirstVerifiedBatchesAfterBlock io p rollupID"
    "\<lambda>b. lp_halted p \<or> io (SqlSelect ''verify_batches'' [2, unat rollupID, unat b])" for io p rollupID
  by unfold_locales
    (auto simp: s_GetFirstVerifiedBatchesAfterBlock_def unless_halted_def GetFirstVerifiedBatchesAfterBlock_def
      query_row_Inl filter_empty_conv not_le split: if_splits dest!: first_asc_Some)

section \<open>The index of a deposit on L1\<close>

definition mainnet_index :: "BridgeEndpoints \<Rightarrow> L1InfoTreeLeaf \<Rightarrow> error + u32" where
  "mainnet_index b l = root_index (ep_bridgeL1 b) (lf_MainnetExitRoot l)"

lemma last_info:
  assumes "s_GetLastInfo io p = Inr l"
  shows "l \<in> set (leaf_rows (lp_db p))" and "y \<in> set (leaf_rows (lp_db p)) \<Longrightarrow> leaf_key y \<le> leaf_key l"
  using assms by (auto simp: s_GetLastInfo_def GetLastInfo_def unless_halted_def split: if_splits dest: first_desc_Some)

lemma first_info:
  assumes "s_GetFirstInfo io p = Inr l"
  shows "l \<in> set (leaf_rows (lp_db p))" and "y \<in> set (leaf_rows (lp_db p)) \<Longrightarrow> leaf_key l \<le> leaf_key y"
  using assms by (auto simp: s_GetFirstInfo_def GetFirstInfo_def unless_halted_def split: if_splits dest: first_asc_Some)

lemma fst_mono: "x \<le> y \<Longrightarrow> fst x \<le> fst y" for x y :: "u64 \<times> u64"
  by (auto simp: less_eq_prod_def)

text \<open>The invariant of the search holds when it starts.\<close>

lemma search_starts:
  assumes "s_GetLastInfo io p = Inr la" and "s_GetFirstInfo io p = Inr fi" and "idx la = Inr i" and "d \<le> i"
  shows "info.search_inv p idx d (lf_BlockNumber fi) (lf_BlockNumber la) la"
proof -
  have "lf_BlockNumber fi \<le> lf_BlockNumber y \<and> lf_BlockNumber y \<le> lf_BlockNumber la"
    if "y \<in> set (leaf_rows (lp_db p))" for y
    using fst_mono [OF last_info(2) [OF assms(1) that]] fst_mono [OF first_info(2) [OF assms(2) that]] by simp
  then show ?thesis
    using last_info(1) [OF assms(1)] assms(3,4) unfolding info.search_inv_def by (force simp: not_less)
qed

lemma index_found:
  assumes "getFirstL1InfoTreeIndexForL1Bridge b d = Some (Inr i)" and "ep_l1InfoTree b = syncer_l1InfoTree io p"
    and "grows (set (leaf_rows (lp_db p))) leaf_key (mainnet_index b)"
  shows "\<exists>l. i = lf_L1InfoTreeIndex l \<and> found (set (leaf_rows (lp_db p))) leaf_key (mainnet_index b) d l"
proof -
  obtain la fi j l where r: "s_GetLastInfo io p = Inr la" "s_GetFirstInfo io p = Inr fi"
    "mainnet_index b la = Inr j" "d \<le> j" "i = lf_L1InfoTreeIndex l"
    and s: "block_search (s_GetFirstInfoAfterBlock io p) (mainnet_index b) d (lf_BlockNumber fi) (lf_BlockNumber la) la =
      Some (Inr l)"
    using assms(1,2)
    by (auto simp: getFirstL1InfoTreeIndexForL1Bridge_def syncer_l1InfoTree_def mainnet_index_def [abs_def] not_less
        map_sum_Inr_conv split: sum.splits if_splits)
  from info.search_found [OF s assms(3) search_starts [where idx = "mainnet_index b", OF r(1-4)]] r(5) show ?thesis by blast
qed

lemma index_decided:
  assumes "ep_l1InfoTree b = syncer_l1InfoTree io p" and "no_faults io" and "\<not> lp_halted p" and "leaf_rows (lp_db p) \<noteq> []"
    and "\<forall>l\<in>set (leaf_rows (lp_db p)). 0 < lf_BlockNumber l \<and> lf_BlockNumber l < - 1 \<and> (\<exists>i. mainnet_index b l = Inr i)"
    and "grows (set (leaf_rows (lp_db p))) leaf_key (mainnet_index b)"
  obtains (included) i where "getFirstL1InfoTreeIndexForL1Bridge b d = Some (Inr i)"
  | (absent) "getFirstL1InfoTreeIndexForL1Bridge b d = Some (Inl ErrNotOnL1Info)"
    and "\<forall>l\<in>set (leaf_rows (lp_db p)). \<forall>i. mainnet_index b l = Inr i \<longrightarrow> i < d"
proof -
  let ?rows = "set (leaf_rows (lp_db p))"
  obtain la fi where r: "s_GetLastInfo io p = Inr la" "s_GetFirstInfo io p = Inr fi"
    using assms(2-4) by (cases "first_desc leaf_key (leaf_rows (lp_db p))"; cases "first_asc leaf_key (leaf_rows (lp_db p))")
      (auto simp: s_GetLastInfo_def GetLastInfo_def s_GetFirstInfo_def GetFirstInfo_def unless_halted_def no_faults_def)
  note la = last_info [OF r(1)]
  obtain i where i: "mainnet_index b la = Inr i" using la(1) assms(5) by blast
  show thesis
  proof (cases "i < d")
    case True
    have "j < d" if "l \<in> ?rows" "mainnet_index b l = Inr j" for l j
      using assms(6) la that i True by (fastforce simp: grows_def)
    moreover have "getFirstL1InfoTreeIndexForL1Bridge b d = Some (Inl ErrNotOnL1Info)"
      using True r i assms(1) by (simp add: getFirstL1InfoTreeIndexForL1Bridge_def syncer_l1InfoTree_def mainnet_index_def)
    ultimately show thesis using absent by blast
  next
    case False
    have "\<exists>x. block_search (s_GetFirstInfoAfterBlock io p) (mainnet_index b) d (lf_BlockNumber fi) (lf_BlockNumber la) la = Some (Inr x)"
    proof (rule info.search_total)
      show "\<not> (lp_halted p \<or> io (SqlSelect ''l1info_leaf'' [6, unat c]))" for c using assms(2,3) by auto
      show "lf_BlockNumber la \<le> fst (leaf_key la)" by simp
    qed (use la(1) first_info(1) [OF r(2)] assms(5) in auto)
    then show thesis using included False r i assms(1)
      by (auto simp: getFirstL1InfoTreeIndexForL1Bridge_def syncer_l1InfoTree_def mainnet_index_def [abs_def])
  qed
qed

section \<open>The proof of a deposit\<close>

lemma bridge_proof_ok:
  assumes "bridge_inv K bp" and "no_faults io" and "r \<in> set (root_rows (exit_tree (bp_db bp)))" and "d \<le> r_Index r"
  shows "\<exists>bridge\<in>set (bridge_rows (bp_db bp)). \<exists>pf. br_DepositCount bridge = d \<and>
    bridge_GetProof io bp d (r_Hash r) = Inr pf \<and> CalculateRoot K (bridge_leaf K bridge) pf d = r_Hash r"
proof -
  let ?rows = "bridge_rows (bp_db bp)" and ?db = "exit_tree (bp_db bp)"
  have ai: "append_inv K ?db (map (bridge_leaf K) ?rows)" and tr: "tree_ok K (aot_Tree (bp_exitTree bp))"
    and dc: "map (unat \<circ> br_DepositCount) ?rows = [0..<length ?rows]"
    using assms(1) by (simp_all add: bridge_inv_def bridge_db_inv_def synced_def)
  from assms(3) obtain k where k: "k < length (root_rows ?db)" "r = root_rows ?db ! k" by (auto simp: in_set_conv_nth)
  with ai have ok: "k < length ?rows" "r_Index r = of_nat k" "r_Hash r = leaves_root K (take (Suc k) (map (bridge_leaf K) ?rows))"
    and len: "length ?rows \<le> 2 ^ DefaultHeight" by (auto simp: append_inv_def root_ok_def)
  have "unat (of_nat k :: u32) = k" using ok(1) len by (intro unat_of_nat_index) simp
  then have dk: "unat d \<le> k" using assms(4) ok(2) by (simp add: word_le_nat_alt)
  have "unat d < length (map (bridge_leaf K) ?rows)" "k < length (map (bridge_leaf K) ?rows)" using dk ok(1) by simp_all
  with append_proofs_ok [OF ai tr assms(2) dk] ok(3) obtain pf where
    p: "GetProof io (aot_Tree (bp_exitTree bp)) ?db (of_nat (unat d)) (r_Hash r) = Inr pf"
    "CalculateRoot K (map (bridge_leaf K) ?rows ! unat d) pf (of_nat (unat d)) = r_Hash r" by metis
  have "unat (br_DepositCount (?rows ! unat d)) = unat d"
    using arg_cong [OF dc, of "\<lambda>xs. xs ! unat d"] dk ok(1) by simp
  then have "br_DepositCount (?rows ! unat d) = d" by (simp only: word_unat_eq_iff)
  then show ?thesis using p ok(1) dk
    by (intro bexI [of _ "?rows ! unat d"] exI [of _ pf]) (simp_all add: bridge_GetProof_def)
qed

lemma leaf_index_unique:
  assumes "l1_proc_inv K p" and "x \<in> set (leaf_rows (lp_db p))" and "y \<in> set (leaf_rows (lp_db p))"
    and "lf_L1InfoTreeIndex x = lf_L1InfoTreeIndex y"
  shows "x = y"
proof -
  let ?rows = "leaf_rows (lp_db p)"
  have ix: "map lf_L1InfoTreeIndex ?rows = map of_nat [0..<length ?rows]" and len: "length ?rows \<le> 2 ^ DefaultHeight"
    using assms(1) by (simp_all add: l1_proc_inv_def l1_db_inv_def append_inv_def)
  have "unat (lf_L1InfoTreeIndex (?rows ! i)) = i" if "i < length ?rows" for i
    using arg_cong [OF ix, of "\<lambda>xs. xs ! i"] that len unat_of_nat_index [of i] by simp
  with assms(2-4) show ?thesis by (metis in_set_conv_nth)
qed

section \<open>Properties\<close>

text \<open>
  The search of the index endpoint, over any bridge that resolves exit roots as the interface means it (the node's own syncers do not, see
  below): on a node whose L1 info tree is not empty, with blocks away from the ends of the 64-bit range, with the exit root of every leaf
  known and roots that only grow, it returns the index of a leaf whose mainnet exit root contains the deposit, and unless the deposit is
  the last one of that root no leaf that opens an earlier block contains it; or no leaf contains the deposit.
\<close>

lemma bridge_index_decides:
  assumes "ep_l1InfoTree b = syncer_l1InfoTree io p" and "no_faults io" and "\<not> lp_halted p" and "leaf_rows (lp_db p) \<noteq> []"
    and "\<forall>l\<in>set (leaf_rows (lp_db p)). 0 < lf_BlockNumber l \<and> lf_BlockNumber l < - 1 \<and> (\<exists>i. mainnet_index b l = Inr i)"
    and "grows (set (leaf_rows (lp_db p))) leaf_key (mainnet_index b)"
  shows "(\<exists>l. L1InfoTreeIndexForBridge b 0 d = Some (Inr (lf_L1InfoTreeIndex l)) \<and>
      found (set (leaf_rows (lp_db p))) leaf_key (mainnet_index b) d l) \<or>
    L1InfoTreeIndexForBridge b 0 d = Some (Inl (RPCError ''failed to get l1InfoTreeIndex'' (Some ErrNotOnL1Info))) \<and>
      (\<forall>l\<in>set (leaf_rows (lp_db p)). \<forall>i. mainnet_index b l = Inr i \<longrightarrow> i < d)"
  using assms
proof (cases rule: index_decided [where d = d])
  case (included i)
  with index_found [OF included assms(1,6)] show ?thesis by (auto simp: L1InfoTreeIndexForBridge_def index_result_def)
next
  case absent
  then show ?thesis by (simp add: L1InfoTreeIndexForBridge_def index_result_def)
qed

text \<open>C13. The proof of a deposit on L1: on the node as it is wired, with both syncers in a consistent state, for a stored leaf of the L1 info tree whose
  mainnet exit root is a root the bridge syncer has stored, and for a deposit contained in that root, \<open>GetProof\<close> returns the
  leaf, an empty rollup proof, and a Merkle proof that verifies: hashing the bridge with that deposit count up along the
  proof gives the mainnet exit root of the leaf.\<close>

theorem rpc_proof_verifies:
  assumes "l1_proc_inv K p" and "\<not> lp_halted p" and "bridge_inv K bp1" and "no_faults io"
    and "l \<in> set (leaf_rows (lp_db p))" and "r \<in> set (root_rows (exit_tree (bp_db bp1)))"
    and "lf_MainnetExitRoot l = r_Hash r" and "d \<le> r_Index r"
  shows "\<exists>pf. \<exists>bridge\<in>set (bridge_rows (bp_db bp1)). br_DepositCount bridge = d \<and>
    rpc_GetProof (createRPC io scan_nil n p g bp1 bp2) 0 d (lf_L1InfoTreeIndex l) =
      Inr \<lparr>cp_ProofLocalExitRoot = pf, cp_ProofRollupExitRoot = EmptyProof, cp_L1InfoTreeLeaf = l\<rparr> \<and>
    CalculateRoot K (bridge_leaf K bridge) pf d = lf_MainnetExitRoot l"
proof -
  have g: "s_GetInfoByIndex io p (lf_L1InfoTreeIndex l) = Inr l"
    using leaf_index_unique [OF assms(1) _ assms(5)] assms(2,4,5)
    by (auto simp: s_GetInfoByIndex_def unless_halted_def l1_GetInfoByIndex_def no_faults_def query_row_def
        find_Some_iff find_None_iff split: option.splits)
  from bridge_proof_ok [OF assms(3,4,6,8)] g assms(2,7) show ?thesis
    by (fastforce simp: rpc_GetProof_def createRPC_def NewBridgeEndpoints_def syncer_l1InfoTree_def syncer_bridge_def
        GetRollupExitTreeMerkleProof_def unless_halted_def rpc_result_def)
qed

theorem rpc_proof_verifies_witness:
  "\<exists>bp p cp. bridge_rows (bp_db bp) = [sample_bridge] \<and>
     rpc_GetProof (createRPC (\<lambda>_. False) None 1 p \<lparr>ger_blk_rows = [], imported_rows = []\<rparr> bp bp) 0 0 0 = Inr cp \<and>
     CalculateRoot sample_keccak (bridge_leaf sample_keccak sample_bridge) (cp_ProofLocalExitRoot cp) 0 =
       lf_MainnetExitRoot (cp_L1InfoTreeLeaf cp)"
proof -
  obtain bp where bp: "bridge_inv sample_keccak bp" "bridge_rows (bp_db bp) = [sample_bridge]" by (rule sample_processed)
  then obtain r where r: "root_rows (exit_tree (bp_db bp)) = [r]" "r_Index r = 0"
    by (auto simp: bridge_inv_def bridge_db_inv_def append_inv_def root_ok_def length_Suc_conv)
  obtain lp where lp: "l1_proc_inv sample_keccak lp" "\<not> lp_halted lp"
    "leaf_rows (lp_db lp) = [new_leaf sample_keccak 7 0 sample_update]" by (rule sample_l1_processed)
  define l where "l = (new_leaf sample_keccak 7 0 sample_update)\<lparr>lf_MainnetExitRoot := r_Hash r\<rparr>"
  define p where "p = lp\<lparr>lp_db := (lp_db lp)\<lparr>leaf_rows := [l]\<rparr>\<rparr>"
  have inv: "l1_proc_inv sample_keccak p"
    using lp(1,3) by (auto simp: p_def l_def l1_proc_inv_def l1_db_inv_def leaf_key_def)
  have l: "leaf_rows (lp_db p) = [l]" "\<not> lp_halted p" "lf_MainnetExitRoot l = r_Hash r" "lf_L1InfoTreeIndex l = 0"
    using lp(2) by (simp_all add: p_def l_def)
  obtain pf where "rpc_GetProof (createRPC (\<lambda>_. False) None 1 p \<lparr>ger_blk_rows = [], imported_rows = []\<rparr> bp bp) 0 0 0 =
      Inr \<lparr>cp_ProofLocalExitRoot = pf, cp_ProofRollupExitRoot = EmptyProof, cp_L1InfoTreeLeaf = l\<rparr>"
    "CalculateRoot sample_keccak (bridge_leaf sample_keccak sample_bridge) pf 0 = lf_MainnetExitRoot l"
    using rpc_proof_verifies [OF inv l(2) bp(1), of "\<lambda>_. False" l r 0 None 1 "\<lparr>ger_blk_rows = [], imported_rows = []\<rparr>" bp] l r bp(2) by auto
  then show ?thesis using bp(2) by fastforce
qed

text \<open>The node as it is wired: the syncers' lookup of roots never returns one, and the lookup of a local exit root panics, so
  that the index endpoint never returns an index and \<open>GetProof\<close> never returns a proof for a deposit on L2.\<close>

lemma wired_endpoints_never_answer:
  "L1InfoTreeIndexForBridge (createRPC io scan_nil n p g bp1 bp2) m d \<noteq> Some (Inr i) \<and>
   {m. \<exists>cp. rpc_GetProof (createRPC io scan_nil n p g bp1 bp2) m d j = Inr cp} \<subseteq> {0}"
proof -
  let ?b = "createRPC io scan_nil n p g bp1 bp2"
  have r: "root_index (syncer_bridge io scan_nil bp) h = Inr k \<longleftrightarrow> False" for bp h k
    by (auto simp: root_index_def syncer_bridge_def GetRootByLER_def GetRootByHash_def split: sum.splits option.splits)
  have g: "GetLocalExitRoot io p k h = Inr x \<longleftrightarrow> False" for k h x
    using GetLocalExitRoot_never_answers [of io p k h] by auto
  have "getFirstL1InfoTreeIndexForL1Bridge ?b d \<noteq> Some (Inr i)"
    by (simp add: getFirstL1InfoTreeIndexForL1Bridge_def createRPC_def NewBridgeEndpoints_def r split: sum.split)
  moreover have "getFirstL1InfoTreeIndexForL2Bridge ?b d \<noteq> Some (Inr i)"
    by (simp add: getFirstL1InfoTreeIndexForL2Bridge_def createRPC_def NewBridgeEndpoints_def r split: sum.split)
  moreover have "m = 0" if "rpc_GetProof ?b m d j = Inr cp" for m cp
    using that by (simp add: rpc_GetProof_def createRPC_def NewBridgeEndpoints_def syncer_l1InfoTree_def g Let_def split: sum.splits if_splits)
  ultimately show ?thesis by (auto simp: L1InfoTreeIndexForBridge_def index_result_def map_sum_Inr_conv)
qed

section \<open>Samples\<close>

definition mer_leaf :: "u64 \<Rightarrow> u32 \<Rightarrow> hash \<Rightarrow> L1InfoTreeLeaf" where
  "mer_leaf n i mer = \<lparr>lf_BlockNumber = n, lf_BlockPosition = 0, lf_L1InfoTreeIndex = i, lf_PreviousBlockHash = 0, lf_Timestamp = 0,
     lf_MainnetExitRoot = mer, lf_RollupExitRoot = ucast i, lf_GlobalExitRoot = ucast i, lf_Hash = 0\<rparr>"

definition sample_l1_state :: "L1InfoTreeLeaf list \<Rightarrow> l1_processor" where
  "sample_l1_state ls = l1_newProcessor sample_keccak (empty_l1_db\<lparr>leaf_rows := ls\<rparr>)"

section \<open>What the endpoints do not do\<close>

lemmas l1_index_sample_defs = L1InfoTreeIndexForBridge_def getFirstL1InfoTreeIndexForL1Bridge_def index_result_def
  syncer_l1InfoTree_def s_GetLastInfo_def GetLastInfo_def s_GetFirstInfo_def GetFirstInfo_def s_GetFirstInfoAfterBlock_def
  GetFirstInfoAfterBlock_def unless_halted_def query_row_def mer_leaf_def sample_l1_state_def l1_newProcessor_def empty_l1_db_def leaf_key_def

text \<open>The search may return a leaf after the first one that contains the deposit: leaves 0 and 1 have the same mainnet exit root.\<close>

lemma index_is_not_first:
  assumes "ep_l1InfoTree b = syncer_l1InfoTree (\<lambda>_. False) (sample_l1_state [mer_leaf 10 0 7, mer_leaf 20 1 7, mer_leaf 30 2 8])"
    and "root_index (ep_bridgeL1 b) 7 = Inr 5" and "root_index (ep_bridgeL1 b) 8 = Inr 6"
  shows "L1InfoTreeIndexForBridge b 0 5 = Some (Inr 1)"
  using assms by (simp add: l1_index_sample_defs) (simp add: block_search.simps l1_index_sample_defs)

text \<open>One leaf from before the first deposit, whose mainnet exit root is no stored root, makes the request fail.\<close>

lemma index_fails_before_first_deposit:
  assumes "ep_l1InfoTree b = syncer_l1InfoTree (\<lambda>_. False) (sample_l1_state [mer_leaf 10 0 0, mer_leaf 11 1 7])"
    and "root_index (ep_bridgeL1 b) 7 = Inr 0" and "root_index (ep_bridgeL1 b) 0 = Inl ErrNotFound"
  shows "L1InfoTreeIndexForBridge b 0 0 = Some (Inl (RPCError ''failed to get l1InfoTreeIndex'' (Some ErrNotFound)))"
  using assms by (simp add: l1_index_sample_defs) (simp add: block_search.simps l1_index_sample_defs)

text \<open>The verifications of a rollup are stored under its id, which is its network; the endpoint asks for those of the id before.\<close>

lemma l2_index_reads_previous_rollup:
  assumes "ep_l1InfoTree b = syncer_l1InfoTree io p" and "no_faults io" and "\<not> lp_halted p"
    and "\<forall>v\<in>set (vb_rows (lp_db p)). vb_RollupID v = ep_networkID b"
  shows "getFirstL1InfoTreeIndexForL2Bridge b d = Some (Inl ErrNotFound)"
proof -
  have "filter (\<lambda>v. vb_RollupID v = ep_networkID b - 1) (vb_rows (lp_db p)) = []"
    using assms(4) by (auto simp: filter_empty_conv)
  then show ?thesis using assms(1-3)
    by (simp add: getFirstL1InfoTreeIndexForL2Bridge_def syncer_l1InfoTree_def s_GetLastVerifiedBatches_def GetLastVerifiedBatches_def
        unless_halted_def query_row_def no_faults_def)
qed

text \<open>A node without a sponsor does not say so: the pointer inside the interface is nil, and the call panics.\<close>

lemma missing_sponsor_panics:
  "SponsorClaim io (createRPC io' scan_nil (cs_DestinationNetwork c) p g bp1 bp2) c None = (None, Some (RPCError [] (Some ErrPanic)))"
  by (simp add: SponsorClaim_def createRPC_def NewBridgeEndpoints_def)

text \<open>A root that is not stored, like a global exit root, gives a proof of zero hashes and no error.\<close>

lemma unknown_root_siblings:
  assumes "rht_lookup (rht_rows db) root = None" and "no_faults io" and "length sibs = DefaultHeight" and "n \<le> DefaultHeight"
  shows "\<exists>f'. getSiblings_loop io t db index n root sibs f = Inr (map (\<lambda>h. zeroHashes t ! h) [0..<n] @ drop n sibs, f')"
  using assms(3,4)
proof (induction n arbitrary: sibs f)
  case (Suc n)
  have "drop n (sibs[n := z]) = z # drop (Suc n) sibs" for z
    using Suc.prems by (simp add: drop_update_swap Cons_nth_drop_Suc [symmetric])
  moreover have "getRHTNode io t db root = Inl ErrNotFound"
    using assms(1,2) by (auto simp: getRHTNode_def query_row_def)
  ultimately show ?case using Suc.IH [of "sibs[n := zeroHashes t ! n]" True] Suc.prems by simp
qed simp

lemma rollup_proof_of_global_exit_root:
  assumes "no_faults io" and "\<not> lp_halted p" and "networkID \<noteq> 0"
    and "rht_lookup (rht_rows (rollup_tree (lp_db p))) (lf_GlobalExitRoot info) = None"
  shows "GetRollupExitTreeMerkleProof io p networkID (lf_GlobalExitRoot info) =
    Inr (map (\<lambda>h. zeroHashes (ut_Tree (lp_rollupExitTree p)) ! h) [0..<DefaultHeight])"
proof -
  let ?t = "ut_Tree (lp_rollupExitTree p)"
  obtain f where "getSiblings io ?t (rollup_tree (lp_db p)) (networkID - 1) (lf_GlobalExitRoot info) =
      Inr (map (\<lambda>h. zeroHashes ?t ! h) [0..<DefaultHeight], f)"
    using unknown_root_siblings [OF assms(4,1), of "replicate DefaultHeight 0" DefaultHeight ?t "networkID - 1" False]
    by (auto simp: getSiblings_def)
  then show ?thesis using assms(2,3) by (simp add: GetRollupExitTreeMerkleProof_def unless_halted_def GetProof_def)
qed

end
