(* ===== verification/StateKeys.thy ===== *)
theory StateKeys
  imports Hex BridgeSync
begin

text \<open>
  The keys of the state tree (\<open>src/merkletree\<close>): limbs of big integers, the keys of the leaves of an account and the hash of bytecode.
  Poseidon is the argument \<open>P\<close>, from eight elements and a capacity of four to four elements. A nonnegative \<open>big.Int\<close> is read off bytes by
  \<open>be_value\<close>. The lengths of byte slices are below \<open>2^53\<close>, so that the float64 arithmetic on them is exact.
\<close>

type_synonym poseidon = "u64 list \<Rightarrow> u64 list \<Rightarrow> error + u64 list"

section \<open>Limbs\<close>

text \<open>\<open>big.Int.And\<close>, \<open>Rsh\<close> and \<open>Uint64\<close>.\<close>

definition scalar2fea :: "int \<Rightarrow> u64 list" where
  "scalar2fea value =
     (let mask = 0xFFFFFFFF :: int in
      [word_of_int (value AND mask), word_of_int (drop_bit 32 value AND mask), word_of_int (drop_bit 64 value AND mask),
       word_of_int (drop_bit 96 value AND mask), word_of_int (drop_bit 128 value AND mask), word_of_int (drop_bit 160 value AND mask),
       word_of_int (drop_bit 192 value AND mask), word_of_int (drop_bit 224 value AND mask)])"

definition h4ToScalar :: "u64 list \<Rightarrow> error + int" where
  "h4ToScalar h4 =
     (if h4 = [] then Inr 0
      else if length h4 < 4 then Inl ErrPanic
      else Inr (foldl (\<lambda>result i. result + push_bit (64 * i) (uint (h4 ! i))) (uint (h4 ! 0)) [1, 2, 3]))"

text \<open>\<open>%064s\<close> pads with zeros.\<close>

definition pad_0 :: "nat \<Rightarrow> string \<Rightarrow> string" where
  "pad_0 n s = replicate (n - length s) CHR ''0'' @ s"

definition H4ToString :: "u64 list \<Rightarrow> error + string" where
  "H4ToString h4 = map_sum id (\<lambda>sc. ''0x'' @ pad_0 64 (EncodeToString (nat_bytes (nat \<bar>sc\<bar>)))) (h4ToScalar h4)"

definition ScalarToFilledByteSlice :: "int \<Rightarrow> error + bytes" where
  "ScalarToFilledByteSlice s = (case FillBytes32 s of None \<Rightarrow> Inl ErrPanic | Some b \<Rightarrow> Inr b)"

definition h4ToFilledByteSlice :: "u64 list \<Rightarrow> error + bytes" where
  "h4ToFilledByteSlice h4 = (case h4ToScalar h4 of Inl e \<Rightarrow> Inl e | Inr s \<Rightarrow> ScalarToFilledByteSlice s)"

text \<open>\<open>binary.BigEndian.Uint64\<close> of a slice of eight bytes.\<close>

definition be_Uint64 :: "bytes \<Rightarrow> u64" where
  "be_Uint64 b = of_nat (be_value b)"

definition scalarToh4 :: "int \<Rightarrow> error + u64 list" where
  "scalarToh4 s =
     (case ScalarToFilledByteSlice s of
        Inl e \<Rightarrow> Inl e
      | Inr b \<Rightarrow>
     (case DecodeHex ''0xFFFFFFFFFFFFFFFF'' of
        Inl _ \<Rightarrow> Inl ErrPanic
      | Inr f \<Rightarrow>
          let fbe = be_Uint64 f in
          Inr [be_Uint64 (drop 24 b) AND fbe, be_Uint64 (take 8 (drop 16 b)) AND fbe, be_Uint64 (take 8 (drop 8 b)) AND fbe,
               be_Uint64 (take 8 b) AND fbe]))"

definition StringToh4 :: "string \<Rightarrow> error + u64 list" where
  "StringToh4 str =
     (case big_SetString (trim_0x str) of
        None \<Rightarrow> Inl (ErrMsg ''could not convert into big int'')
      | Some bi \<Rightarrow> scalarToh4 bi)"

section \<open>Keys\<close>

datatype leafType = LeafTypeBalance | LeafTypeNonce | LeafTypeCode | LeafTypeStorage | LeafTypeSCLength

fun leaf_code :: "leafType \<Rightarrow> u8" where
  "leaf_code LeafTypeBalance = 0"
| "leaf_code LeafTypeNonce = 1"
| "leaf_code LeafTypeCode = 2"
| "leaf_code LeafTypeStorage = 3"
| "leaf_code LeafTypeSCLength = 4"

definition HashPoseidonAllZeroes :: string where
  "HashPoseidonAllZeroes = ''0xc71603f33a1144ca7953db0ab48808f4c4055e3364a246c33c18a9786cb0b359''"

definition key1 :: "address \<Rightarrow> leafType \<Rightarrow> u64 list" where
  "key1 ethAddr t =
     (let ethAddrArr = scalar2fea (int (be_value (addr_bytes ethAddr)))
      in [ethAddrArr ! 0, ethAddrArr ! 1, ethAddrArr ! 2, ethAddrArr ! 3, ethAddrArr ! 4, 0, ucast (leaf_code t), 0])"

definition keyEthAddr :: "poseidon \<Rightarrow> address \<Rightarrow> leafType \<Rightarrow> u64 list \<Rightarrow> error + bytes" where
  "keyEthAddr P ethAddr t key1Capacity =
     (case P (key1 ethAddr t) key1Capacity of Inl e \<Rightarrow> Inl e | Inr result \<Rightarrow> h4ToFilledByteSlice result)"

definition defaultCapIn :: "error + u64 list" where
  "defaultCapIn = StringToh4 HashPoseidonAllZeroes"

definition default_key :: "poseidon \<Rightarrow> address \<Rightarrow> leafType \<Rightarrow> error + bytes" where
  "default_key P ethAddr t = (case defaultCapIn of Inl e \<Rightarrow> Inl e | Inr capIn \<Rightarrow> keyEthAddr P ethAddr t capIn)"

definition KeyEthAddrBalance :: "poseidon \<Rightarrow> address \<Rightarrow> error + bytes" where
  "KeyEthAddrBalance P ethAddr = default_key P ethAddr LeafTypeBalance"

definition KeyEthAddrNonce :: "poseidon \<Rightarrow> address \<Rightarrow> error + bytes" where
  "KeyEthAddrNonce P ethAddr = default_key P ethAddr LeafTypeNonce"

definition KeyContractCode :: "poseidon \<Rightarrow> address \<Rightarrow> error + bytes" where
  "KeyContractCode P ethAddr = default_key P ethAddr LeafTypeCode"

definition KeyCodeLength :: "poseidon \<Rightarrow> address \<Rightarrow> error + bytes" where
  "KeyCodeLength P ethAddr = default_key P ethAddr LeafTypeSCLength"

definition KeyContractStorage :: "poseidon \<Rightarrow> address \<Rightarrow> bytes \<Rightarrow> error + bytes" where
  "KeyContractStorage P ethAddr storagePos =
     (case P (scalar2fea (int (be_value storagePos))) [0, 0, 0, 0] of
        Inl e \<Rightarrow> Inl e
      | Inr hk0 \<Rightarrow> keyEthAddr P ethAddr LeafTypeStorage hk0)"

section \<open>The hash of bytecode\<close>

function pad_zeros :: "bytes \<Rightarrow> bytes" where
  "pad_zeros bc = (if length bc mod 56 \<noteq> 0 then pad_zeros (bc @ [0]) else bc)"
  by pat_completeness auto
termination by (relation "measure (\<lambda>c. (56 - length c mod 56) mod 56)") (auto simp: mod_Suc)

declare pad_zeros.simps [simp del]

definition pad_bytecode :: "bytes \<Rightarrow> bytes" where
  "pad_bytecode bc = (let c = pad_zeros (bc @ [1]) in c[length c - 1 := c ! (length c - 1) OR 0x80])"

text \<open>The state of the loop over the bytes of a block: \<open>tmpElem\<close>, \<open>counter\<close>, \<open>index\<close> and \<open>elementsToHash\<close>.\<close>

definition add_byte :: "bytes \<Rightarrow> bytes \<times> nat \<times> nat \<times> u64 list \<Rightarrow> nat \<Rightarrow> bytes \<times> nat \<times> nat \<times> u64 list" where
  "add_byte blk s j =
     (case s of (tmpElem, counter, index, elementsToHash) \<Rightarrow>
        let byteToAdd = (if j < length blk then blk ! j else 0);
            tmpElem1 = tmpElem[7 - 1 - counter := byteToAdd];
            counter1 = counter + 1
        in if counter1 = 7
           then (replicate 7 0, 0, index + 1, elementsToHash[index := of_nat (be_value tmpElem1)])
           else (tmpElem1, counter1, index, elementsToHash))"

text \<open>The block taken from the code has up to 57 bytes, of which 56 are read.\<close>

definition block_elements :: "bytes \<Rightarrow> u64 list \<Rightarrow> nat \<Rightarrow> u64 list" where
  "block_elements c tmpHash bytesPointer =
     (let blk = take (min (length c - 1) (bytesPointer + 56) + 1 - bytesPointer) (drop bytesPointer c)
      in snd (snd (snd (foldl (add_byte blk) (replicate 7 0, 0, 4, tmpHash @ replicate 8 0) [0..<56]))))"

fun hash_loop :: "poseidon \<Rightarrow> bytes \<Rightarrow> nat \<Rightarrow> nat \<Rightarrow> u64 list \<Rightarrow> error + u64 list" where
  "hash_loop P c 0 bytesPointer tmpHash = Inr tmpHash"
| "hash_loop P c (Suc n) bytesPointer tmpHash =
     (let elementsToHash = block_elements c tmpHash bytesPointer in
      case P (drop 4 elementsToHash) (take 4 elementsToHash) of
        Inl e \<Rightarrow> Inl e
      | Inr h \<Rightarrow> hash_loop P c n (bytesPointer + 56) h)"

definition HashContractBytecode :: "poseidon \<Rightarrow> bytes \<Rightarrow> error + u64 list" where
  "HashContractBytecode P bc =
     (let c = pad_bytecode bc; numHashes = (length c + 55) div 56 in hash_loop P c numHashes 0 [0, 0, 0, 0])"

section \<open>Limbs determine the number\<close>

lemma digits_determine:
  fixes n m B :: nat
  assumes "\<And>i. i < k \<Longrightarrow> n div B ^ i mod B = m div B ^ i mod B"
  shows "n mod B ^ k = m mod B ^ k"
  using assms
proof (induction k)
  case (Suc k)
  have "x mod B ^ Suc k = B ^ k * (x div B ^ k mod B) + x mod B ^ k" for x
    using mod_mult2_eq [of x "B ^ k" B] by (simp add: mult.commute)
  with Suc.IH Suc.prems show ?case by simp
qed simp

lemma mask_limb: "word_of_int (drop_bit i (int n) AND 0xFFFFFFFF) = (of_nat (n div 2 ^ i mod 2 ^ 32) :: u64)"
proof -
  have "drop_bit i (int n) AND 0xFFFFFFFF = take_bit 32 (drop_bit i (int n))" by (simp add: take_bit_eq_mask mask_eq_exp_minus_1)
  also have "\<dots> = int (n div 2 ^ i mod 2 ^ 32)" by (simp add: take_bit_eq_mod drop_bit_eq_div zdiv_int zmod_int)
  finally show ?thesis by simp
qed

lemma scalar2fea_limbs: "scalar2fea (int n) = map (\<lambda>i. of_nat (n div 2 ^ (32 * i) mod 2 ^ 32)) [0, 1, 2, 3, 4, 5, 6, 7]"
  using mask_limb [of 0 n] by (simp add: scalar2fea_def mask_limb Let_def)

lemma unat_mod_limb: "unat (of_nat (n mod 2 ^ 32) :: u64) = n mod 2 ^ 32"
  by (simp add: unsigned_of_nat take_bit_eq_mod)

lemma scalar2fea_inj:
  assumes "scalar2fea (int n) = scalar2fea (int m)"
  shows "n mod 2 ^ 256 = m mod 2 ^ 256"
proof -
  have "\<forall>i\<in>set [0, 1, 2, 3, 4, 5, 6, 7]. (of_nat (n div 2 ^ (32 * i) mod 2 ^ 32) :: u64) = of_nat (m div 2 ^ (32 * i) mod 2 ^ 32)"
    using assms unfolding scalar2fea_limbs map_eq_conv .
  then have "n div (2 ^ 32) ^ i mod 2 ^ 32 = m div (2 ^ 32) ^ i mod 2 ^ 32" if "i < 8" for i :: nat
  proof -
    have "i \<in> set [0, 1, 2, 3, 4, 5, 6, 7]" using that by auto
    with \<open>\<forall>i\<in>_. _\<close> have "(of_nat (n div 2 ^ (32 * i) mod 2 ^ 32) :: u64) = of_nat (m div 2 ^ (32 * i) mod 2 ^ 32)" by (rule bspec)
    then show ?thesis unfolding power_mult [symmetric] by (metis unat_mod_limb)
  qed
  from digits_determine [of 8, OF this] show ?thesis unfolding power_mult [symmetric] by simp
qed

lemma length_scalar2fea [simp]: "length (scalar2fea v) = 8"
  by (simp add: scalar2fea_def Let_def)

section \<open>Four limbs and their bytes\<close>

lemma fbe_ones: "DecodeHex ''0xFFFFFFFFFFFFFFFF'' = Inr [255, 255, 255, 255, 255, 255, 255, 255]"
  by code_simp

lemma be_Uint64_ones: "be_Uint64 [255, 255, 255, 255, 255, 255, 255, 255] = - 1"
  by (simp add: be_Uint64_def be_value_def)

lemma be_value_u64: "be_value (be_bytes 8 w) = unat w" for w :: u64
proof -
  have "unat w < 256 ^ 8" using unat_less [of w] by simp
  then show ?thesis by (simp only: be_value_be_bytes mod_less)
qed

lemma be_Uint64_be_bytes [simp]: "be_Uint64 (be_bytes 8 w) = w" for w :: u64
  by (simp add: be_Uint64_def be_value_u64)

definition h4_bytes :: "u64 list \<Rightarrow> bytes" where
  "h4_bytes h4 = be_bytes 8 (h4 ! 3) @ be_bytes 8 (h4 ! 2) @ be_bytes 8 (h4 ! 1) @ be_bytes 8 (h4 ! 0)"

lemma length_h4_bytes [simp]: "length (h4_bytes h4) = 32"
  by (simp add: h4_bytes_def)

lemma h4ToScalar_bytes:
  assumes "length h4 = 4"
  shows "h4ToScalar h4 = Inr (int (be_value (h4_bytes h4)))"
proof -
  obtain a b c d where h: "h4 = [a, b, c, d]" using assms by (auto simp: length_Suc_conv numeral_eq_Suc)
  have u: "uint w = int (unat w)" for w :: u64 by simp
  have "be_value (h4_bytes h4) = ((unat d * 2 ^ 64 + unat c) * 2 ^ 64 + unat b) * 2 ^ 64 + unat a"
    by (simp add: h h4_bytes_def be_value_append be_value_u64)
  then show ?thesis unfolding h h4ToScalar_def u push_bit_eq_mult by simp
qed

lemma FillBytes32_value:
  assumes "length b = 32"
  shows "FillBytes32 (int (be_value b)) = Some b"
proof -
  have lt: "be_value b < 256 ^ 32" using be_value_bound [of b] assms by simp
  then have "int (be_value b) < 2 ^ 256" by simp
  moreover have "be_bytes 32 (of_nat (be_value b) :: hash) = b"
  proof (rule be_value_inj)
    have "unat (of_nat (be_value b) :: hash) = be_value b" using lt by (simp add: unsigned_of_nat take_bit_nat_eq_self)
    then show "be_value (be_bytes 32 (of_nat (be_value b) :: hash)) = be_value b"
      using lt by (simp only: be_value_be_bytes mod_less)
  qed (simp add: assms)
  ultimately show ?thesis by (simp add: FillBytes32_def)
qed

lemma h4ToFilledByteSlice_bytes: "length h4 = 4 \<Longrightarrow> h4ToFilledByteSlice h4 = Inr (h4_bytes h4)"
  by (simp add: h4ToFilledByteSlice_def h4ToScalar_bytes ScalarToFilledByteSlice_def FillBytes32_value h4_bytes_def)

lemma h4_bytes_inj:
  assumes "length x = 4" and "length y = 4" and "h4_bytes x = h4_bytes y"
  shows "x = y"
proof -
  have "x ! i = y ! i" if "i < 4" for i
    using assms(3) be_bytes_inj [of 8 "x ! i" "y ! i"] that by (auto simp: h4_bytes_def numeral_eq_Suc less_Suc_eq)
  with assms(1,2) show ?thesis by (simp add: list_eq_iff_nth_eq)
qed

lemma scalarToh4_bytes:
  assumes "length h4 = 4"
  shows "scalarToh4 (int (be_value (h4_bytes h4))) = Inr h4"
proof -
  obtain a b c d where h: "h4 = [a, b, c, d]" using assms by (auto simp: length_Suc_conv numeral_eq_Suc)
  show ?thesis
    by (simp add: scalarToh4_def ScalarToFilledByteSlice_def h4_bytes_def FillBytes32_value fbe_ones be_Uint64_ones h)
qed

lemma hex_value_zeros: "hex_value 0 (replicate n CHR ''0'' @ s) = hex_value 0 s"
  by (induction n) (simp_all add: hex_val_def code_def)

lemma H4_digits: "\<exists>c cs. pad_0 64 (EncodeToString bs) = c # cs \<and> c \<noteq> CHR ''-'' \<and> c \<noteq> CHR ''+''"
proof (cases "pad_0 64 (EncodeToString bs)")
  case Nil
  then show ?thesis by (cases bs) (simp_all add: pad_0_def EncodeToString_def byte_hex_def)
next
  case (Cons c cs)
  have "c \<in> set (pad_0 64 (EncodeToString bs))" using Cons by simp
  then have "c = CHR ''0'' \<or> (\<exists>d<16. c = hex_char d)"
    by (auto simp: pad_0_def EncodeToString_def byte_hex_def intro: byte_hex_digits)
  then show ?thesis using Cons hex_char_sign by auto
qed

lemma big_SetString_digits: "big_SetString (pad_0 64 (EncodeToString bs)) = Some (int (be_value bs))"
proof -
  obtain c cs where c: "pad_0 64 (EncodeToString bs) = c # cs" "c \<noteq> CHR ''-''" "c \<noteq> CHR ''+''" using H4_digits by blast
  have "hex_value 0 (pad_0 64 (EncodeToString bs)) = Some (be_value bs)"
    unfolding pad_0_def hex_value_zeros by (simp add: hex_value_EncodeToString)
  with c show ?thesis by (simp add: big_SetString_def unsigned_hex_def)
qed

section \<open>Distinct leaves have distinct keys\<close>

lemma key1_inj:
  assumes "key1 a t = key1 b u"
  shows "a = b" and "t = u"
proof -
  have v: "be_value (addr_bytes w) = unat w" and lt: "unat w < 2 ^ 160" for w :: address
    using unat_less [of w] by (simp_all add: be_value_be_bytes)
  have "\<forall>i\<in>{0, 1, 2, 3, 4}. (of_nat (unat a div 2 ^ (32 * i) mod 2 ^ 32) :: u64) = of_nat (unat b div 2 ^ (32 * i) mod 2 ^ 32)"
    and l: "(ucast (leaf_code t) :: u64) = ucast (leaf_code u)"
    using assms unfolding key1_def v scalar2fea_limbs Let_def by simp_all
  then have "unat a div (2 ^ 32) ^ i mod 2 ^ 32 = unat b div (2 ^ 32) ^ i mod 2 ^ 32" if "i < 5" for i :: nat
  proof -
    have "i \<in> {0, 1, 2, 3, 4}" using that by auto
    with \<open>\<forall>i\<in>_. _\<close> have "(of_nat (unat a div 2 ^ (32 * i) mod 2 ^ 32) :: u64) = of_nat (unat b div 2 ^ (32 * i) mod 2 ^ 32)" by (rule bspec)
    then show ?thesis unfolding power_mult [symmetric] by (metis unat_mod_limb)
  qed
  from digits_determine [of 5, OF this] have "unat a mod 2 ^ 160 = unat b mod 2 ^ 160" unfolding power_mult [symmetric] by simp
  then show "a = b" using lt [of a] lt [of b] by (simp add: word_unat_eq_iff del: power_numeral)
  show "t = u" using l by (cases t; cases u) simp_all
qed

datatype state_leaf = Balance address | Nonce address | Code address | CodeLength address | Storage address bytes

fun key_of :: "poseidon \<Rightarrow> state_leaf \<Rightarrow> error + bytes" where
  "key_of P (Balance a) = KeyEthAddrBalance P a"
| "key_of P (Nonce a) = KeyEthAddrNonce P a"
| "key_of P (Code a) = KeyContractCode P a"
| "key_of P (CodeLength a) = KeyCodeLength P a"
| "key_of P (Storage a pos) = KeyContractStorage P a pos"

text \<open>A position of storage is a number of 256 bits.\<close>

fun norm_leaf :: "state_leaf \<Rightarrow> state_leaf \<times> nat" where
  "norm_leaf (Storage a pos) = (Storage a [], be_value pos mod 2 ^ 256)"
| "norm_leaf l = (l, 0)"

text \<open>The kind and address a leaf has.\<close>

fun leaf_kind :: "state_leaf \<Rightarrow> address \<times> leafType" where
  "leaf_kind (Balance a) = (a, LeafTypeBalance)"
| "leaf_kind (Nonce a) = (a, LeafTypeNonce)"
| "leaf_kind (Code a) = (a, LeafTypeCode)"
| "leaf_kind (CodeLength a) = (a, LeafTypeSCLength)"
| "leaf_kind (Storage a pos) = (a, LeafTypeStorage)"

text \<open>The applications of Poseidon that make a key.\<close>

definition default_cap :: "u64 list" where
  "default_cap = (case defaultCapIn of Inl _ \<Rightarrow> [] | Inr c \<Rightarrow> c)"

fun leaf_calls :: "poseidon \<Rightarrow> state_leaf \<Rightarrow> (u64 list \<times> u64 list) list" where
  "leaf_calls P (Storage a pos) =
     (let x = scalar2fea (int (be_value pos)) in
      (x, [0, 0, 0, 0]) # (case P x [0, 0, 0, 0] of Inl _ \<Rightarrow> [] | Inr hk0 \<Rightarrow> [(key1 a LeafTypeStorage, hk0)]))"
| "leaf_calls P l = [(case_prod key1 (leaf_kind l), default_cap)]"

lemma AllZeroes_value:
  "big_SetString (trim_0x HashPoseidonAllZeroes) = Some 0xc71603f33a1144ca7953db0ab48808f4c4055e3364a246c33c18a9786cb0b359"
  by (simp add: HashPoseidonAllZeroes_def big_SetString_def unsigned_hex_def hex_val_def code_def)

lemma defaultCapIn_ok: "defaultCapIn = Inr default_cap" "length default_cap = 4"
  by (simp_all add: default_cap_def defaultCapIn_def StringToh4_def AllZeroes_value scalarToh4_def ScalarToFilledByteSlice_def
      FillBytes32_def fbe_ones Let_def)

lemma default_key_input: "default_key P a t = keyEthAddr P a t default_cap"
  by (simp add: default_key_def defaultCapIn_ok)

text \<open>The documented shape of Poseidon's result.\<close>

definition poseidon_law :: "poseidon \<Rightarrow> bool" where
  "poseidon_law P \<longleftrightarrow> (\<forall>x c r. P x c = Inr r \<longrightarrow> length r = 4)"

lemma keyEthAddr_Inr:
  assumes "keyEthAddr P a t c = Inr k" and "poseidon_law P"
  obtains r where "P (key1 a t) c = Inr r" and "length r = 4" and "k = h4_bytes r"
  using assms by (auto simp: poseidon_law_def keyEthAddr_def h4ToFilledByteSlice_bytes split: sum.splits)

fun is_storage :: "state_leaf \<Rightarrow> bool" where
  "is_storage (Storage a pos) = True"
| "is_storage l = False"

lemma key_of_default:
  assumes "\<not> is_storage l"
  shows "key_of P l = keyEthAddr P (fst (leaf_kind l)) (snd (leaf_kind l)) default_cap"
    and "leaf_calls P l = [(case_prod key1 (leaf_kind l), default_cap)]"
  using assms
  by (cases l; simp add: KeyEthAddrBalance_def KeyEthAddrNonce_def KeyContractCode_def KeyCodeLength_def default_key_input)+

lemma key_of_calls:
  assumes "key_of P l = Inr k" and len: "poseidon_law P"
  shows "\<exists>c r. (case_prod key1 (leaf_kind l), c) \<in> set (leaf_calls P l) \<and> P (case_prod key1 (leaf_kind l)) c = Inr r \<and>
    length r = 4 \<and> k = h4_bytes r \<and>
    (\<forall>a pos. l = Storage a pos \<longrightarrow> P (scalar2fea (int (be_value pos))) [0, 0, 0, 0] = Inr c)"
proof (cases "is_storage l")
  case True
  then obtain a pos where l: "l = Storage a pos" by (cases l) auto
  with assms(1) obtain hk0 where h: "P (scalar2fea (int (be_value pos))) [0, 0, 0, 0] = Inr hk0" "keyEthAddr P a LeafTypeStorage hk0 = Inr k"
    by (auto simp: KeyContractStorage_def split: sum.splits)
  obtain r where "P (key1 a LeafTypeStorage) hk0 = Inr r" "length r = 4" "k = h4_bytes r"
    using keyEthAddr_Inr [OF h(2) len] by blast
  with h(1) l show ?thesis by (intro exI [of _ hk0] exI [of _ r]) (simp add: Let_def)
next
  case False
  note d = key_of_default [OF False]
  obtain r where "P (key1 (fst (leaf_kind l)) (snd (leaf_kind l))) default_cap = Inr r" "length r = 4" "k = h4_bytes r"
    using keyEthAddr_Inr [OF assms(1) [unfolded d(1)] len] by blast
  with False show ?thesis unfolding d(2)
    by (intro exI [of _ default_cap] exI [of _ r]) (auto simp: case_prod_beta)
qed

lemma same_kind: "leaf_kind l = leaf_kind l' \<Longrightarrow> \<not> is_storage l \<Longrightarrow> norm_leaf l = norm_leaf l'"
  by (cases l; cases l'; simp)

lemma same_storage: "leaf_kind l = leaf_kind l' \<Longrightarrow> is_storage l \<Longrightarrow> \<exists>a pos pos'. l = Storage a pos \<and> l' = Storage a pos'"
  by (cases l; cases l'; simp)

lemma key1_kind: "case_prod key1 (leaf_kind l) = case_prod key1 (leaf_kind l') \<Longrightarrow> leaf_kind l = leaf_kind l'"
  using key1_inj by (metis case_prod_beta prod_eq_iff)

section \<open>Properties of keys\<close>

text \<open>Keys of the state tree are as distinct as Poseidon is collision free: if two leaves, balance, nonce, code, code length or a
  storage position, get the same key, they are the same leaf or two different inputs to Poseidon among the applications
  made for the two keys have the same result; and a key has 32 bytes.\<close>

theorem state_keys_distinct:
  assumes "poseidon_law P" and "key_of P l = Inr k" and "key_of P l' = Inr k"
  shows "length k = 32 \<and> (norm_leaf l = norm_leaf l' \<or>
    (\<exists>q\<in>set (leaf_calls P l). \<exists>q'\<in>set (leaf_calls P l'). q \<noteq> q' \<and> case_prod P q = case_prod P q'))"
proof -
  obtain c r where 1: "(case_prod key1 (leaf_kind l), c) \<in> set (leaf_calls P l)" "P (case_prod key1 (leaf_kind l)) c = Inr r"
    "length r = 4" "k = h4_bytes r" "\<forall>a pos. l = Storage a pos \<longrightarrow> P (scalar2fea (int (be_value pos))) [0, 0, 0, 0] = Inr c"
    using key_of_calls [OF assms(2,1)] by (elim exE conjE) (rule that)
  obtain c' r' where 2: "(case_prod key1 (leaf_kind l'), c') \<in> set (leaf_calls P l')" "P (case_prod key1 (leaf_kind l')) c' = Inr r'"
    "length r' = 4" "k = h4_bytes r'" "\<forall>a pos. l' = Storage a pos \<longrightarrow> P (scalar2fea (int (be_value pos))) [0, 0, 0, 0] = Inr c'"
    using key_of_calls [OF assms(3,1)] by (elim exE conjE) (rule that)
  have r: "r = r'" using h4_bytes_inj [OF 1(3) 2(3)] 1(4) 2(4) by simp
  let ?col = "\<exists>q\<in>set (leaf_calls P l). \<exists>q'\<in>set (leaf_calls P l'). q \<noteq> q' \<and> case_prod P q = case_prod P q'"
  have "norm_leaf l = norm_leaf l'" if no: "\<not> ?col"
  proof -
    have same: "q = q'" if "q \<in> set (leaf_calls P l)" "q' \<in> set (leaf_calls P l')" "case_prod P q = case_prod P q'" for q q'
      using no that by blast
    have "(case_prod key1 (leaf_kind l), c) = (case_prod key1 (leaf_kind l'), c')"
      using same [OF 1(1) 2(1)] 1(2) 2(2) r by simp
    then have kd: "leaf_kind l = leaf_kind l'" and cc: "c = c'" using key1_kind by blast+
    show ?thesis
    proof (cases "is_storage l")
      case True
      then obtain a pos pos' where s: "l = Storage a pos" "l' = Storage a pos'" using same_storage [OF kd] by blast
      have "(scalar2fea (int (be_value pos)), [0, 0, 0, 0]) = (scalar2fea (int (be_value pos')), [0, 0, 0, 0 :: u64])"
        by (rule same) (use s 1(5) 2(5) cc in \<open>simp_all add: Let_def\<close>)
      then have "scalar2fea (int (be_value pos)) = scalar2fea (int (be_value pos'))" by simp
      from scalar2fea_inj [OF this] s show ?thesis by simp
    next
      case False
      with kd show ?thesis by (rule same_kind)
    qed
  qed
  moreover have "length k = 32" by (simp add: 1(4) h4_bytes_def)
  ultimately show ?thesis by blast
qed

section \<open>Bytecode\<close>

lemma pad_zeros_replicate: "pad_zeros bc = bc @ replicate ((56 - length bc mod 56) mod 56) 0"
proof (induction bc rule: pad_zeros.induct)
  case (1 bc)
  show ?case
  proof (cases "length bc mod 56 = 0")
    case False
    then have "(56 - length bc mod 56) mod 56 = Suc ((56 - length (bc @ [0]) mod 56) mod 56)"
      using mod_less_divisor [of 56 "length bc"] by (auto simp: mod_Suc)
    with 1 [OF False] False show ?thesis by (subst pad_zeros.simps) simp
  qed (simp add: pad_zeros.simps)
qed

text \<open>Taking the mark off the last byte gives back the code, a one and zeros.\<close>

definition unmark :: "bytes \<Rightarrow> bytes" where
  "unmark c = c[length c - 1 := c ! (length c - 1) AND 0x7F]"

lemma unmark_pad: "unmark (pad_bytecode bc) = pad_zeros (bc @ [1])"
proof -
  let ?c = "pad_zeros (bc @ [1])"
  have ne: "?c \<noteq> []" by (simp add: pad_zeros_replicate)
  have "last (bc @ 1 # replicate k 0) \<in> {0, 1 :: u8}" for k by (cases k) (simp_all add: last_replicate)
  then have "last ?c \<in> {0, 1}" by (simp only: pad_zeros_replicate append_assoc append.simps)
  then have "?c ! (length ?c - 1) \<in> {0, 1}" using ne by (simp add: last_conv_nth)
  moreover have "((0 :: u8) OR 0x80) AND 0x7F = 0" "((1 :: u8) OR 0x80) AND 0x7F = 1" by simp_all
  ultimately show ?thesis using ne by (auto simp: unmark_def pad_bytecode_def Let_def) (metis list_update_id)+
qed

lemma pad_bytecode_inj:
  assumes "pad_bytecode b = pad_bytecode c"
  shows "b = c"
proof -
  have d: "dropWhile (\<lambda>x. x = 0) (rev (pad_zeros (x @ [1]))) = 1 # rev x" for x
    by (simp add: pad_zeros_replicate dropWhile_append)
  have "pad_zeros (b @ [1]) = pad_zeros (c @ [1])" using assms by (metis unmark_pad)
  with d show ?thesis by (metis list.inject rev_rev_ident)
qed

lemma round_up: "(n + (56 - n mod 56) mod 56) mod 56 = (0 :: nat)"
proof (cases "n mod 56 = 0")
  case False
  then have "(56 - n mod 56) mod 56 = 56 - n mod 56" by simp
  moreover have "(n + (56 - n mod 56)) mod 56 = (n mod 56 + (56 - n mod 56)) mod 56" by (simp only: mod_add_left_eq)
  moreover have "n mod 56 + (56 - n mod 56) = 56" using mod_less_divisor [of 56 n] by linarith
  ultimately show ?thesis by simp
qed simp

lemma length_pad_bytecode: "length (pad_bytecode bc) mod 56 = 0" "0 < length (pad_bytecode bc)"
  using round_up [of "length bc + 1"] by (simp_all add: pad_bytecode_def pad_zeros_replicate Let_def)

text \<open>Seven bytes make an element, least significant first.\<close>

definition limb7 :: "bytes \<Rightarrow> nat \<Rightarrow> u64" where
  "limb7 c p = of_nat (be_value (rev (take 7 (drop p c))))"

definition block_limbs :: "bytes \<Rightarrow> nat \<Rightarrow> u64 list" where
  "block_limbs c p = map (\<lambda>k. limb7 c (p + 7 * k)) [0, 1, 2, 3, 4, 5, 6, 7]"

fun absorb :: "poseidon \<Rightarrow> u64 list \<Rightarrow> u64 list list \<Rightarrow> error + u64 list" where
  "absorb P h [] = Inr h"
| "absorb P h (b # bs) = (case P b h of Inl e \<Rightarrow> Inl e | Inr h' \<Rightarrow> absorb P h' bs)"

definition bytecode_blocks :: "bytes \<Rightarrow> u64 list list" where
  "bytecode_blocks bc = (let c = pad_bytecode bc in map (\<lambda>i. block_limbs c (56 * i)) [0..<length c div 56])"

lemma upt_7: "[m..<m + 7] = [m, m + 1, m + 2, m + 3, m + 4, m + 5, m + 6]"
  by (simp add: upt_rec)

lemma add_seven_bytes:
  assumes "m + 7 \<le> length blk"
  shows "foldl (add_byte blk) (replicate 7 0, 0, i, els) [m..<m + 7] = (replicate 7 0, 0, i + 1, els[i := limb7 blk m])"
proof -
  have t: "take 7 (drop m blk) = map (\<lambda>j. blk ! (m + j)) [0, 1, 2, 3, 4, 5, 6]"
    using assms by (intro nth_equalityI) (auto simp: numeral_eq_Suc less_Suc_eq)
  have l: "limb7 blk m = of_nat (be_value [blk ! (m + 6), blk ! (m + 5), blk ! (m + 4), blk ! (m + 3), blk ! (m + 2), blk ! (m + 1), blk ! m])"
    by (simp add: limb7_def t)
  show ?thesis using assms unfolding upt_7 l by (simp add: add_byte_def numeral_eq_Suc Let_def)
qed

lemma limb7_block:
  assumes "j + 7 \<le> n"
  shows "limb7 (take n (drop p c)) j = limb7 c (p + j)"
  using assms by (simp add: limb7_def drop_take min_absorb1 add.commute)

lemma add_limbs:
  assumes "7 * k \<le> length blk"
  shows "foldl (add_byte blk) (replicate 7 0, 0, length hs, hs @ replicate (k + r) 0) [0..<7 * k] =
    (replicate 7 0, 0, length hs + k, hs @ map (\<lambda>j. limb7 blk (7 * j)) [0..<k] @ replicate r 0)"
  using assms
proof (induction k arbitrary: r)
  case (Suc k)
  have u: "[0..<7 * Suc k] = [0..<7 * k] @ [7 * k..<7 * k + 7]"
    using upt_add_eq_append [of 0 "7 * k" 7] by (simp only: mult_Suc_right add.commute)
  have "foldl (add_byte blk) (replicate 7 0, 0, length hs, hs @ replicate (Suc k + r) 0) [0..<7 * k] =
      (replicate 7 0, 0, length hs + k, hs @ map (\<lambda>j. limb7 blk (7 * j)) [0..<k] @ replicate (Suc r) 0)"
    using Suc.IH [of "Suc r"] Suc.prems by simp
  moreover have "(hs @ map (\<lambda>j. limb7 blk (7 * j)) [0..<k] @ replicate (Suc r) 0)[length hs + k := x] =
      hs @ map (\<lambda>j. limb7 blk (7 * j)) [0..<k] @ x # replicate r 0" for x
    by (simp add: list_update_append)
  moreover have "7 * k + 7 \<le> length blk" using Suc.prems by simp
  ultimately show ?case unfolding u foldl_append by (simp only: add_seven_bytes) simp
qed simp

lemma block_elements_limbs:
  assumes "p + 56 \<le> length c" and "length h = 4"
  shows "block_elements c h p = h @ block_limbs c p"
proof -
  let ?n = "min (length c - 1) (p + 56) + 1 - p"
  have n: "56 \<le> ?n" "7 * 8 \<le> length (take ?n (drop p c))" using assms(1) by auto
  have "map (\<lambda>j. limb7 (take ?n (drop p c)) (7 * j)) [0..<8] = map (\<lambda>j. limb7 c (p + 7 * j)) [0..<8]"
    using n(1) by (intro map_cong refl limb7_block) auto
  also have "\<dots> = block_limbs c p" by (simp add: block_limbs_def upt_rec)
  finally show ?thesis using add_limbs [OF n(2), of h 0] assms(2) by (simp add: block_elements_def Let_def)
qed

lemma hash_loop_absorb:
  assumes "p + 56 * n \<le> length c" and "length h = 4" and "poseidon_law P"
  shows "hash_loop P c n p h = absorb P h (map (\<lambda>i. block_limbs c (p + 56 * i)) [0..<n])"
  using assms(1,2)
proof (induction n arbitrary: p h)
  case (Suc n)
  have e: "block_elements c h p = h @ block_limbs c p" using Suc.prems by (intro block_elements_limbs) simp_all
  have "map (\<lambda>i. block_limbs c (p + 56 * i)) [0..<Suc n] = block_limbs c p # map (\<lambda>i. block_limbs c (p + 56 + 56 * i)) [0..<n]"
    unfolding upt_conv_Cons [OF zero_less_Suc] by (simp add: map_Suc_upt [symmetric] del: upt_Suc) (simp add: add.assoc)
  moreover have "length h' = 4" if "P (block_limbs c p) h = Inr h'" for h' using that assms(3) by (auto simp: poseidon_law_def)
  ultimately show ?case using Suc.IH [of "p + 56"] Suc.prems by (simp add: e Let_def del: upt_Suc split: sum.split)
qed simp

section \<open>Properties of bytecode hashes\<close>

lemma limb7_inj:
  assumes "limb7 c p = limb7 d p" and "p + 7 \<le> length c" and "p + 7 \<le> length d"
  shows "take 7 (drop p c) = take 7 (drop p d)"
proof -
  have v: "unat (limb7 x p) = be_value (rev (take 7 (drop p x)))" for x
  proof -
    have "be_value (rev (take 7 (drop p x))) < 256 ^ 7"
      by (rule order_less_le_trans [OF be_value_bound]) (rule power_increasing, simp_all)
    then show ?thesis by (simp add: limb7_def unsigned_of_nat take_bit_nat_eq_self)
  qed
  have "rev (take 7 (drop p c)) = rev (take 7 (drop p d))"
    using assms v by (intro be_value_inj) (simp, metis)
  then show ?thesis by simp
qed

lemma block_limbs_nth:
  assumes "block_limbs c p = block_limbs d p" and "k < 8"
  shows "limb7 c (p + 7 * k) = limb7 d (p + 7 * k)"
proof -
  have "k \<in> set [0, 1, 2, 3, 4, 5, 6, 7]" using assms(2) by auto
  with assms(1) show ?thesis unfolding block_limbs_def map_eq_conv by blast
qed

lemma position_in_block:
  fixes j :: nat
  shows "56 * (j div 56) + 7 * (j mod 56 div 7) \<le> j" and "j < 56 * (j div 56) + 7 * (j mod 56 div 7) + 7" and "j mod 56 div 7 < 8"
proof -
  have "56 * (j div 56) + j mod 56 = j" "7 * (j mod 56 div 7) + j mod 56 mod 7 = j mod 56" "j mod 56 mod 7 < 7" "j mod 56 < 56" by simp_all
  then show "56 * (j div 56) + 7 * (j mod 56 div 7) \<le> j" "j < 56 * (j div 56) + 7 * (j mod 56 div 7) + 7" "j mod 56 div 7 < 8"
    by linarith+
qed

lemma bytecode_blocks_inj:
  assumes "bytecode_blocks b = bytecode_blocks b'"
  shows "b = b'"
proof -
  let ?c = "pad_bytecode b" and ?d = "pad_bytecode b'"
  have "length ?c div 56 = length ?d div 56" using arg_cong [OF assms, of length] by (simp add: bytecode_blocks_def Let_def)
  then have len: "length ?c = length ?d"
    using length_pad_bytecode(1) [of b] length_pad_bytecode(1) [of b'] by (metis mult_div_mod_eq add.right_neutral)
  have c56: "length ?c = 56 * (length ?c div 56)" using length_pad_bytecode(1) [of b] by (metis mult_div_mod_eq add.right_neutral)
  have "?c ! j = ?d ! j" if j: "j < length ?c" for j
  proof -
    define i k p where "i = j div 56" and "k = j mod 56 div 7" and "p = 56 * i + 7 * k"
    have p: "p \<le> j" "j < p + 7" "k < 8" using position_in_block [of j] by (simp_all only: p_def i_def k_def)
    have i: "i < length ?c div 56" using j c56 by (metis i_def div_less_iff_less_mult mult.commute zero_less_numeral)
    then have pl: "p + 7 \<le> length ?c" using p(3) c56 p_def by linarith
    have "block_limbs ?c (56 * i) = block_limbs ?d (56 * i)"
      using arg_cong [OF assms, of "\<lambda>xs. xs ! i"] i len by (simp add: bytecode_blocks_def Let_def)
    then have "limb7 ?c p = limb7 ?d p" unfolding p_def using p(3) by (rule block_limbs_nth)
    then have "take 7 (drop p ?c) = take 7 (drop p ?d)" using limb7_inj pl len by metis
    then have "take 7 (drop p ?c) ! (j - p) = take 7 (drop p ?d) ! (j - p)" by simp
    with p j len show ?thesis by simp
  qed
  with len have "?c = ?d" by (simp add: list_eq_iff_nth_eq)
  then show ?thesis by (rule pad_bytecode_inj)
qed

text \<open>C22. The hash of bytecode is the sponge over its blocks: \<open>HashContractBytecode\<close> feeds Poseidon one block of eight elements of seven bytes after the
  other, starting from zero, never reads a byte outside of the padded code, and the blocks determine the code.\<close>

theorem bytecode_hash_absorbs:
  assumes "poseidon_law P"
  shows "HashContractBytecode P b = absorb P [0, 0, 0, 0] (bytecode_blocks b) \<and> (bytecode_blocks b = bytecode_blocks b' \<longleftrightarrow> b = b')"
proof -
  let ?c = "pad_bytecode b"
  have "length ?c = 56 * (length ?c div 56)" using length_pad_bytecode(1) [of b] by (metis mult_div_mod_eq add.right_neutral)
  moreover have "(56 * q + 55) div 56 = q" for q :: nat by simp
  ultimately have "(length ?c + 55) div 56 = length ?c div 56" by metis
  moreover note \<open>length ?c = _\<close>
  ultimately have "HashContractBytecode P b = absorb P [0, 0, 0, 0] (bytecode_blocks b)"
    using hash_loop_absorb [of 0 "length ?c div 56" ?c "[0, 0, 0, 0]" P] assms
    by (simp add: HashContractBytecode_def bytecode_blocks_def Let_def)
  with bytecode_blocks_inj show ?thesis by blast
qed

definition sample_poseidon :: poseidon where
  "sample_poseidon x c = Inr (take 4 (map2 (+) x (c @ c) @ replicate 4 0))"

lemma sample_poseidon_law: "poseidon_law sample_poseidon"
  by (auto simp: poseidon_law_def sample_poseidon_def min_def)

theorem bytecode_hash_absorbs_witness:
  "HashContractBytecode sample_poseidon [7] = absorb sample_poseidon [0, 0, 0, 0] (bytecode_blocks [7]) \<and>
   bytecode_blocks [7] \<noteq> bytecode_blocks [7, 0]"
  using bytecode_hash_absorbs [OF sample_poseidon_law, of "[7]" "[7, 0]"] by simp

theorem state_keys_distinct_witness:
  "\<exists>k. key_of sample_poseidon (Balance 5) = Inr k \<and> length k = 32"
proof -
  have "key_of sample_poseidon (Balance 5) = Inr (h4_bytes (take 4 (map2 (+) (key1 5 LeafTypeBalance) (default_cap @ default_cap) @ replicate 4 0)))"
    by (simp add: KeyEthAddrBalance_def default_key_input keyEthAddr_def sample_poseidon_def h4ToFilledByteSlice_bytes)
  with state_keys_distinct [OF sample_poseidon_law this this] show ?thesis by blast
qed

text \<open>C40. Four limbs survive their text and their bytes: \<open>StringToh4\<close> reads back what \<open>H4ToString\<close> prints, \<open>scalarToh4\<close> splits what \<open>h4ToScalar\<close> joins, and
  the filled byte slice has 32 bytes that determine the limbs.\<close>

theorem h4_roundtrip:
  assumes "length h4 = 4" and "length h4' = 4"
  shows "(case H4ToString h4 of Inl e \<Rightarrow> Inl e | Inr s \<Rightarrow> StringToh4 s) = Inr h4 \<and>
    (case h4ToScalar h4 of Inl e \<Rightarrow> Inl e | Inr n \<Rightarrow> scalarToh4 n) = Inr h4 \<and>
    (\<exists>b. h4ToFilledByteSlice h4 = Inr b \<and> length b = 32) \<and>
    (h4ToFilledByteSlice h4 = h4ToFilledByteSlice h4' \<longleftrightarrow> h4 = h4')"
proof -
  have "StringToh4 (''0x'' @ pad_0 64 (EncodeToString (nat_bytes (be_value (h4_bytes h4))))) = Inr h4"
    using big_SetString_digits [of "nat_bytes (be_value (h4_bytes h4))"] scalarToh4_bytes [OF assms(1)]
    by (simp add: StringToh4_def)
  then show ?thesis
    using assms h4_bytes_inj by (auto simp: H4ToString_def h4ToScalar_bytes scalarToh4_bytes h4ToFilledByteSlice_bytes)
qed

theorem h4_roundtrip_witness:
  "(case H4ToString [1, 2, 3, 4] of Inl e \<Rightarrow> Inl e | Inr s \<Rightarrow> StringToh4 s) = Inr [1, 2, 3, 4] \<and>
   h4ToFilledByteSlice [1, 2, 3, 4] \<noteq> h4ToFilledByteSlice [1, 2, 4, 3]"
  using h4_roundtrip [of "[1, 2, 3, 4]" "[1, 2, 4, 3]"] by simp

end
