(* ===== verification/SequenceStart.thy ===== *)
theory SequenceStart
  imports SequenceSender
begin

text \<open>
  Start and restart of the sequence sender: \<open>New\<close>, \<open>loadSentSequencesTransactions\<close>, and what \<open>saveSentSequencesTransactions\<close> does to the
  files. The file system is a map from names to contents; the outcome of every system call is part of the environment.
\<close>

section \<open>Loading and saving\<close>

datatype os_Stat = Exists | NotExist | StatError error

type_synonym files = "string \<rightharpoonup> bytes"

text \<open>JSON of the map of sent transactions.\<close>

record tx_json =
  tj_Marshal :: "(hash \<times> ethTxData) list \<Rightarrow> bytes"
  tj_Unmarshal :: "bytes \<Rightarrow> error + (hash \<times> ethTxData) list"

text \<open>\<open>json.Unmarshal\<close> into a map adds to its entries.\<close>

definition loadSentSequencesTransactions ::
  "tx_json \<Rightarrow> os_Stat \<Rightarrow> error + bytes \<Rightarrow> SequenceSender \<Rightarrow> SequenceSender \<times> error option outcome"
where
  "loadSentSequencesTransactions J stat_file read_file s =
     (case stat_file of
        NotExist \<Rightarrow> (s, Ret None)
      | StatError e \<Rightarrow> (s, Ret (Some e))
      | Exists \<Rightarrow>
          (case read_file of
             Inl e \<Rightarrow> (s, Ret (Some e))
           | Inr data \<Rightarrow>
               if ss_mutexEthTx s then (s, Blocked)
               else (case tj_Unmarshal J data of
                       Inl e \<Rightarrow> (s, Ret (Some e))
                     | Inr txs \<Rightarrow>
                         (s\<lparr>ss_ethTransactions := fold (\<lambda>(h, d). AList.update h d) txs (ss_ethTransactions s)\<rparr>, Ret None))))"

definition new_SequenceSender :: SequenceSender where
  "new_SequenceSender =
     \<lparr>ss_latestVirtualBatchNumber = 0, ss_latestVirtualTime = 0, ss_latestSentToL1Batch = 0, ss_sequenceList = [],
      ss_sequenceData = (\<lambda>_. None), ss_ethTransactions = [], ss_ethTxData = (\<lambda>_. []), ss_mutexEthTx = False,
      ss_seqSendingStopped = False\<rparr>"

text \<open>\<open>Fatalf\<close> ends the process; \<open>new_manager\<close> is the error of the transaction manager's constructor.\<close>

definition ss_New ::
  "tx_json \<Rightarrow> os_Stat \<Rightarrow> error + bytes \<Rightarrow> error option \<Rightarrow> SequenceSender outcome"
where
  "ss_New J stat_file read_file new_manager =
     (case loadSentSequencesTransactions J stat_file read_file new_SequenceSender of
        (s, Ret None) \<Rightarrow> (case new_manager of Some _ \<Rightarrow> Panicked | None \<Rightarrow> Ret s)
      | (s, Ret (Some _)) \<Rightarrow> Panicked
      | (s, Blocked) \<Rightarrow> Blocked
      | (s, Panicked) \<Rightarrow> Panicked)"

text \<open>The name of the temporary file: everything before the first dot, and a new suffix.\<close>

definition tmp_name :: "string \<Rightarrow> string" where
  "tmp_name fileName = takeWhile (\<lambda>c. c \<noteq> CHR ''.'') fileName @ ''.tmp''"

text \<open>\<open>os.Rename\<close> moves the content; renaming a file to itself changes nothing.\<close>

definition rename_file :: "string \<Rightarrow> string \<Rightarrow> files \<Rightarrow> files" where
  "rename_file oldName newName fs = (case fs oldName of None \<Rightarrow> fs | Some c \<Rightarrow> (fs(oldName := None))(newName \<mapsto> c))"

text \<open>
  The save with its files: \<open>os.Create\<close> makes an empty file or truncates an existing one, and it does so before the mutex is locked; the
  encoder writes the JSON text, of which a failed write leaves a first part; the rename replaces the file.
\<close>

definition save_files ::
  "tx_json \<Rightarrow> ss_Config \<Rightarrow> ss_env \<Rightarrow> SequenceSender \<Rightarrow> files \<Rightarrow> SequenceSender \<times> files \<times> error option outcome"
where
  "save_files J cfg env s fs =
     (case purgeEthTx cfg env s of
        (s1, Blocked) \<Rightarrow> (s1, fs, Blocked)
      | (s1, Panicked) \<Rightarrow> (s1, fs, Panicked)
      | (s1, Ret _) \<Rightarrow>
          if CHR ''.'' \<notin> set (cf_SequencesTxFileName cfg) then (s1, fs, Panicked)
          else
            let fileName = tmp_name (cf_SequencesTxFileName cfg) in
            (case os_Create env of
               Some e \<Rightarrow> (s1, fs, Ret (Some e))
             | None \<Rightarrow>
                 let fs1 = fs(fileName \<mapsto> []) in
                 if ss_mutexEthTx s1 then (s1, fs1, Blocked)
                 else
                   let data = tj_Marshal J (ss_ethTransactions s1) in
                   (case os_Encode env of
                      Some (e, written) \<Rightarrow> (s1, fs1(fileName \<mapsto> take written data), Ret (Some e))
                    | None \<Rightarrow>
                        let fs2 = fs1(fileName \<mapsto> data) in
                        (case os_Rename env of
                           Some e \<Rightarrow> (s1, fs2, Ret (Some e))
                         | None \<Rightarrow> (s1, rename_file fileName (cf_SequencesTxFileName cfg) fs2, Ret None)))))"

text \<open>\<open>New\<close> on the files a process left.\<close>

definition restart :: "tx_json \<Rightarrow> ss_Config \<Rightarrow> files \<Rightarrow> SequenceSender outcome" where
  "restart J cfg fs =
     (case fs (cf_SequencesTxFileName cfg) of
        None \<Rightarrow> ss_New J NotExist (Inl ErrNotFound) None
      | Some data \<Rightarrow> ss_New J Exists (Inr data) None)"

text \<open>Encoding a map as JSON and decoding it gives it back.\<close>

definition json_law :: "tx_json \<Rightarrow> (hash \<times> ethTxData) list \<Rightarrow> bool" where
  "json_law J txs \<longleftrightarrow> tj_Unmarshal J (tj_Marshal J txs) = Inr txs"

section \<open>Lemmas\<close>

lemma fold_update_new:
  assumes "distinct (map fst ts)" and "fst ` set ts \<inter> fst ` set xs = {}"
  shows "fold (\<lambda>(h, d). AList.update h d) ts xs = xs @ ts"
  using assms
proof (induction ts arbitrary: xs)
  case (Cons t ts)
  obtain h d where t: "t = (h, d)" by force
  have "AList.update h d xs = xs @ [(h, d)]" if "h \<notin> fst ` set xs"
    using that by (induction xs) auto
  with Cons.prems t have "fold (\<lambda>(h, d). AList.update h d) (t # ts) xs = fold (\<lambda>(h, d). AList.update h d) ts (xs @ [(h, d)])"
    by auto
  with Cons.IH [of "xs @ [(h, d)]"] Cons.prems t show ?case by auto
qed simp

text \<open>The purge keeps what is not old, or is still monitored and not final.\<close>

lemma purge_filters:
  assumes "purgeEthTx cfg env s = (s1, Ret ())"
  obtains Q where "ss_ethTransactions s1 = filter Q (ss_ethTransactions s)"
    and "\<And>h d. (\<forall>d. (h, d) \<in> set (ss_ethTransactions s) \<longrightarrow> \<not> purge_tx cfg env d) \<Longrightarrow> Q (h, d)"
proof (cases "IsStopped s")
  case True
  with assms that [of "\<lambda>_. True"] show ?thesis by (simp add: purgeEthTx_def)
next
  case False
  let ?purged = "set (map fst (filter (\<lambda>(h, d). purge_tx cfg env d) (ss_ethTransactions s)))"
  have "ss_ethTransactions s1 = filter (\<lambda>(h, d). h \<notin> ?purged) (ss_ethTransactions s)"
    using assms False by (auto simp: purgeEthTx_def Let_def split: if_splits)
  then show ?thesis by (rule that) auto
qed

lemma save_purges:
  assumes "saveSentSequencesTransactions cfg env s = (s', Ret None)"
  shows "purgeEthTx cfg env s = (s', Ret ())"
proof -
  obtain s1 x where p: "purgeEthTx cfg env s = (s1, x)" by force
  with assms show ?thesis by (cases x) (auto simp: saveSentSequencesTransactions_def split: if_splits option.splits)
qed

lemma save_result:
  assumes "saveSentSequencesTransactions cfg env s = (s', Ret None)" and dist: "distinct (map fst (ss_ethTransactions s))"
  shows "distinct (map fst (ss_ethTransactions s'))" and "set (ss_ethTransactions s') \<subseteq> set (ss_ethTransactions s)"
    and "\<forall>(h, d)\<in>set (ss_ethTransactions s). \<not> purge_tx cfg env d \<longrightarrow> (h, d) \<in> set (ss_ethTransactions s')"
proof -
  obtain Q where q: "ss_ethTransactions s' = filter Q (ss_ethTransactions s)"
    and keep: "\<And>h d. (\<forall>d. (h, d) \<in> set (ss_ethTransactions s) \<longrightarrow> \<not> purge_tx cfg env d) \<Longrightarrow> Q (h, d)"
    by (rule purge_filters [OF save_purges [OF assms(1)]]) (rule that)
  show "distinct (map fst (ss_ethTransactions s'))" unfolding q using dist by (rule distinct_map_filter)
  show "set (ss_ethTransactions s') \<subseteq> set (ss_ethTransactions s)" by (simp add: q)
  show "\<forall>(h, d)\<in>set (ss_ethTransactions s). \<not> purge_tx cfg env d \<longrightarrow> (h, d) \<in> set (ss_ethTransactions s')"
  proof (clarify)
    fix h d assume hd: "(h, d) \<in> set (ss_ethTransactions s)" "\<not> purge_tx cfg env d"
    have "d' = d" if "(h, d') \<in> set (ss_ethTransactions s)" for d' by (rule eq_key_imp_eq_value [OF dist that hd(1)])
    with hd(2) have "Q (h, d)" by (intro keep) blast
    with hd(1) show "(h, d) \<in> set (ss_ethTransactions s')" by (simp add: q)
  qed
qed

lemma load_saved:
  assumes "json_law J txs" and "distinct (map fst txs)" and "fs (cf_SequencesTxFileName cfg) = Some (tj_Marshal J txs)"
  shows "restart J cfg fs = Ret (new_SequenceSender\<lparr>ss_ethTransactions := txs\<rparr>)"
  using assms fold_update_new [OF assms(2), of "[]"]
  by (simp add: restart_def ss_New_def loadSentSequencesTransactions_def new_SequenceSender_def json_law_def)

text \<open>The save of the sender's round, with its effect on the files.\<close>

lemma save_files_sender:
  "save_files J cfg env s fs = (s', fs', r) \<Longrightarrow> saveSentSequencesTransactions cfg env s = (s', r)"
  by (auto simp: save_files_def saveSentSequencesTransactions_def Let_def
      split: prod.splits outcome.splits if_splits option.splits)

lemma save_files_result:
  assumes "save_files J cfg env s fs = (s', fs', r)"
  shows "r = Ret None \<Longrightarrow> fs' (cf_SequencesTxFileName cfg) = Some (tj_Marshal J (ss_ethTransactions s'))"
    and "r \<noteq> Ret None \<Longrightarrow> tmp_name (cf_SequencesTxFileName cfg) \<noteq> cf_SequencesTxFileName cfg \<Longrightarrow>
      fs' (cf_SequencesTxFileName cfg) = fs (cf_SequencesTxFileName cfg)"
    and "f \<noteq> cf_SequencesTxFileName cfg \<Longrightarrow> f \<noteq> tmp_name (cf_SequencesTxFileName cfg) \<Longrightarrow> fs' f = fs f"
  using assms
  by (auto simp: save_files_def rename_file_def Let_def split: prod.splits outcome.splits if_splits option.splits)

section \<open>Properties\<close>

text \<open>C21. Sent transactions survive a restart: after a save that succeeded, a new process loads exactly the transactions
  that the save left in memory, and these are all of those before except old ones that are no longer monitored or
  final; batches and the calldata of the transactions are not restored. A save that fails or blocks, at any of its steps, leaves the
  file as it was, unless the file is its own temporary file. No save touches another file.\<close>

theorem sent_transactions_survive_restart:
  assumes "save_files J cfg env s fs = (s', fs', r)" and "distinct (map fst (ss_ethTransactions s))"
    and "json_law J (ss_ethTransactions s')" and "tmp_name (cf_SequencesTxFileName cfg) \<noteq> cf_SequencesTxFileName cfg"
  shows "(r = Ret None \<longrightarrow> (\<exists>n. restart J cfg fs' = Ret n \<and>
      n = new_SequenceSender\<lparr>ss_ethTransactions := ss_ethTransactions s'\<rparr> \<and> (\<forall>h. ss_ethTxData n h = []) \<and>
      set (ss_ethTransactions n) \<subseteq> set (ss_ethTransactions s) \<and>
      (\<forall>(h, d)\<in>set (ss_ethTransactions s). \<not> purge_tx cfg env d \<longrightarrow> (h, d) \<in> set (ss_ethTransactions n)))) \<and>
    (r \<noteq> Ret None \<longrightarrow> restart J cfg fs' = restart J cfg fs) \<and>
    (\<forall>f. f \<noteq> cf_SequencesTxFileName cfg \<and> f \<noteq> tmp_name (cf_SequencesTxFileName cfg) \<longrightarrow> fs' f = fs f)"
proof (intro conjI impI)
  assume r: "r = Ret None"
  note save = save_result [OF save_files_sender [OF assms(1) [unfolded r]] assms(2)]
  let ?n = "new_SequenceSender\<lparr>ss_ethTransactions := ss_ethTransactions s'\<rparr>"
  have "restart J cfg fs' = Ret ?n"
    by (rule load_saved [where fs = fs', OF assms(3) save(1) save_files_result(1) [OF assms(1) r]])
  moreover have "\<forall>h. ss_ethTxData ?n h = []" by (simp add: new_SequenceSender_def)
  moreover have "set (ss_ethTransactions ?n) \<subseteq> set (ss_ethTransactions s)" using save(2) by simp
  moreover have "\<forall>(h, d)\<in>set (ss_ethTransactions s). \<not> purge_tx cfg env d \<longrightarrow> (h, d) \<in> set (ss_ethTransactions ?n)"
    using save(3) by simp
  ultimately show "\<exists>n. restart J cfg fs' = Ret n \<and>
      n = new_SequenceSender\<lparr>ss_ethTransactions := ss_ethTransactions s'\<rparr> \<and> (\<forall>h. ss_ethTxData n h = []) \<and>
      set (ss_ethTransactions n) \<subseteq> set (ss_ethTransactions s) \<and>
      (\<forall>(h, d)\<in>set (ss_ethTransactions s). \<not> purge_tx cfg env d \<longrightarrow> (h, d) \<in> set (ss_ethTransactions n))"
    by blast
next
  assume "r \<noteq> Ret None"
  with save_files_result(2) [OF assms(1) _ assms(4)] show "restart J cfg fs' = restart J cfg fs" by (simp add: restart_def)
next
  show "\<forall>f. f \<noteq> cf_SequencesTxFileName cfg \<and> f \<noteq> tmp_name (cf_SequencesTxFileName cfg) \<longrightarrow> fs' f = fs f"
    using save_files_result(3) [OF assms(1)] by blast
qed

text \<open>A file whose name is its own temporary name is truncated first: a failed write leaves a first part of the text in it.\<close>

lemma own_temporary_file_is_truncated:
  assumes "tmp_name (cf_SequencesTxFileName cfg) = cf_SequencesTxFileName cfg" and "CHR ''.'' \<in> set (cf_SequencesTxFileName cfg)"
    and "purgeEthTx cfg env s = (s1, Ret ())" and "\<not> ss_mutexEthTx s1" and "os_Create env = None" and "os_Encode env = Some (e, n)"
  shows "save_files J cfg env s fs =
    (s1, fs(cf_SequencesTxFileName cfg \<mapsto> take n (tj_Marshal J (ss_ethTransactions s1))), Ret (Some e))"
  using assms by (simp add: save_files_def)

text \<open>A restarted sender counts as sent only what is virtualized: a batch of a transaction that is still pending is sent again.\<close>

lemma restart_forgets_sent_batches:
  assumes "ss_Start cfg env (new_SequenceSender\<lparr>ss_ethTransactions := txs\<rparr>) = (s', Ret c)"
  shows "ss_latestSentToL1Batch s' = ss_latestVirtualBatchNumber s' \<and> c = ss_latestVirtualBatchNumber s' + 1"
  using assms by (auto simp: ss_Start_def split: prod.splits option.splits outcome.splits)

text \<open>A transaction that the manager does not know after a restart is sent again without its calldata.\<close>

lemma restart_resends_without_calldata:
  assumes "map_of txs h = Some d" and "tm_Result env h = Inl ErrNotFound"
  shows "getResultAndUpdateEthTx cfg env h (new_SequenceSender\<lparr>ss_ethTransactions := txs\<rparr>) =
    (let s1 = update_tx h (\<lambda>d. d\<lparr>et_OnMonitor := False\<rparr>) (new_SequenceSender\<lparr>ss_ethTransactions := txs\<rparr>) in
     case tm_AddWithGas env (Some (et_To d)) [] (et_Gas d) of Inl _ \<Rightarrow> (s1, Ret None) | Inr _ \<Rightarrow> (s1, Blocked))"
  using assms by (simp add: getResultAndUpdateEthTx_def new_SequenceSender_def)

section \<open>A restart\<close>

definition pending_tx :: ethTxData where
  "pending_tx = \<lparr>et_Nonce = 0, et_Status = ''*new'', et_SentL1Timestamp = 40, et_StatusTimestamp = 40, et_FromBatch = 5, et_ToBatch = 6,
     et_MinedAtBlock = 0, et_OnMonitor = True, et_To = 1, et_StateHistory = [], et_Txs = [], et_Gas = 21000\<rparr>"

definition pending_json :: tx_json where
  "pending_json = \<lparr>tj_Marshal = (\<lambda>_. [123, 125]), tj_Unmarshal = (\<lambda>d. if d = [123, 125] then Inr [(99, pending_tx)] else Inl ErrNotFound)\<rparr>"

theorem sent_transactions_survive_restart_witness:
  "\<exists>s' fs' n. save_files pending_json sample_config (sample_env (\<lambda>_. Inl ErrNotFound))
         (sample_sender\<lparr>ss_ethTransactions := [(99, pending_tx)]\<rparr>) (\<lambda>_. None) = (s', fs', Ret None) \<and>
     restart pending_json sample_config fs' = Ret n \<and> (99, pending_tx) \<in> set (ss_ethTransactions n) \<and> fs' ''tx.tmp'' = None"
proof -
  let ?e = "sample_env (\<lambda>_. Inl ErrNotFound)" and ?s = "sample_sender\<lparr>ss_ethTransactions := [(99, pending_tx)]\<rparr>"
  obtain s' fs' where save: "save_files pending_json sample_config ?e ?s (\<lambda>_. None) = (s', fs', Ret None)"
    and txs: "ss_ethTransactions s' = [(99, pending_tx)]" and tmp: "fs' ''tx.tmp'' = None"
    by (simp add: save_files_def purgeEthTx_def purge_tx_def IsStopped_def sample_sender_def sample_config_def sample_env_def
        Let_def tmp_name_def rename_file_def pending_tx_def)
  have "json_law pending_json (ss_ethTransactions s')" by (simp add: json_law_def pending_json_def txs)
  moreover have "tmp_name (cf_SequencesTxFileName sample_config) \<noteq> cf_SequencesTxFileName sample_config"
    by (simp add: tmp_name_def sample_config_def)
  ultimately obtain n where "restart pending_json sample_config fs' = Ret n" "ss_ethTransactions n = [(99, pending_tx)]"
    using sent_transactions_survive_restart [OF save] txs by auto
  with save tmp show ?thesis by auto
qed

end
