(* ===== verification/Etherman.thy ===== *)
theory Etherman
  imports AgglayerClient TxBuilder
begin

text \<open>
  The client of L1 (\<open>src/etherman/etherman.go\<close>, \<open>aggregator.go\<close>, the finality names of \<open>types.go\<close>). The node and the contracts are records of functions, keys
  and their signers are arguments. A header may be nil without an error.
\<close>

section \<open>The node, the contracts and the client\<close>

record eth_header =
  eh_Number :: int
  eh_Time :: u64

record ('blk, 'tx, 'receipt) ethereumClient =
  ec_HeaderByNumber :: "int option \<Rightarrow> error + eth_header option"
  ec_BlockByNumber :: "u64 \<Rightarrow> error + 'blk"
  ec_TransactionByHash :: "hash \<Rightarrow> error + 'tx \<times> bool"
  ec_TransactionReceipt :: "hash \<Rightarrow> error + 'receipt"
  ec_SendTransaction :: "'tx \<Rightarrow> error option"
  ec_NonceAt :: "address \<Rightarrow> error + u64"
  ec_EstimateGas :: "address \<Rightarrow> address option \<Rightarrow> int \<Rightarrow> bytes \<Rightarrow> error + u64"

record RollupData =
  rd_ChainID :: u64
  rd_LastBatchSequenced :: u64
  rd_LastVerifiedBatch :: u64

text \<open>The arguments of the contract's \<open>VerifyBatchesTrustedAggregator\<close>.\<close>

record VerifyArgs =
  va_rollupID :: u32
  va_pendStateNum :: u64
  va_initNumBatch :: u64
  va_finalNewBatch :: u64
  va_newLocalExitRoot :: bytes
  va_newStateRoot :: bytes
  va_beneficiary :: address
  va_proof :: "bytes list"

record l1_contracts =
  ct_RollupAddressToID :: "address \<Rightarrow> error + u32"
  ct_GetBatchFee :: "error + int"
  ct_RollupIDToRollupData :: "u32 \<Rightarrow> error + RollupData"
  ct_GetRollupSequencedBatches :: "u32 \<Rightarrow> u64 \<Rightarrow> error + hash"
  ct_VerifyBatchesTrustedAggregator :: "VerifyArgs \<Rightarrow> error + l1_tx"
  ct_TrustedSequencer :: "error + address"
  ct_TrustedSequencerURL :: "error + string"
  ct_DataAvailabilityProtocol :: "error + address"
  ct_LastAccInputHash :: "error + hash"
  ct_L1InfoRootMap :: "u32 \<Rightarrow> error + hash"

text \<open>\<open>bind.TransactOpts\<close>; a nil signer is \<open>None\<close>.\<close>

record 'tx TransactOpts =
  to_From :: address
  to_Signer :: "('tx \<Rightarrow> error + 'tx) option"

record ('blk, 'tx, 'receipt) Client =
  em_EthClient :: "('blk, 'tx, 'receipt) ethereumClient"
  em_DAProtocol :: "address option"
  em_Contracts :: l1_contracts
  em_RollupID :: u32
  em_L1ChainID :: u64
  em_auth :: "address \<Rightarrow> 'tx TransactOpts option"

definition em_ErrNotFound :: error where
  "em_ErrNotFound = ErrMsg ''not found''"

definition ErrPrivateKeyNotFound :: error where
  "ErrPrivateKeyNotFound = ErrMsg ''can't find sender private key to sign tx''"

text \<open>\<open>dial\<close>, \<open>chainID\<close>, \<open>new_contracts\<close> and \<open>new_da\<close> are the calls of the node that set a client up.\<close>

definition NewClient ::
  "(error + ('blk, 'tx, 'receipt) ethereumClient) \<Rightarrow> error + int \<Rightarrow> error + l1_contracts \<Rightarrow> (address \<Rightarrow> error + address) \<Rightarrow>
   address \<Rightarrow> u64 \<Rightarrow> bool \<Rightarrow> error + ('blk, 'tx, 'receipt) Client"
where
  "NewClient dial chainID new_contracts new_da zkEVMAddr l1ChainID isValidiumMode =
     (case dial of
        Inl e \<Rightarrow> Inl e
      | Inr ethClient \<Rightarrow>
     (case chainID of
        Inl e \<Rightarrow> Inl e
      | Inr _ \<Rightarrow>
     (case new_contracts of
        Inl e \<Rightarrow> Inl e
      | Inr contracts \<Rightarrow>
     (case ct_RollupAddressToID contracts zkEVMAddr of
        Inl e \<Rightarrow> Inl e
      | Inr rollupID \<Rightarrow>
          if rollupID = 0 then Inl (ErrMsg ''rollupID is 0, is not a valid value'')
          else let client = \<lparr>em_EthClient = ethClient, em_DAProtocol = None, em_Contracts = contracts, em_RollupID = rollupID,
                     em_L1ChainID = l1ChainID, em_auth = (\<lambda>_. None)\<rparr> in
               if \<not> isValidiumMode then Inr client
               else (case ct_DataAvailabilityProtocol contracts of
                       Inl e \<Rightarrow> Inl e
                     | Inr dapAddr \<Rightarrow> map_sum id (\<lambda>da. client\<lparr>em_DAProtocol := Some da\<rparr>) (new_da dapAddr))))))"

section \<open>Reading L1\<close>

text \<open>The body of \<open>WaitTxToBeMined\<close> is commented out, as is that of \<open>GetRevertMessage\<close>.\<close>

definition em_WaitTxToBeMined :: "('blk, 'tx, 'receipt) Client \<Rightarrow> 'tx \<Rightarrow> int \<Rightarrow> error + bool" where
  "em_WaitTxToBeMined c tx timeout = Inr True"

definition GetRevertMessage :: "('blk, 'tx, 'receipt) Client \<Rightarrow> 'tx \<Rightarrow> error + string" where
  "GetRevertMessage c tx = Inr []"

definition GetSendSequenceFee :: "('blk, 'tx, 'receipt) Client \<Rightarrow> u64 \<Rightarrow> error + int" where
  "GetSendSequenceFee c numBatches = map_sum id (\<lambda>f. f * int (unat numBatches)) (ct_GetBatchFee (em_Contracts c))"

definition TrustedSequencer :: "('blk, 'tx, 'receipt) Client \<Rightarrow> error + address" where
  "TrustedSequencer c = ct_TrustedSequencer (em_Contracts c)"

definition em_HeaderByNumber :: "('blk, 'tx, 'receipt) Client \<Rightarrow> int option \<Rightarrow> error + eth_header option" where
  "em_HeaderByNumber c number = ec_HeaderByNumber (em_EthClient c) number"

definition EthBlockByNumber :: "('blk, 'tx, 'receipt) Client \<Rightarrow> u64 \<Rightarrow> error + 'blk" where
  "EthBlockByNumber c blockNumber =
     (case ec_BlockByNumber (em_EthClient c) blockNumber of
        Inl e \<Rightarrow> if e = ErrNotFound \<or> e = ErrMsg ''block does not exist in blockchain'' then Inl em_ErrNotFound else Inl e
      | Inr block \<Rightarrow> Inr block)"

definition rollup_data :: "('blk, 'tx, 'receipt) Client \<Rightarrow> error + RollupData" where
  "rollup_data c = ct_RollupIDToRollupData (em_Contracts c) (em_RollupID c)"

definition GetLatestBatchNumber :: "('blk, 'tx, 'receipt) Client \<Rightarrow> error + u64" where
  "GetLatestBatchNumber c = map_sum id rd_LastBatchSequenced (rollup_data c)"

definition GetLatestVerifiedBatchNum :: "('blk, 'tx, 'receipt) Client \<Rightarrow> error + u64" where
  "GetLatestVerifiedBatchNum c = map_sum id rd_LastVerifiedBatch (rollup_data c)"

definition GetL2ChainID :: "('blk, 'tx, 'receipt) Client \<Rightarrow> error + u64" where
  "GetL2ChainID c =
     (case rollup_data c of
        Inl e \<Rightarrow> Inl e
      | Inr d \<Rightarrow> if rd_ChainID d = 0 then Inl (ErrMsg ''error: chainID received is 0'') else Inr (rd_ChainID d))"

datatype BlockNumberFinality = SafeBlock | FinalizedBlock | LatestBlock | PendingBlock | EarliestBlock | OtherFinality string

fun ToBlockNum :: "BlockNumberFinality \<Rightarrow> error + int" where
  "ToBlockNum FinalizedBlock = Inr (- 3)"
| "ToBlockNum SafeBlock = Inr (- 4)"
| "ToBlockNum PendingBlock = Inr (- 1)"
| "ToBlockNum LatestBlock = Inr (- 2)"
| "ToBlockNum EarliestBlock = Inr 0"
| "ToBlockNum (OtherFinality s) = Inl (ErrMsg ''invalid finality keyword'')"

text \<open>The numbers of \<open>rpc.BlockNumber\<close> are the same. A nil header without an error gives number 0.\<close>

definition getBlockNumber :: "('blk, 'tx, 'receipt) Client \<Rightarrow> int \<Rightarrow> error + u64" where
  "getBlockNumber c blockNumber =
     map_sum id (\<lambda>h. case h of None \<Rightarrow> 0 | Some header \<Rightarrow> of_int (eh_Number header))
       (ec_HeaderByNumber (em_EthClient c) (Some blockNumber))"

definition GetLatestBlockNumber :: "('blk, 'tx, 'receipt) Client \<Rightarrow> error + u64" where
  "GetLatestBlockNumber c = getBlockNumber c (- 2)"

definition GetSafeBlockNumber :: "('blk, 'tx, 'receipt) Client \<Rightarrow> error + u64" where
  "GetSafeBlockNumber c = getBlockNumber c (- 4)"

definition GetFinalizedBlockNumber :: "('blk, 'tx, 'receipt) Client \<Rightarrow> error + u64" where
  "GetFinalizedBlockNumber c = getBlockNumber c (- 3)"

definition GetLatestBlockTimestamp :: "('blk, 'tx, 'receipt) Client \<Rightarrow> error + u64" where
  "GetLatestBlockTimestamp c =
     map_sum id (\<lambda>h. case h of None \<Rightarrow> 0 | Some header \<Rightarrow> eh_Time header) (ec_HeaderByNumber (em_EthClient c) None)"

definition GetLatestBlockHeader :: "('blk, 'tx, 'receipt) Client \<Rightarrow> error + eth_header option" where
  "GetLatestBlockHeader c = ec_HeaderByNumber (em_EthClient c) (Some (- 2))"

definition GetTx :: "('blk, 'tx, 'receipt) Client \<Rightarrow> hash \<Rightarrow> error + 'tx \<times> bool" where
  "GetTx c txHash = ec_TransactionByHash (em_EthClient c) txHash"

definition GetTxReceipt :: "('blk, 'tx, 'receipt) Client \<Rightarrow> hash \<Rightarrow> error + 'receipt" where
  "GetTxReceipt c txHash = ec_TransactionReceipt (em_EthClient c) txHash"

definition GetTrustedSequencerURL :: "('blk, 'tx, 'receipt) Client \<Rightarrow> error + string" where
  "GetTrustedSequencerURL c = ct_TrustedSequencerURL (em_Contracts c)"

definition em_SendTx :: "('blk, 'tx, 'receipt) Client \<Rightarrow> 'tx \<Rightarrow> error option" where
  "em_SendTx c tx = ec_SendTransaction (em_EthClient c) tx"

definition CurrentNonce :: "('blk, 'tx, 'receipt) Client \<Rightarrow> address \<Rightarrow> error + u64" where
  "CurrentNonce c account = ec_NonceAt (em_EthClient c) account"

definition EstimateGas :: "('blk, 'tx, 'receipt) Client \<Rightarrow> address \<Rightarrow> address option \<Rightarrow> int \<Rightarrow> bytes \<Rightarrow> error + u64" where
  "EstimateGas c src dst val data = ec_EstimateGas (em_EthClient c) src dst val data"

definition CheckTxWasMined :: "('blk, 'tx, 'receipt) Client \<Rightarrow> hash \<Rightarrow> error + bool \<times> 'receipt option" where
  "CheckTxWasMined c txHash =
     (case ec_TransactionReceipt (em_EthClient c) txHash of
        Inl e \<Rightarrow> if e = ErrNotFound then Inr (False, None) else Inl e
      | Inr receipt \<Rightarrow> Inr (True, Some receipt))"

definition GetDAProtocolAddr :: "('blk, 'tx, 'receipt) Client \<Rightarrow> error + address" where
  "GetDAProtocolAddr c = ct_DataAvailabilityProtocol (em_Contracts c)"

text \<open>Outside of validium mode the binding of the protocol is a nil pointer.\<close>

definition GetDAProtocolName :: "(address \<Rightarrow> error + string) \<Rightarrow> ('blk, 'tx, 'receipt) Client \<Rightarrow> error + string" where
  "GetDAProtocolName protocol_name c = (case em_DAProtocol c of None \<Rightarrow> Inl ErrPanic | Some da \<Rightarrow> protocol_name da)"

definition LastAccInputHash :: "('blk, 'tx, 'receipt) Client \<Rightarrow> error + hash" where
  "LastAccInputHash c = ct_LastAccInputHash (em_Contracts c)"

definition GetL1InfoRoot :: "('blk, 'tx, 'receipt) Client \<Rightarrow> u32 \<Rightarrow> error + hash" where
  "GetL1InfoRoot c indexL1InfoRoot =
     (if indexL1InfoRoot > 0 then ct_L1InfoRootMap (em_Contracts c) indexL1InfoRoot else Inr 0)"

definition GetBatchAccInputHash :: "('blk, 'tx, 'receipt) Client \<Rightarrow> u64 \<Rightarrow> error + hash" where
  "GetBatchAccInputHash c batchNumber = ct_GetRollupSequencedBatches (em_Contracts c) (em_RollupID c) batchNumber"

definition GetRollupId :: "('blk, 'tx, 'receipt) Client \<Rightarrow> u32" where
  "GetRollupId c = em_RollupID c"

section \<open>Keys\<close>

definition getAuthByAddress :: "('blk, 'tx, 'receipt) Client \<Rightarrow> address \<Rightarrow> error + 'tx TransactOpts" where
  "getAuthByAddress c addr = (case em_auth c addr of None \<Rightarrow> Inl em_ErrNotFound | Some auth \<Rightarrow> Inr auth)"

text \<open>An error other than not found does not occur; a nil signer is called.\<close>

definition SignTx :: "('blk, 'tx, 'receipt) Client \<Rightarrow> address \<Rightarrow> 'tx \<Rightarrow> error + 'tx" where
  "SignTx c sender tx =
     (case getAuthByAddress c sender of
        Inl _ \<Rightarrow> Inl ErrPrivateKeyNotFound
      | Inr auth \<Rightarrow> (case to_Signer auth of None \<Rightarrow> Inl ErrPanic | Some sign \<Rightarrow> sign tx))"

definition AddOrReplaceAuth :: "'tx TransactOpts \<Rightarrow> ('blk, 'tx, 'receipt) Client \<Rightarrow> ('blk, 'tx, 'receipt) Client" where
  "AddOrReplaceAuth auth c = c\<lparr>em_auth := (em_auth c)(to_From auth \<mapsto> auth)\<rparr>"

text \<open>\<open>read_key\<close> reads and decrypts the file; no key at all for an empty path and password.\<close>

definition newKeyFromKeystore :: "(string \<Rightarrow> error + bytes) \<Rightarrow> (bytes \<Rightarrow> string \<Rightarrow> error + 'key) \<Rightarrow> string \<Rightarrow> string \<Rightarrow> error + 'key option" where
  "newKeyFromKeystore ReadFile DecryptKey path password =
     (if path = [] \<and> password = [] then Inr None
      else case ReadFile path of
             Inl e \<Rightarrow> Inl e
           | Inr keystoreEncrypted \<Rightarrow> map_sum id Some (DecryptKey keystoreEncrypted password))"

definition newAuthFromKeystore ::
  "(string \<Rightarrow> error + bytes) \<Rightarrow> (bytes \<Rightarrow> string \<Rightarrow> error + 'key) \<Rightarrow> ('key \<Rightarrow> u64 \<Rightarrow> error + 'tx TransactOpts) \<Rightarrow> string \<Rightarrow> string \<Rightarrow>
   u64 \<Rightarrow> error + 'tx TransactOpts \<times> 'key option"
where
  "newAuthFromKeystore ReadFile DecryptKey transactor path password chainID =
     (case newKeyFromKeystore ReadFile DecryptKey path password of
        Inl e \<Rightarrow> Inl e
      | Inr None \<Rightarrow> Inr (\<lparr>to_From = 0, to_Signer = None\<rparr>, None)
      | Inr (Some key) \<Rightarrow> map_sum id (\<lambda>auth. (auth, Some key)) (transactor key chainID))"

definition LoadAuthFromKeyStore ::
  "(string \<Rightarrow> error + bytes) \<Rightarrow> (bytes \<Rightarrow> string \<Rightarrow> error + 'key) \<Rightarrow> ('key \<Rightarrow> u64 \<Rightarrow> error + 'tx TransactOpts) \<Rightarrow> string \<Rightarrow> string \<Rightarrow>
   ('blk, 'tx, 'receipt) Client \<Rightarrow> ('blk, 'tx, 'receipt) Client \<times> (error + 'tx TransactOpts \<times> 'key option)"
where
  "LoadAuthFromKeyStore ReadFile DecryptKey transactor path password c =
     (case newAuthFromKeystore ReadFile DecryptKey transactor path password (em_L1ChainID c) of
        Inl e \<Rightarrow> (c, Inl e)
      | Inr (auth, pk) \<Rightarrow> (AddOrReplaceAuth auth c, Inr (auth, pk)))"

section \<open>The settlement transaction\<close>

definition DecodeBytes :: "string option \<Rightarrow> error + bytes" where
  "DecodeBytes val = (case val of None \<Rightarrow> Inr [] | Some s \<Rightarrow> DecodeString (trim_0x s))"

text \<open>\<open>copy\<close> into an array of 32 bytes.\<close>

definition copy32 :: "bytes \<Rightarrow> bytes" where
  "copy32 b = take 32 (b @ replicate 32 0)"

fun decode_words :: "string \<Rightarrow> nat \<Rightarrow> error + bytes list" where
  "decode_words p 0 = Inr []"
| "decode_words p (Suc n) =
     (case DecodeBytes (Some (take 64 p)) of
        Inl e \<Rightarrow> Inl e
      | Inr b \<Rightarrow> map_sum id (\<lambda>ws. copy32 b # ws) (decode_words (drop 64 p) n))"

definition convertProof :: "string \<Rightarrow> error + bytes list" where
  "convertProof p = (if length p \<noteq> 24 * 32 * 2 + 2 then Inl (ErrMsg ''invalid proof length'') else decode_words (trim_0x p) 24)"

text \<open>
  \<open>key\<close> is the result of \<open>crypto.GenerateKey\<close>, \<open>transactor\<close> is \<open>bind.NewKeyedTransactorWithChainID\<close>.
\<close>

definition generateRandomAuth ::
  "error + 'key \<Rightarrow> ('key \<Rightarrow> u64 \<Rightarrow> error + 'tx TransactOpts) \<Rightarrow> ('blk, 'tx, 'receipt) Client \<Rightarrow> error + 'tx TransactOpts"
where
  "generateRandomAuth key transactor c =
     (case key of
        Inl _ \<Rightarrow> Inl (ErrMsg ''failed to generate a private key to estimate L1 txs'')
      | Inr privateKey \<Rightarrow>
     (case transactor privateKey (em_L1ChainID c) of
        Inl _ \<Rightarrow> Inl (ErrMsg ''failed to generate a fake authorization to estimate L1 txs'')
      | Inr auth \<Rightarrow> Inr auth))"

text \<open>
  The transaction is built and not sent; the receiver and the data, which are all that is used of it, do not depend on the options.
\<close>

definition BuildTrustedVerifyBatchesTxData ::
  "error + 'key \<Rightarrow> ('key \<Rightarrow> u64 \<Rightarrow> error + 'tx TransactOpts) \<Rightarrow> ('blk, 'tx, 'receipt) Client \<Rightarrow> u64 \<Rightarrow> u64 \<Rightarrow> FinalProofInputs \<Rightarrow>
   address \<Rightarrow> error + address option \<times> bytes"
where
  "BuildTrustedVerifyBatchesTxData key transactor c lastVerifiedBatch newVerifiedBatch inputs beneficiary =
     (case generateRandomAuth key transactor c of
        Inl e \<Rightarrow> Inl e
      | Inr opts \<Rightarrow>
     (case convertProof (fp_Proof (fi_FinalProof inputs)) of
        Inl e \<Rightarrow> Inl e
      | Inr proof_words \<Rightarrow>
          map_sum id (\<lambda>tx. (l1tx_To tx, l1tx_Data tx))
            (parse_err (ct_VerifyBatchesTrustedAggregator (em_Contracts c)
               \<lparr>va_rollupID = em_RollupID c, va_pendStateNum = 0, va_initNumBatch = lastVerifiedBatch, va_finalNewBatch = newVerifiedBatch,
                va_newLocalExitRoot = copy32 (fi_NewLocalExitRoot inputs), va_newStateRoot = copy32 (fi_NewStateRoot inputs),
                va_beneficiary = beneficiary, va_proof = proof_words\<rparr>))))"

section \<open>The proof of a settlement\<close>

lemma trim_0x_no_x: "CHR ''x'' \<notin> set s \<Longrightarrow> trim_0x s = s"
  by (induction s rule: trim_0x.induct) auto

lemma EncodeToString_take_drop:
  "take (2 * n) (EncodeToString bs) = EncodeToString (take n bs)" "drop (2 * n) (EncodeToString bs) = EncodeToString (drop n bs)"
proof (induction n arbitrary: bs)
  case (Suc n)
  {
    case 1
    then show ?case using Suc.IH(1) by (cases bs) (simp_all add: EncodeToString_Cons byte_hex_def EncodeToString_def [of "[]"])
  next
    case 2
    then show ?case using Suc.IH(2) by (cases bs) (simp_all add: EncodeToString_Cons byte_hex_def EncodeToString_def [of "[]"])
  }
qed (simp_all add: EncodeToString_def)

lemma copy32_id: "length b = 32 \<Longrightarrow> copy32 b = b"
  by (simp add: copy32_def)

lemma length_copy32 [simp]: "length (copy32 b) = 32"
  by (simp add: copy32_def)

lemma DecodeBytes_EncodeToString: "DecodeBytes (Some (EncodeToString bs)) = Inr bs"
  by (simp add: DecodeBytes_def trim_0x_no_x [OF no_x_EncodeToString] DecodeString_EncodeToString)

text \<open>The words of a proof: its bytes in pieces of 32.\<close>

fun proof_words :: "nat \<Rightarrow> bytes \<Rightarrow> bytes list" where
  "proof_words 0 bs = []"
| "proof_words (Suc n) bs = take 32 bs # proof_words n (drop 32 bs)"

lemma concat_proof_words: "length bs = 32 * n \<Longrightarrow> concat (proof_words n bs) = bs"
  by (induction n bs rule: proof_words.induct) simp_all

lemma proof_words_length: "length bs = 32 * n \<Longrightarrow> length (proof_words n bs) = n \<and> (\<forall>w\<in>set (proof_words n bs). length w = 32)"
  by (induction n bs rule: proof_words.induct) simp_all

lemma decode_words_EncodeToString:
  "32 * n \<le> length bs \<Longrightarrow> decode_words (EncodeToString bs) n = Inr (proof_words n bs)"
proof (induction n arbitrary: bs)
  case (Suc n)
  moreover have "take 64 (EncodeToString bs) = EncodeToString (take 32 bs)" "drop 64 (EncodeToString bs) = EncodeToString (drop 32 bs)"
    using EncodeToString_take_drop [of 32 bs] by simp_all
  ultimately show ?case by (simp add: DecodeBytes_EncodeToString copy32_id)
qed simp

lemma convertProof_roundtrip:
  "length bs = 768 \<Longrightarrow> convertProof (EncodeToHex bs) = Inr (proof_words 24 bs)"
  by (simp add: convertProof_def EncodeToHex_def length_EncodeToString decode_words_EncodeToString)

lemma decode_words_shape: "decode_words p n = Inr ws \<Longrightarrow> length ws = n \<and> (\<forall>w\<in>set ws. length w = 32)"
  by (induction p n arbitrary: ws rule: decode_words.induct) (auto simp: map_sum_Inr_conv split: sum.splits)

text \<open>The length is checked with the prefix; without one, two digits too many are accepted and dropped.\<close>

lemma convertProof_drops_last_byte:
  assumes "length bs = 769"
  shows "convertProof (EncodeToString bs) = Inr (proof_words 24 bs)" "concat (proof_words 24 bs) = butlast bs"
proof -
  have "proof_words n bs = proof_words n (take (32 * n) bs)" if "32 * n \<le> length bs" for n bs
    using that by (induction n bs rule: proof_words.induct) (simp_all add: drop_take min_absorb1)
  from this [of 24 bs] show "concat (proof_words 24 bs) = butlast bs"
    using assms concat_proof_words [of "take 768 bs" 24] by (simp add: butlast_conv_take)
  show "convertProof (EncodeToString bs) = Inr (proof_words 24 bs)"
    using assms by (simp add: convertProof_def length_EncodeToString decode_words_EncodeToString trim_0x_no_x [OF no_x_EncodeToString])
qed

text \<open>C19. A settlement transaction verifies the batches after the last verified one for the client's rollup and carries the
  roots and the 24 words of a proof of 768 bytes unchanged.\<close>

theorem settlement_carries_proof:
  assumes "generateRandomAuth key transactor c = Inr opts"
    and "length bs = 768" "fp_Proof (fi_FinalProof inputs) = EncodeToHex bs"
    and "length (fi_NewLocalExitRoot inputs) = 32" "length (fi_NewStateRoot inputs) = 32"
  shows "\<exists>ws. concat ws = bs \<and> length ws = 24 \<and> (\<forall>w\<in>set ws. length w = 32) \<and>
    BuildTrustedVerifyBatchesTxData key transactor c lastVerified newVerified inputs beneficiary =
      map_sum id (\<lambda>tx. (l1tx_To tx, l1tx_Data tx))
        (parse_err (ct_VerifyBatchesTrustedAggregator (em_Contracts c)
           \<lparr>va_rollupID = em_RollupID c, va_pendStateNum = 0, va_initNumBatch = lastVerified, va_finalNewBatch = newVerified,
            va_newLocalExitRoot = fi_NewLocalExitRoot inputs, va_newStateRoot = fi_NewStateRoot inputs,
            va_beneficiary = beneficiary, va_proof = ws\<rparr>))"
  using assms concat_proof_words [of bs 24] proof_words_length [of bs 24]
  by (intro exI [of _ "proof_words 24 bs"]) (simp add: BuildTrustedVerifyBatchesTxData_def convertProof_roundtrip copy32_id)

lemma settlement_refuses_length:
  assumes "generateRandomAuth key transactor c = Inr opts" "length (fp_Proof (fi_FinalProof inputs)) \<noteq> 1538"
  shows "BuildTrustedVerifyBatchesTxData key transactor c lastVerified newVerified inputs beneficiary = Inl (ErrMsg ''invalid proof length'')"
  using assms by (simp add: BuildTrustedVerifyBatchesTxData_def convertProof_def)

definition sample_contracts :: l1_contracts where
  "sample_contracts =
     \<lparr>ct_RollupAddressToID = (\<lambda>_. Inr 1), ct_GetBatchFee = Inr 7, ct_RollupIDToRollupData = (\<lambda>_. Inr \<lparr>rd_ChainID = 5, rd_LastBatchSequenced = 9,
      rd_LastVerifiedBatch = 4\<rparr>), ct_GetRollupSequencedBatches = (\<lambda>_ _. Inr 0),
      ct_VerifyBatchesTrustedAggregator = (\<lambda>a. Inr \<lparr>l1tx_To = Some 3, l1tx_Data = concat (va_proof a), l1tx_Size = 0\<rparr>),
      ct_TrustedSequencer = Inr 1, ct_TrustedSequencerURL = Inr [], ct_DataAvailabilityProtocol = Inr 2, ct_LastAccInputHash = Inr 0,
      ct_L1InfoRootMap = (\<lambda>_. Inr 0)\<rparr>"

definition sample_em_client :: "(unit, unit, unit) Client" where
  "sample_em_client =
     \<lparr>em_EthClient = \<lparr>ec_HeaderByNumber = (\<lambda>_. Inr None), ec_BlockByNumber = (\<lambda>_. Inr ()), ec_TransactionByHash = (\<lambda>_. Inr ((), False)),
        ec_TransactionReceipt = (\<lambda>_. Inr ()), ec_SendTransaction = (\<lambda>_. None), ec_NonceAt = (\<lambda>_. Inr 0), ec_EstimateGas = (\<lambda>_ _ _ _. Inr 0)\<rparr>,
      em_DAProtocol = None, em_Contracts = sample_contracts, em_RollupID = 1, em_L1ChainID = 1, em_auth = (\<lambda>_. None)\<rparr>"

definition sample_settlement :: FinalProofInputs where
  "sample_settlement =
     \<lparr>fi_FinalProof = \<lparr>fp_Proof = EncodeToHex (replicate 768 9), fp_Public = None\<rparr>, fi_NewLocalExitRoot = replicate 32 1,
      fi_NewStateRoot = replicate 32 2\<rparr>"

theorem settlement_carries_proof_witness:
  "BuildTrustedVerifyBatchesTxData (Inr ()) (\<lambda>_ _. Inr \<lparr>to_From = 8, to_Signer = None\<rparr>) sample_em_client 4 9 sample_settlement 6 =
     Inr (Some 3, replicate 768 9)"
proof -
  obtain ws where ws: "concat ws = replicate 768 (9 :: u8)"
    and b: "BuildTrustedVerifyBatchesTxData (Inr ()) (\<lambda>_ _. Inr \<lparr>to_From = 8, to_Signer = None\<rparr>) sample_em_client 4 9 sample_settlement 6 =
      map_sum id (\<lambda>tx. (l1tx_To tx, l1tx_Data tx))
        (parse_err (ct_VerifyBatchesTrustedAggregator sample_contracts
           \<lparr>va_rollupID = 1, va_pendStateNum = 0, va_initNumBatch = 4, va_finalNewBatch = 9, va_newLocalExitRoot = replicate 32 1,
            va_newStateRoot = replicate 32 2, va_beneficiary = 6, va_proof = ws\<rparr>))"
    using settlement_carries_proof [of "Inr ()" "\<lambda>_ _. Inr \<lparr>to_From = 8, to_Signer = None\<rparr>" sample_em_client
        "\<lparr>to_From = 8, to_Signer = None\<rparr>" "replicate 768 9" sample_settlement 4 9 6]
    by (auto simp: generateRandomAuth_def sample_em_client_def sample_settlement_def)
  show ?thesis unfolding b by (simp add: sample_contracts_def parse_err_def ws)
qed

section \<open>Signing\<close>

lemma loaded_key_signs:
  assumes "newKeyFromKeystore ReadFile DecryptKey path password = Inr (Some key)" "transactor key (em_L1ChainID c) = Inr auth"
    "to_Signer auth = Some sign"
  shows "SignTx (fst (LoadAuthFromKeyStore ReadFile DecryptKey transactor path password c)) sender tx =
    (if sender = to_From auth then sign tx else SignTx c sender tx)"
  using assms by (simp add: LoadAuthFromKeyStore_def newAuthFromKeystore_def AddOrReplaceAuth_def SignTx_def getAuthByAddress_def)

lemma read_only_client_refuses:
  "em_auth c sender = None \<Longrightarrow> SignTx c sender tx = Inl ErrPrivateKeyNotFound"
  by (simp add: SignTx_def getAuthByAddress_def)

text \<open>With no keystore at all the zero address gets an authorization without a signer.\<close>

lemma empty_keystore_panics:
  "SignTx (fst (LoadAuthFromKeyStore ReadFile DecryptKey transactor [] [] c)) 0 tx = Inl ErrPanic"
  by (simp add: LoadAuthFromKeyStore_def newAuthFromKeystore_def newKeyFromKeystore_def AddOrReplaceAuth_def SignTx_def getAuthByAddress_def)

lemma NewClient_rollup:
  "NewClient dial chainID new_contracts new_da addr l1ChainID validium = Inr c \<Longrightarrow>
    em_RollupID c \<noteq> 0 \<and> em_auth c = (\<lambda>_. None) \<and> (validium \<longleftrightarrow> em_DAProtocol c \<noteq> None)"
  by (auto simp: NewClient_def Let_def map_sum_Inr_conv split: sum.splits if_splits)

end
