(* ===== verification/RpcClients.thy ===== *)
theory RpcClients
  imports AgglayerClient BridgeRpc TxBuilder
begin

text \<open>
  The clients of RPC services: batches and witnesses of the sequencer (\<open>src/rpc/batch.go\<close>), the bridge service (\<open>src/rpc/client/bridge.go\<close>),
  and the translation of URLs (\<open>src/translator/\<close>). The JSON-RPC call, the decoding of results and the Ethereum library's conversions
  from hexadecimal are arguments. A result that is nil has no bytes.
\<close>

section \<open>Batches of the sequencer\<close>

datatype rpc_arg = ArgUint u64 | ArgString string | ArgBool bool | ArgBig int | ArgClaim cs_Claim

type_synonym rpc_call = "string \<Rightarrow> rpc_arg list \<Rightarrow> error + rpc_response"

record zkEVMBatch =
  zb_AccInputHash :: string
  zb_Blocks :: "string list"
  zb_BatchL2Data :: string
  zb_Coinbase :: string
  zb_GlobalExitRoot :: string
  zb_LocalExitRoot :: string
  zb_StateRoot :: string
  zb_Closed :: bool
  zb_Timestamp :: string

record batch_json =
  bj_batch :: "bytes \<Rightarrow> error + zkEVMBatch"
  bj_block :: "bytes \<Rightarrow> error + string"
  bj_string :: "bytes \<Rightarrow> error + string"
  bj_HexToHash :: "string \<Rightarrow> hash"
  bj_HexToAddress :: "string \<Rightarrow> address"
  bj_FromHex :: "string \<Rightarrow> bytes"

definition ErrBusy :: error where
  "ErrBusy = ErrMsg ''witness server is busy''"

text \<open>\<open>new(big.Int).SetBytes(common.FromHex(s)).Uint64()\<close>, which keeps the low 64 bits.\<close>

definition hex_Uint64 :: "batch_json \<Rightarrow> string \<Rightarrow> u64" where
  "hex_Uint64 J s = of_nat (be_value (bj_FromHex J s))"

definition GetL2BlockTimestamp :: "rpc_call \<Rightarrow> batch_json \<Rightarrow> string \<Rightarrow> error + u64" where
  "GetL2BlockTimestamp call J blockHash =
     map_sum id (hex_Uint64 J) (call_result (bj_block J) (call ''eth_getBlockByHash'' [ArgString blockHash, ArgBool False]))"

definition SetLastL2BLockTimestamp :: "u64 \<Rightarrow> RPCBatch \<Rightarrow> RPCBatch" where
  "SetLastL2BLockTimestamp ts b = b\<lparr>rb_lastL2BlockTimestamp := ts\<rparr>"

definition batch_of_response :: "batch_json \<Rightarrow> u64 \<Rightarrow> zkEVMBatch \<Rightarrow> RPCBatch" where
  "batch_of_response J batchNumber z =
     NewRPCBatch batchNumber (bj_HexToHash J (zb_AccInputHash z)) (zb_Blocks z) (bj_FromHex J (zb_BatchL2Data z))
       (bj_HexToHash J (zb_GlobalExitRoot z)) (bj_HexToHash J (zb_LocalExitRoot z)) (bj_HexToHash J (zb_StateRoot z))
       (bj_HexToAddress J (zb_Coinbase z)) (zb_Closed z)"

definition be_GetBatch :: "rpc_call \<Rightarrow> batch_json \<Rightarrow> u64 \<Rightarrow> error + RPCBatch" where
  "be_GetBatch call J batchNumber =
     (case call ''zkevm_getBatchByNumber'' [ArgUint batchNumber] of
        Inl e \<Rightarrow> Inl e
      | Inr response \<Rightarrow>
     if rs_Result response = [] then Inl ErrNotFound
     else (case rs_Error response of
        Some e \<Rightarrow> Inl (rpc_error e)
      | None \<Rightarrow>
     (case bj_batch J (rs_Result response) of
        Inl e \<Rightarrow> Inl e
      | Inr z \<Rightarrow>
     if zb_Blocks z \<noteq> [] then
       map_sum id (\<lambda>ts. SetLastL2BLockTimestamp ts (batch_of_response J batchNumber z)) (GetL2BlockTimestamp call J (last (zb_Blocks z)))
     else Inr (SetLastL2BLockTimestamp (hex_Uint64 J (zb_Timestamp z)) (batch_of_response J batchNumber z)))))"

definition GetWitness :: "rpc_call \<Rightarrow> batch_json \<Rightarrow> u64 \<Rightarrow> bool \<Rightarrow> error + bytes" where
  "GetWitness call J batchNumber fullWitness =
     (case call ''zkevm_getBatchWitness'' [ArgUint batchNumber, ArgString (if fullWitness then ''full'' else ''trimmed'')] of
        Inl e \<Rightarrow> Inl e
      | Inr response \<Rightarrow>
     (case rs_Error response of
        Some e \<Rightarrow> if snd e = ''busy'' then Inl ErrBusy else Inl (rpc_error e)
      | None \<Rightarrow> map_sum id (bj_FromHex J) (bj_string J (rs_Result response))))"

section \<open>The client of the bridge service\<close>

text \<open>
  \<open>return result, json.Unmarshal(response.Result, &result)\<close>: Go does not say whether the value is read before or after the call;
  \<open>late\<close> is the choice of the compiler.
\<close>

definition returned :: "bool \<Rightarrow> 'a \<Rightarrow> error + 'a \<Rightarrow> 'a \<times> error option" where
  "returned late zero r = (case r of Inl e \<Rightarrow> (zero, Some e) | Inr x \<Rightarrow> (if late then x else zero, None))"

definition bc_L1InfoTreeIndexForBridge :: "bool \<Rightarrow> rpc_call \<Rightarrow> (bytes \<Rightarrow> error + u32) \<Rightarrow> u32 \<Rightarrow> u32 \<Rightarrow> u32 \<times> error option" where
  "bc_L1InfoTreeIndexForBridge late call unmarshal networkID depositCount =
     returned late 0
       (call_result unmarshal (call ''bridge_l1InfoTreeIndexForBridge'' [ArgUint (ucast networkID), ArgUint (ucast depositCount)]))"

definition bc_InjectedInfoAfterIndex :: "rpc_call \<Rightarrow> (bytes \<Rightarrow> error + L1InfoTreeLeaf) \<Rightarrow> u32 \<Rightarrow> u32 \<Rightarrow> error + L1InfoTreeLeaf" where
  "bc_InjectedInfoAfterIndex call unmarshal networkID l1InfoTreeIndex =
     call_result unmarshal (call ''bridge_injectedInfoAfterIndex'' [ArgUint (ucast networkID), ArgUint (ucast l1InfoTreeIndex)])"

definition bc_ClaimProof :: "rpc_call \<Rightarrow> (bytes \<Rightarrow> error + ClaimProof) \<Rightarrow> u32 \<Rightarrow> u32 \<Rightarrow> u32 \<Rightarrow> error + ClaimProof" where
  "bc_ClaimProof call unmarshal networkID depositCount l1InfoTreeIndex =
     call_result unmarshal (call ''bridge_claimProof'' [ArgUint (ucast networkID), ArgUint (ucast depositCount), ArgUint (ucast l1InfoTreeIndex)])"

definition bc_SponsorClaim :: "rpc_call \<Rightarrow> cs_Claim \<Rightarrow> error option" where
  "bc_SponsorClaim call c =
     (case call ''bridge_sponsorClaim'' [ArgClaim c] of
        Inl e \<Rightarrow> Some e
      | Inr response \<Rightarrow> map_option rpc_error (rs_Error response))"

definition bc_GetSponsoredClaimStatus :: "bool \<Rightarrow> rpc_call \<Rightarrow> (bytes \<Rightarrow> error + string) \<Rightarrow> int \<Rightarrow> string \<times> error option" where
  "bc_GetSponsoredClaimStatus late call unmarshal globalIndex =
     returned late [] (call_result unmarshal (call ''bridge_getSponsoredClaimStatus'' [ArgBig globalIndex]))"

section \<open>Translation of URLs\<close>

record TranslatorFullMatchRule =
  tr_ContextName :: "string option"
  tr_FullMatchString :: string
  tr_NewString :: string

record ConfigRuleFullMatch =
  cr_ContextName :: string
  cr_Old :: string
  cr_New :: string

type_synonym TranslatorImpl = "TranslatorFullMatchRule list"

definition rule_Match :: "TranslatorFullMatchRule \<Rightarrow> string \<Rightarrow> string \<Rightarrow> bool" where
  "rule_Match t contextName data =
     (case tr_ContextName t of
        Some name \<Rightarrow> if name \<noteq> contextName then False else tr_FullMatchString t = data
      | None \<Rightarrow> tr_FullMatchString t = data)"

definition rule_Translate :: "TranslatorFullMatchRule \<Rightarrow> string \<Rightarrow> string \<Rightarrow> string" where
  "rule_Translate t contextName data = tr_NewString t"

fun Translate :: "TranslatorImpl \<Rightarrow> string \<Rightarrow> string \<Rightarrow> string" where
  "Translate [] contextName data = data"
| "Translate (rule # rules) contextName data =
     (if rule_Match rule contextName data then rule_Translate rule contextName data else Translate rules contextName data)"

definition AddRule :: "TranslatorFullMatchRule \<Rightarrow> TranslatorImpl \<Rightarrow> TranslatorImpl" where
  "AddRule rule t = t @ [rule]"

definition NewTranslatorFullMatchRule :: "string option \<Rightarrow> string \<Rightarrow> string \<Rightarrow> TranslatorFullMatchRule" where
  "NewTranslatorFullMatchRule contextName fullMatchString newString =
     \<lparr>tr_ContextName = contextName, tr_FullMatchString = fullMatchString, tr_NewString = newString\<rparr>"

fun AddConfigRules :: "ConfigRuleFullMatch list \<Rightarrow> TranslatorImpl \<Rightarrow> TranslatorImpl" where
  "AddConfigRules [] t = t"
| "AddConfigRules (v # cfg) t =
     AddConfigRules cfg
       (AddRule (NewTranslatorFullMatchRule (if cr_ContextName v \<noteq> [] then Some (cr_ContextName v) else None) (cr_Old v) (cr_New v)) t)"

section \<open>What the clients return\<close>

text \<open>The text of a batch as the sequencer sends it; \<open>0x\<close> and digits everywhere.\<close>

definition batch_text :: "RPCBatch \<Rightarrow> zkEVMBatch" where
  "batch_text b =
     \<lparr>zb_AccInputHash = EncodeToHex (hash_bytes (rb_accInputHash b)), zb_Blocks = rb_blockHashes b,
      zb_BatchL2Data = EncodeToHex (rb_batchL2Data b), zb_Coinbase = EncodeToHex (addr_bytes (rb_coinbase b)),
      zb_GlobalExitRoot = EncodeToHex (hash_bytes (rb_globalExitRoot b)), zb_LocalExitRoot = EncodeToHex (hash_bytes (rb_localExitRoot b)),
      zb_StateRoot = EncodeToHex (hash_bytes (rb_stateRoot b)), zb_Closed = rb_closed b,
      zb_Timestamp = EncodeToHex (be_bytes 8 (rb_lastL2BlockTimestamp b))\<rparr>"

text \<open>The conversions read what they document.\<close>

definition hex_conv_law :: "batch_json \<Rightarrow> bool" where
  "hex_conv_law J \<longleftrightarrow> (\<forall>bs. bj_FromHex J (EncodeToHex bs) = bs) \<and> (\<forall>h. bj_HexToHash J (EncodeToHex (hash_bytes h)) = h) \<and>
     (\<forall>a. bj_HexToAddress J (EncodeToHex (addr_bytes a)) = a)"

text \<open>A sequencer that serves the batch \<open>b\<close> and its last block.\<close>

definition serves :: "rpc_call \<Rightarrow> batch_json \<Rightarrow> RPCBatch \<Rightarrow> bool" where
  "serves call J b \<longleftrightarrow>
     (\<exists>r. call ''zkevm_getBatchByNumber'' [ArgUint (rb_batchNumber b)] = Inr \<lparr>rs_Result = r, rs_Error = None\<rparr> \<and> r \<noteq> [] \<and>
        bj_batch J r = Inr (batch_text b)) \<and>
     (rb_blockHashes b \<noteq> [] \<longrightarrow>
       (\<exists>r. call ''eth_getBlockByHash'' [ArgString (last (rb_blockHashes b)), ArgBool False] = Inr \<lparr>rs_Result = r, rs_Error = None\<rparr> \<and>
        bj_block J r = Inr (EncodeToHex (be_bytes 8 (rb_lastL2BlockTimestamp b)))))"

lemma served_batch_returned:
  assumes "hex_conv_law J" and "serves call J b" and "rb_l1InfoTreeIndex b = 0"
  shows "be_GetBatch call J (rb_batchNumber b) = Inr b"
proof -
  have ts: "hex_Uint64 J (EncodeToHex (be_bytes 8 (rb_lastL2BlockTimestamp b))) = rb_lastL2BlockTimestamp b"
    using assms(1) unsigned_less [of "rb_lastL2BlockTimestamp b", where 'a = nat] by (simp add: hex_conv_law_def hex_Uint64_def be_value_be_bytes)
  have bt: "SetLastL2BLockTimestamp (rb_lastL2BlockTimestamp b) (batch_of_response J (rb_batchNumber b) (batch_text b)) = b"
    using assms(1,3) by (simp add: hex_conv_law_def batch_of_response_def batch_text_def NewRPCBatch_def SetLastL2BLockTimestamp_def)
  have "zb_Blocks (batch_text b) = rb_blockHashes b"
    "zb_Timestamp (batch_text b) = EncodeToHex (be_bytes 8 (rb_lastL2BlockTimestamp b))" by (simp_all add: batch_text_def)
  then show ?thesis
    using assms(2) ts bt by (auto simp: serves_def be_GetBatch_def GetL2BlockTimestamp_def call_result_def)
qed

text \<open>An error of the sequencer comes without a result and is taken for a batch that does not exist.\<close>

lemma error_is_not_found:
  assumes "call ''zkevm_getBatchByNumber'' [ArgUint n] = Inr \<lparr>rs_Result = [], rs_Error = Some e\<rparr>"
  shows "be_GetBatch call J n = Inl ErrNotFound"
  using assms by (simp add: be_GetBatch_def)

lemma busy_witness:
  assumes "call ''zkevm_getBatchWitness'' [ArgUint n, ArgString (if full then ''full'' else ''trimmed'')] =
    Inr \<lparr>rs_Result = r, rs_Error = Some (c, ''busy'')\<rparr>"
  shows "GetWitness call J n full = Inl ErrBusy"
  using assms by (simp add: GetWitness_def)

text \<open>Read before the call, the index of the bridge service is always 0.\<close>

lemma index_read_early:
  "fst (bc_L1InfoTreeIndexForBridge False call unmarshal networkID depositCount) = 0"
  by (simp add: bc_L1InfoTreeIndexForBridge_def returned_def split: sum.splits)

lemma Translate_find:
  "Translate t ctx data = (case find (\<lambda>r. rule_Match r ctx data) t of None \<Rightarrow> data | Some r \<Rightarrow> tr_NewString r)"
  by (induction t) (simp_all add: rule_Translate_def)

lemma AddConfigRules_append: "\<exists>rs. AddConfigRules cfg t = t @ rs \<and> map tr_NewString rs = map cr_New cfg"
proof (induction cfg arbitrary: t)
  case (Cons v cfg)
  let ?r = "NewTranslatorFullMatchRule (if cr_ContextName v \<noteq> [] then Some (cr_ContextName v) else None) (cr_Old v) (cr_New v)"
  obtain rs where "AddConfigRules cfg (t @ [?r]) = (t @ [?r]) @ rs" "map tr_NewString rs = map cr_New cfg" using Cons.IH by blast
  then show ?case by (intro exI [of _ "?r # rs"]) (simp add: AddRule_def NewTranslatorFullMatchRule_def)
qed simp

text \<open>Rules that are added never change what an earlier rule translates.\<close>

lemma AddConfigRules_keeps:
  assumes "find (\<lambda>r. rule_Match r ctx data) t = Some r"
  shows "Translate (AddConfigRules cfg t) ctx data = tr_NewString r"
proof -
  have "find P (t @ rs) = Some r" if "find P t = Some r" for P :: "TranslatorFullMatchRule \<Rightarrow> bool" and rs
    using that by (induction t) (auto split: if_splits)
  with assms AddConfigRules_append [of cfg t] show ?thesis by (auto simp: Translate_find)
qed

end
