(* ===== verification/NodeStart.thy ===== *)
theory NodeStart
  imports Etherman RpcClients EpochNotifier
begin

text \<open>
  The start of a node (\<open>src/cmd/run.go\<close>): which parts run for the selected components and how they are connected. A part is known by what it is
  connected to; a nil reference is \<open>None\<close>. Whether a constructor fails is an argument, as are the node, the contracts, the files and
  the database; \<open>log.Fatal\<close> ends the process, so every failure is the error of the start.
\<close>

section \<open>Components, parts and services\<close>

definition SEQUENCE_SENDER :: string where "SEQUENCE_SENDER = ''sequence-sender''"
definition AGGREGATOR :: string where "AGGREGATOR = ''aggregator''"
definition AGGORACLE :: string where "AGGORACLE = ''aggoracle''"
definition RPC :: string where "RPC = ''rpc''"
definition AGGSENDER :: string where "AGGSENDER = ''aggsender''"
definition L1INFOTREESYNC :: string where "L1INFOTREESYNC = ''l1infotreesync''"

lemmas component_names = SEQUENCE_SENDER_def AGGREGATOR_def AGGORACLE_def RPC_def AGGSENDER_def L1INFOTREESYNC_def

datatype part =
    EthClient string
  | Detector "part option"
  | InfoTreeSync "part option" "part option"
  | Sponsor "part option"
  | BridgeSyncer u32 "part option" "part option"
  | GERSyncer "part option" "part option" "part option"

record 'key committee =
  cm_Addr :: address
  cm_PrivKey :: "'key option"
  cm_Translator :: TranslatorImpl

datatype 'key node_builder =
    BananaValidium "'key committee option" address u64 "part option" "part option" int
  | BananaZKEVM address u64 "part option" "part option" int
  | ElderberryValidium "'key committee option" address u64
  | ElderberryZKEVM address u64

datatype 'key service =
    SequenceSenderService address "'key node_builder"
  | AggregatorService u64
  | AggOracleService "part option" "part option" "part option" int
  | RPCService "part option" "part option" "part option" "part option" "part option"
  | AggSenderService "part option" "part option" "part option" ConfigEpochNotifierPerBlock

record node_config =
  nc_Etherman_URL :: string
  nc_AggSender_URLRPCL2 :: string
  nc_AggOracle_URLRPCL2 :: string
  nc_ClaimSponsor_Enabled :: bool
  nc_BridgeL1_OriginNetwork :: u32
  nc_BridgeL2_OriginNetwork :: u32
  nc_Seq_RPCURL :: string
  nc_Seq_URL :: string
  nc_Seq_KeyPath :: string
  nc_Seq_KeyPassword :: string
  nc_Seq_BlockFinality :: BlockNumberFinality
  nc_MaxBatchesForL1 :: u64
  nc_MaxTxSizeForL1 :: u64
  nc_ContractVersions :: string
  nc_IsValidiumMode :: bool
  nc_Translator :: "ConfigRuleFullMatch list"
  nc_ZkEVMAddr :: address
  nc_L1ChainID :: u64
  nc_Agg_URL :: string
  nc_Agg_ChainID :: u64
  nc_TargetChainType :: string
  nc_AggOracle_BlockFinality :: BlockNumberFinality
  nc_AggSender_BlockFinality :: BlockNumberFinality
  nc_EpochNotificationPercentage :: u64

text \<open>\<open>ne_create\<close> and \<open>ne_service\<close> are the errors of the constructors, \<open>ne_txManager\<close> that of the transaction manager of the oracle.\<close>

record ('blk, 'tx, 'receipt, 'key) node_env =
  ne_create :: "part \<Rightarrow> error option"
  ne_service :: "'key service \<Rightarrow> error option"
  ne_dial :: "string \<Rightarrow> error + ('blk, 'tx, 'receipt) ethereumClient"
  ne_ChainID :: "string \<Rightarrow> error + int"
  ne_contracts :: "string \<Rightarrow> error + l1_contracts"
  ne_daProtocol :: "address \<Rightarrow> error + address"
  ne_daName :: "address \<Rightarrow> error + string"
  ne_ReadFile :: "string \<Rightarrow> error + bytes"
  ne_DecryptKey :: "bytes \<Rightarrow> string \<Rightarrow> error + 'key"
  ne_transactor :: "'key \<Rightarrow> u64 \<Rightarrow> error + 'tx TransactOpts"
  ne_committee :: "'key committee \<Rightarrow> error option"
  ne_migrations :: "error option"
  ne_sqlDB :: "error option"
  ne_txManager :: "error option"
  ne_gerSender :: "error option"
  ne_epochs :: "error + u64 \<times> u64"

definition checked :: "error option \<Rightarrow> 'a \<Rightarrow> error + 'a" where
  "checked err x = (case err of Some e \<Rightarrow> Inl e | None \<Rightarrow> Inr x)"

section \<open>The parts\<close>

definition isNeeded :: "string list \<Rightarrow> string list \<Rightarrow> bool" where
  "isNeeded casesWhereNeeded actualCases =
     list_ex (\<lambda>actualCase. list_ex (\<lambda>caseWhereNeeded. actualCase = caseWhereNeeded) casesWhereNeeded) actualCases"

definition run_if :: "bool \<Rightarrow> ('blk, 'tx, 'receipt, 'key) node_env \<Rightarrow> part \<Rightarrow> error + part option" where
  "run_if needed e p = (if \<not> needed then Inr None else checked (ne_create e p) (Some p))"

definition runL1ClientIfNeeded :: "('blk, 'tx, 'receipt, 'key) node_env \<Rightarrow> string list \<Rightarrow> string \<Rightarrow> error + part option" where
  "runL1ClientIfNeeded e components urlRPCL1 =
     run_if (isNeeded [SEQUENCE_SENDER, AGGREGATOR, AGGORACLE, RPC, AGGSENDER, L1INFOTREESYNC] components) e (EthClient urlRPCL1)"

definition runL2ClientIfNeeded :: "('blk, 'tx, 'receipt, 'key) node_env \<Rightarrow> string list \<Rightarrow> string \<Rightarrow> error + part option" where
  "runL2ClientIfNeeded e components urlRPCL2 = run_if (isNeeded [AGGORACLE, RPC, AGGSENDER] components) e (EthClient urlRPCL2)"

definition runReorgDetectorL1IfNeeded ::
  "('blk, 'tx, 'receipt, 'key) node_env \<Rightarrow> string list \<Rightarrow> part option \<Rightarrow> error + part option"
where
  "runReorgDetectorL1IfNeeded e components l1Client =
     run_if (isNeeded [SEQUENCE_SENDER, AGGREGATOR, AGGORACLE, RPC, AGGSENDER, L1INFOTREESYNC] components) e (Detector l1Client)"

definition runReorgDetectorL2IfNeeded ::
  "('blk, 'tx, 'receipt, 'key) node_env \<Rightarrow> string list \<Rightarrow> part option \<Rightarrow> error + part option"
where
  "runReorgDetectorL2IfNeeded e components l2Client = run_if (isNeeded [AGGORACLE, RPC, AGGSENDER] components) e (Detector l2Client)"

definition runL1InfoTreeSyncerIfNeeded ::
  "('blk, 'tx, 'receipt, 'key) node_env \<Rightarrow> string list \<Rightarrow> part option \<Rightarrow> part option \<Rightarrow> error + part option"
where
  "runL1InfoTreeSyncerIfNeeded e components l1Client reorgDetector =
     run_if (isNeeded [AGGORACLE, RPC, SEQUENCE_SENDER, AGGSENDER, L1INFOTREESYNC] components) e (InfoTreeSync reorgDetector l1Client)"

definition runClaimSponsorIfNeeded ::
  "('blk, 'tx, 'receipt, 'key) node_env \<Rightarrow> string list \<Rightarrow> part option \<Rightarrow> bool \<Rightarrow> error + part option"
where
  "runClaimSponsorIfNeeded e components l2Client enabled = run_if (isNeeded [RPC] components \<and> enabled) e (Sponsor l2Client)"

definition runBridgeSyncL1IfNeeded ::
  "('blk, 'tx, 'receipt, 'key) node_env \<Rightarrow> string list \<Rightarrow> u32 \<Rightarrow> part option \<Rightarrow> part option \<Rightarrow> error + part option"
where
  "runBridgeSyncL1IfNeeded e components network reorgDetectorL1 l1Client =
     run_if (isNeeded [RPC] components) e (BridgeSyncer network reorgDetectorL1 l1Client)"

definition runBridgeSyncL2IfNeeded ::
  "('blk, 'tx, 'receipt, 'key) node_env \<Rightarrow> string list \<Rightarrow> u32 \<Rightarrow> part option \<Rightarrow> part option \<Rightarrow> error + part option"
where
  "runBridgeSyncL2IfNeeded e components network reorgDetectorL2 l2Client =
     run_if (isNeeded [RPC, AGGSENDER] components) e (BridgeSyncer network reorgDetectorL2 l2Client)"

definition runLastGERSyncIfNeeded ::
  "('blk, 'tx, 'receipt, 'key) node_env \<Rightarrow> string list \<Rightarrow> part option \<Rightarrow> part option \<Rightarrow> part option \<Rightarrow> error + part option"
where
  "runLastGERSyncIfNeeded e components reorgDetectorL2 l2Client l1InfoTreeSync =
     run_if (isNeeded [RPC] components) e (GERSyncer reorgDetectorL2 l2Client l1InfoTreeSync)"

definition getL2RPCUrl :: "node_config \<Rightarrow> string" where
  "getL2RPCUrl c = (if nc_AggSender_URLRPCL2 c \<noteq> [] then nc_AggSender_URLRPCL2 c else nc_AggOracle_URLRPCL2 c)"

section \<open>The services\<close>

definition node_NewClient :: "('blk, 'tx, 'receipt, 'key) node_env \<Rightarrow> node_config \<Rightarrow> string \<Rightarrow> error + ('blk, 'tx, 'receipt) Client" where
  "node_NewClient e c url =
     NewClient (ne_dial e url) (ne_ChainID e url) (ne_contracts e url) (ne_daProtocol e) (nc_ZkEVMAddr c) (nc_L1ChainID c) (nc_IsValidiumMode c)"

definition load_auth ::
  "('blk, 'tx, 'receipt, 'key) node_env \<Rightarrow> node_config \<Rightarrow> ('blk, 'tx, 'receipt) Client \<Rightarrow>
   ('blk, 'tx, 'receipt) Client \<times> (error + 'tx TransactOpts \<times> 'key option)"
where
  "load_auth e c ethman =
     LoadAuthFromKeyStore (ne_ReadFile e) (ne_DecryptKey e) (ne_transactor e) (nc_Seq_KeyPath c) (nc_Seq_KeyPassword c) ethman"

definition newDataAvailability ::
  "('blk, 'tx, 'receipt, 'key) node_env \<Rightarrow> node_config \<Rightarrow> ('blk, 'tx, 'receipt) Client \<Rightarrow> error + 'key committee option"
where
  "newDataAvailability e c ethman =
     (if \<not> nc_IsValidiumMode c then Inr None
      else bind_err (GetDAProtocolName (ne_daName e) ethman) (\<lambda>daProtocolName.
           if daProtocolName \<noteq> ''DataAvailabilityCommittee'' then Inl (ErrMsg ''unexpected / unsupported DA protocol'')
           else bind_err (snd (load_auth e c ethman)) (\<lambda>(_, pk).
                bind_err (GetDAProtocolAddr ethman) (\<lambda>dacAddr.
                let backend = \<lparr>cm_Addr = dacAddr, cm_PrivKey = pk, cm_Translator = AddConfigRules (nc_Translator c) []\<rparr>
                in checked (ne_committee e backend) (Some backend)))))"

definition newTxBuilder ::
  "('blk, 'tx, 'receipt, 'key) node_env \<Rightarrow> node_config \<Rightarrow> ('blk, 'tx, 'receipt) Client \<Rightarrow> part option \<Rightarrow> part option \<Rightarrow> int \<Rightarrow>
   error + 'key node_builder"
where
  "newTxBuilder e c ethman l1Client l1InfoTreeSync blockFinality =
     (case load_auth e c ethman of
        (_, Inl x) \<Rightarrow> Inl x
      | (ethman1, Inr (auth, _)) \<Rightarrow>
          bind_err (newDataAvailability e c ethman1) (\<lambda>da.
          if nc_ContractVersions c = ''banana''
          then if nc_IsValidiumMode c
               then Inr (BananaValidium da (to_From auth) (nc_MaxBatchesForL1 c) l1InfoTreeSync l1Client blockFinality)
               else Inr (BananaZKEVM (to_From auth) (nc_MaxTxSizeForL1 c) l1InfoTreeSync l1Client blockFinality)
          else if nc_ContractVersions c = ''elderberry''
          then if nc_IsValidiumMode c
               then Inr (ElderberryValidium da (to_From auth) (nc_MaxBatchesForL1 c))
               else Inr (ElderberryZKEVM (to_From auth) (nc_MaxTxSizeForL1 c))
          else Inl (ErrMsg ''unknown contract version'')))"

definition createSequenceSender ::
  "('blk, 'tx, 'receipt, 'key) node_env \<Rightarrow> node_config \<Rightarrow> part option \<Rightarrow> part option \<Rightarrow> error + 'key service"
where
  "createSequenceSender e c l1Client l1InfoTreeSync =
     (if nc_Seq_RPCURL c = [] then Inl (ErrMsg ''Required field RPCURL is empty in sequence sender config'')
      else bind_err (node_NewClient e c (nc_Seq_URL c)) (\<lambda>ethman.
           case load_auth e c ethman of
             (_, Inl x) \<Rightarrow> Inl x
           | (ethman1, Inr (auth, _)) \<Rightarrow>
               bind_err (ToBlockNum (nc_Seq_BlockFinality c)) (\<lambda>blockFinality.
               bind_err (newTxBuilder e c ethman1 l1Client l1InfoTreeSync blockFinality) (\<lambda>txBuilder.
               let s = SequenceSenderService (to_From auth) txBuilder in checked (ne_service e s) s))))"

definition createAggregator ::
  "('blk, 'tx, 'receipt, 'key) node_env \<Rightarrow> node_config \<Rightarrow> bool \<Rightarrow> error + 'key service"
where
  "createAggregator e c runMigrations =
     bind_err (checked (if runMigrations then ne_migrations e else None) ()) (\<lambda>_.
     bind_err (checked (ne_sqlDB e) ()) (\<lambda>_.
     bind_err (node_NewClient e c (nc_Agg_URL c)) (\<lambda>ethman.
     bind_err (if nc_Agg_ChainID c = 0 then GetL2ChainID ethman else Inr (nc_Agg_ChainID c)) (\<lambda>chainID.
     let s = AggregatorService chainID in checked (ne_service e s) s))))"

definition createAggoracle ::
  "('blk, 'tx, 'receipt, 'key) node_env \<Rightarrow> node_config \<Rightarrow> part option \<Rightarrow> part option \<Rightarrow> part option \<Rightarrow> error + 'key service"
where
  "createAggoracle e c l1Client l2Client syncer =
     (if nc_TargetChainType c \<noteq> ''EVM'' then Inl (ErrMsg ''Unsupported chaintype'')
      else bind_err (checked (ne_txManager e) ()) (\<lambda>_.
           bind_err (checked (ne_gerSender e) ()) (\<lambda>_.
           map_sum id (AggOracleService l1Client l2Client syncer) (ToBlockNum (nc_AggOracle_BlockFinality c)))))"

definition createAggSender ::
  "('blk, 'tx, 'receipt, 'key) node_env \<Rightarrow> node_config \<Rightarrow> part option \<Rightarrow> part option \<Rightarrow> part option \<Rightarrow> error + 'key service"
where
  "createAggSender e c l1EthClient l1InfoTreeSync l2Syncer =
     bind_err (ToBlockNum (nc_AggSender_BlockFinality c)) (\<lambda>_.
     bind_err (NewConfigEpochNotifierPerBlock (Some (ne_epochs e)) (nc_EpochNotificationPercentage c)) (\<lambda>notifierCfg.
     bind_err (checked (Config_Validate notifierCfg) ()) (\<lambda>_.
     let s = AggSenderService l1EthClient l1InfoTreeSync l2Syncer notifierCfg in checked (ne_service e s) s)))"

section \<open>The start\<close>

record node_parts =
  np_l1Client :: "part option"
  np_l2Client :: "part option"
  np_reorgDetectorL1 :: "part option"
  np_reorgDetectorL2 :: "part option"
  np_l1InfoTreeSync :: "part option"
  np_claimSponsor :: "part option"
  np_l1BridgeSync :: "part option"
  np_l2BridgeSync :: "part option"
  np_lastGERSync :: "part option"

definition start_parts :: "('blk, 'tx, 'receipt, 'key) node_env \<Rightarrow> node_config \<Rightarrow> string list \<Rightarrow> error + node_parts" where
  "start_parts e c components =
     bind_err (runL1ClientIfNeeded e components (nc_Etherman_URL c)) (\<lambda>l1Client.
     bind_err (runL2ClientIfNeeded e components (getL2RPCUrl c)) (\<lambda>l2Client.
     bind_err (runReorgDetectorL1IfNeeded e components l1Client) (\<lambda>reorgDetectorL1.
     bind_err (runReorgDetectorL2IfNeeded e components l2Client) (\<lambda>reorgDetectorL2.
     bind_err (runL1InfoTreeSyncerIfNeeded e components l1Client reorgDetectorL1) (\<lambda>l1InfoTreeSync.
     bind_err (runClaimSponsorIfNeeded e components l2Client (nc_ClaimSponsor_Enabled c)) (\<lambda>claimSponsor.
     bind_err (runBridgeSyncL1IfNeeded e components (nc_BridgeL1_OriginNetwork c) reorgDetectorL1 l1Client) (\<lambda>l1BridgeSync.
     bind_err (runBridgeSyncL2IfNeeded e components (nc_BridgeL2_OriginNetwork c) reorgDetectorL2 l2Client) (\<lambda>l2BridgeSync.
     bind_err (runLastGERSyncIfNeeded e components reorgDetectorL2 l2Client l1InfoTreeSync) (\<lambda>lastGERSync.
     Inr \<lparr>np_l1Client = l1Client, np_l2Client = l2Client, np_reorgDetectorL1 = reorgDetectorL1, np_reorgDetectorL2 = reorgDetectorL2,
          np_l1InfoTreeSync = l1InfoTreeSync, np_claimSponsor = claimSponsor, np_l1BridgeSync = l1BridgeSync, np_l2BridgeSync = l2BridgeSync,
          np_lastGERSync = lastGERSync\<rparr>)))))))))"

text \<open>A component without a case starts no service.\<close>

definition start_component ::
  "('blk, 'tx, 'receipt, 'key) node_env \<Rightarrow> node_config \<Rightarrow> bool \<Rightarrow> node_parts \<Rightarrow> string \<Rightarrow> error + 'key service list"
where
  "start_component e c runMigrations p component =
     (if component = SEQUENCE_SENDER then map_sum id (\<lambda>s. [s]) (createSequenceSender e c (np_l1Client p) (np_l1InfoTreeSync p))
      else if component = AGGREGATOR then map_sum id (\<lambda>s. [s]) (createAggregator e c runMigrations)
      else if component = AGGORACLE then map_sum id (\<lambda>s. [s]) (createAggoracle e c (np_l1Client p) (np_l2Client p) (np_l1InfoTreeSync p))
      else if component = RPC then
        Inr [RPCService (np_claimSponsor p) (np_l1InfoTreeSync p) (np_lastGERSync p) (np_l1BridgeSync p) (np_l2BridgeSync p)]
      else if component = AGGSENDER then map_sum id (\<lambda>s. [s]) (createAggSender e c (np_l1Client p) (np_l1InfoTreeSync p) (np_l2BridgeSync p))
      else Inr [])"

fun start_components ::
  "('blk, 'tx, 'receipt, 'key) node_env \<Rightarrow> node_config \<Rightarrow> bool \<Rightarrow> node_parts \<Rightarrow> string list \<Rightarrow> error + 'key service list"
where
  "start_components e c runMigrations p [] = Inr []"
| "start_components e c runMigrations p (component # components) =
     bind_err (start_component e c runMigrations p component) (\<lambda>s.
     map_sum id (\<lambda>ss. s @ ss) (start_components e c runMigrations p components))"

definition node_start ::
  "('blk, 'tx, 'receipt, 'key) node_env \<Rightarrow> node_config \<Rightarrow> bool \<Rightarrow> string list \<Rightarrow> error + node_parts \<times> 'key service list"
where
  "node_start e c runMigrations components =
     bind_err (start_parts e c components) (\<lambda>p. map_sum id (\<lambda>ss. (p, ss)) (start_components e c runMigrations p components))"

section \<open>What is connected\<close>

fun wired :: "part \<Rightarrow> bool" and wired_ref :: "part option \<Rightarrow> bool" where
  "wired (EthClient url) = True"
| "wired (Detector c) = wired_ref c"
| "wired (InfoTreeSync rd c) = (wired_ref rd \<and> wired_ref c)"
| "wired (Sponsor c) = wired_ref c"
| "wired (BridgeSyncer n rd c) = (wired_ref rd \<and> wired_ref c)"
| "wired (GERSyncer rd c l) = (wired_ref rd \<and> wired_ref c \<and> wired_ref l)"
| "wired_ref None = False"
| "wired_ref (Some p) = wired p"

fun wired_service :: "'key service \<Rightarrow> bool" where
  "wired_service (SequenceSenderService a (BananaValidium da _ _ l rc _)) = (da \<noteq> None \<and> wired_ref l \<and> wired_ref rc)"
| "wired_service (SequenceSenderService a (BananaZKEVM _ _ l rc _)) = (wired_ref l \<and> wired_ref rc)"
| "wired_service (SequenceSenderService a (ElderberryValidium da _ _)) = (da \<noteq> None)"
| "wired_service (SequenceSenderService a (ElderberryZKEVM _ _)) = True"
| "wired_service (AggregatorService chainID) = (chainID \<noteq> 0)"
| "wired_service (AggOracleService c1 c2 l _) = (wired_ref c1 \<and> wired_ref c2 \<and> wired_ref l)"
| "wired_service (RPCService cs l g b1 b2) = ((cs = None \<or> wired_ref cs) \<and> wired_ref l \<and> wired_ref g \<and> wired_ref b1 \<and> wired_ref b2)"
| "wired_service (AggSenderService c l b cfg) = (wired_ref c \<and> wired_ref l \<and> wired_ref b \<and> Config_Validate cfg = None)"

fun service_component :: "'key service \<Rightarrow> string" where
  "service_component (SequenceSenderService _ _) = SEQUENCE_SENDER"
| "service_component (AggregatorService _) = AGGREGATOR"
| "service_component (AggOracleService _ _ _ _) = AGGORACLE"
| "service_component (RPCService _ _ _ _ _) = RPC"
| "service_component (AggSenderService _ _ _ _) = AGGSENDER"

lemma checked_Inr: "checked err x = Inr y \<longleftrightarrow> err = None \<and> y = x"
  by (auto simp: checked_def split: option.splits)

lemma isNeeded_iff: "isNeeded xs ys \<longleftrightarrow> (\<exists>c\<in>set ys. c \<in> set xs)"
  by (auto simp: isNeeded_def list_ex_iff)

lemmas run_defs = runL1ClientIfNeeded_def runL2ClientIfNeeded_def runReorgDetectorL1IfNeeded_def runReorgDetectorL2IfNeeded_def
  runL1InfoTreeSyncerIfNeeded_def runClaimSponsorIfNeeded_def runBridgeSyncL1IfNeeded_def runBridgeSyncL2IfNeeded_def
  runLastGERSyncIfNeeded_def

text \<open>The parts of a selection of components that starts.\<close>

definition needs_L1 :: "string list \<Rightarrow> bool" where
  "needs_L1 cs = isNeeded [SEQUENCE_SENDER, AGGREGATOR, AGGORACLE, RPC, AGGSENDER, L1INFOTREESYNC] cs"

definition needs_info :: "string list \<Rightarrow> bool" where
  "needs_info cs = isNeeded [AGGORACLE, RPC, SEQUENCE_SENDER, AGGSENDER, L1INFOTREESYNC] cs"

definition needs_L2 :: "string list \<Rightarrow> bool" where
  "needs_L2 cs = isNeeded [AGGORACLE, RPC, AGGSENDER] cs"

definition if_needed :: "bool \<Rightarrow> part \<Rightarrow> part option" where
  "if_needed b p = (if b then Some p else None)"

lemma run_if_Inr: "run_if n e p = Inr q \<Longrightarrow> q = if_needed n p"
  by (auto simp: run_if_def checked_Inr if_needed_def split: if_splits)

lemma start_parts_result:
  assumes "start_parts e c cs = Inr p"
  defines "l1 \<equiv> if_needed (needs_L1 cs) (EthClient (nc_Etherman_URL c))" and "l2 \<equiv> if_needed (needs_L2 cs) (EthClient (getL2RPCUrl c))"
  defines "rd1 \<equiv> if_needed (needs_L1 cs) (Detector l1)" and "rd2 \<equiv> if_needed (needs_L2 cs) (Detector l2)"
  defines "info \<equiv> if_needed (needs_info cs) (InfoTreeSync rd1 l1)"
  shows "p = \<lparr>np_l1Client = l1, np_l2Client = l2, np_reorgDetectorL1 = rd1, np_reorgDetectorL2 = rd2, np_l1InfoTreeSync = info,
    np_claimSponsor = if_needed (isNeeded [RPC] cs \<and> nc_ClaimSponsor_Enabled c) (Sponsor l2),
    np_l1BridgeSync = if_needed (isNeeded [RPC] cs) (BridgeSyncer (nc_BridgeL1_OriginNetwork c) rd1 l1),
    np_l2BridgeSync = if_needed (isNeeded [RPC, AGGSENDER] cs) (BridgeSyncer (nc_BridgeL2_OriginNetwork c) rd2 l2),
    np_lastGERSync = if_needed (isNeeded [RPC] cs) (GERSyncer rd2 l2 info)\<rparr>"
  using assms(1) unfolding start_parts_def run_defs bind_err_Inr
  by (auto dest!: run_if_Inr simp: assms(2-) needs_L1_def needs_L2_def needs_info_def)

lemma needed_by:
  "c \<in> {SEQUENCE_SENDER, AGGREGATOR, AGGORACLE, RPC, AGGSENDER, L1INFOTREESYNC} \<Longrightarrow> c \<in> set cs \<Longrightarrow> needs_L1 cs"
  "c \<in> {AGGORACLE, RPC, SEQUENCE_SENDER, AGGSENDER, L1INFOTREESYNC} \<Longrightarrow> c \<in> set cs \<Longrightarrow> needs_info cs"
  "c \<in> {AGGORACLE, RPC, AGGSENDER} \<Longrightarrow> c \<in> set cs \<Longrightarrow> needs_L2 cs"
  by (auto simp: needs_L1_def needs_info_def needs_L2_def isNeeded_iff)

lemma parts_wired:
  assumes "start_parts e c cs = Inr p"
  shows "a \<in> {SEQUENCE_SENDER, AGGREGATOR, AGGORACLE, RPC, AGGSENDER, L1INFOTREESYNC} \<Longrightarrow> a \<in> set cs \<Longrightarrow> wired_ref (np_l1Client p)"
    and "a \<in> {AGGORACLE, RPC, AGGSENDER} \<Longrightarrow> a \<in> set cs \<Longrightarrow> wired_ref (np_l2Client p)"
    and "a \<in> {AGGORACLE, RPC, SEQUENCE_SENDER, AGGSENDER, L1INFOTREESYNC} \<Longrightarrow> a \<in> set cs \<Longrightarrow> wired_ref (np_l1InfoTreeSync p)"
    and "a \<in> {RPC, AGGSENDER} \<Longrightarrow> a \<in> set cs \<Longrightarrow> wired_ref (np_l2BridgeSync p)"
    and "RPC \<in> set cs \<Longrightarrow> wired_ref (np_l1BridgeSync p)" and "RPC \<in> set cs \<Longrightarrow> wired_ref (np_lastGERSync p)"
    and "RPC \<in> set cs \<Longrightarrow> np_claimSponsor p = None \<or> wired_ref (np_claimSponsor p)"
  unfolding start_parts_result [OF assms]
  using needed_by [of a cs] needed_by [of RPC cs] by (auto simp: if_needed_def isNeeded_iff)

section \<open>The services of a selection\<close>

lemma newDataAvailability_validium:
  "newDataAvailability e c ethman = Inr da \<Longrightarrow> nc_IsValidiumMode c \<Longrightarrow> da \<noteq> None"
  by (auto simp: newDataAvailability_def bind_err_Inr Let_def checked_Inr split: if_splits)

lemma newTxBuilder_wired:
  assumes "newTxBuilder e c ethman l1 info f = Inr b" and "wired_ref l1" "wired_ref info"
  shows "wired_service (SequenceSenderService a b)"
  using assms newDataAvailability_validium [of e c]
  by (auto simp: newTxBuilder_def bind_err_Inr split: prod.splits sum.splits if_splits)

lemma createSequenceSender_wired:
  assumes "createSequenceSender e c l1 info = Inr s" and "wired_ref l1" "wired_ref info"
  shows "wired_service s \<and> service_component s = SEQUENCE_SENDER"
proof -
  obtain x where x: "(case load_auth e c x of (_, Inl x) \<Rightarrow> Inl x | (ethman1, Inr (auth, _)) \<Rightarrow>
      bind_err (ToBlockNum (nc_Seq_BlockFinality c)) (\<lambda>f. bind_err (newTxBuilder e c ethman1 l1 info f) (\<lambda>b.
      let s = SequenceSenderService (to_From auth) b in checked (ne_service e s) s))) = Inr s"
    using assms(1) by (auto simp: createSequenceSender_def bind_err_Inr split: if_splits)
  obtain ethman r where r: "load_auth e c x = (ethman, r)" by fastforce
  obtain a b f where "newTxBuilder e c ethman l1 info f = Inr b" and s: "s = SequenceSenderService a b"
    using x unfolding r by (cases r) (auto simp: bind_err_Inr Let_def checked_Inr)
  from newTxBuilder_wired [OF this(1) assms(2,3)] show ?thesis by (simp add: s)
qed

lemma createAggregator_wired:
  "createAggregator e c m = Inr s \<Longrightarrow> wired_service s \<and> service_component s = AGGREGATOR"
  by (auto simp: createAggregator_def bind_err_Inr Let_def checked_Inr GetL2ChainID_def split: if_splits sum.splits)

lemma createAggoracle_wired:
  "createAggoracle e c l1 l2 info = Inr s \<Longrightarrow> wired_ref l1 \<Longrightarrow> wired_ref l2 \<Longrightarrow> wired_ref info \<Longrightarrow>
    wired_service s \<and> service_component s = AGGORACLE"
  by (auto simp: createAggoracle_def bind_err_Inr map_sum_Inr_conv split: if_splits)

lemma createAggSender_wired:
  "createAggSender e c l1 info l2 = Inr s \<Longrightarrow> wired_ref l1 \<Longrightarrow> wired_ref info \<Longrightarrow> wired_ref l2 \<Longrightarrow>
    wired_service s \<and> service_component s = AGGSENDER"
  by (auto simp: createAggSender_def bind_err_Inr Let_def checked_Inr)

definition has_service :: "string \<Rightarrow> bool" where
  "has_service a \<longleftrightarrow> a \<in> {SEQUENCE_SENDER, AGGREGATOR, AGGORACLE, RPC, AGGSENDER}"

lemma start_component_wired:
  assumes "start_parts e c cs = Inr p" and "a \<in> set cs" and "start_component e c m p a = Inr ss"
  shows "list_all wired_service ss \<and> map service_component ss = (if has_service a then [a] else [])"
proof (cases "has_service a")
  case True
  note wired = parts_wired(1-4) [OF assms(1), of a]
  from True consider "a = SEQUENCE_SENDER" | "a = AGGREGATOR" | "a = AGGORACLE" | "a = RPC" | "a = AGGSENDER"
    by (auto simp: has_service_def)
  then show ?thesis
  proof cases
    case 1
    then show ?thesis using assms(2,3) wired True
      by (auto simp: start_component_def map_sum_Inr_conv dest!: createSequenceSender_wired)
  next
    case 2
    then have "a \<noteq> SEQUENCE_SENDER" by (simp add: component_names)
    with 2 show ?thesis using assms(2,3) wired True
      by (auto simp: start_component_def map_sum_Inr_conv dest!: createAggregator_wired)
  next
    case 3
    then have "a \<noteq> SEQUENCE_SENDER" "a \<noteq> AGGREGATOR" by (simp_all add: component_names)
    with 3 show ?thesis using assms(2,3) wired True
      by (auto simp: start_component_def map_sum_Inr_conv dest!: createAggoracle_wired)
  next
    case 4
    then have "a \<noteq> SEQUENCE_SENDER" "a \<noteq> AGGREGATOR" "a \<noteq> AGGORACLE" by (simp_all add: component_names)
    with 4 show ?thesis using assms(2,3) wired parts_wired(5-7) [OF assms(1)] True by (auto simp: start_component_def)
  next
    case 5
    then have "a \<noteq> SEQUENCE_SENDER" "a \<noteq> AGGREGATOR" "a \<noteq> AGGORACLE" "a \<noteq> RPC" by (simp_all add: component_names)
    with 5 show ?thesis using assms(2,3) wired True
      by (auto simp: start_component_def map_sum_Inr_conv dest!: createAggSender_wired)
  qed
next
  case False
  then show ?thesis using assms(3) by (auto simp: start_component_def has_service_def)
qed

lemma start_components_wired:
  assumes "start_parts e c cs = Inr p" and "set as \<subseteq> set cs" and "start_components e c m p as = Inr ss"
  shows "list_all wired_service ss \<and> map service_component ss = filter has_service as"
  using assms(2,3)
proof (induction as arbitrary: ss)
  case (Cons a as)
  then obtain s ss' where "start_component e c m p a = Inr s" "start_components e c m p as = Inr ss'" "ss = s @ ss'"
    by (auto simp: bind_err_Inr map_sum_Inr_conv)
  with Cons start_component_wired [OF assms(1), of a m s] show ?case by auto
qed simp

text \<open>C20. A node that starts runs one service per selected component, in the order of the selection, and connects everything: every
  client, detector and syncer a service uses, directly or through another part, has been created; a validium sender has its data
  availability and the aggregator a chain identifier. The claim sponsor runs exactly with the RPC service and its configuration.\<close>

theorem node_start_connects:
  assumes "node_start e c m cs = Inr (p, ss)"
  shows "(\<forall>s\<in>set ss. wired_service s) \<and> map service_component ss = filter has_service cs \<and>
    (np_claimSponsor p \<noteq> None \<longleftrightarrow> RPC \<in> set cs \<and> nc_ClaimSponsor_Enabled c)"
proof -
  have p: "start_parts e c cs = Inr p" and ss: "start_components e c m p cs = Inr ss"
    using assms by (auto simp: node_start_def bind_err_Inr map_sum_Inr_conv)
  have "np_claimSponsor p \<noteq> None \<longleftrightarrow> RPC \<in> set cs \<and> nc_ClaimSponsor_Enabled c"
    unfolding start_parts_result [OF p] by (simp add: if_needed_def isNeeded_iff)
  with start_components_wired [OF p _ ss] show ?thesis by (simp add: list_all_iff)
qed

text \<open>Without a known component nothing runs, and there is no error.\<close>

lemma unknown_components_start_nothing:
  assumes "\<forall>a\<in>set cs. \<not> has_service a \<and> a \<noteq> L1INFOTREESYNC"
  shows "\<exists>p. node_start e c m cs = Inr (p, [])"
proof -
  have n: "\<not> isNeeded xs cs" if "set xs \<subseteq> {SEQUENCE_SENDER, AGGREGATOR, AGGORACLE, RPC, AGGSENDER, L1INFOTREESYNC}" for xs
    using assms that by (auto simp: isNeeded_iff has_service_def)
  have "start_components e c m p cs = Inr []" for p
    using assms by (induction cs) (simp_all add: start_component_def has_service_def)
  then show ?thesis by (simp add: node_start_def start_parts_def run_defs run_if_def n)
qed

lemma component_started_twice:
  assumes "node_start e c m [AGGSENDER, AGGSENDER] = Inr (p, ss)"
  shows "length ss = 2"
proof -
  have "map service_component ss = [AGGSENDER, AGGSENDER]"
    using assms start_components_wired [of e c "[AGGSENDER, AGGSENDER]" p "[AGGSENDER, AGGSENDER]" m ss]
    by (auto simp: node_start_def bind_err_Inr map_sum_Inr_conv has_service_def)
  then show ?thesis by (metis length_Cons length_map list.size(3) numeral_2_eq_2)
qed

definition sample_node_env :: "(unit, unit, unit, unit) node_env" where
  "sample_node_env =
     \<lparr>ne_create = (\<lambda>_. None), ne_service = (\<lambda>_. None), ne_dial = (\<lambda>_. Inr (em_EthClient sample_em_client)), ne_ChainID = (\<lambda>_. Inr 1),
      ne_contracts = (\<lambda>_. Inr sample_contracts), ne_daProtocol = Inr, ne_daName = (\<lambda>_. Inr ''DataAvailabilityCommittee''),
      ne_ReadFile = (\<lambda>_. Inr []), ne_DecryptKey = (\<lambda>_ _. Inr ()), ne_transactor = (\<lambda>_ _. Inr \<lparr>to_From = 8, to_Signer = None\<rparr>),
      ne_committee = (\<lambda>_. None), ne_migrations = None, ne_sqlDB = None, ne_txManager = None, ne_gerSender = None, ne_epochs = Inr (1, 10)\<rparr>"

definition sample_node_config :: node_config where
  "sample_node_config =
     \<lparr>nc_Etherman_URL = ''l1'', nc_AggSender_URLRPCL2 = [], nc_AggOracle_URLRPCL2 = ''l2'', nc_ClaimSponsor_Enabled = False,
      nc_BridgeL1_OriginNetwork = 0, nc_BridgeL2_OriginNetwork = 1, nc_Seq_RPCURL = ''rpc'', nc_Seq_URL = ''l1'', nc_Seq_KeyPath = ''key'',
      nc_Seq_KeyPassword = ''pw'', nc_Seq_BlockFinality = FinalizedBlock, nc_MaxBatchesForL1 = 10, nc_MaxTxSizeForL1 = 1000,
      nc_ContractVersions = ''banana'', nc_IsValidiumMode = True, nc_Translator = [], nc_ZkEVMAddr = 5, nc_L1ChainID = 1, nc_Agg_URL = ''l1'',
      nc_Agg_ChainID = 0, nc_TargetChainType = ''EVM'', nc_AggOracle_BlockFinality = FinalizedBlock,
      nc_AggSender_BlockFinality = LatestBlock, nc_EpochNotificationPercentage = 50\<rparr>"

lemma sample_node_starts:
  "\<exists>p ss. node_start sample_node_env sample_node_config True [RPC, SEQUENCE_SENDER, AGGREGATOR] = Inr (p, ss)"
proof -
  have auth: "load_auth sample_node_env sample_node_config x =
      (AddOrReplaceAuth \<lparr>to_From = 8, to_Signer = None\<rparr> x, Inr (\<lparr>to_From = 8, to_Signer = None\<rparr>, Some ()))" for x
    by (simp add: load_auth_def LoadAuthFromKeyStore_def newAuthFromKeystore_def newKeyFromKeystore_def sample_node_env_def sample_node_config_def)
  have p: "\<exists>p. start_parts sample_node_env sample_node_config cs = Inr p" for cs
    by (simp add: start_parts_def run_defs run_if_def checked_def sample_node_env_def)
  have s: "\<exists>s. createSequenceSender sample_node_env sample_node_config l1 info = Inr s" for l1 info
    unfolding createSequenceSender_def newTxBuilder_def newDataAvailability_def auth
    by (simp add: node_NewClient_def NewClient_def Let_def checked_def AddOrReplaceAuth_def GetDAProtocolName_def GetDAProtocolAddr_def
        sample_node_env_def sample_node_config_def sample_contracts_def)
  have a: "\<exists>s. createAggregator sample_node_env sample_node_config m = Inr s" for m
    by (simp add: createAggregator_def node_NewClient_def NewClient_def Let_def checked_def GetL2ChainID_def rollup_data_def
        sample_node_env_def sample_node_config_def sample_contracts_def)
  obtain p where p: "start_parts sample_node_env sample_node_config [RPC, SEQUENCE_SENDER, AGGREGATOR] = Inr p" using p by blast
  obtain x y where "createSequenceSender sample_node_env sample_node_config (np_l1Client p) (np_l1InfoTreeSync p) = Inr x"
    "createAggregator sample_node_env sample_node_config True = Inr y" using s a by blast
  with p show ?thesis by (simp add: node_start_def start_component_def) (simp add: component_names)
qed

theorem node_start_connects_witness:
  "\<exists>p ss. node_start sample_node_env sample_node_config True [RPC, SEQUENCE_SENDER, AGGREGATOR] = Inr (p, ss) \<and>
    (\<forall>s\<in>set ss. wired_service s) \<and> map service_component ss = [RPC, SEQUENCE_SENDER, AGGREGATOR] \<and> np_claimSponsor p = None"
proof -
  obtain p ss where s: "node_start sample_node_env sample_node_config True [RPC, SEQUENCE_SENDER, AGGREGATOR] = Inr (p, ss)"
    using sample_node_starts by blast
  have "\<not> nc_ClaimSponsor_Enabled sample_node_config" by (simp add: sample_node_config_def)
  with node_start_connects [OF s] s show ?thesis by (auto simp: has_service_def)
qed

end
