(* ===== verification/CertificateJson.thy ===== *)
theory CertificateJson
  imports AgglayerErrors Meddler
begin

text \<open>
  The JSON of a signed certificate (\<open>MarshalJSON\<close> of \<open>src/agglayer/types.go\<close> and, for the structs without one, the fields under their tags).
  Numbers are integers; a struct keeps the order of its fields, a map is encoded with its keys in order. An array or slice of
  bytes of fixed length is a list of numbers. The texts of hashes and addresses are those of the Ethereum library, an argument.
\<close>

section \<open>Encoders\<close>

definition LeafType_String :: "u8 \<Rightarrow> error + string" where
  "LeafType_String l = (if l = 0 then Inr ''Transfer'' else if l = 1 then Inr ''Message'' else Inl ErrPanic)"

definition json_array :: "bytes \<Rightarrow> int json" where
  "json_array bs = JArr (map (\<lambda>b. JNum (uint b)) bs)"

definition bytesToUints :: "bytes \<Rightarrow> u64 list" where
  "bytesToUints data = map ucast data"

definition TokenInfo_json :: "int printer \<Rightarrow> TokenInfo \<Rightarrow> int json" where
  "TokenInfo_json P t =
     JMap [(''origin_network'', JNum (uint (ti_OriginNetwork t))), (''origin_token_address'', JStr (pt_addr P (ti_OriginTokenAddress t)))]"

text \<open>A nil amount prints as \<open><nil>\<close>, a nil pointer is \<open>null\<close>.\<close>

definition BridgeExit_MarshalJSON :: "int printer \<Rightarrow> BridgeExit \<Rightarrow> error + int json" where
  "BridgeExit_MarshalJSON P b =
     (case LeafType_String (be_LeafType b) of
        Inl e \<Rightarrow> Inl e
      | Inr leafType \<Rightarrow>
          Inr (JMap [(''leaf_type'', JStr leafType),
            (''token_info'', case be_TokenInfo b of None \<Rightarrow> JNull | Some t \<Rightarrow> TokenInfo_json P t),
            (''dest_network'', JNum (uint (be_DestinationNetwork b))),
            (''dest_address'', JStr (pt_addr P (be_DestinationAddress b))),
            (''amount'', JStr (case be_Amount b of None \<Rightarrow> ''<nil>'' | Some n \<Rightarrow> big_String n)),
            (''metadata'', JArr (map (\<lambda>n. JNum (uint n)) (bytesToUints (be_Metadata b))))]))"

definition MerkleProof_MarshalJSON :: "MerkleProof \<Rightarrow> int json" where
  "MerkleProof_MarshalJSON m =
     JMap [(''root'', json_array (hash_bytes (mp_Root m))),
       (''proof'', JMap [(''siblings'', JArr (map (\<lambda>h. json_array (hash_bytes h)) (mp_Proof m)))])]"

definition L1InfoTreeLeafInner_MarshalJSON :: "L1InfoTreeLeafInner \<Rightarrow> int json" where
  "L1InfoTreeLeafInner_MarshalJSON l =
     JMap [(''global_exit_root'', json_array (hash_bytes (in_GlobalExitRoot l))), (''block_hash'', json_array (hash_bytes (in_BlockHash l))),
       (''timestamp'', JNum (uint (in_Timestamp l)))]"

definition L1InfoTreeLeaf_json :: "ag_L1InfoTreeLeaf \<Rightarrow> int json" where
  "L1InfoTreeLeaf_json l =
     JMap [(''l1_info_tree_index'', JNum (uint (al_L1InfoTreeIndex l))), (''rer'', json_array (hash_bytes (al_RollupExitRoot l))),
       (''mer'', json_array (hash_bytes (al_MainnetExitRoot l))), (''inner'', L1InfoTreeLeafInner_MarshalJSON (al_Inner l))]"

definition ClaimFromMainnnet_MarshalJSON :: "ClaimFromMainnnet \<Rightarrow> int json" where
  "ClaimFromMainnnet_MarshalJSON c =
     JMap [(''Mainnet'', JMap [(''l1_leaf'', L1InfoTreeLeaf_json (cm_L1Leaf c)),
       (''proof_ger_l1root'', MerkleProof_MarshalJSON (cm_ProofGERToL1Root c)), (''proof_leaf_mer'', MerkleProof_MarshalJSON (cm_ProofLeafMER c))])]"

definition ClaimFromRollup_MarshalJSON :: "ClaimFromRollup \<Rightarrow> int json" where
  "ClaimFromRollup_MarshalJSON c =
     JMap [(''Rollup'', JMap [(''l1_leaf'', L1InfoTreeLeaf_json (cr_L1Leaf c)),
       (''proof_ger_l1root'', MerkleProof_MarshalJSON (cr_ProofGERToL1Root c)), (''proof_leaf_ler'', MerkleProof_MarshalJSON (cr_ProofLeafLER c)),
       (''proof_ler_rer'', MerkleProof_MarshalJSON (cr_ProofLERToRER c))])]"

definition Claim_MarshalJSON :: "ag_Claim \<Rightarrow> int json" where
  "Claim_MarshalJSON c = (case c of FromMainnet m \<Rightarrow> ClaimFromMainnnet_MarshalJSON m | FromRollup r \<Rightarrow> ClaimFromRollup_MarshalJSON r)"

definition GlobalIndex_json :: "GlobalIndex \<Rightarrow> int json" where
  "GlobalIndex_json g =
     JMap [(''mainnet_flag'', JBool (gi_MainnetFlag g)), (''rollup_index'', JNum (uint (gi_RollupIndex g))),
       (''leaf_index'', JNum (uint (gi_LeafIndex g)))]"

definition ImportedBridgeExit_json :: "int printer \<Rightarrow> ImportedBridgeExit \<Rightarrow> error + int json" where
  "ImportedBridgeExit_json P c =
     map_sum id (\<lambda>b. JMap [(''bridge_exit'', b),
         (''claim_data'', case ib_ClaimData c of None \<Rightarrow> JNull | Some cd \<Rightarrow> Claim_MarshalJSON cd),
         (''global_index'', GlobalIndex_json (ib_GlobalIndex c))])
       (BridgeExit_MarshalJSON P (ib_BridgeExit c))"

fun marshal_all :: "('a \<Rightarrow> error + 'b) \<Rightarrow> 'a list \<Rightarrow> error + 'b list" where
  "marshal_all f [] = Inr []"
| "marshal_all f (x # xs) = (case f x of Inl e \<Rightarrow> Inl e | Inr y \<Rightarrow> map_sum id (\<lambda>ys. y # ys) (marshal_all f xs))"

definition Signature_json :: "int printer \<Rightarrow> Signature \<Rightarrow> int json" where
  "Signature_json P s =
     JMap [(''r'', JStr (pt_hash P (sg_R s))), (''s'', JStr (pt_hash P (sg_S s))), (''odd_y_parity'', JBool (sg_OddParity s))]"

text \<open>The fields of the embedded certificate are fields of the signed one.\<close>

definition SignedCertificate_json :: "int printer \<Rightarrow> SignedCertificate \<Rightarrow> error + int json" where
  "SignedCertificate_json P s =
     (let c = sc_Certificate s in
      case marshal_all (BridgeExit_MarshalJSON P) (ce_BridgeExits c) of
        Inl e \<Rightarrow> Inl e
      | Inr exits \<Rightarrow>
     (case marshal_all (ImportedBridgeExit_json P) (ce_ImportedBridgeExits c) of
        Inl e \<Rightarrow> Inl e
      | Inr imported \<Rightarrow>
          Inr (JMap [(''network_id'', JNum (uint (ce_NetworkID c))), (''height'', JNum (uint (ce_Height c))),
            (''prev_local_exit_root'', json_array (hash_bytes (ce_PrevLocalExitRoot c))),
            (''new_local_exit_root'', json_array (hash_bytes (ce_NewLocalExitRoot c))),
            (''bridge_exits'', JArr exits), (''imported_bridge_exits'', JArr imported),
            (''metadata'', JStr (pt_hash P (ce_Metadata c))),
            (''signature'', case sc_Signature s of None \<Rightarrow> JNull | Some g \<Rightarrow> Signature_json P g)])))"

section \<open>The JSON determines the certificate\<close>

lemma uint_eq: "uint (a :: 'a::len word) = uint b \<longleftrightarrow> a = b"
  by (simp only: word_eq_iff_unsigned [where 'a = int])

lemma JNum_uint_inj: "JNum (uint (a :: 'a::len word)) = JNum (uint b) \<longleftrightarrow> a = b"
  by (simp add: uint_eq)

lemma json_array_inj: "json_array xs = json_array ys \<longleftrightarrow> xs = ys"
proof -
  have "inj (\<lambda>b :: u8. JNum (uint b))" by (rule injI) (simp only: JNum_uint_inj)
  then show ?thesis by (simp add: json_array_def inj_map_eq_map)
qed

lemma uints_inj: "map (\<lambda>n. JNum (uint n)) (bytesToUints xs) = map (\<lambda>n. JNum (uint n)) (bytesToUints ys) \<longleftrightarrow> xs = ys"
proof -
  have "uint (ucast b :: u64) = uint b" for b :: u8
    using unsigned_less [of b, where 'a = int] by (simp add: unsigned_ucast_eq take_bit_int_eq_self)
  then have "map (\<lambda>n. JNum (uint n)) (bytesToUints xs) = map (\<lambda>b :: u8. JNum (uint b)) xs" for xs
    by (simp add: bytesToUints_def)
  then show ?thesis using json_array_inj [of xs ys] by (simp add: json_array_def)
qed

lemma big_String_inj: "big_String m = big_String n \<longleftrightarrow> m = n"
  by (metis big_SetString10_String option.inject)

lemma big_String_not_nil: "big_String n \<noteq> ''<nil>''"
proof
  assume n: "big_String n = ''<nil>''"
  have "big_SetString10 ''<nil>'' = None" by code_simp
  with n show False by (metis big_SetString10_String option.distinct(1))
qed

lemma amount_inj:
  "(case a of None \<Rightarrow> ''<nil>'' | Some n \<Rightarrow> big_String n) = (case b of None \<Rightarrow> ''<nil>'' | Some n \<Rightarrow> big_String n) \<longleftrightarrow> a = b"
  using big_String_not_nil by (auto simp: big_String_inj split: option.splits) metis

lemma LeafType_String_inj: "LeafType_String l = Inr t \<Longrightarrow> LeafType_String m = Inr t \<Longrightarrow> l = m"
  by (auto simp: LeafType_String_def split: if_splits)

lemma MerkleProof_json_inj: "MerkleProof_MarshalJSON m = MerkleProof_MarshalJSON m' \<longleftrightarrow> m = m'"
proof -
  have "inj (\<lambda>h. json_array (hash_bytes h))" by (rule injI) (simp add: json_array_inj)
  then show ?thesis by (cases m; cases m') (auto simp: MerkleProof_MarshalJSON_def json_array_inj inj_map_eq_map)
qed

lemma Leaf_json_inj: "L1InfoTreeLeaf_json l = L1InfoTreeLeaf_json l' \<longleftrightarrow> l = l'"
proof -
  have "L1InfoTreeLeafInner_MarshalJSON i = L1InfoTreeLeafInner_MarshalJSON i' \<longleftrightarrow> i = i'" for i i'
    by (cases i; cases i') (auto simp: L1InfoTreeLeafInner_MarshalJSON_def json_array_inj uint_eq)
  then show ?thesis by (cases l; cases l') (auto simp: L1InfoTreeLeaf_json_def json_array_inj uint_eq)
qed

lemma Claim_json_inj: "Claim_MarshalJSON c = Claim_MarshalJSON c' \<longleftrightarrow> c = c'"
proof -
  have m: "ClaimFromMainnnet_MarshalJSON a = ClaimFromMainnnet_MarshalJSON b \<longleftrightarrow> a = b" for a b
    by (cases a; cases b) (auto simp: ClaimFromMainnnet_MarshalJSON_def Leaf_json_inj MerkleProof_json_inj)
  have r: "ClaimFromRollup_MarshalJSON a = ClaimFromRollup_MarshalJSON b \<longleftrightarrow> a = b" for a b
    by (cases a; cases b) (auto simp: ClaimFromRollup_MarshalJSON_def Leaf_json_inj MerkleProof_json_inj)
  have "ClaimFromMainnnet_MarshalJSON a \<noteq> ClaimFromRollup_MarshalJSON b" for a b
    by (simp add: ClaimFromMainnnet_MarshalJSON_def ClaimFromRollup_MarshalJSON_def)
  then show ?thesis using m r by (cases c; cases c') (auto simp: Claim_MarshalJSON_def dest: sym)
qed

lemma marshal_all_Cons:
  "marshal_all f (x # xs) = Inr js \<longleftrightarrow> (\<exists>j js'. js = j # js' \<and> f x = Inr j \<and> marshal_all f xs = Inr js')"
  by (auto simp: map_sum_Inr_conv split: sum.splits)

lemma marshal_all_inj:
  assumes "\<And>x y j. f x = Inr j \<Longrightarrow> f y = Inr j \<Longrightarrow> x = y"
  shows "marshal_all f xs = Inr js \<Longrightarrow> marshal_all f ys = Inr js \<Longrightarrow> xs = ys"
proof (induction js arbitrary: xs ys)
  case Nil
  then show ?case by (cases xs; cases ys) (simp_all only: marshal_all_Cons, auto)
next
  case (Cons j js)
  obtain x xs' where x: "xs = x # xs'" "f x = Inr j" "marshal_all f xs' = Inr js"
    using Cons.prems(1) by (cases xs) (auto simp only: marshal_all_Cons marshal_all.simps(1) sum.inject list.simps)
  obtain y ys' where y: "ys = y # ys'" "f y = Inr j" "marshal_all f ys' = Inr js"
    using Cons.prems(2) by (cases ys) (auto simp only: marshal_all_Cons marshal_all.simps(1) sum.inject list.simps)
  show ?case using assms [OF x(2) y(2)] Cons.IH [OF x(3) y(3)] x(1) y(1) by simp
qed

lemma pt_inj:
  assumes "conv_law C P"
  shows "pt_hash P h = pt_hash P h' \<longleftrightarrow> h = h'" and "pt_addr P a = pt_addr P a' \<longleftrightarrow> a = a'"
  using assms by (metis conv_law_def)+

lemma TokenInfo_json_inj:
  assumes "conv_law C P"
  shows "(case x of None \<Rightarrow> JNull | Some t \<Rightarrow> TokenInfo_json P t) = (case y of None \<Rightarrow> JNull | Some t \<Rightarrow> TokenInfo_json P t) \<longleftrightarrow> x = y"
proof -
  have "TokenInfo_json P t = TokenInfo_json P u \<longleftrightarrow> t = u" for t u
    by (cases t; cases u) (simp add: TokenInfo_json_def pt_inj [OF assms] uint_eq)
  moreover have "TokenInfo_json P t \<noteq> JNull" for t by (simp add: TokenInfo_json_def)
  ultimately show ?thesis by (cases x; cases y) (auto dest: sym)
qed

lemma BridgeExit_json_inj:
  assumes "conv_law C P" and "BridgeExit_MarshalJSON P b = Inr j" and "BridgeExit_MarshalJSON P b' = Inr j"
  shows "b = b'"
proof -
  obtain t t' where t: "LeafType_String (be_LeafType b) = Inr t" "LeafType_String (be_LeafType b') = Inr t'"
    using assms(2,3) by (auto simp: BridgeExit_MarshalJSON_def split: sum.splits)
  have e: "BridgeExit_MarshalJSON P b = BridgeExit_MarshalJSON P b'" using assms(2,3) by simp
  have "t = t'" using e by (simp add: BridgeExit_MarshalJSON_def t)
  then have "be_LeafType b = be_LeafType b'" using LeafType_String_inj t by metis
  moreover have "be_TokenInfo b = be_TokenInfo b'" "be_DestinationNetwork b = be_DestinationNetwork b'"
    "be_DestinationAddress b = be_DestinationAddress b'" "be_Amount b = be_Amount b'" "be_Metadata b = be_Metadata b'"
    using e by (simp_all add: BridgeExit_MarshalJSON_def t TokenInfo_json_inj [OF assms(1)] amount_inj uints_inj pt_inj [OF assms(1)] uint_eq)
  ultimately show ?thesis by (cases b; cases b') simp
qed

lemma Imported_json_inj:
  assumes "conv_law C P" and "ImportedBridgeExit_json P b = Inr j" and "ImportedBridgeExit_json P b' = Inr j"
  shows "b = b'"
proof -
  obtain x x' where x: "BridgeExit_MarshalJSON P (ib_BridgeExit b) = Inr x" "BridgeExit_MarshalJSON P (ib_BridgeExit b') = Inr x'"
    using assms(2,3) by (auto simp: ImportedBridgeExit_json_def map_sum_Inr_conv)
  have e: "ImportedBridgeExit_json P b = ImportedBridgeExit_json P b'" using assms(2,3) by simp
  have "Claim_MarshalJSON c \<noteq> JNull" for c
    by (simp add: Claim_MarshalJSON_def ClaimFromMainnnet_MarshalJSON_def ClaimFromRollup_MarshalJSON_def split: ag_Claim.splits)
  then have c: "(case c of None \<Rightarrow> JNull | Some cd \<Rightarrow> Claim_MarshalJSON cd) = (case d of None \<Rightarrow> JNull | Some cd \<Rightarrow> Claim_MarshalJSON cd) \<longleftrightarrow> c = d" for c d
    by (cases c; cases d) (auto simp: Claim_json_inj dest: sym)
  have g: "GlobalIndex_json g = GlobalIndex_json h \<longleftrightarrow> g = h" for g h
    by (cases g; cases h) (auto simp: GlobalIndex_json_def uint_eq)
  have "x = x'" "ib_ClaimData b = ib_ClaimData b'" "ib_GlobalIndex b = ib_GlobalIndex b'"
    using e by (simp_all add: ImportedBridgeExit_json_def x c g)
  moreover from this(1) have "ib_BridgeExit b = ib_BridgeExit b'" using BridgeExit_json_inj [OF assms(1)] x by metis
  ultimately show ?thesis by (cases b; cases b') simp
qed

text \<open>Two signed certificates with the same JSON are equal: what the agglayer receives determines the certificate and its signature.\<close>

lemma certificate_json_identifies:
  assumes "conv_law C P" and "SignedCertificate_json P s = Inr j" and "SignedCertificate_json P s' = Inr j"
  shows "s = s'"
proof -
  let ?c = "sc_Certificate s" and ?c' = "sc_Certificate s'"
  obtain x y where x: "marshal_all (BridgeExit_MarshalJSON P) (ce_BridgeExits ?c) = Inr x"
      "marshal_all (ImportedBridgeExit_json P) (ce_ImportedBridgeExits ?c) = Inr y"
    using assms(2) by (auto simp: SignedCertificate_json_def Let_def split: sum.splits)
  obtain x' y' where x': "marshal_all (BridgeExit_MarshalJSON P) (ce_BridgeExits ?c') = Inr x'"
      "marshal_all (ImportedBridgeExit_json P) (ce_ImportedBridgeExits ?c') = Inr y'"
    using assms(3) by (auto simp: SignedCertificate_json_def Let_def split: sum.splits)
  have e: "SignedCertificate_json P s = SignedCertificate_json P s'" using assms(2,3) by simp
  have n: "Signature_json P g \<noteq> JNull" "Signature_json P g = Signature_json P h \<longleftrightarrow> g = h" for g h
    by (cases g; cases h; simp add: Signature_json_def pt_inj [OF assms(1)])+
  have g: "(case a of None \<Rightarrow> JNull | Some g \<Rightarrow> Signature_json P g) = (case b of None \<Rightarrow> JNull | Some g \<Rightarrow> Signature_json P g) \<longleftrightarrow> a = b" for a b
    using n by (cases a; cases b) (auto dest: sym)
  have xy: "x = x'" "y = y'" "sc_Signature s = sc_Signature s'" "ce_NetworkID ?c = ce_NetworkID ?c'" "ce_Height ?c = ce_Height ?c'"
    "ce_PrevLocalExitRoot ?c = ce_PrevLocalExitRoot ?c'" "ce_NewLocalExitRoot ?c = ce_NewLocalExitRoot ?c'" "ce_Metadata ?c = ce_Metadata ?c'"
    using e by (simp_all add: SignedCertificate_json_def Let_def x x' g json_array_inj pt_inj [OF assms(1)] uint_eq)
  moreover have "ce_BridgeExits ?c = ce_BridgeExits ?c'"
    by (rule marshal_all_inj [OF BridgeExit_json_inj [OF assms(1)] x(1) x'(1) [folded xy(1)]])
  moreover have "ce_ImportedBridgeExits ?c = ce_ImportedBridgeExits ?c'"
    by (rule marshal_all_inj [OF Imported_json_inj [OF assms(1)] x(2) x'(2) [folded xy(2)]])
  ultimately have "?c = ?c'" "sc_Signature s = sc_Signature s'" by simp_all
  then show ?thesis by (cases s; cases s') simp
qed

text \<open>Only an unknown leaf type keeps a certificate from being encoded.\<close>

lemma marshal_all_returns: "(\<exists>js. marshal_all f xs = Inr js) \<longleftrightarrow> (\<forall>x\<in>set xs. \<exists>j. f x = Inr j)"
  by (induction xs) (auto simp del: marshal_all.simps(2) simp: marshal_all_Cons)

lemma certificate_encoded:
  "(\<exists>j. SignedCertificate_json P s = Inr j) \<longleftrightarrow>
    (\<forall>b\<in>set (ce_BridgeExits (sc_Certificate s)) \<union> ib_BridgeExit ` set (ce_ImportedBridgeExits (sc_Certificate s)). be_LeafType b \<in> {0, 1})"
proof -
  have b: "(\<exists>j. BridgeExit_MarshalJSON P b = Inr j) \<longleftrightarrow> be_LeafType b \<in> {0, 1}" for b
    by (auto simp: BridgeExit_MarshalJSON_def LeafType_String_def)
  have "(\<exists>j. ImportedBridgeExit_json P c = Inr j) \<longleftrightarrow> be_LeafType (ib_BridgeExit c) \<in> {0, 1}" for c
    unfolding b [symmetric] by (auto simp: ImportedBridgeExit_json_def map_sum_Inr_conv)
  with b show ?thesis
    using marshal_all_returns [of "BridgeExit_MarshalJSON P" "ce_BridgeExits (sc_Certificate s)"]
      marshal_all_returns [of "ImportedBridgeExit_json P" "ce_ImportedBridgeExits (sc_Certificate s)"]
    by (simp add: SignedCertificate_json_def Let_def ball_Un image_iff split: sum.splits) (metis Inl_Inr_False old.sum.exhaust)
qed

end
