(* ===== verification/Spec2Isabelle.thy ===== *)
theory Spec2Isabelle
  imports UpdatableTree L1InfoTree TreeProofs L1InfoTreeSync ReorgDetector EpochNotifier Certificates SequenceSender LastGerSync
    AggOracle ClaimSponsor AggregatorInputs DataCommittee EventParsers AgglayerErrors AgglayerClient BridgeRpc StateKeys SequenceStart
    NodeStart CertificateJson
begin

text \<open>
  A verification development of the Polygon CDK node (\<open>src/\<close>, Go): the services that follow the bridge and
  the L1 info tree, detect reorgs, send certificates to the agglayer and sequences of batches to L1.

  \<^bold>\<open>The program.\<close> A \<^emph>\<open>syncer\<close> (\<open>sync/\<close>) downloads the logs of its contracts block by block and hands
  them to a \<^emph>\<open>processor\<close>. The processors of \<open>bridgesync/\<close> and \<open>l1infotreesync/\<close> store the events in SQLite together
  with Merkle trees of height 32 (\<open>tree/\<close>). The \<^emph>\<open>reorg detector\<close> (\<open>reorgdetector/\<close>) keeps the hashes of the blocks
  that were processed and tells a syncer from which block on it has to undo its work. The \<^emph>\<open>certificate sender\<close>
  (\<open>aggsender/\<close>) waits for the end of an epoch, turns the new bridges and claims into a certificate with
  proofs against the L1 info tree and sends it to the agglayer (\<open>agglayer/\<close>). The \<^emph>\<open>sequence sender\<close> (\<open>sequencesender/\<close>)
  reads closed batches, decodes them (\<open>state/\<close>), builds the transaction of a sequence (\<open>sequencesender/txbuilder/\<close>)
  and follows it on L1. The \<^emph>\<open>aggregator\<close> (\<open>aggregator/\<close>) lets provers prove the sequenced batches one by one, aggregates their
  proofs pairwise, has a final proof made of what continues the last verified batch and settles it. Around them, the \<^emph>\<open>claim sponsor\<close> (\<open>claimsponsor/\<close>) submits claims for users, the
  \<^emph>\<open>oracle\<close> (\<open>aggoracle/\<close>) injects global exit roots into L2 and \<open>lastgersync/\<close> follows the injected ones.

  \<^bold>\<open>Theories.\<close>
  \<^item> \<open>Prelude\<close>: words, lists and errors shared by all theories; \<open>error\<close> is the type of Go errors, \<open>io\<close> decides which
    SQL statement fails, \<open>keccak\<close> is the hash function, a parameter everywhere.
  \<^item> \<open>Database\<close> (\<open>db/tx.go\<close>, \<open>db/sqlite.go\<close>): transactions with commit and rollback callbacks, queries, primary keys.
  \<^item> \<open>MerkleSpec\<close>: the abstract Merkle tree, the root of a function from indices to leaves, its
    siblings and the binding property. \<open>SampleHash\<close> holds the hash function of the witnesses.
  \<^item> \<open>MerkleTree\<close> (\<open>tree/tree.go\<close>), \<open>AppendOnlyTree\<close> (\<open>tree/appendonlytree.go\<close>), \<open>UpdatableTree\<close>
    (\<open>tree/updatabletree.go\<close>), \<open>TreeProofs\<close>: the tables of roots and nodes, adding a leaf with a cache of left
    siblings, updating a leaf, proofs, reorgs. A table refines the abstract tree (\<open>append_inv\<close>); every
    root stays provable.
  \<^item> \<open>L1InfoTree\<close> (\<open>l1infotree/\<close>): the in-memory tree, incremental and from scratch.
  \<^item> \<open>EvmSync\<close> (\<open>sync/\<close>): the driver as a step relation and the downloader; the locale of a processor states what the
    driver needs of one, interpreted for both processors.
  \<^item> \<open>BridgeSync\<close> (\<open>bridgesync/processor.go\<close>, \<open>bridgesync.go\<close>) and \<open>L1InfoTreeSync\<close> (\<open>l1infotreesync/\<close>): tables,
    \<open>ProcessBlock\<close>, \<open>Reorg\<close>, the queries; the trees stay the trees of the stored rows.
  \<^item> \<open>ReorgDetector\<close> (\<open>reorgdetector/\<close>): tracked headers, the detection round, the hand-over to a subscriber.
  \<^item> \<open>EpochNotifier\<close> (\<open>aggsender/epoch_notifier_per_block.go\<close>, \<open>block_notifier_polling.go\<close>,
    \<open>generic_subscriber_impl.go\<close>): epochs in 64-bit arithmetic with the float64 percentage.
  \<^item> \<open>AggLayer\<close> (\<open>agglayer/types.go\<close>, \<open>common/common.go\<close>): certificate data and hashes. \<open>AggSender\<close>
    (\<open>aggsender/aggsender.go\<close>, \<open>aggsender/db/\<close>): the storage and the epoch handler. \<open>Certificates\<close>: the sender on
    top of the two syncers, and the chain of certificates over any number of epochs.
  \<^item> \<open>Hex\<close> (\<open>hex/hex.go\<close>), \<open>BatchCodec\<close> (\<open>state/encoding_batch_v2.go\<close>, \<open>helper.go\<close>, \<open>transaction.go\<close>), \<open>TxBuilder\<close>
    (\<open>sequencesender/txbuilder/\<close>), \<open>SequenceSender\<close> (\<open>sequencesender/sequencesender.go\<close>, \<open>ethtx.go\<close>): from the bytes
    of a batch to the transaction on L1. The locale \<open>tx_builder\<close> is the contract of the four builders.
  \<^item> \<open>LastGerSync\<close> (\<open>lastgersync/\<close>), \<open>AggOracle\<close> (\<open>aggoracle/\<close>), \<open>ClaimSponsor\<close> (\<open>claimsponsor/\<close>): the injected roots as a third
    processor of the driver, the oracle's tick and its wait for a transaction, the queue of claims.
  \<^item> \<open>Meddler\<close> (\<open>db/meddler.go\<close>): the codecs of the columns, with the locale \<open>column_codec\<close>.
  \<^item> \<open>Prover\<close> (\<open>aggregator/prover/prover.go\<close>) and \<open>ProofStore\<close> (\<open>state/pgstatestorage/\<close>): the client of a prover, and the
    tables of proofs and sequences with the locale \<open>range_store\<close>.
  \<^item> \<open>Aggregator\<close> (\<open>aggregator/aggregator.go\<close>, \<open>profitabilitychecker.go\<close>): every operation on the proofs, the hashes and the final
    proofs. While an operation waits for a prover, the parameter \<open>ax_meanwhile\<close> acts on the state in place of the other goroutines.
    \<open>AggregatorProofs\<close> is a rely-guarantee argument about the stored proofs, in which the other provers make arbitrary attempts
    of the modelled operations (\<open>others\<close>) and the accumulated input hashes of proved batches are in memory (\<open>remembers\<close>); \<open>AggregatorInputs\<close> follows the accumulated
    input hashes along the contract's chain and verifies the L1 data of an input.
  \<^item> \<open>DataCommittee\<close> (\<open>dataavailability/\<close>), \<open>EventParsers\<close> (\<open>bridgesync/downloader.go\<close>, \<open>l1infotreesync/downloader.go\<close>), \<open>AgglayerErrors\<close> and
    \<open>AgglayerClient\<close> (\<open>agglayer/\<close>): the messages of the committee, the events of logs and the calldata of claims, the errors of
    certificates, and the transactions and calls of the agglayer. \<open>CertificateJson\<close>: the JSON of a certificate determines it.
  \<^item> \<open>BridgeRpc\<close> (\<open>rpc/bridge.go\<close>): the endpoints over their interfaces and over the syncers, with the locale \<open>block_index\<close> for the
    binary search over blocks, interpreted on the leaves of the L1 info tree and on the verifications of a rollup. \<open>GetProof\<close> answers for
    deposits of L1 on the node as it is wired; the index endpoint needs roots by hash, which the wired syncers never return.
  \<^item> \<open>StateKeys\<close> (\<open>merkletree/\<close>): the keys of the state tree and the hash of bytecode over Poseidon. \<open>SequenceStart\<close>: the start of the sequence
    sender and its file of sent transactions, with the temporary file, each step of a save and the bytes written.
  \<^item> \<open>Etherman\<close> (\<open>etherman/etherman.go\<close>, \<open>aggregator.go\<close>): the client of L1, its keys and the settlement transaction. \<open>RpcClients\<close>
    (\<open>rpc/batch.go\<close>, \<open>rpc/client/bridge.go\<close>, \<open>translator/\<close>): the clients of RPC services.
  \<^item> \<open>NodeStart\<close> (\<open>cmd/run.go\<close>): which parts run for the selected components and how they are connected.
  This theory holds what spans the tree implementations.

  \<^bold>\<open>Modelling.\<close> State is passed explicitly; a struct is a record, a table a list of rows in insertion
  order, an interface a record of functions or a locale. Errors are values of \<open>error\<close> in a sum type, a nil
  dereference or an index out of range is \<open>ErrPanic\<close> (or \<open>Panicked\<close>), and waiting for ever is \<open>Blocked\<close> or
  \<open>None\<close>. Integers of Go are words of their width wherever they can wrap around. Contracts, the RPC node, the
  clock, SQLite failures, RLP and keccak are parameters; what a theorem needs of them is a hypothesis
  (\<open>rlp_law\<close>, \<open>no_faults\<close>), and its witness instantiates it.

  \<^bold>\<open>Bounds and fuel.\<close> Trees have height 32, so that theorems about adding leaves assume fewer than \<open>2^32\<close> of
  them. Loops are structural or \<open>partial_function (option)\<close>, with \<open>None\<close> for a loop that never ends, and
  the theorems show that they return; there is no fuel.

  \<^bold>\<open>Not modelled.\<close> Generated code (protobuf messages, contract bindings, mocks), the migrations, configuration files,
  logging and the JSON-RPC transport are I/O around the modelled components. The text of error messages is left out too.
\<close>

text \<open>C27. The two implementations of the L1 info tree agree: the last root the persistent tree
  stores for a list of leaves is the root the in-memory tree of the aggregator builds from
  it, and for every stored leaf both return the same Merkle proof.\<close>

theorem persistent_and_memory_trees_agree:
  assumes "append_inv K db xs" and "xs \<noteq> []" and "tree_ok K t" and "no_faults io"
    and "l1_inv K mt ys" and "mt_height mt = 32" and "length xs + 1 < 2 ^ 32" and "i < length xs"
  shows "\<exists>r p. getLastRootWithTx io t db = Inr r \<and> BuildL1InfoRoot K mt xs = Inr (r_Hash r) \<and>
    GetProof io t db (of_nat i) (r_Hash r) = Inr p \<and>
    ComputeMerkleProof K mt (of_nat i) xs = Inr (p, r_Hash r)"
proof -
  have mt: "mt_ok K mt" "0 < mt_height mt" "unat (mt_height mt) = DefaultHeight"
    using assms(5,6) by (simp_all add: l1_inv_def DefaultHeight_def)
  obtain r where r: "getLastRootWithTx io t db = Inr r"
    using last_root_row [OF assms(1,2)] assms(4)
    by (simp add: getLastRootWithTx_def query_row_def no_faults_def)
  have holds: "\<exists>ys. append_inv K db ys \<and> leaves_fun xs = leaves_fun ys" using assms(1) by blast
  have h: "r_Hash r = leaves_root K xs"
    using append_store.last_root_hash_eq [OF holds r] by (simp add: leaves_root_def)
  have fits: "length xs \<le> 2 ^ unat (mt_height mt)"
    using assms(7) by (simp add: mt(3) DefaultHeight_def)
  have "GetProof io t db (of_nat i) (r_Hash r) =
      Inr (siblings K DefaultHeight (leaves_fun xs) (unat (of_nat i :: u32)))"
    using GetProof_repr [OF assms(3) append_store.holds_wf [OF holds]
        append_store.last_root_repr [OF holds r], where io = io and index = "of_nat i"] assms(4)
    by blast
  with r h BuildL1InfoRoot_ok [OF mt(1,2) fits] ComputeMerkleProof_ok [OF mt(1,2) fits assms(7), of "of_nat i"]
  show ?thesis by (simp add: mt(3) leaves_root_def)
qed

theorem persistent_and_memory_trees_agree_witness:
  "\<exists>mt r p. NewL1InfoTree sample_keccak 32 [] = Inr mt \<and>
     getLastRootWithTx (\<lambda>_. False) (newTree sample_keccak ''t_'') sample_db = Inr r \<and>
     BuildL1InfoRoot sample_keccak mt [1] = Inr (r_Hash r) \<and>
     GetProof (\<lambda>_. False) (newTree sample_keccak ''t_'') sample_db (of_nat 0) (r_Hash r) = Inr p \<and>
     ComputeMerkleProof sample_keccak mt (of_nat 0) [1] = Inr (p, r_Hash r)"
proof -
  obtain mt where mt: "NewL1InfoTree sample_keccak 32 [] = Inr mt" "l1_inv sample_keccak mt []"
    "mt_height mt = 32" using NewL1InfoTree_ok [of 32 "[]" sample_keccak] by auto
  have "append_inv sample_keccak sample_db [1]" using sample_added_ok by blast
  from persistent_and_memory_trees_agree [OF this _ tree_ok_newTree no_faults_False mt(2,3),
      of 0 "''t_''"] mt(1)
  show ?thesis by auto
qed

end
